(* ===== verification/Prelude.thy ===== *)
theory Prelude
  imports Main "HOL-Library.Word" "HOL-Library.Monad_Syntax"
begin

text \<open>
  Shared vocabulary of the development: the machine integer types of the sources
  (\<^verbatim>\<open>uint8_t\<close> to \<^verbatim>\<open>uint64_t\<close>), the big-endian byte layout used on the wire, checked
  reads of a byte buffer, and generic lemmas on words, intervals and lists that several
  components use. Components collect their rewrite rules in the named collections
  declared here.
\<close>

unbundle bit_operations_syntax

named_theorems seq_simps \<open>sequence-space comparisons as comparisons of stream positions\<close>
named_theorems wire_simps \<open>lengths and reads of encoded packets\<close>
named_theorems flag_simps \<open>bit flags of the control block\<close>

type_synonym u8 = "8 word"
type_synonym u16 = "16 word"
type_synonym u32 = "32 word"
type_synonym u64 = "64 word"
type_synonym i32 = "32 word"
type_synonym bytes = "8 word list"

subsection \<open>Words and natural numbers\<close>

lemma unat_lt_exp [simp]: "unat (x :: 'a::len word) < 2 ^ LENGTH('a)"
  by (rule unsigned_less)

lemma unat_u8_bound: "unat (x :: u8) < 256"
  using unat_lt_exp [of x] by simp

lemma unat_u16_bound: "unat (x :: u16) < 65536"
  using unat_lt_exp [of x] by simp

lemma unat_u32_bound: "unat (x :: u32) < 4294967296"
  using unat_lt_exp [of x] by simp

lemma unat_of_nat_small: "n < 2 ^ LENGTH('a) \<Longrightarrow> unat (of_nat n :: 'a::len word) = n"
  by (simp add: unsigned_of_nat take_bit_nat_eq_self_iff)

lemma unat_of_nat_mod: "unat (of_nat n :: 'a::len word) = n mod 2 ^ LENGTH('a)"
  by (simp add: unsigned_of_nat take_bit_eq_mod)

lemma word_eq_of_unat: "unat (x :: 'a::len word) = n \<Longrightarrow> x = of_nat n"
  by auto

lemma unat_plus_small:
  "unat (x :: 'a::len word) + unat y < 2 ^ LENGTH('a) \<Longrightarrow> unat (x + y) = unat x + unat y"
  by (simp add: unat_word_ariths)

lemma unat_ucast_up:
  "LENGTH('a) \<le> LENGTH('b) \<Longrightarrow> unat (ucast (x :: 'a::len word) :: 'b::len word) = unat x"
proof -
  assume le: "LENGTH('a) \<le> LENGTH('b)"
  have "unat x < 2 ^ LENGTH('b)"
    by (rule less_le_trans [OF unat_lt_exp]) (simp add: le)
  then show ?thesis
    by (simp add: unsigned_ucast_eq take_bit_nat_eq_self_iff)
qed

lemma unat_ucast_mod: "unat (ucast (x :: 'a::len word) :: 'b::len word) = unat x mod 2 ^ LENGTH('b)"
  by (simp add: unsigned_ucast_eq take_bit_eq_mod)

subsection \<open>Signed readings of 32-bit words\<close>

text \<open>\<^verbatim>\<open>int32_t(x)\<close> is \<^term>\<open>sint (x :: u32)\<close>; its sign is bit 31.\<close>

lemma sint32_cases:
  "sint (x :: u32) = (if unat x < 2 ^ 31 then int (unat x) else int (unat x) - 2 ^ 32)"
proof -
  define n where "n = unat x"
  have u: "uint x = int n" and b: "n < 2 ^ 32"
    using unat_u32_bound [of x] by (simp_all add: n_def)
  have "sint x = signed_take_bit 31 (uint x)"
    by (simp add: sint_uint)
  also have "\<dots> = (int n + 2 ^ 31) mod 2 ^ 32 - 2 ^ 31"
    by (simp add: u signed_take_bit_eq_take_bit_shift take_bit_eq_mod)
  also have "(int n + 2 ^ 31) mod 2 ^ 32 = (if n < 2 ^ 31 then int n + 2 ^ 31 else int n - 2 ^ 31)"
  proof (cases "n < 2 ^ 31")
    case True
    then show ?thesis by simp
  next
    case False
    have "int n + 2 ^ 31 = (int n - 2 ^ 31) + 2 ^ 32" by simp
    moreover have "(int n - 2 ^ 31) mod 2 ^ 32 = int n - 2 ^ 31"
      using False b by simp
    ultimately show ?thesis using False by (simp only: mod_add_self2 if_False)
  qed
  finally show ?thesis by (simp add: n_def [symmetric])
qed

end
