(* ===== verification/Seq.thy ===== *)
theory Seq
  imports Prelude
begin

text \<open>
  TCP sequence-space comparison, \<^verbatim>\<open>include/tp/seq.hpp\<close>. Sequence numbers are 32-bit
  words; the order of two of them is the sign of their wrapped difference. The lemmas
  relate the comparisons to the order of unbounded stream positions: a position \<open>n\<close> of a
  stream that starts at \<open>isn\<close> is carried as \<open>isn + of_nat n\<close>, and the comparisons are
  exact for positions less than half the sequence space apart, however often the 32-bit
  counter has wrapped.
\<close>

definition seq_lt :: "u32 \<Rightarrow> u32 \<Rightarrow> bool" where
  "seq_lt a b \<longleftrightarrow> sint (a - b) < 0"

definition seq_leq :: "u32 \<Rightarrow> u32 \<Rightarrow> bool" where
  "seq_leq a b \<longleftrightarrow> sint (a - b) \<le> 0"

definition seq_gt :: "u32 \<Rightarrow> u32 \<Rightarrow> bool" where
  "seq_gt a b \<longleftrightarrow> sint (a - b) > 0"

definition seq_geq :: "u32 \<Rightarrow> u32 \<Rightarrow> bool" where
  "seq_geq a b \<longleftrightarrow> sint (a - b) \<ge> 0"

lemmas seq_defs = seq_lt_def seq_leq_def seq_gt_def seq_geq_def

subsection \<open>Stream positions\<close>

abbreviation seqno :: "u32 \<Rightarrow> nat \<Rightarrow> u32" where
  "seqno isn n \<equiv> isn + of_nat n"

definition near :: "nat \<Rightarrow> nat \<Rightarrow> bool" where
  "near a b \<longleftrightarrow> a < b + 2 ^ 31 \<and> b < a + 2 ^ 31"

lemma near_sym: "near a b \<longleftrightarrow> near b a"
  by (auto simp: near_def)

lemma nearI: "\<lbrakk> lo \<le> a; a < lo + 2 ^ 31; lo \<le> b; b < lo + 2 ^ 31 \<rbrakk> \<Longrightarrow> near a b"
  by (simp add: near_def)

lemma sint_of_int_small:
  assumes "- (2 ^ 31) \<le> k" "k < 2 ^ 31"
  shows "sint (of_int k :: u32) = k"
  using assms by (simp add: signed_of_int signed_take_bit_int_eq_self)

lemma sint_nat_diff:
  assumes "near a b"
  shows "sint (of_nat a - of_nat b :: u32) = int a - int b"
proof -
  have "(of_nat a - of_nat b :: u32) = of_int (int a - int b)" by simp
  also have "sint \<dots> = int a - int b"
    by (rule sint_of_int_small) (use assms in \<open>auto simp: near_def\<close>)
  finally show ?thesis .
qed

lemma seq_lt_seqno [seq_simps]: "near a b \<Longrightarrow> seq_lt (seqno isn a) (seqno isn b) \<longleftrightarrow> a < b"
  by (auto simp: seq_defs sint_nat_diff)

lemma seq_leq_seqno [seq_simps]: "near a b \<Longrightarrow> seq_leq (seqno isn a) (seqno isn b) \<longleftrightarrow> a \<le> b"
  by (auto simp: seq_defs sint_nat_diff)

lemma seq_gt_seqno [seq_simps]: "near a b \<Longrightarrow> seq_gt (seqno isn a) (seqno isn b) \<longleftrightarrow> b < a"
  by (auto simp: seq_defs sint_nat_diff)

lemma seq_geq_seqno [seq_simps]: "near a b \<Longrightarrow> seq_geq (seqno isn a) (seqno isn b) \<longleftrightarrow> b \<le> a"
  by (auto simp: seq_defs sint_nat_diff)

lemma seqno_eq_iff:
  assumes "near a b"
  shows "seqno isn a = seqno isn b \<longleftrightarrow> a = b"
proof
  assume "seqno isn a = seqno isn b"
  then have "(of_nat a - of_nat b :: u32) = 0" by simp
  then show "a = b" using sint_nat_diff [OF assms] by simp
qed simp

subsection \<open>Order-theoretic facts on the words themselves\<close>

lemma seq_lt_irrefl [simp]: "\<not> seq_lt a a"
  by (simp add: seq_defs)

lemma seq_leq_refl [simp]: "seq_leq a a"
  by (simp add: seq_defs)

lemma seq_geq_refl [simp]: "seq_geq a a"
  by (simp add: seq_defs)

lemma seq_gt_not_leq: "seq_gt a b \<longleftrightarrow> \<not> seq_leq a b"
  by (auto simp: seq_defs)

lemma seq_geq_not_lt: "seq_geq a b \<longleftrightarrow> \<not> seq_lt a b"
  by (auto simp: seq_defs)

lemma sint_eq_0_iff: "sint (d :: u32) = 0 \<longleftrightarrow> d = 0"
proof
  assume "sint d = 0"
  then have "(of_int (sint d) :: u32) = of_int 0" by (rule arg_cong)
  then show "d = 0" by simp
qed simp

lemma seq_leq_lt_eq: "seq_leq a b \<longleftrightarrow> seq_lt a b \<or> a = b"
proof -
  have "sint (a - b) = 0 \<longleftrightarrow> a = b"
    by (simp only: sint_eq_0_iff eq_iff_diff_eq_0 [symmetric])
  then show ?thesis by (auto simp: seq_defs)
qed

text \<open>
  Antisymmetry holds everywhere but at the antipode: \<open>b = a + 2 ^ 31\<close> is the one
  difference that is its own negative.
\<close>

lemma seq_lt_asym:
  assumes "a - b \<noteq> 2 ^ 31" and "seq_lt a b"
  shows "\<not> seq_lt b a"
proof -
  define k where "k = sint (a - b)"
  have d: "a - b = of_int k" by (simp add: k_def)
  have "k \<noteq> - (2 ^ 31)"
    using assms(1) d by auto
  moreover have "- (2 ^ 31) \<le> k" "k < 2 ^ 31"
    using sint_ge [of "a - b"] sint_lt [of "a - b"] by (simp_all add: k_def)
  ultimately have "sint (of_int (- k) :: u32) = - k"
    by (intro sint_of_int_small) auto
  moreover have "b - a = of_int (- k)"
  proof -
    have "b - a = - (a - b)" by (rule minus_diff_eq [symmetric])
    then show ?thesis by (simp only: d of_int_minus)
  qed
  ultimately have "sint (b - a) = - k" by (simp only:)
  then show ?thesis
    using assms(2) by (simp add: seq_lt_def k_def)
qed

lemma seq_lt_antipode: "seq_lt a (a + 2 ^ 31) \<and> seq_lt (a + 2 ^ 31) a"
  by (simp add: seq_lt_def)

subsection \<open>Properties\<close>

text \<open>
  For stream positions less than half the sequence space apart the four
  comparisons on 32-bit sequence numbers agree with the order of the positions, for every
  initial sequence number and however often the 32-bit number has wrapped.
\<close>

lemma seq_order_exact:
  assumes "near a b"
  shows "(seq_lt (seqno isn a) (seqno isn b) \<longleftrightarrow> a < b) \<and> (seq_leq (seqno isn a) (seqno isn b) \<longleftrightarrow> a \<le> b)
    \<and> (seq_gt (seqno isn a) (seqno isn b) \<longleftrightarrow> b < a) \<and> (seq_geq (seqno isn a) (seqno isn b) \<longleftrightarrow> b \<le> a)"
  using assms by (simp add: seq_simps)

text \<open>
  Two sequence numbers precede each other exactly when they are half the
  sequence space apart; everywhere else the comparison is asymmetric.
\<close>

lemma seq_lt_both_ways: "seq_lt a b \<and> seq_lt b a \<longleftrightarrow> a - b = 2 ^ 31"
proof
  assume "seq_lt a b \<and> seq_lt b a"
  then show "a - b = 2 ^ 31" using seq_lt_asym by blast
next
  assume "a - b = 2 ^ 31"
  then have "a = b + 2 ^ 31" by (simp only: diff_eq_eq add.commute)
  then show "seq_lt a b \<and> seq_lt b a" using seq_lt_antipode [of b] by blast
qed

end
