(* ===== verification/Checksum.thy ===== *)
theory Checksum
  imports Prelude
begin

text \<open>
  The Internet checksum of \<^verbatim>\<open>include/tp/checksum.hpp\<close>: an unfolded 32-bit accumulator
  over big-endian 16-bit words (\<open>sum_be16\<close>) and the fold-and-complement step
  (\<open>fold_csum\<close>, the source's \<^verbatim>\<open>fold\<close>). The lemmas give the folded value in closed form
  (a residue modulo 65535), show that the accumulator splits over even-length prefixes,
  so that a pseudo-header can be summed apart from the segment, and that a block that
  carries its own checksum folds to zero.
\<close>

subsection \<open>The accumulator\<close>

fun sum_be16_loop :: "u32 \<Rightarrow> bytes \<Rightarrow> u32" where
  "sum_be16_loop acc (a # b # p) = sum_be16_loop (acc + (push_bit 8 (ucast a) OR ucast b)) p"
| "sum_be16_loop acc [a] = acc + push_bit 8 (ucast a)"
| "sum_be16_loop acc [] = acc"

definition sum_be16 :: "bytes \<Rightarrow> u32" where
  "sum_be16 data = sum_be16_loop 0 data"

subsection \<open>The fold\<close>

lemma unat_and_ffff: "unat ((s :: u32) AND 0xffff) = unat s mod 65536"
proof -
  have "s AND 0xffff = take_bit 16 s"
    by (simp add: take_bit_eq_mask mask_eq_exp_minus_1)
  then show ?thesis by (simp add: take_bit_eq_mod unat_mod_distrib)
qed

lemma unat_drop_16: "unat (drop_bit 16 (s :: u32)) = unat s div 65536"
  by (simp add: drop_bit_eq_div unat_div_distrib)

lemma unat_fold_step:
  "unat (((s :: u32) AND 0xffff) + drop_bit 16 s) = unat s mod 65536 + unat s div 65536"
proof -
  have "unat s div 65536 < 65536"
    using unat_u32_bound [of s] by (simp add: less_mult_imp_div_less)
  moreover have "unat s mod 65536 < 65536" by simp
  ultimately show ?thesis
    by (subst unat_plus_small) (simp_all add: unat_and_ffff unat_drop_16)
qed

lemma drop_16_nonzero: "drop_bit 16 (s :: u32) \<noteq> 0 \<longleftrightarrow> 65536 \<le> unat s"
proof -
  have "drop_bit 16 s = 0 \<longleftrightarrow> unat (drop_bit 16 s) = 0" by (simp add: unat_0_iff)
  also have "\<dots> \<longleftrightarrow> unat s < 65536" by (simp add: unat_drop_16 div_eq_0_iff)
  finally show ?thesis by auto
qed

lemma fold_step_decreases:
  assumes "drop_bit 16 (s :: u32) \<noteq> 0"
  shows "unat ((s AND 0xffff) + drop_bit 16 s) < unat s"
proof -
  have "unat s = unat s div 65536 * 65536 + unat s mod 65536" by simp
  moreover have "0 < unat s div 65536"
    using assms by (simp add: drop_16_nonzero div_greater_zero_iff)
  ultimately show ?thesis unfolding unat_fold_step by linarith
qed

function fold_loop :: "u32 \<Rightarrow> u32" where
  "fold_loop acc =
     (if drop_bit 16 acc \<noteq> 0 then fold_loop ((acc AND 0xffff) + drop_bit 16 acc) else acc)"
  by pat_completeness auto
termination
  by (relation "measure unat") (auto intro: fold_step_decreases)

declare fold_loop.simps [simp del]

definition fold_csum :: "u32 \<Rightarrow> u16" where
  "fold_csum acc = ucast (NOT (fold_loop acc) AND 0xffff)"

subsection \<open>The folded value\<close>

text \<open>The ones-complement residue of a sum: 0 only for 0, otherwise in \<open>1..65535\<close>.\<close>

definition oc_residue :: "nat \<Rightarrow> nat" where
  "oc_residue n = (if n = 0 then 0 else (n - 1) mod 65535 + 1)"

lemma oc_residue_le: "oc_residue n \<le> 65535"
  using mod_less_divisor [of 65535 "n - 1"] by (simp add: oc_residue_def del: mod_less_divisor)

lemma oc_residue_small: "n < 65536 \<Longrightarrow> oc_residue n = n"
  by (auto simp: oc_residue_def)

lemma oc_residue_step: "65536 \<le> n \<Longrightarrow> oc_residue (n mod 65536 + n div 65536) = oc_residue n"
proof -
  assume n: "65536 \<le> n"
  define q r where "q = n div 65536" and "r = n mod 65536"
  have nq: "n = 65536 * q + r" by (simp add: q_def r_def)
  have q: "0 < q" using n by (simp add: q_def div_greater_zero_iff)
  have "n - 1 = (r + q - 1) + 65535 * q" using nq q by simp
  then have "(n - 1) mod 65535 = (r + q - 1) mod 65535" by (simp only: mod_mult_self2)
  then show ?thesis using n q by (simp add: oc_residue_def q_def r_def)
qed

lemma oc_residue_add_self: "oc_residue (n + (65535 - oc_residue n)) = 65535"
proof (cases "n = 0")
  case True
  then show ?thesis by (simp add: oc_residue_def)
next
  case False
  define q r where "q = (n - 1) div 65535" and "r = (n - 1) mod 65535"
  have "n - 1 = 65535 * q + r" by (simp add: q_def r_def)
  moreover have "r < 65535" by (simp add: r_def)
  ultimately have "n + (65535 - (r + 1)) - 1 = 65534 + 65535 * q" using False by linarith
  then have "(n + (65535 - (r + 1)) - 1) mod 65535 = 65534 mod 65535"
    by (simp only: mod_mult_self2)
  moreover have "n + (65535 - (r + 1)) \<noteq> 0" using False by simp
  ultimately show ?thesis using False by (simp add: oc_residue_def r_def)
qed

lemma unat_fold_loop: "unat (fold_loop s) = oc_residue (unat s)"
proof (induction s rule: fold_loop.induct)
  case (1 s)
  show ?case
  proof (cases "drop_bit 16 s \<noteq> 0")
    case True
    then have "unat (fold_loop s) = oc_residue (unat ((s AND 0xffff) + drop_bit 16 s))"
      by (subst fold_loop.simps) (simp add: "1")
    also have "\<dots> = oc_residue (unat s)"
      unfolding unat_fold_step by (rule oc_residue_step) (use True drop_16_nonzero in blast)
    finally show ?thesis .
  next
    case False
    then show ?thesis
      by (subst fold_loop.simps) (simp add: drop_16_nonzero oc_residue_small)
  qed
qed

lemma unat_not_and_ffff: "unat (NOT (s :: u32) AND 0xffff) = 65535 - unat s mod 65536"
proof -
  have m: "(0xffff :: u32) = mask 16" by (simp add: mask_eq_exp_minus_1)
  have t: "unat (take_bit 16 s) = unat s mod 65536"
    by (simp add: take_bit_eq_mod unat_mod_distrib)
  then have "unat (take_bit 16 s) \<le> unat (mask 16 :: u32)"
    using mod_less_divisor [of 65536 "unat s"] by (simp add: m [symmetric] del: mod_less_divisor)
  then have "unat (mask 16 - take_bit 16 s) = unat (mask 16 :: u32) - unat (take_bit 16 s)"
    by (simp add: unat_sub word_le_nat_alt)
  moreover have "NOT s AND 0xffff = mask 16 - take_bit 16 s"
    by (simp add: m take_bit_not_eq_mask_diff flip: take_bit_eq_mask)
  ultimately show ?thesis by (simp add: t m [symmetric])
qed

lemma unat_fold_csum: "unat (fold_csum s) = 65535 - oc_residue (unat s)"
proof -
  have "oc_residue (unat s) mod 65536 = oc_residue (unat s)"
    using oc_residue_le [of "unat s"] by simp
  then have "unat (NOT (fold_loop s) AND 0xffff) = 65535 - oc_residue (unat s)"
    by (simp add: unat_not_and_ffff unat_fold_loop)
  then show ?thesis by (simp add: fold_csum_def unat_ucast_mod)
qed

text \<open>A sum that has its own folded complement added to it folds to zero.\<close>

lemma fold_csum_verifies:
  assumes "unat s + unat (fold_csum s) < 2 ^ 32"
  shows "fold_csum (s + ucast (fold_csum s)) = 0"
proof -
  have "unat (s + ucast (fold_csum s)) = unat s + unat (fold_csum s)"
    using assms by (simp add: unat_plus_small unat_ucast_up)
  then have "unat (fold_csum (s + ucast (fold_csum s))) = 0"
    by (simp add: unat_fold_csum oc_residue_add_self)
  then show ?thesis by (simp only: unat_0_iff)
qed

subsection \<open>Splitting the accumulator\<close>

lemma sum_be16_loop_acc: "sum_be16_loop (acc + k) xs = acc + sum_be16_loop k xs"
proof (induction k xs arbitrary: acc rule: sum_be16_loop.induct)
  case (1 k a b p)
  show ?case by (simp add: "1" add.assoc)
qed (simp_all add: add.assoc)

lemma sum_be16_Nil [simp]: "sum_be16 [] = 0"
  by (simp add: sum_be16_def)

lemma sum_be16_pair:
  "sum_be16 (a # b # p) = (push_bit 8 (ucast a) OR ucast b) + sum_be16 p"
  using sum_be16_loop_acc [of "push_bit 8 (ucast a) OR ucast b" 0 p] by (simp add: sum_be16_def)

lemma sum_be16_append: "even (length xs) \<Longrightarrow> sum_be16 (xs @ ys) = sum_be16 xs + sum_be16 ys"
proof (induction xs rule: induct_list012)
  case (3 a b xs)
  then show ?case by (simp add: sum_be16_pair add.assoc)
qed simp_all

lemma unat_be16_word: "unat (push_bit 8 (ucast (a :: u8)) OR ucast (b :: u8) :: u32) = 256 * unat a + unat b"
proof -
  have "(push_bit 8 (ucast a) :: u32) AND ucast b = 0"
    by (rule bit_word_eqI) (auto simp: bit_simps dest: bit_imp_le_length)
  then have "push_bit 8 (ucast a) OR ucast b = (push_bit 8 (ucast a) + ucast b :: u32)"
    by (simp add: disjunctive_add_eq_or)
  moreover have "unat (push_bit 8 (ucast a) :: u32) = 256 * unat a"
    using unat_u8_bound [of a]
    by (simp add: push_bit_eq_mult unat_word_ariths unat_ucast_up)
  ultimately show ?thesis
    using unat_u8_bound [of a] unat_u8_bound [of b]
    by (simp add: unat_plus_small unat_ucast_up)
qed

lemma unat_sum_be16_le: "unat (sum_be16 xs) \<le> 65535 * ((length xs + 1) div 2)"
proof (induction xs rule: induct_list012)
  case (2 a)
  have "unat (push_bit 8 (ucast a) :: u32) \<le> 65535"
    using unat_be16_word [of a 0] unat_u8_bound [of a] by simp
  then show ?case by (simp add: sum_be16_def)
next
  case (3 a b xs)
  let ?w = "push_bit 8 (ucast a) OR ucast b :: u32"
  have "unat (?w + sum_be16 xs) \<le> unat ?w + unat (sum_be16 xs)"
    by (simp add: unat_word_ariths)
  also have "\<dots> \<le> 65535 + 65535 * ((length xs + 1) div 2)"
    using 3 unat_u8_bound [of a] unat_u8_bound [of b] by (simp add: unat_be16_word)
  finally show ?case by (simp add: sum_be16_pair)
qed simp

subsection \<open>Properties\<close>

text \<open>
  For every 32-bit accumulator the folding loop ends and gives the complement of
  the one's-complement residue: the residue modulo 65535 with 0 represented by 65535 unless
  the accumulator itself is 0.
\<close>

lemma fold_csum_closed_form:
  "unat (fold_csum s) = 65535 - (if s = 0 then 0 else (unat s - 1) mod 65535 + 1)"
  by (simp add: unat_fold_csum oc_residue_def unat_0_iff)

end
