(* ===== verification/Segment.thy ===== *)
theory Segment
  imports Complex_Main Seq Checksum
begin

text \<open>
  IPv4 and TCP segment build and parse: \<^verbatim>\<open>include/tp/segment.hpp\<close> and
  \<^verbatim>\<open>src/segment.cpp\<close>. A frame is a list of bytes: the 4-byte address family that utun
  puts before every packet, the IPv4 header, the TCP header with options, the payload.
  \<open>build\<close> returns \<open>None\<close> where the source returns 0. \<open>parse\<close> reads the frame
  through a checked read: its outer \<open>None\<close> is a read outside the \<open>n\<close> bytes the caller
  passed (undefined behaviour in the source), its inner \<open>None\<close> is the source's
  \<^verbatim>\<open>return false\<close>. Proved: the encoder writes exactly \<open>wire_len\<close> bytes, no frame makes
  the parser read out of bounds, every segment that \<open>build\<close> accepts parses back to
  itself, and both checksums of a built packet verify.
\<close>

subsection \<open>Data\<close>

definition kOptEol :: u8 where "kOptEol = 0"
definition kOptNop :: u8 where "kOptNop = 1"
definition kOptMss :: u8 where "kOptMss = 2"
definition kOptWscale :: u8 where "kOptWscale = 3"
definition kOptSackPermitted :: u8 where "kOptSackPermitted = 4"
definition kOptSack :: u8 where "kOptSack = 5"

lemmas kOpt_defs = kOptEol_def kOptNop_def kOptMss_def kOptWscale_def kOptSackPermitted_def
  kOptSack_def

definition TH_FIN :: u8 where "TH_FIN = 0x01"
definition TH_SYN :: u8 where "TH_SYN = 0x02"
definition TH_RST :: u8 where "TH_RST = 0x04"
definition TH_PUSH :: u8 where "TH_PUSH = 0x08"
definition TH_ACK :: u8 where "TH_ACK = 0x10"
definition TH_URG :: u8 where "TH_URG = 0x20"

lemmas TH_defs = TH_FIN_def TH_SYN_def TH_RST_def TH_PUSH_def TH_ACK_def TH_URG_def

abbreviation has_flag :: "'a::len word \<Rightarrow> 'a word \<Rightarrow> bool" where
  "has_flag x f \<equiv> x AND f \<noteq> 0"

record SeqRange =
  r_start :: u32
  r_end :: u32

lemma SeqRange_eta [simp]: "\<lparr>r_start = r_start r, r_end = r_end r\<rparr> = r"
  by (cases r) simp

definition SeqRange_len :: "SeqRange \<Rightarrow> u32" where
  "SeqRange_len r = r_end r - r_start r"

record Options =
  o_mss :: "u16 option"
  o_sack_permitted :: bool
  o_sack_blocks :: "SeqRange list"
  o_wscale :: "u8 option"

definition no_options :: Options where
  "no_options = \<lparr>o_mss = None, o_sack_permitted = False, o_sack_blocks = [], o_wscale = None\<rparr>"

definition Options_empty :: "Options \<Rightarrow> bool" where
  "Options_empty op = (o_mss op = None \<and> \<not> o_sack_permitted op \<and> o_sack_blocks op = [] \<and> o_wscale op = None)"

record Seg =
  s_seq :: u32
  s_ack :: u32
  s_flags :: u8
  s_win :: u16
  s_sport :: u16
  s_dport :: u16
  s_payload :: bytes
  s_opt :: Options
  s_t_ms :: real

definition new_Seg :: Seg where
  "new_Seg = \<lparr>s_seq = 0, s_ack = 0, s_flags = 0, s_win = 0, s_sport = 0, s_dport = 0,
     s_payload = [], s_opt = no_options, s_t_ms = 0\<rparr>"

definition seq_span :: "Seg \<Rightarrow> u32" where
  "seq_span s = of_nat (length (s_payload s)) + (if has_flag (s_flags s) TH_SYN then 1 else 0)
     + (if has_flag (s_flags s) TH_FIN then 1 else 0)"

subsection \<open>Big-endian fields\<close>

definition put16 :: "u16 \<Rightarrow> bytes" where
  "put16 v = [ucast (drop_bit 8 v), ucast v]"

definition put32 :: "u32 \<Rightarrow> bytes" where
  "put32 v = [ucast (drop_bit 24 v), ucast (drop_bit 16 v), ucast (drop_bit 8 v), ucast v]"

definition get16 :: "u8 \<Rightarrow> u8 \<Rightarrow> u16" where
  "get16 p0 p1 = push_bit 8 (ucast p0) OR ucast p1"

definition get32 :: "u8 \<Rightarrow> u8 \<Rightarrow> u8 \<Rightarrow> u8 \<Rightarrow> u32" where
  "get32 p0 p1 p2 p3 =
     push_bit 24 (ucast p0) OR push_bit 16 (ucast p1) OR push_bit 8 (ucast p2) OR ucast p3"

lemma length_put16 [simp]: "length (put16 v) = 2"
  by (simp add: put16_def)

lemma length_put32 [simp]: "length (put32 v) = 4"
  by (simp add: put32_def)

lemma get16_put16 [simp]: "get16 (ucast (drop_bit 8 v)) (ucast v) = v"
  unfolding get16_def by (rule bit_word_eqI) (auto simp: bit_simps)

lemma get32_put32 [simp]:
  "get32 (ucast (drop_bit 24 v)) (ucast (drop_bit 16 v)) (ucast (drop_bit 8 v)) (ucast v) = v"
proof (rule bit_word_eqI)
  fix n
  assume "n < LENGTH(32)"
  then consider "n < 8" | "8 \<le> n \<and> n < 16" | "16 \<le> n \<and> n < 24" | "24 \<le> n \<and> n < 32"
    by fastforce
  then show "bit (get32 (ucast (drop_bit 24 v)) (ucast (drop_bit 16 v)) (ucast (drop_bit 8 v))
      (ucast v)) n = bit v n"
    by cases (auto simp: get32_def bit_simps)
qed

subsection \<open>The option encoder\<close>

definition wire_len :: "Options \<Rightarrow> nat" where
  "wire_len op =
     (let n = 0;
          n = (if o_mss op \<noteq> None then n + 4 else n);
          n = (if o_wscale op \<noteq> None then n + 3 else n);
          n = (if o_sack_permitted op then n + 2 else n);
          n = (if o_sack_blocks op \<noteq> [] then n + (4 + 8 * length (o_sack_blocks op)) else n)
      in 4 * ((n + 3) div 4))"

lemma pad_decreases:
  assumes "0 < l mod (4::nat)"
  shows "(4 - Suc l mod 4) mod 4 < 4 - l mod 4"
proof -
  have "l mod 4 = 1 \<or> l mod 4 = 2 \<or> l mod 4 = 3"
    using assms mod_less_divisor [of 4 l] by linarith
  then show ?thesis by (auto simp: mod_Suc)
qed

function pad_eol :: "bytes \<Rightarrow> bytes" where
  "pad_eol out = (if length out mod 4 \<noteq> 0 then pad_eol (out @ [kOptEol]) else out)"
  by pat_completeness auto
termination
  by (relation "measure (\<lambda>out. (4 - length out mod 4) mod 4)") (auto intro: pad_decreases)

declare pad_eol.simps [simp del]

definition encode :: "Options \<Rightarrow> bytes" where
  "encode op =
     (let out = [];
          out = (case o_mss op of Some m \<Rightarrow> out @ [kOptMss, 4] @ put16 m | None \<Rightarrow> out);
          out = (if o_sack_permitted op then out @ [kOptSackPermitted, 2] else out);
          out = (case o_wscale op of Some w \<Rightarrow> out @ [kOptWscale, 3, w] | None \<Rightarrow> out);
          out = (if o_sack_blocks op \<noteq> []
                 then out @ [kOptNop, kOptNop, kOptSack, of_nat (2 + 8 * length (o_sack_blocks op))]
                   @ concat (map (\<lambda>b. put32 (r_start b) @ put32 (r_end b)) (o_sack_blocks op))
                 else out)
      in pad_eol out)"

definition flagstr :: "u8 \<Rightarrow> string" where
  "flagstr f =
     (let s = [];
          s = (if has_flag f TH_FIN then s @ ''F'' else s);
          s = (if has_flag f TH_SYN then s @ ''S'' else s);
          s = (if has_flag f TH_RST then s @ ''R'' else s);
          s = (if has_flag f TH_PUSH then s @ ''P'' else s);
          s = (if has_flag f TH_ACK then s @ ''A'' else s);
          s = (if has_flag f TH_URG then s @ ''U'' else s)
      in if s = [] then ''-'' else s)"

subsection \<open>Building a packet\<close>

text \<open>
  An IPv4 address is carried as the word whose big-endian bytes are the address. The
  header writers below list the bytes of \<^verbatim>\<open>struct ip\<close> and \<^verbatim>\<open>struct tcphdr\<close> in memory
  order, with the checksum field as an argument, since the source writes it last, over a
  header in which it is zero.
\<close>

type_synonym in_addr = u32

definition AF_INET :: u32 where "AF_INET = 2"
definition IPPROTO_TCP :: u8 where "IPPROTO_TCP = 6"

definition ip_header :: "nat \<Rightarrow> u16 \<Rightarrow> u16 \<Rightarrow> in_addr \<Rightarrow> in_addr \<Rightarrow> bytes" where
  "ip_header tot_len ip_id ip_sum src dst =
     [0x45, 0] @ put16 (of_nat tot_len) @ put16 ip_id @ [0, 0] @ [64, IPPROTO_TCP]
     @ put16 ip_sum @ put32 src @ put32 dst"

definition tcp_header :: "Seg \<Rightarrow> nat \<Rightarrow> u16 \<Rightarrow> bytes" where
  "tcp_header s tcplen th_sum =
     put16 (s_sport s) @ put16 (s_dport s) @ put32 (s_seq s) @ put32 (s_ack s)
     @ [push_bit 4 (of_nat (tcplen div 4)), s_flags s] @ put16 (s_win s)
     @ put16 th_sum @ [0, 0]"

definition pseudo_header :: "in_addr \<Rightarrow> in_addr \<Rightarrow> nat \<Rightarrow> bytes" where
  "pseudo_header src dst len = put32 src @ put32 dst @ [0, IPPROTO_TCP] @ put16 (of_nat len)"

definition build :: "nat \<Rightarrow> in_addr \<Rightarrow> in_addr \<Rightarrow> Seg \<Rightarrow> u16 \<Rightarrow> bytes option" where
  "build out_cap src dst s ip_id =
     (let optlen = wire_len (s_opt s) in
      if optlen > 40 then None
      else
        (let opts = encode (s_opt s);
             optbuf = opts @ replicate (40 - length opts) 0;
             iplen = 20;
             tcplen = 20 + optlen;
             tot_len = iplen + tcplen + length (s_payload s) in
         if 4 + tot_len > out_cap then None
         else
           (let ih0 = ip_header tot_len ip_id 0 src dst;
                ih = ip_header tot_len ip_id (fold_csum (sum_be16 ih0)) src dst;
                rest = take optlen optbuf @ s_payload s;
                seglen = tcplen + length (s_payload s);
                ph = pseudo_header src dst seglen;
                th_sum = fold_csum (sum_be16 ph + sum_be16 (tcp_header s tcplen 0 @ rest))
            in Some (put32 AF_INET @ ih @ tcp_header s tcplen th_sum @ rest))))"

subsection \<open>Parsing a frame\<close>

definition rd :: "bytes \<Rightarrow> nat \<Rightarrow> u8 option" where
  "rd f i = (if i < length f then Some (f ! i) else None)"

definition rd16 :: "bytes \<Rightarrow> nat \<Rightarrow> u16 option" where
  "rd16 f i = do { p0 \<leftarrow> rd f i; p1 \<leftarrow> rd f (i + 1); Some (get16 p0 p1) }"

definition rd32 :: "bytes \<Rightarrow> nat \<Rightarrow> u32 option" where
  "rd32 f i = do { p0 \<leftarrow> rd f i; p1 \<leftarrow> rd f (i + 1); p2 \<leftarrow> rd f (i + 2); p3 \<leftarrow> rd f (i + 3);
     Some (get32 p0 p1 p2 p3) }"

text \<open>The inner loop of the SACK case: blocks from \<open>b\<close> while 8 more bytes fit before \<open>last_b\<close>.\<close>

function parse_sack :: "bytes \<Rightarrow> nat \<Rightarrow> nat \<Rightarrow> nat \<Rightarrow> SeqRange list \<Rightarrow> SeqRange list option" where
  "parse_sack f ob b last_b acc =
     (if b + 8 \<le> last_b
      then do { st \<leftarrow> rd32 f (ob + b); en \<leftarrow> rd32 f (ob + b + 4);
                parse_sack f ob (b + 8) last_b (acc @ [\<lparr>r_start = st, r_end = en\<rparr>]) }
      else Some acc)"
  by pat_completeness auto
termination
  by (relation "measure (\<lambda>(f, ob, b, last_b, acc). last_b - b)") auto

declare parse_sack.simps [simp del]

definition parse_option :: "bytes \<Rightarrow> nat \<Rightarrow> nat \<Rightarrow> u8 \<Rightarrow> u8 \<Rightarrow> Options \<Rightarrow> Options option" where
  "parse_option f ob i kind len opt =
     (if kind = kOptMss then
        (if len = 4 then do { m \<leftarrow> rd16 f (ob + i + 2); Some (opt\<lparr>o_mss := Some m\<rparr>) } else Some opt)
      else if kind = kOptSackPermitted then
        (if len = 2 then Some (opt\<lparr>o_sack_permitted := True\<rparr>) else Some opt)
      else if kind = kOptWscale then
        (if len = 3 then do { w \<leftarrow> rd f (ob + i + 2); Some (opt\<lparr>o_wscale := Some w\<rparr>) } else Some opt)
      else if kind = kOptSack then
        do { bl \<leftarrow> parse_sack f ob (i + 2) (i + unat len) (o_sack_blocks opt);
             Some (opt\<lparr>o_sack_blocks := bl\<rparr>) }
      else Some opt)"

function parse_options :: "bytes \<Rightarrow> nat \<Rightarrow> nat \<Rightarrow> nat \<Rightarrow> Options \<Rightarrow> Options option" where
  "parse_options f ob olen i opt =
     (if i < olen
      then do { kind \<leftarrow> rd f (ob + i);
                if kind = kOptEol then Some opt
                else if kind = kOptNop then parse_options f ob olen (i + 1) opt
                else if i + 1 \<ge> olen then Some opt
                else do { len \<leftarrow> rd f (ob + i + 1);
                          if unat len < 2 \<or> i + unat len > olen then Some opt
                          else do { opt' \<leftarrow> parse_option f ob i kind len opt;
                                    parse_options f ob olen (i + unat len) opt' } } }
      else Some opt)"
  by pat_completeness auto
termination
  by (relation "measure (\<lambda>(f, ob, olen, i, opt). olen - i)") auto

declare parse_options.simps [simp del]

definition parse :: "bytes \<Rightarrow> Seg \<Rightarrow> Seg option option" where
  "parse frame out =
     (let n = length frame in
      if n < 4 then Some None else do {
        af \<leftarrow> rd32 frame 0;
        if af \<noteq> AF_INET then Some None
        else if n < 4 + 20 then Some None
        else do {
          vhl \<leftarrow> rd frame 4;
          if drop_bit 4 vhl \<noteq> 4 then Some None
          else let ihl = unat (vhl AND 0xf) * 4 in
          if ihl < 20 then Some None
          else do {
            p \<leftarrow> rd frame (4 + 9);
            if p \<noteq> IPPROTO_TCP then Some None
            else do {
              tot \<leftarrow> rd16 frame (4 + 2);
              let iptot = unat tot;
              if iptot > n - 4 then Some None
              else if ihl + 20 > iptot then Some None
              else do {
                offx \<leftarrow> rd frame (4 + ihl + 12);
                let doff = unat (drop_bit 4 offx) * 4;
                if doff < 20 \<or> ihl + doff > iptot then Some None
                else do {
                  sp \<leftarrow> rd16 frame (4 + ihl);
                  dp \<leftarrow> rd16 frame (4 + ihl + 2);
                  sq \<leftarrow> rd32 frame (4 + ihl + 4);
                  ak \<leftarrow> rd32 frame (4 + ihl + 8);
                  fl \<leftarrow> rd frame (4 + ihl + 13);
                  wn \<leftarrow> rd16 frame (4 + ihl + 14);
                  opt \<leftarrow> parse_options frame (4 + ihl + 20) (doff - 20) 0 no_options;
                  let paylen = iptot - ihl - doff;
                  if 4 + ihl + doff + paylen > n then None
                  else Some (Some (out\<lparr>s_sport := sp, s_dport := dp, s_seq := sq, s_ack := ak,
                    s_flags := fl, s_win := wn, s_opt := opt,
                    s_payload := take paylen (drop (4 + ihl + doff) frame)\<rparr>))
                } } } } } })"

subsection \<open>The encoder writes what \<open>wire_len\<close> announces\<close>

lemma pad_eol_eq: "pad_eol out = out @ replicate ((4 - length out mod 4) mod 4) kOptEol"
proof (induction out rule: pad_eol.induct)
  case (1 out)
  show ?case
  proof (cases "length out mod 4 \<noteq> 0")
    case True
    then have r: "length out mod 4 = 1 \<or> length out mod 4 = 2 \<or> length out mod 4 = 3"
      using mod_less_divisor [of 4 "length out"] by linarith
    have "pad_eol out = pad_eol (out @ [kOptEol])"
      using True by (subst pad_eol.simps) simp
    also have "\<dots> = out @ kOptEol # replicate ((4 - Suc (length out) mod 4) mod 4) kOptEol"
      using "1" [OF True] by simp
    also have "\<dots> = out @ replicate ((4 - length out mod 4) mod 4) kOptEol"
    proof -
      have "(4 - length out mod 4) mod 4 = Suc ((4 - Suc (length out) mod 4) mod 4)"
        using r by (auto simp: mod_Suc)
      then show ?thesis by simp
    qed
    finally show ?thesis .
  next
    case False
    then show ?thesis by (subst pad_eol.simps) simp
  qed
qed

lemma length_pad_eol: "length (pad_eol out) = 4 * ((length out + 3) div 4)"
proof -
  define q r where "q = length out div 4" and "r = length out mod 4"
  have l: "length out = 4 * q + r" and r: "r = 0 \<or> r = 1 \<or> r = 2 \<or> r = 3"
    using mod_less_divisor [of 4 "length out"] by (simp_all add: q_def r_def) linarith
  have "length (pad_eol out) = length out + (4 - r) mod 4"
    by (simp add: pad_eol_eq r_def)
  also have "\<dots> = 4 * ((length out + 3) div 4)"
    using r by (auto simp: l)
  finally show ?thesis .
qed

text \<open>The four option groups the encoder concatenates, in the order it writes them.\<close>

definition enc_mss :: "Options \<Rightarrow> bytes" where
  "enc_mss op = (case o_mss op of Some m \<Rightarrow> [kOptMss, 4] @ put16 m | None \<Rightarrow> [])"

definition enc_sackp :: "Options \<Rightarrow> bytes" where
  "enc_sackp op = (if o_sack_permitted op then [kOptSackPermitted, 2] else [])"

definition enc_wscale :: "Options \<Rightarrow> bytes" where
  "enc_wscale op = (case o_wscale op of Some w \<Rightarrow> [kOptWscale, 3, w] | None \<Rightarrow> [])"

definition enc_block :: "SeqRange \<Rightarrow> bytes" where
  "enc_block b = put32 (r_start b) @ put32 (r_end b)"

definition enc_sack :: "Options \<Rightarrow> bytes" where
  "enc_sack op = (if o_sack_blocks op \<noteq> []
     then [kOptNop, kOptNop, kOptSack, of_nat (2 + 8 * length (o_sack_blocks op))]
       @ concat (map enc_block (o_sack_blocks op)) else [])"

lemmas enc_defs = enc_mss_def enc_sackp_def enc_wscale_def enc_sack_def

lemma encode_groups:
  "encode op = pad_eol (enc_mss op @ enc_sackp op @ enc_wscale op @ enc_sack op)"
  by (simp add: encode_def enc_defs enc_block_def [abs_def] Let_def split: option.split)

lemma length_concat_blocks [simp]: "length (concat (map enc_block bs)) = 8 * length bs"
  by (induction bs) (simp_all add: enc_block_def)

lemma wire_len_groups:
  "wire_len op = 4 * ((length (enc_mss op @ enc_sackp op @ enc_wscale op @ enc_sack op) + 3) div 4)"
  by (auto simp: wire_len_def enc_defs Let_def split: option.splits)

lemma length_encode [simp, wire_simps]: "length (encode op) = wire_len op"
  by (simp only: encode_groups length_pad_eol wire_len_groups)

subsection \<open>No frame makes the parser read out of bounds\<close>

lemma rd_some [wire_simps]: "i < length f \<Longrightarrow> rd f i = Some (f ! i)"
  by (simp add: rd_def)

lemma rd16_some [wire_simps]:
  "i + 1 < length f \<Longrightarrow> rd16 f i = Some (get16 (f ! i) (f ! (i + 1)))"
  by (simp add: rd16_def rd_def)

lemma rd32_some [wire_simps]: "i + 3 < length f \<Longrightarrow>
  rd32 f i = Some (get32 (f ! i) (f ! (i + 1)) (f ! (i + 2)) (f ! (i + 3)))"
  by (simp add: rd32_def rd_def)

lemma parse_sack_safe:
  "ob + last_b \<le> length f \<Longrightarrow> \<exists>bl. parse_sack f ob b last_b acc = Some bl"
proof (induction f ob b last_b acc rule: parse_sack.induct)
  case (1 f ob b last_b acc)
  show ?case
  proof (cases "b + 8 \<le> last_b")
    case True
    then show ?thesis
      using "1" by (subst parse_sack.simps) (simp add: wire_simps)
  next
    case False
    then show ?thesis by (subst parse_sack.simps) simp
  qed
qed

lemma parse_option_safe:
  assumes "ob + olen \<le> length f" "2 \<le> unat len" "i + unat len \<le> olen"
  shows "\<exists>opt'. parse_option f ob i kind len opt = Some opt'"
proof -
  obtain bl where "parse_sack f ob (i + 2) (i + unat len) (o_sack_blocks opt) = Some bl"
    using parse_sack_safe [of ob "i + unat len" f] assms by fastforce
  moreover have "len = 4 \<Longrightarrow> ob + i + 3 < length f" "len = 3 \<Longrightarrow> ob + i + 2 < length f"
    using assms by auto
  ultimately show ?thesis
    by (auto simp: parse_option_def wire_simps)
qed

lemma parse_options_safe:
  "ob + olen \<le> length f \<Longrightarrow> \<exists>opt'. parse_options f ob olen i opt = Some opt'"
proof (induction f ob olen i opt rule: parse_options.induct)
  case (1 f ob olen i opt)
  show ?case
  proof (cases "i < olen \<and> f ! (ob + i) \<noteq> kOptEol \<and> f ! (ob + i) \<noteq> kOptNop \<and> i + 1 < olen
      \<and> 2 \<le> unat (f ! (ob + i + 1)) \<and> i + unat (f ! (ob + i + 1)) \<le> olen")
    case True
    obtain opt' where
      "parse_option f ob i (f ! (ob + i)) (f ! (ob + i + 1)) opt = Some opt'"
      using parse_option_safe [OF "1.prems"] True by blast
    moreover from this have "\<exists>r. parse_options f ob olen (i + unat (f ! (ob + i + 1))) opt' = Some r"
      using "1" True by (simp add: wire_simps)
    ultimately show ?thesis
      using True "1.prems" by (subst parse_options.simps) (simp add: wire_simps)
  next
    case False
    then show ?thesis
      using "1" by (subst parse_options.simps) (auto simp: wire_simps)
  qed
qed

lemma parse_never_out_of_bounds: "parse frame out \<noteq> None"
proof -
  define ihl where "ihl = unat (frame ! 4 AND 0xf) * 4"
  define iptot where "iptot = unat (get16 (frame ! 6) (frame ! 7))"
  let ?d = "unat (drop_bit 4 (frame ! (16 + ihl)))"
  obtain opt where "5 \<le> ?d \<Longrightarrow> ihl + ?d * 4 \<le> iptot \<Longrightarrow> iptot \<le> length frame - 4 \<Longrightarrow>
      24 \<le> length frame \<Longrightarrow> parse_options frame (24 + ihl) (?d * 4 - 20) 0 no_options = Some opt"
    using parse_options_safe [of "24 + ihl" "?d * 4 - 20" frame 0 no_options] by fastforce
  then show ?thesis
    unfolding parse_def
    by (auto simp: wire_simps Let_def ihl_def [symmetric] iptot_def [symmetric] split: if_splits)
qed

subsection \<open>Decoding what the encoder wrote\<close>

lemma rd_drop: "drop k f = xs \<Longrightarrow> j < length xs \<Longrightarrow> rd f (k + j) = Some (xs ! j)"
  by (auto simp: rd_def)

lemma drop_append_step: "drop k f = xs @ ys \<Longrightarrow> drop (k + length xs) f = ys"
  using drop_drop [of "length xs" k f] by (simp add: add.commute)

lemma rd_drop_Cons: "drop k f = x # xs \<Longrightarrow> rd f k = Some x"
  using rd_drop [of k f "x # xs" 0] by simp

lemma rd16_drop: "drop k f = put16 v @ xs \<Longrightarrow> rd16 f k = Some v"
  using rd_drop [of k f "put16 v @ xs" 0] rd_drop [of k f "put16 v @ xs" 1]
  by (simp add: rd16_def put16_def)

lemma rd32_drop: "drop k f = put32 v @ xs \<Longrightarrow> rd32 f k = Some v"
  using rd_drop [of k f "put32 v @ xs" 0] rd_drop [of k f "put32 v @ xs" 1]
    rd_drop [of k f "put32 v @ xs" 2] rd_drop [of k f "put32 v @ xs" 3]
  by (simp add: rd32_def put32_def)

lemma parse_sack_step:
  assumes "b + 8 \<le> last_b" "rd32 f (ob + b) = Some st" "rd32 f (ob + b + 4) = Some en"
  shows "parse_sack f ob b last_b acc
    = parse_sack f ob (b + 8) last_b (acc @ [\<lparr>r_start = st, r_end = en\<rparr>])"
  using assms by (subst parse_sack.simps) simp

lemma parse_sack_blocks:
  "drop (ob + b) f = concat (map enc_block bs) @ xs \<Longrightarrow>
   parse_sack f ob b (b + 8 * length bs) acc = Some (acc @ bs)"
proof (induction bs arbitrary: b acc)
  case Nil
  then show ?case by (subst parse_sack.simps) simp
next
  case (Cons r bs)
  let ?rest = "concat (map enc_block bs) @ xs"
  have d: "drop (ob + b) f = put32 (r_start r) @ put32 (r_end r) @ ?rest"
    using Cons.prems by (simp add: enc_block_def [of r])
  have d4: "drop (ob + b + 4) f = put32 (r_end r) @ ?rest"
    using drop_append_step [OF d] by simp
  have d8: "drop (ob + (b + 8)) f = ?rest"
    using drop_append_step [OF d4] by (simp add: add.assoc)
  have "parse_sack f ob (b + 8) (b + 8 + 8 * length bs) (acc @ [r]) = Some ((acc @ [r]) @ bs)"
    by (rule Cons.IH [OF d8])
  moreover have "parse_sack f ob b (b + 8 * length (r # bs)) acc
      = parse_sack f ob (b + 8) (b + 8 + 8 * length bs) (acc @ [r])"
    using parse_sack_step [of b "b + 8 * length (r # bs)", OF _ rd32_drop [OF d] rd32_drop [OF d4]]
    by (simp add: add.assoc)
  ultimately show ?case by simp
qed

text \<open>One lemma per option group: the loop consumes it and records its value.\<close>

lemma parse_options_eol:
  "drop (ob + i) f = kOptEol # xs \<Longrightarrow> parse_options f ob olen i opt = Some opt"
  by (subst parse_options.simps) (simp add: rd_drop_Cons)

lemma parse_options_end: "olen \<le> i \<Longrightarrow> parse_options f ob olen i opt = Some opt"
  by (subst parse_options.simps) simp

lemma parse_options_kind:
  assumes d: "drop (ob + i) f = kind # len # xs" and k: "kind \<noteq> kOptEol" "kind \<noteq> kOptNop"
    and l: "2 \<le> unat len" "i + unat len \<le> olen" and r: "parse_option f ob i kind len opt = Some opt'"
  shows "parse_options f ob olen i opt = parse_options f ob olen (i + unat len) opt'"
  using rd_drop [OF d, of 0] rd_drop [OF d, of 1] k l r
  by (subst parse_options.simps) simp

lemma parse_options_mss:
  assumes d: "drop (ob + i) f = enc_mss op @ xs" and "i + length (enc_mss op) \<le> olen"
    and "o_mss opt = None"
  shows "parse_options f ob olen i opt =
    parse_options f ob olen (i + length (enc_mss op)) (opt\<lparr>o_mss := o_mss op\<rparr>)"
proof (cases "o_mss op")
  case None
  then show ?thesis using assms(3) by (cases opt) (simp add: enc_mss_def)
next
  case (Some m)
  have d': "drop (ob + i) f = kOptMss # 4 # put16 m @ xs"
    using d Some by (simp add: enc_mss_def)
  have "rd16 f (ob + i + 2) = Some m"
    using rd16_drop drop_append_step [of "ob + i" f "[kOptMss, 4]"] d' by simp
  then have "parse_option f ob i kOptMss 4 opt = Some (opt\<lparr>o_mss := Some m\<rparr>)"
    by (simp add: parse_option_def)
  from parse_options_kind [OF d' _ _ _ _ this] show ?thesis
    using assms(2) Some by (simp add: enc_mss_def kOpt_defs)
qed

lemma parse_options_sackp:
  assumes d: "drop (ob + i) f = enc_sackp op @ xs" and "i + length (enc_sackp op) \<le> olen"
    and "\<not> o_sack_permitted opt"
  shows "parse_options f ob olen i opt =
    parse_options f ob olen (i + length (enc_sackp op)) (opt\<lparr>o_sack_permitted := o_sack_permitted op\<rparr>)"
proof (cases "o_sack_permitted op")
  case False
  then show ?thesis using assms(3) by (cases opt) (simp add: enc_sackp_def)
next
  case True
  have d': "drop (ob + i) f = kOptSackPermitted # 2 # xs"
    using d True by (simp add: enc_sackp_def)
  have "parse_option f ob i kOptSackPermitted 2 opt = Some (opt\<lparr>o_sack_permitted := True\<rparr>)"
    by (simp add: parse_option_def kOpt_defs)
  from parse_options_kind [OF d' _ _ _ _ this] show ?thesis
    using assms(2) True by (simp add: enc_sackp_def kOpt_defs)
qed

lemma parse_options_wscale:
  assumes d: "drop (ob + i) f = enc_wscale op @ xs" and "i + length (enc_wscale op) \<le> olen"
    and "o_wscale opt = None"
  shows "parse_options f ob olen i opt =
    parse_options f ob olen (i + length (enc_wscale op)) (opt\<lparr>o_wscale := o_wscale op\<rparr>)"
proof (cases "o_wscale op")
  case None
  then show ?thesis using assms(3) by (cases opt) (simp add: enc_wscale_def)
next
  case (Some w)
  have d': "drop (ob + i) f = kOptWscale # 3 # w # xs"
    using d Some by (simp add: enc_wscale_def)
  have "rd f (ob + i + 2) = Some w" using rd_drop [OF d', of 2] by simp
  then have "parse_option f ob i kOptWscale 3 opt = Some (opt\<lparr>o_wscale := Some w\<rparr>)"
    by (simp add: parse_option_def kOpt_defs)
  moreover have l: "length (enc_wscale op) = 3" using Some by (simp add: enc_wscale_def)
  ultimately show ?thesis
    using parse_options_kind [OF d'] assms(2) Some by (simp add: l kOpt_defs)
qed

lemma parse_options_nop:
  "drop (ob + i) f = kOptNop # xs \<Longrightarrow> i < olen \<Longrightarrow>
   parse_options f ob olen i opt = parse_options f ob olen (i + 1) opt"
  by (subst parse_options.simps) (simp add: rd_drop_Cons kOpt_defs)

lemma parse_options_sack:
  assumes d: "drop (ob + i) f = enc_sack op @ xs" and le: "i + length (enc_sack op) \<le> olen"
    and "o_sack_blocks opt = []" and n: "length (o_sack_blocks op) \<le> 31"
  shows "parse_options f ob olen i opt =
    parse_options f ob olen (i + length (enc_sack op)) (opt\<lparr>o_sack_blocks := o_sack_blocks op\<rparr>)"
proof (cases "o_sack_blocks op = []")
  case True
  then show ?thesis using assms(3) by (cases opt) (simp add: enc_sack_def)
next
  case False
  let ?bs = "o_sack_blocks op"
  define len :: u8 where "len = of_nat (2 + 8 * length ?bs)"
  let ?body = "concat (map enc_block ?bs) @ xs"
  have d0: "drop (ob + i) f = kOptNop # kOptNop # kOptSack # len # ?body"
    using d False by (simp add: enc_sack_def len_def)
  have d1: "drop (ob + (i + 1)) f = kOptNop # kOptSack # len # ?body"
    using drop_append_step [of "ob + i" f "[kOptNop]"] d0 by (simp add: add.assoc)
  have d2: "drop (ob + (i + 2)) f = kOptSack # len # ?body"
    using drop_append_step [of "ob + i" f "[kOptNop, kOptNop]"] d0 by (simp add: add.assoc)
  have d4: "drop (ob + (i + 2 + 2)) f = ?body"
    using drop_append_step [of "ob + i" f "[kOptNop, kOptNop, kOptSack, len]"] d0
    by (simp add: add.assoc)
  have len: "unat len = 2 + 8 * length ?bs"
    unfolding len_def using n by (subst unat_of_nat_small) auto
  have "parse_sack f ob (i + 2 + 2) (i + 2 + unat len) [] = Some ([] @ ?bs)"
    using parse_sack_blocks [OF d4] by (simp add: len add.assoc)
  then have "parse_option f ob (i + 2) kOptSack len opt = Some (opt\<lparr>o_sack_blocks := ?bs\<rparr>)"
    using assms(3) by (simp add: parse_option_def kOpt_defs)
  from parse_options_kind [OF d2 _ _ _ _ this]
  have "parse_options f ob olen (i + 2) opt
      = parse_options f ob olen (i + 2 + unat len) (opt\<lparr>o_sack_blocks := ?bs\<rparr>)"
    using le False by (simp add: len enc_sack_def kOpt_defs)
  moreover have "parse_options f ob olen i opt = parse_options f ob olen (i + 2) opt"
    using parse_options_nop [OF d0] parse_options_nop [OF d1] le False
    by (simp add: enc_sack_def)
  ultimately show ?thesis using False by (simp add: len enc_sack_def add.assoc)
qed

lemma wire_len_le_40_blocks:
  assumes "wire_len op \<le> 40" shows "length (o_sack_blocks op) \<le> 4"
proof -
  have "length (enc_sack op) \<le> wire_len op"
    by (simp add: wire_len_groups)
  with assms show ?thesis by (auto simp: enc_sack_def split: if_splits)
qed

lemma parse_options_encode:
  assumes d: "drop ob f = encode op @ xs" and le: "wire_len op \<le> 40"
  shows "parse_options f ob (wire_len op) 0 no_options = Some op"
proof -
  let ?A = "enc_mss op" and ?B = "enc_sackp op" and ?C = "enc_wscale op" and ?D = "enc_sack op"
  let ?k = "(4 - length (?A @ ?B @ ?C @ ?D) mod 4) mod 4"
  let ?P = "replicate ?k kOptEol"
  have W: "wire_len op = length ?A + length ?B + length ?C + length ?D + ?k"
    using length_encode [of op] by (simp add: encode_groups pad_eol_eq)
  have dA: "drop (ob + 0) f = ?A @ ?B @ ?C @ ?D @ ?P @ xs"
    using d by (simp add: encode_groups pad_eol_eq)
  note dB = drop_append_step [OF dA, unfolded add.assoc]
  note dC = drop_append_step [OF dB, unfolded add.assoc]
  note dD = drop_append_step [OF dC, unfolded add.assoc]
  note dP = drop_append_step [OF dD, unfolded add.assoc]
  let ?o1 = "no_options\<lparr>o_mss := o_mss op\<rparr>"
  let ?o2 = "?o1\<lparr>o_sack_permitted := o_sack_permitted op\<rparr>"
  let ?o3 = "?o2\<lparr>o_wscale := o_wscale op\<rparr>"
  let ?o4 = "?o3\<lparr>o_sack_blocks := o_sack_blocks op\<rparr>"
  let ?stop = "0 + (length ?A + (length ?B + (length ?C + length ?D)))"
  have "parse_options f ob (wire_len op) 0 no_options = parse_options f ob (wire_len op) ?stop ?o4"
    using parse_options_mss [OF dA] parse_options_sackp [OF dB] parse_options_wscale [OF dC]
      parse_options_sack [OF dD] wire_len_le_40_blocks [OF le] W
    by (simp add: no_options_def add.assoc)
  also have "\<dots> = Some ?o4"
  proof (cases ?k)
    case 0
    then show ?thesis using W by (intro parse_options_end) simp
  next
    case (Suc k)
    then show ?thesis using dP by (intro parse_options_eol) (simp add: add.assoc)
  qed
  also have "?o4 = op" by (simp add: no_options_def)
  finally show ?thesis .
qed

subsection \<open>The round trip of a whole packet\<close>

lemma nibble_roundtrip: "n < 16 \<Longrightarrow> unat (drop_bit 4 (push_bit 4 (of_nat n :: u8))) = n"
proof -
  assume n: "n < 16"
  have "unat (push_bit 4 (of_nat n :: u8)) = n * 16"
    using n by (simp add: push_bit_eq_mult unat_word_ariths unat_of_nat_small)
  then show ?thesis by (simp add: drop_bit_eq_div unat_div_distrib)
qed

lemma length_ip_header [wire_simps]: "length (ip_header tot_len ip_id ip_sum src dst) = 20"
  by (simp add: ip_header_def)

lemma length_tcp_header [wire_simps]: "length (tcp_header s tcplen th_sum) = 20"
  by (simp add: tcp_header_def)

text \<open>What \<open>parse\<close> reads off any frame laid out as \<open>build\<close> lays it out.\<close>

lemma parse_layout:
  assumes f: "frame = put32 AF_INET @ ip_header tot_len ip_id ip_sum src dst
      @ tcp_header s (20 + wire_len (s_opt s)) th_sum @ encode (s_opt s) @ s_payload s"
    and tot: "tot_len = 40 + wire_len (s_opt s) + length (s_payload s)"
    and small: "tot_len < 65536" and opt: "wire_len (s_opt s) \<le> 40"
  shows "parse frame out = Some (Some (s\<lparr>s_t_ms := s_t_ms out\<rparr>))"
proof -
  define W k where "W = wire_len (s_opt s)" and "k = W div 4"
  define tw :: u16 where "tw = of_nat tot_len"
  define offb :: u8 where "offb = push_bit 4 (of_nat ((20 + W) div 4))"
  have W4: "W = k * 4" by (simp add: W_def k_def wire_len_groups)
  have n: "length frame = 4 + tot_len"
    by (simp add: f tot wire_simps)
  have off: "unat (drop_bit 4 offb) = 5 + k"
    unfolding offb_def using opt by (subst nibble_roundtrip) (simp_all add: W4 W_def [symmetric])
  have totw: "unat tw = tot_len"
    using small by (simp add: tw_def unat_of_nat_small)
  have tot': "tot_len = 40 + k * 4 + length (s_payload s)"
    using tot by (simp add: W4 W_def [symmetric])
  have dopt: "drop 44 frame = encode (s_opt s) @ s_payload s"
    by (simp add: f put32_def put16_def ip_header_def tcp_header_def)
  have dpay: "drop (44 + k * 4) frame = s_payload s"
    using drop_append_step [OF dopt] by (simp add: W4 W_def [symmetric])
  have r: "rd32 frame 0 = Some AF_INET" "rd frame 4 = Some 0x45" "rd frame 13 = Some IPPROTO_TCP"
    "rd16 frame 6 = Some tw" "rd frame 36 = Some offb"
    "rd16 frame 24 = Some (s_sport s)" "rd16 frame 26 = Some (s_dport s)"
    "rd32 frame 28 = Some (s_seq s)" "rd32 frame 32 = Some (s_ack s)"
    "rd frame 37 = Some (s_flags s)" "rd16 frame 38 = Some (s_win s)"
    by (simp_all add: f rd_def rd16_def rd32_def put32_def put16_def ip_header_def tcp_header_def
        tw_def offb_def W_def)
  have po: "parse_options frame 44 (k * 4) 0 no_options = Some (s_opt s)"
    using parse_options_encode [OF dopt opt] by (simp add: W4 W_def [symmetric])
  have ihl: "unat ((0x45 :: u8) AND 0xf) * 4 = 20" and ver: "drop_bit 4 (0x45 :: u8) = 4"
    by simp_all
  show ?thesis
    unfolding parse_def Let_def n
    by (simp add: r ihl ver totw off tot' po dpay)
qed

text \<open>
  Sums over a header that differs only in its checksum field differ by the field's value.
\<close>

lemma sum_be16_put16: "sum_be16 (put16 v) = ucast v"
proof -
  have "(push_bit 8 (ucast (ucast (drop_bit 8 v) :: u8)) OR ucast (ucast v :: u8) :: u32) = ucast v"
    by (rule bit_word_eqI) (auto simp: bit_simps dest: bit_imp_le_length)
  then show ?thesis by (simp add: put16_def sum_be16_pair)
qed

lemma sum_ip_header:
  "sum_be16 (ip_header tot_len ip_id v src dst) = sum_be16 (ip_header tot_len ip_id 0 src dst) + ucast v"
proof -
  let ?pre = "[0x45, 0] @ put16 (of_nat tot_len) @ put16 ip_id @ [0, 0] @ [64, IPPROTO_TCP] :: bytes"
  have "sum_be16 (ip_header tot_len ip_id x src dst)
      = sum_be16 ?pre + ucast x + sum_be16 (put32 src @ put32 dst)" for x
    using sum_be16_append [of ?pre "put16 x @ put32 src @ put32 dst"]
      sum_be16_append [of "put16 x" "put32 src @ put32 dst"]
    by (simp add: ip_header_def sum_be16_put16 add.assoc)
  then show ?thesis by (simp add: ac_simps)
qed

lemma sum_tcp_header:
  "sum_be16 (tcp_header s tcplen v @ rest) = sum_be16 (tcp_header s tcplen 0 @ rest) + ucast v"
proof -
  let ?pre = "put16 (s_sport s) @ put16 (s_dport s) @ put32 (s_seq s) @ put32 (s_ack s)
     @ [push_bit 4 (of_nat (tcplen div 4)), s_flags s] @ put16 (s_win s)"
  have "sum_be16 (tcp_header s tcplen x @ rest)
      = sum_be16 ?pre + ucast x + sum_be16 ([0, 0] @ rest)" for x
    using sum_be16_append [of ?pre "put16 x @ [0, 0] @ rest"]
      sum_be16_append [of "put16 x" "[0, 0] @ rest"]
    by (simp add: tcp_header_def sum_be16_put16 add.assoc)
  then show ?thesis by (simp add: ac_simps)
qed

lemma build_Some:
  assumes "build out_cap src dst s ip_id = Some pkt"
  obtains ip_sum th_sum where
    "pkt = put32 AF_INET
       @ ip_header (40 + wire_len (s_opt s) + length (s_payload s)) ip_id ip_sum src dst
       @ tcp_header s (20 + wire_len (s_opt s)) th_sum @ encode (s_opt s) @ s_payload s"
    "ip_sum = fold_csum (sum_be16
       (ip_header (40 + wire_len (s_opt s) + length (s_payload s)) ip_id 0 src dst))"
    "th_sum = fold_csum (sum_be16 (pseudo_header src dst (20 + wire_len (s_opt s) + length (s_payload s)))
       + sum_be16 (tcp_header s (20 + wire_len (s_opt s)) 0 @ encode (s_opt s) @ s_payload s))"
    "wire_len (s_opt s) \<le> 40" "44 + wire_len (s_opt s) + length (s_payload s) \<le> out_cap"
  using assms by (auto simp: build_def Let_def split: if_splits)

lemma parse_build:
  assumes "build out_cap src dst s ip_id = Some pkt" and "out_cap < 65540"
  shows "parse pkt out = Some (Some (s\<lparr>s_t_ms := s_t_ms out\<rparr>))"
  using assms by (elim build_Some) (auto intro!: parse_layout)

lemma build_length:
  "build out_cap src dst s ip_id = Some pkt \<Longrightarrow>
   length pkt = 44 + wire_len (s_opt s) + length (s_payload s) \<and> length pkt \<le> out_cap"
  by (elim build_Some) (auto simp: wire_simps)

lemma build_checksums:
  assumes "build out_cap src dst s ip_id = Some pkt" and "out_cap < 65540"
  shows "fold_csum (sum_be16 (take 20 (drop 4 pkt))) = 0"
    and "fold_csum (sum_be16 (pseudo_header src dst (length pkt - 24)) + sum_be16 (drop 24 pkt)) = 0"
proof -
  from assms(1) obtain ip_sum th_sum where
    p: "pkt = put32 AF_INET
       @ ip_header (40 + wire_len (s_opt s) + length (s_payload s)) ip_id ip_sum src dst
       @ tcp_header s (20 + wire_len (s_opt s)) th_sum @ encode (s_opt s) @ s_payload s"
    and i: "ip_sum = fold_csum (sum_be16
       (ip_header (40 + wire_len (s_opt s) + length (s_payload s)) ip_id 0 src dst))" (is "_ = fold_csum ?I")
    and t: "th_sum = fold_csum (sum_be16 (pseudo_header src dst (20 + wire_len (s_opt s) + length (s_payload s)))
       + sum_be16 (tcp_header s (20 + wire_len (s_opt s)) 0 @ encode (s_opt s) @ s_payload s))"
      (is "_ = fold_csum (?P + ?T)")
    and le: "44 + wire_len (s_opt s) + length (s_payload s) \<le> out_cap"
    by (rule build_Some)
  have "unat ?I \<le> 65535 * 10"
    using unat_sum_be16_le [of "ip_header (40 + wire_len (s_opt s) + length (s_payload s)) ip_id 0 src dst"]
    by (simp add: wire_simps)
  then have "fold_csum (?I + ucast ip_sum) = 0"
    unfolding i by (intro fold_csum_verifies) (simp add: unat_fold_csum)
  then show "fold_csum (sum_be16 (take 20 (drop 4 pkt))) = 0"
    by (simp add: p wire_simps sum_ip_header [of _ _ ip_sum])
  have "unat ?P \<le> 65535 * 6"
    using unat_sum_be16_le [of "pseudo_header src dst (20 + wire_len (s_opt s) + length (s_payload s))"]
    by (simp add: pseudo_header_def)
  moreover have "unat ?T \<le> 65535 * 32768"
    using unat_sum_be16_le [of "tcp_header s (20 + wire_len (s_opt s)) 0 @ encode (s_opt s) @ s_payload s"]
      assms(2) le by (simp add: wire_simps)
  ultimately have "unat (?P + ?T) \<le> 65535 * 32774"
    by (simp add: unat_plus_small)
  then have "fold_csum (?P + ?T + ucast th_sum) = 0"
    unfolding t by (intro fold_csum_verifies) (simp add: unat_fold_csum)
  then show "fold_csum (sum_be16 (pseudo_header src dst (length pkt - 24)) + sum_be16 (drop 24 pkt)) = 0"
    by (simp add: p wire_simps sum_tcp_header [of _ _ th_sum] add.assoc)
qed

subsection \<open>Properties\<close>

text \<open>
  Property C2. Parsing a packet that \<open>build\<close> produced gives back the segment it was built
  from, with every header field, option and payload byte; only the receive time is left as
  the caller had it. The bound on the buffer is the largest IPv4 packet.
\<close>

theorem build_parse_roundtrip:
  assumes "build out_cap src dst s ip_id = Some pkt" and "out_cap < 65540"
  shows "parse pkt out = Some (Some (s\<lparr>s_t_ms := s_t_ms out\<rparr>))"
  using assms by (rule parse_build)

definition demo_seg :: Seg where
  "demo_seg = new_Seg\<lparr>s_seq := 0xFFFFFFFE, s_ack := 7, s_flags := TH_ACK, s_sport := 9, s_dport := 80,
     s_payload := [1, 2, 3], s_opt := no_options\<lparr>o_mss := Some 1460, o_sack_permitted := True,
       o_wscale := Some 7, o_sack_blocks := [\<lparr>r_start = 1, r_end = 9\<rparr>]\<rparr>\<rparr>"

lemma demo_seg_built: "\<exists>pkt. build 2048 0x0A000001 0x0A000002 demo_seg 5 = Some pkt"
  by (simp add: build_def demo_seg_def new_Seg_def no_options_def wire_len_def Let_def)

theorem build_parse_roundtrip_witness:
  "\<exists>pkt. build 2048 0x0A000001 0x0A000002 demo_seg 5 = Some pkt
     \<and> parse pkt new_Seg = Some (Some (demo_seg\<lparr>s_t_ms := s_t_ms new_Seg\<rparr>))"
  using build_parse_roundtrip [where out_cap = 2048 and s = demo_seg and out = new_Seg] demo_seg_built
  by auto

text \<open>
  Property C4. Whatever bytes arrive, the parser terminates and never reads outside the
  frame: every one of its reads is bounds-checked by the guards before it.
\<close>

theorem parse_memory_safe: "\<exists>r. parse frame out = Some r"
  using parse_never_out_of_bounds [of frame out] by auto

text \<open>
  Property C5. A built packet passes the receiver's checksum tests: its IP header sums to
  zero, and so do its pseudo-header and TCP segment; it has exactly the announced length.
\<close>

theorem build_checksums_verify:
  assumes "build out_cap src dst s ip_id = Some pkt" and "out_cap < 65540"
  shows "fold_csum (sum_be16 (take 20 (drop 4 pkt))) = 0
    \<and> fold_csum (sum_be16 (pseudo_header src dst (length pkt - 24)) + sum_be16 (drop 24 pkt)) = 0
    \<and> length pkt = 44 + wire_len (s_opt s) + length (s_payload s) \<and> length pkt \<le> out_cap"
  using build_checksums [OF assms] build_length [OF assms(1)] by simp

theorem build_checksums_verify_witness:
  "\<exists>pkt. build 2048 0x0A000001 0x0A000002 demo_seg 5 = Some pkt
     \<and> fold_csum (sum_be16 (take 20 (drop 4 pkt))) = 0"
  using build_checksums_verify [where out_cap = 2048 and s = demo_seg] demo_seg_built by fastforce

text \<open>
  The option encoder writes exactly the number of bytes \<open>wire_len\<close> announces,
  a multiple of four, and the option parser reads the options back from any place in a
  frame, provided they fit the 40 bytes a TCP header has for them.
\<close>

lemma options_roundtrip:
  assumes "drop ob f = encode op @ xs" "wire_len op \<le> 40"
  shows "parse_options f ob (wire_len op) 0 no_options = Some op
    \<and> length (encode op) = wire_len op \<and> wire_len op mod 4 = 0"
  using parse_options_encode [OF assms] by (simp add: wire_len_groups)

end
