(* ===== verification/Reassembly.thy ===== *)
theory Reassembly
  imports Segment
begin

text \<open>
  The receiver's view of the stream: \<^verbatim>\<open>include/tp/reassembly.hpp\<close> and
  \<^verbatim>\<open>src/reassembly.cpp\<close>. The model keeps the class's fields and its two loops (merge into
  the held ranges, drain the prefix that became contiguous). The specification is a set
  of received byte positions of an unbounded stream and its frontier, the first position
  not received. \<open>rsm_rel\<close> relates the two; \<open>accept\<close> is proved to insert a segment's
  positions and to report exactly whether the frontier moved, for every segment within
  half the sequence space of the frontier, however often the sequence number wrapped.
\<close>

subsection \<open>State and operations\<close>

record Advance =
  a_frontier :: u32
  a_t_ms :: real

record Reassembly =
  rs_rcv_nxt :: u32
  rs_isn :: u32
  rs_held :: "SeqRange list"
  rs_advances :: "Advance list"
  rs_dups :: nat
  rs_ooo :: nat

definition new_Reassembly :: "u32 \<Rightarrow> Reassembly" where
  "new_Reassembly isn = \<lparr>rs_rcv_nxt = isn, rs_isn = isn, rs_held = [], rs_advances = [],
     rs_dups = 0, rs_ooo = 0\<rparr>"

definition delivered :: "Reassembly \<Rightarrow> u32" where
  "delivered r = rs_rcv_nxt r - rs_isn r"

definition has_gap :: "Reassembly \<Rightarrow> bool" where
  "has_gap r \<longleftrightarrow> rs_held r \<noteq> []"

text \<open>The walk over \<^verbatim>\<open>held_\<close>: ranges already emitted, the growing range, \<^verbatim>\<open>placed\<close>.\<close>

fun merge_loop :: "SeqRange list \<Rightarrow> SeqRange \<Rightarrow> bool \<Rightarrow> SeqRange list \<Rightarrow> SeqRange list" where
  "merge_loop merged cur placed [] = (if placed then merged else merged @ [cur])"
| "merge_loop merged cur placed (r # held) =
     (if seq_lt (r_end r) (r_start cur) then merge_loop (merged @ [r]) cur placed held
      else if seq_gt (r_start r) (r_end cur) then
        (if \<not> placed then merge_loop (merged @ [cur] @ [r]) cur True held
         else merge_loop (merged @ [r]) cur placed held)
      else
        (let cur = (if seq_lt (r_start r) (r_start cur) then cur\<lparr>r_start := r_start r\<rparr> else cur);
             cur = (if seq_gt (r_end r) (r_end cur) then cur\<lparr>r_end := r_end r\<rparr> else cur)
         in merge_loop merged cur placed held))"

fun drain_loop :: "u32 \<Rightarrow> nat \<Rightarrow> SeqRange list \<Rightarrow> u32 \<times> nat" where
  "drain_loop rcv_nxt drained [] = (rcv_nxt, drained)"
| "drain_loop rcv_nxt drained (r # held) =
     (if seq_gt (r_start r) rcv_nxt then (rcv_nxt, drained)
      else drain_loop (if seq_gt (r_end r) rcv_nxt then r_end r else rcv_nxt) (drained + 1) held)"

definition accept :: "Reassembly \<Rightarrow> u32 \<Rightarrow> u32 \<Rightarrow> real \<Rightarrow> bool \<times> Reassembly" where
  "accept rsm sq len t_ms =
     (if len = 0 then (False, rsm)
      else
        (let start = sq; en = sq + len in
         if seq_leq en (rs_rcv_nxt rsm) then (False, rsm\<lparr>rs_dups := rs_dups rsm + 1\<rparr>)
         else
           (let start = (if seq_lt start (rs_rcv_nxt rsm) then rs_rcv_nxt rsm else start);
                held = merge_loop [] \<lparr>r_start = start, r_end = en\<rparr> False (rs_held rsm);
                nxt0 = rs_rcv_nxt rsm;
                (rcv_nxt, drained) = drain_loop nxt0 0 held;
                held = drop drained held;
                moved = (rcv_nxt \<noteq> nxt0);
                rsm = rsm\<lparr>rs_held := held, rs_rcv_nxt := rcv_nxt\<rparr>
            in if moved
               then (moved, rsm\<lparr>rs_advances := rs_advances rsm @ [\<lparr>a_frontier = rcv_nxt, a_t_ms = t_ms\<rparr>]\<rparr>)
               else (moved, rsm\<lparr>rs_ooo := rs_ooo rsm + 1\<rparr>))))"

definition sack_blocks :: "Reassembly \<Rightarrow> nat \<Rightarrow> SeqRange list" where
  "sack_blocks rsm max_n = take max_n (rev (rs_held rsm))"

fun time_reached_loop :: "Advance list \<Rightarrow> u32 \<Rightarrow> real" where
  "time_reached_loop [] sq = -1"
| "time_reached_loop (a # as) sq =
     (if seq_geq (a_frontier a) sq then a_t_ms a else time_reached_loop as sq)"

definition time_reached :: "Reassembly \<Rightarrow> u32 \<Rightarrow> real" where
  "time_reached rsm sq = time_reached_loop (rs_advances rsm) sq"

text \<open>
  The assertion the source states after the merge: \<^verbatim>\<open>std::is_sorted\<close> under \<^verbatim>\<open>seq_lt\<close> of
  the starts, i.e. no element is less than its predecessor.
\<close>

fun held_sorted :: "SeqRange list \<Rightarrow> bool" where
  "held_sorted (a # b # held) \<longleftrightarrow> \<not> seq_lt (r_start b) (r_start a) \<and> held_sorted (b # held)"
| "held_sorted _ \<longleftrightarrow> True"

subsection \<open>The specification: a set of received positions\<close>

definition frontier :: "nat set \<Rightarrow> nat" where
  "frontier R = (LEAST n. n \<notin> R)"

lemma frontier_eqI: "{..<F} \<subseteq> R \<Longrightarrow> F \<notin> R \<Longrightarrow> frontier R = F"
  unfolding frontier_def by (rule Least_equality) (auto simp: not_le)

text \<open>Separated ascending ranges, none starting below \<open>lo\<close>, none touching another.\<close>

fun separated :: "nat \<Rightarrow> (nat \<times> nat) list \<Rightarrow> bool" where
  "separated lo [] \<longleftrightarrow> True"
| "separated lo ((a, b) # hs) \<longleftrightarrow> lo \<le> a \<and> a < b \<and> separated (Suc b) hs"

definition cover :: "(nat \<times> nat) list \<Rightarrow> nat set" where
  "cover hs = (\<Union>(a, b)\<in>set hs. {a..<b})"

lemma cover_simps [simp]: "cover [] = {}" "cover ((a, b) # hs) = {a..<b} \<union> cover hs"
  by (simp_all add: cover_def)

lemma cover_mem: "(a, b) \<in> set hs \<Longrightarrow> a \<le> x \<Longrightarrow> x < b \<Longrightarrow> x \<in> cover hs"
  by (force simp: cover_def)

lemma separated_mono: "separated lo hs \<Longrightarrow> lo' \<le> lo \<Longrightarrow> separated lo' hs"
  by (cases hs) auto

lemma separated_lower: "separated lo hs \<Longrightarrow> (a, b) \<in> set hs \<Longrightarrow> lo \<le> a \<and> a < b"
proof (induction lo hs rule: separated.induct)
  case (2 lo a' b' hs)
  then show ?case by fastforce
qed simp

lemma separated_cover_lower: "separated lo hs \<Longrightarrow> x \<in> cover hs \<Longrightarrow> lo \<le> x"
  using separated_lower by (fastforce simp: cover_def)

definition rng :: "u32 \<Rightarrow> nat \<times> nat \<Rightarrow> SeqRange" where
  "rng isn p = \<lparr>r_start = seqno isn (fst p), r_end = seqno isn (snd p)\<rparr>"

lemma rng_simps [simp]:
  "r_start (rng isn (a, b)) = seqno isn a" "r_end (rng isn (a, b)) = seqno isn b"
  "(rng isn (a, b))\<lparr>r_start := seqno isn c\<rparr> = rng isn (c, b)"
  "(rng isn (a, b))\<lparr>r_end := seqno isn c\<rparr> = rng isn (a, c)"
  by (simp_all add: rng_def)

definition rsm_rel :: "u32 \<Rightarrow> nat set \<Rightarrow> Reassembly \<Rightarrow> bool" where
  "rsm_rel isn R rsm \<longleftrightarrow>
     (\<exists>F hs. rs_isn rsm = isn \<and> rs_rcv_nxt rsm = seqno isn F \<and> rs_held rsm = map (rng isn) hs
        \<and> separated (Suc F) hs \<and> R = {..<F} \<union> cover hs \<and> (\<forall>(a, b)\<in>set hs. b < F + 2 ^ 31))"

subsection \<open>The merge on stream positions\<close>

fun ins_range :: "nat \<Rightarrow> nat \<Rightarrow> (nat \<times> nat) list \<Rightarrow> (nat \<times> nat) list" where
  "ins_range s e [] = [(s, e)]"
| "ins_range s e ((a, b) # hs) =
     (if b < s then (a, b) # ins_range s e hs
      else if e < a then (s, e) # (a, b) # hs
      else ins_range (min a s) (max b e) hs)"

lemma separated_ins_range:
  "separated lo hs \<Longrightarrow> lo \<le> s \<Longrightarrow> s < e \<Longrightarrow> separated lo (ins_range s e hs)"
proof (induction s e hs arbitrary: lo rule: ins_range.induct)
  case (2 s e a b hs)
  consider "b < s" | "\<not> b < s" "e < a" | "\<not> b < s" "\<not> e < a" by blast
  then show ?case
  proof cases
    case 1
    then show ?thesis using 2 by simp
  next
    case 2
    then show ?thesis using "2.prems" by simp
  next
    case 3
    have "separated lo (ins_range (min a s) (max b e) hs)"
      using 3 "2.prems" by (intro "2.IH"(2)) (auto intro: separated_mono)
    then show ?thesis using 3 by simp
  qed
qed simp

lemma cover_ins_range: "s < e \<Longrightarrow> separated lo hs \<Longrightarrow> cover (ins_range s e hs) = {s..<e} \<union> cover hs"
proof (induction s e hs arbitrary: lo rule: ins_range.induct)
  case (2 s e a b hs)
  consider "b < s" | "\<not> b < s" "e < a" | "\<not> b < s" "\<not> e < a" by blast
  then show ?case
  proof cases
    case 1
    then show ?thesis using "2.IH"(1) "2.prems" by auto
  next
    case 2
    then show ?thesis by auto
  next
    case 3
    have "cover (ins_range (min a s) (max b e) hs) = {min a s..<max b e} \<union> cover hs"
      using 3 "2.prems" by (intro "2.IH"(2)) auto
    moreover have "{min a s..<max b e} = {s..<e} \<union> {a..<b}"
      using 3 "2.prems" by auto
    ultimately show ?thesis using 3 by auto
  qed
qed simp

text \<open>The walk on words computes the insertion on positions.\<close>

lemma merge_loop_placed:
  assumes "\<forall>(a, b)\<in>set hs. L \<le> a \<and> a < L + 2 ^ 31 \<and> L \<le> b \<and> b < L + 2 ^ 31 \<and> e < a \<and> s \<le> b"
    and "L \<le> s" "s < L + 2 ^ 31" "L \<le> e" "e < L + 2 ^ 31"
  shows "merge_loop m (rng isn (s, e)) True (map (rng isn) hs) = m @ map (rng isn) hs"
  using assms
proof (induction hs arbitrary: m)
  case (Cons p hs)
  obtain a b where p: "p = (a, b)" by (cases p)
  have "near b s" "near a e"
    using Cons.prems p by (auto intro: nearI [of L])
  then show ?case
    using Cons p by (simp add: seq_simps)
qed simp

lemma merge_loop_ins_range:
  assumes "separated lo hs" "\<forall>(a, b)\<in>set hs. b < L + 2 ^ 31" "L \<le> lo"
    and "L \<le> s" "s < e" "e < L + 2 ^ 31"
  shows "merge_loop m (rng isn (s, e)) False (map (rng isn) hs) = m @ map (rng isn) (ins_range s e hs)"
  using assms
proof (induction s e hs arbitrary: m lo rule: ins_range.induct)
  case (2 s e a b hs)
  have ab: "L \<le> a" "a < b" "b < L + 2 ^ 31" and sep: "separated (Suc b) hs"
    and hi: "\<forall>(a, b)\<in>set hs. b < L + 2 ^ 31"
    using "2.prems" by auto
  have near: "near b s" "near a e" "near a s" "near b e"
    using ab "2.prems" by (auto intro: nearI [of L])
  consider "b < s" | "\<not> b < s" "e < a" | "\<not> b < s" "\<not> e < a" by blast
  then show ?case
  proof cases
    case 1
    have "merge_loop (m @ [rng isn (a, b)]) (rng isn (s, e)) False (map (rng isn) hs)
        = (m @ [rng isn (a, b)]) @ map (rng isn) (ins_range s e hs)"
      using "2.IH"(1) [OF 1 sep hi] ab "2.prems" by simp
    then show ?thesis using 1 near by (simp add: seq_simps)
  next
    case 2
    have "\<forall>(a', b')\<in>set hs. L \<le> a' \<and> a' < L + 2 ^ 31 \<and> L \<le> b' \<and> b' < L + 2 ^ 31 \<and> e < a' \<and> s \<le> b'"
      using separated_lower [OF sep] hi ab 2 "2.prems" by fastforce
    then have "merge_loop (m @ [rng isn (s, e), rng isn (a, b)]) (rng isn (s, e)) True (map (rng isn) hs)
        = (m @ [rng isn (s, e), rng isn (a, b)]) @ map (rng isn) hs"
      using "2.prems" by (intro merge_loop_placed) auto
    then show ?thesis using 2 near by (simp add: seq_simps)
  next
    case 3
    have "merge_loop m (rng isn (min a s, max b e)) False (map (rng isn) hs)
        = m @ map (rng isn) (ins_range (min a s) (max b e) hs)"
      using "2.IH"(2) [OF 3 sep hi] ab "2.prems" by simp
    moreover have "min a s = (if a < s then a else s)" "max b e = (if e < b then b else e)"
      by auto
    ultimately show ?thesis
      using 3 near by (cases "a < s"; cases "e < b") (simp_all add: seq_simps Let_def)
  qed
qed simp

subsection \<open>The drain on stream positions\<close>

lemma drain_loop_separated:
  assumes "separated F hs" "\<forall>(a, b)\<in>set hs. b < F + 2 ^ 31"
  shows "drain_loop (seqno isn F) 0 (map (rng isn) hs) =
    (case hs of (a, b) # hs' \<Rightarrow> if a = F then (seqno isn b, 1) else (seqno isn F, 0)
     | [] \<Rightarrow> (seqno isn F, 0))"
proof (cases hs)
  case (Cons p hs')
  obtain a b where p: "p = (a, b)" by (cases p)
  have ab: "F \<le> a" "a < b" "b < F + 2 ^ 31" "separated (Suc b) hs'"
    using assms Cons p by auto
  have near: "near a F" "near b F" using ab by (auto intro: nearI [of F])
  have stop: "drain_loop (seqno isn b) k (map (rng isn) hs') = (seqno isn b, k)" for k
  proof (cases hs')
    case (Cons q hs'')
    obtain c d where q: "q = (c, d)" by (cases q)
    have "Suc b \<le> c" "c < d" "d < F + 2 ^ 31"
      using ab assms \<open>hs = p # hs'\<close> Cons q by auto
    moreover from this have "near c b" using ab by (auto intro: nearI [of F])
    ultimately show ?thesis using Cons q by (simp add: seq_simps)
  qed simp
  show ?thesis
    using Cons p ab near stop by (auto simp: seq_simps)
qed simp

subsection \<open>\<open>accept\<close> implements insertion\<close>

lemma rsm_rel_new: "rsm_rel isn {} (new_Reassembly isn)"
  unfolding rsm_rel_def
  by (rule exI [of _ 0], rule exI [of _ "[]"]) (simp add: new_Reassembly_def)

lemma rsm_relE:
  assumes "rsm_rel isn R rsm"
  obtains F hs where "rs_isn rsm = isn" "rs_rcv_nxt rsm = seqno isn F"
    "rs_held rsm = map (rng isn) hs" "separated (Suc F) hs" "R = {..<F} \<union> cover hs"
    "\<forall>(a, b)\<in>set hs. b < F + 2 ^ 31" "frontier R = F"
proof -
  from assms obtain F hs where *: "rs_isn rsm = isn" "rs_rcv_nxt rsm = seqno isn F"
    "rs_held rsm = map (rng isn) hs" "separated (Suc F) hs" "R = {..<F} \<union> cover hs"
    "\<forall>(a, b)\<in>set hs. b < F + 2 ^ 31"
    unfolding rsm_rel_def by blast
  moreover have "frontier R = F"
    using *(5) separated_cover_lower [OF *(4)] by (intro frontier_eqI) force+
  ultimately show thesis by (rule that)
qed

text \<open>A segment is in window when it is less than half the sequence space from the frontier.\<close>

definition in_window :: "nat set \<Rightarrow> nat \<Rightarrow> nat \<Rightarrow> bool" where
  "in_window R s l \<longleftrightarrow> 0 < l \<and> s + l < frontier R + 2 ^ 31 \<and> frontier R < s + 2 ^ 31"

lemma in_window_len: "in_window R s l \<Longrightarrow> l < 2 ^ 32"
  by (simp add: in_window_def)

text \<open>
  The state after \<open>accept\<close>, in the three cases of the code: nothing new, a hole stays
  before the data, the frontier moves.
\<close>

lemma accept_dup:
  assumes "rsm_rel isn R rsm" "in_window R s l" "s + l \<le> frontier R"
  shows "accept rsm (seqno isn s) (of_nat l) t = (False, rsm\<lparr>rs_dups := rs_dups rsm + 1\<rparr>)"
    and "R \<union> {s..<s + l} = R"
proof -
  obtain F hs where *: "rs_rcv_nxt rsm = seqno isn F" "R = {..<F} \<union> cover hs" "frontier R = F"
    using assms(1) by (rule rsm_relE)
  have l: "(of_nat l :: u32) \<noteq> 0"
    using assms(2) unat_of_nat_small [of l, where 'a = 32] by (auto simp: in_window_def)
  have "near (s + l) F" using assms *(3) by (auto simp: near_def in_window_def)
  then have "seq_leq (seqno isn s + of_nat l) (rs_rcv_nxt rsm)"
    using assms(3) *(1,3) seq_leq_seqno [of "s + l" F isn] by (simp add: add.assoc)
  then show "accept rsm (seqno isn s) (of_nat l) t = (False, rsm\<lparr>rs_dups := rs_dups rsm + 1\<rparr>)"
    using l by (simp add: accept_def)
  show "R \<union> {s..<s + l} = R" using assms(3) * by auto
qed

lemma accept_new:
  assumes "rsm_rel isn R rsm" "in_window R s l" "frontier R < s + l"
  obtains F hs hs' where
    "frontier R = F" "R = {..<F} \<union> cover hs"
    "separated F hs'" "\<forall>(a, b)\<in>set hs'. b < F + 2 ^ 31"
    "cover hs' = {max s F..<s + l} \<union> cover hs"
    "accept rsm (seqno isn s) (of_nat l) t =
      (case hs' of (a, b) # hs'' \<Rightarrow>
         if a = F then (True, rsm\<lparr>rs_held := map (rng isn) hs'', rs_rcv_nxt := seqno isn b,
             rs_advances := rs_advances rsm @ [\<lparr>a_frontier = seqno isn b, a_t_ms = t\<rparr>]\<rparr>)
         else (False, rsm\<lparr>rs_held := map (rng isn) hs', rs_ooo := rs_ooo rsm + 1\<rparr>)
       | [] \<Rightarrow> undefined)" "hs' \<noteq> []"
proof -
  obtain F hs where *: "rs_rcv_nxt rsm = seqno isn F" "rs_held rsm = map (rng isn) hs"
      "separated (Suc F) hs" "R = {..<F} \<union> cover hs" "\<forall>(a, b)\<in>set hs. b < F + 2 ^ 31" "frontier R = F"
    using assms(1) by (rule rsm_relE)
  define S E where "S = max s F" and "E = s + l"
  define hs' where "hs' = ins_range S E hs"
  have l: "(of_nat l :: u32) \<noteq> 0"
    using assms(2) unat_of_nat_small [of l, where 'a = 32] by (auto simp: in_window_def)
  have near: "near E F" "near s F" and SE: "F \<le> S" "S < E" "E < F + 2 ^ 31"
    using assms *(6) by (auto simp: near_def in_window_def S_def E_def)
  have e: "seqno isn s + of_nat l = seqno isn E" by (simp add: E_def add.assoc)
  have new: "\<not> seq_leq (seqno isn E) (seqno isn F)"
    unfolding seq_leq_seqno [OF near(1)] using assms(3) *(6) by (simp add: E_def)
  have st: "(if seq_lt (seqno isn s) (seqno isn F) then seqno isn F else seqno isn s) = seqno isn S"
    using near by (simp add: seq_simps S_def)
  have merged: "merge_loop [] \<lparr>r_start = seqno isn S, r_end = seqno isn E\<rparr> False (rs_held rsm)
      = map (rng isn) hs'"
    using merge_loop_ins_range [of "Suc F" hs F S E "[]" isn] *(2,3,5) SE
    by (simp add: hs'_def rng_def)
  have sep: "separated F hs'"
    unfolding hs'_def using *(3) SE by (intro separated_ins_range) (auto intro: separated_mono)
  have cov: "cover hs' = {S..<E} \<union> cover hs"
    unfolding hs'_def by (rule cover_ins_range [OF SE(2) *(3)])
  have hi: "\<forall>(a, b)\<in>set hs'. b < F + 2 ^ 31"
  proof clarify
    fix a b assume ab: "(a, b) \<in> set hs'"
    then have "b - 1 \<in> cover hs'"
      using separated_lower [OF sep ab] by (intro cover_mem) auto
    then show "b < F + 2 ^ 31"
      unfolding cov using SE(3) *(5) by (force simp: cover_def)
  qed
  have ne: "hs' \<noteq> []" using cov SE by auto
  have acc: "accept rsm (seqno isn s) (of_nat l) t =
      (case hs' of (a, b) # hs'' \<Rightarrow>
         if a = F then (True, rsm\<lparr>rs_held := map (rng isn) hs'', rs_rcv_nxt := seqno isn b,
             rs_advances := rs_advances rsm @ [\<lparr>a_frontier = seqno isn b, a_t_ms = t\<rparr>]\<rparr>)
         else (False, rsm\<lparr>rs_held := map (rng isn) hs', rs_ooo := rs_ooo rsm + 1\<rparr>)
       | [] \<Rightarrow> undefined)"
  proof (cases hs')
    case Nil
    with ne show ?thesis by simp
  next
    case (Cons p hs'')
    obtain a b where p: "p = (a, b)" by (cases p)
    have "near b F" "F \<le> a" "a < b"
      using sep hi Cons p by (auto simp: near_def)
    then have "seqno isn b \<noteq> seqno isn F" using seqno_eq_iff by auto
    with Cons p drain_loop_separated [OF sep hi, of isn] \<open>F \<le> a\<close> show ?thesis
      unfolding accept_def Let_def e *(1) st merged using l new by (simp add: *(1))
  qed
  show thesis
    by (rule that [OF *(6,4) sep hi _ acc ne]) (simp add: cov S_def E_def)
qed

theorem accept_refines:
  assumes rel: "rsm_rel isn R rsm" and win: "in_window R s l"
    and acc: "accept rsm (seqno isn s) (of_nat l) t = (moved, rsm')"
  shows "rsm_rel isn (R \<union> {s..<s + l}) rsm'"
    and "moved \<longleftrightarrow> frontier (R \<union> {s..<s + l}) \<noteq> frontier R"
    and "rs_advances rsm' = rs_advances rsm @
      (if moved then [\<lparr>a_frontier = seqno isn (frontier (R \<union> {s..<s + l})), a_t_ms = t\<rparr>] else [])"
    and "rs_dups rsm' = rs_dups rsm + (if s + l \<le> frontier R then 1 else 0)"
    and "rs_ooo rsm' = rs_ooo rsm + (if moved \<or> s + l \<le> frontier R then 0 else 1)"
proof -
  let ?R = "R \<union> {s..<s + l}"
  have *: "rsm_rel isn ?R rsm' \<and> (moved \<longleftrightarrow> frontier ?R \<noteq> frontier R) \<and>
      rs_advances rsm' = rs_advances rsm @
        (if moved then [\<lparr>a_frontier = seqno isn (frontier ?R), a_t_ms = t\<rparr>] else []) \<and>
      rs_dups rsm' = rs_dups rsm + (if s + l \<le> frontier R then 1 else 0) \<and>
      rs_ooo rsm' = rs_ooo rsm + (if moved \<or> s + l \<le> frontier R then 0 else 1)"
  proof (cases "s + l \<le> frontier R")
    case True
    note d = accept_dup [OF rel win True]
    have "rsm' = rsm\<lparr>rs_dups := rs_dups rsm + 1\<rparr>" "\<not> moved"
      using acc d(1) [of t] by auto
    then show ?thesis
      using rel True by (simp add: d(2) rsm_rel_def)
  next
    case False
    then have lt: "frontier R < s + l" by simp
    obtain F hs hs' where
      n: "frontier R = F" "R = {..<F} \<union> cover hs" "separated F hs'"
      "\<forall>(a, b)\<in>set hs'. b < F + 2 ^ 31" "cover hs' = {max s F..<s + l} \<union> cover hs"
      and a: "accept rsm (seqno isn s) (of_nat l) t =
      (case hs' of (a, b) # hs'' \<Rightarrow>
         if a = F then (True, rsm\<lparr>rs_held := map (rng isn) hs'', rs_rcv_nxt := seqno isn b,
             rs_advances := rs_advances rsm @ [\<lparr>a_frontier = seqno isn b, a_t_ms = t\<rparr>]\<rparr>)
         else (False, rsm\<lparr>rs_held := map (rng isn) hs', rs_ooo := rs_ooo rsm + 1\<rparr>)
       | [] \<Rightarrow> undefined)" "hs' \<noteq> []"
      by (rule accept_new [OF rel win lt, where t = t])
    have R: "?R = {..<F} \<union> cover hs'" using n(2,5) by auto
    have isn: "rs_isn rsm = isn" and nxt: "rs_rcv_nxt rsm = seqno isn F"
      using rel n(1) by (auto elim: rsm_relE)
    obtain a' b' hs'' where hs': "hs' = (a', b') # hs''" using a(2) by (cases hs') auto
    have ab: "F \<le> a'" "a' < b'" "b' < F + 2 ^ 31" "separated (Suc b') hs''"
      "\<forall>(a, b)\<in>set hs''. b < F + 2 ^ 31"
      using n(3,4) hs' by auto
    show ?thesis
    proof (cases "a' = F")
      case True
      have R': "?R = {..<b'} \<union> cover hs''" using R hs' True ab by auto
      have fr: "frontier ?R = b'"
        using separated_cover_lower [OF ab(4)] unfolding R' by (intro frontier_eqI) force+
      have res: "moved" "rsm' = rsm\<lparr>rs_held := map (rng isn) hs'', rs_rcv_nxt := seqno isn b',
             rs_advances := rs_advances rsm @ [\<lparr>a_frontier = seqno isn b', a_t_ms = t\<rparr>]\<rparr>"
        using acc a(1) hs' True by auto
      have "\<forall>(a, b)\<in>set hs''. b < b' + 2 ^ 31" using ab True by fastforce
      then have "rsm_rel isn ?R rsm'"
        unfolding rsm_rel_def R' using res ab(4) isn by (intro exI [of _ b'] exI [of _ hs'']) simp
      then show ?thesis
        using res fr n(1) ab True False by simp
    next
      case False
      have "separated (Suc F) hs'" using hs' ab False by simp
      then have fr: "frontier ?R = F"
        using separated_cover_lower unfolding R by (intro frontier_eqI) force+
      have res: "\<not> moved" "rsm' = rsm\<lparr>rs_held := map (rng isn) hs', rs_ooo := rs_ooo rsm + 1\<rparr>"
        using acc a(1) hs' False by auto
      then have "rsm_rel isn ?R rsm'"
        unfolding rsm_rel_def R using n(4) isn nxt \<open>separated (Suc F) hs'\<close>
        by (intro exI [of _ F] exI [of _ hs']) simp
      then show ?thesis
        using res fr n(1) \<open>\<not> s + l \<le> frontier R\<close> by simp
    qed
  qed
  show "rsm_rel isn ?R rsm'" "moved \<longleftrightarrow> frontier ?R \<noteq> frontier R"
    "rs_advances rsm' = rs_advances rsm @
      (if moved then [\<lparr>a_frontier = seqno isn (frontier ?R), a_t_ms = t\<rparr>] else [])"
    "rs_dups rsm' = rs_dups rsm + (if s + l \<le> frontier R then 1 else 0)"
    "rs_ooo rsm' = rs_ooo rsm + (if moved \<or> s + l \<le> frontier R then 0 else 1)"
    using * by blast+
qed

subsection \<open>What the peer reads off the state\<close>

lemma delivered_frontier: "rsm_rel isn R rsm \<Longrightarrow> delivered rsm = of_nat (frontier R)"
  by (elim rsm_relE) (simp add: delivered_def)

lemma rcv_nxt_frontier: "rsm_rel isn R rsm \<Longrightarrow> rs_rcv_nxt rsm = seqno isn (frontier R)"
  by (elim rsm_relE) simp

lemma has_gap_iff: "rsm_rel isn R rsm \<Longrightarrow> has_gap rsm \<longleftrightarrow> R \<noteq> {..<frontier R}"
proof (elim rsm_relE)
  fix F hs
  assume *: "rs_held rsm = map (rng isn) hs" "separated (Suc F) hs" "R = {..<F} \<union> cover hs" "frontier R = F"
  have "cover hs \<subseteq> {..<F} \<longleftrightarrow> hs = []"
  proof (cases hs)
    case (Cons p hs')
    then have "fst p \<in> cover hs" "\<not> fst p < F" using *(2) by (cases p; auto)+
    then show ?thesis using Cons by auto
  qed simp
  then show ?thesis using * by (auto simp: has_gap_def)
qed

text \<open>The merge keeps the order that the source asserts.\<close>

lemma held_sorted_map:
  "separated lo hs \<Longrightarrow> \<forall>(a, b)\<in>set hs. b < L + 2 ^ 31 \<Longrightarrow> L \<le> lo \<Longrightarrow> held_sorted (map (rng isn) hs)"
proof (induction hs arbitrary: lo rule: induct_list012)
  case (3 p q hs)
  obtain a b c d where pq: "p = (a, b)" "q = (c, d)" by (cases p, cases q)
  have "near c a" using "3.prems" pq by (auto intro: nearI [of L])
  moreover have "held_sorted (map (rng isn) (q # hs))"
    using "3.prems" pq by (intro "3.IH"(2) [of "Suc b"]) auto
  ultimately show ?case using "3.prems" pq by (simp add: seq_simps)
qed auto

lemma rsm_rel_held_sorted: "rsm_rel isn R rsm \<Longrightarrow> held_sorted (rs_held rsm)"
  by (elim rsm_relE) (simp add: held_sorted_map [OF _ _ le_SucI [OF order_refl]])

text \<open>Selective acknowledgements name received data beyond the frontier, highest first.\<close>

lemma sack_blocks_length: "length (sack_blocks rsm n) \<le> n"
  by (simp add: sack_blocks_def)

lemma separated_edges:
  "separated lo hs \<Longrightarrow> (a, b) \<in> set hs \<Longrightarrow> b \<notin> cover hs \<and> (0 < a \<longrightarrow> a - 1 \<notin> cover hs)"
proof (induction hs arbitrary: lo)
  case (Cons p hs)
  obtain c d where p: "p = (c, d)" by (cases p)
  have low: "x \<in> cover hs \<Longrightarrow> Suc d \<le> x" for x
    using Cons.prems(1) p separated_cover_lower by auto
  show ?case
  proof (cases "(a, b) = (c, d)")
    case True
    then show ?thesis using p low [of b] low [of "a - 1"] Cons.prems(1) by auto
  next
    case False
    then have "(a, b) \<in> set hs" using Cons.prems p by auto
    moreover from this have "Suc d \<le> a \<and> a < b" using Cons.prems(1) p separated_lower by auto
    ultimately show ?thesis using Cons.IH [of "Suc d"] Cons.prems(1) p by auto
  qed
qed simp

lemma sack_blocks_sound:
  assumes "rsm_rel isn R rsm" "blk \<in> set (sack_blocks rsm n)"
  obtains a b where "blk = rng isn (a, b)" "frontier R < a" "a < b" "{a..<b} \<subseteq> R" "b \<notin> R" "a - 1 \<notin> R"
proof -
  obtain F hs where *: "rs_held rsm = map (rng isn) hs" "separated (Suc F) hs"
      "R = {..<F} \<union> cover hs" "frontier R = F"
    using assms(1) by (rule rsm_relE)
  have "blk \<in> set (rs_held rsm)"
    using assms(2) set_take_subset [of n "rev (rs_held rsm)"] by (auto simp: sack_blocks_def)
  then obtain a b where ab: "blk = rng isn (a, b)" "(a, b) \<in> set hs" using *(1) by auto
  have lt: "F < a" "a < b" using separated_lower [OF *(2) ab(2)] by auto
  have "a - 1 \<notin> R" "b \<notin> R"
    using separated_edges [OF *(2) ab(2)] *(3) lt by auto
  then show thesis using that ab lt *(3,4) cover_mem [OF ab(2)] by (auto simp: subset_iff)
qed

subsection \<open>The interface the peer relies on\<close>

text \<open>
  A stream receiver stores segments given by stream position and length; its contract is
  that it represents the set of stored positions and reports whether the frontier moved.
  Everything the client needs of a whole run (order of arrival does not matter, full
  coverage delivers everything, when a position was first passed) follows from it.
\<close>

fun run_segs :: "('s \<Rightarrow> nat \<Rightarrow> nat \<Rightarrow> real \<Rightarrow> bool \<times> 's) \<Rightarrow> 's \<Rightarrow> (nat \<times> nat \<times> real) list \<Rightarrow> 's" where
  "run_segs ins st [] = st"
| "run_segs ins st ((s, l, t) # segs) = run_segs ins (snd (ins st s l t)) segs"

definition seg_cover :: "(nat \<times> nat \<times> real) list \<Rightarrow> nat set" where
  "seg_cover segs = (\<Union>(s, l, t)\<in>set segs. {s..<s + l})"

lemma seg_cover_simps [simp]:
  "seg_cover [] = {}" "seg_cover ((s, l, t) # segs) = {s..<s + l} \<union> seg_cover segs"
  by (simp_all add: seg_cover_def)

definition within_stream :: "nat \<Rightarrow> (nat \<times> nat \<times> real) list \<Rightarrow> bool" where
  "within_stream n segs \<longleftrightarrow> (\<forall>(s, l, t)\<in>set segs. 0 < l \<and> s + l \<le> n)"

fun first_reach :: "nat set \<Rightarrow> nat \<Rightarrow> (nat \<times> nat \<times> real) list \<Rightarrow> real" where
  "first_reach R p [] = -1"
| "first_reach R p ((s, l, t) # segs) =
     (if p \<le> frontier (R \<union> {s..<s + l}) then t else first_reach (R \<union> {s..<s + l}) p segs)"

definition find_time :: "(nat \<times> real) list \<Rightarrow> nat \<Rightarrow> real" where
  "find_time es p = (case find (\<lambda>(F, t). p \<le> F) es of None \<Rightarrow> -1 | Some (F, t) \<Rightarrow> t)"

lemma find_time_append:
  "\<forall>(F, t)\<in>set es. F < p \<Longrightarrow> find_time (es @ es') p = find_time es' p"
  by (induction es) (auto simp: find_time_def)

lemma find_time_Cons: "find_time ((F, t) # es) p = (if p \<le> F then t else find_time es p)"
  by (simp add: find_time_def)

lemma frontier_le: "R \<subseteq> {..<n} \<Longrightarrow> frontier R \<le> n"
  unfolding frontier_def by (rule Least_le) auto

locale stream_receiver =
  fixes rel :: "nat set \<Rightarrow> 's \<Rightarrow> bool"
    and ins :: "'s \<Rightarrow> nat \<Rightarrow> nat \<Rightarrow> real \<Rightarrow> bool \<times> 's"
    and elog :: "'s \<Rightarrow> (nat \<times> real) list"
    and half :: nat
  assumes ins_rel: "\<lbrakk> rel R st; 0 < l; s + l < frontier R + half; frontier R < s + half \<rbrakk>
      \<Longrightarrow> rel (R \<union> {s..<s + l}) (snd (ins st s l t))"
    and ins_moved: "\<lbrakk> rel R st; 0 < l; s + l < frontier R + half; frontier R < s + half \<rbrakk>
      \<Longrightarrow> fst (ins st s l t) \<longleftrightarrow> frontier (R \<union> {s..<s + l}) \<noteq> frontier R"
    and ins_log: "\<lbrakk> rel R st; R \<subseteq> {..<n}; 0 < l; s + l \<le> n; n < half \<rbrakk>
      \<Longrightarrow> elog (snd (ins st s l t)) = elog st @
        (if fst (ins st s l t) then [(frontier (R \<union> {s..<s + l}), t)] else [])"
begin

lemma ins_within:
  assumes "rel R st" "R \<subseteq> {..<n}" "0 < l" "s + l \<le> n" "n < half"
  shows "rel (R \<union> {s..<s + l}) (snd (ins st s l t))"
    and "fst (ins st s l t) \<longleftrightarrow> frontier (R \<union> {s..<s + l}) \<noteq> frontier R"
    and "R \<union> {s..<s + l} \<subseteq> {..<n}"
  using assms frontier_le [OF assms(2)] by (auto intro!: ins_rel simp: ins_moved)

lemma run_rel:
  "rel R st \<Longrightarrow> R \<subseteq> {..<n} \<Longrightarrow> within_stream n segs \<Longrightarrow> n < half \<Longrightarrow>
   rel (R \<union> seg_cover segs) (run_segs ins st segs)"
proof (induction segs arbitrary: R st)
  case (Cons x segs)
  obtain s l t where x: "x = (s, l, t)" by (cases x)
  have sl: "0 < l" "s + l \<le> n" "within_stream n segs"
    using Cons.prems(3) x by (auto simp: within_stream_def)
  note step = ins_within [OF Cons.prems(1,2) sl(1,2) Cons.prems(4)]
  have "rel (R \<union> {s..<s + l} \<union> seg_cover segs) (run_segs ins (snd (ins st s l t)) segs)"
    by (rule Cons.IH [OF step(1,3) sl(3) Cons.prems(4)])
  then show ?case using x by (simp add: Un_assoc)
qed simp

lemma run_complete:
  assumes "rel {} st" "within_stream n segs" "n < half" "seg_cover segs = {..<n}"
  shows "rel {..<n} (run_segs ins st segs)"
  using run_rel [OF assms(1) _ assms(2,3)] assms(4) by simp

lemma run_order_irrelevant:
  assumes "rel {} st" "within_stream n segs" "n < half" "set segs' = set segs"
  shows "rel (seg_cover segs) (run_segs ins st segs')"
proof -
  have "within_stream n segs'" "seg_cover segs' = seg_cover segs"
    using assms(2,4) by (simp_all add: within_stream_def seg_cover_def)
  then show ?thesis using run_rel [OF assms(1) _ _ assms(3), of segs'] by simp
qed

lemma run_log_extends:
  "rel R st \<Longrightarrow> R \<subseteq> {..<n} \<Longrightarrow> within_stream n segs \<Longrightarrow> n < half \<Longrightarrow>
   \<exists>es. elog (run_segs ins st segs) = elog st @ es \<and> (\<forall>(F, t)\<in>set es. F \<le> n)"
proof (induction segs arbitrary: R st)
  case (Cons x segs)
  obtain s l t where x: "x = (s, l, t)" by (cases x)
  have sl: "0 < l" "s + l \<le> n" "within_stream n segs"
    using Cons.prems(3) x by (auto simp: within_stream_def)
  note step = ins_within [OF Cons.prems(1,2) sl(1,2) Cons.prems(4)]
  obtain es where "elog (run_segs ins (snd (ins st s l t)) segs) = elog (snd (ins st s l t)) @ es"
      "\<forall>(F, t)\<in>set es. F \<le> n"
    using Cons.IH [OF step(1,3) sl(3) Cons.prems(4)] by blast
  then show ?case
    using x ins_log [OF Cons.prems(1,2) sl(1,2) Cons.prems(4)] frontier_le [OF step(3)] by auto
qed simp

lemma run_first_reach:
  "rel R st \<Longrightarrow> R \<subseteq> {..<n} \<Longrightarrow> within_stream n segs \<Longrightarrow> n < half \<Longrightarrow> frontier R < p \<Longrightarrow>
   \<forall>(F, t)\<in>set (elog st). F < p \<Longrightarrow>
   find_time (elog (run_segs ins st segs)) p = first_reach R p segs"
proof (induction segs arbitrary: R st)
  case Nil
  then show ?case using find_time_append [of "elog st" p "[]"] by (simp add: find_time_def)
next
  case (Cons x segs)
  obtain s l t where x: "x = (s, l, t)" by (cases x)
  have sl: "0 < l" "s + l \<le> n" "within_stream n segs"
    using Cons.prems(3) x by (auto simp: within_stream_def)
  let ?R = "R \<union> {s..<s + l}" and ?st = "snd (ins st s l t)"
  note step = ins_within [OF Cons.prems(1,2) sl(1,2) Cons.prems(4)]
  note lg = ins_log [OF Cons.prems(1,2) sl(1,2) Cons.prems(4)]
  obtain es where es: "elog (run_segs ins ?st segs) = elog ?st @ es"
    using run_log_extends [OF step(1,3) sl(3) Cons.prems(4)] by blast
  show ?case
  proof (cases "p \<le> frontier ?R")
    case True
    then have "fst (ins st s l t)" using step(2) Cons.prems(5) by auto
    then have "elog (run_segs ins ?st segs) = elog st @ (frontier ?R, t) # es"
      using es lg by simp
    then show ?thesis
      using x True find_time_append [OF Cons.prems(6)] by (simp add: find_time_Cons)
  next
    case False
    then have "\<forall>(F, t)\<in>set (elog ?st). F < p"
      using Cons.prems(6) lg by (auto split: if_splits)
    then show ?thesis
      using x False Cons.IH [OF step(1,3) sl(3) Cons.prems(4)] by simp
  qed
qed

end

subsection \<open>The reassembly class provides it\<close>

definition accept_at :: "u32 \<Rightarrow> Reassembly \<Rightarrow> nat \<Rightarrow> nat \<Rightarrow> real \<Rightarrow> bool \<times> Reassembly" where
  "accept_at isn rsm s l t = accept rsm (seqno isn s) (of_nat l) t"

definition advance_log :: "u32 \<Rightarrow> Reassembly \<Rightarrow> (nat \<times> real) list" where
  "advance_log isn rsm = map (\<lambda>a. (unat (a_frontier a - isn), a_t_ms a)) (rs_advances rsm)"

interpretation rsm: stream_receiver "rsm_rel isn" "accept_at isn" "advance_log isn" "2 ^ 31" for isn
proof
  fix R rsm l s t
  assume rel: "rsm_rel isn R rsm" and w: "0 < l" "s + l < frontier R + 2 ^ 31" "frontier R < s + 2 ^ 31"
  obtain m r where acc: "accept rsm (seqno isn s) (of_nat l) t = (m, r)" by (cases "accept rsm (seqno isn s) (of_nat l) t")
  have win: "in_window R s l" using w by (simp add: in_window_def)
  show "rsm_rel isn (R \<union> {s..<s + l}) (snd (accept_at isn rsm s l t))"
    and "fst (accept_at isn rsm s l t) \<longleftrightarrow> frontier (R \<union> {s..<s + l}) \<noteq> frontier R"
    using accept_refines [OF rel win acc] acc by (simp_all add: accept_at_def)
next
  fix R rsm n l s t
  assume rel: "rsm_rel isn R rsm" and w: "R \<subseteq> {..<n}" "0 < l" "s + l \<le> n" "n < 2 ^ 31"
  obtain m r where acc: "accept rsm (seqno isn s) (of_nat l) t = (m, r)" by (cases "accept rsm (seqno isn s) (of_nat l) t")
  have "frontier R \<le> n" "frontier (R \<union> {s..<s + l}) \<le> n"
    using w by (auto intro!: frontier_le)
  then have "in_window R s l" and "frontier (R \<union> {s..<s + l}) < 2 ^ 32"
    using w by (auto simp: in_window_def)
  then show "advance_log isn (snd (accept_at isn rsm s l t)) = advance_log isn rsm @
      (if fst (accept_at isn rsm s l t) then [(frontier (R \<union> {s..<s + l}), t)] else [])"
    using accept_refines(3) [OF rel _ acc] acc
    by (auto simp: accept_at_def advance_log_def unat_of_nat_small)
qed

lemma time_reached_find_time:
  assumes "\<forall>(F, t)\<in>set (advance_log isn rsm). F < 2 ^ 31" "p < 2 ^ 31"
  shows "time_reached rsm (seqno isn p) = find_time (advance_log isn rsm) p"
proof -
  have "\<forall>a\<in>set as. unat (a_frontier a - isn) < 2 ^ 31 \<Longrightarrow> time_reached_loop as (seqno isn p)
      = find_time (map (\<lambda>a. (unat (a_frontier a - isn), a_t_ms a)) as) p" for as
  proof (induction as)
    case (Cons a as)
    have "seq_geq (seqno isn (unat (a_frontier a - isn))) (seqno isn p) \<longleftrightarrow> p \<le> unat (a_frontier a - isn)"
      using Cons.prems assms(2) by (intro seq_geq_seqno) (auto simp: near_def)
    then show ?case using Cons by (simp add: find_time_Cons)
  qed (simp add: find_time_def)
  then show ?thesis using assms(1) by (auto simp: time_reached_def advance_log_def)
qed

lemma advance_log_run:
  assumes "within_stream n segs" "n < 2 ^ 31" "0 < p" "p < 2 ^ 31"
  shows "time_reached (run_segs (accept_at isn) (new_Reassembly isn) segs) (seqno isn p) = first_reach {} p segs"
proof -
  let ?r = "run_segs (accept_at isn) (new_Reassembly isn) segs"
  have f0: "frontier {} = 0" by (simp add: frontier_eqI)
  have log0: "advance_log isn (new_Reassembly isn) = []"
    by (simp add: advance_log_def new_Reassembly_def)
  note hyps = rsm_rel_new [of isn] empty_subsetI [of "{..<n}"] assms(1,2)
  have "find_time (advance_log isn ?r) p = first_reach {} p segs"
    by (rule rsm.run_first_reach [OF hyps]) (use assms(3) f0 log0 in auto)
  moreover have "\<forall>(F, t)\<in>set (advance_log isn ?r). F < 2 ^ 31"
    using rsm.run_log_extends [OF hyps] log0 assms(2) by fastforce
  ultimately show ?thesis using time_reached_find_time assms(4) by simp
qed

subsection \<open>Properties\<close>

text \<open>
  Property C1. \<open>accept\<close> implements insertion into the set of received stream positions: it
  keeps the relation to the set, returns true exactly when the first missing position moved,
  logs that new frontier with the arrival time exactly then, and counts a segment with
  nothing new as a duplicate and one that leaves the frontier in place as out of order.
\<close>

theorem accept_implements_insert:
  assumes "rsm_rel isn R rsm" "in_window R s l"
    and "accept rsm (seqno isn s) (of_nat l) t = (moved, rsm')"
  shows "rsm_rel isn (R \<union> {s..<s + l}) rsm'
    \<and> (moved \<longleftrightarrow> frontier (R \<union> {s..<s + l}) \<noteq> frontier R)
    \<and> rs_rcv_nxt rsm' = seqno isn (frontier (R \<union> {s..<s + l}))
    \<and> rs_advances rsm' = rs_advances rsm @
        (if moved then [\<lparr>a_frontier = rs_rcv_nxt rsm', a_t_ms = t\<rparr>] else [])
    \<and> rs_dups rsm' = rs_dups rsm + (if s + l \<le> frontier R then 1 else 0)
    \<and> rs_ooo rsm' = rs_ooo rsm + (if moved \<or> s + l \<le> frontier R then 0 else 1)"
  using accept_refines [OF assms] rcv_nxt_frontier [OF accept_refines(1) [OF assms]] by simp

lemma frontier_empty [simp]: "frontier {} = 0"
  by (simp add: frontier_eqI)

theorem accept_implements_insert_witness:
  "snd (accept (new_Reassembly 0xFFFFFFFF) (seqno 0xFFFFFFFF 2) (of_nat 3) 1) \<noteq> new_Reassembly 0xFFFFFFFF
   \<and> rsm_rel 0xFFFFFFFF {2..<5} (snd (accept (new_Reassembly 0xFFFFFFFF) (seqno 0xFFFFFFFF 2) (of_nat 3) 1))"
  using accept_implements_insert [OF rsm_rel_new [of "0xFFFFFFFF"], of 2 3 1]
  by (auto simp: in_window_def accept_def new_Reassembly_def seq_leq_def seq_lt_def seq_gt_def)

text \<open>
  Property C3. If the segments of a stream of \<open>n\<close> bytes arrive in any order, with any
  repetitions and overlaps, and together cover the stream, then everything is delivered,
  nothing is held back, and the receiver acknowledges the end of the stream.
\<close>

theorem any_order_completes:
  assumes "within_stream n segs" "n < 2 ^ 31" "seg_cover segs = {..<n}"
  shows "delivered (run_segs (accept_at isn) (new_Reassembly isn) segs) = of_nat n
    \<and> \<not> has_gap (run_segs (accept_at isn) (new_Reassembly isn) segs)
    \<and> rs_rcv_nxt (run_segs (accept_at isn) (new_Reassembly isn) segs) = seqno isn n"
proof -
  have "rsm_rel isn {..<n} (run_segs (accept_at isn) (new_Reassembly isn) segs)" (is "rsm_rel _ _ ?r")
    by (rule rsm.run_complete [OF rsm_rel_new assms])
  moreover have "frontier {..<n} = n" by (rule frontier_eqI) auto
  ultimately show ?thesis
    using delivered_frontier [of isn _ ?r] has_gap_iff [of isn _ ?r] rcv_nxt_frontier [of isn _ ?r] by simp
qed

theorem any_order_completes_witness:
  "delivered (run_segs (accept_at 0xFFFFFFFE) (new_Reassembly 0xFFFFFFFE) [(3, 3, 1), (2, 2, 2), (0, 3, 3)]) = 6"
proof -
  have "seg_cover [(3, 3, 1), (2, 2, 2), (0, 3, 3)] = {..<6}" by auto
  then show ?thesis
    using any_order_completes [of 6 "[(3, 3, 1), (2, 2, 2), (0, 3, 3)]" "0xFFFFFFFE"]
    by (simp add: within_stream_def)
qed

text \<open>
  Every block offered for selective acknowledgement is a maximal range of
  received positions strictly beyond the frontier, at most as many as asked for are offered,
  and the held list is sorted as the source asserts.
\<close>

lemma sack_blocks_exact:
  assumes "rsm_rel isn R rsm"
  shows "length (sack_blocks rsm n) \<le> n \<and> held_sorted (rs_held rsm)
    \<and> (\<forall>blk\<in>set (sack_blocks rsm n). \<exists>a b. blk = rng isn (a, b) \<and> frontier R < a \<and> a < b
         \<and> {a..<b} \<subseteq> R \<and> b \<notin> R \<and> a - 1 \<notin> R)"
  using sack_blocks_length rsm_rel_held_sorted [OF assms] sack_blocks_sound [OF assms] by metis

text \<open>
  The time reported for a byte position is the arrival time of the first
  segment after which every byte before that position had been received, and -1 when there
  was none; the head-of-line delays of the results are differences of these times.
\<close>

lemma time_reached_first:
  assumes "within_stream n segs" "n < 2 ^ 31" "0 < p" "p < 2 ^ 31"
  shows "time_reached (run_segs (accept_at isn) (new_Reassembly isn) segs) (seqno isn p)
    = first_reach {} p segs"
  using assms by (rule advance_log_run)

end
