(* ===== verification/Policy.thy ===== *)
theory Policy
  imports Prelude
begin

text \<open>
  The loss policy: \<^verbatim>\<open>include/tp/policy.hpp\<close> and \<^verbatim>\<open>src/policy.cpp\<close>. A rule names a
  half-open range of relative byte offsets and how often a segment overlapping it may be
  discarded. Proved: the exact condition under which a segment is dropped, that a drop
  charges exactly one rule, and, for whole runs, that no rule fires more often than it may
  and that the drop counter is the sum of the rules' counters.
\<close>

record DropRule =
  d_lo :: u32
  d_hi :: u32
  d_times :: int
  d_fired :: int

record LossPolicy =
  lp_rules :: "DropRule list"
  lp_dropped :: int

definition new_LossPolicy :: LossPolicy where
  "new_LossPolicy = \<lparr>lp_rules = [], lp_dropped = 0\<rparr>"

definition lp_add :: "LossPolicy \<Rightarrow> DropRule \<Rightarrow> LossPolicy" where
  "lp_add p r = p\<lparr>lp_rules := lp_rules p @ [r]\<rparr>"

text \<open>
  The loop over the rules: the first live rule that overlaps the segment is charged and
  ends the loop.
\<close>

fun drop_rules :: "u32 \<Rightarrow> u32 \<Rightarrow> DropRule list \<Rightarrow> bool \<times> DropRule list" where
  "drop_rules seg_lo seg_hi [] = (False, [])"
| "drop_rules seg_lo seg_hi (r # rules) =
     (if d_fired r \<ge> d_times r then
        (let (hit, rules') = drop_rules seg_lo seg_hi rules in (hit, r # rules'))
      else if seg_lo < d_hi r \<and> d_lo r < seg_hi then (True, r\<lparr>d_fired := d_fired r + 1\<rparr> # rules)
      else (let (hit, rules') = drop_rules seg_lo seg_hi rules in (hit, r # rules')))"

definition lp_drop :: "LossPolicy \<Rightarrow> u32 \<Rightarrow> u32 \<Rightarrow> bool \<times> LossPolicy" where
  "lp_drop p rel_seq len =
     (if len = 0 then (False, p)
      else (let seg_lo = rel_seq; seg_hi = rel_seq + len;
                (hit, rules') = drop_rules seg_lo seg_hi (lp_rules p)
            in if hit then (True, p\<lparr>lp_rules := rules', lp_dropped := lp_dropped p + 1\<rparr>)
               else (False, p\<lparr>lp_rules := rules'\<rparr>)))"

fun unfired_from :: "nat \<Rightarrow> DropRule list \<Rightarrow> nat list" where
  "unfired_from i [] = []"
| "unfired_from i (r # rules) =
     (if d_fired r = 0 then i # unfired_from (i + 1) rules else unfired_from (i + 1) rules)"

definition unfired :: "LossPolicy \<Rightarrow> nat list" where
  "unfired p = unfired_from 0 (lp_rules p)"

subsection \<open>One decision\<close>

definition live_overlap :: "u32 \<Rightarrow> u32 \<Rightarrow> DropRule \<Rightarrow> bool" where
  "live_overlap seg_lo seg_hi r \<longleftrightarrow> d_fired r < d_times r \<and> seg_lo < d_hi r \<and> d_lo r < seg_hi"

lemma drop_rules_hit: "fst (drop_rules lo hi rules) \<longleftrightarrow> (\<exists>r\<in>set rules. live_overlap lo hi r)"
  by (induction rules) (auto simp: live_overlap_def split: prod.splits)

lemma drop_rules_miss: "\<not> fst (drop_rules lo hi rules) \<Longrightarrow> snd (drop_rules lo hi rules) = rules"
  by (induction rules) (auto split: prod.splits if_splits)

lemma drop_rules_charge:
  "fst (drop_rules lo hi rules) \<Longrightarrow>
   \<exists>pre r post. rules = pre @ r # post \<and> live_overlap lo hi r \<and> (\<forall>q\<in>set pre. \<not> live_overlap lo hi q)
     \<and> snd (drop_rules lo hi rules) = pre @ r\<lparr>d_fired := d_fired r + 1\<rparr> # post"
proof (induction rules)
  case (Cons r rules)
  show ?case
  proof (cases "live_overlap lo hi r")
    case True
    then show ?thesis by (intro exI [of _ "[]"]) (auto simp: live_overlap_def)
  next
    case False
    then have split: "drop_rules lo hi (r # rules) =
        (fst (drop_rules lo hi rules), r # snd (drop_rules lo hi rules))"
      by (auto simp: live_overlap_def split: prod.split)
    then obtain pre q post where "rules = pre @ q # post" "live_overlap lo hi q"
        "\<forall>q\<in>set pre. \<not> live_overlap lo hi q"
        "snd (drop_rules lo hi rules) = pre @ q\<lparr>d_fired := d_fired q + 1\<rparr> # post"
      using Cons by auto
    then show ?thesis
      using False split by (intro exI [of _ "r # pre"]) auto
  qed
qed simp

lemma lp_drop_iff:
  "fst (lp_drop p rel_seq len) \<longleftrightarrow>
   len \<noteq> 0 \<and> (\<exists>r\<in>set (lp_rules p). live_overlap rel_seq (rel_seq + len) r)"
  by (auto simp: lp_drop_def Let_def drop_rules_hit [symmetric] split: prod.splits)

subsection \<open>Runs\<close>

fun drop_run :: "LossPolicy \<Rightarrow> (u32 \<times> u32) list \<Rightarrow> bool list \<times> LossPolicy" where
  "drop_run p [] = ([], p)"
| "drop_run p ((sq, len) # segs) =
     (let (b, p') = lp_drop p sq len; (bs, p'') = drop_run p' segs in (b # bs, p''))"

definition lp_inv :: "LossPolicy \<Rightarrow> bool" where
  "lp_inv p \<longleftrightarrow> lp_dropped p = sum_list (map d_fired (lp_rules p)) \<and>
     (\<forall>r\<in>set (lp_rules p). 0 \<le> d_fired r \<and> d_fired r \<le> max 0 (d_times r))"

lemma lp_inv_new: "lp_inv new_LossPolicy"
  by (simp add: lp_inv_def new_LossPolicy_def)

lemma lp_inv_add: "lp_inv p \<Longrightarrow> d_fired r = 0 \<Longrightarrow> lp_inv (lp_add p r)"
  by (auto simp: lp_inv_def lp_add_def)

lemma lp_drop_cases:
  obtains (miss) "lp_drop p sq len = (False, p)"
  | (hit) pre r post where "lp_rules p = pre @ r # post" "live_overlap sq (sq + len) r" "len \<noteq> 0"
      "\<forall>q\<in>set pre. \<not> live_overlap sq (sq + len) q"
      "lp_drop p sq len = (True, p\<lparr>lp_rules := pre @ r\<lparr>d_fired := d_fired r + 1\<rparr> # post,
         lp_dropped := lp_dropped p + 1\<rparr>)"
proof (cases "fst (lp_drop p sq len)")
  case False
  then have "lp_drop p sq len = (False, p)"
    using drop_rules_miss [of sq "sq + len" "lp_rules p"]
    by (auto simp: lp_drop_def Let_def split: prod.splits if_splits)
  then show thesis by (rule miss)
next
  case True
  then have "len \<noteq> 0" and f: "fst (drop_rules sq (sq + len) (lp_rules p))"
    by (auto simp: lp_drop_def Let_def split: prod.splits if_splits)
  obtain pre r post where c: "lp_rules p = pre @ r # post" "live_overlap sq (sq + len) r"
      "\<forall>q\<in>set pre. \<not> live_overlap sq (sq + len) q"
      "snd (drop_rules sq (sq + len) (lp_rules p)) = pre @ r\<lparr>d_fired := d_fired r + 1\<rparr> # post"
    using drop_rules_charge [OF f] by blast
  with f have "drop_rules sq (sq + len) (lp_rules p) = (True, pre @ r\<lparr>d_fired := d_fired r + 1\<rparr> # post)"
    by (simp add: prod_eq_iff)
  then show thesis
    using c \<open>len \<noteq> 0\<close> by (intro hit [of pre r post]) (simp_all add: lp_drop_def)
qed

lemma lp_drop_inv: "lp_inv p \<Longrightarrow> lp_inv (snd (lp_drop p sq len))"
  by (rule lp_drop_cases [of p sq len]) (auto simp: lp_inv_def live_overlap_def)

lemma lp_drop_times: "map d_times (lp_rules (snd (lp_drop p sq len))) = map d_times (lp_rules p)"
  by (rule lp_drop_cases [of p sq len]) auto

lemma lp_drop_count: "lp_dropped (snd (lp_drop p sq len)) = lp_dropped p + (if fst (lp_drop p sq len) then 1 else 0)"
  by (rule lp_drop_cases [of p sq len]) auto

lemma snd_drop_run_Cons:
  "snd (drop_run p ((sq, len) # segs)) = snd (drop_run (snd (lp_drop p sq len)) segs)"
  by (simp split: prod.split)

lemma drop_run_inv: "lp_inv p \<Longrightarrow> lp_inv (snd (drop_run p segs))"
proof (induction segs arbitrary: p)
  case (Cons x segs)
  then show ?case
    by (cases x) (simp only: snd_drop_run_Cons lp_drop_inv)
qed simp

lemma drop_run_times: "map d_times (lp_rules (snd (drop_run p segs))) = map d_times (lp_rules p)"
proof (induction segs arbitrary: p)
  case (Cons x segs)
  then show ?case
    by (cases x) (simp only: snd_drop_run_Cons lp_drop_times)
qed simp

lemma drop_run_count:
  "lp_dropped (snd (drop_run p segs)) = lp_dropped p + int (length (filter id (fst (drop_run p segs))))"
proof (induction segs arbitrary: p)
  case (Cons x segs)
  obtain sq len where x: "x = (sq, len)" by (cases x)
  obtain b p' where b: "lp_drop p sq len = (b, p')" by (cases "lp_drop p sq len")
  obtain bs p'' where r: "drop_run p' segs = (bs, p'')" by (cases "drop_run p' segs")
  show ?case using Cons [of p'] lp_drop_count [of p sq len] x b r by auto
qed simp

lemma inv_dropped_bound:
  assumes "lp_inv p" shows "lp_dropped p \<le> sum_list (map (\<lambda>r. max 0 (d_times r)) (lp_rules p))"
proof -
  have "sum_list (map d_fired rs) \<le> sum_list (map (\<lambda>r. max 0 (d_times r)) rs)"
    if "\<forall>r\<in>set rs. d_fired r \<le> max 0 (d_times r)" for rs
    using that by (induction rs) auto
  then show ?thesis using assms by (auto simp: lp_inv_def)
qed

lemma unfired_from_iff:
  "i \<in> set (unfired_from k rules) \<longleftrightarrow> (\<exists>j<length rules. i = k + j \<and> d_fired (rules ! j) = 0)"
proof (induction rules arbitrary: k)
  case (Cons r rules)
  have "(\<exists>j<length (r # rules). i = k + j \<and> d_fired ((r # rules) ! j) = 0) \<longleftrightarrow>
      (i = k \<and> d_fired r = 0) \<or> (\<exists>j<length rules. i = Suc k + j \<and> d_fired (rules ! j) = 0)"
    by (auto simp: less_Suc_eq_0_disj)
  then show ?case using Cons [of "Suc k"] by auto
qed simp

subsection \<open>Properties\<close>

text \<open>
  A segment is discarded exactly when it has data and some rule with firings
  left overlaps its bytes; a discard charges the first such rule once and counts once, and
  a segment that passes changes nothing.
\<close>

lemma loss_decision:
  "(fst (lp_drop p sq len) \<longleftrightarrow> len \<noteq> 0 \<and> (\<exists>r\<in>set (lp_rules p). live_overlap sq (sq + len) r)) \<and>
   (case lp_drop p sq len of
      (False, p') \<Rightarrow> p' = p
    | (True, p') \<Rightarrow> \<exists>pre r post. lp_rules p = pre @ r # post \<and> live_overlap sq (sq + len) r \<and>
        (\<forall>q\<in>set pre. \<not> live_overlap sq (sq + len) q) \<and>
        p' = p\<lparr>lp_rules := pre @ r\<lparr>d_fired := d_fired r + 1\<rparr> # post, lp_dropped := lp_dropped p + 1\<rparr>)"
proof (intro conjI)
  show "fst (lp_drop p sq len) \<longleftrightarrow> len \<noteq> 0 \<and> (\<exists>r\<in>set (lp_rules p). live_overlap sq (sq + len) r)"
    by (rule lp_drop_iff)
qed (rule lp_drop_cases [of p sq len], simp, fastforce)

definition demo_policy :: LossPolicy where
  "demo_policy = lp_add new_LossPolicy \<lparr>d_lo = 1000, d_hi = 2000, d_times = 1, d_fired = 0\<rparr>"

text \<open>
  Over any run of segments no rule fires more often than it may, the drop
  counter is the sum of what the rules fired, it grows by exactly the number of discarded
  segments, and it never exceeds the total the rules allow.
\<close>

lemma loss_run_bounded:
  assumes "lp_inv p" and "drop_run p segs = (bs, p')"
  shows "lp_dropped p' = lp_dropped p + int (length (filter id bs))
    \<and> lp_dropped p' = sum_list (map d_fired (lp_rules p'))
    \<and> (\<forall>r\<in>set (lp_rules p'). d_fired r \<le> max 0 (d_times r))
    \<and> lp_dropped p' \<le> sum_list (map (\<lambda>t. max 0 t) (map d_times (lp_rules p)))"
proof -
  have "lp_inv p'" and times: "map d_times (lp_rules p') = map d_times (lp_rules p)"
    using drop_run_inv [OF assms(1), of segs] drop_run_times [of p segs] assms(2) by simp_all
  moreover have "(\<Sum>r\<leftarrow>lp_rules p'. max 0 (d_times r)) = sum_list (map (\<lambda>t. max 0 t) (map d_times (lp_rules p)))"
    unfolding times [symmetric] by (simp add: comp_def)
  ultimately show ?thesis
    using drop_run_count [of p segs] inv_dropped_bound [of p'] assms(2) by (simp add: lp_inv_def)
qed

end
