(* ===== verification/Trace.thy ===== *)
theory Trace
  imports Segment
begin

text \<open>
  The log of segments, \<^verbatim>\<open>include/tp/trace.hpp\<close> and \<^verbatim>\<open>src/trace.cpp\<close>: events with times and
  sequence numbers relative to the origin, and the lines that \<^verbatim>\<open>write_csv\<close> prints. Times are
  reals; the conversion of a time to text by \<^verbatim>\<open>printf\<close> is the argument \<open>fmt\<close>. The table that
  \<^verbatim>\<open>dump\<close> prints for a human reader is not modelled.
\<close>

record Event =
  e_t_ms :: real
  e_tx :: bool
  e_flags :: u8
  e_rel_seq :: int
  e_rel_ack :: int
  e_len :: u32
  e_dropped :: bool
  e_note :: string

definition new_Event :: Event where
  "new_Event = \<lparr>e_t_ms = 0, e_tx = False, e_flags = 0, e_rel_seq = 0, e_rel_ack = 0, e_len = 0,
     e_dropped = False, e_note = []\<rparr>"

record Trace =
  tr_events :: "Event list"
  tr_t0 :: real
  tr_data_isn :: u32
  tr_our_isn :: u32

definition new_Trace :: Trace where
  "new_Trace = \<lparr>tr_events = [], tr_t0 = 0, tr_data_isn = 0, tr_our_isn = 0\<rparr>"

subsection \<open>Recording\<close>

definition set_origin :: "real \<Rightarrow> u32 \<Rightarrow> u32 \<Rightarrow> Trace \<Rightarrow> Trace" where
  "set_origin t0_ms data_isn our_isn tr = tr\<lparr>tr_t0 := t0_ms, tr_data_isn := data_isn, tr_our_isn := our_isn\<rparr>"

definition record_event :: "Event \<Rightarrow> Trace \<Rightarrow> Trace" where
  "record_event e tr = tr\<lparr>tr_events := tr_events tr @ [e]\<rparr>"

definition record_rx :: "real \<Rightarrow> u32 \<Rightarrow> u32 \<Rightarrow> u8 \<Rightarrow> u32 \<Rightarrow> bool \<Rightarrow> string \<Rightarrow> Trace \<Rightarrow> Trace" where
  "record_rx t_ms sq ack flags len dropped txt tr =
     record_event (new_Event\<lparr>e_t_ms := t_ms - tr_t0 tr, e_tx := False, e_flags := flags,
       e_rel_seq := sint (sq - tr_data_isn tr), e_rel_ack := sint (ack - tr_our_isn tr),
       e_len := len, e_dropped := dropped, e_note := txt\<rparr>) tr"

definition record_tx :: "real \<Rightarrow> u32 \<Rightarrow> u32 \<Rightarrow> u8 \<Rightarrow> u32 \<Rightarrow> string \<Rightarrow> Trace \<Rightarrow> Trace" where
  "record_tx t_ms sq ack flags len txt tr =
     record_event (new_Event\<lparr>e_t_ms := t_ms - tr_t0 tr, e_tx := True, e_flags := flags,
       e_rel_seq := sint (sq - tr_our_isn tr), e_rel_ack := sint (ack - tr_data_isn tr),
       e_len := len, e_note := txt\<rparr>) tr"

definition trace_note :: "real \<Rightarrow> string \<Rightarrow> Trace \<Rightarrow> Trace" where
  "trace_note t_ms txt tr = record_event (new_Event\<lparr>e_t_ms := t_ms - tr_t0 tr, e_note := txt, e_flags := 0\<rparr>) tr"

subsection \<open>The CSV file\<close>

fun dec_nat :: "nat \<Rightarrow> string" where
  "dec_nat n = (if n < 10 then [char_of (48 + n)] else dec_nat (n div 10) @ [char_of (48 + n mod 10)])"

declare dec_nat.simps [simp del]

definition dec_int :: "int \<Rightarrow> string" where
  "dec_int i = (if i < 0 then CHR ''-'' # dec_nat (nat (- i)) else dec_nat (nat i))"

fun csv_escape :: "string \<Rightarrow> string" where
  "csv_escape [] = []"
| "csv_escape (c # cs) = (if c = CHR 0x22 then [CHR 0x22, c] else [c]) @ csv_escape cs"

text \<open>What \<^verbatim>\<open>printf\<close> prints of a string: the characters before the first NUL.\<close>

definition c_str :: "string \<Rightarrow> string" where
  "c_str s = takeWhile (\<lambda>c. c \<noteq> CHR 0x00) s"

definition csv_row :: "(real \<Rightarrow> string) \<Rightarrow> Event \<Rightarrow> string" where
  "csv_row fmt e =
     fmt (e_t_ms e) @ '','' @ (if e_tx e then ''tx'' else ''rx'') @ '','' @ flagstr (e_flags e) @ '',''
     @ dec_int (e_rel_seq e) @ '','' @ dec_int (e_rel_ack e) @ '','' @ dec_nat (unat (e_len e)) @ '',''
     @ (if e_dropped e then ''1'' else ''0'') @ '','' @ [CHR 0x22] @ c_str (csv_escape (e_note e)) @ [CHR 0x22]"

text \<open>The lines of the file; \<open>None\<close> when it cannot be opened, and then the result is \<^verbatim>\<open>false\<close>.\<close>

definition write_csv :: "bool \<Rightarrow> (real \<Rightarrow> string) \<Rightarrow> Trace \<Rightarrow> string list option" where
  "write_csv opened fmt tr =
     (if \<not> opened then None
      else Some (''t_ms,dir,flags,rel_seq,rel_ack,len,dropped,note'' # map (csv_row fmt) (tr_events tr)))"

subsection \<open>Reading a line back\<close>

text \<open>
  A reader of one CSV record in the sense of RFC 4180: \<open>q\<close> says whether the position is inside
  quotes, \<open>acc\<close> is the reversed field read so far.
\<close>

fun csv_read :: "bool \<Rightarrow> string \<Rightarrow> string \<Rightarrow> string list" where
  "csv_read q acc [] = [rev acc]"
| "csv_read False acc (c # cs) =
     (if c = CHR '','' then rev acc # csv_read False [] cs
      else if c = CHR 0x22 \<and> acc = [] then csv_read True [] cs
      else csv_read False (c # acc) cs)"
| "csv_read True acc (c # cs) =
     (if c = CHR 0x22 then
        (case cs of
           d # ds \<Rightarrow> if d = CHR 0x22 then csv_read True (d # acc) ds else csv_read False acc cs
         | [] \<Rightarrow> csv_read False acc [])
      else csv_read True (c # acc) cs)"

definition csv_fields :: "string \<Rightarrow> string list" where
  "csv_fields line = csv_read False [] line"

definition plain :: "string \<Rightarrow> bool" where
  "plain s \<longleftrightarrow> CHR '','' \<notin> set s \<and> CHR 0x22 \<notin> set s"

lemma csv_read_plain_acc:
  "plain s \<Longrightarrow> csv_read False acc (s @ CHR '','' # cs) = (rev acc @ s) # csv_read False [] cs"
  by (induction s arbitrary: acc) (auto simp: plain_def)

lemmas csv_read_plain = csv_read_plain_acc [where acc = "[]", simplified]

lemma csv_read_escaped: "csv_read True acc (csv_escape s @ [CHR 0x22]) = [rev acc @ s]"
  by (induction s arbitrary: acc) auto

lemma plain_dec_nat: "plain (dec_nat n)"
proof (induction n rule: dec_nat.induct)
  case (1 n)
  have "plain [char_of (48 + d)]" if "d < (10 :: nat)" for d
    using that by (auto simp: plain_def dest!: arg_cong [where f = "of_char :: char \<Rightarrow> nat"])
  from this [of "n mod 10"] this [of n] 1 show ?case
    by (subst dec_nat.simps) (auto simp: plain_def)
qed

lemma plain_dec_int: "plain (dec_int i)"
  using plain_dec_nat by (simp add: dec_int_def plain_def)

lemma plain_flagstr: "plain (flagstr f)"
  by (simp add: flagstr_def plain_def Let_def)

lemma c_str_escape: "CHR 0x00 \<notin> set s \<Longrightarrow> c_str (csv_escape s) = csv_escape s"
  unfolding c_str_def takeWhile_eq_all_conv by (induction s) auto

subsection \<open>Properties\<close>

text \<open>
  Reading a line of the CSV file back gives the eight fields of the event, the
  note included, whatever quotes, commas and line breaks it contains (it has no NUL); the
  text of a time is assumed to contain no comma and no quote.
\<close>

lemma csv_row_roundtrip:
  assumes "plain (fmt (e_t_ms e))" "CHR 0x00 \<notin> set (e_note e)"
  shows "csv_fields (csv_row fmt e) =
    [fmt (e_t_ms e), (if e_tx e then ''tx'' else ''rx''), flagstr (e_flags e), dec_int (e_rel_seq e),
     dec_int (e_rel_ack e), dec_nat (unat (e_len e)), (if e_dropped e then ''1'' else ''0''), e_note e]"
proof -
  have p: "plain ''tx''" "plain ''rx''" "plain ''0''" "plain ''1''" by (simp_all add: plain_def)
  show ?thesis
    using p plain_flagstr plain_dec_int plain_dec_nat assms
    by (simp add: csv_fields_def csv_row_def csv_read_plain c_str_escape csv_read_escaped [of "[]", simplified])
qed

end
