(* ===== verification/Utun.thy ===== *)
theory Utun
  imports Trace
begin

text \<open>
  The tunnel device, \<^verbatim>\<open>include/tp/utun.hpp\<close> and \<^verbatim>\<open>src/utun.cpp\<close>: opening a unit, sending a
  segment, the reactive drain and the timed drain. The environment is a script, the list of
  the results of the system calls and clock readings still to come; an operation consumes the
  results of the calls it makes and its value is \<open>None\<close> when the script does not provide the
  next one, so that \<open>Some\<close> results are exactly the complete runs. \<open>u_wire\<close> is an addition of
  the model: the frames that were written, oldest first. The commands that configure the
  interface and its route are run for their effect outside the program.
\<close>

datatype ev =
    EvNow real
  | EvPoll int bool
  | EvRead "bytes + bool"
  | EvWrite int string
  | EvAccept int u16 string

text \<open>
  \<open>EvPoll r i\<close>: the result, and whether \<^verbatim>\<open>errno\<close> is \<^verbatim>\<open>EINTR\<close>. \<open>EvRead\<close>: the frame, or whether
  \<^verbatim>\<open>errno\<close> is \<^verbatim>\<open>EINTR\<close> or \<^verbatim>\<open>EAGAIN\<close>. \<open>EvWrite\<close> and \<open>EvAccept\<close>: the result, the source port
  reported, the text of the error.
\<close>

type_synonym script = "ev list"

fun now_ms :: "script \<Rightarrow> (real \<times> script) option" where
  "now_ms (EvNow t # W) = Some (t, W)"
| "now_ms _ = None"

fun sys_poll :: "script \<Rightarrow> ((int \<times> bool) \<times> script) option" where
  "sys_poll (EvPoll r i # W) = Some ((r, i), W)"
| "sys_poll _ = None"

fun sys_read :: "script \<Rightarrow> ((bytes + bool) \<times> script) option" where
  "sys_read (EvRead r # W) = Some (r, W)"
| "sys_read _ = None"

fun sys_write :: "script \<Rightarrow> ((int \<times> string) \<times> script) option" where
  "sys_write (EvWrite r e # W) = Some ((r, e), W)"
| "sys_write _ = None"

fun sys_accept :: "script \<Rightarrow> ((int \<times> u16 \<times> string) \<times> script) option" where
  "sys_accept (EvAccept fd p e # W) = Some ((fd, p, e), W)"
| "sys_accept _ = None"

record Utun =
  u_fd :: int
  u_ifname :: string
  u_local :: in_addr
  u_peer :: in_addr
  u_ip_id :: u16
  u_written :: u64
  u_read :: u64
  u_non_ipv4 :: u64
  u_unparseable :: u64
  u_rcvbuf_granted :: int
  u_peak_burst_frames :: u64
  u_peak_burst_bytes :: u64
  u_wire :: "bytes list"

definition new_Utun :: Utun where
  "new_Utun = \<lparr>u_fd = -1, u_ifname = [], u_local = 0, u_peer = 0, u_ip_id = 1, u_written = 0, u_read = 0,
     u_non_ipv4 = 0, u_unparseable = 0, u_rcvbuf_granted = -1, u_peak_burst_frames = 0,
     u_peak_burst_bytes = 0, u_wire = []\<rparr>"

subsection \<open>Opening\<close>

text \<open>
  What happens to the attempt with one unit: the outcome of each system call, with the text
  of its error. \<open>at_connect\<close> is 0 or the error number, of which four are distinguished.
\<close>

datatype connect_errno = C_OK | C_EPERM | C_BUSY | C_OTHER

record attempt =
  at_socket :: "string option"
  at_ioctl :: "string option"
  at_connect :: connect_errno
  at_connect_text :: string
  at_ifname :: "string + string"
  at_rcvbuf :: "int option"

fun open_units :: "nat \<Rightarrow> (nat \<Rightarrow> attempt) \<Rightarrow> nat \<Rightarrow> Utun \<Rightarrow> (string + unit) \<times> Utun" where
  "open_units 0 A un u = (Inl ''no free utun unit in 1..64'', u)"
| "open_units (Suc left) A un u =
     (let a = A un in
      case at_socket a of Some e \<Rightarrow> (Inl (''socket(PF_SYSTEM): '' @ e), u) | None \<Rightarrow>
      (case at_ioctl a of Some e \<Rightarrow> (Inl (''ioctl(CTLIOCGINFO): '' @ e), u) | None \<Rightarrow>
       (case at_connect a of
          C_OK \<Rightarrow>
            (case at_ifname a of
               Inl e \<Rightarrow> (Inl (''getsockopt(UTUN_OPT_IFNAME): '' @ e), u)
             | Inr name \<Rightarrow>
                 (Inr (), u\<lparr>u_ifname := name, u_fd := int un,
                    u_rcvbuf_granted := (case at_rcvbuf a of None \<Rightarrow> -1 | Some n \<Rightarrow> n)\<rparr>))
        | C_EPERM \<Rightarrow> (Inl ''connect() to the utun control socket returned EPERM -- run under sudo'', u)
        | C_BUSY \<Rightarrow> open_units left A (un + 1) u
        | C_OTHER \<Rightarrow> (Inl (''connect(utun control): '' @ at_connect_text a), u))))"

text \<open>The descriptor is represented by the number of the unit it is connected to.\<close>

definition utun_open :: "in_addr \<Rightarrow> in_addr \<Rightarrow> (nat \<Rightarrow> attempt) \<Rightarrow> Utun \<Rightarrow> (string + unit) \<times> Utun" where
  "utun_open local peer A u = open_units 64 A 1 (u\<lparr>u_local := local, u_peer := peer\<rparr>)"

subsection \<open>Sending\<close>

definition utun_send :: "Utun \<Rightarrow> Seg \<Rightarrow> script \<Rightarrow> ((string + unit) \<times> Utun \<times> script) option" where
  "utun_send u s W =
     (let pkt = build (4 + 1500) (u_peer u) (u_local u) s (u_ip_id u);
          u = u\<lparr>u_ip_id := u_ip_id u + 1\<rparr>
      in case pkt of
        None \<Rightarrow> Some (Inl ''segment does not fit in a 1500-byte frame'', u, W)
      | Some pkt \<Rightarrow>
          do {
            ((w, e), W) \<leftarrow> sys_write W;
            Some (if w < 0 then (Inl (''write(utun): '' @ e), u, W)
                  else if w \<noteq> int (length pkt) then (Inl ''short write to utun'', u, W)
                  else (Inr (), u\<lparr>u_written := u_written u + 1, u_wire := u_wire u @ [pkt]\<rparr>, W))
          })"

subsection \<open>Draining\<close>

record drain_state =
  ds_u :: Utun
  ds_out :: "Seg list"
  ds_got_any :: bool
  ds_frames :: u64
  ds_bytes :: u64

text \<open>What is done with a frame that was read at time \<open>t\<close>.\<close>

definition take_frame :: "bytes \<Rightarrow> real \<Rightarrow> drain_state \<Rightarrow> drain_state option" where
  "take_frame buf t d =
     (let d = d\<lparr>ds_frames := ds_frames d + 1, ds_bytes := ds_bytes d + of_nat (length buf)\<rparr> in
      if length buf < 4 then Some d
      else do {
        af \<leftarrow> rd32 buf 0;
        if af \<noteq> AF_INET then Some (d\<lparr>ds_u := (ds_u d)\<lparr>u_non_ipv4 := u_non_ipv4 (ds_u d) + 1\<rparr>\<rparr>)
        else do {
          r \<leftarrow> parse buf new_Seg;
          Some (case r of
              None \<Rightarrow> d\<lparr>ds_u := (ds_u d)\<lparr>u_unparseable := u_unparseable (ds_u d) + 1\<rparr>\<rparr>
            | Some s \<Rightarrow> d\<lparr>ds_out := ds_out d @ [s\<lparr>s_t_ms := t\<rparr>],
                          ds_u := (ds_u d)\<lparr>u_read := u_read (ds_u d) + 1\<rparr>, ds_got_any := True\<rparr>)
        }
      })"

definition read_frame :: "drain_state \<Rightarrow> script \<Rightarrow> (bool \<times> drain_state \<times> script) option" where
  "read_frame d W =
     (case sys_read W of
        None \<Rightarrow> None
      | Some (Inr again, W) \<Rightarrow> Some (again, d, W)
      | Some (Inl frame, W) \<Rightarrow>
          do { (t, W) \<leftarrow> now_ms W; d \<leftarrow> take_frame (take (4 + 2048) frame) t d; Some (True, d, W) })"

text \<open>One turn of the loop; the flag says whether it goes on.\<close>

definition drain_turn :: "real \<Rightarrow> drain_state \<Rightarrow> script \<Rightarrow> (bool \<times> drain_state \<times> script) option" where
  "drain_turn deadline d W =
     do {
       (expired, W) \<leftarrow> (if ds_got_any d then Some (False, W)
                        else do { (t, W) \<leftarrow> now_ms W; Some (deadline - t \<le> 0, W) });
       if expired then Some (False, d, W)
       else do {
         ((pr, eintr), W) \<leftarrow> sys_poll W;
         if pr < 0 then Some (eintr, d, W)
         else if pr = 0 then Some (False, d, W)
         else read_frame d W
       }
     }"

lemma now_ms_shorter: "now_ms W = Some (t, W') \<Longrightarrow> length W' < length W"
  by (cases W rule: now_ms.cases) auto

lemma sys_poll_shorter: "sys_poll W = Some (r, W') \<Longrightarrow> length W' < length W"
  by (cases W rule: sys_poll.cases) auto

lemma sys_read_shorter: "sys_read W = Some (r, W') \<Longrightarrow> length W' < length W"
  by (cases W rule: sys_read.cases) auto

lemma sys_write_shorter: "sys_write W = Some (r, W') \<Longrightarrow> length W' < length W"
  by (cases W rule: sys_write.cases) auto

lemma sys_accept_shorter: "sys_accept W = Some (r, W') \<Longrightarrow> length W' < length W"
  by (cases W rule: sys_accept.cases) auto

lemmas script_shorter = now_ms_shorter sys_poll_shorter sys_read_shorter sys_write_shorter sys_accept_shorter

lemma read_frame_shorter: "read_frame d W = Some (again, d', W') \<Longrightarrow> length W' < length W"
  by (auto simp: read_frame_def bind_eq_Some_conv split: option.split_asm sum.split_asm dest!: script_shorter)

lemma drain_turn_shorter: "drain_turn deadline d W = Some (again, d', W') \<Longrightarrow> length W' < length W"
  by (auto simp: drain_turn_def bind_eq_Some_conv split: if_split_asm
      dest!: script_shorter read_frame_shorter)

function drain_turns :: "real \<Rightarrow> drain_state \<Rightarrow> script \<Rightarrow> (drain_state \<times> script) option" where
  "drain_turns deadline d W =
     (case drain_turn deadline d W of
        None \<Rightarrow> None
      | Some (again, d, W) \<Rightarrow> if again then drain_turns deadline d W else Some (d, W))"
  by pat_completeness auto
termination
  by (relation "measure (\<lambda>(deadline, d, W). length W)") (auto dest: drain_turn_shorter)

declare drain_turns.simps [simp del]

definition drain :: "Utun \<Rightarrow> real \<Rightarrow> Seg list \<Rightarrow> script \<Rightarrow> (Utun \<times> Seg list \<times> script) option" where
  "drain u timeout_ms out W =
     do {
       (t, W) \<leftarrow> now_ms W;
       (d, W) \<leftarrow> drain_turns (t + timeout_ms)
         \<lparr>ds_u = u, ds_out = out, ds_got_any = False, ds_frames = 0, ds_bytes = 0\<rparr> W;
       let u = ds_u d;
       Some (u\<lparr>u_peak_burst_frames := max (ds_frames d) (u_peak_burst_frames u),
               u_peak_burst_bytes := max (ds_bytes d) (u_peak_burst_bytes u)\<rparr>, ds_out d, W)
     }"

lemma drain_turns_shorter: "drain_turns deadline d W = Some (d', W') \<Longrightarrow> length W' \<le> length W"
proof (induction deadline d W arbitrary: d' W' rule: drain_turns.induct)
  case (1 deadline d W)
  show ?case
  proof (cases "drain_turn deadline d W")
    case None
    then show ?thesis using 1(2) by (simp add: drain_turns.simps [of deadline d W])
  next
    case (Some r)
    obtain again d1 W1 where r: "r = (again, d1, W1)" by (cases r)
    have le: "length W1 \<le> length W" using drain_turn_shorter Some r by fastforce
    show ?thesis
    proof (cases again)
      case True
      then have "drain_turns deadline d1 W1 = Some (d', W')"
        using 1(2) Some r by (simp add: drain_turns.simps [of deadline d W])
      then have "length W' \<le> length W1" using 1(1) [OF Some] r True by blast
      then show ?thesis using le by simp
    next
      case False
      then show ?thesis using 1(2) Some r le by (simp add: drain_turns.simps [of deadline d W])
    qed
  qed
qed

lemma drain_shorter: "drain u timeout out W = Some (u', out', W') \<Longrightarrow> length W' < length W"
  by (auto simp: drain_def bind_eq_Some_conv Let_def dest!: script_shorter drain_turns_shorter)

text \<open>The timed drain collects for the whole duration, in slices of the reactive drain.\<close>

function drain_for_loop :: "real \<Rightarrow> Utun \<Rightarrow> Seg list \<Rightarrow> script \<Rightarrow> (Utun \<times> Seg list \<times> script) option" where
  "drain_for_loop deadline u out W =
     (case now_ms W of
        None \<Rightarrow> None
      | Some (t, W) \<Rightarrow>
          if deadline - t \<le> 0 then Some (u, out, W)
          else (case drain u (deadline - t) out W of
                  None \<Rightarrow> None
                | Some (u, out, W) \<Rightarrow> drain_for_loop deadline u out W))"
  by pat_completeness auto
termination
  by (relation "measure (\<lambda>(deadline, u, out, W). length W)") (auto dest!: drain_shorter now_ms_shorter)

declare drain_for_loop.simps [simp del]

definition drain_for :: "Utun \<Rightarrow> real \<Rightarrow> Seg list \<Rightarrow> script \<Rightarrow> (Utun \<times> Seg list \<times> script) option" where
  "drain_for u duration_ms out W =
     do { (t, W) \<leftarrow> now_ms W; drain_for_loop (t + duration_ms) u out W }"

subsection \<open>What a drain returns\<close>

text \<open>
  The specification of a drain: the frames of the consumed part of the script, each with the
  time read just after it, and the segments they hold.
\<close>

fun frames_in :: "script \<Rightarrow> (bytes \<times> real) list" where
  "frames_in (EvRead (Inl f) # EvNow t # W) = (f, t) # frames_in W"
| "frames_in (e # W) = frames_in W"
| "frames_in [] = []"

definition seg_buf :: "bytes \<Rightarrow> real \<Rightarrow> Seg list" where
  "seg_buf buf t =
     (if length buf < 4 \<or> rd32 buf 0 \<noteq> Some AF_INET then []
      else case parse buf new_Seg of Some (Some s) \<Rightarrow> [s\<lparr>s_t_ms := t\<rparr>] | _ \<Rightarrow> [])"

definition seg_of :: "bytes \<times> real \<Rightarrow> Seg list" where
  "seg_of ft = seg_buf (take 2052 (fst ft)) (snd ft)"

definition segs_in :: "script \<Rightarrow> Seg list" where
  "segs_in C = concat (map seg_of (frames_in C))"

lemma segs_in_simps [simp]:
  "segs_in [] = []" "segs_in (EvNow t # C) = segs_in C" "segs_in (EvPoll r i # C) = segs_in C"
  "segs_in (EvRead (Inr b) # C) = segs_in C"
  "segs_in (EvRead (Inl f) # EvNow t # C) = seg_of (f, t) @ segs_in C"
  by (simp_all add: segs_in_def)

text \<open>A consumed stretch of script that ends a call: no frame waits for its time stamp.\<close>

definition settled :: "script \<Rightarrow> bool" where
  "settled C \<longleftrightarrow> (\<forall>W. segs_in (C @ W) = segs_in C @ segs_in W)"

lemma settled_simps [simp]:
  "settled []" "settled (EvNow t # C) \<longleftrightarrow> settled C" "settled (EvPoll r i # C) \<longleftrightarrow> settled C"
  "settled (EvRead (Inr b) # C) \<longleftrightarrow> settled C" "settled (EvRead (Inl f) # EvNow t # C) \<longleftrightarrow> settled C"
  by (simp_all add: settled_def)

lemma segs_in_settled: "settled C \<Longrightarrow> segs_in (C @ W) = segs_in C @ segs_in W"
  by (simp add: settled_def)

lemma settled_append: "settled C \<Longrightarrow> settled D \<Longrightarrow> settled (C @ D)"
  by (simp add: settled_def)

lemma take_frame_buf:
  assumes t: "take_frame b t d = Some d'"
  shows "ds_out d' = ds_out d @ seg_buf b t
     \<and> u_read (ds_u d') = u_read (ds_u d) + of_nat (length (seg_buf b t)) \<and> u_wire (ds_u d') = u_wire (ds_u d)"
proof (cases "length b < 4")
  case True
  then have "d' = d\<lparr>ds_frames := ds_frames d + 1, ds_bytes := ds_bytes d + of_nat (length b)\<rparr>"
    using t by (simp add: take_frame_def)
  then show ?thesis using True by (simp add: seg_buf_def)
next
  case False
  then obtain af where af: "rd32 b 0 = Some af" using rd32_some [of 0 b] by auto
  obtain r where r: "parse b new_Seg = Some r" using parse_never_out_of_bounds [of b new_Seg] by auto
  show ?thesis using t False af r
    by (cases "af = AF_INET"; cases r) (simp_all add: take_frame_def seg_buf_def, (drule sym, simp)+)
qed

lemma take_frame_out:
  "take_frame (take 2052 f) t d = Some d' \<Longrightarrow> ds_out d' = ds_out d @ seg_of (f, t)
     \<and> u_read (ds_u d') = u_read (ds_u d) + of_nat (length (seg_of (f, t))) \<and> u_wire (ds_u d') = u_wire (ds_u d)"
  by (simp add: seg_of_def take_frame_buf)

lemma now_ms_script: "now_ms W = Some (t, W') \<longleftrightarrow> W = EvNow t # W'"
  by (cases W rule: now_ms.cases) auto

lemma sys_poll_script: "sys_poll W = Some ((r, i), W') \<longleftrightarrow> W = EvPoll r i # W'"
  by (cases W rule: sys_poll.cases) auto

lemma sys_read_script: "sys_read W = Some (r, W') \<longleftrightarrow> W = EvRead r # W'"
  by (cases W rule: sys_read.cases) auto

lemma sys_write_script: "sys_write W = Some ((r, e), W') \<longleftrightarrow> W = EvWrite r e # W'"
  by (cases W rule: sys_write.cases) auto

lemma sys_accept_script: "sys_accept W = Some ((fd, p, e), W') \<longleftrightarrow> W = EvAccept fd p e # W'"
  by (cases W rule: sys_accept.cases) auto

lemmas script_simps = now_ms_script sys_poll_script sys_read_script sys_write_script sys_accept_script

text \<open>What a stretch of a drain does: it consumes \<open>C\<close> and appends the segments of \<open>C\<close>.\<close>

definition drained :: "drain_state \<Rightarrow> script \<Rightarrow> drain_state \<Rightarrow> script \<Rightarrow> bool" where
  "drained d W d' W' \<longleftrightarrow> (\<exists>C. W = C @ W' \<and> settled C \<and> ds_out d' = ds_out d @ segs_in C
     \<and> u_read (ds_u d') = u_read (ds_u d) + of_nat (length (segs_in C)) \<and> u_wire (ds_u d') = u_wire (ds_u d))"

lemma drained_trans: "drained d W d1 W1 \<Longrightarrow> drained d1 W1 d2 W2 \<Longrightarrow> drained d W d2 W2"
  unfolding drained_def
  by (elim exE conjE, rename_tac C D, rule_tac x = "C @ D" in exI) (simp add: settled_append segs_in_settled)

lemma drained_consume:
  "settled C \<Longrightarrow> segs_in C = [] \<Longrightarrow> drained d (C @ W) d W"
  unfolding drained_def by (rule exI [of _ C]) simp

lemma read_frame_drained: "read_frame d W = Some (again, d', W') \<Longrightarrow> drained d W d' W'"
proof -
  assume r: "read_frame d W = Some (again, d', W')"
  then consider again' where "W = EvRead (Inr again') # W'" "d' = d"
    | f t where "W = EvRead (Inl f) # EvNow t # W'" "take_frame (take 2052 f) t d = Some d'"
    by (auto simp: read_frame_def bind_eq_Some_conv script_simps split: option.split_asm sum.split_asm)
  then show ?thesis
  proof cases
    case 1
    then show ?thesis using drained_consume [of "[EvRead (Inr again')]" d W'] by simp
  next
    case 2
    then show ?thesis using take_frame_out [OF 2(2)] unfolding drained_def
      by (intro exI [of _ "[EvRead (Inl f), EvNow t]"]) simp
  qed
qed

lemma drain_turn_drained: "drain_turn deadline d W = Some (again, d', W') \<Longrightarrow> drained d W d' W'"
proof -
  assume r: "drain_turn deadline d W = Some (again, d', W')"
  then obtain C W1 where C: "W = C @ W1" "settled C" "segs_in C = []"
    and "d' = d \<and> W' = W1 \<or> read_frame d W1 = Some (again, d', W')"
  proof -
    have "\<exists>C W1. W = C @ W1 \<and> settled C \<and> segs_in C = [] \<and>
        (d' = d \<and> W' = W1 \<or> read_frame d W1 = Some (again, d', W'))"
      using r
      by (auto simp: drain_turn_def bind_eq_Some_conv script_simps split: if_split_asm)
        (rule exI [of _ "[EvPoll _ _]"] exI [of _ "[EvNow _]"] exI [of _ "[EvNow _, EvPoll _ _]"], force)+
    then show ?thesis using that by blast
  qed
  then show ?thesis
    using drained_trans [OF drained_consume [OF C(2,3)] read_frame_drained] drained_consume [OF C(2,3)] C(1)
    by auto
qed

lemma drain_turns_drained: "drain_turns deadline d W = Some (d', W') \<Longrightarrow> drained d W d' W'"
proof (induction deadline d W arbitrary: d' W' rule: drain_turns.induct)
  case (1 deadline d W)
  obtain again d1 W1 where t: "drain_turn deadline d W = Some (again, d1, W1)"
    and e: "if again then drain_turns deadline d1 W1 = Some (d', W') else (d', W') = (d1, W1)"
    using 1(2) by (auto simp: drain_turns.simps [of deadline d W] split: option.split_asm if_split_asm)
  show ?case
    using 1(1) [OF t refl refl] e drained_trans [OF drain_turn_drained [OF t]] drain_turn_drained [OF t]
    by (auto split: if_split_asm)
qed

lemma drain_exact:
  assumes "drain u timeout out W = Some (u', out', W')"
  shows "\<exists>C. W = C @ W' \<and> settled C \<and> out' = out @ segs_in C
    \<and> u_read u' = u_read u + of_nat (length (segs_in C)) \<and> u_wire u' = u_wire u"
proof -
  obtain t W1 d where W: "W = EvNow t # W1"
    and l: "drain_turns (t + timeout) \<lparr>ds_u = u, ds_out = out, ds_got_any = False, ds_frames = 0, ds_bytes = 0\<rparr> W1
      = Some (d, W')"
    and "out' = ds_out d" "u_read u' = u_read (ds_u d)" "u_wire u' = u_wire (ds_u d)"
    using assms by (auto simp: drain_def bind_eq_Some_conv script_simps Let_def)
  moreover from drain_turns_drained [OF l] obtain C where "W1 = C @ W'" "settled C" "ds_out d = out @ segs_in C"
      "u_read (ds_u d) = u_read u + of_nat (length (segs_in C))" "u_wire (ds_u d) = u_wire u"
    by (auto simp: drained_def)
  ultimately show ?thesis by (intro exI [of _ "EvNow t # C"]) simp
qed

lemma drain_for_loop_exact:
  "drain_for_loop deadline u out W = Some (u', out', W') \<Longrightarrow>
     \<exists>C t. W = C @ EvNow t # W' \<and> deadline \<le> t \<and> settled C \<and> out' = out @ segs_in C \<and> u_wire u' = u_wire u"
proof (induction deadline u out W arbitrary: u' out' W' rule: drain_for_loop.induct)
  case (1 deadline u out W)
  obtain t W1 where W: "W = EvNow t # W1" and n: "now_ms W = Some (t, W1)"
    using 1(2) by (auto simp: drain_for_loop.simps [of deadline u out W] script_simps split: option.split_asm)
  show ?case
  proof (cases "deadline - t \<le> 0")
    case True
    then have "u' = u" "out' = out" "W' = W1"
      using 1(2) n by (simp_all add: drain_for_loop.simps [of deadline u out W])
    then show ?thesis using W True by (intro exI [of _ "[]"] exI [of _ t]) simp
  next
    case False
    obtain u1 out1 W2 where d: "drain u (deadline - t) out W1 = Some (u1, out1, W2)"
      and l: "drain_for_loop deadline u1 out1 W2 = Some (u', out', W')"
      using 1(2) n False by (auto simp: drain_for_loop.simps [of deadline u out W] split: option.split_asm)
    obtain C where C: "W1 = C @ W2" "settled C" "out1 = out @ segs_in C" "u_wire u1 = u_wire u"
      using drain_exact [OF d] by blast
    obtain D t' where D: "W2 = D @ EvNow t' # W'" "deadline \<le> t'" "settled D" "out' = out1 @ segs_in D"
        "u_wire u' = u_wire u1"
      using 1(1) [OF n refl False d refl refl l] by blast
    show ?thesis using W C D
      by (intro exI [of _ "EvNow t # C @ D"] exI [of _ t']) (simp add: settled_append segs_in_settled)
  qed
qed

lemma drain_for_exact:
  assumes "drain_for u duration out W = Some (u', out', W')"
  shows "\<exists>t0 C t. W = EvNow t0 # C @ EvNow t # W' \<and> t0 + duration \<le> t \<and> settled C
    \<and> out' = out @ segs_in C \<and> u_wire u' = u_wire u"
proof -
  obtain t0 W1 where W: "W = EvNow t0 # W1" and l: "drain_for_loop (t0 + duration) u out W1 = Some (u', out', W')"
    using assms by (auto simp: drain_for_def bind_eq_Some_conv script_simps)
  from drain_for_loop_exact [OF l] W show ?thesis by auto
qed

subsection \<open>What a send puts on the wire\<close>

lemma send_cases:
  assumes "utun_send u s W = Some (r, u', W')"
  shows "case r of
      Inr _ \<Rightarrow> (\<exists>pkt. u_wire u' = u_wire u @ [pkt] \<and> u_written u' = u_written u + 1
          \<and> (\<forall>out. parse pkt out = Some (Some (s\<lparr>s_t_ms := s_t_ms out\<rparr>))))
    | Inl _ \<Rightarrow> u_wire u' = u_wire u \<and> u_written u' = u_written u"
proof (cases "build (4 + 1500) (u_peer u) (u_local u) s (u_ip_id u)")
  case None
  then show ?thesis using assms by (auto simp: utun_send_def Let_def)
next
  case (Some pkt)
  then show ?thesis using assms parse_build [OF Some]
    by (auto simp: utun_send_def Let_def bind_eq_Some_conv split: if_split_asm)
qed

lemma send_shorter: "utun_send u s W = Some (r, u', W') \<Longrightarrow> length W' \<le> length W"
  by (auto simp: utun_send_def Let_def bind_eq_Some_conv script_simps split: option.split_asm if_split_asm)

subsection \<open>Opening takes the first free unit\<close>

definition attempt_works :: "attempt \<Rightarrow> bool" where
  "attempt_works a \<longleftrightarrow> at_socket a = None \<and> at_ioctl a = None \<and> at_connect a = C_OK \<and> (\<exists>n. at_ifname a = Inr n)"

definition attempt_busy :: "attempt \<Rightarrow> bool" where
  "attempt_busy a \<longleftrightarrow> at_socket a = None \<and> at_ioctl a = None \<and> at_connect a = C_BUSY"

lemma open_units_first:
  "k < left \<Longrightarrow> (\<forall>i<k. attempt_busy (A (un + i))) \<Longrightarrow> attempt_works (A (un + k)) \<Longrightarrow>
     fst (open_units left A un u) = Inr () \<and> u_fd (snd (open_units left A un u)) = int (un + k)"
proof (induction left arbitrary: un k)
  case (Suc left)
  show ?case
  proof (cases k)
    case 0
    then show ?thesis using Suc.prems(3) by (auto simp: attempt_works_def Let_def)
  next
    case (Suc j)
    have "attempt_busy (A un)" using Suc.prems(2) \<open>k = Suc j\<close> by (metis add_0_right zero_less_Suc)
    moreover have "\<forall>i<j. attempt_busy (A (un + 1 + i))"
    proof (intro allI impI)
      fix i
      assume "i < j"
      then have "Suc i < k" using \<open>k = Suc j\<close> by simp
      with Suc.prems(2) have "attempt_busy (A (un + Suc i))" by blast
      then show "attempt_busy (A (un + 1 + i))" by simp
    qed
    moreover have "attempt_works (A (un + 1 + j))" using Suc.prems(3) \<open>k = Suc j\<close> by simp
    ultimately show ?thesis using Suc.IH [of j "un + 1"] Suc.prems(1) \<open>k = Suc j\<close>
      by (simp add: attempt_busy_def Let_def)
  qed
qed simp

lemma open_units_busy:
  "(\<forall>i<left. attempt_busy (A (un + i))) \<Longrightarrow> open_units left A un u = (Inl ''no free utun unit in 1..64'', u)"
proof (induction left arbitrary: un)
  case (Suc left)
  have "\<forall>i<left. attempt_busy (A (un + 1 + i))"
    using Suc.prems by (metis Suc_less_eq add_Suc_right plus_1_eq_Suc add.assoc)
  moreover have "attempt_busy (A un)" using Suc.prems by (metis add_0_right zero_less_Suc)
  ultimately show ?case using Suc.IH [of "un + 1"] by (simp add: attempt_busy_def Let_def)
qed simp

subsection \<open>Properties\<close>

text \<open>
  A timed drain does not stop before the end of its window, and what it returns
  is what it was given followed by every parseable IPv4 segment that arrived in between, in
  order and stamped with its arrival time: a burst of replies is neither cut short by the
  first batch nor reordered.
\<close>

lemma drain_for_whole_window:
  assumes "drain_for u duration_ms out W = Some (u', out', W')"
  shows "\<exists>t0 C t. W = EvNow t0 # C @ EvNow t # W' \<and> t0 + duration_ms \<le> t
    \<and> out' = out @ concat (map seg_of (frames_in C)) \<and> u_wire u' = u_wire u"
  using drain_for_exact [OF assms] by (auto simp: segs_in_def)

text \<open>
  Property C13. Opening takes the first unit of 1..64 that is free and fails with the
  exhaustion message when all of them are busy.
\<close>

theorem open_first_free_unit:
  assumes "k \<le> 64" "\<forall>i<k. attempt_busy (A (1 + i))" "k < 64 \<longrightarrow> attempt_works (A (1 + k))"
  shows "if k < 64 then fst (utun_open local peer A u) = Inr () \<and> u_fd (snd (utun_open local peer A u)) = 1 + int k
    else fst (utun_open local peer A u) = Inl ''no free utun unit in 1..64''"
  using assms open_units_first [of k 64 A 1] open_units_busy [of 64 A 1] by (auto simp: utun_open_def)

theorem open_first_free_unit_witness:
  "u_fd (snd (utun_open 7 9 (\<lambda>n. \<lparr>at_socket = None, at_ioctl = None, at_connect = (if n < 3 then C_BUSY else C_OK),
     at_connect_text = [], at_ifname = Inr ''utun9'', at_rcvbuf = None\<rparr>) new_Utun)) = 3"
  using open_first_free_unit [of 2 "\<lambda>n. \<lparr>at_socket = None, at_ioctl = None, at_connect = (if n < 3 then C_BUSY else C_OK),
     at_connect_text = [], at_ifname = Inr ''utun9'', at_rcvbuf = None\<rparr>" 7 9 new_Utun]
  by (simp add: attempt_busy_def attempt_works_def)

end
