(* ===== verification/Peer.thy ===== *)
theory Peer
  imports Reassembly Policy Utun
begin

text \<open>
  The synthetic peer, \<^verbatim>\<open>include/tp/peer.hpp\<close> and \<^verbatim>\<open>src/peer.cpp\<close>: the handshake, the receive
  loop with its loss policy and delayed acknowledgements, the probe burst and the reset. The
  device and the trace, which the class holds by reference, are part of its state here, and
  \<^verbatim>\<open>cur_\<close>, which is set exactly while \<^verbatim>\<open>receive\<close> runs, is the summary passed to the
  acknowledgement queue. Closing descriptors and setting \<^verbatim>\<open>TCP_NODELAY\<close> have no effect in the
  model.
\<close>

subsection \<open>State\<close>

record PeerConfig =
  c_sport :: u16
  c_dport :: u16
  c_isn :: u32
  c_mss :: u16
  c_win :: u16
  c_offer_sack :: bool
  c_send_sack_blocks :: bool
  c_ack_delay_ms :: real

definition new_PeerConfig :: PeerConfig where
  "new_PeerConfig = \<lparr>c_sport = 40001, c_dport = 9999, c_isn = 1000, c_mss = 1024, c_win = 65535,
     c_offer_sack = False, c_send_sack_blocks = True, c_ack_delay_ms = 0\<rparr>"

record Retransmit =
  x_t_ms :: real
  x_rel_seq :: int
  x_len :: u32

record RunSummary =
  m_bytes_delivered :: u32
  m_bytes_wanted :: u32
  m_completed :: bool
  m_t_first_data :: real
  m_t_last_original :: real
  m_t_hole_created :: real
  m_t_hole_filled :: real
  m_hol_delay_ms :: real
  m_dup_acks_sent :: int
  m_acks_sent :: int
  m_segments_dropped :: int
  m_ack_send_failures :: int
  m_retransmits :: "Retransmit list"
  m_saw_rst :: bool
  m_saw_fin :: bool

definition new_RunSummary :: RunSummary where
  "new_RunSummary = \<lparr>m_bytes_delivered = 0, m_bytes_wanted = 0, m_completed = False, m_t_first_data = -1,
     m_t_last_original = -1, m_t_hole_created = -1, m_t_hole_filled = -1, m_hol_delay_ms = -1,
     m_dup_acks_sent = 0, m_acks_sent = 0, m_segments_dropped = 0, m_ack_send_failures = 0,
     m_retransmits = [], m_saw_rst = False, m_saw_fin = False\<rparr>"

record PendingAck =
  a_due_ms :: real
  a_ack :: u32
  a_sacks :: "SeqRange list"
  a_is_dup :: bool

record Peer =
  p_u :: Utun
  p_tr :: Trace
  p_cfg :: PeerConfig
  p_afd :: int
  p_snd :: u32
  p_data_isn :: u32
  p_peer_sack_ok :: bool
  p_peer_mss :: u16
  p_handshake_rtt_ms :: real
  p_max_seq_end_seen :: u32
  p_pending :: "PendingAck list"
  p_rsm :: "Reassembly option"

definition new_Peer :: "Utun \<Rightarrow> Trace \<Rightarrow> PeerConfig \<Rightarrow> Peer" where
  "new_Peer u tr cfg = \<lparr>p_u = u, p_tr = tr, p_cfg = cfg, p_afd = -1, p_snd = 0, p_data_isn = 0,
     p_peer_sack_ok = False, p_peer_mss = 0, p_handshake_rtt_ms = -1, p_max_seq_end_seen = 0,
     p_pending = [], p_rsm = None\<rparr>"

text \<open>A segment of ours with the ports filled in.\<close>

definition our_seg :: "PeerConfig \<Rightarrow> Seg" where
  "our_seg cfg = new_Seg\<lparr>s_sport := c_sport cfg, s_dport := c_dport cfg\<rparr>"

definition for_us :: "PeerConfig \<Rightarrow> Seg \<Rightarrow> bool" where
  "for_us cfg s \<longleftrightarrow> \<not> (s_dport s \<noteq> c_sport cfg \<or> s_sport s \<noteq> c_dport cfg)"

definition seg_len :: "Seg \<Rightarrow> u32" where
  "seg_len s = of_nat (length (s_payload s))"

subsection \<open>Sending\<close>

definition send_now :: "Peer \<Rightarrow> Seg \<Rightarrow> real \<Rightarrow> string \<Rightarrow> script \<Rightarrow> (bool \<times> Peer \<times> script) option" where
  "send_now p s now txt W =
     do {
       (r, u, W) \<leftarrow> utun_send (p_u p) s W;
       let p = p\<lparr>p_u := u\<rparr>;
       Some (case r of
           Inl err \<Rightarrow> (False, p\<lparr>p_tr := trace_note now (''send failed: '' @ err) (p_tr p)\<rparr>, W)
         | Inr _ \<Rightarrow> (True, p\<lparr>p_tr := record_tx now (s_seq s) (s_ack s) (s_flags s) (seg_len s) txt (p_tr p)\<rparr>, W))
     }"

subsection \<open>The handshake\<close>

definition syn_seg :: "PeerConfig \<Rightarrow> Seg" where
  "syn_seg cfg = (our_seg cfg)\<lparr>s_seq := c_isn cfg, s_flags := TH_SYN, s_win := c_win cfg,
     s_opt := no_options\<lparr>o_mss := Some (c_mss cfg), o_sack_permitted := c_offer_sack cfg\<rparr>\<rparr>"

text \<open>The scan of one batch: \<open>Inl\<close> a reset, \<open>Inr\<close> the SYN-ACK if there is one.\<close>

fun find_synack :: "PeerConfig \<Rightarrow> Seg list \<Rightarrow> unit + Seg option" where
  "find_synack cfg [] = Inr None"
| "find_synack cfg (s # seen) =
     (if \<not> for_us cfg s then find_synack cfg seen
      else if has_flag (s_flags s) TH_RST then Inl ()
      else if s_flags s AND (TH_SYN OR TH_ACK) = TH_SYN OR TH_ACK then Inr (Some s)
      else find_synack cfg seen)"

text \<open>The wait: \<open>Inl\<close> a reset, \<open>Inr None\<close> no SYN-ACK before the deadline.\<close>

function await_synack ::
  "PeerConfig \<Rightarrow> real \<Rightarrow> Utun \<Rightarrow> script \<Rightarrow> ((unit + Seg option) \<times> Utun \<times> script) option" where
  "await_synack cfg deadline u W =
     (case now_ms W of
        None \<Rightarrow> None
      | Some (t, W) \<Rightarrow>
          if \<not> t < deadline then Some (Inr None, u, W)
          else (case drain u 50 [] W of
                  None \<Rightarrow> None
                | Some (u, seen, W) \<Rightarrow>
                    (case find_synack cfg seen of
                       Inl _ \<Rightarrow> Some (Inl (), u, W)
                     | Inr None \<Rightarrow> await_synack cfg deadline u W
                     | Inr (Some s) \<Rightarrow>
                         (case now_ms W of None \<Rightarrow> None | Some (t, W) \<Rightarrow> Some (Inr (Some s), u, W)))))"
  by pat_completeness auto
termination
  by (relation "measure (\<lambda>(cfg, deadline, u, W). length W)") (auto dest!: drain_shorter now_ms_shorter)

declare await_synack.simps [simp del]

text \<open>Sending the SYN: the peer, the time of the SYN, or the error.\<close>

definition send_syn :: "Peer \<Rightarrow> script \<Rightarrow> ((string + real) \<times> Peer \<times> script) option" where
  "send_syn p W =
     (let cfg = p_cfg p; p = p\<lparr>p_snd := c_isn cfg\<rparr> in
      do {
        (t0, W) \<leftarrow> now_ms W;
        let p = p\<lparr>p_tr := set_origin t0 0 (c_isn cfg) (p_tr p)\<rparr>;
        (r, u, W) \<leftarrow> utun_send (p_u p) (syn_seg cfg) W;
        let p = p\<lparr>p_u := u\<rparr>;
        Some (case r of
            Inl serr \<Rightarrow> (Inl (''SYN: '' @ serr), p, W)
          | Inr _ \<Rightarrow> (Inr t0, p\<lparr>p_tr := record_tx t0 (c_isn cfg) 0 TH_SYN 0
              (if c_offer_sack cfg then ''SYN mss+sackOK'' else ''SYN mss, no sackOK'') (p_tr p)\<rparr>, W))
      })"

text \<open>Taking over what the SYN-ACK says, and acknowledging it.\<close>

definition take_synack :: "Peer \<Rightarrow> real \<Rightarrow> Seg \<Rightarrow> Peer" where
  "take_synack p t0 sa =
     (let isn = s_seq sa + 1;
          p = p\<lparr>p_handshake_rtt_ms := s_t_ms sa - t0, p_data_isn := isn, p_max_seq_end_seen := isn,
                p_peer_sack_ok := o_sack_permitted (s_opt sa),
                p_peer_mss := (case o_mss (s_opt sa) of None \<Rightarrow> 0 | Some m \<Rightarrow> m)\<rparr>;
          tr = set_origin t0 isn (c_isn (p_cfg p)) (p_tr p);
          tr = record_rx (s_t_ms sa) (s_seq sa) (s_ack sa) (s_flags sa) 0 False
            (''SYN-ACK mss='' @ dec_nat (unat (p_peer_mss p)) @ (if p_peer_sack_ok p then '' sackOK'' else '' NO sackOK'')) tr
      in p\<lparr>p_tr := tr, p_snd := p_snd p + 1\<rparr>)"

definition ack_seg :: "Peer \<Rightarrow> u32 \<Rightarrow> Seg" where
  "ack_seg p ack = (our_seg (p_cfg p))\<lparr>s_seq := p_snd p, s_ack := ack, s_flags := TH_ACK, s_win := c_win (p_cfg p)\<rparr>"

definition finish_accept :: "Peer \<Rightarrow> script \<Rightarrow> ((string + unit) \<times> Peer \<times> script) option" where
  "finish_accept p W =
     do {
       ((pr, _), W) \<leftarrow> sys_poll W;
       if pr \<noteq> 1 then Some (Inl ''handshake looked right on the wire but accept() never became ready'', p, W)
       else do {
         ((fd, port, e), W) \<leftarrow> sys_accept W;
         let p = p\<lparr>p_afd := fd\<rparr>;
         Some (if fd < 0 then Inl (''accept(): '' @ e)
               else if port \<noteq> c_sport (p_cfg p) then Inl ''accept() reported a source port we never sent from''
               else Inr (), p, W)
       }
     }"

definition after_synack :: "Peer \<Rightarrow> real \<Rightarrow> Seg \<Rightarrow> script \<Rightarrow> ((string + unit) \<times> Peer \<times> script) option" where
  "after_synack p t0 sa W =
     (if s_ack sa \<noteq> p_snd p + 1 then
        Some (Inl (''SYN-ACK acknowledged '' @ dec_nat (unat (s_ack sa)) @ '', expected ''
                   @ dec_nat (unat (p_snd p + 1))), p, W)
      else do {
        let p = take_synack p t0 sa;
        (t, W) \<leftarrow> now_ms W;
        (_, p, W) \<leftarrow> send_now p (ack_seg p (p_data_isn p)) t ''3WHS ACK'' W;
        finish_accept p W
      })"

definition establish :: "Peer \<Rightarrow> script \<Rightarrow> ((string + unit) \<times> Peer \<times> script) option" where
  "establish p W =
     do {
       (r, p, W) \<leftarrow> send_syn p W;
       case r of
         Inl err \<Rightarrow> Some (Inl err, p, W)
       | Inr t0 \<Rightarrow>
           do {
             (t, W) \<leftarrow> now_ms W;
             (got, u, W) \<leftarrow> await_synack (p_cfg p) (t + 2000) (p_u p) W;
             let p = p\<lparr>p_u := u\<rparr>;
             case got of
               Inl _ \<Rightarrow> Some (Inl ''kernel answered the SYN with RST -- is anything listening on that port?'', p, W)
             | Inr None \<Rightarrow> Some (Inl ''no SYN-ACK off the utun fd within 2000 ms'', p, W)
             | Inr (Some sa) \<Rightarrow> after_synack p t0 sa W
           }
     }"

subsection \<open>The queue of acknowledgements\<close>

definition queue_ack :: "Peer \<Rightarrow> real \<Rightarrow> u32 \<Rightarrow> SeqRange list \<Rightarrow> bool \<Rightarrow> Peer" where
  "queue_ack p now ack sacks is_dup =
     p\<lparr>p_pending := p_pending p @
        [\<lparr>a_due_ms = now + c_ack_delay_ms (p_cfg p), a_ack = ack, a_sacks = sacks, a_is_dup = is_dup\<rparr>]\<rparr>"

definition pending_seg :: "Peer \<Rightarrow> PendingAck \<Rightarrow> Seg" where
  "pending_seg p q =
     (let a = ack_seg p (a_ack q) in
      if c_offer_sack (p_cfg p) \<and> c_send_sack_blocks (p_cfg p) \<and> a_sacks q \<noteq> []
      then a\<lparr>s_opt := (s_opt a)\<lparr>o_sack_blocks := a_sacks q\<rparr>\<rparr> else a)"

definition count_ack :: "bool \<Rightarrow> bool \<Rightarrow> RunSummary \<Rightarrow> RunSummary" where
  "count_ack ok is_dup m =
     (if \<not> ok then m\<lparr>m_ack_send_failures := m_ack_send_failures m + 1\<rparr>
      else
        (let m = m\<lparr>m_acks_sent := m_acks_sent m + 1\<rparr>
         in if is_dup then m\<lparr>m_dup_acks_sent := m_dup_acks_sent m + 1\<rparr> else m))"

fun flush_loop ::
  "real \<Rightarrow> bool \<Rightarrow> PendingAck list \<Rightarrow> Peer \<Rightarrow> RunSummary \<Rightarrow> script \<Rightarrow> (Peer \<times> RunSummary \<times> script) option" where
  "flush_loop now force [] p m W = Some (p\<lparr>p_pending := []\<rparr>, m, W)"
| "flush_loop now force (q # qs) p m W =
     (if force \<or> a_due_ms q \<le> now then
        do {
          (ok, p, W) \<leftarrow> send_now p (pending_seg p q) now (if a_is_dup q then ''dup ACK'' else []) W;
          flush_loop now force qs p (count_ack ok (a_is_dup q) m) W
        }
      else Some (p\<lparr>p_pending := q # qs\<rparr>, m, W))"

definition flush_acks :: "Peer \<Rightarrow> RunSummary \<Rightarrow> real \<Rightarrow> bool \<Rightarrow> script \<Rightarrow> (Peer \<times> RunSummary \<times> script) option" where
  "flush_acks p m now force W = flush_loop now force (p_pending p) p m W"

definition peer_delivered :: "Peer \<Rightarrow> u32" where
  "peer_delivered p = (case p_rsm p of Some r \<Rightarrow> delivered r | None \<Rightarrow> 0)"

subsection \<open>Receiving\<close>

record rx_state =
  rx_p :: Peer
  rx_rsm :: Reassembly
  rx_loss :: LossPolicy
  rx_sum :: RunSummary
  rx_hole_end_seq :: u32
  rx_hole_open :: bool

definition last_t :: "Peer \<Rightarrow> real" where
  "last_t p = e_t_ms (last (tr_events (p_tr p)))"

definition trace_rx :: "Peer \<Rightarrow> Seg \<Rightarrow> u32 \<Rightarrow> bool \<Rightarrow> string \<Rightarrow> Peer" where
  "trace_rx p s len dropped txt =
     p\<lparr>p_tr := record_rx (s_t_ms s) (s_seq s) (s_ack s) (s_flags s) len dropped txt (p_tr p)\<rparr>"

text \<open>Noting whether the segment repeats bytes, and the highest byte seen.\<close>

definition is_rexmt :: "Peer \<Rightarrow> Seg \<Rightarrow> bool" where
  "is_rexmt p s \<longleftrightarrow> seq_lt (s_seq s) (p_max_seq_end_seen p)"

definition note_arrival :: "rx_state \<Rightarrow> Seg \<Rightarrow> rx_state" where
  "note_arrival x s =
     (let p = rx_p x; len = seg_len s; rel = sint (s_seq s - p_data_isn p); rexmt = is_rexmt p s;
          p = (if seq_gt (s_seq s + len) (p_max_seq_end_seen p)
               then p\<lparr>p_max_seq_end_seen := s_seq s + len\<rparr> else p);
          m = rx_sum x;
          m = (if rexmt then m\<lparr>m_retransmits := m_retransmits m
                 @ [\<lparr>x_t_ms = s_t_ms s - tr_t0 (p_tr p), x_rel_seq = rel, x_len = len\<rparr>]\<rparr> else m)
      in x\<lparr>rx_p := p, rx_sum := m\<rparr>)"

text \<open>The policy's decision: whether the segment is discarded, and the policy afterwards.\<close>

definition loss_decision_of :: "rx_state \<Rightarrow> Seg \<Rightarrow> bool \<times> LossPolicy" where
  "loss_decision_of x s =
     (let rel = sint (s_seq s - p_data_isn (rx_p x)) in
      if rel \<ge> 0 then lp_drop (rx_loss x) (word_of_int rel) (seg_len s) else (False, rx_loss x))"

definition discard :: "rx_state \<Rightarrow> Seg \<Rightarrow> rx_state" where
  "discard x s =
     (let m = (rx_sum x)\<lparr>m_segments_dropped := m_segments_dropped (rx_sum x) + 1\<rparr>;
          p = trace_rx (rx_p x) s (seg_len s) True []
      in if \<not> rx_hole_open x
         then x\<lparr>rx_p := p, rx_sum := m\<lparr>m_t_hole_created := last_t p\<rparr>, rx_hole_open := True,
                rx_hole_end_seq := s_seq s + seg_len s\<rparr>
         else x\<lparr>rx_p := p, rx_sum := m\<rparr>)"

definition keep :: "rx_state \<Rightarrow> Seg \<Rightarrow> bool \<Rightarrow> real \<Rightarrow> rx_state" where
  "keep x s rexmt now =
     (let (moved, rsm) = accept (rx_rsm x) (s_seq s) (seg_len s) (s_t_ms s);
          p = trace_rx (rx_p x) s (seg_len s) False (if rexmt then ''retransmit'' else []);
          m = rx_sum x;
          m = (if m_t_first_data m < 0 then m\<lparr>m_t_first_data := last_t p\<rparr> else m);
          m = (if \<not> rexmt then m\<lparr>m_t_last_original := last_t p\<rparr> else m);
          p = queue_ack p now (rs_rcv_nxt rsm) (sack_blocks rsm 4) (\<not> moved);
          x = x\<lparr>rx_p := p, rx_rsm := rsm, rx_sum := m\<rparr>
      in if rx_hole_open x \<and> seq_geq (rs_rcv_nxt rsm) (rx_hole_end_seq x)
         then x\<lparr>rx_hole_open := False, rx_sum := m\<lparr>m_t_hole_filled := last_t p,
                m_hol_delay_ms := last_t p - m_t_hole_created m\<rparr>\<rparr>
         else x)"

definition take_data :: "rx_state \<Rightarrow> Seg \<Rightarrow> script \<Rightarrow> (rx_state \<times> script) option" where
  "take_data x s W =
     (let rexmt = is_rexmt (rx_p x) s;
          x = note_arrival x s;
          (dropped, loss) = loss_decision_of x s;
          x = x\<lparr>rx_loss := loss\<rparr>
      in if dropped then Some (discard x s, W)
         else do { (now, W) \<leftarrow> now_ms W; Some (keep x s rexmt now, W) })"

text \<open>One received segment; the flag says that it was a reset.\<close>

definition take_seg :: "rx_state \<Rightarrow> Seg \<Rightarrow> script \<Rightarrow> (bool \<times> rx_state \<times> script) option" where
  "take_seg x s W =
     (if \<not> for_us (p_cfg (rx_p x)) s then Some (False, x, W)
      else if has_flag (s_flags s) TH_RST then
        Some (True, x\<lparr>rx_p := trace_rx (rx_p x) s 0 False ''RST'', rx_sum := (rx_sum x)\<lparr>m_saw_rst := True\<rparr>\<rparr>, W)
      else if seg_len s > 0 then map_option (\<lambda>(x, W). (False, x, W)) (take_data x s W)
      else if has_flag (s_flags s) TH_FIN then
        Some (False, x\<lparr>rx_p := trace_rx (rx_p x) s 0 False ''FIN'', rx_sum := (rx_sum x)\<lparr>m_saw_fin := True\<rparr>\<rparr>, W)
      else Some (False, x\<lparr>rx_p := trace_rx (rx_p x) s 0 False []\<rparr>, W))"

fun take_batch :: "rx_state \<Rightarrow> Seg list \<Rightarrow> script \<Rightarrow> (bool \<times> rx_state \<times> script) option" where
  "take_batch x [] W = Some (False, x, W)"
| "take_batch x (s # batch) W =
     do {
       (rst, x, W) \<leftarrow> take_seg x s W;
       if rst then Some (True, x, W) else take_batch x batch W
     }"

text \<open>How long the drain may wait: until the next queued acknowledgement is due, 20 ms at most.\<close>

definition next_slice :: "Peer \<Rightarrow> script \<Rightarrow> (real \<times> script) option" where
  "next_slice p W =
     (case p_pending p of
        [] \<Rightarrow> Some (20, W)
      | q # qs \<Rightarrow>
          do {
            (t, W) \<leftarrow> now_ms W;
            let slice = min 20 (a_due_ms q - t);
            Some (if slice < 0 then 0 else slice, W)
          })"

text \<open>The body of the loop, with the flag of a reset.\<close>

definition rx_turn :: "rx_state \<Rightarrow> script \<Rightarrow> (bool \<times> rx_state \<times> script) option" where
  "rx_turn x W =
     do {
       (slice, W) \<leftarrow> next_slice (rx_p x) W;
       (u, batch, W) \<leftarrow> drain (p_u (rx_p x)) slice [] W;
       let x = x\<lparr>rx_p := (rx_p x)\<lparr>p_u := u\<rparr>\<rparr>;
       (rst, x, W) \<leftarrow> take_batch x batch W;
       if rst then Some (True, x, W)
       else do {
         (t, W) \<leftarrow> now_ms W;
         (p, m, W) \<leftarrow> flush_acks (rx_p x) (rx_sum x) t False W;
         Some (False, x\<lparr>rx_p := p, rx_sum := m\<rparr>, W)
       }
     }"

lemma send_now_cases:
  assumes "send_now p s now txt W = Some (ok, p', W')"
  obtains (failed) err u where "utun_send (p_u p) s W = Some (Inl err, u, W')" "\<not> ok"
      "p' = p\<lparr>p_u := u, p_tr := trace_note now (''send failed: '' @ err) (p_tr p)\<rparr>"
    | (sent) u where "utun_send (p_u p) s W = Some (Inr (), u, W')" "ok"
      "p' = p\<lparr>p_u := u, p_tr := record_tx now (s_seq s) (s_ack s) (s_flags s) (seg_len s) txt (p_tr p)\<rparr>"
proof -
  obtain r u W1 where s: "utun_send (p_u p) s W = Some (r, u, W1)"
    using assms by (cases "utun_send (p_u p) s W") (auto simp: send_now_def)
  show thesis
  proof (cases r)
    case (Inl err)
    then show thesis using assms s by (intro failed [of err u]) (auto simp: send_now_def Let_def)
  next
    case (Inr x)
    then show thesis using assms s by (intro sent [of u]) (auto simp: send_now_def Let_def)
  qed
qed

lemma send_now_shorter: "send_now p s now txt W = Some (ok, p', W') \<Longrightarrow> length W' \<le> length W"
  by (elim send_now_cases) (auto dest: send_shorter)

lemma flush_loop_shorter: "flush_loop now force qs p m W = Some (p', m', W') \<Longrightarrow> length W' \<le> length W"
proof (induction qs arbitrary: p m W)
  case (Cons q qs)
  then show ?case
    by (fastforce simp: bind_eq_Some_conv split: if_split_asm dest: send_now_shorter)
qed simp

lemma take_data_shorter: "take_data x s W = Some (x', W') \<Longrightarrow> length W' \<le> length W"
  by (auto simp: take_data_def Let_def bind_eq_Some_conv split: prod.split_asm if_split_asm dest!: now_ms_shorter)

lemma take_seg_shorter: "take_seg x s W = Some (rst, x', W') \<Longrightarrow> length W' \<le> length W"
  by (auto simp: take_seg_def split: if_split_asm dest!: take_data_shorter)

lemma take_batch_shorter: "take_batch x batch W = Some (rst, x', W') \<Longrightarrow> length W' \<le> length W"
proof (induction batch arbitrary: x W)
  case (Cons s batch)
  then show ?case
    by (fastforce simp: bind_eq_Some_conv split: if_split_asm dest: take_seg_shorter)
qed simp

lemma next_slice_shorter: "next_slice p W = Some (t, W') \<Longrightarrow> length W' \<le> length W"
  by (auto simp: next_slice_def bind_eq_Some_conv Let_def split: list.split_asm dest!: now_ms_shorter)

lemma rx_turn_shorter: "rx_turn x W = Some (rst, x', W') \<Longrightarrow> length W' < length W"
  by (auto simp: rx_turn_def bind_eq_Some_conv flush_acks_def Let_def split: if_split_asm
      dest!: next_slice_shorter drain_shorter take_batch_shorter now_ms_shorter flush_loop_shorter)

function rx_loop :: "real \<Rightarrow> u32 \<Rightarrow> rx_state \<Rightarrow> script \<Rightarrow> (bool \<times> rx_state \<times> script) option" where
  "rx_loop t_end total_target x W =
     (case now_ms W of
        None \<Rightarrow> None
      | Some (t, W) \<Rightarrow>
          if t < t_end \<and> delivered (rx_rsm x) < total_target then
            (case rx_turn x W of
               None \<Rightarrow> None
             | Some (rst, x, W) \<Rightarrow> if rst then Some (True, x, W) else rx_loop t_end total_target x W)
          else Some (False, x, W))"
  by pat_completeness auto
termination
  by (relation "measure (\<lambda>(t_end, total_target, x, W). length W)") (auto dest!: rx_turn_shorter now_ms_shorter)

declare rx_loop.simps [simp del]

definition rx_start :: "Peer \<Rightarrow> u32 \<Rightarrow> LossPolicy \<Rightarrow> rx_state" where
  "rx_start p total_target loss =
     \<lparr>rx_p = p, rx_rsm = (case p_rsm p of Some r \<Rightarrow> r | None \<Rightarrow> new_Reassembly (p_data_isn p)), rx_loss = loss,
      rx_sum = new_RunSummary\<lparr>m_bytes_wanted := total_target\<rparr>, rx_hole_end_seq = 0, rx_hole_open = False\<rparr>"

definition rx_store :: "rx_state \<Rightarrow> Peer" where
  "rx_store x = (rx_p x)\<lparr>p_rsm := Some (rx_rsm x)\<rparr>"

definition receive ::
  "Peer \<Rightarrow> u32 \<Rightarrow> real \<Rightarrow> LossPolicy \<Rightarrow> script \<Rightarrow> (RunSummary \<times> Peer \<times> LossPolicy \<times> script) option" where
  "receive p total_target timeout_ms loss W =
     do {
       (t, W) \<leftarrow> now_ms W;
       (rst, x, W) \<leftarrow> rx_loop (t + timeout_ms) total_target (rx_start p total_target loss) W;
       if rst then Some (rx_sum x, rx_store x, rx_loss x, W)
       else do {
         (t, W) \<leftarrow> now_ms W;
         (p, m, W) \<leftarrow> flush_acks (rx_store x) (rx_sum x) t True W;
         Some (m\<lparr>m_bytes_delivered := delivered (rx_rsm x),
                 m_completed := (delivered (rx_rsm x) \<ge> total_target)\<rparr>, p, rx_loss x, W)
       }
     }"

subsection \<open>Bursts\<close>

record BurstResult =
  b_acks :: int
  b_rsts :: int
  b_sent :: int
  b_send_failures :: int

definition burst_complete :: "BurstResult \<Rightarrow> int \<Rightarrow> bool" where
  "burst_complete r wanted \<longleftrightarrow> b_send_failures r = 0 \<and> b_sent r = wanted"

fun burst_send :: "nat \<Rightarrow> Seg \<Rightarrow> Peer \<Rightarrow> BurstResult \<Rightarrow> script \<Rightarrow> (Peer \<times> BurstResult \<times> script) option" where
  "burst_send 0 s p r W = Some (p, r, W)"
| "burst_send (Suc n) s p r W =
     do {
       (res, u, W) \<leftarrow> utun_send (p_u p) s W;
       let p = p\<lparr>p_u := u\<rparr>;
       (case res of
          Inr _ \<Rightarrow> burst_send n s p (r\<lparr>b_sent := b_sent r + 1\<rparr>) W
        | Inl err \<Rightarrow>
            (let r = r\<lparr>b_send_failures := b_send_failures r + 1\<rparr> in
             if b_send_failures r = 1 then
               do {
                 (t, W) \<leftarrow> now_ms W;
                 burst_send n s (p\<lparr>p_tr := trace_note t (''burst send failed: '' @ err) (p_tr p)\<rparr>) r W
               }
             else burst_send n s p r W))
     }"

fun count_replies :: "PeerConfig \<Rightarrow> Seg list \<Rightarrow> BurstResult \<Rightarrow> BurstResult" where
  "count_replies cfg [] r = r"
| "count_replies cfg (s # replies) r =
     (if \<not> for_us cfg s then count_replies cfg replies r
      else if has_flag (s_flags s) TH_RST then count_replies cfg replies (r\<lparr>b_rsts := b_rsts r + 1\<rparr>)
      else if has_flag (s_flags s) TH_ACK then count_replies cfg replies (r\<lparr>b_acks := b_acks r + 1\<rparr>)
      else count_replies cfg replies r)"

definition burst ::
  "Peer \<Rightarrow> u8 \<Rightarrow> i32 \<Rightarrow> i32 \<Rightarrow> int \<Rightarrow> real \<Rightarrow> script \<Rightarrow> (BurstResult \<times> Peer \<times> script) option" where
  "burst p flags seq_off ack_off n collect_ms W =
     (let sq = p_snd p + seq_off;
          ack = p_data_isn p + ack_off;
          s = (our_seg (p_cfg p))\<lparr>s_seq := sq, s_ack := ack, s_flags := flags, s_win := c_win (p_cfg p)\<rparr>
      in do {
        (p, r, W) \<leftarrow> burst_send (nat n) s p \<lparr>b_acks = 0, b_rsts = 0, b_sent = 0, b_send_failures = 0\<rparr> W;
        (u, replies, W) \<leftarrow> drain_for (p_u p) collect_ms [] W;
        let r = count_replies (p_cfg p) replies r;
        (t, W) \<leftarrow> now_ms W;
        let p = p\<lparr>p_u := u, p_tr := trace_note t (''burst '' @ flagstr flags @ '' x'' @ dec_int (b_sent r) @ ''/''
              @ dec_int n @ '' -> '' @ dec_int (b_acks r) @ '' ACKs, '' @ dec_int (b_rsts r) @ '' RSTs'') (p_tr p)\<rparr>;
        Some (r, p, W)
      })"

subsection \<open>Tearing down\<close>

definition peer_reset :: "Peer \<Rightarrow> script \<Rightarrow> (Peer \<times> script) option" where
  "peer_reset p W =
     (let p = (if p_afd p \<ge> 0 then p\<lparr>p_afd := -1\<rparr> else p);
          r = (our_seg (p_cfg p))\<lparr>s_seq := p_snd p, s_ack := 0, s_flags := TH_RST, s_win := 0\<rparr>
      in do {
        (_, u, W) \<leftarrow> utun_send (p_u p) r W;
        Some (p\<lparr>p_u := u, p_rsm := None, p_pending := []\<rparr>, W)
      })"

end
