(* ===== verification/PeerRun.thy ===== *)
theory PeerRun
  imports Peer "HOL-Library.Sublist"
begin

text \<open>
  What a run of the synthetic peer guarantees: the trace it writes determines the reassembly
  it ends with, every acknowledgement is accounted for, the queue is sent in order, a
  successful handshake has the numbers it needs, a burst counts every probe.
\<close>

subsection \<open>The trace determines the reassembly\<close>

text \<open>
  The specification of a run: every event of the trace that records a received, not discarded
  segment with data is one \<open>accept\<close>, and nothing else touches the reassembly.
\<close>

definition kept_event :: "Event \<Rightarrow> bool" where
  "kept_event e \<longleftrightarrow> \<not> e_tx e \<and> \<not> e_dropped e \<and> e_len e \<noteq> 0"

definition replay_event :: "u32 \<Rightarrow> real \<Rightarrow> Event \<Rightarrow> Reassembly \<Rightarrow> Reassembly" where
  "replay_event isn t0 e r =
     (if kept_event e then snd (accept r (isn + word_of_int (e_rel_seq e)) (e_len e) (e_t_ms e + t0)) else r)"

definition replay :: "u32 \<Rightarrow> real \<Rightarrow> Event list \<Rightarrow> Reassembly \<Rightarrow> Reassembly" where
  "replay isn t0 evs r = fold (replay_event isn t0) evs r"

definition acks_due :: "rx_state \<Rightarrow> int" where
  "acks_due x = m_acks_sent (rx_sum x) + m_ack_send_failures (rx_sum x) + int (length (p_pending (rx_p x)))"

definition same_origin :: "Peer \<Rightarrow> Peer \<Rightarrow> bool" where
  "same_origin p p' \<longleftrightarrow> tr_t0 (p_tr p') = tr_t0 (p_tr p) \<and> tr_data_isn (p_tr p') = tr_data_isn (p_tr p)
     \<and> p_data_isn p' = p_data_isn p \<and> p_cfg p' = p_cfg p"

definition explained :: "rx_state \<Rightarrow> Event list \<Rightarrow> rx_state \<Rightarrow> bool" where
  "explained x evs x' \<longleftrightarrow> same_origin (rx_p x) (rx_p x')
     \<and> tr_events (p_tr (rx_p x')) = tr_events (p_tr (rx_p x)) @ evs
     \<and> rx_rsm x' = replay (p_data_isn (rx_p x)) (tr_t0 (p_tr (rx_p x))) evs (rx_rsm x)
     \<and> acks_due x' = acks_due x + int (length (filter kept_event evs))
     \<and> m_segments_dropped (rx_sum x') = m_segments_dropped (rx_sum x) + int (length (filter e_dropped evs))
     \<and> lp_dropped (rx_loss x') = lp_dropped (rx_loss x) + int (length (filter e_dropped evs))"

lemma explained_refl: "explained x [] x"
  by (simp add: explained_def same_origin_def replay_def)

lemma explained_trans: "explained x evs x1 \<Longrightarrow> explained x1 evs' x2 \<Longrightarrow> explained x (evs @ evs') x2"
  by (simp add: explained_def same_origin_def replay_def)

definition origin_ok :: "rx_state \<Rightarrow> bool" where
  "origin_ok x \<longleftrightarrow> tr_data_isn (p_tr (rx_p x)) = p_data_isn (rx_p x)"

lemma explained_origin: "explained x evs x' \<Longrightarrow> origin_ok x \<Longrightarrow> origin_ok x'"
  by (simp add: explained_def same_origin_def origin_ok_def)

lemma seq_back: "isn + word_of_int (sint (sq - isn :: u32)) = sq"
  by simp

lemma last_t_trace_rx [simp]: "last_t (trace_rx p s len dr txt) = s_t_ms s - tr_t0 (p_tr p)"
  by (simp add: last_t_def trace_rx_def record_rx_def record_event_def)

lemma trace_rx_simps [simp]:
  "p_pending (trace_rx p s len dr txt) = p_pending p" "p_cfg (trace_rx p s len dr txt) = p_cfg p"
  "p_data_isn (trace_rx p s len dr txt) = p_data_isn p"
  "tr_t0 (p_tr (trace_rx p s len dr txt)) = tr_t0 (p_tr p)"
  "tr_data_isn (p_tr (trace_rx p s len dr txt)) = tr_data_isn (p_tr p)"
  "tr_events (p_tr (trace_rx p s len dr txt)) = tr_events (p_tr p) @
     [new_Event\<lparr>e_t_ms := s_t_ms s - tr_t0 (p_tr p), e_tx := False, e_flags := s_flags s,
       e_rel_seq := sint (s_seq s - tr_data_isn (p_tr p)), e_rel_ack := sint (s_ack s - tr_our_isn (p_tr p)),
       e_len := len, e_dropped := dr, e_note := txt\<rparr>]"
  by (simp_all add: trace_rx_def record_rx_def record_event_def)

lemma note_arrival_explained: "explained x [] (note_arrival x s)"
  by (simp add: explained_def same_origin_def replay_def note_arrival_def Let_def acks_due_def)

lemma lp_drop_dropped: "lp_dropped (snd (lp_drop l a b)) = lp_dropped l + (if fst (lp_drop l a b) then 1 else 0)"
  by (simp add: lp_drop_def Let_def split_beta)

lemma lp_drop_only: "fst (loss_decision_of x s) \<Longrightarrow> seg_len s \<noteq> 0"
  by (auto simp: loss_decision_of_def lp_drop_def Let_def split: if_split_asm)

lemma loss_decision_count:
  "lp_dropped (snd (loss_decision_of x s)) = lp_dropped (rx_loss x) + (if fst (loss_decision_of x s) then 1 else 0)"
  by (simp add: loss_decision_of_def lp_drop_dropped Let_def)

lemma discard_explained:
  assumes "lp_dropped l = lp_dropped (rx_loss x) + 1"
  shows "\<exists>evs. explained x evs (discard (x\<lparr>rx_loss := l\<rparr>) s)"
proof -
  let ?e = "new_Event\<lparr>e_t_ms := s_t_ms s - tr_t0 (p_tr (rx_p x)), e_tx := False, e_flags := s_flags s,
       e_rel_seq := sint (s_seq s - tr_data_isn (p_tr (rx_p x))),
       e_rel_ack := sint (s_ack s - tr_our_isn (p_tr (rx_p x))),
       e_len := seg_len s, e_dropped := True, e_note := []\<rparr>"
  have "explained x [?e] (discard (x\<lparr>rx_loss := l\<rparr>) s)"
    using assms by (simp add: explained_def same_origin_def replay_def replay_event_def kept_event_def
        discard_def Let_def acks_due_def)
  then show ?thesis by blast
qed

lemma keep_explained:
  assumes "origin_ok x" "seg_len s \<noteq> 0" "lp_dropped l = lp_dropped (rx_loss x)"
  shows "\<exists>evs. explained x evs (keep (x\<lparr>rx_loss := l\<rparr>) s rexmt now)"
proof -
  let ?e = "new_Event\<lparr>e_t_ms := s_t_ms s - tr_t0 (p_tr (rx_p x)), e_tx := False, e_flags := s_flags s,
       e_rel_seq := sint (s_seq s - tr_data_isn (p_tr (rx_p x))),
       e_rel_ack := sint (s_ack s - tr_our_isn (p_tr (rx_p x))),
       e_len := seg_len s, e_dropped := False, e_note := (if rexmt then ''retransmit'' else [])\<rparr>"
  have "explained x [?e] (keep (x\<lparr>rx_loss := l\<rparr>) s rexmt now)"
    using assms by (simp add: explained_def same_origin_def replay_def replay_event_def kept_event_def origin_ok_def
        keep_def Let_def acks_due_def split_beta queue_ack_def new_Event_def)
  then show ?thesis by blast
qed

lemma take_data_explained:
  assumes "origin_ok x" "seg_len s \<noteq> 0" "take_data x s W = Some (x', W')"
  shows "\<exists>evs. explained x evs x'"
proof -
  let ?x1 = "note_arrival x s"
  have o: "origin_ok ?x1" using explained_origin [OF note_arrival_explained assms(1)] .
  obtain dr l where d: "loss_decision_of ?x1 s = (dr, l)" by fastforce
  have l: "lp_dropped l = lp_dropped (rx_loss ?x1) + (if dr then 1 else 0)"
    using loss_decision_count [of ?x1 s] d by simp
  have "\<exists>evs. explained ?x1 evs x'"
  proof (cases dr)
    case True
    then show ?thesis using assms(3) d l discard_explained [of l ?x1 s] by (simp add: take_data_def)
  next
    case False
    then obtain now where "x' = keep (?x1\<lparr>rx_loss := l\<rparr>) s (is_rexmt (rx_p x) s) now"
      using assms(3) d by (auto simp: take_data_def bind_eq_Some_conv)
    then show ?thesis using keep_explained [OF o assms(2)] l False by simp
  qed
  then show ?thesis using explained_trans [OF note_arrival_explained] by (metis append_Nil)
qed

lemma take_seg_explained:
  assumes o: "origin_ok x" and t: "take_seg x s W = Some (rst, x', W')"
  shows "\<exists>evs. explained x evs x'"
proof -
  have ctl: "\<exists>evs. explained x evs (x\<lparr>rx_p := trace_rx (rx_p x) s 0 False n, rx_sum := m\<rparr>)"
    if "m_acks_sent m = m_acks_sent (rx_sum x)" "m_ack_send_failures m = m_ack_send_failures (rx_sum x)"
      "m_segments_dropped m = m_segments_dropped (rx_sum x)" for n m
  proof -
    let ?x = "x\<lparr>rx_p := trace_rx (rx_p x) s 0 False n, rx_sum := m\<rparr>"
    let ?e = "last (tr_events (p_tr (rx_p ?x)))"
    have "explained x [?e] ?x"
      using that by (simp add: explained_def same_origin_def replay_def replay_event_def kept_event_def
          acks_due_def new_Event_def)
    then show ?thesis by blast
  qed
  consider "x' = x" | "x' = x\<lparr>rx_p := trace_rx (rx_p x) s 0 False ''RST'', rx_sum := (rx_sum x)\<lparr>m_saw_rst := True\<rparr>\<rparr>"
    | "seg_len s > 0" "take_data x s W = Some (x', W')"
    | "x' = x\<lparr>rx_p := trace_rx (rx_p x) s 0 False ''FIN'', rx_sum := (rx_sum x)\<lparr>m_saw_fin := True\<rparr>\<rparr>"
    | "x' = x\<lparr>rx_p := trace_rx (rx_p x) s 0 False [], rx_sum := rx_sum x\<rparr>"
    using t by (auto simp: take_seg_def split: if_split_asm)
  then show ?thesis
  proof cases
    case 1
    then show ?thesis using explained_refl by blast
  next
    case 2
    show ?thesis unfolding 2 by (rule ctl) simp_all
  next
    case 3
    then have "seg_len s \<noteq> 0" by simp
    from take_data_explained [OF o this 3(2)] show ?thesis .
  next
    case 4
    show ?thesis unfolding 4 by (rule ctl) simp_all
  next
    case 5
    show ?thesis unfolding 5 by (rule ctl) simp_all
  qed
qed

lemma take_batch_explained:
  "origin_ok x \<Longrightarrow> take_batch x batch W = Some (rst, x', W') \<Longrightarrow> \<exists>evs. explained x evs x'"
proof (induction batch arbitrary: x W)
  case Nil
  then show ?case using explained_refl by auto
next
  case (Cons s batch)
  obtain rst1 x1 W1 where t: "take_seg x s W = Some (rst1, x1, W1)"
    and e: "if rst1 then x' = x1 else take_batch x1 batch W1 = Some (rst, x', W')"
    using Cons.prems(2) by (auto simp: bind_eq_Some_conv split: if_split_asm)
  obtain evs where evs: "explained x evs x1" using take_seg_explained [OF Cons.prems(1) t] by blast
  show ?case
  proof (cases rst1)
    case True
    then show ?thesis using e evs by auto
  next
    case False
    then obtain evs' where "explained x1 evs' x'"
      using Cons.IH [OF explained_origin [OF evs Cons.prems(1)]] e by auto
    then show ?thesis using explained_trans [OF evs] by blast
  qed
qed

lemma send_now_explained:
  assumes "send_now p s now txt W = Some (ok, p', W')"
  shows "\<exists>e. tr_events (p_tr p') = tr_events (p_tr p) @ [e] \<and> \<not> kept_event e \<and> \<not> e_dropped e"
    "same_origin p p'" "p_pending p' = p_pending p" "p_cfg p' = p_cfg p" "p_snd p' = p_snd p" "p_rsm p' = p_rsm p"
proof -
  have "(\<exists>e. tr_events (p_tr p') = tr_events (p_tr p) @ [e] \<and> \<not> kept_event e \<and> \<not> e_dropped e)
      \<and> same_origin p p' \<and> p_pending p' = p_pending p \<and> p_cfg p' = p_cfg p \<and> p_snd p' = p_snd p \<and> p_rsm p' = p_rsm p"
    using assms
    by (cases rule: send_now_cases) (simp_all add: same_origin_def record_tx_def trace_note_def
        record_event_def kept_event_def new_Event_def)
  then show "\<exists>e. tr_events (p_tr p') = tr_events (p_tr p) @ [e] \<and> \<not> kept_event e \<and> \<not> e_dropped e"
    "same_origin p p'" "p_pending p' = p_pending p" "p_cfg p' = p_cfg p" "p_snd p' = p_snd p" "p_rsm p' = p_rsm p"
    by blast+
qed

text \<open>
  Flushing: a prefix of the queue is sent, in order, and nothing that is not due (unless
  forced); every acknowledgement taken from the queue is counted once; one frame goes out for
  each one counted as sent.
\<close>

definition flush_due :: "real \<Rightarrow> bool \<Rightarrow> PendingAck list \<Rightarrow> PendingAck list" where
  "flush_due now force qs = takeWhile (\<lambda>q. force \<or> a_due_ms q \<le> now) qs"

definition flush_rest :: "real \<Rightarrow> bool \<Rightarrow> PendingAck list \<Rightarrow> PendingAck list" where
  "flush_rest now force qs = dropWhile (\<lambda>q. force \<or> a_due_ms q \<le> now) qs"

lemma count_ack_simps:
  "m_ack_send_failures (count_ack ok d m) = m_ack_send_failures m + (if ok then 0 else 1)"
  "m_acks_sent (count_ack ok d m) = m_acks_sent m + (if ok then 1 else 0)"
  "m_segments_dropped (count_ack ok d m) = m_segments_dropped m"
  "m_bytes_wanted (count_ack ok d m) = m_bytes_wanted m"
  by (simp_all add: count_ack_def Let_def)

lemma flush_loop_spec:
  "flush_loop now force qs p m W = Some (p', m', W') \<Longrightarrow>
     p_pending p' = flush_rest now force qs \<and> same_origin p p' \<and> p_rsm p' = p_rsm p
     \<and> m_acks_sent m' + m_ack_send_failures m' =
         m_acks_sent m + m_ack_send_failures m + int (length (flush_due now force qs))
     \<and> m_segments_dropped m' = m_segments_dropped m
     \<and> (\<exists>evs. tr_events (p_tr p') = tr_events (p_tr p) @ evs \<and> filter kept_event evs = [] \<and> filter e_dropped evs = [])
     \<and> (\<exists>out. u_wire (p_u p') = u_wire (p_u p) @ out \<and> int (length out) = m_acks_sent m' - m_acks_sent m)"
proof (induction qs arbitrary: p m W)
  case Nil
  then show ?case by (auto simp: flush_rest_def flush_due_def same_origin_def)
next
  case (Cons q qs)
  show ?case
  proof (cases "force \<or> a_due_ms q \<le> now")
    case False
    then show ?thesis using Cons.prems by (auto simp: flush_rest_def flush_due_def same_origin_def)
  next
    case True
    then obtain ok p1 W1 where
      s: "send_now p (pending_seg p q) now (if a_is_dup q then ''dup ACK'' else []) W = Some (ok, p1, W1)"
      and r: "flush_loop now force qs p1 (count_ack ok (a_is_dup q) m) W1 = Some (p', m', W')"
      using Cons.prems by (auto simp: bind_eq_Some_conv)
    note ih = Cons.IH [OF r]
    obtain e where e: "tr_events (p_tr p1) = tr_events (p_tr p) @ [e]" "\<not> kept_event e" "\<not> e_dropped e"
      using send_now_explained(1) [OF s] by blast
    have wire: "\<exists>w. u_wire (p_u p1) = u_wire (p_u p) @ w \<and> length w = (if ok then 1 else 0)"
      using s by (cases rule: send_now_cases) (use send_cases in fastforce)+
    show ?thesis
      using ih e wire True send_now_explained(2-) [OF s]
      by (auto simp: flush_rest_def flush_due_def same_origin_def count_ack_simps)
  qed
qed

lemma flush_explained:
  assumes "flush_acks (rx_p x) (rx_sum x) now force W = Some (p, m, W')"
  shows "\<exists>evs. explained x evs (x\<lparr>rx_p := p, rx_sum := m\<rparr>)"
proof -
  obtain evs where evs: "tr_events (p_tr p) = tr_events (p_tr (rx_p x)) @ evs" "filter kept_event evs = []"
      "filter e_dropped evs = []" "p_pending p = flush_rest now force (p_pending (rx_p x))"
      "same_origin (rx_p x) p" "m_segments_dropped m = m_segments_dropped (rx_sum x)"
      "m_acks_sent m + m_ack_send_failures m = m_acks_sent (rx_sum x) + m_ack_send_failures (rx_sum x)
         + int (length (flush_due now force (p_pending (rx_p x))))"
    using flush_loop_spec [OF assms [unfolded flush_acks_def]] by blast
  have "length (p_pending (rx_p x)) = length (flush_due now force (p_pending (rx_p x)))
      + length (flush_rest now force (p_pending (rx_p x)))"
    unfolding flush_due_def flush_rest_def by (metis length_append takeWhile_dropWhile_id)
  moreover have "replay isn t0 evs r = r" for isn t0 r
    using evs(2) unfolding replay_def
    by (induction evs arbitrary: r) (auto simp: replay_event_def split: if_split_asm)
  ultimately have "explained x evs (x\<lparr>rx_p := p, rx_sum := m\<rparr>)"
    using evs by (simp add: explained_def acks_due_def)
  then show ?thesis by blast
qed

lemma explained_device: "explained x [] (x\<lparr>rx_p := (rx_p x)\<lparr>p_u := u\<rparr>\<rparr>)"
  by (simp add: explained_def same_origin_def replay_def acks_due_def)

lemma rx_turn_cases:
  assumes t: "rx_turn x W = Some (rst, x', W')"
  obtains (reset) u batch W1 where rst
      "take_batch (x\<lparr>rx_p := (rx_p x)\<lparr>p_u := u\<rparr>\<rparr>) batch W1 = Some (True, x', W')"
    | (goes_on) u batch W1 x1 W2 t p m W3 where "\<not> rst"
      "take_batch (x\<lparr>rx_p := (rx_p x)\<lparr>p_u := u\<rparr>\<rparr>) batch W1 = Some (False, x1, W2)"
      "flush_acks (rx_p x1) (rx_sum x1) t False W3 = Some (p, m, W')" "x' = x1\<lparr>rx_p := p, rx_sum := m\<rparr>"
proof (cases rst)
  case True
  then show thesis using t
    by (auto simp: rx_turn_def bind_eq_Some_conv Let_def split: if_split_asm intro: reset)
next
  case False
  then show thesis using t
    by (auto simp: rx_turn_def bind_eq_Some_conv Let_def split: if_split_asm intro: goes_on)
qed

lemma rx_turn_explained:
  assumes o: "origin_ok x" and t: "rx_turn x W = Some (rst, x', W')"
  shows "\<exists>evs. explained x evs x'"
proof -
  have b: "\<exists>evs. explained x evs x1"
    if "take_batch (x\<lparr>rx_p := (rx_p x)\<lparr>p_u := u\<rparr>\<rparr>) batch W1 = Some (rst1, x1, W2)" for u batch W1 rst1 x1 W2
    using take_batch_explained [OF explained_origin [OF explained_device o] that]
      explained_trans [OF explained_device] by (metis append_Nil)
  from t show ?thesis
  proof (cases rule: rx_turn_cases)
    case reset
    then show ?thesis using b by blast
  next
    case (goes_on u batch W1 x1 W2 t p m W3)
    obtain evs where evs: "explained x evs x1" using b [OF goes_on(2)] by blast
    obtain evs' where "explained x1 evs' x'" using flush_explained [OF goes_on(3)] goes_on(4) by blast
    then show ?thesis using explained_trans [OF evs] by blast
  qed
qed

text \<open>A reset ends the loop, and only a reset sets the flag of the summary.\<close>

lemma take_seg_rst:
  assumes "take_seg x s W = Some (rst, x', W')"
  shows "(m_saw_rst (rx_sum x') \<longleftrightarrow> m_saw_rst (rx_sum x) \<or> rst) \<and> m_completed (rx_sum x') = m_completed (rx_sum x)
    \<and> m_bytes_delivered (rx_sum x') = m_bytes_delivered (rx_sum x)"
proof -
  have n: "m_saw_rst (rx_sum (note_arrival x s)) = m_saw_rst (rx_sum x)"
      "m_completed (rx_sum (note_arrival x s)) = m_completed (rx_sum x)"
      "m_bytes_delivered (rx_sum (note_arrival x s)) = m_bytes_delivered (rx_sum x)"
    by (simp_all add: note_arrival_def Let_def)
  have d: "m_saw_rst (rx_sum (discard y s)) = m_saw_rst (rx_sum y)"
      "m_completed (rx_sum (discard y s)) = m_completed (rx_sum y)"
      "m_bytes_delivered (rx_sum (discard y s)) = m_bytes_delivered (rx_sum y)" for y
    by (simp_all add: discard_def Let_def)
  have k: "m_saw_rst (rx_sum (keep y s b t)) = m_saw_rst (rx_sum y)"
      "m_completed (rx_sum (keep y s b t)) = m_completed (rx_sum y)"
      "m_bytes_delivered (rx_sum (keep y s b t)) = m_bytes_delivered (rx_sum y)" for y b t
    by (simp_all add: keep_def Let_def split_beta)
  have td: "m_saw_rst (rx_sum y) = m_saw_rst (rx_sum x) \<and> m_completed (rx_sum y) = m_completed (rx_sum x)
      \<and> m_bytes_delivered (rx_sum y) = m_bytes_delivered (rx_sum x)"
    if "take_data x s W = Some (y, V)" for y V
    using that by (auto simp: take_data_def Let_def split_beta bind_eq_Some_conv n d k split: if_split_asm)
  show ?thesis using assms by (auto simp: take_seg_def split: if_split_asm dest!: td)
qed

lemma take_batch_rst:
  "take_batch x batch W = Some (rst, x', W') \<Longrightarrow>
     (m_saw_rst (rx_sum x') \<longleftrightarrow> m_saw_rst (rx_sum x) \<or> rst) \<and> m_completed (rx_sum x') = m_completed (rx_sum x)
    \<and> m_bytes_delivered (rx_sum x') = m_bytes_delivered (rx_sum x)"
proof (induction batch arbitrary: x W)
  case (Cons s batch)
  then show ?case by (fastforce simp: bind_eq_Some_conv split: if_split_asm dest: take_seg_rst)
qed simp

lemma flush_loop_rst:
  "flush_loop now force qs p m W = Some (p', m', W') \<Longrightarrow>
     m_saw_rst m' = m_saw_rst m \<and> m_completed m' = m_completed m \<and> m_bytes_delivered m' = m_bytes_delivered m"
proof (induction qs arbitrary: p m W)
  case (Cons q qs)
  have "m_saw_rst (count_ack ok d m) = m_saw_rst m" "m_completed (count_ack ok d m) = m_completed m"
      "m_bytes_delivered (count_ack ok d m) = m_bytes_delivered m" for ok d
    by (simp_all add: count_ack_def Let_def)
  then show ?case using Cons by (fastforce simp: bind_eq_Some_conv split: if_split_asm)
qed simp

lemma rx_turn_rst:
  assumes "rx_turn x W = Some (rst, x', W')"
  shows "(m_saw_rst (rx_sum x') \<longleftrightarrow> m_saw_rst (rx_sum x) \<or> rst) \<and> m_completed (rx_sum x') = m_completed (rx_sum x)
    \<and> m_bytes_delivered (rx_sum x') = m_bytes_delivered (rx_sum x)"
  using assms
proof (cases rule: rx_turn_cases)
  case reset
  then show ?thesis using take_batch_rst [OF reset(2)] by simp
next
  case (goes_on u batch W1 x1 W2 t p m W3)
  then show ?thesis using take_batch_rst [OF goes_on(2)] flush_loop_rst [OF goes_on(3) [unfolded flush_acks_def]]
    by simp
qed

lemma rx_loop_rst:
  "rx_loop t_end target x W = Some (rst, x', W') \<Longrightarrow>
     (m_saw_rst (rx_sum x') \<longleftrightarrow> m_saw_rst (rx_sum x) \<or> rst) \<and> m_completed (rx_sum x') = m_completed (rx_sum x)
    \<and> m_bytes_delivered (rx_sum x') = m_bytes_delivered (rx_sum x)"
proof (induction t_end target x W rule: rx_loop.induct)
  case (1 t_end target x W)
  obtain t W1 where n: "now_ms W = Some (t, W1)"
    using 1(2) by (auto simp: rx_loop.simps [of t_end target x W] split: option.split_asm)
  show ?case
  proof (cases "t < t_end \<and> delivered (rx_rsm x) < target")
    case False
    then show ?thesis using 1(2) n by (auto simp: rx_loop.simps [of t_end target x W] split: if_split_asm)
  next
    case True
    obtain rst1 x1 W2 where r: "rx_turn x W1 = Some (rst1, x1, W2)"
      and e: "if rst1 then (rst, x', W') = (True, x1, W2) else rx_loop t_end target x1 W2 = Some (rst, x', W')"
      using 1(2) n True by (auto simp: rx_loop.simps [of t_end target x W] split: option.split_asm if_split_asm)
    show ?thesis
      using rx_turn_rst [OF r] e 1(1) [OF n refl True r refl refl] by (auto split: if_split_asm)
  qed
qed

lemma replay_kept: "filter kept_event evs' = [] \<Longrightarrow> replay isn t0 (evs @ evs') r = replay isn t0 evs r"
proof -
  have "fold (replay_event isn t0) evs' r' = r'" if "filter kept_event evs' = []" for r'
    using that by (induction evs' arbitrary: r') (auto simp: replay_event_def split: if_split_asm)
  then show "filter kept_event evs' = [] \<Longrightarrow> replay isn t0 (evs @ evs') r = replay isn t0 evs r"
    by (simp add: replay_def)
qed

lemma rx_loop_explained:
  "origin_ok x \<Longrightarrow> rx_loop t_end target x W = Some (rst, x', W') \<Longrightarrow>
     (\<exists>evs. explained x evs x')
     \<and> (rst \<or> target \<le> delivered (rx_rsm x') \<or> (\<exists>t W1. W1 = EvNow t # W' \<and> t_end \<le> t))"
proof (induction t_end target x W rule: rx_loop.induct)
  case (1 t_end target x W)
  obtain t W1 where n: "now_ms W = Some (t, W1)"
    using 1(3) by (auto simp: rx_loop.simps [of t_end target x W] split: option.split_asm)
  show ?case
  proof (cases "t < t_end \<and> delivered (rx_rsm x) < target")
    case False
    then have "x' = x" "\<not> rst" "W' = W1"
      using 1(3) n by (auto simp: rx_loop.simps [of t_end target x W] split: if_split_asm)
    then show ?thesis using False explained_refl by auto
  next
    case True
    obtain rst1 x1 W2 where r: "rx_turn x W1 = Some (rst1, x1, W2)"
      and e: "if rst1 then (rst, x', W') = (True, x1, W2) else rx_loop t_end target x1 W2 = Some (rst, x', W')"
      using 1(3) n True by (auto simp: rx_loop.simps [of t_end target x W] split: option.split_asm if_split_asm)
    obtain evs where evs: "explained x evs x1" using rx_turn_explained [OF 1(2) r] by blast
    show ?thesis
    proof (cases rst1)
      case True
      then show ?thesis using e evs by auto
    next
      case False
      then have "rx_loop t_end target x1 W2 = Some (rst, x', W')" using e by simp
      from 1(1) [OF n refl \<open>t < t_end \<and> delivered (rx_rsm x) < target\<close> r refl refl False
          explained_origin [OF evs 1(2)] this]
      show ?thesis using explained_trans [OF evs] by blast
    qed
  qed
qed

lemma receive_explained:
  assumes o: "tr_data_isn (p_tr p) = p_data_isn p"
    and r: "receive p target timeout loss W = Some (m, p', loss', W')"
  obtains evs r0 where "tr_events (p_tr p') = tr_events (p_tr p) @ evs" "same_origin p p'"
    "r0 = (case p_rsm p of Some r \<Rightarrow> r | None \<Rightarrow> new_Reassembly (p_data_isn p))"
    "p_rsm p' = Some (replay (p_data_isn p) (tr_t0 (p_tr p)) evs r0)"
    "m_acks_sent m + m_ack_send_failures m + int (length (p_pending p')) =
       int (length (p_pending p)) + int (length (filter kept_event evs))"
    "m_segments_dropped m = int (length (filter e_dropped evs))"
    "lp_dropped loss' = lp_dropped loss + int (length (filter e_dropped evs))"
    "m_saw_rst m \<or> p_pending p' = []"
    "m_completed m \<longleftrightarrow> \<not> m_saw_rst m \<and> target \<le> peer_delivered p'"
    "m_bytes_delivered m = (if m_saw_rst m then 0 else peer_delivered p')"
proof -
  obtain t0 W0 rst x W2 where l: "rx_loop (t0 + timeout) target (rx_start p target loss) W0 = Some (rst, x, W2)"
    and e: "(if rst then Some (rx_sum x, rx_store x, rx_loss x, W2)
       else do { (t, W) \<leftarrow> now_ms W2; (p, m, W) \<leftarrow> flush_acks (rx_store x) (rx_sum x) t True W;
         Some (m\<lparr>m_bytes_delivered := delivered (rx_rsm x),
                 m_completed := (delivered (rx_rsm x) \<ge> target)\<rparr>, p, rx_loss x, W) }) = Some (m, p', loss', W')"
    using r by (auto simp: receive_def bind_eq_Some_conv simp del: if_split)
  have o': "origin_ok (rx_start p target loss)" using o by (simp add: origin_ok_def rx_start_def)
  obtain evs where evs: "explained (rx_start p target loss) evs x" using rx_loop_explained [OF o' l] by blast
  have rst: "rst \<longleftrightarrow> m_saw_rst (rx_sum x)" "\<not> m_completed (rx_sum x)" "m_bytes_delivered (rx_sum x) = 0"
    using rx_loop_rst [OF l] by (simp_all add: rx_start_def new_RunSummary_def)
  let ?r0 = "case p_rsm p of Some r \<Rightarrow> r | None \<Rightarrow> new_Reassembly (p_data_isn p)"
  have start: "rx_p (rx_start p target loss) = p" "rx_rsm (rx_start p target loss) = ?r0"
      "rx_loss (rx_start p target loss) = loss" "acks_due (rx_start p target loss) = int (length (p_pending p))"
      "m_segments_dropped (rx_sum (rx_start p target loss)) = 0"
    by (simp_all add: rx_start_def acks_due_def new_RunSummary_def)
  note x = evs [unfolded explained_def start]
  show thesis
  proof (cases rst)
    case True
    then have m: "m = rx_sum x" "p' = rx_store x" "loss' = rx_loss x" using e by simp_all
    show thesis
      by (rule that [of evs ?r0])
        (use x True rst in \<open>simp_all add: m rx_store_def same_origin_def acks_due_def\<close>)
  next
    case False
    then obtain t m1 W3 W4 where f: "flush_acks (rx_store x) (rx_sum x) t True W3 = Some (p', m1, W4)"
      and m: "m = m1\<lparr>m_bytes_delivered := delivered (rx_rsm x), m_completed := (delivered (rx_rsm x) \<ge> target)\<rparr>"
        "loss' = rx_loss x" using e by (auto simp: bind_eq_Some_conv)
    note fs = flush_loop_spec [OF f [unfolded flush_acks_def]]
    obtain evs' where evs': "tr_events (p_tr p') = tr_events (p_tr (rx_store x)) @ evs'"
      "filter kept_event evs' = []" "filter e_dropped evs' = []" using fs by blast
    have nil: "flush_rest t True qs = []" "flush_due t True qs = qs" for qs
      by (simp_all add: flush_rest_def flush_due_def)
    have keep: "replay isn t0 (evs @ evs') r = replay isn t0 evs r" for isn t0 r
      using evs'(2) by (simp add: replay_kept)
    have nrst: "\<not> m_saw_rst m1" using flush_loop_rst [OF f [unfolded flush_acks_def]] False rst by simp
    show thesis
      by (rule that [of "evs @ evs'" ?r0])
        (use x fs evs' nil keep nrst in \<open>simp_all add: m rx_store_def same_origin_def acks_due_def peer_delivered_def\<close>)
  qed
qed

subsection \<open>Events as stream positions\<close>

definition new_events :: "Peer \<Rightarrow> Peer \<Rightarrow> Event list" where
  "new_events p p' = drop (length (tr_events (p_tr p))) (tr_events (p_tr p'))"

definition kept_segs :: "real \<Rightarrow> Event list \<Rightarrow> (nat \<times> nat \<times> real) list" where
  "kept_segs t0 evs = map (\<lambda>e. (nat (e_rel_seq e), unat (e_len e), e_t_ms e + t0)) (filter kept_event evs)"

definition kept_within :: "nat \<Rightarrow> Event list \<Rightarrow> bool" where
  "kept_within n evs \<longleftrightarrow> list_all (\<lambda>e. 0 \<le> e_rel_seq e \<and> nat (e_rel_seq e) + unat (e_len e) \<le> n) (filter kept_event evs)"

lemma replay_run_segs:
  "kept_within n evs \<Longrightarrow> replay isn t0 evs r = run_segs (accept_at isn) r (kept_segs t0 evs)"
proof (induction evs arbitrary: r)
  case Nil
  then show ?case by (simp add: replay_def kept_segs_def)
next
  case (Cons e evs)
  then have "replay isn t0 evs r' = run_segs (accept_at isn) r' (kept_segs t0 evs)" for r'
    by (simp add: kept_within_def split: if_split_asm)
  moreover have "replay_event isn t0 e r =
      (if kept_event e then snd (accept_at isn r (nat (e_rel_seq e)) (unat (e_len e)) (e_t_ms e + t0)) else r)"
    using Cons.prems by (cases "kept_event e") (simp_all add: kept_within_def replay_event_def accept_at_def)
  ultimately show ?case by (simp add: replay_def kept_segs_def)
qed

lemma kept_within_stream: "kept_within n evs \<Longrightarrow> within_stream n (kept_segs t0 evs)"
  by (auto simp: kept_within_def within_stream_def kept_segs_def list_all_iff kept_event_def word_neq_0_conv unat_gt_0)

lemma frontier_reached:
  assumes "R \<subseteq> {..<n}"
  shows "k \<le> frontier R \<longleftrightarrow> {..<k} \<subseteq> R"
proof -
  have "n \<notin> R" using assms by auto
  then have "frontier R \<notin> R" unfolding frontier_def by (rule LeastI)
  moreover have "i < frontier R \<Longrightarrow> i \<in> R" for i unfolding frontier_def using not_less_Least by blast
  ultimately show ?thesis by (auto simp: not_le [symmetric])
qed

lemma seg_cover_within: "within_stream n segs \<Longrightarrow> seg_cover segs \<subseteq> {..<n}"
  by (fastforce simp: within_stream_def seg_cover_def)

text \<open>A fresh receiver that replays a trace has delivered exactly the covered prefix.\<close>

lemma replay_delivered:
  assumes "kept_within n evs" "n < 2 ^ 31"
  shows "delivered (replay isn t0 evs (new_Reassembly isn)) = of_nat (frontier (seg_cover (kept_segs t0 evs)))"
    and "target \<le> delivered (replay isn t0 evs (new_Reassembly isn))
      \<longleftrightarrow> {..<unat target} \<subseteq> seg_cover (kept_segs t0 evs)"
proof -
  let ?segs = "kept_segs t0 evs"
  have w: "within_stream n ?segs" using assms(1) by (rule kept_within_stream)
  have "rsm_rel isn (seg_cover ?segs) (run_segs (accept_at isn) (new_Reassembly isn) ?segs)"
    using rsm.run_rel [OF rsm_rel_new _ w assms(2)] by simp
  then show d: "delivered (replay isn t0 evs (new_Reassembly isn)) = of_nat (frontier (seg_cover ?segs))"
    using delivered_frontier replay_run_segs [OF assms(1)] by metis
  have "frontier (seg_cover ?segs) \<le> n" using frontier_le [OF seg_cover_within [OF w]] .
  then have "unat (of_nat (frontier (seg_cover ?segs)) :: u32) = frontier (seg_cover ?segs)"
    using assms(2) by (intro unat_of_nat_small) simp
  then show "target \<le> delivered (replay isn t0 evs (new_Reassembly isn)) \<longleftrightarrow> {..<unat target} \<subseteq> seg_cover ?segs"
    using frontier_reached [OF seg_cover_within [OF w]] by (simp add: d word_le_nat_alt)
qed

subsection \<open>The queue goes out in order\<close>

definition carries :: "bytes \<Rightarrow> Seg \<Rightarrow> bool" where
  "carries pkt s \<longleftrightarrow> (\<forall>out. parse pkt out = Some (Some (s\<lparr>s_t_ms := s_t_ms out\<rparr>)))"

lemma send_now_wire:
  assumes "send_now p s now txt W = Some (ok, p', W')"
  shows "if ok then \<exists>pkt. u_wire (p_u p') = u_wire (p_u p) @ [pkt] \<and> carries pkt s
    else u_wire (p_u p') = u_wire (p_u p)"
  using assms by (cases rule: send_now_cases) (use send_cases in \<open>fastforce simp: carries_def\<close>)+

lemma pending_seg_cong: "p_cfg p' = p_cfg p \<Longrightarrow> p_snd p' = p_snd p \<Longrightarrow> pending_seg p' q = pending_seg p q"
  by (simp add: pending_seg_def ack_seg_def)

lemma flush_loop_wire:
  "flush_loop now force qs p m W = Some (p', m', W') \<Longrightarrow>
     \<exists>sent pkts. subseq sent (flush_due now force qs) \<and> u_wire (p_u p') = u_wire (p_u p) @ pkts
       \<and> list_all2 (\<lambda>pkt q. carries pkt (pending_seg p q)) pkts sent
       \<and> m_acks_sent m' = m_acks_sent m + int (length sent)
       \<and> m_dup_acks_sent m' = m_dup_acks_sent m + int (length (filter a_is_dup sent))"
proof (induction qs arbitrary: p m W)
  case Nil
  then show ?case by (intro exI [of _ "[]"]) auto
next
  case (Cons q qs)
  show ?case
  proof (cases "force \<or> a_due_ms q \<le> now")
    case False
    then show ?thesis using Cons.prems by (intro exI [of _ "[]"]) auto
  next
    case True
    then obtain ok p1 W1 where
      s: "send_now p (pending_seg p q) now (if a_is_dup q then ''dup ACK'' else []) W = Some (ok, p1, W1)"
      and r: "flush_loop now force qs p1 (count_ack ok (a_is_dup q) m) W1 = Some (p', m', W')"
      using Cons.prems by (auto simp: bind_eq_Some_conv)
    have same: "pending_seg p1 q' = pending_seg p q'" for q'
      using send_now_explained(4,5) [OF s] by (rule pending_seg_cong)
    obtain sent pkts where ih: "subseq sent (flush_due now force qs)" "u_wire (p_u p') = u_wire (p_u p1) @ pkts"
        "list_all2 (\<lambda>pkt q. carries pkt (pending_seg p q)) pkts sent"
        "m_acks_sent m' = m_acks_sent (count_ack ok (a_is_dup q) m) + int (length sent)"
        "m_dup_acks_sent m' = m_dup_acks_sent (count_ack ok (a_is_dup q) m) + int (length (filter a_is_dup sent))"
      using Cons.IH [OF r] unfolding same by blast
    have due: "flush_due now force (q # qs) = q # flush_due now force qs" using True by (simp add: flush_due_def)
    show ?thesis
    proof (cases ok)
      case True
      then obtain pkt where "u_wire (p_u p1) = u_wire (p_u p) @ [pkt]" "carries pkt (pending_seg p q)"
        using send_now_wire [OF s] by auto
      then show ?thesis using ih True due
        by (intro exI [of _ "q # sent"] exI [of _ "pkt # pkts"]) (simp add: count_ack_def Let_def)
    next
      case False
      then show ?thesis using ih due send_now_wire [OF s]
        by (intro exI [of _ sent] exI [of _ pkts]) (auto simp: count_ack_def)
    qed
  qed
qed

subsection \<open>The handshake\<close>

lemma find_synack_found:
  "find_synack cfg seen = Inr (Some s) \<Longrightarrow> s \<in> set seen \<and> for_us cfg s \<and> \<not> has_flag (s_flags s) TH_RST
     \<and> s_flags s AND (TH_SYN OR TH_ACK) = TH_SYN OR TH_ACK"
  by (induction seen) (auto split: if_split_asm)

lemma await_synack_found:
  "await_synack cfg deadline u W = Some (Inr (Some s), u', W') \<Longrightarrow>
     (\<exists>C. W = C @ W' \<and> s \<in> set (segs_in C)) \<and> for_us cfg s \<and> \<not> has_flag (s_flags s) TH_RST
     \<and> s_flags s AND (TH_SYN OR TH_ACK) = TH_SYN OR TH_ACK \<and> u_wire u' = u_wire u"
proof (induction cfg deadline u W rule: await_synack.induct)
  case (1 cfg deadline u W)
  obtain t W1 u1 seen W2 where n: "now_ms W = Some (t, W1)" and t: "t < deadline"
    and d: "drain u 50 [] W1 = Some (u1, seen, W2)"
    using 1(2) by (auto simp: await_synack.simps [of cfg deadline u W] split: option.split_asm if_split_asm)
  have W: "W = EvNow t # W1" using n by (simp add: script_simps)
  obtain C where C: "W1 = C @ W2" "settled C" "seen = segs_in C" "u_wire u1 = u_wire u"
    using drain_exact [OF d] by auto
  consider (found) s' where "find_synack cfg seen = Inr (Some s')" | (more) "find_synack cfg seen = Inr None"
    using 1(2) n t d by (cases "find_synack cfg seen")
      (auto simp: await_synack.simps [of cfg deadline u W] split: option.split_asm)
  then show ?case
  proof cases
    case found
    then obtain t' where "s' = s" "u' = u1" "W2 = EvNow t' # W'"
      using 1(2) n t d by (auto simp: await_synack.simps [of cfg deadline u W] script_simps split: option.split_asm)
    moreover have "segs_in (EvNow t # C @ [EvNow t']) = segs_in C" using C(2) by (simp add: segs_in_settled)
    ultimately show ?thesis using find_synack_found [OF found] C W
      by (auto intro!: exI [of _ "EvNow t # C @ [EvNow t']"])
  next
    case more
    then have "await_synack cfg deadline u1 W2 = Some (Inr (Some s), u', W')"
      using 1(2) n t d by (simp add: await_synack.simps [of cfg deadline u W])
    from 1(1) [OF n refl _ d refl refl more refl this] t obtain D where "W2 = D @ W'" "s \<in> set (segs_in D)"
        "for_us cfg s \<and> \<not> has_flag (s_flags s) TH_RST \<and> s_flags s AND (TH_SYN OR TH_ACK) = TH_SYN OR TH_ACK
         \<and> u_wire u' = u_wire u1" by auto
    then show ?thesis using C W by (auto simp: segs_in_settled intro!: exI [of _ "EvNow t # C @ D"])
  qed
qed

lemma send_syn_cases:
  assumes "send_syn p W = Some (r, p', W')"
  obtains res u t W1 where "W = EvNow t # W1" "utun_send (p_u p) (syn_seg (p_cfg p)) W1 = Some (res, u, W')"
    "p_snd p' = c_isn (p_cfg p)" "p_cfg p' = p_cfg p" "p_rsm p' = p_rsm p" "p_u p' = u"
    "r = (case res of Inl serr \<Rightarrow> Inl (''SYN: '' @ serr) | Inr _ \<Rightarrow> Inr t)"
proof -
  obtain t W1 res u W2 where n: "W = EvNow t # W1" and s: "utun_send (p_u p) (syn_seg (p_cfg p)) W1 = Some (res, u, W2)"
    using assms by (auto simp: send_syn_def Let_def bind_eq_Some_conv script_simps)
  show thesis
  proof (cases res)
    case (Inl serr)
    then show thesis using assms n s that [of t W1 res u] by (auto simp: send_syn_def Let_def)
  next
    case (Inr x)
    then show thesis using assms n s that [of t W1 res u] by (auto simp: send_syn_def Let_def)
  qed
qed

lemma send_syn_sent:
  assumes "send_syn p W = Some (Inr t0, p', W')"
  shows "p_snd p' = c_isn (p_cfg p) \<and> p_cfg p' = p_cfg p \<and> p_rsm p' = p_rsm p
    \<and> (\<exists>pkt. u_wire (p_u p') = u_wire (p_u p) @ [pkt] \<and> carries pkt (syn_seg (p_cfg p)))"
  using assms
proof (cases rule: send_syn_cases)
  case (1 res u t W1)
  then obtain x where "res = Inr x" by (cases res) auto
  then show ?thesis using send_cases [OF 1(2)] 1 by (auto simp: carries_def)
qed

lemma finish_accept_ok:
  assumes "finish_accept p W = Some (Inr (), p', W')"
  shows "\<exists>fd. fd \<ge> 0 \<and> p' = p\<lparr>p_afd := fd\<rparr>"
  using assms by (auto simp: finish_accept_def bind_eq_Some_conv Let_def not_less split: if_split_asm)

lemma take_synack_simps:
  "p_snd (take_synack p t0 sa) = p_snd p + 1" "p_data_isn (take_synack p t0 sa) = s_seq sa + 1"
  "p_max_seq_end_seen (take_synack p t0 sa) = s_seq sa + 1" "p_cfg (take_synack p t0 sa) = p_cfg p"
  "tr_data_isn (p_tr (take_synack p t0 sa)) = s_seq sa + 1" "p_rsm (take_synack p t0 sa) = p_rsm p"
  "p_u (take_synack p t0 sa) = p_u p" "p_peer_sack_ok (take_synack p t0 sa) = o_sack_permitted (s_opt sa)"
  by (simp_all add: take_synack_def Let_def set_origin_def record_rx_def record_event_def)

lemma send_now_keeps:
  assumes "send_now p s now txt W = Some (ok, p', W')"
  shows "p_max_seq_end_seen p' = p_max_seq_end_seen p" "p_peer_sack_ok p' = p_peer_sack_ok p"
  using assms by (cases rule: send_now_cases; simp)+

text \<open>What an established peer knows: the SYN-ACK \<open>sa\<close> it took its numbers from.\<close>

definition synchronised :: "Peer \<Rightarrow> Seg \<Rightarrow> bool" where
  "synchronised p sa \<longleftrightarrow> s_ack sa = c_isn (p_cfg p) + 1 \<and> p_snd p = c_isn (p_cfg p) + 1
     \<and> p_data_isn p = s_seq sa + 1 \<and> p_max_seq_end_seen p = s_seq sa + 1
     \<and> tr_data_isn (p_tr p) = p_data_isn p \<and> p_peer_sack_ok p = o_sack_permitted (s_opt sa)"

lemma after_synack_ok:
  assumes a: "after_synack p t0 sa W = Some (Inr (), p', W')" and snd: "p_snd p = c_isn (p_cfg p)"
  shows "synchronised p' sa \<and> p_afd p' \<ge> 0 \<and> p_rsm p' = p_rsm p \<and> p_cfg p' = p_cfg p
    \<and> (\<exists>rest. u_wire (p_u p') = u_wire (p_u p) @ rest)"
proof -
  let ?q = "take_synack p t0 sa"
  obtain t W1 ok p1 W2 where ack: "s_ack sa = p_snd p + 1"
    and s: "send_now ?q (ack_seg ?q (p_data_isn ?q)) t ''3WHS ACK'' W1 = Some (ok, p1, W2)"
    and f: "finish_accept p1 W2 = Some (Inr (), p', W')"
    using a by (auto simp: after_synack_def bind_eq_Some_conv Let_def split: if_split_asm)
  obtain fd where fd: "fd \<ge> 0" "p' = p1\<lparr>p_afd := fd\<rparr>" using finish_accept_ok [OF f] by blast
  have "\<exists>rest. u_wire (p_u p1) = u_wire (p_u p) @ rest"
    using send_now_wire [OF s] by (auto simp: take_synack_simps split: if_split_asm)
  then show ?thesis
    using fd ack snd send_now_explained(2-) [OF s] send_now_keeps [OF s]
    by (simp add: synchronised_def same_origin_def take_synack_simps)
qed

lemma establish_cases:
  assumes "establish p W = Some (Inr (), p', W')"
  obtains t0 p1 W1 t W2 sa u W3 where "send_syn p W = Some (Inr t0, p1, W1)" "now_ms W1 = Some (t, W2)"
    "await_synack (p_cfg p1) (t + 2000) (p_u p1) W2 = Some (Inr (Some sa), u, W3)"
    "after_synack (p1\<lparr>p_u := u\<rparr>) t0 sa W3 = Some (Inr (), p', W')"
proof -
  obtain r p1 W1 where s: "send_syn p W = Some (r, p1, W1)"
    using assms by (auto simp: establish_def bind_eq_Some_conv)
  then obtain t0 where r: "r = Inr t0" using assms by (cases r) (auto simp: establish_def)
  obtain t W2 where n: "now_ms W1 = Some (t, W2)" using assms s r by (auto simp: establish_def bind_eq_Some_conv)
  obtain got u W3 where w: "await_synack (p_cfg p1) (t + 2000) (p_u p1) W2 = Some (got, u, W3)"
    using assms s r n by (auto simp: establish_def bind_eq_Some_conv)
  show thesis
  proof (cases got)
    case (Inl x)
    then show thesis using assms s r n w by (simp add: establish_def)
  next
    case (Inr sao)
    then obtain sa where "sao = Some sa" using assms s r n w by (cases sao) (auto simp: establish_def)
    then show thesis using that [of t0 p1 W1 t W2 sa u W3] assms s r n w Inr by (simp add: establish_def)
  qed
qed

lemma send_consumes: "utun_send u s W = Some (r, u', W') \<Longrightarrow> \<exists>C. W = C @ W'"
  by (auto simp: utun_send_def Let_def bind_eq_Some_conv script_simps split: option.split_asm if_split_asm)

lemma send_syn_consumes: "send_syn p W = Some (r, p', W') \<Longrightarrow> \<exists>C. W = C @ W'"
  by (elim send_syn_cases) (auto dest!: send_consumes)

subsection \<open>Bursts\<close>

lemma burst_send_counts:
  "burst_send n s p r W = Some (p', r', W') \<Longrightarrow>
     b_sent r' + b_send_failures r' = b_sent r + b_send_failures r + int n \<and> b_acks r' = b_acks r \<and> b_rsts r' = b_rsts r
     \<and> p_cfg p' = p_cfg p
     \<and> (\<exists>pkts. u_wire (p_u p') = u_wire (p_u p) @ pkts \<and> int (length pkts) = b_sent r' - b_sent r
          \<and> list_all (\<lambda>pkt. carries pkt s) pkts)"
proof (induction n arbitrary: p r W)
  case (Suc n)
  obtain res u W1 where s: "utun_send (p_u p) s W = Some (res, u, W1)"
    using Suc.prems by (auto simp: bind_eq_Some_conv)
  show ?case
  proof (cases res)
    case (Inr x)
    obtain pkt where pkt: "u_wire u = u_wire (p_u p) @ [pkt]" "carries pkt s"
      using send_cases [OF s] Inr by (auto simp: carries_def)
    have "burst_send n s (p\<lparr>p_u := u\<rparr>) (r\<lparr>b_sent := b_sent r + 1\<rparr>) W1 = Some (p', r', W')"
      using Suc.prems s Inr by simp
    from Suc.IH [OF this] show ?thesis using pkt by auto
  next
    case (Inl err)
    have "\<exists>p1 W2. p_u p1 = u \<and> p_cfg p1 = p_cfg p
        \<and> burst_send n s p1 (r\<lparr>b_send_failures := b_send_failures r + 1\<rparr>) W2 = Some (p', r', W')"
    proof (cases "b_send_failures r = 0")
      case True
      then obtain t W2 where "burst_send n s (p\<lparr>p_u := u, p_tr := trace_note t (''burst send failed: '' @ err) (p_tr p)\<rparr>)
          (r\<lparr>b_send_failures := b_send_failures r + 1\<rparr>) W2 = Some (p', r', W')"
        using Suc.prems s Inl by (auto simp: bind_eq_Some_conv)
      then show ?thesis by (intro exI conjI) (simp_all (no_asm_simp))
    next
      case False
      then have "burst_send n s (p\<lparr>p_u := u\<rparr>) (r\<lparr>b_send_failures := b_send_failures r + 1\<rparr>) W1 = Some (p', r', W')"
        using Suc.prems s Inl by simp
      then show ?thesis by (intro exI conjI) (simp_all (no_asm_simp))
    qed
    then obtain p1 W2 where "p_u p1 = u" "p_cfg p1 = p_cfg p"
      and b: "burst_send n s p1 (r\<lparr>b_send_failures := b_send_failures r + 1\<rparr>) W2 = Some (p', r', W')"
      by blast
    then show ?thesis using Suc.IH [OF b] send_cases [OF s] Inl by auto
  qed
qed auto

lemma burst_send_consumes: "burst_send n s p r W = Some (p', r', W') \<Longrightarrow> \<exists>C. W = C @ W'"
proof (induction n arbitrary: p r W)
  case (Suc n)
  obtain res u W1 where s: "utun_send (p_u p) s W = Some (res, u, W1)"
    using Suc.prems by (auto simp: bind_eq_Some_conv)
  obtain C where C: "W = C @ W1" using send_consumes [OF s] by blast
  have "\<exists>p1 r1 D. \<exists>W2. W1 = D @ W2 \<and> burst_send n s p1 r1 W2 = Some (p', r', W')"
  proof (cases res)
    case (Inr x)
    then have "W1 = [] @ W1 \<and> burst_send n s (p\<lparr>p_u := u\<rparr>) (r\<lparr>b_sent := b_sent r + 1\<rparr>) W1 = Some (p', r', W')"
      using Suc.prems s by simp
    then show ?thesis by blast
  next
    case (Inl err)
    let ?r = "r\<lparr>b_send_failures := b_send_failures r + 1\<rparr>"
    show ?thesis
    proof (cases "b_send_failures r = 0")
      case True
      then obtain t W2 where "W1 = [EvNow t] @ W2 \<and>
          burst_send n s (p\<lparr>p_u := u, p_tr := trace_note t (''burst send failed: '' @ err) (p_tr p)\<rparr>) ?r W2 = Some (p', r', W')"
        using Suc.prems s Inl by (auto simp: bind_eq_Some_conv script_simps)
      then show ?thesis by blast
    next
      case False
      then have "W1 = [] @ W1 \<and> burst_send n s (p\<lparr>p_u := u\<rparr>) ?r W1 = Some (p', r', W')"
        using Suc.prems s Inl by simp
      then show ?thesis by blast
    qed
  qed
  then show ?case using Suc.IH C by (metis append.assoc)
qed simp

definition counted_as :: "PeerConfig \<Rightarrow> u8 \<Rightarrow> Seg \<Rightarrow> bool" where
  "counted_as cfg flag s \<longleftrightarrow> for_us cfg s \<and> has_flag (s_flags s) flag"

lemma count_replies_exact:
  "b_rsts (count_replies cfg segs r) = b_rsts r + int (length (filter (counted_as cfg TH_RST) segs))"
  "b_acks (count_replies cfg segs r) = b_acks r
     + int (length (filter (\<lambda>s. counted_as cfg TH_ACK s \<and> \<not> counted_as cfg TH_RST s) segs))"
  "b_sent (count_replies cfg segs r) = b_sent r" "b_send_failures (count_replies cfg segs r) = b_send_failures r"
  by (induction segs arbitrary: r) (simp_all add: counted_as_def)

subsection \<open>Properties\<close>

text \<open>
  Property C7. A call of \<open>receive\<close> accounts for everything: the reassembly it leaves is the
  one obtained by feeding the kept data events of its trace, in order, to the reassembly it
  started with; every kept data segment gives one acknowledgement, sent, failed or still
  queued; the discarded segments of the summary, of the loss policy and of the trace are the
  same; the queue is empty unless a reset ended the call; it is complete exactly if the target
  was delivered and no reset seen.
\<close>

theorem receive_accounts_for_all:
  assumes "tr_data_isn (p_tr p) = p_data_isn p"
    and "receive p target timeout loss W = Some (m, p', loss', W')"
  shows "tr_events (p_tr p') = tr_events (p_tr p) @ new_events p p'
    \<and> p_rsm p' = Some (replay (p_data_isn p) (tr_t0 (p_tr p)) (new_events p p')
        (case p_rsm p of Some r \<Rightarrow> r | None \<Rightarrow> new_Reassembly (p_data_isn p)))
    \<and> m_acks_sent m + m_ack_send_failures m + int (length (p_pending p'))
        = int (length (p_pending p)) + int (length (filter kept_event (new_events p p')))
    \<and> m_segments_dropped m = int (length (filter e_dropped (new_events p p')))
    \<and> lp_dropped loss' = lp_dropped loss + m_segments_dropped m
    \<and> (m_saw_rst m \<or> p_pending p' = [])
    \<and> (m_completed m \<longleftrightarrow> \<not> m_saw_rst m \<and> target \<le> peer_delivered p')"
  using assms by (rule receive_explained) (simp add: new_events_def)

text \<open>
  Property C6. On a fresh connection, while the kept segments stay within \<open>n\<close> bytes (less
  than half the sequence space), the connection has delivered, after a call of \<open>receive\<close>, the longest prefix of
  the stream covered by the segments it kept. The summary reports that number as the bytes
  delivered unless a reset was seen, in which case it reports none, and it reports completion
  exactly when no reset was seen and every byte below the target was covered.
\<close>

theorem receive_completes_exactly:
  assumes "tr_data_isn (p_tr p) = p_data_isn p" "p_rsm p = None"
    and "receive p target timeout loss W = Some (m, p', loss', W')"
    and "kept_within n (new_events p p')" "n < 2 ^ 31"
  shows "peer_delivered p' = of_nat (frontier (seg_cover (kept_segs (tr_t0 (p_tr p)) (new_events p p'))))
    \<and> m_bytes_delivered m = (if m_saw_rst m then 0 else peer_delivered p')
    \<and> (m_completed m \<longleftrightarrow> \<not> m_saw_rst m
         \<and> {..<unat target} \<subseteq> seg_cover (kept_segs (tr_t0 (p_tr p)) (new_events p p')))"
proof (rule receive_explained [OF assms(1,3)])
  fix evs r0
  assume e: "tr_events (p_tr p') = tr_events (p_tr p) @ evs"
    and r0: "r0 = (case p_rsm p of Some r \<Rightarrow> r | None \<Rightarrow> new_Reassembly (p_data_isn p))"
    and r: "p_rsm p' = Some (replay (p_data_isn p) (tr_t0 (p_tr p)) evs r0)"
    and c: "m_completed m \<longleftrightarrow> \<not> m_saw_rst m \<and> target \<le> peer_delivered p'"
    and d: "m_bytes_delivered m = (if m_saw_rst m then 0 else peer_delivered p')"
  have evs: "new_events p p' = evs" using e by (simp add: new_events_def)
  show ?thesis
    using replay_delivered [of n evs] assms(2,4,5) r r0 c d evs by (simp add: peer_delivered_def)
qed

text \<open>
  Flushing takes exactly the due prefix off the queue (all of it when forced),
  puts the acknowledgements that could be sent on the wire in queue order, each frame parsing
  back to the acknowledgement segment, and counts each one taken as sent or as failed, and
  each duplicate sent as such.
\<close>

lemma flush_acks_in_order:
  assumes "flush_acks p m now force W = Some (p', m', W')"
  shows "p_pending p = takeWhile (\<lambda>q. force \<or> a_due_ms q \<le> now) (p_pending p) @ p_pending p'
    \<and> (\<exists>sent pkts. subseq sent (takeWhile (\<lambda>q. force \<or> a_due_ms q \<le> now) (p_pending p))
         \<and> u_wire (p_u p') = u_wire (p_u p) @ pkts
         \<and> list_all2 (\<lambda>pkt q. carries pkt (pending_seg p q)) pkts sent
         \<and> m_acks_sent m' = m_acks_sent m + int (length sent)
         \<and> m_dup_acks_sent m' = m_dup_acks_sent m + int (length (filter a_is_dup sent)))
    \<and> m_acks_sent m' + m_ack_send_failures m' = m_acks_sent m + m_ack_send_failures m
         + int (length (p_pending p)) - int (length (p_pending p'))"
proof -
  note l = assms [unfolded flush_acks_def]
  have split: "p_pending p = flush_due now force (p_pending p) @ p_pending p'"
    using flush_loop_spec [OF l] by (simp add: flush_due_def flush_rest_def)
  then have "int (length (p_pending p)) - int (length (p_pending p')) = int (length (flush_due now force (p_pending p)))"
    by (metis add_diff_cancel_right' length_append of_nat_add)
  then show ?thesis using split flush_loop_spec [OF l] flush_loop_wire [OF l] by (simp add: flush_due_def)
qed

text \<open>
  Property C8. A handshake that succeeds has put the SYN on the wire first, has taken its
  numbers from a SYN-ACK that came off the wire, is addressed to the peer and acknowledges
  the SYN, and leaves the trace numbered from the same first data byte as the peer, as
  \<open>receive\<close> needs; the reassembly is as it was.
\<close>

theorem establish_synchronises:
  assumes "establish p W = Some (Inr (), p', W')"
  shows "\<exists>A C B sa syn rest. W = A @ C @ B \<and> sa \<in> set (segs_in C) \<and> for_us (p_cfg p) sa
    \<and> s_flags sa AND (TH_SYN OR TH_ACK) = TH_SYN OR TH_ACK \<and> \<not> has_flag (s_flags sa) TH_RST
    \<and> synchronised p' sa \<and> p_cfg p' = p_cfg p \<and> p_rsm p' = p_rsm p \<and> p_afd p' \<ge> 0
    \<and> u_wire (p_u p') = u_wire (p_u p) @ syn # rest \<and> carries syn (syn_seg (p_cfg p))"
  using assms
proof (cases rule: establish_cases)
  case (1 t0 p1 W1 t W2 sa u W3)
  note s = send_syn_sent [OF 1(1)] and w = await_synack_found [OF 1(3)]
  obtain C where C: "W2 = C @ W3" "sa \<in> set (segs_in C)" using w by blast
  obtain A where A: "W = A @ W1" using send_syn_consumes [OF 1(1)] by blast
  obtain syn where syn: "u_wire (p_u p1) = u_wire (p_u p) @ [syn]" "carries syn (syn_seg (p_cfg p))"
    using s by blast
  obtain rest where rest: "u_wire (p_u p') = u_wire u @ rest"
    using after_synack_ok [OF 1(4)] s by auto
  have "W = (A @ [EvNow t]) @ C @ W3" using A C 1(2) by (simp add: script_simps)
  then show ?thesis using C(2) w s after_synack_ok [OF 1(4)] syn rest
    by (intro exI [of _ "A @ [EvNow t]"] exI [of _ C] exI [of _ W3] exI [of _ sa] exI [of _ syn] exI [of _ rest]) simp
qed

text \<open>
  A burst of \<open>n\<close> probes counts each probe once, as sent or as failed, puts one
  frame that parses back to the probe on the wire for each one sent, collects replies until
  the clock has reached the end of the window, and counts exactly the replies to the peer
  among the frames that arrived in it; it is complete exactly if all \<open>n\<close> were sent.
\<close>

lemma burst_counts_all:
  assumes "burst p flags seq_off ack_off n collect_ms W = Some (r, p', W')" "0 \<le> n"
  shows "b_sent r + b_send_failures r = n \<and> (burst_complete r n \<longleftrightarrow> b_sent r = n)
    \<and> (\<exists>pkts. u_wire (p_u p') = u_wire (p_u p) @ pkts \<and> int (length pkts) = b_sent r
         \<and> list_all (\<lambda>pkt. carries pkt ((our_seg (p_cfg p))\<lparr>s_seq := p_snd p + seq_off,
              s_ack := p_data_isn p + ack_off, s_flags := flags, s_win := c_win (p_cfg p)\<rparr>)) pkts)
    \<and> (\<exists>A t0 C t B. W = A @ EvNow t0 # C @ EvNow t # B \<and> t0 + collect_ms \<le> t
         \<and> b_rsts r = int (length (filter (counted_as (p_cfg p) TH_RST) (segs_in C)))
         \<and> b_acks r = int (length (filter (\<lambda>s. counted_as (p_cfg p) TH_ACK s
              \<and> \<not> counted_as (p_cfg p) TH_RST s) (segs_in C))))"
proof -
  let ?s = "(our_seg (p_cfg p))\<lparr>s_seq := p_snd p + seq_off, s_ack := p_data_isn p + ack_off, s_flags := flags,
    s_win := c_win (p_cfg p)\<rparr>"
  obtain p1 r1 W1 u replies W2 where b: "burst_send (nat n) ?s p \<lparr>b_acks = 0, b_rsts = 0, b_sent = 0,
      b_send_failures = 0\<rparr> W = Some (p1, r1, W1)"
    and d: "drain_for (p_u p1) collect_ms [] W1 = Some (u, replies, W2)"
    and r: "r = count_replies (p_cfg p1) replies r1" and p': "p_u p' = u"
    using assms(1) by (auto simp: burst_def Let_def bind_eq_Some_conv)
  note c = burst_send_counts [OF b]
  obtain t0 C t where C: "W1 = EvNow t0 # C @ EvNow t # W2" "t0 + collect_ms \<le> t" "replies = segs_in C"
      "u_wire u = u_wire (p_u p1)"
    using drain_for_exact [OF d] by auto
  obtain A where "W = A @ W1" using burst_send_consumes [OF b] by blast
  then have "\<exists>A t0 C t B. W = A @ EvNow t0 # C @ EvNow t # B \<and> t0 + collect_ms \<le> t
       \<and> b_rsts r = int (length (filter (counted_as (p_cfg p) TH_RST) (segs_in C)))
       \<and> b_acks r = int (length (filter (\<lambda>s. counted_as (p_cfg p) TH_ACK s
            \<and> \<not> counted_as (p_cfg p) TH_RST s) (segs_in C)))"
    using C c r
    by (intro exI [of _ A] exI [of _ t0] exI [of _ C] exI [of _ t] exI [of _ W2]) (simp add: count_replies_exact)
  moreover have "b_sent r + b_send_failures r = n" using c r assms(2) by (simp add: count_replies_exact)
  ultimately show ?thesis using c r p' C(4) by (auto simp: burst_complete_def count_replies_exact)
qed

subsection \<open>A run\<close>

text \<open>
  A run on a concrete script: two data segments of three and two bytes, the second first. The
  frames are those the encoder of the peer side would write.
\<close>

definition demo_cfg :: PeerConfig where
  "demo_cfg = new_PeerConfig\<lparr>c_isn := 3, c_offer_sack := True\<rparr>"

definition demo_frame :: "u32 \<Rightarrow> u8 \<Rightarrow> bytes \<Rightarrow> bytes" where
  "demo_frame sq flags payload =
     the (build 1504 7 9 (new_Seg\<lparr>s_sport := 9999, s_dport := 40001, s_seq := sq, s_ack := 4, s_flags := flags,
       s_payload := payload\<rparr>) 1)"

definition demo_peer :: Peer where
  "demo_peer = (new_Peer new_Utun (set_origin 0 5001 3 new_Trace) demo_cfg)\<lparr>p_snd := 4, p_data_isn := 5001,
     p_max_seq_end_seen := 5001\<rparr>"

definition demo_script :: script where
  "demo_script = [EvNow 0, EvNow 1, EvNow 1, EvNow 1, EvPoll 1 False, EvRead (Inl (demo_frame 5004 TH_ACK [4, 5])), EvNow 2,
     EvPoll 1 False, EvRead (Inl (demo_frame 5001 TH_ACK [1, 2, 3])), EvNow 3, EvPoll 0 False, EvNow 4, EvNow 4, EvNow 5,
     EvWrite 56 [], EvWrite 44 [], EvNow 6, EvNow 7]"

lemma demo_receive:
  obtains m p' l W where "receive demo_peer 5 100 new_LossPolicy demo_script = Some (m, p', l, W)"
    "m_completed m" "m_acks_sent m = 2" "kept_within 5 (new_events demo_peer p')"
proof -
  have "case receive demo_peer 5 100 new_LossPolicy demo_script of None \<Rightarrow> False
    | Some (m, p', l, W) \<Rightarrow> m_completed m \<and> m_acks_sent m = 2 \<and> kept_within 5 (new_events demo_peer p')"
    by code_simp
  then show thesis using that by (auto split: option.split_asm)
qed

lemma demo_peer_origin: "tr_data_isn (p_tr demo_peer) = p_data_isn demo_peer" "p_rsm demo_peer = None"
    "p_pending demo_peer = []" "tr_t0 (p_tr demo_peer) = 0"
  by (simp_all add: demo_peer_def new_Peer_def set_origin_def)

theorem receive_accounts_for_all_witness:
  "\<exists>m p' l W. receive demo_peer 5 100 new_LossPolicy demo_script = Some (m, p', l, W) \<and> p_pending p' = []
     \<and> int (length (filter kept_event (new_events demo_peer p'))) = 2 + m_ack_send_failures m"
proof (rule demo_receive)
  fix m p' l W
  assume r: "receive demo_peer 5 100 new_LossPolicy demo_script = Some (m, p', l, W)"
    and c: "m_completed m" "m_acks_sent m = 2"
  show ?thesis using receive_accounts_for_all [OF demo_peer_origin(1) r] c r
    by (intro exI [of _ m] exI [of _ p'] exI [of _ l] exI [of _ W]) (auto simp: demo_peer_origin)
qed

theorem receive_completes_exactly_witness:
  "\<exists>m p' l W. receive demo_peer 5 100 new_LossPolicy demo_script = Some (m, p', l, W)
     \<and> {..<5} \<subseteq> seg_cover (kept_segs 0 (new_events demo_peer p')) \<and> m_bytes_delivered m = peer_delivered p'"
proof (rule demo_receive)
  fix m p' l W
  assume r: "receive demo_peer 5 100 new_LossPolicy demo_script = Some (m, p', l, W)"
    and c: "m_completed m" "kept_within 5 (new_events demo_peer p')"
  show ?thesis using receive_completes_exactly [OF demo_peer_origin(1,2) r c(2)] c(1) r
    by (intro exI [of _ m] exI [of _ p'] exI [of _ l] exI [of _ W]) (simp add: demo_peer_origin)
qed

definition demo_queue :: Peer where
  "demo_queue = demo_peer\<lparr>p_pending := [\<lparr>a_due_ms = 3, a_ack = 5001, a_sacks = [], a_is_dup = True\<rparr>,
     \<lparr>a_due_ms = 4, a_ack = 5002, a_sacks = [], a_is_dup = False\<rparr>,
     \<lparr>a_due_ms = 9, a_ack = 5003, a_sacks = [], a_is_dup = False\<rparr>]\<rparr>"

definition demo_handshake :: script where
  "demo_handshake = [EvNow 0, EvWrite 52 [], EvNow 1, EvNow 1, EvNow 1, EvNow 1, EvPoll 1 False,
     EvRead (Inl (demo_frame 5000 (TH_SYN OR TH_ACK) [])), EvNow 2, EvPoll 0 False, EvNow 3, EvNow 4, EvWrite 44 [],
     EvPoll 1 False, EvAccept 5 40001 []]"

definition demo_syn_sent :: Peer where
  "demo_syn_sent = fst (snd (the (send_syn (new_Peer new_Utun new_Trace demo_cfg) demo_handshake)))"

fun isOK :: "(('e + unit) \<times> 'p \<times> 'w) option \<Rightarrow> bool" where
  "isOK (Some (Inr _, _, _)) = True"
| "isOK _ = False"

lemma isOK_some: "isOK x \<Longrightarrow> \<exists>p W. x = Some (Inr (), p, W)"
  by (cases x rule: isOK.cases) auto

definition demo_await :: "(unit + Seg option) \<times> Utun \<times> script" where
  "demo_await = the (await_synack demo_cfg 2001 (p_u demo_syn_sent) (drop 3 demo_handshake))"

definition demo_synack :: Seg where
  "demo_synack = (case fst demo_await of Inr (Some s) \<Rightarrow> s | _ \<Rightarrow> new_Seg)"

definition demo_acked :: Peer where
  "demo_acked = demo_syn_sent\<lparr>p_u := fst (snd demo_await)\<rparr>"

lemma demo_handshake_steps:
  "send_syn (new_Peer new_Utun new_Trace demo_cfg) demo_handshake = Some (Inr 0, demo_syn_sent, drop 2 demo_handshake)"
  "p_cfg demo_syn_sent = demo_cfg" "now_ms (drop 2 demo_handshake) = Some (1, drop 3 demo_handshake)"
  "await_synack demo_cfg 2001 (p_u demo_syn_sent) (drop 3 demo_handshake)
     = Some (Inr (Some demo_synack), fst (snd demo_await), drop 11 demo_handshake)"
  "isOK (after_synack demo_acked 0 demo_synack (drop 11 demo_handshake))"
  by code_simp+

theorem establish_synchronises_witness:
  "\<exists>p' W' sa. establish (new_Peer new_Utun new_Trace demo_cfg) demo_handshake = Some (Inr (), p', W')
     \<and> synchronised p' sa"
proof -
  obtain p' W' where "after_synack demo_acked 0 demo_synack (drop 11 demo_handshake) = Some (Inr (), p', W')"
    using isOK_some [OF demo_handshake_steps(5)] by blast
  then have e: "establish (new_Peer new_Utun new_Trace demo_cfg) demo_handshake = Some (Inr (), p', W')"
    using demo_handshake_steps(1-4) by (simp add: establish_def demo_acked_def [symmetric])
  then show ?thesis using establish_synchronises [OF e] by blast
qed

end
