(* ===== verification/Sysctl.thy ===== *)
theory Sysctl
  imports Prelude "HOL-Library.AList"
begin

text \<open>
  Reading and temporarily changing kernel knobs: \<^verbatim>\<open>include/tp/sysctl.hpp\<close> and
  \<^verbatim>\<open>src/sysctl.cpp\<close>. The kernel's table of integer knobs is a map; which values it accepts
  for a knob is the parameter \<open>accepts\<close> (\<^verbatim>\<open>sysctlbyname\<close> either stores the value or
  fails). The process keeps the map of pending restores and the guards that are alive, a
  stack. Proved over all sequences of guard construction and destruction: unwinding the
  guards gives back the knobs the program started with, and a restore at any moment (exit
  or signal) gives them back at once.
\<close>

record Pending =
  p_original :: int
  p_depth :: int

record process =
  kern :: "string \<rightharpoonup> int"
  pending :: "(string \<times> Pending) list"
  handlers_armed :: bool

record ScopedSysctl =
  g_name :: string
  g_original :: int
  g_ok :: bool

definition sysctl_get :: "process \<Rightarrow> string \<Rightarrow> int \<Rightarrow> int" where
  "sysctl_get s name fallback = (case kern s name of None \<Rightarrow> fallback | Some v \<Rightarrow> v)"

definition sysctl_set :: "(string \<Rightarrow> int \<Rightarrow> bool) \<Rightarrow> process \<Rightarrow> string \<Rightarrow> int \<Rightarrow> bool \<times> process" where
  "sysctl_set accepts s name v =
     (if kern s name \<noteq> None \<and> accepts name v then (True, s\<lparr>kern := (kern s)(name \<mapsto> v)\<rparr>)
      else (False, s))"

fun restore_loop :: "(string \<Rightarrow> int \<Rightarrow> bool) \<Rightarrow> process \<Rightarrow> (string \<times> Pending) list \<Rightarrow> process" where
  "restore_loop accepts s [] = s"
| "restore_loop accepts s ((name, p) # ps) =
     restore_loop accepts (snd (sysctl_set accepts s name (p_original p))) ps"

definition restore_all :: "(string \<Rightarrow> int \<Rightarrow> bool) \<Rightarrow> process \<Rightarrow> process" where
  "restore_all accepts s = (restore_loop accepts s (pending s))\<lparr>pending := []\<rparr>"

definition arm_handlers :: "process \<Rightarrow> process" where
  "arm_handlers s = (if handlers_armed s then s else s\<lparr>handlers_armed := True\<rparr>)"

definition new_ScopedSysctl ::
  "(string \<Rightarrow> int \<Rightarrow> bool) \<Rightarrow> process \<Rightarrow> string \<Rightarrow> int \<Rightarrow> ScopedSysctl \<times> process" where
  "new_ScopedSysctl accepts s name v =
     (let original = sysctl_get s name (-1);
          g = \<lparr>g_name = name, g_original = original, g_ok = False\<rparr> in
      if original < 0 then (g, s)
      else
        (let (set_ok, s) = sysctl_set accepts s name v in
         if \<not> set_ok then (g, s)
         else
           (let g = g\<lparr>g_ok := True\<rparr>;
                p = (case map_of (pending s) name of Some p \<Rightarrow> p | None \<Rightarrow> \<lparr>p_original = 0, p_depth = 0\<rparr>);
                p = (if p_depth p = 0 then p\<lparr>p_original := original\<rparr> else p);
                p = p\<lparr>p_depth := p_depth p + 1\<rparr>;
                s = s\<lparr>pending := AList.update name p (pending s)\<rparr>
            in (g, arm_handlers s))))"

definition delete_ScopedSysctl :: "(string \<Rightarrow> int \<Rightarrow> bool) \<Rightarrow> process \<Rightarrow> ScopedSysctl \<Rightarrow> process" where
  "delete_ScopedSysctl accepts s g =
     (if \<not> g_ok g then s
      else
        (let s = snd (sysctl_set accepts s (g_name g) (g_original g)) in
         case map_of (pending s) (g_name g) of
           None \<Rightarrow> s
         | Some p \<Rightarrow>
             (let p = p\<lparr>p_depth := p_depth p - 1\<rparr> in
              if p_depth p \<le> 0 then s\<lparr>pending := AList.delete (g_name g) (pending s)\<rparr>
              else s\<lparr>pending := AList.update (g_name g) p (pending s)\<rparr>)))"

text \<open>
  What the end of the process does: \<open>exit\<close> runs the handler registered with
  \<^verbatim>\<open>atexit\<close>, and one of the three handled signals runs \<^verbatim>\<open>on_signal\<close>. Both are
  installed only by \<^verbatim>\<open>arm_handlers\<close>, and both start with \<^verbatim>\<open>restore_all\<close>; a
  process with no handler installed leaves the kernel as it is.
\<close>

definition on_end :: "(string \<Rightarrow> int \<Rightarrow> bool) \<Rightarrow> process \<Rightarrow> process" where
  "on_end accepts s = (if handlers_armed s then restore_all accepts s else s)"

text \<open>
  The snapshot of knobs printed at the top of a run. \<open>version\<close> is what
  \<^verbatim>\<open>sysctlbyname("kern.version")\<close> leaves in the 256-byte buffer, \<open>None\<close> when the call fails.
\<close>

record TcpKnobs =
  k_rtt_min :: int
  k_rexmt_slop :: int
  k_enable_tlp :: int
  k_delayed_ack :: int
  k_mssdflt :: int
  k_sack :: int
  k_rexmtthresh :: int
  k_recvspace :: int
  k_sendspace :: int
  k_challengeack_limit :: int
  k_kernel_version :: string

fun strstr :: "string \<Rightarrow> string \<Rightarrow> string option" where
  "strstr [] pat = (if pat = [] then Some [] else None)"
| "strstr (c # cs) pat = (if take (length pat) (c # cs) = pat then Some (c # cs) else strstr cs pat)"

definition kernel_line :: "string \<Rightarrow> string" where
  "kernel_line buf =
     (let v = (case strstr buf ''root:xnu'' of Some p \<Rightarrow> p | None \<Rightarrow> buf) in
      takeWhile (\<lambda>c. c \<noteq> CHR 0x0A) v)"

definition read_knobs :: "process \<Rightarrow> string option \<Rightarrow> TcpKnobs" where
  "read_knobs s version =
     \<lparr>k_rtt_min = sysctl_get s ''net.inet.tcp.rtt_min'' (-1),
      k_rexmt_slop = sysctl_get s ''net.inet.tcp.rexmt_slop'' (-1),
      k_enable_tlp = sysctl_get s ''net.inet.tcp.enable_tlp'' (-1),
      k_delayed_ack = sysctl_get s ''net.inet.tcp.delayed_ack'' (-1),
      k_mssdflt = sysctl_get s ''net.inet.tcp.mssdflt'' (-1),
      k_sack = sysctl_get s ''net.inet.tcp.sack'' (-1),
      k_rexmtthresh = sysctl_get s ''net.inet.tcp.rexmt_thresh'' (-1),
      k_recvspace = sysctl_get s ''net.inet.tcp.recvspace'' (-1),
      k_sendspace = sysctl_get s ''net.inet.tcp.sendspace'' (-1),
      k_challengeack_limit = sysctl_get s ''net.inet.tcp.challengeack_limit'' (-1),
      k_kernel_version = (case version of None \<Rightarrow> [] | Some buf \<Rightarrow> kernel_line buf)\<rparr>"

subsection \<open>Guard stacks\<close>

text \<open>
  A program that uses guards: it constructs guards and destroys the youngest one first, as
  C++ scopes do. \<open>guards_run\<close> is every state such a program can be in, with the stack of
  live guards.
\<close>

inductive guards_run ::
  "(string \<Rightarrow> int \<Rightarrow> bool) \<Rightarrow> process \<Rightarrow> ScopedSysctl list \<Rightarrow> process \<Rightarrow> bool"
  for accepts :: "string \<Rightarrow> int \<Rightarrow> bool" and s0 :: process where
  start: "guards_run accepts s0 [] s0"
| ctor: "guards_run accepts s0 gs s \<Longrightarrow> new_ScopedSysctl accepts s name v = (g, s')
    \<Longrightarrow> guards_run accepts s0 (g # gs) s'"
| dtor: "guards_run accepts s0 (g # gs) s \<Longrightarrow> guards_run accepts s0 gs (delete_ScopedSysctl accepts s g)"

inductive_cases guards_run_ConsE: "guards_run accepts s0 (g # gs) s"

text \<open>What remains of the kernel table once the live guards are unwound.\<close>

fun unwound :: "ScopedSysctl list \<Rightarrow> (string \<rightharpoonup> int) \<Rightarrow> (string \<rightharpoonup> int)" where
  "unwound [] k = k"
| "unwound (g # gs) k = unwound gs (if g_ok g then k(g_name g \<mapsto> g_original g) else k)"

definition live :: "string \<Rightarrow> ScopedSysctl list \<Rightarrow> nat" where
  "live name gs = length (filter (\<lambda>g. g_ok g \<and> g_name g = name) gs)"

definition guards_inv ::
  "(string \<Rightarrow> int \<Rightarrow> bool) \<Rightarrow> process \<Rightarrow> ScopedSysctl list \<Rightarrow> process \<Rightarrow> bool" where
  "guards_inv accepts s0 gs s \<longleftrightarrow>
     unwound gs (kern s) = kern s0 \<and> dom (kern s) = dom (kern s0) \<and>
     (\<forall>g\<in>set gs. g_ok g \<longrightarrow> kern s0 (g_name g) \<noteq> None \<and> accepts (g_name g) (g_original g)) \<and>
     (\<forall>name. map_of (pending s) name =
        (if live name gs = 0 then None
         else Some \<lparr>p_original = the (kern s0 name), p_depth = int (live name gs)\<rparr>)) \<and>
     (\<forall>name. live name gs = 0 \<longrightarrow> kern s name = kern s0 name) \<and>
     (\<forall>name v. kern s name = Some v \<longrightarrow> accepts name v)"

definition writable :: "(string \<Rightarrow> int \<Rightarrow> bool) \<Rightarrow> process \<Rightarrow> bool" where
  "writable accepts s \<longleftrightarrow> (\<forall>name v. kern s name = Some v \<longrightarrow> accepts name v)"

lemma live_simps [simp]:
  "live name [] = 0"
  "live name (g # gs) = (if g_ok g \<and> g_name g = name then Suc (live name gs) else live name gs)"
  by (simp_all add: live_def)

lemma guards_inv_start:
  "writable accepts s0 \<Longrightarrow> pending s0 = [] \<Longrightarrow> guards_inv accepts s0 [] s0"
  by (simp add: guards_inv_def writable_def)

lemma guards_inv_ctor:
  assumes inv: "guards_inv accepts s0 gs s" and new: "new_ScopedSysctl accepts s name v = (g, s')"
  shows "guards_inv accepts s0 (g # gs) s'"
proof (cases "kern s name")
  case None
  then have "s' = s" "\<not> g_ok g"
    using new by (auto simp: new_ScopedSysctl_def sysctl_get_def Let_def)
  then show ?thesis using inv by (simp add: guards_inv_def)
next
  case (Some old)
  show ?thesis
  proof (cases "0 \<le> old \<and> accepts name v")
    case False
    then have "s' = s" "\<not> g_ok g"
      using new Some by (auto simp: new_ScopedSysctl_def sysctl_get_def sysctl_set_def Let_def split: if_splits)
    then show ?thesis using inv by (simp add: guards_inv_def)
  next
    case True
    have pend: "map_of (pending s) name = (if live name gs = 0 then None
         else Some \<lparr>p_original = the (kern s0 name), p_depth = int (live name gs)\<rparr>)"
      using inv by (simp add: guards_inv_def)
    define p where "p = \<lparr>p_original = (if live name gs = 0 then old else the (kern s0 name)),
      p_depth = int (live name gs) + 1\<rparr>"
    have g: "g = \<lparr>g_name = name, g_original = old, g_ok = True\<rparr>"
      and k: "kern s' = (kern s)(name \<mapsto> v)" and ps: "pending s' = AList.update name p (pending s)"
      using new Some True pend
      by (auto simp: new_ScopedSysctl_def sysctl_get_def sysctl_set_def arm_handlers_def p_def
          Let_def split: if_splits)
    have "unwound gs (kern s) = kern s0" "kern s0 name \<noteq> None" "accepts name old"
      using inv Some by (auto simp: guards_inv_def dom_def)
    moreover have "live name gs = 0 \<Longrightarrow> old = the (kern s0 name)"
      using inv Some by (simp add: guards_inv_def)
    moreover have "(kern s)(name \<mapsto> old) = kern s" using Some by auto
    ultimately show ?thesis
      using inv True Some unfolding guards_inv_def g k ps
      by (auto simp: update_conv' p_def fun_upd_twist dom_def)
  qed
qed

lemma guards_inv_dtor:
  assumes inv: "guards_inv accepts s0 (g # gs) s"
  shows "guards_inv accepts s0 gs (delete_ScopedSysctl accepts s g)"
proof (cases "g_ok g")
  case False
  then show ?thesis using inv by (simp add: guards_inv_def delete_ScopedSysctl_def)
next
  case True
  let ?s' = "delete_ScopedSysctl accepts s g" and ?n = "g_name g"
  have acc: "kern s0 ?n \<noteq> None" "accepts ?n (g_original g)" "dom (kern s) = dom (kern s0)"
    and un: "unwound gs ((kern s)(?n \<mapsto> g_original g)) = kern s0"
    and pend: "map_of (pending s) ?n
      = Some \<lparr>p_original = the (kern s0 ?n), p_depth = int (live ?n gs) + 1\<rparr>"
    using inv True by (auto simp: guards_inv_def)
  then have set: "sysctl_set accepts s ?n (g_original g) = (True, s\<lparr>kern := (kern s)(?n \<mapsto> g_original g)\<rparr>)"
    by (auto simp: sysctl_set_def)
  have k: "kern ?s' = (kern s)(?n \<mapsto> g_original g)"
    using True set pend by (simp add: delete_ScopedSysctl_def Let_def)
  have ps: "pending ?s' = (if live ?n gs = 0 then AList.delete ?n (pending s)
    else AList.update ?n \<lparr>p_original = the (kern s0 ?n), p_depth = int (live ?n gs)\<rparr> (pending s))"
    using True set pend by (simp add: delete_ScopedSysctl_def Let_def)
  have base: "live ?n gs = 0 \<Longrightarrow> kern s0 ?n = Some (g_original g)"
  proof -
    assume "live ?n gs = 0"
    then have "\<And>k. unwound gs k ?n = k ?n"
      by (induction gs) (auto split: if_splits)
    with un show ?thesis by (metis fun_upd_same)
  qed
  have "dom (kern ?s') = dom (kern s0)" using acc k by auto
  moreover have "map_of (pending ?s') name = (if live name gs = 0 then None
       else Some \<lparr>p_original = the (kern s0 name), p_depth = int (live name gs)\<rparr>)" for name
    using inv True unfolding ps guards_inv_def by (auto simp: update_conv' delete_conv')
  moreover have "live name gs = 0 \<longrightarrow> kern ?s' name = kern s0 name" for name
    using inv base unfolding k guards_inv_def by auto
  moreover have "kern ?s' name = Some v \<longrightarrow> accepts name v" for name v
    using inv acc unfolding k guards_inv_def by auto
  ultimately show ?thesis
    using un inv unfolding guards_inv_def k by simp
qed

lemma guards_run_inv:
  assumes "guards_run accepts s0 gs s" "writable accepts s0" "pending s0 = []"
  shows "guards_inv accepts s0 gs s"
  using assms
  by (induction rule: guards_run.induct) (auto intro: guards_inv_start guards_inv_ctor guards_inv_dtor)

lemma guards_run_distinct:
  assumes "guards_run accepts s0 gs s" "distinct (map fst (pending s0))"
  shows "distinct (map fst (pending s))"
  using assms
proof (induction rule: guards_run.induct)
  case (ctor gs s name v g s')
  then show ?case
    by (auto simp: new_ScopedSysctl_def sysctl_set_def arm_handlers_def Let_def distinct_update
        split: if_splits option.splits)
next
  case (dtor g gs s)
  then show ?case
    by (auto simp: delete_ScopedSysctl_def sysctl_set_def Let_def distinct_update distinct_delete
        split: option.splits)
qed simp

lemma guards_inv_pending:
  assumes "guards_inv accepts s0 gs s"
  shows "map_of (pending s) name = (if live name gs = 0 then None
    else Some \<lparr>p_original = the (kern s0 name), p_depth = int (live name gs)\<rparr>)"
  using assms by (simp add: guards_inv_def)

lemma live_known:
  assumes "guards_inv accepts s0 gs s" "live name gs \<noteq> 0"
  shows "kern s0 name \<noteq> None"
proof -
  obtain g where "g \<in> set gs" "g_ok g" "g_name g = name"
    using assms(2) by (auto simp: live_def filter_empty_conv)
  with assms(1) show ?thesis by (auto simp: guards_inv_def)
qed

lemma restore_loop_kern:
  assumes "\<And>name p. (name, p) \<in> set ps \<Longrightarrow> kern s name \<noteq> None \<and> accepts name (p_original p)"
    and "distinct (map fst ps)"
  shows "kern (restore_loop accepts s ps) name
    = (case map_of ps name of Some p \<Rightarrow> Some (p_original p) | None \<Rightarrow> kern s name)"
  using assms
proof (induction ps arbitrary: s)
  case (Cons a ps)
  obtain n p where a: "a = (n, p)" by force
  have set: "sysctl_set accepts s n (p_original p) = (True, s\<lparr>kern := (kern s)(n \<mapsto> p_original p)\<rparr>)"
    using Cons.prems(1)[of n p] by (simp add: a sysctl_set_def)
  have "kern (restore_loop accepts (s\<lparr>kern := (kern s)(n \<mapsto> p_original p)\<rparr>) ps) name
    = (case map_of ps name of Some p \<Rightarrow> Some (p_original p)
       | None \<Rightarrow> ((kern s)(n \<mapsto> p_original p)) name)"
    using Cons.prems by (subst Cons.IH) (auto simp: a split: option.splits)
  moreover have "map_of ps n = None" using Cons.prems(2) by (simp add: a map_of_eq_None_iff)
  ultimately show ?case using set by (auto simp: a split: option.split)
qed simp

lemma guards_restore:
  assumes run: "guards_run accepts s0 gs s" and w: "writable accepts s0" and p0: "pending s0 = []"
  shows "kern (restore_all accepts s) = kern s0"
proof
  fix name
  have inv: "guards_inv accepts s0 gs s" using guards_run_inv[OF run w p0] .
  have dist: "distinct (map fst (pending s))" using guards_run_distinct[OF run] p0 by simp
  have known: "kern s n \<noteq> None \<and> accepts n (p_original p)" if "(n, p) \<in> set (pending s)" for n p
  proof -
    from that dist have "map_of (pending s) n = Some p" by simp
    with guards_inv_pending[OF inv, of n] have l: "live n gs \<noteq> 0"
      and p: "p_original p = the (kern s0 n)" by (auto split: if_splits)
    from live_known[OF inv l] w p have "accepts n (p_original p)" by (auto simp: writable_def)
    moreover have "dom (kern s) = dom (kern s0)" using inv by (simp add: guards_inv_def)
    ultimately show ?thesis using live_known[OF inv l] by (auto simp: dom_def)
  qed
  have "kern (restore_all accepts s) name
    = (case map_of (pending s) name of Some p \<Rightarrow> Some (p_original p) | None \<Rightarrow> kern s name)"
    using restore_loop_kern[of "pending s" s accepts name] known dist by (simp add: restore_all_def)
  also have "\<dots> = kern s0 name"
    using guards_inv_pending[OF inv, of name] live_known[OF inv, of name] inv
    by (auto simp: guards_inv_def)
  finally show "kern (restore_all accepts s) name = kern s0 name" .
qed

lemma guards_unwind:
  assumes run: "guards_run accepts s0 [] s" and w: "writable accepts s0" and p0: "pending s0 = []"
  shows "kern s = kern s0 \<and> pending s = []"
proof -
  have inv: "guards_inv accepts s0 [] s" using guards_run_inv[OF run w p0] .
  then have "map_of (pending s) = Map.empty"
    using guards_inv_pending[OF inv] by (intro ext) simp
  then have "pending s = []" by (simp only: map_of_eq_empty_iff)
  then show ?thesis using inv by (simp add: guards_inv_def)
qed

lemma guards_run_armed:
  assumes "guards_run accepts s0 gs s" "pending s0 = []" "writable accepts s0" "pending s \<noteq> []"
  shows "handlers_armed s"
  using assms
proof (induction rule: guards_run.induct)
  case (ctor gs s name v g s')
  then show ?case
    by (auto simp: new_ScopedSysctl_def sysctl_set_def arm_handlers_def Let_def
        split: if_splits option.splits)
next
  case (dtor g gs s)
  then have "pending s \<noteq> []"
    by (auto simp: delete_ScopedSysctl_def sysctl_set_def Let_def split: option.splits if_splits)
  with dtor show ?case
    by (auto simp: delete_ScopedSysctl_def sysctl_set_def Let_def split: option.splits)
qed simp

lemma strstr_SomeD: "strstr s pat = Some r \<Longrightarrow> \<exists>pre. s = pre @ r \<and> take (length pat) r = pat"
proof (induction s pat rule: strstr.induct)
  case (2 c cs pat)
  then show ?case by (auto split: if_splits intro: exI[of _ "[]"] exI[of _ "c # _"])
qed (simp split: if_splits)

lemma read_knobs_cong: "kern s = kern s' \<Longrightarrow> read_knobs s v = read_knobs s' v"
  by (simp add: read_knobs_def sysctl_get_def)

subsection \<open>Properties\<close>

text \<open>
  Property C14. Once every guard has been destroyed, in the reverse order of construction, the
  kernel has the knobs the program started with and no restore is pending, whatever guards
  were made on the way: nested on one knob, on knobs that do not exist, with values the
  kernel refused.
\<close>

theorem guards_unwound_restores:
  assumes "guards_run accepts s0 [] s" "writable accepts s0" "pending s0 = []"
  shows "kern s = kern s0 \<and> pending s = []"
  using assms by (rule guards_unwind)

definition demo_kernel :: process where
  "demo_kernel = \<lparr>kern = [''sack'' \<mapsto> 1, ''rexmt_thresh'' \<mapsto> 3], pending = [], handlers_armed = False\<rparr>"

definition demo_accepts :: "string \<Rightarrow> int \<Rightarrow> bool" where
  "demo_accepts name v = (name = ''sack'' \<and> v \<in> {0, 1} \<or> name = ''rexmt_thresh'' \<and> v \<in> {2, 3})"

definition demo_guards :: "(ScopedSysctl \<times> process) list" where
  "demo_guards =
     (let a = new_ScopedSysctl demo_accepts demo_kernel ''rexmt_thresh'' 2;
          b = new_ScopedSysctl demo_accepts (snd a) ''rexmt_thresh'' 3;
          c = new_ScopedSysctl demo_accepts (snd b) ''sack'' 7
      in [c, b, a])"

lemma demo_guards_run:
  "guards_run demo_accepts demo_kernel (map fst demo_guards) (snd (hd demo_guards))"
  unfolding demo_guards_def Let_def list.map list.sel
  by (rule guards_run.ctor[OF guards_run.ctor[OF guards_run.ctor[OF guards_run.start
          surjective_pairing] surjective_pairing] surjective_pairing])

lemma demo_hyps: "writable demo_accepts demo_kernel" "pending demo_kernel = []"
  by (auto simp: writable_def demo_kernel_def demo_accepts_def split: if_splits)

theorem guards_unwound_restores_witness:
  "kern (delete_ScopedSysctl demo_accepts (delete_ScopedSysctl demo_accepts
     (delete_ScopedSysctl demo_accepts (snd (hd demo_guards)) (fst (demo_guards ! 0)))
       (fst (demo_guards ! 1))) (fst (demo_guards ! 2))) = kern demo_kernel
   \<and> kern (snd (hd demo_guards)) \<noteq> kern (snd (demo_guards ! 2))"
proof -
  let ?d = "delete_ScopedSysctl demo_accepts"
  have "guards_run demo_accepts demo_kernel []
    (?d (?d (?d (snd (hd demo_guards)) (fst (demo_guards ! 0))) (fst (demo_guards ! 1))) (fst (demo_guards ! 2)))"
    using demo_guards_run by (intro guards_run.dtor) (simp add: demo_guards_def Let_def)
  from guards_unwound_restores[OF this demo_hyps] show ?thesis
    by (simp add: demo_guards_def demo_kernel_def demo_accepts_def new_ScopedSysctl_def
        sysctl_get_def sysctl_set_def arm_handlers_def fun_eq_iff)
qed

text \<open>
  At any moment of such a program, with any guards alive, an exit or a handled
  signal gives the kernel back the knobs the program started with.
\<close>

lemma end_restores:
  assumes "guards_run accepts s0 gs s" "writable accepts s0" "pending s0 = []"
  shows "kern (on_end accepts s) = kern s0"
proof (cases "handlers_armed s")
  case True
  then show ?thesis using guards_restore[OF assms] by (simp add: on_end_def)
next
  case False
  then have "pending s = []" using guards_run_armed assms by blast
  then show ?thesis
    using guards_restore[OF assms] False by (simp add: on_end_def restore_all_def)
qed

end
