(* ===== verification/Clock.thy ===== *)
theory Clock
  imports Prelude Complex_Main
begin

text \<open>
  The clock, \<^verbatim>\<open>include/tp/clock.hpp\<close> and \<^verbatim>\<open>src/clock.cpp\<close>: the reading in milliseconds, from the ticks and the
  time base of the machine, and a sleep that goes on after a signal. Where the other theories read
  the clock, the readings are part of their script. Proved: readings grow with the ticks, the request for a sleep is one that
  \<^verbatim>\<open>nanosleep\<close> accepts, and a sleep that is interrupted any number of times lasts as long as asked.
\<close>

definition clock_ms :: "u32 \<Rightarrow> u32 \<Rightarrow> u64 \<Rightarrow> real" where
  "clock_ms numer denom ticks = real (unat ticks) * (real (unat numer) / real (unat denom)) / 1000000"

record timespec =
  tv_sec :: int
  tv_nsec :: int

text \<open>What a call of \<^verbatim>\<open>nanosleep\<close> comes to: it slept, it was interrupted with the given time left, or it failed otherwise.\<close>

datatype nap = NapDone | NapIntr timespec | NapFail

definition sleep_request :: "real \<Rightarrow> timespec" where
  "sleep_request ms =
     (let s = \<lfloor>ms / 1000\<rfloor> in \<lparr>tv_sec = s, tv_nsec = \<lfloor>(ms - real_of_int s * 1000) * 1000000\<rfloor>\<rparr>)"

text \<open>The loop gives the requests it made and the results it did not use.\<close>

fun nap_loop :: "timespec \<Rightarrow> nap list \<Rightarrow> (timespec list \<times> nap list) option" where
  "nap_loop req [] = None"
| "nap_loop req (NapIntr rem # W) = map_option (\<lambda>(rs, W). (req # rs, W)) (nap_loop rem W)"
| "nap_loop req (NapDone # W) = Some ([req], W)"
| "nap_loop req (NapFail # W) = Some ([req], W)"

definition sleep_ms :: "real \<Rightarrow> nap list \<Rightarrow> (timespec list \<times> nap list) option" where
  "sleep_ms ms W = (if ms \<le> 0 then Some ([], W) else nap_loop (sleep_request ms) W)"

subsection \<open>Readings\<close>

lemma clock_ms_mono: "0 < numer \<Longrightarrow> 0 < denom \<Longrightarrow> t < t' \<Longrightarrow> clock_ms numer denom t < clock_ms numer denom t'"
proof -
  assume a: "0 < numer" "0 < denom" "t < t'"
  have "0 < real (unat numer)" "0 < real (unat denom)" "real (unat t) < real (unat t')"
    using a by (simp_all only: word_less_nat_alt of_nat_less_iff of_nat_0_less_iff unsigned_0)
  then have "real (unat t) * (real (unat numer) / real (unat denom)) < real (unat t') * (real (unat numer) / real (unat denom))"
    by (intro mult_strict_right_mono divide_pos_pos)
  then show ?thesis unfolding clock_ms_def by (rule divide_strict_right_mono) simp
qed

subsection \<open>Sleeping\<close>

definition ts_ns :: "timespec \<Rightarrow> int" where "ts_ns r = tv_sec r * 1000000000 + tv_nsec r"

lemma sleep_request_valid:
  assumes "0 < ms"
  shows "0 \<le> tv_sec (sleep_request ms)" "0 \<le> tv_nsec (sleep_request ms)" "tv_nsec (sleep_request ms) < 1000000000"
    "ts_ns (sleep_request ms) = \<lfloor>ms * 1000000\<rfloor>"
proof -
  let ?s = "\<lfloor>ms / 1000\<rfloor>" and ?x = "(ms - real_of_int \<lfloor>ms / 1000\<rfloor> * 1000) * 1000000"
  have s: "real_of_int ?s * 1000 \<le> ms" "ms < real_of_int ?s * 1000 + 1000" by linarith+
  show "0 \<le> tv_sec (sleep_request ms)" using assms by (simp add: sleep_request_def Let_def)
  show "0 \<le> tv_nsec (sleep_request ms)" using s by (simp add: sleep_request_def Let_def)
  have "?x < 1000000000" using s(2) by (simp add: left_diff_distrib)
  then show "tv_nsec (sleep_request ms) < 1000000000" by (simp add: sleep_request_def Let_def floor_less_iff)
  have "ms * 1000000 = ?x + real_of_int (?s * 1000000000)" by (simp add: algebra_simps)
  then have "\<lfloor>ms * 1000000\<rfloor> = \<lfloor>?x\<rfloor> + ?s * 1000000000" by (metis floor_add_int)
  then show "ts_ns (sleep_request ms) = \<lfloor>ms * 1000000\<rfloor>" by (simp add: ts_ns_def sleep_request_def Let_def)
qed

text \<open>
  The documented behaviour of \<^verbatim>\<open>nanosleep\<close>, with the time each call really slept: an interrupted call reports
  what is left, a completed one has slept at least what was asked.
\<close>

fun naps_ok :: "timespec \<Rightarrow> nap list \<Rightarrow> int list \<Rightarrow> bool" where
  "naps_ok req (NapIntr rem # W) (t # ts) \<longleftrightarrow> ts_ns rem = ts_ns req - t \<and> naps_ok rem W ts"
| "naps_ok req (NapDone # W) (t # ts) \<longleftrightarrow> ts_ns req \<le> t \<and> ts = []"
| "naps_ok req _ _ \<longleftrightarrow> False"

lemma naps_whole:
  "naps_ok req W ts \<Longrightarrow> \<exists>rs W'. nap_loop req W = Some (rs, W') \<and> length rs = length ts \<and> ts_ns req \<le> sum_list ts"
  by (induction req W ts rule: naps_ok.induct) fastforce+

lemma sleep_lasts:
  assumes "0 < ms" "naps_ok (sleep_request ms) W ts"
  shows "\<exists>rs W'. sleep_ms ms W = Some (rs, W') \<and> \<lfloor>ms * 1000000\<rfloor> \<le> sum_list ts"
  using naps_whole [OF assms(2)] assms(1) sleep_request_valid(4) [OF assms(1)] by (auto simp: sleep_ms_def)

end
