(* ===== verification/Harness.thy ===== *)
theory Harness
  imports PeerRun Sysctl Clock
begin

text \<open>
  The set-up shared by the experiments, \<^verbatim>\<open>experiments/harness.hpp\<close>: bringing up the device and the listener,
  running one loss scenario end to end, and the counters that say whether the harness disturbed its own measurement.
  The results of the system calls of the set-up are a record; the write that hands the kernel its data takes its
  result from the script, as the device does. What is only printed, the sleep after a scenario and
  the contents of the buffer, which nothing reads back, are not represented.
\<close>

definition kLocal :: in_addr where "kLocal = 0x0A5A0001"
definition kPeer :: in_addr where "kPeer = 0x0A5A0002"
definition kPort :: u16 where "kPort = 9999"

subsection \<open>Set-up\<close>

record Lab =
  lab_utun :: Utun
  lab_listen_fd :: int
  lab_knobs :: TcpKnobs

record lab_calls =
  lc_euid :: int
  lc_version :: "string option"
  lc_units :: "nat \<Rightarrow> attempt"
  lc_socket :: int
  lc_bind :: int
  lc_listen :: int

text \<open>The knobs of a new laboratory are indeterminate; \<open>k\<close> stands for them.\<close>

definition new_Lab :: "TcpKnobs \<Rightarrow> Lab" where
  "new_Lab k = \<lparr>lab_utun = new_Utun, lab_listen_fd = -1, lab_knobs = k\<rparr>"

definition lab_start :: "lab_calls \<Rightarrow> process \<Rightarrow> Lab \<Rightarrow> (string + unit) \<times> Lab" where
  "lab_start c s lab =
     (if lc_euid c \<noteq> 0 then (Inl ''needs root: creating a utun goes through PF_SYSTEM/SYSPROTO_CONTROL'', lab)
      else
        (let lab = lab\<lparr>lab_knobs := read_knobs s (lc_version c)\<rparr>;
             (r, u) = utun_open kLocal kPeer (lc_units c) (lab_utun lab);
             lab = lab\<lparr>lab_utun := u\<rparr>
         in case r of
              Inl e \<Rightarrow> (Inl e, lab)
            | Inr _ \<Rightarrow>
                (let lab = lab\<lparr>lab_listen_fd := lc_socket c\<rparr>
                 in if lab_listen_fd lab < 0 then (Inl ''socket(listen)'', lab)
                    else if lc_bind c < 0 then (Inl ''bind(10.90.0.1:9999) -- did ifconfig assign the address?'', lab)
                    else if lc_listen c < 0 then (Inl ''listen()'', lab)
                    else (Inr (), lab))))"

subsection \<open>One scenario\<close>

record Outcome =
  oc_ok :: bool
  oc_err :: string
  oc_sum :: RunSummary
  oc_trace :: Trace
  oc_handshake_rtt_ms :: real
  oc_sack_negotiated :: bool
  oc_peer_mss :: u16
  oc_bytes_written :: u32

definition new_Outcome :: Outcome where
  "new_Outcome = \<lparr>oc_ok = False, oc_err = [], oc_sum = new_RunSummary, oc_trace = new_Trace, oc_handshake_rtt_ms = -1,
     oc_sack_negotiated = False, oc_peer_mss = 0, oc_bytes_written = 0\<rparr>"

text \<open>The end of a scenario whose connection stands: a reset, with the device and the trace as they are then.\<close>

definition scenario_end ::
  "Lab \<Rightarrow> Peer \<Rightarrow> Outcome \<Rightarrow> LossPolicy \<Rightarrow> script \<Rightarrow> (Outcome \<times> Lab \<times> LossPolicy \<times> script) option" where
  "scenario_end lab p oc loss W =
     do { (p, W) \<leftarrow> peer_reset p W; Some (oc\<lparr>oc_trace := p_tr p\<rparr>, lab\<lparr>lab_utun := p_u p\<rparr>, loss, W) }"

definition too_much :: "Lab \<Rightarrow> u32 \<Rightarrow> bool" where
  "too_much lab n \<longleftrightarrow> k_sendspace (lab_knobs lab) > 0 \<and> n > word_of_int (k_sendspace (lab_knobs lab))"

definition run_connected ::
  "Lab \<Rightarrow> Peer \<Rightarrow> Outcome \<Rightarrow> u32 \<Rightarrow> real \<Rightarrow> LossPolicy \<Rightarrow> script \<Rightarrow> (Outcome \<times> Lab \<times> LossPolicy \<times> script) option" where
  "run_connected lab p oc n timeout_ms loss W =
     (if too_much lab n then
        scenario_end lab p (oc\<lparr>oc_err := ''requested '' @ dec_nat (unat n) @ '' bytes but net.inet.tcp.sendspace is ''
          @ dec_int (k_sendspace (lab_knobs lab)) @ ''; the write would block before the peer ever reads''\<rparr>) loss W
      else
        do {
          ((w, e), W) \<leftarrow> sys_write W;
          if w < 0 then scenario_end lab p (oc\<lparr>oc_err := ''write() on the accepted socket: '' @ e\<rparr>) loss W
          else
            (let oc = oc\<lparr>oc_bytes_written := word_of_int w\<rparr> in
             if oc_bytes_written oc \<noteq> n then
               scenario_end lab p (oc\<lparr>oc_err := ''short write: '' @ dec_nat (unat (oc_bytes_written oc)) @ '' of ''
                 @ dec_nat (unat n) @ '' bytes accepted''\<rparr>) loss W
             else
               do {
                 (m, p, loss, W) \<leftarrow> receive p n timeout_ms loss W;
                 scenario_end lab p (oc\<lparr>oc_sum := m, oc_ok := True\<rparr>) loss W
               })
        })"

definition run_scenario ::
  "Lab \<Rightarrow> PeerConfig \<Rightarrow> u32 \<Rightarrow> real \<Rightarrow> LossPolicy \<Rightarrow> script \<Rightarrow> (Outcome \<times> Lab \<times> LossPolicy \<times> script) option" where
  "run_scenario lab cfg n timeout_ms loss W =
     do {
       (r, p, W) \<leftarrow> establish (new_Peer (lab_utun lab) new_Trace cfg) W;
       case r of
         Inl e \<Rightarrow> Some (new_Outcome\<lparr>oc_err := e, oc_trace := p_tr p\<rparr>, lab\<lparr>lab_utun := p_u p\<rparr>, loss, W)
       | Inr _ \<Rightarrow>
           run_connected lab p
             (new_Outcome\<lparr>oc_handshake_rtt_ms := p_handshake_rtt_ms p, oc_sack_negotiated := p_peer_sack_ok p, oc_peer_mss := p_peer_mss p\<rparr>)
             n timeout_ms loss W
     }"

subsection \<open>Integrity\<close>

record Integrity =
  ig_written :: u64
  ig_read :: u64
  ig_non_ipv4 :: u64
  ig_unparseable :: u64
  ig_granted :: int
  ig_peak_frames :: u64
  ig_peak_bytes :: u64
  ig_percent :: real
  ig_warn_truncating :: bool
  ig_warn_depth :: bool

definition integrity :: "Lab \<Rightarrow> Integrity" where
  "integrity lab =
     (let u = lab_utun lab; granted = u_rcvbuf_granted u; peak = u_peak_burst_bytes u
      in \<lparr>ig_written = u_written u, ig_read = u_read u, ig_non_ipv4 = u_non_ipv4 u, ig_unparseable = u_unparseable u,
          ig_granted = granted, ig_peak_frames = u_peak_burst_frames u, ig_peak_bytes = peak,
          ig_percent = (if granted > 0 then 100 * real (unat peak) / real_of_int granted else 0),
          ig_warn_truncating = (u_unparseable u > 0),
          ig_warn_depth = (granted > 0 \<and> peak * 2 > word_of_int granted)\<rparr>)"

subsection \<open>What a run does to the policy\<close>

definition charged :: "LossPolicy \<Rightarrow> LossPolicy \<Rightarrow> bool" where
  "charged l l' \<longleftrightarrow> (lp_inv l \<longrightarrow> lp_inv l') \<and> map d_times (lp_rules l') = map d_times (lp_rules l)"

lemma charged_refl [simp]: "charged l l"
  by (simp add: charged_def)

lemma charged_trans: "charged a b \<Longrightarrow> charged b c \<Longrightarrow> charged a c"
  by (simp add: charged_def)

lemma charged_drop: "charged l (snd (lp_drop l sq len))"
  by (simp add: charged_def lp_drop_inv lp_drop_times)

lemma take_data_charged: "take_data x s W = Some (x', W') \<Longrightarrow> charged (rx_loss x) (rx_loss x')"
  using charged_drop [of "rx_loss x"]
  by (auto simp: take_data_def Let_def split_beta bind_eq_Some_conv loss_decision_of_def note_arrival_def discard_def keep_def
      split: if_split_asm)

lemma take_seg_charged: "take_seg x s W = Some (rst, x', W') \<Longrightarrow> charged (rx_loss x) (rx_loss x')"
  by (auto simp: take_seg_def split: if_split_asm dest!: take_data_charged)

lemma take_batch_charged: "take_batch x batch W = Some (rst, x', W') \<Longrightarrow> charged (rx_loss x) (rx_loss x')"
proof (induction batch arbitrary: x W)
  case (Cons s batch)
  obtain rst1 x1 W1 where t: "take_seg x s W = Some (rst1, x1, W1)"
    and e: "if rst1 then x' = x1 else take_batch x1 batch W1 = Some (rst, x', W')"
    using Cons.prems by (auto simp: bind_eq_Some_conv split: if_split_asm)
  then show ?case using take_seg_charged [OF t] Cons.IH [of x1 W1] charged_trans by (cases rst1) auto
qed simp

lemma rx_turn_charged: "rx_turn x W = Some (rst, x', W') \<Longrightarrow> charged (rx_loss x) (rx_loss x')"
  by (erule rx_turn_cases) (auto dest!: take_batch_charged)

lemma rx_loop_charged: "rx_loop t_end target x W = Some (rst, x', W') \<Longrightarrow> charged (rx_loss x) (rx_loss x')"
proof (induction t_end target x W rule: rx_loop.induct)
  case (1 t_end target x W)
  obtain t W1 where n: "now_ms W = Some (t, W1)"
    using 1(2) by (auto simp: rx_loop.simps [of t_end target x W] split: option.split_asm)
  show ?case
  proof (cases "t < t_end \<and> delivered (rx_rsm x) < target")
    case False
    then show ?thesis using 1(2) n by (auto simp: rx_loop.simps [of t_end target x W] split: if_split_asm)
  next
    case True
    obtain rst1 x1 W2 where r: "rx_turn x W1 = Some (rst1, x1, W2)"
      and e: "if rst1 then x' = x1 else rx_loop t_end target x1 W2 = Some (rst, x', W')"
      using 1(2) n True by (auto simp: rx_loop.simps [of t_end target x W] split: option.split_asm if_split_asm)
    show ?thesis using rx_turn_charged [OF r] e 1(1) [OF n refl True r refl refl] charged_trans by (cases rst1) auto
  qed
qed

lemma receive_charged: "receive p target timeout loss W = Some (m, p', loss', W') \<Longrightarrow> charged loss loss'"
  by (auto simp: receive_def bind_eq_Some_conv rx_start_def split: if_split_asm dest!: rx_loop_charged)

text \<open>A policy of one rule, that may fire once, has fired exactly once if it is not listed as unfired.\<close>

definition once :: "u32 \<Rightarrow> u32 \<Rightarrow> LossPolicy" where
  "once lo hi = lp_add new_LossPolicy \<lparr>d_lo = lo, d_hi = hi, d_times = 1, d_fired = 0\<rparr>"

lemma once_fired:
  assumes "charged (once lo hi) l" "unfired l = []"
  shows "lp_dropped l = 1"
proof -
  have "lp_inv (once lo hi)" "map d_times (lp_rules (once lo hi)) = [1]"
    by (simp_all add: once_def lp_inv_def lp_add_def new_LossPolicy_def)
  then have l: "lp_inv l" "map d_times (lp_rules l) = [1]" using assms(1) by (simp_all add: charged_def)
  then obtain r where r: "lp_rules l = [r]" "d_times r = 1" by auto
  have "d_fired r \<noteq> 0" using assms(2) r(1) by (auto simp: unfired_def split: if_split_asm)
  then show ?thesis using l(1) r by (auto simp: lp_inv_def)
qed

subsection \<open>What a scenario reports\<close>

definition drops :: "Trace \<Rightarrow> int" where
  "drops tr = int (length (filter e_dropped (tr_events tr)))"

lemma drops_simps [simp]:
  "drops new_Trace = 0" "drops (set_origin t d i tr) = drops tr" "drops (record_tx t sq ack fl len txt tr) = drops tr"
  "drops (trace_note t txt tr) = drops tr" "drops (record_rx t sq ack fl len dr txt tr) = drops tr + (if dr then 1 else 0)"
  by (simp_all add: drops_def new_Trace_def set_origin_def record_tx_def trace_note_def record_rx_def record_event_def new_Event_def)

text \<open>What is discarded is what the rules name: every discarded segment of the trace overlaps the range of one of them.\<close>

definition spans :: "LossPolicy \<Rightarrow> (u32 \<times> u32) list" where
  "spans l = map (\<lambda>r. (d_lo r, d_hi r)) (lp_rules l)"

definition named_by :: "(u32 \<times> u32) list \<Rightarrow> Event \<Rightarrow> bool" where
  "named_by rs e \<longleftrightarrow> 0 \<le> e_rel_seq e
     \<and> (\<exists>r\<in>set rs. word_of_int (e_rel_seq e) < snd r \<and> fst r < word_of_int (e_rel_seq e) + e_len e)"

definition aimed :: "(u32 \<times> u32) list \<Rightarrow> rx_state \<Rightarrow> bool" where
  "aimed rs x \<longleftrightarrow> origin_ok x \<and> spans (rx_loss x) = rs
     \<and> (\<forall>e\<in>set (tr_events (p_tr (rx_p x))). e_dropped e \<longrightarrow> named_by rs e)"

lemma drop_spans: "spans (snd (lp_drop l sq len)) = spans l"
  by (rule lp_drop_cases [of l sq len]) (auto simp: spans_def)

lemma decision_spans: "spans (snd (loss_decision_of x s)) = spans (rx_loss x)"
  by (simp add: loss_decision_of_def Let_def drop_spans)

lemma drop_named: "fst (lp_drop l sq len) \<Longrightarrow> \<exists>r\<in>set (spans l). sq < snd r \<and> fst r < sq + len"
  unfolding lp_drop_iff by (auto simp: spans_def live_overlap_def)

lemma trace_rx_aimed:
  "aimed rs x \<Longrightarrow> spans (rx_loss y) = rs \<Longrightarrow> rx_p y = trace_rx (rx_p x) s len False txt \<Longrightarrow> aimed rs y"
  by (auto simp: aimed_def origin_ok_def new_Event_def)

lemma take_data_aimed:
  assumes "aimed rs x" "take_data x s W = Some (x', W')"
  shows "aimed rs x'"
proof -
  let ?x1 = "note_arrival x s"
  have p1: "p_tr (rx_p ?x1) = p_tr (rx_p x)" "p_data_isn (rx_p ?x1) = p_data_isn (rx_p x)" "rx_loss ?x1 = rx_loss x"
    by (simp_all add: note_arrival_def Let_def)
  have x1: "aimed rs ?x1" using assms(1) p1 by (simp add: aimed_def origin_ok_def)
  obtain dr l where d: "loss_decision_of ?x1 s = (dr, l)" by fastforce
  have l: "spans l = rs" using d x1 decision_spans [of ?x1 s] by (simp add: aimed_def)
  show ?thesis
  proof (cases dr)
    case True
    let ?rel = "sint (s_seq s - p_data_isn (rx_p ?x1))"
    have hit: "0 \<le> ?rel" "fst (lp_drop (rx_loss ?x1) (word_of_int ?rel) (seg_len s))"
      using d True by (auto simp: loss_decision_of_def Let_def split: if_split_asm)
    obtain r where r: "r \<in> set rs" "word_of_int ?rel < snd r" "fst r < word_of_int ?rel + seg_len s"
      using drop_named [OF hit(2)] x1 by (auto simp: aimed_def)
    have "x' = discard (?x1\<lparr>rx_loss := l\<rparr>) s" using assms(2) d True by (simp add: take_data_def)
    moreover have "aimed rs (discard (?x1\<lparr>rx_loss := l\<rparr>) s)"
      using x1 l hit(1) r by (auto simp: aimed_def origin_ok_def discard_def Let_def named_by_def)
    ultimately show ?thesis by simp
  next
    case False
    then obtain now where "x' = keep (?x1\<lparr>rx_loss := l\<rparr>) s (is_rexmt (rx_p x) s) now"
      using assms(2) d by (auto simp: take_data_def bind_eq_Some_conv)
    then show ?thesis using x1 l by (auto simp: aimed_def origin_ok_def keep_def Let_def split_beta queue_ack_def new_Event_def)
  qed
qed

lemma take_seg_aimed:
  assumes "aimed rs x" "take_seg x s W = Some (rst, x', W')"
  shows "aimed rs x'"
proof -
  have s: "spans (rx_loss x) = rs" using assms(1) by (simp add: aimed_def)
  show ?thesis using assms s trace_rx_aimed [OF assms(1)]
    by (auto simp: take_seg_def split: if_split_asm dest!: take_data_aimed [OF assms(1)])
qed

lemma take_batch_aimed: "aimed rs x \<Longrightarrow> take_batch x batch W = Some (rst, x', W') \<Longrightarrow> aimed rs x'"
proof (induction batch arbitrary: x W)
  case (Cons s batch)
  obtain rst1 x1 W1 where t: "take_seg x s W = Some (rst1, x1, W1)"
    and e: "if rst1 then x' = x1 else take_batch x1 batch W1 = Some (rst, x', W')"
    using Cons.prems(2) by (auto simp: bind_eq_Some_conv split: if_split_asm)
  then show ?case using take_seg_aimed [OF Cons.prems(1) t] Cons.IH [of x1 W1] by (cases rst1) auto
qed simp

lemma flush_aimed:
  assumes "aimed rs x" "flush_acks (rx_p x) m now force W = Some (p, m', W')" "spans (rx_loss y) = rs" "rx_p y = p"
  shows "aimed rs y"
proof -
  note f = flush_loop_spec [OF assms(2) [unfolded flush_acks_def]]
  obtain evs where "tr_events (p_tr p) = tr_events (p_tr (rx_p x)) @ evs" "filter e_dropped evs = []" "same_origin (rx_p x) p" using f by blast
  then show ?thesis using assms by (auto simp: aimed_def origin_ok_def same_origin_def filter_empty_conv)
qed

lemma rx_turn_aimed:
  assumes "aimed rs x" "rx_turn x W = Some (rst, x', W')"
  shows "aimed rs x'"
proof -
  have dev: "aimed rs (x\<lparr>rx_p := (rx_p x)\<lparr>p_u := u\<rparr>\<rparr>)" for u using assms(1) by (simp add: aimed_def origin_ok_def)
  from assms(2) show ?thesis
  proof (cases rule: rx_turn_cases)
    case (reset u batch W1)
    then show ?thesis using take_batch_aimed [OF dev] by blast
  next
    case (goes_on u batch W1 x1 W2 t p m W3)
    have "aimed rs x1" using take_batch_aimed [OF dev goes_on(2)] .
    then show ?thesis using flush_aimed [OF _ goes_on(3), of rs x'] goes_on(4) by (simp add: aimed_def)
  qed
qed

lemma rx_loop_aimed: "aimed rs x \<Longrightarrow> rx_loop t_end target x W = Some (rst, x', W') \<Longrightarrow> aimed rs x'"
proof (induction t_end target x W rule: rx_loop.induct)
  case (1 t_end target x W)
  obtain t W1 where n: "now_ms W = Some (t, W1)"
    using 1(3) by (auto simp: rx_loop.simps [of t_end target x W] split: option.split_asm)
  show ?case
  proof (cases "t < t_end \<and> delivered (rx_rsm x) < target")
    case False
    then show ?thesis using 1(2,3) n by (auto simp: rx_loop.simps [of t_end target x W] split: if_split_asm)
  next
    case True
    obtain rst1 x1 W2 where r: "rx_turn x W1 = Some (rst1, x1, W2)"
      and e: "if rst1 then x' = x1 else rx_loop t_end target x1 W2 = Some (rst, x', W')"
      using 1(3) n True by (auto simp: rx_loop.simps [of t_end target x W] split: option.split_asm if_split_asm)
    show ?thesis using rx_turn_aimed [OF 1(2) r] e 1(1) [OF n refl True r refl refl] by (cases rst1) auto
  qed
qed

lemma receive_aimed:
  assumes "receive p target timeout loss W = Some (m, p', loss', W')" "tr_data_isn (p_tr p) = p_data_isn p" "drops (p_tr p) = 0"
  shows "\<forall>e\<in>set (tr_events (p_tr p')). e_dropped e \<longrightarrow> named_by (spans loss) e"
proof -
  obtain t0 W0 rst x W2 where l: "rx_loop (t0 + timeout) target (rx_start p target loss) W0 = Some (rst, x, W2)"
    and e: "(if rst then Some (rx_sum x, rx_store x, rx_loss x, W2)
       else do { (t, W) \<leftarrow> now_ms W2; (p, m, W) \<leftarrow> flush_acks (rx_store x) (rx_sum x) t True W;
         Some (m\<lparr>m_bytes_delivered := delivered (rx_rsm x),
                 m_completed := (delivered (rx_rsm x) \<ge> target)\<rparr>, p, rx_loss x, W) }) = Some (m, p', loss', W')"
    using assms(1) by (auto simp: receive_def bind_eq_Some_conv simp del: if_split)
  have "aimed (spans loss) (rx_start p target loss)"
    using assms(2,3) by (auto simp: aimed_def origin_ok_def rx_start_def drops_def filter_empty_conv)
  then have x: "aimed (spans loss) x" by (rule rx_loop_aimed [OF _ l])
  have x': "aimed (spans loss) (x\<lparr>rx_p := rx_store x\<rparr>)" using x by (simp add: aimed_def origin_ok_def rx_store_def)
  have "aimed (spans loss) (x\<lparr>rx_p := p'\<rparr>)"
  proof (cases rst)
    case True
    then show ?thesis using e x' by simp
  next
    case False
    then obtain t V m1 V' where "flush_acks (rx_p (x\<lparr>rx_p := rx_store x\<rparr>)) (rx_sum x) t True V = Some (p', m1, V')"
      using e by (auto simp: bind_eq_Some_conv)
    from flush_aimed [OF x' this, of "x\<lparr>rx_p := p'\<rparr>"] x show ?thesis by (simp add: aimed_def)
  qed
  then show ?thesis by (simp add: aimed_def)
qed

lemma send_syn_error: "send_syn p W = Some (Inl e, p', W') \<Longrightarrow> e \<noteq> []"
  by (erule send_syn_cases) (auto split: sum.split_asm)

lemma after_synack_error: "after_synack p t0 sa W = Some (Inl e, p', W') \<Longrightarrow> e \<noteq> []"
  by (auto simp: after_synack_def finish_accept_def bind_eq_Some_conv Let_def split: if_split_asm)

lemma establish_error:
  assumes "establish p W = Some (Inl e, p', W')"
  shows "e \<noteq> []"
proof -
  obtain r p1 W1 where s: "send_syn p W = Some (r, p1, W1)" using assms by (auto simp: establish_def bind_eq_Some_conv)
  show ?thesis
  proof (cases r)
    case (Inl x)
    then show ?thesis using assms s send_syn_error [of p W x] by (simp add: establish_def)
  next
    case (Inr t0)
    obtain t W2 got u W3 where "now_ms W1 = Some (t, W2)" "await_synack (p_cfg p1) (t + 2000) (p_u p1) W2 = Some (got, u, W3)"
      using assms s Inr by (auto simp: establish_def bind_eq_Some_conv)
    then show ?thesis using assms s Inr
      by (auto simp: establish_def Let_def split: sum.split_asm option.split_asm dest: after_synack_error)
  qed
qed

lemma send_syn_drops:
  assumes "send_syn p W = Some (r, p', W')"
  shows "drops (p_tr p') = drops (p_tr p)"
proof -
  obtain t W1 res u W2 where "now_ms W = Some (t, W1)" "utun_send (p_u p) (syn_seg (p_cfg p)) W1 = Some (res, u, W2)"
    using assms by (auto simp: send_syn_def Let_def bind_eq_Some_conv)
  then show ?thesis using assms by (cases res) (auto simp: send_syn_def Let_def)
qed

lemma send_now_drops: "send_now p s now txt W = Some (ok, p', W') \<Longrightarrow> drops (p_tr p') = drops (p_tr p)"
  by (erule send_now_cases) simp_all

lemma after_synack_drops: "after_synack p t0 sa W = Some (Inr (), p', W') \<Longrightarrow> drops (p_tr p') = drops (p_tr p)"
  by (auto simp: after_synack_def bind_eq_Some_conv Let_def take_synack_def split: if_split_asm dest!: finish_accept_ok send_now_drops)

lemma established:
  assumes "establish p W = Some (Inr (), p', W')"
  shows "tr_data_isn (p_tr p') = p_data_isn p' \<and> drops (p_tr p') = drops (p_tr p) \<and> p_rsm p' = p_rsm p"
  using assms
proof (cases rule: establish_cases)
  case (1 t0 p1 W1 t W2 sa u W3)
  note s = send_syn_sent [OF 1(1)]
  have "p_snd (p1\<lparr>p_u := u\<rparr>) = c_isn (p_cfg (p1\<lparr>p_u := u\<rparr>))" using s by simp
  note a = after_synack_ok [OF 1(4) this]
  show ?thesis
    using a s after_synack_drops [OF 1(4)] send_syn_drops [OF 1(1)] by (simp_all add: synchronised_def)
qed

lemma scenario_end_cases:
  assumes "scenario_end lab p oc loss W = Some (oc', lab', loss', W')"
  shows "\<exists>u. oc' = oc\<lparr>oc_trace := p_tr p\<rparr> \<and> lab' = lab\<lparr>lab_utun := u\<rparr> \<and> loss' = loss"
  using assms by (auto simp: scenario_end_def peer_reset_def bind_eq_Some_conv Let_def)

text \<open>An outcome: either an error, with the policy as it was, or a whole run of the receiver over a connection just made.\<close>

lemma scenario_cases:
  assumes "run_scenario lab cfg n timeout loss W = Some (oc, lab', loss', W')"
  obtains (failed) "\<not> oc_ok oc" "oc_err oc \<noteq> []" "oc_sum oc = new_RunSummary" "loss' = loss" "lab_knobs lab' = lab_knobs lab"
    | (ran) p W1 W2 p' W3 where "establish (new_Peer (lab_utun lab) new_Trace cfg) W = Some (Inr (), p, W1)"
      "\<not> too_much lab n" "oc_ok oc" "oc_err oc = []" "oc_bytes_written oc = n" "oc_sack_negotiated oc = p_peer_sack_ok p"
      "receive p n timeout loss W2 = Some (oc_sum oc, p', loss', W3)" "oc_trace oc = p_tr p'" "lab_knobs lab' = lab_knobs lab"
proof -
  obtain r p W1 where e: "establish (new_Peer (lab_utun lab) new_Trace cfg) W = Some (r, p, W1)"
    using assms by (auto simp: run_scenario_def bind_eq_Some_conv)
  show thesis
  proof (cases r)
    case (Inl err)
    then show thesis using assms e failed establish_error [of _ W err] by (auto simp: run_scenario_def new_Outcome_def)
  next
    case (Inr x)
    let ?oc = "new_Outcome\<lparr>oc_handshake_rtt_ms := p_handshake_rtt_ms p, oc_sack_negotiated := p_peer_sack_ok p, oc_peer_mss := p_peer_mss p\<rparr>"
    have c: "run_connected lab p ?oc n timeout loss W1 = Some (oc, lab', loss', W')" using assms e Inr by (simp add: run_scenario_def)
    have stop: thesis if "scenario_end lab p oc1 loss V = Some (oc, lab', loss', W')" "\<not> oc_ok oc1" "oc_err oc1 \<noteq> []" "oc_sum oc1 = new_RunSummary" for oc1 V
      using scenario_end_cases [OF that(1)] that(2-4) failed by auto
    have zero: "\<not> oc_ok ?oc" "oc_sum ?oc = new_RunSummary" by (simp_all add: new_Outcome_def)
    consider (long) "too_much lab n" | (asked) w er W2 where "\<not> too_much lab n" "sys_write W1 = Some ((w, er), W2)"
      using c by (auto simp: run_connected_def bind_eq_Some_conv split: if_split_asm)
    then show thesis
    proof cases
      case long
      note c [unfolded run_connected_def if_P [OF long]]
      from stop [OF this] zero show thesis by simp
    next
      case asked
      consider (neg) "w < 0" | (short) "\<not> w < 0" "word_of_int w \<noteq> n" | (whole) "\<not> w < 0" "word_of_int w = n" by blast
      then show thesis
      proof cases
        case neg
        have "scenario_end lab p (?oc\<lparr>oc_err := ''write() on the accepted socket: '' @ er\<rparr>) loss W2 = Some (oc, lab', loss', W')"
          using c asked neg by (simp add: run_connected_def)
        from stop [OF this] zero show thesis by simp
      next
        case short
        have "\<exists>e. scenario_end lab p (?oc\<lparr>oc_bytes_written := word_of_int w, oc_err := ''short write: '' @ e\<rparr>) loss W2 = Some (oc, lab', loss', W')"
          using c asked short by (simp add: run_connected_def Let_def) blast
        then show thesis using stop zero by fastforce
      next
        case whole
        then obtain m p' loss1 W3 where r: "receive p n timeout loss W2 = Some (m, p', loss1, W3)"
          and s: "scenario_end lab p' (?oc\<lparr>oc_bytes_written := n, oc_sum := m, oc_ok := True\<rparr>) loss1 W3 = Some (oc, lab', loss', W')"
          using c asked by (auto simp: run_connected_def bind_eq_Some_conv Let_def)
        show thesis using scenario_end_cases [OF s] asked(1) e Inr r
          by (intro ran [of p W1 W2 p' W3]) (auto simp: new_Outcome_def)
      qed
    qed
  qed
qed

lemma scenario_facts:
  assumes "run_scenario lab cfg n timeout loss W = Some (oc, lab', loss', W')" "lp_inv loss"
  shows "(oc_ok oc \<longleftrightarrow> oc_err oc = [])
    \<and> (if oc_ok oc
       then oc_bytes_written oc = n \<and> (k_sendspace (lab_knobs lab) > 0 \<longrightarrow> n \<le> word_of_int (k_sendspace (lab_knobs lab)))
         \<and> m_segments_dropped (oc_sum oc) = drops (oc_trace oc)
         \<and> lp_dropped loss' = lp_dropped loss + m_segments_dropped (oc_sum oc) \<and> lp_inv loss'
         \<and> map d_times (lp_rules loss') = map d_times (lp_rules loss)
         \<and> (\<forall>e\<in>set (tr_events (oc_trace oc)). e_dropped e \<longrightarrow> named_by (spans loss) e)
         \<and> (m_completed (oc_sum oc) \<longrightarrow> \<not> m_saw_rst (oc_sum oc))
       else oc_sum oc = new_RunSummary \<and> loss' = loss)"
  using assms(1)
proof (cases rule: scenario_cases)
  case failed
  then show ?thesis by simp
next
  case (ran p W1 W2 p' W3)
  note e = established [OF ran(1)]
  have z: "drops (p_tr (new_Peer (lab_utun lab) new_Trace cfg)) = 0" by (simp add: new_Peer_def)
  from e ran(7) obtain evs where evs: "tr_events (p_tr p') = tr_events (p_tr p) @ evs" "m_segments_dropped (oc_sum oc) = int (length (filter e_dropped evs))"
    "lp_dropped loss' = lp_dropped loss + int (length (filter e_dropped evs))" "m_completed (oc_sum oc) \<longrightarrow> \<not> m_saw_rst (oc_sum oc)"
    by (auto elim!: receive_explained)
  have "drops (oc_trace oc) = m_segments_dropped (oc_sum oc)" using evs(1,2) e z ran(8) by (simp add: drops_def)
  then show ?thesis using ran evs receive_charged [OF ran(7)] receive_aimed [OF ran(7)] e z assms(2) by (auto simp: charged_def too_much_def)
qed

subsection \<open>Properties\<close>

text \<open>
  Property C9. A scenario either fails with an error message, an empty summary and a policy that was not
  charged, or it is a whole measurement: the kernel took every byte that was asked for, which its send buffer can hold, the
  segments reported as lost are those the trace shows as discarded and those the policy was charged with, within what its rules
  allow; each of them overlaps the bytes that a rule names; and it is reported complete exactly if no reset was seen and the receiver had everything.
\<close>

theorem scenario_sound:
  assumes "run_scenario lab cfg n timeout loss W = Some (oc, lab', loss', W')" "lp_inv loss"
  shows "(oc_ok oc \<longleftrightarrow> oc_err oc = [])
    \<and> (if oc_ok oc
       then oc_bytes_written oc = n \<and> (k_sendspace (lab_knobs lab) > 0 \<longrightarrow> n \<le> word_of_int (k_sendspace (lab_knobs lab)))
         \<and> m_segments_dropped (oc_sum oc) = drops (oc_trace oc)
         \<and> lp_dropped loss' = lp_dropped loss + m_segments_dropped (oc_sum oc) \<and> lp_inv loss'
         \<and> map d_times (lp_rules loss') = map d_times (lp_rules loss)
         \<and> (\<forall>e\<in>set (tr_events (oc_trace oc)). e_dropped e \<longrightarrow> named_by (spans loss) e)
         \<and> (m_completed (oc_sum oc) \<longrightarrow> \<not> m_saw_rst (oc_sum oc))
       else oc_sum oc = new_RunSummary \<and> loss' = loss)"
  using assms by (rule scenario_facts)

lemma scenario_knobs: "run_scenario lab cfg n timeout loss W = Some (oc, lab', loss', W') \<Longrightarrow> lab_knobs lab' = lab_knobs lab"
  by (erule scenario_cases) simp_all

text \<open>The warning about the depth of the queue, as a statement about numbers.\<close>

lemma depth_warning_exact:
  assumes "uint (u_peak_burst_bytes (lab_utun lab)) < 2 ^ 63" "u_rcvbuf_granted (lab_utun lab) < 2 ^ 31"
  shows "ig_warn_depth (integrity lab) \<longleftrightarrow>
    0 < u_rcvbuf_granted (lab_utun lab) \<and> u_rcvbuf_granted (lab_utun lab) < 2 * uint (u_peak_burst_bytes (lab_utun lab))"
proof -
  let ?p = "u_peak_burst_bytes (lab_utun lab)" and ?g = "u_rcvbuf_granted (lab_utun lab)"
  have "uint ?p * uint (2 :: u64) < 2 ^ LENGTH(64)" using assms(1) by simp
  then have p: "uint (?p * 2) = 2 * uint ?p" by (subst (asm) uint_mult_lem) simp
  have g: "uint (word_of_int ?g :: u64) = ?g" if "0 < ?g" using that assms(2) by (simp add: unsigned_of_int take_bit_int_eq_self)
  show ?thesis
  proof (cases "0 < ?g")
    case True
    then show ?thesis by (simp only: integrity_def Let_def word_less_def p g [OF True] simp_thms Integrity.simps)
  next
    case False
    then show ?thesis by (simp add: integrity_def Let_def)
  qed
qed

subsection \<open>Witness\<close>

text \<open>Five bytes in two segments; the second arrives first, is discarded, and is sent again.\<close>

definition demo_knobs :: TcpKnobs where
  "demo_knobs = \<lparr>k_rtt_min = 100, k_rexmt_slop = 200, k_enable_tlp = 1, k_delayed_ack = 3, k_mssdflt = 512, k_sack = 1, k_rexmtthresh = 3,
     k_recvspace = 131072, k_sendspace = 131072, k_challengeack_limit = 10, k_kernel_version = []\<rparr>"

definition demo_lab :: Lab where
  "demo_lab = (new_Lab demo_knobs)\<lparr>lab_listen_fd := 4\<rparr>"

definition demo_transfer :: script where
  "demo_transfer = [EvNow 0, EvNow 1, EvNow 1, EvNow 1, EvPoll 1 False, EvRead (Inl (demo_frame 5004 TH_ACK [4, 5])), EvNow 2,
     EvPoll 1 False, EvRead (Inl (demo_frame 5001 TH_ACK [1, 2, 3])), EvNow 3,
     EvPoll 1 False, EvRead (Inl (demo_frame 5004 TH_ACK [4, 5])), EvNow 4, EvPoll 0 False, EvNow 4, EvNow 4, EvNow 5,
     EvWrite 44 [], EvWrite 44 [], EvNow 6, EvNow 7]"

definition demo_scenario :: "(Outcome \<times> Lab \<times> LossPolicy \<times> script) option" where
  "demo_scenario = run_scenario demo_lab demo_cfg 5 100 (once 3 4) (demo_handshake @ EvWrite 5 [] # demo_transfer @ [EvWrite 44 []])"

fun scenario_is :: "(Outcome \<Rightarrow> bool) \<Rightarrow> (Outcome \<times> Lab \<times> LossPolicy \<times> script) option \<Rightarrow> bool" where
  "scenario_is P (Some (oc, _, _, _)) = P oc"
| "scenario_is P None = False"

lemma scenario_isD: "scenario_is P x \<Longrightarrow> \<exists>oc lab l W. x = Some (oc, lab, l, W) \<and> P oc"
  by (cases "(P, x)" rule: scenario_is.cases) auto

lemma demo_scenario_ok: "scenario_is (\<lambda>oc. oc_ok oc \<and> m_completed (oc_sum oc) \<and> m_segments_dropped (oc_sum oc) = 1) demo_scenario"
  by code_simp

theorem scenario_sound_witness:
  "\<exists>oc lab' l W. demo_scenario = Some (oc, lab', l, W) \<and> oc_err oc = [] \<and> drops (oc_trace oc) = 1 \<and> lp_dropped l = 1"
proof -
  obtain oc lab' l W where d: "demo_scenario = Some (oc, lab', l, W)" "oc_ok oc" "m_segments_dropped (oc_sum oc) = 1"
    using scenario_isD [OF demo_scenario_ok] by blast
  have "lp_inv (once 3 4)" "lp_dropped (once 3 4) = 0" by (simp_all add: once_def lp_inv_def lp_add_def new_LossPolicy_def)
  then show ?thesis using scenario_sound [OF d(1) [unfolded demo_scenario_def]] d by auto
qed

end
