(* ===== verification/Experiments.thy ===== *)
theory Experiments
  imports Harness
begin

text \<open>
  The five programs under \<^verbatim>\<open>experiments\<close>. Each brings up the laboratory, runs its scenarios one after the other,
  and prints a table; here its value is the table, as a list of rows with the verdicts the program prints beside
  them, or the error it stops with. Text that explains a table, and the dump of a trace, are not represented. The result of a
  program is \<open>None\<close> only if the script ends before it.
\<close>

text \<open>The loop over the arms of an experiment: each arm takes the next source port.\<close>

fun arms_loop ::
  "('a \<Rightarrow> Lab \<Rightarrow> u16 \<Rightarrow> script \<Rightarrow> ('r \<times> Lab \<times> script) option) \<Rightarrow> 'a list \<Rightarrow> Lab \<Rightarrow> u16 \<Rightarrow> script
     \<Rightarrow> ('r list \<times> Lab \<times> u16 \<times> script) option" where
  "arms_loop f [] lab sport W = Some ([], lab, sport, W)"
| "arms_loop f (a # as) lab sport W =
     do {
       (r, lab, W) \<leftarrow> f a lab sport W;
       (rs, lab, sport, W) \<leftarrow> arms_loop f as lab (sport + 1) W;
       Some (r # rs, lab, sport, W)
     }"

definition arm_cfg :: "u16 \<Rightarrow> u32 \<Rightarrow> PeerConfig" where
  "arm_cfg sport isn = new_PeerConfig\<lparr>c_sport := sport, c_dport := kPort, c_isn := isn, c_mss := 1024\<rparr>"

subsection \<open>The baseline\<close>

record base_arm =
  ba_name :: string
  ba_sack :: bool
  ba_ack_delay_ms :: real

definition base_arms :: "base_arm list" where
  "base_arms =
     [\<lparr>ba_name = ''no SACK, no injected delay'', ba_sack = False, ba_ack_delay_ms = 0\<rparr>,
      \<lparr>ba_name = ''SACK,    no injected delay'', ba_sack = True, ba_ack_delay_ms = 0\<rparr>,
      \<lparr>ba_name = ''SACK,    5 ms ACK delay'', ba_sack = True, ba_ack_delay_ms = 5\<rparr>,
      \<lparr>ba_name = ''SACK,   20 ms ACK delay'', ba_sack = True, ba_ack_delay_ms = 20\<rparr>]"

record base_line =
  bl_name :: string
  bl_handshake_rtt_ms :: real
  bl_transfer :: real
  bl_mbps :: real
  bl_data_segs :: nat
  bl_max_len :: u32
  bl_sack :: bool
  bl_incomplete :: bool
  bl_note :: "(nat \<times> string) option"

datatype base_row = BaseFailed string string | BaseRow base_line

definition data_events :: "Trace \<Rightarrow> Event list" where
  "data_events tr = filter (\<lambda>e. \<not> e_tx e \<and> e_len e > 0) (tr_events tr)"

definition base_line_of :: "base_arm \<Rightarrow> Outcome \<Rightarrow> base_line" where
  "base_line_of a oc =
     (let evs = data_events (oc_trace oc); m = oc_sum oc; transfer = m_t_last_original m - m_t_first_data m
      in \<lparr>bl_name = ba_name a, bl_handshake_rtt_ms = oc_handshake_rtt_ms oc, bl_transfer = transfer,
          bl_mbps = (if transfer > 0 then (real (unat (m_bytes_delivered m)) / 1000000) / (transfer / 1000) else 0),
          bl_data_segs = length evs, bl_max_len = foldl max 0 (map e_len evs), bl_sack = oc_sack_negotiated oc,
          bl_incomplete = (\<not> m_completed m),
          bl_note = (if m_retransmits m \<noteq> [] then
             Some (length (m_retransmits m), if ba_ack_delay_ms a > 0 then ''expected: injected ACK delay arms the TLP''
                   else ''UNEXPLAINED -- no loss and no delay, the path is dirty'') else None)\<rparr>)"

definition base_arm_run :: "base_arm \<Rightarrow> Lab \<Rightarrow> u16 \<Rightarrow> script \<Rightarrow> (base_row \<times> Lab \<times> script) option" where
  "base_arm_run a lab sport W =
     (let cfg = (arm_cfg sport (100000 + ucast sport * 13))\<lparr>c_offer_sack := ba_sack a, c_ack_delay_ms := ba_ack_delay_ms a\<rparr>
      in do {
        (oc, lab, _, W) \<leftarrow> run_scenario lab cfg (64 * 1024) 20000 new_LossPolicy W;
        Some (if \<not> oc_ok oc then BaseFailed (ba_name a) (oc_err oc) else BaseRow (base_line_of a oc), lab, W)
      })"

definition main_baseline :: "lab_calls \<Rightarrow> process \<Rightarrow> TcpKnobs \<Rightarrow> script \<Rightarrow> (string + base_row list \<times> Integrity) option" where
  "main_baseline c s k W =
     (case lab_start c s (new_Lab k) of
        (Inl e, _) \<Rightarrow> Some (Inl e)
      | (Inr _, lab) \<Rightarrow>
          do { (rows, lab, _, _) \<leftarrow> arms_loop base_arm_run base_arms lab 41000 W; Some (Inr (rows, integrity lab)) })"

subsection \<open>Head-of-line blocking\<close>

record hol_arm =
  ha_name :: string
  ha_sack :: bool
  ha_tail :: bool

definition hol_arms :: "hol_arm list" where
  "hol_arms =
     [\<lparr>ha_name = ''mid-stream loss, no SACK'', ha_sack = False, ha_tail = False\<rparr>,
      \<lparr>ha_name = ''mid-stream loss, SACK'', ha_sack = True, ha_tail = False\<rparr>,
      \<lparr>ha_name = ''tail loss,       no SACK'', ha_sack = False, ha_tail = True\<rparr>,
      \<lparr>ha_name = ''tail loss,       SACK'', ha_sack = True, ha_tail = True\<rparr>]"

definition classify :: "RunSummary \<Rightarrow> int \<Rightarrow> int \<Rightarrow> string" where
  "classify m dupack_thresh rto_floor_ms =
     (if m_retransmits m = [] then ''none''
      else if m_hol_delay_ms m < 0 then ''unrepaired''
      else if m_dup_acks_sent m \<ge> dupack_thresh then ''fast-retransmit''
      else if m_hol_delay_ms m < real_of_int rto_floor_ms / 2 then ''tlp''
      else ''rto'')"

record hol_line =
  hl_name :: string
  hl_hol_delay_ms :: real
  hl_handshake_rtt_ms :: real
  hl_dup_acks :: int
  hl_retransmits :: nat
  hl_delivered :: u32
  hl_recovered_by :: string
  hl_incomplete :: bool
  hl_suspect :: bool
  hl_offsets :: "(real \<times> int) list"

datatype hol_row = HolFailed string string | HolUnmatched string | HolNotAgreed string | HolEnabledAnyway string | HolRow hol_line

definition hol_bytes :: u32 where "hol_bytes = 96 * 1024"

definition hol_offset :: "hol_arm \<Rightarrow> u32" where
  "hol_offset a = (if ha_tail a then hol_bytes - 1 else hol_bytes div 2)"

definition hol_line_of :: "TcpKnobs \<Rightarrow> hol_arm \<Rightarrow> Outcome \<Rightarrow> hol_line" where
  "hol_line_of k a oc =
     (let m = oc_sum oc
      in \<lparr>hl_name = ha_name a, hl_hol_delay_ms = m_hol_delay_ms m, hl_handshake_rtt_ms = oc_handshake_rtt_ms oc,
          hl_dup_acks = m_dup_acks_sent m, hl_retransmits = length (m_retransmits m), hl_delivered = m_bytes_delivered m,
          hl_recovered_by = classify m (k_rexmtthresh k) (k_rtt_min k + k_rexmt_slop k), hl_incomplete = (\<not> m_completed m),
          hl_suspect = (\<not> ha_tail a \<and> m_dup_acks_sent m < k_rexmtthresh k),
          hl_offsets = map (\<lambda>x. (x_t_ms x, x_rel_seq x)) (take 6 (m_retransmits m))\<rparr>)"

definition hol_cfg :: "hol_arm \<Rightarrow> u16 \<Rightarrow> PeerConfig" where
  "hol_cfg a sport = (arm_cfg sport (200000 + ucast sport * 17))\<lparr>c_offer_sack := ha_sack a, c_send_sack_blocks := ha_sack a\<rparr>"

definition hol_arm_run :: "hol_arm \<Rightarrow> Lab \<Rightarrow> u16 \<Rightarrow> script \<Rightarrow> (hol_row \<times> Lab \<times> script) option" where
  "hol_arm_run a lab sport W =
     (let off = hol_offset a;
          loss = lp_add new_LossPolicy \<lparr>d_lo = off, d_hi = off + 1, d_times = 1, d_fired = 0\<rparr>
      in do {
        (oc, lab, loss, W) \<leftarrow> run_scenario lab (hol_cfg a sport) hol_bytes 15000 loss W;
        Some (if \<not> oc_ok oc then HolFailed (ha_name a) (oc_err oc)
              else if unfired loss \<noteq> [] then HolUnmatched (ha_name a)
              else if ha_sack a \<and> \<not> oc_sack_negotiated oc then HolNotAgreed (ha_name a)
              else if \<not> ha_sack a \<and> oc_sack_negotiated oc then HolEnabledAnyway (ha_name a)
              else HolRow (hol_line_of (lab_knobs lab) a oc), lab, W)
      })"

definition main_hol :: "lab_calls \<Rightarrow> process \<Rightarrow> TcpKnobs \<Rightarrow> script \<Rightarrow> (string + hol_row list \<times> Integrity) option" where
  "main_hol c s k W =
     (case lab_start c s (new_Lab k) of
        (Inl e, _) \<Rightarrow> Some (Inl e)
      | (Inr _, lab) \<Rightarrow>
          do { (rows, lab, _, _) \<leftarrow> arms_loop hol_arm_run hol_arms lab 42000 W; Some (Inr (rows, integrity lab)) })"

subsection \<open>Duplicate acknowledgements\<close>

datatype sweep_row = SweepInvalid nat string | SweepRow nat real int int bool

text \<open>The threshold the program expects with \<open>n\<close> segments behind the hole.\<close>

definition predicted_threshold :: "TcpKnobs \<Rightarrow> nat \<Rightarrow> int" where
  "predicted_threshold k n =
     (let osegs = int n + 1 in if osegs < 4 then min 3 (max (osegs - 1) 1) else k_rexmtthresh k)"

definition sweep_run :: "nat \<Rightarrow> Lab \<Rightarrow> u16 \<Rightarrow> script \<Rightarrow> (sweep_row \<times> Lab \<times> script) option" where
  "sweep_run n lab sport W =
     (let cfg = (arm_cfg sport (300000 + ucast sport * 19))\<lparr>c_offer_sack := False\<rparr>;
          off = hol_bytes - of_nat (n + 1) * 1024;
          loss = lp_add new_LossPolicy \<lparr>d_lo = off, d_hi = off + 1, d_times = 1, d_fired = 0\<rparr>
      in do {
        (oc, lab, loss, W) \<leftarrow> run_scenario lab cfg hol_bytes 15000 loss W;
        Some (if \<not> oc_ok oc \<or> unfired loss \<noteq> [] \<or> \<not> m_completed (oc_sum oc) \<or> m_ack_send_failures (oc_sum oc) > 0
              then SweepInvalid n (if \<not> oc_ok oc then oc_err oc else if unfired loss \<noteq> [] then ''rule never fired''
                                   else if m_ack_send_failures (oc_sum oc) > 0 then ''ACK send failed'' else ''incomplete'')
              else SweepRow n (m_hol_delay_ms (oc_sum oc)) (m_dup_acks_sent (oc_sum oc)) (predicted_threshold (lab_knobs lab) n)
                     (m_hol_delay_ms (oc_sum oc) < 50), lab, W)
      })"

datatype round_row = RoundShort nat | RoundVoid nat string | RoundRow nat real bool

datatype rate_table = RateUnestablished string | RateDisagreed | RateTable "round_row list" int int

definition chunk :: u32 where "chunk = 8 * 1024"

text \<open>The rounds from \<open>r\<close> on, with the counts of fast and slow ones so far.\<close>

fun rate_rounds ::
  "nat \<Rightarrow> nat \<Rightarrow> Peer \<Rightarrow> int \<Rightarrow> int \<Rightarrow> script \<Rightarrow> (round_row list \<times> int \<times> int \<times> Peer \<times> script) option" where
  "rate_rounds 0 r p fast slow W = Some ([], fast, slow, p, W)"
| "rate_rounds (Suc left) r p fast slow W =
     (let base = of_nat r * chunk in
      do {
        ((w, _), W) \<leftarrow> sys_write W;
        if w \<noteq> int (unat chunk) then Some ([RoundShort r], fast, slow, p, W)
        else
          (let off = base + chunk - 2 * 1024;
               loss = lp_add new_LossPolicy \<lparr>d_lo = off, d_hi = off + 1, d_times = 1, d_fired = 0\<rparr>
           in do {
             (m, p, loss, W) \<leftarrow> receive p (base + chunk) 5000 loss W;
             let void = unfired loss \<noteq> [] \<or> \<not> m_completed m \<or> m_ack_send_failures m > 0;
             let is_fast = m_hol_delay_ms m \<ge> 0 \<and> m_hol_delay_ms m < 50;
             let row = (if void then RoundVoid r (if m_ack_send_failures m > 0 then ''ACK send failed''
                                                  else if unfired loss \<noteq> [] then ''no drop'' else ''incomplete'')
                        else RoundRow r (m_hol_delay_ms m) is_fast);
             (rows, fast, slow, p, W) \<leftarrow>
               rate_rounds left (r + 1) p (if \<not> void \<and> is_fast then fast + 1 else fast) (if \<not> void \<and> \<not> is_fast then slow + 1 else slow) W;
             Some (row # rows, fast, slow, p, W)
           })
      })"

definition rate_limit :: "bool \<Rightarrow> Lab \<Rightarrow> u16 \<Rightarrow> script \<Rightarrow> (rate_table \<times> Lab \<times> script) option" where
  "rate_limit sack lab sport W =
     (let cfg = (arm_cfg sport (600000 + ucast sport * 29))\<lparr>c_offer_sack := sack, c_send_sack_blocks := sack\<rparr>
      in do {
        (r, p, W) \<leftarrow> establish (new_Peer (lab_utun lab) new_Trace cfg) W;
        case r of
          Inl e \<Rightarrow> Some (RateUnestablished e, lab\<lparr>lab_utun := p_u p\<rparr>, W)
        | Inr _ \<Rightarrow>
            if p_peer_sack_ok p \<noteq> sack then
              do { (p, W) \<leftarrow> peer_reset p W; Some (RateDisagreed, lab\<lparr>lab_utun := p_u p\<rparr>, W) }
            else
              do {
                (rows, fast, slow, p, W) \<leftarrow> rate_rounds 14 0 p 0 0 W;
                (p, W) \<leftarrow> peer_reset p W;
                Some (RateTable rows fast slow, lab\<lparr>lab_utun := p_u p\<rparr>, W)
              }
      })"

definition main_dupack ::
  "lab_calls \<Rightarrow> process \<Rightarrow> TcpKnobs \<Rightarrow> script \<Rightarrow> (string + sweep_row list \<times> rate_table \<times> rate_table \<times> Integrity) option" where
  "main_dupack c s k W =
     (case lab_start c s (new_Lab k) of
        (Inl e, _) \<Rightarrow> Some (Inl e)
      | (Inr _, lab) \<Rightarrow>
          do {
            (rows, lab, sport, W) \<leftarrow> arms_loop sweep_run [1..<6] lab 43000 W;
            (t1, lab, W) \<leftarrow> rate_limit False lab sport W;
            (t2, lab, W) \<leftarrow> rate_limit True lab (sport + 1) W;
            Some (Inr (rows, t1, t2, integrity lab))
          })"

subsection \<open>The retransmission timeout\<close>

datatype rto_row = RtoFailed real string | RtoUnmatched real | RtoUnfilled real | RtoRow real real real real

definition rto_bytes :: u32 where "rto_bytes = 32 * 1024"

definition predicted_floor :: "TcpKnobs \<Rightarrow> int" where "predicted_floor k = k_rtt_min k + k_rexmt_slop k"

text \<open>The initial sequence number is computed from the port after the increment.\<close>

definition rto_run :: "real \<Rightarrow> Lab \<Rightarrow> u16 \<Rightarrow> script \<Rightarrow> (rto_row \<times> Lab \<times> script) option" where
  "rto_run delay lab sport W =
     (let cfg = (arm_cfg sport (400000 + ucast (sport + 1) * 23))\<lparr>c_offer_sack := False, c_ack_delay_ms := delay\<rparr>;
          loss = lp_add new_LossPolicy \<lparr>d_lo = rto_bytes - 1, d_hi = rto_bytes, d_times = 1, d_fired = 0\<rparr>
      in do {
        (oc, lab, loss, W) \<leftarrow> run_scenario lab cfg rto_bytes 20000 loss W;
        Some (if \<not> oc_ok oc then RtoFailed delay (oc_err oc)
              else if unfired loss \<noteq> [] then RtoUnmatched delay
              else if m_hol_delay_ms (oc_sum oc) < 0 then RtoUnfilled delay
              else RtoRow delay (oc_handshake_rtt_ms oc) (m_hol_delay_ms (oc_sum oc))
                     (m_hol_delay_ms (oc_sum oc) - real_of_int (predicted_floor (lab_knobs lab))), lab, W)
      })"

text \<open>The times between the dropped copies, and the base that is recovered from them.\<close>

fun intervals :: "real list \<Rightarrow> real list" where
  "intervals (a # b # ts) = (b - a) # intervals (b # ts)"
| "intervals _ = []"

definition ladder_base :: "real \<Rightarrow> real list \<Rightarrow> real" where
  "ladder_base slop ts =
     foldl (\<lambda>base iv. let adj = iv - slop in if adj > 1 \<and> (base = 0 \<or> adj < base) then adj else base) 0 (intervals ts)"

record rung =
  rg_t :: real
  rg_interval :: real
  rg_adj :: real
  rg_ratio :: "real option"
  rg_over_base :: "real option"

fun rungs :: "real \<Rightarrow> real \<Rightarrow> real \<Rightarrow> real list \<Rightarrow> rung list" where
  "rungs slop base prev_iv (a # b # ts) =
     (let iv = b - a; adj = iv - slop
      in \<lparr>rg_t = b, rg_interval = iv, rg_adj = adj, rg_ratio = (if prev_iv > 0 then Some (iv / prev_iv) else None),
          rg_over_base = (if base > 0 then Some (adj / base) else None)\<rparr> # rungs slop base iv (b # ts))"
| "rungs slop base prev_iv _ = []"

datatype ladder = LadderFailed string | LadderShort nat | Ladder "rung list" real real

definition dropped_times :: "Trace \<Rightarrow> real list" where
  "dropped_times tr = map e_t_ms (filter (\<lambda>e. \<not> e_tx e \<and> e_dropped e) (tr_events tr))"

definition ladder_of :: "real \<Rightarrow> real list \<Rightarrow> ladder" where
  "ladder_of slop ts =
     (if length ts < 2 then LadderShort (length ts)
      else (let base = ladder_base slop ts in Ladder (rungs slop base 0 ts) base (base + slop)))"

definition ladder_run :: "Lab \<Rightarrow> u16 \<Rightarrow> script \<Rightarrow> (ladder \<times> Lab \<times> script) option" where
  "ladder_run lab sport W =
     (let cfg = (arm_cfg sport 490000)\<lparr>c_offer_sack := False\<rparr>;
          loss = lp_add new_LossPolicy \<lparr>d_lo = rto_bytes - 1, d_hi = rto_bytes, d_times = 12, d_fired = 0\<rparr>
      in do {
        (oc, lab, _, W) \<leftarrow> run_scenario lab cfg rto_bytes 30000 loss W;
        Some (if \<not> oc_ok oc then LadderFailed (oc_err oc)
              else ladder_of (real_of_int (k_rexmt_slop (lab_knobs lab))) (dropped_times (oc_trace oc)), lab, W)
      })"

definition main_rto :: "lab_calls \<Rightarrow> process \<Rightarrow> TcpKnobs \<Rightarrow> script \<Rightarrow> (string + rto_row list \<times> ladder \<times> Integrity) option" where
  "main_rto c s k W =
     (case lab_start c s (new_Lab k) of
        (Inl e, _) \<Rightarrow> Some (Inl e)
      | (Inr _, lab) \<Rightarrow>
          do {
            (rows, lab, sport, W) \<leftarrow> arms_loop rto_run [0, 5, 20, 60] lab 44000 W;
            (l, lab, W) \<leftarrow> ladder_run lab sport W;
            Some (Inr (rows, l, integrity lab))
          })"

subsection \<open>Challenge acknowledgements\<close>

definition kProbes :: int where "kProbes = 25"

record Trigger =
  tg_name :: string
  tg_site :: string
  tg_flags :: u8
  tg_seq_off :: i32
  tg_ack_off :: i32

definition kTriggers :: "Trigger list" where
  "kTriggers =
     [\<lparr>tg_name = ''SYN in ESTABLISHED'', tg_site = ''tcp_input.c:4133 (RFC 5961 s4.2)'', tg_flags = TH_SYN, tg_seq_off = 0, tg_ack_off = 0\<rparr>,
      \<lparr>tg_name = ''ACK above snd_max'', tg_site = ''tcp_input.c:4874 rcvacktoomuch'', tg_flags = TH_ACK, tg_seq_off = 0, tg_ack_off = 1000000\<rparr>,
      \<lparr>tg_name = ''in-window RST, seq != RCV.NXT'', tg_site = ''tcp_input.c:4271 badrst'', tg_flags = TH_RST, tg_seq_off = 10, tg_ack_off = 0\<rparr>]"

definition fire :: "Trigger \<Rightarrow> real \<Rightarrow> Peer \<Rightarrow> script \<Rightarrow> (BurstResult \<times> Peer \<times> script) option" where
  "fire t collect_ms p W = burst p (tg_flags t) (tg_seq_off t) (tg_ack_off t) kProbes collect_ms W"

text \<open>The counters the configurations are drawn from, beside the laboratory and the process.\<close>

record chal_state =
  cs_lab :: Lab
  cs_sport :: u16
  cs_isn :: u32
  cs_proc :: process

definition make_cfg :: "chal_state \<Rightarrow> PeerConfig \<times> chal_state" where
  "make_cfg x =
     (let x' = x\<lparr>cs_sport := cs_sport x + 1, cs_isn := cs_isn x + 100000\<rparr>
      in ((arm_cfg (cs_sport x) (cs_isn x'))\<lparr>c_offer_sack := True\<rparr>, x'))"

definition chal_peer :: "chal_state \<Rightarrow> PeerConfig \<Rightarrow> Peer" where
  "chal_peer x cfg = new_Peer (lab_utun (cs_lab x)) new_Trace cfg"

definition keep_device :: "Utun \<Rightarrow> chal_state \<Rightarrow> chal_state" where
  "keep_device u x = x\<lparr>cs_lab := (cs_lab x)\<lparr>lab_utun := u\<rparr>\<rparr>"

datatype trigger_row = TriggerUnestablished string string | TriggerDiscarded string BurstResult | TriggerRow string int int bool

definition trigger_run :: "int \<Rightarrow> Trigger \<Rightarrow> chal_state \<Rightarrow> script \<Rightarrow> (trigger_row \<times> chal_state \<times> script) option" where
  "trigger_run limit t x W =
     (let (cfg, x) = make_cfg x in
      do {
        (r, p, W) \<leftarrow> establish (chal_peer x cfg) W;
        case r of
          Inl e \<Rightarrow> Some (TriggerUnestablished (tg_name t) e, keep_device (p_u p) x, W)
        | Inr _ \<Rightarrow>
            do {
              (b, p, W) \<leftarrow> fire t 400 p W;
              (p, W) \<leftarrow> peer_reset p W;
              Some (if \<not> burst_complete b kProbes then TriggerDiscarded (tg_name t) b
                    else TriggerRow (tg_name t) (b_acks b) (b_rsts b) (b_acks b = limit), keep_device (p_u p) x, W)
            }
      })"

text \<open>The loop: the rows, the first trigger that hit the limit exactly, and how many did.\<close>

fun triggers_loop ::
  "int \<Rightarrow> Trigger list \<Rightarrow> Trigger \<Rightarrow> int \<Rightarrow> chal_state \<Rightarrow> script
     \<Rightarrow> (trigger_row list \<times> Trigger \<times> int \<times> chal_state \<times> script) option" where
  "triggers_loop limit [] best hits x W = Some ([], best, hits, x, W)"
| "triggers_loop limit (t # ts) best hits x W =
     do {
       (row, x, W) \<leftarrow> trigger_run limit t x W;
       let exact = (case row of TriggerRow _ _ _ e \<Rightarrow> e | _ \<Rightarrow> False);
       (rows, best, hits, x, W) \<leftarrow>
         triggers_loop limit ts (if exact \<and> hits = 0 then t else best) (if exact then hits + 1 else hits) x W;
       Some (row # rows, best, hits, x, W)
     }"

datatype pair_result = PairUnestablished string string | PairDiscarded int int | PairRow int int bool

text \<open>Two connections on one device: the second is made and used on the device the first has left.\<close>

definition pair_bursts :: "int \<Rightarrow> Trigger \<Rightarrow> Peer \<Rightarrow> Peer \<Rightarrow> chal_state \<Rightarrow> script \<Rightarrow> (pair_result \<times> chal_state \<times> script) option" where
  "pair_bursts limit best px py x W =
     do {
       (bx, px, W) \<leftarrow> fire best 300 (px\<lparr>p_u := p_u py\<rparr>) W;
       (by', py, W) \<leftarrow> fire best 300 (py\<lparr>p_u := p_u px\<rparr>) W;
       (px, W) \<leftarrow> peer_reset (px\<lparr>p_u := p_u py\<rparr>) W;
       (py, W) \<leftarrow> peer_reset (py\<lparr>p_u := p_u px\<rparr>) W;
       Some (if \<not> burst_complete bx kProbes \<or> \<not> burst_complete by' kProbes then PairDiscarded (b_sent bx) (b_sent by')
             else PairRow (b_acks bx) (b_acks by') (b_acks by' = limit), keep_device (p_u py) x, W)
     }"

definition pair_run :: "int \<Rightarrow> Trigger \<Rightarrow> chal_state \<Rightarrow> script \<Rightarrow> (pair_result \<times> chal_state \<times> script) option" where
  "pair_run limit best x W =
     (let (cx, x) = make_cfg x; (cy, x) = make_cfg x in
      do {
        (rx, px, W) \<leftarrow> establish (chal_peer x cx) W;
        case rx of
          Inl e1 \<Rightarrow> Some (PairUnestablished e1 [], keep_device (p_u px) x, W)
        | Inr _ \<Rightarrow>
            do {
              let x = keep_device (p_u px) x;
              (ry, py, W) \<leftarrow> establish (chal_peer x cy) W;
              case ry of
                Inl e2 \<Rightarrow> Some (PairUnestablished [] e2, keep_device (p_u py) x, W)
              | Inr _ \<Rightarrow> pair_bursts limit best px py x W
            }
      })"

datatype window_result = WindowSkipped | WindowDiscarded int int int | WindowRow int int int real real bool

definition window_run :: "int \<Rightarrow> Trigger \<Rightarrow> chal_state \<Rightarrow> script \<Rightarrow> (window_result \<times> chal_state \<times> script) option" where
  "window_run limit best x W =
     (let (cz, x) = make_cfg x in
      do {
        (r, p, W) \<leftarrow> establish (chal_peer x cz) W;
        case r of
          Inl _ \<Rightarrow> Some (WindowSkipped, keep_device (p_u p) x, W)
        | Inr _ \<Rightarrow>
            do {
              (t0, W) \<leftarrow> now_ms W;
              (b1, p, W) \<leftarrow> fire best 300 p W;
              (b2, p, W) \<leftarrow> fire best 300 p W;
              (t2, W) \<leftarrow> now_ms W;
              (b3, p, W) \<leftarrow> fire best 300 p W;
              (t3, W) \<leftarrow> now_ms W;
              (p, W) \<leftarrow> peer_reset p W;
              Some (if \<not> burst_complete b1 kProbes \<or> \<not> burst_complete b2 kProbes \<or> \<not> burst_complete b3 kProbes
                    then WindowDiscarded (b_sent b1) (b_sent b2) (b_sent b3)
                    else WindowRow (b_acks b1) (b_acks b2) (b_acks b3) (t2 - t0) (t3 - t0)
                           (b_acks b1 = limit \<and> b_acks b2 = 0 \<and> b_acks b3 = limit), keep_device (p_u p) x, W)
            }
      })"

datatype control_result = ControlUnset | ControlUnestablished | ControlDiscarded int | ControlRow int int bool

definition chal_knob :: string where "chal_knob = ''net.inet.tcp.challengeack_limit''"

definition control_burst :: "int \<Rightarrow> Trigger \<Rightarrow> chal_state \<Rightarrow> script \<Rightarrow> (control_result \<times> chal_state \<times> script) option" where
  "control_burst probe_limit best x W =
     (let (ck, x) = make_cfg x in
      do {
        (r, p, W) \<leftarrow> establish (chal_peer x ck) W;
        case r of
          Inl _ \<Rightarrow> Some (ControlUnestablished, keep_device (p_u p) x, W)
        | Inr _ \<Rightarrow>
            do {
              (b, p, W) \<leftarrow> fire best 300 p W;
              (p, W) \<leftarrow> peer_reset p W;
              Some (if \<not> burst_complete b kProbes then ControlDiscarded (b_sent b)
                    else ControlRow probe_limit (b_acks b) (b_acks b = probe_limit), keep_device (p_u p) x, W)
            }
      })"

definition control_run ::
  "(string \<Rightarrow> int \<Rightarrow> bool) \<Rightarrow> int \<Rightarrow> Trigger \<Rightarrow> chal_state \<Rightarrow> script \<Rightarrow> (control_result \<times> chal_state \<times> script) option" where
  "control_run accepts limit best x W =
     (let probe_limit = (if limit \<ge> 4 then 3 else 1);
          (guard, s) = new_ScopedSysctl accepts (cs_proc x) chal_knob probe_limit;
          x = x\<lparr>cs_proc := s\<rparr>
      in do {
        (r, x, W) \<leftarrow> (if g_ok guard then control_burst probe_limit best x W else Some (ControlUnset, x, W));
        Some (r, x\<lparr>cs_proc := delete_ScopedSysctl accepts (cs_proc x) guard\<rparr>, W)
      })"

datatype chal_report =
    ChalFatal string
  | ChalNoTrigger "trigger_row list" Integrity
  | ChalReport "trigger_row list" int Trigger pair_result window_result control_result int Integrity

definition main_challenge_ack ::
  "lab_calls \<Rightarrow> (string \<Rightarrow> int \<Rightarrow> bool) \<Rightarrow> process \<Rightarrow> TcpKnobs \<Rightarrow> script \<Rightarrow> (chal_report \<times> process) option" where
  "main_challenge_ack c accepts s k W =
     (case lab_start c s (new_Lab k) of
        (Inl e, _) \<Rightarrow> Some (ChalFatal e, s)
      | (Inr _, lab) \<Rightarrow>
          (let limit = k_challengeack_limit (lab_knobs lab) in
           if limit \<le> 0 then Some (ChalFatal ''challengeack_limit unreadable'', s)
           else
             do {
               (rows, best, hits, x, W) \<leftarrow>
                 triggers_loop limit kTriggers (hd kTriggers) 0 \<lparr>cs_lab = lab, cs_sport = 45000, cs_isn = 500000, cs_proc = s\<rparr> W;
               if hits = 0 then Some (ChalNoTrigger rows (integrity (cs_lab x)), cs_proc x)
               else
                 do {
                   (pr, x, W) \<leftarrow> pair_run limit best x W;
                   (wr, x, W) \<leftarrow> window_run limit best x W;
                   (cr, x, W) \<leftarrow> control_run accepts limit best x W;
                   Some (ChalReport rows hits best pr wr cr (sysctl_get (cs_proc x) chal_knob (- 1)) (integrity (cs_lab x)), cs_proc x)
                 }
             }))"

subsection \<open>Tables\<close>

lemma arms_loop_rows:
  assumes "arms_loop f as lab sport W = Some (rs, lab', sport', W')"
    and "\<And>a l sp V r l' V'. f a l sp V = Some (r, l', V') \<Longrightarrow> lab_knobs l' = lab_knobs l"
  shows "length rs = length as \<and> lab_knobs lab' = lab_knobs lab \<and> sport' = sport + of_nat (length as)
    \<and> (\<forall>i<length as. \<exists>l V l' V'. f (as ! i) l (sport + of_nat i) V = Some (rs ! i, l', V') \<and> lab_knobs l = lab_knobs lab)"
  using assms(1)
proof (induction as arbitrary: lab sport W rs)
  case (Cons a as)
  obtain r lab1 W1 rs1 where f: "f a lab sport W = Some (r, lab1, W1)" and l: "arms_loop f as lab1 (sport + 1) W1 = Some (rs1, lab', sport', W')"
    and rs: "rs = r # rs1" using Cons.prems by (auto simp: bind_eq_Some_conv)
  note ih = Cons.IH [OF l]
  have k: "lab_knobs lab1 = lab_knobs lab" by (rule assms(2) [OF f])
  show ?case unfolding rs
  proof (intro conjI allI impI)
    fix i assume i: "i < length (a # as)"
    show "\<exists>l V l' V'. f ((a # as) ! i) l (sport + of_nat i) V = Some ((r # rs1) ! i, l', V') \<and> lab_knobs l = lab_knobs lab"
    proof (cases i)
      case 0
      then show ?thesis using f by auto
    next
      case (Suc j)
      then have "\<exists>l V l' V'. f (as ! j) l (sport + 1 + of_nat j) V = Some (rs1 ! j, l', V') \<and> lab_knobs l = lab_knobs lab1" using ih i by auto
      then show ?thesis using Suc k by (simp add: add.assoc)
    qed
  qed (use ih k in \<open>auto simp: add.assoc\<close>)
qed simp

lemma hol_arm_knobs: "hol_arm_run a lab sport W = Some (r, lab', W') \<Longrightarrow> lab_knobs lab' = lab_knobs lab"
  by (auto simp: hol_arm_run_def Let_def bind_eq_Some_conv dest!: scenario_knobs)

lemma lab_start_knobs: "lab_start c s lab = (Inr x, lab') \<Longrightarrow> lab_knobs lab' = read_knobs s (lc_version c)"
  by (auto simp: lab_start_def Let_def split: if_split_asm sum.split_asm prod.split_asm)

text \<open>The segment that carries a byte of the stream.\<close>

definition carries_byte :: "u32 \<Rightarrow> Event \<Rightarrow> bool" where
  "carries_byte off e \<longleftrightarrow> 0 \<le> e_rel_seq e \<and> word_of_int (e_rel_seq e) \<le> off \<and> off < word_of_int (e_rel_seq e) + e_len e"

lemma one_dropped:
  assumes "run_scenario lab cfg n timeout (once off (off + 1)) W = Some (oc, lab', loss', W')" "oc_ok oc" "unfired loss' = []" "off + 1 \<noteq> 0"
  shows "oc_bytes_written oc = n \<and> (\<exists>e. filter e_dropped (tr_events (oc_trace oc)) = [e] \<and> carries_byte off e)"
proof -
  have inv: "lp_inv (once off (off + 1))" "lp_dropped (once off (off + 1)) = 0" "spans (once off (off + 1)) = [(off, off + 1)]"
    by (simp_all add: once_def lp_inv_def lp_add_def new_LossPolicy_def spans_def)
  note f = scenario_facts [OF assms(1) inv(1), unfolded inv if_P [OF assms(2)]]
  have "charged (once off (off + 1)) loss'" using f by (simp add: charged_def)
  then have "lp_dropped loss' = 1" by (rule once_fired [OF _ assms(3)])
  then have "length (filter e_dropped (tr_events (oc_trace oc))) = 1" using f by (simp add: drops_def)
  then obtain e where e: "filter e_dropped (tr_events (oc_trace oc)) = [e]" by (auto simp: length_Suc_conv)
  have "e \<in> set (filter e_dropped (tr_events (oc_trace oc)))" unfolding e by simp
  then have "e \<in> set (tr_events (oc_trace oc))" "e_dropped e" by simp_all
  then have "named_by [(off, off + 1)] e" using f by blast
  moreover have "unat (off + 1) = Suc (unat off)" using unatSuc [of off] assms(4) by (simp add: add.commute)
  ultimately have "carries_byte off e" by (simp add: named_by_def carries_byte_def word_less_nat_alt word_le_nat_alt)
  then show ?thesis using f e by auto
qed

text \<open>A row of the table on head-of-line blocking.\<close>

lemma hol_row_facts:
  assumes "hol_arm_run a lab sport W = Some (HolRow l, lab', W')"
  shows "\<exists>oc loss'. run_scenario lab (hol_cfg a sport) hol_bytes 15000 (once (hol_offset a) (hol_offset a + 1)) W = Some (oc, lab', loss', W')
    \<and> l = hol_line_of (lab_knobs lab) a oc \<and> oc_sack_negotiated oc = ha_sack a \<and> oc_bytes_written oc = hol_bytes
    \<and> (\<exists>e. filter e_dropped (tr_events (oc_trace oc)) = [e] \<and> carries_byte (hol_offset a) e)"
proof -
  obtain oc loss' where r: "run_scenario lab (hol_cfg a sport) hol_bytes 15000 (once (hol_offset a) (hol_offset a + 1)) W = Some (oc, lab', loss', W')"
    and ok: "oc_ok oc" "unfired loss' = []" "oc_sack_negotiated oc = ha_sack a" "l = hol_line_of (lab_knobs lab') a oc"
    using assms by (auto simp: hol_arm_run_def Let_def bind_eq_Some_conv once_def split: if_split_asm)
  have "hol_offset a + 1 \<noteq> 0" by (simp add: hol_offset_def hol_bytes_def)
  then show ?thesis using one_dropped [OF r ok(1,2)] ok(3,4) scenario_knobs [OF r] r by auto
qed

subsection \<open>The ladder\<close>

lemma rungs_over_base: "map rg_over_base (rungs slop base prev ts) = map (\<lambda>iv. if base > 0 then Some ((iv - slop) / base) else None) (intervals ts)"
  by (induction slop base prev ts rule: rungs.induct) (simp_all add: Let_def)

lemma ladder_fold:
  assumes "1 < b" "\<forall>m\<in>set ms. 1 \<le> m" "base = 0 \<or> b \<le> base" "base = b \<or> 1 \<in> set ms"
  shows "foldl (\<lambda>base iv. let adj = iv - slop in if adj > 1 \<and> (base = 0 \<or> adj < base) then adj else base) base (map (\<lambda>m. slop + b * m) ms) = (b :: real)"
  using assms(2-4)
proof (induction ms arbitrary: base)
  case (Cons m ms)
  let ?new = "if b * m > 1 \<and> (base = 0 \<or> b * m < base) then b * m else base"
  have m: "1 \<le> m" using Cons.prems(1) by simp
  have bm: "b \<le> b * m" using m assms(1) by (simp add: mult_le_cancel_left1)
  have "?new = 0 \<or> b \<le> ?new" using Cons.prems(2) bm by auto
  moreover have "?new = b \<or> 1 \<in> set ms"
  proof (cases "m = 1")
    case True
    then show ?thesis using Cons.prems(2) assms(1) by auto
  next
    case False
    then have "base = b \<or> 1 \<in> set ms" using Cons.prems(3) by auto
    moreover have "?new = base" if "base = b" using bm assms(1) that by (metis not_less less_trans zero_less_one less_irrefl)
    ultimately show ?thesis by auto
  qed
  ultimately have "foldl (\<lambda>base iv. let adj = iv - slop in if adj > 1 \<and> (base = 0 \<or> adj < base) then adj else base) ?new (map (\<lambda>m. slop + b * m) ms) = b"
    using Cons.IH [of ?new] Cons.prems(1) by simp
  then show ?case by (simp add: Let_def cong: if_cong split del: if_split)
qed simp

text \<open>
  Dropped copies whose distances are a constant plus multiples of a base, the base itself among them: the program recovers the base
  and prints the multipliers.
\<close>

lemma ladder_exact:
  assumes "intervals ts = map (\<lambda>m. slop + b * m) ms" "1 < b" "\<forall>m\<in>set ms. 1 \<le> m" "1 \<in> set ms"
  shows "\<exists>rows. ladder_of slop ts = Ladder rows b (b + slop) \<and> map rg_over_base rows = map Some ms"
proof -
  have "intervals ts \<noteq> []" using assms(1,4) by auto
  then have "2 \<le> length ts" by (cases ts rule: intervals.cases) auto
  moreover have "ladder_base slop ts = b" unfolding ladder_base_def assms(1) by (rule ladder_fold [OF assms(2,3) _ disjI2 [OF assms(4)]]) simp
  moreover have "map rg_over_base (rungs slop b 0 ts) = map Some ms"
    unfolding rungs_over_base assms(1) using assms(2) by (simp add: comp_def)
  ultimately show ?thesis by (auto simp: ladder_of_def Let_def)
qed

subsection \<open>Knobs\<close>

lemma established_Some:
  "(case r of Inl e \<Rightarrow> F e | Inr (_ :: unit) \<Rightarrow> G) = Some y \<longleftrightarrow> (\<exists>e. r = Inl e \<and> F e = Some y) \<or> r = Inr () \<and> G = Some y"
  by (cases r) auto

lemma make_cfg_proc: "make_cfg x = (cfg, x') \<Longrightarrow> cs_proc x' = cs_proc x"
  by (auto simp: make_cfg_def Let_def)

lemma keep_device_proc [simp]: "cs_proc (keep_device u x) = cs_proc x"
  by (simp add: keep_device_def)

lemma trigger_run_proc: "trigger_run limit t x W = Some (r, x', W') \<Longrightarrow> cs_proc x' = cs_proc x"
  by (auto simp: trigger_run_def Let_def bind_eq_Some_conv established_Some split: prod.split_asm dest: make_cfg_proc)

lemma triggers_loop_proc: "triggers_loop limit ts best hits x W = Some (rows, best', hits', x', W') \<Longrightarrow> cs_proc x' = cs_proc x"
proof (induction ts arbitrary: best hits x W rows)
  case (Cons t ts)
  obtain row x1 W1 where t: "trigger_run limit t x W = Some (row, x1, W1)" using Cons.prems by (auto simp: bind_eq_Some_conv)
  then show ?case using Cons.prems trigger_run_proc [OF t] by (auto simp: bind_eq_Some_conv Let_def dest!: Cons.IH)
qed simp

lemma pair_run_proc: "pair_run limit best x W = Some (r, x', W') \<Longrightarrow> cs_proc x' = cs_proc x"
  by (auto simp: pair_run_def pair_bursts_def Let_def bind_eq_Some_conv established_Some split: prod.split_asm dest!: make_cfg_proc)

lemma window_run_proc: "window_run limit best x W = Some (r, x', W') \<Longrightarrow> cs_proc x' = cs_proc x"
  by (auto simp: window_run_def Let_def bind_eq_Some_conv established_Some split: prod.split_asm dest!: make_cfg_proc)

lemma control_burst_proc: "control_burst pl best x W = Some (r, x', W') \<Longrightarrow> cs_proc x' = cs_proc x"
  by (auto simp: control_burst_def Let_def bind_eq_Some_conv established_Some split: prod.split_asm dest!: make_cfg_proc)

lemma control_run_restores:
  assumes "control_run accepts limit best x W = Some (r, x', W')" "writable accepts (cs_proc x)" "pending (cs_proc x) = []"
  shows "kern (cs_proc x') = kern (cs_proc x) \<and> pending (cs_proc x') = []"
proof -
  let ?pl = "if limit \<ge> 4 then 3 else 1 :: int"
  obtain g s where g: "new_ScopedSysctl accepts (cs_proc x) chal_knob ?pl = (g, s)" by fastforce
  have "cs_proc x' = delete_ScopedSysctl accepts s g"
    using assms(1) g by (auto simp: control_run_def Let_def bind_eq_Some_conv split: if_split_asm dest!: control_burst_proc)
  moreover have "guards_run accepts (cs_proc x) [] (delete_ScopedSysctl accepts s g)"
    by (intro guards_run.dtor guards_run.ctor [OF guards_run.start g])
  ultimately show ?thesis using guards_unwind [of accepts "cs_proc x" "cs_proc x'"] assms(2,3) by simp
qed

lemma challenge_restores:
  assumes "main_challenge_ack c accepts s k W = Some (rep, s')" "writable accepts s" "pending s = []"
  shows "kern s' = kern s \<and> pending s' = []
    \<and> (case rep of ChalReport _ _ _ _ _ _ restored _ \<Rightarrow> restored = sysctl_get s chal_knob (- 1) \<and> 0 < restored | _ \<Rightarrow> True)"
proof (cases "lab_start c s (new_Lab k)")
  case (Pair r lab)
  show ?thesis
  proof (cases r)
    case (Inl e)
    then show ?thesis using assms Pair by (auto simp: main_challenge_ack_def)
  next
    case (Inr u)
    let ?lim = "k_challengeack_limit (lab_knobs lab)"
    have lim: "?lim = sysctl_get s chal_knob (- 1)" using lab_start_knobs [of c s "new_Lab k" u lab] Pair Inr by (simp add: read_knobs_def chal_knob_def)
    show ?thesis
    proof (cases "?lim \<le> 0")
      case True
      then show ?thesis using assms Pair Inr by (auto simp: main_challenge_ack_def Let_def)
    next
      case False
      let ?x0 = "\<lparr>cs_lab = lab, cs_sport = 45000, cs_isn = 500000, cs_proc = s\<rparr>"
      obtain rows best hits x W1 where t: "triggers_loop ?lim kTriggers (hd kTriggers) 0 ?x0 W = Some (rows, best, hits, x, W1)"
        and e: "(if hits = 0 then Some (ChalNoTrigger rows (integrity (cs_lab x)), cs_proc x)
          else do { (pr, x, W) \<leftarrow> pair_run ?lim best x W1; (wr, x, W) \<leftarrow> window_run ?lim best x W; (cr, x, W) \<leftarrow> control_run accepts ?lim best x W;
            Some (ChalReport rows hits best pr wr cr (sysctl_get (cs_proc x) chal_knob (- 1)) (integrity (cs_lab x)), cs_proc x) }) = Some (rep, s')"
        using assms(1) Pair Inr False by (auto simp: main_challenge_ack_def Let_def bind_eq_Some_conv simp del: if_split triggers_loop.simps)
      have x: "cs_proc x = s" using triggers_loop_proc [OF t] by simp
      show ?thesis
      proof (cases "hits = 0")
        case True
        then show ?thesis using e x assms(3) by auto
      next
        case False
        obtain pr x1 W2 wr x2 W3 cr x3 W4 where c: "pair_run ?lim best x W1 = Some (pr, x1, W2)" "window_run ?lim best x1 W2 = Some (wr, x2, W3)"
          "control_run accepts ?lim best x2 W3 = Some (cr, x3, W4)" and f: "s' = cs_proc x3"
          "rep = ChalReport rows hits best pr wr cr (sysctl_get (cs_proc x3) chal_knob (- 1)) (integrity (cs_lab x3))"
          using e False by (auto simp: bind_eq_Some_conv)
        have p: "cs_proc x2 = s" using pair_run_proc [OF c(1)] window_run_proc [OF c(2)] x by simp
        have r: "kern s' = kern s" "pending s' = []" using control_run_restores [OF c(3)] p assms(2,3) f(1) by auto
        moreover have "sysctl_get s' chal_knob (- 1) = sysctl_get s chal_knob (- 1)" using r(1) by (simp add: sysctl_get_def)
        ultimately show ?thesis using f lim \<open>\<not> ?lim \<le> 0\<close> by simp
      qed
    qed
  qed
qed

subsection \<open>Properties\<close>

text \<open>
  Property C10. What the table on head-of-line blocking says. It has a row for each of the four arms, in order; where the row
  is a measurement, and not a reason why there is none, it reports a scenario of that arm in which the kernel took the whole
  transfer, SACK was in use exactly if the arm is about SACK, and exactly one segment was discarded: one that
  carries the byte the arm names, in the middle or at the end.
\<close>

theorem hol_table_sound:
  assumes "main_hol c s k W = Some (Inr (rows, ig))"
  shows "length rows = 4 \<and> (\<forall>i l. i < 4 \<and> rows ! i = HolRow l \<longrightarrow>
    (\<exists>lab1 W1 oc lab2 loss W2 e.
       run_scenario lab1 (hol_cfg (hol_arms ! i) (42000 + of_nat i)) hol_bytes 15000
         (once (hol_offset (hol_arms ! i)) (hol_offset (hol_arms ! i) + 1)) W1 = Some (oc, lab2, loss, W2)
       \<and> l = hol_line_of (read_knobs s (lc_version c)) (hol_arms ! i) oc
       \<and> oc_sack_negotiated oc = ha_sack (hol_arms ! i) \<and> oc_bytes_written oc = hol_bytes
       \<and> filter e_dropped (tr_events (oc_trace oc)) = [e] \<and> carries_byte (hol_offset (hol_arms ! i)) e))"
proof -
  obtain r lab where st: "lab_start c s (new_Lab k) = (r, lab)" by fastforce
  obtain u lab' sp W' where r: "r = Inr u" and a: "arms_loop hol_arm_run hol_arms lab 42000 W = Some (rows, lab', sp, W')"
    using assms st by (auto simp: main_hol_def bind_eq_Some_conv split: sum.split_asm)
  have n: "length hol_arms = 4" by (simp add: hol_arms_def)
  have rows: "length rows = 4 \<and> (\<forall>i<4. \<exists>l V l' V'. hol_arm_run (hol_arms ! i) l (42000 + of_nat i) V = Some (rows ! i, l', V')
      \<and> lab_knobs l = lab_knobs lab)"
    using arms_loop_rows [OF a] hol_arm_knobs n by metis
  have k: "lab_knobs lab = read_knobs s (lc_version c)" using lab_start_knobs st r by blast
  have "\<exists>lab1 W1 oc lab2 loss W2 e.
       run_scenario lab1 (hol_cfg (hol_arms ! i) (42000 + of_nat i)) hol_bytes 15000
         (once (hol_offset (hol_arms ! i)) (hol_offset (hol_arms ! i) + 1)) W1 = Some (oc, lab2, loss, W2)
       \<and> l = hol_line_of (read_knobs s (lc_version c)) (hol_arms ! i) oc
       \<and> oc_sack_negotiated oc = ha_sack (hol_arms ! i) \<and> oc_bytes_written oc = hol_bytes
       \<and> filter e_dropped (tr_events (oc_trace oc)) = [e] \<and> carries_byte (hol_offset (hol_arms ! i)) e"
    if i: "i < 4" and row: "rows ! i = HolRow l" for i l
  proof -
    obtain lab1 V l' V' where "hol_arm_run (hol_arms ! i) lab1 (42000 + of_nat i) V = Some (HolRow l, l', V')" "lab_knobs lab1 = lab_knobs lab"
      using rows i row by metis
    then show ?thesis using hol_row_facts k by metis
  qed
  then show ?thesis using rows by blast
qed

text \<open>
  Property C12. The experiment on challenge acknowledgements leaves the kernel as it found it: however it ends (no laboratory,
  an unreadable limit, no trigger that works, a guard that could not be set, or a full report) the knobs are those it started
  with and no restore is pending; the value it reports as restored is the limit it read at the start.
\<close>

theorem challenge_restores_knobs:
  assumes "main_challenge_ack c accepts s k W = Some (rep, s')" "writable accepts s" "pending s = []"
  shows "kern s' = kern s \<and> pending s' = []
    \<and> (case rep of ChalReport _ _ _ _ _ _ restored _ \<Rightarrow> restored = sysctl_get s chal_knob (- 1) \<and> 0 < restored | _ \<Rightarrow> True)"
  using assms by (rule challenge_restores)

subsection \<open>Witnesses\<close>

text \<open>
  A laboratory whose device is the first unit. In the script of the first experiment the first arm connects, gets the segment that is to be
  lost, and waits in vain; the other arms cannot send their SYN. In that of the second the first trigger
  draws as many acknowledgements as the limit says, and no later connection comes about.
\<close>

definition demo_attempt :: attempt where
  "demo_attempt = \<lparr>at_socket = None, at_ioctl = None, at_connect = C_OK, at_connect_text = [], at_ifname = Inr ''utun4'', at_rcvbuf = None\<rparr>"

definition demo_calls :: lab_calls where
  "demo_calls = \<lparr>lc_euid = 0, lc_version = None, lc_units = (\<lambda>_. demo_attempt), lc_socket = 4, lc_bind = 0, lc_listen = 0\<rparr>"

definition demo_process :: process where
  "demo_process = \<lparr>kern = [chal_knob \<mapsto> 2, ''net.inet.tcp.sendspace'' \<mapsto> 131072], pending = [], handlers_armed = False\<rparr>"

definition kernel_frame :: "u16 \<Rightarrow> u32 \<Rightarrow> u32 \<Rightarrow> u8 \<Rightarrow> bool \<Rightarrow> bytes \<Rightarrow> bytes" where
  "kernel_frame port sq ack flags sack payload =
     the (build 1504 kLocal kPeer (new_Seg\<lparr>s_sport := kPort, s_dport := port, s_seq := sq, s_ack := ack, s_flags := flags,
       s_opt := no_options\<lparr>o_sack_permitted := sack\<rparr>, s_payload := payload\<rparr>) 1)"

definition connect_script :: "u16 \<Rightarrow> u32 \<Rightarrow> bool \<Rightarrow> int \<Rightarrow> script" where
  "connect_script port isn sack syn =
     [EvNow 0, EvWrite syn [], EvNow 1, EvNow 1, EvNow 1, EvNow 1, EvPoll 1 False,
      EvRead (Inl (kernel_frame port 5000 (isn + 1) (TH_SYN OR TH_ACK) sack [])), EvNow 2, EvPoll 0 False, EvNow 3, EvNow 4, EvWrite 44 [],
      EvPoll 1 False, EvAccept 5 port []]"

definition hol_script :: script where
  "hol_script = connect_script 42000 914000 False 48
     @ [EvWrite 98304 [], EvNow 5, EvNow 5, EvNow 5, EvNow 5, EvPoll 1 False,
        EvRead (Inl (kernel_frame 42000 (5001 + 49150) 914001 TH_ACK False [1, 2, 3, 4])), EvNow 6, EvPoll 0 False, EvNow 7, EvNow 20000, EvNow 20001, EvWrite 44 []]
     @ concat (replicate 3 [EvNow 0, EvWrite (- 1) []])"

definition chal_frame :: bytes where "chal_frame = kernel_frame 45000 5001 600001 TH_ACK False []"

definition chal_script :: script where
  "chal_script = connect_script 45000 600000 True 52 @ replicate 25 (EvWrite 44 [])
     @ [EvNow 5, EvNow 5, EvNow 5, EvNow 5, EvPoll 1 False, EvRead (Inl chal_frame), EvNow 6,
        EvPoll 1 False, EvRead (Inl chal_frame), EvNow 7, EvPoll 0 False, EvNow 500, EvNow 501, EvWrite 44 []]
     @ concat (replicate 5 [EvNow 0, EvWrite (- 1) []])"

definition demo_accepts :: "string \<Rightarrow> int \<Rightarrow> bool" where "demo_accepts name v \<longleftrightarrow> 0 \<le> v"

lemma build_fits:
  assumes "wire_len (s_opt s) \<le> 40" "44 + wire_len (s_opt s) + length (s_payload s) \<le> cap"
  obtains pkt where "build cap src dst s ip = Some pkt"
  using assms by (auto simp: build_def Let_def)

lemma syn_unsent: "\<exists>p' err. establish p (EvNow t # EvWrite (- 1) e # W) = Some (Inl err, p', W)"
proof -
  obtain pkt where "build 1504 (u_peer (p_u p)) (u_local (p_u p)) (syn_seg (p_cfg p)) (u_ip_id (p_u p)) = Some pkt"
    by (rule build_fits [of "syn_seg (p_cfg p)" 1504]) (simp_all add: syn_seg_def our_seg_def new_Seg_def no_options_def wire_len_def)
  then show ?thesis by (simp add: establish_def send_syn_def utun_send_def Let_def)
qed

lemma reset_sent: "\<exists>p'. peer_reset p (EvWrite 44 e # W) = Some (p', W) \<and> p_tr p' = p_tr p"
proof -
  let ?s = "(our_seg (p_cfg p))\<lparr>s_seq := p_snd p, s_ack := 0, s_flags := TH_RST, s_win := 0\<rparr>"
  obtain pkt where b: "build 1504 (u_peer (p_u p)) (u_local (p_u p)) ?s (u_ip_id (p_u p)) = Some pkt"
    by (rule build_fits [of ?s 1504]) (simp_all add: our_seg_def new_Seg_def no_options_def wire_len_def)
  have "length pkt = 44" using build_length [OF b] by (simp add: our_seg_def new_Seg_def no_options_def wire_len_def)
  then show ?thesis using b by (simp add: peer_reset_def utun_send_def Let_def)
qed

lemma hol_arm_unsent: "\<exists>r lab'. hol_arm_run a lab sport (EvNow t # EvWrite (- 1) e # W) = Some (r, lab', W)"
  using syn_unsent [of "new_Peer (lab_utun lab) new_Trace (hol_cfg a sport)" t e W]
  by (auto simp: hol_arm_run_def run_scenario_def Let_def)

definition demo_lab1 :: Lab where "demo_lab1 = snd (lab_start demo_calls demo_process (new_Lab demo_knobs))"

definition hol_peer :: Peer where
  "hol_peer = fst (snd (the (establish (new_Peer (lab_utun demo_lab1) new_Trace (hol_cfg (hol_arms ! 0) 42000)) hol_script)))"

definition hol_received :: "RunSummary \<times> Peer \<times> LossPolicy \<times> script" where
  "hol_received = the (receive hol_peer hol_bytes 15000 (once 49152 49153) (drop 16 hol_script))"

lemma demo_lab1_started: "lab_start demo_calls demo_process (new_Lab demo_knobs) = (Inr (), demo_lab1)" "\<not> too_much demo_lab1 hol_bytes"
  by code_simp+

fun connects :: "((string + unit) \<times> Peer \<times> script) option \<Rightarrow> script \<Rightarrow> bool \<Rightarrow> bool" where
  "connects (Some (Inr _, p, W)) W' sack \<longleftrightarrow> W = W' \<and> p_peer_sack_ok p = sack"
| "connects _ _ _ \<longleftrightarrow> False"

lemma connectsD: "connects x W sack \<Longrightarrow> x = Some (Inr (), fst (snd (the x)), W) \<and> p_peer_sack_ok (fst (snd (the x))) = sack"
  by (cases "(x, W, sack)" rule: connects.cases) auto

lemma hol_connects:
  "connects (establish (new_Peer (lab_utun demo_lab1) new_Trace (hol_cfg (hol_arms ! 0) 42000)) hol_script) (drop 15 hol_script) False"
  by code_simp

fun receives :: "(RunSummary \<times> Peer \<times> LossPolicy \<times> script) option \<Rightarrow> script \<Rightarrow> bool" where
  "receives (Some (m, p, l, W)) W' \<longleftrightarrow> unfired l = [] \<and> W = W'"
| "receives None _ \<longleftrightarrow> False"

lemma hol_receives: "receives (receive hol_peer hol_bytes 15000 (once 49152 49153) (drop 16 hol_script)) (drop 27 hol_script)"
  by code_simp

lemma demo_hol: "\<exists>l rows ig. main_hol demo_calls demo_process demo_knobs hol_script = Some (Inr (HolRow l # rows, ig))"
proof -
  let ?F = "EvNow 0 # EvWrite (- 1) [] # EvNow 0 # EvWrite (- 1) [] # EvNow 0 # EvWrite (- 1) [] # []"
  have d: "drop 15 hol_script = EvWrite 98304 [] # drop 16 hol_script" "drop 27 hol_script = EvWrite 44 [] # ?F"
    by (simp_all add: hol_script_def connect_script_def numeral_eq_Suc)
  have e: "establish (new_Peer (lab_utun demo_lab1) new_Trace (hol_cfg (hol_arms ! 0) 42000)) hol_script = Some (Inr (), hol_peer, drop 15 hol_script)"
    "\<not> p_peer_sack_ok hol_peer" using connectsD [OF hol_connects] by (simp_all add: hol_peer_def)
  obtain m p l where r: "receive hol_peer hol_bytes 15000 (once 49152 49153) (drop 16 hol_script) = Some (m, p, l, drop 27 hol_script)" "unfired l = []"
    using hol_receives by (cases "receive hol_peer hol_bytes 15000 (once 49152 49153) (drop 16 hol_script)") auto
  have off: "hol_offset (hol_arms ! 0) = 49152" "(word_of_int 98304 :: u32) = hol_bytes" "\<not> ha_sack (hol_arms ! 0)" by (simp_all add: hol_offset_def hol_arms_def hol_bytes_def)
  obtain p2 where rs: "peer_reset p (EvWrite 44 [] # ?F) = Some (p2, ?F)" using reset_sent by blast
  have "\<exists>h lab. hol_arm_run (hol_arms ! 0) demo_lab1 42000 hol_script = Some (HolRow h, lab, ?F)"
    using e r off rs d demo_lab1_started(2)
    by (simp add: hol_arm_run_def run_scenario_def run_connected_def scenario_end_def once_def Let_def new_Outcome_def)
  then obtain h lab2 where a1: "hol_arm_run (hol_arms ! 0) demo_lab1 42000 hol_script = Some (HolRow h, lab2, ?F)" by blast
  obtain r2 lab3 where a2: "hol_arm_run (hol_arms ! 1) lab2 42001 ?F = Some (r2, lab3, drop 2 ?F)" using hol_arm_unsent by fastforce
  obtain r3 lab4 where a3: "hol_arm_run (hol_arms ! 2) lab3 42002 (drop 2 ?F) = Some (r3, lab4, drop 4 ?F)" using hol_arm_unsent by fastforce
  obtain r4 lab5 where a4: "hol_arm_run (hol_arms ! 3) lab4 42003 (drop 4 ?F) = Some (r4, lab5, [])" using hol_arm_unsent by fastforce
  have "hol_arms = [hol_arms ! 0, hol_arms ! 1, hol_arms ! 2, hol_arms ! 3]" by (simp add: hol_arms_def)
  then have "\<exists>sp. arms_loop hol_arm_run hol_arms demo_lab1 42000 hol_script = Some ([HolRow h, r2, r3, r4], lab5, sp, [])"
    by (rule ssubst) (use a1 a2 a3 a4 in simp)
  then show ?thesis using demo_lab1_started(1) by (auto simp: main_hol_def)
qed

theorem hol_table_sound_witness:
  "\<exists>l rows ig oc e. main_hol demo_calls demo_process demo_knobs hol_script = Some (Inr (HolRow l # rows, ig)) \<and> length rows = 3
     \<and> l = hol_line_of (read_knobs demo_process None) (hol_arms ! 0) oc \<and> filter e_dropped (tr_events (oc_trace oc)) = [e] \<and> carries_byte 49152 e"
proof -
  obtain l rows ig where m: "main_hol demo_calls demo_process demo_knobs hol_script = Some (Inr (HolRow l # rows, ig))" using demo_hol by blast
  note h = hol_table_sound [OF m]
  have "hol_offset (hol_arms ! 0) = 49152" "lc_version demo_calls = None" by (simp_all add: hol_offset_def hol_arms_def hol_bytes_def demo_calls_def)
  moreover have "length rows = 3" using h by simp
  ultimately show ?thesis using m conjunct2 [OF h, THEN spec [of _ 0], THEN spec [of _ l]] by auto
qed

definition chal_start :: chal_state where
  "chal_start = \<lparr>cs_lab = demo_lab1, cs_sport = 45000, cs_isn = 500000, cs_proc = demo_process\<rparr>"

definition chal_conn :: Peer where
  "chal_conn = fst (snd (the (establish (chal_peer (snd (make_cfg chal_start)) (fst (make_cfg chal_start))) chal_script)))"

lemma chal_conn_ports: "c_sport (p_cfg chal_conn) = 45000" "c_dport (p_cfg chal_conn) = kPort"
  by code_simp+

lemma chal_connects: "connects (establish (chal_peer (snd (make_cfg chal_start)) (fst (make_cfg chal_start))) chal_script) (drop 15 chal_script) True"
  by code_simp

text \<open>The burst: every probe is written, and the two replies are read.\<close>

lemma burst_all_sent:
  assumes "s_opt s = no_options" "s_payload s = []"
  shows "\<exists>p'. burst_send n s p r (replicate n (EvWrite 44 []) @ W) = Some (p', r\<lparr>b_sent := b_sent r + int n\<rparr>, W) \<and> p_cfg p' = p_cfg p"
proof (induction n arbitrary: p r)
  case (Suc n)
  obtain pkt where b: "build 1504 (u_peer (p_u p)) (u_local (p_u p)) s (u_ip_id (p_u p)) = Some pkt"
    by (rule build_fits [of s 1504]) (use assms in \<open>simp_all add: no_options_def wire_len_def\<close>)
  have "length pkt = 44" using build_length [OF b] assms by (simp add: no_options_def wire_len_def)
  then obtain u' where "utun_send (p_u p) s (EvWrite 44 [] # replicate n (EvWrite 44 []) @ W) = Some (Inr (), u', replicate n (EvWrite 44 []) @ W)"
    using b by (simp add: utun_send_def Let_def)
  then show ?case using Suc.IH [of "p\<lparr>p_u := u'\<rparr>" "r\<lparr>b_sent := b_sent r + 1\<rparr>"] by (simp add: algebra_simps)
qed simp

definition chal_reply :: Seg where "chal_reply = the (the (parse chal_frame new_Seg))"

lemma chal_frame_parses:
  "length chal_frame = 44" "rd32 chal_frame 0 = Some AF_INET" "parse chal_frame new_Seg = Some (Some chal_reply)"
  "s_flags chal_reply = TH_ACK" "s_dport chal_reply = 45000" "s_sport chal_reply = kPort"
  by code_simp+

lemma chal_drained:
  "\<exists>u'. drain_for u 400 [] ([EvNow 5, EvNow 5, EvNow 5, EvNow 5, EvPoll 1 False, EvRead (Inl chal_frame), EvNow 6,
      EvPoll 1 False, EvRead (Inl chal_frame), EvNow 7, EvPoll 0 False, EvNow 500] @ W) = Some (u', [chal_reply\<lparr>s_t_ms := 6\<rparr>, chal_reply\<lparr>s_t_ms := 7\<rparr>], W)"
  by (simp add: drain_for_def drain_for_loop.simps drain_def drain_turns.simps drain_turn_def read_frame_def take_frame_def Let_def chal_frame_parses)

lemma chal_answers:
  assumes "c_sport (p_cfg p) = 45000" "c_dport (p_cfg p) = kPort"
  shows "\<exists>b p'. fire (kTriggers ! 0) 400 p (replicate 25 (EvWrite 44 []) @ [EvNow 5, EvNow 5, EvNow 5, EvNow 5, EvPoll 1 False, EvRead (Inl chal_frame), EvNow 6,
      EvPoll 1 False, EvRead (Inl chal_frame), EvNow 7, EvPoll 0 False, EvNow 500] @ EvNow 501 # W) = Some (b, p', W) \<and> burst_complete b kProbes \<and> b_acks b = 2"
proof -
  let ?D = "[EvNow 5, EvNow 5, EvNow 5, EvNow 5, EvPoll 1 False, EvRead (Inl chal_frame), EvNow 6, EvPoll 1 False, EvRead (Inl chal_frame), EvNow 7, EvPoll 0 False, EvNow 500]"
  let ?s = "(our_seg (p_cfg p))\<lparr>s_seq := p_snd p + 0, s_ack := p_data_isn p + 0, s_flags := TH_SYN, s_win := c_win (p_cfg p)\<rparr>"
  let ?r = "\<lparr>b_acks = 0, b_rsts = 0, b_sent = 0, b_send_failures = 0\<rparr>"
  have "s_opt ?s = no_options" "s_payload ?s = []" by (simp_all add: our_seg_def new_Seg_def)
  from burst_all_sent [OF this, of 25 p ?r "?D @ EvNow 501 # W"] obtain p1 where
    b: "burst_send 25 ?s p ?r (replicate 25 (EvWrite 44 []) @ ?D @ EvNow 501 # W) = Some (p1, ?r\<lparr>b_sent := 25\<rparr>, ?D @ EvNow 501 # W)" "p_cfg p1 = p_cfg p" by auto
  obtain u' where d: "drain_for (p_u p1) 400 [] (?D @ EvNow 501 # W) = Some (u', [chal_reply\<lparr>s_t_ms := 6\<rparr>, chal_reply\<lparr>s_t_ms := 7\<rparr>], EvNow 501 # W)"
    using chal_drained by blast
  have us: "for_us (p_cfg p) (chal_reply\<lparr>s_t_ms := x\<rparr>)" "\<not> has_flag (s_flags chal_reply) TH_RST" "has_flag (s_flags chal_reply) TH_ACK" for x
    using assms by (simp_all add: for_us_def chal_frame_parses TH_ACK_def TH_RST_def)
  have k: "tg_flags (kTriggers ! 0) = TH_SYN" "tg_seq_off (kTriggers ! 0) = 0" "tg_ack_off (kTriggers ! 0) = 0" "nat kProbes = 25" "kProbes = 25"
    by (simp_all add: kTriggers_def kProbes_def)
  show ?thesis unfolding fire_def burst_def k Let_def using b d us
    by (simp del: replicate.simps add: burst_complete_def)
qed

lemma trigger_unsent: "\<exists>n err x'. trigger_run limit t x (EvNow u # EvWrite (- 1) e # W) = Some (TriggerUnestablished n err, x', W)"
  using syn_unsent [of "chal_peer (snd (make_cfg x)) (fst (make_cfg x))" u e W] by (auto simp: trigger_run_def split_beta)

lemma pair_unsent: "\<exists>r x'. pair_run limit t x (EvNow u # EvWrite (- 1) e # W) = Some (r, x', W)"
  using syn_unsent [of "chal_peer (snd (make_cfg (snd (make_cfg x)))) (fst (make_cfg x))" u e W] by (auto simp: pair_run_def split_beta Let_def)

lemma window_unsent: "\<exists>r x'. window_run limit t x (EvNow u # EvWrite (- 1) e # W) = Some (r, x', W)"
  using syn_unsent [of "chal_peer (snd (make_cfg x)) (fst (make_cfg x))" u e W] by (auto simp: window_run_def split_beta)

lemma control_unsent: "\<exists>r x' W'. control_run accepts limit t x (EvNow u # EvWrite (- 1) e # W) = Some (r, x', W')"
proof -
  let ?pl = "if limit \<ge> 4 then 3 else 1 :: int"
  obtain g s where g: "new_ScopedSysctl accepts (cs_proc x) chal_knob ?pl = (g, s)" by fastforce
  let ?y = "x\<lparr>cs_proc := s\<rparr>"
  obtain r x' where "control_burst ?pl t ?y (EvNow u # EvWrite (- 1) e # W) = Some (r, x', W)"
    using syn_unsent [of "chal_peer (snd (make_cfg ?y)) (fst (make_cfg ?y))" u e W] by (auto simp: control_burst_def split_beta)
  then show ?thesis using g by (cases "g_ok g") (simp_all add: control_run_def Let_def)
qed

lemma demo_chal: "\<exists>rows hits best pr wr cr v ig s'. main_challenge_ack demo_calls demo_accepts demo_process demo_knobs chal_script
    = Some (ChalReport rows hits best pr wr cr v ig, s')"
proof -
  let ?N = "[EvNow 0, EvWrite (- 1) []]"
  let ?F = "\<lambda>n. concat (replicate n ?N)"
  have d: "drop 15 chal_script = replicate 25 (EvWrite 44 []) @ [EvNow 5, EvNow 5, EvNow 5, EvNow 5, EvPoll 1 False, EvRead (Inl chal_frame), EvNow 6,
      EvPoll 1 False, EvRead (Inl chal_frame), EvNow 7, EvPoll 0 False, EvNow 500] @ EvNow 501 # EvWrite 44 [] # ?F 5"
    by (simp add: chal_script_def connect_script_def)
  have e: "establish (chal_peer (snd (make_cfg chal_start)) (fst (make_cfg chal_start))) chal_script = Some (Inr (), chal_conn, drop 15 chal_script)"
    using connectsD [OF chal_connects] by (simp add: chal_conn_def)
  obtain b p where f: "fire (kTriggers ! 0) 400 chal_conn (drop 15 chal_script) = Some (b, p, EvWrite 44 [] # ?F 5)" "burst_complete b kProbes" "b_acks b = 2"
    using chal_answers [OF chal_conn_ports] unfolding d by blast
  obtain p2 where r: "peer_reset p (EvWrite 44 [] # ?F 5) = Some (p2, ?F 5)" using reset_sent by blast
  obtain n k x1 where t1: "trigger_run 2 (kTriggers ! 0) chal_start chal_script = Some (TriggerRow n 2 k True, x1, ?F 5)"
    using e f r by (simp add: trigger_run_def split_beta)
  have F: "?F 5 = EvNow 0 # EvWrite (- 1) [] # ?F 4" "?F 4 = EvNow 0 # EvWrite (- 1) [] # ?F 3" "?F 3 = EvNow 0 # EvWrite (- 1) [] # ?F 2"
    "?F 2 = EvNow 0 # EvWrite (- 1) [] # ?F 1" "?F 1 = EvNow 0 # EvWrite (- 1) [] # []" by (simp_all add: numeral_eq_Suc)
  obtain n2 e2 x2 where t2: "trigger_run 2 (kTriggers ! 1) x1 (?F 5) = Some (TriggerUnestablished n2 e2, x2, ?F 4)" using trigger_unsent unfolding F(1) by blast
  obtain n3 e3 x3 where t3: "trigger_run 2 (kTriggers ! 2) x2 (?F 4) = Some (TriggerUnestablished n3 e3, x3, ?F 3)" using trigger_unsent unfolding F(2) by blast
  have kt: "kTriggers = [kTriggers ! 0, kTriggers ! 1, kTriggers ! 2]" by (simp add: kTriggers_def)
  have loop: "triggers_loop 2 kTriggers (hd kTriggers) 0 chal_start chal_script
      = Some ([TriggerRow n 2 k True, TriggerUnestablished n2 e2, TriggerUnestablished n3 e3], kTriggers ! 0, 1, x3, ?F 3)"
    by (subst (1) kt) (use t1 t2 t3 in \<open>simp del: concat.simps replicate.simps\<close>)
  obtain pr x4 where q1: "pair_run 2 (kTriggers ! 0) x3 (?F 3) = Some (pr, x4, ?F 2)" using pair_unsent unfolding F(3) by blast
  obtain wr x5 where q2: "window_run 2 (kTriggers ! 0) x4 (?F 2) = Some (wr, x5, ?F 1)" using window_unsent unfolding F(4) by blast
  obtain cr x6 W6 where q3: "control_run demo_accepts 2 (kTriggers ! 0) x5 (?F 1) = Some (cr, x6, W6)" using control_unsent unfolding F(5) by blast
  have lim: "k_challengeack_limit (lab_knobs demo_lab1) = 2" by code_simp
  show ?thesis using demo_lab1_started(1) lim loop q1 q2 q3
    by (simp add: main_challenge_ack_def chal_start_def [symmetric] Let_def del: triggers_loop.simps concat.simps replicate.simps)
qed

theorem challenge_restores_knobs_witness:
  "\<exists>rep s'. main_challenge_ack demo_calls demo_accepts demo_process demo_knobs chal_script = Some (rep, s') \<and> kern s' = kern demo_process
     \<and> (case rep of ChalReport _ _ _ _ _ _ restored _ \<Rightarrow> restored = 2 | _ \<Rightarrow> False)"
proof -
  obtain rows hits best pr wr cr v ig s' where m: "main_challenge_ack demo_calls demo_accepts demo_process demo_knobs chal_script
    = Some (ChalReport rows hits best pr wr cr v ig, s')" using demo_chal by blast
  have w: "writable demo_accepts demo_process" "pending demo_process = []" "sysctl_get demo_process chal_knob (- 1) = 2"
    by (auto simp: writable_def demo_accepts_def demo_process_def sysctl_get_def chal_knob_def split: if_split_asm)
  show ?thesis using m w(3) challenge_restores_knobs [OF m w(1,2)] by auto
qed

end
