(* ===== verification/Tcpcb.thy ===== *)
theory Tcpcb
  imports Segment
begin

text \<open>
  The data model of the kernel's TCP stack, \<^verbatim>\<open>reference/xnu/tcp_var.h\<close>: the control block
  \<^verbatim>\<open>struct tcpcb\<close> field by field, the structures it contains, its flag bits, and the
  predicate and update macros over it. Conventions for the whole kernel part:

  \<^item> an unsigned \<open>w\<close>-bit field is a \<open>w word\<close>, so that arithmetic wraps as in C; a field of
    type \<^verbatim>\<open>int\<close> is a mathematical integer, since its overflow is undefined in C, and every
    conversion between the two is written out;
  \<^item> a one-bit field is a \<open>bool\<close>; a list or tree head is the list of its elements; a back
    pointer is the record it points to; a pointer the model never follows is an optional
    number; list links, padding, the timer-list entry and the two flow identifiers, which
    no modelled operation reads, have no field;
  \<^item> the socket, its buffers and the Internet control block are declared outside the sources;
    their records have the fields that the modelled code reads or writes;
  \<^item> the record of the control block is built in extension steps, in the order of the
    structure's declaration.
\<close>

subsection \<open>Flag bits\<close>

definition TF_ACKNOW :: u32 where "TF_ACKNOW = 0x00001"
definition TF_DELACK :: u32 where "TF_DELACK = 0x00002"
definition TF_NODELAY :: u32 where "TF_NODELAY = 0x00004"
definition TF_NOOPT :: u32 where "TF_NOOPT = 0x00008"
definition TF_SENTFIN :: u32 where "TF_SENTFIN = 0x00010"
definition TF_REQ_SCALE :: u32 where "TF_REQ_SCALE = 0x00020"
definition TF_RCVD_SCALE :: u32 where "TF_RCVD_SCALE = 0x00040"
definition TF_REQ_TSTMP :: u32 where "TF_REQ_TSTMP = 0x00080"
definition TF_RCVD_TSTMP :: u32 where "TF_RCVD_TSTMP = 0x00100"
definition TF_SACK_PERMIT :: u32 where "TF_SACK_PERMIT = 0x00200"
definition TF_NEEDSYN :: u32 where "TF_NEEDSYN = 0x00400"
definition TF_NEEDFIN :: u32 where "TF_NEEDFIN = 0x00800"
definition TF_NOPUSH :: u32 where "TF_NOPUSH = 0x01000"
definition TF_UNUSED1 :: u32 where "TF_UNUSED1 = 0x02000"
definition TF_UNUSED2 :: u32 where "TF_UNUSED2 = 0x04000"
definition TF_UNUSED3 :: u32 where "TF_UNUSED3 = 0x08000"
definition TF_MORETOCOME :: u32 where "TF_MORETOCOME = 0x10000"
definition TF_LOCAL :: u32 where "TF_LOCAL = 0x20000"
definition TF_RXWIN0SENT :: u32 where "TF_RXWIN0SENT = 0x40000"
definition TF_SLOWLINK :: u32 where "TF_SLOWLINK = 0x80000"
definition TF_LASTIDLE :: u32 where "TF_LASTIDLE = 0x100000"
definition TF_FASTRECOVERY :: u32 where "TF_FASTRECOVERY = 0x200000"
definition TF_WASFRECOVERY :: u32 where "TF_WASFRECOVERY = 0x400000"
definition TF_SIGNATURE :: u32 where "TF_SIGNATURE = 0x800000"
definition TF_MAXSEGSNT :: u32 where "TF_MAXSEGSNT = 0x1000000"
definition TF_STREAMING_ON :: u32 where "TF_STREAMING_ON = 0x2000000"
definition TF_PMTUD :: u32 where "TF_PMTUD = 0x4000000"
definition TF_CLOSING :: u32 where "TF_CLOSING = 0x8000000"
definition TF_TSO :: u32 where "TF_TSO = 0x10000000"
definition TF_BLACKHOLE :: u32 where "TF_BLACKHOLE = 0x20000000"
definition TF_TIMER_ONLIST :: u32 where "TF_TIMER_ONLIST = 0x40000000"
definition TF_STRETCHACK :: u32 where "TF_STRETCHACK = 0x80000000"

lemmas TF_defs = TF_ACKNOW_def TF_DELACK_def TF_NODELAY_def TF_NOOPT_def TF_SENTFIN_def
  TF_REQ_SCALE_def TF_RCVD_SCALE_def TF_REQ_TSTMP_def TF_RCVD_TSTMP_def TF_SACK_PERMIT_def
  TF_NEEDSYN_def TF_NEEDFIN_def TF_NOPUSH_def TF_UNUSED1_def TF_UNUSED2_def TF_UNUSED3_def
  TF_MORETOCOME_def TF_LOCAL_def TF_RXWIN0SENT_def TF_SLOWLINK_def TF_LASTIDLE_def
  TF_FASTRECOVERY_def TF_WASFRECOVERY_def TF_SIGNATURE_def TF_MAXSEGSNT_def TF_STREAMING_ON_def
  TF_PMTUD_def TF_CLOSING_def TF_TSO_def TF_BLACKHOLE_def TF_TIMER_ONLIST_def TF_STRETCHACK_def

lemma TF_nonzero [flag_simps]:
  "TF_ACKNOW \<noteq> 0" "TF_DELACK \<noteq> 0" "TF_NODELAY \<noteq> 0" "TF_NOOPT \<noteq> 0"
  "TF_SENTFIN \<noteq> 0" "TF_REQ_SCALE \<noteq> 0" "TF_RCVD_SCALE \<noteq> 0" "TF_REQ_TSTMP
  \<noteq> 0" "TF_RCVD_TSTMP \<noteq> 0" "TF_SACK_PERMIT \<noteq> 0" "TF_NEEDSYN \<noteq> 0"
  "TF_NEEDFIN \<noteq> 0" "TF_NOPUSH \<noteq> 0" "TF_UNUSED1 \<noteq> 0" "TF_UNUSED2 \<noteq> 0"
  "TF_UNUSED3 \<noteq> 0" "TF_MORETOCOME \<noteq> 0" "TF_LOCAL \<noteq> 0" "TF_RXWIN0SENT
  \<noteq> 0" "TF_SLOWLINK \<noteq> 0" "TF_LASTIDLE \<noteq> 0" "TF_FASTRECOVERY \<noteq> 0"
  "TF_WASFRECOVERY \<noteq> 0" "TF_SIGNATURE \<noteq> 0" "TF_MAXSEGSNT \<noteq> 0"
  "TF_STREAMING_ON \<noteq> 0" "TF_PMTUD \<noteq> 0" "TF_CLOSING \<noteq> 0" "TF_TSO \<noteq> 0"
  "TF_BLACKHOLE \<noteq> 0" "TF_TIMER_ONLIST \<noteq> 0" "TF_STRETCHACK \<noteq> 0"
  by (simp_all add: TF_defs)

definition TE_SETUPSENT :: u32 where "TE_SETUPSENT = 0x00000001"
definition TE_SETUPRECEIVED :: u32 where "TE_SETUPRECEIVED = 0x00000002"
definition TE_SENDIPECT :: u32 where "TE_SENDIPECT = 0x00000004"
definition TE_SENDCWR :: u32 where "TE_SENDCWR = 0x00000008"
definition TE_SENDECE :: u32 where "TE_SENDECE = 0x00000010"
definition TE_INRECOVERY :: u32 where "TE_INRECOVERY = 0x00000020"
definition TE_RECV_ECN_CE :: u32 where "TE_RECV_ECN_CE = 0x00000040"
definition TE_RECV_ECN_ECE :: u32 where "TE_RECV_ECN_ECE = 0x00000080"
definition TE_LOST_SYN :: u32 where "TE_LOST_SYN = 0x00000100"
definition TE_LOST_SYNACK :: u32 where "TE_LOST_SYNACK = 0x00000200"
definition TE_ECN_MODE_ENABLE :: u32 where "TE_ECN_MODE_ENABLE = 0x00000400"
definition TE_ECN_MODE_DISABLE :: u32 where "TE_ECN_MODE_DISABLE = 0x00000800"
definition TE_ENABLE_ECN :: u32 where "TE_ENABLE_ECN = 0x00001000"
definition TE_CEHEURI_SET :: u32 where "TE_CEHEURI_SET = 0x00002000"
definition TE_CLIENT_SETUP :: u32 where "TE_CLIENT_SETUP = 0x00004000"
definition TE_RCVD_SYN_RST :: u32 where "TE_RCVD_SYN_RST = 0x00008000"
definition TE_ACE_SETUP_NON_ECT :: u32 where "TE_ACE_SETUP_NON_ECT = 0x00010000"
definition TE_ACE_SETUP_ECT1 :: u32 where "TE_ACE_SETUP_ECT1 = 0x00020000"
definition TE_ACE_SETUP_ECT0 :: u32 where "TE_ACE_SETUP_ECT0 = 0x00040000"
definition TE_ACE_SETUP_CE :: u32 where "TE_ACE_SETUP_CE = 0x00080000"
definition TE_ACE_SETUPSENT :: u32 where "TE_ACE_SETUPSENT = 0x00100000"
definition TE_ACE_SETUPRECEIVED :: u32 where "TE_ACE_SETUPRECEIVED = 0x00200000"
definition TE_ACE_FINAL_ACK_3WHS :: u32 where "TE_ACE_FINAL_ACK_3WHS = 0x00400000"
definition TE_ACO_ECT1 :: u32 where "TE_ACO_ECT1 = 0x00800000"
definition TE_ACO_ECT0 :: u32 where "TE_ACO_ECT0 = 0x01000000"
definition TE_RETRY_WITHOUT_ACO :: u32 where "TE_RETRY_WITHOUT_ACO = 0x02000000"
definition TE_FORCE_ECT1 :: u32 where "TE_FORCE_ECT1 = 0x40000000"
definition TE_FORCE_ECT0 :: u32 where "TE_FORCE_ECT0 = 0x80000000"

lemmas TE_defs = TE_SETUPSENT_def TE_SETUPRECEIVED_def TE_SENDIPECT_def TE_SENDCWR_def
  TE_SENDECE_def TE_INRECOVERY_def TE_RECV_ECN_CE_def TE_RECV_ECN_ECE_def TE_LOST_SYN_def
  TE_LOST_SYNACK_def TE_ECN_MODE_ENABLE_def TE_ECN_MODE_DISABLE_def TE_ENABLE_ECN_def
  TE_CEHEURI_SET_def TE_CLIENT_SETUP_def TE_RCVD_SYN_RST_def TE_ACE_SETUP_NON_ECT_def
  TE_ACE_SETUP_ECT1_def TE_ACE_SETUP_ECT0_def TE_ACE_SETUP_CE_def TE_ACE_SETUPSENT_def
  TE_ACE_SETUPRECEIVED_def TE_ACE_FINAL_ACK_3WHS_def TE_ACO_ECT1_def TE_ACO_ECT0_def
  TE_RETRY_WITHOUT_ACO_def TE_FORCE_ECT1_def TE_FORCE_ECT0_def

lemma TE_nonzero [flag_simps]:
  "TE_SETUPSENT \<noteq> 0" "TE_SETUPRECEIVED \<noteq> 0" "TE_SENDIPECT \<noteq> 0" "TE_SENDCWR
  \<noteq> 0" "TE_SENDECE \<noteq> 0" "TE_INRECOVERY \<noteq> 0" "TE_RECV_ECN_CE \<noteq> 0"
  "TE_RECV_ECN_ECE \<noteq> 0" "TE_LOST_SYN \<noteq> 0" "TE_LOST_SYNACK \<noteq> 0"
  "TE_ECN_MODE_ENABLE \<noteq> 0" "TE_ECN_MODE_DISABLE \<noteq> 0" "TE_ENABLE_ECN \<noteq> 0"
  "TE_CEHEURI_SET \<noteq> 0" "TE_CLIENT_SETUP \<noteq> 0" "TE_RCVD_SYN_RST \<noteq> 0"
  "TE_ACE_SETUP_NON_ECT \<noteq> 0" "TE_ACE_SETUP_ECT1 \<noteq> 0" "TE_ACE_SETUP_ECT0 \<noteq>
  0" "TE_ACE_SETUP_CE \<noteq> 0" "TE_ACE_SETUPSENT \<noteq> 0" "TE_ACE_SETUPRECEIVED \<noteq>
  0" "TE_ACE_FINAL_ACK_3WHS \<noteq> 0" "TE_ACO_ECT1 \<noteq> 0" "TE_ACO_ECT0 \<noteq> 0"
  "TE_RETRY_WITHOUT_ACO \<noteq> 0" "TE_FORCE_ECT1 \<noteq> 0" "TE_FORCE_ECT0 \<noteq> 0"
  by (simp_all add: TE_defs)

definition TF_RXTFINDROP :: u32 where "TF_RXTFINDROP = 0x1"
definition TF_RCVUNACK_WAITSS :: u32 where "TF_RCVUNACK_WAITSS = 0x2"
definition TF_BWMEAS_INPROGRESS :: u32 where "TF_BWMEAS_INPROGRESS = 0x4"
definition TF_MEASURESNDBW :: u32 where "TF_MEASURESNDBW = 0x8"
definition TF_LAST_IS_PSH :: u32 where "TF_LAST_IS_PSH = 0x10"
definition TF_SACK_ENABLE :: u32 where "TF_SACK_ENABLE = 0x20"
definition TF_RECOMPUTE_RTT :: u32 where "TF_RECOMPUTE_RTT = 0x40"
definition TF_DETECT_READSTALL :: u32 where "TF_DETECT_READSTALL = 0x80"
definition TF_RECV_THROTTLE :: u32 where "TF_RECV_THROTTLE = 0x100"
definition TF_NOSTRETCHACK :: u32 where "TF_NOSTRETCHACK = 0x200"
definition TF_NOTIMEWAIT :: u32 where "TF_NOTIMEWAIT = 0x800"
definition TF_SENT_TLPROBE :: u32 where "TF_SENT_TLPROBE = 0x1000"
definition TF_PKTS_REORDERED :: u32 where "TF_PKTS_REORDERED = 0x2000"
definition TF_DELAY_RECOVERY :: u32 where "TF_DELAY_RECOVERY = 0x4000"
definition TF_FORCE :: u32 where "TF_FORCE = 0x8000"
definition TF_DISABLE_STRETCHACK :: u32 where "TF_DISABLE_STRETCHACK = 0x10000"
definition TF_NOBLACKHOLE_DETECTION :: u32 where "TF_NOBLACKHOLE_DETECTION = 0x20000"
definition TF_RESCUE_RXT :: u32 where "TF_RESCUE_RXT = 0x80000"
definition TF_CWND_NONVALIDATED :: u32 where "TF_CWND_NONVALIDATED = 0x100000"
definition TF_IF_PROBING :: u32 where "TF_IF_PROBING = 0x200000"
definition TF_FASTOPEN :: u32 where "TF_FASTOPEN = 0x400000"
definition TF_REASS_INPROG :: u32 where "TF_REASS_INPROG = 0x800000"
definition TF_FASTOPEN_FORCE_ENABLE :: u32 where "TF_FASTOPEN_FORCE_ENABLE = 0x1000000"
definition TF_USR_OUTPUT :: u32 where "TF_USR_OUTPUT = 0x2000000"
definition TF_L4S_ENABLED :: u32 where "TF_L4S_ENABLED = 0x8000000"
definition TF_L4S_DISABLED :: u32 where "TF_L4S_DISABLED = 0x10000000"
definition TF_RACK_ENABLED :: u32 where "TF_RACK_ENABLED = 0x20000000"
definition TF_TLP_IS_RETRANS :: u32 where "TF_TLP_IS_RETRANS = 0x40000000"

lemmas TFX_defs = TF_RXTFINDROP_def TF_RCVUNACK_WAITSS_def TF_BWMEAS_INPROGRESS_def
  TF_MEASURESNDBW_def TF_LAST_IS_PSH_def TF_SACK_ENABLE_def TF_RECOMPUTE_RTT_def
  TF_DETECT_READSTALL_def TF_RECV_THROTTLE_def TF_NOSTRETCHACK_def TF_NOTIMEWAIT_def
  TF_SENT_TLPROBE_def TF_PKTS_REORDERED_def TF_DELAY_RECOVERY_def TF_FORCE_def
  TF_DISABLE_STRETCHACK_def TF_NOBLACKHOLE_DETECTION_def TF_RESCUE_RXT_def
  TF_CWND_NONVALIDATED_def TF_IF_PROBING_def TF_FASTOPEN_def TF_REASS_INPROG_def
  TF_FASTOPEN_FORCE_ENABLE_def TF_USR_OUTPUT_def TF_L4S_ENABLED_def TF_L4S_DISABLED_def
  TF_RACK_ENABLED_def TF_TLP_IS_RETRANS_def

lemma TFX_nonzero [flag_simps]:
  "TF_RXTFINDROP \<noteq> 0" "TF_RCVUNACK_WAITSS \<noteq> 0" "TF_BWMEAS_INPROGRESS \<noteq> 0"
  "TF_MEASURESNDBW \<noteq> 0" "TF_LAST_IS_PSH \<noteq> 0" "TF_SACK_ENABLE \<noteq> 0"
  "TF_RECOMPUTE_RTT \<noteq> 0" "TF_DETECT_READSTALL \<noteq> 0" "TF_RECV_THROTTLE \<noteq> 0"
  "TF_NOSTRETCHACK \<noteq> 0" "TF_NOTIMEWAIT \<noteq> 0" "TF_SENT_TLPROBE \<noteq> 0"
  "TF_PKTS_REORDERED \<noteq> 0" "TF_DELAY_RECOVERY \<noteq> 0" "TF_FORCE \<noteq> 0"
  "TF_DISABLE_STRETCHACK \<noteq> 0" "TF_NOBLACKHOLE_DETECTION \<noteq> 0" "TF_RESCUE_RXT
  \<noteq> 0" "TF_CWND_NONVALIDATED \<noteq> 0" "TF_IF_PROBING \<noteq> 0" "TF_FASTOPEN \<noteq>
  0" "TF_REASS_INPROG \<noteq> 0" "TF_FASTOPEN_FORCE_ENABLE \<noteq> 0" "TF_USR_OUTPUT \<noteq>
  0" "TF_L4S_ENABLED \<noteq> 0" "TF_L4S_DISABLED \<noteq> 0" "TF_RACK_ENABLED \<noteq> 0"
  "TF_TLP_IS_RETRANS \<noteq> 0"
  by (simp_all add: TFX_defs)

definition TMPF_PREESTABLISHED :: u32 where "TMPF_PREESTABLISHED = 0x00000001"
definition TMPF_SND_KEYS :: u32 where "TMPF_SND_KEYS = 0x00000002"
definition TMPF_MPTCP_TRUE :: u32 where "TMPF_MPTCP_TRUE = 0x00000004"
definition TMPF_SND_MPPRIO :: u32 where "TMPF_SND_MPPRIO = 0x00000010"
definition TMPF_SND_REM_ADDR :: u32 where "TMPF_SND_REM_ADDR = 0x00000020"
definition TMPF_RCVD_DACK :: u32 where "TMPF_RCVD_DACK = 0x00000040"
definition TMPF_JOINED_FLOW :: u32 where "TMPF_JOINED_FLOW = 0x00000080"
definition TMPF_BACKUP_PATH :: u32 where "TMPF_BACKUP_PATH = 0x00000100"
definition TMPF_MPTCP_ACKNOW :: u32 where "TMPF_MPTCP_ACKNOW = 0x00000200"
definition TMPF_SEND_DSN :: u32 where "TMPF_SEND_DSN = 0x00000400"
definition TMPF_SEND_DFIN :: u32 where "TMPF_SEND_DFIN = 0x00000800"
definition TMPF_RECV_DFIN :: u32 where "TMPF_RECV_DFIN = 0x00001000"
definition TMPF_SENT_JOIN :: u32 where "TMPF_SENT_JOIN = 0x00002000"
definition TMPF_RECVD_JOIN :: u32 where "TMPF_RECVD_JOIN = 0x00004000"
definition TMPF_RESET :: u32 where "TMPF_RESET = 0x00008000"
definition TMPF_TCP_FALLBACK :: u32 where "TMPF_TCP_FALLBACK = 0x00010000"
definition TMPF_FASTCLOSERCV :: u32 where "TMPF_FASTCLOSERCV = 0x00020000"
definition TMPF_EMBED_DSN :: u32 where "TMPF_EMBED_DSN = 0x00040000"
definition TMPF_MPTCP_READY :: u32 where "TMPF_MPTCP_READY = 0x00080000"
definition TMPF_INFIN_SENT :: u32 where "TMPF_INFIN_SENT = 0x00100000"
definition TMPF_SND_MPFAIL :: u32 where "TMPF_SND_MPFAIL = 0x00200000"
definition TMPF_SND_JACK :: u32 where "TMPF_SND_JACK = 0x00400000"
definition TMPF_TFO_REQUEST :: u32 where "TMPF_TFO_REQUEST = 0x00800000"
definition TMPF_MPTCP_ECHO_ADDR :: u32 where "TMPF_MPTCP_ECHO_ADDR = 0x01000000"

lemmas TMPF_defs = TMPF_PREESTABLISHED_def TMPF_SND_KEYS_def TMPF_MPTCP_TRUE_def
  TMPF_SND_MPPRIO_def TMPF_SND_REM_ADDR_def TMPF_RCVD_DACK_def TMPF_JOINED_FLOW_def
  TMPF_BACKUP_PATH_def TMPF_MPTCP_ACKNOW_def TMPF_SEND_DSN_def TMPF_SEND_DFIN_def
  TMPF_RECV_DFIN_def TMPF_SENT_JOIN_def TMPF_RECVD_JOIN_def TMPF_RESET_def TMPF_TCP_FALLBACK_def
  TMPF_FASTCLOSERCV_def TMPF_EMBED_DSN_def TMPF_MPTCP_READY_def TMPF_INFIN_SENT_def
  TMPF_SND_MPFAIL_def TMPF_SND_JACK_def TMPF_TFO_REQUEST_def TMPF_MPTCP_ECHO_ADDR_def

lemma TMPF_nonzero [flag_simps]:
  "TMPF_PREESTABLISHED \<noteq> 0" "TMPF_SND_KEYS \<noteq> 0" "TMPF_MPTCP_TRUE \<noteq> 0"
  "TMPF_SND_MPPRIO \<noteq> 0" "TMPF_SND_REM_ADDR \<noteq> 0" "TMPF_RCVD_DACK \<noteq> 0"
  "TMPF_JOINED_FLOW \<noteq> 0" "TMPF_BACKUP_PATH \<noteq> 0" "TMPF_MPTCP_ACKNOW \<noteq> 0"
  "TMPF_SEND_DSN \<noteq> 0" "TMPF_SEND_DFIN \<noteq> 0" "TMPF_RECV_DFIN \<noteq> 0"
  "TMPF_SENT_JOIN \<noteq> 0" "TMPF_RECVD_JOIN \<noteq> 0" "TMPF_RESET \<noteq> 0"
  "TMPF_TCP_FALLBACK \<noteq> 0" "TMPF_FASTCLOSERCV \<noteq> 0" "TMPF_EMBED_DSN \<noteq> 0"
  "TMPF_MPTCP_READY \<noteq> 0" "TMPF_INFIN_SENT \<noteq> 0" "TMPF_SND_MPFAIL \<noteq> 0"
  "TMPF_SND_JACK \<noteq> 0" "TMPF_TFO_REQUEST \<noteq> 0" "TMPF_MPTCP_ECHO_ADDR \<noteq> 0"
  by (simp_all add: TMPF_defs)

definition TFO_F_OFFER_COOKIE :: u8 where "TFO_F_OFFER_COOKIE = 0x01"
definition TFO_F_COOKIE_VALID :: u8 where "TFO_F_COOKIE_VALID = 0x02"
definition TFO_F_COOKIE_REQ :: u8 where "TFO_F_COOKIE_REQ = 0x04"
definition TFO_F_COOKIE_SENT :: u8 where "TFO_F_COOKIE_SENT = 0x08"
definition TFO_F_SYN_LOSS :: u8 where "TFO_F_SYN_LOSS = 0x10"
definition TFO_F_NO_SNDPROBING :: u8 where "TFO_F_NO_SNDPROBING = 0x20"
definition TFO_F_HEURISTIC_DONE :: u8 where "TFO_F_HEURISTIC_DONE = 0x40"

lemmas TFO_F_defs = TFO_F_OFFER_COOKIE_def TFO_F_COOKIE_VALID_def TFO_F_COOKIE_REQ_def
  TFO_F_COOKIE_SENT_def TFO_F_SYN_LOSS_def TFO_F_NO_SNDPROBING_def TFO_F_HEURISTIC_DONE_def

lemma TFO_F_nonzero [flag_simps]:
  "TFO_F_OFFER_COOKIE \<noteq> 0" "TFO_F_COOKIE_VALID \<noteq> 0" "TFO_F_COOKIE_REQ \<noteq> 0"
  "TFO_F_COOKIE_SENT \<noteq> 0" "TFO_F_SYN_LOSS \<noteq> 0" "TFO_F_NO_SNDPROBING \<noteq> 0"
  "TFO_F_HEURISTIC_DONE \<noteq> 0"
  by (simp_all add: TFO_F_defs)

definition TFO_S_SYNDATA_RCV :: u16 where "TFO_S_SYNDATA_RCV = 0x01"
definition TFO_S_COOKIEREQ_RECV :: u16 where "TFO_S_COOKIEREQ_RECV = 0x02"
definition TFO_S_COOKIE_SENT :: u16 where "TFO_S_COOKIE_SENT = 0x04"
definition TFO_S_COOKIE_INVALID :: u16 where "TFO_S_COOKIE_INVALID = 0x08"
definition TFO_S_COOKIE_REQ :: u16 where "TFO_S_COOKIE_REQ = 0x10"
definition TFO_S_COOKIE_RCV :: u16 where "TFO_S_COOKIE_RCV = 0x20"
definition TFO_S_SYN_DATA_SENT :: u16 where "TFO_S_SYN_DATA_SENT = 0x40"
definition TFO_S_SYN_DATA_ACKED :: u16 where "TFO_S_SYN_DATA_ACKED = 0x80"
definition TFO_S_SYN_LOSS :: u16 where "TFO_S_SYN_LOSS = 0x0100"
definition TFO_S_COOKIE_WRONG :: u16 where "TFO_S_COOKIE_WRONG = 0x0200"
definition TFO_S_NO_COOKIE_RCV :: u16 where "TFO_S_NO_COOKIE_RCV = 0x0400"
definition TFO_S_HEURISTICS_DISABLE :: u16 where "TFO_S_HEURISTICS_DISABLE = 0x0800"
definition TFO_S_SEND_BLACKHOLE :: u16 where "TFO_S_SEND_BLACKHOLE = 0x1000"
definition TFO_S_RECV_BLACKHOLE :: u16 where "TFO_S_RECV_BLACKHOLE = 0x2000"
definition TFO_S_ONE_BYTE_PROXY :: u16 where "TFO_S_ONE_BYTE_PROXY = 0x4000"

lemmas TFO_S_defs = TFO_S_SYNDATA_RCV_def TFO_S_COOKIEREQ_RECV_def TFO_S_COOKIE_SENT_def
  TFO_S_COOKIE_INVALID_def TFO_S_COOKIE_REQ_def TFO_S_COOKIE_RCV_def TFO_S_SYN_DATA_SENT_def
  TFO_S_SYN_DATA_ACKED_def TFO_S_SYN_LOSS_def TFO_S_COOKIE_WRONG_def TFO_S_NO_COOKIE_RCV_def
  TFO_S_HEURISTICS_DISABLE_def TFO_S_SEND_BLACKHOLE_def TFO_S_RECV_BLACKHOLE_def
  TFO_S_ONE_BYTE_PROXY_def

lemma TFO_S_nonzero [flag_simps]:
  "TFO_S_SYNDATA_RCV \<noteq> 0" "TFO_S_COOKIEREQ_RECV \<noteq> 0" "TFO_S_COOKIE_SENT \<noteq>
  0" "TFO_S_COOKIE_INVALID \<noteq> 0" "TFO_S_COOKIE_REQ \<noteq> 0" "TFO_S_COOKIE_RCV \<noteq>
  0" "TFO_S_SYN_DATA_SENT \<noteq> 0" "TFO_S_SYN_DATA_ACKED \<noteq> 0" "TFO_S_SYN_LOSS \<noteq>
  0" "TFO_S_COOKIE_WRONG \<noteq> 0" "TFO_S_NO_COOKIE_RCV \<noteq> 0" "TFO_S_HEURISTICS_DISABLE
  \<noteq> 0" "TFO_S_SEND_BLACKHOLE \<noteq> 0" "TFO_S_RECV_BLACKHOLE \<noteq> 0"
  "TFO_S_ONE_BYTE_PROXY \<noteq> 0"
  by (simp_all add: TFO_S_defs)

definition TFO_PROBE_NONE :: u8 where "TFO_PROBE_NONE = 0"
definition TFO_PROBE_PROBING :: u8 where "TFO_PROBE_PROBING = 1"
definition TFO_PROBE_WAIT_DATA :: u8 where "TFO_PROBE_WAIT_DATA = 2"

lemmas TFO_P_defs = TFO_PROBE_NONE_def TFO_PROBE_PROBING_def TFO_PROBE_WAIT_DATA_def

lemma TFO_P_nonzero [flag_simps]:
  "TFO_PROBE_PROBING \<noteq> 0" "TFO_PROBE_WAIT_DATA \<noteq> 0"
  by (simp_all add: TFO_P_defs)

subsection \<open>Structures used by the control block\<close>

text \<open>
  The fields of the socket layer that the modelled code reads or writes. \<open>sb_sel\<close> and the
  data themselves are not represented.
\<close>

record sockbuf =
  sb_cc :: u32
  sb_hiwat :: u32
  sb_lowat :: u32
  sb_mbcnt :: u32
  sb_mbmax :: u32
  sb_idealsize :: u32
  sb_flags :: u32

record socket =
  so_snd :: sockbuf
  so_rcv :: sockbuf
  so_flags :: u32
  so_flags1 :: u32
  so_state :: u32
  so_options :: u32
  so_error :: int

record ifnet =
  if_index :: nat
  if_eflags :: u32
  if_cellular :: bool

record rtentry =
  rtt_hist :: "u32 list"
  rtt_index :: nat
  rtt_expire_ts :: u32
  rtt_min :: u32

record inpcb =
  inp_socket :: socket
  inp_flags :: u32
  inp_flags2 :: u32
  inp_last_outifp :: "ifnet option"
  inp_flow_controlled :: bool
  inp_rt :: "rtentry option"
  inp_txbytes :: u64
  inp_rxbytes :: u64

datatype tcpt =
    TCPT_PTO | TCPT_DELAYFR | TCPT_REXMT | TCPT_REORDER | TCPT_PERSIST | TCPT_KEEP | TCPT_2MSL
  | TCPT_DELACK | TCPT_JACK_RXMT | TCPT_CELLICON

datatype tcp_state =
    TCPS_CLOSED | TCPS_LISTEN | TCPS_SYN_SENT | TCPS_SYN_RECEIVED | TCPS_ESTABLISHED
  | TCPS_CLOSE_WAIT | TCPS_FIN_WAIT_1 | TCPS_CLOSING | TCPS_LAST_ACK | TCPS_FIN_WAIT_2
  | TCPS_TIME_WAIT

record tcphdr =
  th_seq :: u32
  th_ack :: u32
  th_flags :: u8
  th_win :: u16
  th_urp :: u16

datatype ip_ecn = IPTOS_ECN_NOTECT | IPTOS_ECN_ECT1 | IPTOS_ECN_ECT0 | IPTOS_ECN_CE

definition TH_ECE :: u8 where "TH_ECE = 0x40"
definition TH_CWR :: u8 where "TH_CWR = 0x80"

record tseg_qent =
  tqe_len :: int
  tqe_th :: tcphdr
  tqe_m :: bytes

record sackblk =
  sb_start :: u32
  sb_end :: u32

record sackhole =
  sh_start :: u32
  sh_end :: u32
  sh_rxmit :: u32
  sh_rxmit_start :: u32

record sackhint_t =
  nexthole :: "nat option"
  sack_bytes_rexmit :: int
  sack_bytes_acked :: int

record tcp_rxt_seg =
  rx_start :: u32
  rx_end :: u32
  rx_count :: u16
  rx_flags :: u16

record tcp_seg_sent =
  start_seq :: u32
  end_seq :: u32
  xmit_ts :: u32
  seg_flags :: u8

record tcp_notify_ack_marker =
  notify_snd_una :: u32
  notify_id :: u32

record bwmeas =
  bw_start :: u32
  bw_ts :: u32
  bw_size :: u32
  bw_minsizepkts :: u32
  bw_maxsizepkts :: u32
  bw_minsize :: u32
  bw_maxsize :: u32
  bw_sndbw :: u32
  bw_sndbw_max :: u32
  bw_rcvbw_max :: u32

record mpt_dsn_map =
  mpt_dsn :: u64
  mpt_sseq :: u32
  mpt_len :: u16
  mpt_csum :: u16
  mpt_dfin :: u8

text \<open>
  The three states of the congestion-control union. They share storage in C; a record with
  the three side by side is faithful because the union is cleared whenever the algorithm
  changes. The \<^verbatim>\<open>float\<close> parameter of CUBIC is a rational number (theory \<open>Cubic\<close> rounds).
\<close>

record tcp_cubic_state =
  tc_last_max :: u32
  tc_epoch_start :: u32
  tc_origin_point :: u32
  tc_tcp_win :: u32
  tc_tcp_bytes_acked :: u32
  tc_avg_lastmax :: u32
  tc_mean_deviation :: u32
  tc_epoch_period :: rat

record tcp_prague_state =
  num_cong_events_loss :: u16
  num_cong_events_ce :: u16
  packets_acked :: u32
  packets_marked :: u32
  ce_counter :: u32
  prague_bytes_acked :: u32
  snd_nxt_alpha :: u32
  snd_nxt_cwr :: u32
  ever_saw_ce :: bool
  in_loss :: bool
  reduced_due_to_ce :: bool
  scaled_alpha :: u64
  alpha_ai :: u64
  cubic_state :: tcp_cubic_state

record tcp_ledbat_state =
  num_slowdown_events :: u32
  slowdown_ts :: u32
  slowdown_begin :: u32
  md_bytes_acked :: u32

record tcp_ccstate =
  u_cubic :: tcp_cubic_state
  u_prague :: tcp_prague_state
  u_ledbat :: tcp_ledbat_state

record tcp_rledbat_state =
  rl_num_slowdown_events :: u32
  rl_slowdown_ts :: u32
  rl_slowdown_begin :: u32
  rl_reduction_end :: u32
  rl_rcvd_bytes :: u32
  rl_md_rcvd_bytes :: u32
  rl_win :: u32
  rl_ssthresh :: u32
  rl_drained_bytes :: u32
  rl_win_ws :: u32

record accecn =
  t_rcv_ce_packets :: u32
  t_snd_ce_packets :: u32
  t_delta_ce_packets :: u32
  accecn_processed :: bool
  t_rcv_ect1_bytes :: u64
  t_rcv_ect0_bytes :: u64
  t_rcv_ce_bytes :: u64
  t_snd_ect1_bytes :: u64
  t_snd_ect0_bytes :: u64
  t_snd_ce_bytes :: u64

record pacer =
  pc_rate :: u64
  pc_tso_burst_size :: u32
  pc_current_size :: u32
  pc_packet_tx_time :: u64

record tcp_stat =
  rxduplicatebytes :: u32
  rxoutoforderbytes :: u32
  txretransmitbytes :: u32
  synrxtshift :: u16
  rxmitsyns :: u16
  rxmitpkts :: u32
  delayed_acks_sent :: u32
  acks_delayed :: u32

record tcp_rack =
  rk_xmit_ts :: u32
  rk_end_seq :: u32
  rk_rtt :: u32
  rk_dsack_round_end :: u32
  rk_reo_wnd :: u32
  rk_reo_wnd_multi :: u8
  rk_reo_wnd_persist :: u8
  rk_advanced :: bool
  rk_dsack_round_seen :: bool
  rk_segs_retransmitted :: bool

subsection \<open>The control block\<close>

record tcpcb_conn =
  t_segq :: "tseg_qent list"
  t_dupacks :: u32
  t_state :: tcp_state
  t_timer :: "tcpt \<Rightarrow> u32"
  t_inpcb :: inpcb
  t_flags :: u32
  snd_una :: u32
  snd_max :: u32
  snd_nxt :: u32
  snd_up :: u32
  snd_wl1 :: u32
  snd_wl2 :: u32
  iss :: u32
  irs :: u32
  rcv_nxt :: u32
  rcv_adv :: u32
  rcv_wnd :: u32
  t_last_recwin :: u32
  rcv_up :: u32
  snd_wnd :: u32
  snd_cwnd :: u32
  snd_ssthresh :: u32
  snd_recover :: u32
  t_maxopd :: u32
  t_rcvtime :: u32
  t_sndtime :: u32
  t_starttime :: u32
  t_rtttime :: int
  t_rtseq :: u32
  rfbuf_ts :: u32
  rfbuf_cnt :: u32
  rfbuf_space :: u32

record tcpcb_rtt = tcpcb_conn +
  t_rxtcur :: int
  t_maxseg :: u32
  t_srtt :: int
  t_rttvar :: int
  t_accsleep_ms :: u64
  t_reassqlen :: u32
  t_reassq_mbcnt :: u32
  t_rxtshift :: u16
  t_rttmin :: u32
  t_rttbest :: u32
  t_rttcur :: u32
  t_rttupdated :: u32
  t_rxt_conndroptime :: u32
  t_rxtstart :: u32
  max_sndwnd :: u32
  t_softerror :: int
  t_oobflags :: u8
  t_iobc :: u8
  snd_scale :: u8
  rcv_scale :: u8
  request_r_scale :: u8
  requested_s_scale :: u8
  tcp_cc_index :: u8
  t_adaptive_rtimo :: u8
  t_adaptive_wtimo :: u8
  t_stretchack_delayed :: u8
  t_early_rexmt_count :: u16
  t_early_rexmt_win :: u32
  ts_recent :: u32
  ts_recent_age :: u32
  last_ack_sent :: u32
  t_bytes_acked :: u32
  total_ect_packets_marked :: u32
  total_ect_packets_acked :: u32
  t_lastchain :: int
  t_unacksegs :: u16
  t_unacksegs_ce :: u16
  t_forced_acks :: u16
  t_rexmtthresh :: u8
  t_rtimo_probes :: u8
  t_persist_timeout :: u32
  t_persist_stop :: u32
  t_notsent_lowat :: u32
  rcv_unackwin :: u32
  rcv_by_unackwin :: u32
  rcv_by_unackhalfwin :: u32
  rcv_nostrack_ts :: u32
  rcv_nostrack_pkts :: u32
  rcv_waitforss :: u16

record tcpcb_ecn = tcpcb_rtt +
  ecn_flags :: u32
  t_ecn_recv_ce :: u32
  t_ecn_recv_cwr :: u32
  t_client_accecn_state :: u32
  t_server_accecn_state :: u32
  t_ecn_capable_packets_sent :: u64
  t_ecn_capable_packets_acked :: u64
  t_ecn_capable_packets_marked :: u64
  t_ecn_capable_packets_lost :: u64
  t_last_ack_tsecr :: u32
  t_prev_ace_flags :: u16
  t_prev_ip_ecn :: u8
  t_aecn :: accecn
  t_pacer :: pacer
  snd_cwnd_prev :: u32
  snd_ssthresh_prev :: u32
  snd_recover_prev :: u32
  t_srtt_prev :: int
  t_rttvar_prev :: int
  t_badrexmt_time :: u32
  t_reorderwin :: u32
  snd_numholes :: u16
  snd_holes :: "sackhole list"
  snd_fack :: u32
  rcv_numsacks :: int
  sackblks :: "sackblk list"
  sackhint :: sackhint_t
  t_pktlist_head :: "nat option"
  t_pktlist_tail :: "nat option"
  t_pktlist_sentlen :: u32
  t_keepidle :: u32
  t_keepinit :: u32
  t_keepintvl :: u32
  t_keepcnt :: u32
  tso_max_segment_size :: u32
  t_pmtud_lastseg_size :: u16
  t_pmtud_saved_maxopd :: u32
  t_pmtud_start_ts :: u32
  t_stat :: tcp_stat
  t_syn_sent :: u8
  t_syn_rcvd :: u8
  t_notify_ack_count :: u8
  t_ecn_recv_ce_pkt :: u8
  t_cached_maxopd :: u32

record tcpcb_ext = tcpcb_ecn +
  bg_ssthresh :: u32
  t_flagsext :: u32
  iaj_rcv_ts :: u32
  iaj_size :: int
  iaj_small_pkt :: u8
  t_pipeack_ind :: u8
  iaj_pktcnt :: u16
  acc_iaj :: u32
  avg_iaj :: u32
  std_dev_iaj :: u32
  t_bwmeas :: "bwmeas option"
  t_idleat :: u32
  t_fin_sent :: u8
  t_fin_rcvd :: u8
  t_rst_sent :: u8
  t_rst_rcvd :: u8
  t_ccstate :: "tcp_ccstate option"
  t_tlphighrxt :: u32
  t_tlphightrxt_persist :: u32
  t_tlpstart :: u32
  t_dsack_lseq :: u32
  t_dsack_rseq :: u32
  t_rxt_segments :: "tcp_rxt_seg list"
  t_rxt_seg_count :: u32
  t_rxt_seg_drop :: u32
  t_dsack_lastuna :: u32
  t_pipeack_sample :: "u32 list"
  t_pipeack_lastuna :: u32
  t_pipeack :: u32
  t_lossflightsize :: u32
  t_mpflags :: u32
  t_mpuna :: u32
  t_mptcb :: "nat option"
  t_mpsub :: "nat option"
  t_rcv_map :: mpt_dsn_map
  t_local_aid :: u8
  t_rem_aid :: u8
  t_mprxtshift :: u8
  t_tfo_flags :: u8
  t_tfo_stats :: u16
  t_tfo_probes :: u8
  t_tfo_probe_state :: u8

record tcpcb = tcpcb_ext +
  t_rcvoopack :: u32
  t_pawsdrop :: u32
  t_sack_recovery_episode :: u32
  t_rack_recovery_episode :: u32
  t_rack_reo_timeout_recovery_episode :: u32
  t_reordered_pkts :: u32
  t_dsack_sent :: u32
  t_dsack_recvd :: u32
  t_notify_ack :: "tcp_notify_ack_marker list"
  t_recv_throttle_ts :: u32
  t_rxt_minimum_timeout :: u32
  t_challengeack_last :: u32
  t_challengeack_count :: u32
  t_connect_time :: u32
  t_rcvwnd_limited_total_time :: u64
  t_rcvwnd_limited_start_time :: u64
  t_comp_rxmt_gencnt :: u32
  t_comp_ack_gencnt :: u32
  t_comp_ack_lastinc :: u32
  t_ts_offset :: u32
  curr_rtt_hist :: "u32 list"
  curr_rtt_min :: u32
  curr_rtt_index :: u32
  rcv_high :: u32
  tsv_high :: u32
  t_rlstate :: tcp_rledbat_state
  rcv_srtt :: u32
  rcv_rtt_est_ts :: u32
  rcv_rtt_est_seq :: u32
  t_segs_sent :: "tcp_seg_sent list"
  t_segs_sent_tree :: "tcp_seg_sent list"
  t_segs_acked :: "tcp_seg_sent list"
  seg_pool_count :: u32
  rack :: tcp_rack
  bytes_lost :: u32
  bytes_retransmitted :: u32
  bytes_sacked :: u32

subsection \<open>The cleared control block\<close>

text \<open>All fields zero, as after \<^verbatim>\<open>bzero\<close>; the reference point for concrete states.\<close>

definition sockbuf_zero :: sockbuf where
  "sockbuf_zero =
     \<lparr>sb_cc = 0, sb_hiwat = 0, sb_lowat = 0, sb_mbcnt = 0, sb_mbmax = 0, sb_idealsize
      = 0, sb_flags = 0\<rparr>"

definition socket_zero :: socket where
  "socket_zero =
     \<lparr>so_snd = sockbuf_zero, so_rcv = sockbuf_zero, so_flags = 0, so_flags1 = 0,
      so_state = 0, so_options = 0, so_error = 0\<rparr>"

definition inpcb_zero :: inpcb where
  "inpcb_zero =
     \<lparr>inp_socket = socket_zero, inp_flags = 0, inp_flags2 = 0, inp_last_outifp =
      None, inp_flow_controlled = False, inp_rt = None, inp_txbytes = 0, inp_rxbytes = 0\<rparr>"

definition sackhint_t_zero :: sackhint_t where
  "sackhint_t_zero =
     \<lparr>nexthole = None, sack_bytes_rexmit = 0, sack_bytes_acked = 0\<rparr>"

definition tcp_stat_zero :: tcp_stat where
  "tcp_stat_zero =
     \<lparr>rxduplicatebytes = 0, rxoutoforderbytes = 0, txretransmitbytes = 0, synrxtshift
      = 0, rxmitsyns = 0, rxmitpkts = 0, delayed_acks_sent = 0, acks_delayed = 0\<rparr>"

definition accecn_zero :: accecn where
  "accecn_zero =
     \<lparr>t_rcv_ce_packets = 0, t_snd_ce_packets = 0, t_delta_ce_packets = 0,
      accecn_processed = False, t_rcv_ect1_bytes = 0, t_rcv_ect0_bytes = 0, t_rcv_ce_bytes =
      0, t_snd_ect1_bytes = 0, t_snd_ect0_bytes = 0, t_snd_ce_bytes = 0\<rparr>"

definition pacer_zero :: pacer where
  "pacer_zero =
     \<lparr>pc_rate = 0, pc_tso_burst_size = 0, pc_current_size = 0, pc_packet_tx_time = 0\<rparr>"

definition mpt_dsn_map_zero :: mpt_dsn_map where
  "mpt_dsn_map_zero =
     \<lparr>mpt_dsn = 0, mpt_sseq = 0, mpt_len = 0, mpt_csum = 0, mpt_dfin = 0\<rparr>"

definition tcp_rledbat_state_zero :: tcp_rledbat_state where
  "tcp_rledbat_state_zero =
     \<lparr>rl_num_slowdown_events = 0, rl_slowdown_ts = 0, rl_slowdown_begin = 0,
      rl_reduction_end = 0, rl_rcvd_bytes = 0, rl_md_rcvd_bytes = 0, rl_win = 0, rl_ssthresh
      = 0, rl_drained_bytes = 0, rl_win_ws = 0\<rparr>"

definition tcp_rack_zero :: tcp_rack where
  "tcp_rack_zero =
     \<lparr>rk_xmit_ts = 0, rk_end_seq = 0, rk_rtt = 0, rk_dsack_round_end = 0, rk_reo_wnd
      = 0, rk_reo_wnd_multi = 0, rk_reo_wnd_persist = 0, rk_advanced = False,
      rk_dsack_round_seen = False, rk_segs_retransmitted = False\<rparr>"

definition tcphdr_zero :: tcphdr where
  "tcphdr_zero =
     \<lparr>th_seq = 0, th_ack = 0, th_flags = 0, th_win = 0, th_urp = 0\<rparr>"

definition tcp_cubic_state_zero :: tcp_cubic_state where
  "tcp_cubic_state_zero =
     \<lparr>tc_last_max = 0, tc_epoch_start = 0, tc_origin_point = 0, tc_tcp_win = 0,
      tc_tcp_bytes_acked = 0, tc_avg_lastmax = 0, tc_mean_deviation = 0, tc_epoch_period = 0\<rparr>"

definition tcp_prague_state_zero :: tcp_prague_state where
  "tcp_prague_state_zero =
     \<lparr>num_cong_events_loss = 0, num_cong_events_ce = 0, packets_acked = 0,
      packets_marked = 0, ce_counter = 0, prague_bytes_acked = 0, snd_nxt_alpha = 0,
      snd_nxt_cwr = 0, ever_saw_ce = False, in_loss = False, reduced_due_to_ce = False,
      scaled_alpha = 0, alpha_ai = 0, cubic_state = tcp_cubic_state_zero\<rparr>"

definition tcp_ledbat_state_zero :: tcp_ledbat_state where
  "tcp_ledbat_state_zero =
     \<lparr>num_slowdown_events = 0, slowdown_ts = 0, slowdown_begin = 0, md_bytes_acked =
      0\<rparr>"

definition tcp_ccstate_zero :: tcp_ccstate where
  "tcp_ccstate_zero =
     \<lparr>u_cubic = tcp_cubic_state_zero, u_prague = tcp_prague_state_zero, u_ledbat =
      tcp_ledbat_state_zero\<rparr>"

definition tcpcb_zero :: tcpcb where
  "tcpcb_zero =
     \<lparr>t_segq = [], t_dupacks = 0, t_state = TCPS_CLOSED, t_timer = \<lambda>_. 0,
      t_inpcb = inpcb_zero, t_flags = 0, snd_una = 0, snd_max = 0, snd_nxt = 0, snd_up = 0,
      snd_wl1 = 0, snd_wl2 = 0, iss = 0, irs = 0, rcv_nxt = 0, rcv_adv = 0, rcv_wnd = 0,
      t_last_recwin = 0, rcv_up = 0, snd_wnd = 0, snd_cwnd = 0, snd_ssthresh = 0,
      snd_recover = 0, t_maxopd = 0, t_rcvtime = 0, t_sndtime = 0, t_starttime = 0,
      t_rtttime = 0, t_rtseq = 0, rfbuf_ts = 0, rfbuf_cnt = 0, rfbuf_space = 0, t_rxtcur =
      0, t_maxseg = 0, t_srtt = 0, t_rttvar = 0, t_accsleep_ms = 0, t_reassqlen = 0,
      t_reassq_mbcnt = 0, t_rxtshift = 0, t_rttmin = 0, t_rttbest = 0, t_rttcur = 0,
      t_rttupdated = 0, t_rxt_conndroptime = 0, t_rxtstart = 0, max_sndwnd = 0, t_softerror
      = 0, t_oobflags = 0, t_iobc = 0, snd_scale = 0, rcv_scale = 0, request_r_scale = 0,
      requested_s_scale = 0, tcp_cc_index = 0, t_adaptive_rtimo = 0, t_adaptive_wtimo = 0,
      t_stretchack_delayed = 0, t_early_rexmt_count = 0, t_early_rexmt_win = 0, ts_recent =
      0, ts_recent_age = 0, last_ack_sent = 0, t_bytes_acked = 0, total_ect_packets_marked =
      0, total_ect_packets_acked = 0, t_lastchain = 0, t_unacksegs = 0, t_unacksegs_ce = 0,
      t_forced_acks = 0, t_rexmtthresh = 0, t_rtimo_probes = 0, t_persist_timeout = 0,
      t_persist_stop = 0, t_notsent_lowat = 0, rcv_unackwin = 0, rcv_by_unackwin = 0,
      rcv_by_unackhalfwin = 0, rcv_nostrack_ts = 0, rcv_nostrack_pkts = 0, rcv_waitforss =
      0, ecn_flags = 0, t_ecn_recv_ce = 0, t_ecn_recv_cwr = 0, t_client_accecn_state = 0,
      t_server_accecn_state = 0, t_ecn_capable_packets_sent = 0, t_ecn_capable_packets_acked
      = 0, t_ecn_capable_packets_marked = 0, t_ecn_capable_packets_lost = 0,
      t_last_ack_tsecr = 0, t_prev_ace_flags = 0, t_prev_ip_ecn = 0, t_aecn = accecn_zero,
      t_pacer = pacer_zero, snd_cwnd_prev = 0, snd_ssthresh_prev = 0, snd_recover_prev = 0,
      t_srtt_prev = 0, t_rttvar_prev = 0, t_badrexmt_time = 0, t_reorderwin = 0,
      snd_numholes = 0, snd_holes = [], snd_fack = 0, rcv_numsacks = 0, sackblks = replicate
      6 \<lparr>sb_start = 0, sb_end = 0\<rparr>, sackhint = sackhint_t_zero, t_pktlist_head
      = None, t_pktlist_tail = None, t_pktlist_sentlen = 0, t_keepidle = 0, t_keepinit = 0,
      t_keepintvl = 0, t_keepcnt = 0, tso_max_segment_size = 0, t_pmtud_lastseg_size = 0,
      t_pmtud_saved_maxopd = 0, t_pmtud_start_ts = 0, t_stat = tcp_stat_zero, t_syn_sent =
      0, t_syn_rcvd = 0, t_notify_ack_count = 0, t_ecn_recv_ce_pkt = 0, t_cached_maxopd = 0,
      bg_ssthresh = 0, t_flagsext = 0, iaj_rcv_ts = 0, iaj_size = 0, iaj_small_pkt = 0,
      t_pipeack_ind = 0, iaj_pktcnt = 0, acc_iaj = 0, avg_iaj = 0, std_dev_iaj = 0, t_bwmeas
      = None, t_idleat = 0, t_fin_sent = 0, t_fin_rcvd = 0, t_rst_sent = 0, t_rst_rcvd = 0,
      t_ccstate = None, t_tlphighrxt = 0, t_tlphightrxt_persist = 0, t_tlpstart = 0,
      t_dsack_lseq = 0, t_dsack_rseq = 0, t_rxt_segments = [], t_rxt_seg_count = 0,
      t_rxt_seg_drop = 0, t_dsack_lastuna = 0, t_pipeack_sample = [0, 0, 0],
      t_pipeack_lastuna = 0, t_pipeack = 0, t_lossflightsize = 0, t_mpflags = 0, t_mpuna =
      0, t_mptcb = None, t_mpsub = None, t_rcv_map = mpt_dsn_map_zero, t_local_aid = 0,
      t_rem_aid = 0, t_mprxtshift = 0, t_tfo_flags = 0, t_tfo_stats = 0, t_tfo_probes = 0,
      t_tfo_probe_state = 0, t_rcvoopack = 0, t_pawsdrop = 0, t_sack_recovery_episode = 0,
      t_rack_recovery_episode = 0, t_rack_reo_timeout_recovery_episode = 0, t_reordered_pkts
      = 0, t_dsack_sent = 0, t_dsack_recvd = 0, t_notify_ack = [], t_recv_throttle_ts = 0,
      t_rxt_minimum_timeout = 0, t_challengeack_last = 0, t_challengeack_count = 0,
      t_connect_time = 0, t_rcvwnd_limited_total_time = 0, t_rcvwnd_limited_start_time = 0,
      t_comp_rxmt_gencnt = 0, t_comp_ack_gencnt = 0, t_comp_ack_lastinc = 0, t_ts_offset =
      0, curr_rtt_hist = [0, 0, 0, 0], curr_rtt_min = 0, curr_rtt_index = 0, rcv_high = 0,
      tsv_high = 0, t_rlstate = tcp_rledbat_state_zero, rcv_srtt = 0, rcv_rtt_est_ts = 0,
      rcv_rtt_est_seq = 0, t_segs_sent = [], t_segs_sent_tree = [], t_segs_acked = [],
      seg_pool_count = 0, rack = tcp_rack_zero, bytes_lost = 0, bytes_retransmitted = 0,
      bytes_sacked = 0\<rparr>"

text \<open>The options of one received segment, filled in by the option parser.\<close>

record tcpopt =
  to_flags :: u32
  to_tsval :: u32
  to_tsecr :: u32
  to_mss :: u16
  to_requested_s_scale :: u8
  to_nsacks :: u8
  to_sacks :: bytes
  to_tfo :: bytes
  to_num_accecn :: u8
  to_accecn :: bytes
  to_accecn_order :: u8

definition TOF_TS :: u32 where "TOF_TS = 0x0001"
definition TOF_MSS :: u32 where "TOF_MSS = 0x0010"
definition TOF_SCALE :: u32 where "TOF_SCALE = 0x0020"
definition TOF_SACK :: u32 where "TOF_SACK = 0x0100"
definition TOF_MPTCP :: u32 where "TOF_MPTCP = 0x0200"
definition TOF_TFO :: u32 where "TOF_TFO = 0x0400"
definition TOF_TFOREQ :: u32 where "TOF_TFOREQ = 0x0800"

lemmas TOF_defs = TOF_TS_def TOF_MSS_def TOF_SCALE_def TOF_SACK_def TOF_MPTCP_def TOF_TFO_def
  TOF_TFOREQ_def

definition TCP_RTT_SCALE :: int where "TCP_RTT_SCALE = 32"
definition TCP_RTT_SHIFT :: nat where "TCP_RTT_SHIFT = 5"
definition TCP_RTTVAR_SCALE :: int where "TCP_RTTVAR_SCALE = 16"
definition TCP_RTTVAR_SHIFT :: nat where "TCP_RTTVAR_SHIFT = 4"
definition TCP_DELTA_SHIFT :: nat where "TCP_DELTA_SHIFT = 2"
definition TCP_RETRANSHZ :: u32 where "TCP_RETRANSHZ = 1000"

lemmas rtt_defs = TCP_RTT_SCALE_def TCP_RTT_SHIFT_def TCP_RTTVAR_SCALE_def TCP_RTTVAR_SHIFT_def
  TCP_DELTA_SHIFT_def

subsection \<open>Predicates over the control block\<close>

definition IN_FASTRECOVERY :: "tcpcb \<Rightarrow> bool" where
  "IN_FASTRECOVERY tp \<longleftrightarrow> has_flag (t_flags tp) TF_FASTRECOVERY"

definition SACK_ENABLED :: "tcpcb \<Rightarrow> bool" where
  "SACK_ENABLED tp \<longleftrightarrow> has_flag (t_flagsext tp) TF_SACK_ENABLE"

definition TFO_ENABLED :: "tcpcb \<Rightarrow> bool" where
  "TFO_ENABLED tp \<longleftrightarrow> has_flag (t_flagsext tp) TF_FASTOPEN"

definition TCP_RACK_ENABLED :: "tcpcb \<Rightarrow> bool" where
  "TCP_RACK_ENABLED tp \<longleftrightarrow> has_flag (t_flagsext tp) TF_RACK_ENABLED \<and> SACK_ENABLED tp \<and> \<not> TFO_ENABLED tp"

definition tcp_sent_tlp_retrans :: "tcpcb \<Rightarrow> bool" where
  "tcp_sent_tlp_retrans tp \<longleftrightarrow>
     t_flagsext tp AND (TF_SENT_TLPROBE OR TF_TLP_IS_RETRANS) = TF_SENT_TLPROBE OR TF_TLP_IS_RETRANS"

definition ALLOW_LIMITED_TRANSMIT :: "tcpcb \<Rightarrow> bool" where
  "ALLOW_LIMITED_TRANSMIT tp \<longleftrightarrow>
     t_dupacks tp > 0 \<and> t_dupacks tp < ucast (t_rexmtthresh tp) \<and>
     t_flagsext tp AND (TF_PKTS_REORDERED OR TF_DELAY_RECOVERY) \<noteq> TF_PKTS_REORDERED OR TF_DELAY_RECOVERY"

definition TSTMP_SUPPORTED :: "tcpcb \<Rightarrow> bool" where
  "TSTMP_SUPPORTED tp \<longleftrightarrow> t_flags tp AND (TF_REQ_TSTMP OR TF_RCVD_TSTMP) = TF_REQ_TSTMP OR TF_RCVD_TSTMP"

definition TCP_WINDOW_SCALE_ENABLED :: "tcpcb \<Rightarrow> bool" where
  "TCP_WINDOW_SCALE_ENABLED tp \<longleftrightarrow>
     t_flags tp AND (TF_RCVD_SCALE OR TF_REQ_SCALE) = TF_RCVD_SCALE OR TF_REQ_SCALE"

definition TE_ECN_ON :: u32 where "TE_ECN_ON = TE_SETUPSENT OR TE_SETUPRECEIVED"
definition TE_ACC_ECN_ON :: u32 where "TE_ACC_ECN_ON = TE_ACE_SETUPSENT OR TE_ACE_SETUPRECEIVED"

definition TCP_ECN_ENABLED :: "tcpcb \<Rightarrow> bool" where
  "TCP_ECN_ENABLED tp \<longleftrightarrow> ecn_flags tp AND TE_ECN_ON = TE_ECN_ON"

definition tcp_l4s_developer_enable :: int where "tcp_l4s_developer_enable = 1"
definition tcp_l4s_developer_disable :: int where "tcp_l4s_developer_disable = 2"

text \<open>The two sysctl variables of L4S are arguments.\<close>

definition TCP_L4S_DISABLED :: "int \<Rightarrow> tcpcb \<Rightarrow> bool" where
  "TCP_L4S_DISABLED tcp_l4s_developer tp \<longleftrightarrow>
     tcp_l4s_developer = tcp_l4s_developer_disable \<or> t_flagsext tp AND TF_L4S_DISABLED = 1"

definition TCP_L4S_ENABLED :: "int \<Rightarrow> int \<Rightarrow> tcpcb \<Rightarrow> bool" where
  "TCP_L4S_ENABLED tcp_l4s_developer tcp_l4s tp \<longleftrightarrow>
     \<not> TCP_L4S_DISABLED tcp_l4s_developer tp \<and>
     (tcp_l4s_developer = tcp_l4s_developer_enable \<or> tcp_l4s = 1 \<or> has_flag (t_flagsext tp) TF_L4S_ENABLED)"

definition TCP_ACC_ECN_ON :: "int \<Rightarrow> int \<Rightarrow> tcpcb \<Rightarrow> bool" where
  "TCP_ACC_ECN_ON tcp_l4s_developer tcp_l4s tp \<longleftrightarrow>
     TCP_L4S_ENABLED tcp_l4s_developer tcp_l4s tp \<and> ecn_flags tp AND TE_ACC_ECN_ON = TE_ACC_ECN_ON"

definition BYTES_ACKED :: "tcphdr \<Rightarrow> tcpcb \<Rightarrow> u32" where
  "BYTES_ACKED th tp = th_ack th - snd_una tp"

definition TCP_SEND_DSACK_OPT :: "tcpcb \<Rightarrow> bool" where
  "TCP_SEND_DSACK_OPT tp \<longleftrightarrow> t_dsack_lseq tp > 0 \<and> t_dsack_rseq tp > 0"

definition TCP_DSACK_MAX_SEND_WINDOW :: "u32 \<Rightarrow> tcpcb \<Rightarrow> u32" where
  "TCP_DSACK_MAX_SEND_WINDOW tcp_autosndbuf_max tp = min (snd_wnd tp) tcp_autosndbuf_max"

definition TCP_DSACK_SEQ_IN_WINDOW :: "u32 \<Rightarrow> tcpcb \<Rightarrow> u32 \<Rightarrow> u32 \<Rightarrow> bool" where
  "TCP_DSACK_SEQ_IN_WINDOW tcp_autosndbuf_max tp sq una \<longleftrightarrow>
     seq_leq sq (snd_max tp) \<and> seq_geq sq (una - TCP_DSACK_MAX_SEND_WINDOW tcp_autosndbuf_max tp)"

definition TCP_IF_STATE_CHANGED :: "tcpcb \<Rightarrow> nat \<Rightarrow> bool" where
  "TCP_IF_STATE_CHANGED tp probe_if_index \<longleftrightarrow>
     probe_if_index > 0 \<and>
     (case inp_last_outifp (t_inpcb tp) of None \<Rightarrow> False | Some ifp \<Rightarrow> probe_if_index = if_index ifp)"

definition TCP_RLEDBAT_ENABLED :: "int \<Rightarrow> tcpcb \<Rightarrow> bool" where
  "TCP_RLEDBAT_ENABLED tcp_rledbat tp \<longleftrightarrow> tcp_rledbat = 1 \<and> TSTMP_SUPPORTED tp"

text \<open>The retransmission timeout before backoff: \<^verbatim>\<open>max\<close> is the kernel's on \<^verbatim>\<open>u_int\<close>.\<close>

definition TCP_REXMTVAL :: "tcpcb \<Rightarrow> u32" where
  "TCP_REXMTVAL tp = max (t_rttmin tp)
     (word_of_int (drop_bit TCP_DELTA_SHIFT
        (drop_bit (TCP_RTT_SHIFT - TCP_DELTA_SHIFT) (t_srtt tp) + t_rttvar tp)))"

subsection \<open>Updates of the control block\<close>

definition tcp_rxtseg_clean :: "tcpcb \<Rightarrow> tcpcb" where
  "tcp_rxtseg_clean tp = tp\<lparr>t_rxt_segments := [], t_rxt_seg_count := 0, t_dsack_lastuna := snd_max tp\<rparr>"

text \<open>\<open>inp_reset_fc_state\<close> belongs to the Internet control block and is an argument.\<close>

definition ENTER_FASTRECOVERY :: "(inpcb \<Rightarrow> inpcb) \<Rightarrow> tcpcb \<Rightarrow> tcpcb" where
  "ENTER_FASTRECOVERY inp_reset_fc_state tp =
     (let tp = tp\<lparr>t_flags := t_flags tp OR TF_FASTRECOVERY\<rparr>;
          tp = (if inp_flow_controlled (t_inpcb tp) then tp\<lparr>t_inpcb := inp_reset_fc_state (t_inpcb tp)\<rparr> else tp)
      in if t_rxt_segments tp \<noteq> [] then tcp_rxtseg_clean tp else tp)"

definition EXIT_FASTRECOVERY :: "u8 \<Rightarrow> tcpcb \<Rightarrow> tcpcb" where
  "EXIT_FASTRECOVERY tcprexmtthresh tp =
     tp\<lparr>t_flags := t_flags tp AND NOT TF_FASTRECOVERY,
        t_dupacks := 0,
        t_rexmtthresh := tcprexmtthresh,
        t_bytes_acked := 0,
        ecn_flags := ecn_flags tp AND NOT TE_INRECOVERY,
        t_timer := (t_timer tp)(TCPT_PTO := 0),
        t_flagsext := t_flagsext tp AND NOT TF_RESCUE_RXT,
        t_lossflightsize := 0,
        sackhint := (sackhint tp)\<lparr>sack_bytes_acked := 0\<rparr>\<rparr>"

text \<open>\<open>mptcp_reset_rexmit_state\<close> is the multipath layer's and is an argument.\<close>

definition TCP_RESET_REXMT_STATE :: "(tcpcb \<Rightarrow> tcpcb) \<Rightarrow> tcpcb \<Rightarrow> tcpcb" where
  "TCP_RESET_REXMT_STATE mptcp_reset_rexmit_state tp =
     mptcp_reset_rexmit_state (tp\<lparr>t_rxtshift := 0, t_rxtstart := 0\<rparr>)"

subsection \<open>Setting and clearing flag bits\<close>

lemma flag_set [flag_simps]: "m \<noteq> 0 \<Longrightarrow> (f OR m) AND m \<noteq> (0 :: 'a::len word)"
  by (simp add: bit_eq_iff bit_simps)

lemma flag_set_other [flag_simps]: "m AND n = (0 :: 'a::len word) \<Longrightarrow> (f OR m) AND n = f AND n"
  by (auto simp: bit_eq_iff bit_simps)

lemma flag_cleared [flag_simps]: "(f AND NOT m) AND m = (0 :: 'a::len word)"
  by (simp add: bit_eq_iff bit_simps)

lemma flag_cleared_other [flag_simps]:
  "m AND n = (0 :: 'a::len word) \<Longrightarrow> (f AND NOT m) AND n = f AND n"
  by (auto simp: bit_eq_iff bit_simps)

lemma flag_both: "f AND (m OR n) = m OR n \<longleftrightarrow> f AND m = m \<and> f AND n = (n :: 'a::len word)"
  by (auto simp: bit_eq_iff bit_simps)

lemma exit_leaves_recovery: "\<not> IN_FASTRECOVERY (EXIT_FASTRECOVERY th tp)"
  by (simp add: IN_FASTRECOVERY_def EXIT_FASTRECOVERY_def flag_simps)

lemma enter_enters_recovery: "IN_FASTRECOVERY (ENTER_FASTRECOVERY reset tp)"
  by (simp add: IN_FASTRECOVERY_def ENTER_FASTRECOVERY_def tcp_rxtseg_clean_def flag_simps
      TF_FASTRECOVERY_def Let_def)

lemma l4s_disabled_bit_dead: "(f :: u32) AND TF_L4S_DISABLED \<noteq> 1"
proof
  assume "f AND TF_L4S_DISABLED = 1"
  then have "bit (f AND TF_L4S_DISABLED) 0" by simp
  then show False by (simp add: TF_L4S_DISABLED_def bit_simps)
qed

lemma TCP_REXMTVAL_eq:
  assumes "0 \<le> t_srtt tp" "0 \<le> t_rttvar tp" "t_srtt tp + t_rttvar tp < 2 ^ 31"
  shows "uint (TCP_REXMTVAL tp) = max (uint (t_rttmin tp)) ((t_srtt tp div 8 + t_rttvar tp) div 4)"
proof -
  let ?v = "(t_srtt tp div 8 + t_rttvar tp) div 4"
  have "0 \<le> ?v" "?v < 2 ^ 32" using assms by (auto simp: zdiv_mono1)
  then have "uint (word_of_int ?v :: u32) = ?v"
    by (simp add: uint_word_of_int)
  then show ?thesis
    by (simp add: TCP_REXMTVAL_def rtt_defs drop_bit_eq_div max_def word_le_def)
qed

end
