(* ===== verification/TcpSubr.thy ===== *)
theory TcpSubr
  imports Tcpcb
begin

text \<open>
  Subroutines of \<^verbatim>\<open>reference/xnu/tcp_subr.c\<close> (and \<^verbatim>\<open>timer_diff\<close> of \<^verbatim>\<open>tcp_timer.c\<close>): the
  rounding helpers, the millisecond clock, the pacer, the receive window and its scale, the
  low-water check for unsent data, and the list of retransmitted segments that DSACK
  processing consults. The sysctl variables and the functions of other layers are fields of
  the environment record \<open>subr_env\<close>; the environments of later theories extend it.
\<close>

record subr_env =
  tcp_recv_bg :: int
  IS_TCP_RECV_BG :: "socket \<Rightarrow> bool"
  tcp_do_autorcvbuf :: int
  tcp_autorcvbuf_max :: u32
  SOF1_EXTEND_BK_IDLE_WANTED :: u32
  SOF_MP_SUBFLOW :: u32
  SB_USRSIZE :: u32
  sbreserve :: "sockbuf \<Rightarrow> u32 \<Rightarrow> bool \<times> sockbuf"
  mptcp_sbspace :: "tcpcb \<Rightarrow> int"
  cfil_sock_data_space :: "sockbuf \<Rightarrow> int"
  slowlink_wsize :: int
  tcp_win_scale :: int
  TCP_MAXWIN :: u32
  TCP_MAX_WINSHIFT :: u8
  tcp_rxt_seg_max :: u32

subsection \<open>Rounding and time differences\<close>

definition timer_diff :: "u32 \<Rightarrow> u32 \<Rightarrow> u32 \<Rightarrow> u32 \<Rightarrow> int" where
  "timer_diff t1 toff1 t2 toff2 = sint ((t1 + toff1) - (t2 + toff2))"

text \<open>The argument is a \<^verbatim>\<open>double\<close> in the range of \<^verbatim>\<open>uint32_t\<close>, here a rational number.\<close>

definition tcp_ceil :: "rat \<Rightarrow> u32" where
  "tcp_ceil a = (let res = of_int \<lfloor>a\<rfloor> in word_of_int \<lfloor>res + (if res < a then 1 else 0)\<rfloor>)"

definition tcp_round_to :: "u32 \<Rightarrow> u32 \<Rightarrow> u32" where
  "tcp_round_to val rnd = ((val + (rnd div 2)) div rnd) * rnd"

definition tcp_round_up :: "u32 \<Rightarrow> u32 \<Rightarrow> u32" where
  "tcp_round_up val base =
     (if base = 1 \<or> val mod base = 0 then val else ((val + base) div base) * base)"

definition ntoh24 :: "u8 \<Rightarrow> u8 \<Rightarrow> u8 \<Rightarrow> u32" where
  "ntoh24 p0 p1 p2 = push_bit 16 (ucast p0) OR push_bit 8 (ucast p1) OR ucast p2"

definition tcp_packets_this_ack :: "tcpcb \<Rightarrow> u32 \<Rightarrow> u32" where
  "tcp_packets_this_ack tp acked =
     acked div t_maxseg tp + (if acked mod t_maxseg tp \<noteq> 0 then 1 else 0)"

subsection \<open>The millisecond clock\<close>

text \<open>
  A \<^verbatim>\<open>timeval\<close> is its number of microseconds, of which \<^verbatim>\<open>tv_sec\<close> and \<^verbatim>\<open>tv_usec\<close> are the
  quotient and the remainder by a million. \<open>tv0\<close> is \<^verbatim>\<open>tcp_uptime\<close> as read before the lock
  is taken, the state is the one found under the lock, and \<open>now1\<close> and \<open>now2\<close> are the two
  readings of \<^verbatim>\<open>microuptime\<close>; the networking uptime that the first one refreshes is another
  layer's.
\<close>

record tcp_clock =
  tcp_uptime :: nat
  tcp_now_remainder_us :: nat
  tcp_now :: u32

definition TIMEVAL_TO_TCPHZ :: "nat \<Rightarrow> u32" where
  "TIMEVAL_TO_TCPHZ tv = of_nat ((tv div 1000000) * 1000 + (tv mod 1000000) div 1000)"

definition calculate_tcp_clock :: "nat \<Rightarrow> nat \<Rightarrow> nat \<Rightarrow> tcp_clock \<Rightarrow> tcp_clock" where
  "calculate_tcp_clock tv0 now1 now2 c =
     (if now1 > tv0 + 1000 then
        (if tcp_uptime c \<ge> now1 then c
         else
           (let diff = now2 - tcp_uptime c;
                incr = TIMEVAL_TO_TCPHZ diff;
                remaining_us = (diff mod 1000000) mod 1000 + tcp_now_remainder_us c;
                incr = (if remaining_us \<ge> 1000 then incr + of_nat (remaining_us div 1000) else incr)
            in if incr > 0 then
                 c\<lparr>tcp_uptime := now2, tcp_now_remainder_us := remaining_us mod 1000,
                   tcp_now := tcp_now c + incr\<rparr>
               else c))
      else c)"

subsection \<open>The pacer\<close>

definition NSEC_PER_SEC :: u64 where "NSEC_PER_SEC = 1000000000"
definition MAX_BURST_INTERVAL_KERNEL_PACING_NSEC :: u64 where
  "MAX_BURST_INTERVAL_KERNEL_PACING_NSEC = 10 * 1000000"

definition tcp_pacer_get_packet_interval :: "tcpcb \<Rightarrow> u32 \<Rightarrow> u64" where
  "tcp_pacer_get_packet_interval tp sz =
     (if pc_rate (t_pacer tp) = 0 then MAX_BURST_INTERVAL_KERNEL_PACING_NSEC
      else
        (let interval = ucast sz * NSEC_PER_SEC div pc_rate (t_pacer tp) in
         if interval > MAX_BURST_INTERVAL_KERNEL_PACING_NSEC
         then MAX_BURST_INTERVAL_KERNEL_PACING_NSEC else interval))"

text \<open>\<open>now\<close> is the reading of \<^verbatim>\<open>microuptime_ns\<close>.\<close>

definition tcp_pacer_get_packet_tx_time :: "u64 \<Rightarrow> tcpcb \<Rightarrow> u16 \<Rightarrow> u64 \<times> tcpcb" where
  "tcp_pacer_get_packet_tx_time now tp pkt_len =
     (if pkt_len = 0 \<or> now = 0 then (now, tp)
      else
        (let pc = t_pacer tp;
             pc = (if pc_packet_tx_time pc = 0
                   then pc\<lparr>pc_packet_tx_time := now, pc_current_size := ucast pkt_len\<rparr>
                   else
                     (let pc = pc\<lparr>pc_current_size := pc_current_size pc + ucast pkt_len\<rparr> in
                      if pc_current_size pc > pc_tso_burst_size pc then
                        (let pc = pc\<lparr>pc_packet_tx_time := pc_packet_tx_time pc
                                + tcp_pacer_get_packet_interval tp (pc_current_size pc)\<rparr>;
                             pc = pc\<lparr>pc_current_size := 0\<rparr>
                         in if now > pc_packet_tx_time pc then pc\<lparr>pc_packet_tx_time := now\<rparr> else pc)
                      else pc))
         in (pc_packet_tx_time pc, tp\<lparr>t_pacer := pc\<rparr>)))"

subsection \<open>The receive window\<close>

definition upd_rcv :: "(sockbuf \<Rightarrow> sockbuf) \<Rightarrow> tcpcb \<Rightarrow> tcpcb" where
  "upd_rcv f tp = (let so = inp_socket (t_inpcb tp) in
     tp\<lparr>t_inpcb := (t_inpcb tp)\<lparr>inp_socket := so\<lparr>so_rcv := f (so_rcv so)\<rparr>\<rparr>\<rparr>)"

definition upd_snd :: "(sockbuf \<Rightarrow> sockbuf) \<Rightarrow> tcpcb \<Rightarrow> tcpcb" where
  "upd_snd f tp = (let so = inp_socket (t_inpcb tp) in
     tp\<lparr>t_inpcb := (t_inpcb tp)\<lparr>inp_socket := so\<lparr>so_snd := f (so_snd so)\<rparr>\<rparr>\<rparr>)"

definition tcp_sbrcv_grow_rwin :: "'e subr_env_scheme \<Rightarrow> tcpcb \<Rightarrow> tcpcb" where
  "tcp_sbrcv_grow_rwin E tp =
     (let so = inp_socket (t_inpcb tp); sb = so_rcv so;
          rcvbufinc = push_bit 4 (t_maxseg tp); rcvbuf = sb_hiwat sb in
      if tcp_recv_bg E = 1 \<or> IS_TCP_RECV_BG E so then tp
      else if tcp_do_autorcvbuf E = 1 \<and> \<not> has_flag (t_flags tp) TF_SLOWLINK
          \<and> \<not> has_flag (so_flags1 so) (SOF1_EXTEND_BK_IDLE_WANTED E)
          \<and> rcvbuf - sb_cc sb < rcvbufinc \<and> rcvbuf < tcp_autorcvbuf_max E
          \<and> sb_idealsize sb > 0 \<and> sb_hiwat sb \<le> sb_idealsize sb + rcvbufinc
        then upd_rcv (\<lambda>sb. snd (sbreserve E sb (min (sb_hiwat sb + rcvbufinc) (tcp_autorcvbuf_max E)))) tp
      else tp)"

text \<open>\<^verbatim>\<open>imin\<close> compares as \<^verbatim>\<open>int\<close>; the buffer differences are converted to it.\<close>

definition tcp_sbspace :: "'e subr_env_scheme \<Rightarrow> tcpcb \<Rightarrow> int \<times> tcpcb" where
  "tcp_sbspace E tp =
     (let tp = tcp_sbrcv_grow_rwin E tp; so = inp_socket (t_inpcb tp); sb = so_rcv so in
      if has_flag (so_flags so) (SOF_MP_SUBFLOW E) then (mptcp_sbspace E tp, tp)
      else
        (let rcvbuf = sb_hiwat sb;
             space = min (sint (rcvbuf - sb_cc sb)) (sint (sb_mbmax sb - sb_mbcnt sb));
             space = (if space < 0 then 0 else space);
             pending = cfil_sock_data_space E sb;
             space = (if pending > space then 0 else space - pending)
         in if (word_of_int space :: u32) < t_maxseg tp then (space, tp)
            else if has_flag (t_flags tp) TF_SLOWLINK \<and> slowlink_wsize E > 0
              then (min space (slowlink_wsize E), tp)
            else (space, tp)))"

function rwinscale_loop :: "u32 \<Rightarrow> u8 \<Rightarrow> u32 \<Rightarrow> u8 \<Rightarrow> u8" where
  "rwinscale_loop maxwin maxshift maxsockbufsize scale =
     (if scale < maxshift \<and> push_bit (unat scale) (maxwin + 1) < maxsockbufsize
      then rwinscale_loop maxwin maxshift maxsockbufsize (scale + 1) else scale)"
  by pat_completeness auto
termination
proof (relation "measure (\<lambda>(_, maxshift, _, scale). unat maxshift - unat scale)")
  fix maxwin maxsockbufsize :: u32 and maxshift scale :: u8
  assume "scale < maxshift \<and> push_bit (unat scale) (maxwin + 1) < maxsockbufsize"
  then have lt: "unat scale < unat maxshift" by (simp add: word_less_nat_alt)
  then have "unat (scale + 1) = unat scale + 1"
    using unat_u8_bound [of maxshift] by (simp add: unat_plus_small)
  then show "((maxwin, maxshift, maxsockbufsize, scale + 1), maxwin, maxshift, maxsockbufsize, scale)
      \<in> measure (\<lambda>(_, maxshift, _, scale). unat maxshift - unat scale)"
    using lt by simp
qed simp

declare rwinscale_loop.simps [simp del]

definition tcp_set_max_rwinscale :: "'e subr_env_scheme \<Rightarrow> tcpcb \<Rightarrow> socket \<Rightarrow> tcpcb" where
  "tcp_set_max_rwinscale E tp so =
     (let scale = max (word_of_int (tcp_win_scale E)) (request_r_scale tp);
          maxsockbufsize = (if has_flag (sb_flags (so_rcv so)) (SB_USRSIZE E)
            then sb_hiwat (so_rcv so) else tcp_autorcvbuf_max E);
          scale = rwinscale_loop (TCP_MAXWIN E) (TCP_MAX_WINSHIFT E) maxsockbufsize scale
      in tp\<lparr>request_r_scale := min scale (TCP_MAX_WINSHIFT E)\<rparr>)"

text \<open>
  The difference is computed unsigned and stored in an \<^verbatim>\<open>int\<close>; each comparison with an
  unsigned operand converts it back.
\<close>

definition tcp_notsent_lowat_check :: "socket \<Rightarrow> tcpcb option \<Rightarrow> int" where
  "tcp_notsent_lowat_check so tpo =
     (case tpo of None \<Rightarrow> 0
      | Some tp \<Rightarrow>
          (let notsent = sint (sb_cc (so_snd so) - (snd_nxt tp - snd_una tp)) in
           if (word_of_int notsent :: u32) \<le> t_notsent_lowat tp then 1
           else if \<not> has_flag (t_flags tp) TF_NODELAY \<and> notsent > 0
               \<and> (word_of_int notsent :: u32) < t_maxseg tp then 1
           else 0))"

subsection \<open>Retransmitted segments\<close>

definition TCP_RXT_SPURIOUS :: u16 where "TCP_RXT_SPURIOUS = 0x1"

text \<open>
  The walk of \<^verbatim>\<open>tcp_rxtseg_insert\<close> splits the list before the first segment that starts
  beyond \<open>start\<close>: \<open>prev\<close> is the last of the first part, \<open>next\<close> the first of the second.
\<close>

fun rxt_split :: "u32 \<Rightarrow> tcp_rxt_seg list \<Rightarrow> tcp_rxt_seg list \<times> tcp_rxt_seg list" where
  "rxt_split start [] = ([], [])"
| "rxt_split start (r # rs) =
     (if seq_gt (rx_start r) start then ([], r # rs)
      else (let (a, b) = rxt_split start rs in (r # a, b)))"

definition rxt_fix_prev :: "u32 \<Rightarrow> u32 \<Rightarrow> tcp_rxt_seg list \<Rightarrow> u32 \<times> u16 \<times> tcp_rxt_seg list" where
  "rxt_fix_prev start en pre =
     (if pre \<noteq> [] \<and> seq_gt (rx_end (last pre)) start then
        (let p = last pre in
         if rx_start p = start \<and> seq_gt en (rx_end p)
         then (rx_end p + 1, 0, butlast pre @ [p\<lparr>rx_count := rx_count p + 1\<rparr>])
         else (start, rx_count p, butlast pre @ [p\<lparr>rx_end := start - 1\<rparr>]))
      else (start, 0, pre))"

definition rxt_fix_next :: "u32 \<Rightarrow> u16 \<Rightarrow> tcp_rxt_seg list \<Rightarrow> u32 \<times> u16 \<times> tcp_rxt_seg list" where
  "rxt_fix_next en rxcount post =
     (case post of
        n # ns \<Rightarrow>
          if seq_lt (rx_start n) en then
            (if seq_leq (rx_end n) en then (rx_start n - 1, rxcount, n\<lparr>rx_count := rx_count n + 1\<rparr> # ns)
             else (en, rx_count n, n\<lparr>rx_start := en + 1\<rparr> # ns))
          else (en, rxcount, post)
      | [] \<Rightarrow> (en, rxcount, post))"

definition tcp_rxtseg_insert :: "'e subr_env_scheme \<Rightarrow> tcpcb \<Rightarrow> u32 \<Rightarrow> u32 \<Rightarrow> tcpcb" where
  "tcp_rxtseg_insert E tp start en =
     (let tp = (if t_rxt_segments tp = [] then tp\<lparr>t_dsack_lastuna := snd_una tp\<rparr> else tp);
          (pre, post) = rxt_split start (t_rxt_segments tp) in
      if pre \<noteq> [] \<and> seq_leq (rx_start (last pre)) start \<and> seq_geq (rx_end (last pre)) en
      then tp\<lparr>t_rxt_segments :=
             butlast pre @ [(last pre)\<lparr>rx_count := rx_count (last pre) + 1\<rparr>] @ post\<rparr>
      else
        (let (start, rxcount, pre) = rxt_fix_prev start en pre;
             (en, rxcount, post) = rxt_fix_next en rxcount post in
         if \<not> seq_lt start en then tp\<lparr>t_rxt_segments := pre @ post\<rparr>
         else
           (let full = tcp_rxt_seg_max E > 0 \<and> t_rxt_seg_count tp \<ge> tcp_rxt_seg_max E;
                (pre, post) = (if full then (if pre \<noteq> [] then (tl pre, post) else (pre, tl post))
                               else (pre, post));
                tp = (if full then tp\<lparr>t_rxt_seg_drop := t_rxt_seg_drop tp + 1,
                        t_rxt_seg_count := t_rxt_seg_count tp - 1\<rparr> else tp);
                rxseg = \<lparr>rx_start = start, rx_end = en, rx_count = rxcount + 1, rx_flags = 0\<rparr>
            in tp\<lparr>t_rxt_segments := pre @ [rxseg] @ post,
                  t_rxt_seg_count := t_rxt_seg_count tp + 1\<rparr>)))"

fun rxt_find :: "u32 \<Rightarrow> u32 \<Rightarrow> tcp_rxt_seg list \<Rightarrow> tcp_rxt_seg option" where
  "rxt_find start en [] = None"
| "rxt_find start en (r # rs) =
     (if seq_leq (rx_start r) start \<and> seq_geq (rx_end r) en then Some r
      else if seq_gt (rx_start r) start then None
      else rxt_find start en rs)"

definition tcp_rxtseg_find :: "tcpcb \<Rightarrow> u32 \<Rightarrow> u32 \<Rightarrow> tcp_rxt_seg option" where
  "tcp_rxtseg_find tp start en = rxt_find start en (t_rxt_segments tp)"

fun rxt_mark :: "u32 \<Rightarrow> u32 \<Rightarrow> tcp_rxt_seg list \<Rightarrow> tcp_rxt_seg list" where
  "rxt_mark start en [] = []"
| "rxt_mark start en (r # rs) =
     (let r' = (if seq_geq (rx_start r) start \<and> seq_leq (rx_end r) en \<and> rx_count r = 1
                then r\<lparr>rx_flags := rx_flags r OR TCP_RXT_SPURIOUS\<rparr> else r)
      in if seq_geq (rx_start r) en then r' # rs else r' # rxt_mark start en rs)"

definition tcp_rxtseg_set_spurious :: "tcpcb \<Rightarrow> u32 \<Rightarrow> u32 \<Rightarrow> tcpcb" where
  "tcp_rxtseg_set_spurious tp start en = tp\<lparr>t_rxt_segments := rxt_mark start en (t_rxt_segments tp)\<rparr>"

definition tcp_rxtseg_detect_bad_rexmt :: "tcpcb \<Rightarrow> u32 \<Rightarrow> bool" where
  "tcp_rxtseg_detect_bad_rexmt tp ack =
     (if t_rxt_segments tp = [] then False
      else if seq_lt ack (snd_recover tp) then False
      else list_all (\<lambda>r. has_flag (rx_flags r) TCP_RXT_SPURIOUS) (t_rxt_segments tp))"

definition tcp_rxtseg_total_size :: "tcpcb \<Rightarrow> u32" where
  "tcp_rxtseg_total_size tp =
     foldl (\<lambda>total_size r. total_size + ((rx_end r - rx_start r) + 1)) 0 (t_rxt_segments tp)"

subsection \<open>Facts about the helpers\<close>

lemma TIMEVAL_TO_TCPHZ_eq: "TIMEVAL_TO_TCPHZ tv = of_nat (tv div 1000)"
proof -
  have "(tv div 1000000) * 1000 + (tv mod 1000000) div 1000 = tv div 1000"
  proof -
    have "(tv mod 1000000) div 1000 = tv div 1000 mod 1000"
      using mod_mult2_eq [of tv 1000 1000] by simp
    moreover have "tv div 1000000 = tv div 1000 div 1000"
      using div_mult2_eq [of tv 1000 1000] by simp
    ultimately show ?thesis by (simp only: div_mult_mod_eq)
  qed
  then show ?thesis by (simp add: TIMEVAL_TO_TCPHZ_def)
qed

lemma mod_million_mod_thousand: "((d :: nat) mod 1000000) mod 1000 = d mod 1000"
  by (rule mod_mod_cancel) simp

lemma clock_step:
  fixes now2 :: nat
  assumes "tcp_uptime c < now1" "tv0 + 1000 < now1"
  defines "ms \<equiv> (now2 - tcp_uptime c) div 1000
    + ((now2 - tcp_uptime c) mod 1000 + tcp_now_remainder_us c) div 1000"
  assumes "ms < 2 ^ 32"
  shows "calculate_tcp_clock tv0 now1 now2 c =
    (if ms = 0 then c
     else c\<lparr>tcp_uptime := now2,
            tcp_now_remainder_us := ((now2 - tcp_uptime c) mod 1000 + tcp_now_remainder_us c) mod 1000,
            tcp_now := tcp_now c + of_nat ms\<rparr>)"
proof -
  let ?d = "now2 - tcp_uptime c"
  let ?r = "?d mod 1000 + tcp_now_remainder_us c"
  have incr: "(if 1000 \<le> ?r then TIMEVAL_TO_TCPHZ ?d + of_nat (?r div 1000) else TIMEVAL_TO_TCPHZ ?d)
      = (of_nat ms :: u32)"
    by (simp add: TIMEVAL_TO_TCPHZ_eq ms_def)
  have "(of_nat ms :: u32) > 0 \<longleftrightarrow> ms \<noteq> 0"
    using unat_of_nat_small [of ms, where 'a = 32] assms(4)
    by (simp add: word_less_nat_alt)
  then show ?thesis
    using assms(1,2) unfolding calculate_tcp_clock_def mod_million_mod_thousand Let_def incr
    by simp
qed

lemma carry_total:
  fixes q :: nat
  assumes "q * 1000 + x = d" "p * 1000 + m = x + r"
  shows "(q + p) * 1000 + m = d + r"
  using assms by simp

lemma clock_conserves:
  assumes "tcp_now_remainder_us c < 1000" "now1 \<le> now2" "now2 - tcp_uptime c < 2 ^ 32 * 1000 - 1000"
    and c': "calculate_tcp_clock tv0 now1 now2 c = c'"
  shows "unat (tcp_now c' - tcp_now c) * 1000 + tcp_now_remainder_us c' + (now2 - tcp_uptime c')
      = (now2 - tcp_uptime c) + tcp_now_remainder_us c \<and> tcp_now_remainder_us c' < 1000"
proof (cases "tcp_uptime c < now1 \<and> tv0 + 1000 < now1")
  case False
  then have "c' = c" using c' by (auto simp: calculate_tcp_clock_def)
  then show ?thesis using assms(1) by simp
next
  case True
  define d r ms where "d = now2 - tcp_uptime c" and "r = d mod 1000 + tcp_now_remainder_us c"
    and "ms = d div 1000 + r div 1000"
  have "r div 1000 \<le> 1" using assms(1) by (simp add: r_def)
  then have small: "ms < 2 ^ 32" using assms(3) unfolding ms_def d_def by linarith
  have total: "ms * 1000 + r mod 1000 = d + tcp_now_remainder_us c"
    unfolding ms_def by (rule carry_total [OF div_mult_mod_eq]) (simp add: r_def)
  have c'_eq: "c' = (if ms = 0 then c else c\<lparr>tcp_uptime := now2, tcp_now_remainder_us := r mod 1000,
      tcp_now := tcp_now c + of_nat ms\<rparr>)"
    using clock_step [of c now1 tv0 now2] True small c' by (simp add: d_def r_def ms_def)
  show ?thesis
  proof (cases "ms = 0")
    case True
    then show ?thesis using c'_eq assms(1) by simp
  next
    case False
    then show ?thesis using c'_eq total small by (simp add: unat_of_nat_small d_def)
  qed
qed

lemma pacer_interval_le: "tcp_pacer_get_packet_interval tp sz \<le> MAX_BURST_INTERVAL_KERNEL_PACING_NSEC"
  by (simp add: tcp_pacer_get_packet_interval_def Let_def linorder_not_less)

lemma rwinscale_loop_spec:
  "scale \<le> maxshift \<Longrightarrow> scale \<le> rwinscale_loop maxwin maxshift sz scale
    \<and> rwinscale_loop maxwin maxshift sz scale \<le> maxshift
    \<and> (rwinscale_loop maxwin maxshift sz scale = maxshift
       \<or> sz \<le> push_bit (unat (rwinscale_loop maxwin maxshift sz scale)) (maxwin + 1))
    \<and> (\<forall>k. unat scale \<le> k \<longrightarrow> k < unat (rwinscale_loop maxwin maxshift sz scale)
       \<longrightarrow> push_bit k (maxwin + 1) < sz)"
proof (induction maxwin maxshift sz scale rule: rwinscale_loop.induct)
  case (1 maxwin maxshift sz scale)
  show ?case
  proof (cases "scale < maxshift \<and> push_bit (unat scale) (maxwin + 1) < sz")
    case True
    then have lt: "unat scale < unat maxshift" by (simp add: word_less_nat_alt)
    then have s: "unat (scale + 1) = unat scale + 1"
      using unat_u8_bound [of maxshift] by (simp add: unat_plus_small)
    then have le: "scale + 1 \<le> maxshift" using lt by (simp add: word_le_nat_alt)
    have "scale \<le> scale + 1" using s by (simp add: word_le_nat_alt)
    moreover have "unat scale \<le> k \<Longrightarrow> k = unat scale \<or> unat (scale + 1) \<le> k" for k
      using s by linarith
    ultimately show ?thesis
      using "1.IH" [OF True le] True
      by (subst (1 2 3 4 5) rwinscale_loop.simps) (auto simp del: push_bit_eq_mult)
  next
    case False
    then show ?thesis
      using "1.prems" by (subst (1 2 3 4 5) rwinscale_loop.simps) auto
  qed
qed

subsection \<open>The list of retransmitted segments stays ordered\<close>

text \<open>
  The segments as ranges of stream positions with inclusive ends: ascending, and touching
  in at most one position.
\<close>

fun rxt_chain :: "nat \<Rightarrow> (nat \<times> nat) list \<Rightarrow> bool" where
  "rxt_chain lo [] \<longleftrightarrow> True"
| "rxt_chain lo ((a, b) # hs) \<longleftrightarrow> lo \<le> a \<and> a \<le> b \<and> rxt_chain b hs"

definition rxt_end :: "nat \<Rightarrow> (nat \<times> nat) list \<Rightarrow> nat" where
  "rxt_end lo hs = (if hs = [] then lo else snd (last hs))"

definition rxt_pos :: "u32 \<Rightarrow> tcp_rxt_seg \<Rightarrow> nat \<times> nat \<Rightarrow> bool" where
  "rxt_pos isn r h \<longleftrightarrow> rx_start r = seqno isn (fst h) \<and> rx_end r = seqno isn (snd h)"

lemma rxt_chain_append: "rxt_chain lo (xs @ ys) \<longleftrightarrow> rxt_chain lo xs \<and> rxt_chain (rxt_end lo xs) ys"
  by (induction xs arbitrary: lo rule: list.induct) (auto simp: rxt_end_def)

lemma rxt_chain_mono: "rxt_chain lo hs \<Longrightarrow> lo' \<le> lo \<Longrightarrow> rxt_chain lo' hs"
  by (cases hs) auto

lemma rxt_chain_tl: "rxt_chain lo hs \<Longrightarrow> rxt_chain lo (tl hs)"
  by (cases hs) (auto elim!: rxt_chain_mono)

lemma rxt_chain_end: "rxt_chain lo hs \<Longrightarrow> lo \<le> rxt_end lo hs"
  by (induction lo hs rule: rxt_chain.induct) (auto simp: rxt_end_def split: if_splits)

lemma rxt_end_tl: "hs \<noteq> [] \<Longrightarrow> rxt_chain lo hs \<Longrightarrow> rxt_end lo (tl hs) \<le> rxt_end lo hs"
  by (cases hs) (auto simp: rxt_end_def)

lemma rxt_chain_mem: "rxt_chain lo hs \<Longrightarrow> (a, b) \<in> set hs \<Longrightarrow> lo \<le> a \<and> a \<le> b \<and> b \<le> rxt_end lo hs"
proof (induction hs arbitrary: lo)
  case (Cons h hs)
  obtain c d where h: "h = (c, d)" by (cases h)
  have "rxt_chain d hs" "lo \<le> c" "c \<le> d" using Cons.prems(1) h by auto
  moreover from this have "d \<le> rxt_end d hs" by (simp add: rxt_chain_end)
  moreover have "rxt_end lo (h # hs) = rxt_end d hs" by (simp add: rxt_end_def h)
  ultimately show ?case using Cons.IH [of d] Cons.prems(2) h by auto
qed simp

text \<open>All positions are within half the sequence space above \<open>L\<close>.\<close>

abbreviation in_half :: "nat \<Rightarrow> nat \<Rightarrow> bool" where
  "in_half L n \<equiv> L \<le> n \<and> n < L + 2 ^ 31"

lemma in_half_near: "in_half L a \<Longrightarrow> in_half L b \<Longrightarrow> near a b"
  by (auto simp: near_def)

lemma rxt_split_spec:
  assumes "list_all2 (rxt_pos isn) segs hs" "rxt_chain L hs" "rxt_end L hs < L + 2 ^ 31" "in_half L s"
  obtains pre post hs1 hs2 where "rxt_split (seqno isn s) segs = (pre, post)" "hs = hs1 @ hs2"
    "segs = pre @ post" "list_all2 (rxt_pos isn) pre hs1" "list_all2 (rxt_pos isn) post hs2"
    "\<forall>(a, b)\<in>set hs1. a \<le> s" "hs2 = [] \<or> s < fst (hd hs2)"
  using assms
proof (induction segs arbitrary: hs L thesis)
  case Nil
  then show ?case by (auto intro: Nil.prems(1) [of "[]" "[]" "[]" "[]"])
next
  case (Cons r segs)
  obtain a b hs' where hs: "hs = (a, b) # hs'" "rxt_pos isn r (a, b)" "list_all2 (rxt_pos isn) segs hs'"
    using Cons.prems(2) by (cases hs) auto
  have ab: "L \<le> a" "a \<le> b" "rxt_chain b hs'" "b \<le> rxt_end L hs"
    using Cons.prems(3) rxt_chain_mem [OF Cons.prems(3), of a b] hs(1) by auto
  have near: "near a s" using ab Cons.prems(4,5) by (intro in_half_near [of L]) auto
  show ?case
  proof (cases "s < a")
    case True
    then have "rxt_split (seqno isn s) (r # segs) = ([], r # segs)"
      using near hs(2) by (simp add: rxt_pos_def seq_simps)
    then show ?thesis using Cons.prems(2) hs(1) True by (intro Cons.prems(1) [of "[]" _ "[]" hs]) auto
  next
    case False
    have ends: "rxt_end L hs' < L + 2 ^ 31" "rxt_chain L hs'"
      using Cons.prems(3,4) ab rxt_end_tl [of hs L] rxt_chain_tl [of L hs] hs(1) by auto
    obtain pre post hs1 hs2 where ih: "rxt_split (seqno isn s) segs = (pre, post)" "hs' = hs1 @ hs2"
        "segs = pre @ post" "list_all2 (rxt_pos isn) pre hs1" "list_all2 (rxt_pos isn) post hs2"
        "\<forall>(a, b)\<in>set hs1. a \<le> s" "hs2 = [] \<or> s < fst (hd hs2)"
      using Cons.IH [OF _ hs(3) ends(2,1) Cons.prems(5)] by blast
    have "rxt_split (seqno isn s) (r # segs) = (r # pre, post)"
      using False near hs(2) ih(1) by (simp add: rxt_pos_def seq_simps)
    then show ?thesis
      using ih hs False by (intro Cons.prems(1) [of "r # pre" post "(a, b) # hs1" hs2]) auto
  qed
qed

lemma rxt_fix_prev_spec:
  assumes "list_all2 (rxt_pos isn) pre hs" "rxt_chain L hs" "rxt_end L hs < L + 2 ^ 31"
    and "in_half L s" "in_half L e" "s \<le> e" "\<forall>(a, b)\<in>set hs. a \<le> s"
    and "\<not> (pre \<noteq> [] \<and> seq_leq (rx_start (last pre)) (seqno isn s) \<and> seq_geq (rx_end (last pre)) (seqno isn e))"
  obtains s' cnt pre' hs' where "rxt_fix_prev (seqno isn s) (seqno isn e) pre = (seqno isn s', cnt, pre')"
    "list_all2 (rxt_pos isn) pre' hs'" "rxt_chain L hs'" "rxt_end L hs' \<le> s'" "s \<le> s'" "s' \<le> e"
    "rxt_end L hs' \<le> rxt_end L hs" "length pre' = length pre"
proof (cases "hs = []")
  case True
  then show thesis using assms by (intro that [of s 0 "[]" "[]"]) (auto simp: rxt_fix_prev_def rxt_end_def)
next
  case False
  then obtain hs0 a b where hs: "hs = hs0 @ [(a, b)]" by (metis rev_exhaust surj_pair)
  then obtain pre0 p where pre: "pre = pre0 @ [p]" "list_all2 (rxt_pos isn) pre0 hs0" "rxt_pos isn p (a, b)"
    using assms(1) by (auto simp: list_all2_append2 list_all2_Cons2)
  have ab: "a \<le> s" "rxt_chain L hs0" "rxt_end L hs0 \<le> a" "a \<le> b" "L \<le> a" "b < L + 2 ^ 31"
    using assms(2,3,7) rxt_chain_end [of L hs0] by (auto simp: hs rxt_chain_append rxt_end_def)
  have near: "near a s" "near b s" "near b e" "near e b"
    using ab assms(4,5) by (auto intro!: in_half_near [of L])
  have nc: "b < e" if "a \<le> s" using assms(8) that near pre ab by (auto simp: rxt_pos_def seq_simps)
  show thesis
  proof (cases "s < b")
    case False
    then show thesis
      using assms ab near hs pre
      by (intro that [of s 0 pre hs]) (auto simp: rxt_fix_prev_def rxt_pos_def seq_simps rxt_end_def)
  next
    case True
    show thesis
    proof (cases "a = s")
      case eq: True
      have "rxt_fix_prev (seqno isn s) (seqno isn e) pre
          = (seqno isn (Suc b), 0, pre0 @ [p\<lparr>rx_count := rx_count p + 1\<rparr>])"
        using True eq near pre nc ab by (simp add: rxt_fix_prev_def rxt_pos_def seq_simps add.assoc)
      then show thesis
        using pre hs ab True nc assms(2,6) eq
        by (intro that [of "Suc b" 0 _ hs])
          (auto simp: rxt_pos_def rxt_end_def intro!: list_all2_appendI)
    next
      case neq: False
      have sm: "seqno isn s - 1 = seqno isn (s - 1)" using neq ab by (cases s) auto
      have "rxt_fix_prev (seqno isn s) (seqno isn e) pre
          = (seqno isn s, rx_count p, pre0 @ [p\<lparr>rx_end := seqno isn (s - 1)\<rparr>])"
        using True neq near pre sm seqno_eq_iff [OF near(1), of isn]
        by (simp add: rxt_fix_prev_def rxt_pos_def seq_simps)
      then show thesis
        using pre hs ab neq assms(6) True
        by (intro that [of s _ _ "hs0 @ [(a, s - 1)]"])
          (auto simp: rxt_pos_def rxt_end_def rxt_chain_append intro!: list_all2_appendI)
    qed
  qed
qed

lemma rxt_fix_next_spec:
  assumes "list_all2 (rxt_pos isn) post hs" "rxt_chain m hs" "rxt_end m hs < L + 2 ^ 31" "L \<le> m"
    and "in_half L s" "in_half L e" "m' \<le> e" "m' \<le> m \<or> hs = []" "hs = [] \<or> s < fst (hd hs)"
  obtains e' cnt' post' hs' where "rxt_fix_next (seqno isn e) cnt post = (seqno isn e', cnt', post')"
    "list_all2 (rxt_pos isn) post' hs'" "rxt_chain m' hs'" "s \<le> e' \<or> e' = e" "e' \<le> e"
    "rxt_chain e' hs'" "rxt_end m' hs' < L + 2 ^ 31 \<or> hs' = []" "length post' = length post"
proof (cases hs)
  case Nil
  then show thesis using assms by (intro that [of e cnt "[]" "[]"]) (auto simp: rxt_fix_next_def)
next
  case (Cons h hs0)
  obtain c d where h: "h = (c, d)" by (cases h)
  obtain n post0 where post: "post = n # post0" "rxt_pos isn n (c, d)" "list_all2 (rxt_pos isn) post0 hs0"
    using assms(1) Cons h by (auto simp: list_all2_Cons2)
  have cd: "m \<le> c" "c \<le> d" "s < c" "rxt_chain d hs0" "d \<le> rxt_end m hs" "m' \<le> m"
    using assms(2,8,9) Cons h rxt_chain_mem [OF assms(2), of c d] by auto
  have near: "near c e" "near d e" using cd assms(3-6) by (auto intro!: in_half_near [of L])
  have top: "rxt_end x ((y, d) # hs0) < L + 2 ^ 31" for x y
    using assms(3) Cons h by (simp add: rxt_end_def split: if_splits)
  show thesis
  proof (cases "c < e")
    case False
    have "rxt_fix_next (seqno isn e) cnt post = (seqno isn e, cnt, post)"
      using False near(1) post(1,2) by (simp add: rxt_fix_next_def rxt_pos_def seq_simps)
    moreover have "rxt_chain m' hs" "rxt_chain e hs" "rxt_end m' hs < L + 2 ^ 31"
      using assms(2) cd False Cons h top [of m' c] by auto
    ultimately show thesis using assms(1) by (intro that [of e cnt post hs]) simp_all
  next
    case True
    show thesis
    proof (cases "d \<le> e")
      case in_e: True
      have cm: "seqno isn c - 1 = seqno isn (c - 1)" using cd by (cases c) auto
      have "rxt_fix_next (seqno isn e) cnt post
          = (seqno isn (c - 1), cnt, n\<lparr>rx_count := rx_count n + 1\<rparr> # post0)"
        using True in_e near post cm by (simp add: rxt_fix_next_def rxt_pos_def seq_simps)
      then show thesis
        using Cons h post cd True top
        by (intro that [of "c - 1" cnt _ hs]) (auto simp: rxt_pos_def)
    next
      case False
      have "rxt_fix_next (seqno isn e) cnt post
          = (seqno isn e, rx_count n, n\<lparr>rx_start := seqno isn (Suc e)\<rparr> # post0)"
        using True False near post by (simp add: rxt_fix_next_def rxt_pos_def seq_simps add.assoc)
      then show thesis
        using Cons h post cd False assms(7) top
        by (intro that [of e "rx_count n" _ "(Suc e, d) # hs0"]) (auto simp: rxt_pos_def)
    qed
  qed
qed

text \<open>
  The invariant of the list: its segments are a chain of positions within half the sequence
  space above \<open>L\<close>, the counter is its length, and the configured maximum, if any, holds.
\<close>

definition rxt_inv :: "u32 \<Rightarrow> u32 \<Rightarrow> nat \<Rightarrow> tcpcb \<Rightarrow> bool" where
  "rxt_inv seg_max isn L tp \<longleftrightarrow>
     (\<exists>hs. list_all2 (rxt_pos isn) (t_rxt_segments tp) hs \<and> rxt_chain L hs \<and> rxt_end L hs < L + 2 ^ 31)
     \<and> unat (t_rxt_seg_count tp) = length (t_rxt_segments tp)
     \<and> (seg_max > 0 \<longrightarrow> length (t_rxt_segments tp) \<le> unat seg_max)"

lemma rxt_chain_insert:
  assumes "rxt_chain L hs1" "rxt_end L hs1 \<le> s" "s \<le> e" "rxt_chain e hs2" "rxt_end e hs2 < L + 2 ^ 31"
  shows "rxt_chain L (hs1 @ [(s, e)] @ hs2)" "rxt_end L (hs1 @ [(s, e)] @ hs2) < L + 2 ^ 31"
  using assms by (auto simp: rxt_chain_append rxt_end_def)

lemma rxt_end_append: "rxt_end lo (xs @ ys) = rxt_end (rxt_end lo xs) ys"
  by (simp add: rxt_end_def)

lemma rxt_end_nonempty: "hs \<noteq> [] \<Longrightarrow> rxt_end x hs = rxt_end y hs"
  by (simp add: rxt_end_def)

lemma rxt_insert_lists:
  assumes "list_all2 (rxt_pos isn) segs hs" "rxt_chain L hs" "rxt_end L hs < L + 2 ^ 31"
    and "in_half L s" "in_half L e" "s \<le> e"
    and sp: "rxt_split (seqno isn s) segs = (pre, post)"
    and nc: "\<not> (pre \<noteq> [] \<and> seq_leq (rx_start (last pre)) (seqno isn s)
      \<and> seq_geq (rx_end (last pre)) (seqno isn e))"
  obtains s' e' c1 c2 pre' post' h1 h2 where
    "rxt_fix_prev (seqno isn s) (seqno isn e) pre = (seqno isn s', c1, pre')"
    "rxt_fix_next (seqno isn e) c1 post = (seqno isn e', c2, post')"
    "list_all2 (rxt_pos isn) pre' h1" "list_all2 (rxt_pos isn) post' h2"
    "rxt_chain L (h1 @ h2)" "rxt_end L (h1 @ h2) < L + 2 ^ 31"
    "rxt_end L h1 \<le> s'" "rxt_chain e' h2" "in_half L s'" "e' < L + 2 ^ 31" "s \<le> e'"
    "length (pre' @ post') = length segs" "rxt_end e' h2 < L + 2 ^ 31"
proof -
  obtain hs1 hs2 where h: "hs = hs1 @ hs2" "segs = pre @ post" "list_all2 (rxt_pos isn) pre hs1"
      "list_all2 (rxt_pos isn) post hs2" "\<forall>(a, b)\<in>set hs1. a \<le> s" "hs2 = [] \<or> s < fst (hd hs2)"
    using rxt_split_spec [OF assms(1-4)] sp by (metis prod.inject)
  have ch: "rxt_chain L hs1" "rxt_chain (rxt_end L hs1) hs2" "rxt_end (rxt_end L hs1) hs2 < L + 2 ^ 31"
    using assms(2,3) by (auto simp: h(1) rxt_chain_append rxt_end_append)
  have e1: "L \<le> rxt_end L hs1" "rxt_end L hs1 < L + 2 ^ 31"
    using ch rxt_chain_end [OF ch(1)] rxt_chain_end [OF ch(2)] by auto
  obtain s' c1 pre' h1 where p: "rxt_fix_prev (seqno isn s) (seqno isn e) pre = (seqno isn s', c1, pre')"
      "list_all2 (rxt_pos isn) pre' h1" "rxt_chain L h1" "rxt_end L h1 \<le> s'" "s \<le> s'" "s' \<le> e"
      "rxt_end L h1 \<le> rxt_end L hs1" "length pre' = length pre"
    by (rule rxt_fix_prev_spec [OF h(3) ch(1) e1(2) assms(4,5,6) h(5) nc])
  have m: "rxt_end L h1 \<le> e" "rxt_end L h1 \<le> rxt_end L hs1 \<or> hs2 = []" using p by auto
  obtain e' c2 post' h2 where n: "rxt_fix_next (seqno isn e) c1 post = (seqno isn e', c2, post')"
      "list_all2 (rxt_pos isn) post' h2" "rxt_chain (rxt_end L h1) h2" "s \<le> e' \<or> e' = e" "e' \<le> e"
      "rxt_chain e' h2" "rxt_end (rxt_end L h1) h2 < L + 2 ^ 31 \<or> h2 = []" "length post' = length post"
    by (rule rxt_fix_next_spec [OF h(4) ch(2,3) e1(1) assms(4,5) m h(6), where cnt = c1])
  show thesis
  proof (rule that [OF p(1) n(1) p(2) n(2)])
    show "rxt_chain L (h1 @ h2)" using p(3) n(3) by (simp add: rxt_chain_append)
    show "rxt_end L (h1 @ h2) < L + 2 ^ 31" "rxt_end e' h2 < L + 2 ^ 31"
      using n(5,7) p(4,6) assms(5) by (cases "h2 = []"; simp add: rxt_end_append rxt_end_def)+
    show "in_half L s'" "e' < L + 2 ^ 31" "s \<le> e'" using p n assms(4-6) by auto
    show "length (pre' @ post') = length segs" using h(2) p(8) n(8) by simp
  qed (use p n in auto)
qed

lemma rxt_split_append: "rxt_split start segs = (pre, post) \<Longrightarrow> segs = pre @ post"
  by (induction segs arbitrary: pre) (auto split: if_splits prod.splits)

lemma rxt_pos_recount:
  assumes "list_all2 (rxt_pos isn) (pre @ post) hs" "pre \<noteq> []"
  shows "list_all2 (rxt_pos isn) (butlast pre @ [(last pre)\<lparr>rx_count := n\<rparr>] @ post) hs"
proof -
  have "list_all2 (rxt_pos isn) (butlast pre @ [last pre] @ post) hs"
    using assms append_butlast_last_id [OF assms(2)] by (metis append.assoc)
  then show ?thesis
    by (auto simp: list_all2_append1 list_all2_Cons1 rxt_pos_def)
qed

text \<open>The new element and the possible removal of the oldest one.\<close>

lemma rxt_insert_full:
  assumes l: "list_all2 (rxt_pos isn) pre h1" "list_all2 (rxt_pos isn) post h2"
    and c: "rxt_chain L h1" "rxt_end L h1 \<le> s" "s < e" "rxt_chain e h2" "rxt_end e h2 < L + 2 ^ 31"
    and r: "rx_start r = seqno isn s" "rx_end r = seqno isn e"
  shows "\<exists>hs. list_all2 (rxt_pos isn) (pre @ [r] @ post) hs \<and> rxt_chain L hs \<and> rxt_end L hs < L + 2 ^ 31"
    and "\<exists>hs. list_all2 (rxt_pos isn)
      ((if pre \<noteq> [] then tl pre else pre) @ [r] @ (if pre \<noteq> [] then post else tl post)) hs
      \<and> rxt_chain L hs \<and> rxt_end L hs < L + 2 ^ 31"
proof -
  have ins: "\<exists>hs. list_all2 (rxt_pos isn) (p @ [r] @ q) hs \<and> rxt_chain L hs \<and> rxt_end L hs < L + 2 ^ 31"
    if "list_all2 (rxt_pos isn) p g1" "list_all2 (rxt_pos isn) q g2" "rxt_chain L g1" "rxt_end L g1 \<le> s"
      "rxt_chain e g2" "rxt_end e g2 < L + 2 ^ 31" for p q g1 g2
    using that rxt_chain_insert [OF that(3,4) _ that(5,6)] c(3) r
    by (intro exI [of _ "g1 @ [(s, e)] @ g2"]) (auto simp: rxt_pos_def intro!: list_all2_appendI)
  show "\<exists>hs. list_all2 (rxt_pos isn) (pre @ [r] @ post) hs \<and> rxt_chain L hs \<and> rxt_end L hs < L + 2 ^ 31"
    using ins [OF l c(1,2,4,5)] .
  have tl1: "list_all2 (rxt_pos isn) (tl pre) (tl h1)" "list_all2 (rxt_pos isn) (tl post) (tl h2)"
    using l by (cases pre; cases post; auto simp: list_all2_Cons1)+
  have e1: "rxt_end L (tl h1) \<le> s" if "pre \<noteq> []"
    using that l(1) rxt_end_tl [of h1 L] c(1,2) by fastforce
  have e2: "rxt_end e (tl h2) < L + 2 ^ 31"
    using c(4,5) rxt_end_tl [of h2 e] by (cases "h2 = []") auto
  show "\<exists>hs. list_all2 (rxt_pos isn)
      ((if pre \<noteq> [] then tl pre else pre) @ [r] @ (if pre \<noteq> [] then post else tl post)) hs
      \<and> rxt_chain L hs \<and> rxt_end L hs < L + 2 ^ 31"
    using ins [OF tl1(1) l(2) rxt_chain_tl [OF c(1)] e1 c(4,5)] ins [OF l(1) tl1(2) c(1,2) rxt_chain_tl [OF c(4)] e2]
    by (cases "pre = []") simp_all
qed

lemma rxt_insert_inv:
  assumes inv: "rxt_inv (tcp_rxt_seg_max E) isn L tp" and w: "in_half L s" "in_half L e" "s \<le> e"
    and few: "length (t_rxt_segments tp) < 2 ^ 32 - 1"
  shows "rxt_inv (tcp_rxt_seg_max E) isn L (tcp_rxtseg_insert E tp (seqno isn s) (seqno isn e))"
proof -
  let ?M = "tcp_rxt_seg_max E" and ?n = "t_rxt_seg_count tp"
  obtain hs where h: "list_all2 (rxt_pos isn) (t_rxt_segments tp) hs" "rxt_chain L hs" "rxt_end L hs < L + 2 ^ 31"
    and cnt: "unat ?n = length (t_rxt_segments tp)" "?M > 0 \<Longrightarrow> length (t_rxt_segments tp) \<le> unat ?M"
    using inv by (auto simp: rxt_inv_def)
  obtain pre post where sp: "rxt_split (seqno isn s) (t_rxt_segments tp) = (pre, post)" by fastforce
  have segs: "t_rxt_segments tp = pre @ post" using rxt_split_append [OF sp] .
  define tp0 where "tp0 = (if t_rxt_segments tp = [] then tp\<lparr>t_dsack_lastuna := snd_una tp\<rparr> else tp)"
  have tp0: "t_rxt_segments tp0 = pre @ post" "t_rxt_seg_count tp0 = ?n" by (auto simp: tp0_def segs)
  show ?thesis
  proof (cases "pre \<noteq> [] \<and> seq_leq (rx_start (last pre)) (seqno isn s) \<and> seq_geq (rx_end (last pre)) (seqno isn e)")
    case True
    moreover from this have "t_rxt_segments tp \<noteq> []" using segs by simp
    ultimately have "tcp_rxtseg_insert E tp (seqno isn s) (seqno isn e) = tp0\<lparr>t_rxt_segments :=
        butlast pre @ [(last pre)\<lparr>rx_count := rx_count (last pre) + 1\<rparr>] @ post\<rparr>"
      using sp by (simp add: tcp_rxtseg_insert_def tp0_def Let_def)
    moreover have "length (butlast pre @ [x] @ post) = length (pre @ post)" for x
      using True by (cases pre) auto
    ultimately show ?thesis
      using rxt_pos_recount [of isn pre post hs] True h cnt
      unfolding rxt_inv_def segs by (auto simp: tp0 simp del: length_append)
  next
    case False
    from h w sp False obtain s' e' c1 c2 pre' post' h1 h2 where
      f: "rxt_fix_prev (seqno isn s) (seqno isn e) pre = (seqno isn s', c1, pre')"
      "rxt_fix_next (seqno isn e) c1 post = (seqno isn e', c2, post')"
      and l: "list_all2 (rxt_pos isn) pre' h1" "list_all2 (rxt_pos isn) post' h2"
      and c: "rxt_chain L (h1 @ h2)" "rxt_end L (h1 @ h2) < L + 2 ^ 31" "rxt_end L h1 \<le> s'" "rxt_chain e' h2"
      and r: "in_half L s'" "e' < L + 2 ^ 31" "s \<le> e'" "length (pre' @ post') = length (t_rxt_segments tp)"
        "rxt_end e' h2 < L + 2 ^ 31"
      by (rule rxt_insert_lists)
    have ne: "near s' e'" using r w(1) by (intro in_half_near [of L]) auto
    show ?thesis
    proof (cases "s' < e'")
      case False
      then have "tcp_rxtseg_insert E tp (seqno isn s) (seqno isn e) = tp0\<lparr>t_rxt_segments := pre' @ post'\<rparr>"
        using sp f ne \<open>\<not> (pre \<noteq> [] \<and> _)\<close> by (auto simp: tcp_rxtseg_insert_def tp0_def Let_def seq_simps)
      then show ?thesis
        using l c r cnt by (auto simp: rxt_inv_def tp0 segs intro!: exI [of _ "h1 @ h2"] list_all2_appendI)
    next
      case True
      define full where "full \<longleftrightarrow> ?M > 0 \<and> ?n \<ge> ?M"
      define rs where "rs = \<lparr>rx_start = seqno isn s', rx_end = seqno isn e', rx_count = c2 + 1, rx_flags = 0\<rparr>"
      define p q where "p = (if full \<and> pre' \<noteq> [] then tl pre' else pre')"
        and "q = (if full \<and> pre' = [] then tl post' else post')"
      define k where "k = (if full then ?n - 1 + 1 else ?n + 1)"
      have new: "t_rxt_segments (tcp_rxtseg_insert E tp (seqno isn s) (seqno isn e)) = p @ [rs] @ q"
          "t_rxt_seg_count (tcp_rxtseg_insert E tp (seqno isn s) (seqno isn e)) = k"
        using sp f ne True \<open>\<not> (pre \<noteq> [] \<and> _)\<close>
        by (auto simp: tcp_rxtseg_insert_def Let_def seq_simps full_def rs_def p_def q_def k_def)
      note ins = rxt_insert_full [OF l _ c(3) True c(4) r(5), of rs]
      have ok: "\<exists>hs. list_all2 (rxt_pos isn) (p @ [rs] @ q) hs \<and> rxt_chain L hs \<and> rxt_end L hs < L + 2 ^ 31"
        using ins c(1) by (cases full; cases "pre' = []") (auto simp: p_def q_def rs_def rxt_chain_append)
      have len: "length (pre' @ post') = unat ?n" using r(4) cnt by simp
      have "unat k = length (p @ [rs] @ q) \<and> (?M > 0 \<longrightarrow> length (p @ [rs] @ q) \<le> unat ?M)"
      proof (cases full)
        case True
        then have "0 < unat ?n" "unat ?n \<le> unat ?M" "unat ?M \<le> unat ?n"
          using cnt by (auto simp: full_def word_le_nat_alt word_less_nat_alt)
        then show ?thesis using True len by (cases pre') (auto simp: k_def p_def q_def)
      next
        case False
        then have "unat (?n + 1) = unat ?n + 1" "?M > 0 \<Longrightarrow> unat ?n < unat ?M"
          using few cnt(1) by (auto simp: full_def unat_plus_small word_le_nat_alt)
        then show ?thesis using False len by (auto simp: k_def p_def q_def)
      qed
      then show ?thesis using ok by (simp add: rxt_inv_def new)
    qed
  qed
qed

lemma sint_u32_nonneg: "0 \<le> sint (x :: u32) \<longleftrightarrow> unat x < 2 ^ 31"
  using uint_lt2p [of x] by (simp add: sint32_cases)

lemma pacer_tx_time:
  assumes r: "tcp_pacer_get_packet_tx_time now tp pkt_len = (t, tp')" and ne: "pkt_len \<noteq> 0" "now \<noteq> 0"
    and small: "unat (pc_packet_tx_time (t_pacer tp)) + 10000000 < 2 ^ 64"
  shows "unat (pc_packet_tx_time (t_pacer tp)) \<le> unat t
    \<and> (t = now \<or> unat t \<le> unat (pc_packet_tx_time (t_pacer tp)) + 10000000)
    \<and> pc_packet_tx_time (t_pacer tp') = t"
proof -
  let ?o = "pc_packet_tx_time (t_pacer tp)"
    and ?i = "tcp_pacer_get_packet_interval tp (pc_current_size (t_pacer tp) + ucast pkt_len)"
  have le: "unat ?i \<le> 10000000"
    using pacer_interval_le [of tp "pc_current_size (t_pacer tp) + ucast pkt_len"]
    by (simp add: MAX_BURST_INTERVAL_KERNEL_PACING_NSEC_def word_le_nat_alt)
  then have plus: "unat (?o + ?i) = unat ?o + unat ?i" using small by (simp add: unat_plus_small)
  then have grow: "unat ?o \<le> unat (?o + ?i)" "unat (?o + ?i) \<le> unat ?o + 10000000" using le by auto
  have after: "?o + ?i < now \<Longrightarrow> unat ?o \<le> unat now"
    using grow(1) by (auto simp: word_less_nat_alt)
  show ?thesis
    using r ne grow after
    by (auto simp: tcp_pacer_get_packet_tx_time_def Let_def split: if_splits)
qed

definition subr_env_zero :: subr_env where
  "subr_env_zero = \<lparr>tcp_recv_bg = 0, IS_TCP_RECV_BG = \<lambda>_. False, tcp_do_autorcvbuf = 1,
     tcp_autorcvbuf_max = 2097152, SOF1_EXTEND_BK_IDLE_WANTED = 0, SOF_MP_SUBFLOW = 0, SB_USRSIZE = 0,
     sbreserve = \<lambda>sb cc. (True, sb\<lparr>sb_hiwat := cc\<rparr>), mptcp_sbspace = \<lambda>_. 0, cfil_sock_data_space = \<lambda>_. 0,
     slowlink_wsize = 8192, tcp_win_scale = 3, TCP_MAXWIN = 65535, TCP_MAX_WINSHIFT = 14,
     tcp_rxt_seg_max = 2\<rparr>"

subsection \<open>Properties\<close>

text \<open>
  The millisecond clock never loses or gains time: whatever the scheduling of its
  updates, milliseconds counted, remainder kept and time not yet accounted for add up to the
  elapsed microseconds, and the remainder stays below a millisecond.
\<close>

lemma tcp_clock_exact:
  assumes "tcp_now_remainder_us c < 1000" "now1 \<le> now2" "now2 - tcp_uptime c < 2 ^ 32 * 1000 - 1000"
    and "calculate_tcp_clock tv0 now1 now2 c = c'"
  shows "unat (tcp_now c' - tcp_now c) * 1000 + tcp_now_remainder_us c' + (now2 - tcp_uptime c')
      = (now2 - tcp_uptime c) + tcp_now_remainder_us c \<and> tcp_now_remainder_us c' < 1000"
  using assms by (rule clock_conserves)

text \<open>
  The pacer never schedules a packet before the previous burst, moves the
  transmit time by at most ten milliseconds unless it moves it to the present, and keeps the
  time it returned.
\<close>

lemma pacer_monotone_bounded:
  assumes "tcp_pacer_get_packet_tx_time now tp pkt_len = (t, tp')" "pkt_len \<noteq> 0" "now \<noteq> 0"
    and "unat (pc_packet_tx_time (t_pacer tp)) + 10000000 < 2 ^ 64"
  shows "unat (pc_packet_tx_time (t_pacer tp)) \<le> unat t
    \<and> (t = now \<or> unat t \<le> unat (pc_packet_tx_time (t_pacer tp)) + 10000000)
    \<and> pc_packet_tx_time (t_pacer tp') = t"
  using assms by (rule pacer_tx_time)

text \<open>
  The window scale offered never exceeds the protocol's maximum, is at least the
  configured and the previously requested one when these are within the maximum, and is the
  smallest such scale whose largest window covers the receive buffer, unless it is the maximum.
\<close>

lemma rwinscale_least_sufficient:
  assumes "word_of_int (tcp_win_scale E) \<le> TCP_MAX_WINSHIFT E" "request_r_scale tp \<le> TCP_MAX_WINSHIFT E"
    and "s0 = max (word_of_int (tcp_win_scale E)) (request_r_scale tp)"
    and "need = (if has_flag (sb_flags (so_rcv so)) (SB_USRSIZE E) then sb_hiwat (so_rcv so)
      else tcp_autorcvbuf_max E)"
    and "s = request_r_scale (tcp_set_max_rwinscale E tp so)"
  shows "s0 \<le> s \<and> s \<le> TCP_MAX_WINSHIFT E
    \<and> (s = TCP_MAX_WINSHIFT E \<or> need \<le> push_bit (unat s) (TCP_MAXWIN E + 1))
    \<and> (\<forall>k. unat s0 \<le> k \<longrightarrow> k < unat s \<longrightarrow> push_bit k (TCP_MAXWIN E + 1) < need)"
proof -
  have "s0 \<le> TCP_MAX_WINSHIFT E" using assms(1-3) by simp
  note spec = rwinscale_loop_spec [OF this, of "TCP_MAXWIN E" need]
  moreover have "s = rwinscale_loop (TCP_MAXWIN E) (TCP_MAX_WINSHIFT E) need s0"
    using spec by (simp add: assms(3-5) tcp_set_max_rwinscale_def Let_def min_absorb1)
  ultimately show ?thesis by simp
qed

text \<open>
  When more is outstanding than the send buffer holds, as after a FIN or SYN, the
  low-water check reports no write event unless the low-water mark itself is beyond the
  positive range of \<^verbatim>\<open>int\<close>: the negative amount is compared as an unsigned one. The comment
  in the source states the opposite intention.
\<close>

lemma notsent_negative_no_event:
  assumes "sint (sb_cc (so_snd so) - (snd_nxt tp - snd_una tp)) < 0" "sint (t_notsent_lowat tp) \<ge> 0"
  shows "tcp_notsent_lowat_check so (Some tp) = 0"
proof -
  let ?d = "sb_cc (so_snd so) - (snd_nxt tp - snd_una tp)"
  have "unat ?d \<ge> 2 ^ 31" "unat (t_notsent_lowat tp) < 2 ^ 31"
    using assms sint_u32_nonneg by (blast intro: leI dest: leD)+
  then have "\<not> ?d \<le> t_notsent_lowat tp" by (simp add: word_le_nat_alt)
  then show ?thesis using assms(1) by (simp add: tcp_notsent_lowat_check_def Let_def)
qed

text \<open>
  Inserting any retransmitted range of the current window keeps the list of
  retransmitted segments ordered and non-overlapping up to single positions, its counter
  equal to its length, and its length within the configured maximum.
\<close>

lemma rxtseg_insert_keeps_order:
  assumes "rxt_inv (tcp_rxt_seg_max E) isn L tp" "in_half L s" "in_half L e" "s \<le> e"
    and "length (t_rxt_segments tp) < 2 ^ 32 - 1"
  shows "rxt_inv (tcp_rxt_seg_max E) isn L (tcp_rxtseg_insert E tp (seqno isn s) (seqno isn e))"
  using assms by (rule rxt_insert_inv)

end
