(* ===== verification/CongestionControl.thy ===== *)
theory CongestionControl
  imports TcpSubr
begin

text \<open>
  The algorithm-independent part of congestion control: \<^verbatim>\<open>reference/xnu/tcp_cc.c\<close> (send-buffer
  trimming, initial window, delayed acknowledgements, congestion-window validation) and the
  stretch-acknowledgement state of \<^verbatim>\<open>tcp_input.c\<close> that it resets. \<open>cc_env\<close> adds the sysctl
  variables, header constants and foreign functions that this code and CUBIC use; \<open>now\<close> is
  the connection's clock, \<^verbatim>\<open>tcp_now\<close>.
\<close>

record cc_env = subr_env +
  tcp_cubic_minor_fixes :: int
  tcp_cubic_rfc_compliant :: int
  tcp_cubic_use_minrtt :: u32
  tcp_flow_control_response :: int
  tcp_delack_enabled :: int
  tcp_ack_strategy :: int
  TCP_ACK_STRATEGY_LEGACY :: int
  maxseg_unacked :: int
  tcp_recvspace :: u32
  tcp_sendspace :: u32
  tcp_autosndbuf_max :: u32
  tcprexmtthresh :: u8
  tcp_rcvunackwin :: u32
  tcp_maxrcvidle :: u32
  tcp_rcvsspktcnt :: int
  TCP_STRETCHACK_ENABLE_PKTCNT :: u32
  TCP_CC_CWND_INIT_BYTES :: u32
  SB_AUTOSIZE :: u32
  SB_TRIM :: u32
  TCP_CC_ALGO_NEWRENO_INDEX :: u8
  TCP_CC_ALGO_BACKGROUND_INDEX :: u8
  TCP_CC_ALGO_CUBIC_INDEX :: u8
  TCP_CC_ALGO_PRAGUE_INDEX :: u8
  tcp_initial_cwnd :: "tcpcb \<Rightarrow> u32"
  soissrcrealtime :: "socket \<Rightarrow> bool"
  cbrtf :: "rat \<Rightarrow> rat"
  f2u_undef :: u32
  before_established :: "tcp_state \<Rightarrow> bool"

subsection \<open>The send buffer\<close>

definition SNDSB_IDEAL_SIZE :: "'e cc_env_scheme \<Rightarrow> tcpcb \<Rightarrow> u32" where
  "SNDSB_IDEAL_SIZE E tp = min (max (tcp_sendspace E) (snd_ssthresh tp)) (tcp_autosndbuf_max E)"

definition tcp_cc_resize_sndbuf :: "'e cc_env_scheme \<Rightarrow> tcpcb \<Rightarrow> tcpcb" where
  "tcp_cc_resize_sndbuf E tp =
     (let sb = so_snd (inp_socket (t_inpcb tp)) in
      if sb_hiwat sb > snd_ssthresh tp \<and> has_flag (sb_flags sb) (SB_AUTOSIZE E) then
        (let sb = (if sb_idealsize sb > snd_ssthresh tp
                   then sb\<lparr>sb_idealsize := SNDSB_IDEAL_SIZE E tp\<rparr> else sb)
         in upd_snd (\<lambda>_. sb\<lparr>sb_flags := sb_flags sb OR SB_TRIM E\<rparr>) tp)
      else tp)"

definition tcp_bad_rexmt_fix_sndbuf :: "'e cc_env_scheme \<Rightarrow> tcpcb \<Rightarrow> tcpcb" where
  "tcp_bad_rexmt_fix_sndbuf E tp =
     (let sb = so_snd (inp_socket (t_inpcb tp)) in
      if sb_flags sb AND (SB_TRIM E OR SB_AUTOSIZE E) = SB_TRIM E OR SB_AUTOSIZE E then
        (let sb = sb\<lparr>sb_idealsize := SNDSB_IDEAL_SIZE E tp\<rparr>;
             sb = (if sb_hiwat sb \<le> sb_idealsize sb then
                     (let sb = snd (sbreserve E sb (sb_idealsize sb)) in
                      sb\<lparr>sb_flags := sb_flags sb AND NOT (SB_TRIM E)\<rparr>)
                   else sb)
         in upd_snd (\<lambda>_. sb) tp)
      else tp)"

subsection \<open>The initial window\<close>

definition tcp_cc_cwnd_init_or_reset :: "'e cc_env_scheme \<Rightarrow> tcpcb \<Rightarrow> tcpcb" where
  "tcp_cc_cwnd_init_or_reset E tp =
     (if tcp_cubic_minor_fixes E \<noteq> 0 then tp\<lparr>snd_cwnd := tcp_initial_cwnd E tp\<rparr>
      else tp\<lparr>snd_cwnd := min (4 * t_maxseg tp) (max (2 * t_maxseg tp) (TCP_CC_CWND_INIT_BYTES E))\<rparr>)"

subsection \<open>Delayed acknowledgements\<close>

definition tcp_cc_delay_ack :: "'e cc_env_scheme \<Rightarrow> tcpcb \<Rightarrow> tcphdr \<Rightarrow> int \<times> tcpcb" where
  "tcp_cc_delay_ack E tp th =
     (if tcp_delack_enabled E = 1 \<or> tcp_delack_enabled E = 2 then
        (if \<not> has_flag (t_flags tp) TF_RXWIN0SENT \<and> \<not> has_flag (th_flags th) TH_PUSH
            \<and> t_unacksegs tp = 1 then (1, tp) else (0, tp))
      else if tcp_delack_enabled E = 3 then
        (if tcp_ack_strategy E = TCP_ACK_STRATEGY_LEGACY E then
           (if \<not> has_flag (t_flags tp) TF_RXWIN0SENT \<and> \<not> has_flag (th_flags th) TH_PUSH
               \<and> (t_unacksegs tp = 1
                  \<or> has_flag (t_flags tp) TF_STRETCHACK \<and> uint (t_unacksegs tp) < maxseg_unacked E)
            then (1, tp) else (0, tp))
         else
           (let (space, tp) = tcp_sbspace E tp;
                recwin = word_of_int space;
                maxwin = push_bit (unat (rcv_scale tp)) (TCP_MAXWIN E);
                recwin = (if recwin > maxwin then maxwin else recwin);
                rcv = so_rcv (inp_socket (t_inpcb tp));
                unacked = rcv_nxt tp - last_ack_sent tp
            in if \<not> has_flag (t_flags tp) TF_RXWIN0SENT \<and> t_forced_acks tp = 0
                  \<and> sb_cc rcv > sb_lowat rcv \<and> recwin \<le> t_last_recwin tp
                  \<and> (unacked \<le> t_maxseg tp \<or> recwin > tcp_recvspace E + drop_bit 1 (tcp_recvspace E))
                  \<and> unacked < drop_bit 2 recwin \<and> unacked < 256 * t_maxseg tp
               then (1, tp\<lparr>t_stat := (t_stat tp)\<lparr>acks_delayed := acks_delayed (t_stat tp) + 1\<rparr>\<rparr>)
               else (0, tp)))
      else (0, tp))"

subsection \<open>Algorithm state\<close>

definition tcp_cc_allocate_state :: "'e cc_env_scheme \<Rightarrow> tcpcb \<Rightarrow> tcpcb" where
  "tcp_cc_allocate_state E tp =
     (if (tcp_cc_index tp = TCP_CC_ALGO_CUBIC_INDEX E \<or> tcp_cc_index tp = TCP_CC_ALGO_PRAGUE_INDEX E
          \<or> tcp_cc_index tp = TCP_CC_ALGO_BACKGROUND_INDEX E) \<and> t_ccstate tp = None
      then tp\<lparr>t_ccstate := Some tcp_ccstate_zero\<rparr> else tp)"

subsection \<open>Stretching acknowledgements\<close>

definition tcp_reset_stretch_ack :: "'e cc_env_scheme \<Rightarrow> u32 \<Rightarrow> tcpcb \<Rightarrow> tcpcb" where
  "tcp_reset_stretch_ack E now tp =
     tp\<lparr>t_flags := t_flags tp AND NOT (TF_STRETCHACK OR TF_STREAMING_ON),
        rcv_by_unackwin := 0,
        rcv_by_unackhalfwin := 0,
        rcv_unackwin := now + tcp_rcvunackwin E,
        t_flagsext := t_flagsext tp OR TF_RCVUNACK_WAITSS,
        rcv_waitforss := 0\<rparr>"

definition tcp_stretch_ack_enable :: "'e cc_env_scheme \<Rightarrow> u32 \<Rightarrow> tcpcb \<Rightarrow> u8 \<Rightarrow> int \<times> tcpcb" where
  "tcp_stretch_ack_enable E now tp thflags =
     (let tp = (if rcv_by_unackwin tp \<ge> word_of_int (maxseg_unacked E) * t_maxseg tp
                   \<and> seq_geq (rcv_unackwin tp) now
                then tp\<lparr>t_flags := t_flags tp OR TF_STREAMING_ON\<rparr>
                else tp\<lparr>t_flags := t_flags tp AND NOT TF_STREAMING_ON\<rparr>);
          tp = (if seq_gt now (rcv_unackwin tp + tcp_maxrcvidle E)
                then tp\<lparr>t_flags := t_flags tp AND NOT TF_STREAMING_ON\<rparr> else tp);
          tp = (if thflags AND NOT TH_ACK \<noteq> 0
                then tp\<lparr>t_flags := t_flags tp AND NOT TF_STREAMING_ON\<rparr> else tp);
          tp = (if has_flag (t_flagsext tp) TF_DISABLE_STRETCHACK then
                  (if rcv_nostrack_pkts tp \<ge> TCP_STRETCHACK_ENABLE_PKTCNT E
                   then tp\<lparr>t_flagsext := t_flagsext tp AND NOT TF_DISABLE_STRETCHACK,
                          rcv_nostrack_pkts := 0, rcv_nostrack_ts := 0\<rparr>
                   else tp\<lparr>rcv_nostrack_pkts := rcv_nostrack_pkts tp + 1\<rparr>)
                else tp)
      in if t_flagsext tp AND (TF_NOSTRETCHACK OR TF_DISABLE_STRETCHACK) = 0
            \<and> has_flag (t_flags tp) TF_STREAMING_ON
            \<and> (\<not> has_flag (t_flagsext tp) TF_RCVUNACK_WAITSS
               \<or> uint (rcv_waitforss tp) \<ge> tcp_rcvsspktcnt E)
         then (1, tp) else (0, tp))"

definition TCP_STRETCHACK_DISABLE_WIN :: int where
  "TCP_STRETCHACK_DISABLE_WIN = 15 * 60 * 1000"

definition tcp_cc_after_idle_stretchack :: "'e cc_env_scheme \<Rightarrow> u32 \<Rightarrow> tcpcb \<Rightarrow> tcpcb" where
  "tcp_cc_after_idle_stretchack E now tp =
     (if \<not> has_flag (t_flagsext tp) TF_DISABLE_STRETCHACK then tp
      else
        (let tdiff = timer_diff now 0 (rcv_nostrack_ts tp) 0;
             tdiff = (if tdiff < 0 then - tdiff else tdiff)
         in if tdiff > TCP_STRETCHACK_DISABLE_WIN then
              tcp_reset_stretch_ack E now
                (tp\<lparr>t_flagsext := t_flagsext tp AND NOT TF_DISABLE_STRETCHACK, t_stretchack_delayed := 0\<rparr>)
            else tp))"

subsection \<open>Congestion-window validation\<close>

definition tcp_get_max_pipeack :: "tcpcb \<Rightarrow> u32" where
  "tcp_get_max_pipeack tp =
     (let s = t_pipeack_sample tp;
          max_pipeack = (if s ! 0 > s ! 1 then s ! 0 else s ! 1)
      in if s ! 2 > max_pipeack then s ! 2 else max_pipeack)"

definition tcp_clear_pipeack_state :: "tcpcb \<Rightarrow> tcpcb" where
  "tcp_clear_pipeack_state tp =
     tp\<lparr>t_pipeack_sample := [0, 0, 0], t_pipeack_ind := 0, t_lossflightsize := 0\<rparr>"

definition tcp_cc_is_cwnd_nonvalidated :: "tcpcb \<Rightarrow> u32 \<times> tcpcb" where
  "tcp_cc_is_cwnd_nonvalidated tp =
     (if t_pipeack tp = 0 then (0, tp\<lparr>t_flagsext := t_flagsext tp AND NOT TF_CWND_NONVALIDATED\<rparr>)
      else
        (let tp = (if t_pipeack tp \<ge> drop_bit 1 (snd_cwnd tp)
                      \<or> sb_cc (so_snd (inp_socket (t_inpcb tp))) > snd_cwnd tp
                   then tp\<lparr>t_flagsext := t_flagsext tp AND NOT TF_CWND_NONVALIDATED\<rparr>
                   else tp\<lparr>t_flagsext := t_flagsext tp OR TF_CWND_NONVALIDATED\<rparr>)
         in (t_flagsext tp AND TF_CWND_NONVALIDATED, tp)))"

definition tcp_cc_adjust_nonvalidated_cwnd :: "'e cc_env_scheme \<Rightarrow> tcpcb \<Rightarrow> tcpcb" where
  "tcp_cc_adjust_nonvalidated_cwnd E tp =
     (let tp = tp\<lparr>t_pipeack := tcp_get_max_pipeack tp\<rparr>;
          tp = tcp_clear_pipeack_state tp;
          tp = tp\<lparr>snd_cwnd := drop_bit 1 (max (t_pipeack tp) (t_lossflightsize tp))\<rparr>;
          tp = (if tcp_cubic_minor_fixes E \<noteq> 0 then tp\<lparr>snd_cwnd := max (snd_cwnd tp) (t_maxseg tp)\<rparr>
                else tp\<lparr>snd_cwnd := max (snd_cwnd tp) (TCP_CC_CWND_INIT_BYTES E)\<rparr>);
          tp = tp\<lparr>snd_cwnd := snd_cwnd tp + t_maxseg tp * ucast (tcprexmtthresh E)\<rparr>
      in tp\<lparr>t_flagsext := t_flagsext tp AND NOT TF_CWND_NONVALIDATED\<rparr>)"

subsection \<open>Facts\<close>

lemma max_pipeack_Max:
  assumes "length (t_pipeack_sample tp) = 3"
  shows "tcp_get_max_pipeack tp = Max (set (t_pipeack_sample tp))"
proof -
  obtain a b c where s: "t_pipeack_sample tp = [a, b, c]"
    using assms by (auto simp: numeral_3_eq_3 length_Suc_conv)
  then show ?thesis by (auto simp: tcp_get_max_pipeack_def Let_def max_def)
qed

lemma nonvalidated_result:
  "fst (tcp_cc_is_cwnd_nonvalidated tp) \<noteq> 0 \<longleftrightarrow>
     t_pipeack tp \<noteq> 0 \<and> t_pipeack tp < drop_bit 1 (snd_cwnd tp)
     \<and> sb_cc (so_snd (inp_socket (t_inpcb tp))) \<le> snd_cwnd tp"
  by (auto simp: tcp_cc_is_cwnd_nonvalidated_def Let_def flag_simps
      not_less not_le)

lemma nonvalidated_state:
  "has_flag (t_flagsext (snd (tcp_cc_is_cwnd_nonvalidated tp))) TF_CWND_NONVALIDATED
     \<longleftrightarrow> fst (tcp_cc_is_cwnd_nonvalidated tp) \<noteq> 0"
  by (simp add: tcp_cc_is_cwnd_nonvalidated_def Let_def flag_simps)

lemma nonvalidated_keeps:
  "snd (tcp_cc_is_cwnd_nonvalidated tp) =
     tp\<lparr>t_flagsext := t_flagsext (snd (tcp_cc_is_cwnd_nonvalidated tp))\<rparr>"
  by (simp add: tcp_cc_is_cwnd_nonvalidated_def Let_def)

lemma nonvalidated_frame [simp]:
  "snd_cwnd (snd (tcp_cc_is_cwnd_nonvalidated tp)) = snd_cwnd tp"
  "snd_ssthresh (snd (tcp_cc_is_cwnd_nonvalidated tp)) = snd_ssthresh tp"
  "t_maxseg (snd (tcp_cc_is_cwnd_nonvalidated tp)) = t_maxseg tp"
  "snd_scale (snd (tcp_cc_is_cwnd_nonvalidated tp)) = snd_scale tp"
  "t_ccstate (snd (tcp_cc_is_cwnd_nonvalidated tp)) = t_ccstate tp"
  by (simp_all add: tcp_cc_is_cwnd_nonvalidated_def Let_def)

lemma resize_sndbuf_frame [simp]:
  "snd_cwnd (tcp_cc_resize_sndbuf E tp) = snd_cwnd tp"
  "snd_ssthresh (tcp_cc_resize_sndbuf E tp) = snd_ssthresh tp"
  "t_maxseg (tcp_cc_resize_sndbuf E tp) = t_maxseg tp"
  "t_ccstate (tcp_cc_resize_sndbuf E tp) = t_ccstate tp"
  "t_flags (tcp_cc_resize_sndbuf E tp) = t_flags tp"
  "snd_max (tcp_cc_resize_sndbuf E tp) = snd_max tp"
  by (simp_all add: tcp_cc_resize_sndbuf_def upd_snd_def Let_def)

lemma adjust_nonvalidated_eq:
  "snd_cwnd (tcp_cc_adjust_nonvalidated_cwnd E tp) =
     max (drop_bit 1 (tcp_get_max_pipeack tp))
         (if tcp_cubic_minor_fixes E \<noteq> 0 then t_maxseg tp else TCP_CC_CWND_INIT_BYTES E)
     + t_maxseg tp * ucast (tcprexmtthresh E)"
  by (simp add: tcp_cc_adjust_nonvalidated_cwnd_def tcp_clear_pipeack_state_def Let_def)

definition cc_env_zero :: cc_env where
  "cc_env_zero = subr_env.extend subr_env_zero
     (cc_env.fields 0 0 0 1 3 1 0 8 131072 131072 2097152 3 500 15000 512 3200 4380 0x800 0x1000 1 2 3 4
        (\<lambda>tp. 10 * t_maxseg tp) (\<lambda>_. False) (\<lambda>x. x) 0
        (\<lambda>s. s \<in> {TCPS_CLOSED, TCPS_LISTEN, TCPS_SYN_SENT, TCPS_SYN_RECEIVED}))"

lemmas cc_env_zero_simps = cc_env_zero_def subr_env.defs cc_env.defs subr_env_zero_def

subsection \<open>Properties\<close>

text \<open>
  The congestion window counts as non-validated exactly when some data was
  acknowledged in the last round trip, less than half of the window of it, and no more data
  is waiting than the window allows; the flag in the control block says the same and nothing
  else of the control block changes.
\<close>

lemma cwnd_validation_exact:
  "(fst (tcp_cc_is_cwnd_nonvalidated tp) \<noteq> 0 \<longleftrightarrow>
     t_pipeack tp \<noteq> 0 \<and> t_pipeack tp < drop_bit 1 (snd_cwnd tp)
     \<and> sb_cc (so_snd (inp_socket (t_inpcb tp))) \<le> snd_cwnd tp)
   \<and> (has_flag (t_flagsext (snd (tcp_cc_is_cwnd_nonvalidated tp))) TF_CWND_NONVALIDATED
     \<longleftrightarrow> fst (tcp_cc_is_cwnd_nonvalidated tp) \<noteq> 0)
   \<and> snd (tcp_cc_is_cwnd_nonvalidated tp) =
     tp\<lparr>t_flagsext := t_flagsext (snd (tcp_cc_is_cwnd_nonvalidated tp))\<rparr>"
  using nonvalidated_result nonvalidated_state nonvalidated_keeps by blast

text \<open>
  The window after congestion in the non-validated phase does not depend on the
  flight size recorded at the loss: the code clears that field before it takes the maximum
  with it, so only the pipe-acknowledgement samples count.
\<close>

lemma nonvalidated_window_ignores_lossflight:
  "snd_cwnd (tcp_cc_adjust_nonvalidated_cwnd E (tp\<lparr>t_lossflightsize := f\<rparr>))
     = max (drop_bit 1 (tcp_get_max_pipeack tp))
         (if tcp_cubic_minor_fixes E \<noteq> 0 then t_maxseg tp else TCP_CC_CWND_INIT_BYTES E)
       + t_maxseg tp * ucast (tcprexmtthresh E)"
  unfolding adjust_nonvalidated_eq by (simp add: tcp_get_max_pipeack_def)

end
