(* ===== verification/Cubic.thy ===== *)
theory Cubic
  imports CongestionControl "HOL-Library.Log_Nat"
begin

text \<open>
  The CUBIC algorithm, \<^verbatim>\<open>reference/xnu/tcp_cubic.c\<close>, function by function. Every operation
  that dereferences \<^verbatim>\<open>tp->t_ccstate\<close> or verifies it returns \<open>None\<close> when the pointer is null,
  and so do the other \<^verbatim>\<open>VERIFY\<close> panics. Single-precision arithmetic is rational arithmetic
  followed by \<open>fl\<close>, rounding to 24 significant bits, ties to even; exponent limits are not
  modelled (the values here stay far from them), \<^verbatim>\<open>cbrtf\<close> is a parameter, and the conversion
  of an out-of-range value to \<^verbatim>\<open>uint32_t\<close>, undefined in C, gives the parameter
  \<open>f2u_undef\<close>.
\<close>

subsection \<open>Single-precision arithmetic\<close>

definition expo :: "rat \<Rightarrow> int" where
  "expo x = (let (n, d) = quotient_of \<bar>x\<bar>; e = int (floorlog 2 (nat n)) - int (floorlog 2 (nat d))
     in if 2 powi e \<le> \<bar>x\<bar> then e else e - 1)"

definition rne :: "rat \<Rightarrow> int" where
  "rne q = (let f = \<lfloor>q\<rfloor>; r = q - of_int f in
     if r < 1 / 2 then f else if r > 1 / 2 then f + 1 else if even f then f else f + 1)"

definition fl :: "rat \<Rightarrow> rat" where
  "fl x = (if x = 0 then 0 else (let u = 2 powi (expo x - 23) in of_int (rne (x / u)) * u))"

definition u2f :: "u32 \<Rightarrow> rat" where
  "u2f x = fl (of_int (uint x))"

definition f2u :: "'e cc_env_scheme \<Rightarrow> rat \<Rightarrow> u32" where
  "f2u E x = (if -1 < x \<and> x < 2 ^ 32 then word_of_int \<lfloor>max 0 x\<rfloor> else f2u_undef E)"

subsection \<open>State\<close>

text \<open>The file's static variables that \<^verbatim>\<open>tcp_cubic_init\<close> sets.\<close>

record cubic_params =
  tcp_cubic_backoff :: rat
  tcp_cubic_coeff :: rat
  tcp_cubic_fast_convergence_factor :: rat
  tcp_cubic_beta :: rat

definition cubic_params_init :: cubic_params where
  "cubic_params_init = \<lparr>tcp_cubic_backoff = fl (2 / 10), tcp_cubic_coeff = fl (4 / 10),
     tcp_cubic_fast_convergence_factor = fl (875 / 1000), tcp_cubic_beta = fl (8 / 10)\<rparr>"

abbreviation getc :: "tcpcb \<Rightarrow> tcp_cubic_state" where
  "getc tp \<equiv> u_cubic (the (t_ccstate tp))"

definition upd_cub :: "(tcp_cubic_state \<Rightarrow> tcp_cubic_state) \<Rightarrow> tcpcb \<Rightarrow> tcpcb" where
  "upd_cub f tp = tp\<lparr>t_ccstate := map_option (\<lambda>s. s\<lparr>u_cubic := f (u_cubic s)\<rparr>) (t_ccstate tp)\<rparr>"

definition tcp_cubic_clear_state :: "tcpcb \<Rightarrow> tcpcb" where
  "tcp_cubic_clear_state = upd_cub (\<lambda>c. c\<lparr>tc_last_max := 0, tc_epoch_start := 0, tc_origin_point := 0,
     tc_tcp_win := 0, tc_tcp_bytes_acked := 0, tc_epoch_period := 0\<rparr>)"

definition tcp_cubic_init :: "'e cc_env_scheme \<Rightarrow> cubic_params \<Rightarrow> tcpcb \<Rightarrow> (cubic_params \<times> tcpcb) option" where
  "tcp_cubic_init E P tp =
     (let P = (if tcp_cubic_rfc_compliant E \<noteq> 0
               then P\<lparr>tcp_cubic_backoff := fl (3 / 10), tcp_cubic_fast_convergence_factor := fl (85 / 100),
                      tcp_cubic_beta := fl (7 / 10)\<rparr>
               else P\<lparr>tcp_cubic_backoff := fl (2 / 10), tcp_cubic_fast_convergence_factor := fl (875 / 1000),
                      tcp_cubic_beta := fl (8 / 10)\<rparr>)
      in if t_ccstate tp = None then None else Some (P, tcp_cubic_clear_state tp))"

definition maxwin_shifted :: "'e subr_env_scheme \<Rightarrow> u32" where
  "maxwin_shifted E = push_bit (unat (TCP_MAX_WINSHIFT E)) (TCP_MAXWIN E)"

definition tcp_cubic_cwnd_init_or_reset :: "'e cc_env_scheme \<Rightarrow> tcpcb \<Rightarrow> tcpcb option" where
  "tcp_cubic_cwnd_init_or_reset E tp =
     (if t_ccstate tp = None then None
      else
        (let tp = tcp_cubic_clear_state tp;
             tp = tcp_cc_cwnd_init_or_reset E tp;
             tp = tp\<lparr>t_pipeack := 0\<rparr>;
             tp = tcp_clear_pipeack_state tp;
             tp = tp\<lparr>t_bytes_acked := 0\<rparr>;
             tp = (if inp_txbytes (t_inpcb tp) \<le> ucast (tcp_initial_cwnd E tp)
                      \<and> snd_ssthresh tp < maxwin_shifted E
                   then tp\<lparr>snd_ssthresh := maxwin_shifted E\<rparr> else tp)
         in Some (upd_cub (\<lambda>c. c\<lparr>tc_last_max := snd_ssthresh tp\<rparr>) tp)))"

subsection \<open>The cubic window\<close>

definition cubic_K :: "'e cc_env_scheme \<Rightarrow> cubic_params \<Rightarrow> u32 \<Rightarrow> u32 \<Rightarrow> u32 \<Rightarrow> rat" where
  "cubic_K E P last_max win maxseg =
     (let K = (if tcp_cubic_minor_fixes E \<noteq> 0
               then fl (fl (fl (u2f last_max - u2f win) / u2f maxseg) / tcp_cubic_coeff P)
               else fl (u2f ((last_max - win) div maxseg) / tcp_cubic_coeff P))
      in cbrtf E K)"

definition tcp_cubic_update ::
  "'e cc_env_scheme \<Rightarrow> cubic_params \<Rightarrow> u32 \<Rightarrow> tcpcb \<Rightarrow> u32 \<Rightarrow> (u32 \<times> tcpcb) option" where
  "tcp_cubic_update E P now tp rtt =
     (if t_ccstate tp = None then None
      else
        (let win = min (snd_cwnd tp) (snd_wnd tp);
             tp = (if tc_last_max (getc tp) = 0
                   then upd_cub (\<lambda>c. c\<lparr>tc_last_max := snd_ssthresh tp\<rparr>) tp else tp);
             tp = (if tc_epoch_start (getc tp) = 0 then
                     (let tp = upd_cub (\<lambda>c. c\<lparr>tc_epoch_start := (if now = 0 then 1 else now)\<rparr>) tp in
                      if win < tc_last_max (getc tp) then
                        upd_cub (\<lambda>c. c\<lparr>
                          tc_epoch_period := fl (cubic_K E P (tc_last_max c) win (t_maxseg tp) * 1000),
                          tc_origin_point := tc_last_max c\<rparr>) tp
                      else upd_cub (\<lambda>c. c\<lparr>tc_epoch_period := 0, tc_origin_point := win\<rparr>) tp)
                   else tp);
             c = getc tp
         in if tc_origin_point c = 0 then None
            else
              (let elapsed_time = word_of_int (timer_diff now 0 (tc_epoch_start c) 0);
                   elapsed_time = elapsed_time
                     + (if tcp_cubic_use_minrtt E \<noteq> 0 then max (tcp_cubic_use_minrtt E) rtt else rtt);
                   var = fl (fl (u2f elapsed_time - tc_epoch_period c) / 1000);
                   var = fl (fl (fl (var * var) * var) * fl (tcp_cubic_coeff P * u2f (t_maxseg tp)))
               in Some (f2u E (fl (u2f (tc_origin_point c) + var)), tp))))"

subsection \<open>The window of standard TCP\<close>

text \<open>
  The loop of \<^verbatim>\<open>tcp_cubic_tcpwin\<close>: nothing in its body changes the window, the maximum or the
  increment, and it does not terminate when the window is zero.
\<close>

partial_function (option) aimd_loop :: "u32 \<Rightarrow> u32 \<Rightarrow> u32 \<Rightarrow> u32 \<Rightarrow> (u32 \<times> u32) option" where
  "aimd_loop cwnd inc bytes win =
     (if bytes \<ge> cwnd then aimd_loop cwnd inc (bytes - cwnd) (win + inc) else Some (bytes, win))"

definition aimd_increment :: "'e cc_env_scheme \<Rightarrow> cubic_params \<Rightarrow> tcpcb \<Rightarrow> u32" where
  "aimd_increment E P tp =
     (if snd_cwnd tp \<ge> tc_last_max (getc tp) \<or> tcp_cubic_rfc_compliant E = 0 then t_maxseg tp
      else
        (let ai_factor = fl (fl (3 * fl (1 - tcp_cubic_beta P)) / fl (1 + tcp_cubic_beta P))
         in f2u E (fl (u2f (t_maxseg tp) * ai_factor))))"

definition tcp_cubic_tcpwin ::
  "'e cc_env_scheme \<Rightarrow> cubic_params \<Rightarrow> tcpcb \<Rightarrow> tcphdr \<Rightarrow> (u32 \<times> tcpcb) option" where
  "tcp_cubic_tcpwin E P tp th =
     (if t_ccstate tp = None then None
      else if tc_tcp_win (getc tp) = 0 then
        (let tp = upd_cub (\<lambda>c. c\<lparr>tc_tcp_win := min (snd_cwnd tp) (snd_wnd tp),
               tc_tcp_bytes_acked := (if tcp_cubic_minor_fixes E \<noteq> 0 then BYTES_ACKED th tp else 0)\<rparr>) tp
         in Some (tc_tcp_win (getc tp), tp))
      else
        (let tp = upd_cub (\<lambda>c. c\<lparr>tc_tcp_bytes_acked := tc_tcp_bytes_acked c + BYTES_ACKED th tp\<rparr>) tp;
             c = getc tp
         in if tcp_cubic_minor_fixes E \<noteq> 0 then
              (case aimd_loop (snd_cwnd tp) (aimd_increment E P tp) (tc_tcp_bytes_acked c) (tc_tcp_win c) of
                 None \<Rightarrow> None
               | Some (bytes, win) \<Rightarrow>
                   Some (win, upd_cub (\<lambda>c. c\<lparr>tc_tcp_bytes_acked := bytes, tc_tcp_win := win\<rparr>) tp))
            else if tc_tcp_bytes_acked c \<ge> tc_tcp_win c then
              (let tp = upd_cub (\<lambda>c. c\<lparr>tc_tcp_bytes_acked := tc_tcp_bytes_acked c - tc_tcp_win c,
                     tc_tcp_win := tc_tcp_win c + t_maxseg tp\<rparr>) tp
               in Some (tc_tcp_win (getc tp), tp))
            else Some (tc_tcp_win c, tp)))"

subsection \<open>Acknowledgements\<close>

definition TCP_CUBIC_ENABLE_TCPMODE :: "'e cc_env_scheme \<Rightarrow> tcpcb \<Rightarrow> bool" where
  "TCP_CUBIC_ENABLE_TCPMODE E tp \<longleftrightarrow>
     \<not> soissrcrealtime E (inp_socket (t_inpcb tp)) \<and> tc_mean_deviation (getc tp) > push_bit 1 (t_maxseg tp)"

definition maxwin_snd :: "'e subr_env_scheme \<Rightarrow> tcpcb \<Rightarrow> u32" where
  "maxwin_snd E tp = push_bit (unat (snd_scale tp)) (TCP_MAXWIN E)"

definition get_base_rtt :: "tcpcb \<Rightarrow> u32" where
  "get_base_rtt tp = (case inp_rt (t_inpcb tp) of None \<Rightarrow> 0 | Some rt \<Rightarrow> rtt_min rt)"

text \<open>Opening the window by one segment once \<open>incr_win\<close> bytes have been acknowledged.\<close>

definition open_cwnd :: "'e subr_env_scheme \<Rightarrow> u64 \<Rightarrow> tcpcb \<Rightarrow> tcpcb" where
  "open_cwnd E incr_win tp =
     (if incr_win > 0 \<and> ucast (t_bytes_acked tp) \<ge> incr_win
      then tp\<lparr>t_bytes_acked := ucast (ucast (t_bytes_acked tp) - incr_win),
              snd_cwnd := min (snd_cwnd tp + t_maxseg tp) (maxwin_snd E tp)\<rparr>
      else tp)"

definition tcp_cubic_congestion_avd ::
  "'e cc_env_scheme \<Rightarrow> cubic_params \<Rightarrow> u32 \<Rightarrow> tcpcb \<Rightarrow> tcphdr \<Rightarrow> tcpcb option" where
  "tcp_cubic_congestion_avd E P now tp th =
     (let (nonvalidated, tp) = tcp_cc_is_cwnd_nonvalidated tp in
      if nonvalidated \<noteq> 0 then Some tp
      else
        do {
          let tp = tp\<lparr>t_bytes_acked := t_bytes_acked tp + BYTES_ACKED th tp\<rparr>;
          let rtt = get_base_rtt tp;
          (cubic_target_win, tp) \<leftarrow> tcp_cubic_update E P now tp rtt;
          (tcp_win, tp) \<leftarrow> tcp_cubic_tcpwin E P tp th;
          let (incr_win, tp) =
            (if snd_cwnd tp < tcp_win \<and> tcp_cubic_minor_fixes E = 0 \<and> TCP_CUBIC_ENABLE_TCPMODE E tp then
               (0xFFFFFFFF :: u64,
                if t_bytes_acked tp \<ge> snd_cwnd tp
                then tp\<lparr>t_bytes_acked := t_bytes_acked tp - snd_cwnd tp,
                        snd_cwnd := min tcp_win (maxwin_snd E tp)\<rparr>
                else tp)
             else if cubic_target_win > snd_cwnd tp then
               (let incr_win = ucast (snd_cwnd tp) * ucast (t_maxseg tp)
                      div ucast (cubic_target_win - snd_cwnd tp)
                in (incr_win, if tcp_cubic_minor_fixes E = 0 then open_cwnd E incr_win tp else tp))
             else (0xFFFFFFFF, tp));
          Some (if tcp_cubic_minor_fixes E \<noteq> 0 then
                  (let tcp_win = tcp_round_to tcp_win (t_maxseg tp);
                       incr_win =
                         (if snd_cwnd tp < tcp_win then
                            (let tcp_incr_win = ucast (snd_cwnd tp) * ucast (t_maxseg tp)
                                   div ucast (tcp_win - snd_cwnd tp)
                             in if tcp_incr_win < incr_win then tcp_incr_win else incr_win)
                          else incr_win)
                   in open_cwnd E incr_win tp)
                else tp)
        })"

definition tcp_cubic_ack_rcvd ::
  "'e cc_env_scheme \<Rightarrow> cubic_params \<Rightarrow> u32 \<Rightarrow> tcpcb \<Rightarrow> tcphdr \<Rightarrow> tcpcb option" where
  "tcp_cubic_ack_rcvd E P now tp th =
     (let (nonvalidated, tp) = tcp_cc_is_cwnd_nonvalidated tp in
      if nonvalidated \<noteq> 0 then Some tp
      else if snd_cwnd tp \<ge> snd_ssthresh tp then tcp_cubic_congestion_avd E P now tp th
      else
        (let acked = BYTES_ACKED th tp;
             abc_lim = (if tcp_cubic_minor_fixes E \<noteq> 0 then tcp_initial_cwnd E tp
                        else if snd_nxt tp = snd_max tp then 2 * t_maxseg tp else t_maxseg tp);
             incr = min acked abc_lim
         in Some (tp\<lparr>snd_cwnd := min (snd_cwnd tp + incr) (maxwin_snd E tp)\<rparr>)))"

subsection \<open>Recovery\<close>

definition cubic_note_loss :: "'e cc_env_scheme \<Rightarrow> cubic_params \<Rightarrow> u32 \<Rightarrow> u32 \<Rightarrow> tcp_cubic_state \<Rightarrow> tcp_cubic_state" where
  "cubic_note_loss E P win flight c =
     (let c = c\<lparr>tc_last_max := (if win < tc_last_max c \<and> tcp_cubic_minor_fixes E \<noteq> 0
                then f2u E (fl (u2f win * tcp_cubic_fast_convergence_factor P)) else win)\<rparr>;
          c = (if tc_last_max c = 0 then c\<lparr>tc_last_max := flight\<rparr> else c);
          c = (if tc_avg_lastmax c = 0 then c\<lparr>tc_avg_lastmax := tc_last_max c\<rparr>
               else
                 (let avg = push_bit 6 (tc_avg_lastmax c) - tc_avg_lastmax c
                  in c\<lparr>tc_avg_lastmax := drop_bit 6 (avg + tc_last_max c)\<rparr>));
          dev = sint (tc_avg_lastmax c - tc_last_max c);
          dev = (if dev < 0 then - dev else dev)
      in if tc_mean_deviation c = 0 then c\<lparr>tc_mean_deviation := word_of_int dev\<rparr>
         else
           (let dev = sint (word_of_int dev
                  + (push_bit 4 (tc_mean_deviation c) - tc_mean_deviation c) :: u32)
            in c\<lparr>tc_mean_deviation := word_of_int (drop_bit 4 dev)\<rparr>))"

definition cubic_loss_window :: "'e cc_env_scheme \<Rightarrow> tcpcb \<Rightarrow> u32 \<times> tcpcb" where
  "cubic_loss_window E tp =
     (let win = min (snd_cwnd tp) (snd_wnd tp) in
      if has_flag (t_flagsext tp) TF_CWND_NONVALIDATED then
        (let tp = tp\<lparr>t_lossflightsize := snd_max tp - snd_una tp\<rparr>;
             w = max (t_pipeack tp) (t_lossflightsize tp)
         in (if tcp_flow_control_response E \<noteq> 0 then w else drop_bit 1 w, tp))
      else (win, tp\<lparr>t_lossflightsize := 0\<rparr>))"

definition cubic_backoff :: "'e cc_env_scheme \<Rightarrow> cubic_params \<Rightarrow> u32 \<Rightarrow> u32 \<Rightarrow> u32" where
  "cubic_backoff E P maxseg win =
     (let win = f2u E (fl (u2f win - fl (u2f win * tcp_cubic_backoff P)));
          win = tcp_round_to win maxseg
      in if win < 2 * maxseg then 2 * maxseg else win)"

definition tcp_cubic_pre_fr :: "'e cc_env_scheme \<Rightarrow> cubic_params \<Rightarrow> tcpcb \<Rightarrow> tcpcb option" where
  "tcp_cubic_pre_fr E P tp =
     (if t_ccstate tp = None then None
      else
        (let tp = upd_cub (\<lambda>c. c\<lparr>tc_epoch_start := 0, tc_tcp_win := 0, tc_tcp_bytes_acked := 0\<rparr>) tp;
             (win, tp) = cubic_loss_window E tp;
             tp = upd_cub (cubic_note_loss E P win (snd_max tp - snd_una tp)) tp
         in Some (tcp_cc_resize_sndbuf E (tp\<lparr>snd_ssthresh := cubic_backoff E P (t_maxseg tp) win\<rparr>))))"

definition tcp_cubic_post_fr :: "'e cc_env_scheme \<Rightarrow> tcpcb \<Rightarrow> tcphdr option \<Rightarrow> tcpcb option" where
  "tcp_cubic_post_fr E tp tho =
     (let ack = (case tho of Some th \<Rightarrow> th_ack th | None \<Rightarrow> snd_una tp);
          flight_size =
            (if seq_leq ack (snd_max tp) \<and> (tcp_cubic_minor_fixes E = 0 \<or> tcp_flow_control_response E \<noteq> 0)
             then snd_max tp - ack
             else if tcp_cubic_minor_fixes E \<noteq> 0 then snd_ssthresh tp else 0);
          flight_size =
            (if SACK_ENABLED tp \<and> t_lossflightsize tp > 0 \<and> tcp_cubic_minor_fixes E = 0 then
               (let total_rxt_size = tcp_rxtseg_total_size tp;
                    ncwnd = max (t_pipeack tp) (t_lossflightsize tp);
                    ncwnd = (if total_rxt_size \<le> ncwnd then ncwnd - total_rxt_size else ncwnd);
                    ncwnd = min ncwnd (push_bit 6 (t_maxseg tp));
                    ncwnd = drop_bit 1 ncwnd
                in max ncwnd flight_size)
             else flight_size);
          tp = (if flight_size < snd_ssthresh tp
                then tp\<lparr>snd_cwnd := max flight_size (t_maxseg tp) + t_maxseg tp\<rparr>
                else tp\<lparr>snd_cwnd := snd_ssthresh tp\<rparr>)
      in if t_ccstate tp = None then None
         else Some (upd_cub (\<lambda>c. c\<lparr>tc_tcp_win := 0, tc_tcp_bytes_acked := 0\<rparr>) tp))"

definition tcp_cubic_after_timeout :: "'e cc_env_scheme \<Rightarrow> cubic_params \<Rightarrow> tcpcb \<Rightarrow> tcpcb option" where
  "tcp_cubic_after_timeout E P tp =
     (if t_ccstate tp = None then None
      else if before_established E (t_state tp) \<and> sint (snd_max tp - snd_una tp) \<le> 1 then Some tp
      else
        do {
          tp \<leftarrow> (if \<not> IN_FASTRECOVERY tp then tcp_cubic_pre_fr E P (tcp_cubic_clear_state tp) else Some tp);
          Some (tp\<lparr>snd_cwnd := t_maxseg tp\<rparr>)
        })"

text \<open>The number of sockets that use the algorithm is a statistic and is not represented.\<close>

definition tcp_cubic_cleanup :: "tcpcb \<Rightarrow> tcpcb option" where
  "tcp_cubic_cleanup tp = Some tp"

definition tcp_cubic_delay_ack :: "'e cc_env_scheme \<Rightarrow> tcpcb \<Rightarrow> tcphdr \<Rightarrow> int \<times> tcpcb" where
  "tcp_cubic_delay_ack E tp th = tcp_cc_delay_ack E tp th"

definition tcp_cubic_switch_cc :: "'e cc_env_scheme \<Rightarrow> tcpcb \<Rightarrow> tcpcb option" where
  "tcp_cubic_switch_cc E tp = tcp_cubic_cwnd_init_or_reset E tp"

subsection \<open>The algorithm table\<close>

record tcp_cc_algo =
  cleanup :: "(tcpcb \<Rightarrow> tcpcb option) option"
  cwnd_init :: "(tcpcb \<Rightarrow> tcpcb option) option"
  ack_rcvd :: "(tcpcb \<Rightarrow> tcphdr \<Rightarrow> tcpcb option) option"
  pre_fr :: "(tcpcb \<Rightarrow> tcpcb option) option"
  post_fr :: "(tcpcb \<Rightarrow> tcphdr option \<Rightarrow> tcpcb option) option"
  after_idle :: "(tcpcb \<Rightarrow> tcpcb option) option"
  after_timeout :: "(tcpcb \<Rightarrow> tcpcb option) option"
  congestion_avd :: "(tcpcb \<Rightarrow> tcphdr \<Rightarrow> tcpcb option) option"
  delay_ack :: "(tcpcb \<Rightarrow> tcphdr \<Rightarrow> int \<times> tcpcb) option"
  switch_to :: "(tcpcb \<Rightarrow> tcpcb option) option"
  process_ecn :: "(tcpcb \<Rightarrow> tcphdr \<Rightarrow> u32 \<Rightarrow> u32 \<Rightarrow> u32 \<Rightarrow> tcpcb option) option"

definition tcp_cc_cubic :: "'e cc_env_scheme \<Rightarrow> cubic_params \<Rightarrow> u32 \<Rightarrow> tcp_cc_algo" where
  "tcp_cc_cubic E P now =
     \<lparr>cleanup = Some tcp_cubic_cleanup,
      cwnd_init = Some (tcp_cubic_cwnd_init_or_reset E),
      ack_rcvd = Some (tcp_cubic_ack_rcvd E P now),
      pre_fr = Some (tcp_cubic_pre_fr E P),
      post_fr = Some (tcp_cubic_post_fr E),
      after_idle = Some (tcp_cubic_cwnd_init_or_reset E),
      after_timeout = Some (tcp_cubic_after_timeout E P),
      congestion_avd = Some (tcp_cubic_congestion_avd E P now),
      delay_ack = Some (tcp_cubic_delay_ack E),
      switch_to = Some (tcp_cubic_switch_cc E),
      process_ecn = None\<rparr>"

subsection \<open>Frame rules\<close>

lemma upd_cub_frame [simp]:
  "snd_cwnd (upd_cub f tp) = snd_cwnd tp" "snd_ssthresh (upd_cub f tp) = snd_ssthresh tp"
  "t_maxseg (upd_cub f tp) = t_maxseg tp" "t_flags (upd_cub f tp) = t_flags tp"
  "snd_scale (upd_cub f tp) = snd_scale tp" "t_bytes_acked (upd_cub f tp) = t_bytes_acked tp"
  "snd_wnd (upd_cub f tp) = snd_wnd tp" "t_inpcb (upd_cub f tp) = t_inpcb tp"
  "snd_max (upd_cub f tp) = snd_max tp" "snd_una (upd_cub f tp) = snd_una tp"
  "t_flagsext (upd_cub f tp) = t_flagsext tp" "t_rxt_segments (upd_cub f tp) = t_rxt_segments tp"
  by (simp_all add: upd_cub_def)

lemma upd_cub_state [simp]:
  "t_ccstate (upd_cub f tp) = None \<longleftrightarrow> t_ccstate tp = None"
  "(\<exists>s. t_ccstate (upd_cub f tp) = Some s) \<longleftrightarrow> (\<exists>s. t_ccstate tp = Some s)"
  "t_ccstate tp \<noteq> None \<Longrightarrow> getc (upd_cub f tp) = f (getc tp)"
  by (auto simp: upd_cub_def)

lemma clear_state_frame [simp]:
  "t_ccstate (tcp_cubic_clear_state tp) = None \<longleftrightarrow> t_ccstate tp = None"
  "t_maxseg (tcp_cubic_clear_state tp) = t_maxseg tp"
  "snd_cwnd (tcp_cubic_clear_state tp) = snd_cwnd tp"
  "t_flags (tcp_cubic_clear_state tp) = t_flags tp"
  by (simp_all add: tcp_cubic_clear_state_def)

subsection \<open>Recovery\<close>

lemma loss_window_frame [simp]:
  "snd_cwnd (snd (cubic_loss_window E tp)) = snd_cwnd tp"
  "t_maxseg (snd (cubic_loss_window E tp)) = t_maxseg tp"
  "t_ccstate (snd (cubic_loss_window E tp)) = t_ccstate tp"
  "t_flags (snd (cubic_loss_window E tp)) = t_flags tp"
  by (simp_all add: cubic_loss_window_def Let_def)

lemma backoff_two_segments: "2 * maxseg \<le> cubic_backoff E P maxseg win"
  by (simp add: cubic_backoff_def Let_def not_less)

lemma pre_fr_spec:
  assumes "t_ccstate tp \<noteq> None"
  obtains tp' where "tcp_cubic_pre_fr E P tp = Some tp'" "2 * t_maxseg tp \<le> snd_ssthresh tp'"
    "t_maxseg tp' = t_maxseg tp" "snd_cwnd tp' = snd_cwnd tp" "t_ccstate tp' \<noteq> None"
    "t_flags tp' = t_flags tp"
  using assms that
  by (simp add: tcp_cubic_pre_fr_def Let_def split_beta backoff_two_segments del: not_None_eq)

lemma pre_fr_ssthresh:
  assumes "t_ccstate tp \<noteq> None"
  shows "\<exists>tp'. tcp_cubic_pre_fr E P tp = Some tp' \<and> snd_cwnd tp' = snd_cwnd tp \<and> 2 * t_maxseg tp \<le> snd_ssthresh tp'
    \<and> snd_ssthresh tp' = cubic_backoff E P (t_maxseg tp) (fst (cubic_loss_window E tp))"
proof -
  have "fst (cubic_loss_window E (upd_cub f tp)) = fst (cubic_loss_window E tp)" for f
    by (simp add: cubic_loss_window_def Let_def upd_cub_def)
  then show ?thesis using assms by (simp add: tcp_cubic_pre_fr_def Let_def split_beta backoff_two_segments del: not_None_eq)
qed

lemma after_timeout_spec:
  assumes "t_ccstate tp \<noteq> None"
  shows "\<exists>tp'. tcp_cubic_after_timeout E P tp = Some tp' \<and> t_maxseg tp' = t_maxseg tp \<and>
    (if before_established E (t_state tp) \<and> sint (snd_max tp - snd_una tp) \<le> 1 then tp' = tp
     else snd_cwnd tp' = t_maxseg tp)"
proof (cases "IN_FASTRECOVERY tp")
  case True
  then show ?thesis using assms by (auto simp: tcp_cubic_after_timeout_def)
next
  case False
  have "t_ccstate (tcp_cubic_clear_state tp) \<noteq> None" using assms by simp
  then obtain tp' where "tcp_cubic_pre_fr E P (tcp_cubic_clear_state tp) = Some tp'"
      "t_maxseg tp' = t_maxseg (tcp_cubic_clear_state tp)"
    by (rule pre_fr_spec)
  then show ?thesis using assms False by (auto simp: tcp_cubic_after_timeout_def)
qed

subsection \<open>The loop of the standard-TCP window\<close>

lemma aimd_loop_closed:
  "0 < cwnd \<Longrightarrow> aimd_loop cwnd inc bytes win =
    Some (bytes mod cwnd, win + of_nat (unat bytes div unat cwnd) * inc)"
proof (induction "unat bytes" arbitrary: bytes win rule: less_induct)
  case less
  have pos: "0 < unat cwnd" using less.prems by (simp add: word_less_nat_alt)
  show ?case
  proof (cases "bytes \<ge> cwnd")
    case False
    then have lt: "unat bytes < unat cwnd" by (simp add: word_less_nat_alt not_le)
    have "bytes mod cwnd = bytes"
      using lt by (simp add: word_arith_nat_defs(7) unat_of_nat_mod)
    then show ?thesis using False lt by (subst aimd_loop.simps) simp
  next
    case True
    then have sub: "unat (bytes - cwnd) = unat bytes - unat cwnd"
      by (simp add: unat_sub)
    have le: "unat cwnd \<le> unat bytes" using True by (simp add: word_le_nat_alt)
    have ih: "aimd_loop cwnd inc (bytes - cwnd) (win + inc) =
        Some ((bytes - cwnd) mod cwnd, win + inc + of_nat (unat (bytes - cwnd) div unat cwnd) * inc)"
      using less.hyps [of "bytes - cwnd" "win + inc"] less.prems sub le pos by simp
    have "unat bytes div unat cwnd = Suc ((unat bytes - unat cwnd) div unat cwnd)"
      using le pos by (simp add: le_div_geq)
    moreover have "(bytes - cwnd) mod cwnd = bytes mod cwnd"
      using sub le by (simp add: word_arith_nat_defs(7) le_mod_geq)
    ultimately show ?thesis
      using True ih by (subst aimd_loop.simps) (simp add: sub algebra_simps)
  qed
qed

lemma aimd_loop_diverges: "aimd_loop 0 inc bytes win = None"
proof -
  have "cwnd \<noteq> 0" if "aimd_loop cwnd inc bytes win = Some r" for cwnd r
    by (rule aimd_loop.raw_induct [OF _ that, where P = "\<lambda>cwnd _ _ _ _. cwnd \<noteq> 0"])
      (auto split: if_splits)
  then show ?thesis by (cases "aimd_loop 0 inc bytes win") auto
qed

subsection \<open>Acknowledgements\<close>

text \<open>What of the control block the window computations leave alone.\<close>

definition same_window :: "tcpcb \<Rightarrow> tcpcb \<Rightarrow> bool" where
  "same_window tp tp' \<longleftrightarrow> snd_cwnd tp' = snd_cwnd tp \<and> t_maxseg tp' = t_maxseg tp
     \<and> snd_scale tp' = snd_scale tp \<and> (t_ccstate tp' = None \<longleftrightarrow> t_ccstate tp = None)"

lemma update_same_window:
  "tcp_cubic_update E P now tp rtt = Some (w, tp') \<Longrightarrow> same_window tp tp'"
  by (auto simp: tcp_cubic_update_def Let_def same_window_def split: if_splits)

lemma tcpwin_same_window:
  "tcp_cubic_tcpwin E P tp th = Some (w, tp') \<Longrightarrow> same_window tp tp'"
  by (auto simp: tcp_cubic_tcpwin_def Let_def same_window_def split: if_splits option.splits)

lemma open_cwnd_cases:
  "snd_cwnd (open_cwnd E incr_win tp) = snd_cwnd tp
   \<or> snd_cwnd (open_cwnd E incr_win tp) = min (snd_cwnd tp + t_maxseg tp) (maxwin_snd E tp)"
  by (simp add: open_cwnd_def)

lemma congestion_avd_window:
  assumes mf: "tcp_cubic_minor_fixes E \<noteq> 0" and r: "tcp_cubic_congestion_avd E P now tp th = Some tp'"
  shows "snd_cwnd tp' = snd_cwnd tp \<or> snd_cwnd tp' = min (snd_cwnd tp + t_maxseg tp) (maxwin_snd E tp)"
proof (cases "fst (tcp_cc_is_cwnd_nonvalidated tp) \<noteq> 0")
  case True
  then have "tp' = snd (tcp_cc_is_cwnd_nonvalidated tp)"
    using r by (simp add: tcp_cubic_congestion_avd_def Let_def split_beta)
  then show ?thesis by simp
next
  case False
  let ?tp0 = "snd (tcp_cc_is_cwnd_nonvalidated tp)"
  let ?tp1 = "?tp0\<lparr>t_bytes_acked := t_bytes_acked ?tp0 + BYTES_ACKED th ?tp0\<rparr>"
  obtain w2 tp2 w3 tp3 where u: "tcp_cubic_update E P now ?tp1 (get_base_rtt ?tp1) = Some (w2, tp2)"
    and t: "tcp_cubic_tcpwin E P tp2 th = Some (w3, tp3)"
    and e: "\<exists>incr_win. tp' = open_cwnd E incr_win tp3"
    using r False mf
    by (auto simp: tcp_cubic_congestion_avd_def Let_def split_beta bind_eq_Some_conv split: if_splits)
  have "same_window tp tp3"
    using update_same_window [OF u] tcpwin_same_window [OF t] by (simp add: same_window_def)
  then show ?thesis
    using e open_cwnd_cases [of E _ tp3] by (auto simp: same_window_def maxwin_snd_def)
qed

lemma ack_rcvd_window:
  assumes mf: "tcp_cubic_minor_fixes E \<noteq> 0" and r: "tcp_cubic_ack_rcvd E P now tp th = Some tp'"
  shows "snd_cwnd tp' = snd_cwnd tp
    \<or> snd_cwnd tp \<ge> snd_ssthresh tp \<and> snd_cwnd tp' = min (snd_cwnd tp + t_maxseg tp) (maxwin_snd E tp)
    \<or> snd_cwnd tp < snd_ssthresh tp \<and> (\<exists>lim. snd_cwnd tp' =
        min (snd_cwnd tp + min (BYTES_ACKED th tp) lim) (maxwin_snd E tp))"
proof -
  let ?tp0 = "snd (tcp_cc_is_cwnd_nonvalidated tp)"
  have una: "BYTES_ACKED th ?tp0 = BYTES_ACKED th tp" "maxwin_snd E ?tp0 = maxwin_snd E tp"
    by (simp_all add: BYTES_ACKED_def maxwin_snd_def tcp_cc_is_cwnd_nonvalidated_def Let_def)
  consider "tp' = ?tp0" | "snd_cwnd tp \<ge> snd_ssthresh tp" "tcp_cubic_congestion_avd E P now ?tp0 th = Some tp'"
    | lim where "snd_cwnd tp < snd_ssthresh tp"
      "snd_cwnd tp' = min (snd_cwnd tp + min (BYTES_ACKED th tp) lim) (maxwin_snd E tp)"
    using r una by (auto simp: tcp_cubic_ack_rcvd_def Let_def split_beta not_le split: if_splits)
  then show ?thesis
  proof cases
    case 2
    then show ?thesis using congestion_avd_window [OF mf 2(2)] una by auto
  qed auto
qed

subsection \<open>The size of the decrease\<close>

text \<open>Rounding to single precision has a relative error of at most one half unit of the last of 24 bits.\<close>

lemma rne_error: "\<bar>of_int (rne q) - q\<bar> \<le> 1 / 2"
proof -
  define r where "r = q - of_int \<lfloor>q\<rfloor>"
  have r: "0 \<le> r" "r < 1" using floor_correct [of q] by (auto simp: r_def)
  have "rne q = (if r < 1 / 2 then \<lfloor>q\<rfloor> else if r > 1 / 2 then \<lfloor>q\<rfloor> + 1 else if even \<lfloor>q\<rfloor> then \<lfloor>q\<rfloor> else \<lfloor>q\<rfloor> + 1)"
    by (simp add: rne_def Let_def r_def)
  then have "of_int (rne q) - q = - r \<and> r \<le> 1 / 2 \<or> of_int (rne q) - q = 1 - r \<and> 1 / 2 \<le> r"
    by (auto simp: r_def)
  then show ?thesis using r by (auto simp: abs_if)
qed

lemma floorlog_two: "0 < n \<Longrightarrow> 2 ^ (floorlog 2 n - 1) \<le> n \<and> n < 2 ^ floorlog 2 n" for n :: nat
  using floorlog_bounds [of n 2] by simp

lemma expo_le: "x \<noteq> 0 \<Longrightarrow> 2 powi expo x \<le> \<bar>x\<bar>"
proof -
  assume x: "x \<noteq> 0"
  obtain n d where q: "quotient_of \<bar>x\<bar> = (n, d)" by (cases "quotient_of \<bar>x\<bar>")
  have v: "\<bar>x\<bar> = of_int n / of_int d" "0 < d" using quotient_of_div [OF q] quotient_of_denom_pos [OF q] by auto
  then have n: "0 < n" using x by (metis abs_not_less_zero divide_le_0_iff linorder_not_le of_int_0_le_iff of_int_0_less_iff order_le_less zero_less_abs_iff)
  let ?a = "floorlog 2 (nat n)" and ?b = "floorlog 2 (nat d)"
  have a: "2 ^ (?a - 1) \<le> nat n" "0 < ?a" using floorlog_two [of "nat n"] n by (auto simp: floorlog_def)
  have b: "nat d < 2 ^ ?b" using floorlog_two [of "nat d"] v(2) by auto
  have "(2 :: rat) ^ (?a - 1) \<le> of_int n"
  proof -
    have "int (2 ^ (?a - 1)) \<le> n" using a(1) n by linarith
    then have "of_int (int (2 ^ (?a - 1))) \<le> (of_int n :: rat)" by (simp only: of_int_le_iff)
    then show ?thesis by simp
  qed
  moreover have "of_int d \<le> (2 :: rat) ^ ?b"
  proof -
    have "d \<le> int (2 ^ ?b)" using b v(2) by linarith
    then have "(of_int d :: rat) \<le> of_int (int (2 ^ ?b))" by (simp only: of_int_le_iff)
    then show ?thesis by simp
  qed
  ultimately have "2 ^ (?a - 1) / 2 ^ ?b \<le> \<bar>x\<bar>"
    unfolding v(1) using v(2) n by (intro frac_le) auto
  moreover have "(2 :: rat) powi (int ?a - int ?b - 1) = 2 ^ (?a - 1) / 2 ^ ?b"
  proof -
    have "int ?a - int ?b - 1 = int (?a - 1) - int ?b" using a(2) by simp
    moreover have "(2 :: rat) powi (int (?a - 1) - int ?b) = 2 powi int (?a - 1) / 2 powi int ?b"
      by (rule power_int_diff) simp
    ultimately show ?thesis by (simp only: power_int_of_nat)
  qed
  ultimately have le: "2 powi (int ?a - int ?b - 1) \<le> \<bar>x\<bar>" by simp
  have "expo x = (if 2 powi (int ?a - int ?b) \<le> \<bar>x\<bar> then int ?a - int ?b else int ?a - int ?b - 1)"
    by (simp only: expo_def q Let_def prod.case)
  then show ?thesis using le by (cases "2 powi (int ?a - int ?b) \<le> \<bar>x\<bar>") (simp_all only: if_True if_False)
qed

lemma fl_error: "\<bar>fl x - x\<bar> \<le> \<bar>x\<bar> / 2 ^ 24"
proof (cases "x = 0")
  case False
  let ?u = "2 powi (expo x - 23) :: rat"
  have u: "0 < ?u" by simp
  have "fl x - x = (of_int (rne (x / ?u)) - x / ?u) * ?u" using False u by (simp add: fl_def Let_def left_diff_distrib)
  then have "\<bar>fl x - x\<bar> = \<bar>of_int (rne (x / ?u)) - x / ?u\<bar> * ?u" using u by (simp add: abs_mult)
  also have "\<dots> \<le> 1 / 2 * ?u" using rne_error [of "x / ?u"] u by (intro mult_right_mono) auto
  also have "\<dots> = 2 powi expo x / 2 ^ 24" by (simp add: power_int_diff)
  also have "\<dots> \<le> \<bar>x\<bar> / 2 ^ 24" using expo_le [OF False] by (simp add: divide_right_mono)
  finally show ?thesis .
qed (simp add: fl_def)

lemma fl_near: "\<bar>x\<bar> \<le> m \<Longrightarrow> \<bar>fl x - x\<bar> \<le> m / 2 ^ 24"
  using fl_error [of x] by (meson divide_right_mono order_trans zero_le_numeral zero_le_power)


text \<open>The multiplicative decrease, with the error of its three roundings.\<close>

lemma decrease_near:
  assumes "w = of_int (uint win)" "1 / 10 \<le> \<beta>" "\<beta> \<le> 1 / 2"
  shows "\<bar>fl (u2f win - fl (u2f win * \<beta>)) - (1 - \<beta>) * w\<bar> \<le> w / 2 ^ 22"
proof -
  define a where "a = u2f win"
  define b where "b = fl (a * \<beta>)"
  have w: "0 \<le> w" unfolding assms(1) by (simp only: of_int_0_le_iff uint_ge_0)
  have a: "\<bar>a - w\<bar> \<le> w / 2 ^ 24" using fl_error [of w] w by (simp add: a_def u2f_def assms(1))
  have "a - w \<le> w / 2 ^ 24" "- (w / 2 ^ 24) \<le> a - w" using a by (simp_all only: abs_le_iff minus_le_iff)
  moreover have "w / 2 ^ 24 \<le> w / 16" using w by simp
  ultimately have a2: "0 \<le> a" "a \<le> 17 / 16 * w" using w by simp_all
  have ab: "0 \<le> a * \<beta>" "a * \<beta> \<le> 17 / 32 * w"
    using mult_mono [OF a2(2) assms(3)] w a2(1) assms(2) by auto
  have b: "\<bar>b - a * \<beta>\<bar> \<le> 17 / 32 * w / 2 ^ 24" unfolding b_def by (rule fl_near) (use ab in simp)
  have "17 / 32 * w / 2 ^ 24 \<le> w / 32" using w by simp
  then have c: "\<bar>a - b\<bar> \<le> 2 * w" using abs_le_D1 [OF b] abs_le_D2 [OF b] ab a2 w by (intro abs_leI) linarith+
  have x: "\<bar>fl (a - b) - (a - b)\<bar> \<le> 2 * w / 2 ^ 24" by (rule fl_near [OF c])
  have "\<bar>(1 - \<beta>) * a - (1 - \<beta>) * w\<bar> = (1 - \<beta>) * \<bar>a - w\<bar>"
    using assms(3) by (simp add: abs_mult flip: right_diff_distrib)
  also have "\<dots> \<le> 1 * (w / 2 ^ 24)" using a assms(2,3) by (intro mult_mono) auto
  finally have y: "\<bar>(1 - \<beta>) * a - (1 - \<beta>) * w\<bar> \<le> w / 2 ^ 24" by simp
  have "fl (a - b) - (1 - \<beta>) * w = (fl (a - b) - (a - b)) - (b - a * \<beta>) + ((1 - \<beta>) * a - (1 - \<beta>) * w)"
    by (simp add: algebra_simps)
  moreover have "2 * w / 2 ^ 24 + 17 / 32 * w / 2 ^ 24 + w / 2 ^ 24 \<le> w / 2 ^ 22" using w by simp
  ultimately have "\<bar>fl (a - b) - (1 - \<beta>) * w\<bar> \<le> w / 2 ^ 22"
    using abs_le_D1 [OF x] abs_le_D2 [OF x] abs_le_D1 [OF y] abs_le_D2 [OF y] abs_le_D1 [OF b] abs_le_D2 [OF b]
    by (intro abs_leI) linarith+
  then show ?thesis by (simp only: a_def b_def)
qed

lemma nearest_multiple: "p \<le> v + r div 2 \<Longrightarrow> v + r div 2 < p + r \<Longrightarrow> 2 * \<bar>int p - int v\<bar> \<le> int r" for p v r :: nat
  by (cases "p \<le> v") auto

lemma twice_abs: "2 * \<bar>x\<bar> \<le> m \<Longrightarrow> 2 * x \<le> m \<and> 2 * (- x) \<le> m" for x m :: int
  by linarith

lemma round_to_near:
  assumes "0 < r" "unat v < 2 ^ 31" "unat r < 2 ^ 31"
  shows "2 * \<bar>int (unat (tcp_round_to v r)) - int (unat v)\<bar> \<le> int (unat r)"
proof -
  let ?v = "unat v" and ?r = "unat r"
  let ?q = "(?v + ?r div 2) div ?r"
  have r: "0 < ?r" using assms(1) by (simp add: word_less_nat_alt)
  have s: "unat (v + r div 2) = ?v + ?r div 2"
    using assms(2,3) by (simp add: unat_word_ariths unat_div)
  have m: "?q * ?r \<le> ?v + ?r div 2" by (rule div_times_less_eq_dividend)
  moreover have "?v + ?r div 2 < 2 ^ 32" using assms(2,3) by simp
  ultimately have l: "?q * ?r < 2 ^ 32" by (rule le_less_trans)
  have "unat ((v + r div 2) div r) = ?q" by (simp only: unat_div s)
  moreover have "unat ((v + r div 2) div r * r) = unat ((v + r div 2) div r) * unat r"
    by (rule unat_mult_lem [THEN iffD1]) (use l calculation in simp)
  ultimately have e: "unat (tcp_round_to v r) = ?q * ?r" by (simp only: tcp_round_to_def)
  have "?v + ?r div 2 < ?q * ?r + ?r" using r by (metis add.commute dividend_less_times_div mult.commute)
  then show ?thesis unfolding e using m by (intro nearest_multiple)
qed


lemma uint_less_unat: "uint (x :: u32) < 2 ^ n \<Longrightarrow> unat x < 2 ^ n"
  using nat_less_iff [OF uint_ge_0, of x "2 ^ n"] by (simp only: unat_eq_nat_uint of_nat_power of_nat_numeral)

lemma backoff_near:
  assumes "w = of_int (uint win)" "uint win < 2 ^ 31" "\<beta> = tcp_cubic_backoff P" "1 / 10 \<le> \<beta>" "\<beta> \<le> 1 / 2"
    and "0 < maxseg" "uint maxseg < 2 ^ 30"
    and "d = (1 - \<beta>) * w"
  shows "d - w / 2 ^ 22 - of_int (uint maxseg) / 2 - 1 \<le> of_int (uint (cubic_backoff E P maxseg win))"
    "of_int (uint (cubic_backoff E P maxseg win)) \<le> max (2 * of_int (uint maxseg)) (d + w / 2 ^ 22 + of_int (uint maxseg) / 2)"
proof -
  define x where "x = fl (u2f win - fl (u2f win * \<beta>))"
  have x: "x - d \<le> w / 2 ^ 22" "d - x \<le> w / 2 ^ 22"
    using decrease_near [OF assms(1,4,5)] unfolding x_def assms(8) by (simp_all only: abs_le_iff minus_diff_eq)
  have w: "0 \<le> w" "w < 2 ^ 31" unfolding assms(1) using assms(2) by (simp_all only: of_int_0_le_iff uint_ge_0) (metis of_int_less_iff of_int_numeral of_int_power)
  have "w / 2 ^ 22 \<le> w / 10" using w(1) by simp
  have d: "w / 2 \<le> d" "d \<le> 9 / 10 * w"
    unfolding assms(8) using mult_right_mono [of "1 / 2" "1 - \<beta>" w] mult_right_mono [of "1 - \<beta>" "9 / 10" w] assms(4,5) w(1) by simp_all
  have r: "0 \<le> x" "x < 2 ^ 31" using x d w \<open>w / 2 ^ 22 \<le> w / 10\<close> by linarith+
  define v where "v = f2u E x"
  have "v = word_of_int \<lfloor>x\<rfloor>" using r by (simp add: v_def f2u_def max_def)
  moreover have "0 \<le> \<lfloor>x\<rfloor>" "\<lfloor>x\<rfloor> < 2 ^ 31" using r by (simp_all add: floor_less_iff)
  ultimately have u: "uint v = \<lfloor>x\<rfloor>" "uint v < 2 ^ 31" by (simp_all add: uint_word_of_int_eq take_bit_int_eq_self)
  define t where "t = tcp_round_to v maxseg"
  have "unat v < 2 ^ 31" by (rule uint_less_unat [OF u(2)])
  moreover have "unat maxseg < 2 ^ 31" by (rule uint_less_unat) (use assms(7) in simp)
  ultimately have "2 * \<bar>int (unat t) - int (unat v)\<bar> \<le> int (unat maxseg)" unfolding t_def by (rule round_to_near [OF assms(6)])
  then have "2 * \<bar>uint t - uint v\<bar> \<le> uint maxseg" by (simp only: uint_nat)
  then have "2 * (uint t - uint v) \<le> uint maxseg" "2 * (uint v - uint t) \<le> uint maxseg"
    using twice_abs [of "uint t - uint v" "uint maxseg"] by simp_all
  then have "(of_int (2 * (uint t - uint v)) :: rat) \<le> of_int (uint maxseg)" "(of_int (2 * (uint v - uint t)) :: rat) \<le> of_int (uint maxseg)"
    by (simp_all only: of_int_le_iff)
  then have t: "2 * (of_int (uint t) - of_int (uint v)) \<le> (of_int (uint maxseg) :: rat)"
      "2 * (of_int (uint v) - of_int (uint t)) \<le> (of_int (uint maxseg) :: rat)"
    by (simp_all only: of_int_mult of_int_diff of_int_numeral)
  have f: "(of_int (uint v) :: rat) \<le> x" "x - 1 \<le> of_int (uint v)" unfolding u(1) using floor_correct [of x] by linarith+
  have m: "uint (2 * maxseg) = 2 * uint maxseg" using assms(7) by (simp add: uint_word_ariths)
  have c: "cubic_backoff E P maxseg win = (if t < 2 * maxseg then 2 * maxseg else t)"
    by (simp add: cubic_backoff_def Let_def t_def v_def x_def assms(3))
  have e: "(of_int (uint (cubic_backoff E P maxseg win)) :: rat) = max (2 * of_int (uint maxseg)) (of_int (uint t))"
  proof -
    have "uint (cubic_backoff E P maxseg win) = max (2 * uint maxseg) (uint t)"
      unfolding c by (simp add: word_less_def m max_def)
    then show ?thesis by (simp add: of_int_max)
  qed
  have low: "d - w' - M / 2 - 1 \<le> T" if "d - x \<le> w'" "x - 1 \<le> V" "2 * V - 2 * T \<le> M" for w' M T V :: rat
    using that by linarith
  have high: "T \<le> d + w' + M / 2" if "x - d \<le> w'" "V \<le> x" "2 * T - 2 * V \<le> M" for w' M T V :: rat
    using that by linarith
  show "d - w / 2 ^ 22 - of_int (uint maxseg) / 2 - 1 \<le> of_int (uint (cubic_backoff E P maxseg win))"
    unfolding e by (intro max.coboundedI2 low [OF x(2) f(2) t(2) [unfolded right_diff_distrib]])
  show "of_int (uint (cubic_backoff E P maxseg win)) \<le> max (2 * of_int (uint maxseg)) (d + w / 2 ^ 22 + of_int (uint maxseg) / 2)"
    unfolding e by (intro max.mono order_refl high [OF x(1) f(1) t(1) [unfolded right_diff_distrib]])
qed

subsection \<open>Properties\<close>

text \<open>
  Property C31. The response to a loss is a multiplicative decrease. On a connection with CUBIC state it succeeds and leaves
  the congestion window alone; the slow-start threshold becomes the window at the loss times one less
  the back-off factor (between a tenth and a half, as both settings of \<^verbatim>\<open>tcp_cubic_init\<close> are), up to half a segment for the rounding
  to whole segments, one byte for the conversion to an integer and a part in 2^22 for the three
  floating-point roundings; and it is never less than two segments, which is the only case where it may exceed that value.
\<close>

theorem cubic_loss_response:
  assumes "t_ccstate tp \<noteq> None" "win = fst (cubic_loss_window E tp)" "uint win < 2 ^ 31" "w = of_int (uint win)"
    and "0 < t_maxseg tp" "uint (t_maxseg tp) < 2 ^ 30" "mss = of_int (uint (t_maxseg tp))"
    and "\<beta> = tcp_cubic_backoff P" "1 / 10 \<le> \<beta>" "\<beta> \<le> 1 / 2"
  shows "\<exists>tp'. tcp_cubic_pre_fr E P tp = Some tp' \<and> snd_cwnd tp' = snd_cwnd tp \<and> 2 * t_maxseg tp \<le> snd_ssthresh tp'
    \<and> (1 - \<beta>) * w - w / 2 ^ 22 - mss / 2 - 1 \<le> of_int (uint (snd_ssthresh tp'))
    \<and> of_int (uint (snd_ssthresh tp')) \<le> max (2 * mss) ((1 - \<beta>) * w + w / 2 ^ 22 + mss / 2)"
proof -
  obtain tp' where "tcp_cubic_pre_fr E P tp = Some tp'" "snd_cwnd tp' = snd_cwnd tp" "2 * t_maxseg tp \<le> snd_ssthresh tp'"
      "snd_ssthresh tp' = cubic_backoff E P (t_maxseg tp) win"
    using pre_fr_ssthresh [OF assms(1), of E P] assms(2) by blast
  then show ?thesis using backoff_near [OF assms(4,3,8-10,5,6) refl, of E] assms(7) by auto
qed

definition demo_cubic :: tcpcb where
  "demo_cubic = tcpcb_zero\<lparr>t_ccstate := Some tcp_ccstate_zero, t_maxseg := 1000, snd_cwnd := 8000,
     snd_wnd := 65535, snd_max := 9000, snd_una := 1000, snd_ssthresh := 20000\<rparr>"

theorem cubic_loss_response_witness:
  "\<exists>tp'. tcp_cubic_pre_fr cc_env_zero cubic_params_init demo_cubic = Some tp'
     \<and> (of_int (uint (snd_ssthresh tp')) :: rat) \<le> 6901 \<and> 5898 \<le> (of_int (uint (snd_ssthresh tp')) :: rat)"
proof -
  have "1 / 10 \<le> tcp_cubic_backoff cubic_params_init" "tcp_cubic_backoff cubic_params_init \<le> 1 / 2"
      "tcp_cubic_backoff cubic_params_init = 13421773 / 67108864"
    by code_simp+
  moreover have "fst (cubic_loss_window cc_env_zero demo_cubic) = 8000" "t_ccstate demo_cubic \<noteq> None" "t_maxseg demo_cubic = 1000"
    by (simp_all add: cubic_loss_window_def demo_cubic_def tcpcb_zero_def Let_def)
  ultimately show ?thesis
    using cubic_loss_response [of demo_cubic 8000 cc_env_zero 8000 1000 "13421773 / 67108864" cubic_params_init] by fastforce
qed

text \<open>
  A retransmission timeout closes the congestion window to one segment, in and
  out of recovery, except when only the SYN is outstanding on a connection that is not yet
  established: then nothing changes.
\<close>

lemma cubic_timeout_one_segment:
  assumes "t_ccstate tp \<noteq> None"
  shows "\<exists>tp'. tcp_cubic_after_timeout E P tp = Some tp' \<and>
    (if before_established E (t_state tp) \<and> sint (snd_max tp - snd_una tp) \<le> 1 then tp' = tp
     else snd_cwnd tp' = t_maxseg tp)"
  using after_timeout_spec [OF assms] by metis

text \<open>
  With the minor fixes on, an acknowledgement in congestion avoidance opens the
  window by at most one segment, in slow start by at most the bytes it acknowledges, and never
  beyond the largest window the peer's scale can express.
\<close>

lemma cubic_growth_bounded:
  assumes "tcp_cubic_minor_fixes E \<noteq> 0" "tcp_cubic_ack_rcvd E P now tp th = Some tp'"
  shows "snd_cwnd tp' = snd_cwnd tp
    \<or> snd_cwnd tp \<ge> snd_ssthresh tp \<and> snd_cwnd tp' = min (snd_cwnd tp + t_maxseg tp) (maxwin_snd E tp)
    \<or> snd_cwnd tp < snd_ssthresh tp \<and> (\<exists>lim. snd_cwnd tp' =
        min (snd_cwnd tp + min (BYTES_ACKED th tp) lim) (maxwin_snd E tp))"
  using assms by (rule ack_rcvd_window)

text \<open>
  Property C32. The additive-increase loop terminates for every positive congestion window,
  with one increment per full window of acknowledged bytes and the remainder kept; for a zero
  window it does not terminate.
\<close>

theorem aimd_loop_exact:
  "(0 < cwnd \<longrightarrow> aimd_loop cwnd inc bytes win
      = Some (bytes mod cwnd, win + of_nat (unat bytes div unat cwnd) * inc))
   \<and> aimd_loop 0 inc bytes win = None"
  using aimd_loop_closed aimd_loop_diverges by blast

theorem aimd_loop_exact_witness: "aimd_loop 1000 100 3500 8000 = Some (500, 8300)"
  using aimd_loop_exact [of 1000 100 3500 8000] by simp

end
