(* ===== verification/Recovery.thy ===== *)
theory Recovery
  imports Cubic
begin

text \<open>
  Loss recovery, from \<^verbatim>\<open>reference/xnu/tcp_input.c\<close>, \<^verbatim>\<open>tcp_timer.c\<close>, \<^verbatim>\<open>tcp_output.c\<close> and
  \<^verbatim>\<open>tcp_cc.c\<close>: the table of algorithms, entering fast recovery, saving the congestion state at
  a retransmission and restoring it when the retransmission proves spurious, early retransmit
  (RFC 5827), partial acknowledgements, flow control by the interface and the choice of the
  algorithm. The algorithms other than CUBIC, the RACK and multipath functions, the output
  routine and the segment-size update are not in the sources and are fields of \<open>rec_env\<close>.
  The contract of an algorithm that the recovery code relies on is the locale
  \<open>congestion_control\<close>; CUBIC interprets it. Statistics counters and trace calls are not
  represented.
\<close>

record rec_env = cc_env +
  TCP_CC_ALGO_NONE :: u8
  tcp_cc_newreno :: tcp_cc_algo
  tcp_cc_ledbat :: tcp_cc_algo
  tcp_cc_prague :: tcp_cc_algo
  tcp_l4s :: int
  tcp_l4s_developer :: int
  tcp_use_newreno :: int
  tcp_use_ledbat :: int
  tcp_rledbat :: int
  rledbat_rwnd_init :: "(tcpcb \<Rightarrow> tcpcb) option"
  rledbat_switch_to :: "(tcpcb \<Rightarrow> tcpcb) option"
  TCP_USE_RLEDBAT :: "tcpcb \<Rightarrow> bool"
  SOF1_TRAFFIC_MGT_TCP_RECVBG :: u32
  inp_reset_fc_state :: "inpcb \<Rightarrow> inpcb"
  mptcp_reset_rexmit_state :: "tcpcb \<Rightarrow> tcpcb"
  mptcp_update_window_wakeup :: "tcpcb \<Rightarrow> tcpcb"
  tcp_rack_bad_rexmt_restore :: "tcpcb \<Rightarrow> tcpcb"
  tcp_update_mss_locked :: "tcpcb \<Rightarrow> tcpcb"
  SEQ_MAX :: "u32 \<Rightarrow> u32 \<Rightarrow> u32"
  tcp_output :: "tcpcb \<Rightarrow> tcpcb"

subsection \<open>The algorithm table\<close>

definition tcp_cc_algo_none :: tcp_cc_algo where
  "tcp_cc_algo_none = \<lparr>cleanup = None, cwnd_init = None, ack_rcvd = None, pre_fr = None, post_fr = None,
     after_idle = None, after_timeout = None, congestion_avd = None, delay_ack = None, switch_to = None, process_ecn = None\<rparr>"

definition tcp_cc_init :: "'e rec_env_scheme \<Rightarrow> cubic_params \<Rightarrow> u32 \<Rightarrow> u8 \<rightharpoonup> tcp_cc_algo" where
  "tcp_cc_init E P now = Map.empty(
     TCP_CC_ALGO_NONE E \<mapsto> tcp_cc_algo_none,
     TCP_CC_ALGO_NEWRENO_INDEX E \<mapsto> tcp_cc_newreno E,
     TCP_CC_ALGO_BACKGROUND_INDEX E \<mapsto> tcp_cc_ledbat E,
     TCP_CC_ALGO_CUBIC_INDEX E \<mapsto> tcp_cc_cubic E P now,
     TCP_CC_ALGO_PRAGUE_INDEX E \<mapsto> tcp_cc_prague E)"

definition CC_ALGO :: "'e rec_env_scheme \<Rightarrow> cubic_params \<Rightarrow> u32 \<Rightarrow> tcpcb \<Rightarrow> tcp_cc_algo option" where
  "CC_ALGO E P now tp = tcp_cc_init E P now (tcp_cc_index tp)"

text \<open>The pattern \<^verbatim>\<open>if (CC_ALGO(tp)->hook != NULL) CC_ALGO(tp)->hook(tp)\<close>.\<close>

definition run_hook :: "(tcpcb \<Rightarrow> tcpcb option) option \<Rightarrow> tcpcb \<Rightarrow> tcpcb option" where
  "run_hook h tp = (case h of None \<Rightarrow> Some tp | Some f \<Rightarrow> f tp)"

definition set_timer :: "tcpt \<Rightarrow> u32 \<Rightarrow> tcpcb \<Rightarrow> tcpcb" where
  "set_timer t v tp = tp\<lparr>t_timer := (t_timer tp)(t := v)\<rparr>"

definition tcp_set_new_cc :: "'e rec_env_scheme \<Rightarrow> cubic_params \<Rightarrow> u32 \<Rightarrow> tcpcb \<Rightarrow> u8 \<Rightarrow> tcpcb option" where
  "tcp_set_new_cc E P now tp cc_index =
     (if tcp_cc_index tp \<noteq> cc_index then
        do {
          old \<leftarrow> CC_ALGO E P now tp;
          tp \<leftarrow> run_hook (cleanup old) tp;
          let tp = tcp_cc_allocate_state E (tp\<lparr>tcp_cc_index := cc_index\<rparr>);
          new \<leftarrow> CC_ALGO E P now tp;
          run_hook (switch_to new) tp
        }
      else Some tp)"

definition tcp_set_background_cc :: "'e rec_env_scheme \<Rightarrow> cubic_params \<Rightarrow> u32 \<Rightarrow> tcpcb \<Rightarrow> tcpcb option" where
  "tcp_set_background_cc E P now tp = tcp_set_new_cc E P now tp (TCP_CC_ALGO_BACKGROUND_INDEX E)"

text \<open>The branch on \<open>tcp_use_ledbat\<close> exists in development kernels only; elsewhere the variable is 0.\<close>

definition tcp_set_foreground_cc :: "'e rec_env_scheme \<Rightarrow> cubic_params \<Rightarrow> u32 \<Rightarrow> tcpcb \<Rightarrow> tcpcb option" where
  "tcp_set_foreground_cc E P now tp =
     (if tcp_use_newreno E \<noteq> 0 then tcp_set_new_cc E P now tp (TCP_CC_ALGO_NEWRENO_INDEX E)
      else if tcp_use_ledbat E \<noteq> 0 then tcp_set_new_cc E P now tp (TCP_CC_ALGO_BACKGROUND_INDEX E)
      else if TCP_L4S_ENABLED (tcp_l4s_developer E) (tcp_l4s E) tp
      then tcp_set_new_cc E P now tp (TCP_CC_ALGO_PRAGUE_INDEX E)
      else tcp_set_new_cc E P now tp (TCP_CC_ALGO_CUBIC_INDEX E))"

definition upd_so :: "(socket \<Rightarrow> socket) \<Rightarrow> tcpcb \<Rightarrow> tcpcb" where
  "upd_so f tp = tp\<lparr>t_inpcb := (t_inpcb tp)\<lparr>inp_socket := f (inp_socket (t_inpcb tp))\<rparr>\<rparr>"

definition tcp_set_recv_bg :: "'e rec_env_scheme \<Rightarrow> tcpcb \<Rightarrow> tcpcb" where
  "tcp_set_recv_bg E tp =
     (if \<not> IS_TCP_RECV_BG E (inp_socket (t_inpcb tp)) then
        (let tp = upd_so (\<lambda>so. so\<lparr>so_flags1 := so_flags1 so OR SOF1_TRAFFIC_MGT_TCP_RECVBG E\<rparr>) tp in
         case rledbat_switch_to E of
           Some f \<Rightarrow> if TCP_RLEDBAT_ENABLED (tcp_rledbat E) tp then f tp else tp
         | None \<Rightarrow> tp)
      else tp)"

definition tcp_clear_recv_bg :: "'e rec_env_scheme \<Rightarrow> tcpcb \<Rightarrow> tcpcb" where
  "tcp_clear_recv_bg E tp =
     (if IS_TCP_RECV_BG E (inp_socket (t_inpcb tp))
      then upd_so (\<lambda>so. so\<lparr>so_flags1 := so_flags1 so AND NOT (SOF1_TRAFFIC_MGT_TCP_RECVBG E)\<rparr>) tp else tp)"

subsection \<open>The retransmit threshold\<close>

text \<open>
  The sysctl handler after \<^verbatim>\<open>sysctl_handle_int\<close> has returned \<open>error\<close> and the new value,
  \<open>None\<close> for a read. The result is the error number and the new environment.
\<close>

definition EINVAL :: int where "EINVAL = 22"

definition sysctl_rexmtthresh :: "'e rec_env_scheme \<Rightarrow> int \<Rightarrow> int option \<Rightarrow> int \<times> 'e rec_env_scheme" where
  "sysctl_rexmtthresh E error newval =
     (if error \<noteq> 0 then (error, E)
      else case newval of
        None \<Rightarrow> (error, E)
      | Some val \<Rightarrow>
          if val < 2 \<or> val > 3 then (EINVAL, E)
          else (0, E\<lparr>tcprexmtthresh := word_of_int val\<rparr>))"

subsection \<open>Data in flight\<close>

definition tcp_flight_size :: "'e rec_env_scheme \<Rightarrow> tcpcb \<Rightarrow> u32 option" where
  "tcp_flight_size E tp =
     (if sack_bytes_acked (sackhint tp) < 0 \<or> sack_bytes_rexmit (sackhint tp) < 0 then None
      else
        (let ret = sint (snd_nxt tp - snd_una tp - word_of_int (sack_bytes_acked (sackhint tp)));
             ret = (if TCP_RACK_ENABLED tp then
                      (let bytes_sent = SEQ_MAX E (snd_max tp) (snd_nxt tp) - snd_una tp;
                           bytes_not_in_flight = bytes_sacked tp + bytes_lost tp
                       in sint (bytes_sent - bytes_not_in_flight + bytes_retransmitted tp))
                    else ret)
         in Some (word_of_int (if ret < 0 then 0 else ret))))"

subsection \<open>The send window\<close>

definition tcp_update_window :: "'e rec_env_scheme \<Rightarrow> tcpcb \<Rightarrow> u8 \<Rightarrow> tcphdr \<Rightarrow> u32 \<Rightarrow> bool \<times> tcpcb" where
  "tcp_update_window E tp thflags th tiwin =
     (if has_flag thflags TH_ACK \<and>
         (seq_lt (snd_wl1 tp) (th_seq th) \<or>
          snd_wl1 tp = th_seq th \<and> (seq_lt (snd_wl2 tp) (th_ack th) \<or>
            snd_wl2 tp = th_ack th \<and> tiwin > snd_wnd tp))
      then
        (let tp = tp\<lparr>snd_wnd := tiwin, snd_wl1 := th_seq th, snd_wl2 := th_ack th\<rparr>;
             tp = (if snd_wnd tp > max_sndwnd tp then tp\<lparr>max_sndwnd := snd_wnd tp\<rparr> else tp);
             tp = (if has_flag (so_flags (inp_socket (t_inpcb tp))) (SOF_MP_SUBFLOW E)
                   then mptcp_update_window_wakeup E tp else tp)
         in (True, tp))
      else (False, tp))"

subsection \<open>Entering recovery\<close>

definition mark_recover :: "tcpcb \<Rightarrow> tcpcb" where
  "mark_recover tp = tp\<lparr>snd_recover := (if has_flag (t_flags tp) TF_SENTFIN then snd_max tp - 1 else snd_max tp)\<rparr>"

text \<open>The part of \<^verbatim>\<open>tcp_enter_fast_recovery\<close> after the hook.\<close>

definition enter_recovery_window :: "'e rec_env_scheme \<Rightarrow> tcpcb \<Rightarrow> tcpcb" where
  "enter_recovery_window E tp =
     (let tp = ENTER_FASTRECOVERY (inp_reset_fc_state E) tp;
          tp = mark_recover tp;
          tp = tp\<lparr>t_flagsext := t_flagsext tp AND NOT TF_CWND_NONVALIDATED\<rparr>;
          tp = set_timer TCPT_PTO 0 (set_timer TCPT_REXMT 0 tp);
          tp = tp\<lparr>t_rtttime := 0\<rparr>
      in if has_flag (t_flagsext tp) TF_CWND_NONVALIDATED then tcp_cc_adjust_nonvalidated_cwnd E tp
         else tp\<lparr>snd_cwnd := snd_ssthresh tp\<rparr>)"

definition tcp_enter_fast_recovery :: "'e rec_env_scheme \<Rightarrow> cubic_params \<Rightarrow> u32 \<Rightarrow> tcpcb \<Rightarrow> tcpcb option" where
  "tcp_enter_fast_recovery E P now tp =
     do {
       algo \<leftarrow> CC_ALGO E P now tp;
       tp \<leftarrow> run_hook (pre_fr algo) tp;
       Some (enter_recovery_window E tp)
     }"

subsection \<open>Spurious retransmissions\<close>

definition tcp_rexmt_save_state :: "tcpcb \<Rightarrow> tcpcb" where
  "tcp_rexmt_save_state tp =
     (let tp = (if TSTMP_SUPPORTED tp then
                  tp\<lparr>snd_ssthresh_prev := max (snd_max tp - snd_una tp) (snd_ssthresh tp),
                     snd_recover_prev := snd_recover tp\<rparr>
                else
                  (let tp = tp\<lparr>snd_cwnd_prev := snd_cwnd tp, snd_ssthresh_prev := snd_ssthresh tp,
                               snd_recover_prev := snd_recover tp\<rparr>
                   in if IN_FASTRECOVERY tp then tp\<lparr>t_flags := t_flags tp OR TF_WASFRECOVERY\<rparr>
                      else tp\<lparr>t_flags := t_flags tp AND NOT TF_WASFRECOVERY\<rparr>))
      in tp\<lparr>t_srtt_prev := drop_bit TCP_RTT_SHIFT (t_srtt tp) + 2,
            t_rttvar_prev := drop_bit TCP_RTTVAR_SHIFT (t_rttvar tp),
            t_flagsext := t_flagsext tp AND NOT TF_RECOMPUTE_RTT\<rparr>)"

definition tcp_detect_bad_rexmt ::
  "'e rec_env_scheme \<Rightarrow> u32 \<Rightarrow> tcpcb \<Rightarrow> tcphdr \<Rightarrow> tcpopt \<Rightarrow> u32 \<Rightarrow> bool" where
  "tcp_detect_bad_rexmt E now tp th to rxtime =
     (let bad_rexmt_win = drop_bit (TCP_RTT_SHIFT + 1) (t_srtt tp) in
      if TCP_ACC_ECN_ON (tcp_l4s_developer E) (tcp_l4s E) tp \<and> t_delta_ce_packets (t_aecn tp) > 0
         \<or> TCP_ECN_ENABLED tp \<and> has_flag (th_flags th) TH_ECE then False
      else if TSTMP_SUPPORTED tp then
        rxtime > 0 \<and> has_flag (to_flags to) TOF_TS \<and> to_tsecr to \<noteq> 0 \<and> seq_lt (to_tsecr to) rxtime
      else
        (t_rxtshift tp = 1 \<or> tcp_sent_tlp_retrans tp) \<and> rxtime > 0 \<and> sint (now - rxtime) < bad_rexmt_win)"

text \<open>The two branches of \<^verbatim>\<open>tcp_bad_rexmt_restore_state\<close> and what follows them.\<close>

definition restore_window ::
  "'e rec_env_scheme \<Rightarrow> cubic_params \<Rightarrow> u32 \<Rightarrow> tcpcb \<Rightarrow> tcphdr \<Rightarrow> tcpcb option" where
  "restore_window E P now tp th =
     (if TSTMP_SUPPORTED tp then
        (let fsize = snd_max tp - th_ack th; acked = BYTES_ACKED th tp in
         do {
           let tp = tp\<lparr>snd_ssthresh := snd_ssthresh_prev tp\<rparr>;
           algo \<leftarrow> CC_ALGO E P now tp;
           tp \<leftarrow> run_hook (cwnd_init algo) tp;
           Some (tp\<lparr>snd_cwnd := fsize + min acked (snd_cwnd tp)\<rparr>)
         })
      else
        (let tp = tp\<lparr>snd_cwnd := snd_cwnd_prev tp, snd_ssthresh := snd_ssthresh_prev tp\<rparr>;
             tp = (if has_flag (t_flags tp) TF_WASFRECOVERY then ENTER_FASTRECOVERY (inp_reset_fc_state E) tp
                   else tp)
         in Some (tp\<lparr>t_lossflightsize := 0\<rparr>)))"

definition restore_finish :: "'e rec_env_scheme \<Rightarrow> u32 \<Rightarrow> tcpcb \<Rightarrow> tcpcb" where
  "restore_finish E now tp =
     (let tp = tp\<lparr>snd_cwnd := max (snd_cwnd tp) (tcp_initial_cwnd E tp)\<rparr>;
          tp = tp\<lparr>snd_recover := snd_recover_prev tp, snd_nxt := snd_max tp\<rparr>;
          tp = tcp_bad_rexmt_fix_sndbuf E tp;
          tp = (if TCP_RACK_ENABLED tp then tcp_rack_bad_rexmt_restore E tp else tp)
      in tp\<lparr>t_flagsext := t_flagsext tp OR TF_RECOMPUTE_RTT, t_badrexmt_time := now, t_rtttime := 0\<rparr>)"

definition tcp_bad_rexmt_restore_state ::
  "'e rec_env_scheme \<Rightarrow> cubic_params \<Rightarrow> u32 \<Rightarrow> tcpcb \<Rightarrow> tcphdr \<Rightarrow> tcpcb option" where
  "tcp_bad_rexmt_restore_state E P now tp th = map_option (restore_finish E now) (restore_window E P now tp th)"

definition tcp_pmtud_revert_segment_size ::
  "'e rec_env_scheme \<Rightarrow> cubic_params \<Rightarrow> u32 \<Rightarrow> tcpcb \<Rightarrow> tcpcb option" where
  "tcp_pmtud_revert_segment_size E P now tp =
     (if \<not> t_pmtud_saved_maxopd tp > 0 then None
      else
        do {
          let tp = tp\<lparr>t_flags := (t_flags tp OR TF_PMTUD) AND NOT TF_BLACKHOLE\<rparr>;
          let optlen = t_maxopd tp - t_maxseg tp;
          let tp = tp\<lparr>t_maxopd := t_pmtud_saved_maxopd tp\<rparr>;
          let tp = tp\<lparr>t_maxseg := t_maxopd tp - optlen\<rparr>;
          algo \<leftarrow> CC_ALGO E P now tp;
          tp \<leftarrow> run_hook (cwnd_init algo) tp;
          let tp = (case rledbat_rwnd_init E of
              Some f \<Rightarrow> if TCP_USE_RLEDBAT E tp then f tp else tp | None \<Rightarrow> tp);
          let tp = tp\<lparr>t_pmtud_start_ts := 0\<rparr>;
          Some (tcp_update_mss_locked E tp)
        })"

definition bad_rexmt_react ::
  "'e rec_env_scheme \<Rightarrow> cubic_params \<Rightarrow> u32 \<Rightarrow> tcpcb \<Rightarrow> tcphdr \<Rightarrow> tcpopt \<Rightarrow> tcpcb option" where
  "bad_rexmt_react E P now tp th to =
     (if t_rxtshift tp > 0 \<and> tcp_detect_bad_rexmt E now tp th to (t_rxtstart tp) then
        tcp_bad_rexmt_restore_state E P now tp th
      else if tcp_sent_tlp_retrans tp \<and> t_tlphighrxt tp > 0 \<and> seq_geq (th_ack th) (t_tlphighrxt tp)
              \<and> \<not> tcp_detect_bad_rexmt E now tp th to (t_tlpstart tp) then
        (if \<not> IN_FASTRECOVERY tp
         then map_option (EXIT_FASTRECOVERY (tcprexmtthresh E)) (tcp_enter_fast_recovery E P now tp)
         else Some tp)
      else if tcp_rxtseg_detect_bad_rexmt tp (th_ack th) then
        map_option tcp_rxtseg_clean (tcp_bad_rexmt_restore_state E P now tp th)
      else Some tp)"

definition tcp_bad_rexmt_check ::
  "'e rec_env_scheme \<Rightarrow> cubic_params \<Rightarrow> u32 \<Rightarrow> tcpcb \<Rightarrow> tcphdr \<Rightarrow> tcpopt \<Rightarrow> tcpcb option" where
  "tcp_bad_rexmt_check E P now tp th to =
     do {
       tp \<leftarrow> bad_rexmt_react E P now tp th to;
       let tp = tp\<lparr>t_flagsext := t_flagsext tp AND NOT TF_SENT_TLPROBE, t_tlphighrxt := 0, t_tlpstart := 0\<rparr>;
       tp \<leftarrow> (if t_rxtshift tp > 0 \<and> has_flag (t_flags tp) TF_BLACKHOLE \<and> t_pmtud_start_ts tp > 0
                \<and> TSTMP_SUPPORTED tp \<and> has_flag (to_flags to) TOF_TS \<and> to_tsecr to \<noteq> 0
                \<and> seq_lt (to_tsecr to) (t_pmtud_start_ts tp)
              then tcp_pmtud_revert_segment_size E P now tp else Some tp);
       let tp = (if t_pmtud_start_ts tp > 0 then tp\<lparr>t_pmtud_start_ts := 0\<rparr> else tp);
       Some (tp\<lparr>t_pmtud_lastseg_size := 0\<rparr>)
     }"

subsection \<open>Early retransmit\<close>

definition TCP_EARLY_REXMT_LIMIT :: u16 where "TCP_EARLY_REXMT_LIMIT = 10"

definition early_outstanding :: "'e rec_env_scheme \<Rightarrow> tcpcb \<Rightarrow> u32 option" where
  "early_outstanding E tp =
     (if TCP_RACK_ENABLED tp then tcp_flight_size E tp
      else if SACK_ENABLED tp \<and> snd_holes tp \<noteq> [] then tcp_flight_size E tp
      else Some (snd_max tp - snd_una tp))"

definition early_osegs :: "u32 \<Rightarrow> u32 \<Rightarrow> u32" where
  "early_osegs obytes maxseg =
     (let osegs = obytes div maxseg in if osegs * maxseg < obytes then osegs + 1 else osegs)"

definition early_threshold :: "'e rec_env_scheme \<Rightarrow> tcpcb \<Rightarrow> u32 \<Rightarrow> u8" where
  "early_threshold E tp osegs =
     (let thresh = (if osegs - 1 > 1 then ucast osegs - 1 else 1);
          thresh = min thresh (tcprexmtthresh E)
      in max thresh (if t_dupacks tp > 255 then 255 else ucast (t_dupacks tp)))"

definition early_lower :: "'e rec_env_scheme \<Rightarrow> u32 \<Rightarrow> tcpcb \<Rightarrow> u32 \<Rightarrow> tcpcb" where
  "early_lower E now tp obytes =
     (let snd_off = snd_max tp - snd_una tp;
          snd_len = sint (min (sb_cc (so_snd (inp_socket (t_inpcb tp)))) (snd_wnd tp) - snd_off)
      in if obytes < push_bit 2 (t_maxseg tp) \<and> snd_len \<le> 0 then
           (let osegs = early_osegs obytes (t_maxseg tp)
            in if osegs < 4 then
                 (let tp = tp\<lparr>t_rexmtthresh := early_threshold E tp osegs\<rparr>;
                      tp = (if t_early_rexmt_count tp = 0 then tp\<lparr>t_early_rexmt_win := now\<rparr> else tp)
                  in if has_flag (t_flagsext tp) TF_SENT_TLPROBE then tp
                     else tp\<lparr>t_early_rexmt_count := t_early_rexmt_count tp + 1\<rparr>)
               else tp)
         else tp)"

definition early_allowed :: "tcpcb \<Rightarrow> bool" where
  "early_allowed tp \<longleftrightarrow>
     (SACK_ENABLED tp \<or> t_early_rexmt_count tp < TCP_EARLY_REXMT_LIMIT)
     \<and> seq_gt (snd_max tp) (snd_una tp)
     \<and> (t_dupacks tp = 1 \<or> SACK_ENABLED tp \<and> snd_holes tp \<noteq> [])"

definition tcp_early_rexmt_check :: "'e rec_env_scheme \<Rightarrow> u32 \<Rightarrow> tcpcb \<Rightarrow> tcpcb option" where
  "tcp_early_rexmt_check E now tp =
     do {
       tp \<leftarrow> (if early_allowed tp then map_option (early_lower E now tp) (early_outstanding E tp) else Some tp);
       Some (tp\<lparr>t_flagsext := t_flagsext tp AND NOT TF_SENT_TLPROBE, t_tlphighrxt := 0, t_tlpstart := 0\<rparr>)
     }"

subsection \<open>Partial acknowledgements\<close>

definition tcp_newreno_partial_ack :: "'e rec_env_scheme \<Rightarrow> tcpcb \<Rightarrow> tcphdr \<Rightarrow> tcpcb" where
  "tcp_newreno_partial_ack E tp th =
     (let onxt = snd_nxt tp;
          ocwnd = snd_cwnd tp;
          tp = set_timer TCPT_PTO 0 (set_timer TCPT_REXMT 0 tp);
          tp = tp\<lparr>t_rtttime := 0, snd_nxt := th_ack th\<rparr>;
          tp = tp\<lparr>snd_cwnd := t_maxseg tp + BYTES_ACKED th tp\<rparr>;
          tp = tcp_output E tp;
          tp = tp\<lparr>snd_cwnd := ocwnd\<rparr>;
          tp = (if seq_gt onxt (snd_nxt tp) then tp\<lparr>snd_nxt := onxt\<rparr> else tp);
          tp = (if snd_cwnd tp > BYTES_ACKED th tp then tp\<lparr>snd_cwnd := snd_cwnd tp - BYTES_ACKED th tp\<rparr>
                else tp\<lparr>snd_cwnd := 0\<rparr>)
      in tp\<lparr>snd_cwnd := snd_cwnd tp + t_maxseg tp\<rparr>)"

subsection \<open>Flow control by the interface\<close>

definition inp_fc_throttle_tcp :: "'e rec_env_scheme \<Rightarrow> cubic_params \<Rightarrow> u32 \<Rightarrow> tcpcb \<Rightarrow> tcpcb option" where
  "inp_fc_throttle_tcp E P now tp =
     (if tcp_flow_control_response E = 0 then Some tp
      else do { algo \<leftarrow> CC_ALGO E P now tp; run_hook (pre_fr algo) tp })"

definition fc_reset_rexmt :: "'e rec_env_scheme \<Rightarrow> tcpcb \<Rightarrow> tcpcb" where
  "fc_reset_rexmt E tp =
     (if t_rxtshift tp \<noteq> 0 \<and> (case inp_last_outifp (t_inpcb tp) of Some i \<Rightarrow> if_cellular i | None \<Rightarrow> False) then tp
      else TCP_RESET_REXMT_STATE (mptcp_reset_rexmit_state E) tp)"

definition inp_fc_unthrottle_tcp :: "'e rec_env_scheme \<Rightarrow> cubic_params \<Rightarrow> u32 \<Rightarrow> tcpcb \<Rightarrow> tcpcb option" where
  "inp_fc_unthrottle_tcp E P now tp =
     do {
       algo \<leftarrow> CC_ALGO E P now tp;
       (if tcp_flow_control_response E \<noteq> 0 then
          do {
            tp \<leftarrow> run_hook (map_option (\<lambda>f tp. f tp None) (post_fr algo)) tp;
            let tp = fc_reset_rexmt E (tp\<lparr>t_bytes_acked := 0\<rparr>);
            Some (tcp_output E (tp\<lparr>t_flagsext := t_flagsext tp AND NOT TF_CWND_NONVALIDATED\<rparr>))
          }
        else
          do {
            tp \<leftarrow> run_hook (pre_fr algo) tp;
            let tp = tp\<lparr>snd_cwnd := snd_ssthresh tp, t_flagsext := t_flagsext tp AND NOT TF_CWND_NONVALIDATED,
                        t_bytes_acked := 0\<rparr>;
            Some (tcp_output E (fc_reset_rexmt E tp))
          })
     }"

subsection \<open>Frame rules\<close>

lemma set_timer_frame [simp]:
  "snd_ssthresh (set_timer t v tp) = snd_ssthresh tp" "snd_cwnd (set_timer t v tp) = snd_cwnd tp"
  "t_flags (set_timer t v tp) = t_flags tp" "t_flagsext (set_timer t v tp) = t_flagsext tp"
  "snd_recover (set_timer t v tp) = snd_recover tp" "t_maxseg (set_timer t v tp) = t_maxseg tp"
  "t_timer (set_timer t v tp) = (t_timer tp)(t := v)" "t_ccstate (set_timer t v tp) = t_ccstate tp"
  "snd_una (set_timer t v tp) = snd_una tp" "snd_max (set_timer t v tp) = snd_max tp"
  "snd_nxt (set_timer t v tp) = snd_nxt tp" "tcp_cc_index (set_timer t v tp) = tcp_cc_index tp"
  by (simp_all add: set_timer_def)

lemma enter_frame [simp]:
  "snd_ssthresh (ENTER_FASTRECOVERY r tp) = snd_ssthresh tp" "snd_cwnd (ENTER_FASTRECOVERY r tp) = snd_cwnd tp"
  "snd_max (ENTER_FASTRECOVERY r tp) = snd_max tp" "t_maxseg (ENTER_FASTRECOVERY r tp) = t_maxseg tp"
  "t_flags (ENTER_FASTRECOVERY r tp) = t_flags tp OR TF_FASTRECOVERY"
  "t_flagsext (ENTER_FASTRECOVERY r tp) = t_flagsext tp" "t_timer (ENTER_FASTRECOVERY r tp) = t_timer tp"
  "t_ccstate (ENTER_FASTRECOVERY r tp) = t_ccstate tp"
  "snd_recover_prev (ENTER_FASTRECOVERY r tp) = snd_recover_prev tp"
  by (simp_all add: ENTER_FASTRECOVERY_def tcp_rxtseg_clean_def Let_def)

lemma saved_frame [simp]:
  "snd_cwnd_prev (upd_cub f tp) = snd_cwnd_prev tp" "snd_ssthresh_prev (upd_cub f tp) = snd_ssthresh_prev tp"
  "snd_recover_prev (upd_cub f tp) = snd_recover_prev tp" "tcp_cc_index (upd_cub f tp) = tcp_cc_index tp"
  "snd_cwnd_prev (tcp_cc_resize_sndbuf E tp) = snd_cwnd_prev tp"
  "snd_ssthresh_prev (tcp_cc_resize_sndbuf E tp) = snd_ssthresh_prev tp"
  "snd_recover_prev (tcp_cc_resize_sndbuf E tp) = snd_recover_prev tp"
  "tcp_cc_index (tcp_cc_resize_sndbuf E tp) = tcp_cc_index tp"
  "t_flagsext (tcp_cc_resize_sndbuf E tp) = t_flagsext tp"
  "snd_cwnd_prev (snd (cubic_loss_window E tp)) = snd_cwnd_prev tp"
  "snd_ssthresh_prev (snd (cubic_loss_window E tp)) = snd_ssthresh_prev tp"
  "snd_recover_prev (snd (cubic_loss_window E tp)) = snd_recover_prev tp"
  "tcp_cc_index (snd (cubic_loss_window E tp)) = tcp_cc_index tp"
  "t_flagsext (snd (cubic_loss_window E tp)) = t_flagsext tp"
  "snd_max (snd (cubic_loss_window E tp)) = snd_max tp"
  by (simp_all add: upd_cub_def tcp_cc_resize_sndbuf_def upd_snd_def cubic_loss_window_def Let_def)

lemma pre_fr_frame:
  assumes "tcp_cubic_pre_fr E P tp = Some tp'"
  shows "snd_max tp' = snd_max tp" "t_flagsext tp' = t_flagsext tp"
    "snd_cwnd_prev tp' = snd_cwnd_prev tp" "snd_ssthresh_prev tp' = snd_ssthresh_prev tp"
    "snd_recover_prev tp' = snd_recover_prev tp" "tcp_cc_index tp' = tcp_cc_index tp"
proof -
  obtain f g where "tp' = tcp_cc_resize_sndbuf E
      ((upd_cub f (snd (cubic_loss_window E (upd_cub g tp))))\<lparr>snd_ssthresh := snd_ssthresh tp'\<rparr>)"
    using assms
    by (cases "t_ccstate tp = None") (auto simp: tcp_cubic_pre_fr_def Let_def split_beta)
  then obtain f g v where e: "tp' = tcp_cc_resize_sndbuf E
      ((upd_cub f (snd (cubic_loss_window E (upd_cub g tp))))\<lparr>snd_ssthresh := v\<rparr>)" by blast
  show "snd_max tp' = snd_max tp" "t_flagsext tp' = t_flagsext tp"
    "snd_cwnd_prev tp' = snd_cwnd_prev tp" "snd_ssthresh_prev tp' = snd_ssthresh_prev tp"
    "snd_recover_prev tp' = snd_recover_prev tp" "tcp_cc_index tp' = tcp_cc_index tp"
    by (simp_all add: e)
qed

lemma sentfin_not_recovery: "has_flag (f OR TF_FASTRECOVERY) TF_SENTFIN = has_flag f TF_SENTFIN"
  by (simp add: flag_set_other TF_defs)

lemma run_hook_simps [simp]: "run_hook None tp = Some tp" "run_hook (Some f) tp = f tp"
  by (simp_all add: run_hook_def)

subsection \<open>Entering recovery\<close>

text \<open>
  Clearing the flag just before testing it makes the branch on the non-validated window dead:
  the window is always the threshold.
\<close>

lemma enter_recovery_window_eq:
  "enter_recovery_window E tp =
     (let tp = ENTER_FASTRECOVERY (inp_reset_fc_state E) tp
      in (set_timer TCPT_PTO 0 (set_timer TCPT_REXMT 0
           ((mark_recover tp)\<lparr>t_flagsext := t_flagsext tp AND NOT TF_CWND_NONVALIDATED\<rparr>)))
         \<lparr>t_rtttime := 0, snd_cwnd := snd_ssthresh tp\<rparr>)"
  by (simp add: enter_recovery_window_def Let_def flag_simps mark_recover_def)

lemma enter_recovery_window_spec:
  "IN_FASTRECOVERY (enter_recovery_window E tp)"
  "snd_cwnd (enter_recovery_window E tp) = snd_ssthresh tp"
  "snd_ssthresh (enter_recovery_window E tp) = snd_ssthresh tp"
  "t_maxseg (enter_recovery_window E tp) = t_maxseg tp"
  "t_timer (enter_recovery_window E tp) = (t_timer tp)(TCPT_REXMT := 0, TCPT_PTO := 0)"
  "snd_recover (enter_recovery_window E tp) =
     (if has_flag (t_flags tp) TF_SENTFIN then snd_max tp - 1 else snd_max tp)"
  "t_ccstate (enter_recovery_window E tp) = t_ccstate tp"
  by (simp_all add: enter_recovery_window_eq mark_recover_def IN_FASTRECOVERY_def Let_def flag_simps
      sentfin_not_recovery)

text \<open>
  What the recovery code relies on in an algorithm: on the states where it is \<open>ready\<close> the
  loss hook returns, leaves room for two segments under the threshold and changes neither
  window, segment size, flags nor the highest sequence number sent; the timeout hook returns
  and leaves one segment or the state as it was; the window can be initialised.
\<close>

locale congestion_control =
  fixes algo :: tcp_cc_algo and ready :: "tcpcb \<Rightarrow> bool"
  assumes loss_law: "ready tp \<Longrightarrow> \<exists>tp'. run_hook (pre_fr algo) tp = Some tp' \<and> ready tp'
      \<and> 2 * t_maxseg tp \<le> snd_ssthresh tp' \<and> t_maxseg tp' = t_maxseg tp \<and> snd_cwnd tp' = snd_cwnd tp
      \<and> t_flags tp' = t_flags tp \<and> snd_max tp' = snd_max tp"
    and timeout_law: "ready tp \<Longrightarrow> \<exists>tp'. run_hook (after_timeout algo) tp = Some tp' \<and> ready tp'
      \<and> t_maxseg tp' = t_maxseg tp \<and> (tp' = tp \<or> snd_cwnd tp' = t_maxseg tp)"
    and init_law: "ready tp \<Longrightarrow> \<exists>tp'. run_hook (cwnd_init algo) tp = Some tp' \<and> ready tp'
      \<and> t_maxseg tp' = t_maxseg tp"
begin

lemma enter_recovery:
  assumes "ready tp"
  shows "\<exists>tp'. run_hook (pre_fr algo) tp \<bind> (\<lambda>tp. Some (enter_recovery_window E tp)) = Some tp'
    \<and> IN_FASTRECOVERY tp' \<and> snd_cwnd tp' = snd_ssthresh tp' \<and> 2 * t_maxseg tp \<le> snd_cwnd tp'
    \<and> snd_recover tp' = (if has_flag (t_flags tp) TF_SENTFIN then snd_max tp - 1 else snd_max tp)
    \<and> t_timer tp' TCPT_REXMT = 0 \<and> t_timer tp' TCPT_PTO = 0"
proof -
  obtain tp1 where "run_hook (pre_fr algo) tp = Some tp1" "2 * t_maxseg tp \<le> snd_ssthresh tp1"
      "t_flags tp1 = t_flags tp" "snd_max tp1 = snd_max tp"
    using loss_law [OF assms] by blast
  then show ?thesis by (simp add: enter_recovery_window_spec)
qed

text \<open>After a loss and a timeout in a row the window is one segment or that of the loss response.\<close>

lemma loss_then_timeout:
  assumes "ready tp"
  shows "\<exists>tp1 tp2. run_hook (pre_fr algo) tp = Some tp1 \<and> run_hook (after_timeout algo) tp1 = Some tp2
    \<and> snd_cwnd tp2 \<in> {snd_cwnd tp, t_maxseg tp}"
proof -
  obtain tp1 where 1: "run_hook (pre_fr algo) tp = Some tp1" "ready tp1" "t_maxseg tp1 = t_maxseg tp"
      "snd_cwnd tp1 = snd_cwnd tp"
    using loss_law [OF assms] by blast
  with timeout_law [OF 1(2)] show ?thesis by auto
qed

end

lemma cubic_cwnd_init_ready:
  "t_ccstate tp \<noteq> None \<Longrightarrow> \<exists>tp'. tcp_cubic_cwnd_init_or_reset E tp = Some tp' \<and> t_ccstate tp' \<noteq> None
     \<and> t_maxseg tp' = t_maxseg tp"
  by (simp add: tcp_cubic_cwnd_init_or_reset_def tcp_cc_cwnd_init_or_reset_def tcp_clear_pipeack_state_def
      Let_def del: not_None_eq)

lemma cubic_timeout_ready:
  assumes "t_ccstate tp \<noteq> None"
  shows "\<exists>tp'. tcp_cubic_after_timeout E P tp = Some tp' \<and> t_ccstate tp' \<noteq> None
     \<and> t_maxseg tp' = t_maxseg tp \<and> (tp' = tp \<or> snd_cwnd tp' = t_maxseg tp)"
proof -
  have "t_ccstate (tcp_cubic_clear_state tp) \<noteq> None" using assms by simp
  then obtain tp1 where "tcp_cubic_pre_fr E P (tcp_cubic_clear_state tp) = Some tp1" "t_ccstate tp1 \<noteq> None"
      "t_maxseg tp1 = t_maxseg (tcp_cubic_clear_state tp)"
    by (rule pre_fr_spec)
  then show ?thesis using assms by (simp add: tcp_cubic_after_timeout_def del: not_None_eq)
qed

interpretation cubic: congestion_control "tcp_cc_cubic E P now" "\<lambda>tp. t_ccstate tp \<noteq> None"
  for E P now
proof unfold_locales
  fix tp :: tcpcb
  assume r: "t_ccstate tp \<noteq> None"
  from r obtain tp' where "tcp_cubic_pre_fr E P tp = Some tp'" "2 * t_maxseg tp \<le> snd_ssthresh tp'"
    "t_maxseg tp' = t_maxseg tp" "snd_cwnd tp' = snd_cwnd tp" "t_ccstate tp' \<noteq> None"
    "t_flags tp' = t_flags tp"
    by (rule pre_fr_spec)
  with pre_fr_frame(1) [of E P tp tp']
  show "\<exists>tp'. run_hook (pre_fr (tcp_cc_cubic E P now)) tp = Some tp' \<and> t_ccstate tp' \<noteq> None
      \<and> 2 * t_maxseg tp \<le> snd_ssthresh tp' \<and> t_maxseg tp' = t_maxseg tp \<and> snd_cwnd tp' = snd_cwnd tp
      \<and> t_flags tp' = t_flags tp \<and> snd_max tp' = snd_max tp"
    by (simp add: tcp_cc_cubic_def)
  show "\<exists>tp'. run_hook (after_timeout (tcp_cc_cubic E P now)) tp = Some tp' \<and> t_ccstate tp' \<noteq> None
      \<and> t_maxseg tp' = t_maxseg tp \<and> (tp' = tp \<or> snd_cwnd tp' = t_maxseg tp)"
    using cubic_timeout_ready [OF r, of E P] by (simp add: tcp_cc_cubic_def)
  show "\<exists>tp'. run_hook (cwnd_init (tcp_cc_cubic E P now)) tp = Some tp' \<and> t_ccstate tp' \<noteq> None
      \<and> t_maxseg tp' = t_maxseg tp"
    using cubic_cwnd_init_ready [OF r, of E] by (simp add: tcp_cc_cubic_def)
qed

lemma CC_ALGO_cubic:
  "tcp_cc_index tp = TCP_CC_ALGO_CUBIC_INDEX E \<Longrightarrow> TCP_CC_ALGO_PRAGUE_INDEX E \<noteq> TCP_CC_ALGO_CUBIC_INDEX E
     \<Longrightarrow> CC_ALGO E P now tp = Some (tcp_cc_cubic E P now)"
  by (simp add: CC_ALGO_def tcp_cc_init_def)

subsection \<open>Early retransmit\<close>

lemma nat_ceil_div: "0 < m \<Longrightarrow> (b + m - 1) div m = b div m + (if b div m * m < b then 1 else (0::nat))"
proof -
  assume m: "0 < m"
  define q r where "q = b div m" and "r = b mod m"
  have b: "b = q * m + r" and r: "r < m" using m by (simp_all add: q_def r_def)
  define k where "k = r + m - 1"
  have eq: "b + m - 1 = k + q * m" using m b by (simp add: k_def)
  have "(b + m - 1) div m = q + k div m" unfolding eq using m by simp
  moreover have "k div m = (if 0 < r then 1 else 0)"
  proof (cases "0 < r")
    case True
    then have "k = (r - 1) + 1 * m" by (simp add: k_def)
    then have "k div m = (r - 1) div m + 1" using m by (simp only: div_mult_self1)
    then show ?thesis using True r by (simp add: less_imp_diff_less)
  qed (use m in \<open>simp add: k_def\<close>)
  moreover have "q * m < b \<longleftrightarrow> 0 < r" using b by linarith
  ultimately show ?thesis unfolding q_def [symmetric] by presburger
qed

lemma early_osegs_ceil:
  assumes m: "0 < m"
  shows "unat (early_osegs b m) = (unat b + unat m - 1) div unat m"
proof -
  let ?q = "b div m"
  have mpos: "0 < unat m" using m by (simp add: word_less_nat_alt)
  have q: "unat ?q = unat b div unat m" by (rule unat_div)
  have le: "unat ?q * unat m \<le> unat b" by (simp add: q)
  then have p: "unat (?q * m) = unat b div unat m * unat m"
    using unat_u32_bound [of b] unfolding q [symmetric] by (simp add: unat_word_ariths)
  have "unat (?q + 1) = unat ?q + 1" if "?q * m < b"
  proof -
    have "unat ?q \<le> unat ?q * unat m" using mpos by simp
    also have "\<dots> < unat b" using that p q by (simp add: word_less_nat_alt)
    finally show ?thesis using unat_u32_bound [of b] by (simp add: unat_word_ariths)
  qed
  then show ?thesis unfolding nat_ceil_div [OF mpos]
    by (simp add: early_osegs_def Let_def p q word_less_nat_alt)
qed

lemma early_threshold_one:
  assumes "t_dupacks tp = 1" "2 \<le> tcprexmtthresh E" "0 < unat osegs" "unat osegs < 4"
  shows "unat (early_threshold E tp osegs) = max 1 (unat osegs - 1)"
proof -
  have "osegs = 1 \<or> osegs = 2 \<or> osegs = 3"
  proof -
    have "unat osegs \<in> {1, 2, 3}" using assms(3,4) by auto
    moreover have "osegs = of_nat (unat osegs)" by simp
    ultimately show ?thesis by (metis insertE empty_iff of_nat_1 of_nat_numeral)
  qed
  then show ?thesis using assms(1,2)
    by (elim disjE) (simp_all add: early_threshold_def max_def min_def word_le_nat_alt)
qed

lemma early_check_lowers:
  assumes nosack: "\<not> SACK_ENABLED tp" and count: "t_early_rexmt_count tp < TCP_EARLY_REXMT_LIMIT"
    and dup: "t_dupacks tp = 1" and out: "seq_gt (snd_max tp) (snd_una tp)"
    and m: "0 < t_maxseg tp" "unat (t_maxseg tp) < 2 ^ 30"
    and n: "n = (unat (snd_max tp - snd_una tp) + unat (t_maxseg tp) - 1) div unat (t_maxseg tp)" "n < 4"
    and nodata: "sint (min (sb_cc (so_snd (inp_socket (t_inpcb tp)))) (snd_wnd tp) - (snd_max tp - snd_una tp)) \<le> 0"
    and th: "2 \<le> tcprexmtthresh E"
  shows "\<exists>tp'. tcp_early_rexmt_check E now tp = Some tp' \<and> unat (t_rexmtthresh tp') = max 1 (n - 1)
    \<and> t_early_rexmt_count tp' = (if has_flag (t_flagsext tp) TF_SENT_TLPROBE then t_early_rexmt_count tp
        else t_early_rexmt_count tp + 1)"
proof -
  let ?b = "snd_max tp - snd_una tp" and ?m = "unat (t_maxseg tp)"
  have mp: "0 < ?m" using m(1) by (simp add: word_less_nat_alt)
  have os: "unat (early_osegs ?b (t_maxseg tp)) = n" using early_osegs_ceil [OF m(1)] n(1) by simp
  have bpos: "0 < unat ?b" using out unfolding seq_gt_def
    by (metis diff_self neq0_conv seq_gt_def sint_0 unat_eq_zero less_irrefl signed_0)
  then have npos: "0 < n" using n(1) mp by (simp add: div_greater_zero_iff)
  have blt: "?b < push_bit 2 (t_maxseg tp)"
  proof -
    have "unat ?b < 4 * ?m"
    proof (rule ccontr)
      assume "\<not> unat ?b < 4 * ?m"
      then have "4 * ?m \<le> unat ?b + ?m - 1" using mp by linarith
      then have "4 \<le> n" using mp n(1) by (simp add: less_eq_div_iff_mult_less_eq)
      then show False using n(2) by simp
    qed
    moreover have "unat (push_bit 2 (t_maxseg tp)) = 4 * ?m"
      using m(2) by (simp add: push_bit_eq_mult unat_word_ariths)
    ultimately show ?thesis by (simp add: word_less_nat_alt)
  qed
  have lt4: "early_osegs ?b (t_maxseg tp) < 4" using os n(2) by (simp add: word_less_nat_alt)
  have thr: "unat (early_threshold E tp (early_osegs ?b (t_maxseg tp))) = max 1 (n - 1)"
    using early_threshold_one [OF dup th] os npos n(2) by simp
  have "early_allowed tp" using nosack count dup out by (simp add: early_allowed_def)
  moreover have "early_outstanding E tp = Some ?b"
    using nosack by (simp add: early_outstanding_def TCP_RACK_ENABLED_def)
  ultimately show ?thesis
    using blt nodata lt4 thr by (simp add: tcp_early_rexmt_check_def early_lower_def Let_def)
qed

text \<open>The count of early retransmits never passes its limit on a connection without SACK.\<close>

lemma early_lower_count:
  "t_early_rexmt_count (early_lower E now tp ob) \<in> {t_early_rexmt_count tp, t_early_rexmt_count tp + 1}"
  by (simp add: early_lower_def Let_def)

lemma early_check_limit:
  assumes "\<not> SACK_ENABLED tp" "t_early_rexmt_count tp \<le> TCP_EARLY_REXMT_LIMIT"
    and r: "tcp_early_rexmt_check E now tp = Some tp'"
  shows "t_early_rexmt_count tp' \<le> TCP_EARLY_REXMT_LIMIT"
    and "t_early_rexmt_count tp = TCP_EARLY_REXMT_LIMIT \<Longrightarrow> t_rexmtthresh tp' = t_rexmtthresh tp"
proof -
  show "t_rexmtthresh tp' = t_rexmtthresh tp" if "t_early_rexmt_count tp = TCP_EARLY_REXMT_LIMIT"
    using r that assms(1) by (auto simp: tcp_early_rexmt_check_def early_allowed_def)
  have suc: "x + 1 \<le> TCP_EARLY_REXMT_LIMIT" if "x < TCP_EARLY_REXMT_LIMIT" for x :: u16
    using that by (simp add: TCP_EARLY_REXMT_LIMIT_def inc_le)
  show "t_early_rexmt_count tp' \<le> TCP_EARLY_REXMT_LIMIT"
  proof (cases "early_allowed tp")
    case True
    then have lt: "t_early_rexmt_count tp < TCP_EARLY_REXMT_LIMIT"
      using assms(1) by (simp add: early_allowed_def)
    obtain ob where "t_early_rexmt_count tp' = t_early_rexmt_count (early_lower E now tp ob)"
      using r True by (auto simp: tcp_early_rexmt_check_def bind_eq_Some_conv)
    then show ?thesis using early_lower_count [of E now tp ob] suc [OF lt] lt by auto
  next
    case False
    then show ?thesis using r assms(2) by (auto simp: tcp_early_rexmt_check_def)
  qed
qed

subsection \<open>Undoing a spurious timeout\<close>

text \<open>What a timeout hook must leave for the state to be restorable.\<close>

definition keeps_saved :: "tcpcb \<Rightarrow> tcpcb \<Rightarrow> bool" where
  "keeps_saved tp tp' \<longleftrightarrow> snd_cwnd_prev tp' = snd_cwnd_prev tp \<and> snd_ssthresh_prev tp' = snd_ssthresh_prev tp
     \<and> snd_recover_prev tp' = snd_recover_prev tp \<and> snd_max tp' = snd_max tp \<and> t_flags tp' = t_flags tp
     \<and> t_flagsext tp' = t_flagsext tp \<and> t_maxseg tp' = t_maxseg tp"

lemma pre_fr_keeps_saved: "tcp_cubic_pre_fr E P tp = Some tp' \<Longrightarrow> keeps_saved tp tp'"
proof -
  assume r: "tcp_cubic_pre_fr E P tp = Some tp'"
  then have "t_ccstate tp \<noteq> None" by (rule contrapos_pn) (simp add: tcp_cubic_pre_fr_def)
  then obtain tp1 where "tcp_cubic_pre_fr E P tp = Some tp1" "t_maxseg tp1 = t_maxseg tp" "t_flags tp1 = t_flags tp"
    by (rule pre_fr_spec)
  with r pre_fr_frame [OF r] show ?thesis by (simp add: keeps_saved_def)
qed

lemma after_timeout_keeps_saved:
  assumes "tcp_cubic_after_timeout E P tp = Some tp'"
  shows "keeps_saved tp tp'"
proof -
  have c: "keeps_saved tp (tcp_cubic_clear_state tp)"
    by (simp add: keeps_saved_def tcp_cubic_clear_state_def)
  show ?thesis
  proof (cases "t_ccstate tp = None \<or> before_established E (t_state tp) \<and> sint (snd_max tp - snd_una tp) \<le> 1")
    case True
    then have "tp' = tp" using assms
      by (cases "t_ccstate tp = None") (simp_all add: tcp_cubic_after_timeout_def del: not_None_eq)
    then show ?thesis by (simp add: keeps_saved_def)
  next
    case False
    then obtain tp1 where
      1: "(if \<not> IN_FASTRECOVERY tp then tcp_cubic_pre_fr E P (tcp_cubic_clear_state tp) else Some tp) = Some tp1"
      and tp': "tp' = tp1\<lparr>snd_cwnd := t_maxseg tp1\<rparr>"
      using assms by (auto simp add: tcp_cubic_after_timeout_def bind_eq_Some_conv simp del: not_None_eq if_split)
    have "keeps_saved tp tp1"
    proof (cases "IN_FASTRECOVERY tp")
      case True
      with 1 show ?thesis by (simp add: keeps_saved_def)
    next
      case False
      with 1 pre_fr_keeps_saved [of E P "tcp_cubic_clear_state tp" tp1] c
      show ?thesis by (simp add: keeps_saved_def)
    qed
    then show ?thesis by (simp add: tp' keeps_saved_def)
  qed
qed

lemma fix_sndbuf_frame [simp]:
  "snd_cwnd (tcp_bad_rexmt_fix_sndbuf E tp) = snd_cwnd tp" "snd_ssthresh (tcp_bad_rexmt_fix_sndbuf E tp) = snd_ssthresh tp"
  "snd_recover (tcp_bad_rexmt_fix_sndbuf E tp) = snd_recover tp" "snd_nxt (tcp_bad_rexmt_fix_sndbuf E tp) = snd_nxt tp"
  "t_flags (tcp_bad_rexmt_fix_sndbuf E tp) = t_flags tp" "t_flagsext (tcp_bad_rexmt_fix_sndbuf E tp) = t_flagsext tp"
  by (simp_all add: tcp_bad_rexmt_fix_sndbuf_def upd_snd_def Let_def)

lemma rack_flags: "TCP_RACK_ENABLED tp = TCP_RACK_ENABLED tp'" if "t_flagsext tp = t_flagsext tp'"
  using that by (simp add: TCP_RACK_ENABLED_def SACK_ENABLED_def TFO_ENABLED_def)

lemma restore_finish_spec:
  assumes "\<not> TCP_RACK_ENABLED tp"
  shows "snd_cwnd (restore_finish E now tp) = max (snd_cwnd tp) (tcp_initial_cwnd E tp)"
    "snd_ssthresh (restore_finish E now tp) = snd_ssthresh tp"
    "snd_recover (restore_finish E now tp) = snd_recover_prev tp"
    "snd_nxt (restore_finish E now tp) = snd_max tp" "t_flags (restore_finish E now tp) = t_flags tp"
  using assms by (auto simp: restore_finish_def Let_def TCP_RACK_ENABLED_def SACK_ENABLED_def TFO_ENABLED_def)

lemma save_state_spec:
  assumes "\<not> TSTMP_SUPPORTED tp"
  shows "snd_cwnd_prev (tcp_rexmt_save_state tp) = snd_cwnd tp"
    "snd_ssthresh_prev (tcp_rexmt_save_state tp) = snd_ssthresh tp"
    "snd_recover_prev (tcp_rexmt_save_state tp) = snd_recover tp"
    "snd_max (tcp_rexmt_save_state tp) = snd_max tp" "t_maxseg (tcp_rexmt_save_state tp) = t_maxseg tp"
    "t_ccstate (tcp_rexmt_save_state tp) = t_ccstate tp"
    "\<not> TSTMP_SUPPORTED (tcp_rexmt_save_state tp)"
    "TCP_RACK_ENABLED (tcp_rexmt_save_state tp) = TCP_RACK_ENABLED tp"
    "has_flag (t_flags (tcp_rexmt_save_state tp)) TF_WASFRECOVERY \<longleftrightarrow> IN_FASTRECOVERY tp"
proof -
  have ts: "(f OR TF_WASFRECOVERY) AND (TF_REQ_TSTMP OR TF_RCVD_TSTMP) = f AND (TF_REQ_TSTMP OR TF_RCVD_TSTMP)"
    "(f AND NOT TF_WASFRECOVERY) AND (TF_REQ_TSTMP OR TF_RCVD_TSTMP) = f AND (TF_REQ_TSTMP OR TF_RCVD_TSTMP)" for f
    by (rule flag_set_other flag_cleared_other, simp add: TF_defs)+
  have rk: "(f AND NOT TF_RECOMPUTE_RTT) AND TF_RACK_ENABLED = f AND TF_RACK_ENABLED"
    "(f AND NOT TF_RECOMPUTE_RTT) AND TF_SACK_ENABLE = f AND TF_SACK_ENABLE"
    "(f AND NOT TF_RECOMPUTE_RTT) AND TF_FASTOPEN = f AND TF_FASTOPEN" for f
    by (rule flag_cleared_other, simp add: TFX_defs)+
  note d = tcp_rexmt_save_state_def Let_def assms
  show "\<not> TSTMP_SUPPORTED (tcp_rexmt_save_state tp)"
    using assms by (simp add: tcp_rexmt_save_state_def Let_def TSTMP_SUPPORTED_def ts)
  show "TCP_RACK_ENABLED (tcp_rexmt_save_state tp) = TCP_RACK_ENABLED tp"
    by (simp add: d TCP_RACK_ENABLED_def SACK_ENABLED_def TFO_ENABLED_def rk)
  show "has_flag (t_flags (tcp_rexmt_save_state tp)) TF_WASFRECOVERY \<longleftrightarrow> IN_FASTRECOVERY tp"
    by (simp add: d IN_FASTRECOVERY_def flag_simps)
qed (simp_all add: tcp_rexmt_save_state_def Let_def assms)

lemma restore_after_save:
  assumes ts: "\<not> TSTMP_SUPPORTED tp" and rack: "\<not> TCP_RACK_ENABLED tp"
    and kept: "keeps_saved (tcp_rexmt_save_state tp) tp1"
    and iw: "\<And>tp. tcp_initial_cwnd E tp = iw (t_maxseg tp)"
  shows "\<exists>tp2. tcp_bad_rexmt_restore_state E P now tp1 th = Some tp2
    \<and> snd_cwnd tp2 = max (snd_cwnd tp) (iw (t_maxseg tp)) \<and> snd_ssthresh tp2 = snd_ssthresh tp
    \<and> snd_recover tp2 = snd_recover tp \<and> snd_nxt tp2 = snd_max tp
    \<and> (IN_FASTRECOVERY tp \<longrightarrow> IN_FASTRECOVERY tp2)"
proof -
  note s = save_state_spec [OF ts]
  have ts1: "\<not> TSTMP_SUPPORTED tp1" using s(7) kept by (simp add: TSTMP_SUPPORTED_def keeps_saved_def)
  have rack1: "\<not> TCP_RACK_ENABLED tp1"
    using s(8) rack rack_flags [of tp1 "tcp_rexmt_save_state tp"] kept by (simp add: keeps_saved_def)
  let ?r = "(let tp = tp1\<lparr>snd_cwnd := snd_cwnd_prev tp1, snd_ssthresh := snd_ssthresh_prev tp1\<rparr>;
             tp = (if has_flag (t_flags tp) TF_WASFRECOVERY then ENTER_FASTRECOVERY (inp_reset_fc_state E) tp
                   else tp) in tp\<lparr>t_lossflightsize := 0\<rparr>)"
  have w: "restore_window E P now tp1 th = Some ?r" using ts1 by (simp add: restore_window_def Let_def)
  have r: "\<not> TCP_RACK_ENABLED ?r" "snd_cwnd ?r = snd_cwnd tp" "snd_ssthresh ?r = snd_ssthresh tp"
      "snd_recover_prev ?r = snd_recover tp" "snd_max ?r = snd_max tp" "t_maxseg ?r = t_maxseg tp"
    using rack1 kept s by (simp_all add: Let_def keeps_saved_def TCP_RACK_ENABLED_def SACK_ENABLED_def TFO_ENABLED_def)
  have f: "IN_FASTRECOVERY tp \<longrightarrow> has_flag (t_flags ?r) TF_FASTRECOVERY"
    using kept s(9) by (simp add: Let_def keeps_saved_def flag_simps)
  show ?thesis
    unfolding tcp_bad_rexmt_restore_state_def w
    using restore_finish_spec [OF r(1), of E now] r f iw [of ?r] by (simp add: IN_FASTRECOVERY_def)
qed

subsection \<open>Properties\<close>

definition rec_env_zero :: rec_env where
  "rec_env_zero = cc_env.extend cc_env_zero
     (rec_env.fields 0 tcp_cc_algo_none tcp_cc_algo_none tcp_cc_algo_none 0 0 0 0 0 None None
        (\<lambda>_. False) 0x100 (\<lambda>i. i) (\<lambda>t. t) (\<lambda>t. t) (\<lambda>t. t) (\<lambda>t. t) max (\<lambda>t. t))"

lemmas rec_env_zero_simps = rec_env_zero_def rec_env.defs cc_env_zero_simps

text \<open>
  Property C28. On a connection that runs CUBIC, entering fast recovery always succeeds and
  leaves the connection in recovery with the congestion window equal to the new threshold, at
  least two segments, whether or not the window was validated; the recovery point is the
  highest sequence number sent (one less after a FIN), and the retransmission and probe
  timers are off.
\<close>

theorem enter_fast_recovery_safe:
  assumes "tcp_cc_index tp = TCP_CC_ALGO_CUBIC_INDEX E"
    "TCP_CC_ALGO_PRAGUE_INDEX E \<noteq> TCP_CC_ALGO_CUBIC_INDEX E" "t_ccstate tp \<noteq> None"
  shows "\<exists>tp'. tcp_enter_fast_recovery E P now tp = Some tp' \<and> IN_FASTRECOVERY tp'
    \<and> snd_cwnd tp' = snd_ssthresh tp' \<and> 2 * t_maxseg tp \<le> snd_cwnd tp'
    \<and> snd_recover tp' = (if has_flag (t_flags tp) TF_SENTFIN then snd_max tp - 1 else snd_max tp)
    \<and> t_timer tp' TCPT_REXMT = 0 \<and> t_timer tp' TCPT_PTO = 0"
  using cubic.enter_recovery [OF assms(3), of E P now E] CC_ALGO_cubic [OF assms(1,2)]
  by (simp add: tcp_enter_fast_recovery_def)

theorem enter_fast_recovery_safe_witness:
  "\<exists>tp'. tcp_enter_fast_recovery rec_env_zero cubic_params_init 7 (demo_cubic\<lparr>tcp_cc_index := 3\<rparr>) = Some tp'
     \<and> IN_FASTRECOVERY tp' \<and> snd_recover tp' = 9000"
  using enter_fast_recovery_safe [of "demo_cubic\<lparr>tcp_cc_index := 3\<rparr>" rec_env_zero cubic_params_init 7]
  by (auto simp: demo_cubic_def tcpcb_zero_def rec_env_zero_simps)

text \<open>
  A retransmission timeout that proves spurious is undone completely on a
  connection without timestamps and RACK: saving the state, running CUBIC's timeout response
  and restoring gives back the congestion window (raised to the initial window if it was
  smaller), the threshold, the recovery point and the recovery phase, and moves the next
  sequence number to the highest one sent. The initial window is assumed to be a function of
  the segment size.
\<close>

lemma spurious_timeout_undone:
  assumes "\<not> TSTMP_SUPPORTED tp" "\<not> TCP_RACK_ENABLED tp" "t_ccstate tp \<noteq> None"
    "\<And>tp. tcp_initial_cwnd E tp = iw (t_maxseg tp)"
  shows "\<exists>tp1 tp2. tcp_cubic_after_timeout E P (tcp_rexmt_save_state tp) = Some tp1
    \<and> tcp_bad_rexmt_restore_state E P now tp1 th = Some tp2
    \<and> snd_cwnd tp2 = max (snd_cwnd tp) (iw (t_maxseg tp)) \<and> snd_ssthresh tp2 = snd_ssthresh tp
    \<and> snd_recover tp2 = snd_recover tp \<and> snd_nxt tp2 = snd_max tp
    \<and> (IN_FASTRECOVERY tp \<longrightarrow> IN_FASTRECOVERY tp2)"
proof -
  have "t_ccstate (tcp_rexmt_save_state tp) \<noteq> None" using assms(3) save_state_spec(6) [OF assms(1)] by simp
  then obtain tp1 where 1: "tcp_cubic_after_timeout E P (tcp_rexmt_save_state tp) = Some tp1"
    using cubic_timeout_ready by blast
  then show ?thesis
    using restore_after_save [OF assms(1,2) after_timeout_keeps_saved [OF 1] assms(4), of P now th] by auto
qed

text \<open>
  Early retransmit lowers the duplicate-acknowledgement threshold as far as the
  flight allows: at the first duplicate acknowledgement on a connection without SACK that has
  not used up its allowance, with \<open>n\<close> (at most three) segments outstanding and nothing more
  that may be sent, the threshold becomes \<open>max 1 (n - 1)\<close>, and one use is counted unless a
  tail loss probe was out.
\<close>

lemma early_rexmt_threshold:
  assumes "\<not> SACK_ENABLED tp" "t_early_rexmt_count tp < TCP_EARLY_REXMT_LIMIT"
    "t_dupacks tp = 1" "seq_gt (snd_max tp) (snd_una tp)"
    "0 < t_maxseg tp" "unat (t_maxseg tp) < 2 ^ 30"
    "n = (unat (snd_max tp - snd_una tp) + unat (t_maxseg tp) - 1) div unat (t_maxseg tp)" "n < 4"
    "sint (min (sb_cc (so_snd (inp_socket (t_inpcb tp)))) (snd_wnd tp) - (snd_max tp - snd_una tp)) \<le> 0"
    "2 \<le> tcprexmtthresh E"
  shows "\<exists>tp'. tcp_early_rexmt_check E now tp = Some tp' \<and> unat (t_rexmtthresh tp') = max 1 (n - 1)
    \<and> t_early_rexmt_count tp' = (if has_flag (t_flagsext tp) TF_SENT_TLPROBE then t_early_rexmt_count tp
        else t_early_rexmt_count tp + 1)"
  using assms by (rule early_check_lowers)

definition demo_tail :: tcpcb where
  "demo_tail = demo_cubic\<lparr>tcp_cc_index := 3, t_dupacks := 1, snd_max := 1500, snd_nxt := 1500,
     t_rexmtthresh := 3\<rparr>"

text \<open>
  Without SACK the number of early retransmits counted never passes ten, and
  once it is ten the check leaves the threshold alone.
\<close>

lemma early_rexmt_limited:
  assumes "\<not> SACK_ENABLED tp" "t_early_rexmt_count tp \<le> TCP_EARLY_REXMT_LIMIT"
    "tcp_early_rexmt_check E now tp = Some tp'"
  shows "t_early_rexmt_count tp' \<le> TCP_EARLY_REXMT_LIMIT
    \<and> (t_early_rexmt_count tp = TCP_EARLY_REXMT_LIMIT \<longrightarrow> t_rexmtthresh tp' = t_rexmtthresh tp)"
  using early_check_limit [OF assms] by blast

text \<open>
  The handler of the threshold variable accepts exactly the values 2 and 3, so
  that the threshold stays in this range whatever is written to it; any other value is
  refused with \<open>EINVAL\<close> and changes nothing.
\<close>

lemma rexmtthresh_range:
  assumes "tcprexmtthresh E \<in> {2, 3}"
  shows "tcprexmtthresh (snd (sysctl_rexmtthresh E error newval)) \<in> {2, 3}
    \<and> (error = 0 \<longrightarrow> (\<forall>val. newval = Some val \<longrightarrow>
         (fst (sysctl_rexmtthresh E error newval) = 0 \<longleftrightarrow> val = 2 \<or> val = 3)))
    \<and> (fst (sysctl_rexmtthresh E error newval) \<noteq> 0 \<longrightarrow> snd (sysctl_rexmtthresh E error newval) = E)"
proof (cases newval)
  case (Some val)
  have "val = 2 \<or> val = 3" if "\<not> (val < 2 \<or> val > 3)" using that by linarith
  then show ?thesis using assms Some by (auto simp: sysctl_rexmtthresh_def EINVAL_def)
qed (use assms in \<open>auto simp: sysctl_rexmtthresh_def\<close>)

end
