(* ===== verification/TcpOptions.thy ===== *)
theory TcpOptions
  imports Recovery
begin

text \<open>
  The option parser of \<^verbatim>\<open>reference/xnu/tcp_input.c\<close>: \<^verbatim>\<open>tcp_dooptions\<close> and
  \<^verbatim>\<open>tcp_finalize_options\<close>. The buffer from the current option on is a list of bytes, as long
  as the C variable \<^verbatim>\<open>cnt\<close>; a read beyond it makes the result \<open>None\<close>. Pointers into the
  buffer that the parser leaves in the result are the bytes they point to. Option kinds and
  lengths are constants of a header outside the sources, hence fields of \<open>opt_env\<close>;
  \<open>std_options\<close> says that they have their assigned values.
\<close>

record opt_env = rec_env +
  TCPOPT_EOL :: u8
  TCPOPT_NOP :: u8
  TCPOPT_MAXSEG :: u8
  TCPOPT_WINDOW :: u8
  TCPOPT_TIMESTAMP :: u8
  TCPOPT_SACK_PERMITTED :: u8
  TCPOPT_SACK :: u8
  TCPOPT_FASTOPEN :: u8
  TCPOPT_ACCECN0 :: u8
  TCPOPT_ACCECN1 :: u8
  TCPOPT_MULTIPATH :: u8
  TCPOLEN_MAXSEG :: nat
  TCPOLEN_WINDOW :: nat
  TCPOLEN_TIMESTAMP :: nat
  TCPOLEN_SACK_PERMITTED :: nat
  TCPOLEN_SACK :: nat
  TCPOLEN_FASTOPEN_REQ :: nat
  TFO_COOKIE_LEN_MAX :: nat
  TFO_COOKIE_LEN_MIN :: nat
  TCPOLEN_ACCECN_EMPTY :: nat
  TCPOLEN_ACCECN_COUNTER :: nat
  tcp_do_timestamps :: int
  tcp_do_mptcp_options :: "tcpcb \<Rightarrow> bytes \<Rightarrow> tcphdr \<Rightarrow> tcpopt \<Rightarrow> nat \<Rightarrow> tcpcb \<times> tcpopt"
  tcp_mss :: "tcpcb \<Rightarrow> u16 \<Rightarrow> nat \<Rightarrow> tcpcb"

definition std_options :: "'e opt_env_scheme \<Rightarrow> bool" where
  "std_options E \<longleftrightarrow>
     TCPOPT_EOL E = 0 \<and> TCPOPT_NOP E = 1 \<and> TCPOPT_MAXSEG E = 2 \<and> TCPOPT_WINDOW E = 3
     \<and> TCPOPT_SACK_PERMITTED E = 4 \<and> TCPOPT_SACK E = 5 \<and> TCPOPT_TIMESTAMP E = 8
     \<and> TCPOPT_MULTIPATH E = 30 \<and> TCPOPT_FASTOPEN E = 34 \<and> TCPOPT_ACCECN0 E = 172 \<and> TCPOPT_ACCECN1 E = 174
     \<and> TCPOLEN_MAXSEG E = 4 \<and> TCPOLEN_WINDOW E = 3 \<and> TCPOLEN_SACK_PERMITTED E = 2 \<and> TCPOLEN_SACK E = 8
     \<and> TCPOLEN_TIMESTAMP E = 10 \<and> TCPOLEN_FASTOPEN_REQ E = 2
     \<and> TFO_COOKIE_LEN_MIN E = 4 \<and> TFO_COOKIE_LEN_MAX E = 16
     \<and> TCPOLEN_ACCECN_EMPTY E = 2 \<and> TCPOLEN_ACCECN_COUNTER E = 3"

definition tcpopt_zero :: tcpopt where
  "tcpopt_zero = \<lparr>to_flags = 0, to_tsval = 0, to_tsecr = 0, to_mss = 0, to_requested_s_scale = 0,
     to_nsacks = 0, to_sacks = [], to_tfo = [], to_num_accecn = 0, to_accecn = [], to_accecn_order = 0\<rparr>"

subsection \<open>One option\<close>

definition opt_maxseg :: "'e opt_env_scheme \<Rightarrow> tcphdr \<Rightarrow> bytes \<Rightarrow> nat \<Rightarrow> tcpopt \<Rightarrow> tcpopt option" where
  "opt_maxseg E th cp optlen to =
     (if optlen \<noteq> TCPOLEN_MAXSEG E then Some to
      else if \<not> has_flag (th_flags th) TH_SYN then Some to
      else do { mss \<leftarrow> rd16 cp 2; Some (to\<lparr>to_mss := mss, to_flags := to_flags to OR TOF_MSS\<rparr>) })"

definition opt_window :: "'e opt_env_scheme \<Rightarrow> tcphdr \<Rightarrow> bytes \<Rightarrow> nat \<Rightarrow> tcpopt \<Rightarrow> tcpopt option" where
  "opt_window E th cp optlen to =
     (if optlen \<noteq> TCPOLEN_WINDOW E then Some to
      else if \<not> has_flag (th_flags th) TH_SYN then Some to
      else do {
        v \<leftarrow> rd cp 2;
        Some (to\<lparr>to_flags := to_flags to OR TOF_SCALE, to_requested_s_scale := min v (TCP_MAX_WINSHIFT E)\<rparr>)
      })"

definition opt_timestamp ::
  "'e opt_env_scheme \<Rightarrow> bytes \<Rightarrow> nat \<Rightarrow> tcpcb \<Rightarrow> tcpopt \<Rightarrow> (tcpcb \<times> tcpopt) option" where
  "opt_timestamp E cp optlen tp to =
     (if optlen \<noteq> TCPOLEN_TIMESTAMP E then Some (tp, to)
      else do {
        val \<leftarrow> rd32 cp 2;
        ecr \<leftarrow> rd32 cp 6;
        let to = to\<lparr>to_flags := to_flags to OR TOF_TS, to_tsval := val, to_tsecr := ecr - t_ts_offset tp\<rparr>;
        Some (if \<not> has_flag (t_flags tp) TF_REQ_TSTMP \<and> tcp_do_timestamps E \<noteq> 0
              then tp\<lparr>t_flags := t_flags tp OR TF_REQ_TSTMP\<rparr> else tp, to)
      })"

text \<open>The bytes \<^verbatim>\<open>cp + i\<close> to \<^verbatim>\<open>cp + i + n - 1\<close> that a pointer kept in the result designates.\<close>

definition slice :: "bytes \<Rightarrow> nat \<Rightarrow> nat \<Rightarrow> bytes option" where
  "slice cp i n = (if i + n \<le> length cp then Some (take n (drop i cp)) else None)"

definition opt_sack :: "'e opt_env_scheme \<Rightarrow> bytes \<Rightarrow> nat \<Rightarrow> tcpopt \<Rightarrow> tcpopt option" where
  "opt_sack E cp optlen to =
     (if optlen \<le> 2 \<or> (optlen - 2) mod TCPOLEN_SACK E \<noteq> 0 then Some to
      else do {
        blocks \<leftarrow> slice cp 2 (optlen - 2);
        Some (to\<lparr>to_nsacks := of_nat ((optlen - 2) div TCPOLEN_SACK E), to_sacks := blocks\<rparr>)
      })"

definition opt_fastopen :: "'e opt_env_scheme \<Rightarrow> bytes \<Rightarrow> nat \<Rightarrow> tcpcb \<Rightarrow> tcpopt \<Rightarrow> tcpopt option" where
  "opt_fastopen E cp optlen tp to =
     (if optlen = TCPOLEN_FASTOPEN_REQ E then
        (if t_state tp \<noteq> TCPS_LISTEN then Some to else Some (to\<lparr>to_flags := to_flags to OR TOF_TFOREQ\<rparr>))
      else if optlen < TCPOLEN_FASTOPEN_REQ E \<or> optlen - TCPOLEN_FASTOPEN_REQ E > TFO_COOKIE_LEN_MAX E
              \<or> optlen - TCPOLEN_FASTOPEN_REQ E < TFO_COOKIE_LEN_MIN E then Some to
      else if t_state tp \<noteq> TCPS_LISTEN \<and> t_state tp \<noteq> TCPS_SYN_SENT then Some to
      else do {
        cookie \<leftarrow> slice cp 1 (optlen - 1);
        Some (to\<lparr>to_flags := to_flags to OR TOF_TFO, to_tfo := cookie\<rparr>)
      })"

definition opt_accecn :: "'e opt_env_scheme \<Rightarrow> bytes \<Rightarrow> u8 \<Rightarrow> nat \<Rightarrow> tcpopt \<Rightarrow> tcpopt option" where
  "opt_accecn E cp opt optlen to =
     (if optlen < TCPOLEN_ACCECN_EMPTY E + 1 * TCPOLEN_ACCECN_COUNTER E
         \<or> (optlen - 2) mod TCPOLEN_ACCECN_COUNTER E \<noteq> 0 then Some to
      else do {
        counters \<leftarrow> slice cp 2 (optlen - 2);
        let to = to\<lparr>to_num_accecn := of_nat ((optlen - 2) div TCPOLEN_ACCECN_COUNTER E), to_accecn := counters\<rparr>;
        Some (if opt = TCPOPT_ACCECN0 E then to\<lparr>to_accecn_order := 0\<rparr>
              else if opt = TCPOPT_ACCECN1 E then to\<lparr>to_accecn_order := 1\<rparr> else to)
      })"

definition do_option ::
  "'e opt_env_scheme \<Rightarrow> tcphdr \<Rightarrow> bytes \<Rightarrow> u8 \<Rightarrow> nat \<Rightarrow> tcpcb \<Rightarrow> tcpopt \<Rightarrow> (tcpcb \<times> tcpopt) option" where
  "do_option E th cp opt optlen tp to =
     (if opt = TCPOPT_MAXSEG E then map_option (Pair tp) (opt_maxseg E th cp optlen to)
      else if opt = TCPOPT_WINDOW E then map_option (Pair tp) (opt_window E th cp optlen to)
      else if opt = TCPOPT_TIMESTAMP E then opt_timestamp E cp optlen tp to
      else if opt = TCPOPT_SACK_PERMITTED E then
        (if optlen \<noteq> TCPOLEN_SACK_PERMITTED E then Some (tp, to)
         else if has_flag (th_flags th) TH_SYN then Some (tp, to\<lparr>to_flags := to_flags to OR TOF_SACK\<rparr>)
         else Some (tp, to))
      else if opt = TCPOPT_SACK E then map_option (Pair tp) (opt_sack E cp optlen to)
      else if opt = TCPOPT_FASTOPEN E then map_option (Pair tp) (opt_fastopen E cp optlen tp to)
      else if opt = TCPOPT_ACCECN0 E \<or> opt = TCPOPT_ACCECN1 E then map_option (Pair tp) (opt_accecn E cp opt optlen to)
      else if opt = TCPOPT_MULTIPATH E then Some (tcp_do_mptcp_options E tp cp th to optlen)
      else Some (tp, to))"

subsection \<open>The loop\<close>

text \<open>
  The kind and the length of the option at \<open>cp\<close>. Both bytes are read with a check against the end of the area;
  the inner \<open>None\<close> is the \<^verbatim>\<open>break\<close> of the C loop, the outer one a read beyond the area.
\<close>

definition option_length :: "'e opt_env_scheme \<Rightarrow> bytes \<Rightarrow> (u8 \<times> nat) option option" where
  "option_length E cp =
     do {
       opt \<leftarrow> rd cp 0;
       if opt = TCPOPT_EOL E then Some None
       else if opt = TCPOPT_NOP E then Some (Some (opt, 1))
       else if length cp < 2 then Some None
       else do {
         optlen \<leftarrow> rd cp 1;
         Some (if optlen < 2 \<or> unat optlen > length cp then None else Some (opt, unat optlen))
       }
     }"

lemma option_length_pos: "option_length E cp = Some (Some (opt, n)) \<Longrightarrow> 0 < n"
  by (auto simp: option_length_def bind_eq_Some_conv word_less_nat_alt split: if_splits)

function tcp_dooptions ::
  "'e opt_env_scheme \<Rightarrow> tcphdr \<Rightarrow> bytes \<Rightarrow> tcpcb \<Rightarrow> tcpopt \<Rightarrow> (tcpcb \<times> tcpopt) option" where
  "tcp_dooptions E th cp tp to =
     (if cp = [] then Some (tp, to)
      else case option_length E cp of
        None \<Rightarrow> None
      | Some None \<Rightarrow> Some (tp, to)
      | Some (Some (opt, optlen)) \<Rightarrow>
          (case do_option E th cp opt optlen tp to of
             None \<Rightarrow> None
           | Some (tp, to) \<Rightarrow> tcp_dooptions E th (drop optlen cp) tp to))"
  by pat_completeness auto

termination
  by (relation "measure (\<lambda>(E, th, cp, tp, to). length cp)") (auto dest: option_length_pos)

declare tcp_dooptions.simps [simp del]

subsection \<open>Using the options of a SYN\<close>

definition tcp_finalize_options :: "'e opt_env_scheme \<Rightarrow> u32 \<Rightarrow> tcpcb \<Rightarrow> tcpopt \<Rightarrow> nat \<Rightarrow> tcpcb" where
  "tcp_finalize_options E now tp to ifscope =
     (let tp = (if has_flag (to_flags to) TOF_TS
                then tp\<lparr>t_flags := t_flags tp OR TF_RCVD_TSTMP, ts_recent := to_tsval to, ts_recent_age := now\<rparr>
                else tp);
          tp = (if has_flag (to_flags to) TOF_MSS then tcp_mss E tp (to_mss to) ifscope else tp);
          tp = (if SACK_ENABLED tp then
                  (if \<not> has_flag (to_flags to) TOF_SACK
                   then tp\<lparr>t_flagsext := t_flagsext tp AND NOT TF_SACK_ENABLE\<rparr>
                   else tp\<lparr>t_flags := t_flags tp OR TF_SACK_PERMIT\<rparr>)
                else tp)
      in if has_flag (to_flags to) TOF_SCALE then
           (let tp = tp\<lparr>t_flags := t_flags tp OR TF_RCVD_SCALE, requested_s_scale := to_requested_s_scale to\<rparr>
            in if request_r_scale tp > 0 then tp\<lparr>t_flags := t_flags tp OR TF_REQ_SCALE\<rparr> else tp)
         else tp)"

subsection \<open>The parser stays inside the buffer\<close>

lemmas opt_read_simps = rd_def rd16_def rd32_def slice_def

lemma option_length_le: "option_length E cp = Some (Some (opt, n)) \<Longrightarrow> n \<le> length cp"
  by (auto simp: option_length_def rd_def bind_eq_Some_conv Suc_le_eq split: if_splits)

lemma option_length_safe: "cp \<noteq> [] \<Longrightarrow> option_length E cp \<noteq> None"
  by (auto simp: option_length_def rd_def)

lemma opt_reads:
  "i + 1 < length f \<Longrightarrow> \<exists>v. rd16 f i = Some v" "i + 3 < length f \<Longrightarrow> \<exists>v. rd32 f i = Some v"
  "i < length f \<Longrightarrow> \<exists>v. rd f i = Some v" "i + n \<le> length f \<Longrightarrow> \<exists>v. slice f i n = Some v"
  by (simp_all add: opt_read_simps)

lemma opt_maxseg_safe: "std_options E \<Longrightarrow> n \<le> length cp \<Longrightarrow> \<exists>r. opt_maxseg E th cp n to = Some r"
  using opt_reads(1) [of 2 cp] by (auto simp: opt_maxseg_def std_options_def)

lemma opt_window_safe: "std_options E \<Longrightarrow> n \<le> length cp \<Longrightarrow> \<exists>r. opt_window E th cp n to = Some r"
  using opt_reads(3) [of 2 cp] by (auto simp: opt_window_def std_options_def)

lemma opt_timestamp_safe: "std_options E \<Longrightarrow> n \<le> length cp \<Longrightarrow> \<exists>r. opt_timestamp E cp n tp to = Some r"
  using opt_reads(2) [of 2 cp] opt_reads(2) [of 6 cp] by (auto simp: opt_timestamp_def std_options_def Let_def)

lemma opt_sack_safe: "n \<le> length cp \<Longrightarrow> \<exists>r. opt_sack E cp n to = Some r"
  by (auto simp: opt_sack_def slice_def)

lemma opt_fastopen_safe: "std_options E \<Longrightarrow> n \<le> length cp \<Longrightarrow> \<exists>r. opt_fastopen E cp n tp to = Some r"
  by (auto simp: opt_fastopen_def slice_def std_options_def)

lemma opt_accecn_safe: "std_options E \<Longrightarrow> n \<le> length cp \<Longrightarrow> \<exists>r. opt_accecn E cp opt n to = Some r"
  by (auto simp: opt_accecn_def slice_def std_options_def Let_def)

lemma if_returns:
  "(b \<Longrightarrow> \<exists>r. x = Some r) \<Longrightarrow> (\<not> b \<Longrightarrow> \<exists>r. y = Some r) \<Longrightarrow> \<exists>r. (if b then x else y) = Some r"
  by simp

lemma some_returns: "\<exists>r. Some x = Some r"
  by simp

lemma map_returns: "\<exists>r. x = Some r \<Longrightarrow> \<exists>r. map_option f x = Some r"
  by auto

lemma do_option_safe:
  assumes "std_options E" "n \<le> length cp"
  shows "\<exists>r. do_option E th cp opt n tp to = Some r"
  unfolding do_option_def
  by (intro if_returns map_returns opt_maxseg_safe opt_window_safe opt_timestamp_safe opt_sack_safe
      opt_fastopen_safe opt_accecn_safe assms some_returns)

lemma dooptions_total:
  assumes "std_options E"
  shows "\<exists>r. tcp_dooptions E th cp tp to = Some r"
proof (induction cp arbitrary: tp to rule: length_induct)
  case (1 cp)
  show ?case
  proof (cases "cp = [] \<or> option_length E cp = Some None")
    case True
    then show ?thesis by (auto simp: tcp_dooptions.simps [of E th cp])
  next
    case False
    then obtain opt n where n: "option_length E cp = Some (Some (opt, n))"
      using option_length_safe [of cp E] by (metis not_None_eq surj_pair)
    obtain tp' to' where "do_option E th cp opt n tp to = Some (tp', to')"
      using do_option_safe [OF assms option_length_le [OF n]] by (metis surj_pair)
    moreover have "length (drop n cp) < length cp" using False option_length_pos [OF n] by auto
    ultimately show ?thesis using 1 False n by (simp add: tcp_dooptions.simps [of E th cp])
  qed
qed

subsection \<open>The options that the probe sends\<close>

lemma dooptions_step:
  assumes "option_length E (xs @ ys) = Some (Some (opt, length xs))"
    "do_option E th (xs @ ys) opt (length xs) tp to = Some (tp', to')"
  shows "tcp_dooptions E th (xs @ ys) tp to = tcp_dooptions E th ys tp' to'"
proof -
  have "xs \<noteq> []" using option_length_pos [OF assms(1)] by auto
  then show ?thesis using assms by (subst tcp_dooptions.simps) simp
qed

lemma dooptions_eol:
  assumes "std_options E"
  shows "tcp_dooptions E th (replicate k kOptEol) tp to = Some (tp, to)"
  using assms by (cases k) (simp_all add: tcp_dooptions.simps option_length_def rd_def std_options_def kOpt_defs)

definition got_mss :: "Options \<Rightarrow> tcpopt \<Rightarrow> tcpopt" where
  "got_mss op to = (case o_mss op of None \<Rightarrow> to
     | Some m \<Rightarrow> to\<lparr>to_mss := m, to_flags := to_flags to OR TOF_MSS\<rparr>)"

definition got_sackp :: "Options \<Rightarrow> tcpopt \<Rightarrow> tcpopt" where
  "got_sackp op to = (if o_sack_permitted op then to\<lparr>to_flags := to_flags to OR TOF_SACK\<rparr> else to)"

definition got_wscale :: "'e opt_env_scheme \<Rightarrow> Options \<Rightarrow> tcpopt \<Rightarrow> tcpopt" where
  "got_wscale E op to = (case o_wscale op of None \<Rightarrow> to
     | Some w \<Rightarrow> to\<lparr>to_flags := to_flags to OR TOF_SCALE, to_requested_s_scale := min w (TCP_MAX_WINSHIFT E)\<rparr>)"

definition got_sack :: "Options \<Rightarrow> tcpopt \<Rightarrow> tcpopt" where
  "got_sack op to = (if o_sack_blocks op = [] then to
     else to\<lparr>to_nsacks := of_nat (length (o_sack_blocks op)), to_sacks := concat (map enc_block (o_sack_blocks op))\<rparr>)"

lemma dooptions_mss:
  assumes std: "std_options E" and syn: "has_flag (th_flags th) TH_SYN"
  shows "tcp_dooptions E th (enc_mss op @ ys) tp to = tcp_dooptions E th ys tp (got_mss op to)"
proof (cases "o_mss op")
  case (Some m)
  have l: "option_length E ((kOptMss # 4 # put16 m) @ ys) = Some (Some (kOptMss, length (kOptMss # 4 # put16 m)))"
    using std by (simp add: option_length_def rd_def std_options_def kOpt_defs)
  have d: "do_option E th ((kOptMss # 4 # put16 m) @ ys) kOptMss
      (length (kOptMss # 4 # put16 m)) tp to = Some (tp, got_mss op to)"
    using std syn Some by (simp add: do_option_def opt_maxseg_def std_options_def kOpt_defs opt_read_simps
        put16_def got_mss_def)
  show ?thesis using dooptions_step [OF l d] Some by (simp add: enc_mss_def)
qed (simp add: enc_mss_def got_mss_def)

lemma dooptions_sackp:
  assumes std: "std_options E" and syn: "has_flag (th_flags th) TH_SYN"
  shows "tcp_dooptions E th (enc_sackp op @ ys) tp to = tcp_dooptions E th ys tp (got_sackp op to)"
proof (cases "o_sack_permitted op")
  case True
  have l: "option_length E ([kOptSackPermitted, 2] @ ys) = Some (Some (kOptSackPermitted, length [kOptSackPermitted, 2 :: u8]))"
    using std by (simp add: option_length_def rd_def std_options_def kOpt_defs)
  have d: "do_option E th ([kOptSackPermitted, 2] @ ys) kOptSackPermitted
      (length [kOptSackPermitted, 2 :: u8]) tp to = Some (tp, got_sackp op to)"
    using std syn True by (simp add: do_option_def std_options_def kOpt_defs got_sackp_def)
  show ?thesis using dooptions_step [OF l d] True by (simp add: enc_sackp_def)
qed (simp add: enc_sackp_def got_sackp_def)

lemma dooptions_wscale:
  assumes std: "std_options E" and syn: "has_flag (th_flags th) TH_SYN"
  shows "tcp_dooptions E th (enc_wscale op @ ys) tp to = tcp_dooptions E th ys tp (got_wscale E op to)"
proof (cases "o_wscale op")
  case (Some w)
  have l: "option_length E ([kOptWscale, 3, w] @ ys) = Some (Some (kOptWscale, length [kOptWscale, 3, w]))"
    using std by (simp add: option_length_def rd_def std_options_def kOpt_defs)
  have d: "do_option E th ([kOptWscale, 3, w] @ ys) kOptWscale
      (length [kOptWscale, 3, w]) tp to = Some (tp, got_wscale E op to)"
    using std syn Some by (simp add: do_option_def opt_window_def std_options_def kOpt_defs opt_read_simps
        got_wscale_def)
  show ?thesis using dooptions_step [OF l d] Some by (simp add: enc_wscale_def)
qed (simp add: enc_wscale_def got_wscale_def)

lemma dooptions_nop:
  assumes std: "std_options E"
  shows "tcp_dooptions E th (kOptNop # ys) tp to = tcp_dooptions E th ys tp to"
  using dooptions_step [of E "[kOptNop]" ys kOptNop th tp to tp to] std
  by (simp add: option_length_def rd_def do_option_def std_options_def kOpt_defs)

lemma dooptions_sack:
  assumes std: "std_options E" and "length (o_sack_blocks op) \<le> 4"
  shows "tcp_dooptions E th (enc_sack op @ ys) tp to = tcp_dooptions E th ys tp (got_sack op to)"
proof (cases "o_sack_blocks op = []")
  case False
  let ?n = "length (o_sack_blocks op)"
  let ?o = "kOptSack # of_nat (2 + 8 * ?n) # concat (map enc_block (o_sack_blocks op))"
  have u: "unat (of_nat (2 + 8 * ?n) :: u8) = 2 + 8 * ?n" using assms(2) by (intro unat_of_nat_small) simp
  have lo: "length ?o = 2 + 8 * ?n" by simp
  have n: "0 < ?n" using False by simp
  have l: "option_length E (?o @ ys) = Some (Some (kOptSack, length ?o))"
    using std u by (simp add: option_length_def rd_def std_options_def kOpt_defs word_less_nat_alt)
  have d: "do_option E th (?o @ ys) kOptSack (length ?o) tp to = Some (tp, got_sack op to)"
    unfolding lo
    using std n by (simp add: do_option_def opt_sack_def std_options_def kOpt_defs slice_def got_sack_def)
  show ?thesis using dooptions_step [OF l d] False by (simp add: enc_sack_def dooptions_nop [OF std])
qed (simp add: enc_sack_def got_sack_def)

lemma dooptions_encode:
  assumes std: "std_options E" and syn: "has_flag (th_flags th) TH_SYN"
    and "length (o_sack_blocks op) \<le> 4"
  shows "tcp_dooptions E th (encode op) tp to =
    Some (tp, got_sack op (got_wscale E op (got_sackp op (got_mss op to))))"
  unfolding encode_groups pad_eol_eq
  by (simp only: append_assoc dooptions_mss [OF std syn] dooptions_sackp [OF std syn]
      dooptions_wscale [OF std syn] dooptions_sack [OF std assms(3)] dooptions_eol [OF std])

lemma got_sack_offer:
  "has_flag (to_flags (got_sack op (got_wscale E op (got_sackp op (got_mss op tcpopt_zero))))) TOF_SACK \<longleftrightarrow> o_sack_permitted op"
  by (cases "o_mss op"; cases "o_wscale op")
    (simp_all add: got_mss_def got_sackp_def got_wscale_def got_sack_def tcpopt_zero_def TOF_defs)

lemma finalize_sack:
  assumes "\<And>tp m i. t_flagsext (tcp_mss E tp m i) = t_flagsext tp"
  shows "SACK_ENABLED (tcp_finalize_options E now tp to ifscope) \<longleftrightarrow>
     SACK_ENABLED tp \<and> has_flag (to_flags to) TOF_SACK"
  by (simp add: tcp_finalize_options_def Let_def SACK_ENABLED_def assms flag_simps)

subsection \<open>Properties\<close>

definition opt_env_zero :: opt_env where
  "opt_env_zero = rec_env.extend rec_env_zero
     (opt_env.fields 0 1 2 3 8 4 5 34 172 174 30 4 3 10 2 8 2 16 4 2 3 1 (\<lambda>tp _ _ to _. (tp, to))
        (\<lambda>tp m _. tp\<lparr>t_maxseg := ucast m\<rparr>))"

lemmas opt_env_zero_simps = opt_env_zero_def opt_env.defs rec_env_zero_simps

lemma std_options_zero: "std_options opt_env_zero"
  by (simp add: std_options_def opt_env_zero_simps)

text \<open>
  Property C30. Whatever bytes a segment carries in its option area, the parser terminates and
  never reads outside that area, neither for the kind and the length of an option nor for its
  value. The multipath options have a parser
  of their own, which is not among the sources.
\<close>

theorem dooptions_memory_safe:
  assumes "std_options E"
  shows "\<exists>tp' to'. tcp_dooptions E th cp tp to = Some (tp', to')"
  using dooptions_total [OF assms, of th cp tp to] by auto

theorem dooptions_memory_safe_witness:
  "\<exists>tp' to'. tcp_dooptions opt_env_zero tcphdr_zero [2, 4, 5] tcpcb_zero tcpopt_zero = Some (tp', to')"
  using dooptions_memory_safe [OF std_options_zero] by blast

text \<open>
  The kernel reads the options of a SYN exactly as the probe wrote them: the
  segment size, whether selective acknowledgement was offered, the window scale (capped at
  the largest one) and the number of SACK blocks arrive, options not sent are not seen, and
  the connection does not change.
\<close>

lemma probe_options_understood:
  assumes "std_options E" "has_flag (th_flags th) TH_SYN" "length (o_sack_blocks op) \<le> 4"
  shows "\<exists>to. tcp_dooptions E th (encode op) tp tcpopt_zero = Some (tp, to)
    \<and> (has_flag (to_flags to) TOF_MSS \<longleftrightarrow> o_mss op \<noteq> None) \<and> (\<forall>m. o_mss op = Some m \<longrightarrow> to_mss to = m)
    \<and> (has_flag (to_flags to) TOF_SACK \<longleftrightarrow> o_sack_permitted op)
    \<and> (has_flag (to_flags to) TOF_SCALE \<longleftrightarrow> o_wscale op \<noteq> None)
    \<and> (\<forall>w. o_wscale op = Some w \<longrightarrow> to_requested_s_scale to = min w (TCP_MAX_WINSHIFT E))
    \<and> to_nsacks to = of_nat (length (o_sack_blocks op)) \<and> \<not> has_flag (to_flags to) TOF_TS"
  unfolding dooptions_encode [OF assms]
  by (cases "o_mss op"; cases "o_wscale op"; cases "o_sack_permitted op"; cases "o_sack_blocks op")
    (simp_all add: got_mss_def got_sackp_def got_wscale_def got_sack_def tcpopt_zero_def TOF_defs)

text \<open>
  Property C29. The kernel uses selective acknowledgement on a connection after the probe's
  SYN exactly when it was willing to and the probe's SYN carried the two-byte offer. The
  route-dependent computation of the segment size is assumed not to touch the connection's
  extended flags.
\<close>

theorem sack_negotiated_iff_offered:
  assumes "std_options E" "has_flag (th_flags th) TH_SYN" "length (o_sack_blocks op) \<le> 4"
    "\<And>tp m i. t_flagsext (tcp_mss E tp m i) = t_flagsext tp"
  shows "\<exists>to. tcp_dooptions E th (encode op) tp tcpopt_zero = Some (tp, to)
    \<and> (SACK_ENABLED (tcp_finalize_options E now tp to ifscope) \<longleftrightarrow> SACK_ENABLED tp \<and> o_sack_permitted op)"
  using dooptions_encode [OF assms(1-3), of tp tcpopt_zero] finalize_sack [of E, OF assms(4)]
  by (simp add: got_sack_offer)

theorem sack_negotiated_iff_offered_witness:
  "\<exists>to. tcp_dooptions opt_env_zero (tcphdr_zero\<lparr>th_flags := TH_SYN\<rparr>)
      (encode (no_options\<lparr>o_mss := Some 1460\<rparr>)) (tcpcb_zero\<lparr>t_flagsext := TF_SACK_ENABLE\<rparr>) tcpopt_zero
        = Some (tcpcb_zero\<lparr>t_flagsext := TF_SACK_ENABLE\<rparr>, to)
     \<and> \<not> SACK_ENABLED (tcp_finalize_options opt_env_zero 0 (tcpcb_zero\<lparr>t_flagsext := TF_SACK_ENABLE\<rparr>) to 0)"
proof -
  have "\<And>tp m i. t_flagsext (tcp_mss opt_env_zero tp m i) = t_flagsext tp" by (simp add: opt_env_zero_simps)
  then show ?thesis
    using sack_negotiated_iff_offered [OF std_options_zero, of "tcphdr_zero\<lparr>th_flags := TH_SYN\<rparr>"
        "no_options\<lparr>o_mss := Some 1460\<rparr>" "tcpcb_zero\<lparr>t_flagsext := TF_SACK_ENABLE\<rparr>" 0 0]
    by (auto simp: no_options_def TH_defs)
qed

end
