(* ===== verification/AccEcn.thy ===== *)
theory AccEcn
  imports TcpOptions
begin

text \<open>
  Accurate ECN: the receive side of \<^verbatim>\<open>reference/xnu/tcp_input.c\<close> (counting codepoints,
  negotiating on a SYN, decoding the three-bit field and the 24-bit counters of the option)
  and the send side of \<^verbatim>\<open>tcp_output.c\<close> (the option writer, whether ECN is enabled on a
  connection). The counters keep their C widths. Codepoints, states and interface flags of
  headers outside the sources are fields of \<open>ecn_env\<close>; statistics and log calls are not
  represented. Proved: the negotiation's missing \<^verbatim>\<open>break\<close> has no effect, the field decoder
  keeps the sender's counter congruent to the receiver's, and what the option writer of one
  end writes, the option parser and the counter update of the other end take over exactly.
\<close>

record ecn_env = opt_env +
  IPTOS_ECN_NOTECT :: u8
  IPTOS_ECN_ECT1 :: u8
  IPTOS_ECN_ECT0 :: u8
  IPTOS_ECN_CE :: u8
  TH_ACE :: u16
  tcp_connection_server_no_ecn_requested :: u32
  tcp_connection_server_classic_ecn_requested :: u32
  tcp_connection_server_accurate_ecn_requested :: u32
  tcp_connection_server_accurate_ecn_feature_disabled :: u32
  tcp_connection_server_accurate_ecn_feature_enabled :: u32
  tcp_connection_client_accurate_ecn_feature_disabled :: u32
  tcp_connection_client_accurate_ecn_feature_enabled :: u32
  IFEF_ECN_ENABLE :: u32
  IFEF_ECN_DISABLE :: u32
  tcp_ecn_inbound :: int
  tcp_ecn_outbound :: int
  tcp_ecn_setup_percentage :: int
  so_head :: "socket \<Rightarrow> bool"
  tcp_heuristic_do_ecn :: "tcpcb \<Rightarrow> bool"
  TCP_MAXOLEN :: u8
  TSTMP_GEQ :: "u32 \<Rightarrow> u32 \<Rightarrow> bool"

definition TCP_ACE_MASK :: u32 where "TCP_ACE_MASK = 0x7"
definition TCP_ACE_DIV :: u32 where "TCP_ACE_DIV = 8"
definition TCP_ACO_MASK :: u64 where "TCP_ACO_MASK = 0xFFFFFF"
definition TCP_ACO_DIV :: u64 where "TCP_ACO_DIV = 0x1000000"

lemmas AccEcn_const_defs = TCP_ACE_MASK_def TCP_ACE_DIV_def TCP_ACO_MASK_def TCP_ACO_DIV_def

abbreviation l4s_enabled :: "'e ecn_env_scheme \<Rightarrow> tcpcb \<Rightarrow> bool" where
  "l4s_enabled E tp \<equiv> TCP_L4S_ENABLED (tcp_l4s_developer E) (tcp_l4s E) tp"

definition upd_aecn :: "(accecn \<Rightarrow> accecn) \<Rightarrow> tcpcb \<Rightarrow> tcpcb" where
  "upd_aecn f tp = tp\<lparr>t_aecn := f (t_aecn tp)\<rparr>"

definition set_ecn_flags :: "u32 \<Rightarrow> tcpcb \<Rightarrow> tcpcb" where
  "set_ecn_flags f tp = tp\<lparr>ecn_flags := ecn_flags tp OR f\<rparr>"

definition clear_ecn_flags :: "u32 \<Rightarrow> tcpcb \<Rightarrow> tcpcb" where
  "clear_ecn_flags f tp = tp\<lparr>ecn_flags := ecn_flags tp AND NOT f\<rparr>"

subsection \<open>Received codepoints\<close>

definition tcp_input_ip_ecn :: "'e ecn_env_scheme \<Rightarrow> tcpcb \<Rightarrow> u32 \<Rightarrow> u32 \<Rightarrow> u8 \<Rightarrow> tcpcb" where
  "tcp_input_ip_ecn E tp tlen segment_count ip_ecn =
     (if ip_ecn = IPTOS_ECN_ECT1 E then
        upd_aecn (\<lambda>a. a\<lparr>t_rcv_ect1_bytes := t_rcv_ect1_bytes a + ucast tlen\<rparr>) (set_ecn_flags TE_ACO_ECT1 tp)
      else if ip_ecn = IPTOS_ECN_ECT0 E then
        upd_aecn (\<lambda>a. a\<lparr>t_rcv_ect0_bytes := t_rcv_ect0_bytes a + ucast tlen\<rparr>) (set_ecn_flags TE_ACO_ECT0 tp)
      else if ip_ecn = IPTOS_ECN_CE E then
        (upd_aecn (\<lambda>a. a\<lparr>t_rcv_ce_packets := t_rcv_ce_packets a + segment_count,
             t_rcv_ce_bytes := t_rcv_ce_bytes a + ucast tlen\<rparr>) tp)\<lparr>t_ecn_recv_ce := t_ecn_recv_ce tp + 1\<rparr>
      else tp)"

subsection \<open>Negotiation on a SYN\<close>

definition note_syn_codepoint :: "'e ecn_env_scheme \<Rightarrow> u8 \<Rightarrow> tcpcb \<Rightarrow> tcpcb" where
  "note_syn_codepoint E ip_ecn tp =
     (if ip_ecn = IPTOS_ECN_NOTECT E then set_ecn_flags TE_ACE_SETUP_NON_ECT tp
      else if ip_ecn = IPTOS_ECN_ECT1 E then set_ecn_flags TE_ACE_SETUP_ECT1 tp
      else if ip_ecn = IPTOS_ECN_ECT0 E then set_ecn_flags TE_ACE_SETUP_ECT0 tp
      else if ip_ecn = IPTOS_ECN_CE E then set_ecn_flags TE_ACE_SETUP_CE tp
      else tp)"

definition accept_accecn :: "'e ecn_env_scheme \<Rightarrow> u8 \<Rightarrow> tcpcb \<Rightarrow> tcpcb" where
  "accept_accecn E ip_ecn tp =
     (let tp = note_syn_codepoint E ip_ecn tp;
          tp = set_ecn_flags TE_ACE_SETUPRECEIVED tp;
          tp = upd_aecn (\<lambda>a. a\<lparr>t_rcv_ect1_bytes := 1, t_rcv_ect0_bytes := 1, t_snd_ect1_bytes := 1,
                 t_snd_ect0_bytes := 1\<rparr>) tp
      in tp\<lparr>t_server_accecn_state := tcp_connection_server_accurate_ecn_requested E\<rparr>)"

text \<open>The \<^verbatim>\<open>default\<close> label, and the label \<^verbatim>\<open>TH_ACE\<close>, which falls through to it.\<close>

definition accecn_syn_default :: "'e ecn_env_scheme \<Rightarrow> u8 \<Rightarrow> tcpcb \<Rightarrow> tcpcb" where
  "accecn_syn_default E ip_ecn tp = (if l4s_enabled E tp then accept_accecn E ip_ecn tp else tp)"

definition accecn_syn_ace :: "'e ecn_env_scheme \<Rightarrow> u8 \<Rightarrow> tcpcb \<Rightarrow> tcpcb" where
  "accecn_syn_ace E ip_ecn tp =
     (if l4s_enabled E tp then accept_accecn E ip_ecn tp
      else set_ecn_flags (TE_SETUPRECEIVED OR TE_SENDIPECT) tp)"

definition tcp_input_process_accecn_syn :: "'e ecn_env_scheme \<Rightarrow> tcpcb \<Rightarrow> u16 \<Rightarrow> u8 \<Rightarrow> tcpcb" where
  "tcp_input_process_accecn_syn E tp ace_flags ip_ecn =
     (if ace_flags = 0 then tp\<lparr>t_server_accecn_state := tcp_connection_server_no_ecn_requested E\<rparr>
      else if ace_flags = ucast TH_CWR OR ucast TH_ECE then
        (set_ecn_flags (TE_SETUPRECEIVED OR TE_SENDIPECT) tp)
          \<lparr>t_server_accecn_state := tcp_connection_server_classic_ecn_requested E\<rparr>
      else if ace_flags = TH_ACE E then accecn_syn_default E ip_ecn (accecn_syn_ace E ip_ecn tp)
      else accecn_syn_default E ip_ecn tp)"

subsection \<open>The three-bit field of an acknowledgement\<close>

definition tcp_process_ace_field :: "tcpcb \<Rightarrow> u32 \<Rightarrow> u64 \<Rightarrow> u8 \<Rightarrow> u32" where
  "tcp_process_ace_field tp pkts_acked old_sceb ace =
     (let delta = (ucast ace + TCP_ACE_DIV - (t_snd_ce_packets (t_aecn tp) AND TCP_ACE_MASK)) AND TCP_ACE_MASK in
      if pkts_acked \<le> TCP_ACE_MASK then delta
      else
        (let d_ceb = t_snd_ce_bytes (t_aecn tp) - old_sceb;
             safe_delta = pkts_acked - ((pkts_acked - delta) AND TCP_ACE_MASK)
         in if d_ceb = 0 \<or> d_ceb < ucast (drop_bit 1 (safe_delta * t_maxseg tp)) then delta else safe_delta))"

subsection \<open>The counters of the option\<close>

text \<open>
  \<open>aco_delta v c\<close> is what a 24-bit counter \<open>v\<close> of the option adds to the sender's counter \<open>c\<close>;
  \<open>aco_read to i\<close> reads the \<open>i\<close>-th counter the option designates.
\<close>

definition aco_delta :: "u32 \<Rightarrow> u64 \<Rightarrow> u64" where
  "aco_delta v c = (ucast v + TCP_ACO_DIV - (c AND TCP_ACO_MASK)) AND TCP_ACO_MASK"

definition aco_read :: "'e ecn_env_scheme \<Rightarrow> tcpopt \<Rightarrow> nat \<Rightarrow> u32 option" where
  "aco_read E to i =
     (let off = i * TCPOLEN_ACCECN_COUNTER E in
      do { p0 \<leftarrow> rd (to_accecn to) off; p1 \<leftarrow> rd (to_accecn to) (off + 1); p2 \<leftarrow> rd (to_accecn to) (off + 2);
           Some (ntoh24 p0 p1 p2) })"

definition add_ect :: "bool \<Rightarrow> u32 \<Rightarrow> accecn \<Rightarrow> accecn" where
  "add_ect ect0 v a =
     (if ect0 then a\<lparr>t_snd_ect0_bytes := t_snd_ect0_bytes a + aco_delta v (t_snd_ect0_bytes a)\<rparr>
      else a\<lparr>t_snd_ect1_bytes := t_snd_ect1_bytes a + aco_delta v (t_snd_ect1_bytes a)\<rparr>)"

definition tcp_process_accecn_options :: "'e ecn_env_scheme \<Rightarrow> tcpcb \<Rightarrow> tcpopt \<Rightarrow> (u32 \<times> tcpcb) option" where
  "tcp_process_accecn_options E tp to =
     do {
       tp \<leftarrow> (if to_num_accecn to \<ge> 1
              then do { v \<leftarrow> aco_read E to 0; Some (upd_aecn (add_ect (to_accecn_order to = 0) v) tp) }
              else Some tp);
       (ce_bytes, tp) \<leftarrow> (if to_num_accecn to \<ge> 2
              then do { v \<leftarrow> aco_read E to 1;
                        let delta = aco_delta v (t_snd_ce_bytes (t_aecn tp));
                        Some (ucast delta, upd_aecn (\<lambda>a. a\<lparr>t_snd_ce_bytes := t_snd_ce_bytes a + delta\<rparr>) tp) }
              else Some (0, tp));
       tp \<leftarrow> (if to_num_accecn to \<ge> 3
              then do { v \<leftarrow> aco_read E to 2; Some (upd_aecn (add_ect (to_accecn_order to \<noteq> 0) v) tp) }
              else Some tp);
       Some (ce_bytes, tp)
     }"

definition note_ce_delta :: "u32 \<Rightarrow> tcpcb \<Rightarrow> tcpcb" where
  "note_ce_delta delta tp =
     (if delta > 0 then
        (let tp = set_ecn_flags TE_INRECOVERY tp;
             tp = tp\<lparr>total_ect_packets_marked := total_ect_packets_marked tp + delta\<rparr>
         in tp\<lparr>t_ecn_capable_packets_marked := ucast (t_snd_ce_packets (t_aecn tp) - 5)\<rparr>)
      else tp)"

definition tcp_process_accecn ::
  "'e ecn_env_scheme \<Rightarrow> cubic_params \<Rightarrow> u32 \<Rightarrow> tcpcb \<Rightarrow> tcpopt \<Rightarrow> tcphdr \<Rightarrow> u32 \<Rightarrow> u8 \<Rightarrow> tcpcb option" where
  "tcp_process_accecn E P now tp to th pkts_acked ace =
     (if accecn_processed (t_aecn tp) then Some tp
      else do {
        let old_sceb = t_snd_ce_bytes (t_aecn tp);
        (new_ce_bytes, tp) \<leftarrow> tcp_process_accecn_options E tp to;
        let delta = tcp_process_ace_field tp pkts_acked old_sceb ace;
        let tp = upd_aecn (\<lambda>a. a\<lparr>t_snd_ce_packets := t_snd_ce_packets a + delta, t_delta_ce_packets := delta\<rparr>) tp;
        let tp = (if has_flag (to_flags to) TOF_TS \<and> to_tsecr to \<noteq> 0 \<and> TSTMP_GEQ E (to_tsecr to) (t_last_ack_tsecr tp)
                  then tp\<lparr>t_last_ack_tsecr := to_tsecr to\<rparr> else tp);
        let tp = note_ce_delta delta tp;
        algo \<leftarrow> CC_ALGO E P now tp;
        tp \<leftarrow> run_hook (map_option (\<lambda>f tp. f tp th new_ce_bytes (total_ect_packets_marked tp)
                (total_ect_packets_acked tp)) (process_ecn algo)) tp;
        Some (upd_aecn (\<lambda>a. a\<lparr>accecn_processed := True\<rparr>) tp)
      })"

subsection \<open>Writing the option\<close>

text \<open>
  \<open>aco_head\<close> and \<open>aco_mid\<close> are the first two words that every non-empty form of the option
  consists of; \<open>tcp_add_accecn_option\<close> gives the bytes written and the new option length.
\<close>

definition aco_head :: "u8 \<Rightarrow> nat \<Rightarrow> u32 \<Rightarrow> u32" where
  "aco_head kind len b = push_bit 24 (ucast kind) OR push_bit 16 (of_nat len) OR (drop_bit 8 b AND 0xffff)"

definition aco_mid :: "u32 \<Rightarrow> u32 \<Rightarrow> u32" where
  "aco_mid b low = push_bit 24 (b AND 0xff) OR low"

definition aco_needed :: "tcpcb \<Rightarrow> u16 \<Rightarrow> bool" where
  "aco_needed tp flags \<longleftrightarrow> has_flag flags (ucast TH_SYN) \<or> has_flag (ecn_flags tp) TE_ACE_FINAL_ACK_3WHS
     \<or> snd_una tp = iss tp + 1 \<or> has_flag (ecn_flags tp) (TE_ACO_ECT1 OR TE_ACO_ECT0)"

definition aco_synack_again :: "tcpcb \<Rightarrow> u16 \<Rightarrow> bool" where
  "aco_synack_again tp flags \<longleftrightarrow>
     flags AND (ucast TH_SYN OR ucast TH_ACK) = ucast TH_SYN OR ucast TH_ACK \<and> t_rxtshift tp \<ge> 1"

definition aco_counter :: "u64 \<Rightarrow> u32" where
  "aco_counter c = ucast (c AND TCP_ACO_MASK)"

definition tcp_add_accecn_option :: "'e ecn_env_scheme \<Rightarrow> tcpcb \<Rightarrow> u16 \<Rightarrow> u8 \<Rightarrow> bytes \<times> u8" where
  "tcp_add_accecn_option E tp flags optlen =
     (let max_len = unat (TCP_MAXOLEN E - optlen);
          len = TCPOLEN_ACCECN_EMPTY E;
          cl = TCPOLEN_ACCECN_COUNTER E;
          nop = ucast (TCPOPT_NOP E) :: u32;
          nops = push_bit 16 nop OR push_bit 8 nop OR nop;
          e1b = aco_counter (t_rcv_ect1_bytes (t_aecn tp));
          e0b = aco_counter (t_rcv_ect0_bytes (t_aecn tp));
          ceb = aco_counter (t_rcv_ce_bytes (t_aecn tp));
          ect1 = has_flag (ecn_flags tp) TE_ACO_ECT1;
          kind = (if ect1 then TCPOPT_ACCECN1 E else TCPOPT_ACCECN0 E);
          fst_b = (if ect1 then e1b else e0b);
          lst_b = (if ect1 then e0b else e1b)
      in if max_len < len then ([], optlen)
         else if \<not> aco_needed tp flags then ([], optlen)
         else if aco_synack_again tp flags then ([], optlen)
         else if max_len < len + 1 * cl then
           (if has_flag flags (ucast TH_SYN)
            then (put32 (push_bit 24 (ucast (TCPOPT_ACCECN1 E)) OR push_bit 16 (of_nat len) OR push_bit 8 nop OR nop),
                  optlen + of_nat len + 2)
            else ([], optlen))
         else if max_len < len + 2 * cl then
           (put32 (aco_head kind (len + 1 * cl) fst_b) @ put32 (aco_mid fst_b nops), optlen + of_nat (len + 1 * cl) + 3)
         else if max_len < len + 3 * cl then
           (put32 (aco_head kind (len + 2 * cl) fst_b) @ put32 (aco_mid fst_b (ceb AND 0xffffff)),
            optlen + of_nat (len + 2 * cl))
         else
           (put32 (aco_head kind (len + 3 * cl) fst_b) @ put32 (aco_mid fst_b (ceb AND 0xffffff))
              @ put32 (push_bit 8 (lst_b AND 0xffffff) OR nop), optlen + of_nat (len + 3 * cl) + 1))"

subsection \<open>Whether a connection uses ECN\<close>

definition tcp_send_ecn_flags_on_syn :: "tcpcb \<Rightarrow> bool" where
  "tcp_send_ecn_flags_on_syn tp =
     (let send_on_first_retrans = (has_flag (ecn_flags tp) TE_ACE_SETUPSENT \<and> t_rxtshift tp \<le> 1)
      in \<not> has_flag (ecn_flags tp) (TE_SETUPSENT OR TE_ACE_SETUPSENT) \<or> send_on_first_retrans)"

text \<open>The part after the label \<^verbatim>\<open>check_heuristic\<close>.\<close>

definition ecn_check_heuristic :: "'e ecn_env_scheme \<Rightarrow> tcpcb \<Rightarrow> tcpcb" where
  "ecn_check_heuristic E tp =
     (let tp = (if l4s_enabled E tp then
           (let tp = set_ecn_flags TE_ENABLE_ECN tp;
                tp = (if t_client_accecn_state tp = tcp_connection_client_accurate_ecn_feature_disabled E
                      then tp\<lparr>t_client_accecn_state := tcp_connection_client_accurate_ecn_feature_enabled E\<rparr> else tp)
            in if t_server_accecn_state tp = tcp_connection_server_accurate_ecn_feature_disabled E
               then tp\<lparr>t_server_accecn_state := tcp_connection_server_accurate_ecn_feature_enabled E\<rparr> else tp)
         else tp);
          tp = (if \<not> tcp_heuristic_do_ecn E tp \<and> \<not> l4s_enabled E tp then clear_ecn_flags TE_ENABLE_ECN tp else tp)
      in if ecn_flags tp AND (TE_ECN_MODE_ENABLE OR TE_ECN_MODE_DISABLE OR TE_ENABLE_ECN) = TE_ENABLE_ECN then
           (if iss tp mod 100 \<ge> word_of_int (tcp_ecn_setup_percentage E) \<and> \<not> l4s_enabled E tp
            then clear_ecn_flags TE_ENABLE_ECN tp else tp)
         else tp)"

definition tcp_set_ecn :: "'e ecn_env_scheme \<Rightarrow> tcpcb \<Rightarrow> ifnet option \<Rightarrow> tcpcb" where
  "tcp_set_ecn E tp ifp =
     (if has_flag (ecn_flags tp) TE_ECN_MODE_ENABLE then ecn_check_heuristic E (set_ecn_flags TE_ENABLE_ECN tp)
      else if has_flag (ecn_flags tp) TE_ECN_MODE_DISABLE then clear_ecn_flags TE_ENABLE_ECN tp
      else if case ifp of Some i \<Rightarrow> has_flag (if_eflags i) (IFEF_ECN_ENABLE E) | None \<Rightarrow> False
        then ecn_check_heuristic E (set_ecn_flags TE_ENABLE_ECN tp)
      else if case ifp of Some i \<Rightarrow> has_flag (if_eflags i) (IFEF_ECN_DISABLE E) | None \<Rightarrow> False
        then clear_ecn_flags TE_ENABLE_ECN tp
      else
        (let inbound = so_head E (inp_socket (t_inpcb tp)) in
         if inbound \<and> tcp_ecn_inbound E = 1 \<or> \<not> inbound \<and> tcp_ecn_outbound E = 1
         then ecn_check_heuristic E (set_ecn_flags TE_ENABLE_ECN tp)
         else clear_ecn_flags TE_ENABLE_ECN tp))"

lemma u8_high: "\<not> bit (w :: u8) (8 + n)" "\<not> bit w (16 + n)" "\<not> bit w (24 + n)"
  using bit_imp_le_length [of w] by fastforce+

lemma put32_aco_head:
  "put32 (push_bit 24 (ucast kind) OR push_bit 16 (ucast l) OR (drop_bit 8 b AND 0xffff))
     = [kind :: u8, l :: u8, ucast (drop_bit 16 b), ucast (drop_bit 8 b)]"
proof -
  have m: "(0xffff :: u32) = mask 16" by (simp add: mask_eq_exp_minus_1)
  show ?thesis unfolding put32_def m
    by (auto intro!: bit_word_eqI simp: bit_simps u8_high)
qed

lemma put32_aco_mid:
  "put32 (push_bit 24 (b AND 0xff) OR (c AND 0xffffff))
     = [ucast b, ucast (drop_bit 16 c), ucast (drop_bit 8 c), ucast c]"
proof -
  have m: "(0xffffff :: u32) = mask 24" "(0xff :: u32) = mask 8" by (simp_all add: mask_eq_exp_minus_1)
  show ?thesis unfolding put32_def m
    by (auto intro!: bit_word_eqI simp: bit_simps u8_high)
qed

lemma put32_aco_tail:
  "put32 (push_bit 8 (b AND 0xffffff) OR ucast n)
     = [ucast (drop_bit 16 b), ucast (drop_bit 8 b), ucast b, n :: u8]"
proof -
  have m: "(0xffffff :: u32) = mask 24" by (simp add: mask_eq_exp_minus_1)
  show ?thesis unfolding put32_def m
    by (auto intro!: bit_word_eqI simp: bit_simps u8_high)
qed

lemma ntoh24_bytes: "ntoh24 (ucast (drop_bit 16 b)) (ucast (drop_bit 8 b)) (ucast b) = b AND 0xffffff"
proof (rule bit_word_eqI)
  fix n :: nat
  have m: "(0xffffff :: u32) = mask 24" by (simp add: mask_eq_exp_minus_1)
  consider "n < 8" | "8 \<le> n \<and> n < 16" | "16 \<le> n \<and> n < 24" | "24 \<le> n" by fastforce
  then show "bit (ntoh24 (ucast (drop_bit 16 b)) (ucast (drop_bit 8 b)) (ucast b)) n = bit (b AND 0xffffff) n"
    unfolding ntoh24_def m by cases (auto simp: bit_simps)
qed

lemma aco_counter_low: "aco_counter c AND 0xffffff = aco_counter c"
proof -
  have m: "(0xffffff :: u32) = mask 24" "(0xffffff :: u64) = mask 24" by (simp_all add: mask_eq_exp_minus_1)
  show ?thesis unfolding aco_counter_def TCP_ACO_MASK_def m
    by (rule bit_word_eqI) (auto simp: bit_simps)
qed
text \<open>The difference of two counters that are known modulo \<open>2 ^ n\<close> only.\<close>

lemma take_bit_shifted_diff:
  assumes "n \<le> LENGTH('a)"
  shows "take_bit n (take_bit n r + 2 ^ n - take_bit n c) = take_bit n (r - c :: 'a::len word)"
proof -
  have i: "take_bit n (take_bit n r + 2 ^ n - take_bit n c) = take_bit n (r - c)"
    for n :: nat and r c :: int
  proof -
    have "take_bit n (take_bit n r + 2 ^ n - take_bit n c) = (r mod 2 ^ n - c mod 2 ^ n + 2 ^ n) mod 2 ^ n"
      by (simp only: take_bit_eq_mod diff_add_eq)
    also have "\<dots> = (r - c) mod 2 ^ n" by (simp only: mod_add_self2 mod_diff_eq)
    finally show ?thesis by (simp add: take_bit_eq_mod)
  qed
  have m: "min LENGTH('a) n = n" using assms by simp
  show ?thesis using m by transfer (simp only: m i)
qed

lemma take_bit_word_congs:
  assumes "n \<le> LENGTH('a)"
  shows "take_bit n (a + take_bit n b) = take_bit n (a + b :: 'a::len word)"
    "take_bit n (a - take_bit n b) = take_bit n (a - b :: 'a word)"
proof -
  have i: "take_bit n (a + take_bit n b) = take_bit n (a + b)" "take_bit n (a - take_bit n b) = take_bit n (a - b)"
    for n :: nat and a b :: int by (simp_all add: take_bit_eq_mod mod_simps)
  have m: "min LENGTH('a) n = n" using assms by simp
  show "take_bit n (a + take_bit n b) = take_bit n (a + b :: 'a word)" using m by transfer (simp only: m i)
  show "take_bit n (a - take_bit n b) = take_bit n (a - b :: 'a word)" using m by transfer (simp only: m i)
qed

lemma take_bit_small: "w < 2 ^ n \<Longrightarrow> take_bit n (w :: 'a::len word) = w"
  unfolding take_bit_eq_mod by (rule mod_word_less)

lemma aco_resync:
  assumes "r - c < 2 ^ 24"
  shows "c + aco_delta (aco_counter r) c = r"
proof -
  have m: "(0xffffff :: u64) = mask 24" by (simp add: mask_eq_exp_minus_1)
  have u: "ucast (aco_counter r) = take_bit 24 r"
    unfolding aco_counter_def TCP_ACO_MASK_def m by (rule bit_word_eqI) (auto simp: bit_simps)
  have "aco_delta (aco_counter r) c = take_bit 24 (take_bit 24 r + 2 ^ 24 - take_bit 24 c)"
    unfolding aco_delta_def u TCP_ACO_MASK_def TCP_ACO_DIV_def m
    by (simp add: take_bit_eq_mask)
  also have "\<dots> = take_bit 24 (r - c)" by (rule take_bit_shifted_diff) simp
  also have "\<dots> = r - c"
    using assms by (rule take_bit_small)
  finally show ?thesis by simp
qed

subsection \<open>The three-bit field\<close>

lemma ace_delta:
  assumes "ace = ucast (r AND TCP_ACE_MASK)"
  shows "(ucast (ace :: u8) + TCP_ACE_DIV - (c AND TCP_ACE_MASK)) AND TCP_ACE_MASK = take_bit 3 (r - c :: u32)"
proof -
  have m: "(7 :: u32) = mask 3" by (simp add: mask_eq_exp_minus_1)
  have "ucast ace = take_bit 3 r"
    unfolding assms TCP_ACE_MASK_def m by (rule bit_word_eqI) (auto simp: bit_simps)
  then show ?thesis
    using take_bit_shifted_diff [of 3 r c] by (simp add: AccEcn_const_defs m take_bit_eq_mask)
qed

lemma ace_field_cases:
  assumes "ace = ucast (r AND TCP_ACE_MASK)" "d = r - t_snd_ce_packets (t_aecn tp)"
  shows "tcp_process_ace_field tp pkts old ace = take_bit 3 d
    \<or> pkts > 7 \<and> tcp_process_ace_field tp pkts old ace = pkts - take_bit 3 (pkts - d)"
proof -
  have m: "x AND 7 = take_bit 3 x" for x :: u32 by (simp add: take_bit_eq_mask mask_eq_exp_minus_1)
  have "take_bit 3 (pkts - take_bit 3 d) = take_bit 3 (pkts - d)" by (simp add: take_bit_word_congs)
  then show ?thesis
    using ace_delta [OF assms(1), of "t_snd_ce_packets (t_aecn tp)"] assms(2)
    by (auto simp: tcp_process_ace_field_def Let_def TCP_ACE_MASK_def m not_le)
qed

lemma ace_field_congruent:
  assumes "ace = ucast (r AND TCP_ACE_MASK)"
  shows "take_bit 3 (t_snd_ce_packets (t_aecn tp) + tcp_process_ace_field tp pkts old ace) = take_bit 3 r"
proof -
  define c where "c = t_snd_ce_packets (t_aecn tp)"
  have a: "take_bit 3 (c + take_bit 3 (r - c)) = take_bit 3 r" by (simp add: take_bit_word_congs)
  have "take_bit 3 (c + (pkts - take_bit 3 (pkts - (r - c)))) = take_bit 3 ((c + pkts) - take_bit 3 (pkts - (r - c)))"
    by (simp add: algebra_simps)
  also have "\<dots> = take_bit 3 r" by (simp add: take_bit_word_congs)
  finally show ?thesis
    using a ace_field_cases [OF assms refl, of tp pkts old] by (auto simp: c_def)
qed

lemma unat_take_bit: "unat (take_bit n (w :: 'a::len word)) = unat w mod 2 ^ n"
  by (simp only: unsigned_take_bit_eq take_bit_eq_mod [of n "unat w"])

lemma ace_field_bounds:
  assumes "ace = ucast (r AND TCP_ACE_MASK)" "d = r - t_snd_ce_packets (t_aecn tp)" "d \<le> pkts"
  shows "tcp_process_ace_field tp pkts old ace \<le> pkts"
    and "pkts \<le> 7 \<Longrightarrow> tcp_process_ace_field tp pkts old ace = d"
proof -
  have t: "take_bit 3 d \<le> d" by (simp add: word_le_nat_alt unat_take_bit)
  have "take_bit 3 (pkts - d) \<le> pkts - d" by (simp add: word_le_nat_alt unat_take_bit)
  moreover have "pkts - d \<le> pkts" using assms(3) by (simp add: word_sub_le_iff)
  ultimately have "pkts - take_bit 3 (pkts - d) \<le> pkts" by (simp add: word_sub_le)
  then show "tcp_process_ace_field tp pkts old ace \<le> pkts"
    using ace_field_cases [OF assms(1,2), of pkts old] t assms(3) by auto
  assume p: "pkts \<le> 7"
  then have "d < 8" using assms(3) by (simp add: word_le_nat_alt word_less_nat_alt)
  then have "take_bit 3 d = d" by (intro take_bit_small) simp
  then show "tcp_process_ace_field tp pkts old ace = d"
    using ace_field_cases [OF assms(1,2), of pkts old] p by auto
qed

subsection \<open>The negotiation's fall-through\<close>

lemma choice_cases:
  "(\<exists>f. \<forall>x. (if a then g A x else if b then g B x else if c then g C x else if d then g D x else x) = g f x)
     \<or> (\<forall>x. (if a then g A x else if b then g B x else if c then g C x else if d then g D x else x) = x)"
  by (cases a; cases b; cases c; cases d) auto

lemma note_syn_codepoint_cases:
  "(\<exists>f. \<forall>tp. note_syn_codepoint E ip_ecn tp = set_ecn_flags f tp) \<or> (\<forall>tp. note_syn_codepoint E ip_ecn tp = tp)"
  unfolding note_syn_codepoint_def by (rule choice_cases)

lemma accept_accecn_twice: "accept_accecn E ip_ecn (accept_accecn E ip_ecn tp) = accept_accecn E ip_ecn tp"
proof -
  have o: "(((x OR a) OR b) OR a) OR b = (x OR a) OR b" "(x OR a) OR a = x OR a" for x a b :: u32
    by (rule bit_word_eqI, auto simp: bit_simps)+
  from note_syn_codepoint_cases [of E ip_ecn] show ?thesis
    by (elim disjE exE) (simp_all add: accept_accecn_def Let_def set_ecn_flags_def upd_aecn_def o)
qed

lemma l4s_set_ecn_flags: "l4s_enabled E (set_ecn_flags f tp) = l4s_enabled E tp"
  by (simp add: set_ecn_flags_def TCP_L4S_ENABLED_def TCP_L4S_DISABLED_def)

lemma l4s_accept: "l4s_enabled E (accept_accecn E ip_ecn tp) = l4s_enabled E tp"
  using note_syn_codepoint_cases [of E ip_ecn]
  by (elim disjE exE) (simp_all add: accept_accecn_def Let_def set_ecn_flags_def upd_aecn_def
      TCP_L4S_ENABLED_def TCP_L4S_DISABLED_def)

lemma accecn_syn_fall_through: "accecn_syn_default E ip_ecn (accecn_syn_ace E ip_ecn tp) = accecn_syn_ace E ip_ecn tp"
  by (simp add: accecn_syn_default_def accecn_syn_ace_def l4s_accept accept_accecn_twice l4s_set_ecn_flags)

subsection \<open>The option from one end to the other\<close>

definition aco_bytes :: "u32 \<Rightarrow> bytes" where
  "aco_bytes b = [ucast (drop_bit 16 b), ucast (drop_bit 8 b), ucast b]"

lemma length_aco_bytes [simp]: "length (aco_bytes b) = 3"
  by (simp add: aco_bytes_def)

text \<open>The counters in the order in which the option carries them, and how many fit.\<close>

definition aco_list :: "tcpcb \<Rightarrow> u32 list" where
  "aco_list tp =
     (let e1b = aco_counter (t_rcv_ect1_bytes (t_aecn tp)); e0b = aco_counter (t_rcv_ect0_bytes (t_aecn tp));
          ceb = aco_counter (t_rcv_ce_bytes (t_aecn tp))
      in if has_flag (ecn_flags tp) TE_ACO_ECT1 then [e1b, ceb, e0b] else [e0b, ceb, e1b])"

definition aco_room :: "'e ecn_env_scheme \<Rightarrow> u8 \<Rightarrow> nat" where
  "aco_room E optlen = min 3 ((unat (TCP_MAXOLEN E - optlen) - 2) div 3)"

lemma aco_words:
  "put32 (aco_head kind 5 b) = [kind, 5, ucast (drop_bit 16 b), ucast (drop_bit 8 b)]"
  "put32 (aco_head kind 8 b) = [kind, 8, ucast (drop_bit 16 b), ucast (drop_bit 8 b)]"
  "put32 (aco_head kind 11 b) = [kind, 11, ucast (drop_bit 16 b), ucast (drop_bit 8 b)]"
  "put32 (aco_mid b (c AND 0xffffff)) = [ucast b, ucast (drop_bit 16 c), ucast (drop_bit 8 c), ucast c]"
  using put32_aco_head [of kind 5 b] put32_aco_head [of kind 8 b] put32_aco_head [of kind 11 b] put32_aco_mid [of b c]
  by (simp_all add: aco_head_def aco_mid_def)

lemma aco_mid_nops: "put32 (aco_mid b 0x010101) = [ucast b, 1, 1, 1]"
  using put32_aco_mid [of b "0x010101"] by (simp add: aco_mid_def)

lemma aco_written:
  assumes "std_options E" "aco_needed tp flags" "\<not> aco_synack_again tp flags" "n = aco_room E optlen" "0 < n"
  shows "fst (tcp_add_accecn_option E tp flags optlen) =
    (if has_flag (ecn_flags tp) TE_ACO_ECT1 then 174 else 172) # of_nat (2 + 3 * n)
      # concat (map aco_bytes (take n (aco_list tp))) @ replicate (if n = 1 then 3 else if n = 2 then 0 else 1) 1"
proof -
  define m where "m = unat (TCP_MAXOLEN E - optlen)"
  have std: "TCPOLEN_ACCECN_EMPTY E = 2" "TCPOLEN_ACCECN_COUNTER E = 3" "TCPOPT_NOP E = 1" "TCPOPT_ACCECN0 E = 172"
      "TCPOPT_ACCECN1 E = 174" using assms(1) by (simp_all add: std_options_def)
  have three: "replicate 3 (1 :: u8) = [1, 1, 1]" by (simp add: numeral_3_eq_3)
  have n: "n = min 3 ((m - 2) div 3)" using assms(4) by (simp add: aco_room_def m_def)
  have "5 \<le> m" using n assms(5) by (simp add: min_def split: if_split_asm)
  then have "n = 1 \<and> m < 8 \<or> n = 2 \<and> 8 \<le> m \<and> m < 11 \<or> n = 3 \<and> 11 \<le> m"
    unfolding n min_def by presburger
  then consider "n = 1" "5 \<le> m" "m < 8" | "n = 2" "8 \<le> m" "m < 11" | "n = 3" "11 \<le> m"
    using \<open>5 \<le> m\<close> by blast
  then show ?thesis
  proof cases
    case 1
    then show ?thesis using assms(2,3) std
      by (simp add: tcp_add_accecn_option_def Let_def m_def [symmetric] aco_words aco_mid_nops aco_list_def aco_bytes_def
          three)
  next
    case 2
    then show ?thesis using assms(2,3) std
      by (simp add: tcp_add_accecn_option_def Let_def m_def [symmetric] aco_words aco_list_def aco_bytes_def)
  next
    case 3
    then show ?thesis using assms(2,3) std put32_aco_tail [of _ 1]
      by (simp add: tcp_add_accecn_option_def Let_def m_def [symmetric] aco_words aco_list_def aco_bytes_def)
  qed
qed

lemma dooptions_accecn:
  assumes std: "std_options E" and n: "0 < n" "n \<le> 3" "length body = 3 * n" and k: "kind = 172 \<or> kind = 174"
  shows "tcp_dooptions E th (kind # of_nat (2 + 3 * n) # body @ ys) tp to =
    tcp_dooptions E th ys tp (to\<lparr>to_num_accecn := of_nat n, to_accecn := body,
      to_accecn_order := (if kind = 172 then 0 else 1)\<rparr>)"
proof -
  let ?o = "kind # of_nat (2 + 3 * n) # body"
  have u: "unat (of_nat (2 + 3 * n) :: u8) = 2 + 3 * n" using n(2) by (intro unat_of_nat_small) simp
  have l: "option_length E (?o @ ys) = Some (Some (kind, length ?o))"
    using std u k n(3) by (auto simp: option_length_def rd_def std_options_def word_less_nat_alt)
  have d: "do_option E th (?o @ ys) kind (length ?o) tp to =
      Some (tp, to\<lparr>to_num_accecn := of_nat n, to_accecn := body, to_accecn_order := (if kind = 172 then 0 else 1)\<rparr>)"
    using k std n by (elim disjE) (simp_all add: do_option_def opt_accecn_def std_options_def slice_def)
  show ?thesis using dooptions_step [OF l d] by simp
qed

lemma dooptions_nops:
  assumes "std_options E"
  shows "tcp_dooptions E th (replicate k 1) tp to = Some (tp, to)"
proof (induction k)
  case (Suc k)
  then show ?case using dooptions_nop [OF assms, of th "replicate k 1" tp to] by (simp add: kOpt_defs)
qed (simp add: tcp_dooptions.simps)

lemma aco_read_nth:
  assumes "TCPOLEN_ACCECN_COUNTER E = 3" "to_accecn to = concat (map aco_bytes bs)" "i < length bs"
  shows "aco_read E to i = Some (bs ! i AND 0xffffff)"
proof -
  have l: "length (concat (map aco_bytes bs)) = 3 * length bs" for bs by (induction bs) simp_all
  have n: "concat (map aco_bytes bs) ! (3 * i + j) = aco_bytes (bs ! i) ! j" if "i < length bs" "j < 3" for i j
    using that
  proof (induction bs arbitrary: i)
    case (Cons b bs)
    then show ?case by (cases i) (simp_all add: nth_append)
  qed simp
  have "j < 3 \<Longrightarrow> rd (to_accecn to) (3 * i + j) = Some (aco_bytes (bs ! i) ! j)" for j
    using n [OF assms(3)] assms(2,3) l [of bs] by (simp add: rd_def)
  from this [of 0] this [of 1] this [of 2] show ?thesis
    using assms(1) ntoh24_bytes [of "bs ! i"] by (simp add: aco_read_def Let_def aco_bytes_def mult.commute)
qed

lemma aco_list_nth_low: "i < 3 \<Longrightarrow> aco_list tp ! i AND 0xffffff = aco_list tp ! i"
  using aco_counter_low by (auto simp: aco_list_def Let_def numeral_3_eq_3 less_Suc_eq)

lemma aco_list_length [simp]: "length (aco_list tp) = 3"
  by (simp add: aco_list_def Let_def)

text \<open>The option as parsed: \<open>n\<close> counters, the order given by its kind.\<close>

definition aco_parsed :: "tcpcb \<Rightarrow> nat \<Rightarrow> tcpopt" where
  "aco_parsed tp n = tcpopt_zero\<lparr>to_num_accecn := of_nat n, to_accecn := concat (map aco_bytes (take n (aco_list tp))),
     to_accecn_order := (if has_flag (ecn_flags tp) TE_ACO_ECT1 then 1 else 0)\<rparr>"

lemma aco_parsed_read:
  assumes "std_options E" "i < n" "n \<le> 3"
  shows "aco_read E (aco_parsed tp n) i = Some (aco_list tp ! i)"
proof -
  have "i < 3" using assms(2,3) by simp
  then show ?thesis
    using aco_read_nth [of E "aco_parsed tp n" "take n (aco_list tp)" i] assms aco_list_nth_low [of i tp]
    by (simp add: aco_parsed_def std_options_def)
qed

lemma dooptions_written:
  assumes "std_options E" "aco_needed tp flags" "\<not> aco_synack_again tp flags" "n = aco_room E optlen" "0 < n"
  shows "tcp_dooptions E th (fst (tcp_add_accecn_option E tp flags optlen)) peer tcpopt_zero = Some (peer, aco_parsed tp n)"
proof -
  have n: "n \<le> 3" using assms(4) by (simp add: aco_room_def)
  let ?body = "concat (map aco_bytes (take n (aco_list tp)))"
  have l: "length ?body = 3 * n"
  proof -
    have "length (concat (map aco_bytes bs)) = 3 * length bs" for bs by (induction bs) simp_all
    then show ?thesis using n by simp
  qed
  show ?thesis
    unfolding aco_written [OF assms]
    by (subst dooptions_accecn [OF assms(1,5) n l]) (simp_all add: dooptions_nops [OF assms(1)] aco_parsed_def)
qed

lemma process_parsed:
  assumes std: "std_options E" and "0 < n" "n \<le> 3"
    and step: "t_rcv_ect1_bytes (t_aecn tp) - t_snd_ect1_bytes (t_aecn peer) < 2 ^ 24"
      "t_rcv_ect0_bytes (t_aecn tp) - t_snd_ect0_bytes (t_aecn peer) < 2 ^ 24"
      "t_rcv_ce_bytes (t_aecn tp) - t_snd_ce_bytes (t_aecn peer) < 2 ^ 24"
  defines "ect1 \<equiv> has_flag (ecn_flags tp) TE_ACO_ECT1"
  shows "\<exists>ce peer'. tcp_process_accecn_options E peer (aco_parsed tp n) = Some (ce, peer')
    \<and> t_snd_ect1_bytes (t_aecn peer') = (if ect1 \<or> n = 3 then t_rcv_ect1_bytes (t_aecn tp) else t_snd_ect1_bytes (t_aecn peer))
    \<and> t_snd_ect0_bytes (t_aecn peer') = (if \<not> ect1 \<or> n = 3 then t_rcv_ect0_bytes (t_aecn tp) else t_snd_ect0_bytes (t_aecn peer))
    \<and> t_snd_ce_bytes (t_aecn peer') = (if 2 \<le> n then t_rcv_ce_bytes (t_aecn tp) else t_snd_ce_bytes (t_aecn peer))
    \<and> ce = (if 2 \<le> n then ucast (t_rcv_ce_bytes (t_aecn tp) - t_snd_ce_bytes (t_aecn peer)) else 0)"
proof -
  note r = aco_parsed_read [OF std _ assms(3), of _ tp]
  note sync = step [THEN aco_resync]
  have ce: "aco_delta (aco_counter (t_rcv_ce_bytes (t_aecn tp))) (t_snd_ce_bytes (t_aecn peer))
      = t_rcv_ce_bytes (t_aecn tp) - t_snd_ce_bytes (t_aecn peer)"
    using sync(3) by (metis add_diff_cancel_left')
  have o: "to_num_accecn (aco_parsed tp n) = of_nat n"
      "to_accecn_order (aco_parsed tp n) = (if ect1 then 1 else 0)"
    by (simp_all add: aco_parsed_def ect1_def)
  have l: "aco_list tp ! 0 = (if ect1 then aco_counter (t_rcv_ect1_bytes (t_aecn tp)) else aco_counter (t_rcv_ect0_bytes (t_aecn tp)))"
      "aco_list tp ! 1 = aco_counter (t_rcv_ce_bytes (t_aecn tp))"
      "aco_list tp ! 2 = (if ect1 then aco_counter (t_rcv_ect0_bytes (t_aecn tp)) else aco_counter (t_rcv_ect1_bytes (t_aecn tp)))"
    by (simp_all add: aco_list_def Let_def ect1_def)
  have w: "\<not> (2 :: u8) \<le> 1" "\<not> (3 :: u8) \<le> 1" "\<not> (3 :: u8) \<le> 2" "(1 :: u8) \<le> 2" "(1 :: u8) \<le> 3"
    by (simp_all add: word_le_nat_alt)
  consider "n = 1" | "n = 2" | "n = 3" using assms(2,3) by linarith
  then show ?thesis
  proof cases
    case 1
    then show ?thesis using r [of 0] o l sync
      by (cases ect1) (simp_all add: tcp_process_accecn_options_def Let_def add_ect_def upd_aecn_def w)
  next
    case 2
    then show ?thesis using r [of 0] r [of 1] o l sync ce
      by (cases ect1) (simp_all add: tcp_process_accecn_options_def Let_def add_ect_def upd_aecn_def w)
  next
    case 3
    then show ?thesis using r [of 0] r [of 1] r [of 2] o l sync ce
      by (cases ect1) (simp_all add: tcp_process_accecn_options_def Let_def add_ect_def upd_aecn_def w)
  qed
qed

subsection \<open>Properties\<close>

definition ecn_env_zero :: ecn_env where
  "ecn_env_zero = opt_env.extend opt_env_zero
     (ecn_env.fields 0 1 2 3 0x1C0 1 2 3 4 5 6 7 0x1000 0x2000 0 0 100 (\<lambda>_. False) (\<lambda>_. True) 40 (\<lambda>a b. sint (a - b) \<ge> 0))"

lemmas ecn_env_zero_simps = ecn_env_zero_def ecn_env.defs opt_env_zero_simps

lemma std_options_ecn_zero: "std_options ecn_env_zero"
  by (simp add: std_options_def ecn_env_zero_simps)

text \<open>
  Decoding the three-bit field of an acknowledgement: if the other end has
  counted \<open>r\<close> marked packets in all and reports \<open>r\<close> modulo eight, the updated counter agrees
  with \<open>r\<close> modulo eight whatever else is true; when no more packets were marked than
  acknowledged, it never adds more than were acknowledged, and with at most seven packets
  acknowledged it is exactly \<open>r\<close>.
\<close>

lemma ace_field_decoded:
  assumes "ace = ucast (r AND TCP_ACE_MASK)" "c = t_snd_ce_packets (t_aecn tp)"
    and "x = tcp_process_ace_field tp pkts old_sceb ace"
  shows "(c + x) AND TCP_ACE_MASK = r AND TCP_ACE_MASK
    \<and> (r - c \<le> pkts \<longrightarrow> x \<le> pkts \<and> (pkts \<le> 7 \<longrightarrow> c + x = r))"
proof -
  have m: "w AND TCP_ACE_MASK = take_bit 3 w" for w
    by (simp add: TCP_ACE_MASK_def take_bit_eq_mask mask_eq_exp_minus_1)
  show ?thesis
    using ace_field_congruent [OF assms(1), of tp pkts old_sceb] ace_field_bounds [OF assms(1) refl, of tp pkts old_sceb]
    by (auto simp: assms(2,3) m)
qed

text \<open>
  The byte counters cross the wire: when the options have room for \<open>n > 0\<close>
  counters and one is due, what the option writer of one end writes is read by the other
  end's parser as \<open>n\<close> counters, and processing it sets the other end's copies of the
  reported counters to the exact 64-bit values, provided no counter has advanced by 16 MB
  since it was last reported; the number returned is the number of newly marked bytes.
\<close>

lemma accecn_counters_cross:
  assumes "std_options E" "aco_needed tp flags" "\<not> aco_synack_again tp flags" "n = aco_room E optlen" "0 < n"
    and "t_rcv_ect1_bytes (t_aecn tp) - t_snd_ect1_bytes (t_aecn peer) < 2 ^ 24"
    and "t_rcv_ect0_bytes (t_aecn tp) - t_snd_ect0_bytes (t_aecn peer) < 2 ^ 24"
    and "t_rcv_ce_bytes (t_aecn tp) - t_snd_ce_bytes (t_aecn peer) < 2 ^ 24"
    and "ect1 \<longleftrightarrow> has_flag (ecn_flags tp) TE_ACO_ECT1"
  shows "\<exists>to ce peer'. tcp_dooptions E th (fst (tcp_add_accecn_option E tp flags optlen)) peer tcpopt_zero = Some (peer, to)
    \<and> to_num_accecn to = of_nat n \<and> tcp_process_accecn_options E peer to = Some (ce, peer')
    \<and> t_snd_ect1_bytes (t_aecn peer') = (if ect1 \<or> n = 3 then t_rcv_ect1_bytes (t_aecn tp) else t_snd_ect1_bytes (t_aecn peer))
    \<and> t_snd_ect0_bytes (t_aecn peer') = (if \<not> ect1 \<or> n = 3 then t_rcv_ect0_bytes (t_aecn tp) else t_snd_ect0_bytes (t_aecn peer))
    \<and> t_snd_ce_bytes (t_aecn peer') = (if 2 \<le> n then t_rcv_ce_bytes (t_aecn tp) else t_snd_ce_bytes (t_aecn peer))
    \<and> ce = (if 2 \<le> n then ucast (t_rcv_ce_bytes (t_aecn tp) - t_snd_ce_bytes (t_aecn peer)) else 0)"
proof -
  have n: "n \<le> 3" using assms(4) by (simp add: aco_room_def)
  show ?thesis
    using dooptions_written [OF assms(1-5)] process_parsed [OF assms(1,5) n assms(6-8)] assms(9)
    by (auto simp: aco_parsed_def)
qed

text \<open>
  The option writer stays within the option area: started at an aligned offset
  of an area of forty bytes it writes at most what is left, announces exactly the number of
  bytes it wrote, and leaves the offset aligned. The form with a single counter, which would
  need up to three bytes more than it checks for, is never chosen at an aligned offset.
\<close>

lemma accecn_option_fits:
  assumes "std_options E" "TCP_MAXOLEN E = 40" "unat optlen \<le> 40" "4 dvd unat optlen"
    and "tcp_add_accecn_option E tp flags optlen = (out, optlen')"
  shows "unat optlen' = unat optlen + length out \<and> unat optlen' \<le> 40 \<and> 4 dvd unat optlen' \<and> length out \<in> {0, 4, 8, 12}"
proof -
  define m where "m = unat (TCP_MAXOLEN E - optlen)"
  have m: "m = 40 - unat optlen"
    using assms(2,3) by (simp add: m_def unat_sub word_le_nat_alt)
  have std: "TCPOLEN_ACCECN_EMPTY E = 2" "TCPOLEN_ACCECN_COUNTER E = 3" using assms(1) by (simp_all add: std_options_def)
  have a: "unat (optlen + k) = unat optlen + unat k \<and> unat (k + optlen) = unat optlen + unat k" if "unat k \<le> 12" for k
    using that assms(3) unat_plus_small [of optlen k] by (simp add: add.commute)
  have "4 dvd m" using assms(3,4) m by simp
  then consider "m = 0" | "m = 4" | "m = 8" | "12 \<le> m" by (fastforce simp: dvd_def)
  then show ?thesis
  proof cases
    case 1
    then show ?thesis using assms(3-5) std
      by (auto simp: tcp_add_accecn_option_def Let_def m_def [symmetric])
  next
    case 2
    then show ?thesis using assms(3-5) std m a [of 4]
      by (auto simp: tcp_add_accecn_option_def Let_def m_def [symmetric] split: if_split_asm)
  next
    case 3
    then show ?thesis using assms(3-5) std m a [of 8]
      by (auto simp: tcp_add_accecn_option_def Let_def m_def [symmetric] split: if_split_asm)
  next
    case 4
    then show ?thesis using assms(3-5) std m a [of 12]
      by (auto simp: tcp_add_accecn_option_def Let_def m_def [symmetric] split: if_split_asm)
  qed
qed

end
