(* ===== verification/DupAck.thy ===== *)
theory DupAck
  imports AccEcn
begin

text \<open>
  Duplicate acknowledgements, the part of \<^verbatim>\<open>tcp_input\<close> in \<^verbatim>\<open>reference/xnu/tcp_input.c\<close> that
  handles an acknowledgement at or below \<^verbatim>\<open>snd_una\<close> and the one that ends recovery: counting,
  the allowance of early retransmit, the four ways a duplicate is treated (no data
  outstanding, already in recovery, entering recovery, limited transmit), and the treatment
  of the first acknowledgement that moves. What the probe measures is here: how many
  duplicates make the kernel retransmit. \<^verbatim>\<open>tcp_output\<close>, the RACK and SACK functions and the
  macros of other headers are fields of \<open>dup_env\<close>.
\<close>

record dup_env = ecn_env +
  ALLOW_LIMITED_TRANSMIT :: "tcpcb \<Rightarrow> bool"
  OFFSET_FROM_START :: "tcpcb \<Rightarrow> u32 \<Rightarrow> u32"
  TSTMP_GT :: "u32 \<Rightarrow> u32 \<Rightarrow> bool"
  TCPS_HAVERCVDFIN :: "tcp_state \<Rightarrow> bool"
  tcp_rack_detect_loss_and_arm_timer :: "tcpcb \<Rightarrow> u32 \<Rightarrow> bool \<times> tcpcb"
  tcp_rack_update_reordering_win_persist :: "tcpcb \<Rightarrow> tcpcb"
  tcp_sack_partialack :: "tcpcb \<Rightarrow> tcphdr \<Rightarrow> tcpcb"

text \<open>
  The local variables of \<^verbatim>\<open>tcp_input\<close> that this part reads, and how it leaves: by the
  \<^verbatim>\<open>break\<close> of the \<^verbatim>\<open>switch\<close> or by \<^verbatim>\<open>goto drop\<close>.
\<close>

record ack_in =
  ai_th :: tcphdr
  ai_to :: tcpopt
  ai_thflags :: u8
  ai_tlen :: int
  ai_tiwin :: u32
  ai_acked :: u32
  ai_sack_bytes_acked :: u32
  ai_highest_sacked_seq :: u32
  ai_ace :: u8
  ai_isconnected :: bool
  ai_rack_loss_detected :: bool

datatype ack_next = AckBreak | AckDrop

definition TCP_EARLY_REXMT_WIN :: u32 where "TCP_EARLY_REXMT_WIN = 60 * TCP_RETRANSHZ"

abbreviation acc_ecn_on :: "'e ecn_env_scheme \<Rightarrow> tcpcb \<Rightarrow> bool" where
  "acc_ecn_on E tp \<equiv> TCP_ACC_ECN_ON (tcp_l4s_developer E) (tcp_l4s E) tp"

subsection \<open>Counting\<close>

definition dup_count :: "tcpcb \<Rightarrow> u32 \<Rightarrow> tcpcb option" where
  "dup_count tp sack_bytes =
     (if SACK_ENABLED tp then
        (if t_maxseg tp = 0 then None
         else Some (tp\<lparr>t_dupacks := t_dupacks tp + max 1 (sack_bytes div t_maxseg tp)\<rparr>))
      else Some (tp\<lparr>t_dupacks := t_dupacks tp + 1\<rparr>))"

definition dup_accecn :: "'e dup_env_scheme \<Rightarrow> cubic_params \<Rightarrow> u32 \<Rightarrow> ack_in \<Rightarrow> tcpcb \<Rightarrow> tcpcb option" where
  "dup_accecn E P now A tp =
     (if ai_sack_bytes_acked A > 0 \<and> acc_ecn_on E tp \<and> has_flag (ecn_flags tp) TE_SENDIPECT \<and> t_state tp = TCPS_ESTABLISHED
      then
        (let pkts_sacked = tcp_packets_this_ack tp (ai_sack_bytes_acked A);
             tp = tp\<lparr>total_ect_packets_acked := total_ect_packets_acked tp + pkts_sacked\<rparr>
         in tcp_process_accecn E P now tp (ai_to A) (ai_th A) pkts_sacked (ai_ace A))
      else Some tp)"

definition dup_early :: "'e dup_env_scheme \<Rightarrow> u32 \<Rightarrow> tcpcb \<Rightarrow> tcpcb option" where
  "dup_early E now tp =
     (let tp = (if t_early_rexmt_count tp > 0 \<and> TSTMP_GEQ E now (t_early_rexmt_win tp + TCP_EARLY_REXMT_WIN)
                then tp\<lparr>t_early_rexmt_count := 0\<rparr> else tp)
      in if \<not> IN_FASTRECOVERY tp then tcp_early_rexmt_check E now tp else Some tp)"

definition dup_rack :: "'e dup_env_scheme \<Rightarrow> ack_in \<Rightarrow> tcpcb \<Rightarrow> bool \<times> tcpcb" where
  "dup_rack E A tp =
     (if TCP_RACK_ENABLED tp then
        (let (lost, tp) = tcp_rack_detect_loss_and_arm_timer E tp (t_dupacks tp) in (ai_rack_loss_detected A \<or> lost, tp))
      else (ai_rack_loss_detected A, tp))"

subsection \<open>The four cases\<close>

definition dup_invalid :: "'e dup_env_scheme \<Rightarrow> tcpcb \<Rightarrow> tcpcb" where
  "dup_invalid E tp = tp\<lparr>t_dupacks := 0, t_rexmtthresh := tcprexmtthresh E\<rparr>"

definition take_window :: "'e dup_env_scheme \<Rightarrow> ack_in \<Rightarrow> tcpcb \<Rightarrow> tcpcb" where
  "take_window E A tp =
     (if ai_tiwin A > snd_wnd tp then snd (tcp_update_window E tp (ai_thflags A) (ai_th A) (ai_tiwin A)) else tp)"

definition recovery_delayed :: "tcpcb \<Rightarrow> bool" where
  "recovery_delayed tp \<longleftrightarrow>
     t_flagsext tp AND (TF_PKTS_REORDERED OR TF_DELAY_RECOVERY) = TF_PKTS_REORDERED OR TF_DELAY_RECOVERY"

definition dup_inflate :: "tcpcb \<Rightarrow> tcpcb" where
  "dup_inflate tp =
     (if SACK_ENABLED tp \<and> IN_FASTRECOVERY tp then
        (let awnd = (snd_nxt tp - snd_fack tp) + word_of_int (sack_bytes_rexmit (sackhint tp)) in
         if awnd < snd_ssthresh tp then
           (let tp = tp\<lparr>snd_cwnd := snd_cwnd tp + t_maxseg tp\<rparr>
            in if snd_cwnd tp > snd_ssthresh tp then tp\<lparr>snd_cwnd := snd_ssthresh tp\<rparr> else tp)
         else tp)
      else tp\<lparr>snd_cwnd := snd_cwnd tp + t_maxseg tp\<rparr>)"

definition dup_in_recovery :: "'e dup_env_scheme \<Rightarrow> ack_in \<Rightarrow> tcpcb \<Rightarrow> ack_next \<times> tcpcb" where
  "dup_in_recovery E A tp =
     (if SACK_ENABLED tp \<and> \<not> IN_FASTRECOVERY tp \<and> recovery_delayed tp then (AckBreak, tp)
      else (AckDrop, tcp_output E (take_window E A (dup_inflate tp))))"

text \<open>Whether recovery is put off: the tests before and after the recovery point is set.\<close>

definition dup_not_now :: "ack_in \<Rightarrow> tcpcb \<Rightarrow> tcpcb option" where
  "dup_not_now A tp =
     (if SACK_ENABLED tp then
        (if IN_FASTRECOVERY tp then Some (tp\<lparr>t_dupacks := 0\<rparr>)
         else if has_flag (t_flagsext tp) TF_DELAY_RECOVERY then Some tp else None)
      else if seq_leq (th_ack (ai_th A)) (snd_recover tp) then Some (tp\<lparr>t_dupacks := 0\<rparr>) else None)"

definition dup_must_delay :: "tcpcb \<Rightarrow> bool" where
  "dup_must_delay tp \<longleftrightarrow> SACK_ENABLED tp
     \<and> t_flagsext tp AND (TF_PKTS_REORDERED OR TF_DELAY_RECOVERY) = TF_PKTS_REORDERED
     \<and> \<not> IN_FASTRECOVERY tp \<and> t_reorderwin tp > 0 \<and> (t_state tp = TCPS_ESTABLISHED \<or> t_state tp = TCPS_FIN_WAIT_1)"

definition dup_set_recover :: "tcpcb \<Rightarrow> tcpcb" where
  "dup_set_recover tp =
     (let tp = (if has_flag (t_flags tp) TF_SENTFIN then tp\<lparr>snd_recover := snd_max tp - 1\<rparr>
                else tp\<lparr>snd_recover := snd_max tp\<rparr>)
      in (set_timer TCPT_PTO 0 tp)\<lparr>t_rtttime := 0\<rparr>)"

definition dup_enter_state :: "'e dup_env_scheme \<Rightarrow> tcpcb \<Rightarrow> tcpcb" where
  "dup_enter_state E tp =
     (let tp = set_timer TCPT_REXMT 0 (ENTER_FASTRECOVERY (inp_reset_fc_state E) tp)
      in if \<not> acc_ecn_on E tp \<and> TCP_ECN_ENABLED tp then set_ecn_flags TE_SENDCWR tp else tp)"

definition dup_count_episode :: "tcpcb \<Rightarrow> tcpcb" where
  "dup_count_episode tp =
     (if TCP_RACK_ENABLED tp then tp\<lparr>t_rack_recovery_episode := t_rack_recovery_episode tp + 1\<rparr>
      else tp\<lparr>t_sack_recovery_episode := t_sack_recovery_episode tp + 1\<rparr>)"

text \<open>The state handed to \<^verbatim>\<open>tcp_output\<close>, and what is done with the result.\<close>

definition dup_rexmit_sack :: "'e dup_env_scheme \<Rightarrow> ack_in \<Rightarrow> tcpcb \<Rightarrow> tcpcb" where
  "dup_rexmit_sack E A tp =
     (let tp = dup_count_episode tp;
          tp = tp\<lparr>snd_cwnd := snd_ssthresh tp\<rparr>;
          tp = tp\<lparr>t_flagsext := t_flagsext tp AND NOT TF_CWND_NONVALIDATED\<rparr>
      in take_window E A tp)"

definition dup_rexmit_one :: "'e dup_env_scheme \<Rightarrow> ack_in \<Rightarrow> tcpcb \<Rightarrow> tcpcb" where
  "dup_rexmit_one E A tp =
     (let tp = tp\<lparr>snd_nxt := th_ack (ai_th A), snd_cwnd := t_maxseg tp\<rparr>;
          tp = tp\<lparr>t_flagsext := t_flagsext tp AND NOT TF_CWND_NONVALIDATED\<rparr>
      in take_window E A tp)"

definition dup_after_rexmit :: "'e dup_env_scheme \<Rightarrow> u32 \<Rightarrow> tcpcb \<Rightarrow> tcpcb" where
  "dup_after_rexmit E onxt tp =
     (let tp = (if has_flag (t_flagsext tp) TF_CWND_NONVALIDATED then tcp_cc_adjust_nonvalidated_cwnd E tp
                else tp\<lparr>snd_cwnd := snd_ssthresh tp + t_maxseg tp * t_dupacks tp\<rparr>)
      in if seq_gt onxt (snd_nxt tp) then tp\<lparr>snd_nxt := onxt\<rparr> else tp)"

definition dup_enter_recovery ::
  "'e dup_env_scheme \<Rightarrow> cubic_params \<Rightarrow> u32 \<Rightarrow> ack_in \<Rightarrow> tcpcb \<Rightarrow> (ack_next \<times> tcpcb) option" where
  "dup_enter_recovery E P now A tp =
     (let onxt = snd_nxt tp in
      case dup_not_now A tp of
        Some tp \<Rightarrow> Some (AckBreak, tp)
      | None \<Rightarrow>
          (let tp = dup_set_recover tp in
           if dup_must_delay tp then
             Some (AckBreak, (set_timer TCPT_DELAYFR (OFFSET_FROM_START E tp (t_reorderwin tp)) tp)
                     \<lparr>t_flagsext := t_flagsext tp OR TF_DELAY_RECOVERY\<rparr>)
           else do {
             let tp = tcp_rexmt_save_state tp;
             algo \<leftarrow> CC_ALGO E P now tp;
             tp \<leftarrow> run_hook (pre_fr algo) tp;
             let tp = dup_enter_state E tp;
             Some (AckDrop,
               if SACK_ENABLED tp then tcp_output E (dup_rexmit_sack E A tp)
               else dup_after_rexmit E onxt (tcp_output E (dup_rexmit_one E A tp)))
           }))"

definition dup_limited :: "'e dup_env_scheme \<Rightarrow> tcpcb \<Rightarrow> tcpcb" where
  "dup_limited E tp =
     (let incr = t_maxseg tp * t_dupacks tp;
          tp = tcp_output E (tp\<lparr>snd_cwnd := snd_cwnd tp + incr\<rparr>)
      in tp\<lparr>snd_cwnd := snd_cwnd tp - incr\<rparr>)"

definition dup_react ::
  "'e dup_env_scheme \<Rightarrow> cubic_params \<Rightarrow> u32 \<Rightarrow> ack_in \<Rightarrow> u32 \<Rightarrow> bool \<Rightarrow> tcpcb \<Rightarrow> (ack_next \<times> tcpcb) option" where
  "dup_react E P now A old_dupacks rack_loss_detected tp =
     (if t_timer tp TCPT_REXMT = 0 \<or> th_ack (ai_th A) \<noteq> snd_una tp \<and> ai_sack_bytes_acked A = 0
      then Some (AckBreak, dup_invalid E tp)
      else if \<not> TCP_RACK_ENABLED tp \<and> t_dupacks tp > ucast (t_rexmtthresh tp) \<and> old_dupacks \<ge> ucast (t_rexmtthresh tp)
              \<or> IN_FASTRECOVERY tp
      then Some (dup_in_recovery E A tp)
      else if rack_loss_detected \<or> \<not> TCP_RACK_ENABLED tp \<and> t_dupacks tp \<ge> ucast (t_rexmtthresh tp)
      then dup_enter_recovery E P now A tp
      else if ALLOW_LIMITED_TRANSMIT E tp \<and> (\<not> SACK_ENABLED tp \<or> ai_sack_bytes_acked A > 0)
              \<and> sb_cc (so_snd (inp_socket (t_inpcb tp))) - (snd_max tp - snd_una tp) > 0
      then Some (AckBreak, dup_limited E tp)
      else Some (AckBreak, tp))"

subsection \<open>One duplicate acknowledgement\<close>

definition dup_prepare :: "'e dup_env_scheme \<Rightarrow> cubic_params \<Rightarrow> u32 \<Rightarrow> ack_in \<Rightarrow> tcpcb \<Rightarrow> tcpcb option" where
  "dup_prepare E P now A tp =
     do {
       let tp = (if has_flag (ecn_flags tp) TE_INRECOVERY then clear_ecn_flags TE_INRECOVERY tp else tp);
       tp \<leftarrow> dup_count tp (ai_sack_bytes_acked A);
       let tp = tp\<lparr>sackhint := (sackhint tp)\<lparr>sack_bytes_acked :=
                sint (word_of_int (sack_bytes_acked (sackhint tp)) + ai_sack_bytes_acked A)\<rparr>\<rparr>;
       tp \<leftarrow> dup_accecn E P now A tp;
       dup_early E now tp
     }"

definition process_dupack :: "'e dup_env_scheme \<Rightarrow> cubic_params \<Rightarrow> u32 \<Rightarrow> ack_in \<Rightarrow> tcpcb \<Rightarrow> (ack_next \<times> tcpcb) option" where
  "process_dupack E P now A tp =
     (let old_dupacks = t_dupacks tp in
      if has_flag (to_flags (ai_to A)) TOF_MPTCP then Some (AckDrop, tp)
      else if ai_isconnected A \<and> has_flag (t_mpflags tp) TMPF_JOINED_FLOW then Some (AckBreak, tp)
      else do {
        tp \<leftarrow> dup_prepare E P now A tp;
        let (rack_loss_detected, tp) = dup_rack E A tp;
        dup_react E P now A old_dupacks rack_loss_detected tp
      })"

subsection \<open>An acknowledgement at or below \<^verbatim>\<open>snd_una\<close>\<close>

definition old_ack_fack :: "ack_in \<Rightarrow> tcpcb \<Rightarrow> tcpcb" where
  "old_ack_fack A tp =
     (if TCP_RACK_ENABLED tp \<and> ai_sack_bytes_acked A > 0 \<and> seq_lt (snd_fack tp) (ai_highest_sacked_seq A)
      then tp\<lparr>snd_fack := ai_highest_sacked_seq A\<rparr> else tp)"

definition old_ack_accecn :: "'e dup_env_scheme \<Rightarrow> cubic_params \<Rightarrow> u32 \<Rightarrow> ack_in \<Rightarrow> tcpcb \<Rightarrow> tcpcb option" where
  "old_ack_accecn E P now A tp =
     (if acc_ecn_on E tp \<and> has_flag (ecn_flags tp) TE_SENDIPECT \<and> ai_sack_bytes_acked A = 0 then
        (let tp = tp\<lparr>total_ect_packets_acked := total_ect_packets_acked tp + 1\<rparr>;
             newly_acked_time = (ai_acked A = 0 \<and> has_flag (to_flags (ai_to A)) TOF_TS \<and> to_tsecr (ai_to A) \<noteq> 0
               \<and> TSTMP_GT E (to_tsecr (ai_to A)) (t_last_ack_tsecr tp))
         in if newly_acked_time then tcp_process_accecn E P now tp (ai_to A) (ai_th A) 1 (ai_ace A) else Some tp)
      else Some tp)"

definition old_ack :: "'e dup_env_scheme \<Rightarrow> cubic_params \<Rightarrow> u32 \<Rightarrow> ack_in \<Rightarrow> tcpcb \<Rightarrow> (ack_next \<times> tcpcb) option" where
  "old_ack E P now A tp =
     do {
       tp \<leftarrow> old_ack_accecn E P now A (old_ack_fack A tp);
       if ai_tlen A = 0 \<and> (ai_tiwin A = snd_wnd tp \<or> to_nsacks (ai_to A) > 0 \<and> ai_sack_bytes_acked A > 0)
       then if has_flag (ai_thflags A) TH_FIN \<and> \<not> TCPS_HAVERCVDFIN E (t_state tp) then Some (AckBreak, tp)
            else process_dupack E P now A tp
       else Some (AckBreak, tp)
     }"

subsection \<open>The first acknowledgement that moves\<close>

text \<open>The flag is \<^verbatim>\<open>exiting_fr\<close>.\<close>

definition new_ack_recovery ::
  "'e dup_env_scheme \<Rightarrow> cubic_params \<Rightarrow> u32 \<Rightarrow> tcpcb \<Rightarrow> tcphdr \<Rightarrow> (bool \<times> tcpcb) option" where
  "new_ack_recovery E P now tp th =
     (if IN_FASTRECOVERY tp then
        (if seq_lt (th_ack th) (snd_recover tp) then
           (if has_flag (ecn_flags tp) TE_INRECOVERY then Some (False, tp)
            else if \<not> TCP_RACK_ENABLED tp then
              Some (False, if SACK_ENABLED tp then tcp_sack_partialack E tp th else tcp_newreno_partial_ack E tp th)
            else Some (False, tp))
         else do {
           let exiting_fr = (tcp_cubic_minor_fixes E \<noteq> 0);
           let tp = EXIT_FASTRECOVERY (tcprexmtthresh E) tp;
           algo \<leftarrow> CC_ALGO E P now tp;
           tp \<leftarrow> run_hook (map_option (\<lambda>f tp. f tp (Some th)) (post_fr algo)) tp;
           let tp = (if TCP_RACK_ENABLED tp then tcp_rack_update_reordering_win_persist E tp else tp);
           Some (exiting_fr, tcp_clear_pipeack_state (tp\<lparr>t_pipeack := 0\<rparr>))
         })
      else if recovery_delayed tp then
        Some (False,
          if seq_geq (th_ack th) (snd_recover tp) \<or> snd_holes tp = [] then
            (let tp = set_timer TCPT_DELAYFR 0 tp;
                 tp = tp\<lparr>t_flagsext := t_flagsext tp AND NOT TF_DELAY_RECOVERY\<rparr>
             in EXIT_FASTRECOVERY (tcprexmtthresh E) tp)
          else tp)
      else Some (False, tp\<lparr>t_dupacks := 0, t_rexmtthresh := tcprexmtthresh E\<rparr>))"

subsection \<open>Counting on a connection without SACK\<close>

lemma no_sack_no_rack: "\<not> SACK_ENABLED tp \<Longrightarrow> \<not> TCP_RACK_ENABLED tp"
  by (simp add: TCP_RACK_ENABLED_def)

text \<open>The state after the duplicate was counted.\<close>

definition dup_counted :: "tcpcb \<Rightarrow> tcpcb" where
  "dup_counted tp =
     (if has_flag (ecn_flags tp) TE_INRECOVERY then clear_ecn_flags TE_INRECOVERY tp else tp)
       \<lparr>t_dupacks := t_dupacks tp + 1,
        sackhint := (sackhint tp)\<lparr>sack_bytes_acked := sint (word_of_int (sack_bytes_acked (sackhint tp)) :: u32)\<rparr>\<rparr>"

lemma dup_counted_frame [simp]:
  "t_dupacks (dup_counted tp) = t_dupacks tp + 1" "t_flags (dup_counted tp) = t_flags tp"
  "t_flagsext (dup_counted tp) = t_flagsext tp" "snd_max (dup_counted tp) = snd_max tp"
  "snd_una (dup_counted tp) = snd_una tp" "snd_nxt (dup_counted tp) = snd_nxt tp"
  "snd_wnd (dup_counted tp) = snd_wnd tp" "snd_cwnd (dup_counted tp) = snd_cwnd tp"
  "snd_recover (dup_counted tp) = snd_recover tp" "t_timer (dup_counted tp) = t_timer tp"
  "t_maxseg (dup_counted tp) = t_maxseg tp" "t_inpcb (dup_counted tp) = t_inpcb tp"
  "tcp_cc_index (dup_counted tp) = tcp_cc_index tp" "t_ccstate (dup_counted tp) = t_ccstate tp"
  "t_rexmtthresh (dup_counted tp) = t_rexmtthresh tp"
  "t_early_rexmt_count (dup_counted tp) = t_early_rexmt_count tp"
  "t_early_rexmt_win (dup_counted tp) = t_early_rexmt_win tp" "snd_holes (dup_counted tp) = snd_holes tp"
  by (simp_all add: dup_counted_def clear_ecn_flags_def)

lemma SACK_ENABLED_counted [simp]: "SACK_ENABLED (dup_counted tp) = SACK_ENABLED tp"
  by (simp add: SACK_ENABLED_def)

lemma IN_FASTRECOVERY_counted [simp]: "IN_FASTRECOVERY (dup_counted tp) = IN_FASTRECOVERY tp"
  by (simp add: IN_FASTRECOVERY_def)

lemma prepare_plain:
  assumes "\<not> SACK_ENABLED tp" "ai_sack_bytes_acked A = 0"
  shows "dup_prepare E P now A tp = dup_early E now (dup_counted tp)"
proof -
  let ?t = "if has_flag (ecn_flags tp) TE_INRECOVERY then clear_ecn_flags TE_INRECOVERY tp else tp"
  have "\<not> SACK_ENABLED ?t" "t_dupacks ?t = t_dupacks tp" "sackhint ?t = sackhint tp"
    using assms(1) by (simp_all add: SACK_ENABLED_def clear_ecn_flags_def)
  then show ?thesis using assms(2)
    by (simp add: dup_prepare_def dup_count_def dup_accecn_def dup_counted_def)
qed

text \<open>
  What the early-retransmit check leaves alone. \<open>plain_frame tp tp'\<close>: the two states agree on
  what the rest of the handler reads.
\<close>

definition plain_frame :: "tcpcb \<Rightarrow> tcpcb \<Rightarrow> bool" where
  "plain_frame tp tp' \<longleftrightarrow> t_flags tp' = t_flags tp \<and> SACK_ENABLED tp' = SACK_ENABLED tp \<and> t_dupacks tp' = t_dupacks tp
     \<and> snd_max tp' = snd_max tp \<and> snd_una tp' = snd_una tp \<and> snd_nxt tp' = snd_nxt tp \<and> snd_wnd tp' = snd_wnd tp
     \<and> snd_cwnd tp' = snd_cwnd tp \<and> snd_recover tp' = snd_recover tp \<and> t_timer tp' = t_timer tp
     \<and> t_maxseg tp' = t_maxseg tp \<and> t_inpcb tp' = t_inpcb tp \<and> tcp_cc_index tp' = tcp_cc_index tp
     \<and> t_ccstate tp' = t_ccstate tp"

lemma plain_frame_refl: "plain_frame tp tp"
  by (simp add: plain_frame_def)

lemma plain_frame_trans: "plain_frame a b \<Longrightarrow> plain_frame b c \<Longrightarrow> plain_frame a c"
  by (simp add: plain_frame_def)

lemma early_lower_frame: "plain_frame tp (early_lower E now tp ob)"
  by (simp add: plain_frame_def early_lower_def Let_def SACK_ENABLED_def)

lemma early_finish_frame:
  "plain_frame tp (tp\<lparr>t_flagsext := t_flagsext tp AND NOT TF_SENT_TLPROBE, t_tlphighrxt := 0, t_tlpstart := 0\<rparr>)"
proof -
  have "(f AND NOT TF_SENT_TLPROBE) AND TF_SACK_ENABLE = f AND TF_SACK_ENABLE" for f
    by (rule flag_cleared_other) (simp add: TFX_defs)
  then show ?thesis by (simp add: plain_frame_def SACK_ENABLED_def)
qed

lemma early_check_frame: "tcp_early_rexmt_check E now tp = Some tp' \<Longrightarrow> plain_frame tp tp'"
  using plain_frame_trans [OF early_lower_frame early_finish_frame] early_finish_frame
  by (auto simp: tcp_early_rexmt_check_def bind_eq_Some_conv split: if_split_asm)

text \<open>The allowance after the sixty seconds' window was looked at.\<close>

definition early_refresh :: "'e dup_env_scheme \<Rightarrow> u32 \<Rightarrow> tcpcb \<Rightarrow> tcpcb" where
  "early_refresh E now tp =
     (if t_early_rexmt_count tp > 0 \<and> TSTMP_GEQ E now (t_early_rexmt_win tp + TCP_EARLY_REXMT_WIN)
      then tp\<lparr>t_early_rexmt_count := 0\<rparr> else tp)"

lemma early_refresh_frame: "plain_frame tp (early_refresh E now tp)"
  by (simp add: plain_frame_def early_refresh_def SACK_ENABLED_def)

lemma early_refresh_keeps [simp]:
  "t_rexmtthresh (early_refresh E now tp) = t_rexmtthresh tp" "snd_holes (early_refresh E now tp) = snd_holes tp"
  by (simp_all add: early_refresh_def)

lemma dup_early_eq: "\<not> IN_FASTRECOVERY tp \<Longrightarrow> dup_early E now tp = tcp_early_rexmt_check E now (early_refresh E now tp)"
  by (simp add: dup_early_def early_refresh_def IN_FASTRECOVERY_def Let_def)

lemma early_check_idle:
  assumes "\<not> early_allowed tp"
  shows "\<exists>tp'. tcp_early_rexmt_check E now tp = Some tp' \<and> plain_frame tp tp' \<and> t_rexmtthresh tp' = t_rexmtthresh tp"
  using assms early_finish_frame [of tp] by (simp add: tcp_early_rexmt_check_def)

subsection \<open>Entering recovery on a connection without SACK\<close>

text \<open>
  What is handed to \<^verbatim>\<open>tcp_output\<close>: in recovery, one segment's window, the next byte to send
  being the first unacknowledged one, the recovery point set, the threshold at least two
  segments and the timers off.
\<close>

definition rexmit_ready :: "tcpcb \<Rightarrow> tcpcb \<Rightarrow> bool" where
  "rexmit_ready tp tq \<longleftrightarrow> IN_FASTRECOVERY tq \<and> snd_nxt tq = snd_una tp \<and> snd_cwnd tq = t_maxseg tp
     \<and> 2 * t_maxseg tp \<le> snd_ssthresh tq
     \<and> snd_recover tq = (if has_flag (t_flags tp) TF_SENTFIN then snd_max tp - 1 else snd_max tp)
     \<and> t_timer tq TCPT_REXMT = 0 \<and> t_timer tq TCPT_PTO = 0"

lemma set_recover_frame:
  "t_flags (dup_set_recover tp) = t_flags tp" "t_flagsext (dup_set_recover tp) = t_flagsext tp"
  "snd_max (dup_set_recover tp) = snd_max tp" "t_maxseg (dup_set_recover tp) = t_maxseg tp"
  "tcp_cc_index (dup_set_recover tp) = tcp_cc_index tp" "t_ccstate (dup_set_recover tp) = t_ccstate tp"
  "t_timer (dup_set_recover tp) TCPT_PTO = 0" "snd_wnd (dup_set_recover tp) = snd_wnd tp"
  "snd_recover (dup_set_recover tp) = (if has_flag (t_flags tp) TF_SENTFIN then snd_max tp - 1 else snd_max tp)"
  by (simp_all add: dup_set_recover_def Let_def set_timer_def)

lemma save_state_frame:
  "snd_max (tcp_rexmt_save_state tp) = snd_max tp" "t_maxseg (tcp_rexmt_save_state tp) = t_maxseg tp"
  "tcp_cc_index (tcp_rexmt_save_state tp) = tcp_cc_index tp" "t_ccstate (tcp_rexmt_save_state tp) = t_ccstate tp"
  "t_timer (tcp_rexmt_save_state tp) = t_timer tp" "snd_wnd (tcp_rexmt_save_state tp) = snd_wnd tp"
  "snd_recover (tcp_rexmt_save_state tp) = snd_recover tp"
  "SACK_ENABLED (tcp_rexmt_save_state tp) = SACK_ENABLED tp"
proof -
  have "(f AND NOT TF_RECOMPUTE_RTT) AND TF_SACK_ENABLE = f AND TF_SACK_ENABLE" for f
    by (rule flag_cleared_other) (simp add: TFX_defs)
  then show "SACK_ENABLED (tcp_rexmt_save_state tp) = SACK_ENABLED tp"
    by (simp add: tcp_rexmt_save_state_def Let_def SACK_ENABLED_def)
qed (simp_all add: tcp_rexmt_save_state_def Let_def)

lemma cubic_pre_fr_rest:
  assumes "tcp_cubic_pre_fr E P tp = Some tp'"
  shows "t_timer tp' = t_timer tp" "snd_wnd tp' = snd_wnd tp" "snd_recover tp' = snd_recover tp"
proof -
  obtain f g v where e: "tp' = tcp_cc_resize_sndbuf E
      ((upd_cub f (snd (cubic_loss_window E (upd_cub g tp))))\<lparr>snd_ssthresh := v\<rparr>)"
    using assms by (cases "t_ccstate tp = None") (auto simp: tcp_cubic_pre_fr_def Let_def split_beta)
  show "t_timer tp' = t_timer tp" "snd_wnd tp' = snd_wnd tp" "snd_recover tp' = snd_recover tp"
    by (simp_all add: e upd_cub_def tcp_cc_resize_sndbuf_def upd_snd_def cubic_loss_window_def Let_def)
qed

lemma enter_state_spec:
  "IN_FASTRECOVERY (dup_enter_state E tp)" "snd_ssthresh (dup_enter_state E tp) = snd_ssthresh tp"
  "t_maxseg (dup_enter_state E tp) = t_maxseg tp" "snd_recover (dup_enter_state E tp) = snd_recover tp"
  "t_timer (dup_enter_state E tp) = (t_timer tp)(TCPT_REXMT := 0)" "snd_wnd (dup_enter_state E tp) = snd_wnd tp"
  "SACK_ENABLED (dup_enter_state E tp) = SACK_ENABLED tp"
  by (simp_all add: dup_enter_state_def Let_def set_ecn_flags_def set_timer_def IN_FASTRECOVERY_def SACK_ENABLED_def
      ENTER_FASTRECOVERY_def tcp_rxtseg_clean_def flag_simps)

lemma rexmit_one_spec:
  assumes "ai_tiwin A \<le> snd_wnd tp"
  shows "IN_FASTRECOVERY (dup_rexmit_one E A tp) = IN_FASTRECOVERY tp"
    "snd_nxt (dup_rexmit_one E A tp) = th_ack (ai_th A)" "snd_cwnd (dup_rexmit_one E A tp) = t_maxseg tp"
    "snd_ssthresh (dup_rexmit_one E A tp) = snd_ssthresh tp" "snd_recover (dup_rexmit_one E A tp) = snd_recover tp"
    "t_timer (dup_rexmit_one E A tp) = t_timer tp"
  using leD [OF assms] by (simp_all add: dup_rexmit_one_def take_window_def Let_def IN_FASTRECOVERY_def)

lemma dup_enter_plain:
  assumes nosack: "\<not> SACK_ENABLED tp" and ack: "th_ack (ai_th A) = snd_una tp" "seq_gt (snd_una tp) (snd_recover tp)"
    and cubic: "tcp_cc_index tp = TCP_CC_ALGO_CUBIC_INDEX E" "TCP_CC_ALGO_PRAGUE_INDEX E \<noteq> TCP_CC_ALGO_CUBIC_INDEX E"
      "t_ccstate tp \<noteq> None" and win: "ai_tiwin A \<le> snd_wnd tp"
  shows "\<exists>tq. dup_enter_recovery E P now A tp = Some (AckDrop, dup_after_rexmit E (snd_nxt tp) (tcp_output E tq))
    \<and> rexmit_ready tp tq"
proof -
  let ?s = "tcp_rexmt_save_state (dup_set_recover tp)"
  have now: "dup_not_now A tp = None" using nosack ack by (simp add: dup_not_now_def seq_gt_not_leq)
  have nosack': "\<not> SACK_ENABLED (dup_set_recover tp)" using nosack by (simp add: SACK_ENABLED_def set_recover_frame)
  have algo: "CC_ALGO E P now ?s = Some (tcp_cc_cubic E P now)"
    using cubic(1,2) by (intro CC_ALGO_cubic) (simp_all add: save_state_frame set_recover_frame)
  have "t_ccstate ?s \<noteq> None" using cubic(3) by (simp add: save_state_frame set_recover_frame)
  then obtain tp1 where p: "tcp_cubic_pre_fr E P ?s = Some tp1" "2 * t_maxseg ?s \<le> snd_ssthresh tp1" "t_maxseg tp1 = t_maxseg ?s"
    by (rule pre_fr_spec)
  have nosack1: "\<not> SACK_ENABLED tp1"
    using nosack' pre_fr_frame(2) [OF p(1)] save_state_frame(8) [of "dup_set_recover tp"] by (simp add: SACK_ENABLED_def)
  let ?q = "dup_enter_state E tp1"
  have w: "ai_tiwin A \<le> snd_wnd ?q"
    using win by (simp add: enter_state_spec cubic_pre_fr_rest [OF p(1)] save_state_frame set_recover_frame)
  have "dup_enter_recovery E P now A tp = Some (AckDrop, dup_after_rexmit E (snd_nxt tp) (tcp_output E (dup_rexmit_one E A ?q)))"
    using now nosack' nosack1 algo p(1)
    by (simp add: dup_enter_recovery_def Let_def dup_must_delay_def tcp_cc_cubic_def enter_state_spec)
  moreover have "rexmit_ready tp (dup_rexmit_one E A ?q)"
    using ack(1) p(2,3)
    by (simp add: rexmit_ready_def rexmit_one_spec [OF w] enter_state_spec cubic_pre_fr_rest [OF p(1)]
        save_state_frame set_recover_frame)
  ultimately show ?thesis by blast
qed

text \<open>
  A plain duplicate: it acknowledges the first unacknowledged byte again, carries no SACK
  information and no larger window, on a connection without SACK that runs CUBIC, is not in
  recovery and has the retransmission timer running.
\<close>

definition plain_dupack :: "'e dup_env_scheme \<Rightarrow> ack_in \<Rightarrow> tcpcb \<Rightarrow> bool" where
  "plain_dupack E A tp \<longleftrightarrow> \<not> SACK_ENABLED tp \<and> \<not> IN_FASTRECOVERY tp \<and> t_timer tp TCPT_REXMT \<noteq> 0
     \<and> th_ack (ai_th A) = snd_una tp \<and> seq_gt (snd_una tp) (snd_recover tp) \<and> ai_sack_bytes_acked A = 0
     \<and> \<not> has_flag (to_flags (ai_to A)) TOF_MPTCP \<and> \<not> ai_isconnected A \<and> \<not> ai_rack_loss_detected A
     \<and> ai_tiwin A \<le> snd_wnd tp \<and> tcp_cc_index tp = TCP_CC_ALGO_CUBIC_INDEX E
     \<and> TCP_CC_ALGO_PRAGUE_INDEX E \<noteq> TCP_CC_ALGO_CUBIC_INDEX E \<and> t_ccstate tp \<noteq> None"

lemma early_frame:
  assumes d: "plain_dupack E A tp" and e: "dup_early E now (dup_counted tp) = Some tp1"
  shows "plain_frame (dup_counted tp) tp1"
proof -
  have "tcp_early_rexmt_check E now (early_refresh E now (dup_counted tp)) = Some tp1"
    using d e by (simp add: dup_early_eq plain_dupack_def)
  then show ?thesis using plain_frame_trans [OF early_refresh_frame early_check_frame] by blast
qed

lemma process_plain:
  assumes d: "plain_dupack E A tp" and e: "dup_early E now (dup_counted tp) = Some tp1"
  shows "process_dupack E P now A tp = dup_react E P now A (t_dupacks tp) False tp1"
proof -
  have "plain_frame (dup_counted tp) tp1" using d e by (rule early_frame)
  then have "\<not> TCP_RACK_ENABLED tp1" using d by (simp add: plain_frame_def plain_dupack_def no_sack_no_rack)
  then show ?thesis using d e
    by (simp add: process_dupack_def prepare_plain plain_dupack_def dup_rack_def)
qed

lemma plain_dupack_frame:
  assumes "plain_dupack E A tp" "plain_frame (dup_counted tp) tp1"
  shows "plain_dupack E A tp1" "t_dupacks tp1 = t_dupacks tp + 1" "snd_nxt tp1 = snd_nxt tp" "snd_una tp1 = snd_una tp"
    "t_maxseg tp1 = t_maxseg tp" "t_flags tp1 = t_flags tp" "snd_max tp1 = snd_max tp" "snd_cwnd tp1 = snd_cwnd tp"
  using assms by (simp_all add: plain_dupack_def plain_frame_def IN_FASTRECOVERY_def)

text \<open>The threshold is reached, or it is not.\<close>

lemma react_enters:
  assumes d: "plain_dupack E A tp" and t: "ucast (t_rexmtthresh tp) \<le> t_dupacks tp" "old < ucast (t_rexmtthresh tp)"
  shows "\<exists>tq. dup_react E P now A old False tp = Some (AckDrop, dup_after_rexmit E (snd_nxt tp) (tcp_output E tq))
    \<and> rexmit_ready tp tq"
  using dup_enter_plain [of tp A E P now] d t
  by (auto simp: dup_react_def plain_dupack_def no_sack_no_rack not_le)

lemma react_waits:
  assumes d: "plain_dupack E A tp" and t: "t_dupacks tp < ucast (t_rexmtthresh tp)"
    and n: "sb_cc (so_snd (inp_socket (t_inpcb tp))) = snd_max tp - snd_una tp"
  shows "dup_react E P now A old False tp = Some (AckBreak, tp)"
  using d t n by (auto simp: dup_react_def plain_dupack_def no_sack_no_rack not_le)

lemma rexmit_ready_frame:
  assumes "plain_dupack E A tp" "plain_frame (dup_counted tp) tp1"
  shows "rexmit_ready tp1 tq = rexmit_ready tp tq"
  using plain_dupack_frame [OF assms] by (simp add: rexmit_ready_def)

subsection \<open>Properties\<close>

definition dup_env_zero :: dup_env where
  "dup_env_zero = ecn_env.extend ecn_env_zero
     (dup_env.fields (\<lambda>_. True) (\<lambda>_ x. x) (\<lambda>a b. sint (a - b) > 0) (\<lambda>_. False) (\<lambda>tp _. (False, tp))
       (\<lambda>tp. tp) (\<lambda>tp _. tp))"

lemmas dup_env_zero_simps = dup_env_zero_def dup_env.defs ecn_env_zero_simps

text \<open>One segment of 1000 bytes and one of 500 outstanding, and a duplicate for the first.\<close>

definition demo_dup :: "u32 \<Rightarrow> tcpcb" where
  "demo_dup n = upd_snd (\<lambda>sb. sb\<lparr>sb_cc := 1500\<rparr>) (tcpcb_zero\<lparr>t_ccstate := Some tcp_ccstate_zero, t_maxseg := 1000,
     tcp_cc_index := TCP_CC_ALGO_CUBIC_INDEX dup_env_zero, snd_cwnd := 8000, snd_wnd := 65535, snd_max := 2500,
     snd_nxt := 2500, snd_una := 1000, snd_recover := 900, snd_ssthresh := 20000, t_rexmtthresh := 3, t_dupacks := n,
     t_timer := (\<lambda>_. 5)\<rparr>)"

definition demo_ack :: ack_in where
  "demo_ack = \<lparr>ai_th = tcphdr_zero\<lparr>th_ack := 1000\<rparr>, ai_to = tcpopt_zero, ai_thflags = TH_ACK, ai_tlen = 0,
     ai_tiwin = 65535, ai_acked = 0, ai_sack_bytes_acked = 0, ai_highest_sacked_seq = 0, ai_ace = 0,
     ai_isconnected = False, ai_rack_loss_detected = False\<rparr>"

lemma demo_dup_plain: "plain_dupack dup_env_zero demo_ack (demo_dup n)"
  by (simp add: plain_dupack_def demo_dup_def demo_ack_def upd_snd_def Let_def dup_env_zero_simps SACK_ENABLED_def
      IN_FASTRECOVERY_def tcpcb_zero_def tcpopt_zero_def tcphdr_zero_def seq_gt_def)

text \<open>
  Property C22. From the second duplicate acknowledgement on, the threshold decides exactly:
  while the count with this duplicate is below it, nothing is sent, the window stays and only
  the count goes up; the duplicate that reaches it starts recovery and hands \<^verbatim>\<open>tcp_output\<close> a
  window of one segment at the first unacknowledged byte, with a threshold of at least two
  segments and the recovery point at the end of what was sent. (Connection without SACK under
  CUBIC, nothing new to send.)
\<close>

theorem dupack_threshold_exact:
  assumes "plain_dupack E A tp" "1 \<le> t_dupacks tp" "t_dupacks tp < ucast (t_rexmtthresh tp)"
    and "sb_cc (so_snd (inp_socket (t_inpcb tp))) = snd_max tp - snd_una tp"
  shows "if t_dupacks tp + 1 = ucast (t_rexmtthresh tp)
    then \<exists>tq. process_dupack E P now A tp = Some (AckDrop, dup_after_rexmit E (snd_nxt tp) (tcp_output E tq))
      \<and> rexmit_ready tp tq
    else \<exists>tp'. process_dupack E P now A tp = Some (AckBreak, tp') \<and> \<not> IN_FASTRECOVERY tp'
      \<and> t_dupacks tp' = t_dupacks tp + 1 \<and> snd_cwnd tp' = snd_cwnd tp \<and> t_rexmtthresh tp' = t_rexmtthresh tp"
proof -
  let ?r = "early_refresh E now (dup_counted tp)"
  have fr: "\<not> IN_FASTRECOVERY (dup_counted tp)" using assms(1) by (simp add: plain_dupack_def)
  have le: "t_dupacks tp + 1 \<le> ucast (t_rexmtthresh tp)" using assms(3) by (rule inc_le)
  have "t_dupacks tp + 1 \<noteq> 1" using assms(2) by (auto simp: word_le_nat_alt)
  then have "\<not> early_allowed ?r"
    using assms(1) early_refresh_frame [of "dup_counted tp" E now]
    by (auto simp: early_allowed_def plain_dupack_def plain_frame_def)
  then obtain tp1 where e: "dup_early E now (dup_counted tp) = Some tp1"
    and th: "t_rexmtthresh tp1 = t_rexmtthresh tp" and f: "plain_frame ?r tp1"
    using early_check_idle [of ?r E now] dup_early_eq [OF fr, of E now] by auto
  note fr1 = early_frame [OF assms(1) e]
  note p = plain_dupack_frame [OF assms(1) fr1]
  show ?thesis
  proof (cases "t_dupacks tp + 1 = ucast (t_rexmtthresh tp)")
    case True
    then obtain tq where "dup_react E P now A (t_dupacks tp) False tp1
        = Some (AckDrop, dup_after_rexmit E (snd_nxt tp1) (tcp_output E tq))" "rexmit_ready tp1 tq"
      using react_enters [OF p(1), of "t_dupacks tp" P now] p(2) th assms(3) by auto
    then show ?thesis
      using True process_plain [OF assms(1) e, of P] rexmit_ready_frame [OF assms(1) fr1] p(3) by auto
  next
    case False
    then have "t_dupacks tp1 < ucast (t_rexmtthresh tp1)" using le p(2) th by simp
    moreover have "sb_cc (so_snd (inp_socket (t_inpcb tp1))) = snd_max tp1 - snd_una tp1"
      using assms(4) fr1 by (simp add: plain_frame_def)
    ultimately show ?thesis
      using False process_plain [OF assms(1) e, of P] react_waits [OF p(1)] p th
      by (auto simp: plain_dupack_def)
  qed
qed

theorem dupack_threshold_exact_witness:
  "\<exists>tq. process_dupack dup_env_zero cubic_params_init 0 demo_ack (demo_dup 2)
    = Some (AckDrop, dup_after_rexmit dup_env_zero 2500 (tcp_output dup_env_zero tq)) \<and> rexmit_ready (demo_dup 2) tq"
  using dupack_threshold_exact [OF demo_dup_plain, of 2 cubic_params_init 0]
  by (simp add: demo_dup_def upd_snd_def Let_def tcpcb_zero_def)

text \<open>
  Property C23. A tail loss is repaired by a single duplicate: with one or two segments
  outstanding and nothing more that may be sent, the first duplicate acknowledgement starts
  recovery, as long as fewer than ten such uses were counted or a minute has passed since the
  first of them.
\<close>

theorem first_dupack_recovers_tail:
  assumes "plain_dupack E A tp" "t_dupacks tp = 0"
    and "t_early_rexmt_count tp < TCP_EARLY_REXMT_LIMIT \<or> TSTMP_GEQ E now (t_early_rexmt_win tp + TCP_EARLY_REXMT_WIN)"
    and "seq_gt (snd_max tp) (snd_una tp)" "0 < t_maxseg tp" "unat (t_maxseg tp) < 2 ^ 30"
    and "unat (snd_max tp - snd_una tp) \<le> 2 * unat (t_maxseg tp)"
    and "sint (min (sb_cc (so_snd (inp_socket (t_inpcb tp)))) (snd_wnd tp) - (snd_max tp - snd_una tp)) \<le> 0"
    and "2 \<le> tcprexmtthresh E"
  shows "\<exists>tq. process_dupack E P now A tp = Some (AckDrop, dup_after_rexmit E (snd_nxt tp) (tcp_output E tq))
    \<and> rexmit_ready tp tq"
proof -
  let ?r = "early_refresh E now (dup_counted tp)" and ?m = "unat (t_maxseg tp)"
  let ?n = "(unat (snd_max tp - snd_una tp) + ?m - 1) div ?m"
  have fr: "\<not> IN_FASTRECOVERY (dup_counted tp)" using assms(1) by (simp add: plain_dupack_def)
  have r: "\<not> SACK_ENABLED ?r" "t_dupacks ?r = 1" "snd_max ?r = snd_max tp" "snd_una ?r = snd_una tp"
      "t_maxseg ?r = t_maxseg tp" "t_inpcb ?r = t_inpcb tp" "snd_wnd ?r = snd_wnd tp"
    using assms(1,2) early_refresh_frame [of "dup_counted tp" E now]
    by (simp_all add: plain_dupack_def plain_frame_def)
  have c: "t_early_rexmt_count ?r < TCP_EARLY_REXMT_LIMIT"
    using assms(3) by (auto simp: early_refresh_def TCP_EARLY_REXMT_LIMIT_def word_less_nat_alt)
  have m: "0 < ?m" using assms(5) by (simp add: word_less_nat_alt)
  have "?n < 3" using assms(7) m by (simp add: less_mult_imp_div_less)
  then have n: "?n < 4" "max 1 (?n - 1) = 1" by simp_all
  obtain tp1 where e: "tcp_early_rexmt_check E now ?r = Some tp1" and th: "unat (t_rexmtthresh tp1) = 1"
    using early_check_lowers [OF r(1) c r(2), of ?n E now] assms(4,5,6,8,9) n by (auto simp: r)
  have e': "dup_early E now (dup_counted tp) = Some tp1" using e by (simp add: dup_early_eq [OF fr])
  note fr1 = early_frame [OF assms(1) e']
  note p = plain_dupack_frame [OF assms(1) fr1]
  have "t_rexmtthresh tp1 = 1" using th by (metis unat_1 word_unat_eq_iff)
  then obtain tq where "dup_react E P now A 0 False tp1
      = Some (AckDrop, dup_after_rexmit E (snd_nxt tp1) (tcp_output E tq))" "rexmit_ready tp1 tq"
    using react_enters [OF p(1), of 0 P now] p(2) assms(2) by auto
  then show ?thesis
    using process_plain [OF assms(1) e', of P] rexmit_ready_frame [OF assms(1) fr1] p(3) assms(2) by auto
qed

theorem first_dupack_recovers_tail_witness:
  "\<exists>tq. process_dupack dup_env_zero cubic_params_init 0 demo_ack (demo_dup 0)
    = Some (AckDrop, dup_after_rexmit dup_env_zero 2500 (tcp_output dup_env_zero tq)) \<and> rexmit_ready (demo_dup 0) tq"
  using first_dupack_recovers_tail [OF demo_dup_plain, of 0 0 cubic_params_init]
  by (simp add: demo_dup_def upd_snd_def Let_def tcpcb_zero_def TCP_EARLY_REXMT_LIMIT_def dup_env_zero_simps seq_gt_def)

end
