(* ===== verification/Rtt.thy ===== *)
theory Rtt
  imports DupAck
begin

text \<open>
  Round-trip times and the retransmission timeout: the base round-trip time kept with the
  route, the smoothed estimators and the timeout computed from them
  (\<^verbatim>\<open>reference/xnu/tcp_input.c\<close>), the back-off table (\<^verbatim>\<open>tcp_timer.c\<close>), the persist timer, the
  tail loss probe and the receive-side throttle (\<^verbatim>\<open>tcp_output.c\<close>). The constants and macros of
  \<^verbatim>\<open>tcp_timer.h\<close>, which is not among the sources, are fields of \<open>rtt_env\<close>; so is the number of
  slots of the history kept with a route.
\<close>

record rtt_env = dup_env +
  NRTT_HIST :: nat
  TCPTV_MSL :: int
  TCPTV_REXMTMAX :: int
  TCPTV_PERSMAX :: int
  tcptv_persmin_val :: int
  TCP_MAXRXTSHIFT :: u16
  TCPT_RANGESET :: "int \<Rightarrow> int \<Rightarrow> int \<Rightarrow> bool \<Rightarrow> int"
  TCP_ADD_REXMTSLOP :: "tcpcb \<Rightarrow> bool"
  IFEF_AWDL :: u32
  target_qdelay :: u32
  tcp_enable_tlp :: int
  tcp_delack :: u32
  tcp_link_heuristics_flags :: u32
  TCP_LINK_HEUR_NOTLP :: u32
  if_link_heuristics_enabled :: "ifnet option \<Rightarrow> bool"
  tcp_use_rtt_recvbg :: int
  tcp_recv_throttle_minwin :: u32
  tcp_acc_iaj_react_limit :: u32

definition TCP_RTT_HISTORY_EXPIRE_TIME :: u32 where "TCP_RTT_HISTORY_EXPIRE_TIME = 60 * TCP_RETRANSHZ"
definition TCP_RECV_THROTTLE_WIN :: u32 where "TCP_RECV_THROTTLE_WIN = 5 * TCP_RETRANSHZ"
definition TCPTV_RCVNOTS_QUANTUM :: u32 where "TCPTV_RCVNOTS_QUANTUM = 100"
definition NCURR_RTT_HIST :: nat where "NCURR_RTT_HIST = 4"
definition TCP_PIPEACK_SAMPLE_COUNT :: nat where "TCP_PIPEACK_SAMPLE_COUNT = 3"

definition tcp_syn_backoff :: "int list" where "tcp_syn_backoff = [1, 1, 1, 1, 1, 2, 4, 8, 16, 32, 64, 64, 64]"
definition tcp_backoff :: "int list" where "tcp_backoff = [1, 2, 4, 8, 16, 32, 64, 64, 64, 64, 64, 64, 64]"
definition tcp_totbackoff :: int where "tcp_totbackoff = 511"

abbreviation rt_upd :: "(rtentry \<Rightarrow> rtentry) \<Rightarrow> tcpcb \<Rightarrow> tcpcb" where
  "rt_upd f tp \<equiv> tp\<lparr>t_inpcb := (t_inpcb tp)\<lparr>inp_rt := map_option f (inp_rt (t_inpcb tp))\<rparr>\<rparr>"

subsection \<open>The base round-trip time\<close>

text \<open>The loop that both histories are scanned with: the least sample, zero meaning none.\<close>

primrec hist_min :: "u32 list \<Rightarrow> u32 \<Rightarrow> u32" where
  "hist_min [] m = m"
| "hist_min (h # hs) m = hist_min hs (if h \<noteq> 0 \<and> (m = 0 \<or> h < m) then h else m)"

definition update_curr_rtt :: "tcpcb \<Rightarrow> u32 \<Rightarrow> tcpcb" where
  "update_curr_rtt tp rtt =
     (let i = (curr_rtt_index tp + 1) mod of_nat NCURR_RTT_HIST;
          hist = (curr_rtt_hist tp)[unat i := rtt]
      in tp\<lparr>curr_rtt_index := i, curr_rtt_hist := hist, curr_rtt_min := hist_min hist 0\<rparr>)"

text \<open>The slots of idle minutes are cleared; the index moves by the number of minutes.\<close>

function clear_slots :: "nat \<Rightarrow> nat \<Rightarrow> nat \<Rightarrow> u32 list \<Rightarrow> u32 list \<times> nat" where
  "clear_slots n i stop hist = (if i < stop then clear_slots n (Suc i) stop (hist[i mod n := 0]) else (hist, i))"
  by pat_completeness auto

termination clear_slots
  by (relation "measure (\<lambda>(n, i, stop, hist). stop - i)") auto

declare clear_slots.simps [simp del]

definition rtt_rotate :: "'e rtt_env_scheme \<Rightarrow> u32 \<Rightarrow> u32 \<Rightarrow> rtentry \<Rightarrow> rtentry" where
  "rtt_rotate E now rtt rt =
     (let times = min (unat ((now - rtt_expire_ts rt) div TCP_RTT_HISTORY_EXPIRE_TIME)) (NRTT_HIST E + 1);
          (hist, i) = clear_slots (NRTT_HIST E) (rtt_index rt + 1) (rtt_index rt + times) (rtt_hist rt);
          index = i mod NRTT_HIST E;
          hist = hist[index := rtt]
      in rt\<lparr>rtt_hist := hist, rtt_index := index, rtt_expire_ts := now, rtt_min := hist_min hist 0\<rparr>)"

definition rtt_note :: "u32 \<Rightarrow> rtentry \<Rightarrow> rtentry" where
  "rtt_note rtt rt =
     rt\<lparr>rtt_hist := (rtt_hist rt)[rtt_index rt := min (rtt_hist rt ! rtt_index rt) rtt],
        rtt_min := (if rtt_min rt = 0 then rtt else min (rtt_min rt) rtt)\<rparr>"

definition rtt_start :: "u32 \<Rightarrow> u32 \<Rightarrow> rtentry \<Rightarrow> rtentry" where
  "rtt_start now rtt rt =
     rt\<lparr>rtt_expire_ts := now, rtt_index := 0, rtt_hist := (rtt_hist rt)[0 := rtt], rtt_min := rtt\<rparr>"

definition recv_unthrottle :: "'e rtt_env_scheme \<Rightarrow> u32 \<Rightarrow> rtentry \<Rightarrow> tcpcb \<Rightarrow> tcpcb" where
  "recv_unthrottle E now rt tp =
     (if has_flag (t_flagsext tp) TF_RECV_THROTTLE
         \<and> sint (now - t_recv_throttle_ts tp) \<ge> uint TCP_RECV_THROTTLE_WIN
         \<and> t_rttcur tp \<le> rtt_min rt + target_qdelay E
      then tp\<lparr>t_flagsext := t_flagsext tp AND NOT TF_RECV_THROTTLE, t_recv_throttle_ts := 0\<rparr>
      else tp)"

text \<open>
  The conditions that the code tests again after taking the lock of the route are tested once:
  nothing else runs in between here.
\<close>

definition rtt_expired :: "u32 \<Rightarrow> rtentry \<Rightarrow> bool" where
  "rtt_expired now rt \<longleftrightarrow> sint (now - rtt_expire_ts rt) \<ge> uint TCP_RTT_HISTORY_EXPIRE_TIME"

definition update_base_rtt :: "'e rtt_env_scheme \<Rightarrow> u32 \<Rightarrow> tcpcb \<Rightarrow> u32 \<Rightarrow> tcpcb" where
  "update_base_rtt E now tp rtt =
     (case inp_rt (t_inpcb tp) of
        None \<Rightarrow> tp
      | Some rt \<Rightarrow>
          if rtt_expire_ts rt = 0 then
            (rt_upd (rtt_start now rtt) tp)
              \<lparr>curr_rtt_index := 0, curr_rtt_hist := (curr_rtt_hist tp)[0 := rtt], curr_rtt_min := rtt\<rparr>
          else
            (let tp = recv_unthrottle E now rt tp;
                 tp = update_curr_rtt tp rtt
             in if rtt_expired now rt then rt_upd (rtt_rotate E now rtt) tp else rt_upd (rtt_note rtt) tp))"

subsection \<open>The estimators and the timeout\<close>

definition rtt_clip :: "'e rtt_env_scheme \<Rightarrow> int \<Rightarrow> int" where
  "rtt_clip E rtt = (let rtt = (if rtt = 0 then 1 else rtt) in if rtt > 4 * TCPTV_MSL E then 4 * TCPTV_MSL E else rtt)"

definition awdl_syn_sample :: "'e rtt_env_scheme \<Rightarrow> tcpcb \<Rightarrow> u32 \<Rightarrow> bool" where
  "awdl_syn_sample E tp ack \<longleftrightarrow>
     (case inp_last_outifp (t_inpcb tp) of
        None \<Rightarrow> False
      | Some ifp \<Rightarrow> has_flag (if_eflags ifp) (IFEF_AWDL E) \<and> ack = iss tp + 1)"

definition rtt_recompute :: "int \<Rightarrow> tcpcb \<Rightarrow> tcpcb" where
  "rtt_recompute rtt tp =
     (let tp = tp\<lparr>t_flagsext := t_flagsext tp AND NOT TF_RECOMPUTE_RTT, t_badrexmt_time := 0\<rparr>;
          tp = tp\<lparr>t_srtt := push_bit TCP_RTT_SHIFT (sint (max (word_of_int (t_srtt_prev tp)) (word_of_int rtt) :: u32))\<rparr>;
          tp = tp\<lparr>t_rttvar := push_bit TCP_RTTVAR_SHIFT
                 (sint (max (word_of_int (t_rttvar_prev tp)) (word_of_int (drop_bit 1 rtt)) :: u32))\<rparr>;
          best = word_of_int (t_srtt tp + t_rttvar tp)
      in if t_rttbest tp > best then tp\<lparr>t_rttbest := best\<rparr> else tp)"

definition rtt_smooth :: "int \<Rightarrow> tcpcb \<Rightarrow> tcpcb" where
  "rtt_smooth rtt tp =
     (let delta = push_bit TCP_DELTA_SHIFT rtt - drop_bit (TCP_RTT_SHIFT - TCP_DELTA_SHIFT) (t_srtt tp);
          srtt = t_srtt tp + delta;
          tp = tp\<lparr>t_srtt := (if srtt \<le> 0 then 1 else srtt)\<rparr>;
          delta = (if delta < 0 then - delta else delta);
          delta = delta - drop_bit (TCP_RTTVAR_SHIFT - TCP_DELTA_SHIFT) (t_rttvar tp);
          rttvar = t_rttvar tp + delta;
          tp = tp\<lparr>t_rttvar := (if rttvar \<le> 0 then 1 else rttvar)\<rparr>;
          best = word_of_int (t_srtt tp + t_rttvar tp)
      in if t_rttbest tp = 0 \<or> t_rttbest tp > best then tp\<lparr>t_rttbest := best\<rparr> else tp)"

definition rtt_initial :: "int \<Rightarrow> tcpcb \<Rightarrow> tcpcb" where
  "rtt_initial rtt tp =
     (let tp = tp\<lparr>t_srtt := push_bit TCP_RTT_SHIFT rtt, t_rttvar := push_bit (TCP_RTTVAR_SHIFT - 1) rtt\<rparr>;
          tp = tp\<lparr>t_rttbest := word_of_int (t_srtt tp + t_rttvar tp)\<rparr>
      in if rcv_srtt tp = 0 then tp\<lparr>rcv_srtt := word_of_int (t_srtt tp)\<rparr> else tp)"

definition compute_rto :: "'e rtt_env_scheme \<Rightarrow> int \<Rightarrow> tcpcb \<Rightarrow> tcpcb" where
  "compute_rto E rtt tp =
     tp\<lparr>t_rxtcur := TCPT_RANGESET E (sint (TCP_REXMTVAL tp)) (sint (max (t_rttmin tp) (word_of_int (rtt + 2))))
          (TCPTV_REXMTMAX E) (TCP_ADD_REXMTSLOP E tp),
        t_softerror := 0\<rparr>"

definition tcp_xmit_timer :: "'e rtt_env_scheme \<Rightarrow> u32 \<Rightarrow> tcpcb \<Rightarrow> int \<Rightarrow> u32 \<Rightarrow> u32 \<Rightarrow> tcpcb option" where
  "tcp_xmit_timer E now tp rtt tsecr ack =
     (if rtt < 0 then None
      else let rtt = rtt_clip E rtt in
        if awdl_syn_sample E tp ack then Some tp
        else if has_flag (t_flagsext tp) TF_RECOMPUTE_RTT then
          (if seq_gt ack (snd_una tp) \<and> seq_leq ack (snd_max tp)
              \<and> (tsecr = 0 \<or> TSTMP_GEQ E tsecr (t_badrexmt_time tp))
           then Some (compute_rto E rtt (rtt_recompute rtt tp)) else Some tp)
        else
          (let tp = tp\<lparr>t_rttupdated := t_rttupdated tp + 1, t_rttcur := word_of_int rtt\<rparr>;
               tp = update_base_rtt E now tp (word_of_int rtt);
               tp = (if t_srtt tp \<noteq> 0 then rtt_smooth rtt tp else rtt_initial rtt tp)
           in Some (compute_rto E rtt tp)))"

subsection \<open>Taking a sample\<close>

definition note_pipeack :: "'e rtt_env_scheme \<Rightarrow> u32 \<Rightarrow> tcpcb \<Rightarrow> tcpcb" where
  "note_pipeack E ack tp =
     (if seq_gt ack (t_pipeack_lastuna tp) then
        (let tp = tp\<lparr>t_pipeack_sample := (t_pipeack_sample tp)[unat (t_pipeack_ind tp) := ack - t_pipeack_lastuna tp],
                   t_pipeack_ind := (t_pipeack_ind tp + 1) mod of_nat TCP_PIPEACK_SAMPLE_COUNT\<rparr>;
             v = tcp_get_max_pipeack tp
         in tp\<lparr>t_pipeack := (if v > tcp_initial_cwnd E tp then v else 0)\<rparr>)
      else tp)"

definition timed_segment_rtt :: "'e rtt_env_scheme \<Rightarrow> u32 \<Rightarrow> tcpcb \<Rightarrow> tcphdr \<Rightarrow> int \<times> tcpcb" where
  "timed_segment_rtt E now tp th =
     (if t_rtttime tp \<noteq> 0 \<and> seq_gt (th_ack th) (t_rtseq tp) then
        (let rtt = sint (now - word_of_int (t_rtttime tp));
             rtt = (if rtt = 0 then 1 else rtt)
         in (rtt, (note_pipeack E (th_ack th) tp)\<lparr>t_rtttime := 0\<rparr>))
      else (0, tp))"

definition tcp_compute_rtt :: "'e rtt_env_scheme \<Rightarrow> u32 \<Rightarrow> tcpcb \<Rightarrow> tcpopt \<Rightarrow> tcphdr \<Rightarrow> tcpcb option" where
  "tcp_compute_rtt E now tp to th =
     (let (rtt, tp) = timed_segment_rtt E now tp th in
      if has_flag (to_flags to) TOF_TS \<and> to_tsecr to \<noteq> 0 \<and> TSTMP_GEQ E now (to_tsecr to)
      then tcp_xmit_timer E now tp (sint (now - to_tsecr to)) (to_tsecr to) (th_ack th)
      else if rtt > 0 then tcp_xmit_timer E now tp rtt 0 (th_ack th)
      else Some tp)"

text \<open>The sample of the receiving side; \<open>None\<close> for the early return.\<close>

definition rcv_rtt_sample :: "'e rtt_env_scheme \<Rightarrow> u32 \<Rightarrow> tcpcb \<Rightarrow> tcpopt \<Rightarrow> (u32 \<times> tcpcb) option" where
  "rcv_rtt_sample E now tp to =
     (if has_flag (to_flags to) TOF_TS \<and> to_tsecr to \<noteq> 0 \<and> TSTMP_GEQ E now (to_tsecr to) then
        (let rtt = now - to_tsecr to in Some (if rtt = 0 then 1 else rtt, tp))
      else if \<not> has_flag (to_flags to) TOF_TS then
        (let again = tp\<lparr>rcv_rtt_est_ts := now, rcv_rtt_est_seq := rcv_nxt tp + rcv_wnd tp\<rparr> in
         if rcv_rtt_est_ts tp \<noteq> 0 then
           (if seq_lt (rcv_nxt tp) (rcv_rtt_est_seq tp) then None
            else let rtt = now - rcv_rtt_est_ts tp in Some (if rtt = 0 then 1 else rtt, again))
         else Some (TCPTV_RCVNOTS_QUANTUM, again))
      else Some (0, tp))"

definition rcv_rtt_smooth :: "u32 \<Rightarrow> tcpcb \<Rightarrow> tcpcb" where
  "rcv_rtt_smooth rtt tp =
     (if rcv_srtt tp \<noteq> 0 then
        (let delta = push_bit TCP_DELTA_SHIFT rtt - drop_bit (TCP_RTT_SHIFT - TCP_DELTA_SHIFT) (rcv_srtt tp);
             srtt = rcv_srtt tp + delta
         in tp\<lparr>rcv_srtt := (if srtt \<le> 0 then 1 else srtt)\<rparr>)
      else tp\<lparr>rcv_srtt := push_bit TCP_RTT_SHIFT rtt\<rparr>)"

definition tcp_compute_rcv_rtt :: "'e rtt_env_scheme \<Rightarrow> u32 \<Rightarrow> tcpcb \<Rightarrow> tcpopt \<Rightarrow> tcpcb" where
  "tcp_compute_rcv_rtt E now tp to =
     (case rcv_rtt_sample E now tp to of
        None \<Rightarrow> tp
      | Some (rtt, tp) \<Rightarrow> update_base_rtt E now ((rcv_rtt_smooth rtt tp)\<lparr>t_rttcur := rtt\<rparr>) rtt)"

subsection \<open>Timers derived from the estimators\<close>

definition tcp_setpersist :: "'e rtt_env_scheme \<Rightarrow> u32 \<Rightarrow> tcpcb \<Rightarrow> tcpcb" where
  "tcp_setpersist E now tp =
     (let t = drop_bit 1 (drop_bit 2 (t_srtt tp) + t_rttvar tp);
          tp = (if t_persist_timeout tp \<noteq> 0 \<and> t_timer tp TCPT_PERSIST = 0 \<and> t_persist_stop tp = 0
                then tp\<lparr>t_persist_stop := now + t_persist_timeout tp\<rparr> else tp);
          v = word_of_int (TCPT_RANGESET E (t * tcp_backoff ! unat (t_rxtshift tp)) (tcptv_persmin_val E) (TCPTV_PERSMAX E) False);
          tp = set_timer TCPT_PERSIST (OFFSET_FROM_START E tp v) tp
      in if t_rxtshift tp < TCP_MAXRXTSHIFT E then tp\<lparr>t_rxtshift := t_rxtshift tp + 1\<rparr> else tp)"

text \<open>The part of \<^verbatim>\<open>tcp_output\<close> that arms the tail loss probe after new data was sent.\<close>

definition tlp_allowed :: "'e rtt_env_scheme \<Rightarrow> u32 \<Rightarrow> tcpcb \<Rightarrow> bool" where
  "tlp_allowed E len tp \<longleftrightarrow> tcp_enable_tlp E \<noteq> 0 \<and> len \<noteq> 0 \<and> t_state tp = TCPS_ESTABLISHED
     \<and> SACK_ENABLED tp \<and> \<not> IN_FASTRECOVERY tp \<and> snd_nxt tp = snd_max tp \<and> seq_gt (snd_nxt tp) (snd_una tp)
     \<and> t_rxtshift tp = 0 \<and> t_flagsext tp AND (TF_SENT_TLPROBE OR TF_PKTS_REORDERED) = 0"

definition tlp_timeout :: "'e rtt_env_scheme \<Rightarrow> tcpcb \<Rightarrow> u32" where
  "tlp_timeout E tp =
     (let srtt = word_of_int (drop_bit TCP_RTT_SHIFT (t_srtt tp));
          pto = 2 * srtt + (if snd_max tp - snd_una tp \<le> t_maxseg tp then tcp_delack E else 2)
      in if word_of_int (t_rxtcur tp) < pto then word_of_int (t_rxtcur tp) else pto)"

definition arm_tlp :: "'e rtt_env_scheme \<Rightarrow> u32 \<Rightarrow> tcpcb \<Rightarrow> tcpcb" where
  "arm_tlp E len tp =
     (if tlp_allowed E len tp \<and> \<not> (has_flag (tcp_link_heuristics_flags E) (TCP_LINK_HEUR_NOTLP E)
            \<and> if_link_heuristics_enabled E (inp_last_outifp (t_inpcb tp)))
      then set_timer TCPT_PTO (OFFSET_FROM_START E tp (tlp_timeout E tp)) tp else tp)"

definition tcp_recv_throttle :: "'e rtt_env_scheme \<Rightarrow> u32 \<Rightarrow> tcpcb \<Rightarrow> bool \<times> tcpcb" where
  "tcp_recv_throttle E now tp =
     (let by_iaj = (acc_iaj tp > tcp_acc_iaj_react_limit E, tp) in
      if tcp_use_rtt_recvbg E = 1 \<and> TSTMP_SUPPORTED tp then
        (if has_flag (t_flagsext tp) TF_RECV_THROTTLE then (True, tp)
         else let base_rtt = get_base_rtt tp in
           if base_rtt \<noteq> 0 \<and> t_rttcur tp \<noteq> 0 then
             (if t_rttcur tp > base_rtt + target_qdelay E then
                (let tp = tp\<lparr>t_flagsext := t_flagsext tp OR TF_RECV_THROTTLE\<rparr>;
                     tp = (if t_recv_throttle_ts tp = 0 then tp\<lparr>t_recv_throttle_ts := now\<rparr> else tp);
                     tp = upd_rcv (\<lambda>sb. if sb_idealsize sb > tcp_recv_throttle_minwin E
                            then sb\<lparr>sb_idealsize := max (drop_bit 1 (sb_idealsize sb)) (tcp_recv_throttle_minwin E)\<rparr>
                            else sb) tp
                 in (True, tp))
              else (False, tp))
           else by_iaj)
      else by_iaj)"

subsection \<open>The histories\<close>

text \<open>\<open>m\<close> is the least sample of a history in which zero means that there was none.\<close>

definition least_of :: "u32 list \<Rightarrow> u32 \<Rightarrow> bool" where
  "least_of hs m \<longleftrightarrow> (if \<forall>h\<in>set hs. h = 0 then m = 0
     else m \<noteq> 0 \<and> m \<in> set hs \<and> (\<forall>h\<in>set hs. h \<noteq> 0 \<longrightarrow> m \<le> h))"

lemma least_of_Cons0 [simp]: "least_of (0 # hs) m = least_of hs m"
  by (auto simp: least_of_def)

lemma least_ofD: "least_of hs m \<Longrightarrow> h \<in> set hs \<Longrightarrow> h \<noteq> 0 \<Longrightarrow> m \<noteq> 0 \<and> m \<in> set hs \<and> m \<le> h"
  by (auto simp: least_of_def split: if_split_asm)

lemma hist_min_least: "least_of (m # hs) (hist_min hs m)"
proof (induction hs arbitrary: m)
  case (Cons h hs)
  let ?m = "if h \<noteq> 0 \<and> (m = 0 \<or> h < m) then h else m"
  have "least_of (?m # hs) x \<Longrightarrow> least_of (m # h # hs) x" for x
    by (auto simp: least_of_def split: if_split_asm)
  then show ?case using Cons.IH [of ?m] by simp
qed (auto simp: least_of_def)

lemma clear_slots_length [simp]: "length (fst (clear_slots n i stop hist)) = length hist"
proof (induction n i stop hist rule: clear_slots.induct)
  case (1 n i stop hist)
  then show ?case by (subst clear_slots.simps) simp
qed

lemma clear_slots_end: "snd (clear_slots n i stop hist) = max i stop"
proof (induction n i stop hist rule: clear_slots.induct)
  case (1 n i stop hist)
  then show ?case by (subst clear_slots.simps) simp
qed

lemma clear_slots_keeps_zero: "j < length hist \<Longrightarrow> hist ! j = 0 \<Longrightarrow> fst (clear_slots n i stop hist) ! j = 0"
proof (induction n i stop hist rule: clear_slots.induct)
  case (1 n i stop hist)
  have "hist[i mod n := 0] ! j = 0" using "1.prems" by (cases "i mod n = j") simp_all
  then show ?case using 1 by (subst clear_slots.simps) simp
qed

lemma clear_slots_zero:
  "i \<le> k \<Longrightarrow> k < stop \<Longrightarrow> k mod n < length hist \<Longrightarrow> fst (clear_slots n i stop hist) ! (k mod n) = 0"
proof (induction n i stop hist rule: clear_slots.induct)
  case (1 n i stop hist)
  show ?case
  proof (cases "k = i")
    case True
    then show ?thesis using "1.prems" clear_slots_keeps_zero [of "k mod n" "hist[i mod n := 0]"]
      by (subst clear_slots.simps) simp
  next
    case False
    then show ?thesis using 1 by (subst clear_slots.simps) simp
  qed
qed

text \<open>A route whose history was started: the current slot holds a sample, the base is the least one.\<close>

definition rtt_kept :: "'e rtt_env_scheme \<Rightarrow> rtentry \<Rightarrow> bool" where
  "rtt_kept E rt \<longleftrightarrow> rtt_expire_ts rt \<noteq> 0 \<and> length (rtt_hist rt) = NRTT_HIST E \<and> rtt_index rt < NRTT_HIST E
     \<and> rtt_hist rt ! rtt_index rt \<noteq> 0 \<and> least_of (rtt_hist rt) (rtt_min rt)"

definition rtt_fresh :: "'e rtt_env_scheme \<Rightarrow> rtentry \<Rightarrow> bool" where
  "rtt_fresh E rt \<longleftrightarrow> rtt_expire_ts rt = 0 \<and> rtt_hist rt = replicate (NRTT_HIST E) 0"

lemma rtt_start_kept:
  assumes "rtt_fresh E rt" "0 < NRTT_HIST E" "now \<noteq> 0" "rtt \<noteq> 0"
  shows "rtt_kept E (rtt_start now rtt rt)"
proof -
  obtain n where n: "NRTT_HIST E = Suc n" using assms(2) by (cases "NRTT_HIST E") auto
  then show ?thesis using assms by (auto simp: rtt_kept_def rtt_fresh_def rtt_start_def least_of_def)
qed

lemma rtt_rotate_kept:
  assumes "rtt_kept E rt" "now \<noteq> 0" "rtt \<noteq> 0"
  shows "rtt_kept E (rtt_rotate E now rtt rt)" "rtt_min (rtt_rotate E now rtt rt) \<le> rtt"
proof -
  let ?r = "rtt_rotate E now rtt rt"
  have r: "length (rtt_hist ?r) = NRTT_HIST E" "rtt_index ?r < NRTT_HIST E" "rtt_hist ?r ! rtt_index ?r = rtt"
      "least_of (rtt_hist ?r) (rtt_min ?r)" "rtt_expire_ts ?r = now"
    using assms(1) hist_min_least [of 0 "rtt_hist ?r"]
    by (simp_all add: rtt_kept_def rtt_rotate_def Let_def split_beta)
  then have "rtt \<in> set (rtt_hist ?r)" by (metis nth_mem)
  then show "rtt_min ?r \<le> rtt" using r(4) assms(3) least_ofD by blast
  show "rtt_kept E ?r" using r assms(2,3) by (simp add: rtt_kept_def)
qed

lemma slot_cleared:
  assumes "j < (n :: nat)" "i < n" "n \<le> m" "j \<noteq> (i + min m (n + 1)) mod n"
  shows "\<exists>k. i + 1 \<le> k \<and> k < i + min m (n + 1) \<and> k mod n = j"
proof -
  let ?k = "if i < j then j else j + n"
  have "min n (n + 1) = n" by simp
  then have "j \<noteq> i" if "m = n" using assms(2,4) that by auto
  then have "?k < i + min m (n + 1)" using assms(1-3) by (cases "m = n") auto
  then show ?thesis using assms(1,2) by (intro exI [of _ ?k]) simp
qed

lemma rtt_rotate_forgets:
  assumes "rtt_kept E rt" "rtt \<noteq> 0" "NRTT_HIST E \<le> unat ((now - rtt_expire_ts rt) div TCP_RTT_HISTORY_EXPIRE_TIME)"
  shows "rtt_min (rtt_rotate E now rtt rt) = rtt"
proof -
  let ?n = "NRTT_HIST E" and ?r = "rtt_rotate E now rtt rt" and ?i = "rtt_index rt"
  let ?times = "min (unat ((now - rtt_expire_ts rt) div TCP_RTT_HISTORY_EXPIRE_TIME)) (?n + 1)"
  let ?c = "fst (clear_slots ?n (?i + 1) (?i + ?times) (rtt_hist rt))"
  have k: "?i < ?n" "length (rtt_hist rt) = ?n" using assms(1) by (auto simp: rtt_kept_def)
  then have m: "max (?i + 1) (?i + ?times) = ?i + ?times" using assms(3) by auto
  have r: "rtt_hist ?r = ?c[(?i + ?times) mod ?n := rtt]" "rtt_min ?r = hist_min (rtt_hist ?r) 0"
    using m clear_slots_end [of ?n "?i + 1" "?i + ?times" "rtt_hist rt"] by (simp_all add: rtt_rotate_def Let_def split_beta)
  have "h = rtt" if h: "h \<in> set (rtt_hist ?r)" "h \<noteq> 0" for h
  proof -
    obtain j where j: "j < ?n" "rtt_hist ?r ! j = h" using h(1) k by (auto simp: in_set_conv_nth r(1))
    show ?thesis
    proof (cases "j = (?i + ?times) mod ?n")
      case True
      then show ?thesis using j k by (simp add: r(1))
    next
      case False
      obtain q where "?i + 1 \<le> q" "q < ?i + ?times" "q mod ?n = j" using slot_cleared [OF j(1) k(1) assms(3) False] by blast
      then have "?c ! j = 0" using clear_slots_zero [of "?i + 1" q "?i + ?times" ?n "rtt_hist rt"] j(1) k(2) by simp
      then show ?thesis using False j h(2) k by (simp add: r(1))
    qed
  qed
  moreover have "(?i + ?times) mod ?n < length ?c" using k by simp
  then have "rtt \<in> set (rtt_hist ?r)" unfolding r(1) by (rule set_update_memI)
  ultimately show ?thesis
    using least_ofD [of "rtt_hist ?r" "rtt_min ?r" rtt] hist_min_least [of 0 "rtt_hist ?r"] assms(2) r(2) by simp
qed

lemma least_of_update:
  assumes "least_of hs m" "i < length hs" "hs ! i \<noteq> 0" "x \<noteq> 0"
  shows "least_of (hs[i := min (hs ! i) x]) (min m x)"
proof -
  have m: "m \<noteq> 0" "m \<in> set hs" "\<And>h. h \<in> set hs \<Longrightarrow> h \<noteq> 0 \<Longrightarrow> m \<le> h"
    using least_ofD [OF assms(1)] nth_mem [OF assms(2)] assms(3) by blast+
  have i: "min (hs ! i) x \<in> set (hs[i := min (hs ! i) x])" using assms(2) by (rule set_update_memI)
  have le: "m \<le> hs ! i" using m(3) assms(2,3) by simp
  have nz: "min (hs ! i) x \<noteq> 0" "min m x \<noteq> 0" using assms(3,4) m(1) by (simp_all add: min_def)
  have "min m x \<in> set (hs[i := min (hs ! i) x])"
  proof (cases "x \<le> m")
    case True
    then show ?thesis using i le by (simp add: min.absorb2)
  next
    case False
    obtain k where k: "k < length hs" "hs ! k = m" using m(2) by (auto simp: in_set_conv_nth)
    then have "hs[i := min (hs ! i) x] ! k = m" using False by (cases "k = i") simp_all
    then show ?thesis using k False by (metis length_list_update min.absorb1 nle_le nth_mem)
  qed
  moreover have "min m x \<le> h" if "h \<in> set (hs[i := min (hs ! i) x])" "h \<noteq> 0" for h
    using that m(3) le set_update_subset_insert [of hs i "min (hs ! i) x"] by (auto simp: min_le_iff_disj min.coboundedI1 intro: min.mono)
  ultimately show ?thesis using i nz unfolding least_of_def by auto
qed

lemma rtt_note_kept:
  assumes "rtt_kept E rt" "rtt \<noteq> 0"
  shows "rtt_kept E (rtt_note rtt rt)" "rtt_min (rtt_note rtt rt) \<le> rtt"
proof -
  have "rtt_min rt \<noteq> 0" using assms by (auto simp: rtt_kept_def least_of_def split: if_split_asm)
  then show "rtt_kept E (rtt_note rtt rt)" "rtt_min (rtt_note rtt rt) \<le> rtt"
    using assms least_of_update [of "rtt_hist rt" "rtt_min rt" "rtt_index rt" rtt]
    by (auto simp: rtt_kept_def rtt_note_def min_def)
qed

lemma base_route:
  "inp_rt (t_inpcb (update_base_rtt E now tp rtt)) =
     (case inp_rt (t_inpcb tp) of None \<Rightarrow> None
      | Some rt \<Rightarrow> Some (if rtt_expire_ts rt = 0 then rtt_start now rtt rt
          else if rtt_expired now rt then rtt_rotate E now rtt rt else rtt_note rtt rt))"
  by (auto simp: update_base_rtt_def update_curr_rtt_def recv_unthrottle_def Let_def split: option.split)

lemma base_frame:
  "t_srtt (update_base_rtt E now tp rtt) = t_srtt tp" "t_rttvar (update_base_rtt E now tp rtt) = t_rttvar tp"
  "t_rttmin (update_base_rtt E now tp rtt) = t_rttmin tp" "iss (update_base_rtt E now tp rtt) = iss tp"
  "inp_last_outifp (t_inpcb (update_base_rtt E now tp rtt)) = inp_last_outifp (t_inpcb tp)"
  "t_flagsext (update_base_rtt E now tp rtt) AND TF_RECOMPUTE_RTT = t_flagsext tp AND TF_RECOMPUTE_RTT"
proof -
  have "(f AND NOT TF_RECV_THROTTLE) AND TF_RECOMPUTE_RTT = f AND TF_RECOMPUTE_RTT" for f
    by (rule flag_cleared_other) (simp add: TFX_defs)
  then show "t_flagsext (update_base_rtt E now tp rtt) AND TF_RECOMPUTE_RTT = t_flagsext tp AND TF_RECOMPUTE_RTT"
    by (simp add: update_base_rtt_def update_curr_rtt_def recv_unthrottle_def Let_def split: option.split)
qed (auto simp: update_base_rtt_def update_curr_rtt_def recv_unthrottle_def Let_def split: option.split)

text \<open>
  A segment that carries the timestamp option with a zero echo counts as a round trip of no
  time on the receiving side: the base of the route is lost.
\<close>

lemma zero_echo_resets_base:
  assumes "has_flag (to_flags to) TOF_TS" "to_tsecr to = 0"
    and "inp_rt (t_inpcb tp) = Some rt" "rtt_expire_ts rt \<noteq> 0" "\<not> rtt_expired now rt"
  shows "get_base_rtt (tcp_compute_rcv_rtt E now tp to) = 0"
proof -
  have "rcv_rtt_sample E now tp to = Some (0, tp)" using assms(1,2) by (simp add: rcv_rtt_sample_def)
  then show ?thesis using assms(3-)
    by (simp add: tcp_compute_rcv_rtt_def get_base_rtt_def base_route rcv_rtt_smooth_def rtt_note_def Let_def)
qed

subsection \<open>The estimators\<close>

text \<open>
  The estimators are in range: of a sample bounded by \<open>B\<close> the smoothed time has five and the
  deviation four fractional bits.
\<close>

definition est_ok :: "int \<Rightarrow> tcpcb \<Rightarrow> bool" where
  "est_ok B tp \<longleftrightarrow> 0 < t_srtt tp \<and> t_srtt tp \<le> 32 * B \<and> 0 < t_rttvar tp \<and> t_rttvar tp \<le> 16 * B"

lemma smooth_values:
  "t_srtt (rtt_smooth r tp) = max 1 (t_srtt tp - t_srtt tp div 8 + 4 * r)"
  "t_rttvar (rtt_smooth r tp) = max 1 (t_rttvar tp - t_rttvar tp div 4 + \<bar>4 * r - t_srtt tp div 8\<bar>)"
  by (simp_all add: rtt_smooth_def Let_def rtt_defs push_bit_eq_mult drop_bit_eq_div max_def abs_if)

lemma initial_values: "t_srtt (rtt_initial r tp) = 32 * r" "t_rttvar (rtt_initial r tp) = 8 * r"
  by (simp_all add: rtt_initial_def Let_def rtt_defs push_bit_eq_mult)

lemma smooth_ok:
  assumes "est_ok B tp" "1 \<le> r" "r \<le> B"
  shows "est_ok B (rtt_smooth r tp)"
proof -
  have "t_srtt tp - t_srtt tp div 8 \<le> 28 * B" "0 \<le> t_srtt tp div 8" "t_srtt tp div 8 \<le> 4 * B" "t_srtt tp div 8 \<le> t_srtt tp"
    and "t_rttvar tp - t_rttvar tp div 4 \<le> 12 * B"
    using assms(1) by (auto simp: est_ok_def)
  then show ?thesis using assms(2,3) by (auto simp: est_ok_def smooth_values abs_if)
qed

lemma initial_ok: "1 \<le> r \<Longrightarrow> r \<le> B \<Longrightarrow> est_ok B (rtt_initial r tp)"
  by (simp add: est_ok_def initial_values)

lemma clip_range: "0 < TCPTV_MSL E \<Longrightarrow> 0 \<le> r \<Longrightarrow> 1 \<le> rtt_clip E r \<and> rtt_clip E r \<le> 4 * TCPTV_MSL E"
  by (simp add: rtt_clip_def Let_def)

lemma clip_same: "1 \<le> r \<Longrightarrow> r \<le> 4 * TCPTV_MSL E \<Longrightarrow> rtt_clip E r = r"
  by (simp add: rtt_clip_def Let_def)

lemma est_frame:
  "iss (rtt_smooth r tp) = iss tp" "t_inpcb (rtt_smooth r tp) = t_inpcb tp" "t_flagsext (rtt_smooth r tp) = t_flagsext tp"
  "iss (rtt_initial r tp) = iss tp" "t_inpcb (rtt_initial r tp) = t_inpcb tp" "t_flagsext (rtt_initial r tp) = t_flagsext tp"
  "t_rttmin (rtt_smooth r tp) = t_rttmin tp" "t_rttmin (rtt_initial r tp) = t_rttmin tp"
  by (simp_all add: rtt_smooth_def rtt_initial_def Let_def)

text \<open>
  A connection that takes samples: no spurious timeout is being repaired, and the interface
  has not the peculiarity of the first sample.
\<close>

definition sampling :: "'e rtt_env_scheme \<Rightarrow> tcpcb \<Rightarrow> bool" where
  "sampling E tp \<longleftrightarrow> \<not> has_flag (t_flagsext tp) TF_RECOMPUTE_RTT
     \<and> (\<forall>ifp. inp_last_outifp (t_inpcb tp) = Some ifp \<longrightarrow> \<not> has_flag (if_eflags ifp) (IFEF_AWDL E))"

lemma xmit_timer_spec:
  assumes s: "sampling E tp" and r: "0 \<le> rtt" and B: "0 < TCPTV_MSL E"
  shows "\<exists>tp'. tcp_xmit_timer E now tp rtt tsecr ack = Some tp' \<and> sampling E tp' \<and> t_rttmin tp' = t_rttmin tp
    \<and> (t_srtt tp', t_rttvar tp') = (if t_srtt tp = 0 then (32 * rtt_clip E rtt, 8 * rtt_clip E rtt)
         else (max 1 (t_srtt tp - t_srtt tp div 8 + 4 * rtt_clip E rtt),
               max 1 (t_rttvar tp - t_rttvar tp div 4 + \<bar>4 * rtt_clip E rtt - t_srtt tp div 8\<bar>)))
    \<and> (\<exists>add. t_rxtcur tp' = TCPT_RANGESET E (sint (TCP_REXMTVAL tp'))
         (sint (max (t_rttmin tp) (word_of_int (rtt_clip E rtt + 2)))) (TCPTV_REXMTMAX E) add)"
proof -
  let ?r = "rtt_clip E rtt"
  let ?b = "update_base_rtt E now (tp\<lparr>t_rttupdated := t_rttupdated tp + 1, t_rttcur := word_of_int ?r\<rparr>) (word_of_int ?r)"
  let ?e = "if t_srtt ?b \<noteq> 0 then rtt_smooth ?r ?b else rtt_initial ?r ?b"
  have a: "\<not> awdl_syn_sample E tp ack" using s by (auto simp: sampling_def awdl_syn_sample_def split: option.split)
  have x: "tcp_xmit_timer E now tp rtt tsecr ack = Some (compute_rto E ?r ?e)"
    using s a r by (simp add: tcp_xmit_timer_def Let_def sampling_def)
  have v: "TCP_REXMTVAL (compute_rto E ?r ?e) = TCP_REXMTVAL ?e"
    by (simp add: TCP_REXMTVAL_def compute_rto_def)
  have m: "t_rttmin ?e = t_rttmin tp" by (simp add: est_frame base_frame)
  have "sampling E (compute_rto E ?r ?e)"
    using s by (simp add: sampling_def compute_rto_def est_frame base_frame)
  moreover have "(t_srtt (compute_rto E ?r ?e), t_rttvar (compute_rto E ?r ?e)) = (if t_srtt tp = 0 then (32 * ?r, 8 * ?r)
      else (max 1 (t_srtt tp - t_srtt tp div 8 + 4 * ?r), max 1 (t_rttvar tp - t_rttvar tp div 4 + \<bar>4 * ?r - t_srtt tp div 8\<bar>)))"
    by (simp add: compute_rto_def base_frame smooth_values initial_values)
  moreover have "t_rxtcur (compute_rto E ?r ?e) = TCPT_RANGESET E (sint (TCP_REXMTVAL ?e))
      (sint (max (t_rttmin tp) (word_of_int (?r + 2)))) (TCPTV_REXMTMAX E) (TCP_ADD_REXMTSLOP E ?e)"
    unfolding compute_rto_def m by simp
  moreover have "t_rttmin (compute_rto E ?r ?e) = t_rttmin tp" using m by (simp add: compute_rto_def)
  ultimately show ?thesis unfolding x option.inject v [symmetric] by blast
qed

text \<open>A run of samples: the clock, the measured time, the echoed timestamp and the acknowledgement of each.\<close>

primrec rtt_run :: "'e rtt_env_scheme \<Rightarrow> tcpcb \<Rightarrow> (u32 \<times> int \<times> u32 \<times> u32) list \<Rightarrow> tcpcb option" where
  "rtt_run E tp [] = Some tp"
| "rtt_run E tp (x # xs) =
     (case x of (now, rtt, tsecr, ack) \<Rightarrow> Option.bind (tcp_xmit_timer E now tp rtt tsecr ack) (\<lambda>tp. rtt_run E tp xs))"

abbreviation sample_rtt :: "u32 \<times> int \<times> u32 \<times> u32 \<Rightarrow> int" where "sample_rtt x \<equiv> fst (snd x)"

lemma xmit_timer_ok:
  assumes "sampling E tp" "0 \<le> rtt" "0 < TCPTV_MSL E" "t_srtt tp = 0 \<or> est_ok (4 * TCPTV_MSL E) tp"
  shows "\<exists>tp'. tcp_xmit_timer E now tp rtt tsecr ack = Some tp' \<and> sampling E tp' \<and> t_rttmin tp' = t_rttmin tp
    \<and> est_ok (4 * TCPTV_MSL E) tp'"
proof -
  obtain tp' where x: "tcp_xmit_timer E now tp rtt tsecr ack = Some tp'" "sampling E tp'" "t_rttmin tp' = t_rttmin tp"
      and v: "(t_srtt tp', t_rttvar tp') = (if t_srtt tp = 0 then (32 * rtt_clip E rtt, 8 * rtt_clip E rtt)
        else (max 1 (t_srtt tp - t_srtt tp div 8 + 4 * rtt_clip E rtt),
              max 1 (t_rttvar tp - t_rttvar tp div 4 + \<bar>4 * rtt_clip E rtt - t_srtt tp div 8\<bar>)))"
    using xmit_timer_spec [OF assms(1-3)] by blast
  have c: "1 \<le> rtt_clip E rtt" "rtt_clip E rtt \<le> 4 * TCPTV_MSL E" using clip_range assms(2,3) by blast+
  have "est_ok (4 * TCPTV_MSL E) tp'"
    using v initial_ok [OF c, of tp] smooth_ok [OF _ c, of tp] assms(4)
    by (auto simp: est_ok_def initial_values smooth_values split: if_split_asm)
  then show ?thesis using x by blast
qed

lemma rtt_run_ok:
  assumes "sampling E tp" "0 < TCPTV_MSL E" "\<forall>x\<in>set xs. 0 \<le> sample_rtt x" "est_ok (4 * TCPTV_MSL E) tp"
  shows "\<exists>tp'. rtt_run E tp xs = Some tp' \<and> t_rttmin tp' = t_rttmin tp \<and> est_ok (4 * TCPTV_MSL E) tp'"
  using assms(1,3,4)
proof (induction xs arbitrary: tp)
  case (Cons x xs)
  obtain now rtt tsecr ack where x: "x = (now, rtt, tsecr, ack)" by (cases x) auto
  obtain tp' where "tcp_xmit_timer E now tp rtt tsecr ack = Some tp'" "sampling E tp'" "t_rttmin tp' = t_rttmin tp"
      "est_ok (4 * TCPTV_MSL E) tp'"
    using xmit_timer_ok [OF Cons.prems(1) _ assms(2)] Cons.prems(2,3) x by fastforce
  then show ?case using Cons.IH [of tp'] Cons.prems(2) x by auto
qed simp

lemma const_run:
  assumes "sampling E tp" "0 < TCPTV_MSL E" "1 \<le> r" "r \<le> 4 * TCPTV_MSL E" "\<forall>x\<in>set xs. sample_rtt x = r"
    and "t_srtt tp = 32 * r" "1 \<le> t_rttvar tp" "t_rttvar tp \<le> max 3 k"
  shows "\<exists>tp'. rtt_run E tp xs = Some tp' \<and> t_rttmin tp' = t_rttmin tp \<and> t_srtt tp' = 32 * r
    \<and> 1 \<le> t_rttvar tp' \<and> t_rttvar tp' \<le> max 3 (k - int (length xs))"
  using assms(1,5-)
proof (induction xs arbitrary: tp k)
  case (Cons x xs)
  obtain now rtt tsecr ack where x: "x = (now, rtt, tsecr, ack)" by (cases x) auto
  have r: "rtt_clip E rtt = r" "0 \<le> rtt" using Cons.prems(2) x clip_same [OF assms(3,4)] assms(3) by auto
  obtain tp' where t: "tcp_xmit_timer E now tp rtt tsecr ack = Some tp'" "sampling E tp'" "t_rttmin tp' = t_rttmin tp"
      and v: "(t_srtt tp', t_rttvar tp') = (max 1 (32 * r - 4 * r + 4 * r),
              max 1 (t_rttvar tp - t_rttvar tp div 4 + \<bar>4 * r - 4 * r\<bar>))"
    using xmit_timer_spec [OF Cons.prems(1) r(2) assms(2), of now tsecr ack] Cons.prems(3) assms(3)
    unfolding r(1) by (auto simp: max_def)
  have "t_srtt tp' = 32 * r" "1 \<le> t_rttvar tp'" "t_rttvar tp' \<le> max 3 (k - 1)"
    using v assms(3) Cons.prems(5) by auto
  then show ?case using Cons.IH [of tp' "k - 1"] Cons.prems(2) t x by (auto simp: algebra_simps)
qed simp

subsection \<open>Properties\<close>

definition rtt_env_zero :: rtt_env where
  "rtt_env_zero = dup_env.extend dup_env_zero
     (rtt_env.fields 16 15000 64000 60000 5000 12 (\<lambda>v lo hi add. max lo (min hi (v + (if add then 200 else 0)))) (\<lambda>_. True)
       0x100 100 1 100 0 0x10 (\<lambda>_. False) 0 16384 200)"

lemmas rtt_env_zero_simps = rtt_env_zero_def rtt_env.defs dup_env_zero_simps

lemma rtt_env_zero_sel: "NRTT_HIST rtt_env_zero = 16" "TCPTV_MSL rtt_env_zero = 15000"
  by (simp_all add: rtt_env_zero_simps)

text \<open>
  The base round-trip time of a route is the least sample of the minutes it
  remembers: every sample keeps it so, whatever time has passed, it never exceeds the sample
  just taken, and after as many idle minutes as there are slots it is that sample, nothing
  older being remembered.
\<close>

lemma base_rtt_window:
  assumes "inp_rt (t_inpcb tp) = Some rt" "rtt_fresh E rt \<or> rtt_kept E rt"
    and "0 < NRTT_HIST E" "now \<noteq> 0" "rtt \<noteq> 0"
  shows "\<exists>rt'. inp_rt (t_inpcb (update_base_rtt E now tp rtt)) = Some rt' \<and> rtt_kept E rt'
    \<and> 0 < get_base_rtt (update_base_rtt E now tp rtt) \<and> get_base_rtt (update_base_rtt E now tp rtt) \<le> rtt
    \<and> (rtt_expired now rt \<and> NRTT_HIST E \<le> unat ((now - rtt_expire_ts rt) div TCP_RTT_HISTORY_EXPIRE_TIME)
       \<longrightarrow> get_base_rtt (update_base_rtt E now tp rtt) = rtt)"
proof -
  let ?rt = "if rtt_expire_ts rt = 0 then rtt_start now rtt rt
    else if rtt_expired now rt then rtt_rotate E now rtt rt else rtt_note rtt rt"
  have e: "inp_rt (t_inpcb (update_base_rtt E now tp rtt)) = Some ?rt" using assms(1) by (simp add: base_route)
  have fresh: "rtt_fresh E rt \<longleftrightarrow> rtt_expire_ts rt = 0" using assms(2) by (auto simp: rtt_fresh_def rtt_kept_def)
  have "rtt_kept E ?rt" "rtt_min ?rt \<le> rtt"
    using assms fresh rtt_start_kept [of E rt now rtt] rtt_rotate_kept [of E rt now rtt] rtt_note_kept [of E rt rtt]
    by (auto simp: rtt_start_def)
  moreover have "0 < rtt_min ?rt"
    using \<open>rtt_kept E ?rt\<close> nth_mem least_ofD by (metis rtt_kept_def word_neq_0_conv)
  moreover have "rtt_min ?rt = rtt" if "rtt_expired now rt"
      "NRTT_HIST E \<le> unat ((now - rtt_expire_ts rt) div TCP_RTT_HISTORY_EXPIRE_TIME)"
    using that assms(2,5) fresh rtt_rotate_forgets [of E rt rtt now] by (auto simp: rtt_start_def)
  ultimately show ?thesis using e by (simp add: get_base_rtt_def)
qed

definition demo_route :: rtentry where
  "demo_route = \<lparr>rtt_hist = replicate 16 0, rtt_index = 0, rtt_expire_ts = 0, rtt_min = 0\<rparr>"

text \<open>
  Whatever is measured, the estimators stay in their range: any run of samples,
  however wild, returns, leaves a positive smoothed time of at most four segment lifetimes
  and a positive deviation, and a timeout between the minimum and five times the largest
  sample; no intermediate value leaves the range of the C type.
\<close>

lemma rtt_estimate_bounded:
  assumes "sampling E tp" "0 < TCPTV_MSL E" "192 * TCPTV_MSL E < 2 ^ 31"
    and "t_srtt tp = 0 \<or> est_ok (4 * TCPTV_MSL E) tp" "xs \<noteq> []" "\<forall>x\<in>set xs. 0 \<le> sample_rtt x"
  shows "\<exists>tp'. rtt_run E tp xs = Some tp' \<and> est_ok (4 * TCPTV_MSL E) tp'
    \<and> uint (t_rttmin tp) \<le> uint (TCP_REXMTVAL tp')
    \<and> uint (TCP_REXMTVAL tp') \<le> max (uint (t_rttmin tp)) (5 * (4 * TCPTV_MSL E))"
proof -
  obtain now rtt tsecr ack ys where xs: "xs = (now, rtt, tsecr, ack) # ys" using assms(5) by (cases xs) auto
  obtain tp1 where 1: "tcp_xmit_timer E now tp rtt tsecr ack = Some tp1" "sampling E tp1" "t_rttmin tp1 = t_rttmin tp"
      "est_ok (4 * TCPTV_MSL E) tp1"
    using xmit_timer_ok [OF assms(1) _ assms(2,4)] assms(6) xs by fastforce
  obtain tp' where 2: "rtt_run E tp1 ys = Some tp'" "t_rttmin tp' = t_rttmin tp1" "est_ok (4 * TCPTV_MSL E) tp'"
    using rtt_run_ok [OF 1(2) assms(2) _ 1(4)] assms(6) xs by fastforce
  have "uint (TCP_REXMTVAL tp') = max (uint (t_rttmin tp)) ((t_srtt tp' div 8 + t_rttvar tp') div 4)"
    using TCP_REXMTVAL_eq [of tp'] 1(3) 2(2,3) assms(3) by (simp add: est_ok_def)
  moreover have "(t_srtt tp' div 8 + t_rttvar tp') div 4 \<le> 5 * (4 * TCPTV_MSL E)" using 2(3) by (auto simp: est_ok_def)
  ultimately show ?thesis using 1 2 xs by (auto simp: max_def)
qed

text \<open>
  Property C26. On a path of constant round-trip time the timeout settles: after the first
  sample of \<open>r\<close> milliseconds and eight times as many more as it has milliseconds, the
  unscaled timeout is exactly \<open>r\<close>, or the minimum if that is larger.
\<close>

theorem rto_converges:
  assumes "sampling E tp" "0 < TCPTV_MSL E" "192 * TCPTV_MSL E < 2 ^ 31" "t_srtt tp = 0"
    and "1 \<le> r" "r \<le> 4 * TCPTV_MSL E" "\<forall>x\<in>set xs. sample_rtt x = r" "8 * r < int (length xs)"
  shows "\<exists>tp'. rtt_run E tp xs = Some tp' \<and> uint (TCP_REXMTVAL tp') = max (uint (t_rttmin tp)) r"
proof -
  obtain now tsecr ack ys where xs: "xs = (now, r, tsecr, ack) # ys" using assms(5,7,8) by (cases xs) auto
  obtain tp1 where 1: "tcp_xmit_timer E now tp r tsecr ack = Some tp1" "sampling E tp1" "t_rttmin tp1 = t_rttmin tp"
      "t_srtt tp1 = 32 * r" "t_rttvar tp1 = 8 * r"
    using xmit_timer_spec [OF assms(1) _ assms(2), of r now tsecr ack] clip_same [OF assms(5,6)] assms(4,5) by auto
  obtain tp' where 2: "rtt_run E tp1 ys = Some tp'" "t_rttmin tp' = t_rttmin tp1" "t_srtt tp' = 32 * r" "1 \<le> t_rttvar tp'"
      "t_rttvar tp' \<le> max 3 (8 * r - int (length ys))"
    using const_run [OF 1(2) assms(2,5,6), of ys "8 * r"] 1(4,5) assms(5,7) xs by auto
  have "t_rttvar tp' \<le> 3" using 2(5) assms(8) xs by auto
  then have "uint (TCP_REXMTVAL tp') = max (uint (t_rttmin tp)) r"
    using TCP_REXMTVAL_eq [of tp'] 1(3) 2(2-4) assms(3,5,6) by (simp add: max_def)
  then show ?thesis using 1(1) 2(1) xs by auto
qed

theorem rto_converges_witness:
  "\<exists>tp'. rtt_run rtt_env_zero tcpcb_zero (replicate 300 (9, 30, 0, 1)) = Some tp' \<and> uint (TCP_REXMTVAL tp') = 30"
proof -
  have "\<forall>x\<in>set (replicate 300 (9 :: u32, 30 :: int, 0 :: u32, 1 :: u32)). sample_rtt x = 30" by simp
  moreover have "sampling rtt_env_zero tcpcb_zero" by (simp add: sampling_def tcpcb_zero_def inpcb_zero_def)
  ultimately show ?thesis
    using rto_converges [of rtt_env_zero tcpcb_zero 30 "replicate 300 (9, 30, 0, 1)"]
    by (simp add: rtt_env_zero_sel tcpcb_zero_def)
qed

end
