(* ===== verification/Timers.thy ===== *)
theory Timers
  imports Rtt
begin

text \<open>
  The timer handlers, \<^verbatim>\<open>tcp_timers\<close> of \<^verbatim>\<open>reference/xnu/tcp_timer.c\<close>, one definition per timer and
  one per step of the retransmission timer, and the keep-alive operations of \<^verbatim>\<open>tcp_input.c\<close>. A
  handler returns the control block, or the call it ends with: \<^verbatim>\<open>tcp_drop\<close> with an error, or
  \<^verbatim>\<open>tcp_close\<close>; \<open>None\<close> is a failed \<^verbatim>\<open>VERIFY\<close> or a null dereference. Statistics, log lines and
  socket events have no state here. The multipath steps, the SACK scoreboard and the RACK
  functions are fields of \<open>timer_env\<close>, with the constants of the headers that are not among
  the sources and the variables that can be set from outside.
\<close>

record timer_env = rtt_env +
  TSTMP_LT :: "u32 \<Rightarrow> u32 \<Rightarrow> bool"
  TSTMP_LEQ :: "u32 \<Rightarrow> u32 \<Rightarrow> bool"
  TCPS_NUM :: "tcp_state \<Rightarrow> nat"
  TCPS_HAVEESTABLISHED :: "tcp_state \<Rightarrow> bool"
  TCP_CONN_KEEPIDLE :: "tcpcb \<Rightarrow> int"
  TCP_CONN_KEEPINTVL :: "tcpcb \<Rightarrow> int"
  TCP_CONN_MAXIDLE :: "tcpcb \<Rightarrow> int"
  TCPTV_SRTTBASE :: int
  TCPTV_RTOBASE :: int
  TCPTV_REXMTMIN :: u32
  ETIMEDOUT :: int
  ENODATA :: int
  INP_IS_IPV4 :: "inpcb \<Rightarrow> bool"
  INP_WAIT_FOR_IF_FEEDBACK :: "inpcb \<Rightarrow> bool"
  SOF_FLOW_DIVERT :: u32
  SO_KEEPALIVE :: u32
  IFEF_PROBE_CONNECTIVITY :: u32
  TCP_LINK_HEUR_SYNRMXT :: u32
  TCP_LINK_HEUR_RTOMIN :: u32
  tcp_link_heuristics_rto_min :: int
  tcp_mssdflt :: u32
  tcp_v6mssdflt :: u32
  tcp_pmtud_black_hole_mss :: u32
  tcp_pmtud_black_hole_detect :: int
  tcp_broken_peer_syn_rxmit_thres :: int
  tcp_maxpersistidle :: int
  always_keepalive :: int
  tcp_fin_timeout :: int
  in_losing :: "inpcb \<Rightarrow> inpcb"
  in6_losing :: "inpcb \<Rightarrow> inpcb"
  tcp_free_sackholes :: "tcpcb \<Rightarrow> tcpcb"
  tcp_segs_clear_sacked :: "tcpcb \<Rightarrow> tcpcb"
  tcp_rack_loss_on_rto :: "tcpcb \<Rightarrow> tcpcb"
  tcp_rack_reordering_timeout :: "tcpcb \<Rightarrow> tcpcb"
  tcp_heuristic_tfo_middlebox :: "tcpcb \<Rightarrow> tcpcb"
  mptcp_fail_thresh :: u16
  mptcp_act_on_txfail :: "tcpcb \<Rightarrow> tcpcb"
  mptcp_handover_check :: "tcpcb \<Rightarrow> tcpcb"
  mptcp_keepalive_refused :: "tcpcb \<Rightarrow> bool"
  tcp_send_keep_alive :: "tcpcb \<Rightarrow> bool"
  tcp_check_timer_state :: "tcpcb \<Rightarrow> tcpcb"
  cellicon_timer :: "tcpcb \<Rightarrow> tcpcb"

datatype timers_result = TLive tcpcb | TDrop tcpcb int | TClose tcpcb

definition TCP_SLEEP_TOO_LONG :: u64 where "TCP_SLEEP_TOO_LONG = 10 * 60 * 1000"
definition TCP_STRETCHACK_DELAY_THRESHOLD :: u8 where "TCP_STRETCHACK_DELAY_THRESHOLD = 5"
definition TCP_CONNECTIVITY_PROBES_MAX :: u8 where "TCP_CONNECTIVITY_PROBES_MAX = 5"
definition TCP_FORCED_ACKS_COUNT :: u16 where "TCP_FORCED_ACKS_COUNT = 16"

definition CLEAR_IAJ_STATE :: "tcpcb \<Rightarrow> tcpcb" where "CLEAR_IAJ_STATE tp = tp\<lparr>iaj_rcv_ts := 0\<rparr>"

definition tcp_disable_tfo :: "tcpcb \<Rightarrow> tcpcb" where
  "tcp_disable_tfo tp = tp\<lparr>t_flagsext := t_flagsext tp AND NOT TF_FASTOPEN\<rparr>"

definition tcp_set_link_heur_rtomin :: "'e timer_env_scheme \<Rightarrow> tcpcb \<Rightarrow> tcpcb" where
  "tcp_set_link_heur_rtomin E tp =
     (let ifp = inp_last_outifp (t_inpcb tp) in
      if has_flag (tcp_link_heuristics_flags E) (TCP_LINK_HEUR_RTOMIN E) \<and> ifp \<noteq> None \<and> if_link_heuristics_enabled E ifp
         \<and> t_rxtcur tp < tcp_link_heuristics_rto_min E
      then tp\<lparr>t_rxtcur := tcp_link_heuristics_rto_min E\<rparr> else tp)"

definition idle_time :: "u32 \<Rightarrow> tcpcb \<Rightarrow> int" where
  "idle_time now tp = sint (now - t_rcvtime tp)"

subsection \<open>Keep-alive operations\<close>

definition tcp_adaptive_rwtimo_check :: "'e timer_env_scheme \<Rightarrow> tcpcb \<Rightarrow> int \<Rightarrow> tcpcb" where
  "tcp_adaptive_rwtimo_check E tp tlen =
     (if (t_adaptive_rtimo tp > 0 \<or> (case inp_last_outifp (t_inpcb tp) of None \<Rightarrow> False
            | Some ifp \<Rightarrow> has_flag (if_eflags ifp) (IFEF_PROBE_CONNECTIVITY E)))
         \<and> tlen > 0 \<and> t_state tp = TCPS_ESTABLISHED
      then (set_timer TCPT_KEEP (OFFSET_FROM_START E tp (push_bit 1 (TCP_REXMTVAL tp))) tp)
             \<lparr>t_flagsext := t_flagsext tp OR TF_DETECT_READSTALL, t_rtimo_probes := 0\<rparr>
      else tp)"

definition tcp_keepalive_reset :: "'e timer_env_scheme \<Rightarrow> tcpcb \<Rightarrow> tcpcb" where
  "tcp_keepalive_reset E tp =
     (set_timer TCPT_KEEP (OFFSET_FROM_START E tp (word_of_int (TCP_CONN_KEEPIDLE E tp))) tp)
       \<lparr>t_flagsext := t_flagsext tp AND NOT TF_DETECT_READSTALL, t_rtimo_probes := 0\<rparr>"

definition tcp_set_finwait_timeout :: "'e timer_env_scheme \<Rightarrow> tcpcb \<Rightarrow> tcpcb" where
  "tcp_set_finwait_timeout E tp =
     (if tcp_fin_timeout E > 0 \<and> tcp_fin_timeout E < TCP_CONN_MAXIDLE E tp
      then set_timer TCPT_2MSL (OFFSET_FROM_START E tp (word_of_int (tcp_fin_timeout E))) tp
      else set_timer TCPT_2MSL (OFFSET_FROM_START E tp (word_of_int (TCP_CONN_MAXIDLE E tp))) tp)"

subsection \<open>The retransmission timer\<close>

definition last_sleep_ms :: "u64 \<Rightarrow> tcpcb \<Rightarrow> u64" where
  "last_sleep_ms accsleep_ms tp = (if accsleep_ms > t_accsleep_ms tp then accsleep_ms - t_accsleep_ms tp else 0)"

definition rexmt_give_up :: "'e timer_env_scheme \<Rightarrow> u32 \<Rightarrow> u64 \<Rightarrow> tcpcb \<Rightarrow> bool" where
  "rexmt_give_up E now slept tp \<longleftrightarrow>
     t_rxtshift tp > TCP_MAXRXTSHIFT E
     \<or> t_rxt_conndroptime tp > 0 \<and> t_rxtstart tp > 0 \<and> now - t_rxtstart tp \<ge> t_rxt_conndroptime tp
     \<or> has_flag (t_flagsext tp) TF_RXTFINDROP \<and> has_flag (t_flags tp) TF_SENTFIN \<and> t_rxtshift tp \<ge> 4
     \<or> t_rxtshift tp > 4 \<and> slept \<ge> TCP_SLEEP_TOO_LONG"

definition rexmt_first :: "u32 \<Rightarrow> u64 \<Rightarrow> tcpcb \<Rightarrow> tcpcb" where
  "rexmt_first now accsleep_ms tp =
     (let tp = tp\<lparr>t_accsleep_ms := accsleep_ms\<rparr> in
      if t_rxtshift tp = 1 \<and> t_state tp = TCPS_ESTABLISHED then tcp_rexmt_save_state (tp\<lparr>t_rxtstart := now\<rparr>) else tp)"

definition rexmt_mptcp :: "'e timer_env_scheme \<Rightarrow> tcpcb \<Rightarrow> tcpcb" where
  "rexmt_mptcp E tp =
     (let tp = (if t_rxtshift tp \<ge> mptcp_fail_thresh E \<and> t_state tp = TCPS_ESTABLISHED
                   \<and> has_flag (t_mpflags tp) TMPF_MPTCP_TRUE then mptcp_act_on_txfail E tp else tp)
      in if TCPS_HAVEESTABLISHED E (t_state tp) \<and> has_flag (so_flags (inp_socket (t_inpcb tp))) (SOF_MP_SUBFLOW E)
         then mptcp_handover_check E tp else tp)"

definition rexmt_flags :: "tcpcb \<Rightarrow> tcpcb" where
  "rexmt_flags tp =
     (let tp = (if has_flag (t_flagsext tp) TF_SENT_TLPROBE
                then tp\<lparr>t_flagsext := t_flagsext tp AND NOT TF_SENT_TLPROBE\<rparr> else tp)
      in if has_flag (t_flagsext tp) TF_DELAY_RECOVERY
         then (set_timer TCPT_DELAYFR 0 (tp\<lparr>t_reorderwin := 0\<rparr>))\<lparr>t_flagsext := t_flagsext tp AND NOT TF_DELAY_RECOVERY\<rparr>
         else tp)"

definition tfo_send_failed :: "'e timer_env_scheme \<Rightarrow> tcpcb \<Rightarrow> tcpcb" where
  "tfo_send_failed E tp = upd_so (\<lambda>so. so\<lparr>so_error := ENODATA E\<rparr>) (tcp_heuristic_tfo_middlebox E tp)"

definition rexmt_tfo :: "'e timer_env_scheme \<Rightarrow> tcpcb \<Rightarrow> tcpcb" where
  "rexmt_tfo E tp =
     (let tp = (if \<not> has_flag (t_flagsext tp) TF_FASTOPEN_FORCE_ENABLE \<and> t_state tp = TCPS_SYN_RECEIVED
                then tcp_disable_tfo tp else tp);
          tp = (if \<not> has_flag (t_flagsext tp) TF_FASTOPEN_FORCE_ENABLE \<and> \<not> has_flag (t_tfo_flags tp) TFO_F_HEURISTIC_DONE
                   \<and> has_flag (t_tfo_stats tp) TFO_S_SYN_DATA_SENT \<and> \<not> has_flag (t_tfo_flags tp) TFO_F_NO_SNDPROBING
                   \<and> (t_state tp \<noteq> TCPS_SYN_SENT \<and> t_rxtshift tp > 1 \<or> t_rxtshift tp > 4)
                then (let tp = tfo_send_failed E tp in tp\<lparr>t_tfo_stats := t_tfo_stats tp OR TFO_S_SEND_BLACKHOLE\<rparr>)
                else tp)
      in if \<not> has_flag (t_flagsext tp) TF_FASTOPEN_FORCE_ENABLE \<and> \<not> has_flag (t_tfo_flags tp) TFO_F_HEURISTIC_DONE
            \<and> has_flag (t_tfo_stats tp) TFO_S_SYN_DATA_ACKED \<and> t_rxtshift tp > 3
            \<and> TSTMP_GT E (t_sndtime tp - 10 * TCP_RETRANSHZ) (t_rcvtime tp)
         then tfo_send_failed E tp else tp)"

text \<open>The back-off: the value before the slop and the bounds.\<close>

definition rexmt_value :: "'e timer_env_scheme \<Rightarrow> tcpcb \<Rightarrow> int" where
  "rexmt_value E tp =
     (let table = (if t_state tp = TCPS_SYN_SENT
            \<and> \<not> (has_flag (tcp_link_heuristics_flags E) (TCP_LINK_HEUR_SYNRMXT E)
                 \<and> if_link_heuristics_enabled E (inp_last_outifp (t_inpcb tp)))
          then tcp_syn_backoff else tcp_backoff)
      in sint (TCP_REXMTVAL tp * word_of_int (table ! unat (t_rxtshift tp))))"

definition rexmt_syn :: "tcpcb \<Rightarrow> tcpcb" where
  "rexmt_syn tp =
     (if t_state tp = TCPS_SYN_SENT then
        (let tp = tp\<lparr>t_stat := (t_stat tp)\<lparr>synrxtshift := t_rxtshift tp, rxmitsyns := rxmitsyns (t_stat tp) + 1\<rparr>\<rparr>
         in if TFO_ENABLED tp \<and> \<not> has_flag (t_flagsext tp) TF_FASTOPEN_FORCE_ENABLE
            then (tcp_disable_tfo tp)\<lparr>t_tfo_flags := t_tfo_flags tp OR TFO_F_SYN_LOSS\<rparr> else tp)
      else tp)"

definition rexmt_backoff :: "'e timer_env_scheme \<Rightarrow> tcpcb \<Rightarrow> tcpcb" where
  "rexmt_backoff E tp =
     (let rexmt = rexmt_value E tp;
          tp = rexmt_syn tp;
          tp = tp\<lparr>t_rxtcur := TCPT_RANGESET E rexmt (sint (t_rttmin tp)) (TCPTV_REXMTMAX E) (TCP_ADD_REXMTSLOP E tp)\<rparr>;
          tp = tcp_set_link_heur_rtomin E tp
      in set_timer TCPT_REXMT (OFFSET_FROM_START E tp (word_of_int (t_rxtcur tp))) tp)"

definition tcp_pmtud_black_holed_next_mss :: "'e timer_env_scheme \<Rightarrow> tcpcb \<Rightarrow> u32" where
  "tcp_pmtud_black_holed_next_mss E tp =
     (if t_maxopd tp > tcp_pmtud_black_hole_mss E then tcp_pmtud_black_hole_mss E
      else if INP_IS_IPV4 E (t_inpcb tp) then tcp_mssdflt E else tcp_v6mssdflt E)"

definition black_hole_enter :: "'e timer_env_scheme \<Rightarrow> cubic_params \<Rightarrow> u32 \<Rightarrow> tcpcb \<Rightarrow> tcpcb option" where
  "black_hole_enter E P now tp =
     do {
       let tp = tp\<lparr>t_flags := (t_flags tp AND NOT TF_PMTUD) OR TF_BLACKHOLE\<rparr>;
       let optlen = t_maxopd tp - t_maxseg tp;
       let tp = tp\<lparr>t_pmtud_saved_maxopd := t_maxopd tp, t_pmtud_start_ts := (if now = 0 then 1 else now)\<rparr>;
       let tp = tp\<lparr>t_maxopd := tcp_pmtud_black_holed_next_mss E tp\<rparr>;
       let tp = tp\<lparr>t_maxseg := t_maxopd tp - optlen\<rparr>;
       algo \<leftarrow> CC_ALGO E P now tp;
       tp \<leftarrow> run_hook (cwnd_init algo) tp;
       let tp = tp\<lparr>snd_cwnd := t_maxseg tp\<rparr>;
       Some (case rledbat_rwnd_init E of Some f \<Rightarrow> if TCP_USE_RLEDBAT E tp then f tp else tp | None \<Rightarrow> tp)
     }"

definition rexmt_black_hole :: "'e timer_env_scheme \<Rightarrow> cubic_params \<Rightarrow> u32 \<Rightarrow> tcpcb \<Rightarrow> tcpcb option" where
  "rexmt_black_hole E P now tp =
     (if tcp_pmtud_black_hole_detect E \<noteq> 0 \<and> \<not> has_flag (t_flagsext tp) TF_NOBLACKHOLE_DETECTION
         \<and> t_state tp = TCPS_ESTABLISHED
      then
        (if has_flag (t_flags tp) TF_PMTUD \<and> ucast (t_pmtud_lastseg_size tp) > tcp_pmtud_black_holed_next_mss E tp
            \<and> t_rxtshift tp = 2
         then black_hole_enter E P now tp
         else if has_flag (t_flags tp) TF_BLACKHOLE \<and> t_rxtshift tp > 4
         then map_option (\<lambda>tp. tp\<lparr>snd_cwnd := t_maxseg tp\<rparr>) (tcp_pmtud_revert_segment_size E P now tp)
         else Some tp)
      else Some tp)"

definition rexmt_losing :: "'e timer_env_scheme \<Rightarrow> tcpcb \<Rightarrow> tcpcb" where
  "rexmt_losing E tp =
     (if t_rxtshift tp > TCP_MAXRXTSHIFT E div 4 then
        tp\<lparr>t_inpcb := (if \<not> INP_IS_IPV4 E (t_inpcb tp) then in6_losing E (t_inpcb tp) else in_losing E (t_inpcb tp)),
           t_rttvar := t_rttvar tp + drop_bit TCP_RTT_SHIFT (t_srtt tp), t_srtt := 0\<rparr>
      else tp)"

definition rexmt_rewind :: "'e timer_env_scheme \<Rightarrow> tcpcb \<Rightarrow> tcpcb" where
  "rexmt_rewind E tp =
     (let tp = tp\<lparr>snd_nxt := snd_una tp, snd_recover := snd_max tp, t_flags := t_flags tp OR TF_ACKNOW\<rparr> in
      if TCPS_NUM E (t_state tp) \<ge> TCPS_NUM E TCPS_ESTABLISHED
         \<or> (case inp_last_outifp (t_inpcb tp) of None \<Rightarrow> False | Some ifp \<Rightarrow> \<not> if_cellular ifp)
      then tp\<lparr>t_rtttime := 0\<rparr> else tp)"

definition rexmt_congestion :: "'e timer_env_scheme \<Rightarrow> cubic_params \<Rightarrow> u32 \<Rightarrow> tcpcb \<Rightarrow> tcpcb option" where
  "rexmt_congestion E P now tp =
     (if t_rxtshift tp = 1 then
        do {
          algo \<leftarrow> CC_ALGO E P now tp;
          case after_timeout algo of
            None \<Rightarrow> Some tp
          | Some f \<Rightarrow> map_option (\<lambda>tp. if \<not> acc_ecn_on E tp \<and> TCP_ECN_ENABLED tp then set_ecn_flags TE_SENDCWR tp else tp) (f tp)
        }
      else Some tp)"

definition rexmt_sack :: "'e timer_env_scheme \<Rightarrow> tcpcb \<Rightarrow> tcpcb" where
  "rexmt_sack E tp =
     (let tp = tcp_free_sackholes E tp in
      if TCP_RACK_ENABLED tp then tcp_rack_loss_on_rto E (tcp_segs_clear_sacked E tp) else tp)"

definition rexmt_syn_options :: "'e timer_env_scheme \<Rightarrow> tcpcb \<Rightarrow> tcpcb" where
  "rexmt_syn_options E tp =
     (if t_state tp = TCPS_SYN_SENT \<and> int (unat (t_rxtshift tp)) = tcp_broken_peer_syn_rxmit_thres E
      then tp\<lparr>t_flags := t_flags tp AND NOT (TF_REQ_SCALE OR TF_REQ_TSTMP)\<rparr> else tp)"

text \<open>The state in which \<^verbatim>\<open>tcp_output\<close> is called.\<close>

definition rexmt_prepare :: "'e timer_env_scheme \<Rightarrow> cubic_params \<Rightarrow> u32 \<Rightarrow> tcpcb \<Rightarrow> tcpcb option" where
  "rexmt_prepare E P now tp =
     do {
       tp \<leftarrow> rexmt_black_hole E P now (rexmt_sack E tp);
       let tp = rexmt_rewind E (rexmt_losing E (rexmt_syn_options E tp));
       tp \<leftarrow> rexmt_congestion E P now tp;
       let tp = EXIT_FASTRECOVERY (tcprexmtthresh E) tp;
       Some (tp\<lparr>t_flagsext := t_flagsext tp AND NOT TF_CWND_NONVALIDATED\<rparr>)
     }"

definition retransmit_packet :: "'e timer_env_scheme \<Rightarrow> cubic_params \<Rightarrow> u32 \<Rightarrow> u64 \<Rightarrow> tcpcb \<Rightarrow> tcpcb option" where
  "retransmit_packet E P now accsleep_ms tp =
     (let tp = rexmt_first now accsleep_ms tp;
          tp = rexmt_mptcp E tp;
          tp = rexmt_backoff E (rexmt_tfo E (rexmt_flags tp))
      in if INP_WAIT_FOR_IF_FEEDBACK E (t_inpcb tp) then Some (tcp_output E tp)
         else map_option (tcp_output E) (rexmt_prepare E P now tp))"

definition tcp_rexmt_timeout ::
  "'e timer_env_scheme \<Rightarrow> cubic_params \<Rightarrow> u32 \<Rightarrow> u64 \<Rightarrow> tcpcb \<Rightarrow> timers_result option" where
  "tcp_rexmt_timeout E P now accsleep_ms tp =
     (let slept = last_sleep_ms accsleep_ms tp;
          tp = tp\<lparr>t_rxtshift := t_rxtshift tp + 1\<rparr>
      in if rexmt_give_up E now slept tp then
           (if t_state tp = TCPS_ESTABLISHED \<and> t_rxt_minimum_timeout tp > 0
               \<and> TSTMP_LT E now (t_rxtstart tp + t_rxt_minimum_timeout tp)
            then map_option TLive (retransmit_packet E P now accsleep_ms (tp\<lparr>t_rxtshift := TCP_MAXRXTSHIFT E - 1\<rparr>))
            else Some (TDrop (tp\<lparr>t_rxtshift := TCP_MAXRXTSHIFT E\<rparr>)
                   (if t_softerror tp \<noteq> 0 then t_softerror tp else ETIMEDOUT E)))
         else map_option TLive (retransmit_packet E P now accsleep_ms tp))"

subsection \<open>The other timers\<close>

definition tcp_2msl_timeout :: "'e timer_env_scheme \<Rightarrow> u32 \<Rightarrow> tcpcb \<Rightarrow> timers_result" where
  "tcp_2msl_timeout E now tp =
     (let idle = idle_time now tp;
          tp = tcp_free_sackholes E tp
      in if t_state tp \<noteq> TCPS_TIME_WAIT \<and> t_state tp \<noteq> TCPS_FIN_WAIT_2 \<and> idle > 0 \<and> idle < TCP_CONN_MAXIDLE E tp
         then TLive (set_timer TCPT_2MSL (OFFSET_FROM_START E tp (word_of_int (TCP_CONN_KEEPINTVL E tp))) tp)
         else if t_state tp = TCPS_FIN_WAIT_2 then TDrop tp 0 else TClose tp)"

definition persist_give_up :: "'e timer_env_scheme \<Rightarrow> u32 \<Rightarrow> tcpcb \<Rightarrow> bool" where
  "persist_give_up E now tp \<longleftrightarrow>
     t_rxtshift tp = TCP_MAXRXTSHIFT E
       \<and> (idle_time now tp \<ge> tcp_maxpersistidle E
          \<or> word_of_int (idle_time now tp) \<ge> TCP_REXMTVAL tp * word_of_int tcp_totbackoff)
     \<or> t_persist_stop tp \<noteq> 0 \<and> TSTMP_LEQ E (t_persist_stop tp) now"

definition tcp_persist_timeout :: "'e timer_env_scheme \<Rightarrow> u32 \<Rightarrow> tcpcb \<Rightarrow> timers_result" where
  "tcp_persist_timeout E now tp =
     (if persist_give_up E now tp then TDrop tp (ETIMEDOUT E)
      else
        (let tp = tcp_setpersist E now tp;
             tp = tcp_output E (tp\<lparr>t_flagsext := t_flagsext tp OR TF_FORCE\<rparr>)
         in TLive (tp\<lparr>t_flagsext := t_flagsext tp AND NOT TF_FORCE\<rparr>)))"

definition keep_wanted :: "'e timer_env_scheme \<Rightarrow> tcpcb \<Rightarrow> bool" where
  "keep_wanted E tp \<longleftrightarrow>
     (always_keepalive E \<noteq> 0 \<or> has_flag (so_options (inp_socket (t_inpcb tp))) (SO_KEEPALIVE E)
      \<or> has_flag (t_flagsext tp) TF_DETECT_READSTALL \<or> t_tfo_probe_state tp = TFO_PROBE_PROBING)
     \<and> (TCPS_NUM E (t_state tp) \<le> TCPS_NUM E TCPS_CLOSING \<or> t_state tp = TCPS_FIN_WAIT_2)"

definition keep_refused :: "'e timer_env_scheme \<Rightarrow> tcpcb \<Rightarrow> bool" where
  "keep_refused E tp \<longleftrightarrow>
     has_flag (t_mpflags tp) TMPF_MPTCP_TRUE \<and> TCPS_NUM E (t_state tp) > TCPS_NUM E TCPS_ESTABLISHED
     \<or> mptcp_keepalive_refused E tp
     \<or> TCPS_NUM E (t_state tp) < TCPS_NUM E TCPS_ESTABLISHED"

definition backoff_rto :: "tcpcb \<Rightarrow> u8 \<Rightarrow> u16 \<Rightarrow> u32" where
  "backoff_rto tp probes maxshift =
     word_of_int (tcp_backoff ! unat (min (ucast probes) maxshift)) * TCP_REXMTVAL tp"

definition keep_send :: "'e timer_env_scheme \<Rightarrow> tcpcb \<Rightarrow> tcpcb" where
  "keep_send E tp =
     (let tp = (if tcp_send_keep_alive E tp \<and> has_flag (t_flagsext tp) TF_DETECT_READSTALL
                then tp\<lparr>t_rtimo_probes := t_rtimo_probes tp + 1\<rparr> else tp)
      in set_timer TCPT_KEEP (OFFSET_FROM_START E tp (word_of_int (TCP_CONN_KEEPINTVL E tp))) tp)"

definition keep_readstall :: "'e timer_env_scheme \<Rightarrow> tcpcb \<Rightarrow> tcpcb" where
  "keep_readstall E tp =
     (if \<not> has_flag (t_flagsext tp) TF_DETECT_READSTALL then tp
      else
        (let again = set_timer TCPT_KEEP (OFFSET_FROM_START E tp (backoff_rto tp (t_rtimo_probes tp) (TCP_MAXRXTSHIFT E))) tp in
         if t_adaptive_rtimo tp > 0
         then (if t_rtimo_probes tp > t_adaptive_rtimo tp then tcp_keepalive_reset E tp else again)
         else if (case inp_last_outifp (t_inpcb tp) of None \<Rightarrow> False
                | Some ifp \<Rightarrow> has_flag (if_eflags ifp) (IFEF_PROBE_CONNECTIVITY E))
              \<and> t_rtimo_probes tp \<le> TCP_CONNECTIVITY_PROBES_MAX
         then again
         else tp\<lparr>t_flagsext := t_flagsext tp AND NOT TF_DETECT_READSTALL\<rparr>))"

definition keep_tfo :: "'e timer_env_scheme \<Rightarrow> tcpcb \<Rightarrow> tcpcb" where
  "keep_tfo E tp =
     (if t_tfo_probe_state tp = TFO_PROBE_PROBING then
        (let tp = tp\<lparr>t_tfo_probes := t_tfo_probes tp + 1\<rparr> in
         set_timer TCPT_KEEP
           (min (OFFSET_FROM_START E tp (backoff_rto tp (t_tfo_probes tp) (TCP_MAXRXTSHIFT E))) (t_timer tp TCPT_KEEP)) tp)
      else if \<not> has_flag (t_flagsext tp) TF_FASTOPEN_FORCE_ENABLE \<and> \<not> has_flag (t_tfo_flags tp) TFO_F_HEURISTIC_DONE
              \<and> t_tfo_probe_state tp = TFO_PROBE_WAIT_DATA
      then (let tp = tfo_send_failed E tp in tp\<lparr>t_tfo_stats := t_tfo_stats tp OR TFO_S_RECV_BLACKHOLE\<rparr>)
      else tp)"

definition tcp_keep_timeout :: "'e timer_env_scheme \<Rightarrow> u32 \<Rightarrow> tcpcb \<Rightarrow> timers_result" where
  "tcp_keep_timeout E now tp =
     (if has_flag (so_flags (inp_socket (t_inpcb tp))) (SOF_FLOW_DIVERT E) then TLive tp
      else if keep_refused E tp then TDrop tp (ETIMEDOUT E)
      else if keep_wanted E tp \<and> idle_time now tp \<ge> TCP_CONN_KEEPIDLE E tp + TCP_CONN_MAXIDLE E tp
      then TDrop tp (ETIMEDOUT E)
      else
        (let tp = (if keep_wanted E tp then keep_send E tp
                   else set_timer TCPT_KEEP (OFFSET_FROM_START E tp (word_of_int (TCP_CONN_KEEPIDLE E tp))) tp)
         in TLive (keep_tfo E (keep_readstall E tp))))"

definition delack_stretch :: "'e timer_env_scheme \<Rightarrow> u32 \<Rightarrow> tcpcb \<Rightarrow> tcpcb" where
  "delack_stretch E now tp =
     (let tp = (if t_unacksegs tp > 1 \<and> int (unat (t_unacksegs tp)) < maxseg_unacked E
                then tp\<lparr>t_stretchack_delayed := t_stretchack_delayed tp + 1\<rparr> else tp);
          tp = (if t_stretchack_delayed tp > TCP_STRETCHACK_DELAY_THRESHOLD
                then tp\<lparr>t_flagsext := t_flagsext tp OR TF_DISABLE_STRETCHACK, rcv_nostrack_ts := now,
                       t_stretchack_delayed := 0, rcv_nostrack_pkts := 0\<rparr> else tp)
      in tcp_reset_stretch_ack E now tp)"

definition tcp_delack_timeout :: "'e timer_env_scheme \<Rightarrow> u32 \<Rightarrow> tcpcb \<Rightarrow> tcpcb" where
  "tcp_delack_timeout E now tp =
     (if tcp_delack_enabled E \<noteq> 0 \<and> has_flag (t_flags tp) TF_DELACK then
        (let tp = set_timer TCPT_DELACK 0 (tp\<lparr>t_flags := (t_flags tp AND NOT TF_DELACK) OR TF_ACKNOW\<rparr>);
             tp = (if has_flag (t_flags tp) TF_STRETCHACK then delack_stretch E now tp else tp);
             tp = CLEAR_IAJ_STATE (tp\<lparr>t_forced_acks := TCP_FORCED_ACKS_COUNT\<rparr>);
             tp = tp\<lparr>t_stat := (t_stat tp)\<lparr>delayed_acks_sent := delayed_acks_sent (t_stat tp) + 1\<rparr>\<rparr>
         in tcp_output E tp)
      else tp)"

definition tcp_jack_timeout :: "'e timer_env_scheme \<Rightarrow> tcpcb \<Rightarrow> timers_result" where
  "tcp_jack_timeout E tp =
     (if t_state tp = TCPS_ESTABLISHED \<and> has_flag (t_mpflags tp) TMPF_PREESTABLISHED
         \<and> has_flag (t_mpflags tp) TMPF_JOINED_FLOW
      then
        (let tp = tp\<lparr>t_mprxtshift := t_mprxtshift tp + 1\<rparr> in
         if ucast (t_mprxtshift tp) > TCP_MAXRXTSHIFT E
         then TDrop tp (if t_softerror tp \<noteq> 0 then t_softerror tp else ETIMEDOUT E)
         else TLive (tcp_output E (tp\<lparr>t_mpflags := t_mpflags tp OR TMPF_SND_JACK, t_flags := t_flags tp OR TF_ACKNOW\<rparr>)))
      else TLive tp)"

text \<open>The probe timer: whether a probe may go out, what it sends, and the state after it.\<close>

definition if_probing :: "tcpcb \<Rightarrow> bool" where
  "if_probing tp \<longleftrightarrow> has_flag (t_flagsext tp) TF_IF_PROBING"

definition pto_idle :: "tcpcb \<Rightarrow> bool" where
  "pto_idle tp \<longleftrightarrow>
     (t_state tp \<noteq> TCPS_ESTABLISHED \<or> t_rxtshift tp > 0 \<or> snd_max tp = snd_una tp \<or> \<not> SACK_ENABLED tp \<or> IN_FASTRECOVERY tp)
     \<and> \<not> if_probing tp"

definition pto_reset_rto :: "'e timer_env_scheme \<Rightarrow> tcpcb \<Rightarrow> tcpcb" where
  "pto_reset_rto E tp =
     (let tp = tp\<lparr>t_rxtshift := 0\<rparr>;
          tp = (if t_state tp = TCPS_SYN_SENT then tp\<lparr>t_stat := (t_stat tp)\<lparr>synrxtshift := t_rxtshift tp\<rparr>\<rparr> else tp);
          tp = tp\<lparr>t_srtt := TCPTV_SRTTBASE E,
                 t_rttvar := push_bit TCP_RTTVAR_SHIFT (TCPTV_RTOBASE E - TCPTV_SRTTBASE E) div 4,
                 t_rttmin := TCPTV_REXMTMIN E\<rparr>
      in tp\<lparr>t_rxtcur := TCPT_RANGESET E (sint (TCP_REXMTVAL tp)) (sint (t_rttmin tp)) (TCPTV_REXMTMAX E)
             (TCP_ADD_REXMTSLOP E tp)\<rparr>)"

definition pto_segment :: "tcpcb \<Rightarrow> tcpcb" where
  "pto_segment tp =
     (if t_state tp = TCPS_SYN_SENT then
        tp\<lparr>snd_nxt := snd_una tp, snd_recover := snd_max tp, t_flags := t_flags tp OR TF_ACKNOW, t_rtttime := 0,
           t_flagsext := t_flagsext tp OR TF_TLP_IS_RETRANS\<rparr>
      else
        (let snd_len = sint (min (sb_cc (so_snd (inp_socket (t_inpcb tp)))) (snd_wnd tp) - (snd_max tp - snd_una tp)) in
         if snd_len > 0
         then tp\<lparr>snd_nxt := snd_max tp, t_flagsext := t_flagsext tp AND NOT TF_TLP_IS_RETRANS\<rparr>
         else tp\<lparr>snd_nxt := snd_max tp - min (snd_max tp - snd_una tp) (t_maxseg tp),
                t_flagsext := t_flagsext tp OR TF_TLP_IS_RETRANS\<rparr>))"

definition pto_prepare :: "'e timer_env_scheme \<Rightarrow> u32 \<Rightarrow> tcpcb \<Rightarrow> tcpcb" where
  "pto_prepare E now tp =
     (let tp = (if if_probing tp then pto_reset_rto E tp else tp);
          tp = (pto_segment tp)\<lparr>t_rtttime := 0\<rparr>;
          tp = (if \<not> if_probing tp then tp\<lparr>t_flagsext := t_flagsext tp OR TF_SENT_TLPROBE, t_tlpstart := now\<rparr> else tp)
      in set_timer TCPT_REXMT 0 (tp\<lparr>snd_cwnd := snd_cwnd tp + t_maxseg tp\<rparr>))"

definition pto_finish :: "'e timer_env_scheme \<Rightarrow> tcpcb \<Rightarrow> tcpcb" where
  "pto_finish E tp =
     (let tp = (if t_timer tp TCPT_REXMT = 0 \<and> t_timer tp TCPT_PERSIST = 0
                   \<and> (sb_cc (so_snd (inp_socket (t_inpcb tp))) \<noteq> 0 \<or> t_state tp = TCPS_SYN_SENT \<or> t_state tp = TCPS_SYN_RECEIVED)
                then (let tp = tcp_set_link_heur_rtomin E tp in
                      tcp_check_timer_state E
                        (set_timer TCPT_REXMT (OFFSET_FROM_START E tp (word_of_int (t_rxtcur tp))) tp))
                else tp);
          tp = tp\<lparr>snd_cwnd := snd_cwnd tp - t_maxseg tp\<rparr>
      in if \<not> if_probing tp then tp\<lparr>t_tlphighrxt := snd_nxt tp, t_tlphightrxt_persist := snd_nxt tp\<rparr> else tp)"

definition tcp_pto_timeout :: "'e timer_env_scheme \<Rightarrow> u32 \<Rightarrow> tcpcb \<Rightarrow> tcpcb" where
  "tcp_pto_timeout E now tp =
     (let tp = (if \<not> if_probing tp then tp\<lparr>t_flagsext := t_flagsext tp AND NOT TF_SENT_TLPROBE\<rparr> else tp)
      in if pto_idle tp then tp else pto_finish E (tcp_output E (pto_prepare E now tp)))"

definition tcp_delayfr_timeout :: "'e timer_env_scheme \<Rightarrow> cubic_params \<Rightarrow> u32 \<Rightarrow> tcpcb \<Rightarrow> tcpcb option" where
  "tcp_delayfr_timeout E P now tp =
     (let tp = tp\<lparr>t_flagsext := t_flagsext tp AND NOT TF_DELAY_RECOVERY\<rparr> in
      if IN_FASTRECOVERY tp \<or> seq_geq (snd_una tp) (snd_recover tp) \<or> t_rxtshift tp > 0 then Some tp
      else if \<not> SACK_ENABLED tp then None
      else do {
        let tp = tcp_rexmt_save_state tp;
        algo \<leftarrow> CC_ALGO E P now tp;
        tp \<leftarrow> (case pre_fr algo of
          None \<Rightarrow> Some tp
        | Some f \<Rightarrow> map_option (\<lambda>tp. if \<not> acc_ecn_on E tp \<and> TCP_ECN_ENABLED tp then set_ecn_flags TE_SENDCWR tp else tp) (f tp));
        let tp = set_timer TCPT_REXMT 0 (ENTER_FASTRECOVERY (inp_reset_fc_state E) tp);
        Some (tcp_output E (tp\<lparr>t_sack_recovery_episode := t_sack_recovery_episode tp + 1, snd_cwnd := t_maxseg tp\<rparr>))
      })"

subsection \<open>The dispatcher\<close>

definition tcp_timers ::
  "'e timer_env_scheme \<Rightarrow> cubic_params \<Rightarrow> u32 \<Rightarrow> u64 \<Rightarrow> tcpcb \<Rightarrow> tcpt \<Rightarrow> timers_result option" where
  "tcp_timers E P now accsleep_ms tp timer =
     (case timer of
        TCPT_2MSL \<Rightarrow> Some (tcp_2msl_timeout E now tp)
      | TCPT_REXMT \<Rightarrow> tcp_rexmt_timeout E P now accsleep_ms tp
      | TCPT_PERSIST \<Rightarrow> Some (tcp_persist_timeout E now tp)
      | TCPT_KEEP \<Rightarrow> Some (tcp_keep_timeout E now tp)
      | TCPT_DELACK \<Rightarrow> Some (TLive (tcp_delack_timeout E now tp))
      | TCPT_JACK_RXMT \<Rightarrow> Some (tcp_jack_timeout E tp)
      | TCPT_CELLICON \<Rightarrow> Some (TLive (cellicon_timer E tp))
      | TCPT_PTO \<Rightarrow> Some (TLive (tcp_pto_timeout E now tp))
      | TCPT_DELAYFR \<Rightarrow> map_option TLive (tcp_delayfr_timeout E P now tp)
      | TCPT_REORDER \<Rightarrow> Some (TLive (if TCP_RACK_ENABLED tp then tcp_rack_reordering_timeout E tp else tp)))"

subsection \<open>The retransmission timer of a plain connection\<close>

abbreviation PMTUD_FLAGS :: u32 where "PMTUD_FLAGS \<equiv> TF_PMTUD OR TF_BLACKHOLE"

text \<open>What the steps before the congestion response leave alone.\<close>

definition rx_frame :: "tcpcb \<Rightarrow> tcpcb \<Rightarrow> bool" where
  "rx_frame tp tp' \<longleftrightarrow> t_state tp' = t_state tp \<and> t_rxtshift tp' = t_rxtshift tp \<and> t_srtt tp' = t_srtt tp
     \<and> t_rttvar tp' = t_rttvar tp \<and> t_rttmin tp' = t_rttmin tp \<and> snd_una tp' = snd_una tp \<and> snd_max tp' = snd_max tp
     \<and> t_maxseg tp' = t_maxseg tp \<and> tcp_cc_index tp' = tcp_cc_index tp \<and> t_ccstate tp' = t_ccstate tp
     \<and> t_flags tp' AND PMTUD_FLAGS = t_flags tp AND PMTUD_FLAGS \<and> t_inpcb tp' = t_inpcb tp \<and> t_tfo_stats tp' = t_tfo_stats tp \<and> t_mpflags tp' = t_mpflags tp"

lemma rx_frame_refl [simp]: "rx_frame tp tp"
  by (simp add: rx_frame_def)

lemma rx_frame_trans: "rx_frame a b \<Longrightarrow> rx_frame b c \<Longrightarrow> rx_frame a c"
  by (simp add: rx_frame_def)

lemma rx_first: "rx_frame tp (rexmt_first now slept tp)"
proof -
  have "(f OR TF_WASFRECOVERY) AND PMTUD_FLAGS = f AND PMTUD_FLAGS" for f
    by (rule flag_set_other) (simp add: TF_defs)
  moreover have "(f AND NOT TF_WASFRECOVERY) AND PMTUD_FLAGS = f AND PMTUD_FLAGS" for f
    by (rule flag_cleared_other) (simp add: TF_defs)
  ultimately show ?thesis by (simp add: rx_frame_def rexmt_first_def tcp_rexmt_save_state_def Let_def)
qed

lemma rx_flags: "rx_frame tp (rexmt_flags tp)"
  by (simp add: rx_frame_def rexmt_flags_def set_timer_def Let_def)

lemma rx_rexmtval: "rx_frame tp tp' \<Longrightarrow> TCP_REXMTVAL tp' = TCP_REXMTVAL tp"
  by (simp add: rx_frame_def TCP_REXMTVAL_def)

text \<open>
  A plain connection: established, running CUBIC, without the limits that a program can set,
  multipath, fast open, path MTU discovery and the heuristics of a link, and with an interface
  that accepts packets.
\<close>

definition runs_cubic :: "'e timer_env_scheme \<Rightarrow> tcpcb \<Rightarrow> bool" where
  "runs_cubic E tp \<longleftrightarrow> t_state tp = TCPS_ESTABLISHED \<and> \<not> before_established E TCPS_ESTABLISHED
     \<and> tcp_cc_index tp = TCP_CC_ALGO_CUBIC_INDEX E \<and> TCP_CC_ALGO_PRAGUE_INDEX E \<noteq> TCP_CC_ALGO_CUBIC_INDEX E
     \<and> t_ccstate tp \<noteq> None"

definition plain_conn :: "'e timer_env_scheme \<Rightarrow> tcpcb \<Rightarrow> bool" where
  "plain_conn E tp \<longleftrightarrow> runs_cubic E tp
     \<and> \<not> has_flag (t_mpflags tp) TMPF_MPTCP_TRUE \<and> \<not> has_flag (so_flags (inp_socket (t_inpcb tp))) (SOF_MP_SUBFLOW E)
     \<and> \<not> has_flag (t_tfo_stats tp) TFO_S_SYN_DATA_SENT \<and> \<not> has_flag (t_tfo_stats tp) TFO_S_SYN_DATA_ACKED
     \<and> t_flags tp AND PMTUD_FLAGS = 0
     \<and> \<not> INP_WAIT_FOR_IF_FEEDBACK E (t_inpcb tp) \<and> \<not> if_link_heuristics_enabled E (inp_last_outifp (t_inpcb tp))"

text \<open>The functions of the SACK scoreboard and of RACK change only their own data.\<close>

definition scoreboard_laws :: "'e timer_env_scheme \<Rightarrow> bool" where
  "scoreboard_laws E \<longleftrightarrow> (\<forall>tp. rx_frame tp (tcp_free_sackholes E tp) \<and> t_rxtcur (tcp_free_sackholes E tp) = t_rxtcur tp)
     \<and> (\<forall>tp. rx_frame tp (tcp_segs_clear_sacked E tp) \<and> t_rxtcur (tcp_segs_clear_sacked E tp) = t_rxtcur tp)
     \<and> (\<forall>tp. rx_frame tp (tcp_rack_loss_on_rto E tp) \<and> t_rxtcur (tcp_rack_loss_on_rto E tp) = t_rxtcur tp)"

lemma plain_conn_frame: "plain_conn E tp \<Longrightarrow> rx_frame tp tp' \<Longrightarrow> plain_conn E tp'"
  by (simp add: plain_conn_def runs_cubic_def rx_frame_def)

lemma rx_mptcp: "plain_conn E tp \<Longrightarrow> rexmt_mptcp E tp = tp"
  by (simp add: plain_conn_def runs_cubic_def rexmt_mptcp_def)

lemma rx_tfo: "plain_conn E tp \<Longrightarrow> rexmt_tfo E tp = tp"
  by (simp add: plain_conn_def runs_cubic_def rexmt_tfo_def)

lemma rx_backoff:
  assumes "plain_conn E tp"
  shows "rx_frame tp (rexmt_backoff E tp)"
    "\<exists>tx. t_rxtcur (rexmt_backoff E tp) = TCPT_RANGESET E (sint (TCP_REXMTVAL tp * word_of_int (tcp_backoff ! unat (t_rxtshift tp))))
       (sint (t_rttmin tp)) (TCPTV_REXMTMAX E) (TCP_ADD_REXMTSLOP E tx)"
  using assms by (auto simp: rx_frame_def rexmt_backoff_def rexmt_value_def rexmt_syn_def tcp_set_link_heur_rtomin_def
      plain_conn_def runs_cubic_def set_timer_def Let_def)

lemma rx_sack:
  assumes "scoreboard_laws E"
  shows "rx_frame tp (rexmt_sack E tp)" "t_rxtcur (rexmt_sack E tp) = t_rxtcur tp"
  using assms rx_frame_trans unfolding rexmt_sack_def scoreboard_laws_def Let_def by (auto split: if_split) blast+

lemma mask_split: "f AND (a OR b) = 0 \<longleftrightarrow> f AND a = 0 \<and> f AND b = (0 :: u32)"
  by (simp add: bit.conj_disj_distrib or_eq_0_iff)

lemma rx_black_hole: "plain_conn E tp \<Longrightarrow> rexmt_black_hole E P now tp = Some tp"
  by (simp add: plain_conn_def rexmt_black_hole_def mask_split)

text \<open>The congestion response leaves the timer and the sequence numbers alone.\<close>

definition cc_frame :: "tcpcb \<Rightarrow> tcpcb \<Rightarrow> bool" where
  "cc_frame tp tp' \<longleftrightarrow> t_rxtshift tp' = t_rxtshift tp \<and> t_rxtcur tp' = t_rxtcur tp \<and> snd_nxt tp' = snd_nxt tp
     \<and> snd_una tp' = snd_una tp \<and> snd_recover tp' = snd_recover tp \<and> t_srtt tp' = t_srtt tp \<and> t_rttvar tp' = t_rttvar tp
     \<and> t_rttmin tp' = t_rttmin tp"

lemma pre_fr_cc_frame: "tcp_cubic_pre_fr E P tp = Some tp' \<Longrightarrow> cc_frame tp tp'"
proof -
  assume "tcp_cubic_pre_fr E P tp = Some tp'"
  then obtain f g v where e: "tp' = tcp_cc_resize_sndbuf E
      ((upd_cub f (snd (cubic_loss_window E (upd_cub g tp))))\<lparr>snd_ssthresh := v\<rparr>)"
    by (cases "t_ccstate tp = None") (auto simp: tcp_cubic_pre_fr_def Let_def split_beta)
  show ?thesis
    by (simp add: cc_frame_def e upd_cub_def tcp_cc_resize_sndbuf_def upd_snd_def cubic_loss_window_def Let_def)
qed

lemma after_timeout_cc_frame:
  assumes "tcp_cubic_after_timeout E P tp = Some tp'"
  shows "cc_frame tp tp'"
proof -
  have c: "cc_frame tp (tcp_cubic_clear_state tp)"
    by (simp add: cc_frame_def tcp_cubic_clear_state_def upd_cub_def)
  show ?thesis
    using assms c pre_fr_cc_frame [of E P "tcp_cubic_clear_state tp"]
    by (auto simp: tcp_cubic_after_timeout_def cc_frame_def bind_eq_Some_conv split: if_split_asm)
qed

lemma rx_congestion:
  assumes "runs_cubic E tp"
  shows "\<exists>tq. rexmt_congestion E P now tp = Some tq \<and> cc_frame tp tq \<and> (t_rxtshift tp = 1 \<longrightarrow> snd_cwnd tq = t_maxseg tp)"
proof (cases "t_rxtshift tp = 1")
  case True
  have algo: "CC_ALGO E P now tp = Some (tcp_cc_cubic E P now)"
    using assms by (intro CC_ALGO_cubic) (simp_all add: runs_cubic_def)
  obtain tp' where t: "tcp_cubic_after_timeout E P tp = Some tp'" "snd_cwnd tp' = t_maxseg tp"
    using after_timeout_spec [of tp E P] assms by (auto simp: runs_cubic_def)
  then have "cc_frame tp tp'" by (blast intro: after_timeout_cc_frame)
  then show ?thesis using True algo t
    by (simp add: rexmt_congestion_def tcp_cc_cubic_def cc_frame_def set_ecn_flags_def)
qed (simp add: rexmt_congestion_def cc_frame_def)

lemma rewind_frame:
  "t_rxtshift (rexmt_rewind E tp) = t_rxtshift tp" "t_rxtcur (rexmt_rewind E tp) = t_rxtcur tp"
  "snd_nxt (rexmt_rewind E tp) = snd_una tp" "snd_recover (rexmt_rewind E tp) = snd_max tp"
  "t_maxseg (rexmt_rewind E tp) = t_maxseg tp" "t_srtt (rexmt_rewind E tp) = t_srtt tp"
  "t_rttvar (rexmt_rewind E tp) = t_rttvar tp" "t_rttmin (rexmt_rewind E tp) = t_rttmin tp"
  by (simp_all add: rexmt_rewind_def Let_def)

lemma losing_frame:
  "t_rxtshift (rexmt_losing E tp) = t_rxtshift tp" "t_rxtcur (rexmt_losing E tp) = t_rxtcur tp"
  "snd_una (rexmt_losing E tp) = snd_una tp" "snd_max (rexmt_losing E tp) = snd_max tp"
  "t_maxseg (rexmt_losing E tp) = t_maxseg tp" "t_rttmin (rexmt_losing E tp) = t_rttmin tp"
  by (simp_all add: rexmt_losing_def)

lemma prepare_cubic: "runs_cubic E tp \<Longrightarrow> runs_cubic E (rexmt_rewind E (rexmt_losing E tp))"
  by (simp add: runs_cubic_def rexmt_rewind_def rexmt_losing_def Let_def)

text \<open>What \<^verbatim>\<open>tcp_output\<close> is given: everything unacknowledged is to be sent again.\<close>

definition rewound :: "tcpcb \<Rightarrow> tcpcb \<Rightarrow> bool" where
  "rewound tp tq \<longleftrightarrow> snd_nxt tq = snd_una tp \<and> snd_recover tq = snd_max tp \<and> \<not> IN_FASTRECOVERY tq
     \<and> (t_rxtshift tq = 1 \<longrightarrow> snd_cwnd tq = t_maxseg tp)"

lemma rx_prepare:
  assumes l: "scoreboard_laws E" and p: "plain_conn E tp"
  shows "\<exists>tq. rexmt_prepare E P now tp = Some tq \<and> rewound tp tq \<and> t_rxtshift tq = t_rxtshift tp \<and> t_rxtcur tq = t_rxtcur tp
    \<and> t_rttmin tq = t_rttmin tp
    \<and> (t_srtt tq, t_rttvar tq) = (if t_rxtshift tp > TCP_MAXRXTSHIFT E div 4 then (0, t_rttvar tp + t_srtt tp div 32)
         else (t_srtt tp, t_rttvar tp))"
proof -
  let ?s = "rexmt_sack E tp"
  let ?r = "rexmt_rewind E (rexmt_losing E ?s)"
  have s: "rx_frame tp ?s" "t_rxtcur ?s = t_rxtcur tp" using rx_sack [OF l] by blast+
  have ps: "plain_conn E ?s" using p s(1) by (rule plain_conn_frame)
  have o: "rexmt_syn_options E ?s = ?s"
    using ps by (simp add: rexmt_syn_options_def plain_conn_def runs_cubic_def)
  have "runs_cubic E ?r" using ps by (intro prepare_cubic) (simp add: plain_conn_def)
  then obtain tc where c: "rexmt_congestion E P now ?r = Some tc" "cc_frame ?r tc" "t_rxtshift ?r = 1 \<longrightarrow> snd_cwnd tc = t_maxseg ?r"
    using rx_congestion by blast
  let ?q = "(EXIT_FASTRECOVERY (tcprexmtthresh E) tc)\<lparr>t_flagsext := t_flagsext (EXIT_FASTRECOVERY (tcprexmtthresh E) tc) AND NOT TF_CWND_NONVALIDATED\<rparr>"
  have q: "t_rxtshift ?q = t_rxtshift tc" "t_rxtcur ?q = t_rxtcur tc" "snd_nxt ?q = snd_nxt tc" "snd_recover ?q = snd_recover tc"
      "snd_cwnd ?q = snd_cwnd tc" "t_srtt ?q = t_srtt tc" "t_rttvar ?q = t_rttvar tc" "t_rttmin ?q = t_rttmin tc"
      "\<not> IN_FASTRECOVERY ?q"
    by (simp_all add: EXIT_FASTRECOVERY_def IN_FASTRECOVERY_def flag_simps)
  have "rexmt_prepare E P now tp = Some ?q"
    using rx_black_hole [OF ps] o c(1) by (simp add: rexmt_prepare_def Let_def)
  moreover have "rewound tp ?q"
    using c(2,3) s(1) by (simp add: rewound_def q cc_frame_def rewind_frame losing_frame rx_frame_def)
  moreover have "(t_srtt ?q, t_rttvar ?q) = (if t_rxtshift tp > TCP_MAXRXTSHIFT E div 4 then (0, t_rttvar tp + t_srtt tp div 32)
         else (t_srtt tp, t_rttvar tp))"
    using c(2) s(1) by (simp add: q cc_frame_def rewind_frame rexmt_losing_def rx_frame_def rtt_defs drop_bit_eq_div)
  moreover have "t_rxtshift ?q = t_rxtshift tp" "t_rxtcur ?q = t_rxtcur tp" "t_rttmin ?q = t_rttmin tp"
    using c(2) s by (simp_all add: q cc_frame_def rewind_frame losing_frame rx_frame_def)
  ultimately show ?thesis by blast
qed

text \<open>The state handed to \<^verbatim>\<open>tcp_output\<close> when the timer expires and the connection is kept.\<close>

definition rto_after :: "'e timer_env_scheme \<Rightarrow> tcpcb \<Rightarrow> u16 \<Rightarrow> tcpcb \<Rightarrow> int" where
  "rto_after E tp shift tx = TCPT_RANGESET E (sint (TCP_REXMTVAL tp * word_of_int (tcp_backoff ! unat shift)))
     (sint (t_rttmin tp)) (TCPTV_REXMTMAX E) (TCP_ADD_REXMTSLOP E tx)"

lemma rx_packet:
  assumes l: "scoreboard_laws E" and p: "plain_conn E tp"
  shows "\<exists>tq tx. retransmit_packet E P now slept tp = Some (tcp_output E tq) \<and> rewound tp tq
    \<and> t_rxtshift tq = t_rxtshift tp \<and> t_rxtcur tq = rto_after E tp (t_rxtshift tp) tx \<and> t_rttmin tq = t_rttmin tp
    \<and> (t_srtt tq, t_rttvar tq) = (if t_rxtshift tp > TCP_MAXRXTSHIFT E div 4 then (0, t_rttvar tp + t_srtt tp div 32)
         else (t_srtt tp, t_rttvar tp))"
proof -
  let ?f = "rexmt_first now slept tp"
  let ?g = "rexmt_flags ?f"
  let ?b = "rexmt_backoff E ?g"
  have f: "rx_frame tp ?g" using rx_first rx_flags rx_frame_trans by blast
  have pf: "plain_conn E ?f" "plain_conn E ?g" using p rx_first f plain_conn_frame by blast+
  have b: "rx_frame tp ?b" using f rx_backoff(1) [OF pf(2)] rx_frame_trans by blast
  have pb: "plain_conn E ?b" using p b by (rule plain_conn_frame)
  obtain tx where tx: "t_rxtcur ?b = rto_after E tp (t_rxtshift tp) tx"
    using rx_backoff(2) [OF pf(2)] rx_rexmtval [OF f] f by (auto simp: rto_after_def rx_frame_def)
  obtain tq where q: "rexmt_prepare E P now ?b = Some tq" "rewound ?b tq" "t_rxtshift tq = t_rxtshift ?b" "t_rxtcur tq = t_rxtcur ?b"
      "t_rttmin tq = t_rttmin ?b"
      "(t_srtt tq, t_rttvar tq) = (if t_rxtshift ?b > TCP_MAXRXTSHIFT E div 4 then (0, t_rttvar ?b + t_srtt ?b div 32)
         else (t_srtt ?b, t_rttvar ?b))"
    using rx_prepare [OF l pb] by blast
  have "retransmit_packet E P now slept tp = Some (tcp_output E tq)"
    using rx_mptcp [OF pf(1)] rx_tfo [OF pf(2)] q(1) pb by (simp add: retransmit_packet_def Let_def plain_conn_def)
  moreover have "rewound tp tq" using q(2) b by (simp add: rewound_def rx_frame_def)
  moreover have "t_rxtshift tq = t_rxtshift tp" "t_rttmin tq = t_rttmin tp"
      "(t_srtt tq, t_rttvar tq) = (if t_rxtshift tp > TCP_MAXRXTSHIFT E div 4 then (0, t_rttvar tp + t_srtt tp div 32)
         else (t_srtt tp, t_rttvar tp))"
    using q(3,5,6) b by (simp_all add: rx_frame_def)
  ultimately show ?thesis using q(4) tx by auto
qed

text \<open>
  The timeout macro as the README of the probe describes it: within its bounds it adds the
  slop to the value it is given.
\<close>

definition slop_law :: "'e timer_env_scheme \<Rightarrow> int \<Rightarrow> bool" where
  "slop_law E slop \<longleftrightarrow> 0 \<le> slop \<and> (\<forall>v lo hi tp. lo \<le> v + slop \<and> v + slop \<le> hi
     \<longrightarrow> TCPT_RANGESET E v lo hi (TCP_ADD_REXMTSLOP E tp) = v + slop)"

lemma sint_le_uint: "sint (x :: u32) \<le> uint x"
  unfolding sint32_cases uint_nat by simp

lemma tcp_backoff_range:
  assumes "k \<le> 12"
  shows "1 \<le> tcp_backoff ! k" "tcp_backoff ! k \<le> 64"
proof -
  have "\<forall>k<13. 1 \<le> tcp_backoff ! k \<and> tcp_backoff ! k \<le> 64" by (simp add: tcp_backoff_def All_less_Suc numeral_eq_Suc)
  then show "1 \<le> tcp_backoff ! k" "tcp_backoff ! k \<le> 64" using assms by simp_all
qed

lemma rto_after_eq:
  assumes "slop_law E slop" "unat shift \<le> 12" "64 * uint (TCP_REXMTVAL tp) + slop \<le> TCPTV_REXMTMAX E" "TCPTV_REXMTMAX E < 2 ^ 31"
  shows "rto_after E tp shift tx = slop + uint (TCP_REXMTVAL tp) * tcp_backoff ! unat shift"
proof -
  let ?k = "tcp_backoff ! unat shift" and ?b = "uint (TCP_REXMTVAL tp)"
  note k = tcp_backoff_range [OF assms(2)]
  have slop: "0 \<le> slop" using assms(1) by (simp add: slop_law_def)
  have le: "?b \<le> ?b * ?k" "?b * ?k \<le> ?b * 64" using k by (simp_all add: mult_le_cancel_left1 mult_left_mono)
  have small: "?b * ?k + slop \<le> TCPTV_REXMTMAX E" using le assms(3) by simp
  have "TCP_REXMTVAL tp * word_of_int ?k = word_of_int (?b * ?k)" by simp
  moreover have "sint (word_of_int (?b * ?k) :: u32) = ?b * ?k"
    using le(1) small slop assms(4) uint_ge_0 [of "TCP_REXMTVAL tp"] by (intro sint_of_int_small) linarith+
  ultimately have v: "sint (TCP_REXMTVAL tp * word_of_int ?k) = ?b * ?k" by metis
  have "uint (t_rttmin tp) \<le> ?b" by (simp add: TCP_REXMTVAL_def word_le_def [symmetric])
  then have "sint (t_rttmin tp) \<le> ?b * ?k + slop"
    using le(1) slop sint_le_uint [of "t_rttmin tp"] by linarith
  then show ?thesis using assms(1) small by (simp add: rto_after_def v slop_law_def)
qed

text \<open>
  Without the limits a program can set, the only reason to give up is the number of
  retransmissions, or the machine having been asleep.
\<close>

definition no_limits :: "u64 \<Rightarrow> tcpcb \<Rightarrow> bool" where
  "no_limits accsleep_ms tp \<longleftrightarrow> t_rxt_conndroptime tp = 0 \<and> \<not> has_flag (t_flagsext tp) TF_RXTFINDROP
     \<and> t_rxt_minimum_timeout tp = 0 \<and> last_sleep_ms accsleep_ms tp < TCP_SLEEP_TOO_LONG"

lemma give_up_iff:
  assumes "no_limits slept tp" "TCP_MAXRXTSHIFT E = 12" "unat (t_rxtshift tp) < 65535"
  shows "rexmt_give_up E now (last_sleep_ms slept tp) (tp\<lparr>t_rxtshift := t_rxtshift tp + 1\<rparr>) \<longleftrightarrow> 12 \<le> unat (t_rxtshift tp)"
proof -
  have "unat (t_rxtshift tp + 1) = unat (t_rxtshift tp) + 1"
    using assms(3) unat_plus_small [of "t_rxtshift tp" 1] by simp
  then show ?thesis using assms by (auto simp: rexmt_give_up_def no_limits_def word_less_nat_alt word_le_nat_alt)
qed

subsection \<open>The tail loss probe\<close>

lemma sack_probe_flags: "SACK_ENABLED (tp\<lparr>t_flagsext := t_flagsext tp AND NOT TF_SENT_TLPROBE\<rparr>) = SACK_ENABLED tp"
    "if_probing (tp\<lparr>t_flagsext := t_flagsext tp AND NOT TF_SENT_TLPROBE\<rparr>) = if_probing tp"
    "IN_FASTRECOVERY (tp\<lparr>t_flagsext := f\<rparr>) = IN_FASTRECOVERY tp"
proof -
  have "(f AND NOT TF_SENT_TLPROBE) AND TF_SACK_ENABLE = f AND TF_SACK_ENABLE"
      "(f AND NOT TF_SENT_TLPROBE) AND TF_IF_PROBING = f AND TF_IF_PROBING" for f
    by (rule flag_cleared_other, simp add: TFX_defs)+
  then show "SACK_ENABLED (tp\<lparr>t_flagsext := t_flagsext tp AND NOT TF_SENT_TLPROBE\<rparr>) = SACK_ENABLED tp"
    "if_probing (tp\<lparr>t_flagsext := t_flagsext tp AND NOT TF_SENT_TLPROBE\<rparr>) = if_probing tp"
    by (simp_all add: SACK_ENABLED_def if_probing_def)
qed (simp add: IN_FASTRECOVERY_def)

lemma pto_without_sack:
  assumes "\<not> SACK_ENABLED tp" "\<not> if_probing tp"
  shows "tcp_pto_timeout E now tp = tp\<lparr>t_flagsext := t_flagsext tp AND NOT TF_SENT_TLPROBE\<rparr>"
  using assms by (simp add: tcp_pto_timeout_def Let_def pto_idle_def sack_probe_flags)

lemma arm_without_sack: "\<not> SACK_ENABLED tp \<Longrightarrow> arm_tlp E len tp = tp"
  by (simp add: arm_tlp_def tlp_allowed_def)

text \<open>The state in which the last segment goes out again.\<close>

definition probe_ready :: "tcpcb \<Rightarrow> tcpcb \<Rightarrow> bool" where
  "probe_ready tp tq \<longleftrightarrow> snd_nxt tq = snd_max tp - min (snd_max tp - snd_una tp) (t_maxseg tp)
     \<and> has_flag (t_flagsext tq) TF_TLP_IS_RETRANS \<and> has_flag (t_flagsext tq) TF_SENT_TLPROBE
     \<and> snd_cwnd tq = snd_cwnd tp + t_maxseg tp \<and> t_timer tq TCPT_REXMT = 0"

lemma pto_probe:
  assumes "t_state tp = TCPS_ESTABLISHED" "\<not> if_probing tp"
    and "sint (min (sb_cc (so_snd (inp_socket (t_inpcb tp)))) (snd_wnd tp) - (snd_max tp - snd_una tp)) \<le> 0"
  shows "probe_ready tp (pto_prepare E now tp)"
proof -
  have "(f OR TF_TLP_IS_RETRANS) AND TF_IF_PROBING = f AND TF_IF_PROBING"
      "((f OR TF_TLP_IS_RETRANS) OR TF_SENT_TLPROBE) AND TF_TLP_IS_RETRANS = (f OR TF_TLP_IS_RETRANS) AND TF_TLP_IS_RETRANS" for f
    by (rule flag_set_other, simp add: TFX_defs)+
  then show ?thesis using assms
    by (simp add: pto_prepare_def pto_segment_def if_probing_def probe_ready_def set_timer_def Let_def flag_simps)
qed

lemma pto_finish_window:
  assumes "t_timer tp TCPT_REXMT \<noteq> 0"
  shows "snd_cwnd (pto_finish E tp) = snd_cwnd tp - t_maxseg tp"
  using assms by (simp add: pto_finish_def Let_def)

subsection \<open>Properties\<close>

definition timer_env_zero :: timer_env where
  "timer_env_zero = rtt_env.extend rtt_env_zero
     (timer_env.fields (\<lambda>a b. sint (a - b) < 0) (\<lambda>a b. sint (a - b) \<le> 0)
       (\<lambda>s. case s of TCPS_CLOSED \<Rightarrow> 0 | TCPS_LISTEN \<Rightarrow> 1 | TCPS_SYN_SENT \<Rightarrow> 2 | TCPS_SYN_RECEIVED \<Rightarrow> 3
          | TCPS_ESTABLISHED \<Rightarrow> 4 | TCPS_CLOSE_WAIT \<Rightarrow> 5 | TCPS_FIN_WAIT_1 \<Rightarrow> 6 | TCPS_CLOSING \<Rightarrow> 7
          | TCPS_LAST_ACK \<Rightarrow> 8 | TCPS_FIN_WAIT_2 \<Rightarrow> 9 | TCPS_TIME_WAIT \<Rightarrow> 10)
       (\<lambda>_. True) (\<lambda>_. 7200000) (\<lambda>_. 75000) (\<lambda>_. 600000) 0 1000 30 60 96 (\<lambda>_. True) (\<lambda>_. False)
       1 8 0x80 1 2 500 512 1024 1200 1 10 7200000 0 60000 (\<lambda>i. i) (\<lambda>i. i) (\<lambda>tp. tp\<lparr>snd_holes := []\<rparr>) (\<lambda>tp. tp)
       (\<lambda>tp. tp) (\<lambda>tp. tp) (\<lambda>tp. tp) 2 (\<lambda>tp. tp) (\<lambda>tp. tp) (\<lambda>_. False) (\<lambda>_. True) (\<lambda>tp. tp) (\<lambda>tp. tp))"

lemmas timer_env_zero_simps = timer_env_zero_def timer_env.defs rtt_env_zero_simps

definition demo_conn :: "u16 \<Rightarrow> tcpcb" where
  "demo_conn shift = tcpcb_zero\<lparr>t_state := TCPS_ESTABLISHED, t_ccstate := Some tcp_ccstate_zero, tcp_cc_index := 3,
     t_maxseg := 1000, snd_cwnd := 8000, snd_wnd := 65535, snd_una := 1000, snd_max := 2500, snd_nxt := 2500,
     t_srtt := 3200, t_rttvar := 100, t_rttmin := 30, t_rxtshift := shift\<rparr>"

lemma demo_conn_plain: "plain_conn timer_env_zero (demo_conn shift)"
  by (simp add: plain_conn_def runs_cubic_def demo_conn_def tcpcb_zero_def inpcb_zero_def socket_zero_def timer_env_zero_simps)

lemma demo_laws:
  "scoreboard_laws timer_env_zero" "slop_law timer_env_zero 200" "no_limits 0 (demo_conn shift)"
  "TCP_MAXRXTSHIFT timer_env_zero = 12" "TCPTV_REXMTMAX timer_env_zero = 64000"
  by (simp_all add: scoreboard_laws_def rx_frame_def slop_law_def no_limits_def last_sleep_ms_def TCP_SLEEP_TOO_LONG_def
      demo_conn_def tcpcb_zero_def timer_env_zero_simps)

lemma demo_rexmtval: "TCP_REXMTVAL (demo_conn shift) = 125"
  by (simp add: TCP_REXMTVAL_def demo_conn_def tcpcb_zero_def rtt_defs drop_bit_eq_div)

text \<open>
  Property C24. The retransmission timer of a plain connection backs off as the table says: at
  each of the first twelve expirations everything unacknowledged is offered to \<^verbatim>\<open>tcp_output\<close>
  again, from a window of one segment at the first, outside recovery, and the next timeout is
  the slop plus the unscaled timeout times the entry of the table for the new count; the
  thirteenth drops the connection with the pending error or a timeout. The table adds up to
  the constant that limits the persist timer.
\<close>

theorem rexmt_timer_backs_off:
  assumes "scoreboard_laws E" "plain_conn E tp" "slop_law E slop" "no_limits slept tp"
    and "TCP_MAXRXTSHIFT E = 12" "unat (t_rxtshift tp) < 65535"
    and "64 * uint (TCP_REXMTVAL tp) + slop \<le> TCPTV_REXMTMAX E" "TCPTV_REXMTMAX E < 2 ^ 31"
  shows "(if unat (t_rxtshift tp) < 12
     then \<exists>tq. tcp_timers E P now slept tp TCPT_REXMT = Some (TLive (tcp_output E tq)) \<and> rewound tp tq
       \<and> t_rxtshift tq = t_rxtshift tp + 1
       \<and> t_rxtcur tq = slop + uint (TCP_REXMTVAL tp) * tcp_backoff ! (unat (t_rxtshift tp) + 1)
     else tcp_timers E P now slept tp TCPT_REXMT = Some (TDrop (tp\<lparr>t_rxtshift := 12\<rparr>)
       (if t_softerror tp \<noteq> 0 then t_softerror tp else ETIMEDOUT E)))
   \<and> sum_list tcp_backoff = tcp_totbackoff"
proof -
  let ?t = "tp\<lparr>t_rxtshift := t_rxtshift tp + 1\<rparr>"
  note g = give_up_iff [OF assms(4-6)]
  have sum: "sum_list tcp_backoff = tcp_totbackoff" by (simp add: tcp_backoff_def tcp_totbackoff_def)
  show ?thesis
  proof (cases "unat (t_rxtshift tp) < 12")
    case True
    have p: "plain_conn E ?t" "TCP_REXMTVAL ?t = TCP_REXMTVAL tp"
      using assms(2) by (simp_all add: plain_conn_def runs_cubic_def TCP_REXMTVAL_def)
    have n: "unat (t_rxtshift tp + 1) = unat (t_rxtshift tp) + 1"
      using assms(6) unat_plus_small [of "t_rxtshift tp" 1] by simp
    obtain tq tx where q: "retransmit_packet E P now slept ?t = Some (tcp_output E tq)" "rewound ?t tq"
        "t_rxtshift tq = t_rxtshift ?t" "t_rxtcur tq = rto_after E ?t (t_rxtshift ?t) tx"
      using rx_packet [OF assms(1) p(1)] by blast
    have "rto_after E ?t (t_rxtshift ?t) tx = slop + uint (TCP_REXMTVAL tp) * tcp_backoff ! (unat (t_rxtshift tp) + 1)"
      using rto_after_eq [OF assms(3), of "t_rxtshift ?t" ?t tx] assms(7,8) True n p(2) by simp
    then show ?thesis using True g q sum by (auto simp: tcp_timers_def tcp_rexmt_timeout_def Let_def rewound_def)
  next
    case False
    then show ?thesis using g sum assms(4,5) by (simp add: tcp_timers_def tcp_rexmt_timeout_def Let_def no_limits_def)
  qed
qed

theorem rexmt_timer_backs_off_witness:
  "\<exists>tq. tcp_timers timer_env_zero cubic_params_init 0 0 (demo_conn 2) TCPT_REXMT = Some (TLive (tcp_output timer_env_zero tq))
    \<and> t_rxtcur tq = 200 + 125 * 8"
proof -
  have "t_rxtshift (demo_conn 2) = 2" by (simp add: demo_conn_def)
  then show ?thesis
    using rexmt_timer_backs_off [OF demo_laws(1) demo_conn_plain demo_laws(2,3), of 2 cubic_params_init 0]
    by (auto simp: demo_laws demo_rexmtval tcp_backoff_def)
qed

text \<open>
  Property C27. From the fourth expiration on the smoothed round-trip time is folded into the
  deviation, and the unscaled timeout shrinks: with a smoothed time of at least two
  milliseconds, and unless the minimum is larger anyway, it is less than before, although the
  comment at that place wants the current retransmit times kept.
\<close>

theorem fourth_timeout_shrinks_rto:
  assumes "scoreboard_laws E" "plain_conn E tp" "no_limits slept tp" "TCP_MAXRXTSHIFT E = 12"
    and "3 \<le> unat (t_rxtshift tp)" "unat (t_rxtshift tp) < 12"
    and "64 \<le> t_srtt tp" "0 \<le> t_rttvar tp" "t_srtt tp + t_rttvar tp < 2 ^ 31" "t_rttmin tp < TCP_REXMTVAL tp"
  shows "\<exists>tq. tcp_timers E P now slept tp TCPT_REXMT = Some (TLive (tcp_output E tq)) \<and> t_srtt tq = 0
    \<and> TCP_REXMTVAL tq < TCP_REXMTVAL tp"
proof -
  let ?t = "tp\<lparr>t_rxtshift := t_rxtshift tp + 1\<rparr>"
  have p: "plain_conn E ?t" using assms(2) by (simp add: plain_conn_def runs_cubic_def)
  have n: "unat (t_rxtshift tp + 1) = unat (t_rxtshift tp) + 1"
    using assms(6) unat_plus_small [of "t_rxtshift tp" 1] by simp
  have big: "t_rxtshift tp + 1 > TCP_MAXRXTSHIFT E div 4" using assms(4,5) n by (simp add: word_less_nat_alt)
  obtain tq tx where q: "retransmit_packet E P now slept ?t = Some (tcp_output E tq)" "t_rttmin tq = t_rttmin ?t"
      "(t_srtt tq, t_rttvar tq) = (if t_rxtshift ?t > TCP_MAXRXTSHIFT E div 4 then (0, t_rttvar ?t + t_srtt ?t div 32)
         else (t_srtt ?t, t_rttvar ?t))"
    using rx_packet [OF assms(1) p] by blast
  have v: "t_srtt tq = 0" "t_rttvar tq = t_rttvar tp + t_srtt tp div 32" "t_rttmin tq = t_rttmin tp"
    using q(2,3) big by simp_all
  have "uint (TCP_REXMTVAL tp) = max (uint (t_rttmin tp)) ((t_srtt tp div 8 + t_rttvar tp) div 4)"
    using assms(7-9) by (intro TCP_REXMTVAL_eq) simp_all
  moreover have "uint (TCP_REXMTVAL tq) = max (uint (t_rttmin tp)) ((t_rttvar tp + t_srtt tp div 32) div 4)"
    using TCP_REXMTVAL_eq [of tq] assms(7-9) by (simp add: v)
  moreover have "(t_rttvar tp + t_srtt tp div 32) div 4 < (t_srtt tp div 8 + t_rttvar tp) div 4"
    using assms(7) by linarith
  ultimately have "TCP_REXMTVAL tq < TCP_REXMTVAL tp" using assms(10) by (simp add: word_less_def max_def split: if_split_asm)
  then show ?thesis
    using q(1) v(1) give_up_iff [OF assms(3,4)] assms(6) by (auto simp: tcp_timers_def tcp_rexmt_timeout_def Let_def)
qed

theorem fourth_timeout_shrinks_rto_witness:
  "\<exists>tq. tcp_timers timer_env_zero cubic_params_init 0 0 (demo_conn 3) TCPT_REXMT = Some (TLive (tcp_output timer_env_zero tq))
    \<and> TCP_REXMTVAL tq < 125"
proof -
  have "t_rxtshift (demo_conn 3) = 3" "t_srtt (demo_conn 3) = 3200" "t_rttvar (demo_conn 3) = 100" "t_rttmin (demo_conn 3) = 30"
    by (simp_all add: demo_conn_def)
  then show ?thesis
    using fourth_timeout_shrinks_rto [OF demo_laws(1) demo_conn_plain demo_laws(3), of 3 cubic_params_init 0]
    by (auto simp: demo_laws demo_rexmtval)
qed

text \<open>
  The tail loss probe exists only with SACK. Without it, sending never arms the
  probe timer, and the timer, should it fire, sends nothing. With it, on an established
  connection outside recovery with data outstanding, nothing timed out and nothing new to
  send, the timer hands the last segment to \<^verbatim>\<open>tcp_output\<close> again, one segment beyond the
  window, and takes that segment back from the window afterwards.
\<close>

lemma tail_probe_only_with_sack:
  assumes "\<not> if_probing tp"
  shows "(\<not> SACK_ENABLED tp \<longrightarrow> arm_tlp E len tp = tp
      \<and> tcp_timers E P now slept tp TCPT_PTO = Some (TLive (tp\<lparr>t_flagsext := t_flagsext tp AND NOT TF_SENT_TLPROBE\<rparr>)))
    \<and> (SACK_ENABLED tp \<and> t_state tp = TCPS_ESTABLISHED \<and> t_rxtshift tp = 0 \<and> snd_max tp \<noteq> snd_una tp \<and> \<not> IN_FASTRECOVERY tp
       \<and> sint (min (sb_cc (so_snd (inp_socket (t_inpcb tp)))) (snd_wnd tp) - (snd_max tp - snd_una tp)) \<le> 0
       \<longrightarrow> (\<exists>tq. tcp_timers E P now slept tp TCPT_PTO = Some (TLive (pto_finish E (tcp_output E tq))) \<and> probe_ready tp tq
             \<and> (t_timer (tcp_output E tq) TCPT_REXMT \<noteq> 0 \<and> snd_cwnd (tcp_output E tq) = snd_cwnd tq
                  \<and> t_maxseg (tcp_output E tq) = t_maxseg tp
                \<longrightarrow> snd_cwnd (pto_finish E (tcp_output E tq)) = snd_cwnd tp)))"
proof -
  let ?t = "tp\<lparr>t_flagsext := t_flagsext tp AND NOT TF_SENT_TLPROBE\<rparr>"
  let ?q = "pto_prepare E now ?t"
  have 1: "tcp_timers E P now slept tp TCPT_PTO = Some (TLive (pto_finish E (tcp_output E ?q)))" "probe_ready tp ?q"
    if "SACK_ENABLED tp" "t_state tp = TCPS_ESTABLISHED" "t_rxtshift tp = 0" "snd_max tp \<noteq> snd_una tp" "\<not> IN_FASTRECOVERY tp"
      "sint (min (sb_cc (so_snd (inp_socket (t_inpcb tp)))) (snd_wnd tp) - (snd_max tp - snd_una tp)) \<le> 0"
    using that assms pto_probe [of ?t E now]
    by (simp_all add: tcp_timers_def tcp_pto_timeout_def pto_idle_def sack_probe_flags probe_ready_def)
  have 2: "snd_cwnd (pto_finish E (tcp_output E ?q)) = snd_cwnd tp"
    if "probe_ready tp ?q" "t_timer (tcp_output E ?q) TCPT_REXMT \<noteq> 0" "snd_cwnd (tcp_output E ?q) = snd_cwnd ?q"
      "t_maxseg (tcp_output E ?q) = t_maxseg tp"
    using that(1,3,4) pto_finish_window [OF that(2), of E] by (simp add: probe_ready_def)
  show ?thesis
    using pto_without_sack [OF _ assms] arm_without_sack 1 2 by (auto simp: tcp_timers_def intro!: exI [of _ ?q])
qed

end
