(* ===== verification/Arrival.thy ===== *)
theory Arrival
  imports Timers
begin

text \<open>
  A segment that arrives on a synchronised connection: the part of \<^verbatim>\<open>tcp_input\<close> in
  \<^verbatim>\<open>reference/xnu/tcp_input.c\<close> from the switch on the state to the check of the acknowledgement
  number, with the labels \<^verbatim>\<open>dropafterack\<close> and \<^verbatim>\<open>dropwithreset\<close> and the limiter of challenge
  acknowledgements. These are the checks that the probe's three triggers (\<^verbatim>\<open>exp_challenge_ack\<close>)
  are sent to provoke. The local variables of \<^verbatim>\<open>tcp_input\<close> that the checks change are a record;
  a check ends by going on, by one of the \<^verbatim>\<open>goto\<close>s, or by closing the connection. Logging,
  events and counters of the whole stack are not represented.
\<close>

record arr_env = timer_env +
  tcp_challengeack_limit :: u32
  TCP_PAWS_IDLE :: int
  ECONNREFUSED :: int
  ECONNRESET :: int
  SS_NOFDREF :: u32
  SS_CANTRCVMORE :: u32
  SOF_DEFUNCT :: u32
  mp_so_state :: "tcpcb \<Rightarrow> u32"
  nstat_collect :: bool
  tcp_heuristic_ecn_droprst :: "tcpcb \<Rightarrow> tcpcb"
  tcp_heuristic_ecn_aggressive :: "tcpcb \<Rightarrow> tcpcb"

text \<open>
  \<open>sg_ace\<close> is the value of \<^verbatim>\<open>((th->th_x2 << 8) | thflags) & TH_ACE\<close>: the checks do not touch
  these bits. \<open>sg_mcast\<close> says that the frame was a broadcast or multicast, by the link or by
  either address.
\<close>

record seg_in =
  sg_th :: tcphdr
  sg_to :: tcpopt
  sg_thflags :: u8
  sg_tlen :: int
  sg_drop_hdrlen :: int
  sg_needoutput :: bool
  sg_ip_ecn :: u8
  sg_ace :: u16
  sg_mcast :: bool

datatype arr_next =
    ANext seg_in tcpcb
  | ADrop tcpcb
  | AAck seg_in tcpcb
  | AReset seg_in tcpcb
  | AClose tcpcb
  | ACloseReset seg_in tcpcb
  | AStep6 seg_in tcpcb
  | AFindPcb tcpcb

definition and_then :: "arr_next \<Rightarrow> (seg_in \<Rightarrow> tcpcb \<Rightarrow> arr_next) \<Rightarrow> arr_next" where
  "and_then r f = (case r of ANext s tp \<Rightarrow> f s tp | _ \<Rightarrow> r)"

lemma and_then_go: "and_then (ANext s tp) f = f s tp"
  by (simp add: and_then_def)

lemma and_then_stop: "(\<And>s tp. r \<noteq> ANext s tp) \<Longrightarrow> and_then r f = r"
  by (cases r) (auto simp: and_then_def)

abbreviation sg_seq :: "seg_in \<Rightarrow> u32" where "sg_seq s \<equiv> th_seq (sg_th s)"
abbreviation sg_ack :: "seg_in \<Rightarrow> u32" where "sg_ack s \<equiv> th_ack (sg_th s)"
abbreviation sg_flag :: "seg_in \<Rightarrow> u8 \<Rightarrow> bool" where "sg_flag s f \<equiv> has_flag (sg_thflags s) f"

definition clear_thflag :: "u8 \<Rightarrow> seg_in \<Rightarrow> seg_in" where
  "clear_thflag f s = s\<lparr>sg_thflags := sg_thflags s AND NOT f\<rparr>"

definition so_error_set :: "int \<Rightarrow> tcpcb \<Rightarrow> tcpcb" where
  "so_error_set e tp = tp\<lparr>t_inpcb := (t_inpcb tp)\<lparr>inp_socket := (inp_socket (t_inpcb tp))\<lparr>so_error := e\<rparr>\<rparr>\<rparr>"

definition set_acknow :: "tcpcb \<Rightarrow> tcpcb" where
  "set_acknow tp = tp\<lparr>t_flags := t_flags tp OR TF_ACKNOW\<rparr>"

subsection \<open>The limiter of challenge acknowledgements\<close>

definition tcp_is_ack_ratelimited :: "'e arr_env_scheme \<Rightarrow> u32 \<Rightarrow> tcpcb \<Rightarrow> bool \<times> tcpcb" where
  "tcp_is_ack_ratelimited E now tp =
     (let diff = timer_diff now 0 (t_challengeack_last tp) 0;
          (ret, tp) =
            (if t_challengeack_last tp = 0 \<or> diff \<ge> 1000
             then (False, tp\<lparr>t_challengeack_last := now, t_challengeack_count := 0\<rparr>)
             else if t_challengeack_count tp < tcp_challengeack_limit E then (False, tp)
             else (True, tp));
          tp = (if \<not> ret \<and> t_challengeack_count tp + 1 > 0
                then tp\<lparr>t_challengeack_count := t_challengeack_count tp + 1\<rparr> else tp)
      in (ret, tp))"

text \<open>What four of the five callers do with the answer.\<close>

definition challenge :: "'e arr_env_scheme \<Rightarrow> u32 \<Rightarrow> seg_in \<Rightarrow> tcpcb \<Rightarrow> arr_next" where
  "challenge E now s tp =
     (let (limited, tp) = tcp_is_ack_ratelimited E now tp in if limited then ADrop tp else AAck s tp)"

subsection \<open>The checks in order\<close>

definition arr_syn :: "'e arr_env_scheme \<Rightarrow> u32 \<Rightarrow> seg_in \<Rightarrow> tcpcb \<Rightarrow> arr_next" where
  "arr_syn E now s tp =
     (if t_state tp = TCPS_ESTABLISHED \<and> sg_flag s TH_SYN \<and> sg_tlen s \<le> 0 then challenge E now s tp
      else ANext s tp)"

definition rst_in_window :: "'e arr_env_scheme \<Rightarrow> seg_in \<Rightarrow> tcpcb \<Rightarrow> bool" where
  "rst_in_window E s tp \<longleftrightarrow>
     seq_geq (sg_seq s) (last_ack_sent tp) \<and> seq_lt (sg_seq s) (last_ack_sent tp + rcv_wnd tp)
     \<or> (rcv_wnd tp = 0 \<or> TCPS_NUM E (t_state tp) \<ge> TCPS_NUM E TCPS_CLOSE_WAIT)
       \<and> (last_ack_sent tp = sg_seq s \<or> last_ack_sent tp - 1 = sg_seq s)"

definition rst_exact :: "seg_in \<Rightarrow> tcpcb \<Rightarrow> bool" where
  "rst_exact s tp \<longleftrightarrow> last_ack_sent tp = sg_seq s \<or> last_ack_sent tp - 1 = sg_seq s"

text \<open>The switch on the state; the states without a case leave it with the segment dropped.\<close>

definition rst_accept :: "'e arr_env_scheme \<Rightarrow> tcpcb \<Rightarrow> arr_next" where
  "rst_accept E tp =
     (case t_state tp of
        TCPS_SYN_RECEIVED \<Rightarrow> AClose (so_error_set (ECONNREFUSED E) tp)
      | TCPS_ESTABLISHED \<Rightarrow>
          (let tp = (if (TCP_ECN_ENABLED tp \<or> acc_ecn_on E tp) \<and> snd_una tp = iss tp + 1 \<and> seq_gt (snd_max tp) (snd_una tp)
                     then tcp_heuristic_ecn_droprst E tp else tp)
           in AClose (so_error_set (ECONNRESET E) tp))
      | TCPS_FIN_WAIT_1 \<Rightarrow> AClose (so_error_set (ECONNRESET E) tp)
      | TCPS_CLOSE_WAIT \<Rightarrow> AClose (so_error_set (ECONNRESET E) tp)
      | TCPS_FIN_WAIT_2 \<Rightarrow> AClose (so_error_set (ECONNRESET E) tp)
      | TCPS_CLOSING \<Rightarrow> AClose tp
      | TCPS_LAST_ACK \<Rightarrow> AClose tp
      | _ \<Rightarrow> ADrop tp)"

definition arr_rst :: "'e arr_env_scheme \<Rightarrow> u32 \<Rightarrow> seg_in \<Rightarrow> tcpcb \<Rightarrow> arr_next" where
  "arr_rst E now s tp =
     (if sg_flag s TH_RST then
        (if rst_in_window E s tp then
           (if rst_exact s tp then rst_accept E tp else challenge E now s tp)
         else ADrop tp)
      else ANext s tp)"

text \<open>The bytes that \<^verbatim>\<open>nstat\<close> counts as received twice; \<open>inp_rxbytes\<close> is read back by two checks.\<close>

definition count_duplicate :: "'e arr_env_scheme \<Rightarrow> int \<Rightarrow> tcpcb \<Rightarrow> tcpcb" where
  "count_duplicate E n tp =
     (if nstat_collect E then
        tp\<lparr>t_inpcb := (t_inpcb tp)\<lparr>inp_rxbytes := inp_rxbytes (t_inpcb tp) + word_of_int n\<rparr>,
           t_stat := (t_stat tp)\<lparr>rxduplicatebytes := rxduplicatebytes (t_stat tp) + word_of_int n\<rparr>\<rparr>
      else tp)"

definition arr_paws :: "'e arr_env_scheme \<Rightarrow> u32 \<Rightarrow> seg_in \<Rightarrow> tcpcb \<Rightarrow> arr_next" where
  "arr_paws E now s tp =
     (if has_flag (to_flags (sg_to s)) TOF_TS \<and> ts_recent tp \<noteq> 0 \<and> TSTMP_LT E (to_tsval (sg_to s)) (ts_recent tp) then
        (if sint (now - ts_recent_age tp) > TCP_PAWS_IDLE E then ANext s (tp\<lparr>ts_recent := 0\<rparr>)
         else
           (let tp = tp\<lparr>t_pawsdrop := t_pawsdrop tp + 1\<rparr>;
                tp = (if (TCP_ECN_ENABLED tp \<or> acc_ecn_on E tp) \<and> inp_rxbytes (t_inpcb tp) < 2147483648
                      then tcp_heuristic_ecn_aggressive E tp else tp);
                tp = count_duplicate E (sg_tlen s) tp
            in if sg_tlen s > 0 then AAck s tp else ADrop tp))
      else ANext s tp)"

definition arr_land :: "seg_in \<Rightarrow> tcpcb \<Rightarrow> arr_next" where
  "arr_land s tp =
     (if t_state tp = TCPS_SYN_RECEIVED \<and> seq_lt (sg_seq s) (irs tp) then AReset s tp else ANext s tp)"

subsubsection \<open>Trimming to the window\<close>

text \<open>A SYN before the window takes one position.\<close>

definition trim_syn :: "seg_in \<Rightarrow> seg_in" where
  "trim_syn s =
     (let s = clear_thflag TH_SYN s;
          th = (sg_th s)\<lparr>th_seq := sg_seq s + 1\<rparr>
      in if th_urp th > 1 then s\<lparr>sg_th := th\<lparr>th_urp := th_urp th - 1\<rparr>\<rparr> else clear_thflag TH_URG (s\<lparr>sg_th := th\<rparr>))"

text \<open>Cutting off the first \<open>n\<close> bytes.\<close>

definition cut_head :: "int \<Rightarrow> seg_in \<Rightarrow> seg_in" where
  "cut_head n s =
     (let th = (sg_th s)\<lparr>th_seq := sg_seq s + word_of_int n\<rparr>;
          s = s\<lparr>sg_drop_hdrlen := sg_drop_hdrlen s + n, sg_tlen := sg_tlen s - n\<rparr>
      in if uint (th_urp th) > n then s\<lparr>sg_th := th\<lparr>th_urp := th_urp th - word_of_int n\<rparr>\<rparr>
         else clear_thflag TH_URG (s\<lparr>sg_th := th\<lparr>th_urp := 0\<rparr>\<rparr>))"

text \<open>A segment that is a duplicate as a whole is acknowledged, unless the limiter says no to its SYN.\<close>

definition all_duplicate :: "'e arr_env_scheme \<Rightarrow> u32 \<Rightarrow> bool \<Rightarrow> tcpcb \<Rightarrow> tcpcb" where
  "all_duplicate E now is_syn_set tp =
     (if is_syn_set then
        (let (limited, tp) = tcp_is_ack_ratelimited E now tp in if limited then tp else set_acknow tp)
      else set_acknow tp)"

definition note_dsack :: "u32 \<Rightarrow> int \<Rightarrow> tcpcb \<Rightarrow> tcpcb" where
  "note_dsack sq todrop tp =
     (if todrop > 1 then set_acknow (tp\<lparr>t_dsack_lseq := sq, t_dsack_rseq := sq + word_of_int todrop\<rparr>) else tp)"

definition trim_left :: "'e arr_env_scheme \<Rightarrow> u32 \<Rightarrow> seg_in \<Rightarrow> tcpcb \<Rightarrow> arr_next" where
  "trim_left E now s tp =
     (let todrop = sint (rcv_nxt tp - sg_seq s) in
      if todrop > 0 then
        (let is_syn_set = sg_flag s TH_SYN;
             (s, todrop) = (if is_syn_set then (trim_syn s, todrop - 1) else (s, todrop));
             (s, todrop, tp) =
               (if todrop > sg_tlen s \<or> todrop = sg_tlen s \<and> \<not> sg_flag s TH_FIN
                then (clear_thflag TH_FIN s, sg_tlen s, all_duplicate E now is_syn_set tp)
                else (s, todrop, tp));
             tp = note_dsack (sg_seq s) todrop tp;
             tp = count_duplicate E todrop tp
         in ANext (cut_head todrop s) tp)
      else ANext s tp)"

definition data_after_close :: "'e arr_env_scheme \<Rightarrow> seg_in \<Rightarrow> tcpcb \<Rightarrow> arr_next" where
  "data_after_close E s tp =
     (let so = inp_socket (t_inpcb tp);
          late = TCPS_NUM E (t_state tp) > TCPS_NUM E TCPS_CLOSE_WAIT;
          sub = has_flag (so_flags so) (SOF_MP_SUBFLOW E)
      in if sg_tlen s \<noteq> 0
            \<and> (\<not> sub \<and> has_flag (so_state so) (SS_NOFDREF E) \<and> late
               \<or> sub \<and> has_flag (mp_so_state E tp) (SS_NOFDREF E) \<and> late
               \<or> has_flag (so_flags so) (SOF_DEFUNCT E) \<and> TCPS_NUM E (t_state tp) > TCPS_NUM E TCPS_FIN_WAIT_1
               \<or> has_flag (so_state so) (SS_CANTRCVMORE E))
         then ACloseReset s tp else ANext s tp)"

definition cut_tail :: "int \<Rightarrow> seg_in \<Rightarrow> seg_in" where
  "cut_tail n s = clear_thflag (TH_PUSH OR TH_FIN) (s\<lparr>sg_tlen := sg_tlen s - n\<rparr>)"

definition trim_right :: "seg_in \<Rightarrow> tcpcb \<Rightarrow> arr_next" where
  "trim_right s tp =
     (let todrop = sint ((sg_seq s + word_of_int (sg_tlen s)) - (rcv_nxt tp + rcv_wnd tp)) in
      if todrop > 0 then
        (if todrop \<ge> sg_tlen s then
           (if sg_flag s TH_SYN \<and> t_state tp = TCPS_TIME_WAIT \<and> seq_gt (sg_seq s) (rcv_nxt tp) then AFindPcb tp
            else if rcv_wnd tp = 0 \<and> sg_seq s = rcv_nxt tp then ANext (cut_tail todrop s) (set_acknow tp)
            else AAck s tp)
         else ANext (cut_tail todrop s) tp)
      else ANext s tp)"

subsubsection \<open>Timestamp, SYN in the window, missing ACK, acknowledgement number\<close>

definition record_tstmp :: "u32 \<Rightarrow> seg_in \<Rightarrow> tcpcb \<Rightarrow> tcpcb" where
  "record_tstmp now s tp =
     (if has_flag (to_flags (sg_to s)) TOF_TS \<and> seq_leq (sg_seq s) (last_ack_sent tp)
         \<and> seq_leq (last_ack_sent tp) (sg_seq s + word_of_int (sg_tlen s) + (if sg_flag s (TH_SYN OR TH_FIN) then 1 else 0))
      then tp\<lparr>ts_recent_age := now, ts_recent := to_tsval (sg_to s)\<rparr> else tp)"

definition tcp_syn_data_valid :: "tcpcb \<Rightarrow> tcphdr \<Rightarrow> int \<Rightarrow> bool" where
  "tcp_syn_data_valid tp th tlen \<longleftrightarrow> \<not> tlen \<le> 0 \<and> th_seq th = irs tp \<and> \<not> inp_rxbytes (t_inpcb tp) > 0x7fffffff"

definition syn_in_window :: "'e arr_env_scheme \<Rightarrow> u32 \<Rightarrow> seg_in \<Rightarrow> tcpcb \<Rightarrow> arr_next" where
  "syn_in_window E now s tp =
     (if sg_flag s TH_SYN then
        (if \<not> tcp_syn_data_valid tp (sg_th s) (sg_tlen s) then challenge E now s tp
         else ANext (clear_thflag TH_SYN (s\<lparr>sg_th := (sg_th s)\<lparr>th_seq := sg_seq s + 1\<rparr>\<rparr>)) tp)
      else ANext s tp)"

definition no_ack_bit :: "'e arr_env_scheme \<Rightarrow> seg_in \<Rightarrow> tcpcb \<Rightarrow> arr_next" where
  "no_ack_bit E s tp =
     (if \<not> sg_flag s TH_ACK then
        (if t_state tp = TCPS_SYN_RECEIVED then
           (let (s, tp) = (if TFO_ENABLED tp then
                    (s\<lparr>sg_needoutput := sg_needoutput s \<or> has_flag (th_flags (sg_th s)) TH_SYN\<rparr>, tp\<lparr>snd_nxt := snd_una tp\<rparr>)
                  else (s, tp))
            in AStep6 s (tcp_input_process_accecn_syn E tp (sg_ace s) (sg_ip_ecn s)))
         else if has_flag (t_flags tp) TF_ACKNOW then AAck s tp
         else ADrop tp)
      else ANext s tp)"

definition ack_range :: "'e arr_env_scheme \<Rightarrow> u32 \<Rightarrow> seg_in \<Rightarrow> tcpcb \<Rightarrow> arr_next" where
  "ack_range E now s tp =
     (if t_state tp = TCPS_SYN_RECEIVED then ANext s tp
      else if seq_gt (sg_ack s) (snd_max tp) then challenge E now s tp
      else if seq_lt (sg_ack s) (snd_una tp - max_sndwnd tp) then challenge E now s tp
      else ANext s tp)"

definition seg_checks :: "'e arr_env_scheme \<Rightarrow> u32 \<Rightarrow> seg_in \<Rightarrow> tcpcb \<Rightarrow> arr_next" where
  "seg_checks E now s tp =
     and_then (arr_syn E now s tp) (\<lambda>s tp.
     and_then (arr_rst E now s tp) (\<lambda>s tp.
     and_then (arr_paws E now s tp) (\<lambda>s tp.
     and_then (arr_land s tp) (\<lambda>s tp.
     and_then (trim_left E now s tp) (\<lambda>s tp.
     and_then (data_after_close E s tp) (\<lambda>s tp.
     and_then (trim_right s tp) (\<lambda>s tp.
     and_then (syn_in_window E now s (record_tstmp now s tp)) (\<lambda>s tp.
     and_then (no_ack_bit E s tp) (ack_range E now)))))))))"

subsection \<open>The ways out\<close>

text \<open>The reset that answers a segment: its sequence number, acknowledgement number and flags.\<close>

definition dropwithreset :: "seg_in \<Rightarrow> (u32 \<times> u32 \<times> u8) option" where
  "dropwithreset s =
     (if sg_flag s TH_RST \<or> sg_mcast s then None
      else if sg_flag s TH_ACK then Some (sg_ack s, 0, TH_RST)
      else Some (0, sg_seq s + word_of_int (if sg_flag s TH_SYN then sg_tlen s + 1 else sg_tlen s), TH_RST OR TH_ACK))"

datatype arr_out =
    OSilent tcpcb
  | OAck tcpcb
  | ORst "(u32 \<times> u32 \<times> u8) option" tcpcb
  | OClosed tcpcb
  | OClosedRst "(u32 \<times> u32 \<times> u8) option" tcpcb
  | OOn seg_in tcpcb
  | OStep6 seg_in tcpcb
  | OAgain tcpcb

definition dropafterack :: "'e arr_env_scheme \<Rightarrow> seg_in \<Rightarrow> tcpcb \<Rightarrow> arr_out" where
  "dropafterack E s tp =
     (if t_state tp = TCPS_SYN_RECEIVED \<and> sg_flag s TH_ACK \<and> (seq_gt (snd_una tp) (sg_ack s) \<or> seq_gt (sg_ack s) (snd_max tp))
      then ORst (dropwithreset s) tp
      else OAck (tcp_output E (set_acknow tp)))"

definition segment_arrives :: "'e arr_env_scheme \<Rightarrow> u32 \<Rightarrow> seg_in \<Rightarrow> tcpcb \<Rightarrow> arr_out" where
  "segment_arrives E now s tp =
     (case seg_checks E now s tp of
        ANext s tp \<Rightarrow> OOn s tp
      | ADrop tp \<Rightarrow> OSilent tp
      | AAck s tp \<Rightarrow> dropafterack E s tp
      | AReset s tp \<Rightarrow> ORst (dropwithreset s) tp
      | AClose tp \<Rightarrow> OClosed tp
      | ACloseReset s tp \<Rightarrow> OClosedRst (dropwithreset s) tp
      | AStep6 s tp \<Rightarrow> OStep6 s tp
      | AFindPcb tp \<Rightarrow> OAgain tp)"

subsection \<open>A responder with a budget per fixed window\<close>

text \<open>
  The contract of the limiter, over any state with an anchor and a count: the first request
  after the window opens a new one, later ones are answered up to the limit. The anchor zero
  means that no window was opened yet. What follows for bursts is proved once.
\<close>

lemma sint_unat: "unat (x :: u32) < 2 ^ 31 \<Longrightarrow> sint x = int (unat x)"
  by (subst sint32_cases) (simp only: if_True)

lemma sint_neg: "unat (x :: u32) < 2 ^ 31 \<Longrightarrow> sint (- x) = - int (unat x)"
proof -
  assume "unat x < 2 ^ 31"
  then have "int (unat x) < 2147483648" using nat_int_comparison(2) by simp
  then have "sint (of_int (- int (unat x)) :: u32) = - int (unat x)"
    by (intro sint_of_int_small) (auto intro: order.strict_trans1 [of _ 0])
  then show ?thesis by simp
qed

lemma uint_gt_0_iff: "(x :: u32) \<noteq> 0 \<longleftrightarrow> 0 < uint x"
  using word_gt_0 [of x] by (simp add: word_less_def)

lemma unat_succ: "(x :: u32) < y \<Longrightarrow> unat (x + 1) = unat x + 1"
proof -
  assume "x < y"
  then have "unat x + unat (1 :: u32) < 2 ^ LENGTH(32)" using unat_lt_exp [of y] by (simp add: word_less_nat_alt)
  then show ?thesis using unat_plus_small [of x 1] by simp
qed

definition window_over :: "u32 \<Rightarrow> u32 \<Rightarrow> bool" where
  "window_over anchor now \<longleftrightarrow> anchor = 0 \<or> timer_diff now 0 anchor 0 \<ge> 1000"

primrec replies :: "(u32 \<Rightarrow> 's \<Rightarrow> bool \<times> 's) \<Rightarrow> u32 list \<Rightarrow> 's \<Rightarrow> nat \<times> 's" where
  "replies respond [] s = (0, s)"
| "replies respond (t # ts) s =
     (let (answered, s) = respond t s; (n, s) = replies respond ts s in (n + of_bool answered, s))"

locale fixed_window =
  fixes respond :: "u32 \<Rightarrow> 's \<Rightarrow> bool \<times> 's"
    and anchor :: "'s \<Rightarrow> u32"
    and used :: "'s \<Rightarrow> u32"
    and limit :: u32
    and inv :: "'s \<Rightarrow> bool"
  assumes opens: "inv s \<Longrightarrow> window_over (anchor s) t \<Longrightarrow>
      fst (respond t s) \<and> anchor (snd (respond t s)) = t \<and> used (snd (respond t s)) = 1"
    and grants: "inv s \<Longrightarrow> \<not> window_over (anchor s) t \<Longrightarrow> used s < limit \<Longrightarrow>
      fst (respond t s) \<and> anchor (snd (respond t s)) = anchor s \<and> used (snd (respond t s)) = used s + 1"
    and refuses: "inv s \<Longrightarrow> \<not> window_over (anchor s) t \<Longrightarrow> limit \<le> used s \<Longrightarrow>
      \<not> fst (respond t s) \<and> anchor (snd (respond t s)) = anchor s \<and> used (snd (respond t s)) = used s"
    and keeps: "inv s \<Longrightarrow> inv (snd (respond t s))"
begin

lemma inside_window:
  assumes "inv s" "\<And>t. t \<in> set ts \<Longrightarrow> \<not> window_over (anchor s) t" "used s \<le> limit"
  shows "fst (replies respond ts s) = min (length ts) (unat (limit - used s))
    \<and> anchor (snd (replies respond ts s)) = anchor s \<and> inv (snd (replies respond ts s))
    \<and> unat (used (snd (replies respond ts s))) = unat (used s) + fst (replies respond ts s)"
  using assms
proof (induction ts arbitrary: s)
  case (Cons t ts)
  obtain a s' where r: "respond t s = (a, s')" by (cases "respond t s")
  obtain n s'' where q: "replies respond ts s' = (n, s'')" by (cases "replies respond ts s'")
  have i: "inv s'" using keeps [OF Cons.prems(1), of t] r by simp
  have w: "\<not> window_over (anchor s) t" using Cons.prems(2) by simp
  show ?case
  proof (cases "used s < limit")
    case True
    then have g: "a" "anchor s' = anchor s" "used s' = used s + 1" using grants [OF Cons.prems(1) w] r by auto
    have u: "unat (used s + 1) = unat (used s) + 1" by (rule unat_succ [OF True])
    then have l: "used s' \<le> limit" "unat (limit - used s') = unat (limit - used s) - 1" "unat (limit - used s) > 0"
      using True g(3) by (auto simp: word_le_nat_alt word_less_nat_alt unat_sub)
    have "\<not> window_over (anchor s') u" if "u \<in> set ts" for u using Cons.prems(2) that g(2) by simp
    from Cons.IH [OF i this l(1)] show ?thesis using g q r l(2,3) u by auto
  next
    case False
    then have e: "used s = limit" using Cons.prems(3) by simp
    have g: "\<not> a" "anchor s' = anchor s" "used s' = used s" using refuses [OF Cons.prems(1) w] r e by auto
    have "\<not> window_over (anchor s') u" if "u \<in> set ts" for u using Cons.prems(2) that g(2) by simp
    from Cons.IH [OF i this] show ?thesis using g q r e by auto
  qed
qed simp

lemma not_over: "t \<noteq> 0 \<Longrightarrow> unat (u - t) < 1000 \<Longrightarrow> \<not> window_over t u"
proof -
  assume a: "t \<noteq> 0" "unat (u - t) < 1000"
  then have "sint (u - t) = int (unat (u - t))" by (intro sint_unat) simp
  then have "sint (u - t) < 1000" using a(2) by linarith
  then show ?thesis using a(1) by (simp add: window_over_def timer_diff_def)
qed

lemma new_window:
  assumes "inv s" "window_over (anchor s) t" "t \<noteq> 0" "limit \<noteq> 0" "\<And>u. u \<in> set ts \<Longrightarrow> unat (u - t) < 1000"
  shows "fst (replies respond (t # ts) s) = min (Suc (length ts)) (unat limit)
    \<and> anchor (snd (replies respond (t # ts) s)) = t \<and> inv (snd (replies respond (t # ts) s))
    \<and> unat (used (snd (replies respond (t # ts) s))) = fst (replies respond (t # ts) s)"
proof -
  obtain a s' where r: "respond t s = (a, s')" by (cases "respond t s")
  obtain n s'' where q: "replies respond ts s' = (n, s'')" by (cases "replies respond ts s'")
  have g: "a" "anchor s' = t" "used s' = 1" using opens [OF assms(1,2)] r by auto
  have i: "inv s'" using keeps [OF assms(1), of t] r by simp
  have w: "\<not> window_over (anchor s') u" if "u \<in> set ts" for u using not_over [OF assms(3) assms(5) [OF that]] g(2) by simp
  have "limit > 0" using assms(4) by (simp add: word_gt_0)
  then have "used s' \<le> limit" "unat (limit - used s') = unat limit - 1" "unat limit > 0"
    using g(3) by (auto simp: word_le_nat_alt word_less_nat_alt unat_sub)
  with inside_window [of s' ts, OF i w] show ?thesis using r q g by auto
qed

text \<open>Three bursts: the first drains the window, the second finds it drained, the third opens the next one.\<close>

lemma three_bursts:
  assumes "inv s" "window_over (anchor s) t1" "t1 \<noteq> 0" "limit \<noteq> 0" "\<And>u. u \<in> set (ts1 @ ts2) \<Longrightarrow> unat (u - t1) < 1000"
    and "unat limit \<le> Suc (length ts1)" "unat limit \<le> Suc (length ts3)"
    and "1000 \<le> unat (t3 - t1)" "unat (t3 - t1) < 2 ^ 31" "t3 \<noteq> 0" "\<And>u. u \<in> set ts3 \<Longrightarrow> unat (u - t3) < 1000"
    and "s1 = snd (replies respond (t1 # ts1) s)" "s2 = snd (replies respond ts2 s1)"
  shows "fst (replies respond (t1 # ts1) s) = unat limit \<and> fst (replies respond ts2 s1) = 0
    \<and> fst (replies respond (t3 # ts3) s2) = unat limit"
proof -
  have one: "fst (replies respond (t1 # ts1) s) = unat limit" "anchor s1 = t1" "inv s1" "used s1 = limit"
    using new_window [OF assms(1-4), of ts1] assms(5,6,12) by (auto simp: word_unat_eq_iff)
  have "\<not> window_over (anchor s1) u" if "u \<in> set ts2" for u using not_over [OF assms(3), of u] assms(5) that one(2) by simp
  then have two: "fst (replies respond ts2 s1) = 0" "anchor s2 = t1" "inv s2"
    using inside_window [OF one(3), of ts2] one(2,4) assms(13) by auto
  have "sint (t3 - t1) \<ge> 1000" using assms(8) sint_unat [OF assms(9)] by linarith
  then have "window_over (anchor s2) t3" using two(2) by (simp add: window_over_def timer_diff_def)
  then show ?thesis using one(1) two(1) new_window [OF two(3) _ assms(10,4) assms(11)] assms(7) by auto
qed

end

subsection \<open>The triggers\<close>

text \<open>
  The three segments that the probe sends to an established connection: a SYN without data, a
  reset inside the window but not at its left edge, and an acknowledgement of data that was
  never sent, none with a timestamp.
\<close>

definition syn_trigger :: "seg_in \<Rightarrow> tcpcb \<Rightarrow> bool" where
  "syn_trigger s tp \<longleftrightarrow> sg_flag s TH_SYN \<and> sg_tlen s \<le> 0"

definition rst_trigger :: "seg_in \<Rightarrow> tcpcb \<Rightarrow> bool" where
  "rst_trigger s tp \<longleftrightarrow> \<not> sg_flag s TH_SYN \<and> sg_flag s TH_RST \<and> seq_gt (sg_seq s) (last_ack_sent tp)
     \<and> seq_lt (sg_seq s) (last_ack_sent tp + rcv_wnd tp)"

definition ack_trigger :: "seg_in \<Rightarrow> tcpcb \<Rightarrow> bool" where
  "ack_trigger s tp \<longleftrightarrow> \<not> sg_flag s TH_SYN \<and> \<not> sg_flag s TH_RST \<and> sg_flag s TH_ACK
     \<and> \<not> has_flag (to_flags (sg_to s)) TOF_TS \<and> sg_tlen s = 0 \<and> sg_seq s = rcv_nxt tp \<and> unat (rcv_wnd tp) < 2 ^ 31
     \<and> seq_gt (sg_ack s) (snd_max tp)"

definition is_trigger :: "seg_in \<Rightarrow> tcpcb \<Rightarrow> bool" where
  "is_trigger s tp \<longleftrightarrow> t_state tp = TCPS_ESTABLISHED \<and> (syn_trigger s tp \<or> rst_trigger s tp \<or> ack_trigger s tp)"

lemma rst_not_exact: "seq_gt a b \<Longrightarrow> b \<noteq> a \<and> b - 1 \<noteq> a"
proof -
  assume a: "seq_gt a b"
  then have "b \<noteq> a" by (auto simp: seq_gt_def)
  moreover have "b - 1 \<noteq> a"
  proof
    assume "b - 1 = a"
    then have "a - b = - 1" by (simp add: algebra_simps)
    then show False using a by (simp add: seq_gt_def)
  qed
  ultimately show ?thesis by simp
qed

lemma trigger_challenged:
  assumes "is_trigger s tp"
  shows "seg_checks E now s tp = challenge E now s tp"
proof -
  consider "syn_trigger s tp" | "\<not> sg_flag s TH_SYN" "rst_trigger s tp" | "\<not> sg_flag s TH_SYN" "\<not> sg_flag s TH_RST" "ack_trigger s tp"
    using assms by (auto simp: is_trigger_def rst_trigger_def ack_trigger_def)
  then show ?thesis
  proof cases
    case 1
    then show ?thesis using assms
      by (auto simp: seg_checks_def arr_syn_def is_trigger_def syn_trigger_def and_then_def challenge_def split: prod.splits)
  next
    case 2
    then have "rst_in_window E s tp" "\<not> rst_exact s tp"
      using rst_not_exact [of "sg_seq s" "last_ack_sent tp"]
      by (auto simp: rst_in_window_def rst_exact_def rst_trigger_def seq_geq_def seq_gt_def)
    then show ?thesis using 2
      by (auto simp: seg_checks_def arr_syn_def arr_rst_def rst_trigger_def and_then_def challenge_def split: prod.splits)
  next
    case 3
    have "sint (- rcv_wnd tp) \<le> 0" using sint_neg [of "rcv_wnd tp"] 3(3) by (simp add: ack_trigger_def)
    then show ?thesis using 3 assms
      by (auto simp: seg_checks_def arr_syn_def arr_rst_def arr_paws_def arr_land_def trim_left_def data_after_close_def
          trim_right_def record_tstmp_def syn_in_window_def no_ack_bit_def ack_range_def and_then_def ack_trigger_def
          is_trigger_def Let_def)
  qed
qed

text \<open>Whether the kernel answers with an acknowledgement, and its state after that.\<close>

definition ack_reply :: "'e arr_env_scheme \<Rightarrow> seg_in \<Rightarrow> u32 \<Rightarrow> tcpcb \<Rightarrow> bool \<times> tcpcb" where
  "ack_reply E s now tp =
     (case segment_arrives E now s tp of
        OSilent tp \<Rightarrow> (False, tp) | OAck tp \<Rightarrow> (True, tp) | ORst r tp \<Rightarrow> (False, tp) | OClosed tp \<Rightarrow> (False, tp)
      | OClosedRst r tp \<Rightarrow> (False, tp) | OOn s tp \<Rightarrow> (False, tp) | OStep6 s tp \<Rightarrow> (False, tp) | OAgain tp \<Rightarrow> (False, tp))"

lemma limiter_frame [simp]:
  "t_state (snd (tcp_is_ack_ratelimited E now tp)) = t_state tp"
  "last_ack_sent (snd (tcp_is_ack_ratelimited E now tp)) = last_ack_sent tp"
  "rcv_nxt (snd (tcp_is_ack_ratelimited E now tp)) = rcv_nxt tp" "rcv_wnd (snd (tcp_is_ack_ratelimited E now tp)) = rcv_wnd tp"
  "snd_max (snd (tcp_is_ack_ratelimited E now tp)) = snd_max tp" "snd_nxt (snd (tcp_is_ack_ratelimited E now tp)) = snd_nxt tp"
  "t_inpcb (snd (tcp_is_ack_ratelimited E now tp)) = t_inpcb tp" "t_flags (snd (tcp_is_ack_ratelimited E now tp)) = t_flags tp"
  by (simp_all add: tcp_is_ack_ratelimited_def Let_def)

lemma set_acknow_frame [simp]:
  "t_state (set_acknow tp) = t_state tp" "last_ack_sent (set_acknow tp) = last_ack_sent tp" "rcv_nxt (set_acknow tp) = rcv_nxt tp"
  "rcv_wnd (set_acknow tp) = rcv_wnd tp" "snd_max (set_acknow tp) = snd_max tp" "snd_nxt (set_acknow tp) = snd_nxt tp"
  "t_inpcb (set_acknow tp) = t_inpcb tp" "t_challengeack_last (set_acknow tp) = t_challengeack_last tp"
  "t_challengeack_count (set_acknow tp) = t_challengeack_count tp" "has_flag (t_flags (set_acknow tp)) TF_ACKNOW"
  by (simp_all add: set_acknow_def flag_simps)

text \<open>The limiter keeps the contract.\<close>

definition limiter_grants :: "'e arr_env_scheme \<Rightarrow> u32 \<Rightarrow> tcpcb \<Rightarrow> bool \<times> tcpcb" where
  "limiter_grants E now tp = (let (limited, tp) = tcp_is_ack_ratelimited E now tp in (\<not> limited, tp))"

interpretation limiter:
  fixed_window "limiter_grants E" t_challengeack_last t_challengeack_count "tcp_challengeack_limit E" "\<lambda>_. True" for E
proof (unfold_locales, goal_cases)
  case (2 tp t)
  then have "t_challengeack_count tp + 1 > 0" using unat_succ [OF 2(3)] by (simp add: word_less_nat_alt)
  then show ?case using 2 by (auto simp: limiter_grants_def tcp_is_ack_ratelimited_def window_over_def Let_def)
qed (auto simp: limiter_grants_def tcp_is_ack_ratelimited_def window_over_def Let_def)

subsection \<open>Properties\<close>

text \<open>A concrete environment and an idle established connection for the witnesses.\<close>

definition arr_env_zero :: "u32 \<Rightarrow> arr_env" where
  "arr_env_zero limit = timer_env.extend timer_env_zero
     (arr_env.fields limit 2073600000 61 54 1 0x20 0x8 (\<lambda>_. 0) False (\<lambda>tp. tp) (\<lambda>tp. tp))"

lemmas arr_env_zero_simps = arr_env_zero_def timer_env.defs arr_env.defs timer_env_zero_simps

definition demo_idle :: tcpcb where
  "demo_idle = tcpcb_zero\<lparr>t_state := TCPS_ESTABLISHED, rcv_nxt := 5000, last_ack_sent := 5000, rcv_wnd := 65535,
     snd_una := 900, snd_nxt := 900, snd_max := 900\<rparr>"

definition arr_seg :: "u8 \<Rightarrow> u32 \<Rightarrow> u32 \<Rightarrow> int \<Rightarrow> seg_in" where
  "arr_seg flags sq ack len =
     \<lparr>sg_th = tcphdr_zero\<lparr>th_seq := sq, th_ack := ack, th_flags := flags\<rparr>,
      sg_to = \<lparr>to_flags = 0, to_tsval = 0, to_tsecr = 0, to_mss = 0, to_requested_s_scale = 0, to_nsacks = 0, to_sacks = [],
        to_tfo = [], to_num_accecn = 0, to_accecn = [], to_accecn_order = 0\<rparr>,
      sg_thflags = flags, sg_tlen = len, sg_drop_hdrlen = 40, sg_needoutput = False, sg_ip_ecn = 0, sg_ace = 0, sg_mcast = False\<rparr>"

text \<open>
  Property C36. The limiter in full: a challenge acknowledgement is refused exactly when a window was opened, the
  limit is used up, and the clock, read as a 32-bit distance from the start of the window, is less than
  1000 ms ahead of it or at least 2^31 ms. At a distance of exactly 1000 ms the window is over, where the comments of the function say
  that it takes more than that. The second case is a window that ended more than 24 days
  ago and still counts, since the distance is taken as a signed number.
\<close>

theorem limiter_exact:
  "fst (tcp_is_ack_ratelimited E now tp) \<longleftrightarrow>
     t_challengeack_last tp \<noteq> 0 \<and> tcp_challengeack_limit E \<le> t_challengeack_count tp
     \<and> (unat (now - t_challengeack_last tp) < 1000 \<or> 2 ^ 31 \<le> unat (now - t_challengeack_last tp))"
proof -
  let ?d = "now - t_challengeack_last tp"
  have "sint ?d < 1000 \<longleftrightarrow> unat ?d < 1000 \<or> 2 ^ 31 \<le> unat ?d"
  proof (cases "unat ?d < 2 ^ 31")
    case True
    then have "sint ?d = int (unat ?d)" by (rule sint_unat)
    then show ?thesis using True by linarith
  next
    case False
    then have "sint ?d = int (unat ?d) - 4294967296" by (subst sint32_cases) (simp only: if_False, simp)
    moreover have "sint ?d < 0" using calculation unat_u32_bound [of ?d] by linarith
    ultimately show ?thesis using False by linarith
  qed
  then show ?thesis by (auto simp: tcp_is_ack_ratelimited_def timer_diff_def Let_def not_less)
qed

text \<open>
  No check after that of the reset flag closes the connection and drops the segment silently, and none but that for data after
  the application has stopped reading closes it with a reset.
\<close>

definition cannot_read :: "'e arr_env_scheme \<Rightarrow> tcpcb \<Rightarrow> bool" where
  "cannot_read E tp \<longleftrightarrow> has_flag (so_state (inp_socket (t_inpcb tp))) (SS_CANTRCVMORE E)"

text \<open>The ways in which a check after that of the reset flag may end, for a segment with \<open>n\<close> bytes of data.\<close>

fun harmless :: "bool \<Rightarrow> int \<Rightarrow> arr_next \<Rightarrow> bool" where
  "harmless c n (AClose _) \<longleftrightarrow> False"
| "harmless c n (ACloseReset _ _) \<longleftrightarrow> c \<and> n \<noteq> 0"
| "harmless c n _ \<longleftrightarrow> True"

lemma harmless_then: "harmless c n r \<Longrightarrow> (\<And>s tp. r = ANext s tp \<Longrightarrow> harmless c n (f s tp)) \<Longrightarrow> harmless c n (and_then r f)"
  by (cases r) (simp_all add: and_then_def)

lemma challenge_harmless: "harmless c n (challenge E now s tp)"
  by (simp add: challenge_def split: prod.splits)

lemma later_harmless:
  "harmless c n (arr_paws E now s tp)" "harmless c n (arr_land s tp)" "harmless c n (trim_left E now s tp)"
  "harmless c n (trim_right s tp)" "harmless c n (syn_in_window E now s tp)" "harmless c n (no_ack_bit E s tp)"
  "harmless c n (ack_range E now s tp)"
  by (simp_all add: arr_paws_def arr_land_def trim_left_def trim_right_def syn_in_window_def
      no_ack_bit_def ack_range_def challenge_harmless Let_def split: prod.splits)

text \<open>What the checks in front of that one leave of the state, the socket and the length.\<close>

definition as_it_came :: "seg_in \<Rightarrow> tcpcb \<Rightarrow> seg_in \<Rightarrow> tcpcb \<Rightarrow> bool" where
  "as_it_came s tp s' tp' \<longleftrightarrow> t_state tp' = t_state tp \<and> inp_socket (t_inpcb tp') = inp_socket (t_inpcb tp)
     \<and> (sg_tlen s = 0 \<longrightarrow> sg_tlen s' = 0)"

lemma paws_land_come: "arr_paws E now s tp = ANext s' tp' \<Longrightarrow> as_it_came s tp s' tp'" "arr_land s tp = ANext s' tp' \<Longrightarrow> as_it_came s tp s' tp'"
  by (auto simp: arr_paws_def arr_land_def as_it_came_def Let_def split: if_splits)

lemma all_duplicate_frame: "t_state (all_duplicate E now b tp) = t_state tp" "t_inpcb (all_duplicate E now b tp) = t_inpcb tp"
  by (simp_all add: all_duplicate_def set_acknow_def split_beta limiter_frame)

lemma trim_left_come: "trim_left E now s tp = ANext s' tp' \<Longrightarrow> as_it_came s tp s' tp'"
  by (auto simp: trim_left_def trim_syn_def cut_head_def clear_thflag_def note_dsack_def count_duplicate_def set_acknow_def
      all_duplicate_frame as_it_came_def Let_def split: if_splits prod.splits)

lemma data_after_close_harmless:
  assumes "t_state tp = TCPS_ESTABLISHED" "TCPS_NUM E TCPS_ESTABLISHED < TCPS_NUM E TCPS_CLOSE_WAIT"
    and "TCPS_NUM E TCPS_ESTABLISHED < TCPS_NUM E TCPS_FIN_WAIT_1" "n = 0 \<longrightarrow> sg_tlen s = 0"
  shows "harmless (cannot_read E tp) n (data_after_close E s tp)"
  using assms by (auto simp: data_after_close_def cannot_read_def Let_def)

lemma later_checks_harmless:
  assumes "t_state tp = TCPS_ESTABLISHED" "TCPS_NUM E TCPS_ESTABLISHED < TCPS_NUM E TCPS_CLOSE_WAIT"
    and "TCPS_NUM E TCPS_ESTABLISHED < TCPS_NUM E TCPS_FIN_WAIT_1"
    and "arr_syn E now s tp = ANext s tp" "arr_rst E now s tp = ANext s tp"
  shows "harmless (cannot_read E tp) (sg_tlen s) (seg_checks E now s tp)"
  unfolding seg_checks_def assms(4,5) and_then_go
proof (intro harmless_then later_harmless)
  fix s1 tp1 s2 tp2 s3 tp3
  assume "arr_paws E now s tp = ANext s1 tp1" "arr_land s1 tp1 = ANext s2 tp2" "trim_left E now s2 tp2 = ANext s3 tp3"
  then have "as_it_came s tp s1 tp1" "as_it_came s1 tp1 s2 tp2" "as_it_came s2 tp2 s3 tp3"
    by (auto dest: paws_land_come trim_left_come)
  then have c: "t_state tp3 = t_state tp" "cannot_read E tp3 = cannot_read E tp" "sg_tlen s = 0 \<longrightarrow> sg_tlen s3 = 0"
    by (simp_all add: as_it_came_def cannot_read_def)
  show "harmless (cannot_read E tp) (sg_tlen s) (data_after_close E s3 tp3)"
    using data_after_close_harmless [of tp3 E "sg_tlen s" s3] c assms(1-3) by simp
qed

text \<open>
  Property C37. What closes an established connection with an open window, of all segments: a reset, with no SYN that is answered first, whose sequence
  number is the one last acknowledged (a forged reset must guess one number of all 2^32); and otherwise only data that arrives
  after the application has stopped reading, which is answered by a reset.
\<close>

theorem reset_needs_exact_sequence:
  assumes "t_state tp = TCPS_ESTABLISHED" "0 < unat (rcv_wnd tp)" "unat (rcv_wnd tp) < 2 ^ 31"
    and "TCPS_NUM E TCPS_ESTABLISHED < TCPS_NUM E TCPS_CLOSE_WAIT" "TCPS_NUM E TCPS_ESTABLISHED < TCPS_NUM E TCPS_FIN_WAIT_1"
  shows "((\<exists>tq. segment_arrives E now s tp = OClosed tq) \<longleftrightarrow>
      sg_flag s TH_RST \<and> \<not> (sg_flag s TH_SYN \<and> sg_tlen s \<le> 0) \<and> sg_seq s = last_ack_sent tp)
    \<and> ((\<exists>r tq. segment_arrives E now s tp = OClosedRst r tq) \<longrightarrow>
      \<not> sg_flag s TH_RST \<and> sg_tlen s \<noteq> 0 \<and> has_flag (so_state (inp_socket (t_inpcb tp))) (SS_CANTRCVMORE E))"
proof -
  have w: "seq_geq (last_ack_sent tp) (last_ack_sent tp)" "seq_lt (last_ack_sent tp) (last_ack_sent tp + rcv_wnd tp)"
    using sint_neg [OF assms(3)] assms(2) by (simp_all add: seq_geq_def seq_lt_def unat_gt_0 uint_gt_0_iff)
  have w0: "rcv_wnd tp \<noteq> 0" using assms(2) by auto
  have m: "\<not> seq_geq (last_ack_sent tp - 1) (last_ack_sent tp)" by (simp add: seq_geq_def)
  consider (syn) "sg_flag s TH_SYN \<and> sg_tlen s \<le> 0" | (rst) "\<not> (sg_flag s TH_SYN \<and> sg_tlen s \<le> 0)" "sg_flag s TH_RST"
    | (other) "\<not> (sg_flag s TH_SYN \<and> sg_tlen s \<le> 0)" "\<not> sg_flag s TH_RST" by blast
  then show ?thesis
  proof cases
    case syn
    then have "is_trigger s tp" using assms(1) by (simp add: is_trigger_def syn_trigger_def)
    from trigger_challenged [OF this, of E now] show ?thesis using syn
      by (auto simp: segment_arrives_def challenge_def dropafterack_def split: prod.splits)
  next
    case rst
    then have "arr_syn E now s tp = ANext s tp" by (auto simp: arr_syn_def)
    moreover have "arr_rst E now s tp \<noteq> ANext s' tp'" for s' tp'
      using rst(2) assms(1) by (simp add: arr_rst_def rst_accept_def challenge_def Let_def split: prod.splits)
    ultimately have "seg_checks E now s tp = arr_rst E now s tp"
      unfolding seg_checks_def by (simp add: and_then_go and_then_stop)
    moreover have "rst_in_window E s tp \<and> rst_exact s tp \<longleftrightarrow> sg_seq s = last_ack_sent tp"
      using w w0 m assms(1,4) by (auto simp: rst_in_window_def rst_exact_def)
    ultimately show ?thesis using rst assms(1)
      by (auto simp: segment_arrives_def arr_rst_def rst_accept_def challenge_def dropafterack_def Let_def split: prod.splits if_splits)
  next
    case other
    then have "arr_syn E now s tp = ANext s tp" "arr_rst E now s tp = ANext s tp" by (auto simp: arr_syn_def arr_rst_def)
    from later_checks_harmless [OF assms(1,4,5) this] show ?thesis using other
      by (cases "seg_checks E now s tp") (auto simp: segment_arrives_def dropafterack_def cannot_read_def)
  qed
qed

theorem reset_needs_exact_sequence_witness:
  "(\<exists>tq. segment_arrives (arr_env_zero 2) 100 (arr_seg TH_RST 5000 0 0) demo_idle = OClosed tq)
    \<and> \<not> (\<exists>tq. segment_arrives (arr_env_zero 2) 100 (arr_seg TH_RST 5001 0 0) demo_idle = OClosed tq)"
proof -
  have "t_state demo_idle = TCPS_ESTABLISHED" "0 < unat (rcv_wnd demo_idle)" "unat (rcv_wnd demo_idle) < 2 ^ 31"
    "TCPS_NUM (arr_env_zero 2) TCPS_ESTABLISHED < TCPS_NUM (arr_env_zero 2) TCPS_CLOSE_WAIT"
    "TCPS_NUM (arr_env_zero 2) TCPS_ESTABLISHED < TCPS_NUM (arr_env_zero 2) TCPS_FIN_WAIT_1"
    by (simp_all add: demo_idle_def arr_env_zero_simps)
  note * = reset_needs_exact_sequence [OF this, of 100]
  show ?thesis using * [of "arr_seg TH_RST 5000 0 0"] * [of "arr_seg TH_RST 5001 0 0"]
    by (simp add: arr_seg_def demo_idle_def tcphdr_zero_def TH_SYN_def TH_RST_def)
qed

text \<open>The two cuts, in positions relative to \<^verbatim>\<open>rcv_nxt\<close>.\<close>

lemma cut_frame [simp]:
  "sg_tlen (cut_head n s) = sg_tlen s - n" "sg_seq (cut_head n s) = sg_seq s + word_of_int n"
  "sg_drop_hdrlen (cut_head n s) = sg_drop_hdrlen s + n"
  "sg_tlen (cut_tail n s) = sg_tlen s - n" "sg_seq (cut_tail n s) = sg_seq s" "sg_drop_hdrlen (cut_tail n s) = sg_drop_hdrlen s"
  by (simp_all add: cut_head_def cut_tail_def clear_thflag_def Let_def)

lemma trim_notes_frame [simp]:
  "rcv_nxt (count_duplicate E n tp) = rcv_nxt tp" "rcv_wnd (count_duplicate E n tp) = rcv_wnd tp"
  "rcv_nxt (note_dsack sq n tp) = rcv_nxt tp" "rcv_wnd (note_dsack sq n tp) = rcv_wnd tp"
  by (simp_all add: count_duplicate_def note_dsack_def set_acknow_def)

lemma trim_right_at:
  assumes "sg_seq s = rcv_nxt tp + word_of_int a" "0 \<le> a" "a < 2 ^ 30" "0 \<le> sg_tlen s" "sg_tlen s < 2 ^ 30"
    and "w = int (unat (rcv_wnd tp))" "w < 2 ^ 30" "0 < min (a + sg_tlen s) w - a"
  shows "\<exists>s'. trim_right s tp = ANext s' tp \<and> sg_seq s' = sg_seq s \<and> sg_tlen s' = min (a + sg_tlen s) w - a
    \<and> sg_drop_hdrlen s' = sg_drop_hdrlen s"
proof -
  let ?t = "a + sg_tlen s - w"
  have "(sg_seq s + word_of_int (sg_tlen s)) - (rcv_nxt tp + rcv_wnd tp) = of_int ?t"
    using assms(1,6) by (simp add: algebra_simps)
  moreover have "0 \<le> w" using assms(6) by simp
  then have "sint (of_int ?t :: u32) = ?t" using assms(2-5,7) by (intro sint_of_int_small) simp_all
  ultimately have t: "sint ((sg_seq s + word_of_int (sg_tlen s)) - (rcv_nxt tp + rcv_wnd tp)) = ?t" by (simp only:)
  show ?thesis using assms(8) by (auto simp: trim_right_def t Let_def)
qed

text \<open>
  The kernel keeps of a segment exactly the bytes inside its receive window. For a segment without SYN
  whose first byte is at position \<open>a\<close> relative to \<^verbatim>\<open>rcv_nxt\<close>: if any of its bytes lies in the window, processing goes on
  with the segment cut to the intersection of its range and the window, and the part in front that is skipped is
  counted in \<^verbatim>\<open>drop_hdrlen\<close>.
\<close>

lemma seg_trim_exact:
  assumes "a = sint (sg_seq s - rcv_nxt tp)" "\<bar>a\<bar> < 2 ^ 30" "0 \<le> sg_tlen s" "sg_tlen s < 2 ^ 30"
    and "w = int (unat (rcv_wnd tp))" "w < 2 ^ 30" "\<not> sg_flag s TH_SYN" "0 < min (a + sg_tlen s) w - max a 0"
  shows "\<exists>s' tp'. and_then (trim_left E now s tp) trim_right = ANext s' tp' \<and> rcv_nxt tp' = rcv_nxt tp
    \<and> sg_seq s' = rcv_nxt tp + word_of_int (max a 0) \<and> sg_tlen s' = min (a + sg_tlen s) w - max a 0
    \<and> sg_drop_hdrlen s' = sg_drop_hdrlen s + max (- a) 0"
proof -
  have sq: "sg_seq s = rcv_nxt tp + word_of_int a" using assms(1) by simp
  have "sint (of_int (- a) :: u32) = - a" using assms(2) by (intro sint_of_int_small) auto
  then have d: "sint (rcv_nxt tp - sg_seq s) = - a" using sq by simp
  show ?thesis
  proof (cases "a < 0")
    case True
    let ?s = "cut_head (- a) s" and ?tp = "count_duplicate E (- a) (note_dsack (sg_seq s) (- a) tp)"
    have "trim_left E now s tp = ANext ?s ?tp"
      using True d assms(7,8) by (simp add: trim_left_def Let_def)
    moreover have "\<exists>s'. trim_right ?s ?tp = ANext s' ?tp \<and> sg_seq s' = sg_seq ?s \<and> sg_tlen s' = min (0 + sg_tlen ?s) w - 0
        \<and> sg_drop_hdrlen s' = sg_drop_hdrlen ?s"
      by (rule trim_right_at) (use True sq assms(2-6,8) in \<open>simp_all add: max_def\<close>)
    ultimately show ?thesis using True sq by (auto simp: and_then_def max_def algebra_simps)
  next
    case False
    then have "trim_left E now s tp = ANext s tp" using d by (simp add: trim_left_def)
    moreover have "\<exists>s'. trim_right s tp = ANext s' tp \<and> sg_seq s' = sg_seq s \<and> sg_tlen s' = min (a + sg_tlen s) w - a
        \<and> sg_drop_hdrlen s' = sg_drop_hdrlen s"
      by (rule trim_right_at) (use False sq assms(2-6,8) in \<open>simp_all add: max_def\<close>)
    ultimately show ?thesis using False sq by (auto simp: and_then_def max_def)
  qed
qed

end
