(* ===== verification/Predictions.thy ===== *)
theory Predictions
  imports Experiments Arrival
begin

text \<open>
  What an experiment expects of the kernel, against the kernel: the threshold that \<^verbatim>\<open>exp_dupack\<close> predicts for each
  number of segments behind the hole.
\<close>

lemma early_check_keeps:
  assumes "4 * unat (t_maxseg tp) \<le> unat (snd_max tp - snd_una tp)" "unat (t_maxseg tp) < 2 ^ 30" "\<not> SACK_ENABLED tp"
  shows "\<exists>tp'. tcp_early_rexmt_check E now tp = Some tp' \<and> t_rexmtthresh tp' = t_rexmtthresh tp"
proof -
  have "unat (push_bit 2 (t_maxseg tp)) = 4 * unat (t_maxseg tp)"
    using assms(2) by (simp add: push_bit_eq_mult unat_mult_lem [THEN iffD1] unat_word_ariths)
  then have "\<not> snd_max tp - snd_una tp < push_bit 2 (t_maxseg tp)" using assms(1) by (simp add: word_less_nat_alt)
  moreover have "early_outstanding E tp = Some (snd_max tp - snd_una tp)"
    using assms(3) by (simp add: early_outstanding_def TCP_RACK_ENABLED_def)
  ultimately show ?thesis by (simp add: tcp_early_rexmt_check_def early_lower_def Let_def)
qed

text \<open>
  Property C11. The threshold that \<^verbatim>\<open>exp_dupack\<close> prints as predicted is the one the kernel works with. On a connection
  without SACK that has \<open>n\<close> full segments outstanding behind the lost one and nothing more to send, at the first duplicate
  acknowledgement, with early retransmits left, the check of the kernel sets the threshold of the connection to the prediction, for either
  value the knob can have; and the prediction is never more than the number of duplicate acknowledgements there can be, so that
  the sweep cannot find a step.
\<close>

theorem sweep_prediction_exact:
  assumes "\<not> SACK_ENABLED tp" "t_early_rexmt_count tp < TCP_EARLY_REXMT_LIMIT" "t_dupacks tp = 1"
    and "0 < t_maxseg tp" "unat (t_maxseg tp) < 2 ^ 16" "0 < n" "n < 100"
    and "unat (snd_max tp - snd_una tp) = (n + 1) * unat (t_maxseg tp)"
    and "sint (min (sb_cc (so_snd (inp_socket (t_inpcb tp)))) (snd_wnd tp) - (snd_max tp - snd_una tp)) \<le> 0"
    and "t_rexmtthresh tp = tcprexmtthresh E" "tcprexmtthresh E \<in> {2, 3}" "int (unat (tcprexmtthresh E)) = k_rexmtthresh k"
  shows "(\<exists>tp'. tcp_early_rexmt_check E now tp = Some tp' \<and> int (unat (t_rexmtthresh tp')) = predicted_threshold k n)
    \<and> predicted_threshold k n \<le> int n"
proof -
  let ?m = "unat (t_maxseg tp)" and ?b = "snd_max tp - snd_una tp"
  have m: "0 < ?m" using assms(4) by (simp add: word_less_nat_alt)
  have thr: "2 \<le> tcprexmtthresh E" "k_rexmtthresh k \<in> {2, 3}" using assms(11,12) by auto
  have le: "predicted_threshold k n \<le> int n" using assms(6) thr(2) by (auto simp: predicted_threshold_def Let_def)
  show ?thesis
  proof (cases "n < 3")
    case True
    have big: "unat ?b < 2 ^ 31"
    proof -
      have "(n + 1) * ?m \<le> 3 * 2 ^ 16" using True assms(5) by (intro mult_mono) auto
      then show ?thesis using assms(8) by simp
    qed
    have "0 < unat ?b" using m assms(8) by simp
    then have "0 < int (unat ?b)" by (simp only: of_nat_0_less_iff)
    then have out: "seq_gt (snd_max tp) (snd_una tp)" using big by (simp only: seq_gt_def sint32_cases if_True)
    have segs: "n + 1 = (unat ?b + ?m - 1) div ?m"
    proof -
      have "unat ?b + ?m - 1 = (?m - 1) + (n + 1) * ?m" using m assms(8) by simp
      then have "(unat ?b + ?m - 1) div ?m = (?m - 1) div ?m + (n + 1)" using m by (simp only: div_mult_self1)
      then show ?thesis using m by simp
    qed
    have "n + 1 < 4" "unat (t_maxseg tp) < 2 ^ 30" using True assms(5) by simp_all
    from early_check_lowers [OF assms(1-3) out assms(4) this(2) segs this(1) assms(9) thr(1), of now]
    obtain tp' where "tcp_early_rexmt_check E now tp = Some tp'" "unat (t_rexmtthresh tp') = max 1 n" by auto
    moreover have "predicted_threshold k n = int (max 1 n)" using True assms(6) by (auto simp: predicted_threshold_def Let_def)
    ultimately show ?thesis using le by auto
  next
    case False
    then have "4 * ?m \<le> unat ?b" using assms(8) by simp
    from early_check_keeps [OF this _ assms(1), of E now] assms(5) obtain tp' where
      "tcp_early_rexmt_check E now tp = Some tp'" "t_rexmtthresh tp' = t_rexmtthresh tp" by auto
    moreover have "predicted_threshold k n = k_rexmtthresh k" using False by (simp add: predicted_threshold_def)
    ultimately show ?thesis using le assms(10,12) by auto
  qed
qed

theorem sweep_prediction_exact_witness:
  "\<exists>tp'. tcp_early_rexmt_check (rec_env_zero\<lparr>tcprexmtthresh := 3\<rparr>) 7 (demo_tail\<lparr>snd_max := 4000\<rparr>) = Some tp' \<and> int (unat (t_rexmtthresh tp')) = 2"
proof -
  have "predicted_threshold demo_knobs 2 = 2" by (simp add: predicted_threshold_def)
  then show ?thesis
    using sweep_prediction_exact [where tp = "demo_tail\<lparr>snd_max := 4000\<rparr>" and E = "rec_env_zero\<lparr>tcprexmtthresh := 3\<rparr>" and n = 2 and now = 7 and k = demo_knobs]
    by (simp add: demo_tail_def demo_cubic_def tcpcb_zero_def inpcb_zero_def socket_zero_def sockbuf_zero_def SACK_ENABLED_def TCP_EARLY_REXMT_LIMIT_def
        demo_knobs_def)
qed

end
