(* ===== verification/TimerList.thy ===== *)
theory TimerList
  imports Timers
begin

text \<open>
  The timer list of \<^verbatim>\<open>reference/xnu/tcp_timer.c\<close>: each connection has an entry with the timer
  that runs next; the list runs at the earliest of them, in one of three granularities. A
  connection is its control block together with its entry and the use count of its socket;
  the list holds numbers of connections. Timer values count from the entry's start time.
  Locks have no state here: the operations are atomic, and the conditions that are tested
  again after a lock was taken are tested once. The order of the timers, their granularities
  and the mode bits are those of \<^verbatim>\<open>tcp_timer.h\<close> and fields of \<open>list_env\<close>.
\<close>

record list_env = timer_env +
  TCPT_ALL :: "tcpt list"
  IS_TIMER_HZ_10MS :: "tcpt \<Rightarrow> bool"
  IS_TIMER_HZ_100MS :: "tcpt \<Rightarrow> bool"
  TCP_TIMERLIST_10MS_MODE :: u16
  TCP_TIMERLIST_100MS_MODE :: u16
  TCP_TIMERLIST_500MS_MODE :: u16
  timer_fastmode_idlemax :: u32
  INP2_TIMEWAIT :: u32
  inp_dead :: "inpcb \<Rightarrow> bool"
  inp_stop_using :: "inpcb \<Rightarrow> bool"
  mptcp_reset_keepalive :: "tcpcb \<Rightarrow> tcpcb"

record tcptimerentry =
  te_index :: "tcpt option"
  te_mode :: u16
  te_runtime :: u32
  te_start :: u32

record tconn =
  tc_tp :: tcpcb
  tc_te :: tcptimerentry
  tc_usecount :: u32

text \<open>\<open>tl_call\<close> is the offset with which the thread call was last entered.\<close>

record tcptimerlist =
  tl_head :: "nat list"
  tl_runtime :: u32
  tl_schedtime :: u32
  tl_entries :: u32
  tl_maxentries :: u32
  tl_running :: bool
  tl_scheduled :: bool
  tl_mode :: u16
  tl_pref_mode :: u16
  tl_pref_offset :: u32
  tl_idleruns :: u32
  tl_probe_if_index :: nat
  tl_call :: u32

record tstate =
  ts_conn :: "nat \<Rightarrow> tconn"
  ts_list :: tcptimerlist

definition TCP_TIMER_10MS_QUANTUM :: u32 where "TCP_TIMER_10MS_QUANTUM = TCP_RETRANSHZ div 100"
definition TCP_TIMER_100MS_QUANTUM :: u32 where "TCP_TIMER_100MS_QUANTUM = TCP_RETRANSHZ div 10"
definition TCP_TIMER_500MS_QUANTUM :: u32 where "TCP_TIMER_500MS_QUANTUM = TCP_RETRANSHZ div 2"
definition TCP_TIMERLIST_MAX_OFFSET :: u32 where "TCP_TIMERLIST_MAX_OFFSET = 60 * 60 * TCP_RETRANSHZ"

lemmas quantum_defs = TCP_TIMER_10MS_QUANTUM_def TCP_TIMER_100MS_QUANTUM_def TCP_TIMER_500MS_QUANTUM_def
  TCP_TIMERLIST_MAX_OFFSET_def TCP_RETRANSHZ_def

definition TIMER_IS_ON_LIST :: "tcpcb \<Rightarrow> bool" where
  "TIMER_IS_ON_LIST tp \<longleftrightarrow> has_flag (t_flags tp) TF_TIMER_ONLIST"

definition TCP_SET_TIMER_MODE :: "'e list_env_scheme \<Rightarrow> u16 \<Rightarrow> tcpt \<Rightarrow> u16" where
  "TCP_SET_TIMER_MODE E mode i =
     (if IS_TIMER_HZ_10MS E i then mode OR TCP_TIMERLIST_10MS_MODE E
      else if IS_TIMER_HZ_100MS E i then mode OR TCP_TIMERLIST_100MS_MODE E
      else mode OR TCP_TIMERLIST_500MS_MODE E)"

subsection \<open>The entry of a connection\<close>

abbreviation tc_timer :: "tconn \<Rightarrow> tcpt \<Rightarrow> u32" where "tc_timer c \<equiv> t_timer (tc_tp c)"

definition tc_set_timer :: "tcpt \<Rightarrow> u32 \<Rightarrow> tconn \<Rightarrow> tconn" where
  "tc_set_timer i v c = c\<lparr>tc_tp := set_timer i v (tc_tp c)\<rparr>"

definition entry_runtime :: "u32 \<Rightarrow> u32 \<Rightarrow> u32" where
  "entry_runtime start v = (if start + v = 0 then 1 else start + v)"

text \<open>The scan for the timer that runs first; zero stands for none yet.\<close>

primrec lotimer_scan :: "'e list_env_scheme \<Rightarrow> (tcpt \<Rightarrow> u32) \<Rightarrow> tcpt list \<Rightarrow> u32 \<times> tcpt option \<times> u16 \<Rightarrow> u32 \<times> tcpt option \<times> u16" where
  "lotimer_scan E timer [] acc = acc"
| "lotimer_scan E timer (i # is) acc =
     (case acc of (lo_timer, lo_index, mode) \<Rightarrow>
        lotimer_scan E timer is
          (if timer i \<noteq> 0 then
             (let mode = TCP_SET_TIMER_MODE E mode i in
              if lo_timer = 0 \<or> timer i < lo_timer then (timer i, Some i, mode) else (lo_timer, lo_index, mode))
           else acc))"

text \<open>Setting the index, the mode and, for a timer that runs, the time; \<open>None\<close> for the failed \<^verbatim>\<open>VERIFY\<close>.\<close>

definition entry_set :: "tcpt option \<Rightarrow> u16 \<Rightarrow> tconn \<Rightarrow> tconn option" where
  "entry_set index mode c =
     (if index \<noteq> None \<and> mode = 0 then None
      else
        let te = (tc_te c)\<lparr>te_index := index, te_mode := mode\<rparr> in
        Some (c\<lparr>tc_te := (case index of None \<Rightarrow> te
                 | Some i \<Rightarrow> te\<lparr>te_runtime := entry_runtime (te_start te) (tc_timer c i)\<rparr>)\<rparr>))"

definition tcp_set_lotimer_index :: "'e list_env_scheme \<Rightarrow> tconn \<Rightarrow> tconn option" where
  "tcp_set_lotimer_index E c =
     (case lotimer_scan E (tc_timer c) (TCPT_ALL E) (0, None, 0) of (_, lo_index, mode) \<Rightarrow> entry_set lo_index mode c)"

subsection \<open>The list\<close>

definition tcp_sched_timerlist :: "u32 \<Rightarrow> u32 \<Rightarrow> tcptimerlist \<Rightarrow> tcptimerlist" where
  "tcp_sched_timerlist now offset l =
     (let offset = min offset TCP_TIMERLIST_MAX_OFFSET;
          runtime = now + offset;
          (runtime, offset) = (if runtime = 0 then (runtime + 1, offset + 1) else (runtime, offset))
      in l\<lparr>tl_runtime := runtime, tl_schedtime := now, tl_call := offset, tl_scheduled := True\<rparr>)"

definition mode_quantum :: "'e list_env_scheme \<Rightarrow> u16 \<Rightarrow> u32" where
  "mode_quantum E mode =
     (if has_flag mode (TCP_TIMERLIST_10MS_MODE E) then TCP_TIMER_10MS_QUANTUM
      else if has_flag mode (TCP_TIMERLIST_100MS_MODE E) then TCP_TIMER_100MS_QUANTUM
      else TCP_TIMER_500MS_QUANTUM)"

definition need_to_resched_timerlist :: "'e list_env_scheme \<Rightarrow> tcptimerlist \<Rightarrow> u32 \<Rightarrow> u16 \<Rightarrow> bool" where
  "need_to_resched_timerlist E l runtime mode =
     (if tl_running l then True
      else if \<not> tl_scheduled l then True
      else
        (let diff = timer_diff (tl_runtime l) 0 runtime 0 in
         if diff \<le> 0 then False
         else \<not> diff \<le> uint (mode_quantum E mode)))"

definition upd_conn :: "nat \<Rightarrow> (tconn \<Rightarrow> tconn) \<Rightarrow> tstate \<Rightarrow> tstate" where
  "upd_conn k f s = s\<lparr>ts_conn := (ts_conn s)(k := f (ts_conn s k))\<rparr>"

definition upd_list :: "(tcptimerlist \<Rightarrow> tcptimerlist) \<Rightarrow> tstate \<Rightarrow> tstate" where
  "upd_list f s = s\<lparr>ts_list := f (ts_list s)\<rparr>"

definition off_list :: "tconn \<Rightarrow> tconn" where
  "off_list c = c\<lparr>tc_usecount := (if tc_usecount c = 0 then 0 else tc_usecount c - 1),
     tc_tp := (tc_tp c)\<lparr>t_flags := t_flags (tc_tp c) AND NOT TF_TIMER_ONLIST\<rparr>\<rparr>"

definition tcp_remove_timer :: "nat \<Rightarrow> tstate \<Rightarrow> tstate" where
  "tcp_remove_timer k s =
     (if \<not> TIMER_IS_ON_LIST (tc_tp (ts_conn s k)) then s
      else upd_conn k off_list (upd_list (\<lambda>l. l\<lparr>tl_head := remove1 k (tl_head l), tl_entries := tl_entries l - 1\<rparr>) s))"

definition tcp_canceltimers :: "u32 \<Rightarrow> nat \<Rightarrow> tstate \<Rightarrow> tstate" where
  "tcp_canceltimers now k s =
     upd_conn k (\<lambda>c. c\<lparr>tc_tp := (tc_tp c)\<lparr>t_timer := (\<lambda>_. 0)\<rparr>, tc_te := (tc_te c)\<lparr>te_start := now, te_index := None\<rparr>\<rparr>)
       (tcp_remove_timer k s)"

definition on_list :: "tconn \<Rightarrow> tconn" where
  "on_list c = c\<lparr>tc_usecount := tc_usecount c + 1,
     tc_tp := (tc_tp c)\<lparr>t_flags := t_flags (tc_tp c) OR TF_TIMER_ONLIST\<rparr>\<rparr>"

definition list_insert :: "nat \<Rightarrow> tcptimerlist \<Rightarrow> tcptimerlist" where
  "list_insert k l =
     (let n = tl_entries l + 1
      in l\<lparr>tl_head := k # tl_head l, tl_entries := n, tl_maxentries := (if n > tl_maxentries l then n else tl_maxentries l)\<rparr>)"

text \<open>The end of \<^verbatim>\<open>tcp_sched_timers\<close>: the label \<^verbatim>\<open>schedule\<close>.\<close>

definition sched_list :: "'e list_env_scheme \<Rightarrow> u32 \<Rightarrow> u16 \<Rightarrow> u32 \<Rightarrow> tcptimerlist \<Rightarrow> tcptimerlist" where
  "sched_list E now mode offset l =
     (if has_flag mode (TCP_TIMERLIST_10MS_MODE E) then
        tcp_sched_timerlist now (min offset TCP_TIMER_10MS_QUANTUM)
          (l\<lparr>tl_mode := TCP_TIMERLIST_10MS_MODE E, tl_idleruns := 0\<rparr>)
      else if has_flag mode (TCP_TIMERLIST_100MS_MODE E) then
        tcp_sched_timerlist now (min offset TCP_TIMER_100MS_QUANTUM)
          (l\<lparr>tl_mode := (if tl_mode l > TCP_TIMERLIST_100MS_MODE E then TCP_TIMERLIST_100MS_MODE E else tl_mode l),
             tl_idleruns := 0\<rparr>)
      else tcp_sched_timerlist now offset l)"

definition sched_offset :: "u32 \<Rightarrow> tcptimerentry \<Rightarrow> int" where
  "sched_offset now te = (let offset = timer_diff (te_runtime te) 0 now 0 in if offset \<le> 0 then 1 else offset)"

text \<open>The list of a connection whose entry is on it.\<close>

definition sched_again :: "'e list_env_scheme \<Rightarrow> u32 \<Rightarrow> tcptimerentry \<Rightarrow> tcptimerlist \<Rightarrow> tcptimerlist" where
  "sched_again E now te l =
     (let offset = word_of_int (sched_offset now te) in
      if need_to_resched_timerlist E l (te_runtime te) (te_mode te) then
        (if tl_running l then
           l\<lparr>tl_pref_mode := tl_pref_mode l OR te_mode te,
             tl_pref_offset := (if tl_pref_offset l = 0 \<or> offset < tl_pref_offset l then offset else tl_pref_offset l)\<rparr>
         else if tl_scheduled l \<and> timer_diff (tl_runtime l) 0 now offset \<le> 0 then l
         else sched_list E now (te_mode te) offset l)
      else l)"

definition tcp_sched_timers :: "'e list_env_scheme \<Rightarrow> u32 \<Rightarrow> nat \<Rightarrow> tstate \<Rightarrow> tstate" where
  "tcp_sched_timers E now k s =
     (let c = ts_conn s k; te = tc_te c in
      if inp_dead E (t_inpcb (tc_tp c)) then tcp_remove_timer k s
      else if te_index te = None then tcp_remove_timer k s
      else if \<not> TIMER_IS_ON_LIST (tc_tp c) then
        (let s = upd_list (list_insert k) (upd_conn k on_list s) in
         if \<not> tl_scheduled (ts_list s)
         then upd_list (sched_list E now (te_mode te) (word_of_int (sched_offset now te))) s
         else upd_list (sched_again E now te) s)
      else upd_list (sched_again E now te) s)"

definition tcp_check_timers :: "'e list_env_scheme \<Rightarrow> u32 \<Rightarrow> nat \<Rightarrow> tstate \<Rightarrow> tstate option" where
  "tcp_check_timers E now k s =
     (if has_flag (inp_flags2 (t_inpcb (tc_tp (ts_conn s k)))) (INP2_TIMEWAIT E) then Some s
      else map_option (\<lambda>c. tcp_sched_timers E now k (upd_conn k (\<lambda>_. c) s)) (tcp_set_lotimer_index E (ts_conn s k)))"

subsection \<open>Running the timers of a connection\<close>

text \<open>
  The connection after a handler: \<open>None\<close> inside when \<^verbatim>\<open>tcp_drop\<close> or \<^verbatim>\<open>tcp_close\<close> ended it, both
  of which cancel all timers.
\<close>

definition run_handler ::
  "'e list_env_scheme \<Rightarrow> cubic_params \<Rightarrow> u32 \<Rightarrow> u64 \<Rightarrow> tcpt \<Rightarrow> tconn \<Rightarrow> (bool \<times> tconn) option" where
  "run_handler E P now slept i c =
     map_option (\<lambda>r. case r of
         TLive tp \<Rightarrow> (True, c\<lparr>tc_tp := tp\<rparr>) | TDrop tp _ \<Rightarrow> (False, c\<lparr>tc_tp := tp\<rparr>) | TClose tp \<Rightarrow> (False, c\<lparr>tc_tp := tp\<rparr>))
       (tcp_timers E P now slept (tc_tp c) i)"

definition probe_interface ::
  "'e list_env_scheme \<Rightarrow> cubic_params \<Rightarrow> u32 \<Rightarrow> u64 \<Rightarrow> nat \<Rightarrow> tconn \<Rightarrow> tconn option" where
  "probe_interface E P now slept probe_if_index c =
     (if TCP_IF_STATE_CHANGED (tc_tp c) probe_if_index then
        do {
          let tp = tc_tp c;
          (_, c) \<leftarrow> run_handler E P now slept TCPT_PTO (c\<lparr>tc_tp := tp\<lparr>t_flagsext := t_flagsext tp OR TF_IF_PROBING\<rparr>\<rparr>);
          let c = tc_set_timer TCPT_PTO 0 c;
          let tp = tc_tp c;
          Some (c\<lparr>tc_tp := tp\<lparr>t_flagsext := t_flagsext tp AND NOT TF_IF_PROBING\<rparr>\<rparr>)
        }
      else Some c)"

text \<open>
  Counting every timer from now: those that are due are collected, in the order of the timers,
  the others keep what is left.
\<close>

primrec rebase_scan ::
  "'e list_env_scheme \<Rightarrow> u32 \<Rightarrow> u32 \<Rightarrow> tcpt list \<Rightarrow> (tcpt \<Rightarrow> u32) \<times> tcpt list \<times> u32 \<times> tcpt option \<times> u16
     \<Rightarrow> (tcpt \<Rightarrow> u32) \<times> tcpt list \<times> u32 \<times> tcpt option \<times> u16" where
  "rebase_scan E now start [] acc = acc"
| "rebase_scan E now start (i # is) acc =
     (case acc of (timer, due, lo_timer, lo_index, mode) \<Rightarrow>
        rebase_scan E now start is
          (if timer i \<noteq> 0 then
             (let diff = timer_diff start (timer i) now 0 in
              if diff \<le> 0 then (timer, due @ [i], lo_timer, lo_index, mode)
              else
                (let d = word_of_int diff;
                     mode = TCP_SET_TIMER_MODE E mode i
                 in if lo_timer = 0 \<or> d < lo_timer then (timer(i := d), due, d, Some i, mode)
                    else (timer(i := d), due, lo_timer, lo_index, mode)))
           else acc))"

definition rebase :: "'e list_env_scheme \<Rightarrow> u32 \<Rightarrow> tconn \<Rightarrow> (tcpt list \<times> tconn) option" where
  "rebase E now c =
     (case rebase_scan E now (te_start (tc_te c)) (TCPT_ALL E) (tc_timer c, [], 0, None, 0) of
        (timer, due, _, lo_index, mode) \<Rightarrow>
          map_option (Pair due)
            (entry_set lo_index mode (c\<lparr>tc_tp := (tc_tp c)\<lparr>t_timer := timer\<rparr>, tc_te := (tc_te c)\<lparr>te_start := now\<rparr>\<rparr>)))"

primrec run_due ::
  "'e list_env_scheme \<Rightarrow> cubic_params \<Rightarrow> u32 \<Rightarrow> u64 \<Rightarrow> tcpt list \<Rightarrow> tconn \<Rightarrow> (bool \<times> tconn) option" where
  "run_due E P now slept [] c = Some (True, c)"
| "run_due E P now slept (i # is) c =
     do {
       (live, c) \<leftarrow> run_handler E P now slept i (tc_set_timer i 0 c);
       if live then run_due E P now slept is c else Some (False, c)
     }"

text \<open>
  The result: the offset of the next timer and the modes, whether the connection lives, and
  the connection. The caller takes an entry without a timer off the list.
\<close>

definition conn_next :: "tconn \<Rightarrow> u32 \<times> u16" where
  "conn_next c = (case te_index (tc_te c) of None \<Rightarrow> (0, 0) | Some i \<Rightarrow> (tc_timer c i, te_mode (tc_te c)))"

definition run_others ::
  "'e list_env_scheme \<Rightarrow> cubic_params \<Rightarrow> u32 \<Rightarrow> u64 \<Rightarrow> tconn \<Rightarrow> (u32 \<times> u16 \<times> bool \<times> tconn) option" where
  "run_others E P now slept c =
     do {
       (due, c) \<leftarrow> rebase E now c;
       (live, c) \<leftarrow> run_due E P now slept due c;
       if \<not> live then Some (0, 0, False, c)
       else do {
         c \<leftarrow> (if due \<noteq> [] then tcp_set_lotimer_index E c else Some c);
         let (offset, mode) = conn_next c;
         Some (offset, mode, True, c)
       }
     }"

definition run_conn ::
  "'e list_env_scheme \<Rightarrow> cubic_params \<Rightarrow> u32 \<Rightarrow> u64 \<Rightarrow> nat \<Rightarrow> tconn \<Rightarrow> (u32 \<times> u16 \<times> bool \<times> tconn) option" where
  "run_conn E P now slept probe_if_index c =
     do {
       c \<leftarrow> probe_interface E P now slept probe_if_index c;
       case te_index (tc_te c) of
         None \<Rightarrow> Some (0, 0, True, c)
       | Some index \<Rightarrow>
           (let timer_val = tc_timer c index;
                diff = timer_diff (te_runtime (tc_te c)) 0 now 0
            in if diff > 0 then Some (word_of_int diff, te_mode (tc_te c), True, c)
               else do {
                 let c = tc_set_timer index 0 c;
                 (live, c) \<leftarrow> (if timer_val > 0 then run_handler E P now slept index c else Some (True, c));
                 if \<not> live then Some (0, 0, False, c) else run_others E P now slept c
               })
     }"

definition tcp_run_conn_timer ::
  "'e list_env_scheme \<Rightarrow> cubic_params \<Rightarrow> u32 \<Rightarrow> u64 \<Rightarrow> nat \<Rightarrow> tstate \<Rightarrow> (u32 \<times> u16 \<times> tstate) option" where
  "tcp_run_conn_timer E P now slept k s =
     (if inp_stop_using E (t_inpcb (tc_tp (ts_conn s k))) then
        Some (0, 0, tcp_remove_timer k s)
      else do {
        (offset, mode, live, c) \<leftarrow> run_conn E P now slept (tl_probe_if_index (ts_list s)) (ts_conn s k);
        let s = upd_conn k (\<lambda>_. c) s;
        Some (if \<not> live then (offset, mode, tcp_canceltimers now k s)
              else if te_index (tc_te c) = None then (0, mode, tcp_remove_timer k s)
              else (offset, mode, s))
      })"

subsection \<open>Running the list\<close>

definition sooner :: "u32 \<Rightarrow> u32 \<Rightarrow> u32" where
  "sooner next_timer offset = (if next_timer = 0 \<or> offset < next_timer then offset else next_timer)"

definition run_entry ::
  "'e list_env_scheme \<Rightarrow> cubic_params \<Rightarrow> u32 \<Rightarrow> u64 \<Rightarrow> nat \<Rightarrow> u32 \<times> u16 \<times> tstate \<Rightarrow> (u32 \<times> u16 \<times> tstate) option" where
  "run_entry E P now slept k acc =
     (case acc of (next_timer, list_mode, s) \<Rightarrow>
        let c = ts_conn s k; te = tc_te c in
        if te_index te \<noteq> None \<and> TSTMP_GT E (te_runtime te) now
           \<and> \<not> TCP_IF_STATE_CHANGED (tc_tp c) (tl_probe_if_index (ts_list s))
        then
          (let offset = word_of_int (timer_diff (te_runtime te) 0 now 0)
           in Some (sooner next_timer offset, list_mode OR te_mode te, s))
        else if inp_stop_using E (t_inpcb (tc_tp c)) then Some (next_timer, list_mode, tcp_remove_timer k s)
        else do {
          (offset, te_mode, s) \<leftarrow> tcp_run_conn_timer E P now slept k s;
          Some (if offset > 0 \<and> te_mode \<noteq> 0 then (sooner next_timer offset, list_mode OR te_mode, s)
                else (next_timer, list_mode, s))
        })"

primrec run_entries ::
  "'e list_env_scheme \<Rightarrow> cubic_params \<Rightarrow> u32 \<Rightarrow> u64 \<Rightarrow> nat list \<Rightarrow> u32 \<times> u16 \<times> tstate \<Rightarrow> (u32 \<times> u16 \<times> tstate) option" where
  "run_entries E P now slept [] acc = Some acc"
| "run_entries E P now slept (k # ks) acc =
     (if k \<in> set (tl_head (ts_list (snd (snd acc))))
      then Option.bind (run_entry E P now slept k acc) (run_entries E P now slept ks)
      else run_entries E P now slept ks acc)"

definition next_mode :: "'e list_env_scheme \<Rightarrow> u16 \<Rightarrow> u16 \<Rightarrow> u16" where
  "next_mode E list_mode pref_mode =
     (if has_flag list_mode (TCP_TIMERLIST_10MS_MODE E) \<or> has_flag pref_mode (TCP_TIMERLIST_10MS_MODE E)
      then TCP_TIMERLIST_10MS_MODE E
      else if has_flag list_mode (TCP_TIMERLIST_100MS_MODE E) \<or> has_flag pref_mode (TCP_TIMERLIST_100MS_MODE E)
      then TCP_TIMERLIST_100MS_MODE E
      else TCP_TIMERLIST_500MS_MODE E)"

definition list_reschedule :: "'e list_env_scheme \<Rightarrow> u32 \<Rightarrow> u32 \<Rightarrow> u16 \<Rightarrow> tcptimerlist \<Rightarrow> tcptimerlist" where
  "list_reschedule E now next_timer list_mode l =
     (if tl_head l \<noteq> [] then
        (let mode = next_mode E list_mode (tl_pref_mode l);
             again = (mode = TCP_TIMERLIST_500MS_MODE E \<and> tl_mode l \<noteq> mode \<and> tl_idleruns l < timer_fastmode_idlemax E);
             idle = (if again then tl_idleruns l + 1 else 0);
             next_timer = (if again then TCP_TIMER_100MS_QUANTUM else next_timer);
             mode = (if again then tl_mode l else mode);
             next_timer = (if tl_pref_offset l \<noteq> 0 then min (tl_pref_offset l) next_timer else next_timer);
             next_timer = (if mode = TCP_TIMERLIST_500MS_MODE E then max next_timer TCP_TIMER_500MS_QUANTUM else next_timer)
         in tcp_sched_timerlist now next_timer (l\<lparr>tl_mode := mode, tl_idleruns := idle\<rparr>))
      else tcp_sched_timerlist now TCP_TIMERLIST_MAX_OFFSET l)"

definition tcp_run_timerlist ::
  "'e list_env_scheme \<Rightarrow> cubic_params \<Rightarrow> u32 \<Rightarrow> u64 \<Rightarrow> tstate \<Rightarrow> tstate option" where
  "tcp_run_timerlist E P now slept s =
     do {
       let s = upd_list (\<lambda>l. l\<lparr>tl_running := True\<rparr>) s;
       (next_timer, list_mode, s) \<leftarrow> run_entries E P now slept (tl_head (ts_list s)) (0, 0, s);
       Some (upd_list (\<lambda>l. (list_reschedule E now next_timer list_mode l)
               \<lparr>tl_running := False, tl_pref_mode := 0, tl_pref_offset := 0, tl_probe_if_index := 0\<rparr>) s)
     }"

subsection \<open>Probing an interface\<close>

definition tcp_interface_send_probe :: "'e list_env_scheme \<Rightarrow> u32 \<Rightarrow> nat \<Rightarrow> tcptimerlist \<Rightarrow> tcptimerlist" where
  "tcp_interface_send_probe E now probe_if_index l =
     (if tl_probe_if_index l > 0 \<and> tl_probe_if_index l \<noteq> probe_if_index then l
      else
        (let l = l\<lparr>tl_probe_if_index := probe_if_index\<rparr> in
         if tl_running l \<or> tl_scheduled l \<and> timer_diff (tl_runtime l) 0 now TCP_TIMER_10MS_QUANTUM \<le> 0 then l
         else tcp_sched_timerlist now TCP_TIMER_10MS_QUANTUM (l\<lparr>tl_mode := TCP_TIMERLIST_10MS_MODE E, tl_idleruns := 0\<rparr>)))"

definition tcp_enable_read_probe :: "'e list_env_scheme \<Rightarrow> u32 \<Rightarrow> tconn \<Rightarrow> ifnet \<Rightarrow> tconn" where
  "tcp_enable_read_probe E now c ifp =
     (let tp = tc_tp c; te = tc_te c in
      if t_state tp = TCPS_ESTABLISHED \<and> snd_max tp = snd_una tp \<and> inp_last_outifp (t_inpcb tp) = Some ifp
         \<and> \<not> has_flag (t_flagsext tp) TF_DETECT_READSTALL \<and> t_rtimo_probes tp = 0
      then
        (let tp = tp\<lparr>t_flagsext := t_flagsext tp OR TF_DETECT_READSTALL, t_rtimo_probes := 0\<rparr>;
             tp = set_timer TCPT_KEEP (OFFSET_FROM_START E tp TCP_TIMER_10MS_QUANTUM) tp;
             te = (if te_index te = None then te\<lparr>te_index := Some TCPT_KEEP, te_runtime := now + TCP_TIMER_10MS_QUANTUM\<rparr>
                   else if timer_diff (te_runtime te) 0 now TCP_TIMER_10MS_QUANTUM > 0
                   then te\<lparr>te_index := Some TCPT_KEEP, te_runtime := entry_runtime now TCP_TIMER_10MS_QUANTUM\<rparr>
                   else te)
         in c\<lparr>tc_tp := tp, tc_te := te\<rparr>)
      else c)"

definition tcp_disable_read_probe :: "'e list_env_scheme \<Rightarrow> bool \<Rightarrow> tconn \<Rightarrow> tconn" where
  "tcp_disable_read_probe E mpsub c =
     (let tp = tc_tp c in
      if t_adaptive_rtimo tp = 0 \<and> (has_flag (t_flagsext tp) TF_DETECT_READSTALL \<or> t_rtimo_probes tp > 0)
      then (let tp = tcp_keepalive_reset E tp in c\<lparr>tc_tp := (if mpsub then mptcp_reset_keepalive E tp else tp)\<rparr>)
      else c)"

definition probe_list :: "'e list_env_scheme \<Rightarrow> u32 \<Rightarrow> tcptimerlist \<Rightarrow> tcptimerlist" where
  "probe_list E now l =
     (if tl_running l then l\<lparr>tl_pref_mode := tl_pref_mode l OR TCP_TIMERLIST_10MS_MODE E\<rparr>
      else if tl_scheduled l \<and> timer_diff (tl_runtime l) 0 now TCP_TIMER_10MS_QUANTUM \<le> 0 then l
      else tcp_sched_timerlist now TCP_TIMER_10MS_QUANTUM (l\<lparr>tl_mode := TCP_TIMERLIST_10MS_MODE E, tl_idleruns := 0\<rparr>))"

primrec probe_conns :: "'e list_env_scheme \<Rightarrow> u32 \<Rightarrow> ifnet \<Rightarrow> bool \<Rightarrow> (nat \<Rightarrow> bool) \<Rightarrow> nat list \<Rightarrow> tstate \<Rightarrow> tstate" where
  "probe_conns E now ifp enable mpsub [] s = s"
| "probe_conns E now ifp enable mpsub (k # ks) s =
     probe_conns E now ifp enable mpsub ks
       (if inp_stop_using E (t_inpcb (tc_tp (ts_conn s k))) then s
        else upd_conn k (\<lambda>c. if enable then tcp_enable_read_probe E now c ifp else tcp_disable_read_probe E (mpsub k) c) s)"

definition tcp_probe_connectivity ::
  "'e list_env_scheme \<Rightarrow> u32 \<Rightarrow> ifnet option \<Rightarrow> bool \<Rightarrow> (nat \<Rightarrow> bool) \<Rightarrow> nat list \<Rightarrow> tstate \<Rightarrow> tstate" where
  "tcp_probe_connectivity E now ifp enable mpsub pcbs s =
     (case ifp of None \<Rightarrow> s | Some ifp \<Rightarrow> upd_list (probe_list E now) (probe_conns E now ifp enable mpsub pcbs s))"

subsection \<open>The scans\<close>

text \<open>The three mode bits are bits.\<close>

definition mode_bits :: "'e list_env_scheme \<Rightarrow> bool" where
  "mode_bits E \<longleftrightarrow> TCP_TIMERLIST_10MS_MODE E \<noteq> 0 \<and> TCP_TIMERLIST_100MS_MODE E \<noteq> 0 \<and> TCP_TIMERLIST_500MS_MODE E \<noteq> 0"

lemma set_mode_nonzero: "mode_bits E \<Longrightarrow> TCP_SET_TIMER_MODE E mode i \<noteq> 0"
  by (simp add: mode_bits_def TCP_SET_TIMER_MODE_def or_eq_0_iff)

text \<open>
  The earliest of the timers in \<open>is\<close>: none if none runs, otherwise a running one that no other
  undercuts.
\<close>

definition earliest :: "(tcpt \<Rightarrow> u32) \<Rightarrow> tcpt set \<Rightarrow> tcpt option \<Rightarrow> bool" where
  "earliest timer I idx \<longleftrightarrow> (case idx of None \<Rightarrow> \<forall>i\<in>I. timer i = 0
     | Some i \<Rightarrow> i \<in> I \<and> timer i \<noteq> 0 \<and> (\<forall>j\<in>I. timer j \<noteq> 0 \<longrightarrow> timer i \<le> timer j))"

definition scanned :: "(tcpt \<Rightarrow> u32) \<Rightarrow> tcpt set \<Rightarrow> u32 \<times> tcpt option \<times> u16 \<Rightarrow> bool" where
  "scanned timer I acc \<longleftrightarrow> (case acc of (lo, idx, mode) \<Rightarrow>
     earliest timer I idx \<and> lo = (case idx of None \<Rightarrow> 0 | Some i \<Rightarrow> timer i) \<and> (idx \<noteq> None \<longrightarrow> mode \<noteq> 0))"

lemma scanned_step:
  assumes "mode_bits E" "scanned timer I (lo, idx, mode)"
  shows "scanned timer (insert i I)
    (if timer i \<noteq> 0 then let mode = TCP_SET_TIMER_MODE E mode i in
       if lo = 0 \<or> timer i < lo then (timer i, Some i, mode) else (lo, idx, mode) else (lo, idx, mode))"
proof (cases "timer i = 0")
  case False
  show ?thesis
  proof (cases idx)
    case None
    then show ?thesis using assms False set_mode_nonzero [OF assms(1)] by (auto simp: scanned_def earliest_def)
  next
    case (Some k)
    then have k: "timer k \<noteq> 0" "lo = timer k" "\<And>j. j \<in> I \<Longrightarrow> timer j \<noteq> 0 \<Longrightarrow> timer k \<le> timer j" "k \<in> I"
      using assms(2) by (auto simp: scanned_def earliest_def)
    show ?thesis
    proof (cases "timer i < timer k")
      case True
      then have "timer i \<le> timer j" if "j \<in> I" "timer j \<noteq> 0" for j using k(3) [OF that] by simp
      then show ?thesis using True False k set_mode_nonzero [OF assms(1)] by (simp add: scanned_def earliest_def)
    next
      case False
      then show ?thesis using \<open>timer i \<noteq> 0\<close> k Some set_mode_nonzero [OF assms(1)] by (simp add: scanned_def earliest_def)
    qed
  qed
qed (use assms(2) in \<open>auto simp: scanned_def earliest_def split: option.splits\<close>)

lemma lotimer_scan_scanned:
  "mode_bits E \<Longrightarrow> scanned timer I acc \<Longrightarrow> scanned timer (I \<union> set is) (lotimer_scan E timer is acc)"
proof (induction "is" arbitrary: I acc)
  case (Cons i "is")
  obtain lo idx mode where acc: "acc = (lo, idx, mode)" by (cases acc) auto
  show ?case
    using Cons.IH [OF Cons.prems(1) scanned_step [OF Cons.prems(1), of timer I lo idx mode i]] Cons.prems(2) acc
    by (simp add: Un_commute)
qed simp

text \<open>An entry points to the earliest timer and its time.\<close>

definition entry_ok :: "'e list_env_scheme \<Rightarrow> tconn \<Rightarrow> bool" where
  "entry_ok E c \<longleftrightarrow> earliest (tc_timer c) (set (TCPT_ALL E)) (te_index (tc_te c))
     \<and> (case te_index (tc_te c) of None \<Rightarrow> True
        | Some i \<Rightarrow> te_mode (tc_te c) \<noteq> 0 \<and> te_runtime (tc_te c) = entry_runtime (te_start (tc_te c)) (tc_timer c i))"

lemma entry_set_ok:
  assumes "scanned (tc_timer c) (set (TCPT_ALL E)) (lo, idx, mode)"
  shows "\<exists>c'. entry_set idx mode c = Some c' \<and> entry_ok E c' \<and> tc_tp c' = tc_tp c \<and> te_start (tc_te c') = te_start (tc_te c)"
  using assms by (cases idx) (auto simp: entry_set_def entry_ok_def scanned_def Let_def)

lemma set_lotimer_index_ok:
  assumes "mode_bits E"
  shows "\<exists>c'. tcp_set_lotimer_index E c = Some c' \<and> entry_ok E c' \<and> tc_tp c' = tc_tp c \<and> te_start (tc_te c') = te_start (tc_te c)"
proof -
  obtain lo idx mode where l: "lotimer_scan E (tc_timer c) (TCPT_ALL E) (0, None, 0) = (lo, idx, mode)"
    by (cases "lotimer_scan E (tc_timer c) (TCPT_ALL E) (0, None, 0)") auto
  then have "scanned (tc_timer c) (set (TCPT_ALL E)) (lo, idx, mode)"
    using lotimer_scan_scanned [OF assms, of "tc_timer c" "{}" "(0, None, 0)" "TCPT_ALL E"]
    by (simp add: scanned_def earliest_def)
  then show ?thesis using entry_set_ok [of c E lo idx mode] l by (simp add: tcp_set_lotimer_index_def)
qed

text \<open>Whether a timer is due, and what is left of one that is not.\<close>

definition timer_due :: "u32 \<Rightarrow> u32 \<Rightarrow> (tcpt \<Rightarrow> u32) \<Rightarrow> tcpt \<Rightarrow> bool" where
  "timer_due now start timer i \<longleftrightarrow> timer i \<noteq> 0 \<and> timer_diff start (timer i) now 0 \<le> 0"

definition time_left :: "u32 \<Rightarrow> u32 \<Rightarrow> (tcpt \<Rightarrow> u32) \<Rightarrow> tcpt \<Rightarrow> u32" where
  "time_left now start timer i = (if timer i = 0 \<or> timer_due now start timer i then 0 else start + timer i - now)"

lemma diff_word: "word_of_int (timer_diff a b c 0) = a + b - c"
  by (simp add: timer_diff_def)

lemma left_nonzero: "timer i \<noteq> 0 \<Longrightarrow> \<not> timer_due now start timer i \<Longrightarrow> time_left now start timer i \<noteq> 0"
  by (auto simp: time_left_def timer_due_def timer_diff_def)

definition rebased :: "u32 \<Rightarrow> u32 \<Rightarrow> (tcpt \<Rightarrow> u32) \<Rightarrow> tcpt list \<Rightarrow> tcpt set \<Rightarrow> (tcpt \<Rightarrow> u32) \<Rightarrow> tcpt list
    \<Rightarrow> (tcpt \<Rightarrow> u32) \<times> tcpt list \<times> u32 \<times> tcpt option \<times> u16 \<Rightarrow> bool" where
  "rebased now start t0 is I timer due r \<longleftrightarrow>
     (\<forall>j. fst r j = (if j \<in> set is \<and> \<not> timer_due now start t0 j then time_left now start t0 j else timer j))
     \<and> fst (snd r) = due @ filter (timer_due now start t0) is
     \<and> scanned (time_left now start t0) (I \<union> set is) (snd (snd r))"

lemma rebase_scan_spec:
  assumes "mode_bits E" "distinct is" "\<And>i. i \<in> set is \<Longrightarrow> timer i = t0 i" "scanned (time_left now start t0) I acc"
  shows "rebased now start t0 is I timer due (rebase_scan E now start is (timer, due, acc))"
  using assms(2-4)
proof (induction "is" arbitrary: timer due acc I)
  case Nil
  then show ?case by (simp add: rebased_def)
next
  case (Cons i "is")
  let ?l = "time_left now start t0"
  obtain lo idx mode where acc: "acc = (lo, idx, mode)" by (cases acc) auto
  have i: "timer i = t0 i" "distinct is" "i \<notin> set is" using Cons.prems(1,2) by simp_all
  have same: "\<And>j. j \<in> set is \<Longrightarrow> timer j = t0 j" "\<And>j. j \<in> set is \<Longrightarrow> (timer(i := ?l i)) j = t0 j" using Cons.prems(2) i(3) by auto
  consider "timer i = 0" | "timer_due now start t0 i" | "timer i \<noteq> 0" "\<not> timer_due now start t0 i" by blast
  then show ?case
  proof cases
    case 1
    then have z: "?l i = 0" "\<not> timer_due now start t0 i" using i(1) by (simp_all add: time_left_def timer_due_def)
    then have "scanned ?l (insert i I) acc"
      using Cons.prems(3) by (auto simp: scanned_def earliest_def split: option.splits)
    then show ?thesis
      using Cons.IH [OF i(2) same(1), of "insert i I" acc due] 1 z acc by (simp add: rebased_def)
  next
    case 2
    then have "?l i = 0" by (simp add: time_left_def)
    then have "scanned ?l (insert i I) acc"
      using Cons.prems(3) by (auto simp: scanned_def earliest_def split: option.splits)
    then show ?thesis
      using Cons.IH [OF i(2) same(1), of "insert i I" acc "due @ [i]"] 2 i(1) acc by (auto simp: rebased_def timer_due_def)
  next
    case 3
    have l: "?l i \<noteq> 0" "?l i = start + t0 i - now" using left_nonzero [of t0 i] 3 i(1) by (simp_all add: time_left_def)
    obtain acc2 where a: "(let mode = TCP_SET_TIMER_MODE E mode i in
        if lo = 0 \<or> ?l i < lo then (?l i, Some i, mode) else (lo, idx, mode)) = acc2" by blast
    have sc: "scanned ?l (insert i I) acc2"
      using scanned_step [OF assms(1), of ?l I lo idx mode i] Cons.prems(3) l(1) a acc by simp
    define r where "r = rebase_scan E now start is (timer(i := ?l i), due, acc2)"
    have "rebase_scan E now start (i # is) (timer, due, acc) = r"
      using 3 i(1) l(2) a acc by (auto simp: r_def timer_due_def diff_word Let_def)
    moreover have "rebased now start t0 is (insert i I) (timer(i := ?l i)) due r"
      unfolding r_def by (rule Cons.IH [OF i(2) same(2) sc])
    ultimately show ?thesis using 3 by (simp add: rebased_def)
  qed
qed

lemma rebase_spec:
  assumes "mode_bits E" "distinct (TCPT_ALL E)"
  shows "\<exists>c'. rebase E now c = Some (filter (timer_due now (te_start (tc_te c)) (tc_timer c)) (TCPT_ALL E), c')
    \<and> te_start (tc_te c') = now \<and> earliest (time_left now (te_start (tc_te c)) (tc_timer c)) (set (TCPT_ALL E)) (te_index (tc_te c'))
    \<and> (\<forall>i\<in>set (TCPT_ALL E). tc_timer c' i = (if timer_due now (te_start (tc_te c)) (tc_timer c) i then tc_timer c i
         else time_left now (te_start (tc_te c)) (tc_timer c) i))"
proof -
  let ?s = "te_start (tc_te c)" and ?t = "tc_timer c" and ?A = "TCPT_ALL E"
  obtain timer due lo idx mode where r: "rebase_scan E now ?s ?A (?t, [], 0, None, 0) = (timer, due, lo, idx, mode)"
    by (metis surj_pair)
  have "scanned (time_left now ?s ?t) {} (0, None, 0)" by (simp add: scanned_def earliest_def)
  then have *: "rebased now ?s ?t ?A {} ?t [] (timer, due, lo, idx, mode)"
    using rebase_scan_spec [OF assms, of ?t ?t now ?s "{}" "(0, None, 0)" "[]"] r by simp
  then have "idx \<noteq> None \<longrightarrow> mode \<noteq> 0" "earliest (time_left now ?s ?t) (set ?A) idx" by (simp_all add: scanned_def rebased_def)
  then show ?thesis using r * by (cases idx) (auto simp: rebase_def entry_set_def rebased_def Let_def)
qed

subsection \<open>The list and its entries\<close>

text \<open>An entry is on the list exactly when its flag says so, once, and all are counted.\<close>

definition list_inv :: "tstate \<Rightarrow> bool" where
  "list_inv s \<longleftrightarrow> distinct (tl_head (ts_list s)) \<and> (\<forall>k. TIMER_IS_ON_LIST (tc_tp (ts_conn s k)) \<longleftrightarrow> k \<in> set (tl_head (ts_list s)))
     \<and> tl_entries (ts_list s) = of_nat (length (tl_head (ts_list s)))"

lemma on_list_flag [simp]: "TIMER_IS_ON_LIST (tc_tp (on_list c))" "\<not> TIMER_IS_ON_LIST (tc_tp (off_list c))"
  by (simp_all add: TIMER_IS_ON_LIST_def on_list_def off_list_def flag_simps)

lemma upd_list_sel [simp]: "ts_conn (upd_list f s) = ts_conn s" "ts_list (upd_list f s) = f (ts_list s)"
  by (simp_all add: upd_list_def)

lemma upd_conn_sel [simp]: "ts_list (upd_conn k f s) = ts_list s" "ts_conn (upd_conn k f s) = (ts_conn s)(k := f (ts_conn s k))"
  by (simp_all add: upd_conn_def)

lemma remove_timer_inv:
  assumes "list_inv s"
  shows "list_inv (tcp_remove_timer k s)"
proof (cases "k \<in> set (tl_head (ts_list s))")
  case True
  then have "(of_nat (length (tl_head (ts_list s))) :: u32) - 1 = of_nat (length (tl_head (ts_list s)) - 1)"
    by (cases "tl_head (ts_list s)") auto
  then show ?thesis using assms True by (auto simp: list_inv_def tcp_remove_timer_def length_remove1)
qed (use assms in \<open>auto simp: list_inv_def tcp_remove_timer_def\<close>)

lemma sched_list_frame:
  "tl_head (tcp_sched_timerlist now off l) = tl_head l" "tl_entries (tcp_sched_timerlist now off l) = tl_entries l"
  "tl_running (tcp_sched_timerlist now off l) = tl_running l" "tl_scheduled (tcp_sched_timerlist now off l)"
  "tl_head (sched_list E now mode off l) = tl_head l" "tl_entries (sched_list E now mode off l) = tl_entries l"
  "tl_running (sched_list E now mode off l) = tl_running l" "tl_scheduled (sched_list E now mode off l)"
  "tl_head (sched_again E now te l) = tl_head l" "tl_entries (sched_again E now te l) = tl_entries l"
  by (simp_all add: tcp_sched_timerlist_def sched_list_def sched_again_def Let_def)

lemma upd_list_inv:
  "list_inv s \<Longrightarrow> tl_head (f (ts_list s)) = tl_head (ts_list s) \<Longrightarrow> tl_entries (f (ts_list s)) = tl_entries (ts_list s)
     \<Longrightarrow> list_inv (upd_list f s)"
  by (simp add: list_inv_def)

lemma insert_inv:
  assumes "list_inv s" "\<not> TIMER_IS_ON_LIST (tc_tp (ts_conn s k))"
  shows "list_inv (upd_list (list_insert k) (upd_conn k on_list s))"
  using assms by (auto simp: list_inv_def list_insert_def Let_def)

lemma sched_timers_inv: "list_inv s \<Longrightarrow> list_inv (tcp_sched_timers E now k s)"
  by (simp add: tcp_sched_timers_def Let_def remove_timer_inv upd_list_inv insert_inv sched_list_frame)

lemma canceltimers_inv: "list_inv s \<Longrightarrow> list_inv (tcp_canceltimers now k s)"
  using remove_timer_inv [of s k] by (auto simp: list_inv_def tcp_canceltimers_def TIMER_IS_ON_LIST_def)

lemma check_timers_inv:
  assumes "mode_bits E" "list_inv s"
  shows "\<exists>s'. tcp_check_timers E now k s = Some s' \<and> list_inv s'"
proof -
  obtain c where c: "tcp_set_lotimer_index E (ts_conn s k) = Some c" "tc_tp c = tc_tp (ts_conn s k)"
    using set_lotimer_index_ok [OF assms(1)] by blast
  then have "list_inv (upd_conn k (\<lambda>_. c) s)" using assms(2) by (simp add: list_inv_def)
  then show ?thesis using c(1) assms(2) sched_timers_inv [of "upd_conn k (\<lambda>_. c) s" E now k] by (simp add: tcp_check_timers_def)
qed

subsection \<open>When the list runs\<close>

text \<open>
  The list will serve an entry: if it is running, it was told the offset; otherwise it runs no
  later than the entry wants, up to the granularity of the entry.
\<close>

definition will_serve :: "'e list_env_scheme \<Rightarrow> u32 \<Rightarrow> tcptimerentry \<Rightarrow> tcptimerlist \<Rightarrow> bool" where
  "will_serve E now te l \<longleftrightarrow>
     (if tl_running l then tl_pref_offset l \<noteq> 0 \<and> tl_pref_offset l \<le> word_of_int (sched_offset now te)
      else tl_scheduled l \<and> timer_diff (tl_runtime l) 0 now (word_of_int (sched_offset now te)) \<le> uint (mode_quantum E (te_mode te)))"

definition soon :: "u32 \<Rightarrow> u32 \<Rightarrow> bool" where
  "soon now t \<longleftrightarrow> \<bar>sint (t - now)\<bar> < 2 ^ 30"

lemma quantum_ge: "10 \<le> uint (mode_quantum E m)"
  by (simp add: mode_quantum_def quantum_defs)

lemma sched_offset_range: "soon now (te_runtime te) \<Longrightarrow> 1 \<le> sched_offset now te \<and> sched_offset now te < 2 ^ 30"
  by (auto simp: sched_offset_def soon_def timer_diff_def Let_def)

lemma sched_timerlist_diff:
  assumes "m \<le> off" "uint off < 2 ^ 30"
  shows "timer_diff (tl_runtime (tcp_sched_timerlist now m l)) 0 now off \<le> 1"
proof -
  have "tl_runtime (tcp_sched_timerlist now m l) - now - off \<in> {min m TCP_TIMERLIST_MAX_OFFSET - off, min m TCP_TIMERLIST_MAX_OFFSET - off + 1}"
    by (auto simp: tcp_sched_timerlist_def Let_def algebra_simps)
  moreover obtain d where d: "d \<ge> 0" "d < 2 ^ 30" "min m TCP_TIMERLIST_MAX_OFFSET - off = of_int (- d)"
  proof
    let ?m = "min m TCP_TIMERLIST_MAX_OFFSET"
    have "uint ?m \<le> uint off" using assms(1) by (simp add: min_def word_le_def)
    then show "0 \<le> uint off - uint ?m" "uint off - uint ?m < 2 ^ 30" using assms(2) uint_ge_0 [of ?m] by linarith+
    show "?m - off = of_int (- (uint off - uint ?m))" by simp
  qed
  moreover have "sint (of_int (- d) :: u32) = - d" using d by (intro sint_of_int_small) simp_all
  moreover have "sint (of_int (1 - d) :: u32) = 1 - d" using d by (intro sint_of_int_small) simp_all
  ultimately show ?thesis using d by (auto simp: timer_diff_def algebra_simps)
qed

lemma sched_list_serves:
  assumes "soon now (te_runtime te)" "\<not> tl_running l"
  shows "will_serve E now te (sched_list E now (te_mode te) (word_of_int (sched_offset now te)) l)"
proof -
  let ?o = "word_of_int (sched_offset now te) :: u32"
  have "uint ?o < 2 ^ 30" using sched_offset_range [OF assms(1)] by (simp add: uint_word_of_int)
  then have "timer_diff (tl_runtime (sched_list E now (te_mode te) ?o l)) 0 now ?o \<le> 1"
    by (auto simp: sched_list_def intro!: sched_timerlist_diff)
  then show ?thesis using assms(2) quantum_ge [of E "te_mode te"] by (simp add: will_serve_def sched_list_frame)
qed

lemma near_diff:
  assumes "soon now a" "soon now b"
  shows "timer_diff a 0 b 0 = sint (a - now) - sint (b - now)"
proof -
  have "a - b = of_int (sint (a - now) - sint (b - now))" by simp
  moreover have "sint (of_int (sint (a - now) - sint (b - now)) :: u32) = sint (a - now) - sint (b - now)"
    using assms by (intro sint_of_int_small) (auto simp: soon_def)
  ultimately show ?thesis by (simp add: timer_diff_def)
qed

lemma offset_diff:
  assumes "soon now a" "soon now (te_runtime te)"
  shows "timer_diff a 0 now (word_of_int (sched_offset now te)) = sint (a - now) - sched_offset now te"
proof -
  have r: "1 \<le> sched_offset now te" "sched_offset now te < 2 ^ 30" using sched_offset_range [OF assms(2)] by auto
  have "a + 0 - (now + word_of_int (sched_offset now te)) = of_int (sint (a - now) - sched_offset now te)" by (simp add: algebra_simps)
  moreover have "sint (of_int (sint (a - now) - sched_offset now te) :: u32) = sint (a - now) - sched_offset now te"
    using assms(1) r by (intro sint_of_int_small) (auto simp: soon_def)
  ultimately show ?thesis by (simp only: timer_diff_def)
qed

lemma no_resched_serves:
  assumes "soon now (te_runtime te)" "soon now (tl_runtime l)" "\<not> need_to_resched_timerlist E l (te_runtime te) (te_mode te)"
  shows "will_serve E now te l"
proof -
  have l: "\<not> tl_running l" "tl_scheduled l" "timer_diff (tl_runtime l) 0 (te_runtime te) 0 \<le> uint (mode_quantum E (te_mode te))"
    using assms(3) uint_ge_0 [of "mode_quantum E (te_mode te)"]
    by (auto simp: need_to_resched_timerlist_def Let_def split: if_split_asm intro: order_trans)
  have "sint (te_runtime te - now) \<le> sched_offset now te" by (simp add: sched_offset_def timer_diff_def Let_def)
  then show ?thesis using l near_diff [OF assms(2,1)] offset_diff [OF assms(2,1)] by (simp add: will_serve_def)
qed

lemma sched_again_serves:
  assumes "soon now (te_runtime te)" "soon now (tl_runtime l)"
  shows "will_serve E now te (sched_again E now te l)"
proof (cases "need_to_resched_timerlist E l (te_runtime te) (te_mode te)")
  case True
  let ?o = "word_of_int (sched_offset now te) :: u32"
  have "uint ?o = sched_offset now te" using sched_offset_range [OF assms(1)] by (simp add: uint_word_of_int)
  then have nz: "?o \<noteq> 0" using sched_offset_range [OF assms(1)] by fastforce
  consider "tl_running l" | "\<not> tl_running l" "tl_scheduled l" "timer_diff (tl_runtime l) 0 now ?o \<le> 0"
    | "\<not> tl_running l" "\<not> (tl_scheduled l \<and> timer_diff (tl_runtime l) 0 now ?o \<le> 0)" by blast
  then show ?thesis
  proof cases
    case 1
    then show ?thesis using True nz by (simp add: sched_again_def will_serve_def Let_def not_less)
  next
    case 2
    then show ?thesis using True quantum_ge [of E "te_mode te"] by (simp add: sched_again_def will_serve_def Let_def)
  next
    case 3
    then have "sched_again E now te l = sched_list E now (te_mode te) ?o l"
      using True unfolding sched_again_def Let_def by (simp only: if_True if_False)
    then show ?thesis using sched_list_serves [OF assms(1) 3(1), of E] by simp
  qed
qed (use no_resched_serves [OF assms] in \<open>simp add: sched_again_def\<close>)

subsection \<open>Properties\<close>

text \<open>Concrete instances for the witnesses: a connection with two timers, and an idle list.\<close>

definition list_env_zero :: list_env where
  "list_env_zero = timer_env.extend timer_env_zero
     (list_env.fields [TCPT_PTO, TCPT_DELAYFR, TCPT_REORDER, TCPT_REXMT, TCPT_DELACK, TCPT_PERSIST, TCPT_KEEP, TCPT_2MSL]
       (\<lambda>i. i = TCPT_PTO) (\<lambda>i. i = TCPT_REXMT \<or> i = TCPT_DELACK) 1 2 4 50 1 (\<lambda>_. False) (\<lambda>_. False) (\<lambda>tp. tp))"

lemmas list_env_zero_simps = list_env_zero_def timer_env.defs list_env.defs

definition tconn_demo :: "u32 \<Rightarrow> tconn" where
  "tconn_demo now = \<lparr>tc_tp = (demo_conn 0)\<lparr>t_timer := (\<lambda>_. 0)(TCPT_REXMT := 200, TCPT_DELACK := 50)\<rparr>,
     tc_te = \<lparr>te_index = Some TCPT_DELACK, te_mode = 2, te_runtime = now + 50, te_start = now\<rparr>, tc_usecount = 1\<rparr>"

definition tstate_demo :: tstate where
  "tstate_demo = \<lparr>ts_conn = (\<lambda>_. tconn_demo 5000),
     ts_list = \<lparr>tl_head = [], tl_runtime = 5100, tl_schedtime = 0, tl_entries = 0, tl_maxentries = 0, tl_running = False,
       tl_scheduled = True, tl_mode = 4, tl_pref_mode = 0, tl_pref_offset = 0, tl_idleruns = 0, tl_probe_if_index = 0, tl_call = 0\<rparr>\<rparr>"


text \<open>
  Property C25. Scheduling never loses a timer: after \<^verbatim>\<open>tcp_sched_timers\<close> on a live connection whose
  entry has a timer, the entry is on the list, and the list serves it. If the list is
  running, its preferred offset is no later than the entry's; if not, it is scheduled, and it
  runs no later than the entry wants plus the entry's own granularity. The list stays
  consistent: an entry is on it exactly when its flag is set, once, and the count is right.
\<close>

theorem sched_serves_entry:
  assumes "list_inv s" "te_index (tc_te (ts_conn s k)) \<noteq> None" "\<not> inp_dead E (t_inpcb (tc_tp (ts_conn s k)))"
    and "soon now (te_runtime (tc_te (ts_conn s k)))" "soon now (tl_runtime (ts_list s))"
    and "tl_running (ts_list s) \<longrightarrow> tl_scheduled (ts_list s)"
  shows "list_inv (tcp_sched_timers E now k s) \<and> k \<in> set (tl_head (ts_list (tcp_sched_timers E now k s)))
    \<and> will_serve E now (tc_te (ts_conn s k)) (ts_list (tcp_sched_timers E now k s))"
proof -
  let ?te = "tc_te (ts_conn s k)" and ?l = "list_insert k (ts_list s)"
  have f: "tl_running ?l = tl_running (ts_list s)" "tl_scheduled ?l = tl_scheduled (ts_list s)"
    "tl_runtime ?l = tl_runtime (ts_list s)" "k \<in> set (tl_head ?l)"
    by (simp_all add: list_insert_def Let_def)
  note serves = sched_again_serves [OF assms(4)] sched_list_serves [OF assms(4)]
  have "k \<in> set (tl_head (ts_list (tcp_sched_timers E now k s)))"
    using assms(1,2,3) f(4) by (auto simp: tcp_sched_timers_def Let_def sched_list_frame list_inv_def)
  moreover have "will_serve E now ?te (ts_list (tcp_sched_timers E now k s))"
    using assms(2,3,5,6) f serves by (auto simp: tcp_sched_timers_def Let_def)
  ultimately show ?thesis using sched_timers_inv [OF assms(1)] by blast
qed

theorem sched_serves_entry_witness:
  "list_inv (tcp_sched_timers list_env_zero 5000 7 tstate_demo)
    \<and> 7 \<in> set (tl_head (ts_list (tcp_sched_timers list_env_zero 5000 7 tstate_demo)))
    \<and> will_serve list_env_zero 5000 (tc_te (ts_conn tstate_demo 7)) (ts_list (tcp_sched_timers list_env_zero 5000 7 tstate_demo))"
  by (rule sched_serves_entry)
    (simp_all add: tstate_demo_def tconn_demo_def list_inv_def soon_def TIMER_IS_ON_LIST_def list_env_zero_simps demo_conn_def tcpcb_zero_def)

text \<open>
  Counting the timers from now keeps every deadline: for any start time and clock,
  wrapped or not, the timers handed to the handlers are exactly those that are due, in order; of every
  other running timer what is left is kept, so that the new start plus the new value is the old start plus the
  old value; a stopped timer stays stopped; and the entry then points to the earliest of those left.
\<close>

lemma timers_rebased:
  assumes "mode_bits E" "distinct (TCPT_ALL E)"
  shows "\<exists>c'. rebase E now c = Some (filter (timer_due now (te_start (tc_te c)) (tc_timer c)) (TCPT_ALL E), c')
    \<and> (\<forall>i\<in>set (TCPT_ALL E). tc_timer c i \<noteq> 0 \<and> \<not> timer_due now (te_start (tc_te c)) (tc_timer c) i
        \<longrightarrow> te_start (tc_te c') + tc_timer c' i = te_start (tc_te c) + tc_timer c i)
    \<and> (\<forall>i\<in>set (TCPT_ALL E). tc_timer c i = 0 \<longrightarrow> tc_timer c' i = 0)
    \<and> earliest (time_left now (te_start (tc_te c)) (tc_timer c)) (set (TCPT_ALL E)) (te_index (tc_te c'))"
  using rebase_spec [OF assms, of now c] by (auto simp: time_left_def timer_due_def)

end
