(* ===== verification/Jitter.thy ===== *)
theory Jitter
  imports Timers
begin

text \<open>
  Measurements on received and acknowledged data, \<^verbatim>\<open>reference/xnu/tcp_input.c\<close>: the inter-arrival
  jitter with its integer square root, and the bandwidth measurement. Where C leaves the
  result of an operation undefined (a shift by the width of the type or more, an overflow of a
  signed product) the value is \<open>None\<close>; the initialiser \<^verbatim>\<open>1 << 31\<close> is the \<^verbatim>\<open>int\<close> that compilers
  make of it.
\<close>

record jit_env = timer_env +
  tcp_acc_iaj_high_thresh :: int
  tcp_allowed_iaj :: int
  IAJ_IGNORE_PKTCNT :: u16
  RESET_IAJ_SIZE_THRESH :: u8
  inc_u16 :: "u16 \<Rightarrow> u32 \<Rightarrow> u16"
  inc_u8 :: "u8 \<Rightarrow> u32 \<Rightarrow> u8"

definition reset_acc_iaj :: "tcpcb \<Rightarrow> tcpcb" where
  "reset_acc_iaj tp = CLEAR_IAJ_STATE (tp\<lparr>acc_iaj := 0\<rparr>)"

definition update_iaj_state :: "u32 \<Rightarrow> tcpcb \<Rightarrow> int \<Rightarrow> int \<Rightarrow> tcpcb" where
  "update_iaj_state now tp sz rst_size =
     (let tp = (if rst_size > 0 then tp\<lparr>iaj_size := 0\<rparr> else tp)
      in if iaj_size tp = 0 \<or> sz \<ge> iaj_size tp
         then tp\<lparr>iaj_size := sz, iaj_rcv_ts := now, iaj_small_pkt := 0\<rparr> else tp)"

subsection \<open>The integer square root\<close>

definition sqrt_cache :: "u32 list" where
  "sqrt_cache = [0, 1, 4, 9, 16, 25, 36, 49, 64, 81, 100]"

primrec cache_scan :: "u64 \<Rightarrow> u32 list \<Rightarrow> u64 \<Rightarrow> u64" where
  "cache_scan val [] g = g"
| "cache_scan val (c # cs) g =
     (if ucast c > val then g - 1 else if ucast c = val then g else cache_scan val cs (g + 1))"

text \<open>The \<^verbatim>\<open>do\<close> loop; \<open>bshft\<close> is decremented after its use in the shift.\<close>

function isqrt_loop :: "u64 \<Rightarrow> u64 \<Rightarrow> u64 \<Rightarrow> u64 \<Rightarrow> u64 option" where
  "isqrt_loop g b bshft val =
     (if unat bshft \<ge> 64 then None
      else
        let temp = push_bit (unat bshft) (push_bit 1 g + b);
            bshft = bshft - 1;
            (g, val) = (if val \<ge> temp then (g + b, val - temp) else (g, val));
            b = drop_bit 1 b
        in if b > 0 \<and> val > 0 then isqrt_loop g b bshft val else Some g)"
  by pat_completeness auto

lemma half_less: "drop_bit (Suc 0) (b :: u64) > 0 \<Longrightarrow> unat (drop_bit (Suc 0) b) < unat b"
  by (simp add: drop_bit_eq_div unat_div word_less_nat_alt)

termination isqrt_loop
  by (relation "measure (\<lambda>(g, b, bshft, val). unat b)") (auto split: if_split_asm intro: half_less)

declare isqrt_loop.simps [simp del]

definition isqrt_start :: u64 where
  "isqrt_start = scast (push_bit 31 1 :: u32)"

definition isqrt :: "u64 \<Rightarrow> u32 option" where
  "isqrt val =
     (if val \<le> 100 then Some (ucast (cache_scan val sqrt_cache 0))
      else map_option ucast (isqrt_loop 0 isqrt_start 31 val))"

subsection \<open>Jitter\<close>

definition IAJ_DIV_SHIFT :: nat where "IAJ_DIV_SHIFT = 4"
definition IAJ_ROUNDUP_CONST :: int where "IAJ_ROUNDUP_CONST = 2 ^ (IAJ_DIV_SHIFT - 1)"

definition MAX_ACC_IAJ :: "'e jit_env_scheme \<Rightarrow> u32" where
  "MAX_ACC_IAJ E = word_of_int (tcp_acc_iaj_high_thresh E) + tcp_acc_iaj_react_limit E"

definition iaj_allowed :: "'e jit_env_scheme \<Rightarrow> tcpcb \<Rightarrow> u32" where
  "iaj_allowed E tp =
     (let allowed_iaj = avg_iaj tp + std_dev_iaj tp
      in if allowed_iaj < word_of_int (tcp_allowed_iaj E) then word_of_int (tcp_allowed_iaj E) else allowed_iaj)"

definition iaj_accumulate :: "'e jit_env_scheme \<Rightarrow> u32 \<Rightarrow> tcpcb \<Rightarrow> tcpcb" where
  "iaj_accumulate E cur_iaj tp =
     (let allowed_iaj = iaj_allowed E tp in
      if iaj_pktcnt tp > IAJ_IGNORE_PKTCNT E then
        (let acc = (if cur_iaj \<le> allowed_iaj then if acc_iaj tp \<ge> 2 then acc_iaj tp - 2 else 0
                    else acc_iaj tp + (cur_iaj - allowed_iaj));
             acc = (if acc > MAX_ACC_IAJ E then MAX_ACC_IAJ E else acc)
         in tp\<lparr>acc_iaj := acc\<rparr>)
      else tp)"

definition iaj_average :: "u32 \<Rightarrow> tcpcb \<Rightarrow> u32" where
  "iaj_average cur_iaj tp =
     drop_bit IAJ_DIV_SHIFT
       ((push_bit IAJ_DIV_SHIFT (avg_iaj tp) - avg_iaj tp) + cur_iaj + word_of_int IAJ_ROUNDUP_CONST)"

text \<open>A product of two \<^verbatim>\<open>int64_t\<close>, undefined when it overflows.\<close>

definition mul_i64 :: "int \<Rightarrow> int \<Rightarrow> int option" where
  "mul_i64 a b = (if - (2 ^ 63) \<le> a * b \<and> a * b < 2 ^ 63 then Some (a * b) else None)"

definition iaj_deviation :: "u32 \<Rightarrow> tcpcb \<Rightarrow> int" where
  "iaj_deviation cur_iaj tp = uint (cur_iaj - avg_iaj tp)"

definition iaj_mean_square :: "u32 \<Rightarrow> int \<Rightarrow> int option" where
  "iaj_mean_square std_dev cur_iaj_dev =
     do {
       let temp = uint (std_dev * std_dev);
       sq \<leftarrow> mul_i64 cur_iaj_dev cur_iaj_dev;
       let total = (push_bit IAJ_DIV_SHIFT temp - temp) + sq + IAJ_ROUNDUP_CONST;
       if total < 2 ^ 63 then Some (drop_bit IAJ_DIV_SHIFT total) else None
     }"

definition compute_iaj_meat :: "'e jit_env_scheme \<Rightarrow> tcpcb \<Rightarrow> u32 \<Rightarrow> tcpcb option" where
  "compute_iaj_meat E tp cur_iaj =
     do {
       let cur_iaj_dev = iaj_deviation cur_iaj tp;
       let tp = iaj_accumulate E cur_iaj tp;
       let tp = tp\<lparr>avg_iaj := iaj_average cur_iaj tp\<rparr>;
       mean \<leftarrow> iaj_mean_square (std_dev_iaj tp) cur_iaj_dev;
       sd \<leftarrow> isqrt (word_of_int mean);
       Some (tp\<lparr>std_dev_iaj := sd\<rparr>)
     }"

definition compute_iaj :: "'e jit_env_scheme \<Rightarrow> u32 \<Rightarrow> tcpcb \<Rightarrow> tcpcb option" where
  "compute_iaj E now tp = compute_iaj_meat E tp (now - iaj_rcv_ts tp)"

text \<open>The part of \<^verbatim>\<open>tcp_input\<close> that feeds it; \<^verbatim>\<open>TCP_INC_VAR\<close> is a macro of another header.\<close>

definition iaj_candidate :: "'e jit_env_scheme \<Rightarrow> tcphdr \<Rightarrow> tcpopt \<Rightarrow> u8 \<Rightarrow> tcpcb \<Rightarrow> bool" where
  "iaj_candidate E th to thflags tp \<longleftrightarrow>
     t_state tp = TCPS_ESTABLISHED
     \<and> thflags AND (TH_SYN OR TH_FIN OR TH_RST OR TH_URG OR TH_ACK OR TH_ECE OR TH_PUSH) = TH_ACK
     \<and> \<not> has_flag (t_flags tp) TF_NEEDFIN
     \<and> (\<not> has_flag (to_flags to) TOF_TS \<or> TSTMP_GEQ E (to_tsval to) (ts_recent tp))
     \<and> th_seq th = rcv_nxt tp \<and> t_segq tp = []"

definition iaj_input ::
  "'e jit_env_scheme \<Rightarrow> u32 \<Rightarrow> tcphdr \<Rightarrow> tcpopt \<Rightarrow> u8 \<Rightarrow> int \<Rightarrow> u32 \<Rightarrow> tcpcb \<Rightarrow> tcpcb option" where
  "iaj_input E now th to thflags tlen segment_count tp =
     (if iaj_candidate E th to thflags tp then
        (let tp = (if iaj_pktcnt tp \<le> IAJ_IGNORE_PKTCNT E then tp\<lparr>iaj_pktcnt := inc_u16 E (iaj_pktcnt tp) segment_count\<rparr> else tp)
         in if iaj_size tp = 0 \<or> tlen > iaj_size tp \<or> tlen = iaj_size tp \<and> iaj_rcv_ts tp = 0
            then Some (update_iaj_state now tp tlen 0)
            else do {
              tp \<leftarrow> (if tlen = iaj_size tp then compute_iaj E now tp else Some tp);
              Some (if tlen < iaj_size tp then
                      (let tp = tp\<lparr>iaj_small_pkt := inc_u8 E (iaj_small_pkt tp) segment_count\<rparr>
                       in if iaj_small_pkt tp > RESET_IAJ_SIZE_THRESH E then update_iaj_state now tp tlen 1
                          else CLEAR_IAJ_STATE tp)
                    else update_iaj_state now tp tlen 0)
            })
      else Some (CLEAR_IAJ_STATE tp))"

subsection \<open>Bandwidth\<close>

definition bw_record :: "u32 \<Rightarrow> bwmeas \<Rightarrow> bwmeas" where
  "bw_record bw m =
     (let m = (if bw_sndbw m > 0
               then m\<lparr>bw_sndbw := drop_bit 3 ((push_bit 3 (bw_sndbw m) - bw_sndbw m) + bw)\<rparr>
               else m\<lparr>bw_sndbw := bw\<rparr>)
      in if bw_sndbw_max m = 0 then m\<lparr>bw_sndbw_max := bw_sndbw m\<rparr>
         else m\<lparr>bw_sndbw_max := max (bw_sndbw m) (bw_sndbw_max m)\<rparr>)"

definition tcp_bwmeas_check :: "u32 \<Rightarrow> tcpcb \<Rightarrow> tcpcb option" where
  "tcp_bwmeas_check now tp =
     (case t_bwmeas tp of None \<Rightarrow> None
      | Some m \<Rightarrow>
          if seq_leq (snd_una tp) (bw_start m) then Some tp
          else
            (let bw_meas_bytes = sint (snd_una tp - bw_start m) in
             if has_flag (t_flagsext tp) TF_BWMEAS_INPROGRESS \<and> bw_meas_bytes \<ge> sint (bw_size m) then
               (let elapsed_time = now - bw_ts m;
                    bw = word_of_int bw_meas_bytes div elapsed_time;
                    m = (if elapsed_time > 0 \<and> bw > 0 then bw_record bw m else m)
                in Some (tp\<lparr>t_bwmeas := Some m, t_flagsext := t_flagsext tp AND NOT TF_BWMEAS_INPROGRESS\<rparr>))
             else Some tp))"

subsection \<open>The loop from the right start\<close>

lemma isqrt_step_nat:
  assumes "V = g * g + (r :: nat)" "V < (g + 2 * B) * (g + 2 * B)" "t = (2 * g + B) * B"
  shows "V = (if r \<ge> t then (g + B) * (g + B) + (r - t) else g * g + r)"
    and "V < (if r \<ge> t then (g + B + B) * (g + B + B) else (g + B) * (g + B))"
  using assms by (auto simp: algebra_simps)

lemma push_of_nat: "push_bit i (push_bit 1 (of_nat g) + of_nat B :: u64) = of_nat ((2 * g + B) * 2 ^ i)"
  by (simp add: push_bit_eq_mult algebra_simps)

lemma loop_unfold:
  assumes "i < 64" "t = (2 * g + B) * 2 ^ i" "t < 2 ^ 64" "r < 2 ^ 64"
  shows "isqrt_loop (of_nat g) (of_nat B) (of_nat i) (of_nat r) =
    (let g' = (if t \<le> r then g + B else g); r' = (if t \<le> r then r - t else r); b = drop_bit 1 (of_nat B)
     in if b > 0 \<and> (of_nat r' :: u64) > 0 then isqrt_loop (of_nat g') b (of_nat i - 1) (of_nat r') else Some (of_nat g'))"
proof -
  have c: "(of_nat t :: u64) \<le> of_nat r \<longleftrightarrow> t \<le> r" using assms(3,4) by (simp add: word_le_nat_alt unat_of_nat_small)
  have i: "unat (of_nat i :: u64) = i" using assms(1) by (simp add: unat_of_nat_small)
  show ?thesis
    by (subst isqrt_loop.simps) (simp only: i push_of_nat assms(2) [symmetric] c Let_def, use assms(1) in \<open>auto simp: of_nat_diff\<close>)
qed

lemma temp_bound:
  assumes "g + 2 * 2 ^ i \<le> 2 ^ 32" "i < 32"
  shows "(2 * g + 2 ^ i) * 2 ^ i < (2 :: nat) ^ 64"
proof -
  have "(2 * g + 2 ^ i) * 2 ^ i \<le> (2 * 2 ^ 32) * 2 ^ i" using assms(1) by (intro mult_right_mono) simp_all
  also have "\<dots> = 2 ^ (33 + i)" by (simp add: power_add)
  finally have l: "(2 * g + 2 ^ i) * 2 ^ i \<le> (2 :: nat) ^ (33 + i)" .
  show ?thesis
  proof (cases "i = 31")
    case True
    then have "g = 0" using assms(1) by simp
    then show ?thesis using True by simp
  next
    case False
    then have "(2 :: nat) ^ (33 + i) < 2 ^ 64" using assms(2) by (intro power_strict_increasing) simp_all
    then show ?thesis using l by linarith
  qed
qed

lemma loop_exact:
  assumes "i < 32" "V = g * g + r" "V < (g + 2 * 2 ^ i) * (g + 2 * 2 ^ i)" "g + 2 * 2 ^ i \<le> 2 ^ 32" "r < 2 ^ 64"
  shows "\<exists>q. isqrt_loop (of_nat g) (of_nat (2 ^ i)) (of_nat i) (of_nat r) = Some (of_nat q)
    \<and> q * q \<le> V \<and> V < (q + 1) * (q + 1) \<and> q < 2 ^ 32"
  using assms
proof (induction i arbitrary: g r)
  case (0 g r)
  define t where "t = 2 * g + 1"
  define q where "q = (if r \<ge> t then g + 1 else g)"
  have "isqrt_loop (of_nat g) (of_nat 1) (of_nat 0) (of_nat r) = Some (of_nat q)"
    using loop_unfold [of 0 t g 1 r] 0 by (simp add: t_def q_def drop_bit_Suc)
  then have "isqrt_loop (of_nat g) (of_nat (2 ^ 0)) (of_nat 0) (of_nat r) = Some (of_nat q)" by simp
  moreover have "q * q \<le> V \<and> V < (q + 1) * (q + 1)" "q < 2 ^ 32"
    using 0 by (auto simp: q_def t_def algebra_simps)
  ultimately show ?case by blast
next
  case (Suc i g r)
  define B :: nat where "B = 2 ^ Suc i"
  define t where "t = (2 * g + B) * B"
  define g' where "g' = (if r \<ge> t then g + B else g)"
  define r' where "r' = (if r \<ge> t then r - t else r)"
  have b: "g + 2 * B \<le> 2 ^ 32" "B = 2 * 2 ^ i" using Suc.prems(4) by (simp_all add: B_def)
  have t: "t < 2 ^ 64" using temp_bound [OF Suc.prems(4,1)] by (simp add: t_def B_def)
  have step: "V = g' * g' + r'" "V < (g' + B) * (g' + B)"
    using isqrt_step_nat [OF Suc.prems(2) _ t_def] Suc.prems(3) by (auto simp: g'_def r'_def B_def)
  have r': "r' < 2 ^ 64" using Suc.prems(5) by (auto simp: r'_def)
  have half: "drop_bit (Suc 0) (of_nat B :: u64) = of_nat (2 ^ i)" "(0 :: u64) < of_nat (2 ^ i)"
  proof -
    have n: "unat (of_nat n :: u64) = n" if "n < 2 ^ 64" for n using that by (simp add: unat_of_nat_small)
    have "B < 2 ^ 64" "(2 :: nat) ^ i < 2 ^ 64" using b by auto
    note u = n [OF this(1)] n [OF this(2)]
    show "drop_bit (Suc 0) (of_nat B :: u64) = of_nat (2 ^ i)"
      by (rule word_unat_eq_iff [THEN iffD2]) (simp only: drop_bit_eq_div unat_div u, simp add: b(2))
    show "(0 :: u64) < of_nat (2 ^ i)" by (simp only: word_less_nat_alt u) simp
  qed
  have one: "isqrt_loop (of_nat g) (of_nat B) (of_nat (Suc i)) (of_nat r)
      = (if 0 < (of_nat r' :: u64) then isqrt_loop (of_nat g') (of_nat (2 ^ i)) (of_nat i) (of_nat r') else Some (of_nat g'))"
    using loop_unfold [of "Suc i" t g B r] t Suc.prems(1,5) half by (simp add: t_def g'_def r'_def B_def Let_def)
  show ?case
  proof (cases "r' = 0")
    case True
    then have "isqrt_loop (of_nat g) (of_nat B) (of_nat (Suc i)) (of_nat r) = Some (of_nat g')" using one by simp
    moreover have "B > 0" by (simp add: B_def)
    then have "g' < 2 ^ 32" using b(1) by (auto simp: g'_def)
    ultimately show ?thesis using True step(1) by (intro exI [of _ g']) (simp add: B_def)
  next
    case False
    then have "0 < (of_nat r' :: u64)" using r' by (simp add: word_less_nat_alt unat_of_nat_small)
    moreover have "g' + 2 * 2 ^ i \<le> 2 ^ 32" using b by (auto simp: g'_def)
    ultimately show ?thesis using one Suc.IH [of g' r'] Suc.prems(1) step r' b(2) by (simp add: B_def)
  qed
qed

lemma loop_correct:
  "\<exists>q. isqrt_loop 0 (2 ^ 31) 31 val = Some (of_nat q) \<and> q * q \<le> unat val \<and> unat val < (q + 1) * (q + 1) \<and> q < 2 ^ 32"
  using loop_exact [of 31 "unat val" 0 "unat val"] unat_lt_exp [of val] by simp

subsection \<open>The loop from its actual start\<close>

text \<open>A run of turns that leave \<open>g\<close> at zero, for every value below \<open>m\<close>.\<close>

primrec skips :: "nat \<Rightarrow> u64 \<Rightarrow> u64 \<Rightarrow> u64 \<Rightarrow> bool" where
  "skips 0 b sh m \<longleftrightarrow> True"
| "skips (Suc n) b sh m \<longleftrightarrow> unat sh < 64 \<and> m \<le> push_bit (unat sh) b \<and> drop_bit 1 b > 0 \<and> skips n (drop_bit 1 b) (sh - 1) m"

lemma skips_loop:
  "skips n b sh m \<Longrightarrow> 0 < val \<Longrightarrow> val < m \<Longrightarrow> isqrt_loop 0 b sh val = isqrt_loop 0 (drop_bit n b) (sh - of_nat n) val"
proof (induction n arbitrary: b sh)
  case (Suc n)
  have n: "(push_bit (unat sh) b \<le> val) = False" using Suc.prems(1,3) by auto
  have "isqrt_loop 0 b sh val = isqrt_loop 0 (drop_bit 1 b) (sh - 1) val"
    using Suc.prems(1,2) by (subst isqrt_loop.simps) (simp add: Let_def n)
  then show ?case using Suc by (simp add: algebra_simps)
qed simp

lemma start_skips: "skips 31 isqrt_start 31 (2 ^ 35 - 4)"
  by code_simp

text \<open>The turn with the shift zero is the first that can subtract anything.\<close>

lemma last_turn:
  "isqrt_loop 0 (2 ^ 33 - 1) 0 val = (if val = 2 ^ 33 - 1 then Some (2 ^ 33 - 1) else None)" if "0 < val"
proof -
  have "(64 :: u64) \<le> - 1" by code_simp
  then have "64 \<le> unat (- 1 :: u64)" by (simp only: word_le_nat_alt) simp
  then have n: "isqrt_loop g b (- 1) v = None" for g b v by (subst isqrt_loop.simps) (simp only: if_True)
  define B :: u64 where "B = 2 ^ 33 - 1"
  have "0 < drop_bit (Suc 0) (2 ^ 33 - 1 :: u64)" by code_simp
  then have b: "0 < drop_bit (Suc 0) B" by (simp only: B_def)
  have u: "isqrt_loop 0 B 0 val =
      (if B \<le> val then if 0 < val - B then isqrt_loop B (drop_bit 1 B) (- 1) (val - B) else Some B
       else isqrt_loop 0 (drop_bit 1 B) (- 1) val)"
    using that b by (subst isqrt_loop.simps) (simp add: Let_def)
  have "val = B" if "B \<le> val" "\<not> 0 < val - B" using that by (simp add: word_gt_0)
  then have "isqrt_loop 0 B 0 val = (if val = B then Some B else None)" unfolding u n by auto
  then show ?thesis by (simp only: B_def)
qed

lemma loop_from_start:
  assumes "0 < val" "val < 2 ^ 35 - 4"
  shows "isqrt_loop 0 isqrt_start 31 val = (if val = 2 ^ 33 - 1 then Some (2 ^ 33 - 1) else None)"
proof -
  have e: "drop_bit 31 isqrt_start = 2 ^ 33 - 1" "31 - of_nat 31 = (0 :: u64)" by code_simp+
  have "isqrt_loop 0 isqrt_start 31 val = isqrt_loop 0 (drop_bit 31 isqrt_start) (31 - of_nat 31) val"
    by (rule skips_loop [OF start_skips assms])
  then show ?thesis by (simp only: e last_turn [OF assms(1)])
qed

subsection \<open>Properties\<close>

text \<open>
  Property C38. The integer square root is not the one its comment describes. Above 100 it leaves the defined
  part of C before it can return, for every value below 2^35 - 4 but one: the start value \<^verbatim>\<open>1 << 31\<close> is negative as an \<^verbatim>\<open>int\<close> and becomes
  2^64 - 2^31 when it is stored in 64 bits, so that no turn of the loop before the thirty-second can find a digit, and the thirty-third shifts by
  2^64 - 1 places. The one value, 2^33 - 1, is used up by the thirty-second turn and gives 2^32 - 1, which is not its root. The bound is the least
  value that an earlier turn could subtract; the argument is a mean of squares of milliseconds, and below it the deviations are under three minutes. The same loop started at 2^31 gives
  the root of every number of 64 bits.
\<close>

theorem isqrt_sign_extended:
  assumes "100 < val" "val < 2 ^ 35 - 4"
  shows "isqrt val = (if val = 2 ^ 33 - 1 then Some (2 ^ 32 - 1) else None)
    \<and> (\<exists>q. isqrt_loop 0 (2 ^ 31) 31 val = Some (of_nat q) \<and> q * q \<le> unat val \<and> unat val < (q + 1) * (q + 1) \<and> q < 2 ^ 32)"
proof -
  have "0 < val" using assms(1) by (rule le_less_trans [OF word_zero_le])
  moreover have "(ucast (2 ^ 33 - 1 :: u64) :: u32) = 2 ^ 32 - 1" by code_simp
  moreover have "isqrt val = map_option ucast (isqrt_loop 0 isqrt_start 31 val)" using assms(1) by (simp add: isqrt_def not_le [symmetric])
  ultimately have "isqrt val = (if val = 2 ^ 33 - 1 then Some (2 ^ 32 - 1) else None)"
    by (simp only: loop_from_start [OF _ assms(2)] if_distrib [of "map_option ucast"] option.map)
  then show ?thesis using loop_correct [of val] by (rule conjI)
qed

theorem isqrt_sign_extended_witness:
  "isqrt 101 = None \<and> isqrt (2 ^ 33 - 1) = Some (2 ^ 32 - 1) \<and> (\<exists>q. isqrt_loop 0 (2 ^ 31) 31 101 = Some (of_nat q) \<and> q * q \<le> 101)"
  using isqrt_sign_extended [of 101] isqrt_sign_extended [of "2 ^ 33 - 1"] by auto

text \<open>
  The deviation rolls over after all. It is taken as a difference of two unsigned 32-bit numbers before it is
  stored in 64 bits: for a packet that comes sooner than the average it is 2^32 less the distance, and its square is beyond the range
  of \<^verbatim>\<open>int64_t\<close>, for every distance up to 2^30 milliseconds.
\<close>

lemma deviation_rolls_over:
  assumes "unat cur_iaj < unat (avg_iaj tp)" "unat (avg_iaj tp) - unat cur_iaj \<le> 2 ^ 30"
  shows "iaj_deviation cur_iaj tp = 2 ^ 32 - (int (unat (avg_iaj tp)) - int (unat cur_iaj)) \<and> compute_iaj_meat E tp cur_iaj = None"
proof -
  define d where "d = int (unat (avg_iaj tp)) - int (unat cur_iaj)"
  have "unat (avg_iaj tp) \<le> 1073741824 + unat cur_iaj" using assms(2) by (simp add: le_diff_conv)
  then have d: "0 < d" "d \<le> 1073741824" using assms(1) unfolding d_def by linarith+
  have "cur_iaj - avg_iaj tp = word_of_int (2 ^ 32 - d)" by (simp add: d_def)
  moreover have "uint (word_of_int (2 ^ 32 - d) :: u32) = 2 ^ 32 - d"
    using d by (subst uint_word_of_int_eq) (simp add: take_bit_int_eq_self)
  ultimately have v: "iaj_deviation cur_iaj tp = 2 ^ 32 - d" by (simp only: iaj_deviation_def)
  have "(3 * 2 ^ 30) * (3 * 2 ^ 30) \<le> (2 ^ 32 - d) * (2 ^ 32 - d)" using d by (intro mult_mono) simp_all
  then have "mul_i64 (2 ^ 32 - d) (2 ^ 32 - d) = None" by (simp add: mul_i64_def)
  then show ?thesis using v by (simp add: compute_iaj_meat_def iaj_mean_square_def d_def)
qed

definition jit_env_zero :: jit_env where
  "jit_env_zero = timer_env.extend timer_env_zero (jit_env.fields 200 5 40 20 (\<lambda>v n. v + ucast n) (\<lambda>v n. v + ucast n))"

end
