(* ===== verification/SegQueue.thy ===== *)
theory SegQueue
  imports Arrival Jitter
begin

text \<open>
  The reassembly queue of the kernel, \<^verbatim>\<open>tcp_reass\<close> in \<^verbatim>\<open>reference/xnu/tcp_input.c\<close>: a segment is
  trimmed against the entry before it and the entries it overlaps, inserted, and what is now
  contiguous is handed to the socket. The data of a buffer chain are its bytes. The chunks
  given to \<^verbatim>\<open>sbappendstream_rcvdemux\<close> are returned in order. The count of buffer space
  (\<^verbatim>\<open>t_reassq_mbcnt\<close>), which nothing here reads, is not represented; memory pressure is an
  argument.
\<close>

abbreviation q_seq :: "tseg_qent \<Rightarrow> u32" where "q_seq q \<equiv> th_seq (tqe_th q)"

definition reass_qlimit :: "'e arr_env_scheme \<Rightarrow> tcpcb \<Rightarrow> u32" where
  "reass_qlimit E tp =
     min (max 100 (drop_bit 10 (sb_hiwat (so_rcv (inp_socket (t_inpcb tp)))))) (drop_bit 10 (tcp_autorcvbuf_max E))"

definition reass_loss_state :: "'e arr_env_scheme \<Rightarrow> u32 \<Rightarrow> tcpcb \<Rightarrow> tcpcb" where
  "reass_loss_state E now tp =
     (let tp = (tcp_reset_stretch_ack E now tp)\<lparr>t_forced_acks := TCP_FORCED_ACKS_COUNT\<rparr>
      in if acc_iaj tp > 0 then reset_acc_iaj tp else tp)"

text \<open>The overlap with the entry before: how many leading bytes of the segment it provides.\<close>

definition pred_overlap :: "tseg_qent list \<Rightarrow> tcphdr \<Rightarrow> int" where
  "pred_overlap before th =
     (if before = [] then 0
      else let p = last before in sint (q_seq p + word_of_int (tqe_len p) - th_seq th))"

definition pred_dsack :: "int \<Rightarrow> tcphdr \<Rightarrow> int \<Rightarrow> tcpcb \<Rightarrow> tcpcb" where
  "pred_dsack i th tlen tp =
     (if i > 1 then tp\<lparr>t_dsack_lseq := th_seq th, t_dsack_rseq := th_seq th + min (word_of_int i) (word_of_int tlen)\<rparr> else tp)"

definition succ_dsack :: "int \<Rightarrow> bool \<Rightarrow> tseg_qent \<Rightarrow> tcpcb \<Rightarrow> tcpcb" where
  "succ_dsack i dsack_set q tp =
     (if i > 1 \<and> \<not> dsack_set then
        (if t_dsack_lseq tp = 0
         then tp\<lparr>t_dsack_lseq := q_seq q, t_dsack_rseq := q_seq q + min (word_of_int i) (word_of_int (tqe_len q))\<rparr>
         else tp\<lparr>t_dsack_rseq := t_dsack_rseq tp + min (word_of_int i) (word_of_int (tqe_len q))\<rparr>)
      else tp)"

definition cut_entry :: "int \<Rightarrow> tseg_qent \<Rightarrow> tseg_qent" where
  "cut_entry i q =
     q\<lparr>tqe_th := (tqe_th q)\<lparr>th_seq := q_seq q + word_of_int i\<rparr>, tqe_len := tqe_len q - i, tqe_m := drop (nat i) (tqe_m q)\<rparr>"

text \<open>The loop over the entries that begin after the segment, which ends at \<open>e\<close>.\<close>

primrec trim_succ :: "u32 \<Rightarrow> bool \<Rightarrow> tseg_qent list \<Rightarrow> tcpcb \<Rightarrow> tseg_qent list \<times> tcpcb" where
  "trim_succ e dsack_set [] tp = ([], tp)"
| "trim_succ e dsack_set (q # qs) tp =
     (let i = sint (e - q_seq q) in
      if i \<le> 0 then (q # qs, tp)
      else
        (let tp = succ_dsack i dsack_set q tp in
         if i < tqe_len q then (cut_entry i q # qs, tp)
         else trim_succ e dsack_set qs (tp\<lparr>t_reassqlen := t_reassqlen tp - 1\<rparr>)))"

definition count_ooo :: "'e arr_env_scheme \<Rightarrow> tcphdr \<Rightarrow> int \<Rightarrow> tcpcb \<Rightarrow> tcpcb" where
  "count_ooo E th tlen tp =
     (let tp = (if th_seq th \<noteq> rcv_nxt tp then
                  (let tp = tp\<lparr>t_rcvoopack := t_rcvoopack tp + 1\<rparr>
                   in if nstat_collect E
                      then tp\<lparr>t_stat := (t_stat tp)\<lparr>rxoutoforderbytes := rxoutoforderbytes (t_stat tp) + word_of_int tlen\<rparr>\<rparr>
                      else tp)
                else tp)
      in if nstat_collect E
         then tp\<lparr>t_inpcb := (t_inpcb tp)\<lparr>inp_rxbytes := inp_rxbytes (t_inpcb tp) + word_of_int tlen\<rparr>\<rparr> else tp)"

subsection \<open>Handing data to the socket\<close>

definition note_push :: "tseg_qent \<Rightarrow> tcpcb \<Rightarrow> tcpcb" where
  "note_push q tp =
     (if has_flag (th_flags (tqe_th q)) TH_PUSH then tp\<lparr>t_flagsext := t_flagsext tp OR TF_LAST_IS_PSH\<rparr>
      else tp\<lparr>t_flagsext := t_flagsext tp AND NOT TF_LAST_IS_PSH\<rparr>)"

text \<open>One turn for each entry at the left edge: the flags of the last one, the chunks, the rest of the queue.\<close>

primrec present_loop ::
  "bool \<Rightarrow> tseg_qent list \<Rightarrow> u8 \<Rightarrow> bytes list \<Rightarrow> tcpcb \<Rightarrow> u8 \<times> bytes list \<times> tseg_qent list \<times> tcpcb" where
  "present_loop cantrcvmore [] flags out tp = (flags, out, [], tp)"
| "present_loop cantrcvmore (q # qs) flags out tp =
     (if q_seq q = rcv_nxt tp then
        (let tp = tp\<lparr>rcv_nxt := rcv_nxt tp + word_of_int (tqe_len q)\<rparr>;
             flags = th_flags (tqe_th q) AND TH_FIN;
             (out, tp) = (if cantrcvmore then (out, tp) else (out @ [tqe_m q], note_push q tp));
             tp = tp\<lparr>t_reassqlen := t_reassqlen tp - 1\<rparr>
         in present_loop cantrcvmore qs flags out tp)
      else (flags, out, q # qs, tp))"

definition reass_present :: "'e arr_env_scheme \<Rightarrow> tcpcb \<Rightarrow> u8 \<times> bytes list \<times> tcpcb" where
  "reass_present E tp =
     (if \<not> TCPS_HAVEESTABLISHED E (t_state tp) then (0, [], tp)
      else if t_segq tp = [] \<or> q_seq (hd (t_segq tp)) \<noteq> rcv_nxt tp then (0, [], tp)
      else if has_flag (t_flagsext tp) TF_REASS_INPROG then (0, [], tp)
      else
        (let tp = tp\<lparr>t_flagsext := t_flagsext tp OR TF_REASS_INPROG\<rparr>;
             (flags, out, rest, tp) =
               present_loop (has_flag (so_state (inp_socket (t_inpcb tp))) (SS_CANTRCVMORE E)) (t_segq tp) 0 [] tp
         in (flags, out, tp\<lparr>t_segq := rest, t_flagsext := t_flagsext tp AND NOT TF_REASS_INPROG\<rparr>)))"

subsection \<open>Reassembly\<close>

definition reass_full :: "'e arr_env_scheme \<Rightarrow> bool \<Rightarrow> tcphdr \<Rightarrow> tcpcb \<Rightarrow> bool" where
  "reass_full E pressure th tp \<longleftrightarrow>
     th_seq th \<noteq> rcv_nxt tp \<and> (pressure \<or> t_reassqlen tp + 1 \<ge> reass_qlimit E tp)"

text \<open>The segment is put between the entries that begin no later and the rest, cut and cutting.\<close>

definition reass_insert ::
  "'e arr_env_scheme \<Rightarrow> tseg_qent list \<Rightarrow> tseg_qent list \<Rightarrow> bool \<Rightarrow> tcphdr \<Rightarrow> int \<Rightarrow> bytes \<Rightarrow> tcpcb \<Rightarrow> tcpcb" where
  "reass_insert E before after dsack_set th tlen m tp =
     (let tp = count_ooo E th tlen tp;
          (after, tp) = trim_succ (th_seq th + word_of_int tlen) dsack_set after tp
      in tp\<lparr>t_segq := before @ \<lparr>tqe_len = tlen, tqe_th = th, tqe_m = m\<rparr> # after\<rparr>)"

text \<open>The result: the flags, the length that is left, the chunks delivered, the state.\<close>

definition tcp_reass ::
  "'e arr_env_scheme \<Rightarrow> u32 \<Rightarrow> bool \<Rightarrow> tcphdr \<Rightarrow> int \<Rightarrow> bytes \<Rightarrow> tcpcb \<Rightarrow> u8 \<times> int \<times> bytes list \<times> tcpcb" where
  "tcp_reass E now pressure th tlen m tp =
     (let tp = reass_loss_state E now tp in
      if reass_full E pressure th tp then (0, 0, [], tp)
      else
        (let tp = tp\<lparr>t_reassqlen := t_reassqlen tp + 1\<rparr>;
             before = takeWhile (\<lambda>q. \<not> seq_gt (q_seq q) (th_seq th)) (t_segq tp);
             after = dropWhile (\<lambda>q. \<not> seq_gt (q_seq q) (th_seq th)) (t_segq tp);
             i = pred_overlap before th
         in if i > 0 then
              (let tp = pred_dsack i th tlen tp in
               if i \<ge> tlen then
                 (let tp = (count_duplicate E tlen tp)\<lparr>t_reassqlen := t_reassqlen tp - 1\<rparr>;
                      (flags, out, tp) = reass_present E tp
                  in (flags, tlen, out, tp))
               else
                 (let m = drop (nat i) m; tlen = tlen - i; th = th\<lparr>th_seq := th_seq th + word_of_int i\<rparr>;
                      (flags, out, tp) = reass_present E (reass_insert E before after (i > 1) th tlen m tp)
                  in (flags, tlen, out, tp)))
            else
              (let (flags, out, tp) = reass_present E (reass_insert E before after False th tlen m tp)
               in (flags, tlen, out, tp))))"

subsection \<open>Entries as ranges of a stream\<close>

text \<open>
  The queue against a stream: entry \<open>q\<close> at position \<open>p\<close> holds the bytes of the stream from there.
  A placed list has its entries in order, without overlap, between two positions.
\<close>

definition entry_at :: "u32 \<Rightarrow> (nat \<Rightarrow> u8) \<Rightarrow> nat \<Rightarrow> tseg_qent \<Rightarrow> bool" where
  "entry_at isn f p q \<longleftrightarrow> q_seq q = seqno isn p \<and> tqe_len q = int (length (tqe_m q))
     \<and> tqe_m q = map f [p..<p + length (tqe_m q)]"

fun placed :: "u32 \<Rightarrow> (nat \<Rightarrow> u8) \<Rightarrow> nat \<Rightarrow> (nat \<times> tseg_qent) list \<Rightarrow> nat \<Rightarrow> bool" where
  "placed isn f lo [] hi \<longleftrightarrow> lo \<le> hi"
| "placed isn f lo ((p, q) # r) hi \<longleftrightarrow> lo \<le> p \<and> entry_at isn f p q \<and> placed isn f (p + length (tqe_m q)) r hi"

definition range_of :: "nat \<times> tseg_qent \<Rightarrow> nat set" where
  "range_of e = {fst e..<fst e + length (tqe_m (snd e))}"

definition covers :: "(nat \<times> tseg_qent) list \<Rightarrow> nat set" where
  "covers es = (\<Union>e\<in>set es. range_of e)"

lemma covers_simps [simp]: "covers [] = {}" "covers (e # es) = range_of e \<union> covers es" "covers (xs @ ys) = covers xs \<union> covers ys"
  by (auto simp: covers_def)

lemma placed_le: "placed isn f lo es hi \<Longrightarrow> lo \<le> hi"
  by (induction isn f lo es hi rule: placed.induct) auto

lemma placed_bounds: "placed isn f lo es hi \<Longrightarrow> (p, q) \<in> set es \<Longrightarrow> lo \<le> p \<and> p + length (tqe_m q) \<le> hi \<and> entry_at isn f p q"
proof (induction isn f lo es hi rule: placed.induct)
  case (2 isn f lo p' q' r hi)
  then show ?case using placed_le [of isn f "p' + length (tqe_m q')" r hi] by (auto dest: placed_le)
qed simp

lemma placed_append: "placed isn f lo (xs @ ys) hi \<longleftrightarrow> (\<exists>m. placed isn f lo xs m \<and> placed isn f m ys hi)"
proof (induction xs arbitrary: lo)
  case Nil
  show ?case
  proof
    assume "placed isn f lo ([] @ ys) hi"
    then show "\<exists>m. placed isn f lo [] m \<and> placed isn f m ys hi" by auto
  next
    assume "\<exists>m. placed isn f lo [] m \<and> placed isn f m ys hi"
    then show "placed isn f lo ([] @ ys) hi" by (cases ys) auto
  qed
next
  case (Cons e xs)
  then show ?case by (cases e) auto
qed

lemma placed_lower: "placed isn f lo es hi \<Longrightarrow> lo' \<le> lo \<Longrightarrow> placed isn f lo' es hi"
  by (cases es) auto

lemma placed_raise: "placed isn f lo es hi \<Longrightarrow> hi \<le> hi' \<Longrightarrow> placed isn f lo es hi'"
  by (induction isn f lo es hi rule: placed.induct) auto

lemma placed_covers: "placed isn f lo es hi \<Longrightarrow> covers es \<subseteq> {lo..<hi}"
  using placed_bounds [of isn f lo es hi] by (fastforce simp: covers_def range_of_def)

subsection \<open>What the operations leave alone\<close>

definition reass_frame :: "tcpcb \<Rightarrow> tcpcb \<Rightarrow> bool" where
  "reass_frame tp tp' \<longleftrightarrow> rcv_nxt tp' = rcv_nxt tp \<and> t_segq tp' = t_segq tp \<and> t_state tp' = t_state tp
     \<and> has_flag (t_flagsext tp') TF_REASS_INPROG = has_flag (t_flagsext tp) TF_REASS_INPROG
     \<and> so_state (inp_socket (t_inpcb tp')) = so_state (inp_socket (t_inpcb tp))"

lemma reass_frame_refl [simp]: "reass_frame tp tp"
  by (simp add: reass_frame_def)

lemma reass_frame_trans: "reass_frame a b \<Longrightarrow> reass_frame b c \<Longrightarrow> reass_frame a c"
  by (simp add: reass_frame_def)

lemma reass_frames:
  "reass_frame tp (succ_dsack i d q tp)" "reass_frame tp (pred_dsack i th n tp)" "reass_frame tp (count_ooo E th n tp)"
  "reass_frame tp (count_duplicate E n tp)" "reass_frame tp (tp\<lparr>t_reassqlen := k\<rparr>)"
  by (simp_all add: reass_frame_def succ_dsack_def pred_dsack_def count_ooo_def count_duplicate_def Let_def)

lemma trim_succ_frame: "reass_frame tp (snd (trim_succ e d qs tp))"
proof (induction qs arbitrary: tp)
  case (Cons q qs)
  let ?t = "succ_dsack (sint (e - q_seq q)) d q tp"
  have "reass_frame tp ?t" "reass_frame ?t (?t\<lparr>t_reassqlen := t_reassqlen ?t - 1\<rparr>)" by (rule reass_frames)+
  then show ?case using Cons.IH [of "?t\<lparr>t_reassqlen := t_reassqlen ?t - 1\<rparr>"]
    by (auto simp: Let_def intro: reass_frame_trans)
qed simp

lemma loss_state_frame: "reass_frame tp (reass_loss_state E now tp)" "t_reassqlen (reass_loss_state E now tp) = t_reassqlen tp"
  "reass_qlimit E (reass_loss_state E now tp) = reass_qlimit E tp"
  by (simp_all add: reass_frame_def reass_loss_state_def tcp_reset_stretch_ack_def reset_acc_iaj_def CLEAR_IAJ_STATE_def
      reass_qlimit_def Let_def flag_set_other TFX_defs)

subsection \<open>Trimming and delivering\<close>

lemma cut_entry_at:
  assumes "entry_at isn f p q" "i \<le> length (tqe_m q)"
  shows "entry_at isn f (p + i) (cut_entry (int i) q)" "length (tqe_m (cut_entry (int i) q)) = length (tqe_m q) - i"
proof -
  have "drop i (map f [p..<p + length (tqe_m q)]) = map f [p + i..<p + length (tqe_m q)]" by (simp add: drop_map)
  then have "drop i (tqe_m q) = map f [p + i..<p + length (tqe_m q)]" using assms(1) by (simp add: entry_at_def)
  then show "entry_at isn f (p + i) (cut_entry (int i) q)" "length (tqe_m (cut_entry (int i) q)) = length (tqe_m q) - i"
    using assms by (auto simp: entry_at_def cut_entry_def of_nat_diff)
qed

lemma seqno_diff: "near a b \<Longrightarrow> sint (seqno isn a - seqno isn b) = int a - int b"
  using sint_nat_diff [of a b] by simp

lemma trim_succ_placed:
  assumes "placed isn f s ys hi" "s \<le> e" "e \<le> hi" "hi < s + 2 ^ 31"
  shows "\<exists>ys'. fst (trim_succ (seqno isn e) d (map snd ys) tp) = map snd ys' \<and> placed isn f e ys' hi
    \<and> covers ys' \<union> {s..<e} = covers ys \<union> {s..<e}"
  using assms
proof (induction ys arbitrary: s tp)
  case Nil
  then show ?case by (intro exI [of _ "[]"]) simp
next
  case (Cons x ys)
  obtain p q where x: "x = (p, q)" by (cases x)
  let ?n = "length (tqe_m q)"
  have p: "s \<le> p" "entry_at isn f p q" "placed isn f (p + ?n) ys hi" "p + ?n \<le> hi"
    using Cons.prems(1) x placed_le by auto
  then have "near e p" using Cons.prems(2-4) by (intro nearI [of s]) auto
  then have i: "sint (seqno isn e - q_seq q) = int e - int p" using p(2) seqno_diff by (simp add: entry_at_def)
  consider "e \<le> p" | "p < e" "e < p + ?n" | "p + ?n \<le> e" "p < e" by linarith
  then show ?case
  proof cases
    case 1
    then show ?thesis using i x p by (intro exI [of _ "x # ys"]) simp
  next
    case 2
    then have k: "sint (seqno isn e - q_seq q) = int (e - p)" using i by simp
    have c: "entry_at isn f e (cut_entry (int (e - p)) q)" "length (tqe_m (cut_entry (int (e - p)) q)) = ?n - (e - p)"
      using cut_entry_at [OF p(2), of "e - p"] 2 by auto
    have "tqe_len q = int ?n" using p(2) by (simp add: entry_at_def)
    then have "fst (trim_succ (seqno isn e) d (map snd (x # ys)) tp) = map snd ((e, cut_entry (int (e - p)) q) # ys)"
      using 2 x by (simp only: k list.map snd_conv trim_succ.simps Let_def) auto
    moreover have "e + (?n - (e - p)) = p + ?n" using 2 by simp
    then have "placed isn f e ((e, cut_entry (int (e - p)) q) # ys) hi" using c p(3) by (simp add: add.commute)
    moreover have "covers ((e, cut_entry (int (e - p)) q) # ys) \<union> {s..<e} = covers (x # ys) \<union> {s..<e}"
      using 2 p(1) c(2) x by (auto simp: range_of_def)
    ultimately show ?thesis by blast
  next
    case 3
    have "tqe_len q = int ?n" using p(2) by (simp add: entry_at_def)
    define tq where "tq = (let t = succ_dsack (int e - int p) d q tp in t\<lparr>t_reassqlen := t_reassqlen t - 1\<rparr>)"
    have "fst (trim_succ (seqno isn e) d (map snd (x # ys)) tp) = fst (trim_succ (seqno isn e) d (map snd ys) tq)"
      using 3 i x \<open>tqe_len q = int ?n\<close> by (simp add: tq_def Let_def)
    moreover have "placed isn f s ys hi" using p(1,3) placed_lower [of isn f "p + ?n" ys hi s] by simp
    ultimately obtain ys' where y: "fst (trim_succ (seqno isn e) d (map snd (x # ys)) tp) = map snd ys'" "placed isn f e ys' hi"
      "covers ys' \<union> {s..<e} = covers ys \<union> {s..<e}" using Cons.IH [of s tq] Cons.prems(2-4) by auto
    moreover have "range_of x \<subseteq> {s..<e}" using 3 p(1) x by (auto simp: range_of_def)
    ultimately show ?thesis by (intro exI [of _ ys']) auto
  qed
qed

lemma present_placed:
  assumes "placed isn f R es hi" "rcv_nxt tp = seqno isn R" "hi < R + 2 ^ 31"
  shows "\<exists>fl out' es' tp' R'. present_loop False (map snd es) fl0 out tp = (fl, out', map snd es', tp')
    \<and> rcv_nxt tp' = seqno isn R' \<and> R \<le> R' \<and> placed isn f R' es' hi \<and> concat out' = concat out @ map f [R..<R']
    \<and> covers es = {R..<R'} \<union> covers es' \<and> R' \<notin> covers es'"
  using assms
proof (induction es arbitrary: R fl0 out tp)
  case Nil
  then show ?case by (intro exI [of _ fl0] exI [of _ out] exI [of _ "[]"] exI [of _ tp] exI [of _ R]) simp
next
  case (Cons x es)
  obtain p q where x: "x = (p, q)" by (cases x)
  let ?n = "length (tqe_m q)"
  have p: "R \<le> p" "entry_at isn f p q" "placed isn f (p + ?n) es hi" "p + ?n \<le> hi"
    using Cons.prems(1) x placed_le by auto
  then have "near p R" using Cons.prems(3) by (intro nearI [of R]) auto
  then have eq: "q_seq q = rcv_nxt tp \<longleftrightarrow> p = R" using p(2) Cons.prems(2) seqno_eq_iff by (simp add: entry_at_def)
  show ?case
  proof (cases "p = R")
    case False
    then have "R \<notin> covers (x # es)" using placed_covers [OF p(3)] p(1) x by (auto simp: range_of_def)
    then show ?thesis using False eq x Cons.prems p(1)
      by (intro exI [of _ fl0] exI [of _ out] exI [of _ "x # es"] exI [of _ tp] exI [of _ R]) simp
  next
    case True
    define tq where "tq = (let tp = note_push q (tp\<lparr>rcv_nxt := rcv_nxt tp + word_of_int (tqe_len q)\<rparr>)
      in tp\<lparr>t_reassqlen := t_reassqlen tp - 1\<rparr>)"
    have l: "tqe_len q = int ?n" "tqe_m q = map f [R..<R + ?n]" using p(2) True by (simp_all add: entry_at_def)
    have r: "rcv_nxt tq = seqno isn (R + ?n)" using Cons.prems(2) l(1) by (simp add: tq_def note_push_def Let_def)
    have step: "present_loop False (map snd (x # es)) fl0 out tp
        = present_loop False (map snd es) (th_flags (tqe_th q) AND TH_FIN) (out @ [tqe_m q]) tq"
      using True eq x by (simp add: tq_def Let_def)
    have pl: "placed isn f (R + ?n) es hi" using p(3) True by simp
    from Cons.IH [OF pl r, of "th_flags (tqe_th q) AND TH_FIN" "out @ [tqe_m q]"] Cons.prems(3)
    obtain fl out' es' tp' R' where h: "present_loop False (map snd es) (th_flags (tqe_th q) AND TH_FIN) (out @ [tqe_m q]) tq
        = (fl, out', map snd es', tp')" "rcv_nxt tp' = seqno isn R'" "R + ?n \<le> R'" "placed isn f R' es' hi"
      "concat out' = concat (out @ [tqe_m q]) @ map f [R + ?n..<R']" "covers es = {R + ?n..<R'} \<union> covers es'" "R' \<notin> covers es'"
      by auto
    have "[R..<R'] = [R..<R + ?n] @ [R + ?n..<R']" using h(3) upt_add_eq_append [of R "R + ?n" "R' - (R + ?n)"] by simp
    then have "map f [R..<R'] = tqe_m q @ map f [R + ?n..<R']" using l(2) by (metis map_append)
    then have "concat out' = concat out @ map f [R..<R']" using h(5) by simp
    moreover have "covers (x # es) = {R..<R'} \<union> covers es'" using h(3,6) True x by (auto simp: range_of_def)
    ultimately show ?thesis using step h by (intro exI [of _ fl] exI [of _ out'] exI [of _ es'] exI [of _ tp'] exI [of _ R']) simp
  qed
qed

subsection \<open>Inserting\<close>

lemma split_placed:
  assumes "placed isn f R es hi" "R \<le> s" "s \<le> hi" "hi < R + 2 ^ 31"
  shows "takeWhile (\<lambda>q. \<not> seq_gt (q_seq q) (seqno isn s)) (map snd es) = map snd (takeWhile (\<lambda>e. fst e \<le> s) es)"
    and "dropWhile (\<lambda>q. \<not> seq_gt (q_seq q) (seqno isn s)) (map snd es) = map snd (dropWhile (\<lambda>e. fst e \<le> s) es)"
proof -
  have c: "\<not> seq_gt (q_seq (snd e)) (seqno isn s) \<longleftrightarrow> fst e \<le> s" if "e \<in> set es" for e
  proof -
    have e: "R \<le> fst e" "fst e \<le> hi" "entry_at isn f (fst e) (snd e)"
      using placed_bounds [OF assms(1), of "fst e" "snd e"] that by auto
    then have "near (fst e) s" using assms(2-4) by (intro nearI [of R]) auto
    then show ?thesis using e(3) by (auto simp: entry_at_def seq_gt_seqno)
  qed
  show "takeWhile (\<lambda>q. \<not> seq_gt (q_seq q) (seqno isn s)) (map snd es) = map snd (takeWhile (\<lambda>e. fst e \<le> s) es)"
    unfolding takeWhile_map using c by (intro arg_cong [of _ _ "map snd"] takeWhile_cong) simp_all
  show "dropWhile (\<lambda>q. \<not> seq_gt (q_seq q) (seqno isn s)) (map snd es) = map snd (dropWhile (\<lambda>e. fst e \<le> s) es)"
    unfolding dropWhile_map using c by (intro arg_cong [of _ _ "map snd"] dropWhile_cong) simp_all
qed

text \<open>
  The end of the entries that begin no later than \<open>s\<close>: their overlap with a segment at \<open>s\<close> is
  what reaches beyond \<open>s\<close>.
\<close>

lemma before_end:
  assumes "placed isn f R bs m" "m \<le> hi" "\<forall>e\<in>set bs. fst e \<le> s" "R \<le> s" "s \<le> hi" "hi < R + 2 ^ 31" "th_seq th = seqno isn s"
  shows "\<exists>b. placed isn f R bs b \<and> b \<le> m \<and> (0 < pred_overlap (map snd bs) th \<longrightarrow> pred_overlap (map snd bs) th = int b - int s)
    \<and> (pred_overlap (map snd bs) th \<le> 0 \<longrightarrow> b \<le> s) \<and> {s..<b} \<subseteq> covers bs"
proof (cases bs rule: rev_cases)
  case Nil
  then show ?thesis using assms(1,4) by (intro exI [of _ R]) (simp add: pred_overlap_def)
next
  case (snoc xs x)
  obtain p q where x: "x = (p, q)" by (cases x)
  let ?b = "p + length (tqe_m q)"
  obtain k where k: "placed isn f R xs k" "k \<le> p" "entry_at isn f p q" "?b \<le> m"
    using assms(1) snoc x by (auto simp: placed_append)
  have "R \<le> p" using k placed_le by fastforce
  then have "near ?b s" using k(4) assms(2,4-6) by (intro nearI [of R]) auto
  then have "sint (seqno isn ?b - seqno isn s) = int ?b - int s" by (rule seqno_diff)
  moreover have "q_seq q + word_of_int (tqe_len q) = seqno isn ?b" using k(3) by (simp add: entry_at_def)
  ultimately have "pred_overlap (map snd bs) th = int ?b - int s" using snoc x assms(7) by (simp only: pred_overlap_def Let_def) simp
  moreover have "placed isn f R bs ?b" using k snoc x by (auto simp: placed_append)
  moreover have "{s..<?b} \<subseteq> covers bs" using assms(3) snoc x by (auto simp: range_of_def)
  ultimately show ?thesis using k(4) by (intro exI [of _ ?b]) auto
qed

lemma placed_after:
  assumes "placed isn f k (dropWhile (\<lambda>e. fst e \<le> s) es) hi" "s \<le> hi"
  shows "placed isn f s (dropWhile (\<lambda>e. fst e \<le> s) es) hi"
proof (cases "dropWhile (\<lambda>e. fst e \<le> s) es")
  case (Cons x xs)
  then have "\<not> fst x \<le> s" by (simp add: dropWhile_eq_Cons_conv)
  then show ?thesis using assms Cons by (cases x) simp
next
  case Nil
  show ?thesis unfolding Nil using assms(2) by simp
qed

text \<open>The queue after the insertion of a segment at \<open>s\<close> that the entries before it do not overlap.\<close>

lemma insert_placed:
  assumes "placed isn f R bs s" "placed isn f s as hi" "s + n \<le> hi" "hi < s + 2 ^ 31" "th_seq th = seqno isn s"
    and "m = map f [s..<s + n]"
  shows "\<exists>es. t_segq (reass_insert E (map snd bs) (map snd as) d th (int n) m tp) = map snd es \<and> placed isn f R es hi
    \<and> covers es = covers bs \<union> {s..<s + n} \<union> covers as"
proof -
  let ?tp = "count_ooo E th (int n) tp" and ?q = "\<lparr>tqe_len = int n, tqe_th = th, tqe_m = m\<rparr>"
  have e: "th_seq th + word_of_int (int n) = seqno isn (s + n)" using assms(5) by simp
  obtain ys where y: "fst (trim_succ (seqno isn (s + n)) d (map snd as) ?tp) = map snd ys" "placed isn f (s + n) ys hi"
    "covers ys \<union> {s..<s + n} = covers as \<union> {s..<s + n}"
    using trim_succ_placed [OF assms(2), of "s + n" d ?tp] assms(3,4) by auto
  let ?es = "bs @ (s, ?q) # ys"
  have "t_segq (reass_insert E (map snd bs) (map snd as) d th (int n) m tp) = map snd ?es"
    using y(1) by (simp only: reass_insert_def Let_def e) (simp add: case_prod_beta)
  moreover have "placed isn f R ?es hi"
    using assms(1,5,6) y(2) by (auto simp: placed_append entry_at_def)
  moreover have "covers ?es = covers bs \<union> {s..<s + n} \<union> covers as" using y(3) assms(6) by (auto simp: range_of_def)
  ultimately show ?thesis by blast
qed

subsection \<open>Presenting\<close>

definition ready :: "'e arr_env_scheme \<Rightarrow> tcpcb \<Rightarrow> bool" where
  "ready E tp \<longleftrightarrow> TCPS_HAVEESTABLISHED E (t_state tp) \<and> \<not> has_flag (t_flagsext tp) TF_REASS_INPROG
     \<and> \<not> has_flag (so_state (inp_socket (t_inpcb tp))) (SS_CANTRCVMORE E)"

lemma ready_frame: "reass_frame tp tp' \<Longrightarrow> ready E tp' = ready E tp"
  by (simp add: ready_def reass_frame_def)

lemma reass_frame_ready:
  assumes "reass_frame tp tp'" "rcv_nxt tp = r" "ready E tp"
  shows "rcv_nxt tp' = r" "ready E tp'"
  using assms ready_frame by (auto simp: reass_frame_def)

lemma reass_present_placed:
  assumes "ready E tp" "t_segq tp = map snd es" "placed isn f R es hi" "rcv_nxt tp = seqno isn R" "hi < R + 2 ^ 31"
  shows "\<exists>fl out es' tp' R'. reass_present E tp = (fl, out, tp') \<and> t_segq tp' = map snd es' \<and> rcv_nxt tp' = seqno isn R'
    \<and> placed isn f R' es' hi \<and> concat out = map f [R..<R'] \<and> covers es = {R..<R'} \<union> covers es' \<and> R' \<notin> covers es'"
proof (cases "t_segq tp = [] \<or> q_seq (hd (t_segq tp)) \<noteq> rcv_nxt tp")
  case True
  have "R \<notin> covers es"
  proof (cases es)
    case (Cons x xs)
    obtain p q where x: "x = (p, q)" by (cases x)
    have p: "R \<le> p" "entry_at isn f p q" "placed isn f (p + length (tqe_m q)) xs hi" using assms(3) Cons x by auto
    then have "p \<noteq> R" using True assms(2,4) Cons x by (auto simp: entry_at_def)
    then show ?thesis using placed_covers [OF p(3)] p(1) Cons x by (auto simp: range_of_def)
  qed simp
  then show ?thesis using True assms by (intro exI [of _ 0] exI [of _ "[]"] exI [of _ es] exI [of _ tp] exI [of _ R])
    (auto simp: reass_present_def ready_def)
next
  case False
  let ?tp = "tp\<lparr>t_flagsext := t_flagsext tp OR TF_REASS_INPROG\<rparr>"
  obtain fl out es' tp' R' where h: "present_loop False (map snd es) 0 [] ?tp = (fl, out, map snd es', tp')"
    "rcv_nxt tp' = seqno isn R'" "R \<le> R'" "placed isn f R' es' hi" "concat out = concat [] @ map f [R..<R']"
    "covers es = {R..<R'} \<union> covers es'" "R' \<notin> covers es'"
    using present_placed [OF assms(3), of ?tp 0 "[]"] assms(4,5) by auto
  have c: "(so_state (inp_socket (t_inpcb tp)) AND SS_CANTRCVMORE E \<noteq> 0) = False" using assms(1) by (simp add: ready_def)
  have "reass_present E tp = (fl, out, tp'\<lparr>t_segq := map snd es', t_flagsext := t_flagsext tp' AND NOT TF_REASS_INPROG\<rparr>)"
    using False h(1) assms(1,2) c by (simp add: reass_present_def ready_def)
  then show ?thesis using h
    by (intro exI [of _ fl] exI [of _ out] exI [of _ es'] exI [of _ "tp'\<lparr>t_segq := map snd es', t_flagsext := t_flagsext tp' AND NOT TF_REASS_INPROG\<rparr>"]
        exI [of _ R']) simp
qed

lemma reass_insert_keeps:
  "rcv_nxt (reass_insert E bs as d th n m tp) = rcv_nxt tp" "ready E' (reass_insert E bs as d th n m tp) = ready E' tp"
proof -
  let ?t = "snd (trim_succ (th_seq th + word_of_int n) d as (count_ooo E th n tp))"
  have f: "reass_frame tp ?t" by (rule reass_frame_trans [OF reass_frames(3) trim_succ_frame])
  have r: "reass_insert E bs as d th n m tp = ?t\<lparr>t_segq := t_segq (reass_insert E bs as d th n m tp)\<rparr>"
    by (simp add: reass_insert_def Let_def case_prod_beta)
  show "rcv_nxt (reass_insert E bs as d th n m tp) = rcv_nxt tp" using f by (subst r) (simp add: reass_frame_def)
  show "ready E' (reass_insert E bs as d th n m tp) = ready E' tp" using f by (subst r) (simp add: reass_frame_def ready_def)
qed

text \<open>The state after the counter has been raised, and what the three branches do with it.\<close>

definition reass_begin :: "'e arr_env_scheme \<Rightarrow> u32 \<Rightarrow> tcpcb \<Rightarrow> tcpcb" where
  "reass_begin E now tp = (reass_loss_state E now tp)\<lparr>t_reassqlen := t_reassqlen tp + 1\<rparr>"

definition presented :: "'e arr_env_scheme \<Rightarrow> int \<Rightarrow> tcpcb \<Rightarrow> u8 \<times> int \<times> bytes list \<times> tcpcb" where
  "presented E tlen tp = (let (flags, out, tp) = reass_present E tp in (flags, tlen, out, tp))"

lemma reass_begin_frame: "reass_frame tp (reass_begin E now tp)"
  unfolding reass_begin_def by (rule reass_frame_trans [OF loss_state_frame(1) reass_frames(5)])

lemma tcp_reass_branches:
  assumes "\<not> reass_full E pressure th (reass_loss_state E now tp)"
    and "takeWhile (\<lambda>q. \<not> seq_gt (q_seq q) (th_seq th)) (t_segq tp) = B"
    and "dropWhile (\<lambda>q. \<not> seq_gt (q_seq q) (th_seq th)) (t_segq tp) = A"
  shows "pred_overlap B th \<le> 0 \<Longrightarrow> tcp_reass E now pressure th tlen m tp
      = presented E tlen (reass_insert E B A False th tlen m (reass_begin E now tp))"
    and "0 < pred_overlap B th \<Longrightarrow> tlen \<le> pred_overlap B th \<Longrightarrow> tcp_reass E now pressure th tlen m tp
      = presented E tlen (let tq = pred_dsack (pred_overlap B th) th tlen (reass_begin E now tp)
          in (count_duplicate E tlen tq)\<lparr>t_reassqlen := t_reassqlen tq - 1\<rparr>)"
    and "0 < pred_overlap B th \<Longrightarrow> pred_overlap B th < tlen \<Longrightarrow> tcp_reass E now pressure th tlen m tp
      = presented E (tlen - pred_overlap B th) (reass_insert E B A (pred_overlap B th > 1)
          (th\<lparr>th_seq := th_seq th + word_of_int (pred_overlap B th)\<rparr>) (tlen - pred_overlap B th) (drop (nat (pred_overlap B th)) m)
          (pred_dsack (pred_overlap B th) th tlen (reass_begin E now tp)))"
proof -
  have q: "t_segq (reass_loss_state E now tp) = t_segq tp" using loss_state_frame(1) [of tp E now] by (simp add: reass_frame_def)
  note d = tcp_reass_def reass_begin_def presented_def Let_def assms q loss_state_frame(2)
  show "pred_overlap B th \<le> 0 \<Longrightarrow> tcp_reass E now pressure th tlen m tp
      = presented E tlen (reass_insert E B A False th tlen m (reass_begin E now tp))"
    by (simp add: d)
  show "0 < pred_overlap B th \<Longrightarrow> tlen \<le> pred_overlap B th \<Longrightarrow> tcp_reass E now pressure th tlen m tp
      = presented E tlen (let tq = pred_dsack (pred_overlap B th) th tlen (reass_begin E now tp)
          in (count_duplicate E tlen tq)\<lparr>t_reassqlen := t_reassqlen tq - 1\<rparr>)"
    by (simp add: d)
  show "0 < pred_overlap B th \<Longrightarrow> pred_overlap B th < tlen \<Longrightarrow> tcp_reass E now pressure th tlen m tp
      = presented E (tlen - pred_overlap B th) (reass_insert E B A (pred_overlap B th > 1)
          (th\<lparr>th_seq := th_seq th + word_of_int (pred_overlap B th)\<rparr>) (tlen - pred_overlap B th) (drop (nat (pred_overlap B th)) m)
          (pred_dsack (pred_overlap B th) th tlen (reass_begin E now tp)))"
    by (simp add: d)
qed

text \<open>A segment that the entry before reaches into, but not to its end.\<close>

lemma insert_cut:
  assumes "placed isn f R bs b" "placed isn f b as hi" "R \<le> s" "s < b" "b < s + n" "s + n \<le> hi" "hi < R + 2 ^ 31"
    and "th_seq th = seqno isn s" "m = map f [s..<s + n]" "{s..<b} \<subseteq> covers bs" "i = int b - int s"
  shows "\<exists>er. t_segq (reass_insert E (map snd bs) (map snd as) d (th\<lparr>th_seq := th_seq th + word_of_int i\<rparr>) (int n - i) (drop (nat i) m) tp)
      = map snd er \<and> placed isn f R er hi \<and> covers er = covers (bs @ as) \<union> {s..<s + n}"
proof -
  let ?th = "th\<lparr>th_seq := th_seq th + word_of_int i\<rparr>" and ?n = "s + n - b"
  have n: "int n - i = int ?n" "nat i = b - s" "b + ?n = s + n" using assms(4,5,11) by auto
  have "th_seq ?th = seqno isn s + of_nat (b - s)" using assms(4,8,11) by (simp add: of_nat_diff)
  then have th: "th_seq ?th = seqno isn b" using assms(4) by (simp add: of_nat_diff)
  have m: "drop (nat i) m = map f [b..<b + ?n]" using assms(4,9) n by (simp add: drop_map)
  obtain er where er: "t_segq (reass_insert E (map snd bs) (map snd as) d ?th (int ?n) (drop (nat i) m) tp) = map snd er"
    "placed isn f R er hi" "covers er = covers bs \<union> {b..<b + ?n} \<union> covers as"
    using insert_placed [OF assms(1,2) _ _ th m, of E d tp] n assms(3-7) by auto
  have "{s..<s + n} = {s..<b} \<union> {b..<b + ?n}" using assms(4,5) by auto
  then have "covers er = covers (bs @ as) \<union> {s..<s + n}" using er(3) assms(10) by auto
  then show ?thesis using er n(1) by auto
qed

text \<open>The queue just before data is presented, in every branch.\<close>

lemma tcp_reass_placed:
  assumes "rcv_nxt tp = seqno isn R" "t_segq tp = map snd es" "placed isn f R es hi" "ready E tp"
    and "R \<le> s" "s + n \<le> hi" "hi \<le> R + 2 ^ 30" "th_seq th = seqno isn s" "m = map f [s..<s + n]"
    and "s \<noteq> R \<longrightarrow> \<not> pressure \<and> t_reassqlen tp + 1 < reass_qlimit E tp"
  shows "\<exists>tlen tr er. tcp_reass E now pressure th (int n) m tp = presented E tlen tr
    \<and> ready E tr \<and> rcv_nxt tr = seqno isn R \<and> t_segq tr = map snd er \<and> placed isn f R er hi \<and> covers er = covers es \<union> {s..<s + n}"
proof -
  have h: "s \<le> hi" "hi < R + 2 ^ 31" using assms(6,7) by auto
  have "near s R" using assms(5) h by (intro nearI [of R]) auto
  then have room: "\<not> reass_full E pressure th (reass_loss_state E now tp)"
    using assms(1,8,10) loss_state_frame [where E = E and now = now and tp = tp] seqno_eq_iff [of s R isn] by (auto simp: reass_full_def reass_frame_def not_le)
  define bs as where "bs = takeWhile (\<lambda>e. fst e \<le> s) es" and "as = dropWhile (\<lambda>e. fst e \<le> s) es"
  have es: "es = bs @ as" "\<forall>e\<in>set bs. fst e \<le> s" by (auto simp: bs_def as_def dest: set_takeWhileD)
  obtain k where k: "placed isn f R bs k" "placed isn f k as hi" using assms(3) unfolding es placed_append by blast
  note branch = tcp_reass_branches [OF room split_placed [OF assms(3,5) h, folded assms(8), folded bs_def as_def, folded assms(2)],
      of "int n" m]
  let ?i = "pred_overlap (map snd bs) th" and ?tq = "reass_begin E now tp"
  obtain b where b: "placed isn f R bs b" "b \<le> k" "0 < ?i \<longrightarrow> ?i = int b - int s" "?i \<le> 0 \<longrightarrow> b \<le> s" "{s..<b} \<subseteq> covers bs"
    using before_end [OF k(1) placed_le [OF k(2)] es(2) assms(5) h assms(8)] by blast
  let ?td = "pred_dsack ?i th (int n) ?tq"
  have fd: "reass_frame tp ?td" by (rule reass_frame_trans [OF reass_begin_frame reass_frames(2)])
  note fb = reass_frame_ready [OF reass_begin_frame assms(1,4)]
  consider "?i \<le> 0" | "0 < ?i" "int n \<le> ?i" | "0 < ?i" "?i < int n" by linarith
  then show ?thesis
  proof cases
    case 1
    then have "placed isn f R bs s" using b placed_raise by simp
    moreover have "placed isn f s as hi" using placed_after [OF k(2) [unfolded as_def] h(1)] by (simp add: as_def)
    ultimately obtain er where er: "t_segq (reass_insert E (map snd bs) (map snd as) False th (int n) m ?tq) = map snd er"
      "placed isn f R er hi" "covers er = covers bs \<union> {s..<s + n} \<union> covers as"
      using insert_placed [of isn f R bs s as hi n th m E False ?tq] assms(5,6,8,9) h by auto
    have "covers er = covers es \<union> {s..<s + n}" using er(3) es(1) by auto
    then show ?thesis using branch(1) [OF 1] er
      by (intro exI [of _ "int n"] exI [of _ "reass_insert E (map snd bs) (map snd as) False th (int n) m ?tq"] exI [of _ er])
        (simp add: reass_insert_keeps fb)
  next
    case 2
    let ?tr = "(count_duplicate E (int n) ?td)\<lparr>t_reassqlen := t_reassqlen ?td - 1\<rparr>"
    have f: "reass_frame tp ?tr" by (rule reass_frame_trans [OF reass_frame_trans [OF fd reass_frames(4)] reass_frames(5)])
    have "{s..<s + n} \<subseteq> covers es" using b(3,5) 2 es(1) by auto
    then have "covers es = covers es \<union> {s..<s + n}" by blast
    then show ?thesis using branch(2) [OF 2, unfolded Let_def] reass_frame_ready [OF f assms(1,4)] f assms(2,3)
      by (intro exI [of _ "int n"] exI [of _ ?tr] exI [of _ es]) (simp add: reass_frame_def)
  next
    case 3
    then have i: "?i = int b - int s" "s < b" "b < s + n" using b(3) by auto
    let ?tr = "reass_insert E (map snd bs) (map snd as) (?i > 1) (th\<lparr>th_seq := th_seq th + word_of_int ?i\<rparr>) (int n - ?i) (drop (nat ?i) m) ?td"
    obtain er where "t_segq ?tr = map snd er" "placed isn f R er hi" "covers er = covers es \<union> {s..<s + n}"
      using insert_cut [OF b(1) placed_lower [OF k(2) b(2)] assms(5) i(2,3) assms(6) h(2) assms(8,9) b(5) i(1), of E "1 < ?i" ?td] es(1)
      by blast
    then show ?thesis using branch(3) [OF 3] reass_frame_ready [OF fd assms(1,4)]
      by (intro exI [of _ "int n - ?i"] exI [of _ ?tr] exI [of _ er]) (simp add: reass_insert_keeps)
  qed
qed

text \<open>
  Property C33. The kernel's reassembly against a stream of bytes, for any alignment of the sequence numbers: if the queue holds
  pieces of the stream in order and without overlap, and a segment of the stream arrives within 2^30 of the left edge
  (with room in the queue, and no other thread presenting), then what is handed to the socket is exactly the
  stream from the old edge to the new one; the queue again holds pieces of the stream in order and without overlap; the positions received
  are those received before and those of the segment, however they overlap; and the new edge is the first position
  not received.
\<close>

theorem reass_delivers_stream:
  assumes "rcv_nxt tp = seqno isn R" "t_segq tp = map snd es" "placed isn f R es hi" "ready E tp"
    and "R \<le> s" "s + n \<le> hi" "hi \<le> R + 2 ^ 30" "th_seq th = seqno isn s" "m = map f [s..<s + n]"
    and "s \<noteq> R \<longrightarrow> \<not> pressure \<and> t_reassqlen tp + 1 < reass_qlimit E tp"
  shows "\<exists>fl tlen out tp' es' R'. tcp_reass E now pressure th (int n) m tp = (fl, tlen, out, tp')
    \<and> concat out = map f [R..<R'] \<and> rcv_nxt tp' = seqno isn R' \<and> t_segq tp' = map snd es' \<and> placed isn f R' es' hi
    \<and> {R..<R'} \<union> covers es' = covers es \<union> {s..<s + n} \<and> R' \<notin> covers es'"
proof -
  have h: "hi < R + 2 ^ 31" using assms(7) by auto
  obtain tlen tr er where r: "tcp_reass E now pressure th (int n) m tp = presented E tlen tr" "ready E tr"
    "rcv_nxt tr = seqno isn R" "t_segq tr = map snd er" "placed isn f R er hi" "covers er = covers es \<union> {s..<s + n}" using tcp_reass_placed [OF assms] by blast
  from reass_present_placed [OF r(2,4,5,3) h] obtain g out es' tp' R' where p: "reass_present E tr = (g, out, tp')"
    "t_segq tp' = map snd es'" "rcv_nxt tp' = seqno isn R'" "placed isn f R' es' hi" "concat out = map f [R..<R']"
    "covers er = {R..<R'} \<union> covers es'" "R' \<notin> covers es'" by blast
  then have "tcp_reass E now pressure th (int n) m tp = (g, tlen, out, tp')" using r(1) by (simp add: presented_def)
  then show ?thesis using p(2-7) r(6) by (intro exI [of _ g] exI [of _ tlen] exI [of _ out] exI [of _ tp'] exI [of _ es'] exI [of _ R']) simp
qed

text \<open>
  Bytes 4 to 7 of a stream wait in the queue when bytes 0 to 5 arrive: all eight are delivered.
\<close>

definition reass_demo :: "nat \<Rightarrow> u8" where "reass_demo i = of_nat (10 + i)"

definition reass_th :: "nat \<Rightarrow> tcphdr" where "reass_th p = tcphdr_zero\<lparr>th_seq := seqno (- 2) p\<rparr>"

definition reass_entry :: "tseg_qent" where
  "reass_entry = \<lparr>tqe_len = 4, tqe_th = reass_th 4, tqe_m = map reass_demo [4..<8]\<rparr>"

definition reass_tp :: tcpcb where
  "reass_tp = tcpcb_zero\<lparr>t_state := TCPS_ESTABLISHED, rcv_nxt := seqno (- 2) 0, t_segq := [reass_entry], t_reassqlen := 1\<rparr>"

theorem reass_delivers_stream_witness:
  "\<exists>fl tlen out tp' es' R'. tcp_reass (arr_env_zero 2) 100 False (reass_th 0) (int 6) (map reass_demo [0..<0 + 6]) reass_tp = (fl, tlen, out, tp')
    \<and> concat out = map reass_demo [0..<R'] \<and> rcv_nxt tp' = seqno (- 2) R' \<and> t_segq tp' = map snd es' \<and> placed (- 2) reass_demo R' es' 8
    \<and> {0..<R'} \<union> covers es' = covers [(4, reass_entry)] \<union> {0..<0 + 6} \<and> R' \<notin> covers es'"
proof (rule reass_delivers_stream)
  show "rcv_nxt reass_tp = seqno (- 2) 0" "t_segq reass_tp = map snd [(4, reass_entry)]" by (simp_all add: reass_tp_def)
  show "placed (- 2) reass_demo 0 [(4, reass_entry)] 8" by (simp add: entry_at_def reass_entry_def reass_th_def)
  show "ready (arr_env_zero 2) reass_tp"
    by (simp add: ready_def reass_tp_def arr_env_zero_simps tcpcb_zero_def inpcb_zero_def socket_zero_def)
qed (simp_all add: reass_th_def)

end
