(* ===== verification/Mealy.thy ===== *)
theory Mealy
  imports Prelude
begin

text \<open>
  The Mealy machines of \<^verbatim>\<open>reference/salvage/lstar.cpp\<close>: running, the hand-written TCP server, Moore's
  partition refinement and the search for a word that separates two machines. States and input
  symbols are indices, outputs are integers. The names of states and symbols, which
  are only printed, are not represented.
\<close>

type_synonym word_in = "nat list"
type_synonym out_word = "int list"

record mealy =
  m_n :: nat
  m_k :: nat
  m_d :: "nat list list"
  m_o :: "int list list"
  m_chal :: "bool list list"

definition mealy_empty :: mealy where
  "mealy_empty = \<lparr>m_n = 0, m_k = 0, m_d = [], m_o = [], m_chal = []\<rparr>"

abbreviation nxt :: "mealy \<Rightarrow> nat \<Rightarrow> nat \<Rightarrow> nat" where "nxt m s a \<equiv> m_d m ! s ! a"
abbreviation outp :: "mealy \<Rightarrow> nat \<Rightarrow> nat \<Rightarrow> int" where "outp m s a \<equiv> m_o m ! s ! a"

primrec mealy_run :: "mealy \<Rightarrow> nat \<Rightarrow> word_in \<Rightarrow> out_word" where
  "mealy_run m s [] = []"
| "mealy_run m s (a # w) = outp m s a # mealy_run m (nxt m s a) w"

primrec mealy_reach :: "mealy \<Rightarrow> nat \<Rightarrow> word_in \<Rightarrow> nat" where
  "mealy_reach m s [] = s"
| "mealy_reach m s (a # w) = mealy_reach m (nxt m s a) w"

subsection \<open>The server\<close>

abbreviation (input) SYN :: nat where "SYN \<equiv> 0"
abbreviation (input) ACK :: nat where "ACK \<equiv> 1"
abbreviation (input) FIN :: nat where "FIN \<equiv> 2"
abbreviation (input) RST :: nat where "RST \<equiv> 3"
abbreviation (input) DATA :: nat where "DATA \<equiv> 4"
abbreviation (input) CLOSE :: nat where "CLOSE \<equiv> 5"
abbreviation (input) O_SILENT :: int where "O_SILENT \<equiv> 0"
abbreviation (input) O_SYNACK :: int where "O_SYNACK \<equiv> 1"
abbreviation (input) O_ACK :: int where "O_ACK \<equiv> 2"
abbreviation (input) O_RST :: int where "O_RST \<equiv> 3"
abbreviation (input) O_FINACK :: int where "O_FINACK \<equiv> 4"

definition mealy_blank :: "nat \<Rightarrow> nat \<Rightarrow> mealy" where
  "mealy_blank n k =
     \<lparr>m_n = n, m_k = k, m_d = replicate n (replicate k 0), m_o = replicate n (replicate k 0),
      m_chal = replicate n (replicate k False)\<rparr>"

definition put_trans :: "nat \<times> nat \<times> nat \<times> int \<times> bool \<Rightarrow> mealy \<Rightarrow> mealy" where
  "put_trans t m =
     (let (s, a, ns, out, c) = t
      in m\<lparr>m_d := (m_d m)[s := (m_d m ! s)[a := ns]], m_o := (m_o m)[s := (m_o m ! s)[a := out]],
           m_chal := (m_chal m)[s := (m_chal m ! s)[a := c]]\<rparr>)"

definition server_table :: "(nat \<times> nat \<times> nat \<times> int \<times> bool) list" where
  "server_table =
    [(0, SYN, 1, O_SYNACK, False), (0, ACK, 0, O_RST, False), (0, FIN, 0, O_SILENT, False),
     (0, RST, 0, O_SILENT, False), (0, DATA, 0, O_RST, False), (0, CLOSE, 9, O_SILENT, False),
     (1, SYN, 1, O_SILENT, False), (1, ACK, 2, O_SILENT, False), (1, FIN, 3, O_ACK, False),
     (1, RST, 0, O_SILENT, False), (1, DATA, 1, O_SILENT, False), (1, CLOSE, 5, O_FINACK, False),
     (2, SYN, 2, O_ACK, True), (2, ACK, 2, O_SILENT, False), (2, FIN, 3, O_ACK, False),
     (2, RST, 9, O_SILENT, False), (2, DATA, 2, O_ACK, False), (2, CLOSE, 5, O_FINACK, False),
     (3, SYN, 3, O_ACK, True), (3, ACK, 3, O_SILENT, False), (3, FIN, 3, O_ACK, False),
     (3, RST, 9, O_SILENT, False), (3, DATA, 3, O_ACK, False), (3, CLOSE, 4, O_FINACK, False),
     (4, SYN, 4, O_ACK, True), (4, ACK, 9, O_SILENT, False), (4, FIN, 4, O_ACK, False),
     (4, RST, 9, O_SILENT, False), (4, DATA, 4, O_SILENT, False), (4, CLOSE, 4, O_SILENT, False),
     (5, SYN, 5, O_ACK, True), (5, ACK, 6, O_SILENT, False), (5, FIN, 7, O_ACK, False),
     (5, RST, 9, O_SILENT, False), (5, DATA, 5, O_ACK, False), (5, CLOSE, 5, O_SILENT, False),
     (6, SYN, 6, O_ACK, True), (6, ACK, 6, O_SILENT, False), (6, FIN, 8, O_ACK, False),
     (6, RST, 9, O_SILENT, False), (6, DATA, 6, O_ACK, False), (6, CLOSE, 6, O_SILENT, False),
     (7, SYN, 7, O_ACK, True), (7, ACK, 8, O_SILENT, False), (7, FIN, 7, O_ACK, False),
     (7, RST, 9, O_SILENT, False), (7, DATA, 7, O_SILENT, False), (7, CLOSE, 7, O_SILENT, False),
     (8, SYN, 8, O_ACK, True), (8, ACK, 8, O_SILENT, False), (8, FIN, 8, O_ACK, False),
     (8, RST, 8, O_SILENT, False), (8, DATA, 8, O_SILENT, False), (8, CLOSE, 8, O_SILENT, False),
     (9, SYN, 9, O_RST, False), (9, ACK, 9, O_RST, False), (9, FIN, 9, O_RST, False),
     (9, RST, 9, O_SILENT, False), (9, DATA, 9, O_RST, False), (9, CLOSE, 9, O_SILENT, False)]"

definition tcpServer :: mealy where
  "tcpServer = fold put_trans server_table (mealy_blank 10 6)"

subsection \<open>Partition refinement\<close>

text \<open>Numbering keys in the order of their first occurrence: \<^verbatim>\<open>sig.emplace(key, sig.size())\<close> for each.\<close>

fun number :: "('a \<times> nat) list \<Rightarrow> 'a list \<Rightarrow> nat list \<times> nat" where
  "number sig [] = ([], length sig)"
| "number sig (x # xs) =
     (case map_of sig x of
        Some i \<Rightarrow> (let (r, n) = number sig xs in (i # r, n))
      | None \<Rightarrow> (let (r, n) = number ((x, length sig) # sig) xs in (length sig # r, n)))"

definition split_classes :: "mealy \<Rightarrow> nat list \<Rightarrow> nat list \<times> nat" where
  "split_classes m cls =
     number [] (map (\<lambda>s. cls ! s # map (\<lambda>a. cls ! nxt m s a) [0..<m_k m]) [0..<m_n m])"

definition max_element :: "nat list \<Rightarrow> nat" where "max_element xs = foldl max 0 xs"

partial_function (option) refine_loop :: "mealy \<Rightarrow> nat list \<Rightarrow> nat list option" where
  "refine_loop m cls =
     (let (nc, n) = split_classes m cls
      in if n = max_element cls + 1 then Some nc else refine_loop m nc)"

definition minimalSize :: "mealy \<Rightarrow> nat option" where
  "minimalSize m =
     map_option (\<lambda>cls. max_element cls + 1) (refine_loop m (fst (number [] (map (\<lambda>s. m_o m ! s) [0..<m_n m]))))"

subsection \<open>Separating two machines\<close>

type_synonym pair_queue = "((nat \<times> nat) \<times> word_in) list"

text \<open>One pair taken from the queue: a word that separates, or the pairs seen and the queue.\<close>

primrec bfs_expand ::
  "mealy \<Rightarrow> mealy \<Rightarrow> nat \<times> nat \<Rightarrow> word_in \<Rightarrow> nat list \<Rightarrow> (nat \<times> nat) set \<Rightarrow> pair_queue \<Rightarrow> word_in + (nat \<times> nat) set \<times> pair_queue" where
  "bfs_expand h r st w [] seen Q = Inr (seen, Q)"
| "bfs_expand h r st w (a # as) seen Q =
     (if outp h (fst st) a \<noteq> outp r (snd st) a then Inl (w @ [a])
      else
        (let ns = (nxt h (fst st) a, nxt r (snd st) a) in
         if ns \<in> seen then bfs_expand h r st w as seen Q
         else bfs_expand h r st w as (insert ns seen) (Q @ [(ns, w @ [a])])))"

partial_function (option) bfs_loop :: "mealy \<Rightarrow> mealy \<Rightarrow> nat \<Rightarrow> (nat \<times> nat) set \<Rightarrow> pair_queue \<Rightarrow> word_in option option" where
  "bfs_loop h r k seen Q =
     (case Q of
        [] \<Rightarrow> Some None
      | (st, w) # Q' \<Rightarrow>
          (case bfs_expand h r st w [0..<k] seen Q' of
             Inl c \<Rightarrow> Some (Some c)
           | Inr (seen', Q'') \<Rightarrow> bfs_loop h r k seen' Q''))"

definition eqPerfect :: "mealy \<Rightarrow> mealy \<Rightarrow> nat \<Rightarrow> word_in option option" where
  "eqPerfect h r k = bfs_loop h r k {(0, 0)} [((0, 0), [])]"

subsection \<open>Running\<close>

definition mealy_wf :: "mealy \<Rightarrow> bool" where
  "mealy_wf m \<longleftrightarrow> 0 < m_n m \<and> length (m_d m) = m_n m \<and> length (m_o m) = m_n m \<and> length (m_chal m) = m_n m
     \<and> (\<forall>s<m_n m. length (m_d m ! s) = m_k m \<and> length (m_o m ! s) = m_k m \<and> length (m_chal m ! s) = m_k m
         \<and> (\<forall>a<m_k m. nxt m s a < m_n m))"

abbreviation over :: "nat \<Rightarrow> word_in \<Rightarrow> bool" where "over k w \<equiv> set w \<subseteq> {..<k}"

lemma mealy_run_length [simp]: "length (mealy_run m s w) = length w"
  by (induction w arbitrary: s) simp_all

lemma mealy_run_append [simp]: "mealy_run m s (u @ v) = mealy_run m s u @ mealy_run m (mealy_reach m s u) v"
  by (induction u arbitrary: s) simp_all

lemma mealy_reach_append [simp]: "mealy_reach m s (u @ v) = mealy_reach m (mealy_reach m s u) v"
  by (induction u arbitrary: s) simp_all

lemma mealy_run_eq_Nil [simp]: "mealy_run m s w = [] \<longleftrightarrow> w = []"
  by (cases w) simp_all

lemma mealy_reach_range: "mealy_wf m \<Longrightarrow> s < m_n m \<Longrightarrow> over (m_k m) w \<Longrightarrow> mealy_reach m s w < m_n m"
  by (induction w arbitrary: s) (auto simp: mealy_wf_def)

lemma run_first_difference:
  assumes "mealy_run h p w \<noteq> mealy_run r q w"
  shows "\<exists>u a v. w = u @ a # v \<and> mealy_run h p u = mealy_run r q u
    \<and> outp h (mealy_reach h p u) a \<noteq> outp r (mealy_reach r q u) a"
  using assms
proof (induction w arbitrary: p q)
  case (Cons a w)
  show ?case
  proof (cases "outp h p a = outp r q a")
    case True
    then obtain u b v where "w = u @ b # v" "mealy_run h (nxt h p a) u = mealy_run r (nxt r q a) u"
      "outp h (mealy_reach h (nxt h p a) u) b \<noteq> outp r (mealy_reach r (nxt r q a) u) b"
      using Cons.IH [of "nxt h p a" "nxt r q a"] Cons.prems by auto
    then show ?thesis using True by (intro exI [of _ "a # u"] exI [of _ b] exI [of _ v]) simp
  qed (intro exI [of _ "[]"] exI [of _ a] exI [of _ w], simp)
qed simp

subsection \<open>The search\<close>

definition agree :: "mealy \<Rightarrow> mealy \<Rightarrow> word_in \<Rightarrow> bool" where
  "agree h r w \<longleftrightarrow> mealy_run h 0 w = mealy_run r 0 w"

definition at :: "mealy \<Rightarrow> mealy \<Rightarrow> word_in \<Rightarrow> nat \<times> nat" where
  "at h r w = (mealy_reach h 0 w, mealy_reach r 0 w)"

definition same_out :: "mealy \<Rightarrow> mealy \<Rightarrow> nat \<times> nat \<Rightarrow> nat \<Rightarrow> bool" where
  "same_out h r p a \<longleftrightarrow> outp h (fst p) a = outp r (snd p) a"

definition both_nxt :: "mealy \<Rightarrow> mealy \<Rightarrow> nat \<times> nat \<Rightarrow> nat \<Rightarrow> nat \<times> nat" where
  "both_nxt h r p a = (nxt h (fst p) a, nxt r (snd p) a)"

lemma at_snoc: "at h r (w @ [a]) = both_nxt h r (at h r w) a"
  by (simp add: at_def both_nxt_def)

lemma agree_snoc: "agree h r (w @ [a]) \<longleftrightarrow> agree h r w \<and> same_out h r (at h r w) a"
  by (simp add: agree_def at_def same_out_def)

lemma agree_prefix: "agree h r (u @ v) \<Longrightarrow> agree h r u"
  by (simp add: agree_def)

lemma bfs_expand_cases:
  "(\<exists>a\<in>set as. bfs_expand h r p w as seen Q = Inl (w @ [a]) \<and> \<not> same_out h r p a)
   \<or> (\<exists>N. bfs_expand h r p w as seen Q = Inr (seen \<union> fst ` set N, Q @ N)
        \<and> (\<forall>a\<in>set as. same_out h r p a \<and> both_nxt h r p a \<in> seen \<union> fst ` set N)
        \<and> (\<forall>(s, u)\<in>set N. \<exists>a\<in>set as. s = both_nxt h r p a \<and> u = w @ [a]) \<and> fst ` set N \<inter> seen = {} \<and> distinct (map fst N))"
proof (induction as arbitrary: seen Q)
  case (Cons a as)
  let ?n = "both_nxt h r p a"
  show ?case
  proof (cases "same_out h r p a")
    case True
    show ?thesis
    proof (cases "?n \<in> seen")
      case In: True
      then have "bfs_expand h r p w (a # as) seen Q = bfs_expand h r p w as seen Q"
        using True by (simp add: same_out_def both_nxt_def)
      with Cons.IH [of seen Q] True In show ?thesis by (fastforce simp: case_prod_beta)
    next
      case New: False
      let ?e = "(?n, w @ [a])"
      have e: "bfs_expand h r p w (a # as) seen Q = bfs_expand h r p w as (insert ?n seen) (Q @ [?e])"
        using True New by (simp add: same_out_def both_nxt_def Let_def)
      from Cons.IH [of "insert ?n seen" "Q @ [?e]"] show ?thesis
      proof (elim disjE exE conjE)
        fix N assume N: "bfs_expand h r p w as (insert ?n seen) (Q @ [?e]) = Inr (insert ?n seen \<union> fst ` set N, (Q @ [?e]) @ N)"
          "\<forall>a\<in>set as. same_out h r p a \<and> both_nxt h r p a \<in> insert ?n seen \<union> fst ` set N"
          "\<forall>(s, u)\<in>set N. \<exists>a\<in>set as. s = both_nxt h r p a \<and> u = w @ [a]" "fst ` set N \<inter> insert ?n seen = {}" "distinct (map fst N)"
        show ?thesis
          by (rule disjI2, rule exI [of _ "?e # N"]) (use e N True New in \<open>auto simp: case_prod_beta\<close>)
      qed (use e in auto)
    qed
  qed (auto simp: same_out_def)
qed simp

definition shortest :: "mealy \<Rightarrow> mealy \<Rightarrow> nat \<Rightarrow> nat \<times> nat \<Rightarrow> word_in \<Rightarrow> bool" where
  "shortest h r k p w \<longleftrightarrow> (\<forall>v. over k v \<longrightarrow> at h r v = p \<longrightarrow> length w \<le> length v)"

text \<open>
  What holds at the head of the loop: the queue has the words to its pairs, by length; a pair seen and not queued is
  explored; and no pair on the queue has a shorter word than its own.
\<close>

definition bfs_inv :: "mealy \<Rightarrow> mealy \<Rightarrow> nat \<Rightarrow> (nat \<times> nat) set \<Rightarrow> pair_queue \<Rightarrow> bool" where
  "bfs_inv h r k seen Q \<longleftrightarrow>
     (\<forall>(p, w)\<in>set Q. p = at h r w \<and> over k w \<and> agree h r w \<and> p \<in> seen \<and> length w \<le> length (snd (hd Q)) + 1
        \<and> shortest h r k p w)
     \<and> seen \<subseteq> {..<m_n h} \<times> {..<m_n r} \<and> (0, 0) \<in> seen
     \<and> (\<forall>p\<in>seen - fst ` set Q. \<forall>a<k. same_out h r p a \<and> both_nxt h r p a \<in> seen)
     \<and> sorted (map (length \<circ> snd) Q)
     \<and> (Q \<noteq> [] \<longrightarrow> (\<forall>v. over k v \<longrightarrow> length v \<le> length (snd (hd Q)) \<longrightarrow> at h r v \<in> seen))"

lemma bfs_entry:
  assumes "bfs_inv h r k seen Q" "(s, u) \<in> set Q"
  shows "s = at h r u" "over k u" "agree h r u" "s \<in> seen" "length u \<le> length (snd (hd Q)) + 1"
    "shortest h r k s u"
proof -
  have "case (s, u) of (p, w) \<Rightarrow> p = at h r w \<and> over k w \<and> agree h r w \<and> p \<in> seen \<and> length w \<le> length (snd (hd Q)) + 1
        \<and> shortest h r k p w"
    using assms unfolding bfs_inv_def by blast
  then show "s = at h r u" "over k u" "agree h r u" "s \<in> seen" "length u \<le> length (snd (hd Q)) + 1"
    "shortest h r k s u" by auto
qed

lemma sorted_hd_le: "sorted (map f xs) \<Longrightarrow> x \<in> set xs \<Longrightarrow> f (hd xs) \<le> f x"
  by (cases xs) auto

lemma bfs_explored:
  assumes "bfs_inv h r k seen (e # Q)" "over k v" "length v < length (snd e)" "a < k"
  shows "same_out h r (at h r v) a"
proof -
  have "at h r v \<in> seen" using assms(1-3) by (simp add: bfs_inv_def)
  moreover have "at h r v \<notin> fst ` set (e # Q)"
  proof
    assume "at h r v \<in> fst ` set (e # Q)"
    then obtain w where "(at h r v, w) \<in> set (e # Q)" by (metis imageE prod.collapse)
    moreover from this have "length w \<le> length v" using bfs_entry(6) [OF assms(1)] assms(2) by (auto simp: shortest_def)
    ultimately show False using assms(1,3) by (auto simp: bfs_inv_def)
  qed
  ultimately show ?thesis using assms(1,4) by (auto simp: bfs_inv_def)
qed

lemma bfs_step:
  assumes "bfs_inv h r k seen ((p, w) # Q)" "mealy_wf h" "mealy_wf r" "m_k h = k" "m_k r = k"
    and same: "\<forall>a<k. same_out h r p a \<and> both_nxt h r p a \<in> seen \<union> fst ` set N"
    and new: "\<forall>(s, u)\<in>set N. \<exists>a<k. s = both_nxt h r p a \<and> u = w @ [a]" "fst ` set N \<inter> seen = {}"
  shows "bfs_inv h r k (seen \<union> fst ` set N) (Q @ N)"
proof -
  let ?S = "seen \<union> fst ` set N" and ?Q = "Q @ N"
  have head: "p = at h r w" "over k w" "agree h r w" "p \<in> seen" using assms(1) by (auto simp: bfs_inv_def)
  have old: "s = at h r u \<and> over k u \<and> agree h r u \<and> s \<in> seen \<and> length u \<le> length w + 1 \<and> length w \<le> length u
      \<and> shortest h r k s u" if "(s, u) \<in> set Q" for s u
  proof -
    have m: "(s, u) \<in> set ((p, w) # Q)" "sorted (map (length \<circ> snd) ((p, w) # Q))" using that assms(1) by (simp_all add: bfs_inv_def)
    note en = bfs_entry [OF assms(1) m(1)]
    have "length w \<le> length u" using sorted_hd_le [OF m(2,1)] by simp
    moreover have "length u \<le> length w + 1" using en(5) by simp
    ultimately show ?thesis using en(1-4) en(6) by blast
  qed
  have seenw: "at h r v \<in> seen" if "over k v" "length v \<le> length w" for v using assms(1) that by (simp add: bfs_inv_def)
  have fresh: "s = at h r u \<and> over k u \<and> agree h r u \<and> length u = length w + 1
      \<and> shortest h r k s u" if su: "(s, u) \<in> set N" for s u
  proof -
    obtain a where a: "a < k" "s = both_nxt h r p a" "u = w @ [a]" using new(1) su by blast
    have "s \<notin> seen" using new(2) su by force
    then have "shortest h r k s u" unfolding shortest_def using seenw a(3) by (metis length_append_singleton not_less_eq_eq)
    then show ?thesis using a head same by (simp add: at_snoc agree_snoc)
  qed
  have lens: "length w \<le> length u \<and> length u \<le> length w + 1" if "(s, u) \<in> set ?Q" for s u using that old fresh by fastforce
  have min: "length u \<le> length v" if "(s, u) \<in> set ?Q" "over k v" "at h r v = s" for s u v
    using that old [of s u] fresh [of s u] by (auto simp: shortest_def)
  have expl: "same_out h r q a \<and> both_nxt h r q a \<in> ?S" if "q \<in> ?S - fst ` set ?Q" "a < k" for q a
  proof (cases "q = p")
    case False
    then have "q \<in> seen - fst ` set ((p, w) # Q)" using that(1) by auto
    then show ?thesis using assms(1) that(2) unfolding bfs_inv_def by blast
  qed (use same that(2) in simp)
  have "sorted (map (length \<circ> snd) Q)" using assms(1) by (simp add: bfs_inv_def)
  moreover have "map (length \<circ> snd) N = map (\<lambda>_. length w + 1) N"
    using fresh by (intro map_cong refl) (metis comp_apply prod.collapse)
  then have "sorted (map (length \<circ> snd) N)" by (simp only: map_replicate_const sorted_replicate)
  moreover have "length (snd x) \<le> length (snd y)" if "x \<in> set Q" "y \<in> set N" for x y
    using that old [of "fst x" "snd x"] fresh [of "fst y" "snd y"] by simp
  ultimately have srt: "sorted (map (length \<circ> snd) ?Q)" by (auto simp: sorted_append)
  have level: "at h r v \<in> ?S" if v: "over k v" "length v \<le> length (snd (hd ?Q))" and ne: "?Q \<noteq> []" for v
  proof (cases "length v \<le> length w")
    case False
    have hd: "(fst (hd ?Q), snd (hd ?Q)) \<in> set ?Q" using hd_in_set [OF ne] by (simp only: prod.collapse)
    then have l: "length v = length w + 1" "length (snd (hd ?Q)) = length w + 1" using lens [OF hd] v(2) False by auto
    then obtain u a where u: "v = u @ [a]" by (cases v rule: rev_cases) auto
    then have "at h r u \<in> seen" "a < k" "over k u" "length u = length w" using seenw v(1) l by auto
    moreover have "at h r u \<notin> fst ` set ?Q"
    proof
      assume "at h r u \<in> fst ` set ?Q"
      then obtain x where x: "(at h r u, x) \<in> set ?Q" by (metis imageE prod.collapse)
      then have "length x \<le> length w" using min [OF x \<open>over k u\<close> refl] \<open>length u = length w\<close> by simp
      moreover have "length (snd (hd ?Q)) \<le> length x"
        using sorted_hd_le [OF srt x] by simp
      ultimately show False using l(2) by simp
    qed
    ultimately show ?thesis using expl [of "at h r u" a] u by (simp add: at_snoc)
  qed (use seenw v in auto)
  have range: "fst ` set N \<subseteq> {..<m_n h} \<times> {..<m_n r}"
  proof
    fix s assume "s \<in> fst ` set N"
    then obtain a where "a < k" "s = both_nxt h r p a" using new(1) by force
    moreover have "p \<in> {..<m_n h} \<times> {..<m_n r}" using head(4) assms(1) unfolding bfs_inv_def by blast
    ultimately show "s \<in> {..<m_n h} \<times> {..<m_n r}" using assms(2-5) by (auto simp: both_nxt_def mealy_wf_def)
  qed
  have ok: "s = at h r u \<and> over k u \<and> agree h r u \<and> s \<in> ?S \<and> length u \<le> length (snd (hd ?Q)) + 1
      \<and> shortest h r k s u" if su: "(s, u) \<in> set ?Q" for s u
  proof -
    have "?Q \<noteq> []" using su by auto
    then have "(fst (hd ?Q), snd (hd ?Q)) \<in> set ?Q" using hd_in_set by (simp only: prod.collapse)
    then have "length u \<le> length (snd (hd ?Q)) + 1" using lens [OF su] lens by fastforce
    then show ?thesis using su old [of s u] fresh [of s u] by force
  qed
  show ?thesis unfolding bfs_inv_def
  proof (intro conjI)
    show "\<forall>(p, w)\<in>set ?Q. p = at h r w \<and> over k w \<and> agree h r w \<and> p \<in> ?S \<and> length w \<le> length (snd (hd ?Q)) + 1
        \<and> shortest h r k p w" using ok by blast
    show "?S \<subseteq> {..<m_n h} \<times> {..<m_n r}" "(0, 0) \<in> ?S" using assms(1) range by (auto simp: bfs_inv_def)
    show "\<forall>p\<in>?S - fst ` set ?Q. \<forall>a<k. same_out h r p a \<and> both_nxt h r p a \<in> ?S" using expl by blast
    show "?Q \<noteq> [] \<longrightarrow> (\<forall>v. over k v \<longrightarrow> length v \<le> length (snd (hd ?Q)) \<longrightarrow> at h r v \<in> ?S)" using level by blast
  qed (rule srt)
qed

lemma bfs_measure:
  assumes "seen \<union> fst ` set N \<subseteq> {..<n} \<times> {..<k}" "fst ` set N \<inter> seen = {}" "distinct (map fst N)"
  shows "n * k - card (seen \<union> fst ` set N) + length (Q @ N) < n * k - card seen + length (e # Q)"
proof -
  have fin: "finite (seen \<union> fst ` set N)" "card (seen \<union> fst ` set N) \<le> n * k"
    using finite_subset [OF assms(1)] card_mono [OF _ assms(1)] by auto
  have "card (fst ` set N) = length N" using assms(3) by (metis distinct_card length_map list.set_map)
  then have "card (seen \<union> fst ` set N) = card seen + length N" using fin(1) assms(2) by (subst card_Un_disjoint) auto
  then show ?thesis using fin(2) by simp
qed

lemma bfs_loop_spec:
  assumes "bfs_inv h r k seen Q" "mealy_wf h" "mealy_wf r" "m_k h = k" "m_k r = k"
  shows "\<exists>res. bfs_loop h r k seen Q = Some res
    \<and> (case res of None \<Rightarrow> \<forall>v. over k v \<longrightarrow> agree h r v
       | Some c \<Rightarrow> over k c \<and> \<not> agree h r c \<and> (\<forall>v. over k v \<longrightarrow> \<not> agree h r v \<longrightarrow> length c \<le> length v))"
  using assms(1)
proof (induction "m_n h * m_n r - card seen + length Q" arbitrary: seen Q rule: less_induct)
  case less
  show ?case
  proof (cases Q)
    case Nil
    have all: "\<forall>p\<in>seen. \<forall>a<k. same_out h r p a \<and> both_nxt h r p a \<in> seen" "(0, 0) \<in> seen"
      using less.prems Nil by (auto simp: bfs_inv_def)
    have "at h r v \<in> seen \<and> agree h r v" if "over k v" for v
      using that
    proof (induction v rule: rev_induct)
      case (snoc a v)
      then show ?case using all(1) by (simp add: at_snoc agree_snoc)
    qed (use all(2) in \<open>simp add: at_def agree_def\<close>)
    then show ?thesis using Nil by (subst bfs_loop.simps) simp
  next
    case (Cons e Q')
    obtain p w where e: "e = (p, w)" by (cases e)
    have inv: "bfs_inv h r k seen ((p, w) # Q')" using less.prems Cons e by simp
    have pw: "p = at h r w" "over k w" "agree h r w" using inv by (auto simp: bfs_inv_def)
    from bfs_expand_cases [of "[0..<k]" h r p w seen Q'] show ?thesis
    proof (elim disjE bexE exE conjE)
      fix a assume a: "a \<in> set [0..<k]" "bfs_expand h r p w [0..<k] seen Q' = Inl (w @ [a])" "\<not> same_out h r p a"
      have "length (w @ [a]) \<le> length v" if v: "over k v" "\<not> agree h r v" for v
      proof -
        obtain u b x where u: "v = u @ b # x" "\<not> same_out h r (at h r u) b"
          using run_first_difference [of h 0 v r 0] v(2) by (auto simp: agree_def same_out_def at_def)
        then show ?thesis using bfs_explored [OF inv, of u b] v(1) by force
      qed
      then show ?thesis using Cons e a pw by (subst bfs_loop.simps) (auto simp: agree_snoc)
    next
      fix N assume N: "bfs_expand h r p w [0..<k] seen Q' = Inr (seen \<union> fst ` set N, Q' @ N)"
        "\<forall>a\<in>set [0..<k]. same_out h r p a \<and> both_nxt h r p a \<in> seen \<union> fst ` set N"
        "\<forall>(s, u)\<in>set N. \<exists>a\<in>set [0..<k]. s = both_nxt h r p a \<and> u = w @ [a]" "fst ` set N \<inter> seen = {}" "distinct (map fst N)"
      have inv': "bfs_inv h r k (seen \<union> fst ` set N) (Q' @ N)"
        by (rule bfs_step [OF inv assms(2-5)]) (use N in \<open>auto simp: case_prod_beta\<close>)
      then have "m_n h * m_n r - card (seen \<union> fst ` set N) + length (Q' @ N) < m_n h * m_n r - card seen + length Q"
        using bfs_measure [of seen N "m_n h" "m_n r" Q'] N(4,5) Cons by (simp add: bfs_inv_def)
      from less.hyps [OF this inv'] show ?thesis using Cons e N(1) by (subst bfs_loop.simps) simp
    qed
  qed
qed

lemma bfs_inv_start: "mealy_wf h \<Longrightarrow> mealy_wf r \<Longrightarrow> bfs_inv h r k {(0, 0)} [((0, 0), [])]"
  by (auto simp: bfs_inv_def at_def agree_def mealy_wf_def shortest_def)

subsection \<open>The partition\<close>

lemma card_image_coarser:
  assumes "finite A" "\<forall>s\<in>A. \<forall>t\<in>A. f s = f t \<longrightarrow> g s = g t"
  shows "card (g ` A) \<le> card (f ` A)"
    and "card (g ` A) = card (f ` A) \<Longrightarrow> \<forall>s\<in>A. \<forall>t\<in>A. g s = g t \<longrightarrow> f s = f t"
proof -
  define h where "h y = g (SOME s. s \<in> A \<and> f s = y)" for y
  have h: "h (f s) = g s" if "s \<in> A" for s
  proof -
    let ?x = "SOME x. x \<in> A \<and> f x = f s"
    have "?x \<in> A \<and> f ?x = f s" by (rule someI [of "\<lambda>x. x \<in> A \<and> f x = f s" s]) (use that in simp)
    then show ?thesis using assms(2) that unfolding h_def by blast
  qed
  then have im: "g ` A = h ` (f ` A)" by (force simp: image_image)
  then show "card (g ` A) \<le> card (f ` A)" using assms(1) by (simp add: card_image_le)
  show "\<forall>s\<in>A. \<forall>t\<in>A. g s = g t \<longrightarrow> f s = f t" if c: "card (g ` A) = card (f ` A)"
  proof (intro ballI impI)
    fix s t assume st: "s \<in> A" "t \<in> A" "g s = g t"
    have "inj_on h (f ` A)" using c im assms(1) by (simp add: eq_card_imp_inj_on)
    then show "f s = f t" using st h by (metis image_eqI inj_onD)
  qed
qed

lemma card_image_same:
  assumes "finite A" "\<forall>s\<in>A. \<forall>t\<in>A. f s = f t \<longleftrightarrow> g s = g t"
  shows "card (f ` A) = card (g ` A)"
  using card_image_coarser(1) [OF assms(1), of f g] card_image_coarser(1) [OF assms(1), of g f] assms(2)
  by (meson le_antisym)

lemma number_bij:
  assumes "distinct (map fst sig)" "map snd sig = rev [0..<length sig]"
  shows "\<exists>f. fst (number sig xs) = map f xs \<and> bij_betw f (fst ` set sig \<union> set xs) {..<snd (number sig xs)}
    \<and> (\<forall>(x, i)\<in>set sig. f x = i)"
  using assms
proof (induction sig xs rule: number.induct)
  case (1 sig)
  let ?f = "\<lambda>x. the (map_of sig x)"
  have v: "?f x = i" if "(x, i) \<in> set sig" for x i using that 1(1) by simp
  then have f: "map ?f (map fst sig) = map snd sig" by (auto simp: list_eq_iff_nth_eq)
  have "set (map snd sig) = {..<length sig}" unfolding 1(2) by auto
  then have "?f ` fst ` set sig = {..<length sig}" using f by (metis list.set_map)
  moreover have "distinct (map ?f (map fst sig))" unfolding f 1(2) by simp
  then have "inj_on ?f (fst ` set sig)" by (metis distinct_map list.set_map)
  ultimately show ?case using v by (intro exI [of _ ?f]) (auto simp: bij_betw_def)
next
  case (2 sig x xs)
  show ?case
  proof (cases "map_of sig x")
    case (Some i)
    then obtain f where "fst (number sig xs) = map f xs" "bij_betw f (fst ` set sig \<union> set xs) {..<snd (number sig xs)}"
      "\<forall>(x, i)\<in>set sig. f x = i" using 2(2) [OF Some] 2(3,4) by blast
    moreover have "(x, i) \<in> set sig" using Some by (rule map_of_SomeD)
    moreover from this have "fst ` set sig \<union> set (x # xs) = fst ` set sig \<union> set xs" by force
    ultimately show ?thesis using Some by (intro exI [of _ f]) (auto simp: case_prod_beta)
  next
    case None
    let ?sig = "(x, length sig) # sig"
    have "distinct (map fst ?sig)" "map snd ?sig = rev [0..<length ?sig]" using None 2(3,4) by (simp_all add: map_of_eq_None_iff)
    then obtain f where "fst (number ?sig xs) = map f xs" "bij_betw f (fst ` set ?sig \<union> set xs) {..<snd (number ?sig xs)}"
      "\<forall>(x, i)\<in>set ?sig. f x = i" using 2(1) [OF None] by blast
    moreover have "fst ` set ?sig \<union> set xs = fst ` set sig \<union> set (x # xs)" by auto
    ultimately show ?thesis using None by (intro exI [of _ f]) (auto simp: case_prod_beta)
  qed
qed

lemma number_classes:
  assumes "number [] xs = (r, c)"
  shows "length r = length xs" "set r = {..<c}" "i < length xs \<Longrightarrow> j < length xs \<Longrightarrow> r ! i = r ! j \<longleftrightarrow> xs ! i = xs ! j"
proof -
  obtain f where f: "r = map f xs" "bij_betw f (set xs) {..<c}" using number_bij [of "[]" xs] assms by auto
  then show "length r = length xs" "set r = {..<c}" by (simp_all add: bij_betw_def)
  show "r ! i = r ! j \<longleftrightarrow> xs ! i = xs ! j" if "i < length xs" "j < length xs"
    using that f by (auto simp: bij_betw_def dest: inj_onD)
qed

definition eqv :: "mealy \<Rightarrow> nat \<Rightarrow> nat \<Rightarrow> nat \<Rightarrow> bool" where
  "eqv m i s t \<longleftrightarrow> (\<forall>w. over (m_k m) w \<longrightarrow> length w \<le> i \<longrightarrow> mealy_run m s w = mealy_run m t w)"

lemma eqv_Suc: "eqv m (Suc i) s t \<longleftrightarrow> (\<forall>a<m_k m. outp m s a = outp m t a \<and> eqv m i (nxt m s a) (nxt m t a))"
proof
  assume l: "eqv m (Suc i) s t"
  show "\<forall>a<m_k m. outp m s a = outp m t a \<and> eqv m i (nxt m s a) (nxt m t a)"
  proof (intro allI impI conjI)
    fix a assume a: "a < m_k m"
    have c: "mealy_run m s (a # w) = mealy_run m t (a # w)" if "over (m_k m) w" "length w \<le> i" for w
      using l a that unfolding eqv_def by (metis Suc_le_mono insert_subset lessThan_iff length_Cons list.set(2))
    show "outp m s a = outp m t a" using c [of "[]"] by simp
    show "eqv m i (nxt m s a) (nxt m t a)" unfolding eqv_def using c by simp
  qed
next
  assume r: "\<forall>a<m_k m. outp m s a = outp m t a \<and> eqv m i (nxt m s a) (nxt m t a)"
  show "eqv m (Suc i) s t" unfolding eqv_def
  proof (intro allI impI)
    fix w assume "over (m_k m) w" "length w \<le> Suc i"
    then show "mealy_run m s w = mealy_run m t w" using r by (cases w) (auto simp: eqv_def)
  qed
qed

lemma eqv_one: "eqv m (Suc 0) s t \<longleftrightarrow> (\<forall>a<m_k m. outp m s a = outp m t a)"
  by (simp add: eqv_Suc) (simp add: eqv_def)

lemma eqv_less: "eqv m j s t \<Longrightarrow> i \<le> j \<Longrightarrow> eqv m i s t"
  unfolding eqv_def using le_trans by blast

text \<open>The partition of the states by the words of at most \<open>i\<close> symbols.\<close>

definition partition_at :: "mealy \<Rightarrow> nat \<Rightarrow> nat list \<Rightarrow> nat \<Rightarrow> bool" where
  "partition_at m i cls c \<longleftrightarrow> length cls = m_n m \<and> set cls = {..<c}
     \<and> (\<forall>s<m_n m. \<forall>t<m_n m. cls ! s = cls ! t \<longleftrightarrow> eqv m i s t)"

lemma partition_card: "partition_at m i cls c \<Longrightarrow> card ((\<lambda>s. cls ! s) ` {..<m_n m}) = c"
  unfolding partition_at_def by (metis atLeast0LessThan card_lessThan list.set_map map_nth set_upt)

lemma max_element_bounds: "foldl max a xs \<in> insert a (set xs) \<and> a \<le> foldl max a xs \<and> (\<forall>x\<in>set xs. x \<le> foldl max (a :: nat) xs)"
proof (induction xs arbitrary: a)
  case (Cons x xs)
  show ?case using Cons.IH [of "max a x"] by (auto simp: max_def split: if_splits)
qed simp

lemma partition_max:
  assumes "partition_at m i cls c" "0 < m_n m"
  shows "max_element cls + 1 = c"
proof -
  have "cls \<noteq> []" "set cls = {..<c}" using assms by (auto simp: partition_at_def)
  moreover have "max_element cls \<in> insert 0 (set cls)" "\<forall>x\<in>set cls. x \<le> max_element cls"
    using max_element_bounds [of 0 cls] by (auto simp: max_element_def)
  ultimately have "max_element cls < c" "\<forall>x<c. x \<le> max_element cls" by (auto simp: set_empty [symmetric] simp del: set_empty)
  then show ?thesis by (cases c) (auto simp: le_antisym less_Suc_eq_le)
qed

lemma partition_first:
  assumes "mealy_wf m" "number [] (map (\<lambda>s. m_o m ! s) [0..<m_n m]) = (cls, c)"
  shows "partition_at m 1 cls c"
proof -
  have "cls ! s = cls ! t \<longleftrightarrow> eqv m 1 s t" if "s < m_n m" "t < m_n m" for s t
    using number_classes(3) [OF assms(2), of s t] that assms(1) by (auto simp: eqv_one list_eq_iff_nth_eq mealy_wf_def)
  then show ?thesis using number_classes(1,2) [OF assms(2)] by (simp add: partition_at_def)
qed

lemma partition_split:
  assumes "mealy_wf m" "partition_at m (Suc i) cls c" "split_classes m cls = (nc, c')"
  shows "partition_at m (Suc (Suc i)) nc c'"
proof -
  note n = number_classes [OF assms(3) [unfolded split_classes_def]]
  have "nc ! s = nc ! t \<longleftrightarrow> eqv m (Suc (Suc i)) s t" if st: "s < m_n m" "t < m_n m" for s t
  proof -
    have "nc ! s = nc ! t \<longleftrightarrow> cls ! s = cls ! t \<and> (\<forall>a<m_k m. cls ! nxt m s a = cls ! nxt m t a)"
      using n(3) [of s t] st by auto
    also have "\<dots> \<longleftrightarrow> eqv m (Suc i) s t \<and> (\<forall>a<m_k m. eqv m (Suc i) (nxt m s a) (nxt m t a))"
      using assms(1,2) st by (simp add: partition_at_def mealy_wf_def)
    also have "\<dots> \<longleftrightarrow> eqv m (Suc (Suc i)) s t" using eqv_less [of m "Suc (Suc i)" s t "Suc i"] by (auto simp: eqv_Suc)
    finally show ?thesis .
  qed
  then show ?thesis using n(1,2) by (simp add: partition_at_def)
qed

lemma eqv_stable:
  assumes "mealy_wf m" "\<forall>s<m_n m. \<forall>t<m_n m. eqv m i s t \<longrightarrow> eqv m (Suc i) s t" "s < m_n m" "t < m_n m" "eqv m i s t"
  shows "eqv m (i + j) s t"
  using assms(3-5)
proof (induction j arbitrary: s t)
  case (Suc j)
  then have "eqv m (Suc i) s t" using assms(2) by blast
  then show ?case using Suc assms(1) by (simp add: eqv_Suc mealy_wf_def)
qed simp

definition behaviour :: "mealy \<Rightarrow> nat \<Rightarrow> word_in \<Rightarrow> out_word" where
  "behaviour m s = (\<lambda>w. if over (m_k m) w then mealy_run m s w else [])"

lemma behaviour_eq_iff: "behaviour m s = behaviour m t \<longleftrightarrow> (\<forall>j. eqv m j s t)"
  unfolding behaviour_def eqv_def by (auto simp: fun_eq_iff)

lemma refine_loop_spec:
  assumes "mealy_wf m" "partition_at m (Suc i) cls c"
  shows "\<exists>nc. refine_loop m cls = Some nc \<and> max_element nc + 1 = card (behaviour m ` {..<m_n m})"
  using assms(2)
proof (induction "m_n m - c" arbitrary: i cls c rule: less_induct)
  case less
  have n: "0 < m_n m" using assms(1) by (simp add: mealy_wf_def)
  obtain nc c' where s: "split_classes m cls = (nc, c')" by (cases "split_classes m cls")
  have p: "partition_at m (Suc (Suc i)) nc c'" by (rule partition_split [OF assms(1) less.prems s])
  have c: "card ((\<lambda>s. cls ! s) ` {..<m_n m}) = c" "card ((\<lambda>s. nc ! s) ` {..<m_n m}) = c'"
    using partition_card less.prems p by blast+
  have coarse: "\<forall>s\<in>{..<m_n m}. \<forall>t\<in>{..<m_n m}. nc ! s = nc ! t \<longrightarrow> cls ! s = cls ! t"
    using less.prems p eqv_less [of m "Suc (Suc i)" _ _ "Suc i"] by (simp add: partition_at_def)
  note co = card_image_coarser [OF finite_lessThan coarse, unfolded c]
  show ?case
  proof (cases "c' = c")
    case True
    have "eqv m (Suc i) s t \<longrightarrow> eqv m (Suc (Suc i)) s t" if st: "s < m_n m" "t < m_n m" for s t
    proof -
      have "cls ! s = cls ! t \<Longrightarrow> nc ! s = nc ! t" using co(2) [OF True [symmetric]] st by blast
      then show ?thesis using st less.prems p by (simp add: partition_at_def)
    qed
    then have stable: "eqv m (Suc (Suc i)) s t \<Longrightarrow> eqv m j s t" if "s < m_n m" "t < m_n m" for s t j
      using eqv_stable [OF assms(1), of "Suc i" s t j] eqv_less [of m "Suc i + j" s t j] eqv_less [of m "Suc (Suc i)" s t "Suc i"] that
      by simp
    then have "\<forall>s\<in>{..<m_n m}. \<forall>t\<in>{..<m_n m}. nc ! s = nc ! t \<longleftrightarrow> behaviour m s = behaviour m t"
      using p by (auto simp: partition_at_def behaviour_eq_iff)
    then have "c' = card (behaviour m ` {..<m_n m})" using card_image_same [OF finite_lessThan, of "m_n m" "\<lambda>s. nc ! s" "behaviour m"] c(2) by blast
    then show ?thesis using True s partition_max [OF p n] partition_max [OF less.prems n] by (subst refine_loop.simps) simp
  next
    case False
    moreover have "c' \<le> m_n m" using c(2) card_image_le [of "{..<m_n m}" "\<lambda>s. nc ! s"] by simp
    ultimately have "m_n m - c' < m_n m - c" using co(1) by simp
    from less.hyps [OF this p] show ?thesis using False s partition_max [OF less.prems n] by (subst refine_loop.simps) simp
  qed
qed

lemma eqPerfect_spec:
  assumes "mealy_wf h" "mealy_wf r" "m_k h = k" "m_k r = k"
  shows "\<exists>res. eqPerfect h r k = Some res
    \<and> (case res of None \<Rightarrow> \<forall>v. over k v \<longrightarrow> mealy_run h 0 v = mealy_run r 0 v
       | Some c \<Rightarrow> over k c \<and> mealy_run h 0 c \<noteq> mealy_run r 0 c)"
  using bfs_loop_spec [OF bfs_inv_start [OF assms(1,2)] assms] unfolding eqPerfect_def agree_def by (fastforce split: option.split_asm)

subsection \<open>Properties\<close>

text \<open>
  The comparison of a hypothesis with the reference machine always ends; it finds nothing exactly when the two
  machines answer every word alike, and a word it finds separates them and is as short as any that does.
\<close>

lemma separating_word_shortest:
  assumes "mealy_wf h" "mealy_wf r" "m_k h = k" "m_k r = k"
  shows "\<exists>res. eqPerfect h r k = Some res
    \<and> (res = None \<longleftrightarrow> (\<forall>v. over k v \<longrightarrow> mealy_run h 0 v = mealy_run r 0 v))
    \<and> (\<forall>c. res = Some c \<longrightarrow> over k c \<and> mealy_run h 0 c \<noteq> mealy_run r 0 c
         \<and> (\<forall>v. over k v \<longrightarrow> mealy_run h 0 v \<noteq> mealy_run r 0 v \<longrightarrow> length c \<le> length v))"
proof -
  obtain res where "eqPerfect h r k = Some res"
    "case res of None \<Rightarrow> \<forall>v. over k v \<longrightarrow> agree h r v
     | Some c \<Rightarrow> over k c \<and> \<not> agree h r c \<and> (\<forall>v. over k v \<longrightarrow> \<not> agree h r v \<longrightarrow> length c \<le> length v)"
    using bfs_loop_spec [OF bfs_inv_start [OF assms(1,2)] assms] unfolding eqPerfect_def by blast
  then show ?thesis unfolding agree_def by (cases res) auto
qed

lemma tcpServer_tables:
  "tcpServer = \<lparr>m_n = 10, m_k = 6,
    m_d = [[1, 0, 0, 0, 0, 9], [1, 2, 3, 0, 1, 5], [2, 2, 3, 9, 2, 5], [3, 3, 3, 9, 3, 4], [4, 9, 4, 9, 4, 4],
      [5, 6, 7, 9, 5, 5], [6, 6, 8, 9, 6, 6], [7, 8, 7, 9, 7, 7], [8, 8, 8, 8, 8, 8], [9, 9, 9, 9, 9, 9]],
    m_o = [[1, 3, 0, 0, 3, 0], [0, 0, 2, 0, 0, 4], [2, 0, 2, 0, 2, 4], [2, 0, 2, 0, 2, 4], [2, 0, 2, 0, 0, 0],
      [2, 0, 2, 0, 2, 0], [2, 0, 2, 0, 2, 0], [2, 0, 2, 0, 0, 0], [2, 0, 2, 0, 0, 0], [3, 3, 3, 0, 3, 0]],
    m_chal = (let plain = replicate 6 False; probed = True # replicate 5 False
      in [plain, plain, probed, probed, probed, probed, probed, probed, probed, plain])\<rparr>"
  by code_simp

text \<open>
  Partition refinement always ends, and the size it reports is the number of states that some
  word tells apart.
\<close>

lemma minimal_size_exact:
  assumes "mealy_wf m"
  shows "minimalSize m = Some (card (behaviour m ` {..<m_n m}))"
proof -
  obtain cls c where n: "number [] (map (\<lambda>s. m_o m ! s) [0..<m_n m]) = (cls, c)" by fastforce
  have "partition_at m (Suc 0) cls c" using partition_first [OF assms n] by simp
  from refine_loop_spec [OF assms this] n show ?thesis by (auto simp: minimalSize_def)
qed

lemma tcpServer_wf: "mealy_wf tcpServer"
  by (simp add: mealy_wf_def tcpServer_tables Let_def All_less_Suc numeral_eq_Suc)

lemma minimal_size_exact_witness: "minimalSize tcpServer = Some (card (behaviour tcpServer ` {..<m_n tcpServer}))"
  by (rule minimal_size_exact) (rule tcpServer_wf)

text \<open>A hypothesis of one state that answers as the server does before its first SYN.\<close>

definition listen_only :: mealy where
  "listen_only = \<lparr>m_n = 1, m_k = 6, m_d = [[0, 0, 0, 0, 0, 0]], m_o = [[1, 3, 0, 0, 3, 0]], m_chal = [replicate 6 False]\<rparr>"

end
