(* ===== verification/Oracle.thy ===== *)
theory Oracle
  imports Mealy Complex_Main
begin

text \<open>
  The systems under learning of \<^verbatim>\<open>reference/salvage/lstar.cpp\<close>, the prefix-closed cache of their answers and
  the membership oracle over both. The virtual methods of a system are a record of functions over
  its state; the generator of random numbers is a parameter, so that what is proved holds for each. The log of contradictions, which
  is only printed, is not represented; its counters are.
\<close>

record 'x sul_ops =
  sul_reset :: "'x \<Rightarrow> 'x"
  sul_step :: "nat \<Rightarrow> 'x \<Rightarrow> int \<times> 'x"
  sul_resets :: "'x \<Rightarrow> nat"
  sul_steps :: "'x \<Rightarrow> nat"

subsection \<open>Systems\<close>

record ref_sul =
  su_resets :: nat
  su_steps :: nat
  su_cur :: nat

definition RefSUL :: ref_sul where "RefSUL = \<lparr>su_resets = 0, su_steps = 0, su_cur = 0\<rparr>"

definition sul_restart :: "'e ref_sul_scheme \<Rightarrow> 'e ref_sul_scheme" where
  "sul_restart x = x\<lparr>su_resets := su_resets x + 1, su_cur := 0\<rparr>"

definition ref_step :: "mealy \<Rightarrow> nat \<Rightarrow> ref_sul \<Rightarrow> int \<times> ref_sul" where
  "ref_step m a x =
     (let x = x\<lparr>su_steps := su_steps x + 1\<rparr>; out = outp m (su_cur x) a
      in (out, x\<lparr>su_cur := nxt m (su_cur x) a\<rparr>))"

definition ref_ops :: "mealy \<Rightarrow> ref_sul sul_ops" where
  "ref_ops m = \<lparr>sul_reset = sul_restart, sul_step = ref_step m, sul_resets = su_resets, sul_steps = su_steps\<rparr>"

record challenge_sul = ref_sul +
  ch_limit :: int
  ch_period :: nat
  ch_g :: nat
  ch_epoch :: int
  ch_tokens :: int
  ch_suppressed :: nat
  ch_granted :: nat

definition ChallengeSUL :: "int \<Rightarrow> nat \<Rightarrow> challenge_sul" where
  "ChallengeSUL limit per =
     \<lparr>su_resets = 0, su_steps = 0, su_cur = 0, ch_limit = limit, ch_period = per, ch_g = 0, ch_epoch = - 1, ch_tokens = 0,
      ch_suppressed = 0, ch_granted = 0\<rparr>"

definition challenge_refill :: "challenge_sul \<Rightarrow> challenge_sul" where
  "challenge_refill x =
     (let x = x\<lparr>su_steps := su_steps x + 1\<rparr>;
          e = int (ch_g x div ch_period x);
          x = x\<lparr>ch_g := ch_g x + 1\<rparr>
      in if e \<noteq> ch_epoch x then x\<lparr>ch_epoch := e, ch_tokens := ch_limit x\<rparr> else x)"

definition challenge_step :: "mealy \<Rightarrow> nat \<Rightarrow> challenge_sul \<Rightarrow> int \<times> challenge_sul" where
  "challenge_step m a x =
     (let x = challenge_refill x;
          (out, x) =
            (if m_chal m ! su_cur x ! a then
               (if ch_tokens x > 0
                then (outp m (su_cur x) a, x\<lparr>ch_tokens := ch_tokens x - 1, ch_granted := ch_granted x + 1\<rparr>)
                else (O_SILENT, x\<lparr>ch_suppressed := ch_suppressed x + 1\<rparr>))
             else (outp m (su_cur x) a, x))
      in (out, x\<lparr>su_cur := nxt m (su_cur x) a\<rparr>))"

definition challenge_ops :: "mealy \<Rightarrow> challenge_sul sul_ops" where
  "challenge_ops m = \<lparr>sul_reset = sul_restart, sul_step = challenge_step m, sul_resets = su_resets, sul_steps = su_steps\<rparr>"

record 'r flaky_sul = ref_sul +
  fl_rng :: 'r
  fl_lost :: nat

text \<open>\<open>uniform\<close> draws from the half-open unit interval.\<close>

definition flaky_step :: "('r \<Rightarrow> real \<times> 'r) \<Rightarrow> real \<Rightarrow> mealy \<Rightarrow> nat \<Rightarrow> 'r flaky_sul \<Rightarrow> int \<times> 'r flaky_sul" where
  "flaky_step uniform p m a x =
     (let x = x\<lparr>su_steps := su_steps x + 1\<rparr>; out = outp m (su_cur x) a; x = x\<lparr>su_cur := nxt m (su_cur x) a\<rparr>
      in if out \<noteq> O_SILENT then
           (let (u, rng) = uniform (fl_rng x); x = x\<lparr>fl_rng := rng\<rparr>
            in if u < p then (O_SILENT, x\<lparr>fl_lost := fl_lost x + 1\<rparr>) else (out, x))
         else (out, x))"

definition detbug_step :: "mealy \<Rightarrow> nat \<Rightarrow> ref_sul \<Rightarrow> int \<times> ref_sul" where
  "detbug_step m a x =
     (let x = x\<lparr>su_steps := su_steps x + 1\<rparr>; out = outp m (su_cur x) a; c = m_chal m ! su_cur x ! a;
          x = x\<lparr>su_cur := nxt m (su_cur x) a\<rparr>
      in (if c then O_SILENT else out, x))"

definition detbug_ops :: "mealy \<Rightarrow> ref_sul sul_ops" where
  "detbug_ops m = \<lparr>sul_reset = sul_restart, sul_step = detbug_step m, sul_resets = su_resets, sul_steps = su_steps\<rparr>"

subsection \<open>The cache\<close>

record cache_node =
  nd_child :: "int list"
  nd_out :: "int list"

definition Node :: "nat \<Rightarrow> cache_node" where "Node k = \<lparr>nd_child = replicate k (- 1), nd_out = replicate k (- 1)\<rparr>"

record cache =
  ca_k :: nat
  ca_nodes :: "cache_node list"
  ca_hits :: nat
  ca_misses :: nat
  ca_hitSymbols :: nat
  ca_prefixAudits :: nat
  ca_contradictions :: nat

definition Cache :: "nat \<Rightarrow> cache" where
  "Cache k = \<lparr>ca_k = k, ca_nodes = [Node k], ca_hits = 0, ca_misses = 0, ca_hitSymbols = 0, ca_prefixAudits = 0, ca_contradictions = 0\<rparr>"

abbreviation cchild :: "cache \<Rightarrow> nat \<Rightarrow> nat \<Rightarrow> int" where "cchild c u a \<equiv> nd_child (ca_nodes c ! u) ! a"
abbreviation cout :: "cache \<Rightarrow> nat \<Rightarrow> nat \<Rightarrow> int" where "cout c u a \<equiv> nd_out (ca_nodes c ! u) ! a"

primrec lookup_from :: "cache \<Rightarrow> nat \<Rightarrow> word_in \<Rightarrow> out_word option" where
  "lookup_from c u [] = Some []"
| "lookup_from c u (a # w) =
     (if cchild c u a < 0 then None else map_option (\<lambda>r. cout c u a # r) (lookup_from c (nat (cchild c u a)) w))"

definition cache_lookup :: "cache \<Rightarrow> word_in \<Rightarrow> out_word option" where
  "cache_lookup c w = lookup_from c 0 w"

text \<open>One symbol of an insertion at node \<open>u\<close>: a new edge, or a check of the one that is there.\<close>

definition cache_note :: "nat \<Rightarrow> nat \<Rightarrow> int \<Rightarrow> cache \<Rightarrow> cache" where
  "cache_note u a x c =
     (if cchild c u a < 0 then
        (let nd = ca_nodes c ! u
         in c\<lparr>ca_nodes := (ca_nodes c)[u := nd\<lparr>nd_child := (nd_child nd)[a := int (length (ca_nodes c))], nd_out := (nd_out nd)[a := x]\<rparr>]
                @ [Node (ca_k c)]\<rparr>)
      else
        (let c = c\<lparr>ca_prefixAudits := ca_prefixAudits c + 1\<rparr>
         in if cout c u a \<noteq> x then c\<lparr>ca_contradictions := ca_contradictions c + 1\<rparr> else c))"

primrec insert_from :: "nat \<Rightarrow> word_in \<Rightarrow> out_word \<Rightarrow> cache \<Rightarrow> cache" where
  "insert_from u [] os c = c"
| "insert_from u (a # w) os c =
     (let c = cache_note u a (hd os) c in insert_from (nat (cchild c u a)) w (tl os) c)"

definition cache_insert :: "word_in \<Rightarrow> out_word \<Rightarrow> cache \<Rightarrow> cache" where
  "cache_insert w os c = insert_from 0 w os c"

definition cache_edges :: "cache \<Rightarrow> nat" where
  "cache_edges c = sum_list (map (\<lambda>nd. length (filter (\<lambda>i. i \<ge> 0) (nd_child nd))) (ca_nodes c))"

subsection \<open>The membership oracle\<close>

record ('x, 'r) mem_oracle =
  or_sul :: 'x
  or_cache :: cache
  or_auditRate :: real
  or_repeats :: int
  or_mq :: nat
  or_voteDisagreements :: nat
  or_auditRuns :: nat
  or_auditContradictions :: nat
  or_rng :: 'r
  or_bypass :: bool

definition Oracle_new :: "'x \<Rightarrow> nat \<Rightarrow> 'r \<Rightarrow> ('x, 'r) mem_oracle" where
  "Oracle_new x k r =
     \<lparr>or_sul = x, or_cache = Cache k, or_auditRate = 0, or_repeats = 1, or_mq = 0, or_voteDisagreements = 0, or_auditRuns = 0,
      or_auditContradictions = 0, or_rng = r, or_bypass = False\<rparr>"

primrec sul_word :: "'x sul_ops \<Rightarrow> word_in \<Rightarrow> 'x \<Rightarrow> out_word \<times> 'x" where
  "sul_word P [] x = ([], x)"
| "sul_word P (a # w) x = (let (b, x) = sul_step P a x; (r, x) = sul_word P w x in (b # r, x))"

definition sul_raw :: "'x sul_ops \<Rightarrow> word_in \<Rightarrow> 'x \<Rightarrow> out_word \<times> 'x" where
  "sul_raw P w x = sul_word P w (sul_reset P x)"

primrec raw_runs :: "'x sul_ops \<Rightarrow> nat \<Rightarrow> word_in \<Rightarrow> 'x \<Rightarrow> out_word list \<times> 'x" where
  "raw_runs P 0 w x = ([], x)"
| "raw_runs P (Suc n) w x = (let (r, x) = sul_raw P w x; (rs, x) = raw_runs P n w x in (r # rs, x))"

text \<open>The values of one position, counted in increasing order: the first of the most frequent.\<close>

definition vote_one :: "int list \<Rightarrow> int" where
  "vote_one vs =
     fst (foldl (\<lambda>(best, bc) v. let c = int (count_list vs v) in if c > bc then (v, c) else (best, bc)) (- 1, - 1) (sort (remdups vs)))"

definition rawVoted :: "'x sul_ops \<Rightarrow> word_in \<Rightarrow> ('x, 'r) mem_oracle \<Rightarrow> out_word \<times> ('x, 'r) mem_oracle" where
  "rawVoted P w q =
     (if or_repeats q \<le> 1 then (let (r, x) = sul_raw P w (or_sul q) in (r, q\<lparr>or_sul := x\<rparr>))
      else
        (let (rs, x) = raw_runs P (nat (or_repeats q)) w (or_sul q);
             at_pos = (\<lambda>i. map (\<lambda>r. r ! i) rs);
             dis = (\<exists>i\<in>set [0..<length w]. length (remdups (at_pos i)) > 1);
             q = q\<lparr>or_sul := x\<rparr>
         in (map (\<lambda>i. vote_one (at_pos i)) [0..<length w],
             if dis then q\<lparr>or_voteDisagreements := or_voteDisagreements q + 1\<rparr> else q)))"

definition or_record :: "word_in \<Rightarrow> out_word \<Rightarrow> ('x, 'r) mem_oracle \<Rightarrow> ('x, 'r) mem_oracle" where
  "or_record w r q = q\<lparr>or_cache := cache_insert w r (or_cache q)\<rparr>"

definition or_missed :: "('x, 'r) mem_oracle \<Rightarrow> ('x, 'r) mem_oracle" where
  "or_missed q = q\<lparr>or_cache := (or_cache q)\<lparr>ca_misses := ca_misses (or_cache q) + 1\<rparr>\<rparr>"

definition or_hit :: "word_in \<Rightarrow> ('x, 'r) mem_oracle \<Rightarrow> ('x, 'r) mem_oracle" where
  "or_hit w q =
     q\<lparr>or_cache := (or_cache q)\<lparr>ca_hits := ca_hits (or_cache q) + 1, ca_hitSymbols := ca_hitSymbols (or_cache q) + length w\<rparr>\<rparr>"

definition or_audit :: "'x sul_ops \<Rightarrow> word_in \<Rightarrow> out_word \<Rightarrow> ('x, 'r) mem_oracle \<Rightarrow> ('x, 'r) mem_oracle" where
  "or_audit P w hit q =
     (let (fresh, q) = rawVoted P w (q\<lparr>or_auditRuns := or_auditRuns q + 1\<rparr>)
      in if fresh \<noteq> hit then q\<lparr>or_auditContradictions := or_auditContradictions q + 1\<rparr> else q)"

definition query :: "'x sul_ops \<Rightarrow> ('r \<Rightarrow> real \<times> 'r) \<Rightarrow> word_in \<Rightarrow> ('x, 'r) mem_oracle \<Rightarrow> out_word \<times> ('x, 'r) mem_oracle" where
  "query P uniform w q =
     (let q = q\<lparr>or_mq := or_mq q + 1\<rparr> in
      if or_bypass q then
        (let (fresh, q) = rawVoted P w q in (fresh, or_missed (or_record w fresh q)))
      else
        (case cache_lookup (or_cache q) w of
           Some hit \<Rightarrow>
             (let q = or_hit w q
              in if or_auditRate q > 0 then
                   (let (u, rng) = uniform (or_rng q); q = q\<lparr>or_rng := rng\<rparr>
                    in (hit, if u < or_auditRate q then or_audit P w hit q else q))
                 else (hit, q))
         | None \<Rightarrow>
             (let (fresh, q) = rawVoted P w (or_missed q) in (fresh, or_record w fresh q))))"

text \<open>A sequence of queries.\<close>

primrec ask_all ::
  "'x sul_ops \<Rightarrow> ('r \<Rightarrow> real \<times> 'r) \<Rightarrow> word_in list \<Rightarrow> ('x, 'r) mem_oracle \<Rightarrow> out_word list \<times> ('x, 'r) mem_oracle" where
  "ask_all P uniform [] q = ([], q)"
| "ask_all P uniform (w # ws) q =
     (let (r, q) = query P uniform w q; (rs, q) = ask_all P uniform ws q in (r # rs, q))"

subsection \<open>The cache as a map of words\<close>

definition arc :: "cache \<Rightarrow> nat \<Rightarrow> nat \<Rightarrow> (nat \<times> int) option" where
  "arc c u a = (if cchild c u a < 0 then None else Some (nat (cchild c u a), cout c u a))"

primrec node_from :: "cache \<Rightarrow> nat \<Rightarrow> word_in \<Rightarrow> nat option" where
  "node_from c u [] = Some u"
| "node_from c u (a # w) = Option.bind (arc c u a) (\<lambda>(v, x). node_from c v w)"

definition last_arc :: "cache \<Rightarrow> word_in \<Rightarrow> (nat \<times> int) option" where
  "last_arc c w = (if w = [] then None else Option.bind (node_from c 0 (butlast w)) (\<lambda>u. arc c u (last w)))"

text \<open>What the cache knows of a word: the output recorded for its last symbol.\<close>

definition known :: "cache \<Rightarrow> word_in \<Rightarrow> int option" where
  "known c w = map_option snd (last_arc c w)"

lemma node_from_append_one: "node_from c u (w @ [a]) = Option.bind (node_from c u w) (\<lambda>v. map_option fst (arc c v a))"
  by (induction w arbitrary: u) (auto split: bind_splits)

lemma last_arc_snoc: "last_arc c (w @ [a]) = Option.bind (node_from c 0 w) (\<lambda>u. arc c u a)"
  by (simp add: last_arc_def)

lemma node_from_snoc: "node_from c 0 (w @ [a]) = map_option fst (last_arc c (w @ [a]))"
  by (auto simp: node_from_append_one last_arc_snoc split: bind_splits)

lemma known_Nil [simp]: "known c [] = None"
  by (simp add: known_def last_arc_def)

lemma lookup_from_snoc:
  "lookup_from c u (w @ [a]) = Option.bind (lookup_from c u w) (\<lambda>r. Option.bind (node_from c u w)
     (\<lambda>v. map_option (\<lambda>y. r @ [snd y]) (arc c v a)))"
  by (induction w arbitrary: u) (auto simp: arc_def split: bind_splits)

lemma lookup_snoc:
  "cache_lookup c (w @ [a]) = Option.bind (cache_lookup c w) (\<lambda>r. map_option (\<lambda>x. r @ [x]) (known c (w @ [a])))"
  by (auto simp: cache_lookup_def lookup_from_snoc known_def last_arc_snoc case_prod_beta option.map_comp comp_def split: bind_splits)

lemma lookup_Nil [simp]: "cache_lookup c [] = Some []"
  by (simp add: cache_lookup_def)

lemma lookup_known:
  "cache_lookup c w = (if \<forall>i<length w. known c (take (Suc i) w) \<noteq> None
     then Some (map (\<lambda>i. the (known c (take (Suc i) w))) [0..<length w]) else None)"
proof (induction w rule: rev_induct)
  case (snoc a w)
  have t: "take (Suc i) (w @ [a]) = take (Suc i) w" if "i < length w" for i using that by simp
  show ?case
  proof (cases "known c (w @ [a])")
    case None
    then show ?thesis by (auto simp: lookup_snoc split: bind_splits intro!: exI [of _ "length w"])
  next
    case (Some x)
    have "(\<forall>i<length (w @ [a]). known c (take (Suc i) (w @ [a])) \<noteq> None) \<longleftrightarrow> (\<forall>i<length w. known c (take (Suc i) w) \<noteq> None)"
      using Some t by (auto simp: less_Suc_eq)
    moreover have "map (\<lambda>i. the (known c (take (Suc i) (w @ [a])))) [0..<length (w @ [a])]
        = map (\<lambda>i. the (known c (take (Suc i) w))) [0..<length w] @ [x]" using Some t by simp
    ultimately show ?thesis using snoc Some by (simp add: lookup_snoc)
  qed
qed simp

text \<open>The nodes form a tree: each has one word that leads to it.\<close>

definition cache_tree :: "cache \<Rightarrow> (nat \<Rightarrow> word_in) \<Rightarrow> bool" where
  "cache_tree c lab \<longleftrightarrow> ca_nodes c \<noteq> [] \<and> lab 0 = []
     \<and> (\<forall>u<length (ca_nodes c). length (nd_child (ca_nodes c ! u)) = ca_k c \<and> length (nd_out (ca_nodes c ! u)) = ca_k c
         \<and> (\<forall>a<ca_k c. 0 \<le> cchild c u a \<longrightarrow> nat (cchild c u a) < length (ca_nodes c) \<and> lab (nat (cchild c u a)) = lab u @ [a]))"

lemma node_lab: "cache_tree c lab \<Longrightarrow> over (ca_k c) w \<Longrightarrow> node_from c 0 w = Some u \<Longrightarrow> u < length (ca_nodes c) \<and> lab u = w"
proof (induction w arbitrary: u rule: rev_induct)
  case (snoc a w)
  then obtain v x where "node_from c 0 w = Some v" "arc c v a = Some (u, x)" "v < length (ca_nodes c)" "lab v = w"
    by (auto simp: node_from_snoc last_arc_snoc split: bind_splits)
  then show ?case using snoc.prems(1,2) by (auto simp: arc_def cache_tree_def split: if_splits)
qed (auto simp: cache_tree_def)

text \<open>The effect of a new edge on the nodes, and on the words.\<close>

lemma note_nodes:
  assumes "cache_tree c lab" "u < length (ca_nodes c)" "a < ca_k c" "cchild c u a < 0" "c' = cache_note u a x c" "n = length (ca_nodes c)"
  shows "s < n \<Longrightarrow> s \<noteq> u \<or> b \<noteq> a \<Longrightarrow> arc c' s b = arc c s b" "arc c' u a = Some (n, x)" "b < ca_k c \<Longrightarrow> arc c' n b = None"
    "s \<le> n \<Longrightarrow> length (nd_child (ca_nodes c' ! s)) = ca_k c \<and> length (nd_out (ca_nodes c' ! s)) = ca_k c"
    "length (ca_nodes c') = Suc n" "ca_k c' = ca_k c"
proof -
  let ?nd = "ca_nodes c ! u"
  have len: "length (nd_child ?nd) = ca_k c" "length (nd_out ?nd) = ca_k c" using assms(1,2) by (auto simp: cache_tree_def)
  have c': "ca_nodes c' = (ca_nodes c)[u := ?nd\<lparr>nd_child := (nd_child ?nd)[a := int n], nd_out := (nd_out ?nd)[a := x]\<rparr>] @ [Node (ca_k c)]"
    "ca_k c' = ca_k c" using assms(4-6) by (simp_all add: cache_note_def Let_def)
  then show "length (ca_nodes c') = Suc n" "ca_k c' = ca_k c" using assms(6) by auto
  show "arc c' s b = arc c s b" if "s < n" "s \<noteq> u \<or> b \<noteq> a"
    using that c' assms(6) by (cases "s = u") (auto simp: arc_def nth_append)
  show "arc c' u a = Some (n, x)" using c' assms(2,3,6) len by (auto simp: arc_def nth_append)
  show "arc c' n b = None" if "b < ca_k c" using c' that assms(6) by (simp add: arc_def nth_append Node_def)
  show "length (nd_child (ca_nodes c' ! s)) = ca_k c \<and> length (nd_out (ca_nodes c' ! s)) = ca_k c" if "s \<le> n"
    using that c' assms(1,6) len by (cases "s = n"; cases "s = u") (auto simp: nth_append cache_tree_def Node_def)
qed

lemma cache_tree_arcs:
  "cache_tree c lab \<longleftrightarrow> ca_nodes c \<noteq> [] \<and> lab 0 = []
     \<and> (\<forall>u<length (ca_nodes c). length (nd_child (ca_nodes c ! u)) = ca_k c \<and> length (nd_out (ca_nodes c ! u)) = ca_k c)
     \<and> (\<forall>u<length (ca_nodes c). \<forall>a<ca_k c. \<forall>v x. arc c u a = Some (v, x) \<longrightarrow> v < length (ca_nodes c) \<and> lab v = lab u @ [a])"
  unfolding cache_tree_def arc_def by auto

lemma note_new_edge:
  assumes "cache_tree c lab" "over (ca_k c) p" "node_from c 0 p = Some u" "a < ca_k c" "cchild c u a < 0"
    and "c' = cache_note u a x c" "n = length (ca_nodes c)"
  shows "cache_tree c' (lab(n := p @ [a]))"
    and "over (ca_k c) v \<Longrightarrow> last_arc c' v = (if v = p @ [a] then Some (n, x) else last_arc c v)"
proof -
  have u: "u < length (ca_nodes c)" "lab u = p" using node_lab [OF assms(1-3)] by auto
  note nodes = note_nodes [OF assms(1) u(1) assms(4-7)]
  have kid: "v < Suc n \<and> (lab(n := p @ [a])) v = (lab(n := p @ [a])) s @ [b]"
    if "s \<le> n" "b < ca_k c" "arc c' s b = Some (v, y)" for s b v y
  proof -
    have "s < n" using that nodes(3) [of b] by (cases "s = n") auto
    show ?thesis
    proof (cases "s = u \<and> b = a")
      case False
      then have "arc c s b = Some (v, y)" using nodes(1) [OF \<open>s < n\<close>, of b] that(3) by auto
      then have "v < n \<and> lab v = lab s @ [b]" using assms(1,7) that(2) \<open>s < n\<close> unfolding cache_tree_arcs by blast
      then show ?thesis using \<open>s < n\<close> by simp
    qed (use that(3) nodes(2) u \<open>s < n\<close> in auto)
  qed
  have "lab 0 = []" "0 < n" using assms(1,7) by (auto simp: cache_tree_def)
  then show "cache_tree c' (lab(n := p @ [a]))" unfolding cache_tree_arcs nodes(5,6) less_Suc_eq_le
    using nodes(4,5) kid by (auto simp: less_Suc_eq_le)
  show "last_arc c' v = (if v = p @ [a] then Some (n, x) else last_arc c v)" if "over (ca_k c) v"
    using that
  proof (induction v rule: rev_induct)
    case (snoc b v)
    have root: "node_from c' 0 v = (if v = p @ [a] then Some n else node_from c 0 v)"
      using snoc by (cases v rule: rev_cases) (auto simp: node_from_snoc)
    show ?case
    proof (cases "v = p @ [a]")
      case True
      then have "node_from c 0 v = None" using assms(3,5) by (simp add: node_from_snoc last_arc_snoc arc_def)
      then show ?thesis unfolding last_arc_snoc using root snoc.prems True nodes(3) [of b] by simp
    next
      case False
      show ?thesis
      proof (cases "node_from c 0 v")
        case (Some s)
        then have "s < n" "lab s = v" using node_lab [OF assms(1) _ Some] snoc.prems assms(7) by auto
        then show ?thesis using False root Some nodes(1) [of s b] nodes(2) u(2) assms(3)
          by (cases "v = p \<and> b = a") (auto simp: last_arc_snoc)
      qed (use False root assms(3) in \<open>auto simp: last_arc_snoc\<close>)
    qed
  qed (simp add: last_arc_def)
qed

text \<open>
  The specification: a map from words to the output of their last symbol. Recording a word adds its
  prefixes that are not there yet and counts those that are, and those that differ.
\<close>

definition prefix_pos :: "word_in \<Rightarrow> word_in \<Rightarrow> nat option" where
  "prefix_pos w v = (if v \<noteq> [] \<and> take (length v) w = v then Some (length v - 1) else None)"

definition map_record :: "word_in \<Rightarrow> out_word \<Rightarrow> (word_in \<Rightarrow> int option) \<Rightarrow> word_in \<Rightarrow> int option" where
  "map_record w os f v = (case f v of Some x \<Rightarrow> Some x | None \<Rightarrow> map_option (\<lambda>i. os ! i) (prefix_pos w v))"

definition seen_before :: "word_in \<Rightarrow> (word_in \<Rightarrow> int option) \<Rightarrow> nat set" where
  "seen_before w f = {i. i < length w \<and> f (take (Suc i) w) \<noteq> None}"

definition differ :: "word_in \<Rightarrow> out_word \<Rightarrow> (word_in \<Rightarrow> int option) \<Rightarrow> nat set" where
  "differ w os f = {i \<in> seen_before w f. f (take (Suc i) w) \<noteq> Some (os ! i)}"

lemma positions_Cons:
  "{i. i < length (a # w) \<and> P i} = (if P 0 then {0} else {}) \<union> Suc ` {i. i < length w \<and> P (Suc i)}"
  by (auto simp: image_iff less_Suc_eq_0_disj)

lemma card_positions_Cons:
  "card {i. i < length (a # w) \<and> P i} = (if P 0 then 1 else 0) + card {i. i < length w \<and> P (Suc i)}"
proof -
  have "card (Suc ` {i. i < length w \<and> P (Suc i)}) = card {i. i < length w \<and> P (Suc i)}" by (rule card_image) simp
  moreover have "{0} \<inter> Suc ` {i. i < length w \<and> P (Suc i)} = {}" by auto
  ultimately show ?thesis unfolding positions_Cons by (auto simp: card_Un_disjoint)
qed

lemma note_known:
  assumes "cache_tree c lab" "over (ca_k c) p" "node_from c 0 p = Some u" "a < ca_k c" "c' = cache_note u a x c"
  shows "\<exists>lab'. cache_tree c' lab'" "ca_k c' = ca_k c" "node_from c' 0 (p @ [a]) = Some (nat (cchild c' u a))"
    "over (ca_k c) v \<Longrightarrow> known c' v = (if v = p @ [a] \<and> known c v = None then Some x else known c v)"
    "ca_prefixAudits c' = ca_prefixAudits c + (if known c (p @ [a]) \<noteq> None then 1 else 0)"
    "ca_contradictions c' = ca_contradictions c + (if known c (p @ [a]) \<noteq> None \<and> known c (p @ [a]) \<noteq> Some x then 1 else 0)"
proof -
  have k: "known c (p @ [a]) = (if cchild c u a < 0 then None else Some (cout c u a))"
    using assms(3) by (simp add: known_def last_arc_snoc arc_def)
  have "(\<exists>lab'. cache_tree c' lab') \<and> ca_k c' = ca_k c \<and> node_from c' 0 (p @ [a]) = Some (nat (cchild c' u a))
    \<and> (\<forall>v. over (ca_k c) v \<longrightarrow> known c' v = (if v = p @ [a] \<and> known c v = None then Some x else known c v))
    \<and> ca_prefixAudits c' = ca_prefixAudits c + (if known c (p @ [a]) \<noteq> None then 1 else 0)
    \<and> ca_contradictions c' = ca_contradictions c + (if known c (p @ [a]) \<noteq> None \<and> known c (p @ [a]) \<noteq> Some x then 1 else 0)"
  proof (cases "cchild c u a < 0")
    case True
    note e = note_new_edge [OF assms(1-4) True assms(5) refl]
    have "u < length (ca_nodes c)" using node_lab [OF assms(1-3)] by simp
    from note_nodes(2) [OF assms(1) this assms(4) True assms(5) refl]
    have "node_from c' 0 (p @ [a]) = Some (length (ca_nodes c))" "cchild c' u a = int (length (ca_nodes c))"
      using e(2) [of "p @ [a]"] assms(2,4) by (auto simp: node_from_snoc arc_def split: if_splits)
    moreover have "ca_k c' = ca_k c" "ca_prefixAudits c' = ca_prefixAudits c" "ca_contradictions c' = ca_contradictions c"
      using assms(5) True by (simp_all add: cache_note_def Let_def)
    ultimately show ?thesis using e k True by (auto simp: known_def)
  next
    case False
    then have n: "ca_nodes c' = ca_nodes c" "ca_k c' = ca_k c" using assms(5) by (simp_all add: cache_note_def Let_def)
    then have arcs: "arc c' s b = arc c s b" for s b by (simp add: arc_def)
    have "node_from c' s w = node_from c s w" for s w by (induction w arbitrary: s) (simp_all add: arcs)
    then have "last_arc c' = last_arc c" "cache_tree c' lab" using n assms(1) arcs by (auto simp: last_arc_def cache_tree_def)
    then show ?thesis using n k False assms(3,5) by (auto simp: known_def node_from_snoc last_arc_snoc arc_def cache_note_def Let_def)
  qed
  then show "\<exists>lab'. cache_tree c' lab'" "ca_k c' = ca_k c" "node_from c' 0 (p @ [a]) = Some (nat (cchild c' u a))"
    "over (ca_k c) v \<Longrightarrow> known c' v = (if v = p @ [a] \<and> known c v = None then Some x else known c v)"
    "ca_prefixAudits c' = ca_prefixAudits c + (if known c (p @ [a]) \<noteq> None then 1 else 0)"
    "ca_contradictions c' = ca_contradictions c + (if known c (p @ [a]) \<noteq> None \<and> known c (p @ [a]) \<noteq> Some x then 1 else 0)"
    by blast+
qed

lemma prefix_pos_Cons: "prefix_pos (a # w) (b # e) = (if a = b then (if e = [] then Some 0 else map_option Suc (prefix_pos w e)) else None)"
  by (auto simp: prefix_pos_def)

lemma prefix_pos_Nil [simp]: "prefix_pos w [] = None" "prefix_pos [] v = None"
  by (auto simp: prefix_pos_def)

definition map_record_at :: "word_in \<Rightarrow> word_in \<Rightarrow> out_word \<Rightarrow> (word_in \<Rightarrow> int option) \<Rightarrow> word_in \<Rightarrow> int option" where
  "map_record_at p w os f v =
     (case f v of Some x \<Rightarrow> Some x
      | None \<Rightarrow> if take (length p) v = p then map_option (\<lambda>i. os ! i) (prefix_pos w (drop (length p) v)) else None)"

lemma map_record_Cons:
  assumes "f' v = (if v = p @ [a] \<and> f v = None then Some x else f v)"
  shows "map_record_at (p @ [a]) w os f' v = map_record_at p (a # w) (x # os) f v"
proof (cases "f v = None \<and> take (length p) v = p")
  case True
  then obtain d where d: "v = p @ d" by (metis append_take_drop_id)
  show ?thesis
  proof (cases d)
    case (Cons b e)
    then show ?thesis using assms True d by (auto simp: map_record_at_def prefix_pos_Cons option.map_comp comp_def)
  qed (use assms True d in \<open>auto simp: map_record_at_def\<close>)
next
  case False
  have "take (length p) v = p" if "take (Suc (length p)) v = p @ [a]"
    using arg_cong [OF that, of "take (length p)"] by (simp add: min_def)
  then show ?thesis using assms False by (auto simp: map_record_at_def split: option.splits)
qed

lemma insert_from_known:
  assumes "cache_tree c lab" "over (ca_k c) p" "node_from c 0 p = Some u" "over (ca_k c) w" "length os = length w"
  shows "(\<exists>lab'. cache_tree (insert_from u w os c) lab') \<and> ca_k (insert_from u w os c) = ca_k c
    \<and> (\<forall>v. over (ca_k c) v \<longrightarrow> known (insert_from u w os c) v = map_record_at p w os (known c) v)
    \<and> ca_prefixAudits (insert_from u w os c) = ca_prefixAudits c + card {i. i < length w \<and> known c (p @ take (Suc i) w) \<noteq> None}
    \<and> ca_contradictions (insert_from u w os c) = ca_contradictions c
        + card {i. i < length w \<and> known c (p @ take (Suc i) w) \<noteq> None \<and> known c (p @ take (Suc i) w) \<noteq> Some (os ! i)}"
  using assms
proof (induction w arbitrary: c lab p u os)
  case (Cons a w)
  define c1 where "c1 = cache_note u a (hd os) c"
  have os: "os = hd os # tl os" "length (tl os) = length w" using Cons.prems(5) by (cases os; simp)+
  have aw: "a < ca_k c" "over (ca_k c) w" using Cons.prems(4) by auto
  note n = note_known [OF Cons.prems(1-3) aw(1) c1_def]
  obtain lab1 where lab1: "cache_tree c1 lab1" using n(1) by blast
  have pa: "over (ca_k c1) (p @ [a])" "over (ca_k c1) w" using Cons.prems(2) aw n(2) by auto
  note IH = Cons.IH [OF lab1 pa(1) n(3) pa(2) os(2)]
  have step: "insert_from u (a # w) os c = insert_from (nat (cchild c1 u a)) w (tl os) c1" by (simp add: c1_def Let_def)
  have later: "known c1 ((p @ [a]) @ take (Suc i) w) = known c (p @ take (Suc (Suc i)) (a # w))" if "i < length w" for i
  proof -
    have "over (ca_k c) ((p @ [a]) @ take (Suc i) w)" using Cons.prems(2) aw by (auto dest: in_set_takeD)
    moreover have "take (Suc i) w \<noteq> []" using that by auto
    ultimately show ?thesis using n(4) [of "(p @ [a]) @ take (Suc i) w"] by simp
  qed
  have cnt: "card {i. i < length w \<and> P i (known c1 ((p @ [a]) @ take (Suc i) w))} = card {i. i < length w \<and> P i (known c (p @ take (Suc (Suc i)) (a # w)))}"
    for P using later by (metis (mono_tags, lifting))
  have nth: "os ! Suc i = tl os ! i" "os ! 0 = hd os" for i using os(1) by (metis nth_Cons_Suc, metis nth_Cons_0)
  have "known (insert_from u (a # w) os c) v = map_record_at p (a # w) os (known c) v" if "over (ca_k c) v" for v
    using IH step n(2) n(4) [of v] that map_record_Cons [of "known c1" v p a "known c" "hd os" w "tl os"] os(1) by metis
  then show ?case using IH n(2,5,6) cnt [of "\<lambda>i y. y \<noteq> None"] cnt [of "\<lambda>i y. y \<noteq> None \<and> y \<noteq> Some (tl os ! i)"] os(1) nth
    unfolding step card_positions_Cons by auto
qed (auto simp: map_record_at_def split: option.splits)

lemma map_record_at_Nil: "map_record_at [] w os f = map_record w os f"
  by (rule ext) (simp add: map_record_at_def map_record_def split: option.split)

lemma cache_insert_known:
  assumes "cache_tree c lab" "over (ca_k c) w" "length os = length w"
  shows "(\<exists>lab'. cache_tree (cache_insert w os c) lab') \<and> ca_k (cache_insert w os c) = ca_k c
    \<and> (\<forall>v. over (ca_k c) v \<longrightarrow> known (cache_insert w os c) v = map_record w os (known c) v)
    \<and> ca_prefixAudits (cache_insert w os c) = ca_prefixAudits c + card (seen_before w (known c))
    \<and> ca_contradictions (cache_insert w os c) = ca_contradictions c + card (differ w os (known c))"
  using insert_from_known [OF assms(1) _ _ assms(2,3), of "[]" 0]
  by (simp add: cache_insert_def map_record_at_Nil seen_before_def differ_def conj_assoc)

lemma cache_new_tree: "cache_tree (Cache k) (\<lambda>_. [])"
  by (simp add: cache_tree_def Cache_def Node_def)

lemma cache_new_known: "over k v \<Longrightarrow> known (Cache k) v = None"
proof (cases v rule: rev_cases)
  case (snoc w a)
  assume "over k v"
  moreover have "node_from (Cache k) 0 w = None \<or> w = []" if "over k w"
    using that by (cases w) (auto simp: arc_def Cache_def Node_def)
  ultimately show ?thesis using snoc by (auto simp: known_def last_arc_snoc arc_def Cache_def Node_def)
qed simp

subsection \<open>Systems that answer as a machine\<close>

text \<open>
  What a deterministic system owes: after a reset it is in the initial state of a machine, and each step
  answers and moves as the machine does. The queries of a learner then get the answers of the machine, from the
  cache or not, with any number of repeats and any audit, and no check fails.
\<close>

definition or_ok :: "'x set \<Rightarrow> mealy \<Rightarrow> ('x, 'r) mem_oracle \<Rightarrow> bool" where
  "or_ok X m q \<longleftrightarrow> or_sul q \<in> X \<and> ca_k (or_cache q) = m_k m \<and> (\<exists>lab. cache_tree (or_cache q) lab)
     \<and> (\<forall>v x. over (m_k m) v \<longrightarrow> known (or_cache q) v = Some x \<longrightarrow> x = last (mealy_run m 0 v))"

definition no_alarm :: "('x, 'r) mem_oracle \<Rightarrow> ('x, 'r) mem_oracle \<Rightarrow> bool" where
  "no_alarm q q' \<longleftrightarrow> ca_contradictions (or_cache q') = ca_contradictions (or_cache q)
     \<and> or_auditContradictions q' = or_auditContradictions q \<and> or_voteDisagreements q' = or_voteDisagreements q"

lemma run_take_last: "i < length w \<Longrightarrow> last (mealy_run m s (take (Suc i) w)) = mealy_run m s w ! i"
proof -
  assume i: "i < length w"
  have "mealy_run m s w = mealy_run m s (take (Suc i) w) @ mealy_run m (mealy_reach m s (take (Suc i) w)) (drop (Suc i) w)"
    using mealy_run_append [of m s "take (Suc i) w" "drop (Suc i) w"] by simp
  then have "mealy_run m s w ! i = mealy_run m s (take (Suc i) w) ! i" using i by (simp add: nth_append)
  moreover have "mealy_run m s (take (Suc i) w) \<noteq> []" "length (mealy_run m s (take (Suc i) w)) = Suc i" using i by auto
  ultimately show ?thesis by (simp add: last_conv_nth)
qed

lemma vote_one_same: "0 < n \<Longrightarrow> vote_one (replicate n v) = v" "length (remdups (replicate n v)) \<le> 1"
proof -
  have r: "remdups (replicate n v) = (if n = 0 then [] else [v])" for n by (induction n) auto
  then show "0 < n \<Longrightarrow> vote_one (replicate n v) = v" "length (remdups (replicate n v)) \<le> 1"
    by (simp_all add: vote_one_def)
qed

lemma true_cache_lookup:
  assumes "\<forall>v x. over k v \<longrightarrow> known c v = Some x \<longrightarrow> x = last (mealy_run m 0 v)" "over k w" "cache_lookup c w = Some r"
  shows "r = mealy_run m 0 w"
proof -
  have "\<forall>i<length w. known c (take (Suc i) w) \<noteq> None" and r: "r = map (\<lambda>i. the (known c (take (Suc i) w))) [0..<length w]"
    using assms(3) by (auto simp: lookup_known split: if_splits)
  have "r ! i = mealy_run m 0 w ! i" if i: "i < length w" for i
  proof -
    obtain x where x: "known c (take (Suc i) w) = Some x" using \<open>\<forall>i<length w. _\<close> i by blast
    have "over k (take (Suc i) w)" using assms(2) by (auto dest: in_set_takeD)
    then have "x = mealy_run m 0 w ! i" using assms(1) x run_take_last [OF i, of m 0] by simp
    then show ?thesis using r i x by simp
  qed
  then show ?thesis using r by (intro nth_equalityI) simp_all
qed

lemma true_cache_insert:
  assumes "cache_tree c lab" "over (ca_k c) w" "\<forall>v x. over (ca_k c) v \<longrightarrow> known c v = Some x \<longrightarrow> x = last (mealy_run m 0 v)"
  shows "\<forall>v x. over (ca_k c) v \<longrightarrow> known (cache_insert w (mealy_run m 0 w) c) v = Some x \<longrightarrow> x = last (mealy_run m 0 v)"
    and "ca_contradictions (cache_insert w (mealy_run m 0 w) c) = ca_contradictions c"
proof -
  note k = cache_insert_known [OF assms(1,2), of "mealy_run m 0 w"]
  have t: "last (mealy_run m 0 v) = mealy_run m 0 w ! i" if p: "prefix_pos w v = Some i" for v i
  proof -
    have "v \<noteq> []" "take (length v) w = v" "i = length v - 1" using p by (auto simp: prefix_pos_def split: if_splits)
    moreover from this have "length v \<le> length w" by (metis length_take min.cobounded1)
    ultimately have "i < length w" "take (Suc i) w = v" by (cases v; simp)+
    then show ?thesis using run_take_last [of i w m 0] by simp
  qed
  show "\<forall>v x. over (ca_k c) v \<longrightarrow> known (cache_insert w (mealy_run m 0 w) c) v = Some x \<longrightarrow> x = last (mealy_run m 0 v)"
    using k assms(3) t by (auto simp: map_record_def split: option.splits)
  have "differ w (mealy_run m 0 w) (known c) = {}"
  proof (rule equals0I)
    fix i assume "i \<in> differ w (mealy_run m 0 w) (known c)"
    then obtain x where i: "i < length w" "known c (take (Suc i) w) = Some x" "x \<noteq> mealy_run m 0 w ! i"
      by (auto simp: differ_def seen_before_def)
    moreover have "over (ca_k c) (take (Suc i) w)" using assms(2) by (auto dest: in_set_takeD)
    ultimately show False using assms(3) run_take_last [OF i(1), of m 0] by auto
  qed
  then show "ca_contradictions (cache_insert w (mealy_run m 0 w) c) = ca_contradictions c" using k by simp
qed

locale deterministic_sul =
  fixes P :: "'x sul_ops" and m :: mealy and sim :: "'x \<Rightarrow> nat \<Rightarrow> bool" and X :: "'x set"
  assumes reset_sim: "x \<in> X \<Longrightarrow> sim (sul_reset P x) 0"
    and step_sim: "sim x s \<Longrightarrow> a < m_k m \<Longrightarrow> s < m_n m \<Longrightarrow> fst (sul_step P a x) = outp m s a \<and> sim (snd (sul_step P a x)) (nxt m s a)"
    and sim_ok: "sim x s \<Longrightarrow> x \<in> X"
    and wf: "x \<in> X \<Longrightarrow> mealy_wf m"
begin

lemma word_sim: "sim x s \<Longrightarrow> s < m_n m \<Longrightarrow> over (m_k m) w \<Longrightarrow>
  fst (sul_word P w x) = mealy_run m s w \<and> sim (snd (sul_word P w x)) (mealy_reach m s w)"
proof (induction w arbitrary: x s)
  case (Cons a w)
  have "nxt m s a < m_n m" using wf [OF sim_ok [OF Cons.prems(1)]] Cons.prems by (simp add: mealy_wf_def)
  then show ?case using step_sim [of x s a] Cons by (simp add: case_prod_beta Let_def)
qed simp

lemma raw_sim:
  assumes "x \<in> X" "over (m_k m) w"
  shows "fst (sul_raw P w x) = mealy_run m 0 w" "snd (sul_raw P w x) \<in> X"
proof -
  have "0 < m_n m" using wf [OF assms(1)] by (simp add: mealy_wf_def)
  then show "fst (sul_raw P w x) = mealy_run m 0 w" "snd (sul_raw P w x) \<in> X"
    using word_sim [OF reset_sim [OF assms(1)] _ assms(2)] sim_ok by (auto simp: sul_raw_def)
qed

lemma runs_sim: "x \<in> X \<Longrightarrow> over (m_k m) w \<Longrightarrow> fst (raw_runs P n w x) = replicate n (mealy_run m 0 w) \<and> snd (raw_runs P n w x) \<in> X"
  by (induction n arbitrary: x) (auto simp: case_prod_beta Let_def raw_sim)

lemma voted_sim:
  assumes "or_ok X m q" "over (m_k m) w"
  shows "fst (rawVoted P w q) = mealy_run m 0 w" "\<exists>x\<in>X. snd (rawVoted P w q) = q\<lparr>or_sul := x\<rparr>"
proof -
  have x: "or_sul q \<in> X" using assms(1) by (simp add: or_ok_def)
  note raw = raw_sim [OF x assms(2)] and runs = runs_sim [OF x assms(2), of "nat (or_repeats q)"]
  have "fst (rawVoted P w q) = mealy_run m 0 w \<and> (\<exists>x\<in>X. snd (rawVoted P w q) = q\<lparr>or_sul := x\<rparr>)"
  proof (cases "or_repeats q \<le> 1")
    case True
    then show ?thesis using raw by (auto simp: rawVoted_def case_prod_beta Let_def)
  next
    case False
    let ?n = "nat (or_repeats q)"
    have n: "0 < ?n" using False by simp
    have pos: "map (\<lambda>r. r ! i) (replicate ?n (mealy_run m 0 w)) = replicate ?n (mealy_run m 0 w ! i)" for i by (simp add: map_replicate)
    have "map (\<lambda>i. vote_one (replicate ?n (mealy_run m 0 w ! i))) [0..<length w] = mealy_run m 0 w"
      using vote_one_same(1) [OF n] by (intro nth_equalityI) simp_all
    moreover have "\<not> (\<exists>i\<in>set [0..<length w]. length (remdups (replicate ?n (mealy_run m 0 w ! i))) > 1)"
      using vote_one_same(2) not_less by blast
    ultimately have "rawVoted P w q = (mealy_run m 0 w, q\<lparr>or_sul := snd (raw_runs P ?n w (or_sul q))\<rparr>)"
      using False runs by (simp only: rawVoted_def case_prod_beta Let_def pos if_False)
    then show ?thesis using runs by auto
  qed
  then show "fst (rawVoted P w q) = mealy_run m 0 w" "\<exists>x\<in>X. snd (rawVoted P w q) = q\<lparr>or_sul := x\<rparr>" by auto
qed

lemma record_sim:
  assumes "or_ok X m q" "over (m_k m) w"
  shows "or_ok X m (or_record w (mealy_run m 0 w) q)" "no_alarm q (or_record w (mealy_run m 0 w) q)"
proof -
  obtain lab where c: "cache_tree (or_cache q) lab" "ca_k (or_cache q) = m_k m"
    "\<forall>v x. over (m_k m) v \<longrightarrow> known (or_cache q) v = Some x \<longrightarrow> x = last (mealy_run m 0 v)" using assms(1) by (auto simp: or_ok_def)
  note t = true_cache_insert [OF c(1), unfolded c(2), OF assms(2) c(3)]
  have "(\<exists>lab'. cache_tree (cache_insert w (mealy_run m 0 w) (or_cache q)) lab') \<and> ca_k (cache_insert w (mealy_run m 0 w) (or_cache q)) = m_k m"
    using cache_insert_known [OF c(1), of w "mealy_run m 0 w"] c(2) assms(2) by simp
  then show "or_ok X m (or_record w (mealy_run m 0 w) q)" "no_alarm q (or_record w (mealy_run m 0 w) q)"
    using t assms(1) by (auto simp: or_ok_def no_alarm_def or_record_def)
qed

lemma or_ok_frame:
  assumes "or_ok X m q" "or_sul q' \<in> X" "ca_nodes (or_cache q') = ca_nodes (or_cache q)" "ca_k (or_cache q') = ca_k (or_cache q)"
  shows "or_ok X m q'"
proof -
  have arcs: "arc (or_cache q') = arc (or_cache q)" by (intro ext) (simp add: arc_def assms(3))
  have "node_from (or_cache q') s w = node_from (or_cache q) s w" for s w by (induction w arbitrary: s) (simp_all add: arcs)
  then have "known (or_cache q') = known (or_cache q)" by (intro ext) (simp add: known_def last_arc_def arcs)
  moreover have "cache_tree (or_cache q') lab = cache_tree (or_cache q) lab" for lab by (simp add: cache_tree_def assms(3,4))
  ultimately show ?thesis using assms(1,2,4) by (simp add: or_ok_def)
qed

lemma query_sim:
  assumes "or_ok X m q" "over (m_k m) w"
  shows "fst (query P uniform w q) = mealy_run m 0 w \<and> or_ok X m (snd (query P uniform w q)) \<and> no_alarm q (snd (query P uniform w q))
    \<and> or_mq (snd (query P uniform w q)) = or_mq q + 1"
proof -
  let ?q = "q\<lparr>or_mq := or_mq q + 1\<rparr>" and ?r = "mealy_run m 0 w"
  have x: "or_sul q \<in> X" using assms(1) by (simp add: or_ok_def)
  have asked: "\<exists>x\<in>X. rawVoted P w q' = (?r, q'\<lparr>or_sul := x\<rparr>)" if "or_ok X m q'" for q' :: "('x, 'r) mem_oracle"
    using voted_sim [OF that assms(2)] by (metis prod.collapse)
  have ok: "or_ok X m (q'\<lparr>or_sul := x\<rparr>)" if "or_ok X m q'" "x \<in> X" for q' :: "('x, 'r) mem_oracle" and x
    by (rule or_ok_frame [OF that(1)]) (use that(2) in simp_all)
  show ?thesis
  proof (cases "or_bypass q")
    case True
    have q: "or_ok X m ?q" by (rule or_ok_frame [OF assms(1)]) (use x in simp_all)
    from asked [OF this] obtain x where r: "x \<in> X" "rawVoted P w ?q = (?r, ?q\<lparr>or_sul := x\<rparr>)" by blast
    note rec = record_sim [OF ok [OF q r(1)] assms(2)]
    have "or_ok X m (or_missed (or_record w ?r (?q\<lparr>or_sul := x\<rparr>)))"
      by (rule or_ok_frame [OF rec(1)]) (use rec(1) in \<open>simp_all add: or_missed_def or_ok_def\<close>)
    then show ?thesis using True r(2) rec(2) by (simp add: query_def or_missed_def no_alarm_def or_record_def)
  next
    case False
    show ?thesis
    proof (cases "cache_lookup (or_cache q) w")
      case None
      have q: "or_ok X m (or_missed ?q)" by (rule or_ok_frame [OF assms(1)]) (use x in \<open>simp_all add: or_missed_def\<close>)
      from asked [OF this] obtain x where r: "x \<in> X" "rawVoted P w (or_missed ?q) = (?r, (or_missed ?q)\<lparr>or_sul := x\<rparr>)" by blast
      note rec = record_sim [OF ok [OF q r(1)] assms(2)]
      then show ?thesis using False None r(2) by (simp add: query_def no_alarm_def or_missed_def or_record_def)
    next
      case (Some hit)
      have hit: "hit = ?r" using true_cache_lookup [OF _ assms(2) Some] assms(1) by (simp add: or_ok_def)
      obtain u rng where u: "uniform (or_rng q) = (u, rng)" by fastforce
      let ?h = "(or_hit w ?q)\<lparr>or_rng := rng\<rparr>"
      let ?a = "?h\<lparr>or_auditRuns := or_auditRuns q + 1\<rparr>"
      have q: "or_ok X m (or_hit w ?q)" "or_ok X m ?h" "or_ok X m ?a" by (rule or_ok_frame [OF assms(1)]; use x in \<open>simp add: or_hit_def\<close>)+
      from asked [OF q(3)] obtain x where r: "x \<in> X" "rawVoted P w ?a = (?r, ?a\<lparr>or_sul := x\<rparr>)" by blast
      have "or_audit P w hit ?h = ?a\<lparr>or_sul := x\<rparr>" using r(2) hit by (simp add: or_audit_def or_hit_def)
      then show ?thesis using False Some u q ok [OF q(3) r(1)] hit by (simp add: query_def no_alarm_def or_hit_def Let_def)
    qed
  qed
qed

lemma ask_all_sim:
  assumes "or_ok X m q" "\<forall>w\<in>set ws. over (m_k m) w"
  shows "fst (ask_all P uniform ws q) = map (mealy_run m 0) ws \<and> no_alarm q (snd (ask_all P uniform ws q))"
  using assms
proof (induction ws arbitrary: q)
  case (Cons w ws)
  then have "over (m_k m) w" "\<forall>w\<in>set ws. over (m_k m) w" by auto
  from query_sim [OF Cons.prems(1) this(1), of uniform] Cons.IH [OF _ this(2), of "snd (query P uniform w q)"]
  show ?case by (auto simp: case_prod_beta Let_def no_alarm_def)
qed (simp add: no_alarm_def)

end

subsection \<open>The systems that are machines\<close>

definition ref_sim :: "mealy \<Rightarrow> ref_sul \<Rightarrow> nat \<Rightarrow> bool" where
  "ref_sim m x s \<longleftrightarrow> mealy_wf m \<and> su_cur x = s"

interpretation ref: deterministic_sul "ref_ops m" m "ref_sim m" "{x. mealy_wf m}" for m
  by unfold_locales (auto simp: ref_sim_def ref_ops_def sul_restart_def ref_step_def Let_def split: if_splits)

text \<open>The mapper that never reads a challenge acknowledgement is the machine without them.\<close>

definition silenced :: "mealy \<Rightarrow> mealy" where
  "silenced m = m\<lparr>m_o := map (\<lambda>(os, cs). map (\<lambda>(x, c). if c then O_SILENT else x) (zip os cs)) (zip (m_o m) (m_chal m))\<rparr>"

lemma silenced_outp: "mealy_wf m \<Longrightarrow> s < m_n m \<Longrightarrow> a < m_k m \<Longrightarrow> outp (silenced m) s a = (if m_chal m ! s ! a then O_SILENT else outp m s a)"
  by (simp add: silenced_def mealy_wf_def)

lemma silenced_frame: "m_n (silenced m) = m_n m" "m_k (silenced m) = m_k m" "m_d (silenced m) = m_d m" "mealy_wf m \<Longrightarrow> mealy_wf (silenced m)"
  by (auto simp: silenced_def mealy_wf_def)

interpretation detbug: deterministic_sul "detbug_ops m" "silenced m" "ref_sim m" "{x. mealy_wf m}" for m
  by unfold_locales
    (auto simp: ref_sim_def detbug_ops_def sul_restart_def detbug_step_def Let_def silenced_outp silenced_frame split: if_splits)

text \<open>
  The token bucket with at least as many tokens as steps in a period: there is one left at every step.
\<close>

definition bucket_full :: "challenge_sul \<Rightarrow> bool" where
  "bucket_full x \<longleftrightarrow> 0 < ch_period x \<and> int (ch_period x) \<le> ch_limit x
     \<and> (if ch_g x = 0 then ch_epoch x = - 1
        else ch_epoch x = int ((ch_g x - 1) div ch_period x) \<and> ch_limit x - 1 - int ((ch_g x - 1) mod ch_period x) \<le> ch_tokens x)"

lemma bucket_step:
  assumes "bucket_full x"
  shows "fst (challenge_step m a x) = outp m (su_cur x) a" "su_cur (snd (challenge_step m a x)) = nxt m (su_cur x) a"
    "bucket_full (snd (challenge_step m a x))"
proof -
  let ?n = "ch_g x" and ?p = "ch_period x"
  have p: "0 < ?p" "int ?p \<le> ch_limit x" using assms by (auto simp: bucket_full_def)
  define tk where "tk = (if int (?n div ?p) \<noteq> ch_epoch x then ch_limit x else ch_tokens x)"
  have tk: "ch_limit x - int (?n mod ?p) \<le> tk"
  proof (cases "?n mod ?p = 0")
    case True
    have "int (?n div ?p) \<noteq> ch_epoch x"
    proof (cases "?n = 0")
      case False
      then have "?n div ?p = Suc ((?n - 1) div ?p)" using True div_Suc [of "?n - 1" ?p] by simp
      then show ?thesis using False assms by (simp add: bucket_full_def)
    qed (use assms in \<open>simp add: bucket_full_def\<close>)
    then show ?thesis using True by (simp add: tk_def)
  next
    case False
    then have n: "?n \<noteq> 0" by (metis mod_0)
    then have "?n mod ?p = Suc ((?n - 1) mod ?p)" "?n div ?p = (?n - 1) div ?p"
      using False mod_Suc [of "?n - 1" ?p] div_Suc [of "?n - 1" ?p] by (auto split: if_splits)
    then show ?thesis using n assms by (simp add: bucket_full_def tk_def)
  qed
  then have pos: "0 < tk" using p mod_less_divisor [OF p(1), of ?n] by linarith
  show "fst (challenge_step m a x) = outp m (su_cur x) a" "su_cur (snd (challenge_step m a x)) = nxt m (su_cur x) a"
    using pos by (auto simp: challenge_step_def challenge_refill_def Let_def tk_def)
  show "bucket_full (snd (challenge_step m a x))"
    using pos p tk by (auto simp: challenge_step_def challenge_refill_def Let_def tk_def bucket_full_def)
qed

definition bucket_sim :: "mealy \<Rightarrow> challenge_sul \<Rightarrow> nat \<Rightarrow> bool" where
  "bucket_sim m x s \<longleftrightarrow> mealy_wf m \<and> su_cur x = s \<and> bucket_full x"

interpretation bucket: deterministic_sul "challenge_ops m" m "bucket_sim m" "{x. mealy_wf m \<and> bucket_full x}" for m
  by unfold_locales (auto simp: bucket_sim_def challenge_ops_def bucket_step, auto simp: sul_restart_def bucket_full_def)

subsection \<open>An epoch of the token bucket\<close>

text \<open>How many challenge acknowledgements a word asks for, and the state after \<open>t\<close> of them in the first epoch.\<close>

primrec triggers :: "mealy \<Rightarrow> nat \<Rightarrow> word_in \<Rightarrow> nat" where
  "triggers m s [] = 0"
| "triggers m s (a # w) = (if m_chal m ! s ! a then 1 else 0) + triggers m (nxt m s a) w"

definition epoch_after :: "int \<Rightarrow> nat \<Rightarrow> nat \<Rightarrow> challenge_sul \<Rightarrow> bool" where
  "epoch_after limit n t x \<longleftrightarrow> ch_limit x = limit \<and> 0 \<le> limit \<and> ch_g x = n
     \<and> (if n = 0 then ch_epoch x = - 1 \<and> t = 0 else ch_epoch x = 0 \<and> ch_tokens x = max 0 (limit - int t))
     \<and> int (ch_granted x) = min limit (int t) \<and> ch_granted x + ch_suppressed x = t"

definition loud :: "mealy \<Rightarrow> bool" where
  "loud m \<longleftrightarrow> (\<forall>s<m_n m. \<forall>a<m_k m. m_chal m ! s ! a \<longrightarrow> outp m s a \<noteq> O_SILENT)"

lemma epoch_step:
  assumes "epoch_after limit n t x" "n < ch_period x"
  shows "epoch_after limit (n + 1) (t + (if m_chal m ! su_cur x ! a then 1 else 0)) (snd (challenge_step m a x))"
    "su_cur (snd (challenge_step m a x)) = nxt m (su_cur x) a" "ch_period (snd (challenge_step m a x)) = ch_period x"
    "fst (challenge_step m a x) = (if m_chal m ! su_cur x ! a \<and> limit \<le> int t then O_SILENT else outp m (su_cur x) a)"
proof -
  let ?y = "x\<lparr>su_steps := su_steps x + 1, ch_g := n + 1, ch_epoch := 0, ch_tokens := max 0 (limit - int t)\<rparr>"
  have g: "ch_g x div ch_period x = 0" using assms by (simp add: epoch_after_def)
  have "challenge_refill x = ?y" using assms(1) g by (cases "n = 0") (auto simp: epoch_after_def challenge_refill_def Let_def)
  then have s: "challenge_step m a x =
      (if m_chal m ! su_cur x ! a then
         (if limit \<le> int t then (O_SILENT, ?y\<lparr>ch_suppressed := ch_suppressed x + 1, su_cur := nxt m (su_cur x) a\<rparr>)
          else (outp m (su_cur x) a, ?y\<lparr>ch_tokens := limit - int t - 1, ch_granted := ch_granted x + 1, su_cur := nxt m (su_cur x) a\<rparr>))
       else (outp m (su_cur x) a, ?y\<lparr>su_cur := nxt m (su_cur x) a\<rparr>))"
    by (simp add: challenge_step_def Let_def max_def)
  have x: "ch_limit x = limit" "0 \<le> limit" "int (ch_granted x) = min limit (int t)" "ch_granted x + ch_suppressed x = t"
    using assms(1) by (auto simp: epoch_after_def)
  show "epoch_after limit (n + 1) (t + (if m_chal m ! su_cur x ! a then 1 else 0)) (snd (challenge_step m a x))"
    using x by (cases "m_chal m ! su_cur x ! a"; cases "limit \<le> int t") (simp_all add: s epoch_after_def)
  show "su_cur (snd (challenge_step m a x)) = nxt m (su_cur x) a" "ch_period (snd (challenge_step m a x)) = ch_period x"
    "fst (challenge_step m a x) = (if m_chal m ! su_cur x ! a \<and> limit \<le> int t then O_SILENT else outp m (su_cur x) a)"
    by (simp_all add: s)
qed

lemma epoch_word:
  assumes "epoch_after limit n t x" "n + length w \<le> ch_period x" "mealy_wf m" "loud m" "su_cur x < m_n m" "over (m_k m) w"
  shows "epoch_after limit (n + length w) (t + triggers m (su_cur x) w) (snd (sul_word (challenge_ops m) w x))
    \<and> ch_period (snd (sul_word (challenge_ops m) w x)) = ch_period x
    \<and> (fst (sul_word (challenge_ops m) w x) = mealy_run m (su_cur x) w
       \<longleftrightarrow> triggers m (su_cur x) w = 0 \<or> int (t + triggers m (su_cur x) w) \<le> limit)"
  using assms
proof (induction w arbitrary: n t x)
  case (Cons a w)
  let ?c = "m_chal m ! su_cur x ! a" and ?x = "snd (challenge_step m a x)"
  have n: "n < ch_period x" using Cons.prems(2) by simp
  note st = epoch_step [OF Cons.prems(1) n, of m a]
  have nx: "su_cur ?x < m_n m" using st(2) Cons.prems(3,5,6) by (simp add: mealy_wf_def)
  have "?c \<Longrightarrow> outp m (su_cur x) a \<noteq> O_SILENT" using Cons.prems(4-6) by (simp add: loud_def)
  then have eq: "fst (challenge_step m a x) = outp m (su_cur x) a \<longleftrightarrow> \<not> (?c \<and> limit \<le> int t)" using st(4) by auto
  have "n + 1 + length w \<le> ch_period ?x" "over (m_k m) w" using Cons.prems(2,6) st(3) by auto
  from Cons.IH [OF st(1) this(1) Cons.prems(3,4) nx this(2)] st(2,3) eq Cons.prems(1) show ?case
    by (auto simp: challenge_ops_def case_prod_beta Let_def epoch_after_def)
qed (simp add: epoch_after_def)

primrec repeat_word :: "'x sul_ops \<Rightarrow> nat \<Rightarrow> word_in \<Rightarrow> 'x \<Rightarrow> 'x" where
  "repeat_word P 0 w x = x"
| "repeat_word P (Suc r) w x = snd (sul_raw P w (repeat_word P r w x))"

lemma epoch_raw:
  assumes "epoch_after limit n t x" "n + length w \<le> ch_period x" "mealy_wf m" "loud m" "over (m_k m) w"
  shows "epoch_after limit (n + length w) (t + triggers m 0 w) (snd (sul_raw (challenge_ops m) w x))
    \<and> ch_period (snd (sul_raw (challenge_ops m) w x)) = ch_period x
    \<and> (fst (sul_raw (challenge_ops m) w x) = mealy_run m 0 w \<longleftrightarrow> triggers m 0 w = 0 \<or> int (t + triggers m 0 w) \<le> limit)"
proof -
  have r: "sul_reset (challenge_ops m) x = x\<lparr>su_resets := su_resets x + 1, su_cur := 0\<rparr>" by (simp add: challenge_ops_def sul_restart_def)
  have "epoch_after limit n t (sul_reset (challenge_ops m) x)" "0 < m_n m"
    using assms(1,3) by (auto simp: r epoch_after_def mealy_wf_def)
  then show ?thesis using epoch_word [of limit n t "sul_reset (challenge_ops m) x" w m] assms(2-5) by (simp add: sul_raw_def r)
qed

lemma epoch_repeat:
  assumes "mealy_wf m" "loud m" "over (m_k m) w" "0 \<le> limit" "r * length w \<le> per"
  shows "epoch_after limit (r * length w) (r * triggers m 0 w) (repeat_word (challenge_ops m) r w (ChallengeSUL limit per))
    \<and> ch_period (repeat_word (challenge_ops m) r w (ChallengeSUL limit per)) = per"
  using assms(5)
proof (induction r)
  case 0
  then show ?case using assms(4) by (simp add: epoch_after_def ChallengeSUL_def)
next
  case (Suc r)
  then show ?case using epoch_raw [OF _ _ assms(1-3), of limit "r * length w" "r * triggers m 0 w"]
    by (simp add: algebra_simps)
qed

subsection \<open>Properties\<close>

text \<open>
  Within one period the token bucket grants exactly as many challenge acknowledgements as its limit and suppresses the
  rest, whatever resets lie between them; and repeating a word that asks for \<open>c\<close> of them answers as the machine does up to the run
  that needs a token too many, which is the \<open>limit div c + 1\<close>st. That is the count the hunt for a witness compares with.
\<close>

lemma bucket_diverges_at_limit:
  assumes "mealy_wf m" "loud m" "over (m_k m) w" "0 \<le> limit" "Suc r * length w \<le> per" "c = triggers m 0 w" "0 < c"
    and "x = repeat_word (challenge_ops m) r w (ChallengeSUL limit per)"
  shows "int (ch_granted x) = min limit (int (r * c)) \<and> ch_granted x + ch_suppressed x = r * c
    \<and> (fst (sul_raw (challenge_ops m) w x) = mealy_run m 0 w \<longleftrightarrow> r < nat limit div c)"
proof -
  have e: "epoch_after limit (r * length w) (r * c) x" "ch_period x = per"
    using epoch_repeat [OF assms(1-4), of r per] assms(5,6,8) by auto
  have "fst (sul_raw (challenge_ops m) w x) = mealy_run m 0 w \<longleftrightarrow> c = 0 \<or> int (r * c + c) \<le> limit"
    using epoch_raw [OF e(1) _ assms(1-3)] e(2) assms(5,6) by (simp add: add.commute)
  also have "\<dots> \<longleftrightarrow> Suc r * c \<le> nat limit" using assms(4,7) by (simp add: add.commute nat_le_iff le_nat_iff)
  also have "\<dots> \<longleftrightarrow> r < nat limit div c" using assms(7) by (metis Suc_le_eq less_eq_div_iff_mult_less_eq)
  finally show ?thesis using e(1) by (simp add: epoch_after_def)
qed

lemma tcpServer_loud: "loud tcpServer"
  by (simp add: loud_def tcpServer_tables Let_def All_less_Suc numeral_eq_Suc)

text \<open>
  With a limit of at least one token for each step of a period the system is deterministic: every sequence of
  queries is answered as the machine would, and none of the three counters of disagreement moves,
  with any audit rate, number of votes and source of random numbers, with the cache or past it.
\<close>

lemma raised_limit_no_alarm:
  assumes "mealy_wf m" "0 < per" "int per \<le> limit" "\<forall>w\<in>set ws. over (m_k m) w"
    and "q = (Oracle_new (ChallengeSUL limit per) (m_k m) rng)\<lparr>or_auditRate := rate, or_repeats := votes, or_bypass := byp\<rparr>"
  shows "fst (ask_all (challenge_ops m) uniform ws q) = map (mealy_run m 0) ws
    \<and> ca_contradictions (or_cache (snd (ask_all (challenge_ops m) uniform ws q))) = 0
    \<and> or_auditContradictions (snd (ask_all (challenge_ops m) uniform ws q)) = 0
    \<and> or_voteDisagreements (snd (ask_all (challenge_ops m) uniform ws q)) = 0"
proof -
  have "bucket_full (ChallengeSUL limit per)" using assms(2,3) by (simp add: bucket_full_def ChallengeSUL_def)
  moreover have "ca_k (Cache (m_k m)) = m_k m" "ca_contradictions (Cache (m_k m)) = 0" by (simp_all add: Cache_def)
  ultimately have "or_ok {x. mealy_wf m \<and> bucket_full x} m q"
    using assms(1,5) cache_new_tree [of "m_k m"] cache_new_known [where k = "m_k m"] by (auto simp: or_ok_def Oracle_new_def)
  from bucket.ask_all_sim [OF this assms(4), of uniform] show ?thesis
    using assms(5) \<open>ca_contradictions (Cache (m_k m)) = 0\<close> by (simp add: no_alarm_def Oracle_new_def)
qed

lemma raised_limit_no_alarm_witness:
  "fst (ask_all (challenge_ops tcpServer) (\<lambda>r. (0, r)) [[SYN, ACK, SYN], [SYN], [SYN, ACK, SYN]]
      ((Oracle_new (ChallengeSUL 5 5) (m_k tcpServer) ())\<lparr>or_auditRate := 1, or_repeats := 3, or_bypass := False\<rparr>))
    = [[O_SYNACK, O_SILENT, O_ACK], [O_SYNACK], [O_SYNACK, O_SILENT, O_ACK]]"
proof -
  have "\<forall>w\<in>set [[SYN, ACK, SYN], [SYN], [SYN, ACK, SYN]]. over (m_k tcpServer) w" by (simp add: tcpServer_tables)
  moreover have "mealy_run tcpServer 0 [SYN, ACK, SYN] = [O_SYNACK, O_SILENT, O_ACK]" "mealy_run tcpServer 0 [SYN] = [O_SYNACK]"
    by (simp_all add: tcpServer_tables)
  ultimately show ?thesis
    using raised_limit_no_alarm [OF tcpServer_wf _ _ _ refl, where per = 5 and limit = 5 and ws = "[[SYN, ACK, SYN], [SYN], [SYN, ACK, SYN]]"
        and rng = "()" and rate = 1 and votes = 3 and byp = False and uniform = "\<lambda>r. (0, r)"] by simp
qed

text \<open>
  Property C40. The cache refines a map from words to the output of their last symbol in which an entry is written once: a
  lookup succeeds exactly when all prefixes are there and gives their outputs; an insertion adds the prefixes that are missing, changes no entry,
  counts as audited the prefixes that were there, and as contradictions those whose entry differs from the new output.
\<close>

theorem cache_refines_map:
  assumes "cache_tree c lab" "over (ca_k c) w" "length os = length w"
  shows "(\<exists>lab'. cache_tree (cache_insert w os c) lab')
    \<and> (\<forall>v. over (ca_k c) v \<longrightarrow> known (cache_insert w os c) v = map_record w os (known c) v)
    \<and> ca_prefixAudits (cache_insert w os c) = ca_prefixAudits c + card (seen_before w (known c))
    \<and> ca_contradictions (cache_insert w os c) = ca_contradictions c + card (differ w os (known c))
    \<and> cache_lookup c w = (if \<forall>i<length w. known c (take (Suc i) w) \<noteq> None
         then Some (map (\<lambda>i. the (known c (take (Suc i) w))) [0..<length w]) else None)"
  using cache_insert_known [OF assms] lookup_known [of c w] by blast

theorem cache_refines_map_witness:
  "ca_contradictions (cache_insert [0, 1] [7, 8] (cache_insert [0] [9] (Cache 2))) = card (differ [0, 1] [7, 8] (known (cache_insert [0] [9] (Cache 2))))"
proof -
  obtain lab where "cache_tree (cache_insert [0] [9] (Cache 2)) lab" "ca_k (cache_insert [0] [9] (Cache 2)) = 2"
    "ca_contradictions (cache_insert [0] [9] (Cache 2)) = 0"
    using cache_insert_known [OF cache_new_tree [of 2], of "[0]" "[9]"] cache_new_known [where k = 2 and v = "[0]"]
    by (auto simp: Cache_def differ_def seen_before_def)
  then show ?thesis using cache_refines_map [of "cache_insert [0] [9] (Cache 2)" lab "[0, 1]" "[7, 8]"] by simp
qed

end
