(* ===== verification/WMethod.thy ===== *)
theory WMethod
  imports Mealy "HOL-Library.List_Lexorder"
begin

text \<open>
  The characterizing set of \<^verbatim>\<open>reference/salvage/lstar.cpp\<close>: for each pair of states a search for a word that
  separates them, then a greedy cover. Sets of words are iterated in the lexicographic order of
  \<^verbatim>\<open>std::vector\<close>, which is that of lists here.
\<close>

definition ordered :: "nat \<times> nat \<Rightarrow> nat \<times> nat" where
  "ordered p = (if fst p > snd p then (snd p, fst p) else p)"

primrec char_expand ::
  "mealy \<Rightarrow> nat \<times> nat \<Rightarrow> word_in \<Rightarrow> nat list \<Rightarrow> (nat \<times> nat) set \<Rightarrow> pair_queue \<Rightarrow> word_in + (nat \<times> nat) set \<times> pair_queue" where
  "char_expand h st w [] seen Q = Inr (seen, Q)"
| "char_expand h st w (a # as) seen Q =
     (if outp h (fst st) a \<noteq> outp h (snd st) a then Inl (w @ [a])
      else
        (let ns = ordered (nxt h (fst st) a, nxt h (snd st) a) in
         if ns \<in> seen then char_expand h st w as seen Q
         else char_expand h st w as (insert ns seen) (Q @ [(ns, w @ [a])])))"

partial_function (option) char_bfs :: "mealy \<Rightarrow> (nat \<times> nat) set \<Rightarrow> pair_queue \<Rightarrow> word_in option option" where
  "char_bfs h seen Q =
     (case Q of
        [] \<Rightarrow> Some None
      | (st, w) # Q' \<Rightarrow>
          (case char_expand h st w [0..<m_k h] seen Q' of
             Inl c \<Rightarrow> Some (Some c)
           | Inr (seen', Q'') \<Rightarrow> char_bfs h seen' Q''))"

definition state_pairs :: "nat \<Rightarrow> (nat \<times> nat) list" where
  "state_pairs n = concat (map (\<lambda>p. map (\<lambda>q. (p, q)) [p + 1..<n]) [0..<n])"

definition char_pool :: "mealy \<Rightarrow> word_in list option" where
  "char_pool h =
     map_option (\<lambda>ws. sort (remdups (concat (map (\<lambda>r. case r of None \<Rightarrow> [] | Some w \<Rightarrow> [w]) ws))))
       (those (map (\<lambda>pq. char_bfs h {pq} [(pq, [])]) (state_pairs (m_n h))))"

definition separated_by :: "mealy \<Rightarrow> (nat \<times> nat) list \<Rightarrow> word_in \<Rightarrow> (nat \<times> nat) list" where
  "separated_by h need w = filter (\<lambda>pq. mealy_run h (fst pq) w \<noteq> mealy_run h (snd pq) w) need"

primrec best_word :: "mealy \<Rightarrow> (nat \<times> nat) list \<Rightarrow> word_in list \<Rightarrow> word_in option \<times> (nat \<times> nat) list \<Rightarrow> word_in option \<times> (nat \<times> nat) list" where
  "best_word h need [] b = b"
| "best_word h need (w # ws) b =
     (let cov = separated_by h need w in best_word h need ws (if length cov > length (snd b) then (Some w, cov) else b))"

lemma best_word_cases:
  "best_word h need ws b = b \<or> (\<exists>w\<in>set ws. best_word h need ws b = (Some w, separated_by h need w) \<and> separated_by h need w \<noteq> [])"
proof (induction ws arbitrary: b)
  case (Cons v ws)
  show ?case
  proof (cases "length (separated_by h need v) > length (snd b)")
    case True
    then have "separated_by h need v \<noteq> []" by auto
    then show ?thesis using Cons.IH [of "(Some v, separated_by h need v)"] True by (auto simp: Let_def)
  qed (use Cons.IH [of b] in \<open>auto simp: Let_def\<close>)
qed simp

lemma best_word_most:
  "length (snd b) \<le> length (snd (best_word h need ws b)) \<and> (\<forall>w\<in>set ws. length (separated_by h need w) \<le> length (snd (best_word h need ws b)))"
proof (induction ws arbitrary: b)
  case (Cons v ws)
  show ?case using Cons.IH [of "if length (separated_by h need v) > length (snd b) then (Some v, separated_by h need v) else b"]
    by (auto simp: Let_def split: if_splits)
qed simp

lemma best_word_start:
  "(best_word h need ws (None, []) = (None, []) \<and> (\<forall>w\<in>set ws. separated_by h need w = []))
   \<or> (\<exists>w\<in>set ws. best_word h need ws (None, []) = (Some w, separated_by h need w) \<and> separated_by h need w \<noteq> [])"
  using best_word_cases [of h need ws "(None, [])"] best_word_most [of "(None, [])" h need ws] by auto

function cover_loop :: "mealy \<Rightarrow> word_in list \<Rightarrow> (nat \<times> nat) list \<Rightarrow> word_in list \<Rightarrow> word_in list" where
  "cover_loop h pool need W =
     (if need = [] then W
      else
        (case best_word h need pool (None, []) of
           (None, _) \<Rightarrow> W
         | (Some w, cov) \<Rightarrow> cover_loop h pool (filter (\<lambda>pq. pq \<notin> set cov) need) (W @ [w])))"
  by pat_completeness auto
termination
proof (relation "measure (\<lambda>(h, pool, need, W). length need)", goal_cases)
  case (2 h pool need W x cov w)
  then have "cov \<noteq> []" "set cov \<subseteq> set need" using best_word_start [of h need pool] by (auto simp: separated_by_def)
  then obtain pq where "pq \<in> set cov" "pq \<in> set need" using hd_in_set [of cov] by blast
  then show ?case using length_filter_less [of pq need "\<lambda>pq. pq \<notin> set cov"] by simp
qed simp

definition characterizingSet :: "mealy \<Rightarrow> word_in list option" where
  "characterizingSet h = map_option (\<lambda>pool. cover_loop h pool (state_pairs (m_n h)) []) (char_pool h)"

subsection \<open>The search for one pair\<close>

lemma ordered_run: "mealy_run h (fst (ordered p)) v = mealy_run h (snd (ordered p)) v \<longleftrightarrow> mealy_run h (fst p) v = mealy_run h (snd p) v"
  by (auto simp: ordered_def)

lemma ordered_out: "outp h (fst (ordered p)) a = outp h (snd (ordered p)) a \<longleftrightarrow> outp h (fst p) a = outp h (snd p) a"
  by (auto simp: ordered_def)

lemma ordered_next: "ordered (nxt h (fst (ordered p)) a, nxt h (snd (ordered p)) a) = ordered (nxt h (fst p) a, nxt h (snd p) a)"
  by (auto simp: ordered_def)

lemma ordered_range: "ordered p \<in> {..<n} \<times> {..<n} \<longleftrightarrow> p \<in> {..<n} \<times> {..<n}"
  by (cases p) (auto simp: ordered_def)

lemma char_expand_cases:
  "(\<exists>a\<in>set as. char_expand h p w as seen Q = Inl (w @ [a]) \<and> outp h (fst p) a \<noteq> outp h (snd p) a)
   \<or> (\<exists>N. char_expand h p w as seen Q = Inr (seen \<union> fst ` set N, Q @ N)
        \<and> (\<forall>a\<in>set as. outp h (fst p) a = outp h (snd p) a \<and> ordered (nxt h (fst p) a, nxt h (snd p) a) \<in> seen \<union> fst ` set N)
        \<and> (\<forall>(s, u)\<in>set N. \<exists>a\<in>set as. s = ordered (nxt h (fst p) a, nxt h (snd p) a) \<and> u = w @ [a])
        \<and> fst ` set N \<inter> seen = {} \<and> distinct (map fst N))"
proof (induction as arbitrary: seen Q)
  case (Cons a as)
  let ?n = "ordered (nxt h (fst p) a, nxt h (snd p) a)"
  show ?case
  proof (cases "outp h (fst p) a = outp h (snd p) a")
    case True
    show ?thesis
    proof (cases "?n \<in> seen")
      case In: True
      then have "char_expand h p w (a # as) seen Q = char_expand h p w as seen Q" using True by (simp add: Let_def)
      with Cons.IH [of seen Q] True In show ?thesis by (fastforce simp: case_prod_beta)
    next
      case New: False
      let ?e = "(?n, w @ [a])"
      have e: "char_expand h p w (a # as) seen Q = char_expand h p w as (insert ?n seen) (Q @ [?e])" using True New by (simp add: Let_def)
      from Cons.IH [of "insert ?n seen" "Q @ [?e]"] show ?thesis
      proof (elim disjE exE conjE)
        fix N assume N: "char_expand h p w as (insert ?n seen) (Q @ [?e]) = Inr (insert ?n seen \<union> fst ` set N, (Q @ [?e]) @ N)"
          "\<forall>a\<in>set as. outp h (fst p) a = outp h (snd p) a \<and> ordered (nxt h (fst p) a, nxt h (snd p) a) \<in> insert ?n seen \<union> fst ` set N"
          "\<forall>(s, u)\<in>set N. \<exists>a\<in>set as. s = ordered (nxt h (fst p) a, nxt h (snd p) a) \<and> u = w @ [a]"
          "fst ` set N \<inter> insert ?n seen = {}" "distinct (map fst N)"
        show ?thesis by (rule disjI2, rule exI [of _ "?e # N"]) (use e N True New in \<open>auto simp: case_prod_beta\<close>)
      qed (use e in auto)
    qed
  qed auto
qed simp

text \<open>At the head of the loop: the words of the queue do not separate the pair and lead to theirs; what is seen and not queued is explored.\<close>

definition char_inv :: "mealy \<Rightarrow> nat \<times> nat \<Rightarrow> (nat \<times> nat) set \<Rightarrow> pair_queue \<Rightarrow> bool" where
  "char_inv h pq seen Q \<longleftrightarrow>
     (\<forall>(p, w)\<in>set Q. p = ordered (mealy_reach h (fst pq) w, mealy_reach h (snd pq) w) \<and> over (m_k h) w
        \<and> mealy_run h (fst pq) w = mealy_run h (snd pq) w \<and> p \<in> seen)
     \<and> seen \<subseteq> {..<m_n h} \<times> {..<m_n h} \<and> pq \<in> seen
     \<and> (\<forall>p\<in>seen - fst ` set Q. \<forall>a<m_k h. outp h (fst p) a = outp h (snd p) a \<and> ordered (nxt h (fst p) a, nxt h (snd p) a) \<in> seen)"

lemma char_step:
  assumes "char_inv h pq seen ((p, w) # Q)" "mealy_wf h"
    and same: "\<forall>a<m_k h. outp h (fst p) a = outp h (snd p) a \<and> ordered (nxt h (fst p) a, nxt h (snd p) a) \<in> seen \<union> fst ` set N"
    and new: "\<forall>(s, u)\<in>set N. \<exists>a<m_k h. s = ordered (nxt h (fst p) a, nxt h (snd p) a) \<and> u = w @ [a]"
  shows "char_inv h pq (seen \<union> fst ` set N) (Q @ N)"
proof -
  let ?S = "seen \<union> fst ` set N" and ?r = "(mealy_reach h (fst pq) w, mealy_reach h (snd pq) w)"
  have head: "p = ordered ?r" "over (m_k h) w" "mealy_run h (fst pq) w = mealy_run h (snd pq) w" "p \<in> seen"
    using assms(1) by (auto simp: char_inv_def)
  have p: "p \<in> {..<m_n h} \<times> {..<m_n h}" using head(4) assms(1) unfolding char_inv_def by blast
  have old: "s = ordered (mealy_reach h (fst pq) u, mealy_reach h (snd pq) u) \<and> over (m_k h) u
      \<and> mealy_run h (fst pq) u = mealy_run h (snd pq) u \<and> s \<in> seen" if "(s, u) \<in> set Q" for s u
    using assms(1) that unfolding char_inv_def by (metis (mono_tags, lifting) case_prod_conv list.set_intros(2))
  have seen: "seen \<subseteq> {..<m_n h} \<times> {..<m_n h}" "pq \<in> seen" using assms(1) unfolding char_inv_def by blast+
  have fresh: "s = ordered (mealy_reach h (fst pq) u, mealy_reach h (snd pq) u) \<and> over (m_k h) u
      \<and> mealy_run h (fst pq) u = mealy_run h (snd pq) u \<and> s \<in> {..<m_n h} \<times> {..<m_n h}" if su: "(s, u) \<in> set N" for s u
  proof -
    obtain a where a: "a < m_k h" "s = ordered (nxt h (fst p) a, nxt h (snd p) a)" "u = w @ [a]" using new su by blast
    have o: "outp h (fst ?r) a = outp h (snd ?r) a" using same a(1) ordered_out [of h ?r a] head(1) by simp
    have s: "s = ordered (nxt h (fst ?r) a, nxt h (snd ?r) a)" using a(2) ordered_next [of h ?r a] head(1) by simp
    have "(nxt h (fst p) a, nxt h (snd p) a) \<in> {..<m_n h} \<times> {..<m_n h}" using p a(1) assms(2) by (auto simp: mealy_wf_def)
    then have "s \<in> {..<m_n h} \<times> {..<m_n h}" using a(2) ordered_range by simp
    then show ?thesis using a(1,3) o s head by simp
  qed
  have expl: "outp h (fst q) a = outp h (snd q) a \<and> ordered (nxt h (fst q) a, nxt h (snd q) a) \<in> ?S"
    if "q \<in> ?S - fst ` set (Q @ N)" "a < m_k h" for q a
  proof (cases "q = p")
    case False
    then have "q \<in> seen - fst ` set ((p, w) # Q)" using that(1) by auto
    then show ?thesis using assms(1) that(2) unfolding char_inv_def by blast
  qed (use same that(2) in simp)
  show ?thesis unfolding char_inv_def
  proof (intro conjI)
    show "\<forall>(p, w)\<in>set (Q @ N). p = ordered (mealy_reach h (fst pq) w, mealy_reach h (snd pq) w) \<and> over (m_k h) w
        \<and> mealy_run h (fst pq) w = mealy_run h (snd pq) w \<and> p \<in> ?S"
    proof (intro ballI, clarify)
      fix s1 s2 u assume "((s1, s2), u) \<in> set (Q @ N)"
      then show "(s1, s2) = ordered (mealy_reach h (fst pq) u, mealy_reach h (snd pq) u) \<and> over (m_k h) u
          \<and> mealy_run h (fst pq) u = mealy_run h (snd pq) u \<and> (s1, s2) \<in> ?S"
        using old [of "(s1, s2)" u] fresh [of "(s1, s2)" u] by force
    qed
    show "?S \<subseteq> {..<m_n h} \<times> {..<m_n h}"
    proof
      fix s assume "s \<in> ?S"
      then consider "s \<in> seen" | u where "(s, u) \<in> set N" by auto
      then show "s \<in> {..<m_n h} \<times> {..<m_n h}" using fresh seen by cases blast+
    qed
    show "pq \<in> ?S" using seen by blast
    show "\<forall>p\<in>?S - fst ` set (Q @ N). \<forall>a<m_k h. outp h (fst p) a = outp h (snd p) a \<and> ordered (nxt h (fst p) a, nxt h (snd p) a) \<in> ?S"
      using expl by blast
  qed
qed

lemma char_bfs_spec:
  assumes "char_inv h pq seen Q" "mealy_wf h"
  shows "\<exists>res. char_bfs h seen Q = Some res
    \<and> (case res of None \<Rightarrow> \<forall>v. over (m_k h) v \<longrightarrow> mealy_run h (fst pq) v = mealy_run h (snd pq) v
       | Some c \<Rightarrow> over (m_k h) c \<and> mealy_run h (fst pq) c \<noteq> mealy_run h (snd pq) c)"
  using assms(1)
proof (induction "m_n h * m_n h - card seen + length Q" arbitrary: seen Q rule: less_induct)
  case less
  show ?case
  proof (cases Q)
    case Nil
    have all: "\<forall>p\<in>seen. \<forall>a<m_k h. outp h (fst p) a = outp h (snd p) a \<and> ordered (nxt h (fst p) a, nxt h (snd p) a) \<in> seen" "pq \<in> seen"
      using less.prems Nil by (auto simp: char_inv_def)
    have "mealy_run h (fst p) v = mealy_run h (snd p) v" if "over (m_k h) v" "p \<in> seen" for p v
      using that
    proof (induction v arbitrary: p)
      case (Cons a v)
      then have s: "outp h (fst p) a = outp h (snd p) a" "ordered (nxt h (fst p) a, nxt h (snd p) a) \<in> seen" using all(1) by auto
      have "over (m_k h) v" using Cons.prems(1) by simp
      from Cons.IH [OF this s(2)] s(1) ordered_run [of h "(nxt h (fst p) a, nxt h (snd p) a)" v] show ?case by simp
    qed simp
    then show ?thesis using Nil all(2) by (subst char_bfs.simps) simp
  next
    case (Cons e Q')
    obtain p w where e: "e = (p, w)" by (cases e)
    have inv: "char_inv h pq seen ((p, w) # Q')" using less.prems Cons e by simp
    then have pw: "p = ordered (mealy_reach h (fst pq) w, mealy_reach h (snd pq) w)" "over (m_k h) w" by (auto simp: char_inv_def)
    from char_expand_cases [of "[0..<m_k h]" h p w seen Q'] show ?thesis
    proof (elim disjE bexE exE conjE)
      fix a assume a: "a \<in> set [0..<m_k h]" "char_expand h p w [0..<m_k h] seen Q' = Inl (w @ [a])" "outp h (fst p) a \<noteq> outp h (snd p) a"
      then have "outp h (mealy_reach h (fst pq) w) a \<noteq> outp h (mealy_reach h (snd pq) w) a"
        using pw(1) ordered_out [of h "(mealy_reach h (fst pq) w, mealy_reach h (snd pq) w)" a] by simp
      then show ?thesis using Cons e a pw(2) by (subst char_bfs.simps) auto
    next
      fix N assume N: "char_expand h p w [0..<m_k h] seen Q' = Inr (seen \<union> fst ` set N, Q' @ N)"
        "\<forall>a\<in>set [0..<m_k h]. outp h (fst p) a = outp h (snd p) a \<and> ordered (nxt h (fst p) a, nxt h (snd p) a) \<in> seen \<union> fst ` set N"
        "\<forall>(s, u)\<in>set N. \<exists>a\<in>set [0..<m_k h]. s = ordered (nxt h (fst p) a, nxt h (snd p) a) \<and> u = w @ [a]"
        "fst ` set N \<inter> seen = {}" "distinct (map fst N)"
      have inv': "char_inv h pq (seen \<union> fst ` set N) (Q' @ N)"
        by (rule char_step [OF inv assms(2)]) (use N in \<open>auto simp: case_prod_beta\<close>)
      have "m_n h * m_n h - card (seen \<union> fst ` set N) + length (Q' @ N) < m_n h * m_n h - card seen + length Q"
        using bfs_measure [of seen N "m_n h" "m_n h" Q'] inv' N(4,5) Cons by (auto simp: char_inv_def)
      from less.hyps [OF this inv'] show ?thesis using Cons e N(1) by (subst char_bfs.simps) simp
    qed
  qed
qed

subsection \<open>The cover\<close>

declare cover_loop.simps [simp del]

definition tells_apart :: "mealy \<Rightarrow> nat \<times> nat \<Rightarrow> word_in \<Rightarrow> bool" where
  "tells_apart h pq w \<longleftrightarrow> mealy_run h (fst pq) w \<noteq> mealy_run h (snd pq) w"

lemma cover_loop_spec:
  "set W \<subseteq> set (cover_loop h pool need W) \<and> set (cover_loop h pool need W) \<subseteq> set W \<union> set pool
   \<and> (\<forall>pq\<in>set need. (\<exists>w\<in>set pool. tells_apart h pq w) \<longrightarrow> (\<exists>w\<in>set (cover_loop h pool need W). tells_apart h pq w))"
proof (induction h pool need W rule: cover_loop.induct)
  case (1 h pool need W)
  have sep: "separated_by h need w = [] \<longleftrightarrow> (\<forall>pq\<in>set need. \<not> tells_apart h pq w)" for w
    by (auto simp: separated_by_def tells_apart_def filter_empty_conv)
  from best_word_start [of h need pool] show ?case
  proof (elim disjE bexE conjE)
    assume "best_word h need pool (None, []) = (None, [])" "\<forall>w\<in>set pool. separated_by h need w = []"
    then show ?thesis using sep by (subst (1 2 3) cover_loop.simps) auto
  next
    fix w assume w: "w \<in> set pool" "best_word h need pool (None, []) = (Some w, separated_by h need w)" "separated_by h need w \<noteq> []"
    let ?rest = "filter (\<lambda>pq. pq \<notin> set (separated_by h need w)) need"
    have need: "need \<noteq> []" using w(3) by (auto simp: separated_by_def)
    then have eq: "cover_loop h pool need W = cover_loop h pool ?rest (W @ [w])" using w(2) by (subst cover_loop.simps) simp
    have IH: "set (W @ [w]) \<subseteq> set (cover_loop h pool ?rest (W @ [w])) \<and> set (cover_loop h pool ?rest (W @ [w])) \<subseteq> set (W @ [w]) \<union> set pool
        \<and> (\<forall>pq\<in>set ?rest. (\<exists>w\<in>set pool. tells_apart h pq w) \<longrightarrow> (\<exists>v\<in>set (cover_loop h pool ?rest (W @ [w])). tells_apart h pq v))"
      using "1.IH" [OF need w(2) [symmetric] refl] by simp
    have "\<exists>v\<in>set (cover_loop h pool need W). tells_apart h pq v" if "pq \<in> set need" "\<exists>w\<in>set pool. tells_apart h pq w" for pq
    proof (cases "tells_apart h pq w")
      case True
      then show ?thesis using IH eq by auto
    next
      case False
      then have "pq \<in> set ?rest" using that(1) by (simp add: separated_by_def tells_apart_def)
      then show ?thesis unfolding eq using IH that(2) by blast
    qed
    then show ?thesis using IH w(1) unfolding eq by auto
  qed
qed

lemma state_pairs_iff: "(p, q) \<in> set (state_pairs n) \<longleftrightarrow> p < q \<and> q < n"
  unfolding state_pairs_def by (auto intro!: bexI [of _ p])

lemma those_map: "\<forall>x\<in>set xs. \<exists>y. f x = Some y \<Longrightarrow> those (map f xs) = Some (map (\<lambda>x. the (f x)) xs)"
  by (induction xs) auto

lemma char_pair:
  assumes "mealy_wf h" "pq \<in> set (state_pairs (m_n h))"
  shows "\<exists>res. char_bfs h {pq} [(pq, [])] = Some res
    \<and> (case res of None \<Rightarrow> \<forall>v. over (m_k h) v \<longrightarrow> \<not> tells_apart h pq v | Some c \<Rightarrow> over (m_k h) c \<and> tells_apart h pq c)"
proof -
  have "char_inv h pq {pq} [(pq, [])]" 
  proof -
    obtain p q where "pq = (p, q)" by fastforce
    then show ?thesis using assms(2) by (auto simp: char_inv_def ordered_def state_pairs_iff)
  qed
  from char_bfs_spec [OF this assms(1)] show ?thesis unfolding tells_apart_def not_not by blast
qed

lemma char_pool_spec:
  assumes "mealy_wf h"
  shows "\<exists>pool. char_pool h = Some pool \<and> (\<forall>w\<in>set pool. over (m_k h) w)
    \<and> (\<forall>pq\<in>set (state_pairs (m_n h)). (\<exists>v. over (m_k h) v \<and> tells_apart h pq v) \<longrightarrow> (\<exists>w\<in>set pool. tells_apart h pq w))"
proof -
  let ?f = "\<lambda>pq. char_bfs h {pq} [(pq, [])]" and ?g = "\<lambda>r. case r of None \<Rightarrow> [] | Some w \<Rightarrow> [w :: word_in]"
  let ?pairs = "state_pairs (m_n h)"
  let ?pool = "sort (remdups (concat (map ?g (map (\<lambda>pq. the (?f pq)) ?pairs))))"
  have "those (map ?f ?pairs) = Some (map (\<lambda>pq. the (?f pq)) ?pairs)" using char_pair [OF assms] by (intro those_map) blast
  then have "char_pool h = Some ?pool" by (simp add: char_pool_def)
  moreover have mem: "w \<in> set ?pool \<longleftrightarrow> (\<exists>pq\<in>set ?pairs. the (?f pq) = Some w)" for w
  proof -
    have "w \<in> set (?g r) \<longleftrightarrow> r = Some w" for r by (cases r) auto
    then show ?thesis by (simp only: set_sort set_remdups set_concat set_map UN_iff bex_simps image_iff)
  qed
  have "over (m_k h) w" if w: "w \<in> set ?pool" for w
  proof -
    obtain pq where pq: "pq \<in> set ?pairs" "the (?f pq) = Some w" using w unfolding mem by blast
    from char_pair [OF assms pq(1)] pq(2) show ?thesis by (auto simp del: split_paired_All)
  qed
  moreover have "\<exists>w\<in>set ?pool. tells_apart h pq w" if pq: "pq \<in> set ?pairs" and v: "\<exists>v. over (m_k h) v \<and> tells_apart h pq v" for pq
  proof -
    obtain res where r: "?f pq = Some res"
      "case res of None \<Rightarrow> \<forall>v. over (m_k h) v \<longrightarrow> \<not> tells_apart h pq v | Some c \<Rightarrow> over (m_k h) c \<and> tells_apart h pq c"
      using char_pair [OF assms pq] by blast
    then obtain w where "res = Some w" "tells_apart h pq w" using v by (cases res) auto
    then have "the (?f pq) = Some w" "tells_apart h pq w" using r(1) by simp_all
    then have "w \<in> set ?pool" unfolding mem using pq by blast
    then show ?thesis using \<open>tells_apart h pq w\<close> by blast
  qed
  ultimately show ?thesis by blast
qed

lemma characterizing_spec:
  assumes "mealy_wf h"
  shows "\<exists>W. characterizingSet h = Some W \<and> (\<forall>w\<in>set W. over (m_k h) w)
    \<and> (\<forall>p<m_n h. \<forall>q<m_n h. (\<exists>v. over (m_k h) v \<and> mealy_run h p v \<noteq> mealy_run h q v) \<longrightarrow> (\<exists>w\<in>set W. mealy_run h p w \<noteq> mealy_run h q w))"
proof -
  obtain pool where pool: "char_pool h = Some pool" "\<forall>w\<in>set pool. over (m_k h) w"
    "\<forall>pq\<in>set (state_pairs (m_n h)). (\<exists>v. over (m_k h) v \<and> tells_apart h pq v) \<longrightarrow> (\<exists>w\<in>set pool. tells_apart h pq w)"
    using char_pool_spec [OF assms] by blast
  let ?W = "cover_loop h pool (state_pairs (m_n h)) []"
  note c = cover_loop_spec [of "[]" h pool "state_pairs (m_n h)"]
  have "\<exists>w\<in>set ?W. mealy_run h p w \<noteq> mealy_run h q w"
    if pq: "p < m_n h" "q < m_n h" "over (m_k h) v" "mealy_run h p v \<noteq> mealy_run h q v" for p q v
  proof -
    have "\<exists>w\<in>set ?W. tells_apart h (min p q, max p q) w"
    proof -
      have "p \<noteq> q" using pq(4) by auto
      then have "(min p q, max p q) \<in> set (state_pairs (m_n h))" using pq by (auto simp: state_pairs_iff min_def)
      moreover have "tells_apart h (min p q, max p q) v" using pq(4) by (auto simp: tells_apart_def min_def max_def)
      ultimately show ?thesis using c pool(3) pq(3) by blast
    qed
    then show ?thesis by (cases "p \<le> q") (auto simp: tells_apart_def min_def max_def eq_commute)
  qed
  then show ?thesis using pool(1,2) c by (intro exI [of _ ?W]) (auto simp: characterizingSet_def)
qed

text \<open>
  The construction of the characterizing set always ends, and its words tell apart every two states that
  any word of the alphabet tells apart.
\<close>

lemma characterizing_set_separates:
  assumes "mealy_wf h"
  shows "\<exists>W. characterizingSet h = Some W \<and> (\<forall>w\<in>set W. over (m_k h) w)
    \<and> (\<forall>p<m_n h. \<forall>q<m_n h. (\<exists>v. over (m_k h) v \<and> mealy_run h p v \<noteq> mealy_run h q v) \<longrightarrow> (\<exists>w\<in>set W. mealy_run h p w \<noteq> mealy_run h q w))"
  by (rule characterizing_spec [OF assms])

lemma characterizing_set_separates_witness:
  "\<exists>W. characterizingSet tcpServer = Some W \<and> (\<exists>w\<in>set W. mealy_run tcpServer 0 w \<noteq> mealy_run tcpServer 9 w)"
proof -
  have "over (m_k tcpServer) [SYN]" "mealy_run tcpServer 0 [SYN] \<noteq> mealy_run tcpServer 9 [SYN]" "9 < m_n tcpServer" "0 < m_n tcpServer"
    by (simp_all add: tcpServer_tables)
  then show ?thesis using characterizing_set_separates [OF tcpServer_wf] by blast
qed

end
