(* ===== verification/Learner.thy ===== *)
theory Learner
  imports Oracle WMethod
begin

text \<open>
  The learner of \<^verbatim>\<open>reference/salvage/lstar.cpp\<close>: an observation table over a membership oracle, its closing, the
  hypothesis it gives, the analysis of a counterexample by binary search, the three equivalence
  oracles and the main loop. The elapsed time and the messages, which are only printed, are not represented.
\<close>

subsection \<open>State\<close>

record stats =
  st_mq :: nat
  st_resets :: nat
  st_symbols :: nat
  st_cacheHits :: nat
  st_cacheMisses :: nat
  st_rounds :: nat
  st_rsQueries :: nat
  st_ceCount :: nat
  st_eqSuiteSize :: nat
  st_eqTestsRun :: nat
  st_finalStates :: nat
  st_terminated :: bool
  st_correct :: bool
  st_d1_cacheContra :: nat
  st_d2_rsFirstSym :: nat
  st_d3_noNewState :: nat
  st_d4_dupRow :: nat
  st_d5_capHit :: nat
  st_d6_dupSuffix :: nat
  st_voteDisagree :: nat

definition stats_zero :: stats where
  "stats_zero =
     \<lparr>st_mq = 0, st_resets = 0, st_symbols = 0, st_cacheHits = 0, st_cacheMisses = 0, st_rounds = 0, st_rsQueries = 0, st_ceCount = 0,
      st_eqSuiteSize = 0, st_eqTestsRun = 0, st_finalStates = 0, st_terminated = False, st_correct = False, st_d1_cacheContra = 0,
      st_d2_rsFirstSym = 0, st_d3_noNewState = 0, st_d4_dupRow = 0, st_d5_capHit = 0, st_d6_dupSuffix = 0, st_voteDisagree = 0\<rparr>"

record config =
  cf_useE_as_W :: bool
  cf_mExtra :: nat
  cf_perfectEq :: bool
  cf_randomWalkEq :: bool
  cf_rwTests :: nat
  cf_rwStop :: real
  cf_trimCE :: bool
  cf_maxRounds :: nat
  cf_maxStates :: nat
  cf_maxMq :: nat

definition Config :: config where
  "Config =
     \<lparr>cf_useE_as_W = False, cf_mExtra = 0, cf_perfectEq = False, cf_randomWalkEq = False, cf_rwTests = 20000, cf_rwStop = 6 / 100,
      cf_trimCE = True, cf_maxRounds = 400, cf_maxStates = 40, cf_maxMq = 4000000\<rparr>"

text \<open>What a learner is given: the system, the reference machine, the configuration, and its draws of a symbol and of a number.\<close>

record ('x, 'r, 'g) learn_env =
  le_ops :: "'x sul_ops"
  le_uniform :: "'r \<Rightarrow> real \<times> 'r"
  le_ref :: mealy
  le_cfg :: config
  le_pick :: "nat \<Rightarrow> 'g \<Rightarrow> nat \<times> 'g"
  le_chance :: "'g \<Rightarrow> real \<times> 'g"

record ('x, 'r, 'g) learner =
  l_orc :: "('x, 'r) mem_oracle"
  l_S :: "word_in list"
  l_E :: "word_in list"
  l_row :: "word_in \<Rightarrow> out_word list option"
  l_H :: mealy
  l_st :: stats
  l_rng :: 'g

abbreviation le_K :: "('x, 'r, 'g) learn_env \<Rightarrow> nat" where "le_K env \<equiv> m_k (le_ref env)"

definition Learner_new :: "('x, 'r, 'g) learn_env \<Rightarrow> ('x, 'r) mem_oracle \<Rightarrow> 'g \<Rightarrow> ('x, 'r, 'g) learner" where
  "Learner_new env q g =
     \<lparr>l_orc = q, l_S = [[]], l_E = map (\<lambda>a. [a]) [0..<le_K env], l_row = (\<lambda>_. None), l_H = mealy_empty, l_st = stats_zero, l_rng = g\<rparr>"

subsection \<open>The table\<close>

definition lastN :: "out_word \<Rightarrow> nat \<Rightarrow> out_word" where "lastN r n = drop (length r - n) r"

definition l_ask :: "('x, 'r, 'g) learn_env \<Rightarrow> word_in \<Rightarrow> ('x, 'r, 'g) learner \<Rightarrow> out_word \<times> ('x, 'r, 'g) learner" where
  "l_ask env w L = (let (r, q) = query (le_ops env) (le_uniform env) w (l_orc L) in (r, L\<lparr>l_orc := q\<rparr>))"

definition row_at :: "('x, 'r, 'g) learner \<Rightarrow> word_in \<Rightarrow> out_word list" where
  "row_at L u = (case l_row L u of Some r \<Rightarrow> r | None \<Rightarrow> [])"

definition resized :: "nat \<Rightarrow> out_word list \<Rightarrow> out_word list" where
  "resized n r = take n r @ replicate (n - length r) []"

primrec fill_cells ::
  "('x, 'r, 'g) learn_env \<Rightarrow> word_in \<Rightarrow> (word_in \<times> out_word) list \<Rightarrow> ('x, 'r, 'g) learner \<Rightarrow> out_word list \<times> ('x, 'r, 'g) learner" where
  "fill_cells env u [] L = ([], L)"
| "fill_cells env u (ec # cs) L =
     (let (c, L) = (if snd ec \<noteq> [] then (snd ec, L) else (let (r, L) = l_ask env (u @ fst ec) L in (lastN r (length (fst ec)), L)));
          (r, L) = fill_cells env u cs L
      in (c # r, L))"

definition fillRow :: "('x, 'r, 'g) learn_env \<Rightarrow> word_in \<Rightarrow> ('x, 'r, 'g) learner \<Rightarrow> ('x, 'r, 'g) learner" where
  "fillRow env u L =
     (let (r, L) = fill_cells env u (zip (l_E L) (resized (length (l_E L)) (row_at L u))) L in L\<lparr>l_row := (l_row L)(u \<mapsto> r)\<rparr>)"

definition key :: "('x, 'r, 'g) learner \<Rightarrow> word_in \<Rightarrow> u8 list" where
  "key L u = concat (map (\<lambda>ow. map (\<lambda>x. word_of_int (48 + x)) ow @ [124]) (row_at L u))"

definition one_more :: "nat \<Rightarrow> word_in list \<Rightarrow> word_in list" where
  "one_more k S = concat (map (\<lambda>s. map (\<lambda>a. s @ [a]) [0..<k]) S)"

definition fillAll :: "('x, 'r, 'g) learn_env \<Rightarrow> ('x, 'r, 'g) learner \<Rightarrow> ('x, 'r, 'g) learner" where
  "fillAll env L = fold (fillRow env) (concat (map (\<lambda>s. s # map (\<lambda>a. s @ [a]) [0..<le_K env]) (l_S L))) L"

definition closeOnce :: "('x, 'r, 'g) learn_env \<Rightarrow> ('x, 'r, 'g) learner \<Rightarrow> bool \<times> ('x, 'r, 'g) learner" where
  "closeOnce env L =
     (let ks = map (key L) (l_S L) in
      case find (\<lambda>la. key L la \<notin> set ks) (one_more (le_K env) (l_S L)) of
        Some la \<Rightarrow> (True, fillAll env (L\<lparr>l_S := l_S L @ [la]\<rparr>))
      | None \<Rightarrow> (False, L))"

lemma l_ask_table: "l_S (snd (l_ask env w L)) = l_S L" "l_E (snd (l_ask env w L)) = l_E L" "l_row (snd (l_ask env w L)) = l_row L"
  "l_H (snd (l_ask env w L)) = l_H L" "l_st (snd (l_ask env w L)) = l_st L" "l_rng (snd (l_ask env w L)) = l_rng L"
  by (simp_all add: l_ask_def case_prod_beta Let_def)

lemma fill_cells_table: "l_S (snd (fill_cells env u cs L)) = l_S L" "l_E (snd (fill_cells env u cs L)) = l_E L"
  "l_row (snd (fill_cells env u cs L)) = l_row L" "l_H (snd (fill_cells env u cs L)) = l_H L" "l_st (snd (fill_cells env u cs L)) = l_st L"
  by (induction cs arbitrary: L) (simp_all add: case_prod_beta Let_def l_ask_table)

lemma fillRow_table: "l_S (fillRow env u L) = l_S L" "l_E (fillRow env u L) = l_E L" "l_H (fillRow env u L) = l_H L" "l_st (fillRow env u L) = l_st L"
  by (simp_all add: fillRow_def case_prod_beta Let_def fill_cells_table)

lemma fill_fold_table: "l_S (fold (fillRow env) us L) = l_S L" "l_E (fold (fillRow env) us L) = l_E L"
  "l_H (fold (fillRow env) us L) = l_H L" "l_st (fold (fillRow env) us L) = l_st L"
  by (induction us arbitrary: L) (simp_all add: fillRow_table)

lemma fillAll_table: "l_S (fillAll env L) = l_S L" "l_E (fillAll env L) = l_E L" "l_H (fillAll env L) = l_H L" "l_st (fillAll env L) = l_st L"
  by (simp_all add: fillAll_def fill_fold_table)

function close_loop :: "('x, 'r, 'g) learn_env \<Rightarrow> ('x, 'r, 'g) learner \<Rightarrow> ('x, 'r, 'g) learner" where
  "close_loop env L =
     (let (more, L') = closeOnce env L
      in if \<not> more then L' else if length (l_S L') > cf_maxStates (le_cfg env) then L' else close_loop env L')"
  by pat_completeness auto
termination
proof (relation "measure (\<lambda>(env, L). cf_maxStates (le_cfg env) + 1 - length (l_S L))", goal_cases)
  case (2 env L x more L')
  then show ?case by (auto simp: closeOnce_def fillAll_table split: option.splits)
qed simp

declare close_loop.simps [simp del]

subsection \<open>The hypothesis\<close>

definition key_index :: "('x, 'r, 'g) learner \<Rightarrow> u8 list \<Rightarrow> nat option" where
  "key_index L k = find (\<lambda>i. key L (l_S L ! i) = k) (rev [0..<length (l_S L)])"

definition dup_keys :: "('x, 'r, 'g) learner \<Rightarrow> nat" where
  "dup_keys L = length (filter (\<lambda>i. key L (l_S L ! i) \<in> set (map (\<lambda>j. key L (l_S L ! j)) [0..<i])) [0..<length (l_S L)])"

abbreviation upd_st :: "(stats \<Rightarrow> stats) \<Rightarrow> ('x, 'r, 'g) learner \<Rightarrow> ('x, 'r, 'g) learner" where
  "upd_st f L \<equiv> L\<lparr>l_st := f (l_st L)\<rparr>"

definition hyp_of :: "('x, 'r, 'g) learn_env \<Rightarrow> ('x, 'r, 'g) learner \<Rightarrow> mealy" where
  "hyp_of env L =
     (let n = length (l_S L); k = le_K env
      in \<lparr>m_n = n, m_k = k,
          m_d = map (\<lambda>i. map (\<lambda>a. case key_index L (key L (l_S L ! i @ [a])) of None \<Rightarrow> i | Some j \<Rightarrow> j) [0..<k]) [0..<n],
          m_o = map (\<lambda>i. map (\<lambda>a. hd (row_at L (l_S L ! i) ! a)) [0..<k]) [0..<n],
          m_chal = replicate n (replicate k False)\<rparr>)"

definition buildHyp :: "('x, 'r, 'g) learn_env \<Rightarrow> ('x, 'r, 'g) learner \<Rightarrow> ('x, 'r, 'g) learner" where
  "buildHyp env L = upd_st (\<lambda>s. s\<lparr>st_d4_dupRow := st_d4_dupRow s + dup_keys L\<rparr>) (L\<lparr>l_H := hyp_of env L\<rparr>)"

definition hypState :: "('x, 'r, 'g) learner \<Rightarrow> word_in \<Rightarrow> nat" where "hypState L w = mealy_reach (l_H L) 0 w"

subsection \<open>The analysis of a counterexample\<close>

definition rs_beta :: "('x, 'r, 'g) learn_env \<Rightarrow> word_in \<Rightarrow> nat \<Rightarrow> ('x, 'r, 'g) learner \<Rightarrow> out_word \<times> ('x, 'r, 'g) learner" where
  "rs_beta env ce i L =
     (let pre = take i ce; suf = drop i ce;
          w = l_S L ! hypState L pre @ suf;
          L = upd_st (\<lambda>s. s\<lparr>st_rsQueries := st_rsQueries s + 1\<rparr>) L;
          (r, L) = l_ask env w L
      in (lastN r (length suf), L))"

definition rs_hOut :: "word_in \<Rightarrow> nat \<Rightarrow> ('x, 'r, 'g) learner \<Rightarrow> out_word" where
  "rs_hOut ce i L = mealy_run (l_H L) (hypState L (take i ce)) (drop i ce)"

function rs_search :: "('x, 'r, 'g) learn_env \<Rightarrow> word_in \<Rightarrow> nat \<Rightarrow> nat \<Rightarrow> ('x, 'r, 'g) learner \<Rightarrow> nat \<times> ('x, 'r, 'g) learner" where
  "rs_search env ce lo hi L =
     (if hi - lo > 1 then
        (let mid = lo + (hi - lo) div 2; (b, L') = rs_beta env ce mid L
         in if b \<noteq> rs_hOut ce mid L then rs_search env ce mid hi L' else rs_search env ce lo mid L')
      else (lo, L))"
  by pat_completeness auto
termination by (relation "measure (\<lambda>(env, ce, lo, hi, L). hi - lo)") auto

declare rs_search.simps [simp del]

definition rivestSchapire ::
  "('x, 'r, 'g) learn_env \<Rightarrow> word_in \<Rightarrow> ('x, 'r, 'g) learner \<Rightarrow> word_in option \<times> ('x, 'r, 'g) learner" where
  "rivestSchapire env ce L =
     (let (lo, L) = rs_search env ce 0 (length ce) L;
          (b, L) = rs_beta env ce lo L;
          h = rs_hOut ce lo L;
          suffix = drop (lo + 1) ce
      in if b = [] \<or> hd b \<noteq> hd h then (None, upd_st (\<lambda>s. s\<lparr>st_d2_rsFirstSym := st_d2_rsFirstSym s + 1\<rparr>) L)
         else if suffix = [] then (None, upd_st (\<lambda>s. s\<lparr>st_d2_rsFirstSym := st_d2_rsFirstSym s + 1\<rparr>) L)
         else if suffix \<in> set (l_E L) then (None, upd_st (\<lambda>s. s\<lparr>st_d6_dupSuffix := st_d6_dupSuffix s + 1\<rparr>) L)
         else (Some suffix, L))"

subsection \<open>Equivalence\<close>

definition l_test :: "('x, 'r, 'g) learn_env \<Rightarrow> word_in \<Rightarrow> ('x, 'r, 'g) learner \<Rightarrow> bool \<times> ('x, 'r, 'g) learner" where
  "l_test env t L =
     (let L = upd_st (\<lambda>s. s\<lparr>st_eqTestsRun := st_eqTestsRun s + 1\<rparr>) L; (so, L) = l_ask env t L
      in (so \<noteq> mealy_run (l_H L) 0 t, L))"

primrec run_suite :: "('x, 'r, 'g) learn_env \<Rightarrow> word_in list \<Rightarrow> ('x, 'r, 'g) learner \<Rightarrow> word_in option \<times> ('x, 'r, 'g) learner" where
  "run_suite env [] L = (None, L)"
| "run_suite env (t # ts) L = (let (bad, L) = l_test env t L in if bad then (Some t, L) else run_suite env ts L)"

primrec middle_words :: "nat \<Rightarrow> nat \<Rightarrow> word_in list \<Rightarrow> word_in list \<Rightarrow> word_in list" where
  "middle_words k 0 mid frontier = mid"
| "middle_words k (Suc n) mid frontier = (let nf = one_more k frontier in middle_words k n (mid @ nf) nf)"

definition w_suite :: "word_in list \<Rightarrow> word_in list \<Rightarrow> word_in list \<Rightarrow> word_in list" where
  "w_suite S mid W = sort (remdups (concat (map (\<lambda>s. concat (map (\<lambda>mw. map (\<lambda>w. (s @ mw) @ w) W) mid)) S)))"

definition eqWMethod :: "('x, 'r, 'g) learn_env \<Rightarrow> ('x, 'r, 'g) learner \<Rightarrow> (word_in option \<times> ('x, 'r, 'g) learner) option" where
  "eqWMethod env L =
     map_option (\<lambda>W.
       let W = (if W = [] then [[0]] else W);
           suite = w_suite (l_S L) (middle_words (le_K env) (1 + cf_mExtra (le_cfg env)) [[]] [[]]) W
       in run_suite env suite (upd_st (\<lambda>s. s\<lparr>st_eqSuiteSize := length suite\<rparr>) L))
       (if cf_useE_as_W (le_cfg env) then Some (l_E L) else characterizingSet (l_H L))"

function random_word :: "('x, 'r, 'g) learn_env \<Rightarrow> word_in \<Rightarrow> 'g \<Rightarrow> word_in \<times> 'g" where
  "random_word env w g =
     (let (u, g) = le_chance env g
      in if u > cf_rwStop (le_cfg env) \<and> length w < 60
         then (let (a, g) = le_pick env (le_K env) g in random_word env (w @ [a]) g)
         else (w, g))"
  by pat_completeness auto
termination by (relation "measure (\<lambda>(env, w, g). 60 - length w)") auto

declare random_word.simps [simp del]

primrec eqRandomWalk :: "nat \<Rightarrow> ('x, 'r, 'g) learn_env \<Rightarrow> ('x, 'r, 'g) learner \<Rightarrow> word_in option \<times> ('x, 'r, 'g) learner" where
  "eqRandomWalk 0 env L = (None, L)"
| "eqRandomWalk (Suc n) env L =
     (let (a, g) = le_pick env (le_K env) (l_rng L); (w, g) = random_word env [a] g; (bad, L) = l_test env w (L\<lparr>l_rng := g\<rparr>)
      in if bad then (Some w, L) else eqRandomWalk n env L)"

definition equivalence :: "('x, 'r, 'g) learn_env \<Rightarrow> ('x, 'r, 'g) learner \<Rightarrow> (word_in option \<times> ('x, 'r, 'g) learner) option" where
  "equivalence env L =
     (if cf_perfectEq (le_cfg env) then map_option (\<lambda>c. (c, L)) (eqPerfect (l_H L) (le_ref env) (le_K env))
      else if cf_randomWalkEq (le_cfg env) then Some (eqRandomWalk (cf_rwTests (le_cfg env)) env L)
      else eqWMethod env L)"

subsection \<open>The main loop\<close>

definition trim_ce :: "('x, 'r, 'g) learn_env \<Rightarrow> word_in \<Rightarrow> ('x, 'r, 'g) learner \<Rightarrow> word_in \<times> ('x, 'r, 'g) learner" where
  "trim_ce env c L =
     (if cf_trimCE (le_cfg env) then
        (let (so, L) = l_ask env c L;
             j = length (takeWhile (\<lambda>(x, y). x = y) (zip so (mealy_run (l_H L) 0 c)))
         in (if j < length c then take (j + 1) c else c, L))
      else (c, L))"

definition dup_rows :: "('x, 'r, 'g) learner \<Rightarrow> nat" where
  "dup_rows L = length (l_S L) - length (remdups (map (key L) (l_S L)))"

definition cap_hit :: "('x, 'r, 'g) learn_env \<Rightarrow> ('x, 'r, 'g) learner \<Rightarrow> bool" where
  "cap_hit env L \<longleftrightarrow>
     length (l_S L) > cf_maxStates (le_cfg env) \<or> st_rounds (l_st L) > cf_maxRounds (le_cfg env) \<or> or_mq (l_orc L) > cf_maxMq (le_cfg env)"

text \<open>The table closed and the hypothesis built, as at the head of a round.\<close>

definition round_start :: "('x, 'r, 'g) learn_env \<Rightarrow> ('x, 'r, 'g) learner \<Rightarrow> ('x, 'r, 'g) learner" where
  "round_start env L =
     (let L = close_loop env L; L = upd_st (\<lambda>s. s\<lparr>st_d4_dupRow := st_d4_dupRow s + dup_rows L\<rparr>) L in buildHyp env L)"

text \<open>What is done with a counterexample; whether another round follows.\<close>

definition use_ce :: "('x, 'r, 'g) learn_env \<Rightarrow> word_in \<Rightarrow> ('x, 'r, 'g) learner \<Rightarrow> bool \<times> ('x, 'r, 'g) learner" where
  "use_ce env ce L =
     (let L = upd_st (\<lambda>s. s\<lparr>st_ceCount := st_ceCount s + 1\<rparr>) L;
          (c, L) = trim_ce env ce L;
          n = length (l_S L);
          (suf, L) = rivestSchapire env c L
      in case suf of
           None \<Rightarrow> (False, L)
         | Some e \<Rightarrow>
             (let L = close_loop env (fillAll env (L\<lparr>l_E := l_E L @ [e]\<rparr>))
              in if length (l_S L) = n then (False, upd_st (\<lambda>s. s\<lparr>st_d3_noNewState := st_d3_noNewState s + 1\<rparr>) L)
                 else (True, buildHyp env L)))"

partial_function (option) learn_loop :: "('x, 'r, 'g) learn_env \<Rightarrow> ('x, 'r, 'g) learner \<Rightarrow> ('x, 'r, 'g) learner option" where
  "learn_loop env L =
     (let L = round_start env L in
      if cap_hit env L then Some (upd_st (\<lambda>s. s\<lparr>st_d5_capHit := st_d5_capHit s + 1\<rparr>) L)
      else
        (let L = upd_st (\<lambda>s. s\<lparr>st_rounds := st_rounds s + 1\<rparr>) L in
         case equivalence env L of
           None \<Rightarrow> None
         | Some (None, L) \<Rightarrow> Some (upd_st (\<lambda>s. s\<lparr>st_terminated := True\<rparr>) L)
         | Some (Some ce, L) \<Rightarrow> (let (more, L) = use_ce env ce L in if more then learn_loop env L else Some L)))"

definition final_stats :: "('x, 'r, 'g) learn_env \<Rightarrow> ('x, 'r, 'g) learner \<Rightarrow> stats \<Rightarrow> stats" where
  "final_stats env L s =
     (let q = l_orc L
      in s\<lparr>st_mq := or_mq q, st_resets := sul_resets (le_ops env) (or_sul q), st_symbols := sul_steps (le_ops env) (or_sul q),
           st_cacheHits := ca_hits (or_cache q), st_cacheMisses := ca_misses (or_cache q),
           st_d1_cacheContra := ca_contradictions (or_cache q) + or_auditContradictions q,
           st_voteDisagree := or_voteDisagreements q, st_finalStates := length (l_S L)\<rparr>)"

definition learn_run :: "('x, 'r, 'g) learn_env \<Rightarrow> ('x, 'r, 'g) learner \<Rightarrow> ('x, 'r, 'g) learner option" where
  "learn_run env L =
     Option.bind (learn_loop env (fillAll env L)) (\<lambda>L.
       let L = buildHyp env (upd_st (final_stats env L) L)
       in if st_terminated (l_st L)
          then map_option (\<lambda>c. upd_st (\<lambda>s. s\<lparr>st_correct := (c = None)\<rparr>) L) (eqPerfect (l_H L) (le_ref env) (le_K env))
          else Some (upd_st (\<lambda>s. s\<lparr>st_correct := False\<rparr>) L))"

end
