(* ===== verification/LearnerRun.thy ===== *)
theory LearnerRun
  imports Learner
begin

text \<open>
  What the learner achieves on a deterministic system: the table holds the answers of the machine, the rows of
  the access words stay distinct, every counterexample yields a suffix that splits two of them, and the loop
  ends with a hypothesis equivalent to the machine. None of the detectors of nondeterminism fires.
\<close>

subsection \<open>The true table\<close>

definition ent :: "mealy \<Rightarrow> word_in \<Rightarrow> word_in \<Rightarrow> out_word" where
  "ent m u e = mealy_run m (mealy_reach m 0 u) e"

lemma lastN_run [simp]: "lastN (mealy_run m 0 u @ mealy_run m (mealy_reach m 0 u) e) (length e) = ent m u e"
  by (simp add: lastN_def ent_def)

lemma map_zip_fst: "length xs = length ys \<Longrightarrow> map (\<lambda>p. f (fst p)) (zip xs ys) = map f xs"
  by (induction xs ys rule: list_induct2) simp_all

lemma ent_Cons: "ent m u (a # e) = outp m (mealy_reach m 0 u) a # ent m (u @ [a]) e"
  by (simp add: ent_def)

lemma ent_Nil_iff [simp]: "ent m u e = [] \<longleftrightarrow> e = []" "length (ent m u e) = length e"
  by (simp_all add: ent_def)

definition same :: "mealy \<Rightarrow> word_in list \<Rightarrow> word_in \<Rightarrow> word_in \<Rightarrow> bool" where
  "same m E u v \<longleftrightarrow> (\<forall>e\<in>set E. ent m u e = ent m v e)"

lemma same_refl [simp]: "same m E u u"
  by (simp add: same_def)

lemma same_sym: "same m E u v \<Longrightarrow> same m E v u"
  by (simp add: same_def)

lemma same_trans: "same m E u v \<Longrightarrow> same m E v w \<Longrightarrow> same m E u w"
  by (simp add: same_def)

definition small_out :: "mealy \<Rightarrow> bool" where
  "small_out m \<longleftrightarrow> (\<forall>s<m_n m. \<forall>a<m_k m. 0 \<le> outp m s a \<and> outp m s a < 208)"

lemma small_run: "small_out m \<Longrightarrow> mealy_wf m \<Longrightarrow> s < m_n m \<Longrightarrow> over (m_k m) w \<Longrightarrow> x \<in> set (mealy_run m s w) \<Longrightarrow> 0 \<le> x \<and> x < 208"
proof (induction w arbitrary: s)
  case (Cons a w)
  then have "a < m_k m" "nxt m s a < m_n m" "over (m_k m) w" by (auto simp: mealy_wf_def)
  then show ?case using Cons.IH [of "nxt m s a"] Cons.prems by (auto simp: small_out_def)
qed simp

definition columns_ok :: "mealy \<Rightarrow> word_in list \<Rightarrow> bool" where
  "columns_ok m E \<longleftrightarrow> (\<forall>e\<in>set E. e \<noteq> [] \<and> over (m_k m) e) \<and> m_k m \<le> length E \<and> (\<forall>a<m_k m. E ! a = [a])"

text \<open>Rows in the table are those of the machine, perhaps from before the last columns were added.\<close>

definition rows_true :: "mealy \<Rightarrow> ('x, 'r, 'g) learner \<Rightarrow> bool" where
  "rows_true m L \<longleftrightarrow> (\<forall>u r. l_row L u = Some r \<longrightarrow> (\<exists>n\<le>length (l_E L). r = map (ent m u) (take n (l_E L))))"

definition filled :: "mealy \<Rightarrow> ('x, 'r, 'g) learner \<Rightarrow> word_in \<Rightarrow> bool" where
  "filled m L u \<longleftrightarrow> l_row L u = Some (map (ent m u) (l_E L))"

lemma filled_row_at: "filled m L u \<Longrightarrow> row_at L u = map (ent m u) (l_E L)"
  by (simp add: filled_def row_at_def)

text \<open>Rows have the same key exactly when they are the same.\<close>

lemma key_eq_iff:
  assumes "filled m L u" "filled m L v" "columns_ok m (l_E L)" "small_out m" "mealy_wf m" "over (m_k m) u" "over (m_k m) v"
  shows "key L u = key L v \<longleftrightarrow> same m (l_E L) u v"
proof -
  let ?f = "\<lambda>x. word_of_int (48 + x) :: u8" and ?E = "l_E L"
  let ?g = "\<lambda>ow. map ?f ow @ [124]"
  have inj: "x = y" if "0 \<le> x" "x < 208" "0 \<le> y" "y < 208" "?f x = ?f y" for x y :: int
  proof -
    have u: "uint (word_of_int z :: u8) = z" if "0 \<le> z" "z < 256" for z using that by (simp add: unsigned_of_int take_bit_int_eq_self)
    have "48 + x = uint (?f x)" by (rule u [symmetric]) (use that(1,2) in simp_all)
    also have "\<dots> = uint (?f y)" by (rule arg_cong [OF that(5)])
    also have "\<dots> = 48 + y" by (rule u) (use that(3,4) in simp_all)
    finally show ?thesis by simp
  qed
  have n: "0 < m_n m" using assms(5) by (simp add: mealy_wf_def)
  have small: "0 \<le> x \<and> x < 208" if "x \<in> set (ent m w e)" "e \<in> set ?E" "over (m_k m) w" for x w e
    using small_run [OF assms(4,5) mealy_reach_range [OF assms(5) n that(3)]] that assms(3) by (auto simp: ent_def columns_ok_def)
  have eq: "?g (ent m u e) = ?g (ent m v e) \<longleftrightarrow> ent m u e = ent m v e" if e: "e \<in> set ?E" for e
  proof
    assume "?g (ent m u e) = ?g (ent m v e)"
    then have "map ?f (ent m u e) = map ?f (ent m v e)" by simp
    then show "ent m u e = ent m v e"
      by (rule map_inj_on [OF _ inj_onI]) (use inj small e assms(6,7) in auto)
  qed simp
  have k: "key L w = concat (map (\<lambda>e. ?g (ent m w e)) ?E)" if "filled m L w" for w
    using filled_row_at [OF that] by (simp add: key_def comp_def)
  have "key L u = key L v \<longleftrightarrow> map (\<lambda>e. ?g (ent m u e)) ?E = map (\<lambda>e. ?g (ent m v e)) ?E"
    unfolding k [OF assms(1)] k [OF assms(2)] by (rule concat_eq_concat_iff) (auto simp: zip_map1 zip_map2 zip_same_conv_map)
  also have "\<dots> \<longleftrightarrow> same m ?E u v" using eq by (simp add: same_def)
  finally show ?thesis .
qed

subsection \<open>Filling\<close>

definition serves :: "'x sul_ops \<Rightarrow> mealy \<Rightarrow> ('x, 'r, 'g) learn_env \<Rightarrow> bool" where
  "serves P m env \<longleftrightarrow> le_ops env = P \<and> le_ref env = m"

definition table_ok :: "'x set \<Rightarrow> mealy \<Rightarrow> ('x, 'r, 'g) learner \<Rightarrow> bool" where
  "table_ok X m L \<longleftrightarrow> or_ok X m (l_orc L) \<and> columns_ok m (l_E L) \<and> rows_true m L"

lemma no_alarm_trans: "no_alarm a b \<Longrightarrow> no_alarm b c \<Longrightarrow> no_alarm a c"
  by (simp add: no_alarm_def)

lemma no_alarm_refl [simp]: "no_alarm a a"
  by (simp add: no_alarm_def)

lemma filled_cong: "l_row L' u = l_row L u \<Longrightarrow> l_E L' = l_E L \<Longrightarrow> filled m L' u = filled m L u"
  by (simp add: filled_def)

context deterministic_sul
begin

lemma l_ask_sim:
  assumes "serves P m env" "or_ok X m (l_orc L)" "over (m_k m) w"
  shows "fst (l_ask env w L) = mealy_run m 0 w" "or_ok X m (l_orc (snd (l_ask env w L)))" "no_alarm (l_orc L) (l_orc (snd (l_ask env w L)))"
  using query_sim [OF assms(2,3), of "le_uniform env"] assms(1) by (simp_all add: l_ask_def serves_def case_prod_beta Let_def)

lemma fill_cells_sim:
  assumes "serves P m env" "or_ok X m (l_orc L)" "over (m_k m) u" "\<forall>ec\<in>set cs. over (m_k m) (fst ec) \<and> (snd ec = [] \<or> snd ec = ent m u (fst ec))"
  shows "fst (fill_cells env u cs L) = map (\<lambda>ec. ent m u (fst ec)) cs \<and> or_ok X m (l_orc (snd (fill_cells env u cs L)))
    \<and> no_alarm (l_orc L) (l_orc (snd (fill_cells env u cs L)))"
  using assms(2,4)
proof (induction cs arbitrary: L)
  case (Cons ec cs)
  show ?case
  proof (cases "snd ec = []")
    case True
    have w: "over (m_k m) (u @ fst ec)" using assms(3) Cons.prems(2) by simp
    note a = l_ask_sim [OF assms(1) Cons.prems(1) w]
    from Cons.IH [OF a(2)] Cons.prems(2) a True show ?thesis by (auto simp: case_prod_beta Let_def no_alarm_def)
  next
    case False
    then show ?thesis using Cons.IH [OF Cons.prems(1)] Cons.prems(2) by (auto simp: case_prod_beta Let_def)
  qed
qed (simp add: no_alarm_def)

lemma fillRow_sim:
  assumes "serves P m env" "table_ok X m L" "over (m_k m) u"
  shows "table_ok X m (fillRow env u L)" "filled m (fillRow env u L) u" "v \<noteq> u \<Longrightarrow> l_row (fillRow env u L) v = l_row L v"
    "no_alarm (l_orc L) (l_orc (fillRow env u L))"
proof -
  let ?E = "l_E L" and ?n = "length (l_E L)"
  let ?cs = "zip ?E (resized ?n (row_at L u))"
  have t: "or_ok X m (l_orc L)" "columns_ok m ?E" "rows_true m L" using assms(2) by (auto simp: table_ok_def)
  obtain j where j: "j \<le> ?n" "row_at L u = map (ent m u) (take j ?E)"
    using t(3) by (cases "l_row L u") (auto simp: rows_true_def row_at_def intro: that [of 0])
  then have len: "length (resized ?n (row_at L u)) = ?n" by (simp add: resized_def)
  have cell: "resized ?n (row_at L u) ! i = (if i < j then ent m u (?E ! i) else [])" if "i < ?n" for i
    using that j by (auto simp: resized_def nth_append)
  have "\<forall>ec\<in>set ?cs. over (m_k m) (fst ec) \<and> (snd ec = [] \<or> snd ec = ent m u (fst ec))"
    using t(2) cell len by (auto simp: set_zip columns_ok_def)
  note f = fill_cells_sim [OF assms(1) t(1) assms(3) this]
  have r: "fst (fill_cells env u ?cs L) = map (ent m u) ?E" using f map_zip_fst [of ?E "resized ?n (row_at L u)" "ent m u"] len by simp
  have eq: "fillRow env u L = (snd (fill_cells env u ?cs L))\<lparr>l_row := (l_row L)(u \<mapsto> map (ent m u) ?E)\<rparr>"
    using r by (simp add: fillRow_def case_prod_beta Let_def fill_cells_table)
  show "filled m (fillRow env u L) u" "v \<noteq> u \<Longrightarrow> l_row (fillRow env u L) v = l_row L v" "no_alarm (l_orc L) (l_orc (fillRow env u L))"
    using f by (simp_all add: eq filled_def fill_cells_table)
  have "rows_true m (fillRow env u L)" using t(3) by (auto simp: eq rows_true_def fill_cells_table intro: exI [of _ ?n])
  then show "table_ok X m (fillRow env u L)" using f t(2) by (simp add: table_ok_def fillRow_table) (simp add: eq)
qed

lemma fill_fold_sim:
  assumes "serves P m env" "table_ok X m L" "\<forall>u\<in>set us. over (m_k m) u"
  shows "table_ok X m (fold (fillRow env) us L) \<and> (\<forall>u. u \<in> set us \<or> filled m L u \<longrightarrow> filled m (fold (fillRow env) us L) u)
    \<and> no_alarm (l_orc L) (l_orc (fold (fillRow env) us L))"
  using assms(2,3)
proof (induction us arbitrary: L)
  case (Cons u us)
  have u: "over (m_k m) u" using Cons.prems(2) by simp
  note r = fillRow_sim [OF assms(1) Cons.prems(1) u]
  have keep: "filled m (fillRow env u L) v" if "filled m L v \<or> v = u" for v
    using that r(2) r(3) [of v] filled_cong [of "fillRow env u L" v L] fillRow_table(2) [of env u L] by blast
  from Cons.IH [OF r(1)] Cons.prems(2) keep no_alarm_trans [OF r(4)] show ?case by auto
qed (simp add: no_alarm_def)

end

subsection \<open>Closing\<close>

definition rows_distinct :: "mealy \<Rightarrow> word_in list \<Rightarrow> word_in list \<Rightarrow> bool" where
  "rows_distinct m E S \<longleftrightarrow> (\<forall>i<length S. \<forall>j<length S. same m E (S ! i) (S ! j) \<longrightarrow> i = j)"

definition all_filled :: "mealy \<Rightarrow> ('x, 'r, 'g) learner \<Rightarrow> bool" where
  "all_filled m L \<longleftrightarrow> (\<forall>u\<in>set (l_S L) \<union> set (one_more (m_k m) (l_S L)). filled m L u)"

definition linv :: "'x set \<Rightarrow> mealy \<Rightarrow> ('x, 'r, 'g) learner \<Rightarrow> bool" where
  "linv X m L \<longleftrightarrow> table_ok X m L \<and> all_filled m L \<and> rows_distinct m (l_E L) (l_S L) \<and> l_S L \<noteq> [] \<and> l_S L ! 0 = []
     \<and> (\<forall>s\<in>set (l_S L). over (m_k m) s)"

definition closed :: "mealy \<Rightarrow> ('x, 'r, 'g) learner \<Rightarrow> bool" where
  "closed m L \<longleftrightarrow> (\<forall>la\<in>set (one_more (m_k m) (l_S L)). \<exists>s\<in>set (l_S L). same m (l_E L) la s)"

lemma one_more_iff: "la \<in> set (one_more k S) \<longleftrightarrow> (\<exists>s\<in>set S. \<exists>a<k. la = s @ [a])"
  unfolding one_more_def by (auto simp: image_iff)

lemma one_more_over: "\<forall>s\<in>set S. over k s \<Longrightarrow> la \<in> set (one_more k S) \<Longrightarrow> over k la"
  unfolding one_more_iff by fastforce

lemma same_reach: "mealy_reach m 0 u = mealy_reach m 0 v \<Longrightarrow> same m E u v"
  by (simp add: same_def ent_def)

lemma rows_distinct_snoc:
  assumes "rows_distinct m E S" "\<not> (\<exists>s\<in>set S. same m E la s)"
  shows "rows_distinct m E (S @ [la])"
  unfolding rows_distinct_def
proof (intro allI impI)
  fix i j assume ij: "i < length (S @ [la])" "j < length (S @ [la])" "same m E ((S @ [la]) ! i) ((S @ [la]) ! j)"
  have no: "\<not> same m E la (S ! n)" "\<not> same m E (S ! n) la" if "n < length S" for n
    using assms(2) that same_sym nth_mem by blast+
  then show "i = j" using ij assms(1) by (auto simp: rows_distinct_def nth_append less_Suc_eq split: if_splits)
qed

text \<open>There are no more access words than states.\<close>

lemma access_bound:
  assumes "linv X m L" "mealy_wf m"
  shows "length (l_S L) \<le> m_n m"
proof -
  let ?r = "map (mealy_reach m 0) (l_S L)"
  have "distinct ?r"
    using assms(1) same_reach unfolding distinct_conv_nth linv_def rows_distinct_def by (metis length_map nth_map)
  moreover have "set ?r \<subseteq> {..<m_n m}" using assms mealy_reach_range [OF assms(2), of 0] by (auto simp: linv_def mealy_wf_def)
  ultimately show ?thesis using card_mono [of "{..<m_n m}" "set ?r"] distinct_card [of ?r] by simp
qed

lemma linv_key:
  assumes "linv X m L" "small_out m" "mealy_wf m" "u \<in> set (l_S L) \<union> set (one_more (m_k m) (l_S L))" "v \<in> set (l_S L)"
  shows "key L u = key L v \<longleftrightarrow> same m (l_E L) u v"
  using assms one_more_over [of "l_S L" "m_k m"]
  by (intro key_eq_iff) (auto simp: linv_def all_filled_def table_ok_def)

context deterministic_sul
begin

lemma fillAll_sim:
  assumes "serves P m env" "table_ok X m L" "\<forall>s\<in>set (l_S L). over (m_k m) s"
  shows "table_ok X m (fillAll env L)" "all_filled m (fillAll env L)" "no_alarm (l_orc L) (l_orc (fillAll env L))"
proof -
  let ?us = "concat (map (\<lambda>s. s # map (\<lambda>a. s @ [a]) [0..<le_K env]) (l_S L))"
  have k: "le_K env = m_k m" using assms(1) by (simp add: serves_def)
  have us: "set ?us = set (l_S L) \<union> set (one_more (m_k m) (l_S L))" by (auto simp: one_more_def k)
  then have "\<forall>u\<in>set ?us. over (m_k m) u" using assms(3) one_more_over by blast
  from fill_fold_sim [OF assms(1,2) this] us
  show "table_ok X m (fillAll env L)" "all_filled m (fillAll env L)" "no_alarm (l_orc L) (l_orc (fillAll env L))"
    by (auto simp: fillAll_def all_filled_def fill_fold_table)
qed

lemma closeOnce_sim:
  assumes "serves P m env" "linv X m L" "small_out m" "mealy_wf m"
  shows "(closeOnce env L = (False, L) \<and> closed m L)
    \<or> (\<exists>L'. closeOnce env L = (True, L') \<and> linv X m L' \<and> length (l_S L') = length (l_S L) + 1 \<and> l_E L' = l_E L \<and> l_st L' = l_st L
        \<and> no_alarm (l_orc L) (l_orc L'))"
proof -
  have k: "le_K env = m_k m" using assms(1) by (simp add: serves_def)
  let ?c = "one_more (m_k m) (l_S L)"
  have key: "key L la \<in> set (map (key L) (l_S L)) \<longleftrightarrow> (\<exists>s\<in>set (l_S L). same m (l_E L) la s)" if "la \<in> set ?c" for la
    using linv_key [OF assms(2-4)] that by auto
  show ?thesis
  proof (cases "find (\<lambda>la. key L la \<notin> set (map (key L) (l_S L))) ?c")
    case None
    then have "closed m L" using key by (auto simp: find_None_iff closed_def)
    then show ?thesis using None k by (simp add: closeOnce_def)
  next
    case (Some la)
    then have la: "la \<in> set ?c" "\<not> (\<exists>s\<in>set (l_S L). same m (l_E L) la s)"
      using key by (auto simp: find_Some_iff in_set_conv_nth)
    let ?L = "L\<lparr>l_S := l_S L @ [la]\<rparr>"
    have t: "table_ok X m ?L" "\<forall>s\<in>set (l_S ?L). over (m_k m) s"
      using assms(2) la(1) one_more_over [of "l_S L" "m_k m" la] by (auto simp: linv_def table_ok_def rows_true_def)
    have "rows_distinct m (l_E L) (l_S L @ [la])"
      by (rule rows_distinct_snoc) (use assms(2) la(2) in \<open>auto simp: linv_def\<close>)
    then have "linv X m (fillAll env ?L)"
      using fillAll_sim [OF assms(1) t] t(2) assms(2) by (simp add: linv_def fillAll_table nth_append)
    then show ?thesis using Some k fillAll_sim(3) [OF assms(1) t] by (simp add: closeOnce_def fillAll_table)
  qed
qed

lemma close_loop_sim:
  assumes "serves P m env" "linv X m L" "small_out m" "mealy_wf m" "m_n m \<le> cf_maxStates (le_cfg env)"
  shows "linv X m (close_loop env L) \<and> closed m (close_loop env L) \<and> l_E (close_loop env L) = l_E L \<and> l_st (close_loop env L) = l_st L
    \<and> length (l_S L) \<le> length (l_S (close_loop env L)) \<and> (\<not> closed m L \<longrightarrow> length (l_S L) < length (l_S (close_loop env L)))
    \<and> no_alarm (l_orc L) (l_orc (close_loop env L))"
  using assms(2)
proof (induction "m_n m - length (l_S L)" arbitrary: L rule: less_induct)
  case less
  from closeOnce_sim [OF assms(1) less.prems assms(3,4)] show ?case
  proof (elim disjE exE conjE)
    assume "closeOnce env L = (False, L)" "closed m L"
    then show ?thesis using less.prems by (subst (1 2 3 4 5 6 7) close_loop.simps) simp
  next
    fix L' assume L': "closeOnce env L = (True, L')" "linv X m L'" "length (l_S L') = length (l_S L) + 1" "l_E L' = l_E L" "l_st L' = l_st L"
      "no_alarm (l_orc L) (l_orc L')"
    have b: "length (l_S L') \<le> m_n m" by (rule access_bound [OF L'(2) assms(4)])
    then have eq: "close_loop env L = close_loop env L'" using L'(1) assms(5) by (subst close_loop.simps) simp
    have "m_n m - length (l_S L') < m_n m - length (l_S L)" using b L'(3) by simp
    from less.hyps [OF this L'(2)] show ?thesis unfolding eq using L'(3-6) no_alarm_trans [OF L'(6)] by auto
  qed
qed

end

subsection \<open>The hypothesis\<close>

definition hyp_ok :: "mealy \<Rightarrow> ('x, 'r, 'g) learner \<Rightarrow> mealy \<Rightarrow> bool" where
  "hyp_ok m L h \<longleftrightarrow> mealy_wf h \<and> m_n h = length (l_S L) \<and> m_k h = m_k m
     \<and> (\<forall>i<length (l_S L). \<forall>a<m_k m. outp h i a = outp m (mealy_reach m 0 (l_S L ! i)) a
         \<and> same m (l_E L) (l_S L ! i @ [a]) (l_S L ! nxt h i a))"

lemma key_index_spec:
  assumes "linv X m L" "closed m L" "small_out m" "mealy_wf m" "i < length (l_S L)" "a < m_k m"
  shows "\<exists>j<length (l_S L). key_index L (key L (l_S L ! i @ [a])) = Some j \<and> same m (l_E L) (l_S L ! i @ [a]) (l_S L ! j)"
proof -
  let ?la = "l_S L ! i @ [a]"
  have la: "?la \<in> set (one_more (m_k m) (l_S L))" using assms(5,6) nth_mem unfolding one_more_iff by blast
  have key: "key L (l_S L ! j) = key L ?la \<longleftrightarrow> same m (l_E L) ?la (l_S L ! j)" if "j < length (l_S L)" for j
    using linv_key [OF assms(1,3,4), of ?la "l_S L ! j"] la that by auto
  obtain s where "s \<in> set (l_S L)" "same m (l_E L) ?la s" using assms(2) la unfolding closed_def by blast
  then obtain n where n: "n < length (l_S L)" "same m (l_E L) ?la (l_S L ! n)" by (auto simp: in_set_conv_nth)
  show ?thesis
  proof (cases "key_index L (key L ?la)")
    case None
    then show ?thesis using n key [OF n(1)] by (auto simp: key_index_def find_None_iff)
  next
    case (Some j)
    then obtain x where x: "x < length (l_S L)" "j = rev [0..<length (l_S L)] ! x" "key L (l_S L ! j) = key L ?la"
      by (auto simp: key_index_def find_Some_iff)
    then have "j < length (l_S L)" using nth_mem [of x "rev [0..<length (l_S L)]"] by simp
    then show ?thesis using Some key x(3) by auto
  qed
qed

lemma linv_no_dups:
  assumes "linv X m L" "small_out m" "mealy_wf m"
  shows "dup_keys L = 0" "dup_rows L = 0"
proof -
  have d: "key L (l_S L ! i) = key L (l_S L ! j) \<longleftrightarrow> i = j" if "i < length (l_S L)" "j < length (l_S L)" for i j
    using linv_key [OF assms, of "l_S L ! i" "l_S L ! j"] assms(1) that by (auto simp: linv_def rows_distinct_def)
  show "dup_keys L = 0" using d by (fastforce simp: dup_keys_def filter_empty_conv)
  have "distinct (map (key L) (l_S L))" using d by (simp add: distinct_conv_nth)
  then show "dup_rows L = 0" by (simp add: dup_rows_def distinct_remdups_id)
qed

lemma hyp_of_ok:
  assumes "linv X m L" "closed m L" "small_out m" "mealy_wf m" "le_ref env = m"
  shows "hyp_ok m L (hyp_of env L)"
proof -
  let ?n = "length (l_S L)" and ?h = "hyp_of env L"
  have nx: "nxt ?h i a < ?n \<and> same m (l_E L) (l_S L ! i @ [a]) (l_S L ! nxt ?h i a)" if "i < ?n" "a < m_k m" for i a
    using key_index_spec [OF assms(1-4) that] that assms(5) by (auto simp: hyp_of_def Let_def)
  have o: "outp ?h i a = outp m (mealy_reach m 0 (l_S L ! i)) a" if "i < ?n" "a < m_k m" for i a
  proof -
    have "filled m L (l_S L ! i)" "m_k m \<le> length (l_E L)" "l_E L ! a = [a]"
      using assms(1) that by (auto simp: linv_def all_filled_def table_ok_def columns_ok_def)
    then show ?thesis using that assms(5) filled_row_at [of m L "l_S L ! i"] by (simp add: hyp_of_def Let_def ent_def)
  qed
  have "?n > 0" using assms(1) by (simp add: linv_def)
  then have "mealy_wf ?h" using nx assms(5) by (simp add: mealy_wf_def hyp_of_def Let_def)
  then show ?thesis using nx o assms(5) by (simp add: hyp_ok_def hyp_of_def Let_def)
qed

subsection \<open>What asking leaves alone\<close>

definition marks :: "stats \<Rightarrow> nat \<times> bool \<times> nat \<times> nat \<times> nat \<times> nat \<times> nat" where
  "marks s = (st_rounds s, st_terminated s, st_d2_rsFirstSym s, st_d3_noNewState s, st_d4_dupRow s, st_d5_capHit s, st_d6_dupSuffix s)"

definition kept :: "'x set \<Rightarrow> mealy \<Rightarrow> ('x, 'r, 'g) learner \<Rightarrow> ('x, 'r, 'g) learner \<Rightarrow> bool" where
  "kept X m L L' \<longleftrightarrow> or_ok X m (l_orc L') \<and> no_alarm (l_orc L) (l_orc L') \<and> l_S L' = l_S L \<and> l_E L' = l_E L \<and> l_row L' = l_row L
     \<and> l_H L' = l_H L \<and> marks (l_st L') = marks (l_st L)"

lemma kept_trans: "kept X m a b \<Longrightarrow> kept X m b c \<Longrightarrow> kept X m a c"
  by (auto simp: kept_def no_alarm_def)

lemma kept_table:
  assumes "kept X m L L'"
  shows "linv X m L \<Longrightarrow> linv X m L'" "closed m L' = closed m L" "hyp_ok m L' h = hyp_ok m L h"
  using assms by (auto simp: kept_def linv_def table_ok_def rows_true_def all_filled_def filled_def closed_def hyp_ok_def)

text \<open>Position \<open>i\<close> of a counterexample: whether the system, from the access word of the state reached, still differs.\<close>

definition split_at :: "mealy \<Rightarrow> ('x, 'r, 'g) learner \<Rightarrow> word_in \<Rightarrow> nat \<Rightarrow> bool" where
  "split_at m L ce i \<longleftrightarrow> ent m (l_S L ! hypState L (take i ce)) (drop i ce) \<noteq> rs_hOut ce i L"

lemma kept_split: "kept X m L L' \<Longrightarrow> split_at m L' ce i = split_at m L ce i" "kept X m L L' \<Longrightarrow> rs_hOut ce i L' = rs_hOut ce i L"
  by (simp_all add: kept_def split_at_def rs_hOut_def hypState_def)

lemma hypState_range: "hyp_ok m L (l_H L) \<Longrightarrow> over (m_k m) w \<Longrightarrow> hypState L w < length (l_S L)"
  using mealy_reach_range [of "l_H L" 0 w] by (auto simp: hyp_ok_def hypState_def mealy_wf_def)

lemma over_take_drop: "over k w \<Longrightarrow> over k (take i w)" "over k w \<Longrightarrow> over k (drop i w)"
  by (auto dest: in_set_takeD in_set_dropD)

context deterministic_sul
begin

lemma rs_beta_sim:
  assumes "serves P m env" "linv X m L" "hyp_ok m L (l_H L)" "over (m_k m) ce"
  shows "fst (rs_beta env ce i L) = ent m (l_S L ! hypState L (take i ce)) (drop i ce)" "kept X m L (snd (rs_beta env ce i L))"
proof -
  let ?s = "l_S L ! hypState L (take i ce)" and ?L = "upd_st (\<lambda>s. s\<lparr>st_rsQueries := st_rsQueries s + 1\<rparr>) L"
  have "?s \<in> set (l_S L)" using hypState_range [OF assms(3) over_take_drop(1) [OF assms(4)]] by simp
  then have w: "over (m_k m) (?s @ drop i ce)" using assms(2) over_take_drop(2) [OF assms(4)] by (auto simp: linv_def)
  have q: "or_ok X m (l_orc ?L)" using assms(2) by (simp add: linv_def table_ok_def)
  note a = l_ask_sim [OF assms(1) q w]
  show "fst (rs_beta env ce i L) = ent m ?s (drop i ce)" using a(1) lastN_run [of m ?s "drop i ce"]
    by (simp add: rs_beta_def case_prod_beta Let_def)
  have "snd (rs_beta env ce i L) = snd (l_ask env (?s @ drop i ce) ?L)" by (simp add: rs_beta_def case_prod_beta Let_def)
  then show "kept X m L (snd (rs_beta env ce i L))" using a(2,3) by (simp add: kept_def l_ask_table marks_def)
qed

lemma rs_search_sim:
  assumes "serves P m env" "linv X m L" "hyp_ok m L (l_H L)" "over (m_k m) ce" "lo < hi" "split_at m L ce lo" "\<not> split_at m L ce hi"
  shows "\<exists>j L'. rs_search env ce lo hi L = (j, L') \<and> (L' = L \<or> kept X m L L') \<and> lo \<le> j \<and> j < hi \<and> split_at m L ce j \<and> \<not> split_at m L ce (j + 1)"
  using assms(2-7)
proof (induction "hi - lo" arbitrary: lo hi L rule: less_induct)
  case less
  show ?case
  proof (cases "hi - lo > 1")
    case False
    then have "hi = lo + 1" using less.prems(4) by simp
    then show ?thesis using less.prems by (subst rs_search.simps) simp
  next
    case True
    let ?mid = "lo + (hi - lo) div 2"
    have mid: "lo < ?mid" "?mid < hi" using True by auto
    obtain b L1 where bl: "rs_beta env ce ?mid L = (b, L1)" by fastforce
    note s = rs_beta_sim [OF assms(1) less.prems(1-3), of ?mid, unfolded bl fst_conv snd_conv]
    have t: "linv X m L1" "hyp_ok m L1 (l_H L1)" using kept_table [OF s(2)] less.prems(1,2) s(2) by (auto simp: kept_def)
    have b: "b \<noteq> rs_hOut ce ?mid L \<longleftrightarrow> split_at m L ce ?mid" using s(1) by (simp add: split_at_def)
    note sp = kept_split(1) [OF s(2), of ce]
    let ?lo = "if split_at m L ce ?mid then ?mid else lo" and ?hi = "if split_at m L ce ?mid then hi else ?mid"
    have step: "rs_search env ce lo hi L = rs_search env ce ?lo ?hi L1" using True bl b by (subst rs_search.simps) (simp add: Let_def)
    have "?hi - ?lo < hi - lo" "?lo < ?hi" "split_at m L1 ce ?lo" "\<not> split_at m L1 ce ?hi" using mid less.prems(5,6) sp by auto
    from less.hyps [OF this(1) t less.prems(3) this(2-4)] obtain j L' where j: "rs_search env ce ?lo ?hi L1 = (j, L')" "L' = L1 \<or> kept X m L1 L'"
      "?lo \<le> j" "j < ?hi" "split_at m L1 ce j" "\<not> split_at m L1 ce (j + 1)" by blast
    have "kept X m L L'" using j(2) s(2) kept_trans by blast
    then show ?thesis using step j sp mid by (auto split: if_splits)
  qed
qed

lemma rivestSchapire_sim:
  assumes "serves P m env" "linv X m L" "hyp_ok m L (l_H L)" "over (m_k m) ce" "mealy_run m 0 ce \<noteq> mealy_run (l_H L) 0 ce"
  shows "\<exists>e L'. rivestSchapire env ce L = (Some e, L') \<and> kept X m L L' \<and> e \<noteq> [] \<and> over (m_k m) e \<and> e \<notin> set (l_E L)
    \<and> (\<exists>i<length (l_S L). \<exists>a<m_k m. ent m (l_S L ! i @ [a]) e \<noteq> ent m (l_S L ! nxt (l_H L) i a) e)"
proof -
  have s0: "split_at m L ce 0" using assms(2,5) by (simp add: split_at_def rs_hOut_def hypState_def ent_def linv_def)
  have s1: "\<not> split_at m L ce (length ce)" by (simp add: split_at_def rs_hOut_def ent_def)
  have "0 < length ce" using assms(5) by auto
  then obtain j L1 where j: "rs_search env ce 0 (length ce) L = (j, L1)" "L1 = L \<or> kept X m L L1" "j < length ce"
    "split_at m L ce j" "\<not> split_at m L ce (j + 1)" using rs_search_sim [OF assms(1-4) _ s0 s1] by blast
  have sp: "l_S L1 = l_S L" "l_H L1 = l_H L" using j(2) by (auto simp: kept_def)
  have t: "linv X m L1" "hyp_ok m L1 (l_H L1)" using j(2) kept_table(1,3) assms(2,3) sp(2) by metis+
  obtain b L2 where bl: "rs_beta env ce j L1 = (b, L2)" by fastforce
  note r = rs_beta_sim [OF assms(1) t assms(4), of j, unfolded bl fst_conv snd_conv]
  have k: "kept X m L L2" using j(2) r(2) kept_trans by blast
  define i where "i = hypState L (take j ce)"
  define e where "e = drop (j + 1) ce"
  let ?a = "ce ! j"
  have i: "i < length (l_S L)" unfolding i_def by (rule hypState_range [OF assms(3) over_take_drop(1) [OF assms(4)]])
  have a: "?a < m_k m" using assms(4) nth_mem [OF j(3)] by (auto simp: list_all_iff)
  have d: "drop j ce = ?a # e" unfolding e_def using j(3) by (simp add: Cons_nth_drop_Suc)
  have n: "hypState L (take (j + 1) ce) = nxt (l_H L) i ?a" using j(3) by (simp add: i_def hypState_def take_Suc_conv_app_nth)
  have b: "b = outp m (mealy_reach m 0 (l_S L ! i)) ?a # ent m (l_S L ! i @ [?a]) e"
    using r(1) d sp by (simp add: i_def hypState_def ent_Cons)
  have h: "rs_hOut ce j L2 = outp (l_H L) i ?a # mealy_run (l_H L) (nxt (l_H L) i ?a) e"
    using d k by (simp add: rs_hOut_def kept_def i_def hypState_def)
  have o: "outp (l_H L) i ?a = outp m (mealy_reach m 0 (l_S L ! i)) ?a" "same m (l_E L) (l_S L ! i @ [?a]) (l_S L ! nxt (l_H L) i ?a)"
    using assms(3) i a by (auto simp: hyp_ok_def)
  have "ent m (l_S L ! nxt (l_H L) i ?a) e = mealy_run (l_H L) (nxt (l_H L) i ?a) e"
    using j(5) n by (simp add: split_at_def rs_hOut_def e_def)
  moreover have "ent m (l_S L ! i @ [?a]) e \<noteq> mealy_run (l_H L) (nxt (l_H L) i ?a) e"
    using j(4) d o(1) by (simp add: split_at_def rs_hOut_def i_def [symmetric] ent_Cons)
  ultimately have ne: "ent m (l_S L ! i @ [?a]) e \<noteq> ent m (l_S L ! nxt (l_H L) i ?a) e" by simp
  then have e: "e \<noteq> []" "e \<notin> set (l_E L)" using o(2) by (auto simp: same_def ent_def)
  have "rivestSchapire env ce L = (Some e, L2)"
    using j(1) bl b h o(1) e k by (simp add: rivestSchapire_def e_def kept_def)
  moreover have "over (m_k m) e" unfolding e_def by (rule over_take_drop(2) [OF assms(4)])
  ultimately show ?thesis using k e ne i a by blast
qed

end

subsection \<open>A round\<close>

lemma run_take: "mealy_run m s (take n w) = take n (mealy_run m s w)"
  by (induction w arbitrary: s n) (simp_all add: take_Cons split: nat.split)

lemma first_difference:
  "length xs = length ys \<Longrightarrow> xs \<noteq> ys \<Longrightarrow>
   length (takeWhile (\<lambda>(x, y). x = y) (zip xs ys)) < length xs
     \<and> take (length (takeWhile (\<lambda>(x, y). x = y) (zip xs ys)) + 1) xs \<noteq> take (length (takeWhile (\<lambda>(x, y). x = y) (zip xs ys)) + 1) ys"
  by (induction xs ys rule: list_induct2) auto

text \<open>A suffix that tells a one-symbol extension from the row the table took it for opens the table.\<close>

lemma table_opened:
  assumes "rows_distinct m E S" "i < length S" "j < length S" "same m E (S ! i @ [a]) (S ! j)" "ent m (S ! i @ [a]) e \<noteq> ent m (S ! j) e"
    "s \<in> set S"
  shows "\<not> same m (E @ [e]) (S ! i @ [a]) s"
proof
  assume h: "same m (E @ [e]) (S ! i @ [a]) s"
  obtain n where n: "n < length S" "s = S ! n" using assms(6) by (auto simp: in_set_conv_nth)
  have "same m E (S ! n) (S ! j)" using h assms(4) n(2) by (simp add: same_def)
  then have "n = j" using assms(1,3) n(1) by (simp add: rows_distinct_def)
  then show False using h assms(5) n(2) by (simp add: same_def)
qed

lemma rows_distinct_mono: "rows_distinct m E S \<Longrightarrow> rows_distinct m (E @ F) S"
  by (simp add: rows_distinct_def same_def)

lemma new_column:
  assumes "table_ok X m L" "e \<noteq> []" "over (m_k m) e"
  shows "table_ok X m (L\<lparr>l_E := l_E L @ [e]\<rparr>)"
proof -
  have "columns_ok m (l_E L @ [e])" using assms by (auto simp: table_ok_def columns_ok_def nth_append)
  moreover have "rows_true m (L\<lparr>l_E := l_E L @ [e]\<rparr>)" unfolding rows_true_def
  proof (intro allI impI)
    fix u r assume "l_row (L\<lparr>l_E := l_E L @ [e]\<rparr>) u = Some r"
    then obtain n where "n \<le> length (l_E L)" "r = map (ent m u) (take n (l_E L))"
      using assms(1) by (auto simp: table_ok_def rows_true_def)
    then show "\<exists>n\<le>length (l_E (L\<lparr>l_E := l_E L @ [e]\<rparr>)). r = map (ent m u) (take n (l_E (L\<lparr>l_E := l_E L @ [e]\<rparr>)))"
      by (intro exI [of _ n]) simp
  qed
  ultimately show ?thesis using assms(1) by (simp add: table_ok_def)
qed

lemma buildHyp_frame:
  assumes "linv X m L" "small_out m" "mealy_wf m"
  shows "linv X m (buildHyp env L)" "l_S (buildHyp env L) = l_S L" "l_orc (buildHyp env L) = l_orc L" "marks (l_st (buildHyp env L)) = marks (l_st L)"
    "closed m (buildHyp env L) = closed m L" "l_H (buildHyp env L) = hyp_of env L" "hyp_ok m (buildHyp env L) h = hyp_ok m L h"
  using assms(1) linv_no_dups [OF assms]
  by (simp_all add: buildHyp_def marks_def linv_def table_ok_def rows_true_def all_filled_def filled_def closed_def hyp_ok_def)

context deterministic_sul
begin

lemma trim_ce_sim:
  assumes "serves P m env" "linv X m L" "over (m_k m) ce" "mealy_run m 0 ce \<noteq> mealy_run (l_H L) 0 ce"
  shows "\<exists>c L'. trim_ce env ce L = (c, L') \<and> kept X m L L' \<and> over (m_k m) c \<and> mealy_run m 0 c \<noteq> mealy_run (l_H L) 0 c"
proof -
  have q: "or_ok X m (l_orc L)" using assms(2) by (simp add: linv_def table_ok_def)
  obtain so L1 where ask: "l_ask env ce L = (so, L1)" by fastforce
  note a = l_ask_sim [OF assms(1) q assms(3), unfolded ask fst_conv snd_conv]
  have k: "kept X m L L1" using a(2,3) ask l_ask_table [of env ce L] by (simp add: kept_def)
  have kL: "kept X m L L" using q by (simp add: kept_def)
  let ?j = "length (takeWhile (\<lambda>(x, y). x = y) (zip (mealy_run m 0 ce) (mealy_run (l_H L) 0 ce)))"
  have j: "?j < length ce" "take (?j + 1) (mealy_run m 0 ce) \<noteq> take (?j + 1) (mealy_run (l_H L) 0 ce)"
    using first_difference [OF _ assms(4)] by simp_all
  have "trim_ce env ce L = (if cf_trimCE (le_cfg env) then (take (?j + 1) ce, L1) else (ce, L))"
    using ask a(1) k j(1) by (simp add: trim_ce_def kept_def Let_def)
  then show ?thesis using k kL j(2) assms(3,4) over_take_drop(1) [OF assms(3)] by (auto simp: run_take [symmetric])
qed

lemma use_ce_sim:
  assumes "serves P m env" "linv X m L" "hyp_ok m L (l_H L)" "over (m_k m) ce" "mealy_run m 0 ce \<noteq> mealy_run (l_H L) 0 ce"
    "small_out m" "mealy_wf m" "m_n m \<le> cf_maxStates (le_cfg env)"
  shows "\<exists>L'. use_ce env ce L = (True, L') \<and> linv X m L' \<and> length (l_S L) < length (l_S L') \<and> marks (l_st L') = marks (l_st L)
    \<and> no_alarm (l_orc L) (l_orc L')"
proof -
  let ?L0 = "upd_st (\<lambda>s. s\<lparr>st_ceCount := st_ceCount s + 1\<rparr>) L"
  have k0: "kept X m L ?L0" using assms(2) by (simp add: kept_def marks_def linv_def table_ok_def)
  have l0: "linv X m ?L0" by (rule kept_table(1) [OF k0 assms(2)])
  obtain c L1 where t: "trim_ce env ce ?L0 = (c, L1)" "kept X m ?L0 L1" "over (m_k m) c" "mealy_run m 0 c \<noteq> mealy_run (l_H L) 0 c"
    using trim_ce_sim [OF assms(1) l0 assms(4)] assms(5) by auto
  have k1: "kept X m L L1" by (rule kept_trans [OF k0 t(2)])
  have H1: "l_H L1 = l_H L" "l_S L1 = l_S L" "l_E L1 = l_E L" using k1 by (auto simp: kept_def)
  have l1: "linv X m L1" "hyp_ok m L1 (l_H L1)" using kept_table(1,3) [OF k1] assms(2,3) H1(1) by auto
  obtain e L2 where r: "rivestSchapire env c L1 = (Some e, L2)" "kept X m L1 L2" "e \<noteq> []" "over (m_k m) e"
    "\<exists>i<length (l_S L). \<exists>a<m_k m. ent m (l_S L ! i @ [a]) e \<noteq> ent m (l_S L ! nxt (l_H L) i a) e"
    using rivestSchapire_sim [OF assms(1) l1 t(3)] t(4) H1 by auto
  have k2: "kept X m L L2" by (rule kept_trans [OF k1 r(2)])
  have SE: "l_S L2 = l_S L" "l_E L2 = l_E L" using k2 by (auto simp: kept_def)
  have l2: "linv X m L2" by (rule kept_table(1) [OF k2 assms(2)])
  let ?L3 = "L2\<lparr>l_E := l_E L2 @ [e]\<rparr>"
  have t3: "table_ok X m ?L3" "\<forall>s\<in>set (l_S ?L3). over (m_k m) s" using new_column [OF _ r(3,4)] l2 by (auto simp: linv_def)
  define L4 where "L4 = fillAll env ?L3"
  note f = fillAll_sim [OF assms(1) t3, folded L4_def]
  have SE4: "l_S L4 = l_S L" "l_E L4 = l_E L @ [e]" "l_st L4 = l_st L2" by (simp_all add: L4_def fillAll_table SE)
  have l4: "linv X m L4" using f(1,2) l2 rows_distinct_mono [of m "l_E L2"] SE4 SE by (simp add: linv_def)
  obtain i a where ia: "i < length (l_S L)" "a < m_k m" "ent m (l_S L ! i @ [a]) e \<noteq> ent m (l_S L ! nxt (l_H L) i a) e" using r(5) by blast
  have h: "nxt (l_H L) i a < length (l_S L)" "same m (l_E L) (l_S L ! i @ [a]) (l_S L ! nxt (l_H L) i a)"
    using assms(3) ia(1,2) by (auto simp: hyp_ok_def mealy_wf_def)
  have "\<not> same m (l_E L4) (l_S L ! i @ [a]) s" if "s \<in> set (l_S L4)" for s
    using table_opened [OF _ ia(1) h ia(3)] assms(2) that SE4 by (auto simp: linv_def)
  moreover have "l_S L ! i @ [a] \<in> set (one_more (m_k m) (l_S L4))" using ia(1,2) nth_mem SE4(1) unfolding one_more_iff by auto
  ultimately have "\<not> closed m L4" unfolding closed_def by blast
  with close_loop_sim [OF assms(1) l4 assms(6-8)]
  have c: "linv X m (close_loop env L4)" "length (l_S L) < length (l_S (close_loop env L4))" "l_st (close_loop env L4) = l_st L2"
    "no_alarm (l_orc L4) (l_orc (close_loop env L4))" using SE4 by auto
  note b = buildHyp_frame [OF c(1) assms(6,7), of env]
  have "use_ce env ce L = (True, buildHyp env (close_loop env L4))"
    using t(1) r(1) c(2) H1(2) by (simp add: use_ce_def L4_def [symmetric] Let_def)
  moreover have "no_alarm (l_orc L) (l_orc (close_loop env L4))"
    using k2 f(3) c(4) by (simp add: kept_def no_alarm_def)
  moreover have "marks (l_st L2) = marks (l_st L)" using k2 by (simp add: kept_def)
  ultimately show ?thesis using b(1-4) c(2,3) by simp
qed

end

subsection \<open>The run\<close>

text \<open>How a run ends: with a hypothesis equivalent to the machine, or because it has asked more queries than it may.\<close>

definition equivalent :: "mealy \<Rightarrow> mealy \<Rightarrow> bool" where
  "equivalent h m \<longleftrightarrow> (\<forall>v. over (m_k m) v \<longrightarrow> mealy_run h 0 v = mealy_run m 0 v)"

definition learned :: "'x set \<Rightarrow> mealy \<Rightarrow> ('x, 'r, 'g) learn_env \<Rightarrow> ('x, 'r, 'g) learner \<Rightarrow> bool" where
  "learned X m env L \<longleftrightarrow> linv X m L \<and> closed m L
     \<and> ((\<exists>r. marks (l_st L) = (r, True, 0, 0, 0, 0, 0)) \<and> equivalent (hyp_of env L) m
        \<or> (\<exists>r. marks (l_st L) = (r, False, 0, 0, 0, 1, 0)) \<and> or_mq (l_orc L) > cf_maxMq (le_cfg env))"

lemma upd_st_frame:
  "linv X m (L\<lparr>l_st := t\<rparr>) = linv X m L" "closed m (L\<lparr>l_st := t\<rparr>) = closed m L" "hyp_of env (L\<lparr>l_st := t\<rparr>) = hyp_of env L"
  "hyp_ok m (L\<lparr>l_st := t\<rparr>) h = hyp_ok m L h"
  by (simp_all add: linv_def closed_def table_ok_def rows_true_def all_filled_def filled_def hyp_ok_def hyp_of_def key_index_def key_def row_at_def)

lemma perfect_equivalence:
  assumes "cf_perfectEq (le_cfg env)" "le_ref env = m" "hyp_ok m L (l_H L)" "mealy_wf m"
  shows "(equivalence env L = Some (None, L) \<and> equivalent (l_H L) m)
    \<or> (\<exists>ce. equivalence env L = Some (Some ce, L) \<and> over (m_k m) ce \<and> mealy_run m 0 ce \<noteq> mealy_run (l_H L) 0 ce)"
proof -
  have "mealy_wf (l_H L)" "m_k (l_H L) = m_k m" using assms(3) by (auto simp: hyp_ok_def)
  from eqPerfect_spec [OF this(1) assms(4) this(2) refl] obtain res where res: "eqPerfect (l_H L) m (m_k m) = Some res"
    "case res of None \<Rightarrow> \<forall>v. over (m_k m) v \<longrightarrow> mealy_run (l_H L) 0 v = mealy_run m 0 v
     | Some c \<Rightarrow> over (m_k m) c \<and> mealy_run (l_H L) 0 c \<noteq> mealy_run m 0 c" by blast
  have eq: "equivalence env L = Some (res, L)" using res(1) assms(1,2) by (simp add: equivalence_def)
  show ?thesis
  proof (cases res)
    case None
    then show ?thesis using res(2) eq by (simp add: equivalent_def)
  next
    case (Some ce)
    then show ?thesis using res(2) eq by auto
  qed
qed

context deterministic_sul
begin

lemma round_start_sim:
  assumes "serves P m env" "linv X m L" "small_out m" "mealy_wf m" "m_n m \<le> cf_maxStates (le_cfg env)"
  shows "linv X m (round_start env L)" "closed m (round_start env L)" "length (l_S L) \<le> length (l_S (round_start env L))"
    "marks (l_st (round_start env L)) = marks (l_st L)" "no_alarm (l_orc L) (l_orc (round_start env L))"
    "l_H (round_start env L) = hyp_of env (round_start env L)" "hyp_ok m (round_start env L) (l_H (round_start env L))"
proof -
  let ?c = "close_loop env L"
  let ?d = "upd_st (\<lambda>s. s\<lparr>st_d4_dupRow := st_d4_dupRow s + dup_rows ?c\<rparr>) ?c"
  note c = close_loop_sim [OF assms]
  have d: "linv X m ?d" "closed m ?d" using c by (simp_all add: upd_st_frame)
  have eq: "round_start env L = buildHyp env ?d" by (simp add: round_start_def Let_def)
  note b = buildHyp_frame [OF d(1) assms(3,4), of env]
  have h: "hyp_of env (buildHyp env ?d) = hyp_of env ?d"
    by (simp add: buildHyp_def hyp_of_def key_index_def key_def row_at_def)
  have m: "marks (l_st ?d) = marks (l_st ?c)" using linv_no_dups(2) [of X m ?c] c assms(3,4) by (simp add: marks_def)
  show "linv X m (round_start env L)" "closed m (round_start env L)" "length (l_S L) \<le> length (l_S (round_start env L))"
    "marks (l_st (round_start env L)) = marks (l_st L)" "no_alarm (l_orc L) (l_orc (round_start env L))"
    "l_H (round_start env L) = hyp_of env (round_start env L)" "hyp_ok m (round_start env L) (l_H (round_start env L))"
    unfolding eq using b c d(2) m h hyp_of_ok [OF d assms(3,4), of env] assms(1) by (simp_all add: serves_def)
qed

lemma learn_loop_sim:
  assumes "serves P m env" "linv X m L" "small_out m" "mealy_wf m" "m_n m \<le> cf_maxStates (le_cfg env)" "cf_perfectEq (le_cfg env)"
    "marks (l_st L) = (r, False, 0, 0, 0, 0, 0)" "r + (m_n m - length (l_S L)) \<le> cf_maxRounds (le_cfg env)"
  shows "\<exists>L'. learn_loop env L = Some L' \<and> learned X m env L' \<and> no_alarm (l_orc L) (l_orc L')"
  using assms(2,7,8)
proof (induction "m_n m - length (l_S L)" arbitrary: L r rule: less_induct)
  case less
  define L1 where "L1 = round_start env L"
  note s = round_start_sim [OF assms(1) less.prems(1) assms(3-5), folded L1_def]
  have mk: "marks (l_st L1) = (r, False, 0, 0, 0, 0, 0)" using s(4) less.prems(2) by simp
  have cap: "cap_hit env L1 \<longleftrightarrow> or_mq (l_orc L1) > cf_maxMq (le_cfg env)"
    using access_bound [OF s(1) assms(4)] assms(5) mk less.prems(3) by (auto simp: cap_hit_def marks_def)
  show ?case
  proof (cases "cap_hit env L1")
    case True
    then have "learn_loop env L = Some (upd_st (\<lambda>s. s\<lparr>st_d5_capHit := st_d5_capHit s + 1\<rparr>) L1)"
      by (subst learn_loop.simps) (simp add: L1_def [symmetric] Let_def)
    then show ?thesis using True cap mk s(1,2,5) by (simp add: learned_def upd_st_frame) (simp add: marks_def)
  next
    case False
    define L2 where "L2 = upd_st (\<lambda>s. s\<lparr>st_rounds := st_rounds s + 1\<rparr>) L1"
    have l2: "linv X m L2" "closed m L2" "hyp_ok m L2 (l_H L2)" "marks (l_st L2) = (r + 1, False, 0, 0, 0, 0, 0)" "l_orc L2 = l_orc L1"
      "l_S L2 = l_S L1" "l_H L2 = hyp_of env L2"
      using s mk by (simp_all add: L2_def upd_st_frame) (simp add: marks_def)
    have ref: "le_ref env = m" using assms(1) by (simp add: serves_def)
    from perfect_equivalence [OF assms(6) ref l2(3) assms(4)] show ?thesis
    proof (elim disjE exE conjE)
      assume e: "equivalence env L2 = Some (None, L2)" "equivalent (l_H L2) m"
      then have "learn_loop env L = Some (upd_st (\<lambda>s. s\<lparr>st_terminated := True\<rparr>) L2)"
        using False by (subst learn_loop.simps) (simp add: L1_def [symmetric] L2_def Let_def)
      then show ?thesis using l2 e(2) s(5) by (simp add: learned_def upd_st_frame) (simp add: marks_def)
    next
      fix ce assume e: "equivalence env L2 = Some (Some ce, L2)" "over (m_k m) ce" "mealy_run m 0 ce \<noteq> mealy_run (l_H L2) 0 ce"
      from use_ce_sim [OF assms(1) l2(1,3) e(2,3) assms(3-5)] obtain L3 where u: "use_ce env ce L2 = (True, L3)" "linv X m L3"
        "length (l_S L2) < length (l_S L3)" "marks (l_st L3) = marks (l_st L2)" "no_alarm (l_orc L2) (l_orc L3)" by blast
      have step: "learn_loop env L = learn_loop env L3"
        using False e(1) u(1) by (subst learn_loop.simps) (simp add: L1_def [symmetric] L2_def Let_def)
      have b: "length (l_S L3) \<le> m_n m" by (rule access_bound [OF u(2) assms(4)])
      have lt: "m_n m - length (l_S L3) < m_n m - length (l_S L)" using b u(3) s(3) l2(6) by simp
      have "r + 1 + (m_n m - length (l_S L3)) \<le> cf_maxRounds (le_cfg env)" using lt less.prems(3) by simp
      from less.hyps [OF lt u(2) _ this] u(4) l2(4) obtain L' where "learn_loop env L3 = Some L'" "learned X m env L'" "no_alarm (l_orc L3) (l_orc L')"
        by auto
      then show ?thesis using step s(5) l2(5) u(5) by (auto simp: no_alarm_def)
    qed
  qed
qed

end

subsection \<open>What is learned\<close>

text \<open>A learned hypothesis has a state for each behaviour the machine can show, and no other.\<close>

definition shown :: "mealy \<Rightarrow> (word_in \<Rightarrow> out_word) set" where
  "shown m = (\<lambda>w. behaviour m (mealy_reach m 0 w)) ` {w. over (m_k m) w}"

lemma equivalent_after:
  assumes "equivalent h m" "over (m_k m) w" "over (m_k m) v"
  shows "mealy_run m (mealy_reach m 0 w) v = mealy_run h (mealy_reach h 0 w) v"
proof -
  have "over (m_k m) (w @ v)" using assms(2,3) by simp
  then have "mealy_run h 0 (w @ v) = mealy_run m 0 (w @ v)" using assms(1) unfolding equivalent_def by blast
  then show ?thesis by simp
qed

lemma learned_size:
  assumes "linv X m L" "hyp_ok m L h" "equivalent h m" "mealy_wf m"
  shows "length (l_S L) = card (shown m)"
proof (rule antisym)
  let ?b = "\<lambda>i. behaviour m (mealy_reach m 0 (l_S L ! i))"
  have sub: "shown m \<subseteq> (\<lambda>i w. if over (m_k m) w then mealy_run h i w else []) ` {..<length (l_S L)}" (is "_ \<subseteq> ?R")
  proof
    fix f assume "f \<in> shown m"
    then obtain w where w: "over (m_k m) w" "f = behaviour m (mealy_reach m 0 w)" by (auto simp: shown_def)
    have "mealy_reach h 0 w < length (l_S L)" using mealy_reach_range [of h 0 w] assms(2) w(1) by (auto simp: hyp_ok_def mealy_wf_def)
    moreover have "f = (\<lambda>v. if over (m_k m) v then mealy_run h (mealy_reach h 0 w) v else [])"
      using equivalent_after [OF assms(3) w(1)] by (auto simp: w(2) behaviour_def)
    ultimately show "f \<in> ?R" by blast
  qed
  have fin: "finite (shown m)" by (rule finite_subset [OF sub]) simp
  show "card (shown m) \<le> length (l_S L)" by (rule order_trans [OF card_mono [OF _ sub]]) (simp_all add: card_image_le [THEN order_trans])
  have E: "over (m_k m) e" if "e \<in> set (l_E L)" for e using assms(1) that by (auto simp: linv_def table_ok_def columns_ok_def)
  have same: "same m (l_E L) (l_S L ! i) (l_S L ! j)" if "?b i = ?b j" for i j
    unfolding same_def
  proof
    fix e assume "e \<in> set (l_E L)"
    then show "ent m (l_S L ! i) e = ent m (l_S L ! j) e" using fun_cong [OF that, of e] E by (simp add: behaviour_def ent_def)
  qed
  have "inj_on ?b {..<length (l_S L)}"
    by (rule inj_onI) (use assms(1) same in \<open>auto simp: linv_def rows_distinct_def\<close>)
  moreover have "?b ` {..<length (l_S L)} \<subseteq> shown m" using assms(1) by (auto simp: shown_def linv_def)
  ultimately show "length (l_S L) \<le> card (shown m)" using card_mono [OF fin, of "?b ` {..<length (l_S L)}"] by (simp add: card_image)
qed

text \<open>The outcome of a run, as its statistics report it.\<close>

definition no_detector :: "stats \<Rightarrow> bool" where
  "no_detector s \<longleftrightarrow> st_d1_cacheContra s = 0 \<and> st_d2_rsFirstSym s = 0 \<and> st_d3_noNewState s = 0 \<and> st_d4_dupRow s = 0
     \<and> st_d6_dupSuffix s = 0 \<and> st_voteDisagree s = 0"

definition run_succeeds :: "config \<Rightarrow> mealy \<Rightarrow> ('x, 'r, 'g) learner \<Rightarrow> bool" where
  "run_succeeds cfg m L \<longleftrightarrow> no_detector (l_st L)
     \<and> (st_terminated (l_st L) \<and> st_correct (l_st L) \<and> st_d5_capHit (l_st L) = 0 \<and> equivalent (l_H L) m
          \<and> st_finalStates (l_st L) = card (shown m)
        \<or> \<not> st_terminated (l_st L) \<and> \<not> st_correct (l_st L) \<and> st_d5_capHit (l_st L) = 1 \<and> st_mq (l_st L) > cf_maxMq cfg)"

definition fresh :: "'x \<Rightarrow> nat \<Rightarrow> ('x, 'r) mem_oracle \<Rightarrow> bool" where
  "fresh x k q \<longleftrightarrow> (\<exists>r rate votes byp. q = (Oracle_new x k r)\<lparr>or_auditRate := rate, or_repeats := votes, or_bypass := byp\<rparr>)"

lemma fresh_ok:
  assumes "fresh x (m_k m) q" "x \<in> X"
  shows "or_ok X m q" "ca_contradictions (or_cache q) = 0" "or_auditContradictions q = 0" "or_voteDisagreements q = 0"
proof -
  have "ca_k (Cache (m_k m)) = m_k m" "ca_contradictions (Cache (m_k m)) = 0" by (simp_all add: Cache_def)
  then show "or_ok X m q" "ca_contradictions (or_cache q) = 0" "or_auditContradictions q = 0" "or_voteDisagreements q = 0"
    using assms cache_new_tree [of "m_k m"] cache_new_known [where k = "m_k m"] by (auto simp: or_ok_def fresh_def Oracle_new_def)
qed

lemma Learner_new_table:
  assumes "or_ok X m q" "le_ref env = m"
  shows "table_ok X m (Learner_new env q g)" "rows_distinct m E (l_S (Learner_new env q g))"
  using assms by (auto simp: table_ok_def Learner_new_def columns_ok_def rows_true_def rows_distinct_def)

context deterministic_sul
begin

lemma learn_run_sim:
  assumes "serves P m env" "fresh x (m_k m) q" "x \<in> X" "small_out m" "mealy_wf m" "m_n m \<le> cf_maxStates (le_cfg env)"
    "cf_perfectEq (le_cfg env)" "m_n m \<le> cf_maxRounds (le_cfg env) + 1"
  shows "\<exists>L. learn_run env (Learner_new env q g) = Some L \<and> run_succeeds (le_cfg env) m L"
proof -
  have ref: "le_ref env = m" using assms(1) by (simp add: serves_def)
  define L0 where "L0 = fillAll env (Learner_new env q g)"
  note q = fresh_ok [OF assms(2,3)]
  note n = Learner_new_table [OF q(1) ref, where g = g]
  have S: "l_S (Learner_new env q g) = [[]]" "l_st (Learner_new env q g) = stats_zero" "l_orc (Learner_new env q g) = q" by (simp_all add: Learner_new_def)
  have f: "table_ok X m L0" "all_filled m L0" "no_alarm q (l_orc L0)" "l_S L0 = [[]]" "l_st L0 = stats_zero"
    using fillAll_sim [OF assms(1) n(1)] S by (simp_all add: L0_def fillAll_table)
  have l0: "linv X m L0" using f n(2) S(1) by (simp add: linv_def)
  have "marks (l_st L0) = (0, False, 0, 0, 0, 0, 0)" "0 + (m_n m - length (l_S L0)) \<le> cf_maxRounds (le_cfg env)"
    using f(4,5) assms(8) by (simp_all add: marks_def stats_zero_def)
  from learn_loop_sim [OF assms(1) l0 assms(4-7) this] obtain L1 where L1: "learn_loop env L0 = Some L1" "learned X m env L1" "no_alarm (l_orc L0) (l_orc L1)"
    by blast
  let ?L2 = "upd_st (final_stats env L1) L1"
  have l1: "linv X m L1" "closed m L1" using L1(2) by (auto simp: learned_def)
  have h: "hyp_ok m L1 (hyp_of env L1)" by (rule hyp_of_ok [OF l1 assms(4,5) ref])
  define L3 where "L3 = buildHyp env ?L2"
  have L3: "l_H L3 = hyp_of env L1" by (simp add: L3_def buildHyp_def upd_st_frame)
  have d: "dup_keys ?L2 = 0" by (rule linv_no_dups(1) [of X m]) (use l1 assms(4,5) in \<open>simp_all add: upd_st_frame\<close>)
  have st: "l_st L3 = final_stats env L1 (l_st L1)" using d by (simp add: L3_def buildHyp_def)
  have quiet: "no_detector (l_st L3)" "st_d5_capHit (l_st L3) = st_d5_capHit (l_st L1)" "st_terminated (l_st L3) = st_terminated (l_st L1)"
    using L1(2,3) f(3) q by (auto simp: st no_detector_def final_stats_def Let_def learned_def marks_def no_alarm_def)
  have run: "learn_run env (Learner_new env q g)
      = (if st_terminated (l_st L3) then map_option (\<lambda>c. upd_st (\<lambda>s. s\<lparr>st_correct := (c = None)\<rparr>) L3) (eqPerfect (l_H L3) m (m_k m))
         else Some (upd_st (\<lambda>s. s\<lparr>st_correct := False\<rparr>) L3))"
    using L1(1) ref by (simp add: learn_run_def L0_def [symmetric] L3_def [symmetric] Let_def)
  show ?thesis
  proof (cases "st_terminated (l_st L1)")
    case True
    then have e: "equivalent (hyp_of env L1) m" "st_d5_capHit (l_st L1) = 0" using L1(2) by (auto simp: learned_def marks_def)
    have "eqPerfect (l_H L3) m (m_k m) = Some None"
      using eqPerfect_spec [of "l_H L3" m "m_k m"] h e(1) assms(5) L3 by (force simp: hyp_ok_def equivalent_def split: option.splits)
    then show ?thesis using run True quiet e L3 learned_size [OF l1(1) h e(1) assms(5)] st
      by (simp add: run_succeeds_def no_detector_def final_stats_def Let_def)
  next
    case False
    then show ?thesis using run quiet L1(2) st by (auto simp: run_succeeds_def no_detector_def final_stats_def Let_def learned_def marks_def)
  qed
qed

end

subsection \<open>Properties\<close>

text \<open>
  Property C39. The learner learns. On a system that behaves as a machine does, with a perfect equivalence oracle and limits of states
  and rounds that the machine fits, a run of \<^verbatim>\<open>Learner::run\<close> returns, with any audit rate, number of votes and source of random numbers.
  None of the detectors of nondeterminism has fired. It stops because it was told that its hypothesis is right, and then the
  hypothesis answers every word as the machine does and has as many states as the machine can show behaviours; or because it
  has asked more queries than it may, and then it says so and claims nothing.
\<close>

theorem learner_learns:
  assumes "mealy_wf m" "small_out m" "le_ops env = ref_ops m" "le_ref env = m" "fresh RefSUL (m_k m) q" "cf_perfectEq (le_cfg env)"
    "m_n m \<le> cf_maxStates (le_cfg env)" "m_n m \<le> cf_maxRounds (le_cfg env) + 1"
  shows "\<exists>L. learn_run env (Learner_new env q g) = Some L \<and> run_succeeds (le_cfg env) m L"
  by (rule ref.learn_run_sim) (use assms in \<open>simp_all add: serves_def\<close>)

text \<open>The same against the token bucket of challenge acknowledgements, once it has a token for every step of a period.\<close>

lemma learner_learns_raised:
  assumes "mealy_wf m" "small_out m" "le_ops env = challenge_ops m" "le_ref env = m" "0 < per" "int per \<le> limit"
    "fresh (ChallengeSUL limit per) (m_k m) q" "cf_perfectEq (le_cfg env)"
    "m_n m \<le> cf_maxStates (le_cfg env)" "m_n m \<le> cf_maxRounds (le_cfg env) + 1"
  shows "\<exists>L. learn_run env (Learner_new env q g) = Some L \<and> run_succeeds (le_cfg env) m L"
proof -
  have "bucket_full (ChallengeSUL limit per)" using assms(5,6) by (simp add: bucket_full_def ChallengeSUL_def)
  then show ?thesis using assms by (intro bucket.learn_run_sim [where x = "ChallengeSUL limit per"]) (simp_all add: serves_def)
qed

subsection \<open>Witnesses\<close>

definition tcp_env :: "(ref_sul, unit, unit) learn_env" where
  "tcp_env = \<lparr>le_ops = ref_ops tcpServer, le_uniform = (\<lambda>r. (1 / 2, r)), le_ref = tcpServer, le_cfg = Config\<lparr>cf_perfectEq := True\<rparr>,
     le_pick = (\<lambda>n g. (0, g)), le_chance = (\<lambda>g. (1 / 2, g))\<rparr>"

lemma tcpServer_small: "small_out tcpServer"
  by (simp add: small_out_def tcpServer_tables Let_def All_less_Suc numeral_eq_Suc)

theorem learner_learns_witness:
  "fresh RefSUL 6 (Oracle_new RefSUL 6 ())
   \<and> (\<exists>L. learn_run tcp_env (Learner_new tcp_env (Oracle_new RefSUL 6 ()) ()) = Some L \<and> run_succeeds (Config\<lparr>cf_perfectEq := True\<rparr>) tcpServer L)"
proof -
  have e: "le_ops tcp_env = ref_ops tcpServer" "le_ref tcp_env = tcpServer" "le_cfg tcp_env = Config\<lparr>cf_perfectEq := True\<rparr>" by (simp_all add: tcp_env_def)
  have f: "fresh RefSUL 6 (Oracle_new RefSUL 6 ())"
    unfolding fresh_def by (intro exI [of _ "()"] exI [of _ 0] exI [of _ 1] exI [of _ False]) (simp add: Oracle_new_def)
  have n: "m_n tcpServer = 10" "m_k tcpServer = 6" by (simp_all add: tcpServer_tables)
  from learner_learns [OF tcpServer_wf tcpServer_small e(1,2), where q = "Oracle_new RefSUL 6 ()" and g = "()"] f e n
  show ?thesis by (simp add: Config_def)
qed

end
