(* ===== verification/Output.thy ===== *)
theory Output
  imports Timers
begin

text \<open>
  The decision of \<^verbatim>\<open>tcp_output\<close> (\<^verbatim>\<open>reference/xnu/tcp_output.c\<close>): what is to be sent, how much of it,
  which window is advertised, and whether a segment is sent at all. The local variables of the
  function are the record \<open>out_loc\<close>, one definition per step of the function in the order of
  the source, and \<open>out_pass\<close> is one pass from the label \<^verbatim>\<open>again\<close> to the label \<^verbatim>\<open>send\<close> or
  \<^verbatim>\<open>just_return\<close>. \<^verbatim>\<open>min\<close> is the kernel's on \<^verbatim>\<open>u_int\<close>, so that a signed argument is converted first;
  the variables of type \<^verbatim>\<open>int32_t\<close> are integers, and every conversion is written out. \<open>None\<close> is a
  failed \<^verbatim>\<open>VERIFY\<close> of \<^verbatim>\<open>tcp_flight_size\<close> or of the multipath window. The route is taken to be
  usable: the check of the source address that precedes these steps is not represented, nor is the
  early return of a subflow that is to be reset. Of the
  header flags the low byte is kept, since the ninth flag is added only with the options.
\<close>

record out_env = timer_env +
  tcp_outflags :: "tcp_state \<Rightarrow> u8"
  TCP_IDLETIMEOUT :: "tcpcb \<Rightarrow> int"
  TCP_CC_CWND_NONVALIDATED_PERIOD :: int
  tcp_rack_adjust :: "tcpcb \<Rightarrow> u32 \<Rightarrow> u32 \<times> tcpcb"
  tcp_sack_adjust :: "tcpcb \<Rightarrow> u32 \<times> tcpcb"
  tcp_rack_output :: "tcpcb \<Rightarrow> u32 \<Rightarrow> (tcp_seg_sent \<times> u16) option"
  tcp_sack_output :: "tcpcb \<Rightarrow> nat option \<times> int"
  tcp_heuristic_do_tfo :: "tcpcb \<Rightarrow> bool"
  SOF1_DATA_AUTHENTICATED :: u32
  tfo_mptcp_optlen :: "tcpcb \<Rightarrow> u32"
  tcp_cache_get_cookie_len :: "tcpcb \<Rightarrow> u32"
  tcp_autosndbuf_inc :: u32
  tcp_do_tso :: int
  hwcksum_tx :: int
  kipf_count :: u32
  inp_has_options :: "inpcb \<Rightarrow> bool"
  ipsec_bypass :: int
  ipsec_hdrsiz_tcp :: "tcpcb \<Rightarrow> u64"
  MPTCP_VERSION_0 :: "tcpcb \<Rightarrow> bool"
  mptcp_adj_sendlen :: "tcpcb \<Rightarrow> int \<Rightarrow> int"
  mp_rcv_hiwat :: "tcpcb \<Rightarrow> u32"
  mp_recwin_announced :: "tcpcb \<Rightarrow> int"
  mp_fallback :: "tcpcb \<Rightarrow> bool"
  rledbat_get_rlwin :: "(tcpcb \<Rightarrow> int) option"
  tcp_min_iaj_win :: u32

record out_loc =
  o_idle :: bool
  o_len :: int
  o_off :: int
  o_sendwin :: int
  o_recwin :: int
  o_flags :: u8
  o_sendalot :: bool
  o_max_len :: u32
  o_rxmit :: bool
  o_sack_bytes :: int
  o_hole :: "nat option"
  o_seg :: "tcp_seg_sent option"
  o_sack_rxmted :: bool
  o_old_nxt :: u32
  o_rescue :: bool
  o_tso :: bool
  o_mp_acknow :: bool

type_synonym out_st = "tcpcb \<times> out_loc"

definition out_loc_init :: out_loc where
  "out_loc_init = \<lparr>o_idle = False, o_len = 0, o_off = 0, o_sendwin = 0, o_recwin = 0, o_flags = 0, o_sendalot = False,
     o_max_len = 0, o_rxmit = False, o_sack_bytes = 0, o_hole = None, o_seg = None, o_sack_rxmted = False, o_old_nxt = 0,
     o_rescue = False, o_tso = False, o_mp_acknow = False\<rparr>"

text \<open>\<^verbatim>\<open>min\<close> of the kernel with its result read as \<^verbatim>\<open>int32_t\<close>.\<close>

definition umin :: "u32 \<Rightarrow> u32 \<Rightarrow> int" where "umin a b = sint (min a b)"

abbreviation u32_of :: "int \<Rightarrow> u32" where "u32_of n \<equiv> word_of_int n"

abbreviation out_so :: "tcpcb \<Rightarrow> socket" where "out_so tp \<equiv> inp_socket (t_inpcb tp)"

abbreviation is_subflow :: "'e subr_env_scheme \<Rightarrow> tcpcb \<Rightarrow> bool" where
  "is_subflow E tp \<equiv> has_flag (so_flags (out_so tp)) (SOF_MP_SUBFLOW E)"

subsection \<open>Idle connections\<close>

definition out_after_idle :: "'e out_env_scheme \<Rightarrow> cubic_params \<Rightarrow> u32 \<Rightarrow> tcpcb \<Rightarrow> tcpcb option" where
  "out_after_idle E P now tp =
     do {
       algo \<leftarrow> CC_ALGO E P now tp;
       tp \<leftarrow> (if tcp_cc_index tp \<noteq> TCP_CC_ALGO_CUBIC_INDEX E \<and> tcp_cc_index tp \<noteq> TCP_CC_ALGO_PRAGUE_INDEX E
                 \<or> idle_time now tp \<ge> TCP_CC_CWND_NONVALIDATED_PERIOD E
              then run_hook (after_idle algo) tp else Some tp);
       let tp = (if t_rxt_segments tp \<noteq> [] then tcp_rxtseg_clean tp else tp);
       Some ((tcp_cc_after_idle_stretchack E now tp)\<lparr>t_forced_acks := TCP_FORCED_ACKS_COUNT\<rparr>)
     }"

definition out_idle :: "'e out_env_scheme \<Rightarrow> cubic_params \<Rightarrow> u32 \<Rightarrow> tcpcb \<Rightarrow> out_st option" where
  "out_idle E P now tp =
     do {
       let idle = (has_flag (t_flags tp) TF_LASTIDLE \<or> snd_max tp = snd_una tp);
       tp \<leftarrow> (if idle \<and> idle_time now tp \<ge> TCP_IDLETIMEOUT E tp then out_after_idle E P now tp else Some tp);
       let tp = tp\<lparr>t_flags := t_flags tp AND NOT TF_LASTIDLE\<rparr>;
       Some (if idle \<and> has_flag (t_flags tp) TF_MORETOCOME
             then (tp\<lparr>t_flags := t_flags tp OR TF_LASTIDLE\<rparr>, out_loc_init\<lparr>o_idle := False\<rparr>)
             else (tp, out_loc_init\<lparr>o_idle := idle\<rparr>))
     }"

subsection \<open>What the scoreboard says\<close>

definition out_adjust :: "'e out_env_scheme \<Rightarrow> out_st \<Rightarrow> out_st option" where
  "out_adjust E st =
     (let (tp, L) = st in
      if SACK_ENABLED tp \<and> seq_lt (snd_nxt tp) (snd_max tp) then
        (if TCP_RACK_ENABLED tp then
           do {
             flight \<leftarrow> tcp_flight_size E tp;
             let cwin = snd_cwnd tp - flight;
             Some (if sint cwin > 0 then (let (n, tp) = tcp_rack_adjust E tp cwin in (tp, L\<lparr>o_max_len := n\<rparr>)) else (tp, L))
           }
         else (let (n, tp) = tcp_sack_adjust E tp in Some (tp, L\<lparr>o_max_len := n\<rparr>)))
      else Some (tp, L))"

definition out_begin :: "'e out_env_scheme \<Rightarrow> out_st \<Rightarrow> out_st" where
  "out_begin E st =
     (let (tp, L) = st;
          win = umin (snd_wnd tp) (snd_cwnd tp);
          win = (if has_flag (t_flags tp) TF_SLOWLINK \<and> slowlink_wsize E > 0
                 then umin (u32_of win) (u32_of (slowlink_wsize E)) else win)
      in (tp, L\<lparr>o_sendalot := False, o_off := sint (snd_nxt tp - snd_una tp), o_sendwin := win,
                o_flags := tcp_outflags E (t_state tp), o_rxmit := False, o_sack_bytes := 0, o_len := 0,
                o_hole := None, o_seg := None, o_mp_acknow := False\<rparr>))"

definition out_rack_rexmit :: "'e out_env_scheme \<Rightarrow> int \<Rightarrow> out_st \<Rightarrow> out_st" where
  "out_rack_rexmit E cwin st =
     (let (tp, L) = st in
      case tcp_rack_output E tp (u32_of cwin) of
        None \<Rightarrow> st
      | Some (seg, n) \<Rightarrow>
          (let len = umin (u32_of cwin) (ucast n) in
           if len > 0 then (tp, L\<lparr>o_len := len, o_off := sint (start_seq seg - snd_una tp), o_rxmit := True,
                                  o_sendalot := True, o_seg := Some seg\<rparr>)
           else (tp, L\<lparr>o_len := len\<rparr>)))"

definition out_sack_rexmit :: "'e out_env_scheme \<Rightarrow> int \<Rightarrow> out_st \<Rightarrow> out_st" where
  "out_sack_rexmit E cwin st =
     (let (tp, L) = st; (hole, bytes) = tcp_sack_output E tp; L = L\<lparr>o_sack_bytes := bytes\<rparr> in
      case hole of
        None \<Rightarrow> (tp, L)
      | Some i \<Rightarrow>
          (let p = snd_holes tp ! i in
           if seq_gt (sh_end p) (snd_recover tp) \<and> seq_geq (sh_rxmit p) (snd_recover tp) then (tp, L)
           else
             (let len = umin (u32_of cwin) ((if seq_gt (sh_end p) (snd_recover tp) then snd_recover tp else sh_end p) - sh_rxmit p) in
              if len > 0 then
                (tp, L\<lparr>o_hole := Some i, o_len := len, o_off := sint (sh_rxmit p - snd_una tp), o_rxmit := True,
                       o_sendalot := \<not> (seq_lt (snd_nxt tp) (snd_max tp) \<and> seq_leq (snd_nxt tp) (sh_rxmit p)
                                         \<and> u32_of len \<le> o_max_len L)\<rparr>)
              else (tp, L\<lparr>o_hole := Some i, o_len := 0\<rparr>))))"

definition out_scoreboard :: "'e out_env_scheme \<Rightarrow> out_st \<Rightarrow> out_st option" where
  "out_scoreboard E st =
     (let (tp, L) = st in
      if SACK_ENABLED tp \<and> IN_FASTRECOVERY tp then
        do {
          flight \<leftarrow> tcp_flight_size E tp;
          let cwin = sint (min (snd_wnd tp) (snd_cwnd tp) - flight);
          let cwin = (if cwin \<le> 0 \<and> \<not> o_sack_rxmted L then sint (t_maxseg tp) else cwin);
          let L = L\<lparr>o_sack_rxmted := True\<rparr>;
          let cwin = (if cwin < 0 then 0 else cwin);
          Some (if TCP_RACK_ENABLED tp then out_rack_rexmit E cwin (tp, L) else out_sack_rexmit E cwin (tp, L))
        }
      else Some (tp, L))"

subsection \<open>How much may be sent\<close>

definition out_clear_persist :: "'e out_env_scheme \<Rightarrow> tcpcb \<Rightarrow> tcpcb" where
  "out_clear_persist E tp =
     TCP_RESET_REXMT_STATE (mptcp_reset_rexmit_state E) ((set_timer TCPT_PERSIST 0 tp)\<lparr>t_persist_stop := 0\<rparr>)"

definition out_force :: "'e out_env_scheme \<Rightarrow> out_st \<Rightarrow> out_st" where
  "out_force E st =
     (let (tp, L) = st;
          L = (if has_flag (t_flags tp) TF_NEEDFIN then L\<lparr>o_flags := o_flags L OR TH_FIN\<rparr> else L)
      in if has_flag (t_flagsext tp) TF_FORCE then
           (if o_sendwin L = 0 then
              (tp, (if u32_of (o_off L) < sb_cc (so_snd (out_so tp)) then L\<lparr>o_flags := o_flags L AND NOT TH_FIN\<rparr> else L)\<lparr>o_sendwin := 1\<rparr>)
            else (out_clear_persist E tp, L))
         else (tp, L))"

definition rescue_allowed :: "int \<Rightarrow> int \<Rightarrow> tcpcb \<Rightarrow> bool" where
  "rescue_allowed len cwin tp \<longleftrightarrow> len = 0 \<and> cwin > 0 \<and> seq_lt (snd_fack tp) (snd_recover tp)
     \<and> \<not> has_flag (t_flagsext tp) TF_RESCUE_RXT \<and> \<not> TCP_RACK_ENABLED tp"

definition out_rescue :: "int \<Rightarrow> out_st \<Rightarrow> out_st" where
  "out_rescue cwin st =
     (let (tp, L) = st;
          len = min (umin (snd_recover tp - snd_fack tp) (t_maxseg tp)) cwin;
          old = snd_nxt tp;
          tp = tp\<lparr>snd_nxt := snd_recover tp - u32_of len\<rparr>;
          tp = (if has_flag (t_flags tp) TF_SENTFIN \<and> snd_max tp = snd_recover tp then tp\<lparr>snd_nxt := snd_nxt tp - 1\<rparr> else tp)
      in (tp\<lparr>t_flagsext := t_flagsext tp OR TF_RESCUE_RXT\<rparr>,
          L\<lparr>o_len := len, o_old_nxt := old, o_rescue := True, o_off := sint (snd_nxt tp - snd_una tp), o_sendalot := False\<rparr>))"

definition out_new_data :: "'e out_env_scheme \<Rightarrow> out_st \<Rightarrow> out_st option" where
  "out_new_data E st =
     (let (tp, L) = st; cc = sb_cc (so_snd (out_so tp)) in
      if o_rxmit L then Some st
      else if o_sack_bytes L = 0 \<and> \<not> (TCP_RACK_ENABLED tp \<and> IN_FASTRECOVERY tp) then
        Some (tp, L\<lparr>o_len := sint (min cc (u32_of (o_sendwin L)) - u32_of (o_off L))\<rparr>)
      else
        do {
          flight \<leftarrow> tcp_flight_size E tp;
          let cwin = sint (snd_cwnd tp - flight);
          let cwin = (if cwin < 0 then 0 else cwin);
          let len = sint (min cc (snd_wnd tp) - u32_of (o_off L));
          let len = (if len > 0 then min len cwin else 0);
          Some (if rescue_allowed len cwin tp then out_rescue cwin (tp, L) else (tp, L\<lparr>o_len := len\<rparr>))
        })"

definition out_cap :: "out_st \<Rightarrow> out_st" where
  "out_cap st =
     (let (tp, L) = st in
      if o_max_len L \<noteq> 0 \<and> o_len L > 0 then (tp, L\<lparr>o_len := umin (u32_of (o_len L)) (o_max_len L)\<rparr>) else st)"

text \<open>
  The SYN that was already sent is taken off. The flag of the result says that the function
  returns without a segment, as it does for data in \<^verbatim>\<open>SYN_SENT\<close>.
\<close>

definition out_syn :: "out_st \<Rightarrow> bool \<times> out_st" where
  "out_syn st =
     (let (tp, L) = st in
      if has_flag (o_flags L) TH_SYN \<and> seq_gt (snd_nxt tp) (snd_una tp) then
        (let again = (t_state tp = TCPS_SYN_RECEIVED \<and> TFO_ENABLED tp \<and> snd_nxt tp = snd_una tp + 1);
             L' = L\<lparr>o_off := o_off L - 1, o_len := o_len L + 1\<rparr>
         in if again then (False, tp, L')
            else (o_len L' > 0 \<and> t_state tp = TCPS_SYN_SENT,
                  tp, if t_state tp \<noteq> TCPS_SYN_RECEIVED \<or> TFO_ENABLED tp then L'\<lparr>o_flags := o_flags L' AND NOT TH_SYN\<rparr> else L'))
      else (False, st))"

definition MAX_TCPOPTLEN :: u32 where "MAX_TCPOPTLEN = 40"
definition TCPOLEN_FASTOPEN_REQ :: u32 where "TCPOLEN_FASTOPEN_REQ = 2"

definition tfo_optlen :: "'e out_env_scheme \<Rightarrow> tcpcb \<Rightarrow> u32" where
  "tfo_optlen E tp = 4 + (if has_flag (t_flags tp) TF_REQ_SCALE then 4 else 0) + tfo_mptcp_optlen E tp
     + (if has_flag (t_flags tp) TF_REQ_TSTMP then 12 else 0) + (if SACK_ENABLED tp then 2 else 0)"

definition tcp_tfo_check :: "'e out_env_scheme \<Rightarrow> tcpcb \<Rightarrow> int \<Rightarrow> int \<times> tcpcb" where
  "tcp_tfo_check E tp len =
     (let fallback = (\<lambda>tp. (0, tcp_disable_tfo tp)); room = MAX_TCPOPTLEN - tfo_optlen E tp; cookie = tcp_cache_get_cookie_len E tp in
      if has_flag (t_flags tp) TF_NOOPT then fallback tp
      else if \<not> has_flag (t_flagsext tp) TF_FASTOPEN_FORCE_ENABLE \<and> \<not> tcp_heuristic_do_tfo E tp
      then fallback (tp\<lparr>t_tfo_stats := t_tfo_stats tp OR TFO_S_HEURISTICS_DISABLE\<rparr>)
      else if has_flag (so_flags1 (out_so tp)) (SOF1_DATA_AUTHENTICATED E) then (len, tp)
      else if room < TCPOLEN_FASTOPEN_REQ then fallback tp
      else if cookie = 0 then (0, tp)
      else if room < cookie then fallback tp
      else if sb_cc (so_snd (out_so tp)) > t_maxopd tp - MAX_TCPOPTLEN then fallback tp
      else (len, tp))"

definition out_no_data :: "'e out_env_scheme \<Rightarrow> out_st \<Rightarrow> out_st" where
  "out_no_data E st =
     (let (tp, L) = st;
          L = (if has_flag (o_flags L) TH_SYN \<and> \<not> TFO_ENABLED tp then L\<lparr>o_len := 0, o_flags := o_flags L AND NOT TH_FIN\<rparr> else L);
          L = (if has_flag (o_flags L) TH_RST then L\<lparr>o_len := 0\<rparr> else L);
          (tp, L) = (if has_flag (o_flags L) TH_SYN \<and> TCPS_NUM E (t_state tp) \<le> TCPS_NUM E TCPS_SYN_SENT \<and> TFO_ENABLED tp
                     then (let (len, tp) = tcp_tfo_check E tp (o_len L) in (tp, L\<lparr>o_len := len\<rparr>)) else (tp, L));
          burst = pc_tso_burst_size (t_pacer tp)
      in if tcp_cc_index tp = TCP_CC_ALGO_PRAGUE_INDEX E \<and> burst \<noteq> 0 \<and> o_len L > 0 \<and> u32_of (o_len L) > burst
         then (tp, L\<lparr>o_len := sint burst, o_sendalot := True\<rparr>) else (tp, L))"

definition out_persist :: "'e out_env_scheme \<Rightarrow> u32 \<Rightarrow> out_st \<Rightarrow> out_st" where
  "out_persist E now st =
     (let (tp, L) = st in
      if o_len L \<le> 0 \<and> \<not> has_flag (o_flags L) TH_SYN then
        (let L = L\<lparr>o_len := 0\<rparr> in
         if o_sendwin L = 0 then
           (let tp = TCP_RESET_REXMT_STATE (mptcp_reset_rexmit_state E) (set_timer TCPT_PTO 0 (set_timer TCPT_REXMT 0 tp));
                tp = tp\<lparr>snd_nxt := snd_una tp\<rparr>
            in (if t_timer tp TCPT_PERSIST = 0 then tcp_setpersist E now tp else tp, L\<lparr>o_off := 0\<rparr>))
         else (tp, L))
      else st)"

definition out_autosize :: "'e out_env_scheme \<Rightarrow> out_st \<Rightarrow> out_st" where
  "out_autosize E st =
     (let (tp, L) = st; sb = so_snd (out_so tp) in
      if \<not> INP_WAIT_FOR_IF_FEEDBACK E (t_inpcb tp) \<and> \<not> IN_FASTRECOVERY tp
         \<and> sb_flags sb AND (SB_AUTOSIZE E OR SB_TRIM E) = SB_AUTOSIZE E
         \<and> snd_wnd tp div 4 * 5 \<ge> sb_hiwat sb \<and> sb_cc sb \<ge> sb_hiwat sb div 8 * 7
         \<and> u32_of (o_sendwin L) \<ge> sb_cc sb - (snd_nxt tp - snd_una tp)
      then (let (ok, sb) = sbreserve E sb (min (sb_hiwat sb + tcp_autosndbuf_inc E) (tcp_autosndbuf_max E));
                sb = (if ok then sb\<lparr>sb_idealsize := sb_hiwat sb\<rparr> else sb)
            in (upd_snd (\<lambda>_. sb) tp, L))
      else st)"

definition tso_possible :: "'e out_env_scheme \<Rightarrow> out_st \<Rightarrow> bool" where
  "tso_possible E st \<longleftrightarrow>
     (let (tp, L) = st in
      has_flag (t_flags tp) TF_TSO \<and> tcp_do_tso E \<noteq> 0 \<and> hwcksum_tx E \<noteq> 0 \<and> kipf_count E = 0 \<and> rcv_numsacks tp = 0
      \<and> \<not> o_rxmit L \<and> o_sack_bytes L = 0 \<and> \<not> inp_has_options E (t_inpcb tp)
      \<and> (if ipsec_bypass E = 0 then ipsec_hdrsiz_tcp E tp else 0) = 0)"

definition out_segment :: "'e out_env_scheme \<Rightarrow> out_st \<Rightarrow> out_st" where
  "out_segment E st =
     (let (tp, L) = st;
          L = (if u32_of (o_len L) > t_maxseg tp then
                 (if tso_possible E (tp, L) then L\<lparr>o_tso := True, o_sendalot := False\<rparr>
                  else L\<lparr>o_len := sint (t_maxseg tp), o_sendalot := True, o_tso := False\<rparr>)
               else L\<lparr>o_tso := False\<rparr>)
      in (tp, if has_flag (t_flagsext tp) TF_SENT_TLPROBE
              then L\<lparr>o_len := umin (u32_of (o_len L)) (t_maxseg tp), o_sendalot := False, o_tso := False\<rparr> else L))"

definition mp_control :: "'e out_env_scheme \<Rightarrow> tcpcb \<Rightarrow> bool" where
  "mp_control E tp \<longleftrightarrow> TCPS_NUM E (t_state tp) \<ge> TCPS_NUM E TCPS_ESTABLISHED
     \<and> (has_flag (t_mpflags tp) TMPF_SND_MPPRIO \<or> has_flag (t_mpflags tp) TMPF_SND_REM_ADDR
        \<or> has_flag (t_mpflags tp) TMPF_SND_MPFAIL \<or> has_flag (t_mpflags tp) TMPF_SND_KEYS \<and> MPTCP_VERSION_0 E tp
        \<or> has_flag (t_mpflags tp) TMPF_SND_JACK \<or> has_flag (t_mpflags tp) TMPF_MPTCP_ECHO_ADDR)"

definition out_mptcp :: "'e out_env_scheme \<Rightarrow> out_st \<Rightarrow> out_st" where
  "out_mptcp E st =
     (let (tp, L) = st in
      if is_subflow E tp \<and> \<not> has_flag (t_mpflags tp) TMPF_TCP_FALLBACK then
        (let newlen = o_len L;
             L = (if mp_control E tp then
                    (let L = (if o_len L > 0 then L\<lparr>o_len := 0, o_tso := False\<rparr> else L);
                         L = (if \<not> has_flag (t_mpflags tp) TMPF_PREESTABLISHED then L\<lparr>o_sendalot := True\<rparr> else L)
                     in L\<lparr>o_mp_acknow := True\<rparr>)
                  else L\<lparr>o_mp_acknow := False\<rparr>);
             newlen = (if o_len L > 0 \<and> o_off L \<ge> 0 then mptcp_adj_sendlen E tp (o_off L) else newlen)
         in if newlen < o_len L
            then (tp, L\<lparr>o_len := newlen, o_tso := (if u32_of newlen \<le> t_maxseg tp then False else o_tso L)\<rparr>)
            else (tp, L))
      else st)"

definition out_fin :: "out_st \<Rightarrow> out_st" where
  "out_fin st =
     (let (tp, L) = st;
          start = (if o_rxmit L then (if TCP_RACK_ENABLED tp then start_seq (the (o_seg L)) else sh_rxmit (snd_holes tp ! the (o_hole L)))
                   else snd_nxt tp)
      in if seq_lt (start + u32_of (o_len L)) (snd_una tp + sb_cc (so_snd (out_so tp)))
         then (tp, L\<lparr>o_flags := o_flags L AND NOT TH_FIN\<rparr>) else st)"

subsection \<open>The window to advertise\<close>

definition rcv_maxwin :: "'e subr_env_scheme \<Rightarrow> tcpcb \<Rightarrow> int" where
  "rcv_maxwin E tp = sint (push_bit (unat (rcv_scale tp)) (TCP_MAXWIN E))"

definition rcv_promised :: "tcpcb \<Rightarrow> int" where
  "rcv_promised tp = sint (rcv_adv tp - rcv_nxt tp)"

definition recwin_silly :: "'e out_env_scheme \<Rightarrow> tcpcb \<Rightarrow> int \<Rightarrow> int" where
  "recwin_silly E tp win =
     (let hiwat = (if is_subflow E tp then mp_rcv_hiwat E tp else sb_hiwat (so_rcv (out_so tp)))
      in if win < sint (hiwat div 4) \<and> win < sint (t_maxseg tp) then 0 else win)"

definition recwin_background :: "'e out_env_scheme \<Rightarrow> u32 \<Rightarrow> int \<Rightarrow> tcpcb \<Rightarrow> int \<times> tcpcb" where
  "recwin_background E now win tp =
     (if tcp_recv_bg E = 1 \<or> IS_TCP_RECV_BG E (out_so tp) then
        (if TCP_RLEDBAT_ENABLED (tcp_rledbat E) tp
            \<or> tcp_rledbat E \<noteq> 0 \<and> TCPS_NUM E (t_state tp) < TCPS_NUM E TCPS_ESTABLISHED
         then (case rledbat_get_rlwin E of
                 None \<Rightarrow> (win, tp)
               | Some get \<Rightarrow> (if win > 0 then min win (get tp) else win, tp))
         else if win > 0 then
           (let (slow, tp) = tcp_recv_throttle E now tp in
            if slow then
              (let least = tcp_min_iaj_win E * t_maxseg tp;
                   top = (if seq_lt (rcv_adv tp) (rcv_nxt tp + least) then rcv_nxt tp + least else rcv_adv tp);
                   win = min (sint (top - rcv_nxt tp)) win
               in (if win < 0 then 0 else win, tp))
            else (win, tp))
         else (win, tp))
      else (win, tp))"

definition recwin_promise :: "'e out_env_scheme \<Rightarrow> tcpcb \<Rightarrow> int \<Rightarrow> int option" where
  "recwin_promise E tp win =
     (if \<not> is_subflow E tp then Some (max win (rcv_promised tp))
      else if mp_recwin_announced E tp \<ge> 2 ^ 31 - 1 \<or> mp_recwin_announced E tp \<le> - (2 ^ 31) then None
      else (let win = max win (mp_recwin_announced E tp)
            in Some (if mp_fallback E tp then max win (rcv_promised tp) else win)))"

definition recwin_roundup :: "tcpcb \<Rightarrow> int \<Rightarrow> int" where
  "recwin_roundup tp win = (win + (2 ^ unat (rcv_scale tp) - 1)) AND NOT (2 ^ unat (rcv_scale tp) - 1)"

definition out_recwin :: "'e out_env_scheme \<Rightarrow> u32 \<Rightarrow> out_st \<Rightarrow> out_st option" where
  "out_recwin E now st =
     (let (tp, L) = st;
          (win, tp) = tcp_sbspace E tp;
          win = recwin_silly E tp win;
          (win, tp) = recwin_background E now win tp;
          win = min win (rcv_maxwin E tp)
      in do {
           win \<leftarrow> recwin_promise E tp win;
           Some (tp, L\<lparr>o_recwin := recwin_roundup tp win\<rparr>)
         })"

subsection \<open>Whether to send\<close>

text \<open>The Nagle algorithm and its exceptions.\<close>

definition nagle_send :: "'e out_env_scheme \<Rightarrow> out_st \<Rightarrow> bool" where
  "nagle_send E st \<longleftrightarrow>
     (let (tp, L) = st in
      \<not> has_flag (t_flags tp) TF_MORETOCOME
      \<and> (o_idle L \<or> has_flag (t_flags tp) TF_NODELAY \<or> has_flag (t_flags tp) TF_MAXSEGSNT \<or> ALLOW_LIMITED_TRANSMIT E tp)
      \<and> \<not> has_flag (t_flags tp) TF_NOPUSH
      \<and> (u32_of (o_len L + o_off L) \<ge> sb_cc (so_snd (out_so tp)) \<or> is_subflow E tp))"

text \<open>\<open>us\<close> is \<^verbatim>\<open>net_uptime_us ()\<close>.\<close>

definition note_rcvwnd_limit :: "u64 \<Rightarrow> out_st \<Rightarrow> tcpcb" where
  "note_rcvwnd_limit us st =
     (let (tp, L) = st; start = t_rcvwnd_limited_start_time tp in
      if u32_of (o_off L + o_len L) = snd_wnd tp then
        (if start = 0 then tp\<lparr>t_rcvwnd_limited_start_time := us\<rparr> else tp)
      else if start \<noteq> 0 then
        tp\<lparr>t_rcvwnd_limited_total_time := t_rcvwnd_limited_total_time tp + (us - start), t_rcvwnd_limited_start_time := 0\<rparr>
      else tp)"

definition out_data_send :: "'e out_env_scheme \<Rightarrow> u64 \<Rightarrow> out_st \<Rightarrow> bool \<times> out_st" where
  "out_data_send E us st =
     (let (tp, L) = st in
      if o_len L = 0 then (False, st)
      else if has_flag (t_flagsext tp) TF_FORCE then (True, st)
      else if seq_lt (snd_nxt tp) (snd_max tp) then
        (True, tp, if TCP_RACK_ENABLED tp \<and> \<not> o_rxmit L
                   then L\<lparr>o_len := umin (u32_of (o_len L)) (snd_max tp - snd_nxt tp)\<rparr> else L)
      else if o_rxmit L then (True, st)
      else if t_state tp = TCPS_SYN_RECEIVED \<and> TFO_ENABLED tp \<and> has_flag (t_tfo_flags tp) TFO_F_COOKIE_VALID
              \<and> snd_nxt tp = iss tp + 1
      then (True, st)
      else if \<not> INP_WAIT_FOR_IF_FEEDBACK E (t_inpcb tp) \<or> t_state tp \<noteq> TCPS_ESTABLISHED then
        (u32_of (o_len L) \<ge> t_maxseg tp \<or> nagle_send E st
           \<or> u32_of (o_len L) \<ge> max_sndwnd tp div 2 \<and> max_sndwnd tp > 0,
         note_rcvwnd_limit us st, L)
      else (False, st))"

text \<open>How far the window can be moved beyond what the peer was told.\<close>

definition window_adv :: "'e out_env_scheme \<Rightarrow> out_st \<Rightarrow> int" where
  "window_adv E st = (let (tp, L) = st in sint (u32_of (min (o_recwin L) (rcv_maxwin E tp)) - (rcv_adv tp - rcv_nxt tp)))"

definition window_moves :: "'e out_env_scheme \<Rightarrow> out_st \<Rightarrow> bool" where
  "window_moves E st \<longleftrightarrow>
     (let (tp, L) = st; oldwin = (if seq_gt (rcv_adv tp) (rcv_nxt tp) then rcv_promised tp else 0) in
      last_ack_sent tp \<noteq> rcv_nxt tp
      \<or> drop_bit (unat (rcv_scale tp)) (oldwin + window_adv E st) > drop_bit (unat (rcv_scale tp)) oldwin)"

definition window_update_send :: "'e out_env_scheme \<Rightarrow> out_st \<Rightarrow> bool" where
  "window_update_send E st \<longleftrightarrow>
     (let (tp, L) = st; rcv = so_rcv (out_so tp); adv = window_adv E st; big = adv \<ge> sint (2 * t_maxseg tp) in
      (if tcp_ack_strategy E = TCP_ACK_STRATEGY_LEGACY E
       then big \<and> \<not> has_flag (t_flags tp) TF_STRETCHACK \<and> window_moves E st
       else if big then sb_cc rcv < sb_lowat rcv \<and> window_moves E st
       else has_flag (t_flags tp) TF_DELACK \<and> sb_cc rcv = 0 \<and> last_ack_sent tp \<noteq> rcv_nxt tp
            \<and> has_flag (t_flagsext tp) TF_LAST_IS_PSH)
      \<or> 4 * adv \<ge> sint (sb_hiwat rcv))"

definition out_window_update :: "'e out_env_scheme \<Rightarrow> out_st \<Rightarrow> bool \<times> out_st" where
  "out_window_update E st =
     (let (tp, L) = st in
      if o_recwin L > 0 then
        (if window_update_send E st then (True, st)
         else if tcp_ack_strategy E = TCP_ACK_STRATEGY_LEGACY E \<and> has_flag (t_flags tp) TF_STRETCHACK
                 \<and> \<not> has_flag (t_flags tp) TF_DELACK
         then (False, set_timer TCPT_DELACK (OFFSET_FROM_START E tp (tcp_delack E)) (tp\<lparr>t_flags := t_flags tp OR TF_DELACK\<rparr>), L)
         else (False, st))
      else (False, st))"

text \<open>What is owed to the peer whatever the windows say.\<close>

definition out_owed :: "out_st \<Rightarrow> bool \<times> out_st" where
  "out_owed st =
     (let (tp, L) = st in
      if has_flag (t_flags tp) TF_ACKNOW
      then (True, if t_forced_acks tp > 0 then tp\<lparr>t_forced_acks := t_forced_acks tp - 1\<rparr> else tp, L)
      else (has_flag (o_flags L) TH_RST \<or> has_flag (o_flags L) TH_SYN \<or> seq_gt (snd_up tp) (snd_una tp) \<or> o_mp_acknow L
            \<or> has_flag (o_flags L) TH_FIN \<and> (\<not> has_flag (t_flags tp) TF_SENTFIN \<or> snd_nxt tp = snd_una tp), st))"

text \<open>Nothing is sent: a timer is left running if anything waits.\<close>

definition arm_rexmt :: "'e timer_env_scheme \<Rightarrow> tcpcb \<Rightarrow> tcpcb" where
  "arm_rexmt E tp =
     (let tp = tcp_set_link_heur_rtomin E tp in set_timer TCPT_REXMT (OFFSET_FROM_START E tp (u32_of (t_rxtcur tp))) tp)"

definition out_wait :: "'e out_env_scheme \<Rightarrow> u32 \<Rightarrow> tcpcb \<Rightarrow> tcpcb" where
  "out_wait E now tp =
     (if SACK_ENABLED tp \<and> TCPS_NUM E (t_state tp) \<ge> TCPS_NUM E TCPS_ESTABLISHED \<and> seq_gt (snd_max tp) (snd_una tp)
         \<and> t_timer tp TCPT_REXMT = 0 \<and> t_timer tp TCPT_PERSIST = 0
      then arm_rexmt E tp
      else if sb_cc (so_snd (out_so tp)) \<noteq> 0 \<and> t_timer tp TCPT_REXMT = 0 \<and> t_timer tp TCPT_PERSIST = 0
      then tcp_setpersist E now (TCP_RESET_REXMT_STATE (mptcp_reset_rexmit_state E) tp)
      else tp)"

datatype out_dec = OSend tcpcb out_loc | OJustReturn tcpcb out_loc | OSynReturn tcpcb out_loc

text \<open>The chain of reasons to send, each of which may change the state.\<close>

definition out_decide :: "'e out_env_scheme \<Rightarrow> u32 \<Rightarrow> u64 \<Rightarrow> out_st \<Rightarrow> out_dec" where
  "out_decide E now us st =
     (let (go, st) = out_data_send E us st;
          (go, st) = (if go then (True, st) else out_window_update E st);
          (go, tp, L) = (if go then (True, st) else out_owed st)
      in if go then OSend tp L else OJustReturn (out_wait E now tp) L)"

definition out_amount :: "'e out_env_scheme \<Rightarrow> out_st \<Rightarrow> (bool \<times> out_st) option" where
  "out_amount E st =
     do {
       st \<leftarrow> out_adjust E st;
       st \<leftarrow> out_scoreboard E (out_begin E st);
       st \<leftarrow> out_new_data E (out_force E st);
       Some (out_syn (out_cap st))
     }"

definition out_shape :: "'e out_env_scheme \<Rightarrow> u32 \<Rightarrow> out_st \<Rightarrow> out_st option" where
  "out_shape E now st =
     out_recwin E now (out_fin (out_mptcp E (out_segment E (out_autosize E (out_persist E now (out_no_data E st))))))"

definition out_pass :: "'e out_env_scheme \<Rightarrow> u32 \<Rightarrow> u64 \<Rightarrow> out_st \<Rightarrow> out_dec option" where
  "out_pass E now us st =
     do {
       (quit, tp, L) \<leftarrow> out_amount E st;
       if quit then Some (OSynReturn tp L)
       else do {
         st \<leftarrow> out_shape E now (tp, L);
         Some (out_decide E now us st)
       }
     }"

subsection \<open>What the steps leave alone\<close>

text \<open>The variables that bound a transmission.\<close>

definition same_bounds :: "tcpcb \<Rightarrow> tcpcb \<Rightarrow> bool" where
  "same_bounds tp tp' \<longleftrightarrow> snd_wnd tp' = snd_wnd tp \<and> snd_cwnd tp' = snd_cwnd tp \<and> snd_una tp' = snd_una tp \<and> snd_max tp' = snd_max tp
     \<and> sb_cc (so_snd (out_so tp')) = sb_cc (so_snd (out_so tp)) \<and> IN_FASTRECOVERY tp' = IN_FASTRECOVERY tp
     \<and> has_flag (t_flagsext tp') TF_FORCE = has_flag (t_flagsext tp) TF_FORCE"

text \<open>
  What the sending side relies on of the code outside the sources: resetting the multipath
  retransmission state, resizing a buffer and moving \<^verbatim>\<open>snd_nxt\<close> past what the scoreboard covers
  change neither the windows nor the data, \<^verbatim>\<open>snd_nxt\<close> is not moved in front of \<^verbatim>\<open>snd_una\<close>, and only the
  two states of an opening connection call for a SYN.
\<close>

definition adjust_law :: "(tcpcb \<Rightarrow> u32 \<times> tcpcb) \<Rightarrow> bool" where
  "adjust_law f \<longleftrightarrow> (\<forall>tp. same_bounds tp (snd (f tp)) \<and> TFO_ENABLED (snd (f tp)) = TFO_ENABLED tp
     \<and> so_flags (out_so (snd (f tp))) = so_flags (out_so tp)
     \<and> (seq_geq (snd_nxt tp) (snd_una tp) \<longrightarrow> seq_geq (snd_nxt (snd (f tp))) (snd_una (snd (f tp)))))"

definition out_lawful :: "'e out_env_scheme \<Rightarrow> bool" where
  "out_lawful E \<longleftrightarrow> (\<forall>tp. same_bounds tp (mptcp_reset_rexmit_state E tp)
       \<and> TFO_ENABLED (mptcp_reset_rexmit_state E tp) = TFO_ENABLED tp
       \<and> snd_nxt (mptcp_reset_rexmit_state E tp) = snd_nxt tp
       \<and> t_state (mptcp_reset_rexmit_state E tp) = t_state tp
       \<and> so_flags (out_so (mptcp_reset_rexmit_state E tp)) = so_flags (out_so tp))
     \<and> (\<forall>sb n. sb_cc (snd (sbreserve E sb n)) = sb_cc sb)
     \<and> (\<forall>s. has_flag (tcp_outflags E s) TH_SYN \<longrightarrow> s = TCPS_SYN_SENT \<or> s = TCPS_SYN_RECEIVED)
     \<and> adjust_law (tcp_sack_adjust E) \<and> (\<forall>w. adjust_law (\<lambda>tp. tcp_rack_adjust E tp w))"

lemma same_bounds_refl [simp]: "same_bounds tp tp" by (simp add: same_bounds_def)

lemma same_bounds_trans: "same_bounds tp tp' \<Longrightarrow> same_bounds tp' tp'' \<Longrightarrow> same_bounds tp tp''"
  by (simp add: same_bounds_def)

text \<open>How far, in bytes from the oldest unacknowledged one, new data may reach.\<close>

definition send_edge :: "tcpcb \<Rightarrow> int" where
  "send_edge tp =
     (let win = uint (if IN_FASTRECOVERY tp then snd_wnd tp else min (snd_wnd tp) (snd_cwnd tp))
      in min (uint (sb_cc (so_snd (out_so tp)))) (if has_flag (t_flagsext tp) TF_FORCE then max 1 win else win))"

lemma send_edge_same: "same_bounds tp tp' \<Longrightarrow> send_edge tp' = send_edge tp"
  by (simp add: same_bounds_def send_edge_def)

text \<open>A subflow is a connection whose socket has the flag; the other steps need its absence.\<close>

definition ordinary :: "'e subr_env_scheme \<Rightarrow> tcpcb \<Rightarrow> bool" where
  "ordinary E tp \<longleftrightarrow> \<not> TFO_ENABLED tp \<and> \<not> is_subflow E tp"

definition fits :: "out_st \<Rightarrow> bool" where
  "fits st \<longleftrightarrow> (let (tp, L) = st in \<not> o_rxmit L \<and> \<not> o_rescue L \<longrightarrow>
     0 \<le> o_off L \<and> (0 < o_len L \<longrightarrow> o_len L < 2 ^ 31 \<and> o_off L + o_len L \<le> send_edge tp))"

lemma fitsI:
  assumes "fits (tp, L)" "same_bounds tp tp'" "o_rxmit L' = o_rxmit L" "o_rescue L' = o_rescue L"
    and "0 \<le> o_off L \<Longrightarrow> 0 \<le> o_off L'" "0 < o_len L' \<Longrightarrow> 0 < o_len L \<and> o_len L' \<le> o_len L \<and> o_off L' + o_len L' \<le> o_off L + o_len L"
  shows "fits (tp', L')"
  using assms(1,3-6) send_edge_same [OF assms(2)] by (fastforce simp: fits_def)

subsection \<open>Steps on plain connections\<close>

lemma sint_u32_cases:
  "sint (x :: u32) = (if uint x < 2 ^ 31 then uint x else uint x - 2 ^ 32)"
proof -
  have "unat x < 2 ^ 31 \<longleftrightarrow> int (unat x) < int (2 ^ 31)" by (rule of_nat_less_iff [symmetric])
  then have "unat x < 2 ^ 31 \<longleftrightarrow> uint x < 2 ^ 31" by (simp only: uint_nat [symmetric] of_nat_power of_nat_numeral)
  then show ?thesis by (simp only: sint32_cases uint_nat [symmetric])
qed

lemma sint_u32_pos: "0 \<le> sint (x :: u32) \<Longrightarrow> sint x = uint x \<and> uint x < 2 ^ 31"
  using uint_lt2p [of x] by (simp add: sint_u32_cases split: if_splits)

lemma sint_small: "uint (x :: u32) < 2 ^ 31 \<Longrightarrow> sint x = uint x"
  by (simp add: sint_u32_cases)

lemma sint_diff_small:
  assumes "uint (a :: u32) < 2 ^ 31" "0 \<le> sint (b :: u32)"
  shows "sint (a - b) = uint a - sint b"
proof -
  have b: "sint b = uint b" "uint b < 2 ^ 31" using sint_u32_pos [OF assms(2)] by simp_all
  have "sint (of_int (uint a - uint b) :: u32) = uint a - uint b"
    by (rule sint_of_int_small) (use assms(1) b uint_ge_0 [of a] uint_ge_0 [of b] in linarith)+
  then show ?thesis using b by simp
qed

lemma uint_min: "uint (min (a :: u32) b) = min (uint a) (uint b)"
  by (simp add: min_def word_le_def)

lemma umin_small:
  assumes "uint (a :: u32) < 2 ^ 31"
  shows "umin a b = min (uint a) (uint b)" "0 \<le> umin a b"
proof -
  have "uint (min a b) < 2 ^ 31" using assms by (simp add: uint_min)
  then show *: "umin a b = min (uint a) (uint b)" by (simp add: umin_def sint_small uint_min)
  show "0 \<le> umin a b" by (simp add: *)
qed

lemma uint_u32_of: "0 \<le> n \<Longrightarrow> n < 2 ^ 31 \<Longrightarrow> uint (u32_of n) = n"
  by (simp add: uint_word_of_int_eq take_bit_int_eq_self)

lemma umin_le:
  assumes "0 < n" "n < 2 ^ 31"
  shows "umin (u32_of n) m \<le> n" "0 \<le> umin (u32_of n) m"
  using umin_small [of "u32_of n" m] uint_u32_of [of n] assms by simp_all

lemma sint_u32_of: "0 \<le> n \<Longrightarrow> n < 2 ^ 31 \<Longrightarrow> sint (u32_of n) = n"
  by (simp add: sint_small uint_u32_of)

lemma sint_diff_of:
  assumes "uint (a :: u32) < 2 ^ 31" "0 \<le> n" "n < 2 ^ 31"
  shows "sint (a - u32_of n) = uint a - n"
  using sint_diff_small [OF assms(1), of "u32_of n"] assms(2,3) by (simp add: sint_u32_of)

text \<open>The state when the amount of new data is computed.\<close>

definition amount_ready :: "out_st \<Rightarrow> bool" where
  "amount_ready st \<longleftrightarrow> (let (tp, L) = st in
     (\<not> o_rxmit L \<longrightarrow> 0 \<le> o_off L \<and> o_off L < 2 ^ 31 \<and> o_off L = sint (snd_nxt tp - snd_una tp)) \<and> 0 \<le> o_sendwin L
     \<and> o_sendwin L \<le> (if has_flag (t_flagsext tp) TF_FORCE then max 1 (uint (min (snd_wnd tp) (snd_cwnd tp)))
                      else uint (min (snd_wnd tp) (snd_cwnd tp)))
     \<and> (\<not> IN_FASTRECOVERY tp \<longrightarrow> o_sack_bytes L = 0)
     \<and> uint (snd_wnd tp) < 2 ^ 31 \<and> uint (sb_cc (so_snd (out_so tp))) < 2 ^ 31)"

lemma rescue_keeps:
  "same_bounds tp (fst (out_rescue cwin (tp, L)))" "TFO_ENABLED (fst (out_rescue cwin (tp, L))) = TFO_ENABLED tp"
  "out_so (fst (out_rescue cwin (tp, L))) = out_so tp" "o_rescue (snd (out_rescue cwin (tp, L)))"
  "o_flags (snd (out_rescue cwin (tp, L))) = o_flags L" "o_rxmit (snd (out_rescue cwin (tp, L))) = o_rxmit L"
  "t_state (fst (out_rescue cwin (tp, L))) = t_state tp"
  by (simp_all add: out_rescue_def same_bounds_def IN_FASTRECOVERY_def TFO_ENABLED_def Let_def bit.conj_disj_distrib2
      TF_FORCE_def TF_RESCUE_RXT_def TF_FASTOPEN_def)

lemma new_data_plain:
  assumes r: "amount_ready (tp, L)" and "\<not> o_rxmit L"
  shows "fits (tp, L\<lparr>o_len := sint (min (sb_cc (so_snd (out_so tp))) (u32_of (o_sendwin L)) - u32_of (o_off L))\<rparr>)"
proof -
  let ?cc = "sb_cc (so_snd (out_so tp))"
  have w: "0 \<le> o_sendwin L" "o_sendwin L < 2 ^ 31" "0 \<le> o_off L" "o_off L < 2 ^ 31" "uint ?cc < 2 ^ 31"
    using r assms(2) uint_min [of "snd_wnd tp" "snd_cwnd tp"] by (auto simp: amount_ready_def split: if_splits)
  have m: "uint (min ?cc (u32_of (o_sendwin L))) = min (uint ?cc) (o_sendwin L)"
    using w(1,2) by (simp add: uint_min uint_u32_of)
  then have "sint (min ?cc (u32_of (o_sendwin L)) - u32_of (o_off L)) = min (uint ?cc) (o_sendwin L) - o_off L"
    using w sint_diff_of [of "min ?cc (u32_of (o_sendwin L))" "o_off L"] by simp
  moreover have "min (uint ?cc) (o_sendwin L) \<le> send_edge tp"
    using r by (auto simp: amount_ready_def send_edge_def uint_min Let_def split: if_splits)
  ultimately show ?thesis using w by (auto simp: fits_def)
qed

lemma new_data_recovery:
  assumes r: "amount_ready (tp, L)" and "\<not> o_rxmit L" "IN_FASTRECOVERY tp"
    and len: "len = sint (min (sb_cc (so_snd (out_so tp))) (snd_wnd tp) - u32_of (o_off L))"
  shows "fits (tp, L\<lparr>o_len := (if len > 0 then min len cwin else 0)\<rparr>)"
proof -
  let ?cc = "sb_cc (so_snd (out_so tp))"
  have w: "0 \<le> o_off L" "o_off L < 2 ^ 31" "uint ?cc < 2 ^ 31" "uint (snd_wnd tp) < 2 ^ 31"
    using r assms(2) by (auto simp: amount_ready_def)
  have "len = min (uint ?cc) (uint (snd_wnd tp)) - o_off L"
    unfolding len using w sint_diff_of [of "min ?cc (snd_wnd tp)" "o_off L"] by (simp add: uint_min)
  moreover have "min (uint ?cc) (uint (snd_wnd tp)) \<le> send_edge tp"
    using assms(3) by (auto simp: send_edge_def Let_def)
  ultimately show ?thesis using w by (auto simp: fits_def)
qed

lemma new_data_fits:
  assumes "out_new_data E (tp, L) = Some (tp', L')" "amount_ready (tp, L)"
  shows "fits (tp', L') \<and> same_bounds tp tp' \<and> TFO_ENABLED tp' = TFO_ENABLED tp \<and> out_so tp' = out_so tp
    \<and> o_flags L' = o_flags L \<and> o_rxmit L' = o_rxmit L \<and> t_state tp' = t_state tp \<and> (\<not> o_rescue L' \<longrightarrow> tp' = tp \<and> o_off L' = o_off L)"
proof (cases "o_rxmit L")
  case True
  then show ?thesis using assms(1) by (auto simp: out_new_data_def fits_def)
next
  case new: False
  show ?thesis
  proof (cases "o_sack_bytes L = 0 \<and> \<not> (TCP_RACK_ENABLED tp \<and> IN_FASTRECOVERY tp)")
    case True
    then show ?thesis using assms(1) new new_data_plain [OF assms(2) new] by (auto simp: out_new_data_def Let_def)
  next
    case False
    then have rec: "IN_FASTRECOVERY tp" using assms(2) by (auto simp: amount_ready_def)
    define len where "len = sint (min (sb_cc (so_snd (out_so tp))) (snd_wnd tp) - u32_of (o_off L))"
    obtain flight where f: "tcp_flight_size E tp = Some flight"
      using assms(1) new False by (auto simp: out_new_data_def Let_def bind_eq_Some_conv)
    define cwin where "cwin = (if sint (snd_cwnd tp - flight) < 0 then 0 else sint (snd_cwnd tp - flight))"
    have eq: "(tp', L') = (if rescue_allowed (if len > 0 then min len cwin else 0) cwin tp then out_rescue cwin (tp, L)
                          else (tp, L\<lparr>o_len := (if len > 0 then min len cwin else 0)\<rparr>))"
      using assms(1) unfolding len_def cwin_def
      by (simp only: out_new_data_def Let_def prod.case new False if_False f bind.bind_lunit option.inject)
    show ?thesis
    proof (cases "rescue_allowed (if len > 0 then min len cwin else 0) cwin tp")
      case True
      then have r: "out_rescue cwin (tp, L) = (tp', L')" using eq by simp
      show ?thesis using rescue_keeps [where cwin = cwin and tp = tp and L = L] by (simp add: r fits_def)
    next
      case False
      then show ?thesis using eq new_data_recovery [OF assms(2) new rec len_def, of cwin] by simp
    qed
  qed
qed

text \<open>The steps before the amount is known.\<close>

lemma adjust_keeps:
  assumes "out_adjust E (tp, L) = Some (tp', L')" "out_lawful E" "seq_geq (snd_nxt tp) (snd_una tp)"
  shows "same_bounds tp tp' \<and> TFO_ENABLED tp' = TFO_ENABLED tp \<and> so_flags (out_so tp') = so_flags (out_so tp)
    \<and> seq_geq (snd_nxt tp') (snd_una tp')"
proof -
  have *: "adjust_law f \<Longrightarrow> tp' = snd (f tp) \<Longrightarrow> ?thesis" for f
    using assms(3) by (simp add: adjust_law_def)
  have l: "adjust_law (tcp_sack_adjust E)" "\<And>w. adjust_law (\<lambda>tp. tcp_rack_adjust E tp w)"
    using assms(2) by (simp_all add: out_lawful_def)
  have "tp' = tp \<or> tp' = snd (tcp_sack_adjust E tp) \<or> (\<exists>w. tp' = snd (tcp_rack_adjust E tp w))"
    using assms(1) by (auto simp: out_adjust_def Let_def bind_eq_Some_conv split: if_splits prod.splits) (metis snd_conv)
  then show ?thesis using assms(3) * [OF l(1)] * [OF l(2)] by auto
qed

lemma begin_amount_ready:
  assumes "seq_geq (snd_nxt tp) (snd_una tp)" "uint (snd_wnd tp) < 2 ^ 31" "uint (sb_cc (so_snd (out_so tp))) < 2 ^ 31"
  shows "amount_ready (out_begin E (tp, L))" "fst (out_begin E (tp, L)) = tp"
    "o_flags (snd (out_begin E (tp, L))) = tcp_outflags E (t_state tp)"
proof -
  define win where "win = umin (snd_wnd tp) (snd_cwnd tp)"
  have w: "win = uint (min (snd_wnd tp) (snd_cwnd tp))" "0 \<le> win" "win < 2 ^ 31"
    using umin_small [OF assms(2), of "snd_cwnd tp"] assms(2) by (simp_all add: win_def uint_min)
  have u: "0 \<le> umin (u32_of win) x \<and> umin (u32_of win) x \<le> win" for x
    using umin_small [of "u32_of win" x] w(2,3) by (simp add: uint_u32_of)
  have off: "0 \<le> sint (snd_nxt tp - snd_una tp)" "sint (snd_nxt tp - snd_una tp) < 2 ^ 31"
    using assms(1) sint_u32_pos [of "snd_nxt tp - snd_una tp"] by (simp_all add: seq_geq_def)
  define sw where "sw = (if has_flag (t_flags tp) TF_SLOWLINK \<and> slowlink_wsize E > 0
     then umin (u32_of win) (u32_of (slowlink_wsize E)) else win)"
  have "0 \<le> sw" "sw \<le> uint (min (snd_wnd tp) (snd_cwnd tp))"
    using w(2) u [of "u32_of (slowlink_wsize E)"] unfolding sw_def w(1) [symmetric] by simp_all
  moreover have "out_begin E (tp, L) = (tp, L\<lparr>o_sendalot := False, o_off := sint (snd_nxt tp - snd_una tp), o_sendwin := sw,
      o_flags := tcp_outflags E (t_state tp), o_rxmit := False, o_sack_bytes := 0, o_len := 0,
      o_hole := None, o_seg := None, o_mp_acknow := False\<rparr>)"
    by (simp add: out_begin_def Let_def sw_def win_def)
  ultimately show "amount_ready (out_begin E (tp, L))" using off assms(2,3) by (simp add: amount_ready_def max.coboundedI2)
qed (simp_all add: out_begin_def Let_def)

text \<open>A retransmission changes the amount and its place, and nothing else unless it happens.\<close>

definition rexmit_frame :: "out_loc \<Rightarrow> out_loc \<Rightarrow> bool" where
  "rexmit_frame L L' \<longleftrightarrow> o_sendwin L' = o_sendwin L \<and> o_flags L' = o_flags L \<and> (o_rxmit L \<longrightarrow> o_rxmit L')
     \<and> (o_rxmit L' \<or> o_off L' = o_off L)"

lemma rack_rexmit_frame:
  "fst (out_rack_rexmit E cwin (tp, L)) = tp" "rexmit_frame L (snd (out_rack_rexmit E cwin (tp, L)))"
  by (simp_all add: out_rack_rexmit_def rexmit_frame_def Let_def split: option.split prod.split)

lemma sack_rexmit_frame:
  "fst (out_sack_rexmit E cwin (tp, L)) = tp" "rexmit_frame L (snd (out_sack_rexmit E cwin (tp, L)))"
  by (cases "tcp_sack_output E tp", simp add: out_sack_rexmit_def rexmit_frame_def Let_def split: option.split)+

lemma scoreboard_keeps:
  assumes "out_scoreboard E (tp, L) = Some (tp', L')"
  shows "tp' = tp" "rexmit_frame L L'" "\<not> IN_FASTRECOVERY tp \<Longrightarrow> L' = L"
proof -
  have "tp' = tp \<and> rexmit_frame L L' \<and> (IN_FASTRECOVERY tp \<or> L' = L)"
  proof (cases "SACK_ENABLED tp \<and> IN_FASTRECOVERY tp")
    case True
    then obtain cwin where "(tp', L') = (if TCP_RACK_ENABLED tp then out_rack_rexmit E cwin (tp, L\<lparr>o_sack_rxmted := True\<rparr>)
        else out_sack_rexmit E cwin (tp, L\<lparr>o_sack_rxmted := True\<rparr>))"
      using assms by (auto simp: out_scoreboard_def Let_def bind_eq_Some_conv split del: if_split) (metis (no_types))
    moreover have "rexmit_frame (L\<lparr>o_sack_rxmted := True\<rparr>) L' \<Longrightarrow> rexmit_frame L L'" by (simp add: rexmit_frame_def)
    ultimately show ?thesis using True rack_rexmit_frame sack_rexmit_frame by (metis fst_conv snd_conv)
  next
    case False
    then show ?thesis using assms by (auto simp: out_scoreboard_def rexmit_frame_def)
  qed
  then show "tp' = tp" "rexmit_frame L L'" "\<not> IN_FASTRECOVERY tp \<Longrightarrow> L' = L" by simp_all
qed

lemma clear_persist_keeps:
  assumes "out_lawful E"
  shows "same_bounds tp (out_clear_persist E tp)" "TFO_ENABLED (out_clear_persist E tp) = TFO_ENABLED tp"
    "so_flags (out_so (out_clear_persist E tp)) = so_flags (out_so tp)" "snd_nxt (out_clear_persist E tp) = snd_nxt tp"
    "t_state (out_clear_persist E tp) = t_state tp"
proof -
  let ?t = "(set_timer TCPT_PERSIST 0 tp)\<lparr>t_persist_stop := 0, t_rxtshift := 0, t_rxtstart := 0\<rparr>"
  have e: "out_clear_persist E tp = mptcp_reset_rexmit_state E ?t"
    by (simp add: out_clear_persist_def TCP_RESET_REXMT_STATE_def)
  have "same_bounds tp ?t" by (simp add: same_bounds_def IN_FASTRECOVERY_def set_timer_def)
  then show "same_bounds tp (out_clear_persist E tp)"
    using assms unfolding e by (blast intro: same_bounds_trans dest: iffD1 [OF out_lawful_def])
  show "TFO_ENABLED (out_clear_persist E tp) = TFO_ENABLED tp" "t_state (out_clear_persist E tp) = t_state tp"
    "so_flags (out_so (out_clear_persist E tp)) = so_flags (out_so tp)" "snd_nxt (out_clear_persist E tp) = snd_nxt tp"
    using assms unfolding e by (simp_all add: out_lawful_def TFO_ENABLED_def set_timer_def)
qed

lemma amount_ready_cong:
  assumes "amount_ready (tp, L)" "same_bounds tp tp'" "snd_nxt tp' = snd_nxt tp" "o_rxmit L' \<or> \<not> o_rxmit L \<and> o_off L' = o_off L"
    "o_sendwin L' = o_sendwin L \<or> has_flag (t_flagsext tp) TF_FORCE \<and> o_sendwin L' = 1"
    "IN_FASTRECOVERY tp \<or> o_sack_bytes L' = o_sack_bytes L"
  shows "amount_ready (tp', L')"
proof -
  have b: "snd_wnd tp' = snd_wnd tp" "snd_cwnd tp' = snd_cwnd tp" "snd_una tp' = snd_una tp"
      "sb_cc (so_snd (out_so tp')) = sb_cc (so_snd (out_so tp))" "IN_FASTRECOVERY tp' = IN_FASTRECOVERY tp"
      "has_flag (t_flagsext tp') TF_FORCE = has_flag (t_flagsext tp) TF_FORCE"
    using assms(2) by (simp_all add: same_bounds_def)
  show ?thesis
    using assms(1,3-6) unfolding amount_ready_def prod.case Let_def b by (elim disjE conjE) simp_all
qed

text \<open>What the first steps keep of a plain connection.\<close>

definition ord_frame :: "tcpcb \<Rightarrow> tcpcb \<Rightarrow> bool" where
  "ord_frame tp tp' \<longleftrightarrow> same_bounds tp tp' \<and> TFO_ENABLED tp' = TFO_ENABLED tp \<and> so_flags (out_so tp') = so_flags (out_so tp)"

lemma ord_frame_refl [simp]: "ord_frame tp tp" by (simp add: ord_frame_def)

lemma ord_frame_trans [trans]: "ord_frame tp tp' \<Longrightarrow> ord_frame tp' tp'' \<Longrightarrow> ord_frame tp tp''"
  using same_bounds_trans by (fastforce simp: ord_frame_def)

lemma fin_not_syn: "(f OR TH_FIN) AND TH_SYN = f AND TH_SYN" "(f AND NOT TH_FIN) AND TH_SYN = f AND TH_SYN"
  by (rule flag_set_other flag_cleared_other, simp add: TH_FIN_def TH_SYN_def)+

lemma force_amount_ready:
  assumes "out_force E (tp, L) = (tp', L')" "out_lawful E" "amount_ready (tp, L)"
  shows "amount_ready (tp', L') \<and> ord_frame tp tp' \<and> t_state tp' = t_state tp
    \<and> (has_flag (o_flags L') TH_SYN \<longrightarrow> has_flag (o_flags L) TH_SYN)"
proof -
  note k = clear_persist_keeps [OF assms(2), of tp]
  have "(tp' = tp \<or> tp' = out_clear_persist E tp) \<and> o_rxmit L' = o_rxmit L \<and> o_off L' = o_off L
      \<and> o_sack_bytes L' = o_sack_bytes L \<and> (o_sendwin L' = o_sendwin L \<or> has_flag (t_flagsext tp) TF_FORCE \<and> o_sendwin L' = 1)
      \<and> (o_flags L' = o_flags L \<or> o_flags L' = o_flags L OR TH_FIN \<or> o_flags L' = o_flags L AND NOT TH_FIN
         \<or> o_flags L' = (o_flags L OR TH_FIN) AND NOT TH_FIN)"
    using assms(1) by (auto simp: out_force_def Let_def split: if_splits)
  then have 1: "tp' = tp \<or> tp' = out_clear_persist E tp" and 2: "o_rxmit L' = o_rxmit L" "o_off L' = o_off L"
      "o_sack_bytes L' = o_sack_bytes L" and 3: "o_sendwin L' = o_sendwin L \<or> has_flag (t_flagsext tp) TF_FORCE \<and> o_sendwin L' = 1"
    and 4: "o_flags L' = o_flags L \<or> o_flags L' = o_flags L OR TH_FIN \<or> o_flags L' = o_flags L AND NOT TH_FIN
         \<or> o_flags L' = (o_flags L OR TH_FIN) AND NOT TH_FIN"
    by blast+
  have f: "ord_frame tp tp'" "snd_nxt tp' = snd_nxt tp" "t_state tp' = t_state tp"
    using 1 k by (auto simp: ord_frame_def)
  moreover have "amount_ready (tp', L')"
    by (rule amount_ready_cong [OF assms(3) _ f(2)]) (use f(1) 2 3 in \<open>auto simp: ord_frame_def\<close>)
  moreover have "has_flag (o_flags L') TH_SYN \<longrightarrow> has_flag (o_flags L) TH_SYN"
    using 4 by (elim disjE) (simp_all add: fin_not_syn)
  ultimately show ?thesis by blast
qed

lemma cap_fits: "fits st \<Longrightarrow> fits (out_cap st)"
proof (cases st)
  case (Pair tp L)
  assume f: "fits st"
  show ?thesis
  proof (cases "o_max_len L \<noteq> 0 \<and> o_len L > 0")
    case True
    have "fits (tp, L\<lparr>o_len := umin (u32_of (o_len L)) (o_max_len L)\<rparr>)" (is "fits (tp, ?L)")
    proof (cases "o_rxmit L \<or> o_rescue L")
      case False
      then have "o_len L < 2 ^ 31" using f True by (simp add: Pair fits_def)
      then have "umin (u32_of (o_len L)) (o_max_len L) \<le> o_len L" using True by (simp add: umin_le)
      then show ?thesis using True by (intro fitsI [OF f [unfolded Pair]]) simp_all
    qed (auto simp: fits_def)
    then show ?thesis using True by (simp add: Pair out_cap_def)
  next
    case False
    then show ?thesis using f by (auto simp: Pair out_cap_def)
  qed
qed

text \<open>The state after the amount is known: what is left of an opening connection is its SYN.\<close>

definition opens :: "out_st \<Rightarrow> bool" where
  "opens st \<longleftrightarrow> (let (tp, L) = st in
     (has_flag (o_flags L) TH_SYN \<longrightarrow> t_state tp = TCPS_SYN_SENT \<or> t_state tp = TCPS_SYN_RECEIVED)
     \<and> (\<not> o_rxmit L \<and> \<not> o_rescue L \<longrightarrow> o_off L = sint (snd_nxt tp - snd_una tp)))"

lemma opens_cap: "opens st \<Longrightarrow> opens (out_cap st)"
  by (cases st) (simp add: opens_def out_cap_def)

lemma amount_fits:
  assumes "out_amount E (tp, L) = Some (quit, tp', L')" "out_lawful E" "seq_geq (snd_nxt tp) (snd_una tp)"
    "uint (snd_wnd tp) < 2 ^ 31" "uint (sb_cc (so_snd (out_so tp))) < 2 ^ 31"
  obtains st where "fits st" "opens st" "ord_frame tp (fst st)" "out_syn st = (quit, tp', L')"
proof -
  obtain tp1 L1 tp2 L2 tp3 L3 tp4 L4 where
    s: "out_adjust E (tp, L) = Some (tp1, L1)" "out_scoreboard E (out_begin E (tp1, L1)) = Some (tp2, L2)"
       "out_force E (tp2, L2) = (tp3, L3)" "out_new_data E (tp3, L3) = Some (tp4, L4)" "out_syn (out_cap (tp4, L4)) = (quit, tp', L')"
  proof -
    obtain st1 st2 st4 where "out_adjust E (tp, L) = Some st1" "out_scoreboard E (out_begin E st1) = Some st2"
       "out_new_data E (out_force E st2) = Some st4" "out_syn (out_cap st4) = (quit, tp', L')"
      using assms(1) by (auto simp: out_amount_def bind_eq_Some_conv)
    then show ?thesis using that by (cases st1, cases st2, cases st4, cases "out_force E st2") simp
  qed
  note a = adjust_keeps [OF s(1) assms(2,3)]
  have pf1: "ord_frame tp tp1" using a by (simp add: ord_frame_def)
  have "uint (snd_wnd tp1) < 2 ^ 31" "uint (sb_cc (so_snd (out_so tp1))) < 2 ^ 31" "seq_geq (snd_nxt tp1) (snd_una tp1)"
    using a assms(4,5) by (auto simp: same_bounds_def)
  note b = begin_amount_ready [OF this(3,1,2), of E L1]
  define LB where "LB = snd (out_begin E (tp1, L1))"
  have ob: "out_begin E (tp1, L1) = (tp1, LB)" using b(2) by (simp add: LB_def prod_eq_iff)
  have rx: "\<not> o_rxmit LB" by (simp add: LB_def out_begin_def Let_def)
  note sc = scoreboard_keeps [OF s(2) [unfolded ob]]
  have r2: "amount_ready (tp2, L2)"
    by (rule amount_ready_cong [OF b(1) [unfolded ob]]) (use sc rx in \<open>auto simp: rexmit_frame_def\<close>)
  note f = force_amount_ready [OF s(3) assms(2) r2]
  note n = new_data_fits [OF s(4) conjunct1 [OF f]]
  have "ord_frame tp1 tp3" using f sc(1) by simp
  moreover have "ord_frame tp3 tp4" using n by (simp add: ord_frame_def)
  ultimately have pf: "ord_frame tp tp4" using pf1 ord_frame_trans by blast
  have "has_flag (o_flags L4) TH_SYN \<longrightarrow> t_state tp4 = TCPS_SYN_SENT \<or> t_state tp4 = TCPS_SYN_RECEIVED"
  proof
    assume "has_flag (o_flags L4) TH_SYN"
    then have "has_flag (o_flags LB) TH_SYN" using n f sc(2) by (simp add: rexmit_frame_def)
    then have "has_flag (tcp_outflags E (t_state tp1)) TH_SYN" using b(3) by (simp add: LB_def)
    moreover have "t_state tp4 = t_state tp1" using n f sc(1) by simp
    ultimately show "t_state tp4 = TCPS_SYN_SENT \<or> t_state tp4 = TCPS_SYN_RECEIVED" using assms(2) by (simp add: out_lawful_def)
  qed
  moreover have "\<not> o_rxmit L4 \<and> \<not> o_rescue L4 \<longrightarrow> o_off L4 = sint (snd_nxt tp4 - snd_una tp4)"
    using n f by (simp add: amount_ready_def)
  ultimately have "opens (out_cap (tp4, L4))" by (intro opens_cap) (simp add: opens_def)
  moreover have "fst (out_cap (tp4, L4)) = tp4" by (simp add: out_cap_def)
  ultimately show thesis using that [of "out_cap (tp4, L4)"] cap_fits n pf s(5) by simp
qed

text \<open>The steps after the amount is known.\<close>

lemma sint_below:
  assumes "0 < n" "n < 2 ^ 31" "b < u32_of n"
  shows "sint b \<le> n" "0 \<le> sint b"
proof -
  have "uint b < n" using assms uint_u32_of [of n] by (simp add: word_less_def)
  then have "sint b = uint b" using assms(2) by (simp add: sint_small)
  then show "sint b \<le> n" "0 \<le> sint b" using \<open>uint b < n\<close> by simp_all
qed

lemma no_data_plain:
  assumes "\<not> TFO_ENABLED tp" "out_no_data E (tp, L) = (tp', L')"
  shows "tp' = tp" "o_off L' = o_off L" "o_rxmit L' = o_rxmit L" "o_rescue L' = o_rescue L" "o_sendwin L' = o_sendwin L"
    "has_flag (o_flags L') TH_SYN = has_flag (o_flags L) TH_SYN" "has_flag (o_flags L) TH_SYN \<Longrightarrow> o_len L' = 0"
    "o_len L' = 0 \<or> o_len L' = o_len L \<or> (\<exists>b. 0 < o_len L \<and> b < u32_of (o_len L) \<and> o_len L' = sint b)"
proof -
  define L1 where "L1 = (if has_flag (o_flags L) TH_SYN then L\<lparr>o_len := 0, o_flags := o_flags L AND NOT TH_FIN\<rparr> else L)"
  define L2 where "L2 = (if has_flag (o_flags L1) TH_RST then L1\<lparr>o_len := 0\<rparr> else L1)"
  have e: "(tp', L') = (let b = pc_tso_burst_size (t_pacer tp) in
      if tcp_cc_index tp = TCP_CC_ALGO_PRAGUE_INDEX E \<and> b \<noteq> 0 \<and> o_len L2 > 0 \<and> u32_of (o_len L2) > b
      then (tp, L2\<lparr>o_len := sint b, o_sendalot := True\<rparr>) else (tp, L2))"
    using assms(2) unfolding out_no_data_def L2_def L1_def by (simp add: assms(1) Let_def split del: if_split cong del: if_weak_cong)
  have 2: "o_off L2 = o_off L" "o_rxmit L2 = o_rxmit L" "o_rescue L2 = o_rescue L" "o_sendwin L2 = o_sendwin L"
      "has_flag (o_flags L2) TH_SYN = has_flag (o_flags L) TH_SYN" "has_flag (o_flags L) TH_SYN \<Longrightarrow> o_len L2 = 0"
      "o_len L2 = 0 \<or> o_len L2 = o_len L"
    by (auto simp: L2_def L1_def fin_not_syn)
  have 3: "L' = L2 \<and> tp' = tp \<or> tp' = tp \<and> (\<exists>b. 0 < o_len L2 \<and> b < u32_of (o_len L2) \<and> L' = L2\<lparr>o_len := sint b, o_sendalot := True\<rparr>)"
    using e by (auto simp: Let_def split: if_splits)
  show "tp' = tp" using 3 by blast
  show "o_off L' = o_off L" "o_rxmit L' = o_rxmit L" "o_rescue L' = o_rescue L" "o_sendwin L' = o_sendwin L"
    "has_flag (o_flags L') TH_SYN = has_flag (o_flags L) TH_SYN"
    using 3 2(1-5) by auto
  show "o_len L' = 0" if "has_flag (o_flags L) TH_SYN" using 3 2(6) [OF that] by auto
  show "o_len L' = 0 \<or> o_len L' = o_len L \<or> (\<exists>b. 0 < o_len L \<and> b < u32_of (o_len L) \<and> o_len L' = sint b)"
  proof (cases "L' = L2")
    case False
    then obtain b where "0 < o_len L2" "b < u32_of (o_len L2)" "o_len L' = sint b" using 3 by auto
    then show ?thesis using 2(7) by auto
  qed (use 2(7) in auto)
qed

lemma no_data_fits:
  assumes "\<not> TFO_ENABLED tp" "out_no_data E (tp, L) = (tp', L')" "has_flag (o_flags L) TH_SYN \<or> fits (tp, L)"
    "0 \<le> o_off L \<or> o_rxmit L \<or> o_rescue L"
  shows "fits (tp', L')"
proof -
  note n = no_data_plain [OF assms(1,2)]
  show ?thesis
  proof (cases "o_len L' = 0 \<or> o_rxmit L \<or> o_rescue L")
    case True
    then show ?thesis using assms(4) n(2-4) by (auto simp: fits_def)
  next
    case False
    then have f: "fits (tp, L)" using assms(3) n(7) by blast
    have "0 < o_len L' \<Longrightarrow> 0 < o_len L \<and> o_len L' \<le> o_len L \<and> o_off L' + o_len L' \<le> o_off L + o_len L"
      using n(2,8) False f sint_below [of "o_len L"] by (auto simp: fits_def)
    then show ?thesis using n by (intro fitsI [OF f]) auto
  qed
qed

lemma syn_fits:
  assumes "fits st" "opens st" "\<not> TFO_ENABLED (fst st)" "out_syn st = (False, tp', L')"
  shows "tp' = fst st" "has_flag (o_flags L') TH_SYN \<or> fits (tp', L')" "0 \<le> o_off L' \<or> o_rxmit L' \<or> o_rescue L'"
proof -
  obtain tp L where st: "st = (tp, L)" by (cases st)
  have "tp' = tp \<and> (has_flag (o_flags L') TH_SYN \<or> fits (tp', L')) \<and> (0 \<le> o_off L' \<or> o_rxmit L' \<or> o_rescue L')"
  proof (cases "has_flag (o_flags L) TH_SYN \<and> seq_gt (snd_nxt tp) (snd_una tp)")
    case False
    then have "tp' = tp" "L' = L" using assms(4) by (auto simp: out_syn_def st)
    then show ?thesis using assms(1) by (auto simp: st fits_def)
  next
    case True
    then have s: "t_state tp = TCPS_SYN_SENT \<or> t_state tp = TCPS_SYN_RECEIVED" and
      o: "\<not> o_rxmit L \<and> \<not> o_rescue L \<longrightarrow> 0 < o_off L"
      using assms(2) by (auto simp: opens_def st seq_gt_def)
    have e: "tp' = tp" "o_off L' = o_off L - 1" "o_rxmit L' = o_rxmit L" "o_rescue L' = o_rescue L" "o_len L' = o_len L + 1"
        "t_state tp = TCPS_SYN_RECEIVED \<longrightarrow> has_flag (o_flags L') TH_SYN" "t_state tp = TCPS_SYN_SENT \<longrightarrow> \<not> 0 < o_len L'"
      using assms(3,4) True s by (auto simp: out_syn_def st Let_def)
    then show ?thesis using o s by (auto simp: fits_def)
  qed
  then show "tp' = fst st" "has_flag (o_flags L') TH_SYN \<or> fits (tp', L')" "0 \<le> o_off L' \<or> o_rxmit L' \<or> o_rescue L'"
    unfolding st by auto
qed

lemma setpersist_keeps: "ord_frame tp (tcp_setpersist E now tp)"
  by (simp add: tcp_setpersist_def ord_frame_def same_bounds_def IN_FASTRECOVERY_def TFO_ENABLED_def set_timer_def Let_def)

lemma persist_reset_keeps:
  assumes "out_lawful E"
  shows "ord_frame tp (TCP_RESET_REXMT_STATE (mptcp_reset_rexmit_state E) (set_timer TCPT_PTO 0 (set_timer TCPT_REXMT 0 tp)))"
proof -
  let ?t = "(set_timer TCPT_PTO 0 (set_timer TCPT_REXMT 0 tp))\<lparr>t_rxtshift := 0, t_rxtstart := 0\<rparr>"
  have "ord_frame tp ?t"
    by (simp add: ord_frame_def same_bounds_def IN_FASTRECOVERY_def TFO_ENABLED_def set_timer_def)
  moreover have "ord_frame ?t (mptcp_reset_rexmit_state E ?t)"
    using assms unfolding out_lawful_def ord_frame_def by blast
  ultimately show ?thesis unfolding TCP_RESET_REXMT_STATE_def using ord_frame_trans by blast
qed

lemma nxt_keeps: "ord_frame tp (tp\<lparr>snd_nxt := x\<rparr>)"
  by (simp add: ord_frame_def same_bounds_def IN_FASTRECOVERY_def TFO_ENABLED_def)

lemma persist_keeps:
  assumes "out_lawful E" "out_persist E now (tp, L) = (tp', L')"
  shows "ord_frame tp tp'" "o_rxmit L' = o_rxmit L" "o_rescue L' = o_rescue L" "o_flags L' = o_flags L"
    "o_len L' = (if o_len L \<le> 0 \<and> \<not> has_flag (o_flags L) TH_SYN then 0 else o_len L)"
    "o_off L' = o_off L \<or> o_off L' = 0 \<and> o_len L' = 0"
proof -
  define tp1 where "tp1 = TCP_RESET_REXMT_STATE (mptcp_reset_rexmit_state E) (set_timer TCPT_PTO 0 (set_timer TCPT_REXMT 0 tp))"
  let ?t = "tp1\<lparr>snd_nxt := snd_una tp1\<rparr>"
  have f: "ord_frame tp ?t" using persist_reset_keeps [OF assms(1), of tp] nxt_keeps ord_frame_trans unfolding tp1_def by blast
  have "tp' = tp \<or> tp' = ?t \<or> tp' = tcp_setpersist E now ?t"
    using assms(2) by (auto simp: out_persist_def tp1_def [symmetric] Let_def split: if_splits)
  then show "ord_frame tp tp'" using f setpersist_keeps ord_frame_trans by (metis ord_frame_refl)
  show "o_rxmit L' = o_rxmit L" "o_rescue L' = o_rescue L" "o_flags L' = o_flags L"
    "o_len L' = (if o_len L \<le> 0 \<and> \<not> has_flag (o_flags L) TH_SYN then 0 else o_len L)"
    "o_off L' = o_off L \<or> o_off L' = 0 \<and> o_len L' = 0"
    using assms(2) by (auto simp: out_persist_def Let_def split: if_splits)
qed

lemma autosize_keeps:
  assumes "out_lawful E"
  shows "ord_frame tp (fst (out_autosize E (tp, L)))" "snd (out_autosize E (tp, L)) = L"
proof -
  have "ord_frame tp (upd_snd (\<lambda>_. sb) tp)" if "sb_cc sb = sb_cc (so_snd (out_so tp))" for sb
    using that by (simp add: ord_frame_def same_bounds_def IN_FASTRECOVERY_def TFO_ENABLED_def upd_snd_def Let_def)
  moreover have "sb_cc (snd (sbreserve E sb n)) = sb_cc sb" for sb n using assms by (simp add: out_lawful_def)
  moreover have "fst (out_autosize E (tp, L)) = tp \<or>
      (\<exists>n i. fst (out_autosize E (tp, L)) = upd_snd (\<lambda>_. snd (sbreserve E (so_snd (out_so tp)) n)) tp
         \<or> fst (out_autosize E (tp, L)) = upd_snd (\<lambda>_. (snd (sbreserve E (so_snd (out_so tp)) n))\<lparr>sb_idealsize := i\<rparr>) tp)"
    by (simp add: out_autosize_def Let_def case_prod_beta) blast
  ultimately show "ord_frame tp (fst (out_autosize E (tp, L)))" by fastforce
  show "snd (out_autosize E (tp, L)) = L" by (simp add: out_autosize_def Let_def split: prod.split)
qed

lemma segment_fits:
  assumes "fits (tp, L)" "0 \<le> o_len L" "out_segment E (tp, L) = (tp', L')"
  shows "fits (tp', L') \<and> tp' = tp \<and> (o_rxmit L' \<or> o_rescue L' \<or> 0 \<le> o_len L')"
proof -
  define L1 where "L1 = (if u32_of (o_len L) > t_maxseg tp then
       (if tso_possible E (tp, L) then L\<lparr>o_tso := True, o_sendalot := False\<rparr>
        else L\<lparr>o_len := sint (t_maxseg tp), o_sendalot := True, o_tso := False\<rparr>) else L\<lparr>o_tso := False\<rparr>)"
  have e: "tp' = tp" "L' = (if has_flag (t_flagsext tp) TF_SENT_TLPROBE
      then L1\<lparr>o_len := umin (u32_of (o_len L1)) (t_maxseg tp), o_sendalot := False, o_tso := False\<rparr> else L1)"
    using assms(3) [symmetric] unfolding out_segment_def Let_def prod.case L1_def [symmetric] by (simp_all only: prod.inject)
  have r1: "o_rxmit L1 = o_rxmit L" "o_rescue L1 = o_rescue L" "o_off L1 = o_off L" by (simp_all add: L1_def)
  have r: "o_rxmit L' = o_rxmit L" "o_rescue L' = o_rescue L" "o_off L' = o_off L" using r1 by (simp_all add: e)
  show ?thesis
  proof (cases "o_rxmit L \<or> o_rescue L \<or> o_len L = 0")
    case True
    have "o_len L = 0 \<Longrightarrow> o_len L1 = 0 \<and> o_len L' = 0"
      by (simp add: L1_def e umin_def)
    then show ?thesis using True r e(1) assms(1) by (auto simp: fits_def)
  next
    case False
    then have l: "0 < o_len L" "o_len L < 2 ^ 31" using assms(1,2) by (auto simp: fits_def)
    have 1: "0 \<le> o_len L1" "o_len L1 \<le> o_len L" using l sint_below [of "o_len L" "t_maxseg tp"] by (simp_all add: L1_def)
    have "o_len L' \<le> o_len L1 \<and> 0 \<le> o_len L'"
      using umin_le [of "o_len L1" "t_maxseg tp"] 1 l by (cases "o_len L1 = 0") (auto simp: e umin_def)
    then have "o_len L' \<le> o_len L" "0 \<le> o_len L'" using 1 l by auto
    then show ?thesis using l r e(1) by (auto intro!: fitsI [OF assms(1)])
  qed
qed

lemma upd_rcv_keeps: "ord_frame tp (upd_rcv f tp)"
  by (simp add: ord_frame_def same_bounds_def IN_FASTRECOVERY_def TFO_ENABLED_def upd_rcv_def Let_def)

lemma sbspace_keeps: "ord_frame tp (snd (tcp_sbspace E tp))"
proof -
  have "snd (tcp_sbspace E tp) = tcp_sbrcv_grow_rwin E tp" by (simp add: tcp_sbspace_def Let_def)
  also have "tcp_sbrcv_grow_rwin E tp = tp \<or> (\<exists>f. tcp_sbrcv_grow_rwin E tp = upd_rcv f tp)"
    by (simp add: tcp_sbrcv_grow_rwin_def Let_def) blast
  finally show ?thesis using upd_rcv_keeps by fastforce
qed

lemma throttle_keeps: "ord_frame tp (snd (tcp_recv_throttle E now tp))"
proof -
  define tp1 where "tp1 = tp\<lparr>t_flagsext := t_flagsext tp OR TF_RECV_THROTTLE\<rparr>"
  define tp2 where "tp2 = (if t_recv_throttle_ts tp1 = 0 then tp1\<lparr>t_recv_throttle_ts := now\<rparr> else tp1)"
  have b: "(t_flagsext tp OR TF_RECV_THROTTLE) AND TF_FORCE = t_flagsext tp AND TF_FORCE"
      "(t_flagsext tp OR TF_RECV_THROTTLE) AND TF_FASTOPEN = t_flagsext tp AND TF_FASTOPEN"
    by (rule flag_set_other, simp add: TFX_defs)+
  have "ord_frame tp tp2"
    by (simp add: tp2_def tp1_def ord_frame_def same_bounds_def IN_FASTRECOVERY_def TFO_ENABLED_def b)
  moreover have "snd (tcp_recv_throttle E now tp) = tp \<or> (\<exists>f. snd (tcp_recv_throttle E now tp) = upd_rcv f tp2)"
    by (simp add: tcp_recv_throttle_def Let_def tp1_def tp2_def) blast
  ultimately show ?thesis using upd_rcv_keeps ord_frame_trans by (metis ord_frame_refl)
qed

lemma background_keeps: "ord_frame tp (snd (recwin_background E now win tp))"
  using throttle_keeps [of tp E now]
  by (auto simp: recwin_background_def Let_def split: option.split prod.split)

lemma recwin_keeps:
  assumes "out_recwin E now (tp, L) = Some (tp', L')"
  shows "ord_frame tp tp'" "\<exists>w. L' = L\<lparr>o_recwin := w\<rparr>"
proof -
  obtain w0 tp0 where s: "tcp_sbspace E tp = (w0, tp0)" by (cases "tcp_sbspace E tp")
  obtain w1 where b: "recwin_background E now (recwin_silly E tp0 w0) tp0 = (w1, tp')" and "\<exists>w. L' = L\<lparr>o_recwin := w\<rparr>"
    using assms by (auto simp: out_recwin_def s Let_def bind_eq_Some_conv split: prod.splits)
  then show "ord_frame tp tp'" "\<exists>w. L' = L\<lparr>o_recwin := w\<rparr>"
    using sbspace_keeps [of tp E] background_keeps [of tp0 E now "recwin_silly E tp0 w0"] ord_frame_trans
    by (auto simp: s)
qed

lemma fin_frame:
  "fst (out_fin (tp, L)) = tp" "\<exists>f. snd (out_fin (tp, L)) = L\<lparr>o_flags := f\<rparr>"
proof -
  have "L\<lparr>o_flags := o_flags L\<rparr> = L" by simp
  then show "fst (out_fin (tp, L)) = tp" "\<exists>f. snd (out_fin (tp, L)) = L\<lparr>o_flags := f\<rparr>"
    by (auto simp: out_fin_def Let_def intro: exI [of _ "o_flags L"])
qed

lemma fits_flags: "fits (tp, L\<lparr>o_flags := f\<rparr>) = fits (tp, L)" "fits (tp, L\<lparr>o_recwin := w\<rparr>) = fits (tp, L)"
  by (simp_all add: fits_def)

lemma fits_frame: "fits (tp, L) \<Longrightarrow> ord_frame tp tp' \<Longrightarrow> fits (tp', L)"
  using send_edge_same [of tp tp'] by (simp add: fits_def ord_frame_def)

lemma shape_fits:
  assumes "out_shape E now (tp, L) = Some (tp', L')" "out_lawful E" "ordinary E tp"
    "has_flag (o_flags L) TH_SYN \<or> fits (tp, L)" "0 \<le> o_off L \<or> o_rxmit L \<or> o_rescue L"
  shows "fits (tp', L')" "ord_frame tp tp'" "o_rxmit L' \<or> o_rescue L' \<or> 0 \<le> o_len L'"
proof -
  obtain tp1 L1 where 1: "out_no_data E (tp, L) = (tp1, L1)" by (cases "out_no_data E (tp, L)")
  have tfo: "\<not> TFO_ENABLED tp" using assms(3) by (simp add: ordinary_def)
  note n = no_data_plain [OF tfo 1] and f1 = no_data_fits [OF tfo 1 assms(4,5)]
  obtain tp2 L2 where 2: "out_persist E now (tp, L1) = (tp2, L2)" by (cases "out_persist E now (tp, L1)")
  note p = persist_keeps [OF assms(2) 2]
  have f2: "fits (tp2, L2)"
  proof (rule fitsI)
    show "fits (tp, L1)" using f1 n(1) by simp
    show "same_bounds tp tp2" using p(1) by (simp add: ord_frame_def)
  qed (use p(2,3,5,6) in \<open>auto split: if_splits\<close>)
  have l2: "0 \<le> o_len L2" using p(5) n(6,7) by (auto split: if_splits)
  define tp3 where "tp3 = fst (out_autosize E (tp2, L2))"
  have a: "out_autosize E (tp2, L2) = (tp3, L2)" "ord_frame tp2 tp3"
    using autosize_keeps [OF assms(2), of tp2 L2] by (simp_all add: tp3_def prod_eq_iff)
  obtain tp4 L4 where 4: "out_segment E (tp3, L2) = (tp4, L4)" by (cases "out_segment E (tp3, L2)")
  note sg = segment_fits [OF fits_frame [OF f2 a(2)] l2 4]
  have pf: "ord_frame tp tp4" using p(1) a(2) sg ord_frame_trans by blast
  then have m: "out_mptcp E (tp4, L4) = (tp4, L4)" using assms(3) by (simp add: out_mptcp_def ordinary_def ord_frame_def)
  obtain g where fn: "out_fin (tp4, L4) = (tp4, L4\<lparr>o_flags := g\<rparr>)" using fin_frame [of tp4 L4] by (metis prod.collapse)
  have "out_recwin E now (tp4, L4\<lparr>o_flags := g\<rparr>) = Some (tp', L')"
    using assms(1) by (simp add: out_shape_def 1 n(1) 2 a(1) 4 m fn)
  note r = recwin_keeps [OF this]
  show "ord_frame tp tp'" using pf r(1) ord_frame_trans by blast
  obtain w where "L' = L4\<lparr>o_flags := g, o_recwin := w\<rparr>" using r(2) by auto
  then show "fits (tp', L')" "o_rxmit L' \<or> o_rescue L' \<or> 0 \<le> o_len L'"
    using fits_frame [OF conjunct1 [OF sg] r(1)] sg by (simp_all add: fits_flags)
qed

lemma rcvwnd_keeps: "ord_frame tp (note_rcvwnd_limit us (tp, L))"
  by (simp add: note_rcvwnd_limit_def ord_frame_def same_bounds_def IN_FASTRECOVERY_def TFO_ENABLED_def Let_def)

text \<open>The length after the reasons to send were looked at.\<close>

definition rack_cap :: "out_st \<Rightarrow> out_loc" where
  "rack_cap st = (let (tp, L) = st in
     if \<not> has_flag (t_flagsext tp) TF_FORCE \<and> o_len L \<noteq> 0 \<and> seq_lt (snd_nxt tp) (snd_max tp) \<and> TCP_RACK_ENABLED tp \<and> \<not> o_rxmit L
     then L\<lparr>o_len := umin (u32_of (o_len L)) (snd_max tp - snd_nxt tp)\<rparr> else L)"

lemma data_send_frame:
  assumes "out_data_send E us (tp, L) = (go, tp', L')"
  shows "ord_frame tp tp'" "snd_nxt tp' = snd_nxt tp" "L' = rack_cap (tp, L)"
proof -
  have r: "snd_nxt (note_rcvwnd_limit us (tp, L)) = snd_nxt tp" by (simp add: note_rcvwnd_limit_def Let_def)
  have "(tp' = tp \<or> tp' = note_rcvwnd_limit us (tp, L)) \<and> L' = rack_cap (tp, L)"
    using assms by (auto simp: out_data_send_def rack_cap_def split: if_splits)
  then show "ord_frame tp tp'" "snd_nxt tp' = snd_nxt tp" "L' = rack_cap (tp, L)" using rcvwnd_keeps r by auto
qed

lemma window_update_frame:
  assumes "out_window_update E (tp, L) = (go, tp', L')"
  shows "ord_frame tp tp'" "snd_nxt tp' = snd_nxt tp" "L' = L"
proof -
  have b: "(t_flags tp OR TF_DELACK) AND TF_FASTRECOVERY = t_flags tp AND TF_FASTRECOVERY"
    by (rule flag_set_other) (simp add: TF_defs)
  have k: "ord_frame tp (set_timer TCPT_DELACK x (tp\<lparr>t_flags := t_flags tp OR TF_DELACK\<rparr>))" for x
    by (simp add: ord_frame_def same_bounds_def IN_FASTRECOVERY_def TFO_ENABLED_def set_timer_def b)
  show "ord_frame tp tp'" "snd_nxt tp' = snd_nxt tp" "L' = L"
    using assms k by (auto simp: out_window_update_def set_timer_def split: if_splits)
qed

lemma owed_frame:
  assumes "out_owed (tp, L) = (go, tp', L')"
  shows "ord_frame tp tp'" "snd_nxt tp' = snd_nxt tp" "L' = L"
  using assms
  by (auto simp: out_owed_def ord_frame_def same_bounds_def IN_FASTRECOVERY_def TFO_ENABLED_def split: if_splits)

lemma decide_send:
  assumes "out_decide E now us (tp, L) = OSend tp' L'"
  shows "ord_frame tp tp'" "snd_nxt tp' = snd_nxt tp" "L' = rack_cap (tp, L)"
proof -
  obtain g1 tp1 L1 where 1: "out_data_send E us (tp, L) = (g1, tp1, L1)" by (cases "out_data_send E us (tp, L)") auto
  obtain g2 tp2 L2 where 2: "(if g1 then (True, tp1, L1) else out_window_update E (tp1, L1)) = (g2, tp2, L2)"
    by (cases "if g1 then (True, tp1, L1) else out_window_update E (tp1, L1)") auto
  obtain g3 tp3 L3 where 3: "(if g2 then (True, tp2, L2) else out_owed (tp2, L2)) = (g3, tp3, L3)"
    by (cases "if g2 then (True, tp2, L2) else out_owed (tp2, L2)") auto
  have e: "tp' = tp3" "L' = L3"
    using assms by (simp_all add: out_decide_def 1 2 3 split: if_splits)
  note d = data_send_frame [OF 1]
  have w: "ord_frame tp1 tp2 \<and> snd_nxt tp2 = snd_nxt tp1 \<and> L2 = L1"
    using 2 window_update_frame [of E tp1 L1] by (cases g1) auto
  have o: "ord_frame tp2 tp3 \<and> snd_nxt tp3 = snd_nxt tp2 \<and> L3 = L2"
    using 3 owed_frame [of tp2 L2] by (cases g2) auto
  show "ord_frame tp tp'" using d(1) w o ord_frame_trans unfolding e by blast
  show "snd_nxt tp' = snd_nxt tp" "L' = rack_cap (tp, L)" using d w o by (simp_all add: e)
qed

lemma rack_cap_fits:
  assumes f: "fits (tp, L)" and len: "o_rxmit L \<or> o_rescue L \<or> 0 \<le> o_len L"
  shows "fits (tp, rack_cap (tp, L))"
proof -
  show ?thesis
  proof (cases "rack_cap (tp, L) = L \<or> o_rxmit L \<or> o_rescue L")
    case True
    have "o_rxmit (rack_cap (tp, L)) = o_rxmit L" "o_rescue (rack_cap (tp, L)) = o_rescue L" by (simp_all add: rack_cap_def)
    then show ?thesis using True f by (auto simp: fits_def)
  next
    case False
    then have e: "rack_cap (tp, L) = L\<lparr>o_len := umin (u32_of (o_len L)) (snd_max tp - snd_nxt tp)\<rparr>"
      by (auto simp: rack_cap_def split: if_splits)
    have pos: "0 < o_len L" using len False by (auto simp: rack_cap_def split: if_splits)
    then have "umin (u32_of (o_len L)) (snd_max tp - snd_nxt tp) \<le> o_len L"
      using f False by (auto simp: fits_def intro!: umin_le(1))
    then show ?thesis unfolding e using pos by (intro fitsI [OF f]) simp_all
  qed
qed

lemma pass_fits:
  assumes "out_pass E now us (tp, L) = Some (OSend tp' L')" "out_lawful E" "ordinary E tp" "seq_geq (snd_nxt tp) (snd_una tp)"
    "uint (snd_wnd tp) < 2 ^ 31" "uint (sb_cc (so_snd (out_so tp))) < 2 ^ 31"
  shows "fits (tp', L')" "ord_frame tp tp'"
proof -
  obtain tp1 L1 tp2 L2 where 1: "out_amount E (tp, L) = Some (False, tp1, L1)" "out_shape E now (tp1, L1) = Some (tp2, L2)"
      "out_decide E now us (tp2, L2) = OSend tp' L'"
    using assms(1) by (auto simp: out_pass_def bind_eq_Some_conv split: if_splits)
  obtain st where st: "fits st" "opens st" "ord_frame tp (fst st)" "out_syn st = (False, tp1, L1)"
    using amount_fits [OF 1(1) assms(2,4-6)] by blast
  have tfo: "\<not> TFO_ENABLED (fst st)" using assms(3) st(3) by (simp add: ordinary_def ord_frame_def)
  note s = syn_fits [OF st(1,2) tfo st(4)]
  have "ordinary E tp1" using assms(3) st(3) s(1) by (simp add: ordinary_def ord_frame_def)
  note h = shape_fits [OF 1(2) assms(2) this s(2,3)]
  note d = decide_send [OF 1(3)]
  show "ord_frame tp tp'" using st(3) s(1) h(2) d(1) ord_frame_trans by metis
  show "fits (tp', L')" unfolding d(3) by (rule fits_frame [OF rack_cap_fits [OF h(1,3)] d(1)])
qed

subsection \<open>Waiting\<close>

text \<open>
  What the waiting side relies on: a timer set for a positive time is running, since it
  starts in the present, and the persist interval is clipped to its two positive bounds.
\<close>

definition timers_lawful :: "'e rtt_env_scheme \<Rightarrow> bool" where
  "timers_lawful E \<longleftrightarrow> (\<forall>tp v. v \<noteq> 0 \<longrightarrow> OFFSET_FROM_START E tp v \<noteq> 0)
     \<and> 0 < tcptv_persmin_val E \<and> TCPTV_PERSMAX E < 2 ^ 31
     \<and> (\<forall>v b. tcptv_persmin_val E \<le> TCPT_RANGESET E v (tcptv_persmin_val E) (TCPTV_PERSMAX E) b
            \<and> TCPT_RANGESET E v (tcptv_persmin_val E) (TCPTV_PERSMAX E) b \<le> TCPTV_PERSMAX E)"

lemma setpersist_runs:
  assumes "timers_lawful E"
  shows "t_timer (tcp_setpersist E now tp) TCPT_PERSIST \<noteq> 0"
proof -
  have "u32_of (TCPT_RANGESET E v (tcptv_persmin_val E) (TCPTV_PERSMAX E) b) \<noteq> 0" for v b
  proof
    let ?n = "TCPT_RANGESET E v (tcptv_persmin_val E) (TCPTV_PERSMAX E) b"
    have n: "0 < ?n" "?n < 2 ^ 31" using assms unfolding timers_lawful_def by (meson less_le_trans le_less_trans)+
    assume "u32_of ?n = 0"
    then show False using uint_u32_of [of ?n] n by simp
  qed
  then show ?thesis
    using assms by (simp add: tcp_setpersist_def set_timer_def timers_lawful_def Let_def)
qed

lemma arm_rexmt_runs:
  assumes "timers_lawful E" "u32_of (t_rxtcur (arm_rexmt E tp)) \<noteq> 0"
  shows "t_timer (arm_rexmt E tp) TCPT_REXMT \<noteq> 0"
  using assms by (simp add: arm_rexmt_def timers_lawful_def set_timer_def Let_def)

lemma wait_runs:
  assumes "timers_lawful E" "u32_of (t_rxtcur (out_wait E now tp)) \<noteq> 0" "sb_cc (so_snd (out_so (out_wait E now tp))) \<noteq> 0"
  shows "t_timer (out_wait E now tp) TCPT_REXMT \<noteq> 0 \<or> t_timer (out_wait E now tp) TCPT_PERSIST \<noteq> 0"
  using assms arm_rexmt_runs [OF assms(1), of tp] setpersist_runs [OF assms(1)]
  by (auto simp: out_wait_def split: if_splits)

lemma decide_shape:
  obtains tp' L' where "out_decide E now us st = OSend tp' L'"
  | tp' L' where "out_decide E now us st = OJustReturn (out_wait E now tp') L'"
proof -
  obtain g1 st1 where 1: "out_data_send E us st = (g1, st1)" by (cases "out_data_send E us st")
  obtain g2 st2 where 2: "(if g1 then (True, st1) else out_window_update E st1) = (g2, st2)"
    by (cases "if g1 then (True, st1) else out_window_update E st1")
  obtain g3 tp3 L3 where 3: "(if g2 then (True, st2) else out_owed st2) = (g3, tp3, L3)"
    by (cases "if g2 then (True, st2) else out_owed st2") auto
  have "out_decide E now us st = (if g3 then OSend tp3 L3 else OJustReturn (out_wait E now tp3) L3)"
    by (simp add: out_decide_def 1 2 3)
  then show thesis using that by (cases g3) simp_all
qed

lemma pass_waits:
  assumes "out_pass E now us st = Some (OJustReturn tp L)"
  obtains tp0 where "tp = out_wait E now tp0"
proof -
  obtain st' where "out_decide E now us st' = OJustReturn tp L"
    using assms by (auto simp: out_pass_def bind_eq_Some_conv split: if_splits)
  then show thesis using that by (cases E now us st' rule: decide_shape) auto
qed

subsection \<open>Properties\<close>

definition out_flags_table :: "tcp_state \<Rightarrow> u8" where
  "out_flags_table s = (case s of TCPS_CLOSED \<Rightarrow> TH_RST OR TH_ACK | TCPS_LISTEN \<Rightarrow> 0 | TCPS_SYN_SENT \<Rightarrow> TH_SYN
     | TCPS_SYN_RECEIVED \<Rightarrow> TH_SYN OR TH_ACK | TCPS_FIN_WAIT_1 \<Rightarrow> TH_FIN OR TH_ACK | TCPS_CLOSING \<Rightarrow> TH_FIN OR TH_ACK
     | TCPS_LAST_ACK \<Rightarrow> TH_FIN OR TH_ACK | _ \<Rightarrow> TH_ACK)"

definition out_env_zero :: out_env where
  "out_env_zero = timer_env.extend timer_env_zero
     (out_env.fields out_flags_table (\<lambda>_. 1000) 300000 (\<lambda>tp _. (0, tp)) (\<lambda>tp. (0, tp)) (\<lambda>_ _. None) (\<lambda>_. (None, 0)) (\<lambda>_. False) 1
       (\<lambda>_. 0) (\<lambda>_. 0) 8192 0 1 0 (\<lambda>_. False) 1 (\<lambda>_. 0) (\<lambda>_. False) (\<lambda>_ _. 0) (\<lambda>_. 0) (\<lambda>_. 0) (\<lambda>_. False) None 16)"

lemmas out_env_zero_simps = out_env_zero_def timer_env.defs out_env.defs timer_env_zero_simps

lemma out_env_zero_lawful: "out_lawful out_env_zero" "timers_lawful out_env_zero"
proof -
  have "has_flag (out_flags_table s) TH_SYN \<Longrightarrow> s = TCPS_SYN_SENT \<or> s = TCPS_SYN_RECEIVED" for s
    by (cases s) (simp_all add: out_flags_table_def TH_defs)
  then show "out_lawful out_env_zero"
    by (simp add: out_lawful_def adjust_law_def out_env_zero_simps)
  show "timers_lawful out_env_zero" by (simp add: timers_lawful_def out_env_zero_simps)
qed

text \<open>
  Property C15. What is sent stays inside the windows and the buffer. On an ordinary connection (no fast open, no
  subflow), when a pass of \<^verbatim>\<open>tcp_output\<close> decides to send data that is not a retransmission from the
  scoreboard, the bytes copied start at a non-negative offset of the send buffer and end inside
  it, and inside the receiver's window; outside recovery they end inside the congestion window
  too. The only exception is a forced probe of a closed window, which is one byte.
\<close>

theorem send_within_window:
  assumes "out_pass E now us (tp, L) = Some (OSend tp' L')" "out_lawful E" "ordinary E tp" "seq_geq (snd_nxt tp) (snd_una tp)"
    "uint (snd_wnd tp) < 2 ^ 31" "uint (sb_cc (so_snd (out_so tp))) < 2 ^ 31" "\<not> o_rxmit L'" "\<not> o_rescue L'" "0 < o_len L'"
  shows "0 \<le> o_off L' \<and> o_off L' + o_len L' \<le> uint (sb_cc (so_snd (out_so tp')))
    \<and> (o_off L' + o_len L' \<le> uint (snd_wnd tp') \<and> (IN_FASTRECOVERY tp' \<or> o_off L' + o_len L' \<le> uint (snd_cwnd tp'))
       \<or> has_flag (t_flagsext tp') TF_FORCE \<and> o_off L' = 0 \<and> o_len L' = 1)"
proof -
  have *: "0 \<le> o_off L'" "o_off L' + o_len L' \<le> send_edge tp'"
    using pass_fits(1) [OF assms(1-6)] assms(7-9) by (auto simp: fits_def)
  then have "o_off L' + o_len L' \<le> uint (if IN_FASTRECOVERY tp' then snd_wnd tp' else min (snd_wnd tp') (snd_cwnd tp'))
      \<or> has_flag (t_flagsext tp') TF_FORCE \<and> o_off L' + o_len L' \<le> 1"
    unfolding send_edge_def Let_def by (auto split: if_splits)
  then show ?thesis using * assms(9) by (auto simp: send_edge_def uint_min Let_def split: if_splits)
qed

definition demo_send :: tcpcb where
  "demo_send = tcpcb_zero\<lparr>t_state := TCPS_ESTABLISHED, snd_una := 900, snd_nxt := 1900, snd_max := 1900, snd_wnd := 8000, snd_cwnd := 4000,
     t_maxseg := 1448, rcv_nxt := 5000, rcv_adv := 5000, t_rxtcur := 300,
     t_inpcb := inpcb_zero\<lparr>inp_socket := socket_zero\<lparr>so_snd := sockbuf_zero\<lparr>sb_cc := 6000, sb_hiwat := 131072\<rparr>,
       so_rcv := sockbuf_zero\<lparr>sb_hiwat := 131072, sb_mbmax := 524288\<rparr>\<rparr>\<rparr>\<rparr>"

lemmas demo_send_simps = demo_send_def tcpcb_zero_def inpcb_zero_def socket_zero_def sockbuf_zero_def sackhint_t_zero_def pacer_zero_def

theorem send_within_window_witness:
  "\<exists>tp' L'. out_pass out_env_zero 7 0 (demo_send, out_loc_init) = Some (OSend tp' L') \<and> o_off L' = 1000 \<and> o_len L' = 1448
     \<and> o_off L' + o_len L' \<le> uint (sb_cc (so_snd (out_so tp')))"
proof -
  have "case out_pass out_env_zero 7 0 (demo_send, out_loc_init) of
      Some (OSend tp' L') \<Rightarrow> \<not> o_rxmit L' \<and> \<not> o_rescue L' \<and> o_off L' = 1000 \<and> o_len L' = 1448 | _ \<Rightarrow> False"
    by code_simp
  then obtain tp' L' where p: "out_pass out_env_zero 7 0 (demo_send, out_loc_init) = Some (OSend tp' L')"
      "\<not> o_rxmit L'" "\<not> o_rescue L'" "o_off L' = 1000" "o_len L' = 1448"
    by (auto split: option.splits out_dec.splits)
  moreover have "ordinary out_env_zero demo_send" "seq_geq (snd_nxt demo_send) (snd_una demo_send)"
      "uint (snd_wnd demo_send) < 2 ^ 31" "uint (sb_cc (so_snd (out_so demo_send))) < 2 ^ 31"
    by code_simp+
  ultimately show ?thesis
    using send_within_window [OF p(1) out_env_zero_lawful(1), OF _ _ _ _ p(2,3)] by auto
qed

text \<open>
  Property C16. The output side never waits for nothing: whenever a pass of \<^verbatim>\<open>tcp_output\<close> ends without a segment
  while data is in the send buffer, the retransmission timer or the persist timer is running, so that
  the data is tried again whatever the peer does.
\<close>

theorem output_never_stalls:
  assumes "out_pass E now us st = Some (OJustReturn tp L)" "timers_lawful E" "u32_of (t_rxtcur tp) \<noteq> 0"
    "sb_cc (so_snd (out_so tp)) \<noteq> 0"
  shows "t_timer tp TCPT_REXMT \<noteq> 0 \<or> t_timer tp TCPT_PERSIST \<noteq> 0"
  using assms(3,4) wait_runs [OF assms(2)] by (cases rule: pass_waits [OF assms(1)]) blast

text \<open>A connection whose peer has closed its window.\<close>

definition demo_closed :: tcpcb where
  "demo_closed = demo_send\<lparr>snd_nxt := 900, snd_max := 900, snd_wnd := 0, rcv_adv := 70535\<rparr>"

theorem output_never_stalls_witness:
  "\<exists>tp L. out_pass out_env_zero 7 0 (demo_closed, out_loc_init) = Some (OJustReturn tp L) \<and> t_timer tp TCPT_REXMT = 0
     \<and> t_timer tp TCPT_PERSIST \<noteq> 0"
proof -
  have "case out_pass out_env_zero 7 0 (demo_closed, out_loc_init) of
      Some (OJustReturn tp L) \<Rightarrow> u32_of (t_rxtcur tp) \<noteq> 0 \<and> sb_cc (so_snd (out_so tp)) \<noteq> 0 \<and> t_timer tp TCPT_REXMT = 0 | _ \<Rightarrow> False"
    by code_simp
  then obtain tp L where p: "out_pass out_env_zero 7 0 (demo_closed, out_loc_init) = Some (OJustReturn tp L)"
      "u32_of (t_rxtcur tp) \<noteq> 0" "sb_cc (so_snd (out_so tp)) \<noteq> 0" "t_timer tp TCPT_REXMT = 0"
    by (auto split: option.splits out_dec.splits)
  then show ?thesis using output_never_stalls [OF p(1) out_env_zero_lawful(2) p(2,3)] by auto
qed

end
