(* ===== verification/Transmit.thy ===== *)
theory Transmit
  imports Output Arrival
begin

text \<open>
  The second half of \<^verbatim>\<open>tcp_output\<close> (\<^verbatim>\<open>reference/xnu/tcp_output.c\<close>), from the label \<^verbatim>\<open>send\<close>: the length is
  fitted to the options, the header is filled in, the send and receive variables advance, the
  timers are set, and the advance is backed out when the network layer refuses the packet.
  \<open>optlen\<close>, \<open>ipoptlen\<close> and \<open>hdrlen\<close> are the lengths of the TCP options, of the IP options and of the
  headers together. The options themselves with the ECN and multipath flags that are set as they are
  written, the buffer chain, the marks on the packet, the link heuristics for
  acknowledgements and the list of sent segments that RACK keeps are not represented, nor is
  the receive window of the multipath connection a subflow belongs to.
\<close>

record trans_env = out_env +
  ENOBUFS :: int
  EMSGSIZE :: int
  EHOSTUNREACH :: int
  ENETDOWN :: int
  EADDRNOTAVAIL :: int
  TCPS_HAVERCVDSYN :: "tcp_state \<Rightarrow> bool"
  inp_restricted_send :: "inpcb \<Rightarrow> bool"
  tcp_mtudisc :: "tcpcb \<Rightarrow> tcpcb"

subsection \<open>Before the options\<close>

definition out_send_mark :: "'e out_env_scheme \<Rightarrow> out_st \<Rightarrow> tcpcb" where
  "out_send_mark E st =
     (let (tp, L) = st;
          tp = (if o_len L > 0 then
                  (if u32_of (o_len L) \<ge> t_maxseg tp then tp\<lparr>t_flags := t_flags tp OR TF_MAXSEGSNT\<rparr>
                   else tp\<lparr>t_flags := t_flags tp AND NOT TF_MAXSEGSNT\<rparr>)
                else tp)
      in if TCP_ACC_ECN_ON (tcp_l4s_developer E) (tcp_l4s E) tp \<and> t_state tp = TCPS_ESTABLISHED \<and> snd_una tp = iss tp + 1
            \<and> snd_fack tp = iss tp \<and> t_rxtshift tp > 0
         then tp\<lparr>ecn_flags := ecn_flags tp OR TE_RETRY_WITHOUT_ACO\<rparr> else tp)"

definition out_syn_start :: "out_st \<Rightarrow> tcpcb" where
  "out_syn_start st =
     (let (tp, L) = st in if has_flag (o_flags L) TH_SYN then tp\<lparr>snd_nxt := iss tp, snd_fack := iss tp\<rparr> else tp)"

subsection \<open>Fitting the length\<close>

text \<open>The arithmetic on lengths is unsigned, since \<^verbatim>\<open>optlen\<close> and \<^verbatim>\<open>hdrlen\<close> are.\<close>

definition out_fit_tso :: "'e out_env_scheme \<Rightarrow> u32 \<Rightarrow> u32 \<Rightarrow> out_st \<Rightarrow> out_loc" where
  "out_fit_tso E optlen hdrlen st =
     (let (tp, L) = st;
          limit = (if tso_max_segment_size tp \<noteq> 0 then tso_max_segment_size tp else TCP_MAXWIN E);
          L = (if u32_of (o_len L) > limit - hdrlen then L\<lparr>o_len := sint (limit - hdrlen), o_sendalot := True\<rparr>
               else if has_flag (t_flags tp) TF_NEEDFIN then L\<lparr>o_sendalot := True\<rparr> else L);
          part = u32_of (o_len L) mod (t_maxopd tp - optlen)
      in if part \<noteq> 0 then L\<lparr>o_len := sint (u32_of (o_len L) - part), o_sendalot := True\<rparr> else L)"

definition out_fit :: "'e out_env_scheme \<Rightarrow> u32 \<Rightarrow> u32 \<Rightarrow> u32 \<Rightarrow> out_st \<Rightarrow> out_loc" where
  "out_fit E optlen ipoptlen hdrlen st =
     (let (tp, L) = st in
      if u32_of (o_len L) + optlen + ipoptlen > t_maxopd tp then
        (let L = L\<lparr>o_flags := o_flags L AND NOT TH_FIN\<rparr> in
         if o_tso L then out_fit_tso E optlen hdrlen (tp, L)
         else L\<lparr>o_len := sint (t_maxopd tp - optlen - ipoptlen), o_sendalot := True\<rparr>)
      else L)"

definition out_bwmeas :: "u32 \<Rightarrow> tcpcb \<Rightarrow> tcpcb" where
  "out_bwmeas now tp =
     (case t_bwmeas tp of
        None \<Rightarrow> tp
      | Some b \<Rightarrow>
          if has_flag (t_flagsext tp) TF_MEASURESNDBW \<and> \<not> has_flag (t_flagsext tp) TF_BWMEAS_INPROGRESS then
            (let size = min (min (sb_cc (so_snd (out_so tp)) - (snd_max tp - snd_una tp)) (snd_cwnd tp)) (snd_wnd tp);
                 size = (if bw_minsize b > 0 \<and> size < bw_minsize b then 0 else size);
                 size = (if bw_maxsize b > 0 then min size (bw_maxsize b) else size);
                 b = b\<lparr>bw_size := size\<rparr>
             in if size > 0
                then tp\<lparr>t_bwmeas := Some (b\<lparr>bw_start := snd_max tp, bw_ts := now\<rparr>),
                        t_flagsext := t_flagsext tp OR TF_BWMEAS_INPROGRESS\<rparr>
                else tp\<lparr>t_bwmeas := Some b\<rparr>)
          else tp)"

text \<open>What is remembered of a segment with data: the size of the one at the head of the line, and the counters of ECN.\<close>

definition out_note_data :: "u32 \<Rightarrow> u32 \<Rightarrow> out_st \<Rightarrow> tcpcb" where
  "out_note_data optlen ipoptlen st =
     (let (tp, L) = st in
      if o_len L = 0 then tp
      else
        (let tp = (if t_pmtud_lastseg_size tp = 0 \<and> snd_nxt tp = snd_una tp
                   then tp\<lparr>t_pmtud_lastseg_size := ucast (u32_of (o_len L) + optlen + ipoptlen)\<rparr> else tp)
         in if has_flag (t_flagsext tp) TF_FORCE \<and> o_len L = 1 \<or> \<not> has_flag (ecn_flags tp) TE_SENDIPECT then tp
            else if seq_lt (snd_nxt tp) (snd_max tp) \<or> o_rxmit L
            then tp\<lparr>t_ecn_capable_packets_lost := t_ecn_capable_packets_lost tp + 1\<rparr>
            else tp\<lparr>t_ecn_capable_packets_sent := t_ecn_capable_packets_sent tp + 1\<rparr>))"

definition out_push :: "out_st \<Rightarrow> out_loc" where
  "out_push st =
     (let (tp, L) = st in
      if o_len L \<noteq> 0 \<and> u32_of (o_off L + o_len L) = sb_cc (so_snd (out_so tp)) \<and> \<not> has_flag (o_flags L) TH_SYN
      then L\<lparr>o_flags := o_flags L OR TH_PUSH\<rparr> else L)"

subsection \<open>The header\<close>

definition out_rxtseg :: "'e out_env_scheme \<Rightarrow> u32 \<Rightarrow> int \<Rightarrow> tcpcb \<Rightarrow> tcpcb" where
  "out_rxtseg E start len tp = tcp_rxtseg_insert E tp start (start + u32_of len - 1)"

text \<open>The sequence number of the segment.\<close>

definition out_seq :: "'e out_env_scheme \<Rightarrow> out_st \<Rightarrow> u32 \<times> tcpcb" where
  "out_seq E st =
     (let (tp, L) = st;
          tp = (if has_flag (o_flags L) TH_FIN \<and> has_flag (t_flags tp) TF_SENTFIN \<and> snd_nxt tp = snd_max tp
                then tp\<lparr>snd_nxt := snd_nxt tp - 1\<rparr> else tp)
      in if \<not> o_rxmit L then
           (if o_len L \<noteq> 0 \<or> has_flag (o_flags L) TH_SYN \<or> has_flag (o_flags L) TH_FIN \<or> t_timer tp TCPT_PERSIST \<noteq> 0 then
              (snd_nxt tp,
               if seq_lt (snd_nxt tp) (snd_max tp) \<and> SACK_ENABLED tp \<and> o_len L > 1 \<and> \<not> has_flag (t_flagsext tp) TF_SENT_TLPROBE
               then out_rxtseg E (snd_nxt tp) (o_len L) tp else tp)
            else (snd_max tp, tp))
         else if TCP_RACK_ENABLED tp then
           (let start = start_seq (the (o_seg L)) in (start, out_rxtseg E start (o_len L) tp))
         else
           (let i = the (o_hole L); start = sh_rxmit (snd_holes tp ! i); tp = out_rxtseg E start (o_len L) tp in
            (start, tp\<lparr>snd_holes := (snd_holes tp)[i := (snd_holes tp ! i)\<lparr>sh_rxmit := start + u32_of (o_len L)\<rparr>],
                       sackhint := (sackhint tp)\<lparr>sack_bytes_rexmit := sack_bytes_rexmit (sackhint tp) + o_len L\<rparr>\<rparr>)))"

definition out_window :: "'e out_env_scheme \<Rightarrow> out_st \<Rightarrow> u16 \<times> tcpcb" where
  "out_window E st =
     (let (tp, L) = st;
          win = (word_of_int (drop_bit (unat (rcv_scale tp)) (o_recwin L)) :: u16);
          right = rcv_nxt tp + u32_of (o_recwin L);
          tp = tp\<lparr>last_ack_sent := rcv_nxt tp, t_last_recwin := u32_of (o_recwin L)\<rparr>;
          tp = (if o_recwin L > 0 \<and> (is_subflow E tp \<or> seq_lt (rcv_adv tp) right) then tp\<lparr>rcv_adv := right\<rparr> else tp);
          tp = (if win = 0 then tp\<lparr>t_flags := t_flags tp OR TF_RXWIN0SENT\<rparr> else tp\<lparr>t_flags := t_flags tp AND NOT TF_RXWIN0SENT\<rparr>)
      in (win, tp))"

definition out_urgent :: "out_st \<Rightarrow> u8 \<times> u16 \<times> tcpcb" where
  "out_urgent st =
     (let (tp, L) = st in
      if seq_gt (snd_up tp) (snd_nxt tp) then (o_flags L OR TH_URG, ucast (snd_up tp - snd_nxt tp), tp)
      else (o_flags L, 0, tp\<lparr>snd_up := snd_una tp\<rparr>))"

definition out_header :: "'e out_env_scheme \<Rightarrow> out_st \<Rightarrow> tcphdr \<times> tcpcb" where
  "out_header E st =
     (let (tp, L) = st;
          (sq, tp) = out_seq E (tp, L);
          (win, tp) = out_window E (tp, L);
          (flags, urp, tp) = out_urgent (tp, L)
      in (\<lparr>th_seq = sq, th_ack = rcv_nxt tp, th_flags = flags, th_win = win, th_urp = urp\<rparr>, tp))"

subsection \<open>Advancing\<close>

definition out_count_fin :: "out_st \<Rightarrow> bool" where
  "out_count_fin st \<longleftrightarrow> (let (tp, L) = st in has_flag (o_flags L) TH_FIN \<and> \<not> has_flag (t_flags tp) TF_SENTFIN)"

definition advance_control :: "out_st \<Rightarrow> tcpcb" where
  "advance_control st =
     (let (tp, L) = st; fin = out_count_fin st;
          tp = (if has_flag (o_flags L) TH_SYN then tp\<lparr>snd_nxt := snd_nxt tp + 1\<rparr> else tp)
      in if fin then tp\<lparr>snd_nxt := snd_nxt tp + 1, t_flags := t_flags tp OR TF_SENTFIN\<rparr> else tp)"

definition advance_max :: "u32 \<Rightarrow> u32 \<Rightarrow> tcpcb \<Rightarrow> tcpcb" where
  "advance_max now start tp =
     (if seq_gt (snd_nxt tp) (snd_max tp) then
        (let tp = tp\<lparr>snd_max := snd_nxt tp, t_sndtime := now\<rparr> in
         if t_rtttime tp = 0 then tp\<lparr>t_rtttime := sint now, t_rtseq := start, t_pipeack_lastuna := snd_una tp\<rparr> else tp)
      else tp)"

definition advance_data :: "u32 \<Rightarrow> u32 \<Rightarrow> out_st \<Rightarrow> out_st" where
  "advance_data now start st =
     (let (tp, L) = st in
      if o_rescue L then (advance_max now start (tp\<lparr>snd_nxt := o_old_nxt L\<rparr>), L\<lparr>o_rescue := False\<rparr>)
      else (advance_max now start (tp\<lparr>snd_nxt := snd_nxt tp + u32_of (o_len L)\<rparr>), L))"

definition advance_timer :: "'e out_env_scheme \<Rightarrow> out_st \<Rightarrow> tcpcb" where
  "advance_timer E st =
     (let (tp, L) = st;
          tp = (if t_timer tp TCPT_REXMT = 0
                   \<and> (o_rxmit L \<and> snd_nxt tp \<noteq> snd_max tp \<or> snd_nxt tp \<noteq> snd_una tp \<or> has_flag (o_flags L) TH_FIN)
                then arm_rexmt E (if t_timer tp TCPT_PERSIST \<noteq> 0 then out_clear_persist E tp else tp) else tp)
      in arm_tlp E (u32_of (o_len L)) tp)"

text \<open>A probe of a closed window: \<^verbatim>\<open>snd_nxt\<close> stays, and \<^verbatim>\<open>xlen\<close> counts the SYN and the FIN.\<close>

definition advance_persist :: "u32 \<Rightarrow> out_st \<Rightarrow> tcpcb" where
  "advance_persist now st =
     (let (tp, L) = st;
          xlen = o_len L + (if has_flag (o_flags L) TH_SYN then 1 else 0) + (if out_count_fin st then 1 else 0);
          tp = (if out_count_fin st then tp\<lparr>t_flags := t_flags tp OR TF_SENTFIN\<rparr> else tp)
      in if seq_gt (snd_nxt tp + u32_of xlen) (snd_max tp)
         then tp\<lparr>snd_max := snd_nxt tp + u32_of (o_len L), t_sndtime := now\<rparr> else tp)"

definition out_advance :: "'e out_env_scheme \<Rightarrow> u32 \<Rightarrow> out_st \<Rightarrow> out_st" where
  "out_advance E now st =
     (let (tp, L) = st in
      if \<not> has_flag (t_flagsext tp) TF_FORCE \<or> t_timer tp TCPT_PERSIST = 0 then
        (let start = snd_nxt tp; tp = advance_control (tp, L);
             (tp, L) = (if o_rxmit L then (tp, L) else advance_data now start (tp, L))
         in (advance_timer E (tp, L), L))
      else (advance_persist now (tp, L), L))"

definition out_count :: "tcphdr \<Rightarrow> out_st \<Rightarrow> tcpcb" where
  "out_count th st =
     (let (tp, L) = st;
          tp = tp\<lparr>t_pktlist_sentlen := t_pktlist_sentlen tp + u32_of (o_len L), t_lastchain := t_lastchain tp + 1\<rparr>;
          tp = (if has_flag (th_flags th) TH_SYN then tp\<lparr>t_syn_sent := t_syn_sent tp + 1\<rparr> else tp);
          tp = (if has_flag (th_flags th) TH_FIN then tp\<lparr>t_fin_sent := t_fin_sent tp + 1\<rparr> else tp)
      in if has_flag (th_flags th) TH_RST then tp\<lparr>t_rst_sent := t_rst_sent tp + 1\<rparr> else tp)"

text \<open>The label \<^verbatim>\<open>send\<close> up to the packet chain: the header, the data \<open>o_off\<close> and \<open>o_len\<close>, and the state.\<close>

definition out_transmit :: "'e out_env_scheme \<Rightarrow> u32 \<Rightarrow> u32 \<Rightarrow> u32 \<Rightarrow> u32 \<Rightarrow> out_st \<Rightarrow> tcphdr \<times> out_st" where
  "out_transmit E now optlen ipoptlen hdrlen st =
     (let (tp, L) = st;
          tp = out_send_mark E (tp, L);
          tp = out_syn_start (tp, L);
          tp = tp\<lparr>t_dsack_lseq := 0, t_dsack_rseq := 0\<rparr>;
          L = out_fit E optlen ipoptlen hdrlen (tp, L);
          tp = out_bwmeas now tp;
          tp = out_note_data optlen ipoptlen (tp, L);
          L = out_push (tp, L);
          (th, tp) = out_header E (tp, L);
          (tp, L) = out_advance E now (tp, L)
      in (th, out_count th (tp, L), L))"

subsection \<open>When the network layer refuses\<close>

definition backout_hole :: "u32 \<Rightarrow> tcpcb \<Rightarrow> nat \<Rightarrow> tcpcb" where
  "backout_hole lost tp i =
     (let p = snd_holes tp ! i;
          (lost, rxmit) = (if seq_gt (sh_rxmit p - lost) (snd_una tp) then (lost, sh_rxmit p - lost)
                           else (sh_rxmit p - snd_una tp, snd_una tp));
          rxmit = (if seq_lt rxmit (sh_start p) then sh_start p else rxmit);
          left = sack_bytes_rexmit (sackhint tp) - sint lost
      in tp\<lparr>snd_holes := (snd_holes tp)[i := p\<lparr>sh_rxmit := rxmit\<rparr>],
            sackhint := (sackhint tp)\<lparr>sack_bytes_rexmit := (if left < 0 then 0 else left)\<rparr>\<rparr>)"

definition backout_nxt :: "u32 \<Rightarrow> tcpcb \<Rightarrow> tcpcb" where
  "backout_nxt lost tp =
     tp\<lparr>snd_nxt := (if seq_gt (snd_nxt tp - lost) (snd_una tp) then snd_nxt tp - lost else snd_una tp)\<rparr>"

definition out_backout :: "u32 \<Rightarrow> out_st \<Rightarrow> tcpcb" where
  "out_backout lost st =
     (let (tp, L) = st in
      if (\<not> has_flag (t_flagsext tp) TF_FORCE \<or> t_timer tp TCPT_PERSIST = 0) \<and> \<not> has_flag (o_flags L) TH_SYN then
        (if o_rxmit L \<and> \<not> TCP_RACK_ENABLED tp then backout_hole lost tp (the (o_hole L)) else backout_nxt lost tp)
      else tp)"

text \<open>The label \<^verbatim>\<open>out\<close>: the error that is returned, and the state.\<close>

definition out_failed :: "'e trans_env_scheme \<Rightarrow> int \<Rightarrow> out_st \<Rightarrow> int \<times> tcpcb" where
  "out_failed E error st =
     (let (tp, L) = st;
          tp = tp\<lparr>t_pktlist_head := None, t_pktlist_tail := None, t_lastchain := 0, t_pktlist_sentlen := 0\<rparr>
      in if error = ENOBUFS E then
           (let tp = (if t_timer tp TCPT_REXMT = 0 \<and> t_timer tp TCPT_PERSIST = 0
                         \<and> (o_len L \<noteq> 0 \<or> has_flag (o_flags L) TH_SYN \<or> has_flag (o_flags L) TH_FIN
                            \<or> sb_cc (so_snd (out_so tp)) > 0)
                      then arm_rexmt E tp else tp)
            in (0, tcp_check_timer_state E (tp\<lparr>snd_cwnd := t_maxseg tp, t_bytes_acked := 0\<rparr>)))
         else if error = EMSGSIZE E then
           (let tp = (if o_tso L then tp\<lparr>t_flags := t_flags tp AND NOT TF_TSO\<rparr> else tp)
            in (0, tcp_check_timer_state E (tcp_mtudisc E tp)))
         else if (error = EHOSTUNREACH E \<or> error = ENETDOWN E \<or> error = EADDRNOTAVAIL E) \<and> TCPS_HAVERCVDSYN E (t_state tp)
                 \<and> \<not> inp_restricted_send E (t_inpcb tp)
         then (0, tcp_check_timer_state E (tp\<lparr>t_softerror := error\<rparr>))
         else (error, tcp_check_timer_state E tp))"

subsection \<open>The window\<close>

lemma and_not_mask_int: "x AND NOT (2 ^ n - 1) = x div 2 ^ n * (2 ^ n :: int)"
proof -
  have "push_bit n (drop_bit n x) = x AND NOT (mask n)" by (rule bit_eqI) (auto simp: bit_simps)
  then show ?thesis by (simp add: push_bit_eq_mult drop_bit_eq_div mask_eq_exp_minus_1)
qed

text \<open>Rounding up to a multiple of the unit of the window field.\<close>

lemma roundup_unit:
  assumes "0 \<le> w" "w \<le> m * 2 ^ unat (rcv_scale tp)"
  obtains k where "recwin_roundup tp w = k * 2 ^ unat (rcv_scale tp)" "0 \<le> k" "k \<le> m" "w \<le> k * 2 ^ unat (rcv_scale tp)"
proof -
  let ?u = "2 ^ unat (rcv_scale tp) :: int"
  define k where "k = (w + (?u - 1)) div ?u"
  have u: "0 < ?u" by simp
  have "recwin_roundup tp w = k * ?u" by (simp add: recwin_roundup_def and_not_mask_int k_def)
  moreover have "0 \<le> k" unfolding k_def using assms(1) u by (intro div_int_pos_iff [THEN iffD2]) auto
  moreover have "k \<le> m"
  proof -
    have "w + (?u - 1) < (m + 1) * ?u" using assms(2) u by (simp add: algebra_simps)
    moreover have "k * ?u \<le> w + (?u - 1)" unfolding k_def using div_mult_mod_eq [of "w + (?u - 1)" ?u] pos_mod_sign [OF u, of "w + (?u - 1)"] by linarith
    ultimately have "k * ?u < (m + 1) * ?u" by linarith
    then show ?thesis using u by (simp only: mult_less_cancel_right_pos zless_add1_eq order_le_less)
  qed
  moreover have "w \<le> k * ?u"
  proof -
    have "w + (?u - 1) = k * ?u + (w + (?u - 1)) mod ?u" unfolding k_def by (rule div_mult_mod_eq [symmetric])
    moreover have "(w + (?u - 1)) mod ?u \<le> ?u - 1" using u pos_mod_bound [OF u] by (simp add: zle_diff1_eq)
    ultimately show ?thesis by linarith
  qed
  ultimately show thesis using that by blast
qed

definition rcv_frame :: "tcpcb \<Rightarrow> tcpcb \<Rightarrow> bool" where
  "rcv_frame tp tp' \<longleftrightarrow> rcv_nxt tp' = rcv_nxt tp \<and> rcv_adv tp' = rcv_adv tp \<and> rcv_scale tp' = rcv_scale tp
     \<and> so_flags (out_so tp') = so_flags (out_so tp)"

lemma upd_rcv_frame: "rcv_frame tp (upd_rcv f tp)" by (simp add: rcv_frame_def upd_rcv_def Let_def)

lemma sbspace_frame: "rcv_frame tp (snd (tcp_sbspace E tp))"
proof -
  have "snd (tcp_sbspace E tp) = tcp_sbrcv_grow_rwin E tp" by (simp add: tcp_sbspace_def Let_def)
  also have "tcp_sbrcv_grow_rwin E tp = tp \<or> (\<exists>f. tcp_sbrcv_grow_rwin E tp = upd_rcv f tp)"
    by (simp add: tcp_sbrcv_grow_rwin_def Let_def) blast
  finally show ?thesis using upd_rcv_frame [of tp] by (auto simp: rcv_frame_def)
qed

lemma throttle_frame: "rcv_frame tp (snd (tcp_recv_throttle E now tp))"
  by (simp add: tcp_recv_throttle_def upd_rcv_def rcv_frame_def Let_def)

lemma background_frame: "rcv_frame tp (snd (recwin_background E now win tp))"
  using throttle_frame [of tp E now]
  by (auto simp: recwin_background_def rcv_frame_def Let_def split: option.split prod.split)

lemma recwin_value:
  assumes "out_recwin E now (tp, L) = Some (tp', L')" "\<not> is_subflow E tp" "rcv_promised tp \<le> rcv_maxwin E tp"
  obtains w where "o_recwin L' = recwin_roundup tp w" "rcv_promised tp \<le> w" "w \<le> rcv_maxwin E tp" "rcv_frame tp tp'"
proof -
  obtain w0 tp0 where s: "tcp_sbspace E tp = (w0, tp0)" by (cases "tcp_sbspace E tp")
  obtain w1 tp1 where b: "recwin_background E now (recwin_silly E tp0 w0) tp0 = (w1, tp1)"
    by (cases "recwin_background E now (recwin_silly E tp0 w0) tp0")
  have f: "rcv_frame tp tp1"
    using sbspace_frame [of tp E] background_frame [of tp0 E now "recwin_silly E tp0 w0"] by (simp add: s b rcv_frame_def)
  have e: "rcv_maxwin E tp1 = rcv_maxwin E tp" "rcv_promised tp1 = rcv_promised tp" "recwin_roundup tp1 = recwin_roundup tp"
    using f by (simp_all add: rcv_frame_def rcv_maxwin_def rcv_promised_def recwin_roundup_def fun_eq_iff)
  have "tp' = tp1 \<and> o_recwin L' = recwin_roundup tp (max (min w1 (rcv_maxwin E tp)) (rcv_promised tp))"
    using assms(1,2) f by (auto simp: out_recwin_def s b recwin_promise_def e rcv_frame_def)
  then show thesis using that [of "max (min w1 (rcv_maxwin E tp)) (rcv_promised tp)"] assms(3) f by simp
qed

lemma maxwin_value:
  assumes "TCP_MAXWIN E = 65535" "rcv_scale tp \<le> 14"
  shows "rcv_maxwin E tp = 65535 * 2 ^ unat (rcv_scale tp)" "rcv_maxwin E tp < 2 ^ 31"
proof -
  define s where "s = unat (rcv_scale tp)"
  have "s \<le> 14" using assms(2) by (simp add: s_def word_le_nat_alt)
  then have le: "(2 :: int) ^ s \<le> 2 ^ 14" by (intro power_increasing) simp_all
  have "push_bit s (65535 :: u32) = u32_of (65535 * 2 ^ s)" by (simp add: push_bit_eq_mult)
  then have "uint (push_bit s (65535 :: u32)) = 65535 * 2 ^ s" using le uint_u32_of [of "65535 * 2 ^ s"] by simp
  then show "rcv_maxwin E tp = 65535 * 2 ^ unat (rcv_scale tp)" "rcv_maxwin E tp < 2 ^ 31"
    using le by (simp_all add: rcv_maxwin_def assms(1) s_def [symmetric] sint_small)
qed

lemma window_recorded:
  assumes w: "o_recwin L = k * 2 ^ unat (rcv_scale tp)" "0 \<le> k" "k \<le> 65535" and "o_recwin L < 2 ^ 31"
    and p: "0 \<le> rcv_promised tp" "rcv_promised tp \<le> o_recwin L" and s: "\<not> is_subflow E tp" and o: "out_window E (tp, L) = (win, tp')"
  shows "uint win = k" "rcv_adv tp' = rcv_nxt tp + u32_of (o_recwin L)" "rcv_frame (tp\<lparr>rcv_adv := rcv_adv tp'\<rparr>) tp'"
proof -
  have d: "drop_bit (unat (rcv_scale tp)) (o_recwin L) = k" by (simp add: w(1) drop_bit_eq_div)
  have "win = word_of_int k" using o by (auto simp: out_window_def d Let_def split: if_splits)
  then show "uint win = k" using w(2,3) by (simp add: uint_word_of_int_eq take_bit_int_eq_self)
  have p': "uint (rcv_adv tp - rcv_nxt tp) = rcv_promised tp" using p(1) sint_u32_pos unfolding rcv_promised_def by metis
  have u: "uint (u32_of (o_recwin L)) = o_recwin L" using p assms(4) by (intro uint_u32_of) auto
  have lt: "seq_lt (rcv_adv tp) (rcv_nxt tp + u32_of (o_recwin L)) \<or> rcv_adv tp = rcv_nxt tp + u32_of (o_recwin L)"
  proof (cases "rcv_promised tp = o_recwin L")
    case True
    then have "rcv_adv tp - rcv_nxt tp = u32_of (o_recwin L)" using p' u by (metis word_uint_eqI)
    then show ?thesis by (metis add_diff_cancel_left' diff_add_cancel add.commute)
  next
    case False
    let ?d = "rcv_promised tp - o_recwin L"
    have "rcv_adv tp - rcv_nxt tp = u32_of (rcv_promised tp)" using p' by (metis word_of_int_uint)
    then have "rcv_adv tp - (rcv_nxt tp + u32_of (o_recwin L)) = word_of_int ?d"
      by (simp add: diff_diff_eq [symmetric])
    moreover have "sint (word_of_int ?d :: u32) = ?d" by (rule sint_of_int_small) (use p assms(4) False in linarith)+
    ultimately have "sint (rcv_adv tp - (rcv_nxt tp + u32_of (o_recwin L))) = ?d" by (simp only:)
    then have "seq_lt (rcv_adv tp) (rcv_nxt tp + u32_of (o_recwin L))" using False p(2) unfolding seq_lt_def by linarith
    then show ?thesis by simp
  qed
  show "rcv_adv tp' = rcv_nxt tp + u32_of (o_recwin L)"
  proof (cases "o_recwin L = 0")
    case True
    then have "rcv_adv tp - rcv_nxt tp = 0" using p p' by (metis dual_order.antisym uint_0_iff)
    then show ?thesis using o True by (auto simp: out_window_def Let_def split: if_splits)
  next
    case False
    then show ?thesis using o lt s p by (auto simp: out_window_def Let_def split: if_splits)
  qed
  show "rcv_frame (tp\<lparr>rcv_adv := rcv_adv tp'\<rparr>) tp'" using o by (auto simp: out_window_def rcv_frame_def Let_def split: if_splits)
qed

subsection \<open>Advancing over a segment\<close>

text \<open>How much sequence space a segment takes that is not a probe of a closed window.\<close>

definition seg_span :: "out_st \<Rightarrow> nat" where
  "seg_span st = (let (tp, L) = st in nat (o_len L) + (if has_flag (o_flags L) TH_SYN then 1 else 0) + (if out_count_fin st then 1 else 0))"

lemma control_nxt:
  "snd_nxt (advance_control (tp, L)) = snd_nxt tp + (if has_flag (o_flags L) TH_SYN then 1 else 0) + (if out_count_fin (tp, L) then 1 else 0)"
  "snd_una (advance_control (tp, L)) = snd_una tp" "snd_max (advance_control (tp, L)) = snd_max tp"
  by (simp_all add: advance_control_def Let_def)

lemma advance_max_values:
  "snd_nxt (advance_max now start tp) = snd_nxt tp" "snd_una (advance_max now start tp) = snd_una tp"
  "snd_max (advance_max now start tp) = (if seq_gt (snd_nxt tp) (snd_max tp) then snd_nxt tp else snd_max tp)"
  by (simp_all add: advance_max_def Let_def)

lemma tlp_keeps:
  "snd_nxt (arm_tlp E n tp) = snd_nxt tp" "snd_una (arm_tlp E n tp) = snd_una tp" "snd_max (arm_tlp E n tp) = snd_max tp"
  "t_timer (arm_tlp E n tp) TCPT_REXMT = t_timer tp TCPT_REXMT" "t_rxtcur (arm_tlp E n tp) = t_rxtcur tp"
  by (simp_all add: arm_tlp_def set_timer_def)

lemma arm_rexmt_keeps:
  "snd_nxt (arm_rexmt E tp) = snd_nxt tp" "snd_una (arm_rexmt E tp) = snd_una tp" "snd_max (arm_rexmt E tp) = snd_max tp"
  by (simp_all add: arm_rexmt_def tcp_set_link_heur_rtomin_def set_timer_def Let_def)

lemma advance_timer_keeps:
  assumes "out_lawful E"
  shows "snd_nxt (advance_timer E (tp, L)) = snd_nxt tp" "snd_una (advance_timer E (tp, L)) = snd_una tp"
    "snd_max (advance_timer E (tp, L)) = snd_max tp"
  using clear_persist_keeps(1,4) [OF assms, of tp]
  by (simp_all add: advance_timer_def tlp_keeps arm_rexmt_keeps same_bounds_def Let_def)

lemma advance_timer_runs:
  assumes "timers_lawful E" "u32_of (t_rxtcur (advance_timer E (tp, L))) \<noteq> 0" "snd_nxt tp \<noteq> snd_una tp"
  shows "t_timer (advance_timer E (tp, L)) TCPT_REXMT \<noteq> 0"
proof (cases "t_timer tp TCPT_REXMT = 0")
  case True
  then show ?thesis
    using assms arm_rexmt_runs [OF assms(1)] by (auto simp: advance_timer_def tlp_keeps Let_def)
next
  case False
  then show ?thesis by (simp add: advance_timer_def tlp_keeps Let_def)
qed

lemma advance_values:
  assumes "out_lawful E" "\<not> has_flag (t_flagsext tp) TF_FORCE \<or> t_timer tp TCPT_PERSIST = 0" "\<not> o_rxmit L" "\<not> o_rescue L" "0 \<le> o_len L"
    and e: "out_advance E now (tp, L) = (tp', L')"
  shows "L' = L" "snd_nxt tp' = snd_nxt tp + of_nat (seg_span (tp, L))" "snd_una tp' = snd_una tp"
    "snd_max tp' = (if seq_gt (snd_nxt tp') (snd_max tp) then snd_nxt tp' else snd_max tp)"
    "\<lbrakk>timers_lawful E; u32_of (t_rxtcur tp') \<noteq> 0; snd_nxt tp' \<noteq> snd_una tp'\<rbrakk> \<Longrightarrow> t_timer tp' TCPT_REXMT \<noteq> 0"
proof -
  define tq where "tq = advance_max now (snd_nxt tp) ((advance_control (tp, L))\<lparr>snd_nxt := snd_nxt (advance_control (tp, L)) + u32_of (o_len L)\<rparr>)"
  have t: "tp' = advance_timer E (tq, L)" "L' = L"
    using e assms(2-4) by (auto simp: out_advance_def advance_data_def tq_def Let_def)
  note k = advance_timer_keeps [OF assms(1), of tq L]
  have len: "u32_of (o_len L) = of_nat (nat (o_len L))" using assms(5) by simp
  have n: "snd_nxt tq = snd_nxt tp + of_nat (seg_span (tp, L))"
    by (simp add: tq_def advance_max_values control_nxt seg_span_def len algebra_simps)
  have m: "snd_una tq = snd_una tp" "snd_max tq = (if seq_gt (snd_nxt tq) (snd_max tp) then snd_nxt tq else snd_max tp)"
    by (simp_all add: tq_def advance_max_values control_nxt)
  show "L' = L" by (rule t(2))
  show "snd_nxt tp' = snd_nxt tp + of_nat (seg_span (tp, L))" "snd_una tp' = snd_una tp"
    "snd_max tp' = (if seq_gt (snd_nxt tp') (snd_max tp) then snd_nxt tp' else snd_max tp)"
    using k n m by (simp_all add: t(1))
  show "t_timer tp' TCPT_REXMT \<noteq> 0" if "timers_lawful E" "u32_of (t_rxtcur tp') \<noteq> 0" "snd_nxt tp' \<noteq> snd_una tp'"
    using that advance_timer_runs [OF that(1), of tq L] k by (simp add: t(1))
qed

subsection \<open>Properties\<close>

text \<open>
  Property C17. A promised receive window is never taken back, and the peer is told exactly what is recorded.
  On a connection that is no subflow, with the scale of the window option at most 14 and a
  promise within the largest window, the window that \<^verbatim>\<open>tcp_output\<close> computes for a segment and puts
  into its header is, shifted by the scale, the distance of \<^verbatim>\<open>rcv_adv\<close> from \<^verbatim>\<open>rcv_nxt\<close> that it keeps for
  itself; it is at least the old promise, and again within the largest window.
\<close>

theorem window_never_shrinks:
  assumes "out_recwin E now (tp, L) = Some (tp1, L1)" "out_window E (tp1, L1) = (win, tp2)" "\<not> is_subflow E tp"
    "TCP_MAXWIN E = 65535" "rcv_scale tp \<le> 14" "0 \<le> rcv_promised tp" "rcv_promised tp \<le> rcv_maxwin E tp"
  shows "uint win * 2 ^ unat (rcv_scale tp) = rcv_promised tp2 \<and> rcv_promised tp \<le> rcv_promised tp2
    \<and> rcv_promised tp2 \<le> rcv_maxwin E tp2 \<and> rcv_nxt tp2 = rcv_nxt tp"
proof -
  obtain w where w: "o_recwin L1 = recwin_roundup tp w" "rcv_promised tp \<le> w" "w \<le> rcv_maxwin E tp" "rcv_frame tp tp1"
    using recwin_value [OF assms(1,3,7)] by blast
  note m = maxwin_value [OF assms(4,5)]
  obtain k where k: "o_recwin L1 = k * 2 ^ unat (rcv_scale tp)" "0 \<le> k" "k \<le> 65535" "w \<le> o_recwin L1"
    using roundup_unit [of w 65535 tp] w assms(6) m(1) by (metis order_trans)
  have le: "o_recwin L1 \<le> rcv_maxwin E tp" unfolding m(1) k(1) using k(3) by (intro mult_right_mono) auto
  have f: "rcv_scale tp1 = rcv_scale tp" "rcv_promised tp1 = rcv_promised tp" "rcv_nxt tp1 = rcv_nxt tp" "\<not> is_subflow E tp1"
    using w(4) assms(3) by (simp_all add: rcv_frame_def rcv_promised_def)
  have o: "0 \<le> rcv_promised tp1" "rcv_promised tp1 \<le> o_recwin L1" "o_recwin L1 < 2 ^ 31"
    using f(2) assms(6) w(2) k(4) le m(2) by simp_all
  note r = window_recorded [OF k(1) [folded f(1)] k(2,3) o(3,1,2) f(4) assms(2)]
  have n: "rcv_nxt tp2 = rcv_nxt tp" "rcv_scale tp2 = rcv_scale tp" using r(3) f by (simp_all add: rcv_frame_def)
  then have "rcv_promised tp2 = sint (u32_of (o_recwin L1))" using r(2) f(3) by (simp add: rcv_promised_def)
  also have "\<dots> = o_recwin L1" using o by (intro sint_u32_of) simp_all
  finally have p: "rcv_promised tp2 = o_recwin L1" .
  have "rcv_maxwin E tp2 = rcv_maxwin E tp" using n(2) by (simp add: rcv_maxwin_def)
  then show ?thesis using p k(1) r(1) o(2) f(2) le n(1) by simp
qed

theorem window_never_shrinks_witness:
  "\<exists>tp1 L1 win tp2. out_recwin out_env_zero 7 (demo_closed\<lparr>rcv_nxt := 60000\<rparr>, out_loc_init) = Some (tp1, L1)
     \<and> out_window out_env_zero (tp1, L1) = (win, tp2) \<and> uint win = rcv_promised tp2 \<and> 10535 \<le> rcv_promised tp2"
proof -
  let ?tp = "demo_closed\<lparr>rcv_nxt := 60000\<rparr>"
  have "out_recwin out_env_zero 7 (?tp, out_loc_init) \<noteq> None" by code_simp
  then obtain tp1 L1 where 1: "out_recwin out_env_zero 7 (?tp, out_loc_init) = Some (tp1, L1)" by auto
  obtain win tp2 where 2: "out_window out_env_zero (tp1, L1) = (win, tp2)" by (cases "out_window out_env_zero (tp1, L1)")
  have "\<not> is_subflow out_env_zero ?tp" "TCP_MAXWIN out_env_zero = 65535" "rcv_scale ?tp \<le> 14" "0 \<le> rcv_promised ?tp"
      "rcv_promised ?tp \<le> rcv_maxwin out_env_zero ?tp" "rcv_promised ?tp = 10535" "unat (rcv_scale ?tp) = 0"
    by code_simp+
  then show ?thesis using window_never_shrinks [OF 1 2] 1 2 by auto
qed

text \<open>
  Property C18. Everything sent is covered: a segment that is neither a probe of a closed window nor a
  retransmission from the scoreboard moves \<^verbatim>\<open>snd_nxt\<close> over its data, its SYN and the first sending of its
  FIN, and \<^verbatim>\<open>snd_max\<close> is then the greater of its old value and \<^verbatim>\<open>snd_nxt\<close>, as positions in the stream; if
  anything is unacknowledged then the retransmission timer runs.
\<close>

theorem advance_covers_sent:
  assumes "out_advance E now (tp, L) = (tp', L')" "out_lawful E" "timers_lawful E"
    "\<not> has_flag (t_flagsext tp) TF_FORCE \<or> t_timer tp TCPT_PERSIST = 0" "\<not> o_rxmit L" "\<not> o_rescue L" "0 \<le> o_len L"
    "snd_una tp = seqno isn a" "snd_nxt tp = seqno isn b" "snd_max tp = seqno isn c" "a \<le> b" "b \<le> c"
    "c + seg_span (tp, L) < a + 2 ^ 31" "u32_of (t_rxtcur tp') \<noteq> 0"
  shows "snd_una tp' = seqno isn a \<and> snd_nxt tp' = seqno isn (b + seg_span (tp, L))
    \<and> snd_max tp' = seqno isn (max c (b + seg_span (tp, L))) \<and> (b + seg_span (tp, L) \<noteq> a \<longrightarrow> t_timer tp' TCPT_REXMT \<noteq> 0)"
proof -
  note v = advance_values [OF assms(2,4-7,1)]
  let ?n = "b + seg_span (tp, L)"
  have n: "snd_nxt tp' = seqno isn ?n" using v(2) assms(9) by (simp add: algebra_simps)
  have "seq_gt (seqno isn ?n) (seqno isn c) \<longleftrightarrow> c < ?n"
    by (rule seq_gt_seqno, rule nearI [of a]) (use assms(11-13) in auto)
  moreover have "seqno isn ?n = seqno isn a \<longleftrightarrow> ?n = a"
    by (rule seqno_eq_iff, rule nearI [of a]) (use assms(11-13) in auto)
  ultimately show ?thesis using v(3,4) v(5) [OF assms(3,14)] n assms(8,10) by (auto simp: max_def)
qed

theorem advance_covers_sent_witness:
  "snd_nxt (fst (out_advance out_env_zero 7 (demo_send, out_loc_init\<lparr>o_len := 1448\<rparr>))) = seqno 0 3348
     \<and> t_timer (fst (out_advance out_env_zero 7 (demo_send, out_loc_init\<lparr>o_len := 1448\<rparr>))) TCPT_REXMT \<noteq> 0"
proof -
  let ?L = "out_loc_init\<lparr>o_len := 1448\<rparr>"
  obtain tp' L' where e: "out_advance out_env_zero 7 (demo_send, ?L) = (tp', L')" by (cases "out_advance out_env_zero 7 (demo_send, ?L)")
  have "u32_of (t_rxtcur (fst (out_advance out_env_zero 7 (demo_send, ?L)))) \<noteq> 0" by code_simp
  then have r: "u32_of (t_rxtcur tp') \<noteq> 0" by (simp add: e)
  have "\<not> has_flag (t_flagsext demo_send) TF_FORCE" "\<not> o_rxmit ?L" "\<not> o_rescue ?L" "0 \<le> o_len ?L" "snd_una demo_send = seqno 0 900"
      "snd_nxt demo_send = seqno 0 1900" "snd_max demo_send = seqno 0 1900" "seg_span (demo_send, ?L) = 1448"
    by code_simp+
  then show ?thesis using advance_covers_sent [OF e out_env_zero_lawful, of 0 900 1900 1900] r by (simp add: e)
qed




text \<open>
  Property C21. A FIN that is sent as the probe of a closed window is not counted. The probe marks the FIN as sent but
  leaves \<^verbatim>\<open>snd_max\<close> where it was, since the assignment uses the length without the FIN; so the
  acknowledgement of the FIN is taken for one of data never sent and answered by a challenge, and the FIN is
  sent the next time with the sequence number before its own.
\<close>

theorem persist_fin_refused:
  assumes "out_advance E now (tp, L) = (tp', L')" "has_flag (t_flagsext tp) TF_FORCE" "t_timer tp TCPT_PERSIST \<noteq> 0"
    "out_count_fin (tp, L)" "\<not> has_flag (o_flags L) TH_SYN" "o_len L = 0" "\<not> o_rxmit L" "snd_nxt tp = snd_max tp"
    "t_state tp \<noteq> TCPS_SYN_RECEIVED" "sg_ack s = snd_nxt tp + 1"
  shows "has_flag (t_flags tp') TF_SENTFIN \<and> snd_max tp' = snd_max tp
    \<and> ack_range A now s tp' = challenge A now s tp' \<and> fst (out_seq E (tp', L')) = snd_nxt tp - 1"
proof -
  have "(tp', L') = (advance_persist now (tp, L), L)" using assms(1-3) by (auto simp: out_advance_def)
  moreover have "advance_persist now (tp, L) = tp\<lparr>t_flags := t_flags tp OR TF_SENTFIN, snd_max := snd_nxt tp, t_sndtime := now\<rparr>"
    using assms(4-6,8) by (simp add: advance_persist_def seq_gt_def)
  ultimately have e: "L' = L" "snd_nxt tp' = snd_nxt tp" "snd_max tp' = snd_max tp" "t_state tp' = t_state tp"
      "has_flag (t_flags tp') TF_SENTFIN"
    using assms(8) by (simp_all add: flag_simps)
  have "has_flag (o_flags L) TH_FIN" using assms(4) by (simp add: out_count_fin_def)
  then have "fst (out_seq E (tp', L')) = snd_nxt tp - 1"
    using e assms(7,8) by (simp add: out_seq_def Let_def)
  moreover have "seq_gt (sg_ack s) (snd_max tp')" using e(3) assms(8,10) by (simp add: seq_gt_def)
  ultimately show ?thesis using e assms(9) by (simp add: ack_range_def)
qed

definition demo_probe :: tcpcb where
  "demo_probe = demo_closed\<lparr>t_state := TCPS_FIN_WAIT_1, t_flagsext := TF_FORCE, t_timer := (\<lambda>_. 0)(TCPT_PERSIST := 5000),
     t_inpcb := inpcb_zero\<rparr>"

theorem persist_fin_refused_witness:
  "snd_max (fst (out_advance out_env_zero 7 (demo_probe, out_loc_init\<lparr>o_flags := TH_FIN OR TH_ACK\<rparr>))) = 900
     \<and> has_flag (t_flags (fst (out_advance out_env_zero 7 (demo_probe, out_loc_init\<lparr>o_flags := TH_FIN OR TH_ACK\<rparr>)))) TF_SENTFIN"
proof -
  let ?L = "out_loc_init\<lparr>o_flags := TH_FIN OR TH_ACK\<rparr>"
  obtain tp' L' where e: "out_advance out_env_zero 7 (demo_probe, ?L) = (tp', L')" by (cases "out_advance out_env_zero 7 (demo_probe, ?L)")
  have "has_flag (t_flagsext demo_probe) TF_FORCE" "t_timer demo_probe TCPT_PERSIST \<noteq> 0" "out_count_fin (demo_probe, ?L)"
      "\<not> has_flag (o_flags ?L) TH_SYN" "o_len ?L = 0" "\<not> o_rxmit ?L" "snd_nxt demo_probe = snd_max demo_probe"
      "t_state demo_probe \<noteq> TCPS_SYN_RECEIVED" "sg_ack (arr_seg TH_ACK 5000 901 0) = snd_nxt demo_probe + 1" "snd_max demo_probe = 900"
    by code_simp+
  then show ?thesis using persist_fin_refused [OF e, of "arr_seg TH_ACK 5000 901 0" "arr_env_zero 2"] by (simp add: e)
qed

text \<open>
  Property C19. What happens to \<^verbatim>\<open>snd_nxt\<close> when the network layer refuses a segment of new data: the advance over the
  data is taken back, so that the same bytes are sent again; but when the segment carried the first FIN its
  place stays counted, and \<^verbatim>\<open>snd_nxt\<close> is left one byte past the start of the data that was not sent.
\<close>

theorem backout_exact:
  assumes "out_advance E now (tp, L) = (tp', L')" "out_lawful E" "\<not> has_flag (t_flagsext tp) TF_FORCE"
    "\<not> has_flag (t_flagsext tp') TF_FORCE" "\<not> o_rxmit L" "\<not> o_rescue L" "0 \<le> o_len L" "\<not> has_flag (o_flags L) TH_SYN"
    "snd_una tp = seqno isn a" "snd_nxt tp = seqno isn b" "a \<le> b" "b + seg_span (tp, L) < a + 2 ^ 31"
  shows "snd_nxt (out_backout (u32_of (o_len L)) (tp', L')) = snd_nxt tp + (if out_count_fin (tp, L) then 1 else 0)"
proof -
  have f: "\<not> has_flag (t_flagsext tp) TF_FORCE \<or> t_timer tp TCPT_PERSIST = 0" using assms(3) by blast
  note v = advance_values [OF assms(2) f assms(5-7,1)]
  let ?k = "b + (if out_count_fin (tp, L) then 1 else 0)"
  have span: "seg_span (tp, L) = nat (o_len L) + (if out_count_fin (tp, L) then 1 else 0)" using assms(8) by (simp add: seg_span_def)
  have "u32_of (o_len L) = of_nat (nat (o_len L))" using assms(7) by simp
  then have n: "snd_nxt tp' - u32_of (o_len L) = seqno isn ?k" using v(2) assms(10) by (simp add: span algebra_simps)
  have "seq_gt (seqno isn ?k) (seqno isn a) \<longleftrightarrow> a < ?k"
    by (rule seq_gt_seqno, rule nearI [of a]) (use assms(11,12) span in auto)
  then have "snd_nxt (backout_nxt (u32_of (o_len L)) tp') = seqno isn ?k"
    using n v(3) assms(9,11) by (cases "a < ?k") (auto simp: backout_nxt_def)
  then show ?thesis using assms(4,5,8,10) v(1) by (simp add: out_backout_def algebra_simps)
qed

theorem backout_exact_witness:
  "snd_nxt (out_backout 1448 (out_advance out_env_zero 7 (demo_send, out_loc_init\<lparr>o_len := 1448, o_flags := TH_FIN OR TH_ACK\<rparr>))) = 1901
     \<and> snd_nxt demo_send = 1900"
proof -
  let ?L = "out_loc_init\<lparr>o_len := 1448, o_flags := TH_FIN OR TH_ACK\<rparr>"
  obtain tp' L' where e: "out_advance out_env_zero 7 (demo_send, ?L) = (tp', L')" by (cases "out_advance out_env_zero 7 (demo_send, ?L)")
  have "\<not> has_flag (t_flagsext (fst (out_advance out_env_zero 7 (demo_send, ?L)))) TF_FORCE" by code_simp
  then have r: "\<not> has_flag (t_flagsext tp') TF_FORCE" by (simp add: e)
  have "\<not> has_flag (t_flagsext demo_send) TF_FORCE" "\<not> o_rxmit ?L" "\<not> o_rescue ?L" "0 \<le> o_len ?L" "\<not> has_flag (o_flags ?L) TH_SYN"
      "snd_una demo_send = seqno 0 900" "snd_nxt demo_send = seqno 0 1900" "seg_span (demo_send, ?L) = 1449" "out_count_fin (demo_send, ?L)"
    by code_simp+
  then show ?thesis using backout_exact [OF e out_env_zero_lawful(1), of 0 900 1900] r by (simp add: e)
qed
end
