(* ===== verification/Reply.thy ===== *)
theory Reply
  imports Transmit TimerList
begin

text \<open>
  A whole call of \<^verbatim>\<open>tcp_output\<close> (\<^verbatim>\<open>reference/xnu/tcp_output.c\<close>) that takes one pass, with the part of \<^verbatim>\<open>tcp_ip_output\<close>
  that settles the acknowledgement before the packet is handed down, and what it does on a connection
  with nothing to transmit: exactly one pure acknowledgement leaves, and neither the positions nor the limiter of challenge
  acknowledgements move. With that the bursts of \<^verbatim>\<open>exp_challenge_ack\<close> are answered as the contract of the limiter
  (locale \<open>fixed_window\<close> of \<open>Arrival\<close>) says. The packet is taken to be accepted by the
  network layer, with no other send in progress on the connection.
\<close>

subsection \<open>One call\<close>

definition out_cleared :: "tcpcb \<Rightarrow> tcpcb" where
  "out_cleared tp = (set_timer TCPT_DELACK 0 tp)\<lparr>last_ack_sent := rcv_nxt tp, t_flags := t_flags tp AND NOT (TF_ACKNOW OR TF_DELACK),
     t_unacksegs := 0, t_unacksegs_ce := 0\<rparr>"

definition out_sent :: "'e out_env_scheme \<Rightarrow> tcpcb \<Rightarrow> tcpcb" where
  "out_sent E tp =
     tcp_check_timer_state E
       (out_cleared (tp\<lparr>t_pktlist_head := None, t_pktlist_tail := None, t_lastchain := 0, t_pktlist_sentlen := 0\<rparr>))"

text \<open>
  The header and the number of data bytes of the one segment that the call sends, and the state. The value is \<open>None\<close> when the
  call sends nothing, goes on with another pass, or finds a reset already sent on a subflow or the close of the connection pending.
\<close>

definition out_once ::
  "'e out_env_scheme \<Rightarrow> cubic_params \<Rightarrow> u32 \<Rightarrow> u64 \<Rightarrow> u32 \<Rightarrow> u32 \<Rightarrow> u32 \<Rightarrow> tcpcb \<Rightarrow> (tcphdr \<times> int \<times> tcpcb) option" where
  "out_once E P now us optlen ipoptlen hdrlen tp =
     do {
       st \<leftarrow> out_idle E P now tp;
       d \<leftarrow> (if has_flag (t_mpflags (fst st)) TMPF_RESET then None else out_pass E now us st);
       (case d of
          OSend tp L \<Rightarrow>
            (let (th, tp, L) = out_transmit E now optlen ipoptlen hdrlen (tp, L)
             in if o_sendalot L \<or> has_flag (t_flags tp) TF_CLOSING then None else Some (th, o_len L, out_sent E tp))
        | OJustReturn tp L \<Rightarrow> None
        | OSynReturn tp L \<Rightarrow> None)
     }"

subsection \<open>Connections with nothing to transmit\<close>

definition quiet :: "'e subr_env_scheme \<Rightarrow> tcpcb \<Rightarrow> bool" where
  "quiet E tp \<longleftrightarrow> t_state tp = TCPS_ESTABLISHED \<and> snd_nxt tp = snd_una tp \<and> snd_max tp = snd_una tp
     \<and> sb_cc (so_snd (out_so tp)) = 0 \<and> last_ack_sent tp = rcv_nxt tp \<and> snd_wnd tp \<noteq> 0 \<and> snd_cwnd tp \<noteq> 0
     \<and> \<not> IN_FASTRECOVERY tp \<and> \<not> has_flag (t_flags tp) TF_NEEDFIN \<and> \<not> has_flag (t_flags tp) TF_SLOWLINK
     \<and> \<not> has_flag (t_flagsext tp) TF_FORCE \<and> \<not> has_flag (t_flags tp) TF_CLOSING
     \<and> \<not> has_flag (t_mpflags tp) TMPF_RESET \<and> \<not> is_subflow E tp"

definition same_position :: "tcpcb \<Rightarrow> tcpcb \<Rightarrow> bool" where
  "same_position tp tp' \<longleftrightarrow> t_state tp' = t_state tp \<and> last_ack_sent tp' = last_ack_sent tp \<and> rcv_nxt tp' = rcv_nxt tp
     \<and> rcv_wnd tp' = rcv_wnd tp \<and> snd_max tp' = snd_max tp \<and> t_challengeack_last tp' = t_challengeack_last tp
     \<and> t_challengeack_count tp' = t_challengeack_count tp"

text \<open>What no step of the call changes, and the acknowledgement number that one step sets.\<close>

definition idle_frame :: "tcpcb \<Rightarrow> tcpcb \<Rightarrow> bool" where
  "idle_frame tp tp' \<longleftrightarrow> t_state tp' = t_state tp \<and> snd_nxt tp' = snd_nxt tp \<and> snd_una tp' = snd_una tp \<and> snd_max tp' = snd_max tp
     \<and> rcv_nxt tp' = rcv_nxt tp \<and> rcv_wnd tp' = rcv_wnd tp \<and> snd_wnd tp' = snd_wnd tp \<and> snd_cwnd tp' = snd_cwnd tp
     \<and> sb_cc (so_snd (out_so tp')) = sb_cc (so_snd (out_so tp)) \<and> so_flags (out_so tp') = so_flags (out_so tp)
     \<and> t_challengeack_last tp' = t_challengeack_last tp \<and> t_challengeack_count tp' = t_challengeack_count tp
     \<and> (last_ack_sent tp' = last_ack_sent tp \<or> last_ack_sent tp' = rcv_nxt tp) \<and> t_maxopd tp' = t_maxopd tp
     \<and> IN_FASTRECOVERY tp' = IN_FASTRECOVERY tp \<and> has_flag (t_flags tp') TF_NEEDFIN = has_flag (t_flags tp) TF_NEEDFIN
     \<and> has_flag (t_flags tp') TF_SLOWLINK = has_flag (t_flags tp) TF_SLOWLINK
     \<and> has_flag (t_flagsext tp') TF_FORCE = has_flag (t_flagsext tp) TF_FORCE \<and> t_mpflags tp' = t_mpflags tp
     \<and> has_flag (t_flags tp') TF_CLOSING = has_flag (t_flags tp) TF_CLOSING"

definition keeps_acknow :: "tcpcb \<Rightarrow> tcpcb \<Rightarrow> bool" where
  "keeps_acknow tp tp' \<longleftrightarrow> idle_frame tp tp' \<and> has_flag (t_flags tp') TF_ACKNOW = has_flag (t_flags tp) TF_ACKNOW"

lemma idle_frame_refl [simp]: "idle_frame tp tp" "keeps_acknow tp tp"
  by (simp_all add: idle_frame_def keeps_acknow_def)

lemma idle_frame_trans: "idle_frame tp tp' \<Longrightarrow> idle_frame tp' tp'' \<Longrightarrow> idle_frame tp tp''"
  by (auto simp: idle_frame_def)

lemma keeps_acknow_trans: "keeps_acknow tp tp' \<Longrightarrow> keeps_acknow tp' tp'' \<Longrightarrow> keeps_acknow tp tp''"
  using idle_frame_trans by (auto simp: keeps_acknow_def)

lemma quiet_frame: "quiet E tp \<Longrightarrow> idle_frame tp tp' \<Longrightarrow> quiet E tp' \<and> same_position tp tp'"
  by (auto simp: quiet_def idle_frame_def same_position_def)

text \<open>
  What lies outside: the flags that \<^verbatim>\<open>tcp_fsm.h\<close> gives an established connection, reserving buffer space moves no
  data, and a connection is not idle before some time has passed. \<^verbatim>\<open>tcp_check_timer_state\<close> changes the mark of a
  connection on the timer list and nothing else of the control block; its model in \<open>TimerList\<close> does so (\<open>check_timers_mark\<close>).
\<close>

definition mark_only :: "tcpcb \<Rightarrow> tcpcb \<Rightarrow> bool" where
  "mark_only tp tp' \<longleftrightarrow> tp' = tp \<or> tp' = tp\<lparr>t_flags := t_flags tp OR TF_TIMER_ONLIST\<rparr>
     \<or> tp' = tp\<lparr>t_flags := t_flags tp AND NOT TF_TIMER_ONLIST\<rparr>"

definition reply_lawful :: "'e out_env_scheme \<Rightarrow> bool" where
  "reply_lawful E \<longleftrightarrow> tcp_outflags E TCPS_ESTABLISHED = TH_ACK \<and> (\<forall>sb n. sb_cc (snd (sbreserve E sb n)) = sb_cc sb)
     \<and> (\<forall>tp. mark_only tp (tcp_check_timer_state E tp)) \<and> (\<forall>tp. 0 < TCP_IDLETIMEOUT E tp)"

subsection \<open>The steps\<close>

lemma flags_apart:
  "(f OR TF_DELACK) AND TF_FASTRECOVERY = f AND TF_FASTRECOVERY" "(f OR TF_DELACK) AND TF_NEEDFIN = f AND TF_NEEDFIN"
  "(f OR TF_DELACK) AND TF_SLOWLINK = f AND TF_SLOWLINK" "(f OR TF_DELACK) AND TF_ACKNOW = f AND TF_ACKNOW" "(f OR TF_DELACK) AND TF_CLOSING = f AND TF_CLOSING"
  "(f OR TF_LASTIDLE) AND TF_FASTRECOVERY = f AND TF_FASTRECOVERY" "(f OR TF_LASTIDLE) AND TF_NEEDFIN = f AND TF_NEEDFIN"
  "(f OR TF_LASTIDLE) AND TF_SLOWLINK = f AND TF_SLOWLINK" "(f OR TF_LASTIDLE) AND TF_ACKNOW = f AND TF_ACKNOW" "(f OR TF_LASTIDLE) AND TF_CLOSING = f AND TF_CLOSING"
  "(f OR TF_RXWIN0SENT) AND TF_FASTRECOVERY = f AND TF_FASTRECOVERY" "(f OR TF_RXWIN0SENT) AND TF_NEEDFIN = f AND TF_NEEDFIN"
  "(f OR TF_RXWIN0SENT) AND TF_SLOWLINK = f AND TF_SLOWLINK" "(f OR TF_RXWIN0SENT) AND TF_ACKNOW = f AND TF_ACKNOW" "(f OR TF_RXWIN0SENT) AND TF_CLOSING = f AND TF_CLOSING"
  by (rule flag_set_other, simp add: TF_defs)+

lemma flags_apart_clear:
  "(f AND NOT TF_LASTIDLE) AND TF_FASTRECOVERY = f AND TF_FASTRECOVERY" "(f AND NOT TF_LASTIDLE) AND TF_NEEDFIN = f AND TF_NEEDFIN"
  "(f AND NOT TF_LASTIDLE) AND TF_SLOWLINK = f AND TF_SLOWLINK" "(f AND NOT TF_LASTIDLE) AND TF_ACKNOW = f AND TF_ACKNOW"
  "(f AND NOT TF_LASTIDLE) AND TF_CLOSING = f AND TF_CLOSING"
  "(f AND NOT TF_RXWIN0SENT) AND TF_FASTRECOVERY = f AND TF_FASTRECOVERY" "(f AND NOT TF_RXWIN0SENT) AND TF_NEEDFIN = f AND TF_NEEDFIN"
  "(f AND NOT TF_RXWIN0SENT) AND TF_SLOWLINK = f AND TF_SLOWLINK" "(f AND NOT TF_RXWIN0SENT) AND TF_ACKNOW = f AND TF_ACKNOW"
  "(f AND NOT TF_RXWIN0SENT) AND TF_CLOSING = f AND TF_CLOSING"
  by (rule flag_cleared_other, simp add: TF_defs)+

lemma flags_apart_mark:
  "(f OR TF_TIMER_ONLIST) AND TF_FASTRECOVERY = f AND TF_FASTRECOVERY" "(f OR TF_TIMER_ONLIST) AND TF_NEEDFIN = f AND TF_NEEDFIN"
  "(f OR TF_TIMER_ONLIST) AND TF_SLOWLINK = f AND TF_SLOWLINK" "(f OR TF_TIMER_ONLIST) AND TF_CLOSING = f AND TF_CLOSING"
  "(f OR TF_TIMER_ONLIST) AND TF_ACKNOW = f AND TF_ACKNOW"
  by (rule flag_set_other, simp add: TF_defs)+

lemma flags_apart_unmark:
  "(f AND NOT TF_TIMER_ONLIST) AND TF_FASTRECOVERY = f AND TF_FASTRECOVERY" "(f AND NOT TF_TIMER_ONLIST) AND TF_NEEDFIN = f AND TF_NEEDFIN"
  "(f AND NOT TF_TIMER_ONLIST) AND TF_SLOWLINK = f AND TF_SLOWLINK" "(f AND NOT TF_TIMER_ONLIST) AND TF_CLOSING = f AND TF_CLOSING"
  "(f AND NOT TF_TIMER_ONLIST) AND TF_ACKNOW = f AND TF_ACKNOW"
  by (rule flag_cleared_other, simp add: TF_defs)+

lemma cleared_two: "a AND x = 0 \<Longrightarrow> b AND x = 0 \<Longrightarrow> (f AND NOT a AND NOT b) AND x = f AND x" for f :: u32
  using flag_cleared_other [of a x f] flag_cleared_other [of b x "f AND NOT a"] by (simp add: and.assoc)

lemma flags_apart_settled:
  "(f AND NOT TF_ACKNOW AND NOT TF_DELACK) AND TF_FASTRECOVERY = f AND TF_FASTRECOVERY"
  "(f AND NOT TF_ACKNOW AND NOT TF_DELACK) AND TF_NEEDFIN = f AND TF_NEEDFIN"
  "(f AND NOT TF_ACKNOW AND NOT TF_DELACK) AND TF_SLOWLINK = f AND TF_SLOWLINK"
  "(f AND NOT TF_ACKNOW AND NOT TF_DELACK) AND TF_CLOSING = f AND TF_CLOSING"
  by (rule cleared_two; simp add: TF_defs)+

lemma flags_apart_ext:
  "(f OR TF_RECV_THROTTLE) AND TF_FORCE = f AND TF_FORCE" "(f OR TF_BWMEAS_INPROGRESS) AND TF_FORCE = f AND TF_FORCE"
  by (rule flag_set_other, simp add: TFX_defs)+

lemmas idle_simps = keeps_acknow_def idle_frame_def IN_FASTRECOVERY_def flags_apart flags_apart_clear flags_apart_settled flags_apart_ext
  flags_apart_mark flags_apart_unmark

lemma idle_step:
  assumes "idle_time now tp < TCP_IDLETIMEOUT E tp"
  shows "\<exists>tp' i. out_idle E P now tp = Some (tp', out_loc_init\<lparr>o_idle := i\<rparr>) \<and> keeps_acknow tp tp'"
proof -
  let ?t = "tp\<lparr>t_flags := t_flags tp AND NOT TF_LASTIDLE\<rparr>"
  have "keeps_acknow tp ?t" "keeps_acknow tp (?t\<lparr>t_flags := t_flags ?t OR TF_LASTIDLE\<rparr>)" by (simp_all add: idle_simps)
  then show ?thesis using assms by (auto simp: out_idle_def Let_def)
qed

text \<open>The local variables of a pure acknowledgement.\<close>

definition pure_ack :: "out_loc \<Rightarrow> bool" where
  "pure_ack L \<longleftrightarrow> o_len L = 0 \<and> \<not> o_rxmit L \<and> \<not> o_rescue L \<and> o_flags L = TH_ACK \<and> \<not> o_tso L \<and> \<not> o_sendalot L"

lemma ack_flag: "\<not> has_flag TH_ACK TH_SYN" "\<not> has_flag TH_ACK TH_FIN" "\<not> has_flag TH_ACK TH_RST" "TH_ACK AND NOT TH_FIN = TH_ACK"
  by (simp_all add: TH_defs)

lemma seq_same_not_less: "\<not> seq_lt x x" "\<not> seq_gt x x" by (simp_all add: seq_lt_def seq_gt_def)

lemma sint_nonzero: "(x :: u32) \<noteq> 0 \<Longrightarrow> sint x \<noteq> 0"
  by (metis signed_0 signed_word_eqI)

lemma amount_quiet:
  assumes "quiet E tp" "reply_lawful E"
  shows "\<exists>L. out_amount E (tp, out_loc_init\<lparr>o_idle := i\<rparr>) = Some (False, tp, L) \<and> pure_ack L \<and> o_sendwin L \<noteq> 0"
proof -
  have w: "umin (snd_wnd tp) (snd_cwnd tp) \<noteq> 0"
    using assms(1) sint_nonzero [of "min (snd_wnd tp) (snd_cwnd tp)"] by (auto simp: umin_def quiet_def min_def)
  show ?thesis
    using assms w
    by (simp add: quiet_def reply_lawful_def out_amount_def out_adjust_def out_begin_def out_scoreboard_def out_force_def out_new_data_def
        out_cap_def out_syn_def out_loc_init_def pure_ack_def seq_same_not_less ack_flag Let_def)
qed

lemma autosize_quiet:
  assumes "reply_lawful E"
  shows "keeps_acknow tp (fst (out_autosize E (tp, L)))" "snd (out_autosize E (tp, L)) = L"
proof -
  have k: "keeps_acknow tp (upd_snd (\<lambda>_. sb) tp)" if "sb_cc sb = sb_cc (so_snd (out_so tp))" for sb
    using that by (simp add: idle_simps upd_snd_def Let_def)
  have c: "sb_cc (snd (sbreserve E sb n)) = sb_cc sb" for sb n using assms by (simp add: reply_lawful_def)
  obtain ok sb where r: "sbreserve E (so_snd (out_so tp)) (min (sb_hiwat (so_snd (out_so tp)) + tcp_autosndbuf_inc E) (tcp_autosndbuf_max E)) = (ok, sb)"
    by (meson surj_pair)
  then have "sb_cc sb = sb_cc (so_snd (out_so tp))" using c by (metis snd_conv)
  then show "keeps_acknow tp (fst (out_autosize E (tp, L)))" using k by (simp add: out_autosize_def Let_def r)
  show "snd (out_autosize E (tp, L)) = L" by (simp add: out_autosize_def Let_def split: prod.split)
qed

lemma upd_rcv_idle: "keeps_acknow tp (upd_rcv f tp)"
  by (simp add: idle_simps upd_rcv_def Let_def)

lemma recwin_quiet:
  assumes "\<not> is_subflow E tp"
  shows "\<exists>tp' w. out_recwin E now (tp, L) = Some (tp', L\<lparr>o_recwin := w\<rparr>) \<and> keeps_acknow tp tp'"
proof -
  obtain w0 tp0 where s: "tcp_sbspace E tp = (w0, tp0)" by (cases "tcp_sbspace E tp")
  have "tp0 = tcp_sbrcv_grow_rwin E tp" using s by (simp add: tcp_sbspace_def Let_def split: if_splits)
  moreover have "tcp_sbrcv_grow_rwin E tp = tp \<or> (\<exists>f. tcp_sbrcv_grow_rwin E tp = upd_rcv f tp)"
    by (simp add: tcp_sbrcv_grow_rwin_def Let_def) blast
  ultimately have 0: "keeps_acknow tp tp0" using upd_rcv_idle by fastforce
  have t: "keeps_acknow tp0 (snd (tcp_recv_throttle E now tp0))"
    by (simp add: tcp_recv_throttle_def idle_simps upd_rcv_def Let_def)
  obtain w1 tp1 where b: "recwin_background E now (recwin_silly E tp0 w0) tp0 = (w1, tp1)"
    by (cases "recwin_background E now (recwin_silly E tp0 w0) tp0")
  have 1: "keeps_acknow tp0 tp1"
    using b t by (auto simp: recwin_background_def Let_def split: if_splits option.splits prod.splits)
  have k: "keeps_acknow tp tp1" by (rule keeps_acknow_trans [OF 0 1])
  then have "\<not> is_subflow E tp1" using assms by (simp add: keeps_acknow_def idle_frame_def)
  then have "\<exists>w. out_recwin E now (tp, L) = Some (tp1, L\<lparr>o_recwin := w\<rparr>)"
    by (simp add: out_recwin_def s b recwin_promise_def Let_def) (rule exI, rule refl)
  then show ?thesis using k by blast
qed

lemma shape_quiet:
  assumes "quiet E tp" "reply_lawful E" "pure_ack L" "o_sendwin L \<noteq> 0"
  shows "\<exists>tp' L'. out_shape E now (tp, L) = Some (tp', L') \<and> keeps_acknow tp tp' \<and> pure_ack L'"
proof -
  have 1: "out_no_data E (tp, L) = (tp, L)" using assms(3) by (simp add: out_no_data_def pure_ack_def ack_flag Let_def)
  have 2: "out_persist E now (tp, L) = (tp, L)" using assms(3,4) by (simp add: out_persist_def pure_ack_def ack_flag Let_def)
  define tp1 where "tp1 = fst (out_autosize E (tp, L))"
  have 3: "out_autosize E (tp, L) = (tp1, L)" "keeps_acknow tp tp1"
    using autosize_quiet [OF assms(2), of tp L] by (simp_all add: tp1_def prod_eq_iff)
  have q: "quiet E tp1" using quiet_frame [OF assms(1)] 3(2) by (simp add: keeps_acknow_def)
  obtain L2 where 4: "out_segment E (tp1, L) = (tp1, L2)" "pure_ack L2"
    using assms(3) by (auto simp: out_segment_def pure_ack_def umin_def Let_def)
  have 5: "out_mptcp E (tp1, L2) = (tp1, L2)" using q by (simp add: out_mptcp_def quiet_def)
  have 6: "out_fin (tp1, L2) = (tp1, L2)" using q 4(2) by (simp add: out_fin_def quiet_def pure_ack_def seq_same_not_less Let_def)
  have "\<not> is_subflow E tp1" using q by (simp add: quiet_def)
  from recwin_quiet [OF this, of now L2] obtain tp2 w where 7: "out_recwin E now (tp1, L2) = Some (tp2, L2\<lparr>o_recwin := w\<rparr>)" "keeps_acknow tp1 tp2"
    by blast
  have "out_shape E now (tp, L) = Some (tp2, L2\<lparr>o_recwin := w\<rparr>)" by (simp add: out_shape_def 1 2 3 4 5 6 7)
  moreover have "pure_ack (L2\<lparr>o_recwin := w\<rparr>)" using 4(2) by (simp add: pure_ack_def)
  ultimately show ?thesis using keeps_acknow_trans [OF 3(2) 7(2)] by blast
qed

lemma decide_quiet:
  assumes "pure_ack L" "has_flag (t_flags tp) TF_ACKNOW"
  shows "\<exists>tp'. out_decide E now us (tp, L) = OSend tp' L \<and> keeps_acknow tp tp'"
proof -
  have "keeps_acknow tp (set_timer TCPT_DELACK x (tp\<lparr>t_flags := t_flags tp OR TF_DELACK\<rparr>))" for x
    by (simp add: idle_simps set_timer_def)
  then have "\<exists>go tp1. out_window_update E (tp, L) = (go, tp1, L) \<and> keeps_acknow tp tp1" by (auto simp: out_window_update_def)
  then obtain go tp1 where w: "out_window_update E (tp, L) = (go, tp1, L)" "keeps_acknow tp tp1" by blast
  define tp2 where "tp2 = (if t_forced_acks tp1 > 0 then tp1\<lparr>t_forced_acks := t_forced_acks tp1 - 1\<rparr> else tp1)"
  have k: "keeps_acknow tp1 tp2" by (simp add: tp2_def idle_simps)
  have "has_flag (t_flags tp1) TF_ACKNOW" using w(2) assms(2) by (simp add: keeps_acknow_def)
  then have "out_owed (tp1, L) = (True, tp2, L)" by (simp add: out_owed_def tp2_def)
  moreover have "out_data_send E us (tp, L) = (False, tp, L)" using assms(1) by (simp add: out_data_send_def pure_ack_def)
  ultimately have "out_decide E now us (tp, L) = OSend (if go then tp1 else tp2) L" by (simp add: out_decide_def w(1))
  moreover have "keeps_acknow tp (if go then tp1 else tp2)" using w(2) keeps_acknow_trans [OF w(2) k] by simp
  ultimately show ?thesis by blast
qed

lemma header_quiet:
  assumes "quiet E tp" "pure_ack L" "out_header E (tp, L) = (th, tp')"
  shows "idle_frame tp tp'" "th_seq th = snd_max tp" "th_ack th = rcv_nxt tp" "th_flags th = TH_ACK \<or> th_flags th = TH_ACK OR TH_URG"
proof -
  have s: "out_seq E (tp, L) = (snd_max tp, tp)" using assms(1,2) by (simp add: out_seq_def pure_ack_def quiet_def ack_flag Let_def)
  obtain win tp1 where w: "out_window E (tp, L) = (win, tp1)" by (cases "out_window E (tp, L)")
  have "idle_frame tp (snd (out_window E (tp, L)))" by (simp add: out_window_def idle_simps Let_def)
  then have k: "idle_frame tp tp1" by (simp add: w)
  obtain fl urp tp2 where u: "out_urgent (tp1, L) = (fl, urp, tp2)" by (cases "out_urgent (tp1, L)") auto
  then have k2: "idle_frame tp1 tp2" "fl = TH_ACK \<or> fl = TH_ACK OR TH_URG"
    using assms(2) by (auto simp: out_urgent_def pure_ack_def idle_simps split: if_splits)
  have e: "th = \<lparr>th_seq = snd_max tp, th_ack = rcv_nxt tp2, th_flags = fl, th_win = win, th_urp = urp\<rparr>" "tp' = tp2"
    using assms(3) by (auto simp: out_header_def s w u Let_def)
  show "idle_frame tp tp'" "th_seq th = snd_max tp" "th_ack th = rcv_nxt tp" "th_flags th = TH_ACK \<or> th_flags th = TH_ACK OR TH_URG"
    using idle_frame_trans [OF k k2(1)] k2(2) by (simp_all add: e idle_frame_def)
qed

lemma advance_quiet:
  assumes "quiet E tp" "pure_ack L"
  shows "\<exists>tp'. out_advance E now (tp, L) = (tp', L) \<and> idle_frame tp tp'"
proof -
  have c: "advance_control (tp, L) = tp" using assms by (simp add: advance_control_def out_count_fin_def pure_ack_def ack_flag)
  have d: "advance_data now start (tp, L) = (tp, L)" for start
    using assms by (simp add: advance_data_def advance_max_def pure_ack_def quiet_def seq_same_not_less)
  have t: "advance_timer E (tp, L) = arm_tlp E 0 tp" using assms by (simp add: advance_timer_def pure_ack_def quiet_def ack_flag Let_def)
  have "idle_frame tp (arm_tlp E 0 tp)" by (simp add: arm_tlp_def set_timer_def idle_simps)
  then show ?thesis using assms by (simp add: out_advance_def c d t quiet_def pure_ack_def Let_def)
qed

lemma transmit_quiet:
  assumes "quiet E tp" "pure_ack L" "optlen + ipoptlen \<le> t_maxopd tp"
  shows "\<exists>th tp'. out_transmit E now optlen ipoptlen hdrlen (tp, L) = (th, tp', L) \<and> idle_frame tp tp'
    \<and> th_seq th = snd_max tp \<and> th_ack th = rcv_nxt tp \<and> (th_flags th = TH_ACK \<or> th_flags th = TH_ACK OR TH_URG)"
proof -
  have z: "o_len L = 0" "o_flags L = TH_ACK" using assms(2) by (simp_all add: pure_ack_def)
  define tp1 where "tp1 = (out_send_mark E (tp, L))\<lparr>t_dsack_lseq := 0, t_dsack_rseq := 0\<rparr>"
  have 1: "idle_frame tp tp1" using z by (simp add: tp1_def out_send_mark_def idle_simps Let_def)
  define tp2 where "tp2 = out_bwmeas now tp1"
  have 2: "idle_frame tp1 tp2" by (simp add: tp2_def out_bwmeas_def idle_simps Let_def split: option.split)
  have f: "out_fit E optlen ipoptlen hdrlen (tp1, L) = L"
    using assms(3) 1 z by (simp add: out_fit_def idle_frame_def not_less)
  have n: "out_note_data optlen ipoptlen (tp2, L) = tp2" "out_push (tp2, L) = L" using z by (simp_all add: out_note_data_def out_push_def)
  have q: "quiet E tp2" using quiet_frame [OF assms(1) idle_frame_trans [OF 1 2]] by simp
  obtain th tp3 where h: "out_header E (tp2, L) = (th, tp3)" by (cases "out_header E (tp2, L)")
  note h' = header_quiet [OF q assms(2) h]
  obtain tp4 where a: "out_advance E now (tp3, L) = (tp4, L)" "idle_frame tp3 tp4"
    using advance_quiet [of E tp3 L now] quiet_frame [OF q h'(1)] assms(2) by blast
  have k: "idle_frame tp4 (out_count th (tp4, L))" by (simp add: out_count_def idle_simps Let_def)
  have e: "out_transmit E now optlen ipoptlen hdrlen (tp, L) = (th, out_count th (tp4, L), L)"
    using z f n h a(1) by (simp add: out_transmit_def out_syn_start_def ack_flag Let_def tp1_def tp2_def)
  have "idle_frame tp (out_count th (tp4, L))"
    using idle_frame_trans [OF idle_frame_trans [OF 1 2]] idle_frame_trans [OF h'(1) idle_frame_trans [OF a(2) k]] by blast
  moreover have "snd_max tp2 = snd_max tp" "rcv_nxt tp2 = rcv_nxt tp" using idle_frame_trans [OF 1 2] by (simp_all add: idle_frame_def)
  ultimately show ?thesis using e h'(2-4) by auto
qed

lemma mark_keeps: "mark_only tp tp' \<Longrightarrow> keeps_acknow tp tp'"
  by (auto simp: mark_only_def idle_simps)

lemma check_timers_mark: "tcp_check_timers E now k s = Some s' \<Longrightarrow> mark_only (tc_tp (ts_conn s k)) (tc_tp (ts_conn s' k))"
  by (auto simp: tcp_check_timers_def tcp_set_lotimer_index_def entry_set_def tcp_sched_timers_def tcp_remove_timer_def upd_conn_def
      upd_list_def on_list_def off_list_def mark_only_def Let_def split: if_splits option.splits prod.splits)

lemma sent_quiet:
  assumes "reply_lawful E"
  shows "idle_frame tp (out_sent E tp)" "\<not> has_flag (t_flags (out_sent E tp)) TF_ACKNOW"
proof -
  let ?t = "out_cleared (tp\<lparr>t_pktlist_head := None, t_pktlist_tail := None, t_lastchain := 0, t_pktlist_sentlen := 0\<rparr>)"
  have "idle_frame tp ?t" by (simp add: out_cleared_def set_timer_def idle_simps)
  moreover have k: "keeps_acknow ?t (tcp_check_timer_state E ?t)" using assms mark_keeps by (simp add: reply_lawful_def)
  ultimately show "idle_frame tp (out_sent E tp)" unfolding out_sent_def keeps_acknow_def by (blast intro: idle_frame_trans)
  have "\<not> has_flag (t_flags ?t) TF_ACKNOW" by (auto simp: out_cleared_def bit_eq_iff bit_simps)
  then show "\<not> has_flag (t_flags (out_sent E tp)) TF_ACKNOW" using k by (simp add: out_sent_def keeps_acknow_def)
qed

subsection \<open>The call\<close>

lemma once_quiet:
  assumes "quiet E tp" "reply_lawful E" "has_flag (t_flags tp) TF_ACKNOW"
    and "idle_time now tp < TCP_IDLETIMEOUT E tp" "optlen + ipoptlen \<le> t_maxopd tp"
  shows "\<exists>th tp'. out_once E P now us optlen ipoptlen hdrlen tp = Some (th, 0, tp') \<and> idle_frame tp tp'
    \<and> \<not> has_flag (t_flags tp') TF_ACKNOW \<and> th_seq th = snd_max tp \<and> th_ack th = rcv_nxt tp \<and> (th_flags th = TH_ACK \<or> th_flags th = TH_ACK OR TH_URG)"
proof -
  obtain tp1 i where 1: "out_idle E P now tp = Some (tp1, out_loc_init\<lparr>o_idle := i\<rparr>)" "keeps_acknow tp tp1"
    using idle_step [OF assms(4)] by blast
  have q1: "quiet E tp1" using quiet_frame [OF assms(1)] 1(2) by (simp add: keeps_acknow_def)
  obtain L where 2: "out_amount E (tp1, out_loc_init\<lparr>o_idle := i\<rparr>) = Some (False, tp1, L)" "pure_ack L" "o_sendwin L \<noteq> 0"
    using amount_quiet [OF q1 assms(2)] by blast
  obtain tp2 L2 where 3: "out_shape E now (tp1, L) = Some (tp2, L2)" "keeps_acknow tp1 tp2" "pure_ack L2"
    using shape_quiet [OF q1 assms(2) 2(2,3)] by blast
  have a: "keeps_acknow tp tp2" by (rule keeps_acknow_trans [OF 1(2) 3(2)])
  then have "has_flag (t_flags tp2) TF_ACKNOW" using assms(3) by (simp add: keeps_acknow_def)
  from decide_quiet [OF 3(3) this, of E now us] obtain tp3 where 4: "out_decide E now us (tp2, L2) = OSend tp3 L2" "keeps_acknow tp2 tp3"
    by blast
  have k: "idle_frame tp tp3" using keeps_acknow_trans [OF a 4(2)] by (simp add: keeps_acknow_def)
  then have q3: "quiet E tp3" "optlen + ipoptlen \<le> t_maxopd tp3"
    using quiet_frame [OF assms(1)] assms(5) by (simp_all add: idle_frame_def)
  obtain th tp4 where 5: "out_transmit E now optlen ipoptlen hdrlen (tp3, L2) = (th, tp4, L2)" "idle_frame tp3 tp4"
      "th_seq th = snd_max tp3" "th_ack th = rcv_nxt tp3" "th_flags th = TH_ACK \<or> th_flags th = TH_ACK OR TH_URG"
    using transmit_quiet [OF q3(1) 3(3) q3(2)] by blast
  have q4: "quiet E tp4" using quiet_frame [OF q3(1) 5(2)] by simp
  have "out_once E P now us optlen ipoptlen hdrlen tp = Some (th, 0, out_sent E tp4)"
    using 3(3) q1 q4 by (simp add: out_once_def out_pass_def 1 2 3 4 5 pure_ack_def quiet_def)
  moreover have "idle_frame tp (out_sent E tp4)"
    using idle_frame_trans [OF idle_frame_trans [OF k 5(2)] sent_quiet(1) [OF assms(2)]] .
  ultimately show ?thesis using 5(3-5) k sent_quiet(2) [OF assms(2), of tp4] by (auto simp: idle_frame_def)
qed

text \<open>
  The answer to an arriving segment: \<^verbatim>\<open>tcp_input\<close> notes the time of arrival (tcp_input.c:3083), checks the segment, and where
  the checks end in an acknowledgement \<^verbatim>\<open>tcp_output\<close> is called in the state they leave; answered means that this call sends a segment.
\<close>

definition output_answer ::
  "'e arr_env_scheme \<Rightarrow> 'o out_env_scheme \<Rightarrow> cubic_params \<Rightarrow> (u32 \<Rightarrow> u64) \<Rightarrow> u32 \<Rightarrow> u32 \<Rightarrow> u32 \<Rightarrow> seg_in \<Rightarrow> u32 \<Rightarrow> tcpcb \<Rightarrow> bool \<times> tcpcb" where
  "output_answer E F P us optlen ipoptlen hdrlen s now tp =
     (let (wanted, tp) = ack_reply (E\<lparr>tcp_output := \<lambda>tp. tp\<rparr>) s now (tp\<lparr>t_rcvtime := now\<rparr>)
      in if wanted
         then (case out_once F P now (us now) optlen ipoptlen hdrlen tp of Some (th, len, tp) \<Rightarrow> (True, tp) | None \<Rightarrow> (False, tp))
         else (False, tp))"

lemma flags_apart_acknow:
  "(f OR TF_ACKNOW) AND TF_FASTRECOVERY = f AND TF_FASTRECOVERY" "(f OR TF_ACKNOW) AND TF_NEEDFIN = f AND TF_NEEDFIN"
  "(f OR TF_ACKNOW) AND TF_SLOWLINK = f AND TF_SLOWLINK" "(f OR TF_ACKNOW) AND TF_CLOSING = f AND TF_CLOSING"
  by (rule flag_set_other, simp add: TF_defs)+

lemma quiet_same:
  "quiet E (tp\<lparr>t_rcvtime := t\<rparr>) = quiet E tp" "same_position (tp\<lparr>t_rcvtime := t\<rparr>) tp' = same_position tp tp'"
  "quiet E (snd (tcp_is_ack_ratelimited F now tp)) = quiet E tp" "quiet E (set_acknow tp) = quiet E tp"
  "same_position (set_acknow tp) tp' = same_position tp tp'"
  by (simp_all add: quiet_def same_position_def IN_FASTRECOVERY_def tcp_is_ack_ratelimited_def set_acknow_def
      flags_apart_acknow Let_def)

lemma is_trigger_cong: "same_position tp tp' \<Longrightarrow> is_trigger s tp' = is_trigger s tp"
  by (simp add: is_trigger_def syn_trigger_def rst_trigger_def ack_trigger_def same_position_def)

definition probed :: "'o out_env_scheme \<Rightarrow> u32 \<Rightarrow> seg_in \<Rightarrow> tcpcb \<Rightarrow> bool" where
  "probed F optlens s tp \<longleftrightarrow> reply_lawful F \<and> quiet F tp \<and> optlens \<le> t_maxopd tp \<and> is_trigger s tp"

text \<open>What the checks make of a trigger, up to the call of \<^verbatim>\<open>tcp_output\<close>.\<close>

lemma trigger_reply:
  assumes "is_trigger s tp" "tcp_is_ack_ratelimited E now tp = (l, tq)"
  shows "ack_reply (E\<lparr>tcp_output := \<lambda>tp. tp\<rparr>) s now tp = (\<not> l, if l then tq else set_acknow tq)"
proof -
  let ?E = "E\<lparr>tcp_output := \<lambda>tp. tp\<rparr>"
  have "tcp_is_ack_ratelimited ?E now tp = tcp_is_ack_ratelimited E now tp" by (simp add: tcp_is_ack_ratelimited_def)
  then have l: "tcp_is_ack_ratelimited ?E now tp = (l, tq)" using assms(2) by simp
  have "t_state tq = TCPS_ESTABLISHED" using assms limiter_frame(1) [of E now tp] by (simp add: is_trigger_def)
  moreover have "seg_checks ?E now s tp = (if l then ADrop tq else AAck s tq)"
    using trigger_challenged [OF assms(1), of ?E now] l by (simp add: challenge_def)
  ultimately show ?thesis by (simp add: ack_reply_def segment_arrives_def dropafterack_def)
qed

lemma probed_reply:
  assumes "probed F (optlen + ipoptlen) s tp"
  shows "fst (output_answer E F P us optlen ipoptlen hdrlen s now tp) = (\<not> fst (tcp_is_ack_ratelimited E now tp))
    \<and> same_position (snd (tcp_is_ack_ratelimited E now tp)) (snd (output_answer E F P us optlen ipoptlen hdrlen s now tp))
    \<and> probed F (optlen + ipoptlen) s (snd (output_answer E F P us optlen ipoptlen hdrlen s now tp))"
proof -
  let ?tp = "tp\<lparr>t_rcvtime := now\<rparr>"
  obtain l tq where l: "tcp_is_ack_ratelimited E now ?tp = (l, tq)" by (cases "tcp_is_ack_ratelimited E now ?tp")
  have lt: "fst (tcp_is_ack_ratelimited E now tp) = l" "same_position (snd (tcp_is_ack_ratelimited E now tp)) tq"
    using l by (auto simp: tcp_is_ack_ratelimited_def same_position_def Let_def split: if_splits)
  have t: "is_trigger s ?tp" using assms is_trigger_cong [of tp ?tp s] by (simp add: probed_def same_position_def)
  have q: "quiet F tq" "idle_time now (set_acknow tq) < TCP_IDLETIMEOUT F (set_acknow tq)" "optlen + ipoptlen \<le> t_maxopd tq"
    using assms l quiet_same(3) [of F E now ?tp]
    by (auto simp: probed_def reply_lawful_def quiet_same idle_time_def tcp_is_ack_ratelimited_def set_acknow_def Let_def split: if_splits)
  have s: "is_trigger s tq" using assms is_trigger_cong [OF lt(2)] by (simp add: probed_def is_trigger_def syn_trigger_def rst_trigger_def ack_trigger_def)
  show ?thesis
  proof (cases l)
    case True
    then show ?thesis using trigger_reply [OF t l] lt q s assms by (simp add: output_answer_def probed_def)
  next
    case False
    have k: "t_maxopd (set_acknow tq) = t_maxopd tq" by (simp add: set_acknow_def)
    have "\<exists>th tp'. out_once F P now (us now) optlen ipoptlen hdrlen (set_acknow tq) = Some (th, 0, tp') \<and> idle_frame (set_acknow tq) tp'"
      using once_quiet [of F "set_acknow tq" now optlen ipoptlen P "us now" hdrlen] q k assms by (auto simp: probed_def quiet_same)
    then obtain th tp' where o: "out_once F P now (us now) optlen ipoptlen hdrlen (set_acknow tq) = Some (th, 0, tp')" "idle_frame (set_acknow tq) tp'"
      by blast
    have "quiet F (set_acknow tq)" using q(1) by (simp add: quiet_same)
    from quiet_frame [OF this o(2)] have f: "quiet F tp'" "same_position tq tp'" "optlen + ipoptlen \<le> t_maxopd tp'"
      using q(3) o(2) by (auto simp: quiet_same idle_frame_def k)
    have "output_answer E F P us optlen ipoptlen hdrlen s now tp = (True, tp')"
      using False trigger_reply [OF t l] o(1) by (simp add: output_answer_def)
    then show ?thesis using False lt f s is_trigger_cong [OF f(2)] assms by (auto simp: probed_def same_position_def)
  qed
qed

interpretation challenge_acks:
  fixed_window "output_answer E F P us optlen ipoptlen hdrlen s" t_challengeack_last t_challengeack_count "tcp_challengeack_limit E"
    "probed F (optlen + ipoptlen) s" for E F P us optlen ipoptlen hdrlen s
proof (unfold_locales, goal_cases)
  case (1 tp t)
  then show ?case using limiter.opens [of tp t E] probed_reply [OF 1(1), of E P us hdrlen t]
    by (auto simp: limiter_grants_def same_position_def split: prod.splits)
next
  case (2 tp t)
  then show ?case using limiter.grants [of tp t E] probed_reply [OF 2(1), of E P us hdrlen t]
    by (auto simp: limiter_grants_def same_position_def split: prod.splits)
next
  case (3 tp t)
  then show ?case using limiter.refuses [of tp t E] probed_reply [OF 3(1), of E P us hdrlen t]
    by (auto simp: limiter_grants_def same_position_def split: prod.splits)
next
  case (4 tp t)
  then show ?case using probed_reply by blast
qed

subsection \<open>Properties\<close>

definition demo_quiet :: tcpcb where
  "demo_quiet = demo_idle\<lparr>snd_wnd := 8000, snd_cwnd := 4000, t_maxseg := 1448, t_maxopd := 1460\<rparr>"

lemma demo_quiet_lawful: "reply_lawful out_env_zero" "quiet out_env_zero demo_quiet"
  by (simp_all add: reply_lawful_def quiet_def out_env_zero_simps out_flags_table_def demo_quiet_def demo_idle_def IN_FASTRECOVERY_def
      mark_only_def tcpcb_zero_def inpcb_zero_def socket_zero_def sockbuf_zero_def)

text \<open>
  Property C35. An acknowledgement that is owed leaves as exactly one segment and disturbs nothing. On an established connection
  with nothing to transmit, nothing unacknowledged, open windows and no close pending, a call of \<^verbatim>\<open>tcp_output\<close>
  with \<^verbatim>\<open>TF_ACKNOW\<close> set sends one segment without data, at the end of the sequence space used so far, that acknowledges
  everything received and carries the ACK flag, with at most URG beside it; it clears what was owed; and the state, the
  positions on both sides, the receive window and the limiter of challenge acknowledgements are as before, so that the connection is
  still one with nothing to transmit.
\<close>

theorem pure_ack_exact:
  assumes "quiet E tp" "reply_lawful E" "has_flag (t_flags tp) TF_ACKNOW"
    and "idle_time now tp < TCP_IDLETIMEOUT E tp" "optlen + ipoptlen \<le> t_maxopd tp"
  shows "\<exists>th tp'. out_once E P now us optlen ipoptlen hdrlen tp = Some (th, 0, tp')
    \<and> th_seq th = snd_max tp \<and> th_ack th = rcv_nxt tp \<and> (th_flags th = TH_ACK \<or> th_flags th = TH_ACK OR TH_URG)
    \<and> \<not> has_flag (t_flags tp') TF_ACKNOW \<and> same_position tp tp' \<and> quiet E tp'"
  using once_quiet [OF assms, of P us hdrlen] quiet_frame [OF assms(1)] by blast

theorem pure_ack_exact_witness:
  "\<exists>th tp'. out_once out_env_zero cubic_params_init 7 0 12 0 40 (set_acknow demo_quiet) = Some (th, 0, tp')
    \<and> th_seq th = 900 \<and> th_ack th = 5000 \<and> quiet out_env_zero tp'"
proof -
  let ?t = "set_acknow demo_quiet"
  have t: "snd_max ?t = 900" "rcv_nxt ?t = 5000" "idle_time 7 ?t < TCP_IDLETIMEOUT out_env_zero ?t" "12 + 0 \<le> t_maxopd ?t"
    by (simp_all add: idle_time_def out_env_zero_simps demo_quiet_def demo_idle_def tcpcb_zero_def set_acknow_def)
  have "quiet out_env_zero ?t" "has_flag (t_flags ?t) TF_ACKNOW" by (simp_all add: quiet_same demo_quiet_lawful)
  from pure_ack_exact [OF this(1) demo_quiet_lawful(1) this(2) t(3,4), of cubic_params_init 0 40] show ?thesis using t(1,2) by auto
qed

text \<open>
  Property C34. What \<^verbatim>\<open>exp_challenge_ack\<close> predicts of the kernel, for each of its three triggers (a SYN, an
  in-window reset that is not at the left edge, an acknowledgement of data never sent), sent to an established connection with
  nothing to transmit: of the segments of a first burst within one second exactly as many are answered by an
  acknowledgement as the limit says, of a second burst in the same second none, and of a third burst that starts later, at least a
  second after the first segment of all, again exactly as many as the limit; the state that counts is the connection's own. A segment is
  answered when the checks of \<^verbatim>\<open>tcp_input\<close> call \<^verbatim>\<open>tcp_output\<close> and this call sends a segment.
\<close>

theorem challenge_bursts:
  assumes "reply_lawful F" "quiet F tp" "optlen + ipoptlen \<le> t_maxopd tp" "is_trigger s tp"
    and "window_over (t_challengeack_last tp) t1" "t1 \<noteq> 0" "tcp_challengeack_limit E \<noteq> 0"
    and "\<forall>u\<in>set (ts1 @ ts2). unat (u - t1) < 1000"
    and "unat (tcp_challengeack_limit E) \<le> Suc (length ts1)" "unat (tcp_challengeack_limit E) \<le> Suc (length ts3)"
    and "1000 \<le> unat (t3 - t1)" "unat (t3 - t1) < 2 ^ 31" "t3 \<noteq> 0" "\<forall>u\<in>set ts3. unat (u - t3) < 1000"
    and "answer = output_answer E F P us optlen ipoptlen hdrlen s"
    and "tp1 = snd (replies answer (t1 # ts1) tp)" "tp2 = snd (replies answer ts2 tp1)"
  shows "fst (replies answer (t1 # ts1) tp) = unat (tcp_challengeack_limit E)
    \<and> fst (replies answer ts2 tp1) = 0
    \<and> fst (replies answer (t3 # ts3) tp2) = unat (tcp_challengeack_limit E)"
proof -
  have "probed F (optlen + ipoptlen) s tp" using assms(1-4) by (simp add: probed_def)
  from challenge_acks.three_bursts [OF this assms(5-7) bspec [OF assms(8)] assms(9-13) bspec [OF assms(14)]
      assms(16,17) [unfolded assms(15)]]
  show ?thesis by (simp only: assms(15))
qed

theorem challenge_bursts_witness:
  "\<exists>answer. answer = output_answer (arr_env_zero 2) out_env_zero cubic_params_init (\<lambda>_. 0) 12 0 40 (arr_seg TH_RST 5010 900 0)
    \<and> fst (replies answer [100, 101, 102] demo_quiet) = 2
    \<and> fst (replies answer [400, 1099] (snd (replies answer [100, 101, 102] demo_quiet))) = 0"
proof -
  have "tcp_challengeack_limit (arr_env_zero 2) = 2" "window_over (t_challengeack_last demo_quiet) 100" "12 + 0 \<le> t_maxopd demo_quiet"
    by (simp_all add: arr_env_zero_simps demo_quiet_def demo_idle_def tcpcb_zero_def window_over_def)
  moreover have "is_trigger (arr_seg TH_RST 5010 900 0) demo_quiet"
    by (simp add: is_trigger_def rst_trigger_def arr_seg_def demo_quiet_def demo_idle_def tcpcb_zero_def tcphdr_zero_def seq_gt_def
        seq_lt_def TH_SYN_def TH_RST_def)
  ultimately show ?thesis
    using challenge_bursts [OF demo_quiet_lawful(1,2) _ _ _ _ _ _ _ _ _ _ _ _ refl refl refl, of 12 0 "arr_seg TH_RST 5010 900 0" 100
        "arr_env_zero 2" "[101, 102]" "[400, 1099]" "[1101]" 1100 cubic_params_init "\<lambda>_. 0" 40]
    by (simp del: replies.simps)
qed

end
