(* ===== verification/Spec2Isabelle.thy ===== *)
theory Spec2Isabelle
  imports Predictions TimerList SegQueue LearnerRun Reply
begin

text \<open>
  Verification of \<^verbatim>\<open>tcp_probe\<close>, a program that speaks TCP from user space over a tunnel device
  to measure how the TCP stack of the kernel recovers from loss, together with the part of
  that stack whose sources it keeps for reference. All paths are relative to \<^verbatim>\<open>src/\<close>.

  \<^bold>\<open>The parts and how they interact.\<close> The probe (\<^verbatim>\<open>include/tp\<close>, \<^verbatim>\<open>src\<close>) opens a tunnel device,
  builds and parses TCP segments, drives a handshake against the kernel, receives what the
  kernel sends through a loss policy that discards chosen byte ranges, reassembles the rest,
  acknowledges it after a configured delay, and writes a trace. Kernel knobs are changed for
  the duration of an experiment and restored. On the other side of the device runs the
  kernel stack (\<^verbatim>\<open>reference/xnu\<close>), whose reaction is what is measured: its option parser
  reads what the probe's encoder wrote, its recovery code answers the probe's duplicate
  acknowledgements and silences, its congestion control sets the window.

  \<^bold>\<open>Theories of the probe.\<close>
  \<^item> \<open>Prelude\<close>: word synonyms, flags, byte strings and the shared lemma collections.
  \<^item> \<open>Seq\<close> (\<^verbatim>\<open>include/tp/seq.hpp\<close>): comparisons of 32-bit sequence numbers; exact within half
    the sequence space.
  \<^item> \<open>Checksum\<close> (\<^verbatim>\<open>include/tp/checksum.hpp\<close>): the Internet checksum, in closed form.
  \<^item> \<open>Segment\<close> (\<^verbatim>\<open>include/tp/segment.hpp\<close>, \<^verbatim>\<open>src/segment.cpp\<close>): option encoder, packet builder
    and parser. Round trips, checksums, and that no read leaves the frame: a read beyond it
    would make the value of \<open>parse\<close> the outer \<open>None\<close>.
  \<^item> \<open>Reassembly\<close> (\<^verbatim>\<open>src/reassembly.cpp\<close>): refines a set of received positions. The locale
    \<open>stream_receiver\<close> is the contract of a receiver; the class interprets it, and order
    independence, completeness and arrival times are proved once in the locale.
  \<^item> \<open>Policy\<close> (\<^verbatim>\<open>src/policy.cpp\<close>): when a segment is discarded, and the budget of a rule.
  \<^item> \<open>Sysctl\<close> (\<^verbatim>\<open>src/sysctl.cpp\<close>): the scoped knob changes, for every sequence of constructions
    and destructions, with a restore at every moment.
  \<^item> \<open>Trace\<close> (\<^verbatim>\<open>src/trace.cpp\<close>), \<open>Utun\<close> (\<^verbatim>\<open>src/utun.cpp\<close>), \<open>Peer\<close> (\<^verbatim>\<open>src/peer.cpp\<close>): the event
    log and its CSV form, the device, the synthetic peer with its whole state; \<open>PeerRun\<close>
    proves what a run guarantees.
  \<^item> \<open>Clock\<close> (\<^verbatim>\<open>src/clock.cpp\<close>): readings in milliseconds, and a sleep that outlasts signals.
  \<^item> \<open>Harness\<close> (\<^verbatim>\<open>experiments/harness.hpp\<close>): the set-up of the experiments and one scenario from
    handshake to reset, with every way it can fail; what it reports as lost is what the policy names.
  \<^item> \<open>Experiments\<close> (\<^verbatim>\<open>experiments\<close>): the five programs, as functions to the tables they print; that a row which
    is printed as a measurement is one, and that the knobs are restored.
  \<^item> \<open>Predictions\<close>: what the sweep of \<^verbatim>\<open>exp_dupack\<close> expects of the kernel, proved of the kernel's own code.

  The environment of the device and the peer is a script: the list of the results of the
  system calls and clock readings to come. An operation consumes the results of its own
  calls; its value is \<open>None\<close> when the script does not offer the result it asks for, so that
  the runs with a value are exactly the complete ones and the loops need no fuel: each turn
  of a loop shortens the script. Times are real numbers, so that the rounding of \<^verbatim>\<open>double\<close> is not
  represented.

  \<^bold>\<open>Theories of the kernel.\<close>
  \<^item> \<open>Tcpcb\<close> (\<^verbatim>\<open>tcp_var.h\<close>): the control block, its flags and macros, the conventions.
  \<^item> \<open>TcpSubr\<close> (\<^verbatim>\<open>tcp_subr.c\<close>): the clock, the pacer, window scale and receive space, the list
    of retransmitted ranges.
  \<^item> \<open>CongestionControl\<close> (\<^verbatim>\<open>tcp_cc.c\<close>) and \<open>Cubic\<close> (\<^verbatim>\<open>tcp_cubic.c\<close>): congestion-window
    validation, delayed acknowledgements, and all of CUBIC with single-precision rounding.
  \<^item> \<open>Recovery\<close> (\<^verbatim>\<open>tcp_input.c\<close>, \<^verbatim>\<open>tcp_timer.c\<close>, \<^verbatim>\<open>tcp_output.c\<close>): entering fast recovery, early
    retransmit, spurious timeouts, partial acknowledgements, flow control. The locale
    \<open>congestion_control\<close> is the contract an algorithm owes to this code; CUBIC interprets it.
  \<^item> \<open>TcpOptions\<close> (\<^verbatim>\<open>tcp_input.c\<close>): the option parser and what a SYN negotiates; here the two
    sides meet, since the options are those the probe's encoder wrote.
  \<^item> \<open>AccEcn\<close> (\<^verbatim>\<open>tcp_input.c\<close>, \<^verbatim>\<open>tcp_output.c\<close>): accurate ECN, from the negotiation on the SYN
    to the counters that cross in the three header bits and in the option.
  \<^item> \<open>DupAck\<close> (\<^verbatim>\<open>tcp_input.c\<close>): an acknowledgement at or below \<^verbatim>\<open>snd_una\<close>, which is what the probe
    answers a hole with: when it is counted, when it starts recovery, and when one alone does.
  \<^item> \<open>Rtt\<close> (\<^verbatim>\<open>tcp_input.c\<close>, \<^verbatim>\<open>tcp_output.c\<close>, \<^verbatim>\<open>tcp_timer.c\<close>): round-trip times, the timeout computed from
    them, the base round-trip time of a route, the persist and tail-loss-probe timers.
  \<^item> \<open>Timers\<close> (\<^verbatim>\<open>tcp_timer.c\<close>): the handlers of the timers, which are what the probe's silences run
    into: back-off, giving up, tail loss probes, keep-alives.
  \<^item> \<open>TimerList\<close> (\<^verbatim>\<open>tcp_timer.c\<close>): the list that runs them: no timer is lost or served late, and
    counting from a new start keeps every deadline.
  \<^item> \<open>Arrival\<close> (\<^verbatim>\<open>tcp_input.c\<close>): what is checked of a segment on a synchronised connection before its data
    and acknowledgement count: SYN, reset, timestamps, window, acknowledgement number, with the limiter of
    challenge acknowledgements. The locale \<open>fixed_window\<close> is the contract of a limiter, which the kernel's
    interprets.
  \<^item> \<open>Jitter\<close> (\<^verbatim>\<open>tcp_input.c\<close>): inter-arrival jitter with its integer square root, bandwidth measurement.
  \<^item> \<open>SegQueue\<close> (\<^verbatim>\<open>tcp_input.c\<close>): the kernel's own reassembly queue, against a stream of bytes.

  \<^item> \<open>Output\<close> (\<^verbatim>\<open>tcp_output.c\<close>): the decision of \<^verbatim>\<open>tcp_output\<close>: how much is sent under the windows, in recovery
    and by force, fast open, segmentation offload, the FIN, the receive window, Nagle, window updates, and
    which timer runs when nothing is sent. What is sent lies in the windows and the buffer, and data in
    the buffer never waits without a timer.
  \<^item> \<open>Transmit\<close> (\<^verbatim>\<open>tcp_output.c\<close>): the segment that was decided on, from the label \<^verbatim>\<open>send\<close> to the backing out when the
    network layer refuses it: length, header, the advance of the send and receive variables. A promised window
    is not taken back and what is sent is covered by \<^verbatim>\<open>snd_max\<close> and the timer; three properties state where
    the treatment of the FIN falls short of that.
  \<^item> \<open>Reply\<close> (\<^verbatim>\<open>tcp_output.c\<close>): a whole call of \<^verbatim>\<open>tcp_output\<close> that sends one segment, which is what answers a challenge:
    on a connection with nothing to transmit it is exactly one acknowledgement and nothing moves. The answers to the three
    triggers of \<^verbatim>\<open>exp_challenge_ack\<close> interpret \<open>fixed_window\<close> on that call.

  Null dereferences and \<^verbatim>\<open>VERIFY\<close> panics are the value \<open>None\<close>, and the properties prove its
  absence. Functions, constants and variables of kernel files that are not among the sources
  are fields of environment records, each theory extending the record of the one below; what
  the code relies on is a named hypothesis, and each property with one has a witness on a
  concrete environment.

  \<^bold>\<open>Theories of the salvaged learner\<close> (\<^verbatim>\<open>reference/salvage/lstar.cpp\<close>), which infers a state machine of a
  TCP server from its answers and whose experiments ask how the limiter of challenge acknowledgements disturbs it.
  \<^item> \<open>Mealy\<close>: machines, the hand-written server, partition refinement, the search for a shortest separating
    word.
  \<^item> \<open>Oracle\<close>: the systems under learning, the cache of answers, the membership oracle. The locale
    \<open>deterministic_sul\<close> is what a system owes to a learner; the reference system, the broken mapper and the
    token bucket with a raised limit interpret it. Below that limit the bucket diverges, at a word that is computed.
  \<^item> \<open>WMethod\<close>: the characterizing set of a hypothesis and that it separates.
  \<^item> \<open>Learner\<close>: the observation table, its closing, the hypothesis, the analysis of counterexamples, the
    equivalence oracles and the main loop. The loop is a partial function; \<open>LearnerRun\<close> proves that it returns,
    since every counterexample adds a row, and what it returns. It is proved in the locale of \<open>Oracle\<close>.

  \<^bold>\<open>Not modelled.\<close> The rest of the main routine \<^verbatim>\<open>tcp_input\<close>; of \<^verbatim>\<open>tcp_output\<close> the check of
  the source address, the writing of the options, the buffer chain, the hand-over to the network layer and
  the list of sent segments; the connection set-up and lookup of \<^verbatim>\<open>tcp_subr.c\<close>; \<^verbatim>\<open>Trace::dump\<close>, \<^verbatim>\<open>print_knobs\<close> and the text
  the experiments print around their tables, which only format; of \<^verbatim>\<open>reference/salvage\<close> the measurement drivers, the main function and the
  random hunt of \<^verbatim>\<open>lstar.cpp\<close>, and its copy \<^verbatim>\<open>lstar_orig.cpp\<close>.
\<close>

end
